(* ===== verification/Prelude.thy ===== *)
theory Prelude
  imports Main "HOL-Library.Word" "HOL-Library.Multiset" "HOL-Library.Monad_Syntax"
begin

text \<open>
  Shared vocabulary of the development: the conversions the C code performs when it stores
  an \<open>int\<close> into a narrower field, C's truncating division, C strings, and the generic
  lemmas on lists, sums and options that the component theories use.
\<close>

section \<open>Fact collections\<close>

named_theorems frame_simps
  \<open>what an operation leaves unchanged\<close>

named_theorems conserve_simps
  \<open>quantities an operation preserves\<close>

section \<open>C integers\<close>

text \<open>
  An assignment to a \<open>short\<close>, \<open>char\<close> or unsigned field keeps the low bits of the value.
  The \<open>int\<close> arithmetic of the handlers is done in unbounded \<^typ>\<open>int\<close>; every place where the
  code narrows a value applies one of these conversions.
\<close>

definition s8 :: "int \<Rightarrow> int" where
  "s8 x = signed_take_bit 7 x"

definition s16 :: "int \<Rightarrow> int" where
  "s16 x = signed_take_bit 15 x"

definition s32 :: "int \<Rightarrow> int" where
  "s32 x = signed_take_bit 31 x"

definition u8 :: "int \<Rightarrow> int" where
  "u8 x = take_bit 8 x"

definition u16 :: "int \<Rightarrow> int" where
  "u16 x = take_bit 16 x"

definition u32 :: "int \<Rightarrow> int" where
  "u32 x = take_bit 32 x"

lemma s16_id: "- 32768 \<le> x \<Longrightarrow> x \<le> 32767 \<Longrightarrow> s16 x = x"
  unfolding s16_def by (rule signed_take_bit_int_eq_self) auto

lemma s32_id: "- 2147483648 \<le> x \<Longrightarrow> x \<le> 2147483647 \<Longrightarrow> s32 x = x"
  unfolding s32_def by (rule signed_take_bit_int_eq_self) auto

lemma u8_id: "0 \<le> x \<Longrightarrow> x \<le> 255 \<Longrightarrow> u8 x = x"
  unfolding u8_def by (rule take_bit_int_eq_self) auto

lemma u16_id: "0 \<le> x \<Longrightarrow> x \<le> 65535 \<Longrightarrow> u16 x = x"
  unfolding u16_def by (rule take_bit_int_eq_self) auto

lemma u32_id: "0 \<le> x \<Longrightarrow> x \<le> 4294967295 \<Longrightarrow> u32 x = x"
  unfolding u32_def by (rule take_bit_int_eq_self) auto

lemma s16_bounds: "- 32768 \<le> s16 x" "s16 x \<le> 32767"
  using signed_take_bit_int_greater_eq_minus_exp [of 15 x]
    signed_take_bit_int_less_exp [of 15 x]
  by (simp_all add: s16_def)

lemma s16_0 [simp]: "s16 0 = 0"
  by (simp add: s16_def)

lemma u8_bounds: "0 \<le> u8 x" "u8 x \<le> 255"
  using take_bit_int_less_exp [of 8 x] by (simp_all add: u8_def)

lemma u16_bounds: "0 \<le> u16 x" "u16 x \<le> 65535"
  using take_bit_int_less_exp [of 16 x] by (simp_all add: u16_def)

text \<open>C's \<open>/\<close> and \<open>%\<close> on \<open>int\<close> truncate towards zero; the divisor is never 0 where they are used.\<close>

definition cdiv :: "int \<Rightarrow> int \<Rightarrow> int" where
  "cdiv a b = sgn a * sgn b * (\<bar>a\<bar> div \<bar>b\<bar>)"

definition cmod :: "int \<Rightarrow> int \<Rightarrow> int" where
  "cmod a b = a - cdiv a b * b"

lemma cdiv_nonneg: "0 \<le> a \<Longrightarrow> 0 < b \<Longrightarrow> cdiv a b = a div b"
  by (cases "a = 0") (auto simp: cdiv_def sgn_if)

lemma cmod_nonneg: "0 \<le> a \<Longrightarrow> 0 < b \<Longrightarrow> cmod a b = a mod b"
  by (simp add: cmod_def cdiv_nonneg minus_div_mult_eq_mod)

section \<open>C strings\<close>

text \<open>
  A C string is the list of its bytes up to, and without, the terminating NUL.
  \<open>strncpy_buf n s\<close> is the string left in a zeroed buffer of more than \<open>n\<close> bytes by
  \<open>strncpy(buf, s, n)\<close>.
\<close>

definition NUL :: char where
  "NUL = CHR 0x00"

definition cstr :: "string \<Rightarrow> string" where
  "cstr s = takeWhile (\<lambda>c. c \<noteq> NUL) s"

definition strncpy_buf :: "nat \<Rightarrow> string \<Rightarrow> string" where
  "strncpy_buf n s = take n (cstr s)"

lemma cstr_no_nul: "NUL \<notin> set s \<Longrightarrow> cstr s = s"
  unfolding cstr_def by (rule takeWhile_eq_all_conv [THEN iffD2]) auto

lemma set_cstr: "NUL \<notin> set (cstr s)"
  unfolding cstr_def by (auto dest: set_takeWhileD)

lemma length_strncpy_buf: "length (strncpy_buf n s) \<le> n"
  by (simp add: strncpy_buf_def)

section \<open>Lists as arrays\<close>

lemma find_append:
  "find P (xs @ ys) = (case find P xs of None \<Rightarrow> find P ys | Some x \<Rightarrow> Some x)"
  by (induction xs) auto

lemma find_None: "(\<And>x. x \<in> set xs \<Longrightarrow> \<not> P x) \<Longrightarrow> find P xs = None"
  by (auto simp: find_None_iff)

lemma find_Some_in: "find P xs = Some x \<Longrightarrow> x \<in> set xs \<and> P x"
  by (auto simp: find_Some_iff)

lemma distinct_concat_nth:
  assumes "\<And>i. i < length xss \<Longrightarrow> distinct (xss ! i)"
    and "\<And>i j x. i < length xss \<Longrightarrow> j < length xss \<Longrightarrow>
      x \<in> set (xss ! i) \<Longrightarrow> x \<in> set (xss ! j) \<Longrightarrow> i = j"
  shows "distinct (concat xss)"
  using assms
proof (induction xss)
  case (Cons xs xss)
  have "distinct (concat xss)"
    by (rule Cons.IH) (use Cons.prems(1) [of "Suc _"] Cons.prems(2) [of "Suc _" "Suc _"] in auto)
  moreover have "set xs \<inter> set (concat xss) = {}"
  proof -
    have False if "x \<in> set xs" "ys \<in> set xss" "x \<in> set ys" for x ys
    proof -
      obtain j where "j < length xss" "ys = xss ! j" using \<open>ys \<in> set xss\<close> by (metis in_set_conv_nth)
      then show False using Cons.prems(2) [of 0 "Suc j" x] that by auto
    qed
    then show ?thesis by auto
  qed
  ultimately show ?case using Cons.prems(1) [of 0] by simp
qed simp

lemma sum_list_update_int:
  fixes xs :: "int list"
  assumes "i < length xs"
  shows "sum_list (xs[i := v]) = sum_list xs - xs ! i + v"
  using assms by (induction xs arbitrary: i) (auto split: nat.split)

lemma sum_list_map_update:
  fixes f :: "'a \<Rightarrow> int"
  assumes "i < length xs"
  shows "sum_list (map f (xs[i := v])) = sum_list (map f xs) - f (xs ! i) + f v"
  using assms by (simp add: map_update sum_list_update_int)

lemma length_filter_update:
  assumes "i < length xs"
  shows "int (length (filter P (xs[i := v]))) =
    int (length (filter P xs)) - (if P (xs ! i) then 1 else 0) + (if P v then 1 else 0)"
  using assms
proof (induction xs arbitrary: i)
  case (Cons x xs)
  show ?case
  proof (cases i)
    case (Suc j)
    with Cons.IH [of j] Cons.prems show ?thesis by (simp split: if_splits)
  qed simp
qed simp

lemma length_filter_pos_nth:
  "0 < length (filter P xs) \<longleftrightarrow> (\<exists>i < length xs. P (xs ! i))"
  by (auto simp: length_filter_conv_card card_gt_0_iff)

text \<open>
  The C idiom \<open>for (i = 0; i < n; i++) if (P(a[i])) break;\<close>: the first index that
  satisfies \<open>P\<close>, or the bound.
\<close>

fun first_idx :: "('a \<Rightarrow> bool) \<Rightarrow> 'a list \<Rightarrow> nat" where
  "first_idx P [] = 0"
| "first_idx P (x # xs) = (if P x then 0 else Suc (first_idx P xs))"

lemma first_idx_le: "first_idx P xs \<le> length xs"
  by (induction xs) auto

lemma first_idx_less: "first_idx P xs < length xs \<longleftrightarrow> (\<exists>x \<in> set xs. P x)"
  by (induction xs) auto

lemma first_idx_sat: "first_idx P xs < length xs \<Longrightarrow> P (xs ! first_idx P xs)"
  by (induction xs) auto

lemma first_idx_min: "j < first_idx P xs \<Longrightarrow> \<not> P (xs ! j)"
  by (induction xs arbitrary: j) (auto simp: nth_Cons split: nat.splits if_splits)

lemma first_idx_length: "first_idx P xs = length xs \<longleftrightarrow> (\<forall>x \<in> set xs. \<not> P x)"
  by (induction xs) auto

lemma not_first_idx_less:
  "\<not> first_idx P xs < length xs \<Longrightarrow> j < length xs \<Longrightarrow> \<not> P (xs ! j)"
  using first_idx_less nth_mem by blast

end
