(* ===== verification/RedBlack.thy ===== *)
theory RedBlack
  imports Prelude
begin

text \<open>
  The red-black trees of \<open>src/src/common/db.c\<close>: one tree hangs in every bucket of a
  \<open>struct dbt\<close>. The C code works on nodes with parent pointers. Here the part of the tree
  below a node is a value of \<open>dbn\<close> and the chain of its parents is a list of frames
  (innermost first), so that \<open>p = p->parent\<close> is "take one frame off", and \<open>p == *root\<close>
  is "no frame is left". A dereference of a null pointer is the result \<^term>\<open>None\<close>;
  the lemmas show that it does not occur on the trees the code builds.
\<close>

section \<open>Nodes, parents\<close>

datatype color = RED | BLACK

record ('k, 'd) entry =
  key :: 'k
  data :: "'d option"
  deleted :: bool

datatype ('k, 'd) dbn =
    Nil
  | Dbn (ncolor: color) (left: "('k, 'd) dbn") (entry_of: "('k, 'd) entry") (right: "('k, 'd) dbn")

datatype ('k, 'd) frame =
    LeftOf (fcolor: color) (fentry: "('k, 'd) entry") (sibling: "('k, 'd) dbn")
  | RightOf (fcolor: color) (fentry: "('k, 'd) entry") (sibling: "('k, 'd) dbn")

type_synonym ('k, 'd) parents = "('k, 'd) frame list"

fun attach :: "('k, 'd) frame \<Rightarrow> ('k, 'd) dbn \<Rightarrow> ('k, 'd) dbn" where
  "attach (LeftOf c e s) t = Dbn c t e s"
| "attach (RightOf c e s) t = Dbn c s e t"

fun plug :: "('k, 'd) dbn \<Rightarrow> ('k, 'd) parents \<Rightarrow> ('k, 'd) dbn" where
  "plug t [] = t"
| "plug t (f # fs) = plug (attach f t) fs"

fun paint :: "color \<Rightarrow> ('k, 'd) dbn \<Rightarrow> ('k, 'd) dbn" where
  "paint c Nil = Nil"
| "paint c (Dbn _ l e r) = Dbn c l e r"

text \<open>The code's test \<open>x && x->color == RED\<close>, whose negation is \<open>x == NULL || x->color == BLACK\<close>.\<close>

fun is_red :: "('k, 'd) dbn \<Rightarrow> bool" where
  "is_red Nil = False"
| "is_red (Dbn c l e r) = (c = RED)"

section \<open>Rotations\<close>

fun db_rotate_left :: "('k, 'd) dbn \<Rightarrow> ('k, 'd) dbn option" where
  "db_rotate_left (Dbn c a e (Dbn c' b e' d)) = Some (Dbn c' (Dbn c a e b) e' d)"
| "db_rotate_left _ = None"

fun db_rotate_right :: "('k, 'd) dbn \<Rightarrow> ('k, 'd) dbn option" where
  "db_rotate_right (Dbn c (Dbn c' a e' b) e d) = Some (Dbn c' a e' (Dbn c b e d))"
| "db_rotate_right _ = None"

section \<open>Insertion: db\_rebalance\<close>

text \<open>The loop of \<open>db_rebalance\<close> at node \<open>p\<close>; the root is painted black when it ends.\<close>

fun rebalance_loop :: "('k, 'd) dbn \<Rightarrow> ('k, 'd) parents \<Rightarrow> ('k, 'd) dbn option" where
  "rebalance_loop p [] = Some (paint BLACK p)"
| "rebalance_loop p [f] =
     (if fcolor f = RED then None else Some (paint BLACK (plug p [f])))"
| "rebalance_loop p (f # g # gs) =
     (if fcolor f \<noteq> RED then Some (paint BLACK (plug p (f # g # gs)))
      else (case g of
        LeftOf _ ge y \<Rightarrow>
          (if is_red y
           then rebalance_loop (Dbn RED (paint BLACK (attach f p)) ge (paint BLACK y)) gs
           else do {
             q \<leftarrow> (case f of RightOf _ _ _ \<Rightarrow> db_rotate_left (attach f p)
                          | LeftOf _ _ _ \<Rightarrow> Some (attach f p));
             t \<leftarrow> db_rotate_right (Dbn RED (paint BLACK q) ge y);
             Some (paint BLACK (plug t gs))
           })
      | RightOf _ ge y \<Rightarrow>
          (if is_red y
           then rebalance_loop (Dbn RED (paint BLACK y) ge (paint BLACK (attach f p))) gs
           else do {
             q \<leftarrow> (case f of LeftOf _ _ _ \<Rightarrow> db_rotate_right (attach f p)
                          | RightOf _ _ _ \<Rightarrow> Some (attach f p));
             t \<leftarrow> db_rotate_left (Dbn RED y ge (paint BLACK q));
             Some (paint BLACK (plug t gs))
           })))"

definition db_rebalance :: "('k, 'd) dbn \<Rightarrow> ('k, 'd) parents \<Rightarrow> ('k, 'd) dbn option" where
  "db_rebalance p fs = rebalance_loop (paint RED p) fs"

section \<open>Removal: db\_rebalance\_erase\<close>

text \<open>\<open>while (y->left != NULL) y = y->left\<close>: the leftmost node below \<open>y\<close>, with its parents.\<close>

fun leftmost :: "('k, 'd) dbn \<Rightarrow> ('k, 'd) parents \<Rightarrow>
    (color \<times> ('k, 'd) entry \<times> ('k, 'd) dbn \<times> ('k, 'd) parents) option" where
  "leftmost Nil fs = None"
| "leftmost (Dbn c Nil e r) fs = Some (c, e, r, fs)"
| "leftmost (Dbn c (Dbn c' a e' b) e r) fs = leftmost (Dbn c' a e' b) (LeftOf c e r # fs)"

text \<open>
  One round of the loop that repairs the black height at \<open>x\<close>, whose parent frame is \<open>f\<close>:
  the new position of \<open>x\<close> with its parents, or the tree after the \<open>break\<close>.
\<close>

datatype ('k, 'd) fix_step =
    Continue "('k, 'd) dbn" "('k, 'd) parents"
  | Break "('k, 'd) dbn"

text \<open>The part of a round after the case of a red sibling: \<open>w\<close> is the sibling now.\<close>

definition fix_left :: "('k, 'd) dbn \<Rightarrow> color \<Rightarrow> ('k, 'd) entry \<Rightarrow> ('k, 'd) dbn \<Rightarrow>
    ('k, 'd) parents \<Rightarrow> ('k, 'd) fix_step option" where
  "fix_left x pc pe w fs = (case w of
     Nil \<Rightarrow> None
   | Dbn wc wl we wr \<Rightarrow>
       (if \<not> is_red wl \<and> \<not> is_red wr
        then Some (Continue (Dbn pc x pe (Dbn RED wl we wr)) fs)
        else do {
          w' \<leftarrow> (if \<not> is_red wr then db_rotate_right (Dbn RED (paint BLACK wl) we wr)
               else Some w);
          (case w' of
             Nil \<Rightarrow> None
           | Dbn _ al ae ar \<Rightarrow> do {
               t \<leftarrow> db_rotate_left (Dbn BLACK (paint BLACK x) pe (Dbn pc al ae (paint BLACK ar)));
               Some (Break (plug t fs))
             })
        }))"

definition fix_right :: "('k, 'd) dbn \<Rightarrow> color \<Rightarrow> ('k, 'd) entry \<Rightarrow> ('k, 'd) dbn \<Rightarrow>
    ('k, 'd) parents \<Rightarrow> ('k, 'd) fix_step option" where
  "fix_right x pc pe w fs = (case w of
     Nil \<Rightarrow> None
   | Dbn wc wl we wr \<Rightarrow>
       (if \<not> is_red wr \<and> \<not> is_red wl
        then Some (Continue (Dbn pc (Dbn RED wl we wr) pe x) fs)
        else do {
          w' \<leftarrow> (if \<not> is_red wl then db_rotate_left (Dbn RED wl we (paint BLACK wr))
               else Some w);
          (case w' of
             Nil \<Rightarrow> None
           | Dbn _ al ae ar \<Rightarrow> do {
               t \<leftarrow> db_rotate_right (Dbn BLACK (Dbn pc (paint BLACK al) ae ar) pe (paint BLACK x));
               Some (Break (plug t fs))
             })
        }))"

definition fix_round :: "('k, 'd) dbn \<Rightarrow> ('k, 'd) frame \<Rightarrow> ('k, 'd) parents \<Rightarrow>
    ('k, 'd) fix_step option" where
  "fix_round x f fs = (case f of
     LeftOf pc pe w \<Rightarrow>
       (case w of
          Nil \<Rightarrow> None
        | Dbn wc wl we wr \<Rightarrow>
            (if wc = RED then fix_left x RED pe wl (LeftOf BLACK we wr # fs)
             else fix_left x pc pe w fs))
   | RightOf pc pe w \<Rightarrow>
       (case w of
          Nil \<Rightarrow> None
        | Dbn wc wl we wr \<Rightarrow>
            (if wc = RED then fix_right x RED pe wr (RightOf BLACK we wl # fs)
             else fix_right x pc pe w fs)))"

text \<open>
  \<open>while (x != *root && (x == NULL || x->color == BLACK))\<close>, and the final
  \<open>if (x) x->color = BLACK\<close>. A null \<open>x\<close> that is a right child is told from a left child
  by \<open>x == x_parent->left\<close>: the two differ because the sibling of a node that lacks a
  black node is never null, which the lemmas below prove.
\<close>

lemma fix_round_shrinks:
  assumes "fix_round x f fs = Some (Continue x' fs')"
  shows "length fs' < Suc (length fs) \<or> length fs' = Suc (length fs) \<and> is_red x'"
  using assms
  by (auto simp: fix_round_def fix_left_def fix_right_def
      split: frame.splits dbn.splits if_splits bind_splits)

function fix_loop :: "('k, 'd) dbn \<Rightarrow> ('k, 'd) parents \<Rightarrow> ('k, 'd) dbn option" where
  "fix_loop x [] = Some (paint BLACK x)"
| "fix_loop x (f # fs) =
     (if is_red x then Some (plug (paint BLACK x) (f # fs))
      else (case fix_round x f fs of
        None \<Rightarrow> None
      | Some (Break t) \<Rightarrow> Some t
      | Some (Continue x' fs') \<Rightarrow> fix_loop x' fs'))"
  by pat_completeness auto
termination
  by (relation "measures [\<lambda>(x, fs). length fs, \<lambda>(x, fs). if is_red x then 0 else 1]")
    (auto dest!: fix_round_shrinks)

text \<open>
  Node \<open>z\<close> (color \<open>zc\<close>, children \<open>zl\<close>, \<open>zr\<close>, parents \<open>fs\<close>) is cut out: a null child lets
  the other take its place, otherwise the leftmost node \<open>y\<close> on its right takes its place
  and its color, and the color removed from the tree is the one \<open>y\<close> had.
\<close>

definition db_rebalance_erase :: "('k, 'd) dbn \<Rightarrow> ('k, 'd) parents \<Rightarrow> ('k, 'd) dbn option" where
  "db_rebalance_erase z fs = (case z of
     Nil \<Rightarrow> None
   | Dbn zc zl ze zr \<Rightarrow>
       (if zl = Nil \<or> zr = Nil
        then (let x = (if zl = Nil then zr else zl)
              in if zc \<noteq> RED then fix_loop x fs else Some (plug x fs))
        else (case leftmost zr [] of
          None \<Rightarrow> None
        | Some (yc, ye, x, ys) \<Rightarrow>
            (let ps = ys @ RightOf zc ye zl # fs
             in if yc \<noteq> RED then fix_loop x ps else Some (plug x ps)))))"

section \<open>In-order entries\<close>

fun entries :: "('k, 'd) dbn \<Rightarrow> ('k, 'd) entry list" where
  "entries Nil = []"
| "entries (Dbn c l e r) = entries l @ e # entries r"

fun before :: "('k, 'd) parents \<Rightarrow> ('k, 'd) entry list" where
  "before [] = []"
| "before (LeftOf c e s # fs) = before fs"
| "before (RightOf c e s # fs) = before fs @ entries s @ [e]"

fun after :: "('k, 'd) parents \<Rightarrow> ('k, 'd) entry list" where
  "after [] = []"
| "after (LeftOf c e s # fs) = e # entries s @ after fs"
| "after (RightOf c e s # fs) = after fs"

lemma entries_plug [simp]: "entries (plug t fs) = before fs @ entries t @ after fs"
proof (induction fs arbitrary: t)
  case (Cons f fs)
  then show ?case by (cases f) auto
qed simp

lemma entries_paint [simp]: "entries (paint c t) = entries t"
  by (cases t) auto

lemma entries_rotate_left: "db_rotate_left t = Some t' \<Longrightarrow> entries t' = entries t"
  by (cases t rule: db_rotate_left.cases) auto

lemma entries_rotate_right: "db_rotate_right t = Some t' \<Longrightarrow> entries t' = entries t"
  by (cases t rule: db_rotate_right.cases) auto

section \<open>The red-black invariant\<close>

fun black_height :: "('k, 'd) dbn \<Rightarrow> nat" where
  "black_height Nil = 0"
| "black_height (Dbn c l e r) = black_height l + (if c = BLACK then 1 else 0)"

fun balanced :: "('k, 'd) dbn \<Rightarrow> bool" where
  "balanced Nil = True"
| "balanced (Dbn c l e r) = (black_height l = black_height r \<and> balanced l \<and> balanced r)"

fun no_red_red :: "('k, 'd) dbn \<Rightarrow> bool" where
  "no_red_red Nil = True"
| "no_red_red (Dbn c l e r) =
     ((c = RED \<longrightarrow> \<not> is_red l \<and> \<not> is_red r) \<and> no_red_red l \<and> no_red_red r)"

definition red_black :: "('k, 'd) dbn \<Rightarrow> bool" where
  "red_black t \<longleftrightarrow> balanced t \<and> no_red_red t \<and> \<not> is_red t"

text \<open>The same for the surroundings of a node: \<open>h\<close> is the black height the hole asks for.\<close>

fun hole_balanced :: "nat \<Rightarrow> ('k, 'd) parents \<Rightarrow> bool" where
  "hole_balanced h [] = True"
| "hole_balanced h (f # fs) =
     (balanced (sibling f) \<and> black_height (sibling f) = h \<and>
      hole_balanced (h + (if fcolor f = BLACK then 1 else 0)) fs)"

fun red_top :: "('k, 'd) parents \<Rightarrow> bool" where
  "red_top [] = False"
| "red_top (f # fs) = (fcolor f = RED)"

fun hole_colored :: "('k, 'd) parents \<Rightarrow> bool" where
  "hole_colored [] = True"
| "hole_colored (f # fs) =
     (no_red_red (sibling f) \<and>
      (fcolor f = RED \<longrightarrow> \<not> is_red (sibling f) \<and> fs \<noteq> [] \<and> \<not> red_top fs) \<and>
      hole_colored fs)"

lemma color_not: "c \<noteq> RED \<longleftrightarrow> c = BLACK" "c \<noteq> BLACK \<longleftrightarrow> c = RED"
  by (cases c; simp)+

lemma not_red_paint [simp]: "\<not> is_red (paint BLACK t)"
  by (cases t) auto

lemma balanced_paint [simp]: "balanced (paint c t) = balanced t"
  by (cases t) auto

lemma no_red_red_paint [simp]: "no_red_red t \<Longrightarrow> no_red_red (paint BLACK t)"
  by (cases t) auto

lemma paint_black_id: "\<not> is_red t \<Longrightarrow> paint BLACK t = t"
  by (cases t) (auto simp: color_not)

lemma black_height_paint:
  "black_height (paint BLACK t) = black_height t + (if is_red t then 1 else 0)"
  by (cases t) (auto simp: color_not)

lemma balanced_plug:
  "balanced t \<Longrightarrow> hole_balanced (black_height t) fs \<Longrightarrow> balanced (plug t fs)"
proof (induction fs arbitrary: t)
  case (Cons f fs)
  then show ?case by (cases f) auto
qed simp

lemma attach_no_red_red:
  assumes "no_red_red t" "hole_colored (f # fs)" "\<not> (is_red t \<and> red_top (f # fs))"
  shows "no_red_red (attach f t)" "\<not> (is_red (attach f t) \<and> red_top fs)"
  using assms by (cases f; auto)+

lemma no_red_red_plug:
  "no_red_red t \<Longrightarrow> hole_colored fs \<Longrightarrow> \<not> (is_red t \<and> red_top fs) \<Longrightarrow>
    no_red_red (plug t fs)"
proof (induction fs arbitrary: t)
  case (Cons f fs)
  note attached = attach_no_red_red [OF Cons.prems]
  have "hole_colored fs" using Cons.prems(2) by simp
  then show ?case using Cons.IH [OF attached(1) _ attached(2)] by simp
qed simp

lemma not_red_plug: "fs \<noteq> [] \<Longrightarrow> hole_colored fs \<Longrightarrow> \<not> is_red (plug t fs)"
proof (induction fs arbitrary: t)
  case (Cons f fs)
  show ?case
  proof (cases fs)
    case Nil
    with Cons.prems show ?thesis by (cases f) (auto simp: color_not)
  qed (use Cons in auto)
qed simp

lemma red_black_plug:
  assumes "balanced t" "no_red_red t" "hole_balanced (black_height t) fs" "hole_colored fs"
    "\<not> (is_red t \<and> red_top fs)"
  shows "red_black (paint BLACK (plug t fs))"
  using balanced_plug [OF assms(1,3)] no_red_red_plug [OF assms(2,4,5)]
  by (simp add: red_black_def)

lemma red_black_plug_inner:
  assumes "balanced t" "no_red_red t" "hole_balanced (black_height t) fs" "hole_colored fs"
    "\<not> (is_red t \<and> red_top fs)" "fs \<noteq> []"
  shows "red_black (plug t fs)"
  using balanced_plug [OF assms(1,3)] no_red_red_plug [OF assms(2,4,5)]
    not_red_plug [OF assms(6,4)]
  by (simp add: red_black_def)

section \<open>Correctness of insertion\<close>

lemma rebalance_loop_correct:
  assumes "balanced p" "no_red_red p" "is_red p"
    and "hole_balanced (black_height p) fs" "hole_colored fs"
  shows "\<exists>t. rebalance_loop p fs = Some t \<and> red_black t \<and> entries t = entries (plug p fs)"
  using assms
proof (induction p fs rule: rebalance_loop.induct)
  case (1 p)
  then show ?case by (auto simp: red_black_def)
next
  case (2 p f)
  then show ?case
    using red_black_plug [of p "[f]"] by (auto simp: color_not)
next
  case (3 p f g gs)
  show ?case
  proof (cases "fcolor f = RED")
    case False
    then show ?thesis
      using 3 red_black_plug [of p "f # g # gs"] by (auto simp: color_not)
  next
    case True
    note red = True
    obtain a x b where p: "p = Dbn RED a x b" using 3 by (cases p) auto
    show ?thesis
    proof (cases g)
      case (LeftOf gc ge y)
      show ?thesis
      proof (cases "is_red y")
        case True
        then show ?thesis
          using red LeftOf 3 by (cases f; cases y) (auto simp: color_not)
      next
        case False
        then show ?thesis
          using red LeftOf 3 p
          by (cases f) (auto simp: color_not paint_black_id intro!: red_black_plug)
      qed
    next
      case (RightOf gc ge y)
      show ?thesis
      proof (cases "is_red y")
        case True
        then show ?thesis
          using red RightOf 3 by (cases f; cases y) (auto simp: color_not)
      next
        case False
        then show ?thesis
          using red RightOf 3 p
          by (cases f) (auto simp: color_not paint_black_id intro!: red_black_plug)
      qed
    qed
  qed
qed

text \<open>\<open>db_rebalance\<close> itself, called on a fresh node that hangs below a red parent.\<close>

lemma db_rebalance_correct:
  assumes "balanced p" "no_red_red (paint RED p)" "p \<noteq> Nil"
    and "hole_balanced (black_height (paint RED p)) fs" "hole_colored fs"
  shows "\<exists>t. db_rebalance p fs = Some t \<and> red_black t \<and> entries t = entries (plug p fs)"
  using rebalance_loop_correct [of "paint RED p" fs] assms
  by (cases p) (auto simp: db_rebalance_def)

section \<open>Correctness of removal\<close>

text \<open>What the loop keeps: the tree is a red-black tree but for one black node missing at \<open>x\<close>.\<close>

definition lacks_black :: "('k, 'd) dbn \<Rightarrow> ('k, 'd) parents \<Rightarrow> bool" where
  "lacks_black x fs \<longleftrightarrow> balanced x \<and> no_red_red (paint BLACK x) \<and>
     hole_balanced (Suc (black_height x)) fs \<and> hole_colored fs"

fun step_ok :: "('k, 'd) entry list \<Rightarrow> ('k, 'd) fix_step \<Rightarrow> bool" where
  "step_ok es (Continue x fs) = (lacks_black x fs \<and> entries (plug x fs) = es)"
| "step_ok es (Break t) = (red_black t \<and> entries t = es)"

lemma fix_left_correct:
  assumes x: "balanced x" "no_red_red x" "\<not> is_red x"
    and w: "balanced w" "no_red_red w" "\<not> is_red w" "black_height w = Suc (black_height x)"
    and fs: "hole_balanced (black_height w + (if pc = BLACK then 1 else 0)) fs" "hole_colored fs"
      "pc = RED \<Longrightarrow> fs \<noteq> [] \<and> \<not> red_top fs"
  shows "\<exists>st. fix_left x pc pe w fs = Some st \<and>
    step_ok (entries (plug (Dbn pc x pe w) fs)) st"
proof -
  obtain wl we wr where ww: "w = Dbn BLACK wl we wr" using w by (cases w) (auto simp: color_not)
  have out: "red_black (plug (Dbn pc (Dbn BLACK x pe a) e (paint BLACK b)) fs)"
    if "balanced a" "balanced b" "no_red_red a" "no_red_red b" "black_height a = black_height x"
      "black_height (paint BLACK b) = Suc (black_height x)" for a e b
  proof -
    have "red_black (plug (Dbn pc (Dbn BLACK x pe a) e (paint BLACK b)) fs)" if "fs \<noteq> []"
      using \<open>fs \<noteq> []\<close> fs x w that \<open>balanced a\<close> \<open>balanced b\<close> \<open>no_red_red a\<close> \<open>no_red_red b\<close>
        \<open>black_height a = black_height x\<close> \<open>black_height (paint BLACK b) = Suc (black_height x)\<close>
      by (intro red_black_plug_inner) (auto simp: paint_black_id)
    moreover have "red_black (Dbn pc (Dbn BLACK x pe a) e (paint BLACK b))" if "fs = []"
      using fs x w that \<open>balanced a\<close> \<open>balanced b\<close> \<open>no_red_red a\<close> \<open>no_red_red b\<close>
        \<open>black_height a = black_height x\<close> \<open>black_height (paint BLACK b) = Suc (black_height x)\<close>
      by (auto simp: red_black_def)
    ultimately show ?thesis by (cases fs) auto
  qed
  show ?thesis
  proof (cases "is_red wr")
    case True
    then show ?thesis
      using ww w x out [of wl wr we]
      by (auto simp: fix_left_def black_height_paint paint_black_id)
  next
    case False
    note black_wr = False
    show ?thesis
    proof (cases "is_red wl")
      case True
      then obtain al ae ar where "wl = Dbn RED al ae ar" by (cases wl) auto
      then show ?thesis
        using black_wr ww w x out [of al "Dbn RED ar we wr" ae]
        by (auto simp: fix_left_def black_height_paint paint_black_id)
    next
      case False
      then show ?thesis
        using black_wr ww w x fs
        by (auto simp: fix_left_def lacks_black_def)
    qed
  qed
qed

lemma fix_right_correct:
  assumes x: "balanced x" "no_red_red x" "\<not> is_red x"
    and w: "balanced w" "no_red_red w" "\<not> is_red w" "black_height w = Suc (black_height x)"
    and fs: "hole_balanced (black_height w + (if pc = BLACK then 1 else 0)) fs" "hole_colored fs"
      "pc = RED \<Longrightarrow> fs \<noteq> [] \<and> \<not> red_top fs"
  shows "\<exists>st. fix_right x pc pe w fs = Some st \<and>
    step_ok (entries (plug (Dbn pc w pe x) fs)) st"
proof -
  obtain wl we wr where ww: "w = Dbn BLACK wl we wr" using w by (cases w) (auto simp: color_not)
  have out: "red_black (plug (Dbn pc (paint BLACK a) e (Dbn BLACK b pe x)) fs)"
    if "balanced a" "balanced b" "no_red_red a" "no_red_red b" "black_height b = black_height x"
      "black_height (paint BLACK a) = Suc (black_height x)" for a e b
  proof -
    have "red_black (plug (Dbn pc (paint BLACK a) e (Dbn BLACK b pe x)) fs)" if "fs \<noteq> []"
      using \<open>fs \<noteq> []\<close> fs x w that \<open>balanced a\<close> \<open>balanced b\<close> \<open>no_red_red a\<close> \<open>no_red_red b\<close>
        \<open>black_height b = black_height x\<close> \<open>black_height (paint BLACK a) = Suc (black_height x)\<close>
      by (intro red_black_plug_inner) (auto simp: paint_black_id)
    moreover have "red_black (Dbn pc (paint BLACK a) e (Dbn BLACK b pe x))" if "fs = []"
      using fs x w that \<open>balanced a\<close> \<open>balanced b\<close> \<open>no_red_red a\<close> \<open>no_red_red b\<close>
        \<open>black_height b = black_height x\<close> \<open>black_height (paint BLACK a) = Suc (black_height x)\<close>
      by (auto simp: red_black_def)
    ultimately show ?thesis by (cases fs) auto
  qed
  show ?thesis
  proof (cases "is_red wl")
    case True
    then show ?thesis
      using ww w x out [of wl wr we]
      by (auto simp: fix_right_def black_height_paint paint_black_id)
  next
    case False
    note black_wl = False
    show ?thesis
    proof (cases "is_red wr")
      case True
      then obtain al ae ar where "wr = Dbn RED al ae ar" by (cases wr) auto
      then show ?thesis
        using black_wl ww w x out [of "Dbn RED wl we al" ar ae]
        by (auto simp: fix_right_def black_height_paint paint_black_id)
    next
      case False
      then show ?thesis
        using black_wl ww w x fs
        by (auto simp: fix_right_def lacks_black_def)
    qed
  qed
qed

lemma fix_round_correct:
  assumes "lacks_black x (f # fs)" "\<not> is_red x"
  shows "\<exists>st. fix_round x f fs = Some st \<and> step_ok (entries (plug x (f # fs))) st"
proof -
  have x: "balanced x" "no_red_red x"
    using assms by (auto simp: lacks_black_def paint_black_id)
  have f: "balanced (sibling f)" "no_red_red (sibling f)"
      "black_height (sibling f) = Suc (black_height x)"
      "hole_balanced (black_height (sibling f) + (if fcolor f = BLACK then 1 else 0)) fs"
      "hole_colored fs" "fcolor f = RED \<Longrightarrow> \<not> is_red (sibling f) \<and> fs \<noteq> [] \<and> \<not> red_top fs"
    using assms by (auto simp: lacks_black_def)
  show ?thesis
  proof (cases f)
    case (LeftOf pc pe w)
    obtain wc wl we wr where w: "w = Dbn wc wl we wr" using f LeftOf by (cases w) auto
    show ?thesis
    proof (cases "wc = RED")
      case True
      with f(6) LeftOf w have "pc = BLACK" by (cases pc) auto
      with True show ?thesis
        using LeftOf w f x assms(2)
          fix_left_correct [of x wl RED "LeftOf BLACK we wr # fs" pe]
        by (auto simp: fix_round_def)
    next
      case False
      then show ?thesis
        using LeftOf w f x assms(2) fix_left_correct [of x w pc fs pe]
        by (auto simp: fix_round_def color_not)
    qed
  next
    case (RightOf pc pe w)
    obtain wc wl we wr where w: "w = Dbn wc wl we wr" using f RightOf by (cases w) auto
    show ?thesis
    proof (cases "wc = RED")
      case True
      with f(6) RightOf w have "pc = BLACK" by (cases pc) auto
      with True show ?thesis
        using RightOf w f x assms(2)
          fix_right_correct [of x wr RED "RightOf BLACK we wl # fs" pe]
        by (auto simp: fix_round_def)
    next
      case False
      then show ?thesis
        using RightOf w f x assms(2) fix_right_correct [of x w pc fs pe]
        by (auto simp: fix_round_def color_not)
    qed
  qed
qed

lemma fix_loop_correct:
  assumes "lacks_black x fs"
  shows "\<exists>t. fix_loop x fs = Some t \<and> red_black t \<and> entries t = entries (plug x fs)"
  using assms
proof (induction x fs rule: fix_loop.induct)
  case (1 x)
  then show ?case by (auto simp: lacks_black_def red_black_def)
next
  case (2 x f fs)
  show ?case
  proof (cases "is_red x")
    case True
    then have "red_black (plug (paint BLACK x) (f # fs))"
      using 2(2) by (intro red_black_plug_inner) (auto simp: lacks_black_def black_height_paint)
    with True show ?thesis by (simp del: plug.simps)
  next
    case False
    with fix_round_correct [OF 2(2)] obtain st
      where st: "fix_round x f fs = Some st" "step_ok (entries (plug x (f # fs))) st" by blast
    then show ?thesis
      using False 2(1) by (cases st) auto
  qed
qed

lemma leftmost_append:
  "leftmost t (as @ bs) = map_option (\<lambda>(c, e, x, ys). (c, e, x, ys @ bs)) (leftmost t as)"
  by (induction t as arbitrary: bs rule: leftmost.induct) (auto simp flip: append_Cons)

lemma leftmost_correct:
  assumes "t \<noteq> Nil" "balanced t" "no_red_red t" "is_red t \<Longrightarrow> fs \<noteq> [] \<and> \<not> red_top fs"
    and "hole_balanced (black_height t) fs" "hole_colored fs"
  shows "\<exists>yc ye x fs'. leftmost t fs = Some (yc, ye, x, fs') \<and>
    entries t @ after fs = ye # entries x @ after fs' \<and> before fs' = before fs \<and>
    balanced x \<and> no_red_red x \<and> hole_colored fs' \<and>
    (yc = RED \<longrightarrow> \<not> is_red x \<and> fs' \<noteq> [] \<and> \<not> red_top fs') \<and>
    hole_balanced (black_height x + (if yc = BLACK then 1 else 0)) fs'"
  using assms
proof (induction t fs rule: leftmost.induct)
  case (2 c e r fs)
  then show ?case by (cases c) auto
next
  case (3 c c' a e' b e r fs)
  have "\<exists>yc ye x fs'. leftmost (Dbn c' a e' b) (LeftOf c e r # fs) = Some (yc, ye, x, fs') \<and>
    entries (Dbn c' a e' b) @ after (LeftOf c e r # fs) = ye # entries x @ after fs' \<and>
    before fs' = before (LeftOf c e r # fs) \<and>
    balanced x \<and> no_red_red x \<and> hole_colored fs' \<and>
    (yc = RED \<longrightarrow> \<not> is_red x \<and> fs' \<noteq> [] \<and> \<not> red_top fs') \<and>
    hole_balanced (black_height x + (if yc = BLACK then 1 else 0)) fs'"
    by (rule "3.IH") (use 3 in auto)
  then show ?case by auto
qed simp

theorem db_rebalance_erase_correct:
  assumes z: "z \<noteq> Nil" "balanced z" "no_red_red z" "is_red z \<Longrightarrow> fs \<noteq> [] \<and> \<not> red_top fs"
    and fs: "hole_balanced (black_height z) fs" "hole_colored fs"
  shows "\<exists>t. db_rebalance_erase z fs = Some t \<and> red_black t \<and>
    entries t = before fs @ entries (left z) @ entries (right z) @ after fs"
proof -
  obtain zc zl ze zr where zz: "z = Dbn zc zl ze zr" using z by (cases z) auto
  show ?thesis
  proof (cases "zl = Nil \<or> zr = Nil")
    case True
    define x where "x = (if zl = Nil then zr else zl)"
    have x: "balanced x" "no_red_red x" "entries x = entries zl @ entries zr"
      "black_height z = black_height x + (if zc = BLACK then 1 else 0)"
      "zc = RED \<Longrightarrow> \<not> is_red x"
      using z zz True by (auto simp: x_def)
    show ?thesis
    proof (cases zc)
      case RED
      then show ?thesis
        using True zz z fs x red_black_plug_inner [of x fs]
        by (auto simp: db_rebalance_erase_def simp flip: x_def)
    next
      case BLACK
      then show ?thesis
        using True zz z fs x fix_loop_correct [of x fs]
        by (auto simp: db_rebalance_erase_def lacks_black_def simp flip: x_def)
    qed
  next
    case False
    define F where "F = (\<lambda>e. RightOf zc e zl # fs)"
    have min: "\<exists>yc ye x fs'. leftmost zr (F e) = Some (yc, ye, x, fs') \<and>
      entries zr @ after (F e) = ye # entries x @ after fs' \<and> before fs' = before (F e) \<and>
      balanced x \<and> no_red_red x \<and> hole_colored fs' \<and>
      (yc = RED \<longrightarrow> \<not> is_red x \<and> fs' \<noteq> [] \<and> \<not> red_top fs') \<and>
      hole_balanced (black_height x + (if yc = BLACK then 1 else 0)) fs'" for e
      using z zz fs False by (intro leftmost_correct) (auto simp: F_def)
    have path: "leftmost zr (F e) =
        map_option (\<lambda>(c, e', x, ys). (c, e', x, ys @ F e)) (leftmost zr [])" for e
      using leftmost_append [of zr "[]" "F e"] by simp
    from min [of ze] obtain yc ye x ys where lm: "leftmost zr [] = Some (yc, ye, x, ys)"
      by (auto simp: path)
    from min [of ye] lm path [of ye]
    have y: "entries zr @ after fs = ye # entries x @ after (ys @ F ye)"
      "before (ys @ F ye) = before fs @ entries zl @ [ye]"
      "balanced x" "no_red_red x" "hole_colored (ys @ F ye)"
      "yc = RED \<longrightarrow> \<not> is_red x \<and> \<not> red_top (ys @ F ye)"
      "hole_balanced (black_height x + (if yc = BLACK then 1 else 0)) (ys @ F ye)"
      by (auto simp: F_def)
    have nonempty: "ys @ F ye \<noteq> []" by (simp add: F_def)
    show ?thesis
    proof (cases yc)
      case RED
      then have "red_black (plug x (ys @ F ye))"
        using y nonempty by (intro red_black_plug_inner) auto
      then show ?thesis
        using RED False zz y lm by (auto simp: db_rebalance_erase_def F_def)
    next
      case BLACK
      then have "lacks_black x (ys @ F ye)" using y by (auto simp: lacks_black_def)
      then show ?thesis
        using fix_loop_correct [of x "ys @ F ye"] BLACK False zz y lm
        by (auto simp: db_rebalance_erase_def F_def)
    qed
  qed
qed

section \<open>Height\<close>

text \<open>
  The traversals of \<open>db_foreach\<close> keep their pending nodes in \<open>stack[64]\<close>; the height of a
  red-black tree is logarithmic, so the stack is large enough (see \<open>DbTable\<close>).
\<close>

fun height :: "('k, 'd) dbn \<Rightarrow> nat" where
  "height Nil = 0"
| "height (Dbn c l e r) = Suc (max (height l) (height r))"

lemma height_le_black_height:
  "balanced t \<Longrightarrow> no_red_red t \<Longrightarrow>
    height t \<le> 2 * black_height t + (if is_red t then 1 else 0)"
proof (induction t)
  case (Dbn c l e r)
  then show ?case by (cases c) (auto split: if_splits)
qed simp

lemma black_height_size:
  "balanced t \<Longrightarrow> 2 ^ black_height t \<le> Suc (length (entries t))"
  by (induction t) (auto simp: mult_2)

lemma red_black_height:
  assumes "red_black t"
  shows "2 ^ (height t div 2) \<le> Suc (length (entries t))"
proof -
  have "height t div 2 \<le> black_height t"
    using assms height_le_black_height [of t] by (auto simp: red_black_def)
  then have "(2::nat) ^ (height t div 2) \<le> 2 ^ black_height t" by simp
  also have "\<dots> \<le> Suc (length (entries t))"
    using assms black_height_size by (auto simp: red_black_def)
  finally show ?thesis .
qed

end
