(* ===== verification/DbTable.thy ===== *)
theory DbTable
  imports RedBlack
begin

text \<open>
  The database \<open>struct dbt\<close> of \<open>src/src/common/db.c\<close> and \<open>db.h\<close>: a hash table of 283
  red-black trees. While \<open>free_lock\<close> is positive an erased node only gets its \<open>deleted\<close>
  flag and a place in \<open>free_list\<close>; the last unlock cuts the pending nodes out. A pending
  node is named by its bucket and key. The locale \<open>key_order\<close> states what the code relies
  on of a comparison and hash function; it is interpreted for the integer tables
  (\<open>numdb\<close>) and, for every \<open>maxlen\<close>, for the string tables (\<open>strdb\<close>).
\<close>

unbundle bit_operations_syntax

section \<open>The node pool\<close>

text \<open>
  \<open>malloc_dbn\<close> hands out nodes from chunks of \<open>ROOT_SIZE\<close> and reuses freed ones first. A
  node is named by its chunk and its index there; \<open>free_nodes\<close> is the list through
  \<open>dbn_free\<close> and the \<open>parent\<close> fields.
\<close>

record node_pool =
  free_nodes :: "(nat \<times> nat) list"
  dbn_root_rest :: nat
  dbn_root_num :: nat

definition ROOT_SIZE :: nat where
  "ROOT_SIZE = 4096"

definition malloc_dbn :: "node_pool \<Rightarrow> (nat \<times> nat) \<times> node_pool" where
  "malloc_dbn s = (case free_nodes s of
     [] \<Rightarrow> (let s' = (if dbn_root_rest s = 0
                   then s\<lparr>dbn_root_rest := ROOT_SIZE, dbn_root_num := dbn_root_num s + 1\<rparr>
                   else s)
           in ((dbn_root_num s' - 1, dbn_root_rest s' - 1),
               s'\<lparr>dbn_root_rest := dbn_root_rest s' - 1\<rparr>))
   | n # ns \<Rightarrow> (n, s\<lparr>free_nodes := ns\<rparr>))"

definition free_dbn :: "(nat \<times> nat) \<Rightarrow> node_pool \<Rightarrow> node_pool" where
  "free_dbn n s = s\<lparr>free_nodes := n # free_nodes s\<rparr>"

section \<open>Tables\<close>

record ('k, 'd) dbt =
  cmp :: "'k \<Rightarrow> 'k \<Rightarrow> int"
  hash :: "'k \<Rightarrow> 64 word"
  has_release :: bool
  ht :: "('k, 'd) dbn list"
  item_count :: int
  free_list :: "(nat \<times> 'k) list"
  free_max :: nat
  free_lock :: int
  released :: "('k \<times> 'd option) list"

definition HASH_SIZE :: nat where
  "HASH_SIZE = 256 + 27"

definition bucket :: "('k, 'd) dbt \<Rightarrow> 'k \<Rightarrow> nat" where
  "bucket table k = unat (hash table k) mod HASH_SIZE"

definition db_init :: "('k \<Rightarrow> 'k \<Rightarrow> int) \<Rightarrow> ('k \<Rightarrow> 64 word) \<Rightarrow> ('k, 'd) dbt" where
  "db_init c h = \<lparr>cmp = c, hash = h, has_release = False, ht = replicate HASH_SIZE Nil,
     item_count = 0, free_list = [], free_max = 0, free_lock = 0, released = []\<rparr>"

fun find_node :: "('k \<Rightarrow> 'k \<Rightarrow> int) \<Rightarrow> 'k \<Rightarrow> ('k, 'd) dbn \<Rightarrow> ('k, 'd) entry option" where
  "find_node c k Nil = None"
| "find_node c k (Dbn _ l e r) =
     (let v = c k (key e) in
      if v = 0 then Some e else if v < 0 then find_node c k l else find_node c k r)"

definition db_search :: "('k, 'd) dbt \<Rightarrow> 'k \<Rightarrow> 'd option" where
  "db_search table k = (case find_node (cmp table) k (ht table ! bucket table k) of
     Some e \<Rightarrow> data e | None \<Rightarrow> None)"

text \<open>The descent of \<open>db_insert\<close> and \<open>db_erase\<close>, which remembers where it is.\<close>

fun descend :: "('k \<Rightarrow> 'k \<Rightarrow> int) \<Rightarrow> 'k \<Rightarrow> ('k, 'd) dbn \<Rightarrow> ('k, 'd) parents \<Rightarrow>
    ('k, 'd) dbn \<times> ('k, 'd) parents" where
  "descend c k Nil fs = (Nil, fs)"
| "descend c k (Dbn col l e r) fs =
     (let v = c k (key e) in
      if v = 0 then (Dbn col l e r, fs)
      else if v < 0 then descend c k l (LeftOf col e r # fs)
      else descend c k r (RightOf col e l # fs))"

text \<open>The first pending entry of node \<open>(b, k)\<close> is taken out of \<open>free_list\<close> by \<open>memmove\<close>.\<close>

fun unpend :: "('k \<Rightarrow> 'k \<Rightarrow> int) \<Rightarrow> nat \<Rightarrow> 'k \<Rightarrow> (nat \<times> 'k) list \<Rightarrow> (nat \<times> 'k) list" where
  "unpend c b k [] = []"
| "unpend c b k (z # zs) = (if fst z = b \<and> c (snd z) k = 0 then zs else z # unpend c b k zs)"

definition db_insert :: "('k, 'd) dbt \<Rightarrow> 'k \<Rightarrow> 'd option \<Rightarrow> ('k, 'd) dbt option" where
  "db_insert table k d =
     (let b = bucket table k; (p, fs) = descend (cmp table) k (ht table ! b) [] in
      case p of
        Dbn c l e r \<Rightarrow>
          (let rel = (if has_release table then released table @ [(key e, data e)]
                      else released table);
               fl = (if deleted e then unpend (cmp table) b (key e) (free_list table)
                     else free_list table);
               p' = Dbn c l \<lparr>key = k, data = d, deleted = False\<rparr> r
           in Some (table\<lparr>ht := (ht table)[b := plug p' fs], free_list := fl, released := rel\<rparr>))
      | Nil \<Rightarrow>
          (let e = \<lparr>key = k, data = d, deleted = False\<rparr> in do {
             t \<leftarrow> (case fs of
                   [] \<Rightarrow> Some (Dbn BLACK Nil e Nil)
                 | f # fs' \<Rightarrow>
                     (if fcolor f = RED then db_rebalance (Dbn RED Nil e Nil) fs
                      else Some (plug (Dbn RED Nil e Nil) fs)));
             Some (table\<lparr>ht := (ht table)[b := t], item_count := item_count table + 1\<rparr>)
           }))"

definition db_erase :: "('k, 'd) dbt \<Rightarrow> 'k \<Rightarrow> ('d option \<times> ('k, 'd) dbt) option" where
  "db_erase table k =
     (let b = bucket table k; (p, fs) = descend (cmp table) k (ht table ! b) [] in
      case p of
        Nil \<Rightarrow> Some (None, table)
      | Dbn c l e r \<Rightarrow>
          (if free_lock table \<noteq> 0
           then (let fm = (if length (free_list table) = free_max table then free_max table + 32
                           else free_max table);
                     p' = Dbn c l (e\<lparr>deleted := True, data := None\<rparr>) r
                 in Some (data e, table\<lparr>free_max := fm, free_list := free_list table @ [(b, key e)],
                       ht := (ht table)[b := plug p' fs]\<rparr>))
           else do {
             t \<leftarrow> db_rebalance_erase p fs;
             Some (data e, table\<lparr>ht := (ht table)[b := t], item_count := item_count table - 1\<rparr>)
           }))"

definition db_free_lock :: "('k, 'd) dbt \<Rightarrow> ('k, 'd) dbt" where
  "db_free_lock table = table\<lparr>free_lock := free_lock table + 1\<rparr>"

text \<open>The loop of \<open>db_free_unlock\<close>: \<open>None\<close> when a pending node is not in its tree any more.\<close>

fun purge :: "(nat \<times> 'k) list \<Rightarrow> ('k, 'd) dbt \<Rightarrow> ('k, 'd) dbt option" where
  "purge [] table = Some table"
| "purge ((b, k) # zs) table =
     (case descend (cmp table) k (ht table ! b) [] of
        (Nil, _) \<Rightarrow> None
      | (Dbn c l e r, fs) \<Rightarrow> do {
          t \<leftarrow> db_rebalance_erase (Dbn c l e r) fs;
          purge zs (table\<lparr>ht := (ht table)[b := t], item_count := item_count table - 1\<rparr>)
        })"

definition db_free_unlock :: "('k, 'd) dbt \<Rightarrow> ('k, 'd) dbt option" where
  "db_free_unlock table =
     (let table' = table\<lparr>free_lock := free_lock table - 1\<rparr> in
      if free_lock table' = 0
      then do {
        t \<leftarrow> purge (free_list table') table';
        Some (t\<lparr>free_list := []\<rparr>)
      }
      else Some table')"

section \<open>Traversal\<close>

text \<open>
  \<open>db_foreach\<close> walks each tree in preorder with an explicit stack of 64 pending nodes; more
  would write past the array, which is \<^term>\<open>None\<close>. The visitor \<open>f\<close> gets key and data of
  every node that is not deleted at that moment and may change the table and a state of its
  own; it may erase, but not insert a new key, since that moves nodes of the tree being
  walked.
\<close>

definition STACK_SIZE :: nat where
  "STACK_SIZE = 64"

function walk :: "('k \<Rightarrow> 'd option \<Rightarrow> ('k, 'd) dbt \<times> 's \<Rightarrow> ('k, 'd) dbt \<times> 's) \<Rightarrow> nat \<Rightarrow>
    ('k, 'd) dbn \<Rightarrow> ('k, 'd) dbn list \<Rightarrow> ('k, 'd) dbt \<times> 's \<Rightarrow> int \<Rightarrow>
    (('k, 'd) dbt \<times> 's \<times> int) option" where
  "walk f b Nil stack (table, s) cnt = None"
| "walk f b (Dbn c l e r) stack (table, s) cnt =
     (case find_node (cmp table) (key e) (ht table ! b) of
        None \<Rightarrow> None
      | Some e' \<Rightarrow>
          (let (table', s') = (if deleted e' then (table, s) else f (key e') (data e') (table, s));
               cnt' = cnt - 1
           in if l \<noteq> Nil
              then (if r \<noteq> Nil
                    then (if length stack \<ge> STACK_SIZE then None
                          else walk f b l (r # stack) (table', s') cnt')
                    else walk f b l stack (table', s') cnt')
              else if r \<noteq> Nil then walk f b r stack (table', s') cnt'
              else (case stack of
                [] \<Rightarrow> Some (table', s', cnt')
              | p # stack' \<Rightarrow> walk f b p stack' (table', s') cnt')))"
  by pat_completeness auto
termination
  by (relation "measure (\<lambda>(f, b, p, stack, ts, cnt). size p + sum_list (map size stack))")
    (auto split: if_splits)

fun foreach_buckets :: "('k \<Rightarrow> 'd option \<Rightarrow> ('k, 'd) dbt \<times> 's \<Rightarrow> ('k, 'd) dbt \<times> 's) \<Rightarrow>
    nat list \<Rightarrow> ('k, 'd) dbt \<times> 's \<Rightarrow> int \<Rightarrow> (('k, 'd) dbt \<times> 's \<times> int) option" where
  "foreach_buckets f [] (table, s) cnt = Some (table, s, cnt)"
| "foreach_buckets f (i # is) (table, s) cnt =
     (if ht table ! i = Nil then foreach_buckets f is (table, s) cnt
      else (case walk f i (ht table ! i) [] (table, s) cnt of
        None \<Rightarrow> None
      | Some (table', s', cnt') \<Rightarrow> foreach_buckets f is (table', s') cnt'))"

text \<open>The result: the table, the visitor's state and whether "memory corrupted" is printed.\<close>

definition db_foreach :: "('k \<Rightarrow> 'd option \<Rightarrow> ('k, 'd) dbt \<times> 's \<Rightarrow> ('k, 'd) dbt \<times> 's) \<Rightarrow>
    ('k, 'd) dbt \<Rightarrow> 's \<Rightarrow> (('k, 'd) dbt \<times> 's \<times> bool) option" where
  "db_foreach f table s = do {
     (table', s', cnt) \<leftarrow> foreach_buckets f [0..<HASH_SIZE] (db_free_lock table, s)
       (item_count table);
     table'' \<leftarrow> db_free_unlock table';
     Some (table'', s', cnt \<noteq> 0)
   }"

section \<open>Keys: integers and strings\<close>

text \<open>
  A key of \<open>numdb\<close> is an \<open>intptr_t\<close> of 64 bits that holds an \<open>int\<close>; \<open>numdb_cmp\<close> tests bit 31
  of the difference and returns the difference as an \<open>int\<close>.
\<close>

definition numdb_cmp :: "64 word \<Rightarrow> 64 word \<Rightarrow> int" where
  "numdb_cmp ia ib =
     (if (ia XOR ib) AND 0x80000000 \<noteq> 0 then (if sint ia < 0 then -1 else 1)
      else s32 (sint (ia - ib)))"

definition numdb_hash :: "64 word \<Rightarrow> 64 word" where
  "numdb_hash a = a"

definition int_key :: "int \<Rightarrow> 64 word" where
  "int_key i = word_of_int i"

fun strcmp :: "string \<Rightarrow> string \<Rightarrow> int" where
  "strcmp [] [] = 0"
| "strcmp [] (y # ys) = - of_char y"
| "strcmp (x # xs) [] = of_char x"
| "strcmp (x # xs) (y # ys) = (if x = y then strcmp xs ys else of_char x - of_char y)"

definition strdb_cmp :: "nat \<Rightarrow> string \<Rightarrow> string \<Rightarrow> int" where
  "strdb_cmp maxlen a b =
     (if maxlen \<noteq> 0 then strcmp (take maxlen a) (take maxlen b) else strcmp a b)"

fun strhash_loop :: "string \<Rightarrow> nat \<Rightarrow> 64 word \<Rightarrow> 64 word" where
  "strhash_loop [] i h = h"
| "strhash_loop (c # cs) 0 h = h"
| "strhash_loop (c # cs) (Suc i) h =
     strhash_loop cs i ((h * 33 + word_of_int (of_char c)) XOR drop_bit 24 h)"

definition strdb_hash :: "nat \<Rightarrow> string \<Rightarrow> 64 word" where
  "strdb_hash maxlen a = strhash_loop a (if maxlen = 0 then 0x7fffffff else maxlen) 0"

definition numdb_init :: "(64 word, 'd) dbt" where
  "numdb_init = db_init numdb_cmp numdb_hash"

definition strdb_init :: "nat \<Rightarrow> (string, 'd) dbt" where
  "strdb_init maxlen = db_init (strdb_cmp maxlen) (strdb_hash maxlen)"

section \<open>Well-formed tables\<close>

definition in_order :: "('k \<Rightarrow> 'k \<Rightarrow> int) \<Rightarrow> ('k, 'd) entry list \<Rightarrow> bool" where
  "in_order c es \<longleftrightarrow> sorted_wrt (\<lambda>x y. c (key x) (key y) < 0) es"

text \<open>Bucket \<open>b\<close> of a table whose pending nodes are \<open>zs\<close>.\<close>

definition bucket_ok :: "('k \<Rightarrow> bool) \<Rightarrow> ('k, 'd) dbt \<Rightarrow> (nat \<times> 'k) list \<Rightarrow> nat \<Rightarrow> bool" where
  "bucket_ok valid table zs b \<longleftrightarrow>
     red_black (ht table ! b) \<and> in_order (cmp table) (entries (ht table ! b)) \<and>
     (\<forall>e \<in> set (entries (ht table ! b)).
        valid (key e) \<and> bucket table (key e) = b \<and> (deleted e \<longrightarrow> data e = None)) \<and>
     mset (map snd (filter (\<lambda>z. fst z = b) zs)) =
       mset (map key (filter deleted (entries (ht table ! b))))"

definition n_entries :: "('k, 'd) dbn list \<Rightarrow> int" where
  "n_entries ts = sum_list (map (\<lambda>t. int (length (entries t))) ts)"

definition buckets_ok :: "('k \<Rightarrow> 'k \<Rightarrow> int) \<Rightarrow> ('k \<Rightarrow> 64 word) \<Rightarrow> ('k \<Rightarrow> bool) \<Rightarrow>
    (nat \<times> 'k) list \<Rightarrow> ('k, 'd) dbt \<Rightarrow> bool" where
  "buckets_ok c h valid zs table \<longleftrightarrow>
     cmp table = c \<and> hash table = h \<and> length (ht table) = HASH_SIZE \<and>
     (\<forall>b < HASH_SIZE. bucket_ok valid table zs b) \<and>
     (\<forall>z \<in> set zs. fst z < HASH_SIZE) \<and>
     item_count table = n_entries (ht table)"

definition table_ok :: "('k \<Rightarrow> 'k \<Rightarrow> int) \<Rightarrow> ('k \<Rightarrow> 64 word) \<Rightarrow> ('k \<Rightarrow> bool) \<Rightarrow>
    ('k, 'd) dbt \<Rightarrow> bool" where
  "table_ok c h valid table \<longleftrightarrow>
     buckets_ok c h valid (free_list table) table \<and> 0 \<le> free_lock table \<and>
     (free_lock table = 0 \<longrightarrow> free_list table = [])"

definition entry_at :: "('k, 'd) dbt \<Rightarrow> 'k \<Rightarrow> ('k, 'd) entry option" where
  "entry_at table k = find_node (cmp table) k (ht table ! bucket table k)"

text \<open>
  A key that was erased under the lock and not inserted again must not be erased a second
  time: \<open>db_erase\<close> does not look at \<open>deleted\<close> and would put the node in \<open>free_list\<close> twice.
\<close>

definition erasable :: "('k, 'd) dbt \<Rightarrow> 'k \<Rightarrow> bool" where
  "erasable table k \<longleftrightarrow> free_lock table = 0 \<or>
     (case entry_at table k of Some e \<Rightarrow> \<not> deleted e | None \<Rightarrow> True)"

lemma db_search_entry_at:
  "db_search table k = (case entry_at table k of Some e \<Rightarrow> data e | None \<Rightarrow> None)"
  by (simp add: db_search_def entry_at_def)

lemma n_entries_update:
  "b < length ts \<Longrightarrow> n_entries (ts[b := t]) =
    n_entries ts - int (length (entries (ts ! b))) + int (length (entries t))"
  by (simp add: n_entries_def sum_list_map_update)

lemma bucket_less [simp]: "bucket table k < HASH_SIZE"
  by (simp add: bucket_def HASH_SIZE_def)

section \<open>The descent\<close>

lemma descend_plug: "descend c k t fs = (p, gs) \<Longrightarrow> plug p gs = plug t fs"
  by (induction c k t fs rule: descend.induct) (auto simp: Let_def split: if_splits)

lemma descend_entries:
  assumes "descend c k t [] = (p, gs)"
  shows "entries t = before gs @ entries p @ after gs"
  using arg_cong [where f = entries, OF descend_plug [OF assms]] by simp

lemma descend_find:
  "descend c k t fs = (p, gs) \<Longrightarrow>
    find_node c k t = (case p of Nil \<Rightarrow> None | Dbn _ _ e _ \<Rightarrow> Some e)"
  by (induction c k t fs rule: descend.induct) (auto simp: Let_def split: if_splits)

lemma descend_found: "descend c k t fs = (Dbn col l e r, gs) \<Longrightarrow> c k (key e) = 0"
  by (induction c k t fs rule: descend.induct) (auto simp: Let_def split: if_splits)

lemma descend_shape:
  assumes "descend c k t fs = (p, gs)" "balanced t" "no_red_red t"
    "hole_balanced (black_height t) fs" "hole_colored fs" "is_red t \<Longrightarrow> fs \<noteq> [] \<and> \<not> red_top fs"
  shows "balanced p \<and> no_red_red p \<and> hole_balanced (black_height p) gs \<and> hole_colored gs \<and>
    (is_red p \<longrightarrow> gs \<noteq> [] \<and> \<not> red_top gs)"
  using assms
  by (induction c k t fs rule: descend.induct) (auto simp: Let_def split: if_splits)

lemma descend_red_black:
  assumes "descend c k t [] = (p, gs)" "red_black t"
  shows "balanced p" "no_red_red p" "hole_balanced (black_height p) gs" "hole_colored gs"
    "is_red p \<Longrightarrow> gs \<noteq> [] \<and> \<not> red_top gs"
  using descend_shape [OF assms(1)] assms(2) by (auto simp: red_black_def)

end
