(* ===== verification/DbOrder.thy ===== *)
theory DbOrder
  imports DbTable
begin

text \<open>
  Correctness of the table operations under the contract between a table and its comparison
  and hash functions (locale \<open>key_order\<close>): every operation preserves \<^const>\<open>table_ok\<close>, no
  null pointer is dereferenced, and the operations do to the contents of the table what
  the map operations do.
\<close>

locale key_order =
  fixes cmpf :: "'k \<Rightarrow> 'k \<Rightarrow> int" and hashf :: "'k \<Rightarrow> 64 word" and valid :: "'k \<Rightarrow> bool"
  assumes cmp_refl: "valid a \<Longrightarrow> cmpf a a = 0"
    and cmp_anti: "valid a \<Longrightarrow> valid b \<Longrightarrow> cmpf a b < 0 \<longleftrightarrow> 0 < cmpf b a"
    and cmp_trans: "valid a \<Longrightarrow> valid b \<Longrightarrow> valid c \<Longrightarrow>
      cmpf a b \<le> 0 \<Longrightarrow> cmpf b c \<le> 0 \<Longrightarrow> cmpf a c \<le> 0"
    and cmp_hash: "valid a \<Longrightarrow> valid b \<Longrightarrow> cmpf a b = 0 \<Longrightarrow> hashf a = hashf b"
begin

lemma cmp_sym: "valid a \<Longrightarrow> valid b \<Longrightarrow> cmpf a b = 0 \<longleftrightarrow> cmpf b a = 0"
  using cmp_anti [of a b] cmp_anti [of b a] by linarith

lemma cmp_flip: "valid a \<Longrightarrow> valid b \<Longrightarrow> 0 \<le> cmpf a b \<longleftrightarrow> cmpf b a \<le> 0"
  using cmp_anti [of a b] cmp_anti [of b a] by linarith

lemma cmp_less_trans:
  assumes v: "valid a" "valid b" "valid c"
  shows "cmpf a b < 0 \<Longrightarrow> cmpf b c \<le> 0 \<Longrightarrow> cmpf a c < 0"
    and "cmpf a b \<le> 0 \<Longrightarrow> cmpf b c < 0 \<Longrightarrow> cmpf a c < 0"
proof -
  assume ab: "cmpf a b < 0" and bc: "cmpf b c \<le> 0"
  show "cmpf a c < 0"
  proof (rule ccontr)
    assume "\<not> cmpf a c < 0"
    then have "cmpf c a \<le> 0" using cmp_flip [OF v(1,3)] by simp
    then have "cmpf b a \<le> 0" using cmp_trans [OF v(2,3,1) bc] by simp
    then show False using ab cmp_anti [OF v(1,2)] by simp
  qed
next
  assume ab: "cmpf a b \<le> 0" and bc: "cmpf b c < 0"
  show "cmpf a c < 0"
  proof (rule ccontr)
    assume "\<not> cmpf a c < 0"
    then have "cmpf c a \<le> 0" using cmp_flip [OF v(1,3)] by simp
    then have "cmpf c b \<le> 0" using cmp_trans [OF v(3,1,2) _ ab] by simp
    then show False using bc cmp_anti [OF v(2,3)] by simp
  qed
qed

lemma cmp_eq_left:
  assumes v: "valid a" "valid b" "valid c" and "cmpf a b = 0"
  shows "cmpf a c < 0 \<longleftrightarrow> cmpf b c < 0" "cmpf a c = 0 \<longleftrightarrow> cmpf b c = 0"
    "cmpf a c > 0 \<longleftrightarrow> cmpf b c > 0"
proof -
  have ba: "cmpf b a = 0" using cmp_sym v assms(4) by blast
  show less: "cmpf a c < 0 \<longleftrightarrow> cmpf b c < 0"
    using cmp_less_trans(2) [OF v] cmp_less_trans(2) [OF v(2,1,3)] assms(4) ba by auto
  have le: "cmpf a c \<le> 0 \<longleftrightarrow> cmpf b c \<le> 0"
    using cmp_trans [OF v] cmp_trans [OF v(2,1,3)] assms(4) ba by auto
  show "cmpf a c = 0 \<longleftrightarrow> cmpf b c = 0" "cmpf a c > 0 \<longleftrightarrow> cmpf b c > 0"
    using less le by linarith+
qed

section \<open>Searching sorted entries\<close>

definition sorted_valid :: "('k, 'd) entry list \<Rightarrow> bool" where
  "sorted_valid es \<longleftrightarrow> in_order cmpf es \<and> (\<forall>e \<in> set es. valid (key e))"

lemma sorted_valid_append:
  "sorted_valid (xs @ ys) \<longleftrightarrow> sorted_valid xs \<and> sorted_valid ys \<and>
    (\<forall>x \<in> set xs. \<forall>y \<in> set ys. cmpf (key x) (key y) < 0)"
  by (auto simp: sorted_valid_def in_order_def sorted_wrt_append)

lemma sorted_valid_Cons:
  "sorted_valid (x # ys) \<longleftrightarrow> valid (key x) \<and> sorted_valid ys \<and>
    (\<forall>y \<in> set ys. cmpf (key x) (key y) < 0)"
  by (auto simp: sorted_valid_def in_order_def)

lemma sorted_valid_key: "sorted_valid es \<Longrightarrow> e \<in> set es \<Longrightarrow> valid (key e)"
  by (simp add: sorted_valid_def)

abbreviation lookup :: "'k \<Rightarrow> ('k, 'd) entry list \<Rightarrow> ('k, 'd) entry option" where
  "lookup k es \<equiv> find (\<lambda>e. cmpf k (key e) = 0) es"

lemma lookup_before:
  assumes "sorted_valid (xs @ e # ys)" "valid k" "0 \<le> cmpf k (key e)"
  shows "lookup k xs = None"
proof (rule find_None)
  fix x assume x: "x \<in> set xs"
  have v: "valid (key x)" "valid (key e)" "cmpf (key x) (key e) < 0"
    using assms(1) x by (auto simp: sorted_valid_append sorted_valid_Cons dest: sorted_valid_key)
  then show "cmpf k (key x) \<noteq> 0"
    using cmp_less_trans(1) [of "key x" "key e" k] cmp_anti [of "key x" k] cmp_flip [of k "key e"]
      assms(2,3) by auto
qed

lemma lookup_after:
  assumes "sorted_valid (xs @ e # ys)" "valid k" "cmpf k (key e) \<le> 0"
  shows "lookup k ys = None"
proof (rule find_None)
  fix x assume x: "x \<in> set ys"
  have v: "valid (key x)" "valid (key e)" "cmpf (key e) (key x) < 0"
    using assms(1) x by (auto simp: sorted_valid_append sorted_valid_Cons dest: sorted_valid_key)
  then show "cmpf k (key x) \<noteq> 0"
    using cmp_less_trans(2) [of k "key e" "key x"] assms(2,3) by auto
qed

lemma lookup_split:
  assumes "sorted_valid (xs @ e # ys)" "valid k"
  shows "lookup k (xs @ e # ys) = (if cmpf k (key e) = 0 then Some e else lookup k (xs @ ys))"
  using lookup_before [OF assms] by (auto simp: find_append split: option.splits)

lemma find_node_find:
  assumes "sorted_valid (entries t)" "valid k"
  shows "find_node cmpf k t = lookup k (entries t)"
  using assms
proof (induction t)
  case (Dbn c l e r)
  have l: "sorted_valid (entries l)" and r: "sorted_valid (entries r)"
    using Dbn.prems by (auto simp: sorted_valid_append sorted_valid_Cons)
  show ?case
    using Dbn.IH(1) [OF l Dbn.prems(2)] Dbn.IH(2) [OF r Dbn.prems(2)]
      lookup_before [of "entries l" e "entries r" k] lookup_after [of "entries l" e "entries r" k]
      Dbn.prems
    by (auto simp: Let_def find_append split: option.splits)
qed simp

text \<open>Where the descent ends, the key fits between the entries before and after.\<close>

lemma descend_fits:
  assumes "descend cmpf k t fs = (Nil, gs)" "sorted_valid (entries t)" "valid k"
    "\<forall>x \<in> set (before fs). cmpf (key x) k < 0" "\<forall>x \<in> set (after fs). cmpf k (key x) < 0"
  shows "(\<forall>x \<in> set (before gs). cmpf (key x) k < 0) \<and> (\<forall>x \<in> set (after gs). cmpf k (key x) < 0)"
  using assms
proof (induction t arbitrary: fs)
  case (Dbn c l e r)
  have s: "sorted_valid (entries l)" "sorted_valid (entries r)" "valid (key e)"
    and le: "\<forall>x \<in> set (entries l). valid (key x) \<and> cmpf (key x) (key e) < 0"
    and re: "\<forall>x \<in> set (entries r). valid (key x) \<and> cmpf (key e) (key x) < 0"
    using Dbn.prems(2) by (auto simp: sorted_valid_append sorted_valid_Cons dest: sorted_valid_key)
  consider "cmpf k (key e) < 0" | "cmpf k (key e) > 0"
    using Dbn.prems(1) by (cases "cmpf k (key e)" "0::int" rule: linorder_cases) auto
  then show ?case
  proof cases
    case 1
    have "\<forall>x \<in> set (entries r). cmpf k (key x) < 0"
      using cmp_less_trans(1) [of k "key e"] re s Dbn.prems(3) 1 by fastforce
    then show ?thesis using Dbn.IH(1) [of "LeftOf c e r # fs"] 1 Dbn.prems s by auto
  next
    case 2
    then have "cmpf (key e) k < 0" using cmp_anti [of "key e" k] s Dbn.prems(3) by blast
    moreover from this have "\<forall>x \<in> set (entries l). cmpf (key x) k < 0"
      using cmp_less_trans(1) [of _ "key e" k] le s Dbn.prems(3) by fastforce
    ultimately show ?thesis using Dbn.IH(2) [of "RightOf c e l # fs"] 2 Dbn.prems s by auto
  qed
qed simp

lemma sorted_valid_insert:
  assumes "descend cmpf k t [] = (Nil, gs)" "sorted_valid (entries t)" "valid k" "key e = k"
  shows "sorted_valid (before gs @ e # after gs)"
  using descend_fits [OF assms(1,2,3)] descend_entries [OF assms(1)] assms(2-4)
  by (auto simp: sorted_valid_append sorted_valid_Cons)

lemma sorted_valid_replace:
  assumes "sorted_valid (xs @ e # ys)" "valid (key e')" "cmpf (key e') (key e) = 0"
  shows "sorted_valid (xs @ e' # ys)"
proof -
  have v: "valid (key e)" and x: "\<And>x. x \<in> set xs \<Longrightarrow> valid (key x) \<and> cmpf (key x) (key e) < 0"
    and y: "\<And>y. y \<in> set ys \<Longrightarrow> valid (key y) \<and> cmpf (key e) (key y) < 0"
    using assms(1) by (auto simp: sorted_valid_append sorted_valid_Cons dest: sorted_valid_key)
  have "cmpf (key e') (key y) < 0" if "y \<in> set ys" for y
    using cmp_eq_left(1) [OF assms(2) v _ assms(3), of "key y"] y [OF that] by simp
  moreover have "cmpf (key x) (key e') < 0" if "x \<in> set xs" for x
    using cmp_less_trans(1) [of "key x" "key e" "key e'"] cmp_sym [OF assms(2) v] assms x [OF that] v
    by simp
  ultimately show ?thesis
    using assms by (auto simp: sorted_valid_append sorted_valid_Cons)
qed

lemma sorted_valid_delete: "sorted_valid (xs @ e # ys) \<Longrightarrow> sorted_valid (xs @ ys)"
  by (auto simp: sorted_valid_append sorted_valid_Cons)

end

end
