(* ===== verification/DbOps.thy ===== *)
theory DbOps
  imports DbOrder
begin

text \<open>
  The operations of \<open>DbTable\<close> preserve \<^const>\<open>table_ok\<close> and change \<^const>\<open>entry_at\<close> the way
  a map is changed, for every comparison and hash function that satisfy \<open>key_order\<close>.
\<close>

lemma unpend_mset:
  assumes "(b, k) \<in> set zs" "\<forall>z \<in> set zs. fst z = b \<and> c (snd z) k = 0 \<longrightarrow> snd z = k"
    and "c k k = 0"
  shows "mset zs = add_mset (b, k) (mset (unpend c b k zs))"
  using assms by (induction zs) (auto simp: prod_eq_iff)

context key_order begin

lemma buckets_okD:
  assumes "buckets_ok cmpf hashf valid zs table" "b < HASH_SIZE"
  shows "red_black (ht table ! b)" "sorted_valid (entries (ht table ! b))"
    "\<forall>e \<in> set (entries (ht table ! b)).
       valid (key e) \<and> bucket table (key e) = b \<and> (deleted e \<longrightarrow> data e = None)"
    "mset (map snd (filter (\<lambda>z. fst z = b) zs)) =
      mset (map key (filter deleted (entries (ht table ! b))))"
  using assms by (auto simp: buckets_ok_def bucket_ok_def sorted_valid_def simp del: mset_map mset_filter)

lemma buckets_ok_frame:
  assumes "buckets_ok cmpf hashf valid zs table"
  shows "cmp table = cmpf" "hash table = hashf" "length (ht table) = HASH_SIZE"
    "item_count table = n_entries (ht table)"
  using assms by (simp_all add: buckets_ok_def)

lemma entry_at_lookup:
  assumes "buckets_ok cmpf hashf valid zs table" "valid k"
  shows "entry_at table k = lookup k (entries (ht table ! bucket table k))"
  using buckets_okD(2) [OF assms(1) bucket_less [of table k]] assms(2) buckets_ok_frame [OF assms(1)]
  by (simp add: entry_at_def find_node_find)

lemma bucket_eq:
  assumes "hash table = hashf" "valid k" "valid k'" "cmpf k' k = 0"
  shows "bucket table k' = bucket table k"
  using assms cmp_hash [of k' k] by (simp add: bucket_def)

text \<open>Replacing one tree: what the new tree must satisfy.\<close>

lemma update_bucket:
  assumes ok: "buckets_ok cmpf hashf valid zs table" and b: "b < HASH_SIZE"
    and t: "red_black t" "sorted_valid (entries t)"
      "\<forall>e \<in> set (entries t). bucket table (key e) = b \<and> (deleted e \<longrightarrow> data e = None)"
    and pend: "mset (map snd (filter (\<lambda>z. fst z = b) zs')) =
        mset (map key (filter deleted (entries t)))"
      "\<And>b'. b' \<noteq> b \<Longrightarrow> filter_mset (\<lambda>z. fst z = b') (mset zs') = filter_mset (\<lambda>z. fst z = b') (mset zs)"
      "\<forall>z \<in> set zs'. fst z < HASH_SIZE"
    and table': "cmp table' = cmp table" "hash table' = hash table" "ht table' = (ht table)[b := t]"
      "item_count table' = item_count table - int (length (entries (ht table ! b))) +
         int (length (entries t))"
  shows "buckets_ok cmpf hashf valid zs' table'"
proof -
  note frame = buckets_ok_frame [OF ok]
  have bucket': "bucket table' = bucket table" by (rule ext) (simp add: bucket_def table')
  have "bucket_ok valid table' zs' b'" if "b' < HASH_SIZE" for b'
  proof (cases "b' = b")
    case True
    then show ?thesis
      using t pend(1) b frame by (auto simp: bucket_ok_def table' bucket' sorted_valid_def)
  next
    case False
    then show ?thesis
      using buckets_okD [OF ok that] pend(2) [OF False]
      by (auto simp: bucket_ok_def table' bucket' sorted_valid_def frame)
  qed
  then show ?thesis
    using b pend(3) frame by (simp add: buckets_ok_def table' n_entries_update)
qed

lemma entry_at_update:
  assumes "buckets_ok cmpf hashf valid zs' table'" "ht table' = (ht table)[b := t]"
    "hash table' = hash table" "length (ht table) = HASH_SIZE" "valid k"
    and "buckets_ok cmpf hashf valid zs table" "b < HASH_SIZE"
  shows "entry_at table' k =
    (if bucket table k = b then lookup k (entries t) else entry_at table k)"
proof -
  have "bucket table' k = bucket table k" using assms(3) by (simp add: bucket_def)
  then show ?thesis
    using entry_at_lookup [OF assms(1,5)] entry_at_lookup [OF assms(6,5)] assms(2,4,7)
    by (auto simp: nth_list_update)
qed

section \<open>Insertion\<close>

lemma plug_replace:
  assumes "descend cmpf k t [] = (Dbn c l e r, gs)" "red_black t"
  shows "red_black (plug (Dbn c l e' r) gs)"
proof (cases "gs = []")
  case True
  then show ?thesis
    using descend_plug [OF assms(1)] assms(2) by (auto simp: red_black_def)
next
  case False
  then show ?thesis
    using descend_red_black [OF assms] by (intro red_black_plug_inner) auto
qed

lemma insert_new:
  assumes "descend cmpf k t [] = (Nil, gs)" "red_black t"
  shows "\<exists>t'. (case gs of
       [] \<Rightarrow> Some (Dbn BLACK Nil e Nil)
     | f # fs' \<Rightarrow> (if fcolor f = RED then db_rebalance (Dbn RED Nil e Nil) gs
         else Some (plug (Dbn RED Nil e Nil) gs))) = Some t' \<and>
     red_black t' \<and> entries t' = before gs @ e # after gs"
proof (cases gs)
  case Nil
  then show ?thesis by (simp add: red_black_def)
next
  case (Cons f fs')
  note shape = descend_red_black [OF assms]
  show ?thesis
  proof (cases "fcolor f = RED")
    case True
    then show ?thesis
      using db_rebalance_correct [of "Dbn RED Nil e Nil" gs] shape Cons by (cases f) auto
  next
    case False
    then have "red_black (plug (Dbn RED Nil e Nil) gs)"
      using shape Cons by (intro red_black_plug_inner) auto
    then show ?thesis using False Cons entries_plug [of "Dbn RED Nil e Nil" gs] by simp
  qed
qed

lemma pending_unique:
  assumes ok: "buckets_ok cmpf hashf valid zs table" and b: "b < HASH_SIZE"
    and split: "entries (ht table ! b) = xs @ e # ys"
    and z: "z \<in> set zs" "fst z = b" "cmpf (snd z) (key e) = 0"
  shows "snd z = key e"
proof -
  note bk = buckets_okD [OF ok b]
  have "snd z \<in># mset (map snd (filter (\<lambda>z. fst z = b) zs))" using z by auto
  then obtain e' where e': "e' \<in> set (xs @ e # ys)" "snd z = key e'"
    unfolding bk(4) split by (auto split: if_splits)
  have s: "sorted_valid (xs @ e # ys)" using bk(2) split by simp
  have v: "valid (key e')" using sorted_valid_key [OF s] e' by blast
  consider "e' \<in> set xs" | "e' = e" | "e' \<in> set ys" using e' by auto
  then show ?thesis
    using lookup_before [OF s v] lookup_after [OF s v] z(3) e' cmp_refl [OF v]
    by cases (auto simp: find_None_iff)
qed

lemma pending_mem:
  assumes ok: "buckets_ok cmpf hashf valid zs table" and b: "b < HASH_SIZE"
    and e: "e \<in> set (entries (ht table ! b))" "deleted e"
  shows "(b, key e) \<in> set zs"
proof -
  have "key e \<in># mset (map key (filter deleted (entries (ht table ! b))))" using e by auto
  then have "key e \<in># mset (map snd (filter (\<lambda>z. fst z = b) zs))"
    unfolding buckets_okD(4) [OF ok b] .
  then show ?thesis by auto
qed

lemma db_insert_new:
  assumes ok: "buckets_ok cmpf hashf valid (free_list table) table" and k: "valid k"
    and none: "descend cmpf k (ht table ! bucket table k) [] = (Nil, gs)"
  shows "\<exists>table'. db_insert table k d = Some table' \<and>
    buckets_ok cmpf hashf valid (free_list table') table' \<and>
    free_lock table' = free_lock table \<and> free_list table' = free_list table \<and>
    (\<forall>k'. valid k' \<longrightarrow> entry_at table' k' =
       (if cmpf k' k = 0 then Some \<lparr>key = k, data = d, deleted = False\<rparr> else entry_at table k'))"
proof -
  define b where "b = bucket table k"
  define e where "e = \<lparr>key = k, data = d, deleted = False\<rparr>"
  have b: "b < HASH_SIZE" by (simp add: b_def)
  note frame = buckets_ok_frame [OF ok] and bk = buckets_okD [OF ok b]
  note none' = none [folded b_def]
  have es: "entries (ht table ! b) = before gs @ after gs"
    using descend_entries [OF none'] by simp
  obtain t where t: "(case gs of
       [] \<Rightarrow> Some (Dbn BLACK Nil e Nil)
     | f # fs' \<Rightarrow> (if fcolor f = RED then db_rebalance (Dbn RED Nil e Nil) gs
         else Some (plug (Dbn RED Nil e Nil) gs))) = Some t"
    "red_black t" "entries t = before gs @ e # after gs"
    using insert_new [OF none' bk(1)] by blast
  define table' where "table' = table\<lparr>ht := (ht table)[b := t], item_count := item_count table + 1\<rparr>"
  have run: "db_insert table k d = Some table'"
    using none' t(1) [unfolded e_def] unfolding db_insert_def Let_def
    by (simp add: frame b_def [symmetric] table'_def)
  have s: "sorted_valid (entries t)"
    using sorted_valid_insert [OF none' bk(2) k, of e] t(3) by (simp add: e_def)
  have ok': "buckets_ok cmpf hashf valid (free_list table) table'"
  proof (rule update_bucket [OF ok b t(2) s])
    show "\<forall>e' \<in> set (entries t). bucket table (key e') = b \<and> (deleted e' \<longrightarrow> data e' = None)"
      using bk(3) t(3) es by (auto simp: e_def b_def)
    show "mset (map snd (filter (\<lambda>z. fst z = b) (free_list table))) =
        mset (map key (filter deleted (entries t)))"
      using bk(4) t(3) es by (simp add: e_def)
  qed (use ok es t(3) in \<open>auto simp: table'_def buckets_ok_def\<close>)
  have "entry_at table' k' = (if cmpf k' k = 0 then Some e else entry_at table k')" if "valid k'" for k'
  proof -
    have "entry_at table' k' =
        (if bucket table k' = b then lookup k' (entries t) else entry_at table k')"
      by (rule entry_at_update [OF ok' _ _ frame(3) that ok b]) (simp_all add: table'_def)
    then show ?thesis
      using lookup_split [of "before gs" e "after gs" k'] s t(3) that es entry_at_lookup [OF ok that]
        bucket_eq [OF frame(2) k that] by (auto simp: e_def b_def)
  qed
  then show ?thesis using run ok' by (auto simp: table'_def e_def)
qed


lemma db_insert_replace:
  assumes ok: "buckets_ok cmpf hashf valid (free_list table) table" and k: "valid k"
    and found: "descend cmpf k (ht table ! bucket table k) [] = (Dbn c l e r, gs)"
  shows "\<exists>table'. db_insert table k d = Some table' \<and>
    buckets_ok cmpf hashf valid (free_list table') table' \<and>
    free_lock table' = free_lock table \<and> set (free_list table') \<subseteq> set (free_list table) \<and>
    (\<forall>k'. valid k' \<longrightarrow> entry_at table' k' =
       (if cmpf k' k = 0 then Some \<lparr>key = k, data = d, deleted = False\<rparr> else entry_at table k'))"
proof -
  define b where "b = bucket table k"
  define e' where "e' = \<lparr>key = k, data = d, deleted = False\<rparr>"
  define t where "t = plug (Dbn c l e' r) gs"
  define xs where "xs = before gs @ entries l"
  define ys where "ys = entries r @ after gs"
  define zs where "zs = (if deleted e then unpend cmpf b (key e) (free_list table)
    else free_list table)"
  have b: "b < HASH_SIZE" by (simp add: b_def)
  note frame = buckets_ok_frame [OF ok] and bk = buckets_okD [OF ok b]
  note found' = found [folded b_def]
  have es: "entries (ht table ! b) = xs @ e # ys" and et: "entries t = xs @ e' # ys"
    using descend_entries [OF found'] by (simp_all add: xs_def ys_def t_def)
  have ke: "cmpf k (key e) = 0" by (rule descend_found [OF found'])
  have ve: "valid (key e)" using bk(3) es by auto
  have s: "sorted_valid (entries t)"
    using sorted_valid_replace [of xs e ys e'] bk(2) es et ke k by (simp add: e'_def)
  have zs: "if deleted e then mset (free_list table) = add_mset (b, key e) (mset zs)
      else zs = free_list table"
    using unpend_mset [of b "key e" "free_list table" cmpf] pending_mem [OF ok b, of e]
      pending_unique [OF ok b es] cmp_refl [OF ve] es by (auto simp: zs_def)
  then have zs_sub: "set zs \<subseteq> set (free_list table)"
    by (auto simp flip: set_mset_mset split: if_splits)
  obtain table' where run: "db_insert table k d = Some table'"
    and table': "cmp table' = cmp table" "hash table' = hash table" "ht table' = (ht table)[b := t]"
      "item_count table' = item_count table" "free_list table' = zs"
      "free_lock table' = free_lock table"
    using found' unfolding db_insert_def Let_def
    by (auto simp: frame b_def [symmetric] e'_def t_def zs_def)
  have ok': "buckets_ok cmpf hashf valid zs table'"
  proof (rule update_bucket [OF ok b _ s])
    show "red_black t" unfolding t_def by (rule plug_replace [OF found' bk(1)])
    show "\<forall>e \<in> set (entries t). bucket table (key e) = b \<and> (deleted e \<longrightarrow> data e = None)"
      using bk(3) et es by (auto simp: e'_def b_def)
    show "mset (map snd (filter (\<lambda>z. fst z = b) zs)) = mset (map key (filter deleted (entries t)))"
      using bk(4) et es zs by (auto simp: e'_def split: if_splits)
    show "filter_mset (\<lambda>z. fst z = b') (mset zs) =
        filter_mset (\<lambda>z. fst z = b') (mset (free_list table))" if "b' \<noteq> b" for b'
      using that zs by (auto split: if_splits)
    show "\<forall>z \<in> set zs. fst z < HASH_SIZE" using zs_sub ok by (auto simp: buckets_ok_def)
  qed (simp_all add: table' es et)
  have "entry_at table' k' = (if cmpf k' k = 0 then Some e' else entry_at table k')" if "valid k'" for k'
  proof -
    have "entry_at table' k' =
        (if bucket table k' = b then lookup k' (entries t) else entry_at table k')"
      by (rule entry_at_update [OF ok' _ _ frame(3) that ok b]) (simp_all add: table')
    moreover have "cmpf k' k = 0 \<longleftrightarrow> cmpf k' (key e) = 0"
      using cmp_eq_left(2) [OF k ve that ke] cmp_sym that k ve by blast
    ultimately show ?thesis
      using lookup_split [of xs e' ys k'] lookup_split [of xs e ys k'] s et bk(2) that es
        entry_at_lookup [OF ok that] bucket_eq [OF frame(2) k that] by (auto simp: e'_def b_def)
  qed
  then show ?thesis using run ok' table' zs_sub by (auto simp: e'_def)
qed

lemma db_insert_correct:
  assumes ok: "table_ok cmpf hashf valid table" and k: "valid k"
  shows "\<exists>table'. db_insert table k d = Some table' \<and> table_ok cmpf hashf valid table' \<and>
    free_lock table' = free_lock table \<and>
    (\<forall>k'. valid k' \<longrightarrow> entry_at table' k' =
       (if cmpf k' k = 0 then Some \<lparr>key = k, data = d, deleted = False\<rparr> else entry_at table k'))"
proof -
  have ok': "buckets_ok cmpf hashf valid (free_list table) table"
    using ok by (simp add: table_ok_def)
  obtain p gs where p: "descend cmpf k (ht table ! bucket table k) [] = (p, gs)" by force
  show ?thesis
  proof (cases p)
    case Nil
    then show ?thesis
      using db_insert_new [OF ok' k p [unfolded Nil], of d] ok by (auto simp: table_ok_def)
  next
    case (Dbn c l e r)
    then show ?thesis
      using db_insert_replace [OF ok' k p [unfolded Dbn], of d] ok by (auto simp: table_ok_def)
  qed
qed

section \<open>Removal\<close>

text \<open>Cutting the node of \<open>e\<close> out, as \<open>db_erase\<close> and \<open>db_free_unlock\<close> do.\<close>

lemma cut_node:
  assumes ok: "buckets_ok cmpf hashf valid zs table" and b: "b < HASH_SIZE"
    and found: "descend cmpf k (ht table ! b) [] = (Dbn c l e r, gs)"
    and zs': "if deleted e then mset zs = add_mset (b, key e) (mset zs') else zs' = zs"
  shows "\<exists>t. db_rebalance_erase (Dbn c l e r) gs = Some t \<and>
    buckets_ok cmpf hashf valid zs'
      (table\<lparr>ht := (ht table)[b := t], item_count := item_count table - 1\<rparr>) \<and>
    (\<forall>k'. valid k' \<longrightarrow>
       entry_at (table\<lparr>ht := (ht table)[b := t], item_count := item_count table - 1\<rparr>) k' =
         (if cmpf k' (key e) = 0 then None else entry_at table k'))"
proof -
  note frame = buckets_ok_frame [OF ok] and bk = buckets_okD [OF ok b]
  note shape = descend_red_black [OF found bk(1)]
  define xs where "xs = before gs @ entries l"
  define ys where "ys = entries r @ after gs"
  have es: "entries (ht table ! b) = xs @ e # ys"
    using descend_entries [OF found] by (simp_all add: xs_def ys_def)
  obtain t where t: "db_rebalance_erase (Dbn c l e r) gs = Some t" "red_black t"
    "entries t = xs @ ys"
    using db_rebalance_erase_correct [of "Dbn c l e r" gs] shape by (auto simp: xs_def ys_def)
  define table' where "table' = table\<lparr>ht := (ht table)[b := t], item_count := item_count table - 1\<rparr>"
  have ve: "valid (key e)" "bucket table (key e) = b" using bk(3) es by auto
  have s: "sorted_valid (entries t)"
    using sorted_valid_delete [of xs e ys] bk(2) es t(3) by simp
  have zs_sub: "set zs' \<subseteq> set zs"
    using zs' by (auto simp flip: set_mset_mset split: if_splits)
  have ok': "buckets_ok cmpf hashf valid zs' table'"
  proof (rule update_bucket [OF ok b t(2) s])
    show "\<forall>e \<in> set (entries t). bucket table (key e) = b \<and> (deleted e \<longrightarrow> data e = None)"
      using bk(3) t(3) es by auto
    show "mset (map snd (filter (\<lambda>z. fst z = b) zs')) = mset (map key (filter deleted (entries t)))"
      using bk(4) t(3) es zs' by (auto split: if_splits)
    show "filter_mset (\<lambda>z. fst z = b') (mset zs') = filter_mset (\<lambda>z. fst z = b') (mset zs)"
      if "b' \<noteq> b" for b'
      using that zs' by (auto split: if_splits)
    show "\<forall>z \<in> set zs'. fst z < HASH_SIZE" using zs_sub ok by (auto simp: buckets_ok_def)
  qed (simp_all add: table'_def es t(3))
  have "entry_at table' k' = (if cmpf k' (key e) = 0 then None else entry_at table k')"
    if "valid k'" for k'
  proof -
    have s': "sorted_valid (xs @ e # ys)" using bk(2) es by simp
    have "entry_at table' k' =
        (if bucket table k' = b then lookup k' (entries t) else entry_at table k')"
      by (rule entry_at_update [OF ok' _ _ frame(3) that ok b]) (simp_all add: table'_def)
    moreover have "lookup k' (xs @ ys) = None" if "cmpf k' (key e) = 0"
      using lookup_before [OF s' \<open>valid k'\<close>] lookup_after [OF s' \<open>valid k'\<close>] that
      by (simp add: find_append)
    ultimately show ?thesis
      using lookup_split [OF s' that] es t(3) entry_at_lookup [OF ok that]
        bucket_eq [OF frame(2) ve(1) that] ve(2) by auto
  qed
  then show ?thesis using t(1) ok' by (simp add: table'_def)
qed

text \<open>Marking the node of \<open>e\<close> as deleted, as \<open>db_erase\<close> does under the lock.\<close>

lemma mark_node:
  assumes ok: "buckets_ok cmpf hashf valid zs table" and b: "b < HASH_SIZE"
    and found: "descend cmpf k (ht table ! b) [] = (Dbn c l e r, gs)" and "\<not> deleted e"
    and e': "e' = e\<lparr>deleted := True, data := None\<rparr>" and t: "t = plug (Dbn c l e' r) gs"
    and table': "cmp table' = cmp table" "hash table' = hash table" "ht table' = (ht table)[b := t]"
      "item_count table' = item_count table"
  shows "buckets_ok cmpf hashf valid (zs @ [(b, key e)]) table'"
    and "\<And>k'. valid k' \<Longrightarrow>
       entry_at table' k' = (if cmpf k' (key e) = 0 then Some e' else entry_at table k')"
proof -
  note frame = buckets_ok_frame [OF ok] and bk = buckets_okD [OF ok b]
  define xs where "xs = before gs @ entries l"
  define ys where "ys = entries r @ after gs"
  have es: "entries (ht table ! b) = xs @ e # ys" and et: "entries t = xs @ e' # ys"
    using descend_entries [OF found] t by (simp_all add: xs_def ys_def)
  have ve: "valid (key e)" "bucket table (key e) = b" using bk(3) es by auto
  have s: "sorted_valid (entries t)"
    using sorted_valid_replace [of xs e ys e'] bk(2) es et ve e' cmp_refl by simp
  show ok': "buckets_ok cmpf hashf valid (zs @ [(b, key e)]) table'"
  proof (rule update_bucket [OF ok b _ s])
    show "red_black t" unfolding t by (rule plug_replace [OF found bk(1)])
    show "\<forall>e \<in> set (entries t). bucket table (key e) = b \<and> (deleted e \<longrightarrow> data e = None)"
      using bk(3) et es e' by auto
    show "mset (map snd (filter (\<lambda>z. fst z = b) (zs @ [(b, key e)]))) =
        mset (map key (filter deleted (entries t)))"
      using bk(4) et es e' \<open>\<not> deleted e\<close> by simp
    show "\<forall>z \<in> set (zs @ [(b, key e)]). fst z < HASH_SIZE" using b ok by (auto simp: buckets_ok_def)
  qed (simp_all add: table' es et)
  fix k' assume k': "valid k'"
  have "entry_at table' k' =
      (if bucket table k' = b then lookup k' (entries t) else entry_at table k')"
    by (rule entry_at_update [OF ok' _ _ frame(3) k' ok b]) (simp_all add: table')
  then show "entry_at table' k' = (if cmpf k' (key e) = 0 then Some e' else entry_at table k')"
    using lookup_split [of xs e' ys k'] lookup_split [of xs e ys k'] s et bk(2) k' es
      entry_at_lookup [OF ok k'] bucket_eq [OF frame(2) ve(1) k'] ve(2) e' by auto
qed

lemma no_pending:
  assumes ok: "buckets_ok cmpf hashf valid [] table" and "valid k" "entry_at table k = Some e"
  shows "\<not> deleted e"
proof -
  have "e \<in> set (entries (ht table ! bucket table k))"
    using assms(3) entry_at_lookup [OF ok assms(2)] by (auto dest: find_Some_in)
  then show ?thesis using pending_mem [OF ok bucket_less] by auto
qed

lemma entry_at_descend:
  assumes "buckets_ok cmpf hashf valid zs table"
    and "descend cmpf k (ht table ! bucket table k) [] = (p, gs)"
  shows "entry_at table k = (case p of Nil \<Rightarrow> None | Dbn _ _ e _ \<Rightarrow> Some e)"
  using descend_find [OF assms(2)] buckets_ok_frame [OF assms(1)] by (simp add: entry_at_def)

definition entry_after_erase :: "('k, 'd) dbt \<Rightarrow> 'k \<Rightarrow> ('k, 'd) entry option" where
  "entry_after_erase table k = (if free_lock table = 0 then None
     else map_option (\<lambda>e. e\<lparr>deleted := True, data := None\<rparr>) (entry_at table k))"

lemma db_erase_correct:
  assumes ok: "table_ok cmpf hashf valid table" and k: "valid k" and "erasable table k"
  shows "\<exists>table'. db_erase table k = Some (db_search table k, table') \<and>
    table_ok cmpf hashf valid table' \<and> free_lock table' = free_lock table \<and>
    (\<forall>k'. valid k' \<longrightarrow> entry_at table' k' =
       (if cmpf k' k = 0 then entry_after_erase table k' else entry_at table k'))"
proof -
  define b where "b = bucket table k"
  have b: "b < HASH_SIZE" by (simp add: b_def)
  have ok': "buckets_ok cmpf hashf valid (free_list table) table"
    using ok by (simp add: table_ok_def)
  note frame = buckets_ok_frame [OF ok'] and bk = buckets_okD [OF ok' b]
  obtain p gs where p: "descend cmpf k (ht table ! b) [] = (p, gs)" by force
  note at = entry_at_descend [OF ok' p [unfolded b_def]]
  have same: "entry_at table k' = entry_at table k" if "valid k'" "cmpf k' k = 0" for k'
  proof -
    have "(\<lambda>e. cmpf k' (key e) = 0) e \<longleftrightarrow> (\<lambda>e. cmpf k (key e) = 0) e"
      if "e \<in> set (entries (ht table ! b))" for e
      using cmp_eq_left(2) [OF \<open>valid k'\<close> k _ \<open>cmpf k' k = 0\<close>] bk(3) that by auto
    then show ?thesis
      using entry_at_lookup [OF ok' that(1)] entry_at_lookup [OF ok' k]
        bucket_eq [OF frame(2) k that] by (auto simp: b_def cong: find_cong)
  qed
  show ?thesis
  proof (cases p)
    case Nil
    then show ?thesis
      using p ok at same by (auto simp: db_erase_def b_def frame db_search_entry_at entry_after_erase_def)
  next
    case (Dbn c l e r)
    note found = p [unfolded Dbn]
    have e: "entry_at table k = Some e" using at Dbn by simp
    then have live: "\<not> deleted e"
      using assms(3) no_pending [OF _ k e] ok by (auto simp: erasable_def table_ok_def)
    have ke: "cmpf k (key e) = 0" and ve: "valid (key e)"
      using descend_found [OF found] bk(3) descend_entries [OF found] by auto
    have eq: "cmpf k' (key e) = 0 \<longleftrightarrow> cmpf k' k = 0" if "valid k'" for k'
      using cmp_eq_left(2) [OF k ve that ke] cmp_sym that k ve by blast
    show ?thesis
    proof (cases "free_lock table = 0")
      case True
      then have nil: "free_list table = []" using ok by (simp add: table_ok_def)
      obtain t where t: "db_rebalance_erase (Dbn c l e r) gs = Some t"
        "buckets_ok cmpf hashf valid []
          (table\<lparr>ht := (ht table)[b := t], item_count := item_count table - 1\<rparr>)"
        "\<forall>k'. valid k' \<longrightarrow>
          entry_at (table\<lparr>ht := (ht table)[b := t], item_count := item_count table - 1\<rparr>) k' =
            (if cmpf k' (key e) = 0 then None else entry_at table k')"
        using cut_node [OF ok' b found, of "[]"] live nil by auto
      then show ?thesis
        using found True nil e eq
        by (simp add: db_erase_def b_def frame db_search_entry_at table_ok_def entry_after_erase_def)
    next
      case False
      define e' where "e' = e\<lparr>deleted := True, data := None\<rparr>"
      define t where "t = plug (Dbn c l e' r) gs"
      obtain table' where run: "db_erase table k = Some (data e, table')"
        and table': "cmp table' = cmp table" "hash table' = hash table"
          "ht table' = (ht table)[b := t]" "item_count table' = item_count table"
          "free_list table' = free_list table @ [(b, key e)]" "free_lock table' = free_lock table"
        using found False by (auto simp: db_erase_def b_def frame t_def e'_def Let_def)
      note mark = mark_node [OF ok' b found live e'_def t_def table'(1-4)]
      show ?thesis
        using run table' mark e eq same False ok
        by (auto simp: table_ok_def db_search_entry_at entry_after_erase_def e'_def)
    qed
  qed
qed

section \<open>Lock and unlock\<close>

lemma purge_correct:
  assumes "buckets_ok cmpf hashf valid zs table"
  shows "\<exists>table'. purge zs table = Some table' \<and> buckets_ok cmpf hashf valid [] table' \<and>
    free_lock table' = free_lock table \<and> free_list table' = free_list table \<and>
    (\<forall>k. valid k \<longrightarrow> entry_at table' k =
       (case entry_at table k of None \<Rightarrow> None | Some e \<Rightarrow> if deleted e then None else Some e))"
  using assms
proof (induction zs arbitrary: table)
  case Nil
  then show ?case using no_pending [OF Nil] by (auto split: option.splits)
next
  case (Cons z zs)
  obtain b k where z: "z = (b, k)" by force
  have b: "b < HASH_SIZE" using Cons.prems z by (simp add: buckets_ok_def)
  note frame = buckets_ok_frame [OF Cons.prems] and bk = buckets_okD [OF Cons.prems b]
  have "k \<in># mset (map snd (filter (\<lambda>z. fst z = b) (z # zs)))" using z by simp
  then have "k \<in># mset (map key (filter deleted (entries (ht table ! b))))"
    unfolding bk(4) .
  then obtain e0 where e0: "e0 \<in> set (entries (ht table ! b))" "deleted e0" "key e0 = k" by auto
  then have vk: "valid k" "bucket table k = b" using bk(3) by auto
  obtain p gs where p: "descend cmpf k (ht table ! b) [] = (p, gs)" by force
  obtain xs ys where split: "entries (ht table ! b) = xs @ e0 # ys"
    using e0(1) by (meson split_list)
  have "entry_at table k = Some e0"
    using entry_at_lookup [OF Cons.prems vk(1)] lookup_split [of xs e0 ys k] split e0(3) vk bk(2)
      cmp_refl by simp
  with entry_at_descend [OF Cons.prems, of k p gs] p vk
  obtain c l r where found: "descend cmpf k (ht table ! b) [] = (Dbn c l e0 r, gs)"
    by (auto split: dbn.splits)
  obtain t where t: "db_rebalance_erase (Dbn c l e0 r) gs = Some t"
    and ok1: "buckets_ok cmpf hashf valid zs
      (table\<lparr>ht := (ht table)[b := t], item_count := item_count table - 1\<rparr>)"
    and at1: "\<forall>k'. valid k' \<longrightarrow>
      entry_at (table\<lparr>ht := (ht table)[b := t], item_count := item_count table - 1\<rparr>) k' =
        (if cmpf k' k = 0 then None else entry_at table k')"
    using cut_node [OF Cons.prems b found, of zs] e0 z by auto
  have dead: "entry_at table k' = Some e0" if "valid k'" "cmpf k' k = 0" for k'
    using entry_at_lookup [OF Cons.prems that(1)] lookup_split [of xs e0 ys k'] split e0(3) bk(2)
      that bucket_eq [OF frame(2) vk(1) that] vk(2) by simp
  obtain table' where rest: "purge (z # zs) table = Some table'"
    "buckets_ok cmpf hashf valid [] table'" "free_lock table' = free_lock table"
    "free_list table' = free_list table"
    and at': "\<And>k'. valid k' \<Longrightarrow> entry_at table' k' =
      (case if cmpf k' k = 0 then None else entry_at table k' of
         None \<Rightarrow> None | Some e \<Rightarrow> if deleted e then None else Some e)"
    using Cons.IH [OF ok1] t found at1 by (auto simp: z frame)
  have "entry_at table' k' =
      (case entry_at table k' of None \<Rightarrow> None | Some e \<Rightarrow> if deleted e then None else Some e)"
    if "valid k'" for k'
    using at' [OF that] dead [OF that] e0(2) by (cases "cmpf k' k = 0") simp_all
  then show ?case using rest by blast
qed

lemma db_free_lock_correct:
  "table_ok cmpf hashf valid table \<Longrightarrow> table_ok cmpf hashf valid (db_free_lock table)"
  by (auto simp: table_ok_def buckets_ok_def bucket_ok_def db_free_lock_def bucket_def)

lemma entry_at_free_lock: "entry_at (db_free_lock table) k = entry_at table k"
  by (simp add: entry_at_def db_free_lock_def bucket_def)

lemma db_free_unlock_correct:
  assumes ok: "table_ok cmpf hashf valid table" and lock: "0 < free_lock table"
  shows "\<exists>table'. db_free_unlock table = Some table' \<and> table_ok cmpf hashf valid table' \<and>
    free_lock table' = free_lock table - 1 \<and>
    (\<forall>k. valid k \<longrightarrow> entry_at table' k =
       (if free_lock table = 1
        then (case entry_at table k of None \<Rightarrow> None | Some e \<Rightarrow> if deleted e then None else Some e)
        else entry_at table k))"
proof -
  define table1 where "table1 = table\<lparr>free_lock := free_lock table - 1\<rparr>"
  have ok1: "buckets_ok cmpf hashf valid (free_list table1) table1"
    using ok by (auto simp: table_ok_def buckets_ok_def bucket_ok_def table1_def bucket_def)
  have at1: "entry_at table1 k = entry_at table k" for k
    by (simp add: entry_at_def table1_def bucket_def)
  have nil: "buckets_ok cmpf hashf valid [] (t\<lparr>free_list := []\<rparr>)"
    "entry_at (t\<lparr>free_list := []\<rparr>) k = entry_at t k"
    if "buckets_ok cmpf hashf valid [] t" for t :: "('k, 'd) dbt" and k
    using that by (auto simp: buckets_ok_def bucket_ok_def bucket_def entry_at_def)
  show ?thesis
  proof (cases "free_lock table = 1")
    case True
    obtain t where t: "purge (free_list table1) table1 = Some t" "buckets_ok cmpf hashf valid [] t"
      "free_lock t = free_lock table1"
      "\<forall>k. valid k \<longrightarrow> entry_at t k =
        (case entry_at table1 k of None \<Rightarrow> None | Some e \<Rightarrow> if deleted e then None else Some e)"
      using purge_correct [OF ok1] by blast
    show ?thesis
      by (rule exI [of _ "t\<lparr>free_list := []\<rparr>"])
        (use t True nil [OF t(2)] at1 in
          \<open>simp add: db_free_unlock_def table1_def table_ok_def Let_def\<close>)
  next
    case False
    then have "db_free_unlock table = Some table1"
      by (simp add: db_free_unlock_def table1_def Let_def)
    then show ?thesis
      using False lock ok1 at1 by (auto simp: table_ok_def table1_def)
  qed
qed

lemma db_init_correct: "table_ok cmpf hashf valid (db_init cmpf hashf)"
  by (simp add: table_ok_def buckets_ok_def bucket_ok_def db_init_def red_black_def in_order_def
      n_entries_def sum_list_replicate)

end

end
