(* ===== verification/DbWalk.thy ===== *)
theory DbWalk
  imports DbOps
begin

text \<open>
  \<open>db_foreach\<close> with a visitor that leaves the table alone: every entry that is not marked
  deleted is visited exactly once, the stack of 64 nodes suffices for trees of up to
  \<open>2 ^ 32\<close> nodes (as the comment in the source says), the item count comes out even and the
  table is as before.
\<close>

fun preorder :: "('k, 'd) dbn \<Rightarrow> ('k, 'd) entry list" where
  "preorder Nil = []"
| "preorder (Dbn c l e r) = e # preorder l @ preorder r"

lemma mset_preorder: "mset (preorder t) = mset (entries t)"
  by (induction t) auto

lemma set_preorder: "set (preorder t) = set (entries t)"
  by (simp flip: set_mset_mset add: mset_preorder)

lemma length_preorder: "length (preorder t) = length (entries t)"
  by (simp flip: size_mset add: mset_preorder)

definition visit_entry :: "('k \<Rightarrow> 'd option \<Rightarrow> 's \<Rightarrow> 's) \<Rightarrow> ('k, 'd) entry \<Rightarrow> 's \<Rightarrow> 's" where
  "visit_entry g e s = (if deleted e then s else g (key e) (data e) s)"

definition pure_visitor :: "('k \<Rightarrow> 'd option \<Rightarrow> 's \<Rightarrow> 's) \<Rightarrow> 'k \<Rightarrow> 'd option \<Rightarrow>
    ('k, 'd) dbt \<times> 's \<Rightarrow> ('k, 'd) dbt \<times> 's" where
  "pure_visitor g k d ts = (fst ts, g k d (snd ts))"

text \<open>The pending nodes: the heights below leave room on the stack.\<close>

fun stack_fits :: "('k, 'd) dbn list \<Rightarrow> bool" where
  "stack_fits [] = True"
| "stack_fits (p # ps) = (p \<noteq> Nil \<and> height p + length ps \<le> Suc STACK_SIZE \<and> stack_fits ps)"

lemma walk_pure:
  assumes "stack_fits (p # stack)"
    and "\<forall>e \<in> set (preorder p @ concat (map preorder stack)).
      find_node (cmp table) (key e) (ht table ! b) = Some e"
  shows "walk (pure_visitor g) b p stack (table, s) cnt =
    Some (table, fold (visit_entry g) (preorder p @ concat (map preorder stack)) s,
      cnt - int (length (preorder p @ concat (map preorder stack))))"
  using assms
proof (induction "pure_visitor g" b p stack "(table, s)" cnt arbitrary: s rule: walk.induct)
  case (2 b c l e r stack s cnt)
  have e: "find_node (cmp table) (key e) (ht table ! b) = Some e" using 2 by simp
  define s' where "s' = visit_entry g e s"
  have step: "(if deleted e then (table, s) else pure_visitor g (key e) (data e) (table, s)) = (table, s')"
    by (simp add: s'_def visit_entry_def pure_visitor_def)
  note IH = "2.hyps" [OF e step [symmetric] refl refl, simplified]
  show ?case
  proof (cases "l = Nil")
    case True
    note l = this
    show ?thesis
    proof (cases "r = Nil")
      case True
      then show ?thesis
        using l IH(4) 2(5,6) e step
        by (cases stack) (auto simp: s'_def [symmetric])
    next
      case False
      then show ?thesis
        using l IH(3) 2(5,6) e step by (auto simp: s'_def [symmetric])
    qed
  next
    case False
    note l = this
    show ?thesis
    proof (cases "r = Nil")
      case True
      then show ?thesis using l IH(2) 2(5,6) e step by (auto simp: s'_def [symmetric])
    next
      case False
      then have "Suc 0 \<le> height r" "Suc 0 \<le> height l" using l by (cases r; cases l; simp)+
      then have "length stack < STACK_SIZE"
        using 2(5) by (auto simp: max_def split: if_splits)
      moreover have "stack_fits (l # r # stack)" using 2(5) l False by (auto simp: max_def split: if_splits)
      ultimately show ?thesis using l False IH(1) 2(6) e step by (auto simp: s'_def [symmetric])
    qed
  qed
qed simp

context key_order begin

lemma find_node_own:
  assumes ok: "buckets_ok cmpf hashf valid zs table" and b: "b < HASH_SIZE"
    and e: "e \<in> set (entries (ht table ! b))"
  shows "find_node (cmp table) (key e) (ht table ! b) = Some e"
proof -
  note bk = buckets_okD [OF ok b]
  obtain xs ys where split: "entries (ht table ! b) = xs @ e # ys" using e by (meson split_list)
  then show ?thesis
    using lookup_split [of xs e ys "key e"] bk(2,3) find_node_find [of "ht table ! b" "key e"]
      cmp_refl buckets_ok_frame [OF ok] by simp
qed

lemma foreach_buckets_pure:
  assumes ok: "buckets_ok cmpf hashf valid zs table"
    and small: "\<forall>t \<in> set (ht table). length (entries t) \<le> 2 ^ 32" and "\<forall>i \<in> set is. i < HASH_SIZE"
  shows "foreach_buckets (pure_visitor g) is (table, s) cnt =
    Some (table, fold (visit_entry g) (concat (map (\<lambda>i. preorder (ht table ! i)) is)) s,
      cnt - sum_list (map (\<lambda>i. int (length (entries (ht table ! i)))) is))"
  using assms(3)
proof (induction "is" arbitrary: s cnt)
  case (Cons i "is")
  define t where "t = ht table ! i"
  have i: "i < HASH_SIZE" using Cons.prems by simp
  show ?case
  proof (cases "t = Nil")
    case True
    then show ?thesis using Cons by (simp add: t_def)
  next
    case False
    have "2 ^ (height t div 2) \<le> Suc (length (entries t))"
      using buckets_okD(1) [OF ok i] by (simp add: t_def red_black_height)
    also have "\<dots> < 2 ^ 33"
      using bspec [OF small, of t] i buckets_ok_frame(3) [OF ok] by (simp add: t_def)
    finally have "height t div 2 < 33" by (simp only: power_strict_increasing_iff)
    then have "stack_fits [t]" using False by (simp add: STACK_SIZE_def)
    then have "walk (pure_visitor g) i t [] (table, s) cnt =
        Some (table, fold (visit_entry g) (preorder t) s, cnt - int (length (entries t)))"
      using walk_pure [of t "[]" table i g s cnt] find_node_own [OF ok i]
      by (simp add: t_def set_preorder length_preorder)
    then show ?thesis using False Cons by (simp add: t_def algebra_simps)
  qed
qed simp

lemma db_foreach_pure:
  assumes ok: "table_ok cmpf hashf valid table"
    and small: "\<forall>t \<in> set (ht table). length (entries t) \<le> 2 ^ 32"
  shows "db_foreach (pure_visitor g) table s =
    Some (table, fold (visit_entry g) (concat (map preorder (ht table))) s, False)"
proof -
  let ?t = "db_free_lock table"
  have ok': "table_ok cmpf hashf valid ?t" using db_free_lock_correct [OF ok] .
  then have bk: "buckets_ok cmpf hashf valid (free_list ?t) ?t" by (simp add: table_ok_def)
  have len: "length (ht table) = HASH_SIZE" and cnt: "item_count table = n_entries (ht table)"
    using ok by (simp_all add: table_ok_def buckets_ok_def)
  have all: "map (\<lambda>i. f (ht table ! i)) [0..<HASH_SIZE] = map f (ht table)" for f :: "_ \<Rightarrow> 'x"
    using len by (intro nth_equalityI) auto
  have "foreach_buckets (pure_visitor g) [0..<HASH_SIZE] (?t, s) (item_count table) =
      Some (?t, fold (visit_entry g) (concat (map preorder (ht table))) s, 0)"
    using foreach_buckets_pure [OF bk, of "[0..<HASH_SIZE]" g s "item_count table"] small cnt
      all [of preorder] all [of "\<lambda>t. int (length (entries t))"]
    by (simp add: db_free_lock_def n_entries_def)
  moreover have "db_free_unlock ?t = Some table"
  proof (cases "free_lock table = 0")
    case True
    then have "free_list table = []" using ok by (simp add: table_ok_def)
    then show ?thesis using True by (simp add: db_free_unlock_def db_free_lock_def Let_def)
  next
    case False
    then show ?thesis using ok by (simp add: db_free_unlock_def db_free_lock_def Let_def table_ok_def)
  qed
  ultimately show ?thesis by (simp add: db_foreach_def)
qed

text \<open>What is visited: the entries that are there and not marked, each once.\<close>

lemma sorted_keys_distinct:
  "sorted_wrt (\<lambda>x y. cmpf x y < 0) ks \<Longrightarrow> \<forall>k \<in> set ks. valid k \<Longrightarrow> distinct ks"
  by (induction ks) (auto simp: cmp_refl)

lemma foreach_distinct:
  assumes ok: "buckets_ok cmpf hashf valid zs table"
  shows "distinct (map key (concat (map preorder (ht table))))"
proof -
  note bks = buckets_okD [OF ok] and frame = buckets_ok_frame [OF ok]
  have dist: "distinct (map key (preorder (ht table ! b)))" if b: "b < HASH_SIZE" for b
  proof -
    have "distinct (map key (entries (ht table ! b)))"
      using bks(2,3) [OF b]
      by (intro sorted_keys_distinct) (auto simp: sorted_valid_def in_order_def sorted_wrt_map)
    then show ?thesis using mset_eq_imp_distinct_iff [of "map key (preorder (ht table ! b))"
          "map key (entries (ht table ! b))"] by (simp add: mset_preorder)
  qed
  have "distinct (concat (map (map key) (map preorder (ht table))))"
  proof (rule distinct_concat_nth)
    fix i j x
    assume *: "i < length (map (map key) (map preorder (ht table)))"
      "j < length (map (map key) (map preorder (ht table)))"
      "x \<in> set (map (map key) (map preorder (ht table)) ! i)"
      "x \<in> set (map (map key) (map preorder (ht table)) ! j)"
    then have "bucket table x = i" "bucket table x = j"
      using bks(3) frame(3) by (auto simp: set_preorder)
    then show "i = j" by simp
  qed (use dist frame(3) in simp)
  then show ?thesis by (simp add: map_concat)
qed

lemma foreach_visits:
  assumes ok: "buckets_ok cmpf hashf valid zs table" and k: "valid k"
  shows "entry_at table k = Some e \<longleftrightarrow>
    e \<in> set (concat (map preorder (ht table))) \<and> cmpf k (key e) = 0"
proof
  note frame = buckets_ok_frame [OF ok]
  assume e: "entry_at table k = Some e"
  then have "e \<in> set (preorder (ht table ! bucket table k))" "cmpf k (key e) = 0"
    using entry_at_lookup [OF ok k] by (auto simp: set_preorder dest: find_Some_in)
  then show "e \<in> set (concat (map preorder (ht table))) \<and> cmpf k (key e) = 0"
    using frame(3) nth_mem [of "bucket table k" "ht table"] by auto
next
  note frame = buckets_ok_frame [OF ok]
  assume e: "e \<in> set (concat (map preorder (ht table))) \<and> cmpf k (key e) = 0"
  then obtain t where "t \<in> set (ht table)" "e \<in> set (entries t)" by (auto simp: set_preorder)
  then obtain b where b: "b < HASH_SIZE" "e \<in> set (entries (ht table ! b))"
    using frame(3) by (metis in_set_conv_nth)
  note bk = buckets_okD [OF ok b(1)]
  have ve: "valid (key e)" "bucket table (key e) = b" using bk(3) b(2) by auto
  then have "bucket table k = b" using bucket_eq [OF frame(2) ve(1) k] e by simp
  moreover obtain xs ys where "entries (ht table ! b) = xs @ e # ys" using b(2) by (meson split_list)
  ultimately show "entry_at table k = Some e"
    using entry_at_lookup [OF ok k] lookup_split [of xs e ys k] bk(2) k e by simp
qed

end

end
