(* ===== verification/DbKeys.thy ===== *)
theory DbKeys
  imports DbWalk
begin

text \<open>
  The two kinds of tables the servers use, as interpretations of \<open>key_order\<close>: \<open>numdb\<close>
  with \<open>int\<close> keys and \<open>strdb\<close> with string keys of a maximal length; the node pool; and the
  properties of the database layer, stated over the integer and string tables.
\<close>

unbundle bit_operations_syntax

section \<open>Integer keys\<close>

text \<open>The callers cast an \<open>int\<close> to \<open>void*\<close>: the 64-bit key is a sign-extended 32-bit value.\<close>

definition is_int_key :: "64 word \<Rightarrow> bool" where
  "is_int_key k \<longleftrightarrow> - (2 ^ 31) \<le> sint k \<and> sint k < 2 ^ 31"

lemma bit_31_int:
  fixes x :: int
  assumes "- (2 ^ 31) \<le> x" "x < 2 ^ 31"
  shows "bit x 31 \<longleftrightarrow> x < 0"
proof (cases "x < 0")
  case True
  then have "x div 2 ^ 31 = - 1" using assms by (intro int_div_pos_eq [of _ _ _ "x + 2 ^ 31"]) auto
  then show ?thesis using True by (simp add: bit_iff_odd)
next
  case False
  then show ?thesis using assms by (simp add: bit_iff_odd)
qed

lemma bit_31_key: "is_int_key k \<Longrightarrow> bit k 31 \<longleftrightarrow> sint k < 0"
  using bit_31_int [of "sint k"] by (simp add: is_int_key_def bit_sint_iff)

lemma bit_31_mask: "k AND 0x80000000 \<noteq> 0 \<longleftrightarrow> bit k 31" for k :: "64 word"
  using and_exp_eq_0_iff_not_bit [of k 31] by simp

lemma numdb_cmp_sign:
  assumes a: "is_int_key a" and b: "is_int_key b"
  shows "numdb_cmp a b < 0 \<longleftrightarrow> sint a < sint b" "numdb_cmp a b = 0 \<longleftrightarrow> a = b"
proof -
  have range: "- (2 ^ 31) \<le> sint a" "sint a < 2 ^ 31" "- (2 ^ 31) \<le> sint b" "sint b < 2 ^ 31"
    using a b by (simp_all add: is_int_key_def)
  have eq: "sint a = sint b \<longleftrightarrow> a = b" by (auto intro: signed_word_eqI)
  show "numdb_cmp a b < 0 \<longleftrightarrow> sint a < sint b" "numdb_cmp a b = 0 \<longleftrightarrow> a = b"
  proof (atomize (full), cases "bit a 31 = bit b 31")
    case True
    then have sign: "sint a < 0 \<longleftrightarrow> sint b < 0" using bit_31_key a b by simp
    have "sint (a - b) = sint a - sint b"
      using range by (simp add: sint_word_ariths signed_take_bit_int_eq_self)
    moreover have "s32 (sint a - sint b) = sint a - sint b"
      by (rule s32_id) (use range sign in \<open>auto simp: not_less\<close>)
    ultimately have "numdb_cmp a b = sint a - sint b"
      using True by (simp only: numdb_cmp_def bit_31_mask bit_xor_iff if_False) simp
    then show "(numdb_cmp a b < 0 \<longleftrightarrow> sint a < sint b) \<and> (numdb_cmp a b = 0 \<longleftrightarrow> a = b)"
      using eq by auto
  next
    case False
    then have sign: "sint a < 0 \<longleftrightarrow> \<not> sint b < 0" using bit_31_key a b by simp
    have "numdb_cmp a b = (if sint a < 0 then -1 else 1)"
      using False by (simp only: numdb_cmp_def bit_31_mask bit_xor_iff if_True) simp
    then show "(numdb_cmp a b < 0 \<longleftrightarrow> sint a < sint b) \<and> (numdb_cmp a b = 0 \<longleftrightarrow> a = b)"
      using sign by auto
  qed
qed

interpretation numdb: key_order numdb_cmp numdb_hash is_int_key
proof
  fix a b c :: "64 word"
  assume v: "is_int_key a" "is_int_key b"
  note ab = numdb_cmp_sign [OF v] and ba = numdb_cmp_sign [OF v(2,1)]
  have eq: "sint a = sint b \<longleftrightarrow> a = b" by (auto intro: signed_word_eqI)
  show "numdb_cmp a b < 0 \<longleftrightarrow> 0 < numdb_cmp b a" using ab ba eq
    by (cases "sint a" "sint b" rule: linorder_cases) auto
  show "numdb_cmp a b = 0 \<Longrightarrow> numdb_hash a = numdb_hash b" using ab by simp
  assume c: "is_int_key c" and le: "numdb_cmp a b \<le> 0" "numdb_cmp b c \<le> 0"
  show "numdb_cmp a c \<le> 0"
    using le ab numdb_cmp_sign [OF v(2) c] numdb_cmp_sign [OF v(1) c]
    by (auto simp: le_less)
qed (simp add: numdb_cmp_sign)

definition numdb_ok :: "(64 word, 'd) dbt \<Rightarrow> bool" where
  "numdb_ok table \<longleftrightarrow> table_ok numdb_cmp numdb_hash is_int_key table"

section \<open>String keys\<close>

lemma strcmp_refl: "strcmp a a = 0"
  by (induction a) auto

lemma of_char_nonneg: "0 \<le> (of_char c :: int)"
proof -
  have "0 \<le> of_char c mod (256 :: int)" by (rule pos_mod_sign) simp
  then show ?thesis by (simp only: of_char_mod_256)
qed

lemma of_char_pos: "c \<noteq> NUL \<Longrightarrow> 0 < (of_char c :: int)"
proof -
  assume "c \<noteq> NUL"
  then have "(of_char c :: int) \<noteq> of_char NUL" by (simp only: of_char_eq_iff not_False_eq_True)
  then show ?thesis using of_char_nonneg [of c] by (simp add: NUL_def)
qed

lemma strcmp_anti: "NUL \<notin> set a \<Longrightarrow> NUL \<notin> set b \<Longrightarrow> strcmp a b < 0 \<longleftrightarrow> 0 < strcmp b a"
  by (induction a b rule: strcmp.induct) (auto simp: of_char_pos)

lemma strcmp_eq: "NUL \<notin> set a \<Longrightarrow> NUL \<notin> set b \<Longrightarrow> strcmp a b = 0 \<longleftrightarrow> a = b"
proof (induction a b rule: strcmp.induct)
  case (2 y ys)
  then show ?case using of_char_pos [of y] by auto
next
  case (3 x xs)
  then show ?case using of_char_pos [of x] by auto
qed auto

lemma strcmp_trans:
  "NUL \<notin> set a \<Longrightarrow> NUL \<notin> set b \<Longrightarrow> NUL \<notin> set c \<Longrightarrow>
    strcmp a b \<le> 0 \<Longrightarrow> strcmp b c \<le> 0 \<Longrightarrow> strcmp a c \<le> 0"
proof (induction a b arbitrary: c rule: strcmp.induct)
  case (1 c)
  then show ?case by simp
next
  case (2 y ys)
  show ?case by (cases c) (auto simp: of_char_nonneg)
next
  case (3 x xs)
  then show ?case using of_char_pos [of x] by auto
next
  case (4 x xs y ys)
  show ?case
  proof (cases c)
    case Nil
    then show ?thesis using 4 of_char_pos [of y] by auto
  next
    case (Cons z zs)
    then show ?thesis
      using 4 of_char_eq_iff [of x z, where ?'a = int] of_char_eq_iff [of x y, where ?'a = int]
      by (auto split: if_splits)
  qed
qed

definition is_str_key :: "string \<Rightarrow> bool" where
  "is_str_key s \<longleftrightarrow> NUL \<notin> set s"

lemma strhash_prefix: "take i a = take i b \<Longrightarrow> strhash_loop a i h = strhash_loop b i h"
proof (induction a i h arbitrary: b rule: strhash_loop.induct)
  case (1 i h)
  then show ?case by (cases b; cases i) auto
next
  case (2 c cs h)
  then show ?case by (cases b) auto
next
  case (3 c cs i h)
  then obtain bs where b: "b = c # bs" "take i cs = take i bs" by (cases b) auto
  show ?case using 3(1) [OF b(2)] by (simp only: b(1) strhash_loop.simps)
qed

text \<open>\<open>strdb\<close> compares by \<open>strncmp\<close>: two keys are the same when their first \<open>maxlen\<close> bytes are.\<close>

definition same_str_key :: "nat \<Rightarrow> string \<Rightarrow> string \<Rightarrow> bool" where
  "same_str_key maxlen a b \<longleftrightarrow> (if maxlen \<noteq> 0 then take maxlen a = take maxlen b else a = b)"

lemma strdb_cmp_eq:
  assumes "is_str_key a" "is_str_key b"
  shows "strdb_cmp maxlen a b = 0 \<longleftrightarrow> same_str_key maxlen a b"
proof -
  have "NUL \<notin> set (take maxlen x)" if "is_str_key x" for x
    using that by (auto simp: is_str_key_def dest: in_set_takeD)
  then have "strcmp (take maxlen a) (take maxlen b) = 0 \<longleftrightarrow> take maxlen a = take maxlen b"
    using assms by (intro strcmp_eq) blast+
  moreover have "strcmp a b = 0 \<longleftrightarrow> a = b"
    using assms by (intro strcmp_eq) (simp_all add: is_str_key_def)
  ultimately show ?thesis by (simp only: strdb_cmp_def same_str_key_def split: if_split) blast
qed

interpretation strdb: key_order "strdb_cmp maxlen" "strdb_hash maxlen" is_str_key for maxlen
proof
  fix a b c :: string
  show "strdb_cmp maxlen a a = 0" by (simp add: strdb_cmp_def strcmp_refl)
  assume v: "is_str_key a" "is_str_key b"
  have nul: "NUL \<notin> set (take maxlen x)" if "is_str_key x" for x
    using that by (auto simp: is_str_key_def dest: in_set_takeD)
  show "strdb_cmp maxlen a b < 0 \<longleftrightarrow> 0 < strdb_cmp maxlen b a"
    using strcmp_anti [of a b] strcmp_anti [OF nul nul] v
    by (simp add: strdb_cmp_def is_str_key_def)
  show "strdb_cmp maxlen a b = 0 \<Longrightarrow> strdb_hash maxlen a = strdb_hash maxlen b"
    using strdb_cmp_eq [OF v, of maxlen] strhash_prefix [of maxlen a b 0]
    by (simp add: strdb_hash_def same_str_key_def split: if_splits)
  assume c: "is_str_key c" and le: "strdb_cmp maxlen a b \<le> 0" "strdb_cmp maxlen b c \<le> 0"
  then show "strdb_cmp maxlen a c \<le> 0"
    using strcmp_trans [OF nul nul nul, OF v c] strcmp_trans [of a b c] v c
    by (simp only: strdb_cmp_def is_str_key_def split: if_splits) blast+
qed

definition strdb_ok :: "nat \<Rightarrow> (string, 'd) dbt \<Rightarrow> bool" where
  "strdb_ok maxlen table \<longleftrightarrow> table_ok (strdb_cmp maxlen) (strdb_hash maxlen) is_str_key table"

section \<open>Sequences of operations on an integer table\<close>

definition key32 :: "32 word \<Rightarrow> 64 word" where
  "key32 k = scast k"

lemma sint_key32: "sint (key32 k) = sint k"
  unfolding key32_def by (rule sint_up_scast) (simp add: is_up)

lemma is_int_key32: "is_int_key (key32 k)"
  using sint_greater_eq [of k] sint_less [of k] by (simp add: is_int_key_def sint_key32)

lemma key32_inject: "key32 a = key32 b \<longleftrightarrow> a = b"
proof
  assume "key32 a = key32 b"
  then have "sint (key32 a) = sint (key32 b)" by simp
  then show "a = b" by (auto simp: sint_key32 intro: signed_word_eqI)
qed simp

lemma cmp_key32: "numdb_cmp (key32 a) (key32 b) = 0 \<longleftrightarrow> a = b"
  by (simp add: numdb_cmp_sign is_int_key32 key32_inject)

datatype 'd db_op =
    Insert "32 word" 'd
  | Erase "32 word"
  | Lock
  | Unlock

fun run_op :: "'d db_op \<Rightarrow> (64 word, 'd) dbt \<Rightarrow> (64 word, 'd) dbt option" where
  "run_op (Insert k d) table = db_insert table (key32 k) (Some d)"
| "run_op (Erase k) table = map_option snd (db_erase table (key32 k))"
| "run_op Lock table = Some (db_free_lock table)"
| "run_op Unlock table = db_free_unlock table"

fun run_ops :: "'d db_op list \<Rightarrow> (64 word, 'd) dbt \<Rightarrow> (64 word, 'd) dbt option" where
  "run_ops [] table = Some table"
| "run_ops (a # as) table = do { table' \<leftarrow> run_op a table; run_ops as table' }"

text \<open>
  What a client may rely on: a finite map, the number of locks held, and the keys erased
  under them. \<^term>\<open>None\<close> is a use the code is not made for: an unlock without a lock, and
  erasing a key again that is still pending.
\<close>

type_synonym 'd db_spec = "(32 word \<rightharpoonup> 'd) \<times> nat \<times> 32 word set"

fun spec_op :: "'d db_op \<Rightarrow> 'd db_spec \<Rightarrow> 'd db_spec option" where
  "spec_op (Insert k d) (m, n, pend) = Some (m(k \<mapsto> d), n, pend - {k})"
| "spec_op (Erase k) (m, n, pend) =
     (if k \<in> pend then None
      else Some (m(k := None), n, if 0 < n \<and> m k \<noteq> None then insert k pend else pend))"
| "spec_op Lock (m, n, pend) = Some (m, Suc n, pend)"
| "spec_op Unlock (m, n, pend) =
     (if n = 0 then None else Some (m, n - 1, if n = 1 then {} else pend))"

fun spec_ops :: "'d db_op list \<Rightarrow> 'd db_spec \<Rightarrow> 'd db_spec option" where
  "spec_ops [] st = Some st"
| "spec_ops (a # as) st = do { st' \<leftarrow> spec_op a st; spec_ops as st' }"

text \<open>The entry (if any) of a key that the client sees mapped to \<open>v\<close>, pending if \<open>p\<close>.\<close>

fun entry_is :: "(64 word, 'd) entry option \<Rightarrow> 'd option \<Rightarrow> bool \<Rightarrow> bool" where
  "entry_is None v p = (v = None \<and> \<not> p)"
| "entry_is (Some e) v p = (data e = v \<and> deleted e = p \<and> (v = None) = p)"

definition represents :: "(64 word, 'd) dbt \<Rightarrow> 'd db_spec \<Rightarrow> bool" where
  "represents table st = (case st of (m, n, pend) \<Rightarrow>
     numdb_ok table \<and> free_lock table = int n \<and>
     (\<forall>k. entry_is (entry_at table (key32 k)) (m k) (k \<in> pend)))"

lemma run_op_refines:
  assumes r: "represents table st" and s: "spec_op a st = Some st'"
  shows "\<exists>table'. run_op a table = Some table' \<and> represents table' st'"
proof -
  obtain m n pend where st: "st = (m, n, pend)" by (metis prod_cases3)
  have ok: "table_ok numdb_cmp numdb_hash is_int_key table" and lock: "free_lock table = int n"
    and at: "\<And>k. entry_is (entry_at table (key32 k)) (m k) (k \<in> pend)"
    using r by (auto simp: represents_def st numdb_ok_def)
  show ?thesis
  proof (cases a)
    case (Insert k d)
    from numdb.db_insert_correct [OF ok is_int_key32, of k "Some d"] obtain table'
      where t: "db_insert table (key32 k) (Some d) = Some table'"
        "table_ok numdb_cmp numdb_hash is_int_key table'" "free_lock table' = free_lock table"
        "\<And>k'. entry_at table' (key32 k') = (if k' = k
          then Some \<lparr>key = key32 k, data = Some d, deleted = False\<rparr> else entry_at table (key32 k'))"
      using is_int_key32 cmp_key32 by metis
    have "represents table' st'"
      using s at lock t(2-4) by (auto simp: Insert st represents_def numdb_ok_def)
    then show ?thesis using t(1) by (auto simp: Insert)
  next
    case (Erase k)
    have k: "k \<notin> pend"
      and st': "st' = (m(k := None), n, if 0 < n \<and> m k \<noteq> None then insert k pend else pend)"
      using s by (auto simp: Erase st split: if_splits)
    have "erasable table (key32 k)"
      using at [of k] k by (cases "entry_at table (key32 k)") (auto simp: erasable_def)
    from numdb.db_erase_correct [OF ok is_int_key32 this] obtain table'
      where t: "db_erase table (key32 k) = Some (db_search table (key32 k), table')"
        "table_ok numdb_cmp numdb_hash is_int_key table'" "free_lock table' = free_lock table"
        "\<And>k'. entry_at table' (key32 k') =
          (if k' = k then numdb.entry_after_erase table (key32 k') else entry_at table (key32 k'))"
      using is_int_key32 cmp_key32 by metis
    have "entry_is (numdb.entry_after_erase table (key32 k)) None (0 < n \<and> m k \<noteq> None)"
      using at [of k] k lock
      by (cases "entry_at table (key32 k)") (auto simp: numdb.entry_after_erase_def)
    then have "represents table' st'"
      using at lock k t(2-4) by (auto simp: st' represents_def numdb_ok_def)
    then show ?thesis using t(1) by (auto simp: Erase)
  next
    case Lock
    then show ?thesis
      using numdb.db_free_lock_correct [OF ok] at s lock
      by (auto simp: st represents_def numdb_ok_def numdb.entry_at_free_lock)
        (simp add: db_free_lock_def)
  next
    case Unlock
    then have n: "0 < n" using s by (auto simp: st split: if_splits)
    from numdb.db_free_unlock_correct [OF ok] n lock obtain table'
      where t: "db_free_unlock table = Some table'"
        "table_ok numdb_cmp numdb_hash is_int_key table'" "free_lock table' = free_lock table - 1"
        "\<And>k. entry_at table' (key32 k) = (if n = 1
          then (case entry_at table (key32 k) of
            None \<Rightarrow> None | Some e \<Rightarrow> if deleted e then None else Some e)
          else entry_at table (key32 k))"
      using is_int_key32 by auto
    have "entry_is (entry_at table' (key32 k)) (m k) (k \<in> (if n = 1 then {} else pend))" for k
      using at [of k] unfolding t(4) by (cases "entry_at table (key32 k)") auto
    then show ?thesis
      using t(1-3) s n lock by (auto simp: Unlock st represents_def numdb_ok_def)
  qed
qed

lemma run_ops_refines:
  "represents table st \<Longrightarrow> spec_ops as st = Some st' \<Longrightarrow>
    \<exists>table'. run_ops as table = Some table' \<and> represents table' st'"
proof (induction as arbitrary: table st)
  case (Cons a as)
  from Cons.prems(2) obtain st1 where st1: "spec_op a st = Some st1" "spec_ops as st1 = Some st'"
    by (auto simp: bind_eq_Some_conv)
  from run_op_refines [OF Cons.prems(1) st1(1)] obtain table1
    where "run_op a table = Some table1" "represents table1 st1" by blast
  then show ?case using Cons.IH [OF _ st1(2)] by simp
qed simp

lemma represents_init: "represents numdb_init (Map.empty, 0, {})"
  using numdb.db_init_correct
  by (auto simp: represents_def numdb_init_def numdb_ok_def entry_at_def)
    (simp_all add: db_init_def bucket_def HASH_SIZE_def)

lemma represents_search: "represents table (m, n, pend) \<Longrightarrow> db_search table (key32 k) = m k"
  by (auto simp: represents_def db_search_entry_at dest!: spec [of _ k]
      elim: entry_is.elims split: option.splits)

section \<open>The node pool\<close>

text \<open>The nodes in use and the free ones are distinct and all cut from the chunks so far.\<close>

definition issued :: "node_pool \<Rightarrow> nat \<times> nat \<Rightarrow> bool" where
  "issued s n \<longleftrightarrow> fst n < dbn_root_num s \<and> snd n < ROOT_SIZE \<and>
     (fst n = dbn_root_num s - 1 \<longrightarrow> dbn_root_rest s \<le> snd n)"

definition pool_ok :: "node_pool \<Rightarrow> (nat \<times> nat) set \<Rightarrow> bool" where
  "pool_ok s used \<longleftrightarrow> distinct (free_nodes s) \<and> set (free_nodes s) \<inter> used = {} \<and>
     (\<forall>n \<in> set (free_nodes s) \<union> used. issued s n) \<and> dbn_root_rest s \<le> ROOT_SIZE \<and>
     (dbn_root_num s = 0 \<longrightarrow> dbn_root_rest s = 0)"

lemma issued_free_nodes [simp]: "issued (s\<lparr>free_nodes := ns\<rparr>) n = issued s n"
  by (simp add: issued_def)

lemma malloc_dbn_fresh_step:
  assumes "pool_ok s used" "malloc_dbn s = (n, s')"
  shows "n \<notin> used \<and> pool_ok s' (insert n used)"
proof (cases "free_nodes s")
  case (Cons m ms)
  then show ?thesis using assms by (auto simp: pool_ok_def malloc_dbn_def)
next
  case Nil
  define c where "c = dbn_root_num s"
  define r where "r = dbn_root_rest s"
  have iss: "\<forall>x \<in> used. issued s x" and r: "r \<le> ROOT_SIZE" "c = 0 \<longrightarrow> r = 0"
    using assms(1) by (auto simp: pool_ok_def c_def r_def)
  show ?thesis
  proof (cases "r = 0")
    case True
    then have "n = (c, ROOT_SIZE - 1)" "s' = s\<lparr>dbn_root_num := c + 1, dbn_root_rest := ROOT_SIZE - 1\<rparr>"
      using assms(2) Nil by (auto simp: malloc_dbn_def Let_def c_def r_def)
    then show ?thesis
      using iss Nil by (auto simp: pool_ok_def issued_def c_def ROOT_SIZE_def)
  next
    case False
    then have "n = (c - 1, r - 1)" "s' = s\<lparr>dbn_root_rest := r - 1\<rparr>"
      using assms(2) Nil by (auto simp: malloc_dbn_def Let_def c_def r_def)
    moreover have "0 < c" using r False by auto
    ultimately show ?thesis
      using iss Nil r False by (fastforce simp: pool_ok_def issued_def c_def r_def ROOT_SIZE_def)
  qed
qed

section \<open>Concrete tables for the witnesses\<close>

definition one_entry :: "(64 word, char) dbt" where
  "one_entry = the (db_insert numdb_init (key32 5) (Some CHR ''x''))"

lemma one_entry_ok: "numdb_ok one_entry" "free_lock one_entry = 0"
proof -
  from numdb.db_insert_correct [OF numdb.db_init_correct is_int_key32, of 5 "Some CHR ''x''"]
  show "numdb_ok one_entry" "free_lock one_entry = 0"
    by (auto simp: one_entry_def numdb_ok_def numdb_init_def) (simp add: db_init_def)
qed

lemma one_entry_ht:
  "ht one_entry = (ht (numdb_init :: (64 word, char) dbt))
     [5 := Dbn BLACK Nil \<lparr>key = key32 5, data = Some CHR ''x'', deleted = False\<rparr> Nil]"
proof -
  have "unat (key32 5) = 5" by (simp add: key32_def)
  then have "bucket (numdb_init :: (64 word, char) dbt) (key32 5) = 5"
    by (simp add: numdb_init_def db_init_def bucket_def HASH_SIZE_def numdb_hash_def)
  moreover have "ht (numdb_init :: (64 word, char) dbt) ! 5 = Nil"
    by (simp add: numdb_init_def db_init_def HASH_SIZE_def)
  ultimately show ?thesis by (simp add: one_entry_def db_insert_def)
qed

lemma one_entry_small: "\<forall>t \<in> set (ht one_entry). length (entries t) \<le> 2 ^ 32"
proof
  fix t assume "t \<in> set (ht one_entry)"
  then have "t = Nil \<or> t = Dbn BLACK Nil \<lparr>key = key32 5, data = Some CHR ''x'', deleted = False\<rparr> Nil"
    using set_update_subset_insert by (fastforce simp: one_entry_ht numdb_init_def db_init_def)
  then show "length (entries t) \<le> 2 ^ 32" by auto
qed

lemma visit_collect:
  "fold (visit_entry (\<lambda>k d s. s @ [(k, d)])) xs s =
    s @ map (\<lambda>e. (key e, data e)) (filter (\<lambda>e. \<not> deleted e) xs)"
  by (induction xs arbitrary: s) (auto simp: visit_entry_def)

section \<open>Properties of the database layer\<close>

text \<open>
  C1: any sequence of insertions, erasures, locks and unlocks on an integer table that the
  map specification allows runs without dereferencing a null pointer, keeps every bucket a
  sorted red-black tree with the right item count and pending list, and looks up what the
  specification's map holds.
\<close>

theorem numdb_refines_map:
  assumes "spec_ops as (Map.empty, 0, {}) = Some (m, n, pend)"
  shows "\<exists>table. run_ops as numdb_init = Some table \<and> numdb_ok table \<and>
    free_lock table = int n \<and> (\<forall>k. db_search table (key32 k) = m k)"
proof -
  from run_ops_refines [OF represents_init assms] obtain table
    where "run_ops as numdb_init = Some table" "represents table (m, n, pend)" by blast
  moreover from this have "\<forall>k. db_search table (key32 k) = m k" using represents_search by blast
  ultimately show ?thesis by (auto simp: represents_def)
qed

theorem numdb_refines_map_witness:
  "\<exists>table. run_ops [Insert 1 CHR ''a'', Insert 2 CHR ''b'', Lock, Erase 1, Insert 3 CHR ''c'', Unlock]
     numdb_init = Some table \<and> numdb_ok table \<and> free_lock table = int 0 \<and>
     (\<forall>k. db_search table (key32 k) =
       ((Map.empty(1 \<mapsto> CHR ''a'', 2 \<mapsto> CHR ''b''))(1 := None, 3 \<mapsto> CHR ''c'')) k)"
  by (rule numdb_refines_map [where pend = "{}"]) (auto simp: fun_eq_iff)

text \<open>
  C2: erasing an entry of an integer table returns the data a search finds, and afterwards
  the search finds nothing under that key and the same as before under every other one.
\<close>

theorem numdb_erase_correct:
  assumes "numdb_ok table" "is_int_key k" "erasable table k"
  shows "\<exists>table'. db_erase table k = Some (db_search table k, table') \<and> numdb_ok table' \<and>
    (\<forall>k'. is_int_key k' \<longrightarrow>
       db_search table' k' = (if k' = k then None else db_search table k'))"
proof -
  from numdb.db_erase_correct [OF assms [unfolded numdb_ok_def]] obtain table'
    where t: "db_erase table k = Some (db_search table k, table')"
      "table_ok numdb_cmp numdb_hash is_int_key table'"
      "\<forall>k'. is_int_key k' \<longrightarrow> entry_at table' k' =
        (if numdb_cmp k' k = 0 then numdb.entry_after_erase table k' else entry_at table k')"
    by blast
  have "db_search table' k' = (if k' = k then None else db_search table k')" if "is_int_key k'" for k'
    using t(3) that numdb_cmp_sign(2) [OF that assms(2)]
    by (auto simp: db_search_entry_at numdb.entry_after_erase_def split: option.splits)
  then show ?thesis using t(1,2) by (auto simp: numdb_ok_def)
qed

theorem numdb_erase_correct_witness:
  "\<exists>table'. db_erase one_entry (key32 5) = Some (db_search one_entry (key32 5), table') \<and>
    numdb_ok table' \<and> (\<forall>k'. is_int_key k' \<longrightarrow>
      db_search table' k' = (if k' = key32 5 then None else db_search one_entry k'))"
  by (rule numdb_erase_correct) (simp_all add: one_entry_ok is_int_key32 erasable_def)

text \<open>
  In a string table of any maximal key length, an insertion succeeds on every well-formed
  table, keeps it well-formed, and a search finds the new data exactly under the keys that
  \<open>strncmp\<close> cannot tell from the inserted one.
\<close>

lemma strdb_insert_correct:
  assumes "strdb_ok maxlen table" "is_str_key k"
  shows "\<exists>table'. db_insert table k d = Some table' \<and> strdb_ok maxlen table' \<and>
    (\<forall>k'. is_str_key k' \<longrightarrow>
       db_search table' k' = (if same_str_key maxlen k' k then d else db_search table k'))"
proof -
  from strdb.db_insert_correct [OF assms(1) [unfolded strdb_ok_def] assms(2), of d] obtain table'
    where t: "db_insert table k d = Some table'"
      "table_ok (strdb_cmp maxlen) (strdb_hash maxlen) is_str_key table'"
      "\<forall>k'. is_str_key k' \<longrightarrow> entry_at table' k' = (if strdb_cmp maxlen k' k = 0
        then Some \<lparr>key = k, data = d, deleted = False\<rparr> else entry_at table k')"
    by blast
  then have "db_search table' k' = (if same_str_key maxlen k' k then d else db_search table k')"
    if "is_str_key k'" for k'
    using that strdb_cmp_eq [OF that assms(2)] by (simp add: db_search_entry_at)
  then show ?thesis using t(1,2) by (auto simp: strdb_ok_def)
qed

theorem strdb_insert_correct_witness:
  "\<exists>table'. db_insert (strdb_init 24) ''prontera'' (Some (7::nat)) = Some table' \<and>
    strdb_ok 24 table' \<and> (\<forall>k'. is_str_key k' \<longrightarrow>
      db_search table' k' =
        (if same_str_key 24 k' ''prontera'' then Some 7 else db_search (strdb_init 24) k'))"
  by (rule strdb_insert_correct)
    (simp_all add: strdb_ok_def strdb_init_def strdb.db_init_correct is_str_key_def NUL_def)

text \<open>
  C3: walking an integer table with a visitor that does not change it calls the visitor once
  for every entry that a search would find, leaves the table as it was, never needs more
  than the 64 stack slots, and does not report corrupted memory.
\<close>

theorem numdb_foreach_correct:
  assumes "numdb_ok table" "\<forall>t \<in> set (ht table). length (entries t) \<le> 2 ^ 32"
  shows "\<exists>es. db_foreach (pure_visitor (\<lambda>k d s. s @ [(k, d)])) table [] = Some (table, es, False) \<and>
    distinct (map fst es) \<and>
    (\<forall>k d. is_int_key k \<longrightarrow> (k, d) \<in> set es \<longleftrightarrow>
       (\<exists>e. entry_at table k = Some e \<and> \<not> deleted e \<and> data e = d))"
proof -
  note ok = assms(1) [unfolded numdb_ok_def]
  have bk: "buckets_ok numdb_cmp numdb_hash is_int_key (free_list table) table"
    using ok by (simp add: table_ok_def)
  define all where "all = concat (map preorder (ht table))"
  define es where "es = map (\<lambda>e. (key e, data e)) (filter (\<lambda>e. \<not> deleted e) all)"
  have run: "db_foreach (pure_visitor (\<lambda>k d s. s @ [(k, d)])) table [] = Some (table, es, False)"
    using numdb.db_foreach_pure [OF ok assms(2), of "\<lambda>k d s. s @ [(k, d)]" "[]"]
    by (simp add: es_def all_def visit_collect)
  have "distinct (map key (filter (\<lambda>e. \<not> deleted e) all))"
    using numdb.foreach_distinct [OF bk] by (auto simp: all_def distinct_map distinct_filter inj_on_def)
  then have dist: "distinct (map fst es)" by (simp add: es_def o_def)
  have "(k, d) \<in> set es \<longleftrightarrow> (\<exists>e. entry_at table k = Some e \<and> \<not> deleted e \<and> data e = d)"
    if k: "is_int_key k" for k d
  proof -
    have "is_int_key (key e)" if "e \<in> set all" for e
    proof -
      obtain t where "t \<in> set (ht table)" "e \<in> set (entries t)"
        using \<open>e \<in> set all\<close> by (auto simp: all_def set_preorder)
      then obtain b where "b < HASH_SIZE" "e \<in> set (entries (ht table ! b))"
        using numdb.buckets_ok_frame(3) [OF bk] by (metis in_set_conv_nth)
      then show ?thesis using numdb.buckets_okD(3) [OF bk] by blast
    qed
    then have "entry_at table k = Some e \<longleftrightarrow> e \<in> set all \<and> key e = k" for e
      using numdb.foreach_visits [OF bk k, of e] numdb_cmp_sign(2) [OF k] by (auto simp: all_def)
    then show ?thesis by (auto simp: es_def)
  qed
  then show ?thesis using run dist by blast
qed

theorem numdb_foreach_correct_witness:
  "\<exists>es. db_foreach (pure_visitor (\<lambda>k d s. s @ [(k, d)])) one_entry [] = Some (one_entry, es, False) \<and>
    distinct (map fst es) \<and>
    (\<forall>k d. is_int_key k \<longrightarrow> (k, d) \<in> set es \<longleftrightarrow>
       (\<exists>e. entry_at one_entry k = Some e \<and> \<not> deleted e \<and> data e = d))"
  by (rule numdb_foreach_correct) (simp add: one_entry_ok, rule one_entry_small)

text \<open>
  Erasing the same key twice while the table is locked puts its node in \<open>free_list\<close>
  twice; the unlock then cuts a node out of the tree that has left it already.
\<close>

lemma db_double_erase:
  "run_ops [Insert 1 CHR ''a'', Lock, Erase 1, Erase 1, Unlock] numdb_init = None"
  by code_simp

text \<open>
  The node pool never hands out a node that is in use, and a node given back is free.
\<close>

lemma malloc_dbn_fresh:
  assumes "pool_ok s used" "malloc_dbn s = (n, s')"
  shows "n \<notin> used \<and> pool_ok s' (insert n used) \<and> pool_ok (free_dbn n s') used"
proof -
  note step = malloc_dbn_fresh_step [OF assms]
  moreover have "n \<notin> set (free_nodes s')"
    using step by (auto simp: pool_ok_def)
  ultimately show ?thesis by (auto simp: pool_ok_def free_dbn_def)
qed

theorem malloc_dbn_fresh_witness:
  "(1::nat, 4095::nat) \<notin> {(0, 7)} \<and>
    pool_ok \<lparr>free_nodes = [(0, 3)], dbn_root_rest = 4095, dbn_root_num = 2\<rparr> (insert (1, 4095) {(0, 7)}) \<and>
    pool_ok (free_dbn (1, 4095) \<lparr>free_nodes = [(0, 3)], dbn_root_rest = 4095, dbn_root_num = 2\<rparr>) {(0, 7)}"
  by (rule malloc_dbn_fresh
      [where s = "\<lparr>free_nodes = [(1, 4095), (0, 3)], dbn_root_rest = 4095, dbn_root_num = 2\<rparr>"])
    (simp_all add: pool_ok_def issued_def ROOT_SIZE_def malloc_dbn_def)

end
