(* ===== verification/Item.thy ===== *)
theory Item
  imports Prelude
begin

text \<open>
  Items as they lie in an inventory, a cart or a storage (\<open>struct item\<close> of
  \<open>src/src/include/mmo.h\<close>), what the code reads of the item database
  (\<open>src/src/map/itemdb.c\<close>), and the contract of the containers: \<open>item_source\<close> for a
  container items are taken from, \<open>item_sink\<close> for one they are put into, and \<open>item_move\<close>
  for the code's pattern "add there and, if that worked, delete here". The measure is
  \<open>stock k\<close>, the number of pieces of one kind of item.
\<close>

section \<open>Items\<close>

record item =
  item_id :: int
  nameid :: int
  amount :: int
  equip :: int
  identify :: int
  refine :: int
  attribute :: int
  cards :: "int list"

definition MAX_INVENTORY :: nat where
  "MAX_INVENTORY = 100"

definition MAX_CART :: nat where
  "MAX_CART = 100"

definition MAX_AMOUNT :: int where
  "MAX_AMOUNT = 30000"

definition MAX_ZENY :: int where
  "MAX_ZENY = 1000000000"

text \<open>An empty slot, as \<open>memset(..., 0, sizeof(struct item))\<close> leaves it.\<close>

definition blank :: item where
  "blank = \<lparr>item_id = 0, nameid = 0, amount = 0, equip = 0, identify = 0, refine = 0,
     attribute = 0, cards = [0, 0, 0, 0]\<rparr>"

text \<open>
  What the code reads of a \<open>struct item_data\<close>: weight, type, the prices at shops and whether the
  skills of merchants change them, the trade flag, and for equipment where it is worn (\<open>equip\<close> in the code), its looks, and
  who may wear it.
\<close>

record item_data =
  item_weight :: int
  item_type :: int
  no_trade :: int
  value_buy :: int
  value_sell :: int
  value_notdc :: bool
  value_notoc :: bool
  equip_place :: int
  look :: int
  elv :: int
  item_sex :: int
  class_base :: "int list"
  class_upper :: int
  no_equip :: int

definition itemdb_isequip2 :: "item_data \<Rightarrow> bool" where
  "itemdb_isequip2 d \<longleftrightarrow> \<not> (item_type d = 0 \<or> item_type d = 2 \<or> item_type d = 3 \<or>
     item_type d = 6 \<or> item_type d = 10)"

definition itemdb_isequip3 :: "item_data \<Rightarrow> bool" where
  "itemdb_isequip3 d \<longleftrightarrow> item_type d = 4 \<or> item_type d = 5 \<or> item_type d = 8"

text \<open>
  The comparison in the loops of \<open>pc_additem\<close>, \<open>pc_cart_additem\<close>, \<open>storage_additem\<close> and
  \<open>guild_storage_additem\<close> that look for a stack the new items can join.
\<close>

definition same_kind :: "item \<Rightarrow> item \<Rightarrow> bool" where
  "same_kind a b \<longleftrightarrow> nameid a = nameid b \<and> identify a = identify b \<and> refine a = refine b \<and>
     attribute a = attribute b \<and> cards a = cards b"

section \<open>Stock\<close>

type_synonym kind = "int \<times> int \<times> int \<times> int \<times> int list"

definition kind_of :: "item \<Rightarrow> kind" where
  "kind_of it = (nameid it, identify it, refine it, attribute it, cards it)"

definition pieces :: "kind \<Rightarrow> item \<Rightarrow> int" where
  "pieces k it = (if nameid it \<noteq> 0 \<and> kind_of it = k then amount it else 0)"

definition stock :: "kind \<Rightarrow> item list \<Rightarrow> int" where
  "stock k items = sum_list (map (pieces k) items)"

text \<open>A slot holds nothing, or between 1 and \<open>SHRT_MAX\<close> pieces of an item.\<close>

definition slot_ok :: "item \<Rightarrow> bool" where
  "slot_ok it \<longleftrightarrow> it = blank \<or> (0 < nameid it \<and> 0 < amount it \<and> amount it \<le> 32767)"

lemma same_kind_kind_of: "same_kind a b \<longleftrightarrow> kind_of a = kind_of b"
  by (simp add: same_kind_def kind_of_def)

lemma pieces_blank [simp]: "pieces k blank = 0"
  by (simp add: pieces_def blank_def)

lemma nameid_blank [simp]: "nameid blank = 0" "amount blank = 0" "equip blank = 0"
  by (simp_all add: blank_def)

lemma slot_ok_blank [simp]: "slot_ok blank"
  by (simp add: slot_ok_def)

lemma slot_ok_nameid: "slot_ok it \<Longrightarrow> nameid it \<noteq> 0 \<Longrightarrow> 0 < nameid it \<and> 0 < amount it \<and> amount it \<le> 32767"
  by (auto simp: slot_ok_def)

lemma slot_okI: "0 < nameid it \<Longrightarrow> 0 < amount it \<Longrightarrow> amount it \<le> 32767 \<Longrightarrow> slot_ok it"
  by (simp add: slot_ok_def)

lemma slot_ok_empty: "slot_ok it \<Longrightarrow> nameid it = 0 \<longleftrightarrow> it = blank"
  by (auto simp: slot_ok_def)

lemma stock_update:
  "n < length items \<Longrightarrow>
    stock k (items[n := it]) = stock k items - pieces k (items ! n) + pieces k it"
  by (simp add: stock_def sum_list_map_update)

lemma kind_of_amount [simp]:
  "kind_of (it\<lparr>amount := a\<rparr>) = kind_of it" "kind_of (it\<lparr>equip := e\<rparr>) = kind_of it"
  "kind_of (it\<lparr>item_id := i\<rparr>) = kind_of it"
  by (simp_all add: kind_of_def)

lemma pieces_amount:
  "nameid it \<noteq> 0 \<Longrightarrow> pieces k (it\<lparr>amount := a\<rparr>) = (if kind_of it = k then a else 0)"
  by (simp add: pieces_def kind_of_def)

section \<open>The common operations on a list of slots\<close>

text \<open>
  Adding \<open>a\<close> pieces to the stack in slot \<open>n\<close>, filling an empty slot with \<open>a\<close> pieces of
  \<open>it\<close>, and taking \<open>a\<close> pieces out of slot \<open>n\<close>; \<open>amount\<close> is a \<open>short\<close>.
\<close>

definition grow_slot :: "nat \<Rightarrow> int \<Rightarrow> item list \<Rightarrow> item list" where
  "grow_slot n a items = items[n := (items ! n)\<lparr>amount := s16 (amount (items ! n) + a)\<rparr>]"

definition fill_slot :: "nat \<Rightarrow> item \<Rightarrow> int \<Rightarrow> item list \<Rightarrow> item list" where
  "fill_slot n it a items = items[n := it\<lparr>amount := s16 a\<rparr>]"

definition shrink_slot :: "nat \<Rightarrow> int \<Rightarrow> item list \<Rightarrow> item list" where
  "shrink_slot n a items = items[n := (items ! n)\<lparr>amount := s16 (amount (items ! n) - a)\<rparr>]"

lemma length_slots [simp]:
  "length (grow_slot n a items) = length items"
  "length (fill_slot n it a items) = length items"
  "length (shrink_slot n a items) = length items"
  by (simp_all add: grow_slot_def fill_slot_def shrink_slot_def)

lemma stock_grow:
  assumes "n < length items" "slot_ok (items ! n)" "nameid (items ! n) \<noteq> 0"
    and "0 \<le> a" "amount (items ! n) + a \<le> 32767"
  shows "stock k (grow_slot n a items) = stock k items + (if kind_of (items ! n) = k then a else 0)"
    and "slot_ok (grow_slot n a items ! n)"
proof -
  have a: "s16 (amount (items ! n) + a) = amount (items ! n) + a"
    using assms slot_ok_nameid [of "items ! n"] by (intro s16_id) auto
  show "stock k (grow_slot n a items) =
      stock k items + (if kind_of (items ! n) = k then a else 0)"
    using assms by (simp add: grow_slot_def stock_update pieces_amount a) (simp add: pieces_def)
  show "slot_ok (grow_slot n a items ! n)"
    by (rule slot_okI) (use assms(1,4,5) slot_ok_nameid [OF assms(2,3)] in
      \<open>simp_all add: grow_slot_def a\<close>)
qed

lemma stock_fill:
  assumes "n < length items" "nameid (items ! n) = 0" "0 < nameid it" "0 < a" "a \<le> 32767"
  shows "stock k (fill_slot n it a items) = stock k items + (if kind_of it = k then a else 0)"
    and "slot_ok (fill_slot n it a items ! n)"
proof -
  have a: "s16 a = a" using assms(4,5) by (intro s16_id) simp_all
  have "pieces k (items ! n) = 0" using assms by (simp add: pieces_def)
  moreover have "pieces k (it\<lparr>amount := a\<rparr>) = (if kind_of it = k then a else 0)"
    using assms(3) by (intro pieces_amount) simp
  ultimately show "stock k (fill_slot n it a items) = stock k items + (if kind_of it = k then a else 0)"
    using assms(1) unfolding fill_slot_def a by (subst stock_update) simp_all
  show "slot_ok (fill_slot n it a items ! n)"
    using assms(1,3-5) unfolding fill_slot_def a by (simp add: slot_ok_def)
qed

lemma stock_shrink:
  assumes "n < length items" "slot_ok (items ! n)" "nameid (items ! n) \<noteq> 0"
    and "0 \<le> a" "a \<le> amount (items ! n)"
  shows "stock k (shrink_slot n a items) =
      stock k items - (if kind_of (items ! n) = k then a else 0)"
    and "amount (shrink_slot n a items ! n) = amount (items ! n) - a"
proof -
  have a: "s16 (amount (items ! n) - a) = amount (items ! n) - a"
    using assms slot_ok_nameid [of "items ! n"] by (intro s16_id) auto
  show "stock k (shrink_slot n a items) =
      stock k items - (if kind_of (items ! n) = k then a else 0)"
    using assms by (simp add: shrink_slot_def stock_update pieces_amount a) (simp add: pieces_def)
  show "amount (shrink_slot n a items ! n) = amount (items ! n) - a"
    using assms by (simp add: shrink_slot_def a)
qed

text \<open>Clearing a slot whose last piece was taken.\<close>

lemma stock_clear:
  "n < length items \<Longrightarrow> amount (items ! n) = 0 \<Longrightarrow> stock k (items[n := blank]) = stock k items"
  by (simp add: stock_update) (simp add: pieces_def)

section \<open>Containers\<close>

locale item_source =
  fixes slots :: "'s \<Rightarrow> item list" and del :: "'s \<Rightarrow> nat \<Rightarrow> int \<Rightarrow> 's" and good :: "'s \<Rightarrow> bool"
  assumes good_slots: "good s \<Longrightarrow> it \<in> set (slots s) \<Longrightarrow> slot_ok it"
    and del_good: "good s \<Longrightarrow> n < length (slots s) \<Longrightarrow> nameid (slots s ! n) \<noteq> 0 \<Longrightarrow>
      0 < a \<Longrightarrow> a \<le> amount (slots s ! n) \<Longrightarrow> good (del s n a)"
    and del_stock: "good s \<Longrightarrow> n < length (slots s) \<Longrightarrow> nameid (slots s ! n) \<noteq> 0 \<Longrightarrow>
      0 < a \<Longrightarrow> a \<le> amount (slots s ! n) \<Longrightarrow>
      stock k (slots (del s n a)) =
        stock k (slots s) - (if kind_of (slots s ! n) = k then a else 0)"

locale item_sink =
  fixes slots :: "'s \<Rightarrow> item list" and add :: "'s \<Rightarrow> item \<Rightarrow> int \<Rightarrow> int \<times> 's"
    and good :: "'s \<Rightarrow> bool"
  assumes add_good: "good s \<Longrightarrow> a \<le> 32767 \<Longrightarrow> add s it a = (r, s') \<Longrightarrow> good s'"
    and add_stock: "good s \<Longrightarrow> a \<le> 32767 \<Longrightarrow> add s it a = (0, s') \<Longrightarrow>
      stock k (slots s') = stock k (slots s) + (if kind_of it = k then a else 0)"
    and add_fails: "add s it a = (r, s') \<Longrightarrow> r \<noteq> 0 \<Longrightarrow> slots s' = slots s"
    and add_positive: "add s it a = (0, s') \<Longrightarrow> 0 < a \<and> 0 < nameid it"

text \<open>A container of a component is a container of a larger state.\<close>

context item_source begin

lemma on_fst:
  "item_source (\<lambda>s. slots (fst s)) (\<lambda>s n a. (del (fst s) n a, snd s)) (\<lambda>s. good (fst s) \<and> P (snd s))"
  by unfold_locales (auto simp: good_slots del_good del_stock)

end

context item_sink begin

lemma on_snd:
  "item_sink (\<lambda>s. slots (snd s))
    (\<lambda>s it a. (fst (add (snd s) it a), fst s, snd (add (snd s) it a))) (\<lambda>s. P (fst s) \<and> good (snd s))"
proof (unfold_locales, goal_cases)
  case (1 s a it r s')
  then show ?case using add_good [of "snd s" a it r "snd s'"] by auto
next
  case (2 s a it s' k)
  then show ?case using add_stock [of "snd s" a it "snd s'" k] by (auto simp: prod_eq_iff)
next
  case (3 s it a r s')
  then show ?case using add_fails [of "snd s" it a r "snd s'"] by auto
next
  case (4 s it a s')
  then show ?case using add_positive [of "snd s" it a "snd s'"] by (auto simp: prod_eq_iff)
qed

lemma on_fst:
  "item_sink (\<lambda>s. slots (fst s))
    (\<lambda>s it a. (fst (add (fst s) it a), snd (add (fst s) it a), snd s)) (\<lambda>s. good (fst s) \<and> P (snd s))"
proof (unfold_locales, goal_cases)
  case (1 s a it r s')
  then show ?case using add_good [of "fst s" a it r "fst s'"] by auto
next
  case (2 s a it s' k)
  then show ?case using add_stock [of "fst s" a it "fst s'" k] by (auto simp: prod_eq_iff)
next
  case (3 s it a r s')
  then show ?case using add_fails [of "fst s" it a r "fst s'"] by auto
next
  case (4 s it a s')
  then show ?case using add_positive [of "fst s" it a "fst s'"] by (auto simp: prod_eq_iff)
qed

end

locale item_move = source: item_source from_slots del good + sink: item_sink to_slots add good
  for from_slots :: "'s \<Rightarrow> item list" and del :: "'s \<Rightarrow> nat \<Rightarrow> int \<Rightarrow> 's"
    and to_slots :: "'s \<Rightarrow> item list" and add :: "'s \<Rightarrow> item \<Rightarrow> int \<Rightarrow> int \<times> 's"
    and good :: "'s \<Rightarrow> bool" +
  assumes add_frame: "good s \<Longrightarrow> add s it a = (r, s') \<Longrightarrow> from_slots s' = from_slots s"
    and del_frame: "good s \<Longrightarrow> n < length (from_slots s) \<Longrightarrow> to_slots (del s n a) = to_slots s"
begin

text \<open>\<open>if (add(to, &from[n], a) == 0) del(from, n, a);\<close>\<close>

definition transfer :: "'s \<Rightarrow> nat \<Rightarrow> int \<Rightarrow> int \<times> 's" where
  "transfer s n a = (let (r, s') = add s (from_slots s ! n) a
     in (r, if r = 0 then del s' n a else s'))"

lemma transfer_correct:
  assumes good: "good s" and n: "n < length (from_slots s)" and a: "a \<le> amount (from_slots s ! n)"
    and run: "transfer s n a = (r, s')"
  shows "good s'"
    and "stock k (from_slots s') + stock k (to_slots s') =
      stock k (from_slots s) + stock k (to_slots s)"
    and "r = 0 \<Longrightarrow> stock k (to_slots s') =
      stock k (to_slots s) + (if kind_of (from_slots s ! n) = k then a else 0)"
    and "r \<noteq> 0 \<Longrightarrow> from_slots s' = from_slots s \<and> to_slots s' = to_slots s"
proof -
  define it where "it = from_slots s ! n"
  obtain s1 where add: "add s it a = (r, s1)" and s': "s' = (if r = 0 then del s1 n a else s1)"
    using run by (auto simp: transfer_def it_def Let_def split: prod.splits)
  have "slot_ok it" using source.good_slots [OF good] n by (simp add: it_def)
  then have small: "a \<le> 32767" using a by (auto simp: slot_ok_def it_def)
  have good1: "good s1" by (rule sink.add_good [OF good small add])
  have frame: "from_slots s1 = from_slots s" by (rule add_frame [OF good add])
  have "good s' \<and> stock k (from_slots s') + stock k (to_slots s') =
      stock k (from_slots s) + stock k (to_slots s) \<and>
    (r = 0 \<longrightarrow> stock k (to_slots s') =
      stock k (to_slots s) + (if kind_of (from_slots s ! n) = k then a else 0)) \<and>
    (r \<noteq> 0 \<longrightarrow> from_slots s' = from_slots s \<and> to_slots s' = to_slots s)"
  proof (cases "r = 0")
    case True
    then have add0: "add s it a = (0, s1)" using add by simp
    have pos: "0 < a" "nameid it \<noteq> 0" using sink.add_positive [OF add0] by auto
    have del: "n < length (from_slots s1)" "nameid (from_slots s1 ! n) \<noteq> 0"
      "a \<le> amount (from_slots s1 ! n)"
      using n pos a by (simp_all add: frame it_def)
    show ?thesis
      using True s' source.del_good [OF good1 del(1,2) pos(1) del(3)]
        source.del_stock [OF good1 del(1,2) pos(1) del(3), of k]
        sink.add_stock [OF good small add0, of k] del_frame [OF good1 del(1)]
      by (simp add: frame it_def)
  next
    case False
    then show ?thesis using s' good1 frame sink.add_fails [OF add] by auto
  qed
  then show "good s'"
    and "stock k (from_slots s') + stock k (to_slots s') =
      stock k (from_slots s) + stock k (to_slots s)"
    and "r = 0 \<Longrightarrow> stock k (to_slots s') =
      stock k (to_slots s) + (if kind_of (from_slots s ! n) = k then a else 0)"
    and "r \<noteq> 0 \<Longrightarrow> from_slots s' = from_slots s \<and> to_slots s' = to_slots s"
    by blast+
qed

text \<open>What adding and deleting leave alone, the transfer leaves alone.\<close>

lemma transfer_keeps:
  assumes good: "good s" and n: "n < length (from_slots s)" and a: "a \<le> amount (from_slots s ! n)"
    and keeps: "\<And>s it. good s \<Longrightarrow> f (snd (add s it a)) = f s"
      "\<And>s. good s \<Longrightarrow> n < length (from_slots s) \<Longrightarrow> f (del s n a) = f s"
  shows "f (snd (transfer s n a)) = f s"
proof -
  obtain r s1 where add: "add s (from_slots s ! n) a = (r, s1)" by force
  have "slot_ok (from_slots s ! n)" using source.good_slots [OF good] n by simp
  then have "a \<le> 32767" using a by (auto simp: slot_ok_def)
  then have "good s1" by (rule sink.add_good [OF good _ add])
  then show ?thesis
    using keeps(1) [OF good, of "from_slots s ! n"] keeps(2) [of s1] n add add_frame [OF good add]
    by (simp add: transfer_def)
qed

end

end
