(* ===== verification/Session.thy ===== *)
theory Session
  imports Item
begin

text \<open>
  A player's session: the fields of \<open>struct map_session_data\<close> and \<open>struct mmo_charstatus\<close>
  (\<open>src/src/map/map.h\<close>, \<open>src/src/include/mmo.h\<close>) that carry items, money and the state of a
  deal, the packets sent to the client, and the part of the server's environment the
  handlers consult.
\<close>

section \<open>Packets to the client\<close>

text \<open>One constructor per \<open>clif_\<close>, \<open>chrif_\<close> or \<open>intif_\<close> call, with the arguments that matter.\<close>

datatype packet =
    clif_additem nat int int
  | clif_delitem nat int
  | clif_updatestatus string
  | clif_cart_additem nat int
  | clif_cart_addequipitem nat int
  | clif_cart_delitem nat int
  | clif_changelook string int
  | clif_unequipitemack nat int int
  | clif_storageitemadded nat int
  | clif_storageitemremoved int int
  | clif_updatestorageamount int
  | clif_storageitemlist
  | clif_storageequiplist
  | clif_storageclose
  | clif_tradestart int
  | clif_traderequest int
  | clif_tradeadditem int int
  | clif_tradeitemok int int
  | clif_tradedeal_lock int
  | clif_tradecancelled
  | clif_tradecompleted
  | clif_displaymessage nat
  | clif_setwaitclose
  | clif_buyvending int int int
  | clif_vendingreport int int
  | clif_vendinglist int "(int \<times> int \<times> int) list"
  | clif_openvending "(int \<times> int \<times> int) list"
  | pc_stop_walking int
  | clif_skill_fail int
  | clif_closevendingboard
  | clif_showvendingboard string
  | clif_item_identified int int
  | chrif_save
  | intif_request_storage int
  | intif_send_storage int
  | intif_request_guild_storage int
  | intif_send_guild_storage int
  | intif_wis_message_to_gm nat
  | chrif_char_ask_name int
  | intif_delete_petdata int
  | clif_buylist int
  | clif_selllist
  | clif_equipitemack nat int int
  | clif_arrowequip int
  | clif_arrow_fail int
  | clif_clearchar_area int
  | npc_buy_result int
  | npc_sell_result int

record vending =
  index :: int
  vamount :: int
  vvalue :: int

section \<open>Sessions\<close>

record session =
  account_id :: int
  bl_id :: int
  bl_m :: int
  bl_x :: int
  bl_y :: int
  GM_level :: int
  skill :: "int \<Rightarrow> int"
  sex :: int
  base_level :: int
  job :: int
  status_class :: int
  opt1 :: int
  dead_sit :: int
  zeny :: int
  weight :: int
  max_weight :: int
  inventory :: "item list"
  inventory_data :: "item_data option list"
  cart :: "item list"
  cart_weight :: int
  cart_max_weight :: int
  cart_num :: int
  equip_index :: "int list"
  weapontype1 :: int
  weapontype2 :: int
  weapon :: int
  shield :: int
  head_bottom :: int
  head_top :: int
  head_mid :: int
  sc_count :: int
  sc_timer :: "nat \<Rightarrow> int"
  guild_id :: int
  partner_id :: int
  guild_invite :: int
  party_invite :: int
  npc_id :: int
  storage_flag :: int
  modified_storage_flag :: int
  trade_partner :: int
  deal_item_index :: "int list"
  deal_item_amount :: "int list"
  deal_zeny :: int
  deal_locked :: int
  vender_id :: int
  vend_num :: int
  vending :: "vending list"
  message :: string
  auth :: int
  options :: int
  npc_shopid :: int
  sent :: "packet list"

definition send :: "packet \<Rightarrow> session \<Rightarrow> session" where
  "send p sd = sd\<lparr>sent := sent sd @ [p]\<rparr>"

definition pc_checkskill :: "session \<Rightarrow> int \<Rightarrow> int" where
  "pc_checkskill sd k = skill sd k"

section \<open>The environment\<close>

text \<open>
  The item database is what the server loaded from its data files. What happens to a player
  after an item is taken off beyond the fields of \<open>pc_unequipitem\<close> itself - the end of
  status changes, the item scripts, the recomputation of the battle values - is
  \<open>end_broken\<close> and \<open>after_unequip\<close>, after it is put on \<open>check_allow\<close> (\<open>pc_checkallowskill\<close>) and \<open>after_equip\<close>;
  \<open>pet_equipitem\<close> is the accessory of a pet; the end of a pending script event is
  \<open>npc_event_dequeue\<close>; the experience a merchant gets at a shop (a logarithm in \<open>double\<close> and
  \<open>pc_gainexp\<close>) is \<open>shop_gain\<close>, with the skill and the turnover. The rest is configuration (\<open>battle_config\<close>, map flags, the list of bad words).
\<close>

record env =
  itemdb :: "int \<Rightarrow> item_data"
  isdropable :: "int \<Rightarrow> bool"
  gm_can_drop_lv :: int
  end_broken :: "nat \<Rightarrow> session \<Rightarrow> session"
  after_unequip :: "nat \<Rightarrow> int \<Rightarrow> session \<Rightarrow> session"
  check_allow :: "session \<Rightarrow> session"
  after_equip :: "nat \<Rightarrow> session \<Rightarrow> session"
  pet_equipitem :: "nat \<Rightarrow> session \<Rightarrow> session"
  npc_event_dequeue :: "session \<Rightarrow> session"
  gm_allequip :: int
  item_sex_check :: bool
  pvp_map :: "int \<Rightarrow> bool"
  ban_hack_trade :: int
  invite_request_check :: bool
  gvg_map :: "int \<Rightarrow> bool"
  notrade_map :: "int \<Rightarrow> bool"
  basic_skill_check :: bool
  vending_max_value :: int
  shop_exp :: int
  shop_gain :: "int \<Rightarrow> int \<Rightarrow> session \<Rightarrow> session"
  pet_egg :: "int \<Rightarrow> bool"
  area_size :: int
  check_bad_word :: "string \<Rightarrow> bool"

text \<open>The fields that belong to items, money and deals.\<close>

definition belongings :: "session \<Rightarrow> (item list \<times> item_data option list \<times> item list) \<times>
    (int \<times> int \<times> int \<times> int) \<times> (int \<times> int \<times> int list \<times> int list \<times> int \<times> int) \<times>
    (int \<times> int \<times> int \<times> vending list)" where
  "belongings sd = ((inventory sd, inventory_data sd, cart sd),
     (weight sd, cart_weight sd, cart_num sd, zeny sd),
     (account_id sd, trade_partner sd, deal_item_index sd, deal_item_amount sd, deal_zeny sd,
      deal_locked sd), (guild_id sd, vender_id sd, vend_num sd, vending sd))"

definition keeps_belongings :: "env \<Rightarrow> bool" where
  "keeps_belongings env \<longleftrightarrow>
     (\<forall>n sd. belongings (end_broken env n sd) = belongings sd) \<and>
     (\<forall>n f sd. belongings (after_unequip env n f sd) = belongings sd) \<and>
     (\<forall>sd. belongings (npc_event_dequeue env sd) = belongings sd) \<and>
     (\<forall>k z sd. belongings (shop_gain env k z sd) = belongings sd)"

lemma belongings_eq:
  assumes "belongings sd' = belongings sd"
  shows "inventory sd' = inventory sd" "inventory_data sd' = inventory_data sd" "cart sd' = cart sd"
    "weight sd' = weight sd" "cart_weight sd' = cart_weight sd" "cart_num sd' = cart_num sd"
    "zeny sd' = zeny sd" "account_id sd' = account_id sd" "trade_partner sd' = trade_partner sd"
    "deal_item_index sd' = deal_item_index sd" "deal_item_amount sd' = deal_item_amount sd"
    "deal_zeny sd' = deal_zeny sd" "deal_locked sd' = deal_locked sd"
    "guild_id sd' = guild_id sd" "vender_id sd' = vender_id sd" "vend_num sd' = vend_num sd"
    "vending sd' = vending sd"
  using assms by (simp_all add: belongings_def)

lemma send_frame [simp]:
  "belongings (send p sd) = belongings sd"
  "inventory (send p sd) = inventory sd" "inventory_data (send p sd) = inventory_data sd"
  "cart (send p sd) = cart sd" "weight (send p sd) = weight sd" "max_weight (send p sd) = max_weight sd"
  "cart_weight (send p sd) = cart_weight sd" "cart_max_weight (send p sd) = cart_max_weight sd"
  "cart_num (send p sd) = cart_num sd" "zeny (send p sd) = zeny sd"
  "account_id (send p sd) = account_id sd" "trade_partner (send p sd) = trade_partner sd"
  "deal_item_index (send p sd) = deal_item_index sd"
  "deal_item_amount (send p sd) = deal_item_amount sd" "deal_zeny (send p sd) = deal_zeny sd"
  "deal_locked (send p sd) = deal_locked sd" "vender_id (send p sd) = vender_id sd"
  "vending (send p sd) = vending sd" "vend_num (send p sd) = vend_num sd"
  "sent (send p sd) = sent sd @ [p]" "bl_id (send p sd) = bl_id sd" "guild_id (send p sd) = guild_id sd"
  "partner_id (send p sd) = partner_id sd"
  by (simp_all add: send_def belongings_def)

section \<open>Well-formed sessions\<close>

text \<open>
  \<open>inventory_data[i]\<close> points to the database entry of the item in slot \<open>i\<close>; the two weights
  and the number of used cart slots are those of the items.
\<close>

definition load :: "env \<Rightarrow> item list \<Rightarrow> int" where
  "load env items = sum_list (map (\<lambda>it. item_weight (itemdb env (nameid it)) * amount it) items)"

definition used :: "item list \<Rightarrow> int" where
  "used items = int (length (filter (\<lambda>it. nameid it \<noteq> 0) items))"

definition inventory_ok :: "env \<Rightarrow> session \<Rightarrow> bool" where
  "inventory_ok env sd \<longleftrightarrow>
     length (inventory sd) = MAX_INVENTORY \<and> (\<forall>it \<in> set (inventory sd). slot_ok it) \<and>
     inventory_data sd = map (\<lambda>it. if nameid it = 0 then None else Some (itemdb env (nameid it)))
       (inventory sd) \<and>
     weight sd = load env (inventory sd)"

definition cart_ok :: "env \<Rightarrow> session \<Rightarrow> bool" where
  "cart_ok env sd \<longleftrightarrow>
     length (cart sd) = MAX_CART \<and> (\<forall>it \<in> set (cart sd). slot_ok it) \<and>
     cart_weight sd = load env (cart sd) \<and> cart_num sd = used (cart sd)"

definition session_ok :: "env \<Rightarrow> session \<Rightarrow> bool" where
  "session_ok env sd \<longleftrightarrow> keeps_belongings env \<and> inventory_ok env sd \<and> cart_ok env sd"

lemma session_ok_cong:
  assumes "belongings sd' = belongings sd"
  shows "session_ok env sd' = session_ok env sd"
  by (simp add: session_ok_def inventory_ok_def cart_ok_def belongings_eq [OF assms])

lemma load_update:
  "n < length items \<Longrightarrow> load env (items[n := it]) = load env items -
    item_weight (itemdb env (nameid (items ! n))) * amount (items ! n) +
    item_weight (itemdb env (nameid it)) * amount it"
  by (simp add: load_def sum_list_map_update)

lemma used_update:
  "n < length items \<Longrightarrow> used (items[n := it]) = used items -
    (if nameid (items ! n) \<noteq> 0 then 1 else 0) + (if nameid it \<noteq> 0 then 1 else 0)"
  by (simp add: used_def length_filter_update)

lemma used_bounds: "0 \<le> used items" "used items \<le> int (length items)"
  by (simp_all add: used_def)

end
