(* ===== verification/Inventory.thy ===== *)
theory Inventory
  imports Session
begin

text \<open>
  The inventory, the cart and the purse: \<open>src/src/map/pc.c\<close> from \<open>pc_modifybuyvalue\<close> to
  \<open>pc_getitemfromcart\<close>, \<open>pc_calcweapontype\<close>, \<open>pc_unequipitem\<close> and \<open>pc_candrop\<close>. Pointers to items are
  passed as values (no handler passes a slot of the container it adds to); an index is the
  \<open>int\<close> the code has, checked where the code checks it.
\<close>

unbundle bit_operations_syntax

section \<open>Prices\<close>

definition MC_DISCOUNT :: int where
  "MC_DISCOUNT = 37"

definition MC_OVERCHARGE :: int where
  "MC_OVERCHARGE = 38"

definition RG_COMPULSION :: int where
  "RG_COMPULSION = 224"

text \<open>
  The product and the division by 100 are done in \<open>double\<close>: the product of two values below
  \<open>2 ^ 31\<close> and 100 is exact, and a quotient that is not an integer is at least 0.01 away from one,
  so that the conversion to \<open>int\<close> gives the truncated quotient.
\<close>

definition pc_modifybuyvalue :: "session \<Rightarrow> int \<Rightarrow> int" where
  "pc_modifybuyvalue sd orig_value =
     (let skill = pc_checkskill sd MC_DISCOUNT;
          rate1 = (if skill > 0 then 5 + skill * 2 - (if skill = 10 then 1 else 0) else 0);
          skill = pc_checkskill sd RG_COMPULSION;
          rate2 = (if skill > 0 then 5 + skill * 4 else 0);
          rate1 = (if rate1 < rate2 then rate2 else rate1);
          val = (if rate1 \<noteq> 0 then cdiv (orig_value * (100 - rate1)) 100 else orig_value);
          val = (if val < 0 then 0 else val)
      in if orig_value > 0 \<and> val < 1 then 1 else val)"

definition pc_modifysellvalue :: "session \<Rightarrow> int \<Rightarrow> int" where
  "pc_modifysellvalue sd orig_value =
     (let skill = pc_checkskill sd MC_OVERCHARGE;
          rate = (if skill > 0 then 5 + skill * 2 - (if skill = 10 then 1 else 0) else 0);
          val = (if rate \<noteq> 0 then cdiv (orig_value * (100 + rate)) 100 else orig_value);
          val = (if val < 0 then 0 else val)
      in if orig_value > 0 \<and> val < 1 then 1 else val)"

section \<open>Inventory queries\<close>

datatype additem_check = ADDITEM_EXIST | ADDITEM_NEW | ADDITEM_OVERAMOUNT

definition pc_checkadditem :: "env \<Rightarrow> session \<Rightarrow> int \<Rightarrow> int \<Rightarrow> additem_check" where
  "pc_checkadditem env sd nid amt =
     (if itemdb_isequip2 (itemdb env nid) then ADDITEM_NEW
      else (let i = first_idx (\<lambda>it. nameid it = nid) (inventory sd) in
        if i < length (inventory sd)
        then (if amount (inventory sd ! i) + amt > MAX_AMOUNT then ADDITEM_OVERAMOUNT
              else ADDITEM_EXIST)
        else if amt > MAX_AMOUNT then ADDITEM_OVERAMOUNT else ADDITEM_NEW))"

definition pc_inventoryblank :: "session \<Rightarrow> int" where
  "pc_inventoryblank sd = int (length (filter (\<lambda>it. nameid it = 0) (inventory sd)))"

definition pc_search_inventory :: "session \<Rightarrow> int \<Rightarrow> int" where
  "pc_search_inventory sd iid =
     (let i = first_idx (\<lambda>it. nameid it = iid \<and> (amount it > 0 \<or> iid = 0)) (inventory sd)
      in if i < length (inventory sd) then int i else - 1)"

section \<open>Zeny\<close>

definition pc_payzeny :: "session \<Rightarrow> int \<Rightarrow> int \<times> session" where
  "pc_payzeny sd z =
     (if zeny sd < z \<or> zeny sd - z > MAX_ZENY then (1, sd)
      else (0, send (clif_updatestatus ''SP_ZENY'') (sd\<lparr>zeny := zeny sd - z\<rparr>)))"

definition pc_getzeny :: "session \<Rightarrow> int \<Rightarrow> session" where
  "pc_getzeny sd z =
     (let (z, sd) = (if zeny sd + z > MAX_ZENY then (0, sd\<lparr>zeny := MAX_ZENY\<rparr>) else (z, sd))
      in send (clif_updatestatus ''SP_ZENY'') (sd\<lparr>zeny := zeny sd + z\<rparr>))"

section \<open>Adding to the inventory\<close>

text \<open>The results: 0 done, 1 nothing to add, 2 too heavy, 4 no empty slot, 5 the stack is full.\<close>

definition pc_additem :: "env \<Rightarrow> session \<Rightarrow> item \<Rightarrow> int \<Rightarrow> int \<times> session" where
  "pc_additem env sd it amt =
     (if nameid it \<le> 0 \<or> amt \<le> 0 then (1, sd)
      else (let data = itemdb env (nameid it); w = item_weight data * amt in
        if w + weight sd > max_weight sd then (2, sd)
        else (let i = (if itemdb_isequip2 data then MAX_INVENTORY
                       else first_idx (\<lambda>x. same_kind x it) (inventory sd)) in
          if i < length (inventory sd) then
            (if amount (inventory sd ! i) + amt > MAX_AMOUNT then (5, sd)
             else (0, send (clif_updatestatus ''SP_WEIGHT'')
               ((send (clif_additem i amt 0)
                  (sd\<lparr>inventory := grow_slot i amt (inventory sd)\<rparr>))\<lparr>weight := weight sd + w\<rparr>)))
          else (let j = pc_search_inventory sd 0 in
            if j \<ge> 0 then
              (0, send (clif_updatestatus ''SP_WEIGHT'')
               ((send (clif_additem (nat j) amt 0)
                  (sd\<lparr>inventory := fill_slot (nat j) it amt (inventory sd),
                      inventory_data := (inventory_data sd)[nat j := Some data]\<rparr>))
                 \<lparr>weight := weight sd + w\<rparr>))
            else (4, sd)))))"

section \<open>Taking equipment off\<close>

definition pc_calcweapontype :: "session \<Rightarrow> session" where
  "pc_calcweapontype sd =
     (let w1 = weapontype1 sd; w2 = weapontype2 sd;
          sd = (if w1 \<noteq> 0 \<and> w2 = 0 then sd\<lparr>weapon := w1\<rparr> else sd)
      in if w1 = 0 \<and> w2 \<noteq> 0 then sd\<lparr>weapon := w2\<rparr>
         else if w1 = 1 \<and> w2 = 1 then sd\<lparr>weapon := 0x11\<rparr>
         else if w1 = 2 \<and> w2 = 2 then sd\<lparr>weapon := 0x12\<rparr>
         else if w1 = 6 \<and> w2 = 6 then sd\<lparr>weapon := 0x13\<rparr>
         else if (w1 = 1 \<and> w2 = 2) \<or> (w1 = 2 \<and> w2 = 1) then sd\<lparr>weapon := 0x14\<rparr>
         else if (w1 = 1 \<and> w2 = 6) \<or> (w1 = 6 \<and> w2 = 1) then sd\<lparr>weapon := 0x15\<rparr>
         else if (w1 = 2 \<and> w2 = 6) \<or> (w1 = 6 \<and> w2 = 2) then sd\<lparr>weapon := 0x16\<rparr>
         else sd\<lparr>weapon := w1\<rparr>)"

definition equip_pos :: "int list" where
  "equip_pos = [0x0080, 0x0008, 0x0040, 0x0004, 0x0001, 0x0200, 0x0100, 0x0010, 0x0020, 0x0002, 0x8000]"

definition SC_BLADESTOP :: nat where
  "SC_BLADESTOP = 95"

definition SC_BERSERK :: nat where
  "SC_BERSERK = 112"

text \<open>The block that takes the item in slot \<open>n\<close> off, up to the broken-equipment states.\<close>

definition clear_equip :: "session \<Rightarrow> int \<Rightarrow> session" where
  "clear_equip sd e =
     (let sd = sd\<lparr>equip_index := map2 (\<lambda>x p. if e AND p \<noteq> 0 then - 1 else x)
                 (equip_index sd) equip_pos\<rparr>;
          sd = (if e AND 0x0002 \<noteq> 0
                then (let sd = pc_calcweapontype (sd\<lparr>weapontype1 := 0, weapon := weapontype2 sd\<rparr>)
                      in send (clif_changelook ''LOOK_WEAPON'' (weapon sd)) sd)
                else sd);
          sd = (if e AND 0x0020 \<noteq> 0
                then (let sd = pc_calcweapontype (sd\<lparr>shield := 0, weapontype2 := 0\<rparr>)
                      in send (clif_changelook ''LOOK_SHIELD'' (shield sd)) sd)
                else sd);
          sd = (if e AND 0x0001 \<noteq> 0
                then send (clif_changelook ''LOOK_HEAD_BOTTOM'' 0) (sd\<lparr>head_bottom := 0\<rparr>) else sd);
          sd = (if e AND 0x0100 \<noteq> 0
                then send (clif_changelook ''LOOK_HEAD_TOP'' 0) (sd\<lparr>head_top := 0\<rparr>) else sd);
          sd = (if e AND 0x0200 \<noteq> 0
                then send (clif_changelook ''LOOK_HEAD_MID'' 0) (sd\<lparr>head_mid := 0\<rparr>) else sd)
      in if e AND 0x0040 \<noteq> 0 then send (clif_changelook ''LOOK_SHOES'' 0) sd else sd)"

definition pc_unequipitem :: "env \<Rightarrow> session \<Rightarrow> nat \<Rightarrow> int \<Rightarrow> session" where
  "pc_unequipitem env sd n flag =
     (if flag < 2 \<and> sc_count sd \<noteq> 0 \<and> (sc_timer sd SC_BLADESTOP \<noteq> - 1 \<or> sc_timer sd SC_BERSERK \<noteq> - 1)
      then send (clif_unequipitemack n 0 0) sd
      else (let e = equip (inventory sd ! n);
          sd = (if e \<noteq> 0
                then (let sd = clear_equip sd e;
                          sd = (if sc_count sd \<noteq> 0 then end_broken env n sd else sd);
                          sd = send (clif_unequipitemack n (equip (inventory sd ! n)) 1) sd
                      in sd\<lparr>inventory := (inventory sd)[n := (inventory sd ! n)\<lparr>equip := 0\<rparr>]\<rparr>)
                else send (clif_unequipitemack n 0 0) sd)
        in after_unequip env n flag sd))"

section \<open>Removing from the inventory\<close>

text \<open>\<open>type\<close> bit 0: do not tell the client; bit 1: do not send the weight.\<close>

definition pc_delitem :: "env \<Rightarrow> session \<Rightarrow> nat \<Rightarrow> int \<Rightarrow> int \<Rightarrow> session" where
  "pc_delitem env sd n amt type =
     (case inventory_data sd ! n of
        None \<Rightarrow> sd
      | Some data \<Rightarrow>
          if nameid (inventory sd ! n) = 0 \<or> amt \<le> 0 \<or> amount (inventory sd ! n) < amt then sd
          else (let sd = sd\<lparr>inventory := shrink_slot n amt (inventory sd),
                           weight := weight sd - item_weight data * amt\<rparr>;
              sd = (if amount (inventory sd ! n) \<le> 0
                    then (let sd = (if equip (inventory sd ! n) \<noteq> 0
                                    then pc_unequipitem env sd n 3 else sd)
                          in sd\<lparr>inventory := (inventory sd)[n := blank],
                                inventory_data := (inventory_data sd)[n := None]\<rparr>)
                    else sd);
              sd = (if type AND 1 = 0 then send (clif_delitem n amt) sd else sd)
            in if type AND 2 = 0 then send (clif_updatestatus ''SP_WEIGHT'') sd else sd))"

definition pc_candrop :: "env \<Rightarrow> session \<Rightarrow> int \<Rightarrow> bool" where
  "pc_candrop env sd iid =
     (if GM_level sd > 0 \<and> GM_level sd < gm_can_drop_lv env then True
      else if GM_level sd = 0 \<and> (iid = 2634 \<or> iid = 2635) then True
      else \<not> isdropable env iid)"

text \<open>\<open>pc_dropitem\<close>: the session and, when the item is dropped, what lies on the floor now.\<close>

definition pc_dropitem :: "env \<Rightarrow> session \<Rightarrow> int \<Rightarrow> int \<Rightarrow> session \<times> (item \<times> int) option" where
  "pc_dropitem env sd n amt =
     (if n < 0 \<or> n \<ge> int MAX_INVENTORY \<or> amt \<le> 0 then (sd, None)
      else (let it = inventory sd ! nat n in
        if nameid it \<le> 0 \<or> amount it < amt \<or> trade_partner sd \<noteq> 0 \<or> vender_id sd \<noteq> 0 \<or>
           amount it \<le> 0 \<or> pc_candrop env sd (nameid it)
        then (sd, None)
        else (pc_delitem env sd (nat n) amt 0, Some (it, amt))))"

section \<open>The cart\<close>

definition pc_cart_additem :: "env \<Rightarrow> session \<Rightarrow> item \<Rightarrow> int \<Rightarrow> int \<times> session" where
  "pc_cart_additem env sd it amt =
     (if nameid it \<le> 0 \<or> amt \<le> 0 then (1, sd)
      else (let data = itemdb env (nameid it); w = item_weight data * amt;
              equip_flag = itemdb_isequip2 data in
        if w + cart_weight sd > cart_max_weight sd then (1, sd)
        else (let i = (if equip_flag then MAX_CART
                       else first_idx (\<lambda>x. same_kind x it) (cart sd)) in
          if i < length (cart sd) then
            (if amount (cart sd ! i) + amt > MAX_AMOUNT then (1, sd)
             else (0, send (clif_updatestatus ''SP_CARTINFO'')
               ((send (clif_cart_additem i amt)
                  (sd\<lparr>cart := grow_slot i amt (cart sd)\<rparr>))\<lparr>cart_weight := cart_weight sd + w\<rparr>)))
          else (let j = first_idx (\<lambda>x. nameid x = 0) (cart sd) in
            if j < length (cart sd) then
              (0, send (clif_updatestatus ''SP_CARTINFO'')
               ((send (if equip_flag then clif_cart_addequipitem j amt else clif_cart_additem j amt)
                  (sd\<lparr>cart := fill_slot j it amt (cart sd), cart_num := s16 (cart_num sd + 1)\<rparr>))
                 \<lparr>cart_weight := cart_weight sd + w\<rparr>))
            else (1, sd)))))"

definition pc_cart_delitem :: "env \<Rightarrow> session \<Rightarrow> nat \<Rightarrow> int \<Rightarrow> int \<Rightarrow> session" where
  "pc_cart_delitem env sd n amt type =
     (if nameid (cart sd ! n) = 0 \<or> amount (cart sd ! n) < amt then sd
      else (let sd = sd\<lparr>cart := shrink_slot n amt (cart sd),
                       cart_weight := cart_weight sd - item_weight (itemdb env (nameid (cart sd ! n))) * amt\<rparr>;
              sd = (if amount (cart sd ! n) \<le> 0
                    then sd\<lparr>cart := (cart sd)[n := blank], cart_num := s16 (cart_num sd - 1)\<rparr>
                    else sd)
            in if type = 0
               then send (clif_updatestatus ''SP_CARTINFO'') (send (clif_cart_delitem n amt) sd)
               else sd))"

definition pc_putitemtocart :: "env \<Rightarrow> session \<Rightarrow> int \<Rightarrow> int \<Rightarrow> session" where
  "pc_putitemtocart env sd idx amt =
     (if idx < 0 \<or> idx \<ge> int MAX_INVENTORY then sd
      else (let it = inventory sd ! nat idx in
        if nameid it = 0 \<or> amount it < amt then sd
        else if pc_candrop env sd (nameid it) then sd
        else (let (r, sd) = pc_cart_additem env sd it amt
              in if r = 0 then pc_delitem env sd (nat idx) amt 0 else sd)))"

definition pc_cartitem_amount :: "session \<Rightarrow> int \<Rightarrow> int \<Rightarrow> int" where
  "pc_cartitem_amount sd idx amt =
     (if idx < 0 \<or> idx \<ge> int MAX_CART then - 1
      else (let it = cart sd ! nat idx in
        if nameid it = 0 \<or> amount it = 0 then - 1 else amount it - amt))"

definition pc_getitemfromcart :: "env \<Rightarrow> session \<Rightarrow> int \<Rightarrow> int \<Rightarrow> session" where
  "pc_getitemfromcart env sd idx amt =
     (if idx < 0 \<or> idx \<ge> int MAX_CART then sd
      else (let it = cart sd ! nat idx in
        if nameid it = 0 \<or> amount it < amt then sd
        else (let (flag, sd) = pc_additem env sd it amt
              in if flag = 0 then pc_cart_delitem env sd (nat idx) amt 0
                 else send (clif_additem 0 0 flag) sd)))"

section \<open>What the operations leave alone\<close>

lemma belongings_appearance [simp]:
  "belongings (sd\<lparr>equip_index := xs\<rparr>) = belongings sd"
  "belongings (sd\<lparr>weapontype1 := x\<rparr>) = belongings sd"
  "belongings (sd\<lparr>weapontype2 := x\<rparr>) = belongings sd"
  "belongings (sd\<lparr>weapon := x\<rparr>) = belongings sd"
  "belongings (sd\<lparr>shield := x\<rparr>) = belongings sd"
  "belongings (sd\<lparr>head_bottom := x\<rparr>) = belongings sd"
  "belongings (sd\<lparr>head_mid := x\<rparr>) = belongings sd"
  "belongings (sd\<lparr>head_top := x\<rparr>) = belongings sd"
  by (simp_all add: belongings_def)

lemma belongings_calcweapontype [simp]: "belongings (pc_calcweapontype sd) = belongings sd"
  by (simp add: pc_calcweapontype_def Let_def)

lemma belongings_clear_equip: "belongings (clear_equip sd e) = belongings sd"
  by (simp add: clear_equip_def Let_def if_distrib [where f = belongings] cong del: if_weak_cong)

text \<open>Taking an item off keeps everything but the \<open>equip\<close> bits of its slot.\<close>

lemma belongings_unequipitem:
  assumes "keeps_belongings env"
  shows "belongings (pc_unequipitem env sd n flag) = belongings sd \<or>
    belongings (pc_unequipitem env sd n flag) =
      belongings (sd\<lparr>inventory := (inventory sd)[n := (inventory sd ! n)\<lparr>equip := 0\<rparr>]\<rparr>)"
proof -
  have hooks: "belongings (end_broken env m s) = belongings s"
    "belongings (after_unequip env m f s) = belongings s" for m f s
    using assms by (simp_all add: keeps_belongings_def)
  have set_inv: "belongings (s\<lparr>inventory := items\<rparr>) = belongings (s'\<lparr>inventory := items\<rparr>)"
    if "belongings s = belongings s'" for s s' items
    using that by (simp add: belongings_def)
  define e where "e = equip (inventory sd ! n)"
  define s1 where "s1 = clear_equip sd e"
  define s2 where "s2 = (if sc_count s1 \<noteq> 0 then end_broken env n s1 else s1)"
  define s3 where "s3 = send (clif_unequipitemack n (equip (inventory s2 ! n)) 1) s2"
  have same: "belongings s3 = belongings sd"
    by (simp add: s3_def s2_def s1_def hooks belongings_clear_equip)
  have taken: "belongings (s3\<lparr>inventory := (inventory s3)[n := (inventory s3 ! n)\<lparr>equip := 0\<rparr>]\<rparr>) =
      belongings (sd\<lparr>inventory := (inventory sd)[n := (inventory sd ! n)\<lparr>equip := 0\<rparr>]\<rparr>)"
    unfolding belongings_eq(1) [OF same] by (rule set_inv [OF same])
  define stuck where "stuck \<longleftrightarrow> flag < 2 \<and> sc_count sd \<noteq> 0 \<and>
    (sc_timer sd SC_BLADESTOP \<noteq> - 1 \<or> sc_timer sd SC_BERSERK \<noteq> - 1)"
  have "pc_unequipitem env sd n flag =
      (if stuck then send (clif_unequipitemack n 0 0) sd
       else after_unequip env n flag (if e \<noteq> 0
         then s3\<lparr>inventory := (inventory s3)[n := (inventory s3 ! n)\<lparr>equip := 0\<rparr>]\<rparr>
         else send (clif_unequipitemack n 0 0) sd))"
    unfolding pc_unequipitem_def s3_def s2_def s1_def e_def stuck_def Let_def by (rule refl)
  then show ?thesis
    using taken by (cases stuck; cases "e \<noteq> 0") (simp_all only: hooks send_frame(1) if_True if_False
      not_False_eq_True simp_thms)
qed

section \<open>Removing keeps the session well-formed\<close>

lemma belongings_set_inventory:
  assumes "belongings s = belongings s'"
  shows "belongings (s\<lparr>inventory := x, inventory_data := y\<rparr>) =
    belongings (s'\<lparr>inventory := x, inventory_data := y\<rparr>)"
  using assms by (simp add: belongings_def)

definition drop_pieces :: "nat \<Rightarrow> int \<Rightarrow> item list \<Rightarrow> item list" where
  "drop_pieces n amt items =
     (if amount (items ! n) = amt then items[n := blank] else shrink_slot n amt items)"

lemma belongings_delitem:
  assumes keeps: "keeps_belongings env" and n: "n < length (inventory sd)"
    and data: "inventory_data sd ! n = Some data" and slot: "slot_ok (inventory sd ! n)"
    and it: "nameid (inventory sd ! n) \<noteq> 0" "0 < amt" "amt \<le> amount (inventory sd ! n)"
  shows "belongings (pc_delitem env sd n amt type) =
    belongings (sd\<lparr>inventory := drop_pieces n amt (inventory sd),
      inventory_data := (if amount (inventory sd ! n) = amt then (inventory_data sd)[n := None]
        else inventory_data sd),
      weight := weight sd - item_weight data * amt\<rparr>)"
proof -
  define s1 where "s1 = sd\<lparr>inventory := shrink_slot n amt (inventory sd),
    weight := weight sd - item_weight data * amt\<rparr>"
  define s2 where "s2 = (if equip (inventory s1 ! n) \<noteq> 0 then pc_unequipitem env s1 n 3 else s1)"
  define s3 where "s3 = (if amount (inventory s1 ! n) \<le> 0
    then s2\<lparr>inventory := (inventory s2)[n := blank], inventory_data := (inventory_data s2)[n := None]\<rparr>
    else s1)"
  have run: "pc_delitem env sd n amt type =
      (let s = (if type AND 1 = 0 then send (clif_delitem n amt) s3 else s3)
       in if type AND 2 = 0 then send (clif_updatestatus ''SP_WEIGHT'') s else s)"
    using data it by (simp add: pc_delitem_def Let_def s3_def s2_def s1_def)
  have s3: "belongings (pc_delitem env sd n amt type) = belongings s3"
    by (simp add: run Let_def)
  have amount: "amount (inventory s1 ! n) = amount (inventory sd ! n) - amt"
    using stock_shrink(2) [OF n slot it(1) _ it(3)] it(2) by (simp add: s1_def)
  show ?thesis
  proof (cases "amount (inventory sd ! n) = amt")
    case False
    then have "s3 = s1" using amount it by (simp add: s3_def)
    then show ?thesis using s3 False by (simp add: s1_def drop_pieces_def belongings_def)
  next
    case True
    have "belongings s2 = belongings s1 \<or> belongings s2 =
        belongings (s1\<lparr>inventory := (inventory s1)[n := (inventory s1 ! n)\<lparr>equip := 0\<rparr>]\<rparr>)"
      using belongings_unequipitem [OF keeps, of s1 n 3] by (auto simp: s2_def)
    then have "belongings s3 = belongings (s1\<lparr>inventory := (inventory s1)[n := blank],
        inventory_data := (inventory_data s1)[n := None]\<rparr>)"
      using True amount by (auto simp: s3_def belongings_def)
    then show ?thesis
      using s3 True n by (simp add: s1_def drop_pieces_def belongings_def shrink_slot_def)
  qed
qed

lemma slots_update:
  "\<forall>it \<in> set items. slot_ok it \<Longrightarrow> slot_ok x \<Longrightarrow> \<forall>it \<in> set (items[n := x]). slot_ok it"
  using set_update_subset_insert by fast

lemma inventory_okD:
  assumes "inventory_ok env sd"
  shows "length (inventory sd) = MAX_INVENTORY" "length (inventory_data sd) = MAX_INVENTORY"
    and "\<And>n. n < MAX_INVENTORY \<Longrightarrow> slot_ok (inventory sd ! n)"
    and "\<And>n. n < MAX_INVENTORY \<Longrightarrow> inventory_data sd ! n =
      (if nameid (inventory sd ! n) = 0 then None else Some (itemdb env (nameid (inventory sd ! n))))"
    and "weight sd = load env (inventory sd)"
  using assms by (auto simp: inventory_ok_def)

lemma drop_pieces_correct:
  assumes "n < length items" "\<forall>it \<in> set items. slot_ok it"
    and "nameid (items ! n) \<noteq> 0" "0 < a" "a \<le> amount (items ! n)"
  shows "\<forall>it \<in> set (drop_pieces n a items). slot_ok it"
    and "stock k (drop_pieces n a items) = stock k items - (if kind_of (items ! n) = k then a else 0)"
    and "load env (drop_pieces n a items) =
      load env items - item_weight (itemdb env (nameid (items ! n))) * a"
    and "length (drop_pieces n a items) = length items"
proof -
  have slot: "slot_ok (items ! n)" using assms by simp
  have small: "s16 (amount (items ! n) - a) = amount (items ! n) - a"
    using assms slot_ok_nameid [OF slot] by (intro s16_id) auto
  have rest: "slot_ok ((items ! n)\<lparr>amount := amount (items ! n) - a\<rparr>)" if "amount (items ! n) \<noteq> a"
    using that assms slot_ok_nameid [OF slot] by (intro slot_okI) auto
  show "\<forall>it \<in> set (drop_pieces n a items). slot_ok it"
    using slots_update [OF assms(2) slot_ok_blank, of n] slots_update [OF assms(2) rest, of n]
    by (simp add: drop_pieces_def shrink_slot_def small)
  show "stock k (drop_pieces n a items) = stock k items - (if kind_of (items ! n) = k then a else 0)"
  proof (cases "amount (items ! n) = a")
    case True
    then show ?thesis using assms(1,3) by (simp add: drop_pieces_def stock_update pieces_def)
  next
    case False
    then show ?thesis
      using stock_shrink(1) [OF assms(1) slot assms(3) _ assms(5)] assms(4)
      by (simp add: drop_pieces_def)
  qed
  show "load env (drop_pieces n a items) =
      load env items - item_weight (itemdb env (nameid (items ! n))) * a"
    using assms(1)
    by (simp add: drop_pieces_def shrink_slot_def load_update small right_diff_distrib)
  show "length (drop_pieces n a items) = length items"
    by (simp add: drop_pieces_def)
qed

lemma drop_pieces_nth:
  assumes "n < length items" "slot_ok (items ! n)" "0 < a" "a \<le> amount (items ! n)"
  shows "amount (drop_pieces n a items ! m) = (if m = n then amount (items ! n) - a else amount (items ! m))"
    and "m \<noteq> n \<Longrightarrow> drop_pieces n a items ! m = items ! m"
proof -
  have "s16 (amount (items ! n) - a) = amount (items ! n) - a"
    using assms by (intro s16_id) (auto simp: slot_ok_def)
  then show "amount (drop_pieces n a items ! m) =
      (if m = n then amount (items ! n) - a else amount (items ! m))"
    using assms by (auto simp: drop_pieces_def shrink_slot_def nth_list_update blank_def)
  show "m \<noteq> n \<Longrightarrow> drop_pieces n a items ! m = items ! m"
    by (simp add: drop_pieces_def shrink_slot_def)
qed

lemma pc_delitem_correct:
  assumes ok: "session_ok env sd" and n: "n < MAX_INVENTORY"
    and it: "nameid (inventory sd ! n) \<noteq> 0" "0 < amt" "amt \<le> amount (inventory sd ! n)"
  shows "inventory (pc_delitem env sd n amt type) = drop_pieces n amt (inventory sd)"
    and "cart (pc_delitem env sd n amt type) = cart sd"
    and "session_ok env (pc_delitem env sd n amt type)"
    and "zeny (pc_delitem env sd n amt type) = zeny sd"
proof -
  have inv: "inventory_ok env sd" and keeps: "keeps_belongings env" and ct: "cart_ok env sd"
    using ok by (auto simp: session_ok_def)
  note iok = inventory_okD [OF inv]
  define data where "data = itemdb env (nameid (inventory sd ! n))"
  have d: "inventory_data sd ! n = Some data" using iok(4) [OF n] it(1) by (simp add: data_def)
  have len: "n < length (inventory sd)" using n iok(1) by simp
  have slots: "\<forall>it \<in> set (inventory sd). slot_ok it" using inv by (simp add: inventory_ok_def)
  note drop = drop_pieces_correct [OF len slots it]
  note same = belongings_delitem [OF keeps len d iok(3) [OF n] it, of type]
  note eqs = belongings_eq [OF same]
  show inv': "inventory (pc_delitem env sd n amt type) = drop_pieces n amt (inventory sd)"
    and cart': "cart (pc_delitem env sd n amt type) = cart sd"
    and "zeny (pc_delitem env sd n amt type) = zeny sd"
    using eqs by simp_all
  have "inventory_data (pc_delitem env sd n amt type) =
      map (\<lambda>it. if nameid it = 0 then None else Some (itemdb env (nameid it)))
        (drop_pieces n amt (inventory sd))"
  proof (cases "amount (inventory sd ! n) = amt")
    case True
    then show ?thesis
      using eqs(2) inv by (simp add: inventory_ok_def drop_pieces_def map_update)
  next
    case False
    have "map (\<lambda>it. if nameid it = 0 then None else Some (itemdb env (nameid it)))
        (shrink_slot n amt (inventory sd)) =
      map (\<lambda>it. if nameid it = 0 then None else Some (itemdb env (nameid it))) (inventory sd)"
      using len by (intro nth_equalityI) (auto simp: shrink_slot_def nth_list_update)
    then show ?thesis using False eqs(2) inv by (simp add: inventory_ok_def drop_pieces_def)
  qed
  then have "inventory_ok env (pc_delitem env sd n amt type)"
    using eqs(4) drop iok(1,5) inv' d by (simp add: inventory_ok_def data_def)
  moreover have "cart_ok env (pc_delitem env sd n amt type)"
    using ct eqs by (simp add: cart_ok_def)
  ultimately show "session_ok env (pc_delitem env sd n amt type)"
    using keeps by (simp add: session_ok_def)
qed

section \<open>Adding keeps the session well-formed\<close>

text \<open>What the search for a stack and the search for an empty slot find.\<close>

lemma stack_found:
  assumes "first_idx (\<lambda>x. same_kind x it) items < length items" "0 < nameid it"
  shows "kind_of (items ! first_idx (\<lambda>x. same_kind x it) items) = kind_of it"
    and "nameid (items ! first_idx (\<lambda>x. same_kind x it) items) = nameid it"
    and "nameid (items ! first_idx (\<lambda>x. same_kind x it) items) \<noteq> 0"
proof -
  have "same_kind (items ! first_idx (\<lambda>x. same_kind x it) items) it"
    using first_idx_sat [OF assms(1)] .
  then show "kind_of (items ! first_idx (\<lambda>x. same_kind x it) items) = kind_of it"
    and "nameid (items ! first_idx (\<lambda>x. same_kind x it) items) = nameid it"
    and "nameid (items ! first_idx (\<lambda>x. same_kind x it) items) \<noteq> 0"
    using assms(2) by (simp_all add: same_kind_kind_of) (simp_all add: kind_of_def)
qed

lemma grow_slot_correct:
  assumes "n < length items" "\<forall>x \<in> set items. slot_ok x" "nameid (items ! n) \<noteq> 0"
    and "0 < a" "amount (items ! n) + a \<le> MAX_AMOUNT"
  shows "\<forall>x \<in> set (grow_slot n a items). slot_ok x"
    and "stock k (grow_slot n a items) = stock k items + (if kind_of (items ! n) = k then a else 0)"
    and "load env (grow_slot n a items) =
      load env items + item_weight (itemdb env (nameid (items ! n))) * a"
    and "used (grow_slot n a items) = used items"
    and "map nameid (grow_slot n a items) = map nameid items"
proof -
  have slot: "slot_ok (items ! n)" using assms by simp
  have small: "s16 (amount (items ! n) + a) = amount (items ! n) + a"
    using assms slot_ok_nameid [OF slot] by (intro s16_id) (auto simp: MAX_AMOUNT_def)
  note grow = stock_grow [OF assms(1) slot assms(3)]
  have le: "0 \<le> a" "amount (items ! n) + a \<le> 32767" using assms by (simp_all add: MAX_AMOUNT_def)
  show "\<forall>x \<in> set (grow_slot n a items). slot_ok x"
    using slots_update [OF assms(2)] grow(2) [OF le] assms(1) unfolding grow_slot_def by simp
  show "stock k (grow_slot n a items) = stock k items + (if kind_of (items ! n) = k then a else 0)"
    by (rule grow(1) [OF le])
  show "load env (grow_slot n a items) =
      load env items + item_weight (itemdb env (nameid (items ! n))) * a"
    using assms(1) by (simp add: grow_slot_def load_update small distrib_left)
  show "used (grow_slot n a items) = used items"
    using assms(1) by (simp add: grow_slot_def used_update)
  show "map nameid (grow_slot n a items) = map nameid items"
    using assms(1) by (simp add: grow_slot_def map_update list_update_same_conv)
qed

lemma fill_slot_correct:
  assumes "n < length items" "\<forall>x \<in> set items. slot_ok x" "nameid (items ! n) = 0"
    and "0 < nameid it" "0 < a" "a \<le> 32767"
  shows "\<forall>x \<in> set (fill_slot n it a items). slot_ok x"
    and "stock k (fill_slot n it a items) = stock k items + (if kind_of it = k then a else 0)"
    and "load env (fill_slot n it a items) = load env items + item_weight (itemdb env (nameid it)) * a"
    and "used (fill_slot n it a items) = used items + 1"
    and "map nameid (fill_slot n it a items) = (map nameid items)[n := nameid it]"
proof -
  have small: "s16 a = a" using assms(5,6) by (intro s16_id) simp_all
  have blank: "items ! n = blank" using assms slot_ok_empty by simp
  note fill = stock_fill [OF assms(1,3-6)]
  show "\<forall>x \<in> set (fill_slot n it a items). slot_ok x"
    using slots_update [OF assms(2)] fill(2) assms(1) unfolding fill_slot_def by simp
  show "stock k (fill_slot n it a items) = stock k items + (if kind_of it = k then a else 0)"
    by (rule fill(1))
  show "load env (fill_slot n it a items) = load env items + item_weight (itemdb env (nameid it)) * a"
    using assms(1) by (simp add: fill_slot_def load_update small blank)
  show "used (fill_slot n it a items) = used items + 1"
    using assms(1,4) by (simp add: fill_slot_def used_update blank)
  show "map nameid (fill_slot n it a items) = (map nameid items)[n := nameid it]"
    by (simp add: fill_slot_def map_update)
qed

lemma inventory_data_map:
  "map (\<lambda>it. if nameid it = 0 then None else Some (itemdb env (nameid it))) items =
    map (\<lambda>i. if i = 0 then None else Some (itemdb env i)) (map nameid items)"
  by simp

lemma search_blank:
  assumes "pc_search_inventory sd 0 \<ge> 0"
  shows "nat (pc_search_inventory sd 0) < length (inventory sd)"
    and "nameid (inventory sd ! nat (pc_search_inventory sd 0)) = 0"
  using assms first_idx_sat [of "\<lambda>it. nameid it = 0" "inventory sd"]
  by (auto simp: pc_search_inventory_def Let_def split: if_splits)

lemma pc_additem_fails: "pc_additem env sd it amt = (r, sd') \<Longrightarrow> r \<noteq> 0 \<Longrightarrow> sd' = sd"
  by (auto simp: pc_additem_def Let_def split: if_splits)

lemma pc_additem_cases:
  assumes run: "pc_additem env sd it amt = (0, sd')" and len: "length (inventory sd) = MAX_INVENTORY"
  defines "w \<equiv> item_weight (itemdb env (nameid it)) * amt"
  obtains (grow) i where "0 < nameid it" "0 < amt" "w + weight sd \<le> max_weight sd"
      "i = first_idx (\<lambda>x. same_kind x it) (inventory sd)" "i < length (inventory sd)"
      "amount (inventory sd ! i) + amt \<le> MAX_AMOUNT"
      "belongings sd' = belongings (sd\<lparr>inventory := grow_slot i amt (inventory sd),
        weight := weight sd + w\<rparr>)"
    | (fill) j where "0 < nameid it" "0 < amt" "w + weight sd \<le> max_weight sd"
      "j < length (inventory sd)" "nameid (inventory sd ! j) = 0"
      "belongings sd' = belongings (sd\<lparr>inventory := fill_slot j it amt (inventory sd),
        inventory_data := (inventory_data sd)[j := Some (itemdb env (nameid it))],
        weight := weight sd + w\<rparr>)"
proof -
  define i where "i = (if itemdb_isequip2 (itemdb env (nameid it)) then MAX_INVENTORY
    else first_idx (\<lambda>x. same_kind x it) (inventory sd))"
  have pos: "0 < nameid it" "0 < amt" "w + weight sd \<le> max_weight sd"
    using run by (auto simp: pc_additem_def Let_def w_def split: if_splits)
  show thesis
  proof (cases "i < length (inventory sd)")
    case True
    then have "amount (inventory sd ! i) + amt \<le> MAX_AMOUNT"
      "belongings sd' = belongings (sd\<lparr>inventory := grow_slot i amt (inventory sd),
        weight := weight sd + w\<rparr>)"
      using run pos by (auto simp: pc_additem_def Let_def w_def i_def [symmetric] belongings_def
          send_def split: if_splits)
    then show thesis
      using grow pos True len by (simp add: i_def split: if_splits)
  next
    case False
    then have j: "0 \<le> pc_search_inventory sd 0"
      and "belongings sd' = belongings (sd\<lparr>
        inventory := fill_slot (nat (pc_search_inventory sd 0)) it amt (inventory sd),
        inventory_data := (inventory_data sd)
          [nat (pc_search_inventory sd 0) := Some (itemdb env (nameid it))],
        weight := weight sd + w\<rparr>)"
      using run pos by (auto simp: pc_additem_def Let_def w_def i_def [symmetric] belongings_def
          send_def split: if_splits)
    then show thesis
      using fill pos search_blank [OF j] by blast
  qed
qed

lemma pc_additem_correct:
  assumes ok: "session_ok env sd" and run: "pc_additem env sd it amt = (0, sd')" and "amt \<le> 32767"
  shows "session_ok env sd'"
    and "stock k (inventory sd') = stock k (inventory sd) + (if kind_of it = k then amt else 0)"
    and "cart sd' = cart sd" "zeny sd' = zeny sd" "0 < amt" "0 < nameid it"
proof -
  have inv: "inventory_ok env sd" and keeps: "keeps_belongings env" and ct: "cart_ok env sd"
    using ok by (auto simp: session_ok_def)
  note iok = inventory_okD [OF inv]
  have slots: "\<forall>it \<in> set (inventory sd). slot_ok it" using inv by (simp add: inventory_ok_def)
  have "session_ok env sd' \<and>
    stock k (inventory sd') = stock k (inventory sd) + (if kind_of it = k then amt else 0) \<and>
    cart sd' = cart sd \<and> zeny sd' = zeny sd \<and> 0 < amt \<and> 0 < nameid it"
    using run iok(1)
  proof (cases rule: pc_additem_cases)
    case (grow i)
    note eqs = belongings_eq [OF grow(7)]
    note found = stack_found [OF grow(5) [unfolded grow(4)] grow(1), folded grow(4)]
    note new = grow_slot_correct [OF grow(5) slots found(3) grow(2,6)]
    have "inventory_ok env sd'"
      using eqs new inv found iok(5) unfolding inventory_ok_def inventory_data_map by simp
    moreover have "cart_ok env sd'" using ct eqs by (simp add: cart_ok_def)
    ultimately show ?thesis using keeps eqs new(2) found grow(1,2) by (simp add: session_ok_def)
  next
    case (fill j)
    note eqs = belongings_eq [OF fill(6)]
    note new = fill_slot_correct [OF fill(4) slots fill(5,1,2) assms(3)]
    have "inventory_ok env sd'"
      using eqs new inv fill(1,4) iok(5) unfolding inventory_ok_def inventory_data_map
      by (simp add: map_update)
    moreover have "cart_ok env sd'" using ct eqs by (simp add: cart_ok_def)
    ultimately show ?thesis using keeps eqs new(2) fill(1,2) by (simp add: session_ok_def)
  qed
  then show "session_ok env sd'"
    and "stock k (inventory sd') = stock k (inventory sd) + (if kind_of it = k then amt else 0)"
    and "cart sd' = cart sd" "zeny sd' = zeny sd" "0 < amt" "0 < nameid it"
    by blast+
qed

section \<open>The cart\<close>

lemma pc_cart_additem_fails: "pc_cart_additem env sd it amt = (r, sd') \<Longrightarrow> r \<noteq> 0 \<Longrightarrow> sd' = sd"
  by (auto simp: pc_cart_additem_def Let_def split: if_splits)

lemma pc_cart_additem_cases:
  assumes run: "pc_cart_additem env sd it amt = (0, sd')" and len: "length (cart sd) = MAX_CART"
  defines "w \<equiv> item_weight (itemdb env (nameid it)) * amt"
  obtains (grow) i where "0 < nameid it" "0 < amt" "w + cart_weight sd \<le> cart_max_weight sd"
      "i = first_idx (\<lambda>x. same_kind x it) (cart sd)" "i < length (cart sd)"
      "amount (cart sd ! i) + amt \<le> MAX_AMOUNT"
      "belongings sd' = belongings (sd\<lparr>cart := grow_slot i amt (cart sd),
        cart_weight := cart_weight sd + w\<rparr>)"
    | (fill) j where "0 < nameid it" "0 < amt" "w + cart_weight sd \<le> cart_max_weight sd"
      "j < length (cart sd)" "nameid (cart sd ! j) = 0"
      "belongings sd' = belongings (sd\<lparr>cart := fill_slot j it amt (cart sd),
        cart_num := s16 (cart_num sd + 1), cart_weight := cart_weight sd + w\<rparr>)"
proof -
  define i where "i = (if itemdb_isequip2 (itemdb env (nameid it)) then MAX_CART
    else first_idx (\<lambda>x. same_kind x it) (cart sd))"
  define j where "j = first_idx (\<lambda>x. nameid x = 0) (cart sd)"
  have pos: "0 < nameid it" "0 < amt" "w + cart_weight sd \<le> cart_max_weight sd"
    using run by (auto simp: pc_cart_additem_def Let_def w_def split: if_splits)
  show thesis
  proof (cases "i < length (cart sd)")
    case True
    then have "amount (cart sd ! i) + amt \<le> MAX_AMOUNT"
      "belongings sd' = belongings (sd\<lparr>cart := grow_slot i amt (cart sd),
        cart_weight := cart_weight sd + w\<rparr>)"
      using run pos by (auto simp: pc_cart_additem_def Let_def w_def i_def [symmetric]
          belongings_def send_def split: if_splits)
    then show thesis using grow pos True len by (simp add: i_def split: if_splits)
  next
    case False
    then have j: "j < length (cart sd)"
      and "belongings sd' = belongings (sd\<lparr>cart := fill_slot j it amt (cart sd),
        cart_num := s16 (cart_num sd + 1), cart_weight := cart_weight sd + w\<rparr>)"
      using run pos by (auto simp: pc_cart_additem_def Let_def w_def i_def [symmetric]
          j_def [symmetric] belongings_def send_def split: if_splits)
    then show thesis
      using fill pos first_idx_sat [of "\<lambda>x. nameid x = 0" "cart sd"] by (simp add: j_def)
  qed
qed

lemma pc_cart_additem_correct:
  assumes ok: "session_ok env sd" and run: "pc_cart_additem env sd it amt = (0, sd')"
    and "amt \<le> 32767"
  shows "session_ok env sd'"
    and "stock k (cart sd') = stock k (cart sd) + (if kind_of it = k then amt else 0)"
    and "inventory sd' = inventory sd" "zeny sd' = zeny sd" "0 < amt" "0 < nameid it"
proof -
  have inv: "inventory_ok env sd" and keeps: "keeps_belongings env" and ct: "cart_ok env sd"
    using ok by (auto simp: session_ok_def)
  have len: "length (cart sd) = MAX_CART" using ct by (simp add: cart_ok_def)
  have slots: "\<forall>it \<in> set (cart sd). slot_ok it" using ct by (simp add: cart_ok_def)
  have "session_ok env sd' \<and>
    stock k (cart sd') = stock k (cart sd) + (if kind_of it = k then amt else 0) \<and>
    inventory sd' = inventory sd \<and> zeny sd' = zeny sd \<and> 0 < amt \<and> 0 < nameid it"
    using run len
  proof (cases rule: pc_cart_additem_cases)
    case (grow i)
    note eqs = belongings_eq [OF grow(7)]
    note found = stack_found [OF grow(5) [unfolded grow(4)] grow(1), folded grow(4)]
    note new = grow_slot_correct [OF grow(5) slots found(3) grow(2,6)]
    have "cart_ok env sd'" using eqs new ct found by (simp add: cart_ok_def)
    moreover have "inventory_ok env sd'" using inv eqs by (simp add: inventory_ok_def)
    ultimately show ?thesis using keeps eqs new(2) found grow(1,2) by (simp add: session_ok_def)
  next
    case (fill j)
    note eqs = belongings_eq [OF fill(6)]
    note new = fill_slot_correct [OF fill(4) slots fill(5,1,2) assms(3)]
    have "s16 (cart_num sd + 1) = cart_num sd + 1"
      using used_bounds [of "cart sd"] ct len
      by (intro s16_id) (simp_all add: cart_ok_def MAX_CART_def)
    then have "cart_ok env sd'" using eqs new ct by (simp add: cart_ok_def)
    moreover have "inventory_ok env sd'" using inv eqs by (simp add: inventory_ok_def)
    ultimately show ?thesis using keeps eqs new(2) fill(1,2) by (simp add: session_ok_def)
  qed
  then show "session_ok env sd'"
    and "stock k (cart sd') = stock k (cart sd) + (if kind_of it = k then amt else 0)"
    and "inventory sd' = inventory sd" "zeny sd' = zeny sd" "0 < amt" "0 < nameid it"
    by blast+
qed

lemma pc_cart_delitem_correct:
  assumes ok: "session_ok env sd" and n: "n < MAX_CART"
    and it: "nameid (cart sd ! n) \<noteq> 0" "0 < amt" "amt \<le> amount (cart sd ! n)"
  shows "cart (pc_cart_delitem env sd n amt type) = drop_pieces n amt (cart sd)"
    and "inventory (pc_cart_delitem env sd n amt type) = inventory sd"
    and "session_ok env (pc_cart_delitem env sd n amt type)"
    and "zeny (pc_cart_delitem env sd n amt type) = zeny sd"
proof -
  have ct: "cart_ok env sd" and keeps: "keeps_belongings env" and inv: "inventory_ok env sd"
    using ok by (auto simp: session_ok_def)
  have len: "n < length (cart sd)" "length (cart sd) = MAX_CART"
    and slots: "\<forall>it \<in> set (cart sd). slot_ok it" using ct n by (simp_all add: cart_ok_def)
  have slot: "slot_ok (cart sd ! n)" using len slots by simp
  note drop = drop_pieces_correct [OF len(1) slots it]
  have left: "amount (shrink_slot n amt (cart sd) ! n) = amount (cart sd ! n) - amt"
    using stock_shrink(2) [OF len(1) slot it(1) _ it(3)] it(2) by simp
  have same: "belongings (pc_cart_delitem env sd n amt type) =
      belongings (sd\<lparr>cart := drop_pieces n amt (cart sd),
        cart_num := (if amount (cart sd ! n) = amt then s16 (cart_num sd - 1) else cart_num sd),
        cart_weight := cart_weight sd - item_weight (itemdb env (nameid (cart sd ! n))) * amt\<rparr>)"
    using it left by (simp add: pc_cart_delitem_def Let_def drop_pieces_def belongings_def send_def)
      (simp add: shrink_slot_def)
  note eqs = belongings_eq [OF same]
  have "0 < used (cart sd)"
    using len it(1) length_filter_pos_nth [of "\<lambda>it. nameid it \<noteq> 0" "cart sd"]
    by (auto simp: used_def)
  then have num: "s16 (cart_num sd - 1) = cart_num sd - 1"
    using used_bounds [of "cart sd"] ct len by (intro s16_id) (simp_all add: cart_ok_def MAX_CART_def)
  have "used (drop_pieces n amt (cart sd)) =
      (if amount (cart sd ! n) = amt then cart_num sd - 1 else cart_num sd)"
    using ct len it(1) by (simp add: drop_pieces_def used_update shrink_slot_def cart_ok_def)
  then have "cart_ok env (pc_cart_delitem env sd n amt type)"
    using ct eqs drop len num by (simp add: cart_ok_def)
  moreover have "inventory_ok env (pc_cart_delitem env sd n amt type)"
    using inv eqs by (simp add: inventory_ok_def)
  ultimately show "session_ok env (pc_cart_delitem env sd n amt type)"
    using keeps by (simp add: session_ok_def)
  show "cart (pc_cart_delitem env sd n amt type) = drop_pieces n amt (cart sd)"
    and "inventory (pc_cart_delitem env sd n amt type) = inventory sd"
    and "zeny (pc_cart_delitem env sd n amt type) = zeny sd"
    using eqs by simp_all
qed

section \<open>Moving between inventory and cart\<close>

lemma session_ok_slots:
  "session_ok env sd \<Longrightarrow> length (inventory sd) = MAX_INVENTORY"
  "session_ok env sd \<Longrightarrow> length (cart sd) = MAX_CART"
  "session_ok env sd \<Longrightarrow> it \<in> set (inventory sd) \<Longrightarrow> slot_ok it"
  "session_ok env sd \<Longrightarrow> it \<in> set (cart sd) \<Longrightarrow> slot_ok it"
  by (simp_all add: session_ok_def inventory_ok_def cart_ok_def)

lemma pc_delitem_none:
  assumes "session_ok env sd" "n < MAX_INVENTORY"
    and "nameid (inventory sd ! n) = 0 \<or> amt \<le> 0 \<or> amount (inventory sd ! n) < amt"
  shows "pc_delitem env sd n amt type = sd"
  using assms inventory_okD(4) [of env sd n]
  by (auto simp: pc_delitem_def session_ok_def split: option.splits)

lemma cart_pc_delitem:
  assumes "session_ok env sd" "n < MAX_INVENTORY"
  shows "cart (pc_delitem env sd n amt type) = cart sd"
  using pc_delitem_none [OF assms] pc_delitem_correct(2) [OF assms] by (metis not_le)

lemma inventory_pc_cart_delitem: "inventory (pc_cart_delitem env sd n amt type) = inventory sd"
  by (simp add: pc_cart_delitem_def Let_def)

lemma inventory_pc_cart_additem:
  assumes "session_ok env sd" "pc_cart_additem env sd it amt = (r, sd')"
  shows "inventory sd' = inventory sd"
proof (cases "r = 0")
  case True
  then show ?thesis
    using assms(2) session_ok_slots(2) [OF assms(1)]
    by (elim pc_cart_additem_cases [rotated]) (auto dest!: belongings_eq(1))
next
  case False
  then show ?thesis using pc_cart_additem_fails [OF assms(2)] by simp
qed

lemma cart_pc_additem:
  assumes "session_ok env sd" "pc_additem env sd it amt = (r, sd')"
  shows "cart sd' = cart sd"
proof (cases "r = 0")
  case True
  then show ?thesis
    using assms(2) session_ok_slots(1) [OF assms(1)]
    by (elim pc_additem_cases [rotated]) (auto dest!: belongings_eq(3))
next
  case False
  then show ?thesis using pc_additem_fails [OF assms(2)] by simp
qed

text \<open>None of the operations touches the fields of a deal, a shop or the session's identity.\<close>

definition dealings :: "session \<Rightarrow> (int \<times> int \<times> int list \<times> int list \<times> int \<times> int) \<times>
    (int \<times> int \<times> int \<times> vending list)" where
  "dealings sd = ((account_id sd, trade_partner sd, deal_item_index sd, deal_item_amount sd,
     deal_zeny sd, deal_locked sd), (guild_id sd, vender_id sd, vend_num sd, vending sd))"

lemma dealings_eq:
  assumes "dealings sd' = dealings sd"
  shows "account_id sd' = account_id sd" "trade_partner sd' = trade_partner sd"
    "deal_item_index sd' = deal_item_index sd" "deal_item_amount sd' = deal_item_amount sd"
    "deal_zeny sd' = deal_zeny sd" "deal_locked sd' = deal_locked sd"
    "guild_id sd' = guild_id sd" "vender_id sd' = vender_id sd" "vend_num sd' = vend_num sd"
    "vending sd' = vending sd"
  using assms by (simp_all add: dealings_def)

lemma dealings_belongings:
  assumes "belongings sd' = belongings sd"
  shows "dealings sd' = dealings sd"
  by (simp add: dealings_def belongings_eq [OF assms])

lemma dealings_additem:
  "dealings (snd (pc_additem env sd it amt)) = dealings sd"
  "dealings (snd (pc_cart_additem env sd it amt)) = dealings sd"
  "dealings (pc_cart_delitem env sd n amt type) = dealings sd"
  by (simp_all add: pc_additem_def pc_cart_additem_def pc_cart_delitem_def Let_def dealings_def send_def)

lemma dealings_delitem:
  assumes "session_ok env sd" "n < MAX_INVENTORY"
  shows "dealings (pc_delitem env sd n amt type) = dealings sd"
proof (cases "nameid (inventory sd ! n) = 0 \<or> amt \<le> 0 \<or> amount (inventory sd ! n) < amt")
  case True
  then show ?thesis using pc_delitem_none [OF assms] by simp
next
  case False
  have inv: "inventory_ok env sd" and keeps: "keeps_belongings env"
    using assms(1) by (auto simp: session_ok_def)
  note iok = inventory_okD [OF inv]
  from belongings_delitem [OF keeps, of n sd "itemdb env (nameid (inventory sd ! n))" amt type]
  show ?thesis
    using dealings_belongings False iok assms(2) by (simp add: dealings_def belongings_def)
qed

lemma zeny_additem:
  "zeny (snd (pc_additem env sd it a)) = zeny sd"
  by (simp add: pc_additem_def Let_def)

lemma zeny_delitem:
  assumes "session_ok env sd" "n < MAX_INVENTORY"
  shows "zeny (pc_delitem env sd n amt type) = zeny sd"
  using pc_delitem_none [OF assms] pc_delitem_correct(4) [OF assms] by (metis not_le)

interpretation inventory_source:
  item_source inventory "\<lambda>sd n amt. pc_delitem env sd n amt type" "session_ok env" for env type
  by unfold_locales (auto simp: session_ok_slots pc_delitem_correct drop_pieces_correct)

interpretation cart_source:
  item_source cart "\<lambda>sd n amt. pc_cart_delitem env sd n amt type" "session_ok env" for env type
  by unfold_locales (auto simp: session_ok_slots pc_cart_delitem_correct drop_pieces_correct)

lemma add_good:
  assumes "session_ok env sd" "amt \<le> 32767"
  shows "pc_additem env sd it amt = (r, sd') \<Longrightarrow> session_ok env sd'"
    and "pc_cart_additem env sd it amt = (r, sd') \<Longrightarrow> session_ok env sd'"
  using pc_additem_correct(1) [OF assms(1) _ assms(2)] pc_additem_fails
    pc_cart_additem_correct(1) [OF assms(1) _ assms(2)] pc_cart_additem_fails assms(1)
  by (cases "r = 0"; blast)+

lemma pc_additem_positive: "pc_additem env sd it amt = (0, sd') \<Longrightarrow> 0 < amt \<and> 0 < nameid it"
  by (simp add: pc_additem_def split: if_splits)

lemma pc_cart_additem_positive:
  "pc_cart_additem env sd it amt = (0, sd') \<Longrightarrow> 0 < amt \<and> 0 < nameid it"
  by (simp add: pc_cart_additem_def split: if_splits)

interpretation inventory_sink: item_sink inventory "pc_additem env" "session_ok env" for env
proof (unfold_locales, goal_cases)
  case (1 s a it r s')
  then show ?case by (rule add_good(1))
next
  case (2 s a it s' k)
  then show ?case using pc_additem_correct(2) by blast
next
  case (3 s it a r s')
  then show ?case using pc_additem_fails by blast
next
  case (4 s it a s')
  then show ?case by (rule pc_additem_positive)
qed

interpretation cart_sink: item_sink cart "pc_cart_additem env" "session_ok env" for env
proof (unfold_locales, goal_cases)
  case (1 s a it r s')
  then show ?case by (rule add_good(2))
next
  case (2 s a it s' k)
  then show ?case using pc_cart_additem_correct(2) by blast
next
  case (3 s it a r s')
  then show ?case using pc_cart_additem_fails by blast
next
  case (4 s it a s')
  then show ?case by (rule pc_cart_additem_positive)
qed

interpretation inventory_to_cart:
  item_move inventory "\<lambda>sd n amt. pc_delitem env sd n amt 0" cart "pc_cart_additem env"
    "session_ok env" for env
  by unfold_locales (auto simp: inventory_pc_cart_additem cart_pc_delitem session_ok_slots)

interpretation cart_to_inventory:
  item_move cart "\<lambda>sd n amt. pc_cart_delitem env sd n amt 0" inventory "pc_additem env"
    "session_ok env" for env
  by unfold_locales (auto simp: cart_pc_additem inventory_pc_cart_delitem)

section \<open>Sessions for the witnesses\<close>

definition plain_env :: env where
  "plain_env = \<lparr>itemdb = (\<lambda>_. \<lparr>item_weight = 10, item_type = 3, no_trade = 0,
       value_buy = 20, value_sell = 10, value_notdc = False, value_notoc = False, equip_place = 0, look = 0, elv = 0,
       item_sex = 2, class_base = [0x1FF, 0x1FF, 0x1FF], class_upper = 7, no_equip = 0\<rparr>),
     isdropable = (\<lambda>_. True), gm_can_drop_lv = 0,
     end_broken = (\<lambda>_ sd. sd), after_unequip = (\<lambda>_ _ sd. sd),
     check_allow = (\<lambda>sd. sd), after_equip = (\<lambda>_ sd. sd), pet_equipitem = (\<lambda>_ sd. sd),
     npc_event_dequeue = (\<lambda>sd. sd), gm_allequip = 0, item_sex_check = True, pvp_map = (\<lambda>_. False), ban_hack_trade = 0, invite_request_check = True,
     gvg_map = (\<lambda>_. False), notrade_map = (\<lambda>_. False), basic_skill_check = False, vending_max_value = 10000000, shop_exp = 0,
     shop_gain = (\<lambda>_ _ sd. sd), pet_egg = (\<lambda>_. False), area_size = 14, check_bad_word = (\<lambda>_. False)\<rparr>"

definition stack :: "int \<Rightarrow> int \<Rightarrow> item" where
  "stack nid amt = blank\<lparr>nameid := nid, amount := amt, identify := 1\<rparr>"

definition slots_of :: "item list \<Rightarrow> item list" where
  "slots_of its = its @ replicate (100 - length its) blank"

definition plain_session :: "int \<Rightarrow> int \<Rightarrow> item list \<Rightarrow> item list \<Rightarrow> session" where
  "plain_session acc z its crt = \<lparr>account_id = acc, bl_id = acc, bl_m = 0, bl_x = 0, bl_y = 0,
     GM_level = 0, skill = (\<lambda>_. 0), sex = 1, base_level = 1, job = 0, status_class = 0, opt1 = 0, dead_sit = 0, zeny = z, weight = load plain_env (slots_of its),
     max_weight = 2000000, inventory = slots_of its,
     inventory_data = map (\<lambda>it. if nameid it = 0 then None else Some (itemdb plain_env (nameid it)))
       (slots_of its),
     cart = slots_of crt, cart_weight = load plain_env (slots_of crt), cart_max_weight = 80000,
     cart_num = used (slots_of crt), equip_index = replicate 11 (- 1),
     weapontype1 = 0, weapontype2 = 0, weapon = 0, shield = 0, head_bottom = 0, head_top = 0,
     head_mid = 0, sc_count = 0, sc_timer = (\<lambda>_. - 1), guild_id = 0, partner_id = 0,
     guild_invite = 0, party_invite = 0, npc_id = 0, storage_flag = 0, modified_storage_flag = 0,
     trade_partner = 0, deal_item_index = replicate 10 0, deal_item_amount = replicate 10 0,
     deal_zeny = 0, deal_locked = 0, vender_id = 0, vend_num = 0, vending = [], message = [],
     auth = 1, options = 0, npc_shopid = 0, sent = []\<rparr>"

lemma slot_ok_stack: "0 < nid \<Longrightarrow> 0 < amt \<Longrightarrow> amt \<le> 32767 \<Longrightarrow> slot_ok (stack nid amt)"
  by (rule slot_okI) (simp_all add: stack_def)

lemma slots_of_ok:
  "length its \<le> 100 \<Longrightarrow> length (slots_of its) = 100"
  "\<forall>it \<in> set its. slot_ok it \<Longrightarrow> \<forall>it \<in> set (slots_of its). slot_ok it"
  by (auto simp: slots_of_def)

lemma plain_session_ok:
  assumes "length its \<le> 100" "length crt \<le> 100"
    and "\<forall>it \<in> set its. slot_ok it" "\<forall>it \<in> set crt. slot_ok it"
  shows "session_ok plain_env (plain_session acc z its crt)"
  using slots_of_ok assms
  by (simp add: session_ok_def inventory_ok_def cart_ok_def keeps_belongings_def plain_session_def
      MAX_INVENTORY_def MAX_CART_def) (simp add: plain_env_def)

section \<open>Properties of inventory and cart\<close>

lemma pc_putitemtocart_conserves:
  fixes idx amt :: int
  assumes "session_ok env sd"
  defines "sd' \<equiv> pc_putitemtocart env sd idx amt"
  shows "session_ok env sd' \<and> zeny sd' = zeny sd \<and>
    stock k (inventory sd') + stock k (cart sd') = stock k (inventory sd) + stock k (cart sd)"
proof (cases "idx < 0 \<or> idx \<ge> int MAX_INVENTORY \<or> nameid (inventory sd ! nat idx) = 0 \<or>
    amount (inventory sd ! nat idx) < amt \<or> pc_candrop env sd (nameid (inventory sd ! nat idx))")
  case True
  then show ?thesis using assms by (auto simp: pc_putitemtocart_def Let_def)
next
  case False
  then have idx: "nat idx < length (inventory sd)" "amt \<le> amount (inventory sd ! nat idx)"
    using session_ok_slots(1) [OF assms(1)] by auto
  obtain r sd1 where add: "pc_cart_additem env sd (inventory sd ! nat idx) amt = (r, sd1)" by force
  have "inventory_to_cart.transfer env sd (nat idx) amt = (r, sd')"
    using False add by (simp add: inventory_to_cart.transfer_def sd'_def pc_putitemtocart_def Let_def)
  note moved = inventory_to_cart.transfer_correct [OF assms(1) idx this]
  have "zeny sd' = zeny sd"
  proof (cases "r = 0")
    case True
    have "amt \<le> 32767"
      using idx session_ok_slots(3) [OF assms(1), of "inventory sd ! nat idx"]
      by (auto simp: slot_ok_def)
    note added = pc_cart_additem_correct [OF assms(1) add [unfolded True] this]
    show ?thesis
      using added pc_delitem_correct(4) [OF added(1), of "nat idx" amt 0] False idx add True
        session_ok_slots(1) [OF assms(1)]
      by (simp add: sd'_def pc_putitemtocart_def Let_def)
  next
    case False
    then show ?thesis
      using add pc_cart_additem_fails [OF add] assms(1)
      by (auto simp: sd'_def pc_putitemtocart_def Let_def split: if_splits)
  qed
  then show ?thesis using moved(1,2) by blast
qed

lemma pc_getitemfromcart_conserves:
  fixes idx amt :: int
  assumes "session_ok env sd"
  defines "sd' \<equiv> pc_getitemfromcart env sd idx amt"
  shows "session_ok env sd' \<and> zeny sd' = zeny sd \<and>
    stock k (inventory sd') + stock k (cart sd') = stock k (inventory sd) + stock k (cart sd)"
proof (cases "idx < 0 \<or> idx \<ge> int MAX_CART \<or> nameid (cart sd ! nat idx) = 0 \<or>
    amount (cart sd ! nat idx) < amt")
  case True
  then show ?thesis using assms by (auto simp: pc_getitemfromcart_def Let_def)
next
  case False
  then have idx: "nat idx < length (cart sd)" "amt \<le> amount (cart sd ! nat idx)"
    using session_ok_slots(2) [OF assms(1)] by auto
  obtain r sd1 where add: "pc_additem env sd (cart sd ! nat idx) amt = (r, sd1)" by force
  obtain sd2 where run: "cart_to_inventory.transfer env sd (nat idx) amt = (r, sd2)"
    and sd2: "sd2 = (if r = 0 then pc_cart_delitem env sd1 (nat idx) amt 0 else sd1)"
    using add by (simp add: cart_to_inventory.transfer_def Let_def)
  have sd': "sd' = (if r = 0 then sd2 else send (clif_additem 0 0 r) sd2)"
    using False add sd2 by (simp add: sd'_def pc_getitemfromcart_def Let_def)
  note moved = cart_to_inventory.transfer_correct [OF assms(1) idx run]
  have small: "amt \<le> 32767"
    using idx session_ok_slots(4) [OF assms(1), of "cart sd ! nat idx"] by (auto simp: slot_ok_def)
  have "zeny sd2 = zeny sd"
    using pc_additem_correct [OF assms(1) _ small, of "cart sd ! nat idx" sd1]
      pc_additem_fails [OF add] pc_cart_delitem_correct(4) [of env sd1 "nat idx" amt 0] add False idx
      session_ok_slots(2) [OF assms(1)]
    by (auto simp: sd2)
  then show ?thesis
    using moved(1) moved(2) [of k] session_ok_cong [of sd' sd2 env] by (simp add: sd')
qed

definition keeps_goods where
  "keeps_goods env k sd sd' \<longleftrightarrow> session_ok env sd' \<and> zeny sd' = zeny sd \<and>
     stock k (inventory sd') + stock k (cart sd') = stock k (inventory sd) + stock k (cart sd)"

text \<open>
  C4: whatever index and amount the client sends, putting items into the cart and taking them out
  keeps the session well-formed (slots, item data pointers, both weights, the number of cart slots
  in use) and keeps, for every kind of item, the number of pieces in inventory and cart together.
\<close>

theorem cart_conserves:
  assumes "session_ok env sd"
  shows "keeps_goods env k sd (pc_putitemtocart env sd idx amt) \<and> keeps_goods env k sd (pc_getitemfromcart env sd idx amt)"
  using pc_putitemtocart_conserves [OF assms] pc_getitemfromcart_conserves [OF assms] by (simp add: keeps_goods_def)

theorem cart_conserves_witness:
  "let sd = plain_session 1 500 [stack 512 7] [stack 513 4] in
    keeps_goods plain_env (kind_of (stack 512 1)) sd (pc_putitemtocart plain_env sd 0 3) \<and>
    keeps_goods plain_env (kind_of (stack 512 1)) sd (pc_getitemfromcart plain_env sd 0 3)"
  unfolding Let_def
  by (rule cart_conserves) (simp add: plain_session_ok slot_ok_stack)

text \<open>
  C5: paying never makes the purse negative and takes exactly the price or nothing; receiving
  never lifts it above the maximum and is lossless below it.
\<close>

theorem zeny_bounds:
  assumes "0 \<le> zeny sd" "zeny sd \<le> MAX_ZENY" "0 \<le> z"
  shows "0 \<le> zeny (snd (pc_payzeny sd z)) \<and> zeny (snd (pc_payzeny sd z)) \<le> MAX_ZENY \<and>
    (fst (pc_payzeny sd z) = 0 \<longleftrightarrow> z \<le> zeny sd) \<and>
    zeny (snd (pc_payzeny sd z)) = (if z \<le> zeny sd then zeny sd - z else zeny sd) \<and>
    zeny (pc_getzeny sd z) = min MAX_ZENY (zeny sd + z)"
  using assms by (auto simp: pc_payzeny_def pc_getzeny_def Let_def send_def)

theorem zeny_bounds_witness:
  "let sd = plain_session 1 500 [] [] in
    0 \<le> zeny (snd (pc_payzeny sd 30)) \<and> zeny (snd (pc_payzeny sd 30)) \<le> MAX_ZENY \<and>
    (fst (pc_payzeny sd 30) = 0 \<longleftrightarrow> 30 \<le> zeny sd) \<and>
    zeny (snd (pc_payzeny sd 30)) = (if 30 \<le> zeny sd then zeny sd - 30 else zeny sd) \<and>
    zeny (pc_getzeny sd 30) = min MAX_ZENY (zeny sd + 30)"
  unfolding Let_def by (rule zeny_bounds) (simp_all add: plain_session_def MAX_ZENY_def)

end
