(* ===== verification/Storage.thy ===== *)
theory Storage
  imports Inventory
begin

text \<open>
  The personal (Kafra) storage and the guild storage: \<open>src/src/map/storage.c\<close> with the packet
  handlers of \<open>src/src/map/clif.c\<close> that check index and amount for it. The two databases are
  finite maps (\<open>numdb\<close> tables of pointers, see \<open>DbKeys\<close>); a handler changes the session and the
  storage it finds there.
\<close>

section \<open>The storages\<close>

record storage =
  owner :: int
  storage_status :: int
  storage_amount :: int
  storage_items :: "item list"

text \<open>A guild storage has the same fields and the flag that it was modified.\<close>

record guild_storage = storage +
  gmodified :: int

definition MAX_STORAGE :: nat where
  "MAX_STORAGE = 300"

definition MAX_GUILD_STORAGE :: nat where
  "MAX_GUILD_STORAGE = 1000"

record mapserv =
  storage_db :: "int \<Rightarrow> storage option"
  guild_storage_db :: "int \<Rightarrow> guild_storage option"
  guild_search :: "int \<Rightarrow> bool"

definition new_storage :: "int \<Rightarrow> storage" where
  "new_storage acc = \<lparr>owner = acc, storage_status = 0, storage_amount = 0,
     storage_items = replicate MAX_STORAGE blank\<rparr>"

definition new_guild_storage :: "int \<Rightarrow> guild_storage" where
  "new_guild_storage g = \<lparr>owner = g, storage_status = 0, storage_amount = 0,
     storage_items = replicate MAX_GUILD_STORAGE blank, gmodified = 0\<rparr>"

section \<open>Sorting\<close>

definition storage_comp_item :: "item \<Rightarrow> item \<Rightarrow> int" where
  "storage_comp_item i1 i2 =
     (if nameid i1 = nameid i2 then 0
      else if nameid i1 = 0 \<or> amount i1 = 0 then 1
      else if nameid i2 = 0 \<or> amount i2 = 0 then - 1
      else nameid i1 - nameid i2)"

text \<open>\<open>qsort\<close> of the C library, by insertion: elements that compare equal stay in order.\<close>

fun insert_item :: "(item \<Rightarrow> item \<Rightarrow> int) \<Rightarrow> item \<Rightarrow> item list \<Rightarrow> item list" where
  "insert_item c x [] = [x]"
| "insert_item c x (y # ys) = (if c x y \<le> 0 then x # y # ys else y # insert_item c x ys)"

definition qsort :: "(item \<Rightarrow> item \<Rightarrow> int) \<Rightarrow> item list \<Rightarrow> item list" where
  "qsort c xs = foldr (insert_item c) xs []"

definition sortage_sortitem :: "'a storage_scheme \<Rightarrow> 'a storage_scheme" where
  "sortage_sortitem stor = stor\<lparr>storage_items := qsort storage_comp_item (storage_items stor)\<rparr>"

section \<open>Adding and removing\<close>

text \<open>
  What \<open>storage_additem\<close> and \<open>guild_storage_additem\<close> have in common: the slot the items go to
  and whether it was empty, with the changed storage, or nothing when they do not fit.
\<close>

definition put_item :: "env \<Rightarrow> nat \<Rightarrow> 'a storage_scheme \<Rightarrow> item \<Rightarrow> int \<Rightarrow>
    (nat \<times> bool \<times> 'a storage_scheme) option" where
  "put_item env cap stor it amt =
     (if nameid it \<le> 0 \<or> amt \<le> 0 then None
      else (let i = (if itemdb_isequip2 (itemdb env (nameid it)) then cap
                     else first_idx (\<lambda>x. same_kind x it) (storage_items stor)) in
        if i < length (storage_items stor) then
          (if amount (storage_items stor ! i) + amt > MAX_AMOUNT then None
           else Some (i, False, stor\<lparr>storage_items := grow_slot i amt (storage_items stor)\<rparr>))
        else (let j = first_idx (\<lambda>x. nameid x = 0) (storage_items stor) in
          if j < length (storage_items stor)
          then Some (j, True, stor\<lparr>storage_items := fill_slot j it amt (storage_items stor),
                 storage_amount := s16 (storage_amount stor + 1)\<rparr>)
          else None)))"

definition storage_additem :: "env \<Rightarrow> session \<times> storage \<Rightarrow> item \<Rightarrow> int \<Rightarrow> int \<times> session \<times> storage" where
  "storage_additem env s it amt =
     (case put_item env MAX_STORAGE (snd s) it amt of
        None \<Rightarrow> (1, s)
      | Some (i, fresh, stor) \<Rightarrow>
          (let sd = send (clif_storageitemadded i amt) (fst s)
           in (0, if fresh then send (clif_updatestorageamount (storage_amount stor)) sd else sd, stor)))"

definition guild_storage_additem :: "env \<Rightarrow> session \<times> guild_storage \<Rightarrow> item \<Rightarrow> int \<Rightarrow>
    int \<times> session \<times> guild_storage" where
  "guild_storage_additem env s it amt =
     (case put_item env MAX_GUILD_STORAGE (snd s) it amt of
        None \<Rightarrow> (1, s)
      | Some (i, fresh, stor) \<Rightarrow>
          (let sd = send (clif_storageitemadded i amt) (fst s)
           in (0, if fresh then send (clif_updatestorageamount (storage_amount stor)) sd else sd, stor)))"

text \<open>The part that both \<open>delitem\<close> functions share: the storage and whether the slot got empty.\<close>

definition take_item :: "'a storage_scheme \<Rightarrow> nat \<Rightarrow> int \<Rightarrow> (bool \<times> 'a storage_scheme) option" where
  "take_item stor n amt =
     (if nameid (storage_items stor ! n) = 0 \<or> amount (storage_items stor ! n) < amt then None
      else (let stor = stor\<lparr>storage_items := shrink_slot n amt (storage_items stor)\<rparr> in
        if amount (storage_items stor ! n) = 0
        then Some (True, stor\<lparr>storage_items := (storage_items stor)[n := blank],
               storage_amount := s16 (storage_amount stor - 1)\<rparr>)
        else Some (False, stor)))"

definition storage_delitem :: "session \<times> storage \<Rightarrow> nat \<Rightarrow> int \<Rightarrow> int \<times> session \<times> storage" where
  "storage_delitem s n amt =
     (case take_item (snd s) n amt of
        None \<Rightarrow> (1, s)
      | Some (emptied, stor) \<Rightarrow>
          (let sd = (if emptied then send (clif_updatestorageamount (storage_amount stor)) (fst s) else fst s);
               sd = send (clif_storageitemremoved (int n) amt) sd
           in (0, sd\<lparr>modified_storage_flag := 1\<rparr>, stor)))"

definition guild_storage_delitem :: "session \<times> guild_storage \<Rightarrow> nat \<Rightarrow> int \<Rightarrow>
    int \<times> session \<times> guild_storage" where
  "guild_storage_delitem s n amt =
     (case take_item (snd s) n amt of
        None \<Rightarrow> (1, s)
      | Some (emptied, stor) \<Rightarrow>
          (let sd = (if emptied then send (clif_updatestorageamount (storage_amount stor)) (fst s) else fst s);
               sd = send (clif_storageitemremoved (int n) amt) sd
           in (0, sd, stor\<lparr>gmodified := 1\<rparr>)))"

section \<open>The databases\<close>

definition account2storage :: "mapserv \<Rightarrow> int \<Rightarrow> storage \<times> mapserv" where
  "account2storage ms acc = (case storage_db ms acc of
     Some stor \<Rightarrow> (stor, ms)
   | None \<Rightarrow> (new_storage acc, ms\<lparr>storage_db := (storage_db ms)(acc \<mapsto> new_storage acc)\<rparr>))"

definition account2storage2 :: "mapserv \<Rightarrow> int \<Rightarrow> storage option" where
  "account2storage2 ms acc = storage_db ms acc"

definition storage_delete :: "mapserv \<Rightarrow> int \<Rightarrow> mapserv" where
  "storage_delete ms acc = ms\<lparr>storage_db := (storage_db ms)(acc := None)\<rparr>"

definition guild2storage :: "mapserv \<Rightarrow> int \<Rightarrow> guild_storage option \<times> mapserv" where
  "guild2storage ms g =
     (if guild_search ms g then
        (case guild_storage_db ms g of
           Some gs \<Rightarrow> (Some gs, ms)
         | None \<Rightarrow> (Some (new_guild_storage g),
             ms\<lparr>guild_storage_db := (guild_storage_db ms)(g \<mapsto> new_guild_storage g)\<rparr>))
      else (None, ms))"

definition guild_storage_delete :: "mapserv \<Rightarrow> int \<Rightarrow> mapserv" where
  "guild_storage_delete ms g = ms\<lparr>guild_storage_db := (guild_storage_db ms)(g := None)\<rparr>"

definition put_storage :: "storage \<Rightarrow> mapserv \<Rightarrow> int \<Rightarrow> mapserv" where
  "put_storage stor ms acc = ms\<lparr>storage_db := (storage_db ms)(acc \<mapsto> stor)\<rparr>"

definition put_guild_storage :: "guild_storage \<Rightarrow> mapserv \<Rightarrow> int \<Rightarrow> mapserv" where
  "put_guild_storage stor ms g = ms\<lparr>guild_storage_db := (guild_storage_db ms)(g \<mapsto> stor)\<rparr>"

section \<open>The personal storage\<close>

definition storage_storageopen :: "session \<times> mapserv \<Rightarrow> int \<times> session \<times> mapserv" where
  "storage_storageopen s = (case s of (sd, ms) \<Rightarrow>
     (case storage_db ms (account_id sd) of
        Some stor \<Rightarrow>
          (if storage_status stor = 0
           then (let stor = stor\<lparr>storage_status := 1\<rparr>;
                     sd = send clif_storageitemlist (sd\<lparr>storage_flag := 0\<rparr>);
                     sd = send (clif_updatestorageamount (storage_amount stor))
                            (send clif_storageequiplist sd)
                 in (0, sd, put_storage stor ms (account_id sd)))
           else (1, sd, ms))
      | None \<Rightarrow> (1, send (intif_request_storage (account_id sd)) sd, ms)))"

definition storage_storageadd :: "env \<Rightarrow> session \<times> mapserv \<Rightarrow> int \<Rightarrow> int \<Rightarrow> session \<times> mapserv" where
  "storage_storageadd env s idx amt = (case s of (sd, ms) \<Rightarrow>
     (let acc = account_id sd; (stor, ms) = account2storage ms acc in
      if storage_amount stor \<le> int MAX_STORAGE \<and> storage_status stor = 1
      then (case storage_additem env (sd, stor) (inventory sd ! nat idx) amt of (r, sd, stor) \<Rightarrow>
             (if r = 0 then pc_delitem env sd (nat idx) amt 0 else sd, put_storage stor ms acc))
      else (sd, ms)))"

definition storage_storageget :: "env \<Rightarrow> session \<times> mapserv \<Rightarrow> int \<Rightarrow> int \<Rightarrow> session \<times> mapserv" where
  "storage_storageget env s idx amt = (case s of (sd, ms) \<Rightarrow>
     (let acc = account_id sd; (stor, ms) = account2storage ms acc in
      if storage_status stor = 1 \<and> amt \<le> amount (storage_items stor ! nat idx)
      then (case pc_additem env sd (storage_items stor ! nat idx) amt of (flag, sd) \<Rightarrow>
             (if flag = 0
              then (case storage_delitem (sd, stor) (nat idx) amt of (_, sd, stor) \<Rightarrow>
                     (sd, put_storage stor ms acc))
              else (send (clif_additem 0 0 flag) sd, ms)))
      else (sd, ms)))"

definition storage_storageaddfromcart :: "env \<Rightarrow> session \<times> mapserv \<Rightarrow> int \<Rightarrow> int \<Rightarrow>
    session \<times> mapserv" where
  "storage_storageaddfromcart env s idx amt = (case s of (sd, ms) \<Rightarrow>
     (let acc = account_id sd; (stor, ms) = account2storage ms acc in
      if storage_amount stor \<le> int MAX_STORAGE \<and> storage_status stor = 1 \<and>
         idx \<ge> 0 \<and> idx < int MAX_CART \<and> amt \<le> amount (cart sd ! nat idx) \<and> amt > 0
      then (case storage_additem env (sd, stor) (cart sd ! nat idx) amt of (r, sd, stor) \<Rightarrow>
             (if r = 0 then pc_cart_delitem env sd (nat idx) amt 0 else sd, put_storage stor ms acc))
      else (sd, ms)))"

definition storage_storagegettocart :: "env \<Rightarrow> session \<times> mapserv \<Rightarrow> int \<Rightarrow> int \<Rightarrow>
    session \<times> mapserv" where
  "storage_storagegettocart env s idx amt = (case s of (sd, ms) \<Rightarrow>
     (let acc = account_id sd; (stor, ms) = account2storage ms acc in
      if storage_status stor = 1 \<and> idx \<ge> 0 \<and> idx < int MAX_STORAGE \<and>
         amt \<le> amount (storage_items stor ! nat idx) \<and> amt > 0
      then (case pc_cart_additem env sd (storage_items stor ! nat idx) amt of (r, sd) \<Rightarrow>
             (if r = 0
              then (case storage_delitem (sd, stor) (nat idx) amt of (_, sd, stor) \<Rightarrow>
                     (sd, put_storage stor ms acc))
              else (sd, ms)))
      else (sd, ms)))"

definition storage_storageclose :: "session \<times> mapserv \<Rightarrow> session \<times> mapserv" where
  "storage_storageclose s = (case s of (sd, ms) \<Rightarrow>
     (let acc = account_id sd; (stor, ms) = account2storage ms acc;
          stor = sortage_sortitem (stor\<lparr>storage_status := 0\<rparr>)
      in (send chrif_save (send clif_storageclose (sd\<lparr>storage_flag := 0\<rparr>)), put_storage stor ms acc)))"

definition storage_storage_quit :: "session \<times> mapserv \<Rightarrow> mapserv" where
  "storage_storage_quit s = (case s of (sd, ms) \<Rightarrow>
     (case storage_db ms (account_id sd) of
        Some stor \<Rightarrow> put_storage (stor\<lparr>storage_status := 0\<rparr>) ms (account_id sd)
      | None \<Rightarrow> ms))"

definition storage_storage_save :: "session \<times> mapserv \<Rightarrow> session" where
  "storage_storage_save s = (case s of (sd, ms) \<Rightarrow>
     (case storage_db ms (account_id sd) of
        Some stor \<Rightarrow> send (intif_send_storage (owner stor)) sd
      | None \<Rightarrow> sd))"

section \<open>The guild storage\<close>

definition storage_guild_storageopen :: "session \<times> mapserv \<Rightarrow> int \<times> session \<times> mapserv" where
  "storage_guild_storageopen s = (case s of (sd, ms) \<Rightarrow>
     (if guild_id sd \<le> 0 then (2, sd, ms)
      else (case guild_storage_db ms (guild_id sd) of
        Some gstor \<Rightarrow>
          (if storage_status gstor \<noteq> 0 then (1, sd, ms)
           else (let gstor = gstor\<lparr>storage_status := 1\<rparr>;
                     sd = send clif_storageitemlist (sd\<lparr>storage_flag := 1\<rparr>);
                     sd = send (clif_updatestorageamount (storage_amount gstor))
                            (send clif_storageequiplist sd)
                 in (0, sd, put_guild_storage gstor ms (guild_id sd))))
      | None \<Rightarrow>
          (case guild2storage ms (guild_id sd) of
             (None, ms) \<Rightarrow> (2, sd, ms)
           | (Some gstor, ms) \<Rightarrow>
               (0, send (intif_request_guild_storage (guild_id sd)) sd,
                 put_guild_storage (gstor\<lparr>storage_status := 1\<rparr>) ms (guild_id sd))))))"

definition storage_guild_storageadd :: "env \<Rightarrow> session \<times> mapserv \<Rightarrow> int \<Rightarrow> int \<Rightarrow>
    session \<times> mapserv" where
  "storage_guild_storageadd env s idx amt = (case s of (sd, ms) \<Rightarrow>
     (case guild2storage ms (guild_id sd) of
        (None, ms) \<Rightarrow> (sd, ms)
      | (Some stor, ms) \<Rightarrow>
          (if storage_amount stor \<le> int MAX_GUILD_STORAGE \<and> storage_status stor = 1
           then (case guild_storage_additem env (sd, stor) (inventory sd ! nat idx) amt of
                   (r, sd', stor) \<Rightarrow>
                     (if r = 0 then pc_delitem env sd' (nat idx) amt 0 else sd',
                      put_guild_storage stor ms (guild_id sd)))
           else (sd, ms))))"

definition storage_guild_storageget :: "env \<Rightarrow> session \<times> mapserv \<Rightarrow> int \<Rightarrow> int \<Rightarrow>
    session \<times> mapserv" where
  "storage_guild_storageget env s idx amt = (case s of (sd, ms) \<Rightarrow>
     (case guild2storage ms (guild_id sd) of
        (None, ms) \<Rightarrow> (sd, ms)
      | (Some stor, ms) \<Rightarrow>
          (if storage_status stor = 1 \<and> amt \<le> amount (storage_items stor ! nat idx)
           then (case pc_additem env sd (storage_items stor ! nat idx) amt of (flag, sd') \<Rightarrow>
                  (if flag = 0
                   then (case guild_storage_delitem (sd', stor) (nat idx) amt of (_, sd'', stor) \<Rightarrow>
                          (sd'', put_guild_storage stor ms (guild_id sd)))
                   else (send (clif_additem 0 0 flag) sd', ms)))
           else (sd, ms))))"

definition storage_guild_storageaddfromcart :: "env \<Rightarrow> session \<times> mapserv \<Rightarrow> int \<Rightarrow> int \<Rightarrow>
    session \<times> mapserv" where
  "storage_guild_storageaddfromcart env s idx amt = (case s of (sd, ms) \<Rightarrow>
     (case guild2storage ms (guild_id sd) of
        (None, ms) \<Rightarrow> (sd, ms)
      | (Some stor, ms) \<Rightarrow>
          (if storage_amount stor \<le> int MAX_GUILD_STORAGE \<and> storage_status stor = 1 \<and>
              idx \<ge> 0 \<and> idx < int MAX_CART \<and> amt \<le> amount (cart sd ! nat idx) \<and> amt > 0
           then (case guild_storage_additem env (sd, stor) (cart sd ! nat idx) amt of
                   (r, sd', stor) \<Rightarrow>
                     (if r = 0 then pc_cart_delitem env sd' (nat idx) amt 0 else sd',
                      put_guild_storage stor ms (guild_id sd)))
           else (sd, ms))))"

definition storage_guild_storagegettocart :: "env \<Rightarrow> session \<times> mapserv \<Rightarrow> int \<Rightarrow> int \<Rightarrow>
    session \<times> mapserv" where
  "storage_guild_storagegettocart env s idx amt = (case s of (sd, ms) \<Rightarrow>
     (case guild2storage ms (guild_id sd) of
        (None, ms) \<Rightarrow> (sd, ms)
      | (Some stor, ms) \<Rightarrow>
          (if storage_status stor = 1 \<and> idx \<ge> 0 \<and> idx < int MAX_GUILD_STORAGE \<and>
              amt \<le> amount (storage_items stor ! nat idx) \<and> amt > 0
           then (case pc_cart_additem env sd (storage_items stor ! nat idx) amt of (r, sd') \<Rightarrow>
                  (if r = 0
                   then (case guild_storage_delitem (sd', stor) (nat idx) amt of (_, sd'', stor) \<Rightarrow>
                          (sd'', put_guild_storage stor ms (guild_id sd)))
                   else (sd', ms)))
           else (sd, ms))))"

definition send_modified :: "guild_storage \<Rightarrow> session \<Rightarrow> session" where
  "send_modified gs sd = (if gmodified gs \<noteq> 0 then send (intif_send_guild_storage (owner gs)) sd else sd)"

definition storage_guild_storageclose :: "session \<times> mapserv \<Rightarrow> session \<times> mapserv" where
  "storage_guild_storageclose s = (case s of (sd, ms) \<Rightarrow>
     (case guild2storage ms (guild_id sd) of
        (None, ms) \<Rightarrow> (send clif_storageclose sd, ms)
      | (Some stor, ms) \<Rightarrow>
          (let sd = send_modified stor sd;
               stor = sortage_sortitem (stor\<lparr>storage_status := 0\<rparr>);
               sd = send chrif_save (sd\<lparr>storage_flag := 0\<rparr>)
           in (send clif_storageclose sd, put_guild_storage stor ms (guild_id sd)))))"

definition storage_guild_storage_quit :: "session \<times> mapserv \<Rightarrow> session \<times> mapserv" where
  "storage_guild_storage_quit s = (case s of (sd, ms) \<Rightarrow>
     (case guild_storage_db ms (guild_id sd) of
        None \<Rightarrow> (sd, ms)
      | Some stor \<Rightarrow>
          (let sd = send_modified stor sd
           in (send chrif_save (sd\<lparr>storage_flag := 0\<rparr>),
               put_guild_storage (stor\<lparr>storage_status := 0\<rparr>) ms (guild_id sd)))))"

definition storage_guild_storagesave :: "session \<times> mapserv \<Rightarrow> session \<times> mapserv" where
  "storage_guild_storagesave s = (case s of (sd, ms) \<Rightarrow>
     (case guild2storage ms (guild_id sd) of
        (None, ms) \<Rightarrow> (sd, ms)
      | (Some stor, ms) \<Rightarrow> (send_modified stor sd, ms)))"

section \<open>The packets of the storage window\<close>

text \<open>
  \<open>clif_parse_MoveToKafra\<close>, \<open>clif_parse_MoveFromKafra\<close>, \<open>clif_parse_MoveToKafraFromCart\<close>,
  \<open>clif_parse_MoveFromKafraToCart\<close> and \<open>clif_parse_CloseKafra\<close>, after the index and the amount
  were read from the packet.
\<close>

definition clif_parse_MoveToKafra :: "env \<Rightarrow> session \<times> mapserv \<Rightarrow> int \<Rightarrow> int \<Rightarrow>
    session \<times> mapserv" where
  "clif_parse_MoveToKafra env s item_index item_amount = (let sd = fst s in
     if npc_id sd \<noteq> 0 \<or> vender_id sd \<noteq> 0 then s
     else if item_index < 0 \<or> item_index \<ge> int MAX_INVENTORY then s
     else if item_amount \<le> 0 \<or> item_amount > amount (inventory sd ! nat item_index) then s
     else if \<not> isdropable env (nameid (inventory sd ! nat item_index)) then s
     else if storage_flag sd \<noteq> 0 then storage_guild_storageadd env s item_index item_amount
     else storage_storageadd env s item_index item_amount)"

definition clif_parse_MoveFromKafra :: "env \<Rightarrow> session \<times> mapserv \<Rightarrow> int \<Rightarrow> int \<Rightarrow>
    session \<times> mapserv" where
  "clif_parse_MoveFromKafra env s item_index item_amount = (let sd = fst s in
     if npc_id sd \<noteq> 0 \<or> vender_id sd \<noteq> 0 then s
     else if storage_flag sd \<noteq> 0 then
       (if item_index < 0 \<or> item_index \<ge> int MAX_GUILD_STORAGE \<or> item_amount \<le> 0 then s
        else storage_guild_storageget env s item_index item_amount)
     else
       (if item_index < 0 \<or> item_index \<ge> int MAX_STORAGE \<or> item_amount \<le> 0 then s
        else storage_storageget env s item_index item_amount))"

definition clif_parse_MoveToKafraFromCart :: "env \<Rightarrow> session \<times> mapserv \<Rightarrow> int \<Rightarrow> int \<Rightarrow>
    session \<times> mapserv" where
  "clif_parse_MoveToKafraFromCart env s idx amt = (let sd = fst s in
     if npc_id sd \<noteq> 0 \<or> vender_id sd \<noteq> 0 \<or> trade_partner sd \<noteq> 0 then s
     else if storage_flag sd \<noteq> 0 then storage_guild_storageaddfromcart env s idx amt
     else storage_storageaddfromcart env s idx amt)"

definition clif_parse_MoveFromKafraToCart :: "env \<Rightarrow> session \<times> mapserv \<Rightarrow> int \<Rightarrow> int \<Rightarrow>
    session \<times> mapserv" where
  "clif_parse_MoveFromKafraToCart env s idx amt = (let sd = fst s in
     if npc_id sd \<noteq> 0 \<or> vender_id sd \<noteq> 0 then s
     else if storage_flag sd \<noteq> 0 then storage_guild_storagegettocart env s idx amt
     else storage_storagegettocart env s idx amt)"

definition clif_parse_CloseKafra :: "session \<times> mapserv \<Rightarrow> session \<times> mapserv" where
  "clif_parse_CloseKafra s =
     (if storage_flag (fst s) \<noteq> 0 then storage_guild_storageclose s else storage_storageclose s)"

text \<open>What a client with an open window can ask for.\<close>

datatype kafra_packet =
    MoveToKafra int int
  | MoveFromKafra int int
  | MoveToKafraFromCart int int
  | MoveFromKafraToCart int int
  | CloseKafra

fun kafra_step :: "env \<Rightarrow> kafra_packet \<Rightarrow> session \<times> mapserv \<Rightarrow> session \<times> mapserv" where
  "kafra_step env (MoveToKafra i a) s = clif_parse_MoveToKafra env s i a"
| "kafra_step env (MoveFromKafra i a) s = clif_parse_MoveFromKafra env s i a"
| "kafra_step env (MoveToKafraFromCart i a) s = clif_parse_MoveToKafraFromCart env s i a"
| "kafra_step env (MoveFromKafraToCart i a) s = clif_parse_MoveFromKafraToCart env s i a"
| "kafra_step env CloseKafra s = clif_parse_CloseKafra s"

end
