(* ===== verification/StorageProofs.thy ===== *)
theory StorageProofs
  imports Storage
begin

text \<open>
  Whatever packets a client with an open storage window sends, sessions and storages stay
  well-formed and no item appears or disappears: the storages are containers in the sense of
  \<open>item_source\<close> and \<open>item_sink\<close>, and the handlers are transfers between containers.
\<close>

section \<open>Well-formed storages\<close>

definition storage_ok :: "nat \<Rightarrow> 'a storage_scheme \<Rightarrow> bool" where
  "storage_ok cap stor \<longleftrightarrow> length (storage_items stor) = cap \<and>
     (\<forall>it \<in> set (storage_items stor). slot_ok it) \<and> storage_amount stor = used (storage_items stor)"

lemma put_item_correct:
  assumes ok: "storage_ok cap stor" and cap: "cap \<le> 32000" and small: "amt \<le> 32767"
    and run: "put_item env cap stor it amt = Some (i, fresh, stor')"
  shows "storage_ok cap stor'"
    and "stock k (storage_items stor') = stock k (storage_items stor) +
      (if kind_of it = k then amt else 0)"
    and "0 < amt" "0 < nameid it"
proof -
  define i' where "i' = (if itemdb_isequip2 (itemdb env (nameid it)) then cap
    else first_idx (\<lambda>x. same_kind x it) (storage_items stor))"
  define j where "j = first_idx (\<lambda>x. nameid x = 0) (storage_items stor)"
  have len: "length (storage_items stor) = cap" and slots: "\<forall>it \<in> set (storage_items stor). slot_ok it"
    and num: "storage_amount stor = used (storage_items stor)"
    using ok by (auto simp: storage_ok_def)
  have pos: "0 < nameid it" "0 < amt" using run by (auto simp: put_item_def split: if_splits)
  have "storage_ok cap stor' \<and> stock k (storage_items stor') = stock k (storage_items stor) +
      (if kind_of it = k then amt else 0)"
  proof (cases "i' < length (storage_items stor)")
    case True
    then have i: "i' = first_idx (\<lambda>x. same_kind x it) (storage_items stor)"
      using len by (simp add: i'_def split: if_splits)
    have stor': "stor' = stor\<lparr>storage_items := grow_slot i' amt (storage_items stor)\<rparr>"
      and room: "amount (storage_items stor ! i') + amt \<le> MAX_AMOUNT"
      using run pos True by (auto simp: put_item_def Let_def i'_def [symmetric] split: if_splits)
    note found = stack_found [OF True [unfolded i] pos(1), folded i]
    note new = grow_slot_correct [OF True slots found(3) pos(2) room]
    show ?thesis using new found(1) len num by (simp add: stor' storage_ok_def)
  next
    case False
    then have j: "j < length (storage_items stor)"
      and stor': "stor' = stor\<lparr>storage_items := fill_slot j it amt (storage_items stor),
        storage_amount := s16 (storage_amount stor + 1)\<rparr>"
      using run pos by (auto simp: put_item_def Let_def i'_def [symmetric] j_def [symmetric] split: if_splits)
    have blank: "nameid (storage_items stor ! j) = 0" using first_idx_sat j by (simp add: j_def)
    note new = fill_slot_correct [OF j slots blank pos small]
    have "s16 (storage_amount stor + 1) = storage_amount stor + 1"
      using used_bounds [of "storage_items stor"] num len cap by (intro s16_id) auto
    then show ?thesis using new len num by (simp add: stor' storage_ok_def)
  qed
  then show "storage_ok cap stor'"
    and "stock k (storage_items stor') = stock k (storage_items stor) +
      (if kind_of it = k then amt else 0)"
    and "0 < amt" "0 < nameid it" using pos by blast+
qed

lemma take_item_correct:
  assumes ok: "storage_ok cap stor" and cap: "cap \<le> 32000" and n: "n < cap"
    and it: "nameid (storage_items stor ! n) \<noteq> 0" "0 < amt" "amt \<le> amount (storage_items stor ! n)"
  shows "\<exists>e stor'. take_item stor n amt = Some (e, stor') \<and> storage_ok cap stor' \<and>
    storage_items stor' = drop_pieces n amt (storage_items stor)"
proof -
  have len: "length (storage_items stor) = cap" and slots: "\<forall>it \<in> set (storage_items stor). slot_ok it"
    and num: "storage_amount stor = used (storage_items stor)"
    using ok by (auto simp: storage_ok_def)
  have len': "n < length (storage_items stor)" using n len by simp
  have slot: "slot_ok (storage_items stor ! n)" using len' slots by simp
  note drop = drop_pieces_correct [OF len' slots it]
  have left: "amount (shrink_slot n amt (storage_items stor) ! n) = amount (storage_items stor ! n) - amt"
    using stock_shrink(2) [OF len' slot it(1) _ it(3)] it(2) by simp
  have "0 < used (storage_items stor)"
    using len' it(1) length_filter_pos_nth [of "\<lambda>it. nameid it \<noteq> 0" "storage_items stor"]
    by (auto simp: used_def)
  then have "s16 (storage_amount stor - 1) = storage_amount stor - 1"
    using used_bounds [of "storage_items stor"] num len cap by (intro s16_id) auto
  moreover have "used (drop_pieces n amt (storage_items stor)) =
      (if amount (storage_items stor ! n) = amt then used (storage_items stor) - 1
       else used (storage_items stor))"
    using len' it(1) by (simp add: drop_pieces_def used_update shrink_slot_def)
  moreover have "(shrink_slot n amt (storage_items stor))[n := blank] = (storage_items stor)[n := blank]"
    by (simp add: shrink_slot_def)
  moreover have "\<not> (nameid (storage_items stor ! n) = 0 \<or> amount (storage_items stor ! n) < amt)"
    using it by simp
  ultimately show ?thesis
    using left drop(1,4) len num
    by (cases "amount (storage_items stor ! n) = amt")
      (simp add: take_item_def Let_def storage_ok_def drop_pieces_def, blast)+
qed

lemma take_item_none:
  "take_item stor n amt = Some (e, stor') \<Longrightarrow> nameid (storage_items stor ! n) \<noteq> 0"
  by (auto simp: take_item_def split: if_splits)

lemmas storage_caps = MAX_STORAGE_def MAX_GUILD_STORAGE_def

section \<open>Storages as containers\<close>

definition with_storage_ok :: "env \<Rightarrow> session \<times> storage \<Rightarrow> bool" where
  "with_storage_ok env s \<longleftrightarrow> session_ok env (fst s) \<and> storage_ok MAX_STORAGE (snd s)"

definition with_guild_storage_ok :: "env \<Rightarrow> session \<times> guild_storage \<Rightarrow> bool" where
  "with_guild_storage_ok env s \<longleftrightarrow> session_ok env (fst s) \<and> storage_ok MAX_GUILD_STORAGE (snd s)"

lemma storage_additem_correct:
  assumes "storage_additem env s it amt = (r, s')"
  shows "belongings (fst s') = belongings (fst s)" "r \<noteq> 0 \<Longrightarrow> s' = s"
    "r = 0 \<Longrightarrow> \<exists>i f. put_item env MAX_STORAGE (snd s) it amt = Some (i, f, snd s')"
  using assms by (auto simp: storage_additem_def Let_def split: option.splits if_splits)

lemma guild_storage_additem_correct:
  assumes "guild_storage_additem env s it amt = (r, s')"
  shows "belongings (fst s') = belongings (fst s)" "r \<noteq> 0 \<Longrightarrow> s' = s"
    "r = 0 \<Longrightarrow> \<exists>i f. put_item env MAX_GUILD_STORAGE (snd s) it amt = Some (i, f, snd s')"
  using assms by (auto simp: guild_storage_additem_def Let_def split: option.splits if_splits)

lemma belongings_modified_flag [simp]: "belongings (sd\<lparr>modified_storage_flag := x\<rparr>) = belongings sd"
  "belongings (sd\<lparr>storage_flag := x\<rparr>) = belongings sd"
  by (simp_all add: belongings_def)

lemma storage_delitem_correct:
  assumes "storage_delitem s n amt = (r, s')"
  shows "belongings (fst s') = belongings (fst s)"
    "take_item (snd s) n amt = Some (e, stor') \<Longrightarrow> snd s' = stor'"
  using assms by (auto simp: storage_delitem_def Let_def split: option.splits if_splits)

lemma guild_storage_delitem_correct:
  assumes "guild_storage_delitem s n amt = (r, s')"
  shows "belongings (fst s') = belongings (fst s)"
    "take_item (snd s) n amt = Some (e, stor') \<Longrightarrow> snd s' = stor'\<lparr>gmodified := 1\<rparr>"
  using assms by (auto simp: guild_storage_delitem_def Let_def split: option.splits if_splits)

interpretation storage_sink:
  item_sink "\<lambda>s. storage_items (snd s)" "storage_additem env" "with_storage_ok env" for env
proof (unfold_locales, goal_cases)
  case (1 s a it r s')
  note add = storage_additem_correct [OF 1(3)]
  show ?case
  proof (cases "r = 0")
    case True
    then show ?thesis
      using add(3) put_item_correct(1) [OF _ _ 1(2)] 1(1) session_ok_cong [OF add(1)]
      by (fastforce simp: with_storage_ok_def storage_caps)
  qed (use add 1 in auto)
next
  case (2 s a it s' k)
  then show ?case
    using storage_additem_correct(3) [OF 2(3)] put_item_correct(2) [OF _ _ 2(2)]
    by (fastforce simp: with_storage_ok_def storage_caps)
next
  case (3 s it a r s')
  then show ?case using storage_additem_correct(2) [OF 3(1)] by simp
next
  case (4 s it a s')
  then show ?case
    using storage_additem_correct(3) [OF 4] by (auto simp: put_item_def split: if_splits)
qed

interpretation guild_storage_sink:
  item_sink "\<lambda>s. storage_items (snd s)" "guild_storage_additem env" "with_guild_storage_ok env" for env
proof (unfold_locales, goal_cases)
  case (1 s a it r s')
  note add = guild_storage_additem_correct [OF 1(3)]
  show ?case
  proof (cases "r = 0")
    case True
    then show ?thesis
      using add(3) put_item_correct(1) [OF _ _ 1(2)] 1(1) session_ok_cong [OF add(1)]
      by (fastforce simp: with_guild_storage_ok_def storage_caps)
  qed (use add 1 in auto)
next
  case (2 s a it s' k)
  then show ?case
    using guild_storage_additem_correct(3) [OF 2(3)] put_item_correct(2) [OF _ _ 2(2)]
    by (fastforce simp: with_guild_storage_ok_def storage_caps)
next
  case (3 s it a r s')
  then show ?case using guild_storage_additem_correct(2) [OF 3(1)] by simp
next
  case (4 s it a s')
  then show ?case
    using guild_storage_additem_correct(3) [OF 4] by (auto simp: put_item_def split: if_splits)
qed

lemma storage_del_step:
  assumes ok: "with_storage_ok env s" and n: "n < length (storage_items (snd s))"
    and it: "nameid (storage_items (snd s) ! n) \<noteq> 0" "0 < amt"
      "amt \<le> amount (storage_items (snd s) ! n)"
  defines "s' \<equiv> snd (storage_delitem s n amt)"
  shows "with_storage_ok env s' \<and>
    storage_items (snd s') = drop_pieces n amt (storage_items (snd s))"
proof -
  have stor: "storage_ok MAX_STORAGE (snd s)" and "length (storage_items (snd s)) = MAX_STORAGE"
    using ok by (auto simp: with_storage_ok_def storage_ok_def)
  then have cap: "MAX_STORAGE \<le> 32000" "n < MAX_STORAGE" using n by (simp_all add: storage_caps)
  from take_item_correct [OF stor cap it] obtain e stor' where
    t: "take_item (snd s) n amt = Some (e, stor')" "storage_ok MAX_STORAGE stor'"
      "storage_items stor' = drop_pieces n amt (storage_items (snd s))" by blast
  obtain r where run: "storage_delitem s n amt = (r, s')" by (metis s'_def prod.collapse)
  show ?thesis
    using storage_delitem_correct(2) [OF run t(1)] t ok
      session_ok_cong [OF storage_delitem_correct(1) [OF run]] by (simp add: with_storage_ok_def)
qed

lemma guild_storage_del_step:
  assumes ok: "with_guild_storage_ok env s" and n: "n < length (storage_items (snd s))"
    and it: "nameid (storage_items (snd s) ! n) \<noteq> 0" "0 < amt"
      "amt \<le> amount (storage_items (snd s) ! n)"
  defines "s' \<equiv> snd (guild_storage_delitem s n amt)"
  shows "with_guild_storage_ok env s' \<and>
    storage_items (snd s') = drop_pieces n amt (storage_items (snd s))"
proof -
  have stor: "storage_ok MAX_GUILD_STORAGE (snd s)"
    and "length (storage_items (snd s)) = MAX_GUILD_STORAGE"
    using ok by (auto simp: with_guild_storage_ok_def storage_ok_def)
  then have cap: "MAX_GUILD_STORAGE \<le> 32000" "n < MAX_GUILD_STORAGE"
    using n by (simp_all add: storage_caps)
  from take_item_correct [OF stor cap it] obtain e stor' where
    t: "take_item (snd s) n amt = Some (e, stor')" "storage_ok MAX_GUILD_STORAGE stor'"
      "storage_items stor' = drop_pieces n amt (storage_items (snd s))" by blast
  obtain r where run: "guild_storage_delitem s n amt = (r, s')" by (metis s'_def prod.collapse)
  show ?thesis
    using guild_storage_delitem_correct(2) [OF run t(1)] t ok
      session_ok_cong [OF guild_storage_delitem_correct(1) [OF run]]
    by (simp add: with_guild_storage_ok_def storage_ok_def)
qed

interpretation storage_source: item_source "\<lambda>s. storage_items (snd s)"
  "\<lambda>s n amt. snd (storage_delitem s n amt)" "with_storage_ok env" for env
proof (unfold_locales, goal_cases)
  case (1 s it)
  then show ?case by (auto simp: with_storage_ok_def storage_ok_def)
next
  case (2 s n a)
  then show ?case using storage_del_step [OF 2] by blast
next
  case (3 s n a k)
  have "\<forall>it \<in> set (storage_items (snd s)). slot_ok it"
    using 3(1) by (simp add: with_storage_ok_def storage_ok_def)
  then show ?case
    using storage_del_step [OF 3] drop_pieces_correct(2) [OF 3(2) _ 3(3-5)] by simp
qed

interpretation guild_storage_source: item_source "\<lambda>s. storage_items (snd s)"
  "\<lambda>s n amt. snd (guild_storage_delitem s n amt)" "with_guild_storage_ok env" for env
proof (unfold_locales, goal_cases)
  case (1 s it)
  then show ?case by (auto simp: with_guild_storage_ok_def storage_ok_def)
next
  case (2 s n a)
  then show ?case using guild_storage_del_step [OF 2] by blast
next
  case (3 s n a k)
  have "\<forall>it \<in> set (storage_items (snd s)). slot_ok it"
    using 3(1) by (simp add: with_guild_storage_ok_def storage_ok_def)
  then show ?case
    using guild_storage_del_step [OF 3] drop_pieces_correct(2) [OF 3(2) _ 3(3-5)] by simp
qed

text \<open>The session's own containers as containers of the pair.\<close>

definition on_session :: "(session \<Rightarrow> item \<Rightarrow> int \<Rightarrow> int \<times> session) \<Rightarrow> session \<times> 'a \<Rightarrow> item \<Rightarrow> int \<Rightarrow>
    int \<times> session \<times> 'a" where
  "on_session add s it a = (fst (add (fst s) it a), snd (add (fst s) it a), snd s)"

definition on_session_del :: "(session \<Rightarrow> nat \<Rightarrow> int \<Rightarrow> session) \<Rightarrow> session \<times> 'a \<Rightarrow> nat \<Rightarrow> int \<Rightarrow>
    session \<times> 'a" where
  "on_session_del del s n a = (del (fst s) n a, snd s)"

lemma with_storage_ok_eq:
  "with_storage_ok env = (\<lambda>s. session_ok env (fst s) \<and> storage_ok MAX_STORAGE (snd s))"
  "with_guild_storage_ok env = (\<lambda>s. session_ok env (fst s) \<and> storage_ok MAX_GUILD_STORAGE (snd s))"
  by (simp_all add: fun_eq_iff with_storage_ok_def with_guild_storage_ok_def)

lemma session_containers:
  "item_source (\<lambda>s. inventory (fst s)) (on_session_del (\<lambda>sd n a. pc_delitem env sd n a type))
    (\<lambda>s. session_ok env (fst s) \<and> P (snd s))"
  "item_source (\<lambda>s. cart (fst s)) (on_session_del (\<lambda>sd n a. pc_cart_delitem env sd n a type))
    (\<lambda>s. session_ok env (fst s) \<and> P (snd s))"
  "item_sink (\<lambda>s. inventory (fst s)) (on_session (pc_additem env))
    (\<lambda>s. session_ok env (fst s) \<and> P (snd s))"
  "item_sink (\<lambda>s. cart (fst s)) (on_session (pc_cart_additem env))
    (\<lambda>s. session_ok env (fst s) \<and> P (snd s))"
  unfolding on_session_def [abs_def] on_session_del_def [abs_def]
  by (rule inventory_source.on_fst cart_source.on_fst inventory_sink.on_fst cart_sink.on_fst)+

lemma on_session_snd: "on_session f s it a = (r, sd, stor) \<Longrightarrow> stor = snd s"
  by (simp add: on_session_def)

lemma on_session_frame:
  assumes "session_ok env (fst s)"
  shows "on_session (pc_additem env) s it a = (r, s') \<Longrightarrow> snd s' = snd s \<and> cart (fst s') = cart (fst s)"
    and "on_session (pc_cart_additem env) s it a = (r, s') \<Longrightarrow>
      snd s' = snd s \<and> inventory (fst s') = inventory (fst s)"
proof -
  assume "on_session (pc_additem env) s it a = (r, s')"
  then have "pc_additem env (fst s) it a = (r, fst s')" "snd s' = snd s"
    by (auto simp: on_session_def)
  then show "snd s' = snd s \<and> cart (fst s') = cart (fst s)"
    using cart_pc_additem [OF assms] by blast
next
  assume "on_session (pc_cart_additem env) s it a = (r, s')"
  then have "pc_cart_additem env (fst s) it a = (r, fst s')" "snd s' = snd s"
    by (auto simp: on_session_def)
  then show "snd s' = snd s \<and> inventory (fst s') = inventory (fst s)"
    using inventory_pc_cart_additem [OF assms] by blast
qed

lemma storage_add_frame:
  assumes "storage_additem env s it a = (r, s')"
  shows "inventory (fst s') = inventory (fst s)" "cart (fst s') = cart (fst s)"
  using belongings_eq [OF storage_additem_correct(1) [OF assms]] by simp_all

lemma guild_storage_add_frame:
  assumes "guild_storage_additem env s it a = (r, s')"
  shows "inventory (fst s') = inventory (fst s)" "cart (fst s') = cart (fst s)"
  using belongings_eq [OF guild_storage_additem_correct(1) [OF assms]] by simp_all

lemma storage_del_frame:
  "inventory (fst (snd (storage_delitem s n a))) = inventory (fst s)"
  "cart (fst (snd (storage_delitem s n a))) = cart (fst s)"
  "inventory (fst (snd (guild_storage_delitem t n a))) = inventory (fst t)"
  "cart (fst (snd (guild_storage_delitem t n a))) = cart (fst t)"
  by (simp_all add: storage_delitem_def guild_storage_delitem_def Let_def split: option.splits)

lemma moves_into_storage:
  "item_move (\<lambda>s. inventory (fst s)) (on_session_del (\<lambda>sd n a. pc_delitem env sd n a 0))
    (\<lambda>s. storage_items (snd s)) (storage_additem env) (with_storage_ok env)"
  "item_move (\<lambda>s. cart (fst s)) (on_session_del (\<lambda>sd n a. pc_cart_delitem env sd n a 0))
    (\<lambda>s. storage_items (snd s)) (storage_additem env) (with_storage_ok env)"
  "item_move (\<lambda>s. inventory (fst s)) (on_session_del (\<lambda>sd n a. pc_delitem env sd n a 0))
    (\<lambda>s. storage_items (snd s)) (guild_storage_additem env) (with_guild_storage_ok env)"
  "item_move (\<lambda>s. cart (fst s)) (on_session_del (\<lambda>sd n a. pc_cart_delitem env sd n a 0))
    (\<lambda>s. storage_items (snd s)) (guild_storage_additem env) (with_guild_storage_ok env)"
  unfolding item_move_def item_move_axioms_def
  using session_containers(1,2) [of env 0] storage_sink.item_sink_axioms [of env]
    guild_storage_sink.item_sink_axioms [of env]
  by (auto simp: with_storage_ok_eq storage_add_frame guild_storage_add_frame on_session_del_def [symmetric])
   (auto simp: on_session_del_def)

lemma moves_out_of_storage:
  "item_move (\<lambda>s. storage_items (snd s)) (\<lambda>s n a. snd (storage_delitem s n a))
    (\<lambda>s. inventory (fst s)) (on_session (pc_additem env)) (with_storage_ok env)"
  "item_move (\<lambda>s. storage_items (snd s)) (\<lambda>s n a. snd (storage_delitem s n a))
    (\<lambda>s. cart (fst s)) (on_session (pc_cart_additem env)) (with_storage_ok env)"
  "item_move (\<lambda>s. storage_items (snd s)) (\<lambda>s n a. snd (guild_storage_delitem s n a))
    (\<lambda>s. inventory (fst s)) (on_session (pc_additem env)) (with_guild_storage_ok env)"
  "item_move (\<lambda>s. storage_items (snd s)) (\<lambda>s n a. snd (guild_storage_delitem s n a))
    (\<lambda>s. cart (fst s)) (on_session (pc_cart_additem env)) (with_guild_storage_ok env)"
  unfolding item_move_def item_move_axioms_def
  using session_containers(3,4) [of env] storage_source.item_source_axioms [of env]
    guild_storage_source.item_source_axioms [of env]
  by (auto simp: with_storage_ok_eq storage_del_frame dest: on_session_snd)

interpretation inventory_to_storage: item_move "\<lambda>s. inventory (fst s)"
  "on_session_del (\<lambda>sd n a. pc_delitem env sd n a 0)" "\<lambda>s. storage_items (snd s)"
  "storage_additem env" "with_storage_ok env" for env
  by (rule moves_into_storage)

interpretation cart_to_storage: item_move "\<lambda>s. cart (fst s)"
  "on_session_del (\<lambda>sd n a. pc_cart_delitem env sd n a 0)" "\<lambda>s. storage_items (snd s)"
  "storage_additem env" "with_storage_ok env" for env
  by (rule moves_into_storage)

interpretation inventory_to_guild_storage: item_move "\<lambda>s. inventory (fst s)"
  "on_session_del (\<lambda>sd n a. pc_delitem env sd n a 0)" "\<lambda>s. storage_items (snd s)"
  "guild_storage_additem env" "with_guild_storage_ok env" for env
  by (rule moves_into_storage)

interpretation cart_to_guild_storage: item_move "\<lambda>s. cart (fst s)"
  "on_session_del (\<lambda>sd n a. pc_cart_delitem env sd n a 0)" "\<lambda>s. storage_items (snd s)"
  "guild_storage_additem env" "with_guild_storage_ok env" for env
  by (rule moves_into_storage)

interpretation storage_to_inventory: item_move "\<lambda>s. storage_items (snd s)"
  "\<lambda>s n a. snd (storage_delitem s n a)" "\<lambda>s. inventory (fst s)"
  "on_session (pc_additem env)" "with_storage_ok env" for env
  by (rule moves_out_of_storage)

interpretation storage_to_cart: item_move "\<lambda>s. storage_items (snd s)"
  "\<lambda>s n a. snd (storage_delitem s n a)" "\<lambda>s. cart (fst s)"
  "on_session (pc_cart_additem env)" "with_storage_ok env" for env
  by (rule moves_out_of_storage)

interpretation guild_storage_to_inventory: item_move "\<lambda>s. storage_items (snd s)"
  "\<lambda>s n a. snd (guild_storage_delitem s n a)" "\<lambda>s. inventory (fst s)"
  "on_session (pc_additem env)" "with_guild_storage_ok env" for env
  by (rule moves_out_of_storage)

interpretation guild_storage_to_cart: item_move "\<lambda>s. storage_items (snd s)"
  "\<lambda>s n a. snd (guild_storage_delitem s n a)" "\<lambda>s. cart (fst s)"
  "on_session (pc_cart_additem env)" "with_guild_storage_ok env" for env
  by (rule moves_out_of_storage)

section \<open>Sorting\<close>

lemma mset_insert_item: "mset (insert_item c x xs) = add_mset x (mset xs)"
  by (induction xs) auto

lemma mset_qsort: "mset (qsort c xs) = mset xs"
  unfolding qsort_def by (induction xs) (auto simp: mset_insert_item)

lemma stock_mset: "mset xs = mset ys \<Longrightarrow> stock k xs = stock k ys"
  unfolding stock_def by (metis mset_map sum_mset_sum_list)

lemma used_mset: "mset xs = mset ys \<Longrightarrow> used xs = used ys"
  unfolding used_def by (metis mset_filter size_mset)

lemma sortage_sortitem_ok:
  "storage_ok cap stor \<Longrightarrow> storage_ok cap (sortage_sortitem stor)"
  "stock k (storage_items (sortage_sortitem stor)) = stock k (storage_items stor)"
  using stock_mset [OF mset_qsort] used_mset [OF mset_qsort] mset_qsort [THEN mset_eq_length]
    mset_qsort [THEN mset_eq_setD]
  by (simp_all add: storage_ok_def sortage_sortitem_def)

text \<open>In a sorted storage the empty slots come last and the others are ordered by item id.\<close>

definition before_item :: "item \<Rightarrow> item \<Rightarrow> bool" where
  "before_item a b \<longleftrightarrow> nameid b = 0 \<or> (nameid a \<noteq> 0 \<and> nameid a \<le> nameid b)"

lemma comp_item_before:
  assumes "slot_ok a" "slot_ok b"
  shows "storage_comp_item a b \<le> 0 \<longleftrightarrow> before_item a b"
  using assms by (auto simp: storage_comp_item_def before_item_def slot_ok_def)

lemma insert_item_sorted:
  assumes "slot_ok x" "\<forall>y \<in> set ys. slot_ok y" "sorted_wrt before_item ys"
  shows "sorted_wrt before_item (insert_item storage_comp_item x ys)"
  using assms(2,3)
proof (induction ys)
  case (Cons y ys)
  have set: "set (insert_item storage_comp_item x ys) = insert x (set ys)"
    using mset_insert_item [of storage_comp_item x ys] by (metis set_mset_add_mset_insert set_mset_mset)
  show ?case
    using Cons comp_item_before [OF assms(1), of y] assms(1)
    by (auto simp: set before_item_def)
qed simp

lemma qsort_sorted:
  "\<forall>y \<in> set xs. slot_ok y \<Longrightarrow> sorted_wrt before_item (qsort storage_comp_item xs)"
proof (induction xs)
  case (Cons x xs)
  have "set (qsort storage_comp_item xs) = set xs" using mset_qsort by (metis set_mset_mset)
  then show ?case using Cons insert_item_sorted [of x "qsort storage_comp_item xs"]
    by (simp add: qsort_def)
qed (simp add: qsort_def)

section \<open>What a step conserves\<close>

definition mapserv_ok :: "mapserv \<Rightarrow> bool" where
  "mapserv_ok ms \<longleftrightarrow>
     (\<forall>a stor. storage_db ms a = Some stor \<longrightarrow> storage_ok MAX_STORAGE stor) \<and>
     (\<forall>g stor. guild_storage_db ms g = Some stor \<longrightarrow> storage_ok MAX_GUILD_STORAGE stor)"

definition opt_stock :: "kind \<Rightarrow> 'a storage_scheme option \<Rightarrow> int" where
  "opt_stock k s = (case s of None \<Rightarrow> 0 | Some stor \<Rightarrow> stock k (storage_items stor))"

text \<open>All pieces a player can reach: inventory, cart, own storage and the guild's storage.\<close>

definition reachable_stock :: "kind \<Rightarrow> session \<times> mapserv \<Rightarrow> int" where
  "reachable_stock k s = stock k (inventory (fst s)) + stock k (cart (fst s)) +
     opt_stock k (storage_db (snd s) (account_id (fst s))) +
     opt_stock k (guild_storage_db (snd s) (guild_id (fst s)))"

definition conserved :: "env \<Rightarrow> session \<times> mapserv \<Rightarrow> session \<times> mapserv \<Rightarrow> bool" where
  "conserved env s s' \<longleftrightarrow> session_ok env (fst s') \<and> mapserv_ok (snd s') \<and>
     dealings (fst s') = dealings (fst s) \<and> (\<forall>k. reachable_stock k s' = reachable_stock k s) \<and>
     (\<forall>a. a \<noteq> account_id (fst s) \<longrightarrow> storage_db (snd s') a = storage_db (snd s) a) \<and>
     (\<forall>g. g \<noteq> guild_id (fst s) \<longrightarrow> guild_storage_db (snd s') g = guild_storage_db (snd s) g)"

lemma conserved_refl:
  "session_ok env (fst s) \<Longrightarrow> mapserv_ok (snd s) \<Longrightarrow> conserved env s s"
  by (simp add: conserved_def)

lemma conserved_trans: "conserved env s s' \<Longrightarrow> conserved env s' s'' \<Longrightarrow> conserved env s s''"
  by (simp add: conserved_def) (metis dealings_eq(1,7))

lemma new_storage_ok:
  "storage_ok MAX_STORAGE (new_storage a)" "storage_ok MAX_GUILD_STORAGE (new_guild_storage g)"
  "stock k (storage_items (new_storage a)) = 0" "stock k (storage_items (new_guild_storage g)) = 0"
  by (simp_all add: storage_ok_def new_storage_def new_guild_storage_def used_def stock_def
      sum_list_replicate)

lemma account2storage_ok:
  assumes "mapserv_ok ms" "account2storage ms a = (stor, ms1)"
  shows "storage_ok MAX_STORAGE stor" "mapserv_ok ms1" "storage_db ms1 a = Some stor"
    "opt_stock k (storage_db ms a) = stock k (storage_items stor)"
    "\<And>b. b \<noteq> a \<Longrightarrow> storage_db ms1 b = storage_db ms b" "guild_storage_db ms1 = guild_storage_db ms"
  using assms
  by (auto simp: account2storage_def mapserv_ok_def opt_stock_def new_storage_ok
      split: option.splits if_splits)

lemma guild2storage_ok:
  assumes "mapserv_ok ms" "guild2storage ms g = (Some stor, ms1)"
  shows "storage_ok MAX_GUILD_STORAGE stor" "mapserv_ok ms1" "guild_storage_db ms1 g = Some stor"
    "opt_stock k (guild_storage_db ms g) = stock k (storage_items stor)"
    "\<And>b. b \<noteq> g \<Longrightarrow> guild_storage_db ms1 b = guild_storage_db ms b" "storage_db ms1 = storage_db ms"
  using assms
  by (auto simp: guild2storage_def mapserv_ok_def opt_stock_def new_storage_ok
      split: option.splits if_splits)

lemma guild2storage_none: "guild2storage ms g = (None, ms1) \<Longrightarrow> ms1 = ms"
  by (auto simp: guild2storage_def split: option.splits if_splits)

lemma put_storage_ok:
  "mapserv_ok ms \<Longrightarrow> storage_ok MAX_STORAGE stor \<Longrightarrow> mapserv_ok (put_storage stor ms a)"
  "mapserv_ok ms \<Longrightarrow> storage_ok MAX_GUILD_STORAGE gstor \<Longrightarrow> mapserv_ok (put_guild_storage gstor ms g)"
  by (auto simp: mapserv_ok_def put_storage_def put_guild_storage_def)

lemma put_storage_frame [simp]:
  "storage_db (put_storage stor ms a) = (storage_db ms)(a \<mapsto> stor)"
  "guild_storage_db (put_storage stor ms a) = guild_storage_db ms"
  "storage_db (put_guild_storage gstor ms g) = storage_db ms"
  "guild_storage_db (put_guild_storage gstor ms g) = (guild_storage_db ms)(g \<mapsto> gstor)"
  by (simp_all add: put_storage_def put_guild_storage_def)

lemma opt_stock_Some [simp]: "opt_stock k (Some stor) = stock k (storage_items stor)"
  by (simp add: opt_stock_def)

lemma conserved_storage:
  assumes ok: "mapserv_ok ms" "account2storage ms (account_id sd) = (stor, ms1)"
    and new: "with_storage_ok env (sd2, stor2)" "dealings sd2 = dealings sd"
    and sum: "\<And>k. stock k (inventory sd2) + stock k (cart sd2) + stock k (storage_items stor2) =
      stock k (inventory sd) + stock k (cart sd) + stock k (storage_items stor)"
  shows "conserved env (sd, ms) (sd2, put_storage stor2 ms1 (account_id sd))"
    and "storage_items stor2 = storage_items stor \<Longrightarrow> conserved env (sd, ms) (sd2, ms1)"
proof -
  note a = account2storage_ok [OF ok] and d = dealings_eq [OF new(2)]
  have s2: "session_ok env sd2" "storage_ok MAX_STORAGE stor2"
    using new(1) by (simp_all add: with_storage_ok_def)
  have "reachable_stock k (sd2, put_storage stor2 ms1 (account_id sd)) = reachable_stock k (sd, ms)"
    for k
    using sum [of k] a(4) [of k] by (simp add: reachable_stock_def d a(6))
  then show "conserved env (sd, ms) (sd2, put_storage stor2 ms1 (account_id sd))"
    using s2 new(2) put_storage_ok(1) [OF a(2) s2(2)] a(5,6) by (simp add: conserved_def)
  assume "storage_items stor2 = storage_items stor"
  then have "reachable_stock k (sd2, ms1) = reachable_stock k (sd, ms)" for k
    using sum [of k] a(4) [of k] by (simp add: reachable_stock_def d a(3,6))
  then show "conserved env (sd, ms) (sd2, ms1)"
    using s2 new(2) a(2,5,6) by (simp add: conserved_def)
qed

lemma conserved_guild_storage:
  assumes ok: "mapserv_ok ms" "guild2storage ms (guild_id sd) = (Some stor, ms1)"
    and new: "with_guild_storage_ok env (sd2, stor2)" "dealings sd2 = dealings sd"
    and sum: "\<And>k. stock k (inventory sd2) + stock k (cart sd2) + stock k (storage_items stor2) =
      stock k (inventory sd) + stock k (cart sd) + stock k (storage_items stor)"
  shows "conserved env (sd, ms) (sd2, put_guild_storage stor2 ms1 (guild_id sd))"
    and "storage_items stor2 = storage_items stor \<Longrightarrow> conserved env (sd, ms) (sd2, ms1)"
proof -
  note a = guild2storage_ok [OF ok] and d = dealings_eq [OF new(2)]
  have s2: "session_ok env sd2" "storage_ok MAX_GUILD_STORAGE stor2"
    using new(1) by (simp_all add: with_guild_storage_ok_def)
  have "reachable_stock k (sd2, put_guild_storage stor2 ms1 (guild_id sd)) = reachable_stock k (sd, ms)"
    for k
    using sum [of k] a(4) [of k] by (simp add: reachable_stock_def d a(6))
  then show "conserved env (sd, ms) (sd2, put_guild_storage stor2 ms1 (guild_id sd))"
    using s2 new(2) put_storage_ok(2) [OF a(2) s2(2)] a(5,6) by (simp add: conserved_def)
  assume "storage_items stor2 = storage_items stor"
  then have "reachable_stock k (sd2, ms1) = reachable_stock k (sd, ms)" for k
    using sum [of k] a(4) [of k] by (simp add: reachable_stock_def d a(3,6))
  then show "conserved env (sd, ms) (sd2, ms1)"
    using s2 new(2) a(2,5,6) by (simp add: conserved_def)
qed

section \<open>The handlers conserve\<close>

lemma storage_additem_keeps:
  "belongings (fst (snd (storage_additem env s it a))) = belongings (fst s)"
  "belongings (fst (snd (guild_storage_additem env t it a))) = belongings (fst t)"
  using storage_additem_correct(1) guild_storage_additem_correct(1) by (metis prod.collapse)+

lemma storage_delitem_keeps:
  "belongings (fst (snd (storage_delitem s n a))) = belongings (fst s)"
  "belongings (fst (snd (guild_storage_delitem t n a))) = belongings (fst t)"
  using storage_delitem_correct(1) guild_storage_delitem_correct(1) by (metis prod.collapse)+

text \<open>What the four kinds of transfers leave alone on the side of the session.\<close>

definition cart_part :: "session \<times> 'a \<Rightarrow> _" where
  "cart_part s = (cart (fst s), dealings (fst s))"

definition inventory_part :: "session \<times> 'a \<Rightarrow> _" where
  "inventory_part s = (inventory (fst s), dealings (fst s))"

lemma cart_part_keeps:
  "session_ok env (fst s) \<Longrightarrow> cart_part (snd (on_session (pc_additem env) s it a)) = cart_part s"
  "session_ok env (fst s) \<Longrightarrow> n < MAX_INVENTORY \<Longrightarrow>
    cart_part (on_session_del (\<lambda>sd n a. pc_delitem env sd n a 0) s n a) = cart_part s"
  "cart_part (snd (storage_additem env t it a)) = cart_part t"
  "cart_part (snd (guild_storage_additem env u it a)) = cart_part u"
  "cart_part (snd (storage_delitem t n a)) = cart_part t"
  "cart_part (snd (guild_storage_delitem u n a)) = cart_part u"
  using belongings_eq(3) [OF storage_additem_keeps(1)] dealings_belongings [OF storage_additem_keeps(1)]
    belongings_eq(3) [OF storage_additem_keeps(2)] dealings_belongings [OF storage_additem_keeps(2)]
    belongings_eq(3) [OF storage_delitem_keeps(1)] dealings_belongings [OF storage_delitem_keeps(1)]
    belongings_eq(3) [OF storage_delitem_keeps(2)] dealings_belongings [OF storage_delitem_keeps(2)]
  by (simp_all add: cart_part_def on_session_def on_session_del_def dealings_additem dealings_delitem
      cart_pc_delitem cart_pc_additem [OF _ prod.collapse [symmetric]])

lemma inventory_part_keeps:
  "session_ok env (fst s) \<Longrightarrow>
    inventory_part (snd (on_session (pc_cart_additem env) s it a)) = inventory_part s"
  "inventory_part (on_session_del (\<lambda>sd n a. pc_cart_delitem env sd n a 0) s n a) = inventory_part s"
  "inventory_part (snd (storage_additem env t it a)) = inventory_part t"
  "inventory_part (snd (guild_storage_additem env u it a)) = inventory_part u"
  "inventory_part (snd (storage_delitem t n a)) = inventory_part t"
  "inventory_part (snd (guild_storage_delitem u n a)) = inventory_part u"
  using belongings_eq(1) [OF storage_additem_keeps(1)] dealings_belongings [OF storage_additem_keeps(1)]
    belongings_eq(1) [OF storage_additem_keeps(2)] dealings_belongings [OF storage_additem_keeps(2)]
    belongings_eq(1) [OF storage_delitem_keeps(1)] dealings_belongings [OF storage_delitem_keeps(1)]
    belongings_eq(1) [OF storage_delitem_keeps(2)] dealings_belongings [OF storage_delitem_keeps(2)]
  by (simp_all add: inventory_part_def on_session_def on_session_del_def dealings_additem
      inventory_pc_cart_delitem inventory_pc_cart_additem [OF _ prod.collapse [symmetric]])

lemma storage_storageadd_conserves:
  assumes ok: "session_ok env sd" "mapserv_ok ms"
    and idx: "0 \<le> idx" "idx < int MAX_INVENTORY" "amt \<le> amount (inventory sd ! nat idx)"
  shows "conserved env (sd, ms) (storage_storageadd env (sd, ms) idx amt)"
proof -
  obtain stor ms1 where fetch: "account2storage ms (account_id sd) = (stor, ms1)" by force
  note a = account2storage_ok [OF ok(2) fetch]
  have good: "with_storage_ok env (sd, stor)" using ok a(1) by (simp add: with_storage_ok_def)
  have idle: "conserved env (sd, ms) (sd, ms1)"
    by (rule conserved_storage(2) [OF ok(2) fetch good]) simp_all
  show ?thesis
  proof -
    have n: "nat idx < length (inventory (fst (sd, stor)))" "amt \<le> amount (inventory (fst (sd, stor)) ! nat idx)"
      using idx session_ok_slots(1) [OF ok(1)] by auto
    obtain r p where run: "inventory_to_storage.transfer env (sd, stor) (nat idx) amt = (r, p)"
      by (rule prod.exhaust)
    note moved = inventory_to_storage.transfer_correct [OF good n run]
    have "cart_part (snd (inventory_to_storage.transfer env (sd, stor) (nat idx) amt)) = cart_part (sd, stor)"
      using n by (intro inventory_to_storage.transfer_keeps [OF good])
        (auto simp: cart_part_keeps with_storage_ok_def session_ok_slots(1))
    then have rest: "cart (fst p) = cart sd" "dealings (fst p) = dealings sd"
      by (simp_all add: run cart_part_def)
    have stored: "conserved env (sd, ms) (fst p, put_storage (snd p) ms1 (account_id sd))"
      using moved(1,2) rest by (intro conserved_storage(1) [OF ok(2) fetch]) (auto simp: algebra_simps)
    show ?thesis
      using run idle stored
      by (auto simp: storage_storageadd_def Let_def fetch inventory_to_storage.transfer_def on_session_del_def
          split: prod.splits if_splits)
  qed
qed

lemma storage_storageaddfromcart_conserves:
  assumes ok: "session_ok env sd" "mapserv_ok ms"
  shows "conserved env (sd, ms) (storage_storageaddfromcart env (sd, ms) idx amt)"
proof -
  obtain stor ms1 where fetch: "account2storage ms (account_id sd) = (stor, ms1)" by force
  note a = account2storage_ok [OF ok(2) fetch]
  have good: "with_storage_ok env (sd, stor)" using ok a(1) by (simp add: with_storage_ok_def)
  have idle: "conserved env (sd, ms) (sd, ms1)"
    by (rule conserved_storage(2) [OF ok(2) fetch good]) simp_all
  show ?thesis
  proof (cases "0 \<le> idx \<and> idx < int MAX_CART \<and> amt \<le> amount (cart sd ! nat idx)")
    case False
    then show ?thesis using idle by (auto simp: storage_storageaddfromcart_def Let_def fetch)
  next
    case True
    have n: "nat idx < length (cart (fst (sd, stor)))" "amt \<le> amount (cart (fst (sd, stor)) ! nat idx)"
      using True session_ok_slots(2) [OF ok(1)] by auto
    obtain r p where run: "cart_to_storage.transfer env (sd, stor) (nat idx) amt = (r, p)"
      by (rule prod.exhaust)
    note moved = cart_to_storage.transfer_correct [OF good n run]
    have "inventory_part (snd (cart_to_storage.transfer env (sd, stor) (nat idx) amt)) = inventory_part (sd, stor)"
      using n by (intro cart_to_storage.transfer_keeps [OF good])
        (auto simp: inventory_part_keeps with_storage_ok_def session_ok_slots(2))
    then have rest: "inventory (fst p) = inventory sd" "dealings (fst p) = dealings sd"
      by (simp_all add: run inventory_part_def)
    have stored: "conserved env (sd, ms) (fst p, put_storage (snd p) ms1 (account_id sd))"
      using moved(1,2) rest by (intro conserved_storage(1) [OF ok(2) fetch]) (auto simp: algebra_simps)
    show ?thesis
      using run idle stored
      by (auto simp: storage_storageaddfromcart_def Let_def fetch cart_to_storage.transfer_def on_session_del_def
          split: prod.splits if_splits)
  qed
qed

lemma storage_storageget_conserves:
  assumes ok: "session_ok env sd" "mapserv_ok ms"
    and idx: "0 \<le> idx" "idx < int MAX_STORAGE"
  shows "conserved env (sd, ms) (storage_storageget env (sd, ms) idx amt)"
proof -
  obtain stor ms1 where fetch: "account2storage ms (account_id sd) = (stor, ms1)" by force
  note a = account2storage_ok [OF ok(2) fetch]
  have good: "with_storage_ok env (sd, stor)" using ok a(1) by (simp add: with_storage_ok_def)
  have idle: "conserved env (sd, ms) (sd, ms1)"
    by (rule conserved_storage(2) [OF ok(2) fetch good]) simp_all
  show ?thesis
  proof (cases "amt \<le> amount (storage_items stor ! nat idx)")
    case False
    then show ?thesis using idle by (auto simp: storage_storageget_def Let_def fetch)
  next
    case True
    have n: "nat idx < length (storage_items (snd (sd, stor)))" "amt \<le> amount (storage_items (snd (sd, stor)) ! nat idx)"
      using True idx a(1) by (auto simp: storage_ok_def)
    obtain r p where run: "storage_to_inventory.transfer env (sd, stor) (nat idx) amt = (r, p)"
      by (rule prod.exhaust)
    note moved = storage_to_inventory.transfer_correct [OF good n run]
    have "cart_part (snd (storage_to_inventory.transfer env (sd, stor) (nat idx) amt)) = cart_part (sd, stor)"
      using n by (intro storage_to_inventory.transfer_keeps [OF good])
        (auto simp: cart_part_keeps with_storage_ok_def storage_ok_def)
    then have rest: "cart (fst p) = cart sd" "dealings (fst p) = dealings sd"
      by (simp_all add: run cart_part_def)
    have stored: "conserved env (sd, ms) (fst p, put_storage (snd p) ms1 (account_id sd))"
      using moved(1,2) rest by (intro conserved_storage(1) [OF ok(2) fetch]) (auto simp: algebra_simps)
    have kept: "conserved env (sd, ms) (q, ms1)" if "r \<noteq> 0" "belongings q = belongings (fst p)" for q
      using moved(1) moved(4) [OF that(1)] rest that(2)
      by (intro conserved_storage(2) [OF ok(2) fetch, of env q "snd p"])
        (auto simp: with_storage_ok_def session_ok_cong [OF that(2)] belongings_eq [OF that(2)]
          dealings_belongings [OF that(2)])
    show ?thesis
      using run idle stored kept [of "send (clif_additem 0 0 r) (fst p)"]
      by (auto simp: storage_storageget_def Let_def fetch storage_to_inventory.transfer_def on_session_def
          split: prod.splits if_splits)
  qed
qed

lemma storage_storagegettocart_conserves:
  assumes ok: "session_ok env sd" "mapserv_ok ms"
  shows "conserved env (sd, ms) (storage_storagegettocart env (sd, ms) idx amt)"
proof -
  obtain stor ms1 where fetch: "account2storage ms (account_id sd) = (stor, ms1)" by force
  note a = account2storage_ok [OF ok(2) fetch]
  have good: "with_storage_ok env (sd, stor)" using ok a(1) by (simp add: with_storage_ok_def)
  have idle: "conserved env (sd, ms) (sd, ms1)"
    by (rule conserved_storage(2) [OF ok(2) fetch good]) simp_all
  show ?thesis
  proof (cases "0 \<le> idx \<and> idx < int MAX_STORAGE \<and> amt \<le> amount (storage_items stor ! nat idx)")
    case False
    then show ?thesis using idle by (auto simp: storage_storagegettocart_def Let_def fetch)
  next
    case True
    have n: "nat idx < length (storage_items (snd (sd, stor)))" "amt \<le> amount (storage_items (snd (sd, stor)) ! nat idx)"
      using True a(1) by (auto simp: storage_ok_def)
    obtain r p where run: "storage_to_cart.transfer env (sd, stor) (nat idx) amt = (r, p)"
      by (rule prod.exhaust)
    note moved = storage_to_cart.transfer_correct [OF good n run]
    have "inventory_part (snd (storage_to_cart.transfer env (sd, stor) (nat idx) amt)) = inventory_part (sd, stor)"
      using n by (intro storage_to_cart.transfer_keeps [OF good])
        (auto simp: inventory_part_keeps with_storage_ok_def storage_ok_def)
    then have rest: "inventory (fst p) = inventory sd" "dealings (fst p) = dealings sd"
      by (simp_all add: run inventory_part_def)
    have stored: "conserved env (sd, ms) (fst p, put_storage (snd p) ms1 (account_id sd))"
      using moved(1,2) rest by (intro conserved_storage(1) [OF ok(2) fetch]) (auto simp: algebra_simps)
    have kept: "conserved env (sd, ms) (q, ms1)" if "r \<noteq> 0" "belongings q = belongings (fst p)" for q
      using moved(1) moved(4) [OF that(1)] rest that(2)
      by (intro conserved_storage(2) [OF ok(2) fetch, of env q "snd p"])
        (auto simp: with_storage_ok_def session_ok_cong [OF that(2)] belongings_eq [OF that(2)]
          dealings_belongings [OF that(2)])
    show ?thesis
      using run idle stored kept [of "fst p"]
      by (auto simp: storage_storagegettocart_def Let_def fetch storage_to_cart.transfer_def on_session_def
          split: prod.splits if_splits)
  qed
qed

lemma storage_guild_storageadd_conserves:
  assumes ok: "session_ok env sd" "mapserv_ok ms"
    and idx: "0 \<le> idx" "idx < int MAX_INVENTORY" "amt \<le> amount (inventory sd ! nat idx)"
  shows "conserved env (sd, ms) (storage_guild_storageadd env (sd, ms) idx amt)"
proof -
  show ?thesis
  proof (cases "guild2storage ms (guild_id sd)")
    case (Pair found ms1)
    show ?thesis
    proof (cases found)
      case None
      then show ?thesis
        using Pair guild2storage_none [of ms "guild_id sd" ms1] conserved_refl [of env "(sd, ms)"] ok
        by (auto simp: storage_guild_storageadd_def)
    next
      case (Some stor)
      note fetch = Pair [unfolded Some]
      note a = guild2storage_ok [OF ok(2) fetch]
      have good: "with_guild_storage_ok env (sd, stor)" using ok a(1) by (simp add: with_guild_storage_ok_def)
      have idle: "conserved env (sd, ms) (sd, ms1)"
        by (rule conserved_guild_storage(2) [OF ok(2) fetch good]) simp_all
      show ?thesis
      proof -
        have n: "nat idx < length (inventory (fst (sd, stor)))" "amt \<le> amount (inventory (fst (sd, stor)) ! nat idx)"
          using idx session_ok_slots(1) [OF ok(1)] by auto
        obtain r p where run: "inventory_to_guild_storage.transfer env (sd, stor) (nat idx) amt = (r, p)"
          by (rule prod.exhaust)
        note moved = inventory_to_guild_storage.transfer_correct [OF good n run]
        have "cart_part (snd (inventory_to_guild_storage.transfer env (sd, stor) (nat idx) amt)) = cart_part (sd, stor)"
          using n by (intro inventory_to_guild_storage.transfer_keeps [OF good])
            (auto simp: cart_part_keeps with_guild_storage_ok_def session_ok_slots(1))
        then have rest: "cart (fst p) = cart sd" "dealings (fst p) = dealings sd"
          by (simp_all add: run cart_part_def)
        have stored: "conserved env (sd, ms) (fst p, put_guild_storage (snd p) ms1 (guild_id sd))"
          using moved(1,2) rest by (intro conserved_guild_storage(1) [OF ok(2) fetch]) (auto simp: algebra_simps)
        show ?thesis
          using run idle stored
          by (auto simp: storage_guild_storageadd_def Let_def fetch inventory_to_guild_storage.transfer_def on_session_del_def
              split: prod.splits if_splits)
      qed
    qed
  qed
qed

lemma storage_guild_storageaddfromcart_conserves:
  assumes ok: "session_ok env sd" "mapserv_ok ms"
  shows "conserved env (sd, ms) (storage_guild_storageaddfromcart env (sd, ms) idx amt)"
proof -
  show ?thesis
  proof (cases "guild2storage ms (guild_id sd)")
    case (Pair found ms1)
    show ?thesis
    proof (cases found)
      case None
      then show ?thesis
        using Pair guild2storage_none [of ms "guild_id sd" ms1] conserved_refl [of env "(sd, ms)"] ok
        by (auto simp: storage_guild_storageaddfromcart_def)
    next
      case (Some stor)
      note fetch = Pair [unfolded Some]
      note a = guild2storage_ok [OF ok(2) fetch]
      have good: "with_guild_storage_ok env (sd, stor)" using ok a(1) by (simp add: with_guild_storage_ok_def)
      have idle: "conserved env (sd, ms) (sd, ms1)"
        by (rule conserved_guild_storage(2) [OF ok(2) fetch good]) simp_all
      show ?thesis
      proof (cases "0 \<le> idx \<and> idx < int MAX_CART \<and> amt \<le> amount (cart sd ! nat idx)")
        case False
        then show ?thesis using idle by (auto simp: storage_guild_storageaddfromcart_def Let_def fetch)
      next
        case True
        have n: "nat idx < length (cart (fst (sd, stor)))" "amt \<le> amount (cart (fst (sd, stor)) ! nat idx)"
          using True session_ok_slots(2) [OF ok(1)] by auto
        obtain r p where run: "cart_to_guild_storage.transfer env (sd, stor) (nat idx) amt = (r, p)"
          by (rule prod.exhaust)
        note moved = cart_to_guild_storage.transfer_correct [OF good n run]
        have "inventory_part (snd (cart_to_guild_storage.transfer env (sd, stor) (nat idx) amt)) = inventory_part (sd, stor)"
          using n by (intro cart_to_guild_storage.transfer_keeps [OF good])
            (auto simp: inventory_part_keeps with_guild_storage_ok_def session_ok_slots(2))
        then have rest: "inventory (fst p) = inventory sd" "dealings (fst p) = dealings sd"
          by (simp_all add: run inventory_part_def)
        have stored: "conserved env (sd, ms) (fst p, put_guild_storage (snd p) ms1 (guild_id sd))"
          using moved(1,2) rest by (intro conserved_guild_storage(1) [OF ok(2) fetch]) (auto simp: algebra_simps)
        show ?thesis
          using run idle stored
          by (auto simp: storage_guild_storageaddfromcart_def Let_def fetch cart_to_guild_storage.transfer_def on_session_del_def
              split: prod.splits if_splits)
      qed
    qed
  qed
qed

lemma storage_guild_storageget_conserves:
  assumes ok: "session_ok env sd" "mapserv_ok ms"
    and idx: "0 \<le> idx" "idx < int MAX_GUILD_STORAGE"
  shows "conserved env (sd, ms) (storage_guild_storageget env (sd, ms) idx amt)"
proof -
  show ?thesis
  proof (cases "guild2storage ms (guild_id sd)")
    case (Pair found ms1)
    show ?thesis
    proof (cases found)
      case None
      then show ?thesis
        using Pair guild2storage_none [of ms "guild_id sd" ms1] conserved_refl [of env "(sd, ms)"] ok
        by (auto simp: storage_guild_storageget_def)
    next
      case (Some stor)
      note fetch = Pair [unfolded Some]
      note a = guild2storage_ok [OF ok(2) fetch]
      have good: "with_guild_storage_ok env (sd, stor)" using ok a(1) by (simp add: with_guild_storage_ok_def)
      have idle: "conserved env (sd, ms) (sd, ms1)"
        by (rule conserved_guild_storage(2) [OF ok(2) fetch good]) simp_all
      show ?thesis
      proof (cases "amt \<le> amount (storage_items stor ! nat idx)")
        case False
        then show ?thesis using idle by (auto simp: storage_guild_storageget_def Let_def fetch)
      next
        case True
        have n: "nat idx < length (storage_items (snd (sd, stor)))" "amt \<le> amount (storage_items (snd (sd, stor)) ! nat idx)"
          using True idx a(1) by (auto simp: storage_ok_def)
        obtain r p where run: "guild_storage_to_inventory.transfer env (sd, stor) (nat idx) amt = (r, p)"
          by (rule prod.exhaust)
        note moved = guild_storage_to_inventory.transfer_correct [OF good n run]
        have "cart_part (snd (guild_storage_to_inventory.transfer env (sd, stor) (nat idx) amt)) = cart_part (sd, stor)"
          using n by (intro guild_storage_to_inventory.transfer_keeps [OF good])
            (auto simp: cart_part_keeps with_guild_storage_ok_def storage_ok_def)
        then have rest: "cart (fst p) = cart sd" "dealings (fst p) = dealings sd"
          by (simp_all add: run cart_part_def)
        have stored: "conserved env (sd, ms) (fst p, put_guild_storage (snd p) ms1 (guild_id sd))"
          using moved(1,2) rest by (intro conserved_guild_storage(1) [OF ok(2) fetch]) (auto simp: algebra_simps)
        have kept: "conserved env (sd, ms) (q, ms1)" if "r \<noteq> 0" "belongings q = belongings (fst p)" for q
          using moved(1) moved(4) [OF that(1)] rest that(2)
          by (intro conserved_guild_storage(2) [OF ok(2) fetch, of env q "snd p"])
            (auto simp: with_guild_storage_ok_def session_ok_cong [OF that(2)] belongings_eq [OF that(2)]
              dealings_belongings [OF that(2)])
        show ?thesis
          using run idle stored kept [of "send (clif_additem 0 0 r) (fst p)"]
          by (auto simp: storage_guild_storageget_def Let_def fetch guild_storage_to_inventory.transfer_def on_session_def
              split: prod.splits if_splits)
      qed
    qed
  qed
qed

lemma storage_guild_storagegettocart_conserves:
  assumes ok: "session_ok env sd" "mapserv_ok ms"
  shows "conserved env (sd, ms) (storage_guild_storagegettocart env (sd, ms) idx amt)"
proof -
  show ?thesis
  proof (cases "guild2storage ms (guild_id sd)")
    case (Pair found ms1)
    show ?thesis
    proof (cases found)
      case None
      then show ?thesis
        using Pair guild2storage_none [of ms "guild_id sd" ms1] conserved_refl [of env "(sd, ms)"] ok
        by (auto simp: storage_guild_storagegettocart_def)
    next
      case (Some stor)
      note fetch = Pair [unfolded Some]
      note a = guild2storage_ok [OF ok(2) fetch]
      have good: "with_guild_storage_ok env (sd, stor)" using ok a(1) by (simp add: with_guild_storage_ok_def)
      have idle: "conserved env (sd, ms) (sd, ms1)"
        by (rule conserved_guild_storage(2) [OF ok(2) fetch good]) simp_all
      show ?thesis
      proof (cases "0 \<le> idx \<and> idx < int MAX_GUILD_STORAGE \<and> amt \<le> amount (storage_items stor ! nat idx)")
        case False
        then show ?thesis using idle by (auto simp: storage_guild_storagegettocart_def Let_def fetch)
      next
        case True
        have n: "nat idx < length (storage_items (snd (sd, stor)))" "amt \<le> amount (storage_items (snd (sd, stor)) ! nat idx)"
          using True a(1) by (auto simp: storage_ok_def)
        obtain r p where run: "guild_storage_to_cart.transfer env (sd, stor) (nat idx) amt = (r, p)"
          by (rule prod.exhaust)
        note moved = guild_storage_to_cart.transfer_correct [OF good n run]
        have "inventory_part (snd (guild_storage_to_cart.transfer env (sd, stor) (nat idx) amt)) = inventory_part (sd, stor)"
          using n by (intro guild_storage_to_cart.transfer_keeps [OF good])
            (auto simp: inventory_part_keeps with_guild_storage_ok_def storage_ok_def)
        then have rest: "inventory (fst p) = inventory sd" "dealings (fst p) = dealings sd"
          by (simp_all add: run inventory_part_def)
        have stored: "conserved env (sd, ms) (fst p, put_guild_storage (snd p) ms1 (guild_id sd))"
          using moved(1,2) rest by (intro conserved_guild_storage(1) [OF ok(2) fetch]) (auto simp: algebra_simps)
        have kept: "conserved env (sd, ms) (q, ms1)" if "r \<noteq> 0" "belongings q = belongings (fst p)" for q
          using moved(1) moved(4) [OF that(1)] rest that(2)
          by (intro conserved_guild_storage(2) [OF ok(2) fetch, of env q "snd p"])
            (auto simp: with_guild_storage_ok_def session_ok_cong [OF that(2)] belongings_eq [OF that(2)]
              dealings_belongings [OF that(2)])
        show ?thesis
          using run idle stored kept [of "fst p"]
          by (auto simp: storage_guild_storagegettocart_def Let_def fetch guild_storage_to_cart.transfer_def on_session_def
              split: prod.splits if_splits)
      qed
    qed
  qed
qed

lemma close_conserves:
  assumes ok: "session_ok env sd" "mapserv_ok ms"
  shows "conserved env (sd, ms) (storage_storageclose (sd, ms))"
    and "conserved env (sd, ms) (storage_guild_storageclose (sd, ms))"
proof -
  obtain stor ms1 where fetch: "account2storage ms (account_id sd) = (stor, ms1)" by force
  have sorted: "storage_ok MAX_STORAGE (sortage_sortitem (stor\<lparr>storage_status := 0\<rparr>))"
    "stock k (storage_items (sortage_sortitem (stor\<lparr>storage_status := 0\<rparr>))) = stock k (storage_items stor)"
    for k
    using sortage_sortitem_ok(1) [of MAX_STORAGE "stor\<lparr>storage_status := 0\<rparr>"]
      sortage_sortitem_ok(2) [of k "stor\<lparr>storage_status := 0\<rparr>"] account2storage_ok(1) [OF ok(2) fetch]
    by (simp_all add: storage_ok_def)
  define sd1 where "sd1 = send chrif_save (send clif_storageclose (sd\<lparr>storage_flag := 0\<rparr>))"
  have b: "belongings sd1 = belongings sd" by (simp add: sd1_def)
  show "conserved env (sd, ms) (storage_storageclose (sd, ms))"
    using conserved_storage(1) [OF ok(2) fetch, of env sd1] sorted ok session_ok_cong [OF b]
      dealings_belongings [OF b] belongings_eq [OF b]
    by (simp add: storage_storageclose_def Let_def fetch with_storage_ok_def sd1_def)
next
  obtain found ms1 where g: "guild2storage ms (guild_id sd) = (found, ms1)" by force
  show "conserved env (sd, ms) (storage_guild_storageclose (sd, ms))"
  proof (cases found)
    case None
    define sd1 where "sd1 = send clif_storageclose sd"
    have b: "belongings sd1 = belongings sd" by (simp add: sd1_def)
    have "conserved env (sd, ms) (sd1, ms)"
      using ok session_ok_cong [OF b] dealings_belongings [OF b] belongings_eq [OF b]
      by (simp add: conserved_def reachable_stock_def)
    then show ?thesis
      using g None guild2storage_none [of ms "guild_id sd" ms1]
      by (simp add: storage_guild_storageclose_def sd1_def)
  next
    case (Some stor)
    note fetch = g [unfolded Some]
    have sorted: "storage_ok MAX_GUILD_STORAGE (sortage_sortitem (stor\<lparr>storage_status := 0\<rparr>))"
      "stock k (storage_items (sortage_sortitem (stor\<lparr>storage_status := 0\<rparr>))) =
        stock k (storage_items stor)" for k
      using sortage_sortitem_ok(1) [of MAX_GUILD_STORAGE "stor\<lparr>storage_status := 0\<rparr>"]
        sortage_sortitem_ok(2) [of k "stor\<lparr>storage_status := 0\<rparr>"] guild2storage_ok(1) [OF ok(2) fetch]
      by (simp_all add: storage_ok_def)
    define sd1 where "sd1 = send clif_storageclose
      (send chrif_save ((send_modified stor sd)\<lparr>storage_flag := 0\<rparr>))"
    have b: "belongings sd1 = belongings sd" by (simp add: sd1_def send_modified_def)
    show ?thesis
      using conserved_guild_storage(1) [OF ok(2) fetch, of env sd1] sorted ok session_ok_cong [OF b]
        dealings_belongings [OF b] belongings_eq [OF b]
      by (simp add: storage_guild_storageclose_def Let_def fetch with_guild_storage_ok_def sd1_def)
  qed
qed

lemma kafra_step_conserves:
  assumes ok: "session_ok env (fst s)" "mapserv_ok (snd s)"
  shows "conserved env s (kafra_step env p s)"
proof -
  obtain sd ms where s: "s = (sd, ms)" by force
  note ok' = ok [unfolded s fst_conv snd_conv]
  note idle = conserved_refl [OF ok]
  show ?thesis
  proof (cases p)
    case (MoveToKafra i a)
    then show ?thesis
      using idle storage_storageadd_conserves [OF ok', of i a]
        storage_guild_storageadd_conserves [OF ok', of i a]
      by (auto simp: clif_parse_MoveToKafra_def Let_def s)
  next
    case (MoveFromKafra i a)
    then show ?thesis
      using idle storage_storageget_conserves [OF ok', of i a]
        storage_guild_storageget_conserves [OF ok', of i a]
      by (auto simp: clif_parse_MoveFromKafra_def Let_def s)
  next
    case (MoveToKafraFromCart i a)
    then show ?thesis
      using idle storage_storageaddfromcart_conserves [OF ok', of i a]
        storage_guild_storageaddfromcart_conserves [OF ok', of i a]
      by (auto simp: clif_parse_MoveToKafraFromCart_def Let_def s)
  next
    case (MoveFromKafraToCart i a)
    then show ?thesis
      using idle storage_storagegettocart_conserves [OF ok', of i a]
        storage_guild_storagegettocart_conserves [OF ok', of i a]
      by (auto simp: clif_parse_MoveFromKafraToCart_def Let_def s)
  next
    case CloseKafra
    then show ?thesis
      using close_conserves [OF ok'] by (auto simp: clif_parse_CloseKafra_def s)
  qed
qed

lemma kafra_run_conserves:
  "session_ok env (fst s) \<Longrightarrow> mapserv_ok (snd s) \<Longrightarrow> conserved env s (fold (kafra_step env) ps s)"
proof (induction ps arbitrary: s)
  case Nil
  then show ?case by (simp add: conserved_refl)
next
  case (Cons p ps)
  note step = kafra_step_conserves [OF Cons.prems, of p]
  then have "session_ok env (fst (kafra_step env p s))" "mapserv_ok (snd (kafra_step env p s))"
    by (simp_all add: conserved_def)
  from conserved_trans [OF step Cons.IH [OF this]] show ?case by simp
qed

section \<open>Properties of the storages\<close>

definition plain_mapserv :: mapserv where
  "plain_mapserv = \<lparr>storage_db = [1 \<mapsto> (new_storage 1)\<lparr>storage_status := 1\<rparr>],
     guild_storage_db = Map.empty, guild_search = (\<lambda>_. False)\<rparr>"

lemma plain_mapserv_ok: "mapserv_ok plain_mapserv"
  using new_storage_ok(1) by (simp add: mapserv_ok_def plain_mapserv_def storage_ok_def)

text \<open>
  C6: whatever sequence of storage packets a client sends, with whatever indices and amounts,
  the session and every storage stay well-formed, the number of pieces of each kind in
  inventory, cart, personal and guild storage together stays the same, and nobody else's
  storage changes.
\<close>

theorem kafra_conserves:
  assumes "session_ok env sd" "mapserv_ok ms"
    and "fold (kafra_step env) ps (sd, ms) = (sd', ms')"
  shows "session_ok env sd' \<and> mapserv_ok ms' \<and>
    reachable_stock k (sd', ms') = reachable_stock k (sd, ms) \<and>
    (a \<noteq> account_id sd \<longrightarrow> storage_db ms' a = storage_db ms a) \<and>
    (g \<noteq> guild_id sd \<longrightarrow> guild_storage_db ms' g = guild_storage_db ms g)"
  using kafra_run_conserves [of env "(sd, ms)" ps] assms
  by (simp add: conserved_def del: split_paired_All)

theorem kafra_conserves_witness:
  "let s = (plain_session 1 500 [stack 512 7] [stack 909 4], plain_mapserv);
       s' = fold (kafra_step plain_env) [MoveToKafra 0 3, MoveToKafraFromCart 0 4,
         MoveFromKafra 1 2, MoveFromKafra 7 1, CloseKafra] s
   in session_ok plain_env (fst s') \<and> mapserv_ok (snd s') \<and>
    reachable_stock (kind_of (stack 512 1)) (fst s', snd s') =
      reachable_stock (kind_of (stack 512 1)) (fst s, plain_mapserv) \<and>
    (2 \<noteq> account_id (fst s) \<longrightarrow> storage_db (snd s') 2 = storage_db plain_mapserv 2) \<and>
    (3 \<noteq> guild_id (fst s) \<longrightarrow> guild_storage_db (snd s') 3 = guild_storage_db plain_mapserv 3)"
  unfolding Let_def fst_conv
  by (rule kafra_conserves [where ps = "[MoveToKafra 0 3, MoveToKafraFromCart 0 4,
      MoveFromKafra 1 2, MoveFromKafra 7 1, CloseKafra]"])
    (simp_all add: plain_session_ok plain_mapserv_ok slot_ok_stack)

text \<open>
  Closing the window sorts the storage: the same items, ordered by item id, the empty
  slots last; and it can be opened again.
\<close>

lemma storageclose_sorts:
  assumes "mapserv_ok ms" "storage_db ms (account_id sd) = Some stor"
  shows "\<exists>stor'. storage_db (snd (storage_storageclose (sd, ms))) (account_id sd) = Some stor' \<and>
    mset (storage_items stor') = mset (storage_items stor) \<and>
    sorted_wrt before_item (storage_items stor') \<and> storage_status stor' = 0 \<and>
    fst (storage_storageopen (storage_storageclose (sd, ms))) = 0"
  using assms qsort_sorted [of "storage_items stor"]
  by (auto simp: storage_storageclose_def account2storage_def Let_def sortage_sortitem_def mset_qsort
      mapserv_ok_def storage_ok_def storage_storageopen_def send_def)

theorem storageclose_sorts_witness:
  "let sd = plain_session 1 500 [] []; stor = (new_storage 1)\<lparr>storage_status := 1\<rparr> in
   \<exists>stor'. storage_db (snd (storage_storageclose (sd, plain_mapserv))) (account_id sd) = Some stor' \<and>
    mset (storage_items stor') = mset (storage_items stor) \<and>
    sorted_wrt before_item (storage_items stor') \<and> storage_status stor' = 0 \<and>
    fst (storage_storageopen (storage_storageclose (sd, plain_mapserv))) = 0"
  unfolding Let_def
  by (rule storageclose_sorts [OF plain_mapserv_ok]) (simp add: plain_session_def plain_mapserv_def)

end
