(* ===== verification/Trade.thy ===== *)
theory Trade
  imports Inventory
begin

text \<open>
  Trading between two players: \<open>src/src/map/trade.c\<close>. The sessions live in an explicit store
  from account ids to sessions (\<open>map_id2sd\<close>); a handler looks its partner up there and changes
  both. A null pointer dereference is \<^term>\<open>None\<close>. \<open>log_trade\<close>, which only writes a log line,
  is left out.
\<close>

type_synonym players = "int \<Rightarrow> session option"

section \<open>Checks\<close>

text \<open>
  The loop of \<open>impossible_trade_check\<close> over the ten deals (index, amount), on a copy of the
  inventory: -1 for a negative amount, the slot index where the player does not have enough.
\<close>

datatype deal_result = Fine | Negative | Excess nat "item list"

fun deal_check :: "(int \<times> int) list \<Rightarrow> item list \<Rightarrow> deal_result" where
  "deal_check [] items = Fine"
| "deal_check ((i, a) # ds) items =
     (if a < 0 then Negative
      else if a > 0 then
        (let idx = nat (i - 2); items' = shrink_slot idx a items in
         if amount (items' ! idx) < 0 then Excess idx items' else deal_check ds items')
      else deal_check ds items)"

definition deals :: "session \<Rightarrow> (int \<times> int) list" where
  "deals sd = zip (deal_item_index sd) (deal_item_amount sd)"

definition impossible_trade_check :: "env \<Rightarrow> session \<Rightarrow> int \<times> session" where
  "impossible_trade_check env sd = (case deal_check (deals sd) (inventory sd) of
     Fine \<Rightarrow> (0, sd)
   | Negative \<Rightarrow> (- 1, sd)
   | Excess idx items \<Rightarrow>
       (let sd = send (intif_wis_message_to_gm 538) sd;
            sd = send (intif_wis_message_to_gm 539) sd;
            (sd, msg) = (if ban_hack_trade env < 0
              then (send clif_setwaitclose (send (chrif_char_ask_name 1) sd), 540)
              else if ban_hack_trade env > 0
              then (send clif_setwaitclose (send (chrif_char_ask_name 2) sd), 507)
              else (sd, 508))
        in (1, send (intif_wis_message_to_gm msg) sd)))"

text \<open>
  One deal in \<open>trade_check\<close>: \<open>amt\<close> pieces from slot \<open>i - 2\<close> of one copied inventory into the
  other, \<^term>\<open>None\<close> when they do not fit. Unlike \<open>pc_additem\<close> it compares only item id and
  cards.
\<close>

definition same_cards :: "item \<Rightarrow> item \<Rightarrow> bool" where
  "same_cards a b \<longleftrightarrow> nameid a = nameid b \<and> cards a = cards b"

definition give_slot :: "nat \<Rightarrow> int \<Rightarrow> item list \<Rightarrow> item list" where
  "give_slot n amt items = (let items' = shrink_slot n amt items in
     if amount (items' ! n) \<le> 0 then items'[n := blank] else items')"

definition check_deal :: "env \<Rightarrow> int \<times> int \<Rightarrow> item list \<Rightarrow> item list \<Rightarrow>
    (item list \<times> item list) option" where
  "check_deal env d from to = (case d of (i, amt) \<Rightarrow>
     (if amt > 0 then
        (let n = nat (i - 2);
             amt = (if amt > amount (from ! n) then amount (from ! n) else amt) in
         if amt > 0 then
           (let i = (if itemdb_isequip2 (itemdb env (nameid (from ! n))) then MAX_INVENTORY
                     else first_idx (\<lambda>x. same_cards x (from ! n)) to) in
            if i < length to then
              (if amount (to ! i) + amt > MAX_AMOUNT then None
               else Some (give_slot n amt from, grow_slot i amt to))
            else (let j = first_idx (\<lambda>x. nameid x = 0) to in
              if j < length to then Some (give_slot n amt from, fill_slot j (from ! n) amt to)
              else None))
         else Some (from, to))
      else Some (from, to)))"

fun check_deals :: "env \<Rightarrow> (int \<times> int) list \<Rightarrow> (int \<times> int) list \<Rightarrow> item list \<Rightarrow> item list \<Rightarrow> bool" where
  "check_deals env (d # ds) (e # es) inv1 inv2 =
     (case check_deal env d inv1 inv2 of
        None \<Rightarrow> False
      | Some (inv1, inv2) \<Rightarrow>
          (case check_deal env e inv2 inv1 of
             None \<Rightarrow> False
           | Some (inv2, inv1) \<Rightarrow> check_deals env ds es inv1 inv2))"
| "check_deals env ds es inv1 inv2 = True"

text \<open>Message 592 goes to both players when the check fails.\<close>

definition trade_check :: "env \<Rightarrow> session \<times> session \<Rightarrow> bool \<times> session \<times> session" where
  "trade_check env s = (case s of (sd, target_sd) \<Rightarrow>
     (if check_deals env (deals sd) (deals target_sd) (inventory sd) (inventory target_sd)
      then (True, sd, target_sd)
      else (False, send (clif_displaymessage 592) sd, send (clif_displaymessage 592) target_sd)))"

text \<open>
  \<open>for (counter = 0; counter == 10; counter++)\<close>, written out: the body runs only while the
  counter is 10.
\<close>

function restrictions_loop :: "env \<Rightarrow> session \<Rightarrow> nat \<Rightarrow> bool" where
  "restrictions_loop env sd counter =
     (if counter = 10 then
        (let id = itemdb env (deal_item_index sd ! counter) in
         if no_trade id mod 2 = 1 then True
         else if (no_trade id div 2) mod 2 = 1 then trade_partner sd \<noteq> partner_id sd
         else restrictions_loop env sd (counter + 1))
      else False)"
  by pat_completeness auto
termination
  by (relation "measure (\<lambda>(env, sd, c). 11 - c)") auto

definition trade_restrictions :: "env \<Rightarrow> session \<Rightarrow> bool" where
  "trade_restrictions env sd = restrictions_loop env sd 0"

section \<open>Two sessions\<close>

text \<open>\<open>trade_tradecancel\<close>: the ten deals are handed back, in turn for both players.\<close>

fun return_deals :: "(int \<times> int) list \<Rightarrow> packet list" where
  "return_deals [] = []"
| "return_deals ((i, a) # ds) =
     (if a \<noteq> 0 then [clif_additem (nat (i - 2)) a 0] else []) @ return_deals ds"

definition clear_deals :: "session \<Rightarrow> session" where
  "clear_deals sd = sd\<lparr>sent := sent sd @ return_deals (deals sd),
     deal_item_index := map (\<lambda>(i, a). if a \<noteq> 0 then 0 else i) (deals sd),
     deal_item_amount := map (\<lambda>_. 0) (deals sd)\<rparr>"

definition cancel_one :: "session \<Rightarrow> session" where
  "cancel_one sd =
     (let sd = clear_deals sd;
          sd = (if deal_zeny sd \<noteq> 0
                then (send (clif_updatestatus ''SP_ZENY'') sd)\<lparr>deal_zeny := 0\<rparr> else sd)
      in send clif_tradecancelled (sd\<lparr>deal_locked := 0, trade_partner := 0\<rparr>))"

definition cancel_both :: "session \<times> session \<Rightarrow> session \<times> session" where
  "cancel_both s = (cancel_one (fst s), cancel_one (snd s))"

text \<open>\<open>trade_tradeadditem\<close> for an item: the loop over the places for deals.\<close>

datatype add_result =
    Crash
  | Cancelled
  | Unchanged
  | Overweight
  | Added nat

function add_deal :: "session \<Rightarrow> session \<Rightarrow> int \<Rightarrow> int \<Rightarrow> nat \<Rightarrow> int \<Rightarrow> add_result" where
  "add_deal sd target_sd idx amt trade_i trade_weight =
     (if trade_i \<ge> 10 then Unchanged
      else if deal_item_amount sd ! trade_i = 0 then
        (case inventory_data sd ! nat (idx - 2) of
           None \<Rightarrow> Crash
         | Some data \<Rightarrow>
             (let trade_weight = trade_weight + item_weight data * amt in
              if weight target_sd + trade_weight > max_weight target_sd then Overweight
              else if trade_i = 1 \<and> deal_item_index sd ! 0 = idx then Cancelled
              else Added trade_i))
      else
        (case inventory_data sd ! nat (deal_item_index sd ! trade_i - 2) of
           None \<Rightarrow> Crash
         | Some data \<Rightarrow>
             add_deal sd target_sd idx amt (trade_i + 1)
               (trade_weight + item_weight data * deal_item_amount sd ! trade_i)))"
  by pat_completeness auto
termination
  by (relation "measure (\<lambda>(sd, tsd, idx, amt, i, w). 10 - i)") auto

declare add_deal.simps [simp del] restrictions_loop.simps [simp del]

definition tradeadditem_pair :: "env \<Rightarrow> session \<times> session \<Rightarrow> int \<Rightarrow> int \<Rightarrow> (session \<times> session) option" where
  "tradeadditem_pair env s idx amt = (case s of (sd, target_sd) \<Rightarrow>
     (if deal_locked sd < 1 then
        (if idx < 2 \<or> idx \<ge> int MAX_INVENTORY + 2 then
           (if idx = 0 then
              (if amt > 0 \<and> amt \<le> MAX_ZENY \<and> amt \<le> zeny sd \<and> zeny target_sd + amt \<le> MAX_ZENY
               then Some (sd\<lparr>deal_zeny := amt\<rparr>, send (clif_tradeadditem 0 amt) target_sd)
               else if amt \<noteq> 0 then Some (cancel_both s) else Some s)
            else Some s)
         else if amt > 0 \<and> amt \<le> amount (inventory sd ! nat (idx - 2)) then
           (case add_deal sd target_sd idx amt 0 0 of
              Crash \<Rightarrow> None
            | Cancelled \<Rightarrow> Some (cancel_both s)
            | Unchanged \<Rightarrow> Some s
            | Overweight \<Rightarrow> Some (send (clif_tradeitemok idx 1) sd, target_sd)
            | Added i \<Rightarrow>
                (let sd = sd\<lparr>deal_item_index := (deal_item_index sd)[i := idx],
                            deal_item_amount := (deal_item_amount sd)[i := deal_item_amount sd ! i + amt]\<rparr>;
                     (r, sd) = impossible_trade_check env sd
                 in if r \<noteq> 0 then Some (cancel_both (sd, target_sd))
                    else Some (send (clif_tradeitemok idx 0) sd,
                           send (clif_tradeadditem idx amt) target_sd)))
         else Some s)
      else Some s))"

text \<open>\<open>trade_tradeok\<close>. The first loop stops at the first deal it does not accept.\<close>

definition tradeok_refused :: "session \<Rightarrow> bool" where
  "tradeok_refused sd \<longleftrightarrow>
     (\<exists>(i, a) \<in> set (deals sd). (i - 2 \<ge> 0 \<and> a > amount (inventory sd ! nat (i - 2))) \<or> a < 0)"

definition tradeok_pair :: "env \<Rightarrow> session \<times> session \<Rightarrow> session \<times> session" where
  "tradeok_pair env s = (case s of (sd, target_sd) \<Rightarrow>
     (if tradeok_refused sd then cancel_both s
      else (let (r, sd) = impossible_trade_check env sd in
        if r \<noteq> 0 then cancel_both (sd, target_sd)
        else if deal_zeny sd < 0 \<or> deal_zeny sd > MAX_ZENY \<or> deal_zeny sd > zeny sd
        then cancel_both (sd, target_sd)
        else (let sd = send (clif_tradeitemok 0 0) (sd\<lparr>deal_locked := 1\<rparr>)
          in (send (clif_tradedeal_lock 0) sd, send (clif_tradedeal_lock 1) target_sd)))))"

section \<open>Committing\<close>

text \<open>One direction of the exchange loop for deal \<open>trade_i\<close>.\<close>

definition clamp_deal :: "nat \<Rightarrow> session \<Rightarrow> session" where
  "clamp_deal trade_i sd = (let n = nat (deal_item_index sd ! trade_i - 2) in
     if amount (inventory sd ! n) < deal_item_amount sd ! trade_i
     then sd\<lparr>deal_item_amount := (deal_item_amount sd)[trade_i := amount (inventory sd ! n)]\<rparr>
     else sd)"

definition give_deal :: "env \<Rightarrow> nat \<Rightarrow> session \<times> session \<Rightarrow> session \<times> session" where
  "give_deal env trade_i s = (case s of (sd, target_sd) \<Rightarrow>
     (let n = nat (deal_item_index sd ! trade_i - 2);
          amt = deal_item_amount sd ! trade_i;
          (flag, target_sd) = pc_additem env target_sd (inventory sd ! n) amt;
          sd = (if flag = 0 then pc_delitem env sd n amt 1 else send (clif_additem n amt 0) sd)
      in (sd\<lparr>deal_item_index := (deal_item_index sd)[trade_i := 0],
             deal_item_amount := (deal_item_amount sd)[trade_i := 0]\<rparr>, target_sd)))"

definition exchange_one :: "env \<Rightarrow> nat \<Rightarrow> session \<times> session \<Rightarrow> session \<times> session" where
  "exchange_one env trade_i s = (case s of (sd, target_sd) \<Rightarrow>
     (if deal_item_amount sd ! trade_i > 0 then
        (let sd = clamp_deal trade_i sd in
         if deal_item_amount sd ! trade_i > 0 then give_deal env trade_i (sd, target_sd)
         else (sd, target_sd))
      else s))"

definition swap_pair :: "'a \<times> 'a \<Rightarrow> 'a \<times> 'a" where
  "swap_pair s = (snd s, fst s)"

definition exchange_both :: "env \<Rightarrow> nat \<Rightarrow> session \<times> session \<Rightarrow> session \<times> session" where
  "exchange_both env i s = swap_pair (exchange_one env i (swap_pair (exchange_one env i s)))"

definition exchange_zeny :: "session \<times> session \<Rightarrow> session \<times> session" where
  "exchange_zeny s = (case s of (sd, target_sd) \<Rightarrow>
     (let d = deal_zeny sd; e = deal_zeny target_sd;
          (sd, target_sd) = (if d \<noteq> 0
            then (sd\<lparr>zeny := zeny sd - d\<rparr>, target_sd\<lparr>zeny := zeny target_sd + d\<rparr>)
            else (sd, target_sd));
          (sd, target_sd) = (if e \<noteq> 0
            then (sd\<lparr>zeny := zeny sd + e\<rparr>, target_sd\<lparr>zeny := zeny target_sd - e\<rparr>)
            else (sd, target_sd))
      in if d \<noteq> 0 \<or> e \<noteq> 0
         then ((send (clif_updatestatus ''SP_ZENY'') sd)\<lparr>deal_zeny := 0\<rparr>,
               (send (clif_updatestatus ''SP_ZENY'') target_sd)\<lparr>deal_zeny := 0\<rparr>)
         else (sd, target_sd)))"

definition finish_one :: "session \<Rightarrow> session" where
  "finish_one sd = send chrif_save (send clif_tradecompleted (sd\<lparr>deal_locked := 0, trade_partner := 0\<rparr>))"

definition zeny_fits :: "session \<Rightarrow> session \<Rightarrow> bool" where
  "zeny_fits sd target_sd \<longleftrightarrow> deal_zeny sd \<ge> 0 \<and> deal_zeny sd \<le> MAX_ZENY \<and> deal_zeny sd \<le> zeny sd \<and>
     zeny target_sd + deal_zeny sd \<le> MAX_ZENY"

text \<open>The part of \<open>trade_tradecommit\<close> after all checks: "trade is accepted".\<close>

definition complete :: "env \<Rightarrow> session \<times> session \<Rightarrow> session \<times> session" where
  "complete env s = (let s = exchange_zeny (fold (exchange_both env) [0..<10] s)
     in (finish_one (fst s), finish_one (snd s)))"

definition tradecommit_pair :: "env \<Rightarrow> session \<times> session \<Rightarrow> session \<times> session" where
  "tradecommit_pair env s = (case s of (sd, target_sd) \<Rightarrow>
     (if deal_locked sd > 0 \<and> deal_locked target_sd > 0 then
        (let sd = sd\<lparr>deal_locked := 2\<rparr> in
         if deal_locked target_sd = 2 then
           (let (r, sd) = impossible_trade_check env sd in
            if r \<noteq> 0 then cancel_both (sd, target_sd)
            else if trade_restrictions env sd then cancel_both (sd, target_sd)
            else (let (r, target_sd) = impossible_trade_check env target_sd in
              if r \<noteq> 0 then cancel_both (sd, target_sd)
              else if zeny_fits sd target_sd \<and> zeny_fits target_sd sd then
                (case trade_check env (sd, target_sd) of
                   (False, s) \<Rightarrow> cancel_both s
                 | (True, s) \<Rightarrow> complete env s)
              else cancel_both (sd, target_sd)))
         else (sd, target_sd))
      else s))"

section \<open>The handlers on the store of players\<close>

definition with_partner :: "(session \<times> session \<Rightarrow> session \<times> session) \<Rightarrow> players \<Rightarrow> int \<Rightarrow> players" where
  "with_partner f w a = (case w a of
     None \<Rightarrow> w
   | Some sd \<Rightarrow> (case w (trade_partner sd) of
       None \<Rightarrow> w
     | Some target_sd \<Rightarrow> (case f (sd, target_sd) of
         (sd', target_sd') \<Rightarrow> w(a \<mapsto> sd', trade_partner sd \<mapsto> target_sd'))))"

definition trade_tradecancel :: "players \<Rightarrow> int \<Rightarrow> players" where
  "trade_tradecancel w a = with_partner cancel_both w a"

definition trade_traderequest :: "env \<Rightarrow> players \<Rightarrow> int \<Rightarrow> int \<Rightarrow> bool \<Rightarrow> players" where
  "trade_traderequest env w a target_id near_check = (case w a of
     None \<Rightarrow> w
   | Some sd \<Rightarrow> (case w target_id of
       None \<Rightarrow> w(a \<mapsto> send (clif_tradestart 1) sd)
     | Some target_sd \<Rightarrow>
        (if \<not> invite_request_check env \<and> (guild_invite target_sd > 0 \<or> party_invite target_sd > 0 \<or>
            guild_invite sd > 0 \<or> party_invite sd > 0)
         then w(a \<mapsto> send (clif_tradestart 2) sd)
         else if trade_partner target_sd \<noteq> 0 then w(a \<mapsto> send (clif_tradestart 2) sd)
         else if trade_partner sd \<noteq> 0 then trade_tradecancel w a
         else if near_check \<and> (bl_m sd \<noteq> bl_m target_sd \<or>
            (bl_x sd - bl_x target_sd \<le> - 5 \<or> bl_x sd - bl_x target_sd \<ge> 5) \<or>
            (bl_y sd - bl_y target_sd \<le> - 5 \<or> bl_y sd - bl_y target_sd \<ge> 5))
         then w(a \<mapsto> send (clif_tradestart 0) sd)
         else if gvg_map env (bl_m sd) \<and> guild_id sd \<noteq> guild_id target_sd
         then w(a \<mapsto> send (clif_tradestart 4) sd)
         else if a = target_id then w(a \<mapsto> send (clif_tradestart 1) sd)
         else w(target_id \<mapsto> send (clif_traderequest (account_id sd))
                  (target_sd\<lparr>trade_partner := account_id sd\<rparr>),
                a \<mapsto> sd\<lparr>trade_partner := account_id target_sd\<rparr>))))"

definition tradeack_pair :: "env \<Rightarrow> int \<Rightarrow> session \<times> session \<Rightarrow> session \<times> session" where
  "tradeack_pair env type s = (case s of (sd, target_sd) \<Rightarrow>
     (let target_sd = send (clif_tradestart type) target_sd;
          sd = send (clif_tradestart type) sd;
          (sd, target_sd) = (if type = 4
            then (sd\<lparr>deal_locked := 0, trade_partner := 0\<rparr>,
                  target_sd\<lparr>deal_locked := 0, trade_partner := 0\<rparr>)
            else (sd, target_sd));
          sd = (if npc_id sd \<noteq> 0 then npc_event_dequeue env sd else sd);
          target_sd = (if npc_id target_sd \<noteq> 0 then npc_event_dequeue env target_sd else target_sd)
      in (sd, target_sd)))"

definition trade_tradeack :: "env \<Rightarrow> players \<Rightarrow> int \<Rightarrow> int \<Rightarrow> players" where
  "trade_tradeack env w a type =
     (if type \<noteq> 3 \<and> type \<noteq> 4 then w else with_partner (tradeack_pair env type) w a)"

definition trade_tradeadditem :: "env \<Rightarrow> players \<Rightarrow> int \<Rightarrow> int \<Rightarrow> int \<Rightarrow> players option" where
  "trade_tradeadditem env w a idx amt = (case w a of
     None \<Rightarrow> Some w
   | Some sd \<Rightarrow> (case w (trade_partner sd) of
       None \<Rightarrow> Some w
     | Some target_sd \<Rightarrow> (case tradeadditem_pair env (sd, target_sd) idx amt of
         None \<Rightarrow> None
       | Some (sd', target_sd') \<Rightarrow> Some (w(a \<mapsto> sd', trade_partner sd \<mapsto> target_sd')))))"

definition trade_tradeok :: "env \<Rightarrow> players \<Rightarrow> int \<Rightarrow> players" where
  "trade_tradeok env w a = (case w a of
     None \<Rightarrow> w
   | Some sd \<Rightarrow> (case w (trade_partner sd) of
       None \<Rightarrow> (if tradeok_refused sd then w else w(a \<mapsto> snd (impossible_trade_check env sd)))
     | Some _ \<Rightarrow> with_partner (tradeok_pair env) w a))"

definition trade_tradecommit :: "env \<Rightarrow> players \<Rightarrow> int \<Rightarrow> players" where
  "trade_tradecommit env w a = with_partner (tradecommit_pair env) w a"

section \<open>The packets of a trade\<close>

text \<open>
  \<open>clif_parse_TradeRequest\<close> to \<open>clif_parse_TradeCommit\<close> of \<open>src/src/map/clif.c\<close>, for the client of
  player \<open>a\<close>.
\<close>

datatype trade_packet =
    TradeRequest int
  | TradeAck int
  | TradeAddItem int int
  | TradeOk
  | TradeCancel
  | TradeCommit

definition NV_BASIC :: int where
  "NV_BASIC = 1"

definition clif_parse_TradeRequest :: "env \<Rightarrow> players \<Rightarrow> int \<Rightarrow> int \<Rightarrow> players" where
  "clif_parse_TradeRequest env w a target_id = (case w a of
     None \<Rightarrow> w
   | Some sd \<Rightarrow>
      (if notrade_map env (bl_m sd) then w(a \<mapsto> send (clif_displaymessage 655) sd)
       else if \<not> basic_skill_check env \<or> pc_checkskill sd NV_BASIC \<ge> 1
       then trade_traderequest env w a target_id True
       else w(a \<mapsto> send (clif_skill_fail 1) sd)))"

fun clif_parse_Trade :: "env \<Rightarrow> players \<Rightarrow> int \<Rightarrow> trade_packet \<Rightarrow> players option" where
  "clif_parse_Trade env w a (TradeRequest target) = Some (clif_parse_TradeRequest env w a target)"
| "clif_parse_Trade env w a (TradeAck type) = Some (trade_tradeack env w a type)"
| "clif_parse_Trade env w a (TradeAddItem idx amt) = trade_tradeadditem env w a idx amt"
| "clif_parse_Trade env w a TradeOk = Some (trade_tradeok env w a)"
| "clif_parse_Trade env w a TradeCancel = Some (trade_tradecancel w a)"
| "clif_parse_Trade env w a TradeCommit = Some (trade_tradecommit env w a)"

text \<open>Packets of any clients, in the order the server reads them.\<close>

fun trade_run :: "env \<Rightarrow> players \<Rightarrow> (int \<times> trade_packet) list \<Rightarrow> players option" where
  "trade_run env w [] = Some w"
| "trade_run env w ((a, p) # ps) = (case clif_parse_Trade env w a p of
     None \<Rightarrow> None
   | Some w' \<Rightarrow> trade_run env w' ps)"

text \<open>
  The cart packets, which do not look at \<open>trade_partner\<close>: \<open>clif_parse_PutItemToCart\<close>,
  \<open>clif_parse_GetItemFromCart\<close>.
\<close>

definition clif_parse_PutItemToCart :: "env \<Rightarrow> session \<Rightarrow> int \<Rightarrow> int \<Rightarrow> session" where
  "clif_parse_PutItemToCart env sd idx amt =
     (if npc_id sd \<noteq> 0 \<or> vender_id sd \<noteq> 0 then sd else pc_putitemtocart env sd (idx - 2) amt)"

definition clif_parse_GetItemFromCart :: "env \<Rightarrow> session \<Rightarrow> int \<Rightarrow> int \<Rightarrow> session" where
  "clif_parse_GetItemFromCart env sd idx amt =
     (if npc_id sd \<noteq> 0 \<or> vender_id sd \<noteq> 0 then sd else pc_getitemfromcart env sd (idx - 2) amt)"

datatype client_packet =
    Trade trade_packet
  | PutItemToCart int int
  | GetItemFromCart int int

fun client_run :: "env \<Rightarrow> players \<Rightarrow> (int \<times> client_packet) list \<Rightarrow> players option" where
  "client_run env w [] = Some w"
| "client_run env w ((a, Trade p) # ps) = (case clif_parse_Trade env w a p of
     None \<Rightarrow> None
   | Some w' \<Rightarrow> client_run env w' ps)"
| "client_run env w ((a, PutItemToCart idx amt) # ps) =
     client_run env (case w a of None \<Rightarrow> w
       | Some sd \<Rightarrow> w(a \<mapsto> clif_parse_PutItemToCart env sd idx amt)) ps"
| "client_run env w ((a, GetItemFromCart idx amt) # ps) =
     client_run env (case w a of None \<Rightarrow> w
       | Some sd \<Rightarrow> w(a \<mapsto> clif_parse_GetItemFromCart env sd idx amt)) ps"

end
