(* ===== verification/TradeProofs.thy ===== *)
theory TradeProofs
  imports Trade
begin

text \<open>
  Trading conserves: between two players no piece of any kind of item and no zeny appears or
  disappears, whatever the clients send and in whatever order; the store of players stays
  well-formed and partnership symmetric.
\<close>

section \<open>Well-formed players\<close>

definition deals_ok :: "session \<Rightarrow> bool" where
  "deals_ok sd \<longleftrightarrow> length (deal_item_index sd) = 10 \<and> length (deal_item_amount sd) = 10 \<and>
     (\<forall>i < 10. 0 \<le> deal_item_amount sd ! i \<and>
        (deal_item_amount sd ! i \<noteq> 0 \<longrightarrow> 2 \<le> deal_item_index sd ! i \<and> deal_item_index sd ! i < 102)) \<and>
     0 \<le> deal_zeny sd"

definition player_ok :: "env \<Rightarrow> session \<Rightarrow> bool" where
  "player_ok env sd \<longleftrightarrow> session_ok env sd \<and> deals_ok sd \<and> 0 \<le> zeny sd \<and> zeny sd \<le> MAX_ZENY"

text \<open>What a pair of sessions keeps.\<close>

definition pair_ok :: "env \<Rightarrow> session \<times> session \<Rightarrow> bool" where
  "pair_ok env s \<longleftrightarrow> player_ok env (fst s) \<and> player_ok env (snd s)"

definition holdings :: "session \<times> session \<Rightarrow> (kind \<Rightarrow> int) \<times> int" where
  "holdings s = ((\<lambda>k. stock k (inventory (fst s)) + stock k (inventory (snd s))),
     zeny (fst s) + zeny (snd s))"

definition ids :: "session \<Rightarrow> int" where
  "ids sd = account_id sd"

text \<open>The partner fields: unchanged, or reset on both sides.\<close>

definition partners_ok :: "session \<times> session \<Rightarrow> session \<times> session \<Rightarrow> bool" where
  "partners_ok s s' \<longleftrightarrow> account_id (fst s') = account_id (fst s) \<and>
     account_id (snd s') = account_id (snd s) \<and>
     (trade_partner (fst s') = trade_partner (fst s) \<and> trade_partner (snd s') = trade_partner (snd s) \<or>
      trade_partner (fst s') = 0 \<and> trade_partner (snd s') = 0)"

definition fair :: "env \<Rightarrow> session \<times> session \<Rightarrow> session \<times> session \<Rightarrow> bool" where
  "fair env s s' \<longleftrightarrow> pair_ok env s' \<and> holdings s' = holdings s \<and> partners_ok s s'"

lemma fair_refl: "pair_ok env s \<Longrightarrow> fair env s s"
  by (simp add: fair_def partners_ok_def)

lemma fair_trans: "fair env s s' \<Longrightarrow> fair env s' s'' \<Longrightarrow> fair env s s''"
  by (auto simp: fair_def partners_ok_def)

text \<open>The part of a session the deal itself changes.\<close>

definition goods :: "session \<Rightarrow> _" where
  "goods sd = (inventory sd, inventory_data sd, cart sd, weight sd, cart_weight sd, cart_num sd,
     zeny sd, account_id sd)"

lemma goods_eq:
  assumes "goods sd' = goods sd"
  shows "inventory sd' = inventory sd" "zeny sd' = zeny sd" "account_id sd' = account_id sd"
    "session_ok env sd' = session_ok env sd"
  using assms by (auto simp: goods_def session_ok_def inventory_ok_def cart_ok_def)

lemma fair_goods:
  assumes "pair_ok env s" "goods (fst s') = goods (fst s)" "goods (snd s') = goods (snd s)"
    and "deals_ok (fst s')" "deals_ok (snd s')"
    and "trade_partner (fst s') = trade_partner (fst s) \<and> trade_partner (snd s') = trade_partner (snd s) \<or>
      trade_partner (fst s') = 0 \<and> trade_partner (snd s') = 0"
  shows "fair env s s'"
  using assms goods_eq [OF assms(2)] goods_eq [OF assms(3)]
  by (simp add: fair_def pair_ok_def player_ok_def holdings_def partners_ok_def)

section \<open>Cancelling, checking\<close>

lemma goods_send [simp]: "goods (send p sd) = goods sd"
  by (simp add: goods_def)

lemma goods_frame [simp]:
  "goods (sd\<lparr>sent := x\<rparr>) = goods sd" "goods (sd\<lparr>deal_item_index := y\<rparr>) = goods sd"
  "goods (sd\<lparr>deal_item_amount := y\<rparr>) = goods sd" "goods (sd\<lparr>deal_zeny := z\<rparr>) = goods sd"
  "goods (sd\<lparr>deal_locked := z\<rparr>) = goods sd" "goods (sd\<lparr>trade_partner := z\<rparr>) = goods sd"
  by (simp_all add: goods_def)

lemma deals_ok_send [simp]: "deals_ok (send p sd) = deals_ok sd"
  by (simp add: deals_ok_def)

lemma cancel_one_correct:
  assumes "deals_ok sd"
  shows "goods (cancel_one sd) = goods sd" "deals_ok (cancel_one sd)"
    "trade_partner (cancel_one sd) = 0" "deal_zeny (cancel_one sd) = 0"
    "deal_locked (cancel_one sd) = 0" "deal_item_amount (cancel_one sd) = replicate 10 0"
  using assms
  by (auto simp: cancel_one_def clear_deals_def Let_def deals_ok_def deals_def map_replicate_const)

lemma cancel_both_fair: "pair_ok env s \<Longrightarrow> fair env s (cancel_both s)"
  using cancel_one_correct
  by (intro fair_goods) (auto simp: cancel_both_def pair_ok_def player_ok_def)

lemma impossible_check_frame:
  assumes "impossible_trade_check env sd = (r, sd')"
  shows "goods sd' = goods sd" "dealings sd' = dealings sd"
  using assms by (auto simp: impossible_trade_check_def Let_def dealings_def split: deal_result.splits if_splits)

lemma deals_ok_dealings:
  assumes "dealings sd' = dealings sd"
  shows "deals_ok sd' = deals_ok sd"
  by (simp add: deals_ok_def dealings_eq [OF assms])

section \<open>One deal\<close>

interpretation to_partner: item_move "\<lambda>s. inventory (fst s)"
  "\<lambda>s n a. (pc_delitem env (fst s) n a 1, snd s)" "\<lambda>s. inventory (snd s)"
  "\<lambda>s it a. (fst (pc_additem env (snd s) it a), fst s, snd (pc_additem env (snd s) it a))"
  "\<lambda>s. session_ok env (fst s) \<and> session_ok env (snd s)" for env
  unfolding item_move_def item_move_axioms_def
  using inventory_source.on_fst [of env 1 "session_ok env"]
    inventory_sink.on_snd [of env "session_ok env"]
  by auto

lemma deals_ok_update:
  assumes "deals_ok sd" "i < 10" "0 \<le> a" "a \<le> deal_item_amount sd ! i"
  shows "deals_ok (sd\<lparr>deal_item_amount := (deal_item_amount sd)[i := a]\<rparr>)"
    and "deals_ok (sd\<lparr>deal_item_index := (deal_item_index sd)[i := 0],
      deal_item_amount := (deal_item_amount sd)[i := 0]\<rparr>)"
  using assms by (auto simp: deals_ok_def nth_list_update)

definition deal_rest :: "session \<Rightarrow> int \<times> int \<times> int \<times> int" where
  "deal_rest sd = (account_id sd, trade_partner sd, deal_zeny sd, deal_locked sd)"

lemma clamp_deal_correct:
  assumes "player_ok env sd" "i < 10" "deal_item_amount sd ! i > 0"
  shows "goods (clamp_deal i sd) = goods sd" "deal_rest (clamp_deal i sd) = deal_rest sd"
    "deals_ok (clamp_deal i sd)"
    "deal_item_index (clamp_deal i sd) = deal_item_index sd"
    "deal_item_amount (clamp_deal i sd) ! i \<le> amount (inventory sd ! nat (deal_item_index sd ! i - 2))"
proof -
  define n where "n = nat (deal_item_index sd ! i - 2)"
  have sok: "session_ok env sd" and dok: "deals_ok sd" using assms by (simp_all add: player_ok_def)
  have "n < length (inventory sd)"
    using dok assms(2,3) session_ok_slots(1) [OF sok] by (auto simp: deals_ok_def n_def MAX_INVENTORY_def)
  then have "slot_ok (inventory sd ! n)" using session_ok_slots(3) [OF sok] by simp
  then have amt0: "0 \<le> amount (inventory sd ! n)" by (auto simp: slot_ok_def)
  have len: "i < length (deal_item_amount sd)" using dok assms(2) by (simp add: deals_ok_def)
  show "goods (clamp_deal i sd) = goods sd" "deal_rest (clamp_deal i sd) = deal_rest sd"
    "deal_item_index (clamp_deal i sd) = deal_item_index sd"
    by (simp_all add: clamp_deal_def Let_def deal_rest_def)
  show "deals_ok (clamp_deal i sd)"
    using deals_ok_update(1) [OF dok assms(2) amt0] dok
    by (simp add: clamp_deal_def Let_def n_def)
  show "deal_item_amount (clamp_deal i sd) ! i \<le> amount (inventory sd ! nat (deal_item_index sd ! i - 2))"
    using len by (simp add: clamp_deal_def Let_def)
qed

text \<open>The effect of an exchange, apart from what each player ends up with.\<close>

definition exchanged :: "env \<Rightarrow> session \<times> session \<Rightarrow> session \<times> session \<Rightarrow> bool" where
  "exchanged env s s' \<longleftrightarrow> fair env s s' \<and>
    deal_rest (fst s') = deal_rest (fst s) \<and> deal_rest (snd s') = deal_rest (snd s) \<and>
    zeny (fst s') = zeny (fst s) \<and> zeny (snd s') = zeny (snd s)"

lemma exchanged_refl: "pair_ok env s \<Longrightarrow> exchanged env s s"
  by (simp add: exchanged_def fair_refl)

lemma exchanged_trans: "exchanged env s s' \<Longrightarrow> exchanged env s' s'' \<Longrightarrow> exchanged env s s''"
  using fair_trans [of env s s' s''] by (simp add: exchanged_def)

lemma give_deal_correct:
  assumes ok: "pair_ok env (sd, tsd)" and i: "i < 10" and pos: "deal_item_amount sd ! i > 0"
    and enough: "deal_item_amount sd ! i \<le> amount (inventory sd ! nat (deal_item_index sd ! i - 2))"
  shows "exchanged env (sd, tsd) (give_deal env i (sd, tsd))"
proof -
  define n where "n = nat (deal_item_index sd ! i - 2)"
  define a where "a = deal_item_amount sd ! i"
  have sok: "session_ok env sd" "session_ok env tsd" and dok: "deals_ok sd" "deals_ok tsd"
    using ok by (simp_all add: pair_ok_def player_ok_def)
  have n: "n < length (inventory sd)"
    using dok(1) i pos session_ok_slots(1) [OF sok(1)]
    by (auto simp: deals_ok_def n_def MAX_INVENTORY_def)
  have nf: "n < length (inventory (fst (sd, tsd)))" "a \<le> amount (inventory (fst (sd, tsd)) ! n)"
    using n enough by (simp_all add: a_def n_def)
  have good: "session_ok env (fst (sd, tsd)) \<and> session_ok env (snd (sd, tsd))" using sok by simp
  obtain r p where run: "to_partner.transfer env (sd, tsd) n a = (r, p)" by (rule prod.exhaust)
  note moved = to_partner.transfer_correct [OF good nf run]
  define f where "f = (\<lambda>s. (dealings (fst s), dealings (snd s), zeny (fst s), zeny (snd s)))"
  have "f (snd (to_partner.transfer env (sd, tsd) n a)) = f (sd, tsd)"
    using n by (intro to_partner.transfer_keeps [OF good nf])
      (auto simp: f_def dealings_additem dealings_delitem zeny_additem zeny_delitem session_ok_slots(1))
  then have rest: "dealings (fst p) = dealings sd" "dealings (snd p) = dealings tsd"
    "zeny (fst p) = zeny sd" "zeny (snd p) = zeny tsd" by (simp_all add: run f_def)
  define q where "q = (if r = 0 then fst p else send (clif_additem n a 0) (fst p))"
  define q' where "q' = q\<lparr>deal_item_index := (deal_item_index q)[i := 0],
    deal_item_amount := (deal_item_amount q)[i := 0]\<rparr>"
  obtain flag tsd1 where add: "pc_additem env tsd (inventory sd ! n) a = (flag, tsd1)" by force
  have p: "r = flag" "p = (if flag = 0 then (pc_delitem env sd n a 1, tsd1) else (sd, tsd1))"
    using run add by (auto simp: to_partner.transfer_def)
  have result: "give_deal env i (sd, tsd) = (q', snd p)"
    using add p by (simp add: give_deal_def n_def [symmetric] a_def [symmetric] Let_def q'_def q_def)
  have q: "goods q = goods (fst p)" "dealings q = dealings (fst p)"
    by (simp_all add: q_def dealings_def)
  have dq: "deals_ok q" "deals_ok (snd p)"
    using deals_ok_dealings [OF q(2)] deals_ok_dealings [OF rest(1)] deals_ok_dealings [OF rest(2)] dok
    by simp_all
  have dq': "deals_ok q'"
    unfolding q'_def by (rule deals_ok_update(2) [OF dq(1) i, of 0])
      (use dq(1) i in \<open>auto simp: deals_ok_def\<close>)
  have g': "goods q' = goods (fst p)" using q(1) by (simp add: q'_def)
  have r': "deal_rest q' = deal_rest sd" "deal_rest (snd p) = deal_rest tsd"
    using dealings_eq [OF q(2)] dealings_eq [OF rest(1)] dealings_eq [OF rest(2)]
    by (simp_all add: q'_def deal_rest_def)
  have zq: "zeny q' = zeny sd" using goods_eq(2) [OF g'] rest(3) by simp
  have "stock k (inventory q') + stock k (inventory (snd p)) =
      stock k (inventory sd) + stock k (inventory tsd)" for k
    using moved(2) [of k] goods_eq(1) [OF g'] by simp
  then have "fair env (sd, tsd) (q', snd p)"
    using ok moved(1) goods_eq(4) [OF g', of env] dq' dq(2) zq rest(4) r'
    by (simp add: fair_def pair_ok_def player_ok_def holdings_def partners_ok_def deal_rest_def fun_eq_iff)
  then show ?thesis using result r' zq rest(4) by (simp add: exchanged_def)
qed

lemma exchange_one_correct:
  assumes ok: "pair_ok env s" and i: "i < 10"
  shows "exchanged env s (exchange_one env i s)"
proof -
  obtain sd tsd where s: "s = (sd, tsd)" by force
  show ?thesis
  proof (cases "deal_item_amount sd ! i > 0")
    case False
    then show ?thesis using exchanged_refl [OF ok] by (simp add: exchange_one_def s)
  next
    case True
    note clamp = clamp_deal_correct [of env sd, OF _ i True]
    have pok: "player_ok env sd" using ok by (simp add: pair_ok_def s)
    note g = goods_eq [OF clamp(1) [OF pok]]
    have f: "exchanged env s (clamp_deal i sd, tsd)"
      using fair_goods [OF ok, of "(clamp_deal i sd, tsd)"] clamp [OF pok] ok g
      by (simp add: exchanged_def s pair_ok_def player_ok_def deal_rest_def)
    then have ok': "pair_ok env (clamp_deal i sd, tsd)" by (simp add: exchanged_def fair_def)
    show ?thesis
    proof (cases "deal_item_amount (clamp_deal i sd) ! i > 0")
      case False
      then show ?thesis using f True by (simp add: exchange_one_def s)
    next
      case pos: True
      from give_deal_correct [OF ok' i pos] clamp(4,5) [OF pok] g(1)
      have "exchanged env (clamp_deal i sd, tsd) (give_deal env i (clamp_deal i sd, tsd))" by simp
      then show ?thesis
        using exchanged_trans [OF f] True pos by (simp add: exchange_one_def s)
    qed
  qed
qed

section \<open>The whole exchange\<close>

lemma fair_swap: "fair env (swap_pair s) (swap_pair s') = fair env s s'"
  by (auto simp: fair_def pair_ok_def holdings_def partners_ok_def swap_pair_def add.commute)

lemma exchanged_swap: "exchanged env (swap_pair s) (swap_pair s') = exchanged env s s'"
  using fair_swap [of env s s'] by (auto simp: exchanged_def swap_pair_def)

lemma swap_swap [simp]: "swap_pair (swap_pair s) = s"
  by (simp add: swap_pair_def)

lemma pair_ok_swap: "pair_ok env (swap_pair s) = pair_ok env s"
  by (auto simp: pair_ok_def swap_pair_def)

lemma exchanged_ok: "exchanged env s s' \<Longrightarrow> pair_ok env s'"
  by (simp add: exchanged_def fair_def)

lemma exchange_both_correct:
  assumes "pair_ok env s" "i < 10"
  shows "exchanged env s (exchange_both env i s)"
proof -
  have first: "exchanged env s (exchange_one env i s)" by (rule exchange_one_correct [OF assms])
  have "pair_ok env (swap_pair (exchange_one env i s))"
    using exchanged_ok [OF first] by (simp add: pair_ok_swap)
  from exchange_one_correct [OF this assms(2)]
  have "exchanged env (swap_pair (exchange_one env i s)) (swap_pair (exchange_both env i s))"
    by (simp add: exchange_both_def)
  then have "exchanged env (exchange_one env i s) (exchange_both env i s)"
    by (simp only: exchanged_swap)
  with first show ?thesis by (rule exchanged_trans)
qed

lemma exchange_loop_correct:
  "pair_ok env s \<Longrightarrow> \<forall>i \<in> set is. i < 10 \<Longrightarrow> exchanged env s (fold (exchange_both env) is s)"
proof (induction "is" arbitrary: s)
  case Nil
  then show ?case by (simp add: exchanged_refl)
next
  case (Cons i "is")
  have step: "exchanged env s (exchange_both env i s)"
    using Cons.prems by (intro exchange_both_correct) auto
  from exchanged_trans [OF step Cons.IH [OF exchanged_ok [OF step]]] Cons.prems show ?case by simp
qed

lemma deals_ok_zeny [simp]:
  "deals_ok (sd\<lparr>zeny := z\<rparr>) = deals_ok sd" "deals_ok (sd\<lparr>deal_locked := x\<rparr>) = deals_ok sd"
  "deals_ok (sd\<lparr>trade_partner := x\<rparr>) = deals_ok sd"
  by (simp_all add: deals_ok_def)

lemma session_ok_zeny [simp]: "session_ok env (sd\<lparr>zeny := z\<rparr>) = session_ok env sd"
  by (simp add: session_ok_def inventory_ok_def cart_ok_def)

lemma player_ok_goods:
  assumes "goods sd' = goods sd" "deals_ok sd'" "player_ok env sd"
  shows "player_ok env sd'"
  using assms goods_eq [OF assms(1)] by (simp add: player_ok_def)

lemma exchange_zeny_result:
  "exchange_zeny (sd, tsd) =
    (let sd' = sd\<lparr>zeny := zeny sd - deal_zeny sd + deal_zeny tsd\<rparr>;
         tsd' = tsd\<lparr>zeny := zeny tsd - deal_zeny tsd + deal_zeny sd\<rparr>
     in if deal_zeny sd \<noteq> 0 \<or> deal_zeny tsd \<noteq> 0
        then ((send (clif_updatestatus ''SP_ZENY'') sd')\<lparr>deal_zeny := 0\<rparr>,
              (send (clif_updatestatus ''SP_ZENY'') tsd')\<lparr>deal_zeny := 0\<rparr>)
        else (sd, tsd))"
  by (simp add: exchange_zeny_def Let_def algebra_simps)

lemma exchange_zeny_correct:
  assumes ok: "pair_ok env s" and fits: "zeny_fits (fst s) (snd s)" "zeny_fits (snd s) (fst s)"
  shows "fair env s (exchange_zeny s)"
    and "zeny (fst (exchange_zeny s)) = zeny (fst s) - deal_zeny (fst s) + deal_zeny (snd s)"
    and "trade_partner (fst (exchange_zeny s)) = trade_partner (fst s)"
    and "trade_partner (snd (exchange_zeny s)) = trade_partner (snd s)"
proof -
  obtain sd tsd where s: "s = (sd, tsd)" by force
  define sd' where "sd' = sd\<lparr>zeny := zeny sd - deal_zeny sd + deal_zeny tsd\<rparr>"
  define tsd' where "tsd' = tsd\<lparr>zeny := zeny tsd - deal_zeny tsd + deal_zeny sd\<rparr>"
  have p: "player_ok env sd'" "player_ok env tsd'"
    using ok fits by (auto simp: sd'_def tsd'_def s pair_ok_def player_ok_def zeny_fits_def)
  define q where "q = (send (clif_updatestatus ''SP_ZENY'') sd')\<lparr>deal_zeny := 0\<rparr>"
  define tq where "tq = (send (clif_updatestatus ''SP_ZENY'') tsd')\<lparr>deal_zeny := 0\<rparr>"
  have dz: "deals_ok (x\<lparr>deal_zeny := 0\<rparr>)" if "deals_ok x" for x
    using that by (simp add: deals_ok_def)
  have pq: "player_ok env q" "player_ok env tq"
    using p player_ok_goods [of q sd' env] player_ok_goods [of tq tsd' env] dz
    by (auto simp: q_def tq_def player_ok_def)
  have res: "exchange_zeny s = (if deal_zeny sd \<noteq> 0 \<or> deal_zeny tsd \<noteq> 0 then (q, tq) else s)"
    by (simp add: s exchange_zeny_result Let_def q_def tq_def sd'_def tsd'_def)
  have "fair env s (q, tq)"
    using pq by (simp add: fair_def pair_ok_def holdings_def partners_ok_def s q_def tq_def sd'_def
        tsd'_def fun_eq_iff)
  then show "fair env s (exchange_zeny s)" using res fair_refl [OF ok] by simp
  show "zeny (fst (exchange_zeny s)) = zeny (fst s) - deal_zeny (fst s) + deal_zeny (snd s)"
    and "trade_partner (fst (exchange_zeny s)) = trade_partner (fst s)"
    and "trade_partner (snd (exchange_zeny s)) = trade_partner (snd s)"
    by (simp_all add: res) (simp_all add: s q_def tq_def sd'_def tsd'_def)
qed

lemma finish_fair: "pair_ok env s \<Longrightarrow> fair env s (finish_one (fst s), finish_one (snd s))"
  by (intro fair_goods) (auto simp: finish_one_def pair_ok_def player_ok_def)

lemma zeny_fits_exchanged:
  assumes "exchanged env s s'"
  shows "zeny_fits (fst s') (snd s') = zeny_fits (fst s) (snd s)"
    and "zeny_fits (snd s') (fst s') = zeny_fits (snd s) (fst s)"
  using assms by (simp_all add: exchanged_def zeny_fits_def deal_rest_def)

lemma complete_correct:
  assumes ok: "pair_ok env s" and fits: "zeny_fits (fst s) (snd s)" "zeny_fits (snd s) (fst s)"
  shows "fair env s (complete env s)"
    and "zeny (fst (complete env s)) = zeny (fst s) - deal_zeny (fst s) + deal_zeny (snd s)"
    and "trade_partner (fst (complete env s)) = 0" "trade_partner (snd (complete env s)) = 0"
proof -
  define s1 where "s1 = fold (exchange_both env) [0..<10] s"
  have x: "exchanged env s s1"
    unfolding s1_def by (rule exchange_loop_correct [OF ok]) simp
  then have ok1: "pair_ok env s1" by (rule exchanged_ok)
  have fits1: "zeny_fits (fst s1) (snd s1)" "zeny_fits (snd s1) (fst s1)"
    using zeny_fits_exchanged [OF x] fits by simp_all
  note z = exchange_zeny_correct [OF ok1 fits1]
  have ok2: "pair_ok env (exchange_zeny s1)" using z(1) by (simp add: fair_def)
  have "fair env s (exchange_zeny s1)"
    using fair_trans [OF _ z(1)] x by (simp add: exchanged_def)
  from fair_trans [OF this finish_fair [OF ok2]]
  show "fair env s (complete env s)" by (simp add: complete_def s1_def Let_def)
  show "zeny (fst (complete env s)) = zeny (fst s) - deal_zeny (fst s) + deal_zeny (snd s)"
    using z(2) x by (simp add: complete_def Let_def s1_def [symmetric] finish_one_def exchanged_def
        deal_rest_def)
  show "trade_partner (fst (complete env s)) = 0" "trade_partner (snd (complete env s)) = 0"
    by (simp_all add: complete_def Let_def finish_one_def)
qed

lemma check_fair:
  assumes ok: "pair_ok env (sd, tsd)" and check: "impossible_trade_check env sd = (r, sd')"
  shows "fair env (sd, tsd) (sd', tsd)" "deal_zeny sd' = deal_zeny sd" "zeny sd' = zeny sd"
proof -
  note f = impossible_check_frame [OF check]
  show "fair env (sd, tsd) (sd', tsd)"
    using ok f deals_ok_dealings [OF f(2)] dealings_eq [OF f(2)]
    by (intro fair_goods) (auto simp: pair_ok_def player_ok_def)
  show "deal_zeny sd' = deal_zeny sd" "zeny sd' = zeny sd"
    using dealings_eq [OF f(2)] goods_eq [OF f(1)] by simp_all
qed

lemma fair_ok: "fair env s s' \<Longrightarrow> pair_ok env s'"
  by (simp add: fair_def)

lemma fair_cancel: "fair env s s' \<Longrightarrow> fair env s (cancel_both s')"
  using fair_trans cancel_both_fair fair_ok by blast

lemma trade_check_fair:
  "pair_ok env s \<Longrightarrow> trade_check env s = (b, s') \<Longrightarrow> fair env s s'"
  "trade_check env s = (True, s') \<Longrightarrow> s' = s"
  by (auto simp: trade_check_def split: prod.splits if_splits intro!: fair_goods)
    (auto simp: pair_ok_def player_ok_def)

lemma tradecommit_fair:
  assumes ok: "pair_ok env s"
  shows "fair env s (tradecommit_pair env s)"
proof -
  obtain sd tsd where s: "s = (sd, tsd)" by force
  define sd0 where "sd0 = sd\<lparr>deal_locked := 2\<rparr>"
  have f0: "fair env s (sd0, tsd)"
    using ok by (intro fair_goods) (auto simp: s sd0_def pair_ok_def player_ok_def)
  obtain r sd1 where c1: "impossible_trade_check env sd0 = (r, sd1)" by force
  obtain r' tsd1 where c2: "impossible_trade_check env tsd = (r', tsd1)" by force
  have f1: "fair env s (sd1, tsd)"
    using fair_trans [OF f0 check_fair(1) [OF fair_ok [OF f0] c1]] .
  have "fair env (swap_pair (sd1, tsd)) (tsd1, sd1)"
    using check_fair(1) [of env tsd sd1, OF _ c2] fair_ok [OF f1] pair_ok_swap [of env "(sd1, tsd)"]
    by (simp add: swap_pair_def)
  then have "fair env (sd1, tsd) (sd1, tsd1)"
    using fair_swap [of env "(sd1, tsd)" "(sd1, tsd1)"] by (simp add: swap_pair_def)
  then have f2: "fair env s (sd1, tsd1)" using fair_trans [OF f1] by blast
  obtain b q where tc: "trade_check env (sd1, tsd1) = (b, q)" by (rule prod.exhaust)
  have f3: "fair env s q" using fair_trans [OF f2 trade_check_fair(1) [OF fair_ok [OF f2] tc]] .
  have fin: "fair env s (complete env q)" if b "zeny_fits sd1 tsd1" "zeny_fits tsd1 sd1"
  proof -
    have "q = (sd1, tsd1)" using trade_check_fair(2) tc that(1) by simp
    then show ?thesis
      using fair_trans [OF f3 complete_correct(1) [OF fair_ok [OF f3]]] that(2,3) by simp
  qed
  show ?thesis
  proof (cases "deal_locked sd > 0 \<and> deal_locked tsd = 2")
    case False
    then show ?thesis
      using f0 fair_refl [OF ok] by (auto simp: tradecommit_pair_def s Let_def sd0_def)
  next
    case True
    then have run: "tradecommit_pair env s =
        (if r \<noteq> 0 then cancel_both (sd1, tsd)
         else if trade_restrictions env sd1 then cancel_both (sd1, tsd)
         else if r' \<noteq> 0 then cancel_both (sd1, tsd1)
         else if zeny_fits sd1 tsd1 \<and> zeny_fits tsd1 sd1
           then (if b then complete env q else cancel_both q)
         else cancel_both (sd1, tsd1))"
      using c1 c2 tc by (auto simp: tradecommit_pair_def s Let_def sd0_def split: bool.splits)
    show ?thesis
      using fair_cancel [OF f1] fair_cancel [OF f2] fair_cancel [OF f3] fin by (auto simp: run)
  qed
qed

section \<open>The other handlers\<close>

lemma tradeok_fair:
  assumes ok: "pair_ok env s"
  shows "fair env s (tradeok_pair env s)"
proof -
  obtain sd tsd where s: "s = (sd, tsd)" by force
  obtain r sd1 where c: "impossible_trade_check env sd = (r, sd1)" by force
  have f1: "fair env s (sd1, tsd)" using check_fair(1) [of env sd tsd r sd1] ok c by (simp add: s)
  have f2: "fair env (sd1, tsd) (send (clif_tradedeal_lock 0) (send (clif_tradeitemok 0 0)
      (sd1\<lparr>deal_locked := 1\<rparr>)), send (clif_tradedeal_lock 1) tsd)"
    using fair_ok [OF f1] by (intro fair_goods) (auto simp: pair_ok_def player_ok_def)
  show ?thesis
    using fair_cancel [OF f1] fair_cancel [OF fair_refl [OF ok]] fair_trans [OF f1 f2] c
    by (auto simp: tradeok_pair_def s Let_def)
qed

lemma add_deal_place:
  "add_deal sd tsd idx amt i w = Added j \<Longrightarrow> deal_item_amount sd ! j = 0 \<and> j < 10"
  by (induction sd tsd idx amt i w rule: add_deal.induct)
    (subst (asm) (2) add_deal.simps, auto simp: Let_def split: if_splits option.splits)

lemma tradeadditem_fair:
  assumes ok: "pair_ok env s" and run: "tradeadditem_pair env s idx amt = Some s'"
  shows "fair env s s'"
proof -
  obtain sd tsd where s: "s = (sd, tsd)" by force
  have pok: "player_ok env sd" "player_ok env tsd" using ok by (simp_all add: pair_ok_def s)
  have zeny_deal: "fair env s (sd\<lparr>deal_zeny := amt\<rparr>, send p tsd)" if "0 < amt" for p
    using ok that by (intro fair_goods) (auto simp: s pair_ok_def player_ok_def deals_ok_def)
  have told: "fair env s (send p sd, tsd)" for p
    using ok by (intro fair_goods) (auto simp: s pair_ok_def player_ok_def)
  have item_deal: "fair env s s'"
    if i: "add_deal sd tsd idx amt 0 0 = Added i" and range: "2 \<le> idx" "idx < 102" "0 < amt"
      and s': "Some s' =
        (let sd = sd\<lparr>deal_item_index := (deal_item_index sd)[i := idx],
                    deal_item_amount := (deal_item_amount sd)[i := deal_item_amount sd ! i + amt]\<rparr>;
             (r, sd) = impossible_trade_check env sd
         in if r \<noteq> 0 then Some (cancel_both (sd, tsd))
            else Some (send (clif_tradeitemok idx 0) sd, send (clif_tradeadditem idx amt) tsd))" for i
  proof -
    define sd0 where "sd0 = sd\<lparr>deal_item_index := (deal_item_index sd)[i := idx],
      deal_item_amount := (deal_item_amount sd)[i := deal_item_amount sd ! i + amt]\<rparr>"
    have "deals_ok sd0"
      using add_deal_place [OF i] range pok(1)
      by (auto simp: sd0_def player_ok_def deals_ok_def nth_list_update)
    then have f0: "fair env s (sd0, tsd)"
      using ok by (intro fair_goods) (auto simp: s pair_ok_def player_ok_def sd0_def)
    obtain r sd1 where c: "impossible_trade_check env sd0 = (r, sd1)" by force
    have f1: "fair env s (sd1, tsd)" using fair_trans [OF f0 check_fair(1) [OF fair_ok [OF f0] c]] .
    have "fair env (sd1, tsd) (send (clif_tradeitemok idx 0) sd1, send (clif_tradeadditem idx amt) tsd)"
      using fair_ok [OF f1] by (intro fair_goods) (auto simp: pair_ok_def player_ok_def)
    from fair_trans [OF f1 this] show ?thesis
      using s' fair_cancel [OF f1] c by (auto simp: sd0_def [symmetric] split: if_splits)
  qed
  show ?thesis
  proof (cases "deal_locked sd < 1 \<and> 2 \<le> idx \<and> idx < 102 \<and> 0 < amt \<and>
      amt \<le> amount (inventory sd ! nat (idx - 2))")
    case True
    then have "(case add_deal sd tsd idx amt 0 0 of
              Crash \<Rightarrow> None
            | Cancelled \<Rightarrow> Some (cancel_both (sd, tsd))
            | Unchanged \<Rightarrow> Some (sd, tsd)
            | Overweight \<Rightarrow> Some (send (clif_tradeitemok idx 1) sd, tsd)
            | Added i \<Rightarrow>
                (let sd = sd\<lparr>deal_item_index := (deal_item_index sd)[i := idx],
                            deal_item_amount := (deal_item_amount sd)[i := deal_item_amount sd ! i + amt]\<rparr>;
                     (r, sd) = impossible_trade_check env sd
                 in if r \<noteq> 0 then Some (cancel_both (sd, tsd))
                    else Some (send (clif_tradeitemok idx 0) sd, send (clif_tradeadditem idx amt) tsd)))
        = Some s'"
      using run by (simp add: tradeadditem_pair_def s MAX_INVENTORY_def)
    then show ?thesis
      using True told item_deal cancel_both_fair [OF ok] fair_refl [OF ok]
      by (cases "add_deal sd tsd idx amt 0 0") (auto simp: s simp del: split_paired_All)
  next
    case False
    then have "s' = s \<or> s' = cancel_both s \<or>
        (0 < amt \<and> s' = (sd\<lparr>deal_zeny := amt\<rparr>, send (clif_tradeadditem 0 amt) tsd))"
      using run by (auto simp: tradeadditem_pair_def s MAX_INVENTORY_def split: if_splits)
    then show ?thesis
      using zeny_deal cancel_both_fair [OF ok] fair_refl [OF ok] by auto
  qed
qed

lemma goods_belongings: "belongings sd' = belongings sd \<Longrightarrow> goods sd' = goods sd"
  by (simp add: belongings_def goods_def)

lemma tradeack_fair:
  assumes ok: "pair_ok env s"
  shows "fair env s (tradeack_pair env type s)"
proof -
  obtain sd tsd where s: "s = (sd, tsd)" by force
  have dq: "belongings (npc_event_dequeue env x) = belongings x" for x
    using ok by (simp add: pair_ok_def player_ok_def session_ok_def keeps_belongings_def)
  define f where "f = (\<lambda>x. if npc_id x \<noteq> 0 then npc_event_dequeue env x else x)"
  have f: "belongings (f x) = belongings x" for x by (simp add: f_def dq)
  define g where "g = (\<lambda>x. if type = 4
    then (send (clif_tradestart type) x)\<lparr>deal_locked := 0, trade_partner := 0\<rparr>
    else send (clif_tradestart type) x)"
  have g: "goods (g x) = goods x" "deals_ok (g x) = deals_ok x"
    "trade_partner (g x) = (if type = 4 then 0 else trade_partner x)" for x
    by (simp_all add: g_def)
  have "tradeack_pair env type s = (f (g sd), f (g tsd))"
    by (simp add: tradeack_pair_def s Let_def f_def g_def)
  then show ?thesis
    using ok g(1,2) goods_belongings [OF f] deals_ok_dealings [OF dealings_belongings [OF f]]
      belongings_eq(9) [OF f] g(3)
    by (auto intro!: fair_goods simp: s pair_ok_def player_ok_def)
qed

section \<open>The store of players\<close>

definition world_ok :: "env \<Rightarrow> players \<Rightarrow> bool" where
  "world_ok env w \<longleftrightarrow> finite (dom w) \<and> w 0 = None \<and>
     (\<forall>a sd. w a = Some sd \<longrightarrow> account_id sd = a \<and> player_ok env sd \<and>
        (trade_partner sd \<noteq> 0 \<longrightarrow> trade_partner sd \<noteq> a \<and>
           (\<exists>tsd. w (trade_partner sd) = Some tsd \<and> trade_partner tsd = a)))"

definition total :: "(session \<Rightarrow> int) \<Rightarrow> players \<Rightarrow> int" where
  "total f w = (\<Sum>a \<in> dom w. f (the (w a)))"

lemma total_update:
  assumes "finite (dom w)" "w a = Some sd"
  shows "total f (w(a \<mapsto> sd')) = total f w - f sd + f sd'"
proof -
  have dom: "dom (w(a \<mapsto> sd')) = insert a (dom w - {a})" and "a \<in> dom w" using assms(2) by auto
  then have "total f w = f sd + (\<Sum>b \<in> dom w - {a}. f (the (w b)))"
    using assms by (simp add: total_def sum.remove)
  moreover have "total f (w(a \<mapsto> sd')) = f sd' + (\<Sum>b \<in> dom w - {a}. f (the (w b)))"
    unfolding total_def dom using assms(1) by (subst sum.insert) (auto intro!: sum.cong)
  ultimately show ?thesis by simp
qed

definition same_world :: "env \<Rightarrow> players \<Rightarrow> players \<Rightarrow> bool" where
  "same_world env w w' \<longleftrightarrow> world_ok env w' \<and> dom w' = dom w \<and>
     (\<forall>k. total (\<lambda>sd. stock k (inventory sd)) w' = total (\<lambda>sd. stock k (inventory sd)) w) \<and>
     total zeny w' = total zeny w"

lemma same_world_refl: "world_ok env w \<Longrightarrow> same_world env w w"
  by (simp add: same_world_def)

lemma same_world_trans: "same_world env w w' \<Longrightarrow> same_world env w' w'' \<Longrightarrow> same_world env w w''"
  by (simp add: same_world_def)

lemma world_okD:
  assumes "world_ok env w" "w a = Some sd"
  shows "account_id sd = a" "player_ok env sd" "a \<noteq> 0" "trade_partner sd \<noteq> 0 \<Longrightarrow> trade_partner sd \<noteq> a"
    and "trade_partner sd \<noteq> 0 \<Longrightarrow> \<exists>tsd. w (trade_partner sd) = Some tsd \<and> trade_partner tsd = a"
    and "finite (dom w)"
  using assms by (auto simp: world_ok_def)

text \<open>A change of two players who are, and stay, partners or free.\<close>

definition mutual :: "int \<Rightarrow> int \<Rightarrow> session \<Rightarrow> session \<Rightarrow> bool" where
  "mutual a b sd tsd \<longleftrightarrow> trade_partner sd = b \<and> trade_partner tsd = a \<or>
     trade_partner sd = 0 \<and> trade_partner tsd = 0"

lemma same_world_pair:
  assumes ok: "world_ok env w" and a: "w a = Some sd" and b: "w b = Some tsd" and "a \<noteq> b"
    and before: "mutual a b sd tsd" and after: "mutual a b sd' tsd'"
    and ok': "pair_ok env (sd', tsd')" and hold: "holdings (sd', tsd') = holdings (sd, tsd)"
    and acc: "account_id sd' = account_id sd" "account_id tsd' = account_id tsd"
  shows "same_world env w (w(a \<mapsto> sd', b \<mapsto> tsd'))"
proof -
  note wa = world_okD [OF ok a] and wb = world_okD [OF ok b]
  have tot: "total f (w(a \<mapsto> sd', b \<mapsto> tsd')) = total f w"
    if "f sd' + f tsd' = f sd + f tsd" for f :: "session \<Rightarrow> int"
    using total_update [OF wa(6) a, of f sd'] total_update [of "w(a \<mapsto> sd')" b tsd f tsd'] b that
      \<open>a \<noteq> b\<close> wa(6) by simp
  have h: "stock k (inventory sd') + stock k (inventory tsd') =
      stock k (inventory sd) + stock k (inventory tsd)" "zeny sd' + zeny tsd' = zeny sd + zeny tsd" for k
    using hold by (simp_all add: holdings_def fun_eq_iff del: split_paired_All)
  have "world_ok env (w(a \<mapsto> sd', b \<mapsto> tsd'))"
    unfolding world_ok_def
  proof (intro conjI allI impI)
    show "finite (dom (w(a \<mapsto> sd', b \<mapsto> tsd')))" using wa(6) by simp
    show "(w(a \<mapsto> sd', b \<mapsto> tsd')) 0 = None" using ok wa(3) wb(3) by (simp add: world_ok_def)
    fix c x assume c: "(w(a \<mapsto> sd', b \<mapsto> tsd')) c = Some x"
    consider (first) "c = a" "x = sd'" | (second) "c = b" "x = tsd'"
      | (other) "c \<noteq> a" "c \<noteq> b" "w c = Some x"
      using c by (auto split: if_splits)
    note which = this
    show "account_id x = c" and "player_ok env x"
      using which ok' acc wa wb world_okD(1,2) [OF ok, of c x]
      by (cases; simp add: pair_ok_def)+
    assume t: "trade_partner x \<noteq> 0"
    have "trade_partner x \<noteq> c \<and>
      (\<exists>tsd''. (w(a \<mapsto> sd', b \<mapsto> tsd')) (trade_partner x) = Some tsd'' \<and> trade_partner tsd'' = c)"
      using which
    proof cases
      case other
      have "trade_partner x \<noteq> a \<and> trade_partner x \<noteq> b"
        using world_okD(5) [OF ok other(3) t] a b before other wa(3) wb(3) world_okD(3) [OF ok other(3)]
        by (auto simp: mutual_def)
      then show ?thesis using world_okD(4,5) [OF ok other(3) t] by auto
    qed (use t after \<open>a \<noteq> b\<close> in \<open>auto simp: mutual_def\<close>)
    then show "trade_partner x \<noteq> c"
      and "\<exists>tsd''. (w(a \<mapsto> sd', b \<mapsto> tsd')) (trade_partner x) = Some tsd'' \<and> trade_partner tsd'' = c"
      by blast+
  qed
  then show ?thesis using tot h a b by (auto simp: same_world_def)
qed

lemma same_world_fair:
  assumes ok: "world_ok env w" and a: "w a = Some sd" and b: "w (trade_partner sd) = Some tsd"
    and fair: "fair env (sd, tsd) (sd', tsd')"
  shows "same_world env w (w(a \<mapsto> sd', trade_partner sd \<mapsto> tsd'))"
proof -
  have t: "trade_partner sd \<noteq> 0" using ok b by (auto simp: world_ok_def)
  have "trade_partner tsd = a" using world_okD(5) [OF ok a t] b by simp
  then show ?thesis
    using fair world_okD(4) [OF ok a t]
    by (intro same_world_pair [OF ok a b]) (auto simp: fair_def partners_ok_def mutual_def)
qed

lemma same_world_one:
  assumes ok: "world_ok env w" and a: "w a = Some sd"
    and same: "goods sd' = goods sd" "deals_ok sd'" "trade_partner sd' = trade_partner sd"
  shows "same_world env w (w(a \<mapsto> sd'))"
proof -
  note wa = world_okD [OF ok a] and g = goods_eq [OF same(1)]
  have pok: "player_ok env sd'" using player_ok_goods [OF same(1,2) wa(2)] .
  have partner: "\<exists>tsd'. (w(a \<mapsto> sd')) b = Some tsd' \<and> trade_partner tsd' = c"
    if "w b = Some tsd" "trade_partner tsd = c" for b c tsd
    using that a same(3) by auto
  have "world_ok env (w(a \<mapsto> sd'))"
    unfolding world_ok_def
  proof (intro conjI allI impI)
    show "finite (dom (w(a \<mapsto> sd')))" using wa(6) by simp
    show "(w(a \<mapsto> sd')) 0 = None" using ok wa(3) by (simp add: world_ok_def)
    fix c x assume c: "(w(a \<mapsto> sd')) c = Some x"
    consider (first) "c = a" "x = sd'" | (other) "c \<noteq> a" "w c = Some x"
      using c by (auto split: if_splits)
    note which = this
    show "account_id x = c" and "player_ok env x"
      using which pok g(3) wa(1) world_okD(1,2) [OF ok, of c x] by (cases; simp)+
    assume t: "trade_partner x \<noteq> 0"
    obtain y where y: "w c = Some y" "trade_partner y = trade_partner x"
      using which a same(3) by cases auto
    from t have t': "trade_partner y \<noteq> 0" using y(2) by simp
    show "trade_partner x \<noteq> c" using world_okD(4) [OF ok y(1) t'] y(2) by simp
    show "\<exists>tsd. (w(a \<mapsto> sd')) (trade_partner x) = Some tsd \<and> trade_partner tsd = c"
      using world_okD(5) [OF ok y(1) t'] y(2) partner by metis
  qed
  then show ?thesis
    using total_update [OF wa(6) a] g a by (auto simp: same_world_def)
qed

section \<open>Deals about items that are still there\<close>

text \<open>
  Every deal names a slot with an item in it, so that \<open>trade_tradeadditem\<close> finds the item data of
  the deals already made.
\<close>

definition live :: "session \<Rightarrow> bool" where
  "live sd \<longleftrightarrow> (\<forall>i < 10. deal_item_amount sd ! i \<noteq> 0 \<longrightarrow>
     nameid (inventory sd ! nat (deal_item_index sd ! i - 2)) \<noteq> 0)"

lemma live_cong:
  assumes "inventory sd' = inventory sd" "deal_item_index sd' = deal_item_index sd"
    "deal_item_amount sd' = deal_item_amount sd"
  shows "live sd' = live sd"
  using assms by (simp add: live_def)

lemma live_send [simp]: "live (send p sd) = live sd" "live (sd\<lparr>deal_zeny := z\<rparr>) = live sd"
  "live (sd\<lparr>deal_locked := z\<rparr>) = live sd" "live (sd\<lparr>trade_partner := z\<rparr>) = live sd"
  by (simp_all add: live_def)

lemma live_none: "deal_item_amount sd = replicate 10 0 \<Longrightarrow> live sd"
  by (simp add: live_def)

lemma live_cancel:
  "pair_ok env s \<Longrightarrow> live (fst (cancel_both s)) \<and> live (snd (cancel_both s))"
  using cancel_one_correct(6) live_none by (simp add: cancel_both_def pair_ok_def player_ok_def)

lemma live_check:
  assumes "impossible_trade_check env sd = (r, sd')"
  shows "live sd' = live sd"
  using impossible_check_frame [OF assms] dealings_eq [of sd' sd] goods_eq(1) [of sd' sd]
  by (intro live_cong) auto

lemma give_deal_amounts:
  assumes ok: "pair_ok env (sd, tsd)" and i: "i < 10" and pos: "deal_item_amount sd ! i > 0"
  shows "deal_item_amount (fst (give_deal env i (sd, tsd))) = (deal_item_amount sd)[i := 0]"
    and "deal_item_amount (snd (give_deal env i (sd, tsd))) = deal_item_amount tsd"
proof -
  define n where "n = nat (deal_item_index sd ! i - 2)"
  have n: "n < MAX_INVENTORY" and sok: "session_ok env sd"
    using ok i pos by (auto simp: pair_ok_def player_ok_def deals_ok_def n_def MAX_INVENTORY_def)
  obtain flag tsd1 where add: "pc_additem env tsd (inventory sd ! n) (deal_item_amount sd ! i) = (flag, tsd1)"
    by force
  have "dealings tsd1 = dealings tsd"
    using dealings_additem(1) [of env tsd "inventory sd ! n" "deal_item_amount sd ! i"] add by simp
  from dealings_eq(4) [OF this] dealings_eq(4) [OF dealings_delitem [OF sok n]]
  show "deal_item_amount (fst (give_deal env i (sd, tsd))) = (deal_item_amount sd)[i := 0]"
    and "deal_item_amount (snd (give_deal env i (sd, tsd))) = deal_item_amount tsd"
    using add by (simp_all add: give_deal_def n_def [symmetric] Let_def)
qed

lemma clamp_deal_amounts:
  "(deal_item_amount (clamp_deal i sd))[i := 0] = (deal_item_amount sd)[i := 0]"
  by (simp add: clamp_deal_def Let_def)

lemma exchange_one_amounts:
  assumes ok: "pair_ok env s" and i: "i < 10"
  shows "deal_item_amount (fst (exchange_one env i s)) = (deal_item_amount (fst s))[i := 0]"
    and "deal_item_amount (snd (exchange_one env i s)) = deal_item_amount (snd s)"
proof -
  obtain sd tsd where s: "s = (sd, tsd)" by force
  have pok: "player_ok env sd" using ok by (simp add: pair_ok_def s)
  then have ge: "0 \<le> deal_item_amount sd ! i" and len: "length (deal_item_amount sd) = 10"
    using i by (auto simp: player_ok_def deals_ok_def)
  define cd where "cd = clamp_deal i sd"
  have "deal_item_amount (fst (exchange_one env i s)) = (deal_item_amount sd)[i := 0] \<and>
      deal_item_amount (snd (exchange_one env i s)) = deal_item_amount tsd"
  proof (cases "deal_item_amount sd ! i > 0")
    case False
    then have "deal_item_amount sd ! i = 0" using ge by simp
    then have "(deal_item_amount sd)[i := 0] = deal_item_amount sd"
      by (metis list_update_id)
    then show ?thesis using False by (simp add: exchange_one_def s)
  next
    case True
    note clamp = clamp_deal_correct [OF pok i True, folded cd_def]
    have ok': "pair_ok env (cd, tsd)"
      using ok player_ok_goods [OF clamp(1,3) pok] by (simp add: pair_ok_def s)
    have zero: "(deal_item_amount cd)[i := 0] = (deal_item_amount sd)[i := 0]"
      by (simp add: cd_def clamp_deal_amounts)
    show ?thesis
    proof (cases "deal_item_amount cd ! i > 0")
      case pos: True
      then show ?thesis
        using give_deal_amounts [OF ok' i pos] zero True
        by (simp add: exchange_one_def s cd_def [symmetric] Let_def)
    next
      case False
      then have "deal_item_amount cd ! i = 0" using clamp(3) i by (force simp: deals_ok_def)
      then have "(deal_item_amount cd)[i := 0] = deal_item_amount cd" by (metis list_update_id)
      then show ?thesis
        using False True zero by (simp add: exchange_one_def s cd_def [symmetric] Let_def)
    qed
  qed
  then show "deal_item_amount (fst (exchange_one env i s)) = (deal_item_amount (fst s))[i := 0]"
    and "deal_item_amount (snd (exchange_one env i s)) = deal_item_amount (snd s)"
    by (simp_all add: s)
qed

lemma exchange_both_amounts:
  assumes ok: "pair_ok env s" and i: "i < 10"
  shows "deal_item_amount (fst (exchange_both env i s)) = (deal_item_amount (fst s))[i := 0]"
    and "deal_item_amount (snd (exchange_both env i s)) = (deal_item_amount (snd s))[i := 0]"
proof -
  have "pair_ok env (swap_pair (exchange_one env i s))"
    using exchanged_ok [OF exchange_one_correct [OF ok i]] by (simp add: pair_ok_swap)
  from exchange_one_amounts [OF this i] exchange_one_amounts [OF ok i]
  show "deal_item_amount (fst (exchange_both env i s)) = (deal_item_amount (fst s))[i := 0]"
    and "deal_item_amount (snd (exchange_both env i s)) = (deal_item_amount (snd s))[i := 0]"
    by (simp_all add: exchange_both_def swap_pair_def)
qed

lemma exchange_loop_amounts:
  "pair_ok env s \<Longrightarrow> n \<le> 10 \<Longrightarrow> j < n \<Longrightarrow>
    deal_item_amount (fst (fold (exchange_both env) [0..<n] s)) ! j = 0 \<and>
    deal_item_amount (snd (fold (exchange_both env) [0..<n] s)) ! j = 0"
proof (induction n)
  case 0
  then show ?case by simp
next
  case (Suc n)
  define t where "t = fold (exchange_both env) [0..<n] s"
  have ok: "pair_ok env t"
    unfolding t_def using Suc.prems by (intro exchanged_ok [OF exchange_loop_correct]) auto
  have len: "length (deal_item_amount (fst t)) = 10" "length (deal_item_amount (snd t)) = 10"
    using ok by (simp_all add: pair_ok_def player_ok_def deals_ok_def)
  have "fold (exchange_both env) [0..<Suc n] s = exchange_both env n t" by (simp add: t_def)
  then show ?case
    using exchange_both_amounts [OF ok, of n] Suc len by (auto simp: nth_list_update t_def)
qed

lemma live_complete:
  assumes "pair_ok env s"
  shows "live (fst (complete env s)) \<and> live (snd (complete env s))"
proof -
  define t where "t = fold (exchange_both env) [0..<10] s"
  have "live (fst t)" "live (snd t)"
    using exchange_loop_amounts [OF assms, of 10] by (simp_all add: live_def t_def)
  moreover have "live (fst (exchange_zeny t)) = live (fst t)" "live (snd (exchange_zeny t)) = live (snd t)"
    by (cases t; simp add: exchange_zeny_result Let_def live_def)+
  ultimately show ?thesis by (simp add: complete_def t_def [symmetric] Let_def finish_one_def)
qed

section \<open>Every packet keeps the world\<close>

definition all_live :: "players \<Rightarrow> bool" where
  "all_live w \<longleftrightarrow> (\<forall>a sd. w a = Some sd \<longrightarrow> live sd)"

lemma all_live_update: "all_live w \<Longrightarrow> live sd' \<Longrightarrow> all_live (w(a \<mapsto> sd'))"
  by (simp add: all_live_def)

text \<open>What one packet may do.\<close>

definition keeps_world :: "env \<Rightarrow> players \<Rightarrow> players \<Rightarrow> bool" where
  "keeps_world env w w' \<longleftrightarrow> same_world env w w' \<and> all_live w'"

lemma keeps_pair:
  assumes ok: "world_ok env w" "all_live w" and a: "w a = Some sd" and b: "w (trade_partner sd) = Some tsd"
    and fair: "fair env (sd, tsd) (sd', tsd')" and live: "live sd' \<and> live tsd'"
  shows "keeps_world env w (w(a \<mapsto> sd', trade_partner sd \<mapsto> tsd'))"
  using same_world_fair [OF ok(1) a b fair] live ok(2) by (simp add: keeps_world_def all_live_update)

lemma keeps_one:
  assumes ok: "world_ok env w" "all_live w" and a: "w a = Some sd"
    and same: "goods sd' = goods sd" "deals_ok sd'" "trade_partner sd' = trade_partner sd" "live sd'"
  shows "keeps_world env w (w(a \<mapsto> sd'))"
  using same_world_one [OF ok(1) a same(1,2,3)] same(4) ok(2)
  by (simp add: keeps_world_def all_live_update)

lemma keeps_refl: "world_ok env w \<Longrightarrow> all_live w \<Longrightarrow> keeps_world env w w"
  by (simp add: keeps_world_def same_world_refl)

lemma keeps_told:
  assumes ok: "world_ok env w" "all_live w" and a: "w a = Some sd"
  shows "keeps_world env w (w(a \<mapsto> send p sd))"
  using world_okD(2) [OF ok(1) a] ok(2) a
  by (intro keeps_one [OF ok a]) (auto simp: player_ok_def all_live_def)

lemma pair_in_world:
  assumes "world_ok env w" "w a = Some sd" "w b = Some tsd"
  shows "pair_ok env (sd, tsd)"
  using world_okD(2) assms by (simp add: pair_ok_def)

lemma with_partner_keeps:
  assumes ok: "world_ok env w" "all_live w"
    and f: "\<And>s. pair_ok env s \<Longrightarrow> fair env s (f s)"
    and l: "\<And>s. pair_ok env s \<Longrightarrow> live (fst s) \<Longrightarrow> live (snd s) \<Longrightarrow> live (fst (f s)) \<and> live (snd (f s))"
  shows "keeps_world env w (with_partner f w a)"
proof (cases "w a")
  case None
  then show ?thesis using ok by (simp add: with_partner_def keeps_refl)
next
  case (Some sd)
  show ?thesis
  proof (cases "w (trade_partner sd)")
    case None
    then show ?thesis using ok Some by (simp add: with_partner_def keeps_refl)
  next
    case b: (Some tsd)
    obtain sd' tsd' where r: "f (sd, tsd) = (sd', tsd')" by force
    note pok = pair_in_world [OF ok(1) Some b]
    have "live sd" "live tsd" using ok(2) Some b by (auto simp: all_live_def)
    then show ?thesis
      using keeps_pair [OF ok Some b] f [OF pok] l [OF pok] r Some b by (simp add: with_partner_def)
  qed
qed

lemma live_tradeok:
  assumes "pair_ok env s" "live (fst s)" "live (snd s)"
  shows "live (fst (tradeok_pair env s)) \<and> live (snd (tradeok_pair env s))"
proof -
  obtain sd tsd where s: "s = (sd, tsd)" by force
  obtain r sd1 where c: "impossible_trade_check env sd = (r, sd1)" by force
  have "pair_ok env (sd1, tsd)"
    using fair_ok [OF check_fair(1) [of env sd tsd]] assms(1) c by (simp add: s)
  then show ?thesis
    using assms live_cancel [of env s] live_cancel [of env "(sd1, tsd)"] live_check [OF c] c
    by (simp add: tradeok_pair_def s Let_def)
qed

lemma live_tradecommit:
  assumes ok: "pair_ok env s" and l: "live (fst s)" "live (snd s)"
  shows "live (fst (tradecommit_pair env s)) \<and> live (snd (tradecommit_pair env s))"
proof -
  obtain sd tsd where s: "s = (sd, tsd)" by force
  define sd0 where "sd0 = sd\<lparr>deal_locked := 2\<rparr>"
  obtain r sd1 where c1: "impossible_trade_check env sd0 = (r, sd1)" by force
  obtain r' tsd1 where c2: "impossible_trade_check env tsd = (r', tsd1)" by force
  obtain b q where tc: "trade_check env (sd1, tsd1) = (b, q)" by (rule prod.exhaust)
  have f0: "pair_ok env (sd0, tsd)"
    using ok player_ok_goods [of sd0 sd env] by (auto simp: s pair_ok_def sd0_def player_ok_def)
  have p1: "pair_ok env (sd1, tsd)" using fair_ok [OF check_fair(1) [OF f0 c1]] .
  have p2: "pair_ok env (sd1, tsd1)"
    using fair_ok [OF check_fair(1) [of env tsd sd1, OF _ c2]] p1 by (simp add: pair_ok_def)
  have q: "pair_ok env q" using fair_ok [OF trade_check_fair(1) [OF p2 tc]] .
  show ?thesis
  proof (cases "deal_locked sd > 0 \<and> deal_locked tsd = 2")
    case False
    then show ?thesis using l by (auto simp: tradecommit_pair_def s Let_def)
  next
    case True
    then have run: "tradecommit_pair env s =
        (if r \<noteq> 0 then cancel_both (sd1, tsd)
         else if trade_restrictions env sd1 then cancel_both (sd1, tsd)
         else if r' \<noteq> 0 then cancel_both (sd1, tsd1)
         else if zeny_fits sd1 tsd1 \<and> zeny_fits tsd1 sd1
           then (if b then complete env q else cancel_both q)
         else cancel_both (sd1, tsd1))"
      using c1 c2 tc by (auto simp: tradecommit_pair_def s Let_def sd0_def split: bool.splits)
    show ?thesis
      using live_cancel [OF p1] live_cancel [OF p2] live_cancel [OF q] live_complete [OF q]
      by (simp add: run)
  qed
qed

lemma live_tradeack:
  assumes "pair_ok env s" "live (fst s)" "live (snd s)"
  shows "live (fst (tradeack_pair env type s)) \<and> live (snd (tradeack_pair env type s))"
proof -
  have dq: "belongings (npc_event_dequeue env x) = belongings x" for x
    using assms(1) by (simp add: pair_ok_def player_ok_def session_ok_def keeps_belongings_def)
  have "live (npc_event_dequeue env x) = live x" for x
    using belongings_eq [OF dq [of x]] by (intro live_cong)
  then show ?thesis using assms(2,3) by (cases s) (simp add: tradeack_pair_def Let_def)
qed

text \<open>A slot with pieces has an item and its data.\<close>

lemma item_data_there:
  assumes "session_ok env sd" "n < MAX_INVENTORY" "nameid (inventory sd ! n) \<noteq> 0"
  shows "inventory_data sd ! n \<noteq> None"
  using assms by (simp add: session_ok_def inventory_ok_def)

lemma pieces_named:
  assumes "session_ok env sd" "n < MAX_INVENTORY" "0 < amount (inventory sd ! n)"
  shows "nameid (inventory sd ! n) \<noteq> 0"
proof -
  have "slot_ok (inventory sd ! n)" using assms session_ok_slots(1,3) [OF assms(1)] by simp
  then show ?thesis using assms(3) by (auto simp: slot_ok_def)
qed

lemma add_deal_no_crash:
  assumes "player_ok env sd" "live sd" "inventory_data sd ! nat (idx - 2) \<noteq> None"
  shows "add_deal sd tsd idx amt i w \<noteq> Crash"
  using assms
proof (induction sd tsd idx amt i w rule: add_deal.induct)
  case (1 sd tsd idx amt i w)
  have sok: "session_ok env sd" and dok: "deals_ok sd" using 1 by (simp_all add: player_ok_def)
  consider (full) "10 \<le> i" | (free) "i < 10" "deal_item_amount sd ! i = 0"
    | (taken) "i < 10" "deal_item_amount sd ! i \<noteq> 0" by linarith
  then show ?case
  proof cases
    case full
    then show ?thesis by (subst add_deal.simps) simp
  next
    case free
    then show ?thesis
      using "1.prems"(3) by (subst add_deal.simps) (auto simp: Let_def split: option.splits)
  next
    case taken
    have "inventory_data sd ! nat (deal_item_index sd ! i - 2) \<noteq> None"
      using taken "1.prems" dok
      by (intro item_data_there [OF sok]) (auto simp: deals_ok_def live_def MAX_INVENTORY_def)
    then obtain d where d: "inventory_data sd ! nat (deal_item_index sd ! i - 2) = Some d" by auto
    from taken d have "\<not> 10 \<le> i" by simp
    note IH = "1.IH" [OF this taken(2) d "1.prems"]
    then show ?thesis
      using taken d by (subst add_deal.simps) simp
  qed
qed

lemma tradeadditem_live:
  assumes ok: "pair_ok env s" and l: "live (fst s)" "live (snd s)"
  shows "\<exists>s'. tradeadditem_pair env s idx amt = Some s' \<and> live (fst s') \<and> live (snd s')"
proof -
  obtain sd tsd where s: "s = (sd, tsd)" by force
  have pok: "player_ok env sd" and sok: "session_ok env sd" using ok by (simp_all add: pair_ok_def player_ok_def s)
  show ?thesis
  proof (cases "deal_locked sd < 1 \<and> 2 \<le> idx \<and> idx < 102 \<and> 0 < amt \<and>
      amt \<le> amount (inventory sd ! nat (idx - 2))")
    case False
    define z where "z = (sd\<lparr>deal_zeny := amt\<rparr>, send (clif_tradeadditem 0 amt) tsd)"
    have "tradeadditem_pair env s idx amt \<in> {Some s, Some (cancel_both s), Some z}"
    proof (cases "idx = 0")
      case True
      then have "tradeadditem_pair env s idx amt =
          (if deal_locked sd < 1 then
             (if amt > 0 \<and> amt \<le> MAX_ZENY \<and> amt \<le> zeny sd \<and> zeny tsd + amt \<le> MAX_ZENY then Some z
              else if amt \<noteq> 0 then Some (cancel_both s) else Some s)
           else Some s)"
        by (simp add: tradeadditem_pair_def s z_def)
      then show ?thesis by (simp del: insert_iff) (intro impI insertI1 insertI2 conjI)
    next
      case nz: False
      with False have "tradeadditem_pair env s idx amt = Some s"
        by (auto simp: tradeadditem_pair_def s MAX_INVENTORY_def)
      then show ?thesis by simp
    qed
    then have "tradeadditem_pair env s idx amt = Some s \<or>
        tradeadditem_pair env s idx amt = Some (cancel_both s) \<or>
        tradeadditem_pair env s idx amt =
          Some (sd\<lparr>deal_zeny := amt\<rparr>, send (clif_tradeadditem 0 amt) tsd)"
      by (simp add: z_def)
    then obtain s' where s': "tradeadditem_pair env s idx amt = Some s'"
        "s' = s \<or> s' = cancel_both s \<or> s' = (sd\<lparr>deal_zeny := amt\<rparr>, send (clif_tradeadditem 0 amt) tsd)"
      by blast
    then have "live (fst s') \<and> live (snd s')" using l live_cancel [OF ok] by (auto simp: s)
    with s'(1) show ?thesis by blast
  next
    case True
    then have idx: "nat (idx - 2) < MAX_INVENTORY" unfolding MAX_INVENTORY_def by linarith
    have named: "nameid (inventory sd ! nat (idx - 2)) \<noteq> 0" using pieces_named [OF sok idx] True by simp
    have no: "add_deal sd tsd idx amt 0 0 \<noteq> Crash"
      using add_deal_no_crash [OF pok _ item_data_there [OF sok idx named]] l(1) s by simp
    have item_deal: "\<exists>s'. tradeadditem_pair env s idx amt = Some s' \<and> live (fst s') \<and> live (snd s')"
      if i: "add_deal sd tsd idx amt 0 0 = Added i" for i
    proof -
      define sd0 where "sd0 = sd\<lparr>deal_item_index := (deal_item_index sd)[i := idx],
        deal_item_amount := (deal_item_amount sd)[i := deal_item_amount sd ! i + amt]\<rparr>"
      obtain r sd1 where c: "impossible_trade_check env sd0 = (r, sd1)" by force
      have "deals_ok sd0"
        using add_deal_place [OF i] True pok
        by (auto simp: sd0_def player_ok_def deals_ok_def nth_list_update)
      then have "player_ok env sd0" using player_ok_goods [OF _ _ pok] by (simp add: sd0_def)
      then have p0: "pair_ok env (sd0, tsd)" using ok by (simp add: s pair_ok_def)
      have p1: "pair_ok env (sd1, tsd)" using fair_ok [OF check_fair(1) [OF p0 c]] .
      have "live sd0"
        using l(1) named add_deal_place [OF i] pok
        by (auto simp: s live_def sd0_def nth_list_update player_ok_def deals_ok_def)
      then have "live sd1" using live_check [OF c] by simp
      moreover have "tradeadditem_pair env s idx amt =
          (if r \<noteq> 0 then Some (cancel_both (sd1, tsd))
           else Some (send (clif_tradeitemok idx 0) sd1, send (clif_tradeadditem idx amt) tsd))"
        using True i c by (simp add: tradeadditem_pair_def s MAX_INVENTORY_def sd0_def [symmetric])
      ultimately show ?thesis using live_cancel [OF p1] l by (simp add: s del: split_paired_Ex)
    qed
    show ?thesis
    proof (cases "add_deal sd tsd idx amt 0 0")
      case (Added i)
      then show ?thesis using item_deal by simp
    qed (use True no l live_cancel [OF ok] in \<open>simp_all add: tradeadditem_pair_def s MAX_INVENTORY_def\<close>)
  qed
qed

lemma tradeadditem_keeps:
  assumes ok: "world_ok env w" "all_live w"
  shows "\<exists>w'. trade_tradeadditem env w a idx amt = Some w' \<and> keeps_world env w w'"
proof (cases "w a")
  case None
  then show ?thesis using keeps_refl [OF ok] by (simp add: trade_tradeadditem_def)
next
  case (Some sd)
  show ?thesis
  proof (cases "w (trade_partner sd)")
    case None
    then show ?thesis using keeps_refl [OF ok] Some by (simp add: trade_tradeadditem_def)
  next
    case b: (Some tsd)
    note pok = pair_in_world [OF ok(1) Some b]
    have "live sd" "live tsd" using ok(2) Some b by (auto simp: all_live_def)
    then obtain s' where s': "tradeadditem_pair env (sd, tsd) idx amt = Some s'"
        "live (fst s')" "live (snd s')"
      using tradeadditem_live [OF pok, of idx amt] by (auto simp del: split_paired_Ex)
    obtain sd' tsd' where eq: "s' = (sd', tsd')" by force
    have "keeps_world env w (w(a \<mapsto> sd', trade_partner sd \<mapsto> tsd'))"
      using keeps_pair [OF ok Some b] tradeadditem_fair [OF pok s'(1)] s' eq by simp
    then show ?thesis using s'(1) eq Some b by (simp add: trade_tradeadditem_def)
  qed
qed

lemma cancel_keeps: "world_ok env w \<Longrightarrow> all_live w \<Longrightarrow> keeps_world env w (trade_tradecancel w a)"
  unfolding trade_tradecancel_def
  using cancel_both_fair live_cancel by (intro with_partner_keeps) auto

lemma traderequest_keeps:
  assumes ok: "world_ok env w" "all_live w"
  shows "keeps_world env w (trade_traderequest env w a b near)"
proof (cases "w a")
  case None
  then show ?thesis using keeps_refl [OF ok] by (simp add: trade_traderequest_def)
next
  case (Some sd)
  note told = keeps_told [OF ok Some]
  show ?thesis
  proof (cases "w b")
    case None
    then show ?thesis using told Some by (simp add: trade_traderequest_def)
  next
    case b: (Some tsd)
    define sd' where "sd' = sd\<lparr>trade_partner := account_id tsd\<rparr>"
    define tsd' where "tsd' = send (clif_traderequest (account_id sd)) (tsd\<lparr>trade_partner := account_id sd\<rparr>)"
    have new: "keeps_world env w (w(b \<mapsto> tsd', a \<mapsto> sd'))"
      if free: "trade_partner sd = 0" "trade_partner tsd = 0" "a \<noteq> b"
    proof -
      note wa = world_okD [OF ok(1) Some] and wb = world_okD [OF ok(1) b]
      have "player_ok env sd'" "player_ok env tsd'"
        using wa(2) wb(2) player_ok_goods [of sd' sd env] player_ok_goods [of tsd' tsd env]
        by (auto simp: sd'_def tsd'_def player_ok_def)
      then have "same_world env w (w(a \<mapsto> sd', b \<mapsto> tsd'))"
        using free wa(1) wb(1)
        by (intro same_world_pair [OF ok(1) Some b])
          (simp_all add: mutual_def sd'_def tsd'_def pair_ok_def holdings_def)
      moreover have "live sd'" "live tsd'"
        using ok(2) Some b by (simp_all add: all_live_def sd'_def tsd'_def)
      ultimately show ?thesis
        using ok(2) fun_upd_twist [OF free(3), of w "Some sd'" "Some tsd'"]
        by (simp add: keeps_world_def all_live_update)
    qed
    show ?thesis
      using told cancel_keeps [OF ok] new Some b
      by (cases "a = b"; simp add: trade_traderequest_def sd'_def tsd'_def)
  qed
qed

lemma tradeok_keeps:
  assumes ok: "world_ok env w" "all_live w"
  shows "keeps_world env w (trade_tradeok env w a)"
proof (cases "w a")
  case None
  then show ?thesis using keeps_refl [OF ok] by (simp add: trade_tradeok_def)
next
  case (Some sd)
  obtain r sd1 where c: "impossible_trade_check env sd = (r, sd1)" by force
  note f = impossible_check_frame [OF c]
  have "keeps_world env w (w(a \<mapsto> sd1))"
    using f(1) dealings_eq(2) [OF f(2)] deals_ok_dealings [OF f(2)] world_okD(2) [OF ok(1) Some]
      live_check [OF c] ok(2) Some
    by (intro keeps_one [OF ok Some]) (auto simp: player_ok_def all_live_def)
  moreover have "keeps_world env w (with_partner (tradeok_pair env) w a)"
    using tradeok_fair live_tradeok by (intro with_partner_keeps [OF ok]) auto
  ultimately show ?thesis
    using keeps_refl [OF ok] Some c by (simp add: trade_tradeok_def split: option.split)
qed

lemma parse_Trade_keeps:
  assumes ok: "world_ok env w" "all_live w"
  shows "\<exists>w'. clif_parse_Trade env w a p = Some w' \<and> keeps_world env w w'"
proof (cases p)
  case (TradeRequest b)
  then show ?thesis
    using traderequest_keeps [OF ok] keeps_told [OF ok] keeps_refl [OF ok]
    by (simp add: clif_parse_TradeRequest_def split: option.split)
next
  case (TradeAck type)
  have "keeps_world env w (with_partner (tradeack_pair env type) w a)"
    using tradeack_fair live_tradeack by (intro with_partner_keeps [OF ok]) auto
  then show ?thesis using keeps_refl [OF ok] TradeAck by (simp add: trade_tradeack_def)
next
  case TradeCommit
  have "keeps_world env w (with_partner (tradecommit_pair env) w a)"
    using tradecommit_fair live_tradecommit by (intro with_partner_keeps [OF ok]) auto
  then show ?thesis using TradeCommit by (simp add: trade_tradecommit_def)
qed (simp_all add: tradeadditem_keeps [OF ok] tradeok_keeps [OF ok] cancel_keeps [OF ok])

lemma trade_run_keeps:
  "world_ok env w \<Longrightarrow> all_live w \<Longrightarrow> \<exists>w'. trade_run env w ps = Some w' \<and> keeps_world env w w'"
proof (induction ps arbitrary: w)
  case Nil
  then show ?case by (simp add: keeps_refl)
next
  case (Cons x ps)
  obtain a p where x: "x = (a, p)" by force
  obtain w1 where w1: "clif_parse_Trade env w a p = Some w1" "keeps_world env w w1"
    using parse_Trade_keeps [OF Cons.prems] by blast
  then obtain w2 where "trade_run env w1 ps = Some w2" "keeps_world env w1 w2"
    using Cons.IH [of w1] by (auto simp: keeps_world_def same_world_def)
  then show ?case
    using w1 same_world_trans [of env w w1 w2] by (simp add: x keeps_world_def)
qed

text \<open>A commit after both players have pressed the button either cancels or completes.\<close>

lemma cancel_both_settled:
  assumes "pair_ok env s"
  shows "deal_item_amount (fst (cancel_both s)) = replicate 10 0"
    "deal_item_amount (snd (cancel_both s)) = replicate 10 0"
    "trade_partner (fst (cancel_both s)) = 0" "trade_partner (snd (cancel_both s)) = 0"
    "goods (fst (cancel_both s)) = goods (fst s)" "goods (snd (cancel_both s)) = goods (snd s)"
  using assms cancel_one_correct by (simp_all add: cancel_both_def pair_ok_def player_ok_def)

lemma complete_amounts:
  assumes "pair_ok env s"
  shows "deal_item_amount (fst (complete env s)) = replicate 10 0"
    "deal_item_amount (snd (complete env s)) = replicate 10 0"
proof -
  define t where "t = fold (exchange_both env) [0..<10] s"
  have "pair_ok env t"
    unfolding t_def by (rule exchanged_ok [OF exchange_loop_correct [OF assms]]) simp
  then have len: "length (deal_item_amount (fst t)) = 10" "length (deal_item_amount (snd t)) = 10"
    by (simp_all add: pair_ok_def player_ok_def deals_ok_def)
  have zero: "deal_item_amount (fst t) = replicate 10 0" "deal_item_amount (snd t) = replicate 10 0"
    using len exchange_loop_amounts [OF assms, of 10] by (auto simp: list_eq_iff_nth_eq t_def)
  then show "deal_item_amount (fst (complete env s)) = replicate 10 0"
    "deal_item_amount (snd (complete env s)) = replicate 10 0"
    by (cases t; simp add: complete_def t_def [symmetric] Let_def finish_one_def exchange_zeny_result)+
qed

definition settled :: "session \<times> session \<Rightarrow> bool" where
  "settled s \<longleftrightarrow> trade_partner (fst s) = 0 \<and> trade_partner (snd s) = 0 \<and>
     deal_item_amount (fst s) = replicate 10 0 \<and> deal_item_amount (snd s) = replicate 10 0"

lemma tradecommit_run:
  assumes "0 < deal_locked sd" "deal_locked tsd = 2"
    and "impossible_trade_check env (sd\<lparr>deal_locked := 2\<rparr>) = (r, sd1)"
    and "impossible_trade_check env tsd = (r', tsd1)"
    and "trade_check env (sd1, tsd1) = (b, q)"
  shows "tradecommit_pair env (sd, tsd) =
    (if r \<noteq> 0 then cancel_both (sd1, tsd)
     else if trade_restrictions env sd1 then cancel_both (sd1, tsd)
     else if r' \<noteq> 0 then cancel_both (sd1, tsd1)
     else if zeny_fits sd1 tsd1 \<and> zeny_fits tsd1 sd1
       then (if b then complete env q else cancel_both q)
     else cancel_both (sd1, tsd1))"
  using assms by (auto simp: tradecommit_pair_def Let_def split: bool.splits)

section \<open>Properties\<close>

text \<open>Two players who have no deal open.\<close>

definition two_players :: "session \<Rightarrow> session \<Rightarrow> players" where
  "two_players sd tsd = (\<lambda>a. if a = 1 then Some sd else if a = 2 then Some tsd else None)"

definition seller :: session where
  "seller = plain_session 1 500 [stack 512 7, stack 513 2] []"

definition buyer :: session where
  "buyer = plain_session 2 900 [stack 514 1] [stack 515 1]"

lemma plain_player_ok:
  assumes "session_ok plain_env (plain_session acc z its crt)" "0 \<le> z" "z \<le> MAX_ZENY"
  shows "player_ok plain_env (plain_session acc z its crt)" "live (plain_session acc z its crt)"
    "trade_partner (plain_session acc z its crt) = 0" "account_id (plain_session acc z its crt) = acc"
  using assms by (simp_all add: player_ok_def plain_session_def deals_ok_def live_def)

lemma two_players_ok:
  "world_ok plain_env (two_players seller buyer)" "all_live (two_players seller buyer)"
proof -
  have ok: "session_ok plain_env (plain_session 1 500 [stack 512 7, stack 513 2] [])"
    "session_ok plain_env (plain_session 2 900 [stack 514 1] [stack 515 1])"
    by (simp_all add: plain_session_ok slot_ok_stack)
  note s = plain_player_ok [OF ok(1)] plain_player_ok [OF ok(2)]
  have "dom (two_players seller buyer) = {1, 2}" by (auto simp: two_players_def split: if_splits)
  then show "world_ok plain_env (two_players seller buyer)"
    using s by (auto simp: world_ok_def two_players_def seller_def buyer_def MAX_ZENY_def split: if_splits)
  show "all_live (two_players seller buyer)"
    using s by (auto simp: all_live_def two_players_def seller_def buyer_def MAX_ZENY_def split: if_splits)
qed

text \<open>
  C7: however the clients of any number of players interleave the packets of a trade, with
  whatever indexes and amounts, the map server does not crash on them, no piece of any kind of
  item and no zeny appears or is lost over all players together, every session stays well-formed,
  purses stay between 0 and the maximum, and partnership stays symmetric.
\<close>

theorem trade_conserves:
  assumes "world_ok env w" "all_live w"
  shows "\<exists>w'. trade_run env w ps = Some w' \<and> world_ok env w' \<and> all_live w' \<and> dom w' = dom w \<and>
    (\<forall>k. total (\<lambda>sd. stock k (inventory sd)) w' = total (\<lambda>sd. stock k (inventory sd)) w) \<and>
    total zeny w' = total zeny w"
  using trade_run_keeps [OF assms, of ps] by (auto simp: keeps_world_def same_world_def)

theorem trade_conserves_witness:
  "let w = two_players seller buyer;
       ps = [(1, TradeRequest 2), (2, TradeAck 3), (1, TradeAddItem 2 5), (2, TradeAddItem 0 300),
             (1, TradeOk), (2, TradeOk), (1, TradeCommit), (2, TradeCommit)] in
    \<exists>w'. trade_run plain_env w ps = Some w' \<and> world_ok plain_env w' \<and> all_live w' \<and> dom w' = dom w \<and>
      (\<forall>k. total (\<lambda>sd. stock k (inventory sd)) w' = total (\<lambda>sd. stock k (inventory sd)) w) \<and>
      total zeny w' = total zeny w"
  unfolding Let_def by (rule trade_conserves [OF two_players_ok])

text \<open>
  C8: when the second player confirms, the trade is over whatever happens: no partner, no open
  deal on either side; and either nobody's goods have changed, or the zeny agreed on, and only it,
  has changed hands.
\<close>

theorem tradecommit_settles:
  assumes ok: "pair_ok env (sd, tsd)" and locked: "0 < deal_locked sd" "deal_locked tsd = 2"
    and run: "tradecommit_pair env (sd, tsd) = (sd', tsd')"
  shows "settled (sd', tsd') \<and>
    (goods sd' = goods sd \<and> goods tsd' = goods tsd \<or>
     zeny_fits sd tsd \<and> zeny_fits tsd sd \<and>
       zeny sd' = zeny sd - deal_zeny sd + deal_zeny tsd \<and>
       zeny tsd' = zeny tsd - deal_zeny tsd + deal_zeny sd)"
proof -
  define sd0 where "sd0 = sd\<lparr>deal_locked := 2\<rparr>"
  obtain r sd1 where c1: "impossible_trade_check env sd0 = (r, sd1)" by force
  obtain r' tsd1 where c2: "impossible_trade_check env tsd = (r', tsd1)" by force
  obtain b q where tc: "trade_check env (sd1, tsd1) = (b, q)" by (rule prod.exhaust)
  note result = tradecommit_run [OF locked c1 [unfolded sd0_def] c2 tc]
  have p0: "pair_ok env (sd0, tsd)"
    using ok player_ok_goods [of sd0 sd env] by (auto simp: pair_ok_def sd0_def player_ok_def)
  have p1: "pair_ok env (sd1, tsd)" using fair_ok [OF check_fair(1) [OF p0 c1]] .
  have p2: "pair_ok env (sd1, tsd1)"
    using fair_ok [OF check_fair(1) [of env tsd sd1, OF _ c2]] p1 by (simp add: pair_ok_def)
  have q: "pair_ok env q" using fair_ok [OF trade_check_fair(1) [OF p2 tc]] .
  have g: "goods sd1 = goods sd" "goods tsd1 = goods tsd" "goods (fst q) = goods sd1" "goods (snd q) = goods tsd1"
    using impossible_check_frame(1) [OF c1] impossible_check_frame(1) [OF c2] tc
    by (auto simp: sd0_def trade_check_def split: if_splits)
  have z: "zeny sd1 = zeny sd" "deal_zeny sd1 = deal_zeny sd" "zeny tsd1 = zeny tsd" "deal_zeny tsd1 = deal_zeny tsd"
    using check_fair(2,3) [OF p0 c1] check_fair(2,3) [of env tsd sd1, OF _ c2] p2 p1
    by (simp_all add: sd0_def pair_ok_def)
  have done_: "q = (sd1, tsd1)" if b using trade_check_fair(2) tc that by simp
  have full: "settled (complete env q) \<and> zeny_fits sd tsd \<and> zeny_fits tsd sd \<and>
      zeny (fst (complete env q)) = zeny sd - deal_zeny sd + deal_zeny tsd \<and>
      zeny (snd (complete env q)) = zeny tsd - deal_zeny tsd + deal_zeny sd"
    if "b" "zeny_fits sd1 tsd1" "zeny_fits tsd1 sd1"
  proof -
    note cc = complete_correct [OF q]
    have "holdings (complete env q) = holdings q" using cc(1) done_ [OF that(1)] that by (simp add: fair_def)
    then show ?thesis
      using cc complete_amounts [OF q] done_ [OF that(1)] that z
      by (simp add: settled_def holdings_def zeny_fits_def)
  qed
  show ?thesis
    using run [symmetric] full cancel_both_settled [OF p1] cancel_both_settled [OF p2]
      cancel_both_settled [OF q] g
    unfolding result by (cases "cancel_both q"; cases "complete env q")
      (auto simp: settled_def cancel_both_def split: if_splits)
qed

text \<open>Five pieces are dealt for 300 zeny; meanwhile the buyer has loaded up to the limit.\<close>

definition paid_seller :: session where
  "paid_seller = seller\<lparr>deal_item_index := (deal_item_index seller)[0 := 2],
     deal_item_amount := (deal_item_amount seller)[0 := 5], deal_locked := 1, trade_partner := 2\<rparr>"

definition full_buyer :: session where
  "full_buyer = (plain_session 2 900 (map (\<lambda>i. stack (600 + int i) 30000) [0..<6] @ [stack 515 20000]) [])
     \<lparr>deal_zeny := 300, deal_locked := 2, trade_partner := 1\<rparr>"

lemma paid_pair_ok: "pair_ok plain_env (paid_seller, full_buyer)"
proof -
  have ok: "session_ok plain_env (plain_session 1 500 [stack 512 7, stack 513 2] [])"
    "session_ok plain_env (plain_session 2 900 (map (\<lambda>i. stack (600 + int i) 30000) [0..<6] @ [stack 515 20000]) [])"
    by (auto simp: plain_session_ok slot_ok_stack)
  have "goods paid_seller = goods (plain_session 1 500 [stack 512 7, stack 513 2] [])"
    "goods full_buyer = goods (plain_session 2 900 (map (\<lambda>i. stack (600 + int i) 30000) [0..<6] @ [stack 515 20000]) [])"
    by (simp_all add: paid_seller_def full_buyer_def seller_def)
  moreover have "deals_ok paid_seller" "deals_ok full_buyer"
    by (auto simp: deals_ok_def paid_seller_def full_buyer_def seller_def plain_session_def nth_list_update)
  moreover have "zeny paid_seller = 500" "zeny full_buyer = 900"
    by (simp_all add: paid_seller_def full_buyer_def seller_def plain_session_def)
  ultimately show ?thesis
    using ok goods_eq(4) [of paid_seller _ plain_env] goods_eq(4) [of full_buyer _ plain_env]
    by (simp add: pair_ok_def player_ok_def MAX_ZENY_def)
qed

theorem tradecommit_settles_witness:
  "let s = tradecommit_pair plain_env (paid_seller, full_buyer) in
   settled (fst s, snd s) \<and>
    (goods (fst s) = goods paid_seller \<and> goods (snd s) = goods full_buyer \<or>
     zeny_fits paid_seller full_buyer \<and> zeny_fits full_buyer paid_seller \<and>
       zeny (fst s) = zeny paid_seller - deal_zeny paid_seller + deal_zeny full_buyer \<and>
       zeny (snd s) = zeny full_buyer - deal_zeny full_buyer + deal_zeny paid_seller)"
  unfolding Let_def
  by (rule tradecommit_settles [OF paid_pair_ok])
    (simp_all add: paid_seller_def full_buyer_def)

text \<open>
  The zeny changes hands although not a single piece does: \<open>trade_check\<close> does not compare
  weights, \<open>pc_additem\<close> refuses, and \<open>trade_tradecommit\<close> pays all the same.
\<close>

lemma trade_checks_pass:
  "fst (impossible_trade_check plain_env (paid_seller\<lparr>deal_locked := 2\<rparr>)) = 0"
  "snd (impossible_trade_check plain_env (paid_seller\<lparr>deal_locked := 2\<rparr>)) = paid_seller\<lparr>deal_locked := 2\<rparr>"
  "fst (impossible_trade_check plain_env full_buyer) = 0"
  "snd (impossible_trade_check plain_env full_buyer) = full_buyer"
proof -
  have "deal_check (deals (paid_seller\<lparr>deal_locked := 2\<rparr>)) (inventory (paid_seller\<lparr>deal_locked := 2\<rparr>)) = Fine"
    "deal_check (deals full_buyer) (inventory full_buyer) = Fine" by code_simp+
  then show "fst (impossible_trade_check plain_env (paid_seller\<lparr>deal_locked := 2\<rparr>)) = 0"
    "snd (impossible_trade_check plain_env (paid_seller\<lparr>deal_locked := 2\<rparr>)) = paid_seller\<lparr>deal_locked := 2\<rparr>"
    "fst (impossible_trade_check plain_env full_buyer) = 0"
    "snd (impossible_trade_check plain_env full_buyer) = full_buyer"
    by (simp_all add: impossible_trade_check_def)
qed

lemma paid_commit:
  "tradecommit_pair plain_env (paid_seller, full_buyer) =
    complete plain_env (paid_seller\<lparr>deal_locked := 2\<rparr>, full_buyer)"
proof -
  define sd where "sd = paid_seller\<lparr>deal_locked := 2\<rparr>"
  have c1: "impossible_trade_check plain_env sd = (0, sd)"
    using trade_checks_pass(1,2) by (simp add: sd_def prod_eq_iff)
  have c2: "impossible_trade_check plain_env full_buyer = (0, full_buyer)"
    using trade_checks_pass(3,4) by (simp add: prod_eq_iff)
  have "check_deals plain_env (deals (paid_seller\<lparr>deal_locked := 2\<rparr>)) (deals full_buyer)
      (inventory (paid_seller\<lparr>deal_locked := 2\<rparr>)) (inventory full_buyer)" by code_simp
  then have tc: "trade_check plain_env (sd, full_buyer) = (True, sd, full_buyer)"
    by (simp add: trade_check_def sd_def)
  have "zeny_fits (paid_seller\<lparr>deal_locked := 2\<rparr>) full_buyer \<and>
    zeny_fits full_buyer (paid_seller\<lparr>deal_locked := 2\<rparr>) \<and>
    \<not> trade_restrictions plain_env (paid_seller\<lparr>deal_locked := 2\<rparr>)" by code_simp
  then show ?thesis
    using tradecommit_run [OF _ _ c1 [unfolded sd_def] c2 tc [unfolded sd_def]]
    by (simp add: sd_def [symmetric] paid_seller_def full_buyer_def)
qed

lemma trade_paid_for_nothing:
  "let (sd, tsd) = tradecommit_pair plain_env (paid_seller, full_buyer) in
    zeny paid_seller = 500 \<and> zeny full_buyer = 900 \<and> zeny sd = 800 \<and> zeny tsd = 600 \<and>
    map (\<lambda>it. (nameid it, amount it)) (inventory sd) =
      map (\<lambda>it. (nameid it, amount it)) (inventory paid_seller) \<and>
    map (\<lambda>it. (nameid it, amount it)) (inventory tsd) =
      map (\<lambda>it. (nameid it, amount it)) (inventory full_buyer)"
  unfolding paid_commit by code_simp

text \<open>
  The handlers of the cart do not look at the trade: a client that has dealt all pieces of a
  stack, puts the stack into the cart and deals another item makes \<open>trade_tradeadditem\<close>
  follow the null pointer of the empty slot; up to there every packet is handled.
\<close>

lemma trade_crash:
  "let w = two_players seller buyer;
       ps = [(1, Trade (TradeRequest 2)), (2, Trade (TradeAck 3)), (1, Trade (TradeAddItem 2 7)),
             (1, PutItemToCart 2 7)]
   in client_run plain_env w ps \<noteq> None \<and>
      client_run plain_env w (ps @ [(1, Trade (TradeAddItem 3 1))]) = None"
  by code_simp

end
