(* ===== verification/Vending.thy ===== *)
theory Vending
  imports Inventory
begin

text \<open>
  Shops of players: \<open>src/src/map/vending.c\<close> with \<open>clif_vendinglist\<close> and \<open>clif_openvending\<close>. A packet
  arrives as the length the client sent and the list of its entries. Prices and sums are
  \<open>double\<close> in the code; they stay below \<open>2 ^ 53\<close> and are exact. The log line of a purchase is left
  out, and so is the time of the last packet that \<open>vending_closevending\<close> resets.
\<close>

type_synonym shoppers = "int \<Rightarrow> session option"

definition MAX_VENDING :: nat where
  "MAX_VENDING = 12"

definition MC_VENDING :: int where
  "MC_VENDING = 41"

definition CART_MASK :: int where
  "CART_MASK = 0x788"

definition pc_iscarton :: "session \<Rightarrow> bool" where
  "pc_iscarton sd \<longleftrightarrow> options sd AND CART_MASK \<noteq> 0"

section \<open>Closing and listing\<close>

definition vending_closevending :: "session \<Rightarrow> session" where
  "vending_closevending sd = send clif_closevendingboard (sd\<lparr>vender_id := 0\<rparr>)"

text \<open>The entries on offer, as the buyer sees them: price, amount, index.\<close>

definition on_offer :: "session \<Rightarrow> vending list" where
  "on_offer vsd = take (nat (vend_num vsd)) (vending vsd)"

definition clif_vendinglist_to :: "session \<Rightarrow> int \<Rightarrow> session \<Rightarrow> session" where
  "clif_vendinglist_to sd shop vsd =
     (let rows = map (\<lambda>v. (vvalue v, vamount v, index v + 2))
            (filter (\<lambda>v. vamount v > 0 \<and> nameid (cart vsd ! nat (index v)) > 0 \<and>
               amount (cart vsd ! nat (index v)) > 0) (on_offer vsd))
      in if rows \<noteq> [] then send (clif_vendinglist shop rows) sd else sd)"

definition vending_vendinglistreq :: "shoppers \<Rightarrow> int \<Rightarrow> int \<Rightarrow> shoppers" where
  "vending_vendinglistreq w a shop = (case w a of
     None \<Rightarrow> w
   | Some sd \<Rightarrow> (case w shop of
       None \<Rightarrow> w
     | Some vsd \<Rightarrow>
        (if auth vsd = 0 \<or> vender_id vsd = 0 then w
         else w(a \<mapsto> clif_vendinglist_to sd shop vsd))))"

section \<open>Buying\<close>

text \<open>
  The checking loop over the requests (amount, index as sent). \<open>copy\<close> is the copy of the
  vendor's list in which cumulated amounts are taken off; the result is the price and the
  entry of each request, or the packet that tells the client why not.
\<close>

datatype purchase_result =
    Refused "packet list"
  | Bought int "(nat \<times> int \<times> int) list"

fun purchase_check :: "env \<Rightarrow> session \<Rightarrow> session \<Rightarrow> (int \<times> int) list \<Rightarrow> int \<Rightarrow> int \<Rightarrow> int \<Rightarrow>
    vending list \<Rightarrow> purchase_result" where
  "purchase_check env sd vsd [] z w fresh copy = Bought z []"
| "purchase_check env sd vsd ((amt, sent_idx) # ps) z w fresh copy =
     (let idx = s16 (sent_idx - 2); j = first_idx (\<lambda>v. index v = idx) (on_offer vsd) in
      if amt \<le> 0 then Refused []
      else if idx < 0 \<or> idx \<ge> int MAX_CART then Refused []
      else if j \<ge> length (on_offer vsd) then Refused []
      else
        (let z = z + vvalue (vending vsd ! j) * amt;
             w = w + item_weight (itemdb env (nameid (cart vsd ! nat idx))) * amt in
         if z > zeny sd \<or> z < 0 \<or> z > MAX_ZENY then Refused [clif_buyvending idx amt 1]
         else if z + zeny vsd > MAX_ZENY
         then Refused [clif_buyvending idx (vamount (vending vsd ! j)) 4]
         else if w + weight sd > max_weight sd then Refused [clif_buyvending idx amt 2]
         else if vamount (copy ! j) < amt
         then Refused [clif_buyvending idx (vamount (vending vsd ! j)) 4]
         else
           (let copy = copy[j := (copy ! j)\<lparr>vamount := vamount (copy ! j) - amt\<rparr>];
                check = pc_checkadditem env sd (nameid (cart vsd ! nat idx)) amt;
                fresh = (if check = ADDITEM_NEW then fresh + 1 else fresh) in
            if check = ADDITEM_OVERAMOUNT then Refused []
            else if check = ADDITEM_NEW \<and> fresh > pc_inventoryblank sd then Refused []
            else (case purchase_check env sd vsd ps z w fresh copy of
                Refused ms \<Rightarrow> Refused ms
              | Bought price orders \<Rightarrow> Bought price ((j, idx, amt) # orders)))))"

text \<open>The second loop: each order is handed over; the result of \<open>pc_additem\<close> is not looked at.\<close>

definition hand_over :: "env \<Rightarrow> nat \<times> int \<times> int \<Rightarrow> session \<times> session \<Rightarrow> session \<times> session" where
  "hand_over env order s = (case order of (j, idx, amt) \<Rightarrow> (case s of (sd, vsd) \<Rightarrow>
     (let sd = snd (pc_additem env sd (cart vsd ! nat idx) amt);
          vsd = vsd\<lparr>vending := (vending vsd)[j :=
            (vending vsd ! j)\<lparr>vamount := u16 (vamount (vending vsd ! j) - amt)\<rparr>]\<rparr>;
          vsd = pc_cart_delitem env vsd (nat idx) amt 0
      in (sd, send (clif_vendingreport idx amt) vsd))))"

definition purchase_pair :: "env \<Rightarrow> int \<Rightarrow> (int \<times> int) list \<Rightarrow> session \<times> session \<Rightarrow> session \<times> session" where
  "purchase_pair env len p s = (case s of (sd, vsd) \<Rightarrow>
     (if vender_id vsd = 0 \<or> vender_id vsd = bl_id sd then s
      else if len < 8 + 4 \<or> len > 8 + 4 * int MAX_VENDING
      then (send (clif_buyvending 0 32767 4) sd, vsd)
      else (case purchase_check env sd vsd (take (nat ((len - 5) div 4)) p) 0 0 0 (vending vsd) of
          Refused ms \<Rightarrow> (fold send ms sd, vsd)
        | Bought z orders \<Rightarrow>
            (let sd = snd (pc_payzeny sd z); vsd = pc_getzeny vsd z;
                 (sd, vsd) = fold (hand_over env) orders (sd, vsd)
             in (send chrif_save sd, send chrif_save vsd)))))"

definition vending_purchasereq :: "env \<Rightarrow> shoppers \<Rightarrow> int \<Rightarrow> int \<Rightarrow> int \<Rightarrow> (int \<times> int) list \<Rightarrow> shoppers" where
  "vending_purchasereq env w a len shop p = (case w a of
     None \<Rightarrow> w
   | Some sd \<Rightarrow> (case w shop of
       None \<Rightarrow> w
     | Some vsd \<Rightarrow> (case purchase_pair env len p (sd, vsd) of
         (sd', vsd') \<Rightarrow> w(a \<mapsto> sd', shop \<mapsto> vsd'))))"

section \<open>Opening\<close>

definition no_vending :: vending where
  "no_vending = \<lparr>index = 0, vamount = 0, vvalue = 0\<rparr>"

definition vending_price :: "env \<Rightarrow> int \<Rightarrow> int" where
  "vending_price env v =
     (if v > vending_max_value env then vending_max_value env
      else if v = 0 then vending_max_value env else v)"

text \<open>The filling loop over the entries (index as sent, amount, price): it stops at the first
  entry the cart does not hold, with the list filled so far.\<close>

fun fill_vending :: "env \<Rightarrow> nat \<Rightarrow> (int \<times> int \<times> int) list \<Rightarrow> session \<Rightarrow> bool \<times> session" where
  "fill_vending env i [] sd = (True, sd)"
| "fill_vending env i ((sent_idx, amt, v) # ps) sd =
     (let idx = s16 (sent_idx - 2);
          sd = sd\<lparr>vending := (vending sd)[i :=
            \<lparr>index = idx, vamount = amt, vvalue = vending_price env v\<rparr>]\<rparr>
      in if pc_cartitem_amount sd idx amt < 0 then (False, sd)
         else fill_vending env (i + 1) ps sd)"

definition clif_openvending_rows :: "session \<Rightarrow> (int \<times> int \<times> int) list" where
  "clif_openvending_rows sd =
     (if vend_num sd > 2 + pc_checkskill sd MC_VENDING then []
      else map (\<lambda>v. (vvalue v, index v + 2, vamount v))
        (filter (\<lambda>v. let it = cart sd ! nat (index v) in
           nameid it > 0 \<and> amount it > 0 \<and> identify it \<noteq> 0 \<and> attribute it \<noteq> 1) (on_offer sd)))"

definition vending_openvending :: "env \<Rightarrow> session \<Rightarrow> int \<Rightarrow> string \<Rightarrow> int \<Rightarrow> (int \<times> int \<times> int) list \<Rightarrow>
    session" where
  "vending_openvending env sd len msg flag p =
     (let skill = pc_checkskill sd MC_VENDING; fail = send (clif_skill_fail MC_VENDING);
          title = cstr (take 80 msg) in
      if skill < 1 \<or> \<not> pc_iscarton sd then fail sd
      else if title = [] \<or> check_bad_word env title then sd
      else if flag = 0 then sd
      else
        (let len = u16 (len - 85); entries = take (nat ((len + 7) div 8)) p in
         if len < 8 \<or> len > 8 * int MAX_VENDING \<or> len > 8 * (2 + skill) then fail sd
         else if \<exists>(sent_idx, amt, v) \<in> set entries.
           s16 (sent_idx - 2) < 0 \<or> s16 (sent_idx - 2) \<ge> int MAX_CART \<or> amt \<le> 0 then fail sd
         else
           (case fill_vending env 0 entries (sd\<lparr>vending := replicate MAX_VENDING no_vending\<rparr>) of
              (False, sd) \<Rightarrow> fail sd
            | (True, sd) \<Rightarrow>
               (let sd = send (pc_stop_walking 1) sd;
                    sd = sd\<lparr>vender_id := bl_id sd, vend_num := int (length entries), message := title\<rparr>;
                    rows = clif_openvending_rows sd
                in if rows \<noteq> []
                   then send (clif_showvendingboard title) (send (clif_openvending rows) sd)
                   else sd\<lparr>vender_id := 0\<rparr>))))"

end
