(* ===== verification/VendingProofs.thy ===== *)
theory VendingProofs
  imports Vending
begin

text \<open>
  A purchase at a player's shop: the purses change by the price, nothing is duplicated as long as
  the shop offers no more than the cart holds, and a shop that was opened keeps to that.
\<close>

section \<open>What a shop offers is in the cart\<close>

text \<open>
  Only the first entry for a slot counts, because every request goes to the first entry with
  its index.
\<close>

definition first_entry :: "session \<Rightarrow> nat \<Rightarrow> bool" where
  "first_entry vsd j \<longleftrightarrow> j < length (on_offer vsd) \<and>
     first_idx (\<lambda>v. index v = index (vending vsd ! j)) (on_offer vsd) = j"

definition shop_ok :: "session \<Rightarrow> bool" where
  "shop_ok vsd \<longleftrightarrow> length (vending vsd) = MAX_VENDING \<and>
     (\<forall>v \<in> set (vending vsd). 0 \<le> vamount v \<and> vamount v \<le> 65535 \<and> 0 \<le> vvalue v) \<and>
     (\<forall>j. first_entry vsd j \<and> 0 \<le> index (vending vsd ! j) \<and> index (vending vsd ! j) < int MAX_CART \<longrightarrow>
        vamount (vending vsd ! j) \<le> amount (cart vsd ! nat (index (vending vsd ! j))))"

lemma on_offer_nth: "j < length (on_offer vsd) \<Longrightarrow> on_offer vsd ! j = vending vsd ! j"
  by (simp add: on_offer_def)

lemma on_offer_less: "j < length (on_offer vsd) \<Longrightarrow> j < length (vending vsd)"
  by (simp add: on_offer_def)

lemma first_entry_request:
  assumes "first_idx (\<lambda>v. index v = idx) (on_offer vsd) = j" "j < length (on_offer vsd)"
  shows "first_entry vsd j" "index (vending vsd ! j) = idx"
proof -
  show i: "index (vending vsd ! j) = idx"
    using first_idx_sat [of "\<lambda>v. index v = idx" "on_offer vsd"] assms on_offer_nth [OF assms(2)] by simp
  show "first_entry vsd j" using assms by (simp add: first_entry_def i)
qed

text \<open>What the checking loop establishes of its orders: enough is on offer, cumulated.\<close>

fun orders_fit :: "session \<Rightarrow> (nat \<times> int \<times> int) list \<Rightarrow> vending list \<Rightarrow> bool" where
  "orders_fit vsd [] copy = True"
| "orders_fit vsd ((j, idx, amt) # os) copy \<longleftrightarrow>
     first_entry vsd j \<and> index (vending vsd ! j) = idx \<and> 0 \<le> idx \<and> idx < int MAX_CART \<and>
     0 < amt \<and> amt \<le> vamount (copy ! j) \<and>
     orders_fit vsd os (copy[j := (copy ! j)\<lparr>vamount := vamount (copy ! j) - amt\<rparr>])"

fun price :: "session \<Rightarrow> (nat \<times> int \<times> int) list \<Rightarrow> int" where
  "price vsd [] = 0"
| "price vsd ((j, idx, amt) # os) = vvalue (vending vsd ! j) * amt + price vsd os"

lemma purchase_check_correct:
  "purchase_check env sd vsd ps z w fresh copy = Bought z' os \<Longrightarrow>
    orders_fit vsd os copy \<and> z' = z + price vsd os \<and>
    (os = [] \<or> 0 \<le> z' \<and> z' \<le> zeny sd \<and> z' + zeny vsd \<le> MAX_ZENY) \<and> length os = length ps"
proof (induction env sd vsd ps z w fresh copy arbitrary: z' os rule: purchase_check.induct)
  case (1 env sd vsd z w fresh copy)
  then show ?case by simp
next
  case (2 env sd vsd amt sent_idx ps z w fresh copy)
  define idx where "idx = s16 (sent_idx - 2)"
  define j where "j = first_idx (\<lambda>v. index v = idx) (on_offer vsd)"
  define z1 where "z1 = z + vvalue (vending vsd ! j) * amt"
  define w1 where "w1 = w + item_weight (itemdb env (nameid (cart vsd ! nat idx))) * amt"
  define copy1 where "copy1 = copy[j := (copy ! j)\<lparr>vamount := vamount (copy ! j) - amt\<rparr>]"
  define check where "check = pc_checkadditem env sd (nameid (cart vsd ! nat idx)) amt"
  define fresh1 where "fresh1 = (if check = ADDITEM_NEW then fresh + 1 else fresh)"
  note defs = idx_def j_def z1_def w1_def copy1_def check_def fresh1_def
  have pass: "0 < amt" "0 \<le> idx" "idx < int MAX_CART" "j < length (on_offer vsd)"
    "0 \<le> z1" "z1 \<le> zeny sd" "z1 + zeny vsd \<le> MAX_ZENY" "amt \<le> vamount (copy ! j)"
    "\<not> w1 + weight sd > max_weight sd" "\<not> (z1 > zeny sd \<or> z1 < 0 \<or> z1 > MAX_ZENY)"
    "check \<noteq> ADDITEM_OVERAMOUNT" "\<not> (check = ADDITEM_NEW \<and> fresh1 > pc_inventoryblank sd)"
    using "2.prems" by (auto simp: Let_def defs split: if_splits)
  obtain os' where os: "os = (j, idx, amt) # os'"
    and rest: "purchase_check env sd vsd ps z1 w1 fresh1 copy1 = Bought z' os'"
    using "2.prems" by (auto simp: Let_def defs split: if_splits purchase_result.splits)
  have IH: "orders_fit vsd os' copy1 \<and> z' = z1 + price vsd os' \<and>
      (os' = [] \<or> 0 \<le> z' \<and> z' \<le> zeny sd \<and> z' + zeny vsd \<le> MAX_ZENY) \<and> length os' = length ps"
    using "2.IH" [OF idx_def j_def _ _ _ z1_def w1_def _ _ _ _ copy1_def check_def fresh1_def _ _ rest] pass
    by force
  note fe = first_entry_request [OF j_def [symmetric] pass(4)]
  have "os' = [] \<longrightarrow> z' = z1" using IH by (cases os') auto
  then have "0 \<le> z' \<and> z' \<le> zeny sd \<and> z' + zeny vsd \<le> MAX_ZENY" using IH pass by auto
  moreover have "z' = z + price vsd os" using IH by (simp add: os z1_def)
  moreover have "orders_fit vsd os copy" using IH pass fe by (simp add: os copy1_def)
  moreover have "length os = length ((amt, sent_idx) # ps)" using IH by (simp add: os)
  ultimately show ?case by blast
qed

section \<open>Handing over\<close>

text \<open>Orders and first entries look only at the indexes of the list.\<close>

definition shape :: "session \<Rightarrow> int list \<times> int" where
  "shape vsd = (map index (vending vsd), vend_num vsd)"

lemma first_idx_map: "first_idx (\<lambda>v. P (f v)) xs = first_idx P (map f xs)"
  by (induction xs) auto

lemma shape_eq:
  assumes "shape vsd' = shape vsd"
  shows "length (vending vsd') = length (vending vsd)" "vend_num vsd' = vend_num vsd"
    and "first_entry vsd' j = first_entry vsd j"
    and "j < length (vending vsd) \<Longrightarrow> index (vending vsd' ! j) = index (vending vsd ! j)"
proof -
  have m: "map index (vending vsd') = map index (vending vsd)" and n: "vend_num vsd' = vend_num vsd"
    using assms by (simp_all add: shape_def)
  show len: "length (vending vsd') = length (vending vsd)" using m by (rule map_eq_imp_length_eq)
  show "vend_num vsd' = vend_num vsd" by (rule n)
  show idx: "index (vending vsd' ! j) = index (vending vsd ! j)" if "j < length (vending vsd)" for j
    using m that len by (metis nth_map)
  have "map index (on_offer vsd') = map index (on_offer vsd)"
    using m n by (simp add: on_offer_def take_map [symmetric])
  moreover from this have "length (on_offer vsd') = length (on_offer vsd)" by (rule map_eq_imp_length_eq)
  ultimately show "first_entry vsd' j = first_entry vsd j"
    using idx [of j] on_offer_less [of j vsd]
    by (auto simp: first_entry_def first_idx_map [where P = "\<lambda>i. i = k" and f = index for k])
qed

lemma orders_fit_shape:
  assumes "shape vsd' = shape vsd"
  shows "orders_fit vsd' os copy = orders_fit vsd os copy"
proof (induction os arbitrary: copy)
  case Nil
  then show ?case by simp
next
  case (Cons x os)
  obtain j idx amt where x: "x = (j, idx, amt)" by (cases x)
  have "index (vending vsd' ! j) = index (vending vsd ! j)" if "first_entry vsd j"
    using that shape_eq(4) [OF assms] on_offer_less by (simp add: first_entry_def)
  then show ?case using Cons shape_eq(3) [OF assms, of j] by (auto simp: x)
qed

lemma session_ok_vending [simp]:
  "session_ok env (sd\<lparr>vending := v\<rparr>) = session_ok env sd"
  "session_ok env (sd\<lparr>vender_id := x\<rparr>) = session_ok env sd"
  "session_ok env (sd\<lparr>vend_num := x\<rparr>) = session_ok env sd"
  "session_ok env (sd\<lparr>message := m\<rparr>) = session_ok env sd"
  by (simp_all add: session_ok_def inventory_ok_def cart_ok_def)

lemma session_ok_sent [simp]: "session_ok env (send p sd) = session_ok env sd"
  by (rule session_ok_cong) simp

text \<open>What handing over keeps, for a vendor who has what is ordered.\<close>

lemma hand_over_correct:
  assumes ok: "session_ok env sd" "session_ok env vsd" "shop_ok vsd"
    and fit: "orders_fit vsd ((j, idx, amt) # os) (vending vsd)"
    and run: "hand_over env (j, idx, amt) (sd, vsd) = (sd', vsd')"
  shows "session_ok env sd'" "session_ok env vsd'" "shop_ok vsd'" "orders_fit vsd' os (vending vsd')"
    and "zeny sd' = zeny sd" "zeny vsd' = zeny vsd" "cart sd' = cart sd" "inventory vsd' = inventory vsd"
    and "stock k (inventory sd') + stock k (cart vsd') \<le> stock k (inventory sd) + stock k (cart vsd)"
proof -
  define n where "n = nat idx"
  have f: "first_entry vsd j" "index (vending vsd ! j) = idx" "0 \<le> idx" "idx < int MAX_CART" "0 < amt"
    "amt \<le> vamount (vending vsd ! j)"
    and rest: "orders_fit vsd os ((vending vsd)[j := (vending vsd ! j)\<lparr>vamount := vamount (vending vsd ! j) - amt\<rparr>])"
    using fit by simp_all
  have j: "j < length (vending vsd)" using f(1) on_offer_less by (simp add: first_entry_def)
  have n: "n < MAX_CART" "n < length (cart vsd)"
    using f(3,4) session_ok_slots(2) [OF ok(2)] by (simp_all add: n_def)
  have enough: "vamount (vending vsd ! j) \<le> amount (cart vsd ! n)"
    using ok(3) f by (auto simp: shop_ok_def n_def)
  have slot: "slot_ok (cart vsd ! n)" using session_ok_slots(4) [OF ok(2)] n(2) by simp
  have named: "nameid (cart vsd ! n) \<noteq> 0" and small: "amt \<le> 32767" and le: "amt \<le> amount (cart vsd ! n)"
    using slot f(5,6) enough by (auto simp: slot_ok_def)
  obtain r sd1 where add: "pc_additem env sd (cart vsd ! n) amt = (r, sd1)" by force
  define vs where "vs = (vending vsd)[j := (vending vsd ! j)\<lparr>vamount := vamount (vending vsd ! j) - amt\<rparr>]"
  have vrange: "0 \<le> vamount (vending vsd ! j)" "vamount (vending vsd ! j) \<le> 65535"
    using ok(3) j by (auto simp: shop_ok_def)
  then have wrap: "u16 (vamount (vending vsd ! j) - amt) = vamount (vending vsd ! j) - amt"
    using f(5,6) by (intro u16_id) auto
  define vsd1 where "vsd1 = vsd\<lparr>vending := vs\<rparr>"
  define vsd2 where "vsd2 = pc_cart_delitem env vsd1 n amt 0"
  have res: "sd' = sd1" "vsd' = send (clif_vendingreport idx amt) vsd2"
    using run add by (auto simp: hand_over_def n_def [symmetric] Let_def wrap vsd2_def vsd1_def vs_def)
  have ok1: "session_ok env vsd1" using ok(2) by (simp add: vsd1_def)
  have c1: "cart vsd1 = cart vsd" by (simp add: vsd1_def)
  note del = pc_cart_delitem_correct [OF ok1 n(1), of amt 0, unfolded c1, OF named f(5) le, folded vsd2_def]
  have dl: "dealings vsd2 = dealings vsd1" by (simp add: vsd2_def dealings_additem)
  have vend: "vending vsd' = vs" "vend_num vsd' = vend_num vsd"
    using dealings_eq(9,10) [OF dl] by (simp_all add: res vsd1_def)
  have sh: "shape vsd' = shape vsd" using j by (simp add: shape_def vend vs_def map_update list_update_same_conv)
  show "session_ok env sd'" using add_good(1) [OF ok(1) small add] by (simp add: res)
  show "session_ok env vsd'" using del(3) by (simp add: res)
  show "orders_fit vsd' os (vending vsd')"
    using rest orders_fit_shape [OF sh] by (simp add: vend(1) vs_def)
  show "zeny sd' = zeny sd" using zeny_additem [of env sd "cart vsd ! n" amt] add by (simp add: res)
  show "zeny vsd' = zeny vsd" "inventory vsd' = inventory vsd"
    using del(2,4) by (simp_all add: res vsd1_def)
  show "cart sd' = cart sd" using cart_pc_additem [of env sd "cart vsd ! n" amt] add ok(1) by (simp add: res)
  have stock: "stock k (inventory sd') \<le> stock k (inventory sd) + (if kind_of (cart vsd ! n) = k then amt else 0)"
    using pc_additem_correct(2) [OF ok(1) _ small, of "cart vsd ! n" sd1 k] pc_additem_fails [OF add] add f(5)
    by (cases "r = 0") (auto simp: res)
  have "stock k (cart vsd') = stock k (cart vsd) - (if kind_of (cart vsd ! n) = k then amt else 0)"
    using drop_pieces_correct(2) [OF n(2) _ named f(5) le, of k] session_ok_slots(4) [OF ok(2)] del(1)
    by (simp add: res)
  with stock show "stock k (inventory sd') + stock k (cart vsd') \<le> stock k (inventory sd) + stock k (cart vsd)"
    by simp
  have left: "amount (cart vsd' ! m) = (if m = n then amount (cart vsd ! n) - amt else amount (cart vsd ! m))" for m
    using del(1) drop_pieces_nth(1) [OF n(2) slot f(5) le] by (simp add: res)
  show "shop_ok vsd'"
    unfolding shop_ok_def
  proof (intro conjI allI impI ballI)
    show "length (vending vsd') = MAX_VENDING" using ok(3) by (simp add: vend vs_def shop_ok_def)
    fix v assume "v \<in> set (vending vsd')"
    then have "v \<in> set (vending vsd) \<or> v = (vending vsd ! j)\<lparr>vamount := vamount (vending vsd ! j) - amt\<rparr>"
      using set_update_subset_insert [of "vending vsd" j] by (auto simp: vend vs_def)
    then show "0 \<le> vamount v" "vamount v \<le> 65535" "0 \<le> vvalue v"
      using ok(3) f(5,6) vrange nth_mem [OF j] by (auto simp: shop_ok_def)
  next
    fix i assume i: "first_entry vsd' i \<and> 0 \<le> index (vending vsd' ! i) \<and> index (vending vsd' ! i) < int MAX_CART"
    then have fi: "first_entry vsd i" using shape_eq(3) [OF sh] by simp
    then have il: "i < length (vending vsd)" using on_offer_less by (simp add: first_entry_def)
    have ix: "index (vending vsd' ! i) = index (vending vsd ! i)" using shape_eq(4) [OF sh il] .
    have old: "vamount (vending vsd ! i) \<le> amount (cart vsd ! nat (index (vending vsd ! i)))"
      using ok(3) fi i ix by (auto simp: shop_ok_def)
    show "vamount (vending vsd' ! i) \<le> amount (cart vsd' ! nat (index (vending vsd' ! i)))"
    proof (cases "i = j")
      case True
      then show ?thesis using old f(2) ix left j by (simp add: vend vs_def n_def)
    next
      case False
      have "index (vending vsd ! i) \<noteq> idx"
        using False fi f(1,2) by (auto simp: first_entry_def)
      then have "nat (index (vending vsd ! i)) \<noteq> n" using i ix f(3) unfolding n_def by linarith
      moreover have "nat (index (vending vsd ! i)) < MAX_CART" using i ix by linarith
      ultimately show ?thesis
        using False old ix left [of "nat (index (vending vsd ! i))"] by (simp add: vend vs_def)
    qed
  qed
qed

lemma hand_over_all:
  "session_ok env sd \<Longrightarrow> session_ok env vsd \<Longrightarrow> shop_ok vsd \<Longrightarrow> orders_fit vsd os (vending vsd) \<Longrightarrow>
    fold (hand_over env) os (sd, vsd) = (sd', vsd') \<Longrightarrow>
    session_ok env sd' \<and> session_ok env vsd' \<and> shop_ok vsd' \<and> zeny sd' = zeny sd \<and> zeny vsd' = zeny vsd \<and>
    cart sd' = cart sd \<and> inventory vsd' = inventory vsd \<and>
    stock k (inventory sd') + stock k (cart vsd') \<le> stock k (inventory sd) + stock k (cart vsd)"
proof (induction os arbitrary: sd vsd)
  case Nil
  then show ?case by simp
next
  case (Cons x os)
  obtain j idx amt where x: "x = (j, idx, amt)" by (cases x)
  obtain sd1 vsd1 where step: "hand_over env (j, idx, amt) (sd, vsd) = (sd1, vsd1)" by force
  note s = hand_over_correct [OF Cons.prems(1,2,3) Cons.prems(4) [unfolded x] step]
  have "fold (hand_over env) os (sd1, vsd1) = (sd', vsd')" using Cons.prems(5) step by (simp add: x)
  from Cons.IH [OF s(1,2,3,4) this] s(5-8) s(9) [of k] show ?case by auto
qed

section \<open>A whole purchase\<close>

lemma shop_ok_cong:
  assumes "vending vsd' = vending vsd" "vend_num vsd' = vend_num vsd" "cart vsd' = cart vsd"
  shows "shop_ok vsd' = shop_ok vsd"
  using assms by (simp add: shop_ok_def first_entry_def on_offer_def)

lemma shop_ok_send [simp]: "shop_ok (send p sd) = shop_ok sd"
  by (rule shop_ok_cong) simp_all

lemma fold_send_frame:
  "belongings (fold send ms sd) = belongings sd"
  by (induction ms arbitrary: sd) simp_all

lemma session_ok_set_zeny [simp]: "session_ok env (sd\<lparr>zeny := z\<rparr>) = session_ok env sd"
  by (simp add: session_ok_def inventory_ok_def cart_ok_def)

lemma pay_correct:
  assumes "0 \<le> z" "z \<le> zeny sd" "zeny sd \<le> MAX_ZENY"
  shows "zeny (snd (pc_payzeny sd z)) = zeny sd - z"
    "session_ok env (snd (pc_payzeny sd z)) = session_ok env sd"
    "inventory (snd (pc_payzeny sd z)) = inventory sd" "cart (snd (pc_payzeny sd z)) = cart sd"
  using assms by (auto simp: pc_payzeny_def Let_def)

lemma get_correct:
  assumes "0 \<le> z" "z + zeny sd \<le> MAX_ZENY"
  shows "zeny (pc_getzeny sd z) = zeny sd + z"
    "session_ok env (pc_getzeny sd z) = session_ok env sd"
    "inventory (pc_getzeny sd z) = inventory sd" "cart (pc_getzeny sd z) = cart sd"
    "vending (pc_getzeny sd z) = vending sd" "vend_num (pc_getzeny sd z) = vend_num sd"
  using assms by (auto simp: pc_getzeny_def Let_def)

lemma purchase_pair_correct:
  assumes ok: "session_ok env sd" "session_ok env vsd" "shop_ok vsd"
    and zeny: "0 \<le> zeny sd" "zeny sd \<le> MAX_ZENY" "zeny vsd \<le> MAX_ZENY"
    and run: "purchase_pair env len p (sd, vsd) = (sd', vsd')"
  shows "session_ok env sd' \<and> session_ok env vsd' \<and> shop_ok vsd' \<and>
    zeny sd' + zeny vsd' = zeny sd + zeny vsd \<and> 0 \<le> zeny sd' \<and> zeny sd' \<le> zeny sd \<and> zeny vsd' \<le> MAX_ZENY \<and>
    cart sd' = cart sd \<and> inventory vsd' = inventory vsd \<and>
    stock k (inventory sd') + stock k (cart vsd') \<le> stock k (inventory sd) + stock k (cart vsd)"
proof -
  define ps where "ps = take (nat ((len - 5) div 4)) p"
  define c where "c = purchase_check env sd vsd ps 0 0 0 (vending vsd)"
  consider (none) "sd' = sd \<or> sd' = send (clif_buyvending 0 32767 4) sd" "vsd' = vsd"
    | (refused) ms where "sd' = fold send ms sd" "vsd' = vsd"
    | (bought) z os where "c = Bought z os"
        "(sd', vsd') = (case fold (hand_over env) os (snd (pc_payzeny sd z), pc_getzeny vsd z) of
           (sd, vsd) \<Rightarrow> (send chrif_save sd, send chrif_save vsd))"
    using run by (auto simp: purchase_pair_def ps_def [symmetric] c_def [symmetric] Let_def
        split: if_splits purchase_result.splits)
  then show ?thesis
  proof cases
    case none
    then show ?thesis using ok zeny by auto
  next
    case refused
    note b = fold_send_frame [of ms sd]
    show ?thesis
      using ok zeny refused belongings_eq(1,3,7) [OF b] session_ok_cong [OF b, of env] by simp
  next
    case bought
    note check = purchase_check_correct [OF bought(1) [unfolded c_def]]
    have z: "0 \<le> z" "z \<le> zeny sd" "z + zeny vsd \<le> MAX_ZENY" using check zeny by auto
    note pay = pay_correct [OF z(1,2) zeny(2)] and get = get_correct [OF z(1,3)]
    obtain sd1 vsd1 where loop: "fold (hand_over env) os (snd (pc_payzeny sd z), pc_getzeny vsd z) = (sd1, vsd1)"
      by force
    have "orders_fit (pc_getzeny vsd z) os (vending (pc_getzeny vsd z))"
      using check orders_fit_shape [of "pc_getzeny vsd z" vsd os] get(5,6) by (simp add: shape_def)
    note all = hand_over_all [OF _ _ _ this loop, of k]
    have "shop_ok (pc_getzeny vsd z)" using ok(3) shop_ok_cong [OF get(5,6,4)] by simp
    from all [OF _ _ this] show ?thesis
      using ok pay get z zeny loop bought(2) by simp
  qed
qed

section \<open>Opening\<close>

text \<open>A list filled without complaint offers, slot by slot, no more than there is.\<close>

definition entry_ok :: "session \<Rightarrow> vending \<Rightarrow> bool" where
  "entry_ok sd v \<longleftrightarrow> 0 \<le> vamount v \<and> vamount v \<le> 65535 \<and> 0 \<le> vvalue v \<and>
     0 \<le> index v \<and> index v < int MAX_CART \<and> vamount v \<le> amount (cart sd ! nat (index v))"

definition sent_ok :: "int \<times> int \<times> int \<Rightarrow> bool" where
  "sent_ok e \<longleftrightarrow> (case e of (i, a, v) \<Rightarrow> 0 \<le> a \<and> a \<le> 65535 \<and> 0 \<le> v)"

lemma fill_vending_frame:
  "fill_vending env i ps sd = (b, sd') \<Longrightarrow> sd' = sd\<lparr>vending := vending sd'\<rparr> \<and>
    length (vending sd') = length (vending sd)"
proof (induction env i ps sd arbitrary: b sd' rule: fill_vending.induct)
  case (1 env i sd)
  then show ?case by simp
next
  case (2 env i sent_idx amt v ps sd)
  define sd1 where "sd1 = sd\<lparr>vending := (vending sd)[i :=
    \<lparr>index = s16 (sent_idx - 2), vamount = amt, vvalue = vending_price env v\<rparr>]\<rparr>"
  show ?case
  proof (cases "pc_cartitem_amount sd1 (s16 (sent_idx - 2)) amt < 0")
    case True
    then have "sd' = sd1" using 2 by (simp add: sd1_def Let_def)
    then show ?thesis by (simp add: sd1_def)
  next
    case False
    then have "fill_vending env (i + 1) ps sd1 = (b, sd')" using 2(2) by (simp add: sd1_def Let_def)
    from "2.IH" [OF refl sd1_def False this]
    have eq: "sd' = sd1\<lparr>vending := vending sd'\<rparr>" and len: "length (vending sd') = length (vending sd1)"
      by simp_all
    have "sd' = sd\<lparr>vending := vending sd'\<rparr>" by (subst eq) (simp add: sd1_def)
    then show ?thesis using len by (simp add: sd1_def)
  qed
qed

lemma fill_vending_entries:
  "fill_vending env i ps sd = (True, sd') \<Longrightarrow> \<forall>e \<in> set ps. sent_ok e \<Longrightarrow> 0 \<le> vending_max_value env \<Longrightarrow>
    i + length ps \<le> length (vending sd) \<Longrightarrow> \<forall>j < i. entry_ok sd (vending sd ! j) \<Longrightarrow>
    \<forall>j < i + length ps. entry_ok sd (vending sd' ! j)"
proof (induction env i ps sd arbitrary: sd' rule: fill_vending.induct)
  case (1 env i sd)
  then show ?case by simp
next
  case (2 env i sent_idx amt v ps sd)
  define idx where "idx = s16 (sent_idx - 2)"
  define x where "x = \<lparr>index = idx, vamount = amt, vvalue = vending_price env v\<rparr>"
  define sd1 where "sd1 = sd\<lparr>vending := (vending sd)[i := x]\<rparr>"
  have fits: "\<not> pc_cartitem_amount sd1 idx amt < 0"
    using "2.prems"(1) by (auto simp: sd1_def x_def idx_def Let_def split: if_splits)
  have "entry_ok sd x"
    using fits "2.prems"(2,3)
    by (auto simp: pc_cartitem_amount_def entry_ok_def sd1_def x_def sent_ok_def vending_price_def Let_def
        split: if_splits)
  then have "\<forall>j < i + 1. entry_ok sd1 (vending sd1 ! j)"
    using "2.prems"(4,5) by (auto simp: sd1_def nth_list_update entry_ok_def less_Suc_eq)
  moreover have "fill_vending env (i + 1) ps sd1 = (True, sd')"
    using "2.prems"(1) fits by (simp add: sd1_def x_def idx_def Let_def)
  ultimately have "\<forall>j < i + 1 + length ps. entry_ok sd1 (vending sd' ! j)"
    using "2.IH" [OF idx_def sd1_def [unfolded x_def] fits] "2.prems"(2,3,4) by (simp add: sd1_def)
  then show ?case by (simp add: sd1_def entry_ok_def)
qed

lemma shop_okI:
  assumes "length (vending sd) = MAX_VENDING" "\<forall>j < nat (vend_num sd). entry_ok sd (vending sd ! j)"
    and "\<forall>v \<in> set (vending sd). 0 \<le> vamount v \<and> vamount v \<le> 65535 \<and> 0 \<le> vvalue v"
  shows "shop_ok sd"
  using assms by (auto simp: shop_ok_def first_entry_def on_offer_def entry_ok_def)

lemma fill_vending_range:
  "fill_vending env i ps sd = (b, sd') \<Longrightarrow> \<forall>e \<in> set ps. sent_ok e \<Longrightarrow> 0 \<le> vending_max_value env \<Longrightarrow>
    \<forall>v \<in> set (vending sd). 0 \<le> vamount v \<and> vamount v \<le> 65535 \<and> 0 \<le> vvalue v \<Longrightarrow>
    \<forall>v \<in> set (vending sd'). 0 \<le> vamount v \<and> vamount v \<le> 65535 \<and> 0 \<le> vvalue v"
proof (induction env i ps sd arbitrary: b sd' rule: fill_vending.induct)
  case (1 env i sd)
  then show ?case by simp
next
  case (2 env i sent_idx amt v ps sd)
  define x where "x = \<lparr>index = s16 (sent_idx - 2), vamount = amt, vvalue = vending_price env v\<rparr>"
  define sd1 where "sd1 = sd\<lparr>vending := (vending sd)[i := x]\<rparr>"
  have "0 \<le> vamount x \<and> vamount x \<le> 65535 \<and> 0 \<le> vvalue x"
    using "2.prems"(2,3) by (simp add: x_def sent_ok_def vending_price_def)
  then have new: "\<forall>v \<in> set (vending sd1). 0 \<le> vamount v \<and> vamount v \<le> 65535 \<and> 0 \<le> vvalue v"
    using "2.prems"(4) set_update_subset_insert [of "vending sd" i x] by (auto simp: sd1_def)
  show ?case
  proof (cases "pc_cartitem_amount sd1 (s16 (sent_idx - 2)) amt < 0")
    case True
    then have "sd' = sd1" using "2.prems"(1) by (simp add: sd1_def x_def Let_def)
    then show ?thesis using new by simp
  next
    case False
    then have "fill_vending env (i + 1) ps sd1 = (b, sd')"
      using "2.prems"(1) by (simp add: sd1_def x_def Let_def)
    from "2.IH" [OF refl sd1_def [unfolded x_def] False this] new "2.prems"(2,3) show ?thesis by simp
  qed
qed

text \<open>The state of a session whose shop has been opened.\<close>

definition opened_session :: "session \<Rightarrow> string \<Rightarrow> nat \<Rightarrow> session" where
  "opened_session sd title n = (send (pc_stop_walking 1) sd)
     \<lparr>vender_id := bl_id sd, vend_num := int n, message := title\<rparr>"

lemma openvending_result:
  assumes closed: "vender_id sd = 0"
    and run: "sd' = vending_openvending env sd len msg flag p" "vender_id sd' \<noteq> 0"
  obtains entries sd1 title where "set entries \<subseteq> set p"
    "fill_vending env 0 entries (sd\<lparr>vending := replicate MAX_VENDING no_vending\<rparr>) = (True, sd1)"
    "length entries \<le> MAX_VENDING" "int (length entries) \<le> 2 + pc_checkskill sd MC_VENDING"
    "sd' = send (clif_showvendingboard title) (send (clif_openvending
      (clif_openvending_rows (opened_session sd1 title (length entries))))
      (opened_session sd1 title (length entries)))"
proof -
  define l where "l = u16 (len - 85)"
  define entries where "entries = take (nat ((l + 7) div 8)) p"
  define sd0 where "sd0 = sd\<lparr>vending := replicate MAX_VENDING no_vending\<rparr>"
  define title where "title = cstr (take 80 msg)"
  obtain b sd1 where fill: "fill_vending env 0 entries sd0 = (b, sd1)" by force
  have frame: "sd1 = sd0\<lparr>vending := vending sd1\<rparr>" using fill_vending_frame [OF fill] by simp
  have v0: "vender_id sd1 = 0" by (subst frame) (simp add: sd0_def closed)
  define sd2 where "sd2 = opened_session sd1 title (length entries)"
  define final where "final = (if clif_openvending_rows sd2 \<noteq> []
    then send (clif_showvendingboard title) (send (clif_openvending (clif_openvending_rows sd2)) sd2)
    else sd2\<lparr>vender_id := 0\<rparr>)"
  have opened: "l \<le> 8 * int MAX_VENDING \<and> l \<le> 8 * (2 + pc_checkskill sd MC_VENDING) \<and>
      sd' = (if b then final else send (clif_skill_fail MC_VENDING) sd1)"
  proof -
    have "sd' \<noteq> sd" "sd' \<noteq> send (clif_skill_fail MC_VENDING) sd" using closed run(2) by auto
    then show ?thesis
      using run(1) fill unfolding vending_openvending_def Let_def l_def [symmetric] opened_session_def
        entries_def [symmetric] sd0_def [symmetric] title_def [symmetric] sd2_def final_def
      by (cases b) (auto split: if_splits)
  qed
  then have b: b using run(2) v0 by (auto split: if_splits)
  have sd': "sd' = send (clif_showvendingboard title) (send (clif_openvending (clif_openvending_rows sd2)) sd2)"
    using opened b run(2) by (auto simp: final_def split: if_splits)
  have "0 \<le> l" using u16_bounds(1) by (simp add: l_def)
  moreover have "(l + 7) div 8 \<le> 2 + pc_checkskill sd MC_VENDING"
    using zdiv_mono1 [of "l + 7" "8 * (2 + pc_checkskill sd MC_VENDING) + 7" 8] opened by simp
  moreover have "(l + 7) div 8 \<le> 12" using zdiv_mono1 [of "l + 7" 103 8] opened by (simp add: MAX_VENDING_def)
  moreover have "length entries \<le> nat ((l + 7) div 8)" by (simp add: entries_def)
  ultimately have "length entries \<le> MAX_VENDING" "int (length entries) \<le> 2 + pc_checkskill sd MC_VENDING"
    by (simp_all add: MAX_VENDING_def)
  moreover have "set entries \<subseteq> set p" by (simp add: entries_def set_take_subset)
  ultimately show thesis using that fill b sd' by (simp add: sd0_def sd2_def)
qed

section \<open>Properties\<close>

definition shopkeeper :: session where
  "shopkeeper = (plain_session 1 500 [] [stack 512 3, stack 513 9])
     \<lparr>skill := (\<lambda>k. if k = MC_VENDING then 10 else 0), options := 8\<rparr>"

definition customer :: session where
  "customer = plain_session 2 100000 [stack 514 1] []"

definition open_shop :: session where
  "open_shop = vending_openvending plain_env shopkeeper 101 ''apples'' 1 [(2, 3, 10), (3, 5, 100)]"

lemma open_shop_entries:
  "vending open_shop = [\<lparr>index = 0, vamount = 3, vvalue = 10\<rparr>, \<lparr>index = 1, vamount = 5, vvalue = 100\<rparr>]
     @ replicate 10 no_vending"
  "vend_num open_shop = 2" "vender_id open_shop = 1" "zeny open_shop = 500"
  "take 2 (cart open_shop) = [stack 512 3, stack 513 9]"
  by code_simp+

text \<open>
  C9: whatever a client sends to a shop that offers no more than its cart holds, the two purses
  together keep their zeny and their bounds, the sessions and the shop stay well-formed, and no
  kind of item multiplies.
\<close>

theorem vending_purchase_conserves:
  assumes "session_ok env sd" "session_ok env vsd" "shop_ok vsd"
    and "0 \<le> zeny sd" "zeny sd \<le> MAX_ZENY" "zeny vsd \<le> MAX_ZENY"
    and "purchase_pair env len p (sd, vsd) = (sd', vsd')"
  shows "session_ok env sd' \<and> session_ok env vsd' \<and> shop_ok vsd' \<and>
    zeny sd' + zeny vsd' = zeny sd + zeny vsd \<and> 0 \<le> zeny sd' \<and> zeny sd' \<le> zeny sd \<and> zeny vsd' \<le> MAX_ZENY \<and>
    cart sd' = cart sd \<and> inventory vsd' = inventory vsd \<and>
    stock k (inventory sd') + stock k (cart vsd') \<le> stock k (inventory sd) + stock k (cart vsd)"
  by (rule purchase_pair_correct [OF assms])

lemma shopkeeper_ok: "session_ok plain_env shopkeeper"
proof -
  have "session_ok plain_env (plain_session 1 500 [] [stack 512 3, stack 513 9])"
    by (simp add: plain_session_ok slot_ok_stack)
  then show ?thesis by (simp add: shopkeeper_def session_ok_def inventory_ok_def cart_ok_def)
qed

lemma customer_ok: "session_ok plain_env customer"
  by (simp add: customer_def plain_session_ok slot_ok_stack)

definition small_shop :: session where
  "small_shop = shopkeeper\<lparr>vending := \<lparr>index = 0, vamount = 3, vvalue = 10\<rparr> # replicate 11 no_vending,
     vend_num := 1, vender_id := 1\<rparr>"

lemma small_shop_ok: "session_ok plain_env small_shop" "shop_ok small_shop"
proof -
  show "session_ok plain_env small_shop" using shopkeeper_ok by (simp add: small_shop_def)
  show "shop_ok small_shop"
    by (rule shop_okI) (auto simp: small_shop_def entry_ok_def MAX_VENDING_def no_vending_def MAX_CART_def
      shopkeeper_def plain_session_def slots_of_def stack_def)
qed

theorem vending_purchase_conserves_witness:
  "let s = purchase_pair plain_env 12 [(2, 2)] (customer, small_shop) in
   session_ok plain_env (fst s) \<and> session_ok plain_env (snd s) \<and> shop_ok (snd s) \<and>
    zeny (fst s) + zeny (snd s) = zeny customer + zeny small_shop \<and> 0 \<le> zeny (fst s) \<and>
    zeny (fst s) \<le> zeny customer \<and> zeny (snd s) \<le> MAX_ZENY \<and>
    cart (fst s) = cart customer \<and> inventory (snd s) = inventory small_shop \<and>
    stock (kind_of (stack 512 1)) (inventory (fst s)) + stock (kind_of (stack 512 1)) (cart (snd s)) \<le>
      stock (kind_of (stack 512 1)) (inventory customer) + stock (kind_of (stack 512 1)) (cart small_shop)"
  unfolding Let_def
  by (rule vending_purchase_conserves [OF customer_ok small_shop_ok])
    (simp_all add: customer_def small_shop_def shopkeeper_def plain_session_def MAX_ZENY_def)

text \<open>
  C10: a player who is not vending and whose client opens a shop, with whatever entries and
  length, ends up either with no shop or with a well-formed one: at most two entries more
  than the level of the skill, and each entry offers no more than its cart slot holds.
\<close>

theorem vending_open_ok:
  assumes "vender_id sd = 0" "\<forall>e \<in> set p. sent_ok e" "0 \<le> vending_max_value env"
    and "sd' = vending_openvending env sd len msg flag p" "vender_id sd' \<noteq> 0"
  shows "shop_ok sd' \<and> cart sd' = cart sd \<and> inventory sd' = inventory sd \<and> zeny sd' = zeny sd \<and>
    vend_num sd' \<le> 2 + pc_checkskill sd MC_VENDING \<and> vender_id sd' = bl_id sd \<and>
    (\<forall>j < nat (vend_num sd'). entry_ok sd' (vending sd' ! j))"
proof -
  define sd0 where "sd0 = sd\<lparr>vending := replicate MAX_VENDING no_vending\<rparr>"
  obtain entries sd1 title where sub: "set entries \<subseteq> set p"
    and filled: "fill_vending env 0 entries sd0 = (True, sd1)"
    and n: "length entries \<le> MAX_VENDING" "int (length entries) \<le> 2 + pc_checkskill sd MC_VENDING"
    and sd': "sd' = send (clif_showvendingboard title) (send (clif_openvending
      (clif_openvending_rows (opened_session sd1 title (length entries))))
      (opened_session sd1 title (length entries)))"
    using openvending_result [OF assms(1,4,5)] unfolding sd0_def by metis
  have sent: "\<forall>e \<in> set entries. sent_ok e" using sub assms(2) by blast
  have frame: "sd1 = sd0\<lparr>vending := vending sd1\<rparr>" "length (vending sd1) = MAX_VENDING"
    using fill_vending_frame [OF filled] by (auto simp: sd0_def)
  have f: "cart sd1 = cart sd" "inventory sd1 = inventory sd" "zeny sd1 = zeny sd" "bl_id sd1 = bl_id sd"
    by (subst frame(1), simp add: sd0_def)+
  have entry: "\<forall>j < length entries. entry_ok sd0 (vending sd1 ! j)"
    using fill_vending_entries [OF filled sent assms(3)] n(1) by (simp add: sd0_def)
  then have e: "\<forall>j < nat (vend_num sd'). entry_ok sd' (vending sd' ! j)"
    using f by (simp add: sd' opened_session_def entry_ok_def sd0_def)
  have "\<forall>v \<in> set (vending sd1). 0 \<le> vamount v \<and> vamount v \<le> 65535 \<and> 0 \<le> vvalue v"
    by (rule fill_vending_range [OF filled sent assms(3)]) (simp add: sd0_def no_vending_def)
  then have "shop_ok sd'"
    using e frame(2) by (intro shop_okI) (simp_all add: sd' opened_session_def)
  then show ?thesis using e f n(2) by (simp add: sd' opened_session_def)
qed

theorem vending_open_ok_witness:
  "let sd' = vending_openvending plain_env shopkeeper 101 ''apples'' 1 [(2, 3, 10), (3, 5, 100)] in
   shop_ok sd' \<and> cart sd' = cart shopkeeper \<and> inventory sd' = inventory shopkeeper \<and>
    zeny sd' = zeny shopkeeper \<and>
    vend_num sd' \<le> 2 + pc_checkskill shopkeeper MC_VENDING \<and> vender_id sd' = bl_id shopkeeper \<and>
    (\<forall>j < nat (vend_num sd'). entry_ok sd' (vending sd' ! j))"
proof -
  have "vender_id (vending_openvending plain_env shopkeeper 101 ''apples'' 1 [(2, 3, 10), (3, 5, 100)]) \<noteq> 0"
    by code_simp
  from vending_open_ok [OF _ _ _ refl this] show ?thesis
    unfolding Let_def by (simp add: shopkeeper_def plain_session_def sent_ok_def plain_env_def)
qed

text \<open>
  A shop that is open already can be opened again with an entry the cart does not hold: the
  attempt is refused after the list has been overwritten, and the shop stays open. A customer then
  buys 20 pieces of a stack of 9, and the 9 stay in the vendor's cart.
\<close>

definition forged_shop :: session where
  "forged_shop = vending_openvending plain_env open_shop 101 ''apples'' 1 [(2, 3, 10), (3, 60000, 1)]"

lemma vending_duplicates:
  "case purchase_pair plain_env 12 [(20, 3)] (customer, forged_shop) of (sd, vsd) \<Rightarrow>
    vender_id forged_shop = 1 \<and> amount (cart forged_shop ! 1) = 9 \<and>
    map (\<lambda>it. (nameid it, amount it)) (take 3 (inventory sd)) = [(514, 1), (513, 20), (0, 0)] \<and>
    map (\<lambda>it. (nameid it, amount it)) (take 2 (cart vsd)) = [(512, 3), (513, 9)]"
  by code_simp

text \<open>
  The room check compares the item id only. A customer without an empty slot who has a
  stack with the id, but without the vendor's cards, pays and gets nothing, and the vendor loses
  the piece.
\<close>

definition crowded_customer :: session where
  "crowded_customer = plain_session 2 1000 (map (\<lambda>i. stack (501 + int i) 1) [0..<100]) []"

definition brewer :: session where
  "brewer = (plain_session 1 500 [] [(stack 512 3)\<lparr>cards := [254, 0, 7, 0]\<rparr>])
     \<lparr>vending := \<lparr>index = 0, vamount = 3, vvalue = 10\<rparr> # replicate 11 no_vending,
      vend_num := 1, vender_id := 1\<rparr>"

lemma vending_loses_item:
  "case purchase_pair plain_env 12 [(2, 2)] (crowded_customer, brewer) of (sd, vsd) \<Rightarrow>
    zeny sd = 980 \<and> zeny vsd = 520 \<and>
    map amount (inventory sd) = map amount (inventory crowded_customer) \<and>
    amount (cart vsd ! 0) = 1"
  by code_simp

end
