(* ===== verification/Shop.thy ===== *)
theory Shop
  imports Inventory
begin

text \<open>
  Shops run by NPCs: \<open>npc_checknear\<close>, \<open>npc_buysellsel\<close>, \<open>npc_buylist\<close> and \<open>npc_selllist\<close> of
  \<open>src/src/map/npc.c\<close>, the price check when a shop is loaded, and the two packet handlers of
  \<open>src/src/map/clif.c\<close>. Sums of prices are \<open>double\<close> in the code and exact, because every partial
  sum is compared with a purse. The log of sales is left out.
\<close>

section \<open>The NPC\<close>

datatype npc_subtype = WARP | SHOP | SCRIPT | MONS

text \<open>\<open>shop_item\<close> up to the entry with item id 0 that ends it.\<close>

record npc =
  nm :: int
  nx :: int
  ny :: int
  nclass :: int
  subtype :: npc_subtype
  nflag :: int
  shop_item :: "(int \<times> int) list"

type_synonym npcs = "int \<Rightarrow> npc option"

definition npc_checknear :: "env \<Rightarrow> session \<Rightarrow> npc option \<Rightarrow> bool" where
  "npc_checknear env sd nd = (case nd of
     None \<Rightarrow> True
   | Some nd \<Rightarrow>
      (if nclass nd < 0 then False
       else nm nd \<noteq> bl_m sd \<or> nx nd < bl_x sd - area_size env - 1 \<or> nx nd > bl_x sd + area_size env + 1 \<or>
         ny nd < bl_y sd - area_size env - 1 \<or> ny nd > bl_y sd + area_size env + 1))"

text \<open>
  The price of an item when the script file gives \<open>val\<close> (-1: the price of the item database): it
  is raised when a discount and an overcharge together would make a profit.
\<close>

definition shop_price :: "item_data \<Rightarrow> int \<Rightarrow> int" where
  "shop_price d val =
     (let val = (if val < 0 then value_buy d else val)
      in if val * 75 < value_sell d * 124 then cdiv (value_sell d * 124) 75 + 1 else val)"

definition npc_buysellsel :: "env \<Rightarrow> npcs \<Rightarrow> session \<Rightarrow> int \<Rightarrow> int \<Rightarrow> session" where
  "npc_buysellsel env ns sd shop type = (case ns shop of
     None \<Rightarrow> sd
   | Some nd \<Rightarrow>
      (if npc_checknear env sd (Some nd) then sd
       else if subtype nd \<noteq> SHOP then sd\<lparr>npc_id := 0\<rparr>
       else if nflag nd AND 1 \<noteq> 0 then sd
       else (let sd = sd\<lparr>npc_shopid := shop\<rparr>
         in if type = 0 then send (clif_buylist shop) sd else send clif_selllist sd)))"

section \<open>Buying\<close>

definition buy_price :: "env \<Rightarrow> session \<Rightarrow> int \<Rightarrow> int \<Rightarrow> int" where
  "buy_price env sd nid val =
     (if value_notdc (itemdb env nid) then val else pc_modifybuyvalue sd val)"

definition sell_price :: "env \<Rightarrow> session \<Rightarrow> int \<Rightarrow> int" where
  "sell_price env sd nid =
     (if value_notoc (itemdb env nid) then value_sell (itemdb env nid)
      else pc_modifysellvalue sd (value_sell (itemdb env nid)))"

text \<open>
  The checking loop over the entries (amount, item id), with the results of the packet (1: not
  enough zeny, 2: too heavy, 3: anything else) and the punishment of a client that asks for
  several pieces of an item that does not stack.
\<close>

datatype shop_check = Reject int "packet list" | Accept int int

fun buy_check :: "env \<Rightarrow> session \<Rightarrow> (int \<times> int) list \<Rightarrow> (int \<times> int) list \<Rightarrow> int \<Rightarrow> int \<Rightarrow> int \<Rightarrow> shop_check" where
  "buy_check env sd wares [] z w fresh = Accept z fresh"
| "buy_check env sd wares ((amt, nid) # ps) z w fresh =
     (let j = first_idx (\<lambda>(i, v). i = nid) wares; data = itemdb env nid in
      if amt \<le> 0 then Reject 3 []
      else if nid \<le> 0 then Reject 3 []
      else if j \<ge> length wares then Reject 3 []
      else if itemdb_isequip3 data \<and> amt > 1
      then Reject 3 [intif_wis_message_to_gm 0, chrif_char_ask_name 1, clif_setwaitclose,
        intif_wis_message_to_gm 540]
      else
        (let z = z + buy_price env sd nid (snd (wares ! j)) * amt;
             check = pc_checkadditem env sd nid amt;
             fresh = (if check = ADDITEM_NEW then fresh + 1 else fresh);
             w = w + item_weight data * amt in
         if z < 0 \<or> z > zeny sd then Reject 1 []
         else if check = ADDITEM_OVERAMOUNT then Reject 2 []
         else if w + weight sd > max_weight sd then Reject 2 []
         else buy_check env sd wares ps z w fresh))"

text \<open>The numbers of the items, which were found among the wares, fit into the 16 bits of an item.\<close>

definition buy_one :: "env \<Rightarrow> int \<times> int \<Rightarrow> session \<Rightarrow> session" where
  "buy_one env p sd = snd (pc_additem env sd (blank\<lparr>nameid := snd p, identify := 1\<rparr>) (fst p))"

definition merchant_gain :: "env \<Rightarrow> int \<Rightarrow> int \<Rightarrow> session \<Rightarrow> session" where
  "merchant_gain env k z sd =
     (if shop_exp env > 0 \<and> z > 0 \<and> pc_checkskill sd k > 0 then shop_gain env k z sd else sd)"

definition npc_buylist :: "env \<Rightarrow> npcs \<Rightarrow> session \<Rightarrow> (int \<times> int) list \<Rightarrow> int \<times> session" where
  "npc_buylist env ns sd item_list = (case ns (npc_shopid sd) of
     None \<Rightarrow> (3, sd)
   | Some nd \<Rightarrow>
      (if npc_checknear env sd (Some nd) then (3, sd)
       else if subtype nd \<noteq> SHOP then (3, sd)
       else (case buy_check env sd (shop_item nd) item_list 0 0 0 of
           Reject r ms \<Rightarrow> (r, fold send ms sd)
         | Accept z fresh \<Rightarrow>
             (if pc_inventoryblank sd < fresh then (3, sd)
              else (let sd = snd (pc_payzeny sd z); sd = fold (buy_one env) item_list sd
                in (0, merchant_gain env MC_DISCOUNT z sd))))))"

section \<open>Selling\<close>

text \<open>The loop over the entries (index as sent, amount), on a copy of the inventory.\<close>

fun sell_check :: "env \<Rightarrow> session \<Rightarrow> (int \<times> int) list \<Rightarrow> int \<Rightarrow> item list \<Rightarrow> shop_check" where
  "sell_check env sd [] z items = Accept z 0"
| "sell_check env sd ((sent_idx, amt) # ps) z items =
     (let idx = sent_idx - 2; n = nat idx in
      if idx < 0 \<or> idx \<ge> int MAX_INVENTORY then Reject 1 []
      else if amt \<le> 0 \<or> amount (items ! n) < amt then Reject 1 []
      else if nameid (items ! n) \<le> 0 then Reject 1 []
      else
        (let z = z + sell_price env sd (nameid (items ! n)) * amt in
         if z < 0 then Reject 1 []
         else if z > MAX_ZENY - zeny sd then Reject 1 [clif_displaymessage 649]
         else sell_check env sd ps z (shrink_slot n amt items)))"

definition sell_one :: "env \<Rightarrow> int \<times> int \<Rightarrow> session \<Rightarrow> session" where
  "sell_one env p sd = (let n = nat (fst p - 2); it = inventory sd ! n;
      sd = (case inventory_data sd ! n of
          None \<Rightarrow> sd
        | Some data \<Rightarrow>
            (if item_type data = 7 \<and> cards it ! 0 = - 256 \<and> pet_egg env (nameid it)
             then send (intif_delete_petdata (u16 (cards it ! 1) + 65536 * u16 (cards it ! 2))) sd
             else sd))
    in pc_delitem env sd n (snd p) 0)"

definition npc_selllist :: "env \<Rightarrow> npcs \<Rightarrow> session \<Rightarrow> (int \<times> int) list \<Rightarrow> int \<times> session" where
  "npc_selllist env ns sd item_list = (case ns (npc_shopid sd) of
     None \<Rightarrow> (1, sd)
   | Some nd \<Rightarrow>
      (if npc_checknear env sd (Some nd) then (1, sd)
       else if subtype nd \<noteq> SHOP then (1, sd)
       else (case sell_check env sd item_list 0 (inventory sd) of
           Reject r ms \<Rightarrow> (r, fold send ms sd)
         | Accept z fresh \<Rightarrow>
             (let sd = fold (sell_one env) item_list (pc_getzeny sd z)
              in (0, merchant_gain env MC_OVERCHARGE z sd)))))"

section \<open>The packets\<close>

definition clif_parse_NpcBuyListSend :: "env \<Rightarrow> npcs \<Rightarrow> session \<Rightarrow> int \<Rightarrow> (int \<times> int) list \<Rightarrow> session" where
  "clif_parse_NpcBuyListSend env ns sd len p =
     (let n = cdiv (len - 4) 4 in
      if n \<le> 0 then sd
      else (let (fail, sd) = npc_buylist env ns sd (take (nat n) p) in send (npc_buy_result fail) sd))"

definition clif_parse_NpcSellListSend :: "env \<Rightarrow> npcs \<Rightarrow> session \<Rightarrow> int \<Rightarrow> (int \<times> int) list \<Rightarrow> session" where
  "clif_parse_NpcSellListSend env ns sd len p =
     (let n = cdiv (len - 4) 4 in
      if n \<le> 0 \<or> n > int MAX_INVENTORY then sd
      else (let (fail, sd) = npc_selllist env ns sd (take (nat n) p) in send (npc_sell_result fail) sd))"

end
