(* ===== verification/ShopProofs.thy ===== *)
theory ShopProofs
  imports Shop
begin

text \<open>
  Shops of NPCs: what is paid and delivered, that a sale removes exactly the pieces that were
  paid for, and that the prices leave no profit in buying from a shop and selling to it.
\<close>

section \<open>Prices\<close>

definition merchant_levels :: "session \<Rightarrow> bool" where
  "merchant_levels sd \<longleftrightarrow> pc_checkskill sd MC_DISCOUNT \<le> 10 \<and> pc_checkskill sd MC_OVERCHARGE \<le> 10 \<and>
     pc_checkskill sd RG_COMPULSION \<le> 5"

lemma buy_at_least:
  assumes "merchant_levels sd" "0 \<le> v"
  shows "v * 75 div 100 \<le> pc_modifybuyvalue sd v" "0 < v \<Longrightarrow> 1 \<le> pc_modifybuyvalue sd v"
proof -
  define a where "a = pc_checkskill sd MC_DISCOUNT"
  define b where "b = pc_checkskill sd RG_COMPULSION"
  define r1 where "r1 = (if a > 0 then 5 + a * 2 - (if a = 10 then 1 else 0) else 0)"
  define r2 where "r2 = (if b > 0 then 5 + b * 4 else 0)"
  define r where "r = (if r1 < r2 then r2 else r1)"
  have le: "a \<le> 10" "b \<le> 5" using assms(1) by (simp_all add: merchant_levels_def a_def b_def)
  have r: "0 \<le> r" "r \<le> 25" using le by (auto simp: r_def r1_def r2_def)
  define val where "val = (if r \<noteq> 0 then cdiv (v * (100 - r)) 100 else v)"
  have mono: "v * 75 div 100 \<le> v * (100 - r) div 100"
    using r assms(2) by (intro zdiv_mono1 mult_left_mono) auto
  have low: "v * 75 div 100 \<le> val"
  proof (cases "r = 0")
    case True
    then show ?thesis using mono by (simp add: val_def)
  next
    case False
    then have "val = v * (100 - r) div 100" using r assms(2) by (simp add: val_def cdiv_nonneg)
    then show ?thesis using mono by simp
  qed
  have pos: "0 \<le> val" using low assms(2) by (meson order_trans pos_imp_zdiv_nonneg_iff zero_le_mult_iff zero_le_numeral zero_less_numeral)
  have eq: "pc_modifybuyvalue sd v = (if v > 0 \<and> val < 1 then 1 else val)"
    using pos unfolding pc_modifybuyvalue_def Let_def a_def [symmetric] b_def [symmetric]
      r1_def [symmetric] r2_def [symmetric] r_def [symmetric] val_def [symmetric] by simp
  show "v * 75 div 100 \<le> pc_modifybuyvalue sd v" using low by (auto simp: eq)
  show "0 < v \<Longrightarrow> 1 \<le> pc_modifybuyvalue sd v" by (simp add: eq)
qed

lemma sell_at_most:
  assumes "merchant_levels sd" "0 \<le> v"
  shows "pc_modifysellvalue sd v \<le> v * 124 div 100"
proof -
  define a where "a = pc_checkskill sd MC_OVERCHARGE"
  define r where "r = (if a > 0 then 5 + a * 2 - (if a = 10 then 1 else 0) else 0)"
  have r: "0 \<le> r" "r \<le> 24" using assms(1) by (auto simp: r_def merchant_levels_def a_def)
  define val where "val = (if r \<noteq> 0 then cdiv (v * (100 + r)) 100 else v)"
  have val: "val = v * (100 + r) div 100"
    using r assms(2) by (simp add: val_def cdiv_nonneg)
  have mono: "v * (100 + r) div 100 \<le> v * 124 div 100"
    using r assms(2) by (intro zdiv_mono1 mult_left_mono) auto
  have "v * 100 div 100 \<le> v * (100 + r) div 100"
    using r assms(2) by (intro zdiv_mono1 mult_left_mono) auto
  then have "v \<le> val" by (simp add: val)
  then have "pc_modifysellvalue sd v = val"
    using assms(2) unfolding pc_modifysellvalue_def Let_def a_def [symmetric] r_def [symmetric]
      val_def [symmetric] by simp
  then show ?thesis using mono val by simp
qed

lemma shop_price_covers:
  assumes "0 \<le> value_sell d"
  shows "value_sell d * 124 \<le> shop_price d val * 75"
proof -
  have "value_sell d * 124 \<le> (value_sell d * 124 div 75 + 1) * 75"
    using div_mult_mod_eq [of "value_sell d * 124" 75] pos_mod_bound [of 75 "value_sell d * 124"] by simp
  then show ?thesis using assms by (simp add: shop_price_def Let_def cdiv_nonneg)
qed

section \<open>Selling\<close>

text \<open>What the checking loop establishes: the entries, cumulated, are in the inventory.\<close>

fun sales_fit :: "(int \<times> int) list \<Rightarrow> item list \<Rightarrow> bool" where
  "sales_fit [] items = True"
| "sales_fit ((i, a) # ps) items \<longleftrightarrow> 2 \<le> i \<and> i - 2 < int MAX_INVENTORY \<and> 0 < a \<and>
     a \<le> amount (items ! nat (i - 2)) \<and> sales_fit ps (shrink_slot (nat (i - 2)) a items)"

definition sales_value :: "env \<Rightarrow> session \<Rightarrow> (int \<times> int) list \<Rightarrow> int" where
  "sales_value env sd ps =
     (\<Sum>(i, a) \<leftarrow> ps. sell_price env sd (nameid (inventory sd ! nat (i - 2))) * a)"

definition sold :: "nat \<Rightarrow> (int \<times> int) list \<Rightarrow> int" where
  "sold n ps = (\<Sum>(i, a) \<leftarrow> ps. if nat (i - 2) = n then a else 0)"

lemma sell_check_correct:
  "sell_check env sd ps z items = Accept z' f \<Longrightarrow> map nameid items = map nameid (inventory sd) \<Longrightarrow>
    length items = MAX_INVENTORY \<Longrightarrow>
    sales_fit ps items \<and> z' = z + sales_value env sd ps \<and>
    (ps = [] \<or> 0 \<le> z' \<and> z' \<le> MAX_ZENY - zeny sd)"
proof (induction env sd ps z items rule: sell_check.induct)
  case (1 env sd z items)
  then show ?case by (simp add: sales_value_def)
next
  case (2 env sd i a ps z items)
  define n where "n = nat (i - 2)"
  define z1 where "z1 = z + sell_price env sd (nameid (items ! n)) * a"
  have pass: "\<not> (i - 2 < 0 \<or> i - 2 \<ge> int MAX_INVENTORY)" "\<not> (a \<le> 0 \<or> amount (items ! n) < a)"
    "\<not> nameid (items ! n) \<le> 0" "\<not> z1 < 0" "\<not> z1 > MAX_ZENY - zeny sd"
    and rest: "sell_check env sd ps z1 (shrink_slot n a items) = Accept z' f"
    using "2.prems"(1) by (auto simp: Let_def n_def z1_def split: if_splits)
  have n: "n < length items" using pass(1) "2.prems"(3) unfolding n_def by linarith
  have names: "map nameid (shrink_slot n a items) = map nameid (inventory sd)"
  proof -
    have "map nameid (shrink_slot n a items) = (map nameid items)[n := map nameid items ! n]"
      using n by (simp add: shrink_slot_def map_update)
    then show ?thesis using "2.prems"(2) by simp
  qed
  have name: "nameid (items ! n) = nameid (inventory sd ! n)"
    using "2.prems"(2) n by (metis length_map nth_map)
  have IH: "sales_fit ps (shrink_slot n a items) \<and> z' = z1 + sales_value env sd ps \<and>
      (ps = [] \<or> 0 \<le> z' \<and> z' \<le> MAX_ZENY - zeny sd)"
    using "2.IH" [OF refl n_def pass(1,2,3) z1_def pass(4,5) rest names] "2.prems"(3) by force
  have "ps = [] \<longrightarrow> z' = z1" using IH by (auto simp: sales_value_def)
  then have "0 \<le> z' \<and> z' \<le> MAX_ZENY - zeny sd" using IH pass(4,5) by auto
  moreover have "z' = z + sales_value env sd ((i, a) # ps)"
    using IH name by (simp add: z1_def sales_value_def n_def)
  moreover have "sales_fit ((i, a) # ps) items" using IH pass(1,2) by (simp add: n_def)
  ultimately show ?case by blast
qed

lemma sell_one_correct:
  assumes ok: "session_ok env sd" and n: "n = nat (i - 2)" "n < MAX_INVENTORY"
    and a: "0 < a" "a \<le> amount (inventory sd ! n)"
  shows "session_ok env (sell_one env (i, a) sd)" "zeny (sell_one env (i, a) sd) = zeny sd"
    "cart (sell_one env (i, a) sd) = cart sd"
    "inventory (sell_one env (i, a) sd) = drop_pieces n a (inventory sd)"
proof -
  obtain sd1 where sd1: "sell_one env (i, a) sd = pc_delitem env sd1 n a 0" "belongings sd1 = belongings sd"
    by (simp add: sell_one_def Let_def n(1) [symmetric] split: option.splits)
  note b = belongings_eq(1,3,7) [OF sd1(2)]
  have ok1: "session_ok env sd1" using ok session_ok_cong [OF sd1(2)] by simp
  have "slot_ok (inventory sd ! n)" using session_ok_slots(1,3) [OF ok] n(2) by simp
  then have "nameid (inventory sd1 ! n) \<noteq> 0" using a b by (auto simp: slot_ok_def)
  from pc_delitem_correct [OF ok1 n(2) this a(1)] a(2) b
  show "session_ok env (sell_one env (i, a) sd)" "zeny (sell_one env (i, a) sd) = zeny sd"
    "cart (sell_one env (i, a) sd) = cart sd"
    "inventory (sell_one env (i, a) sd) = drop_pieces n a (inventory sd)"
    by (simp_all add: sd1(1))
qed

lemma sell_all_correct:
  "session_ok env sd \<Longrightarrow> sales_fit ps items \<Longrightarrow> length items = MAX_INVENTORY \<Longrightarrow>
    \<forall>n < MAX_INVENTORY. amount (items ! n) = amount (inventory sd ! n) \<Longrightarrow>
    sd' = fold (sell_one env) ps sd \<Longrightarrow>
    session_ok env sd' \<and> zeny sd' = zeny sd \<and> cart sd' = cart sd \<and>
    (\<forall>n < MAX_INVENTORY. amount (inventory sd' ! n) = amount (inventory sd ! n) - sold n ps \<and>
       (sold n ps = 0 \<longrightarrow> inventory sd' ! n = inventory sd ! n))"
proof (induction ps arbitrary: sd items)
  case Nil
  then show ?case by (simp add: sold_def)
next
  case (Cons x ps)
  obtain i a where x: "x = (i, a)" by force
  define n where "n = nat (i - 2)"
  define sd1 where "sd1 = sell_one env (i, a) sd"
  have fit: "n < MAX_INVENTORY" "0 < a" "a \<le> amount (items ! n)" "sales_fit ps (shrink_slot n a items)"
    using Cons.prems(2) by (auto simp: x n_def)
  have le: "a \<le> amount (inventory sd ! n)" using fit Cons.prems(4) by simp
  note step = sell_one_correct [OF Cons.prems(1) n_def fit(1,2) le, folded sd1_def]
  have len: "n < length (inventory sd)" using fit(1) session_ok_slots(1) [OF Cons.prems(1)] by simp
  have slot: "slot_ok (inventory sd ! n)" using session_ok_slots(3) [OF Cons.prems(1)] len by simp
  note drop = drop_pieces_nth [OF len slot fit(2) le]
  have "s16 (amount (items ! n) - a) = amount (items ! n) - a"
    using slot fit(1,2) le Cons.prems(4) by (intro s16_id) (auto simp: slot_ok_def)
  then have "\<forall>m < MAX_INVENTORY. amount (shrink_slot n a items ! m) = amount (inventory sd1 ! m)"
    using Cons.prems(3,4) fit(1) drop(1) step(4) by (auto simp: shrink_slot_def nth_list_update)
  moreover have "sd' = fold (sell_one env) ps sd1" using Cons.prems(5) by (simp add: x sd1_def)
  ultimately have IH: "session_ok env sd' \<and> zeny sd' = zeny sd1 \<and> cart sd' = cart sd1 \<and>
    (\<forall>n < MAX_INVENTORY. amount (inventory sd' ! n) = amount (inventory sd1 ! n) - sold n ps \<and>
       (sold n ps = 0 \<longrightarrow> inventory sd' ! n = inventory sd1 ! n))"
    using Cons.IH [OF step(1) fit(4)] Cons.prems(3) by simp
  have sum: "sold m (x # ps) = (if m = n then a else 0) + sold m ps" for m
    by (simp add: sold_def x n_def)
  have pos: "0 \<le> sold m ps" for m
    using fit(4)
  proof -
    have "sales_fit qs its \<Longrightarrow> 0 \<le> sold m qs" for qs its
      by (induction qs its rule: sales_fit.induct) (auto simp: sold_def)
    then show ?thesis using fit(4) by blast
  qed
  have "amount (inventory sd' ! m) = amount (inventory sd ! m) - sold m (x # ps) \<and>
      (sold m (x # ps) = 0 \<longrightarrow> inventory sd' ! m = inventory sd ! m)" if "m < MAX_INVENTORY" for m
    using IH that drop [of m] step(4) sum [of m] pos [of m] fit(2) by (cases "m = n") auto
  then show ?case using IH step(2,3) by simp
qed

section \<open>Buying\<close>

definition buy_value :: "env \<Rightarrow> session \<Rightarrow> (int \<times> int) list \<Rightarrow> (int \<times> int) list \<Rightarrow> int" where
  "buy_value env sd wares ps = (\<Sum>(amt, nid) \<leftarrow> ps.
     buy_price env sd nid (snd (wares ! first_idx (\<lambda>(i, v). i = nid) wares)) * amt)"

definition fresh_item :: "int \<Rightarrow> item" where
  "fresh_item nid = blank\<lparr>nameid := nid, identify := 1\<rparr>"

definition ordered :: "kind \<Rightarrow> (int \<times> int) list \<Rightarrow> int" where
  "ordered k ps = (\<Sum>(amt, nid) \<leftarrow> ps. if kind_of (fresh_item nid) = k then amt else 0)"

lemma buy_check_correct:
  "buy_check env sd wares ps z w fresh = Accept z' f \<Longrightarrow>
    z' = z + buy_value env sd wares ps \<and> (\<forall>p \<in> set ps. 0 < fst p) \<and>
    (ps = [] \<or> 0 \<le> z' \<and> z' \<le> zeny sd)"
proof (induction env sd wares ps z w fresh rule: buy_check.induct)
  case (1 env sd wares z w fresh)
  then show ?case by (simp add: buy_value_def)
next
  case (2 env sd wares amt nid ps z w fresh)
  define j where "j = first_idx (\<lambda>(i, v). i = nid) wares"
  define z1 where "z1 = z + buy_price env sd nid (snd (wares ! j)) * amt"
  define check where "check = pc_checkadditem env sd nid amt"
  define fresh1 where "fresh1 = (if check = ADDITEM_NEW then fresh + 1 else fresh)"
  define w1 where "w1 = w + item_weight (itemdb env nid) * amt"
  have pass: "\<not> amt \<le> 0" "\<not> nid \<le> 0" "\<not> j \<ge> length wares" "\<not> (itemdb_isequip3 (itemdb env nid) \<and> amt > 1)"
    "\<not> (z1 < 0 \<or> z1 > zeny sd)" "check \<noteq> ADDITEM_OVERAMOUNT" "\<not> w1 + weight sd > max_weight sd"
    and rest: "buy_check env sd wares ps z1 w1 fresh1 = Accept z' f"
    using "2.prems" by (auto simp: Let_def j_def z1_def check_def fresh1_def w1_def split: if_splits)
  note IH = "2.IH" [OF j_def refl pass(1,2,3,4) z1_def check_def fresh1_def w1_def pass(5,6,7) rest]
  have "ps = [] \<longrightarrow> z' = z1" using IH by (auto simp: buy_value_def)
  then have "0 \<le> z' \<and> z' \<le> zeny sd" using IH pass(5) by auto
  moreover have "z' = z + buy_value env sd wares ((amt, nid) # ps)"
    using IH by (simp add: z1_def buy_value_def j_def)
  ultimately show ?case using IH pass(1) by simp
qed

lemma buy_check_reject: "buy_check env sd wares ps z w fresh = Reject r ms \<Longrightarrow> r \<noteq> 0"
  by (induction env sd wares ps z w fresh rule: buy_check.induct) (auto simp: Let_def split: if_splits)

lemma sell_check_reject: "sell_check env sd ps z items = Reject r ms \<Longrightarrow> r \<noteq> 0"
  by (induction env sd ps z items rule: sell_check.induct) (auto simp: Let_def split: if_splits)

lemma buy_all_correct:
  "session_ok env sd \<Longrightarrow> \<forall>p \<in> set ps. 0 < fst p \<and> fst p \<le> 32767 \<Longrightarrow> sd' = fold (buy_one env) ps sd \<Longrightarrow>
    session_ok env sd' \<and> zeny sd' = zeny sd \<and> cart sd' = cart sd \<and>
    stock k (inventory sd) \<le> stock k (inventory sd') \<and>
    stock k (inventory sd') \<le> stock k (inventory sd) + ordered k ps"
proof (induction ps arbitrary: sd)
  case Nil
  then show ?case by (simp add: ordered_def)
next
  case (Cons x ps)
  obtain amt nid where x: "x = (amt, nid)" by force
  have amt: "0 < amt" "amt \<le> 32767" using Cons.prems(2) by (auto simp: x)
  obtain r sd1 where add: "pc_additem env sd (fresh_item nid) amt = (r, sd1)" by force
  have one: "buy_one env x sd = sd1" using add by (simp add: buy_one_def x fresh_item_def)
  note ok1 = add_good(1) [OF Cons.prems(1) amt(2) add]
  have zc: "zeny sd1 = zeny sd" "cart sd1 = cart sd"
    using zeny_additem [of env sd "fresh_item nid" amt] cart_pc_additem [OF Cons.prems(1) add] add by simp_all
  have st: "stock k (inventory sd) \<le> stock k (inventory sd1)"
    "stock k (inventory sd1) \<le> stock k (inventory sd) + (if kind_of (fresh_item nid) = k then amt else 0)"
    using pc_additem_correct(2) [OF Cons.prems(1) _ amt(2), of "fresh_item nid" sd1 k]
      pc_additem_fails [OF add] add amt(1) by (cases "r = 0"; auto)+
  have "sd' = fold (buy_one env) ps sd1" using Cons.prems(3) one by simp
  from Cons.IH [OF ok1 _ this] Cons.prems(2) zc st show ?case by (auto simp: ordered_def x)
qed

lemma merchant_gain_frame:
  assumes "session_ok env sd"
  shows "belongings (merchant_gain env k z sd) = belongings sd"
  using assms by (simp add: merchant_gain_def session_ok_def keeps_belongings_def)

lemma zeny_payzeny:
  assumes "0 \<le> z" "z \<le> zeny sd" "zeny sd \<le> MAX_ZENY"
  shows "zeny (snd (pc_payzeny sd z)) = zeny sd - z"
    "session_ok env (snd (pc_payzeny sd z)) = session_ok env sd"
    "inventory (snd (pc_payzeny sd z)) = inventory sd"
  using assms session_ok_cong [of "send p (sd\<lparr>zeny := y\<rparr>)" "sd\<lparr>zeny := y\<rparr>" env for p y]
  by (auto simp: pc_payzeny_def Let_def session_ok_def inventory_ok_def cart_ok_def)

lemma zeny_getzeny:
  assumes "0 \<le> z" "z \<le> MAX_ZENY - zeny sd"
  shows "zeny (pc_getzeny sd z) = zeny sd + z"
    "session_ok env (pc_getzeny sd z) = session_ok env sd"
    "inventory (pc_getzeny sd z) = inventory sd"
  using assms by (auto simp: pc_getzeny_def Let_def session_ok_def inventory_ok_def cart_ok_def)

section \<open>Properties\<close>

text \<open>
  C11: nobody makes a profit by buying from a shop and selling to it, not even when a
  merchant with the highest discount buys and another with the highest overcharge sells.
\<close>

theorem shop_no_arbitrage:
  assumes "merchant_levels buyer_sd" "merchant_levels seller_sd" "0 \<le> value_sell (itemdb env nid)"
  shows "sell_price env seller_sd nid \<le> buy_price env buyer_sd nid (shop_price (itemdb env nid) val)"
proof -
  define v where "v = shop_price (itemdb env nid) val"
  define s where "s = value_sell (itemdb env nid)"
  have cover: "s * 124 \<le> v * 75" using shop_price_covers [OF assms(3)] by (simp add: v_def s_def)
  have s: "0 \<le> s" using assms(3) by (simp add: s_def)
  then have v: "0 \<le> v" using cover by linarith
  have "s * 124 div 100 \<le> v * 75 div 100" using cover by (intro zdiv_mono1) auto
  moreover have "s \<le> s * 124 div 100" "v * 75 div 100 \<le> v" using s v by simp_all
  moreover have "sell_price env seller_sd nid \<le> s * 124 div 100"
    using sell_at_most [OF assms(2) s] \<open>s \<le> s * 124 div 100\<close> by (simp add: sell_price_def s_def)
  moreover have "v * 75 div 100 \<le> buy_price env buyer_sd nid v"
    using buy_at_least(1) [OF assms(1) v] \<open>v * 75 div 100 \<le> v\<close> by (simp add: buy_price_def)
  ultimately show ?thesis by (simp add: v_def)
qed

definition merchant :: session where
  "merchant = (plain_session 3 5000 [stack 512 7, stack 513 2] [])
     \<lparr>skill := (\<lambda>k. if k = MC_DISCOUNT \<or> k = MC_OVERCHARGE then 10 else 0), npc_shopid := 9\<rparr>"

definition one_shop :: npcs where
  "one_shop = [9 \<mapsto> \<lparr>nm = 0, nx = 3, ny = 4, nclass = 1, subtype = SHOP, nflag = 0,
     shop_item = [(512, 20), (514, 20)]\<rparr>]"

theorem shop_no_arbitrage_witness:
  "sell_price plain_env merchant 512 \<le>
    buy_price plain_env merchant 512 (shop_price (itemdb plain_env 512) 12)"
  by (rule shop_no_arbitrage)
    (simp_all add: merchant_levels_def merchant_def pc_checkskill_def plain_env_def
      MC_DISCOUNT_def MC_OVERCHARGE_def RG_COMPULSION_def)

text \<open>
  C12: a refused purchase changes nothing the player owns; an accepted one takes exactly the sum
  of the prices, which the player had, and adds at most what was ordered. The amounts asked for are at most 32767.
\<close>

theorem npc_buylist_correct:
  assumes "session_ok env sd" "0 \<le> zeny sd" "zeny sd \<le> MAX_ZENY" "\<forall>p \<in> set ps. fst p \<le> 32767"
    and "ns (npc_shopid sd) = Some nd" "npc_buylist env ns sd ps = (r, sd')"
  shows "session_ok env sd' \<and> (r \<noteq> 0 \<longrightarrow> belongings sd' = belongings sd) \<and>
    (r = 0 \<longrightarrow> zeny sd' = zeny sd - buy_value env sd (shop_item nd) ps \<and> 0 \<le> zeny sd' \<and> zeny sd' \<le> zeny sd \<and>
       stock k (inventory sd) \<le> stock k (inventory sd') \<and>
       stock k (inventory sd') \<le> stock k (inventory sd) + ordered k ps)"
proof -
  define c where "c = buy_check env sd (shop_item nd) ps 0 0 0"
  have sent: "belongings (fold send ms sd) = belongings sd" for ms
    by (induction ms arbitrary: sd) simp_all
  have rejected: "c = Reject r ms \<Longrightarrow> r \<noteq> 0" for ms
    unfolding c_def by (rule buy_check_reject)
  consider (refused) ms where "r \<noteq> 0" "sd' = fold send ms sd"
    | (bought) z f where "c = Accept z f" "r = 0"
        "sd' = merchant_gain env MC_DISCOUNT z (fold (buy_one env) ps (snd (pc_payzeny sd z)))"
    using assms(5,6) rejected
    by (auto simp: npc_buylist_def c_def [symmetric] Let_def split: if_splits shop_check.splits
        intro: that(1) [of "[]"])
  then show ?thesis
  proof cases
    case refused
    then show ?thesis using assms(1) session_ok_cong [OF sent] sent by simp
  next
    case bought
    note check = buy_check_correct [OF bought(1) [unfolded c_def]]
    have z: "0 \<le> z" "z \<le> zeny sd" "z = buy_value env sd (shop_item nd) ps"
      using check assms(2) by (auto simp: buy_value_def)
    note pay = zeny_payzeny [OF z(1,2) assms(3)]
    define sd1 where "sd1 = fold (buy_one env) ps (snd (pc_payzeny sd z))"
    have ok: "session_ok env (snd (pc_payzeny sd z))" using pay(2) assms(1) by simp
    have pre: "\<forall>p \<in> set ps. 0 < fst p \<and> fst p \<le> 32767" using check assms(4) by blast
    from buy_all_correct [OF ok pre sd1_def, of k] have all: "session_ok env sd1 \<and> zeny sd1 = zeny sd - z \<and>
        stock k (inventory sd) \<le> stock k (inventory sd1) \<and>
        stock k (inventory sd1) \<le> stock k (inventory sd) + ordered k ps"
      unfolding pay by blast
    then have g: "belongings sd' = belongings sd1"
      using merchant_gain_frame bought(3) by (simp add: sd1_def)
    show ?thesis
      using all belongings_eq(1,7) [OF g] session_ok_cong [OF g, of env] bought(2) z by simp
  qed
qed

lemma merchant_ok: "session_ok plain_env merchant"
proof -
  have "session_ok plain_env (plain_session 3 5000 [stack 512 7, stack 513 2] [])"
    by (simp add: plain_session_ok slot_ok_stack)
  then show ?thesis by (simp add: merchant_def session_ok_def inventory_ok_def cart_ok_def)
qed

theorem npc_buylist_correct_witness:
  "let r = fst (npc_buylist plain_env one_shop merchant [(3, 512), (1, 514)]);
       sd' = snd (npc_buylist plain_env one_shop merchant [(3, 512), (1, 514)]);
       k = kind_of (fresh_item 512) in
   session_ok plain_env sd' \<and> (r \<noteq> 0 \<longrightarrow> belongings sd' = belongings merchant) \<and>
    (r = 0 \<longrightarrow> zeny sd' = zeny merchant - buy_value plain_env merchant [(512, 20), (514, 20)] [(3, 512), (1, 514)] \<and>
       0 \<le> zeny sd' \<and> zeny sd' \<le> zeny merchant \<and>
       stock k (inventory merchant) \<le> stock k (inventory sd') \<and>
       stock k (inventory sd') \<le> stock k (inventory merchant) + ordered k [(3, 512), (1, 514)])"
proof -
  have nd: "one_shop (npc_shopid merchant) = Some \<lparr>nm = 0, nx = 3, ny = 4, nclass = 1, subtype = SHOP,
      nflag = 0, shop_item = [(512, 20), (514, 20)]\<rparr>" by (simp add: merchant_def one_shop_def)
  have z: "zeny merchant = 5000" by (simp add: merchant_def plain_session_def)
  have pre: "0 \<le> zeny merchant" "zeny merchant \<le> MAX_ZENY" "\<forall>p \<in> set [(3, 512), (1::int, 514::int)]. fst p \<le> 32767"
    by (simp_all add: z MAX_ZENY_def)
  from npc_buylist_correct [OF merchant_ok pre nd
      surjective_pairing [of "npc_buylist plain_env one_shop merchant [(3, 512), (1, 514)]"],
      of "kind_of (fresh_item 512)"]
  show ?thesis unfolding Let_def npc.simps .
qed

text \<open>
  C13: a refused sale changes nothing; an accepted one pays exactly the sum of the prices, which
  fits the purse, and takes from every slot exactly the pieces that were sold from it.
\<close>

theorem npc_selllist_correct:
  assumes "session_ok env sd" "zeny sd \<le> MAX_ZENY" "npc_selllist env ns sd ps = (r, sd')"
  shows "session_ok env sd' \<and> (r \<noteq> 0 \<longrightarrow> belongings sd' = belongings sd) \<and>
    (r = 0 \<longrightarrow> zeny sd' = zeny sd + sales_value env sd ps \<and> zeny sd \<le> zeny sd' \<and> zeny sd' \<le> MAX_ZENY \<and>
       cart sd' = cart sd \<and>
       (\<forall>n < MAX_INVENTORY. amount (inventory sd' ! n) = amount (inventory sd ! n) - sold n ps \<and>
          (sold n ps = 0 \<longrightarrow> inventory sd' ! n = inventory sd ! n)))"
proof -
  define c where "c = sell_check env sd ps 0 (inventory sd)"
  have sent: "belongings (fold send ms sd) = belongings sd" for ms
    by (induction ms arbitrary: sd) simp_all
  have rejected: "c = Reject r ms \<Longrightarrow> r \<noteq> 0" for ms
    unfolding c_def by (rule sell_check_reject)
  consider (refused) ms where "r \<noteq> 0" "sd' = fold send ms sd"
    | (sale) z f where "c = Accept z f" "r = 0"
        "sd' = merchant_gain env MC_OVERCHARGE z (fold (sell_one env) ps (pc_getzeny sd z))"
    using assms(3) rejected
    by (auto simp: npc_selllist_def c_def [symmetric] Let_def split: if_splits shop_check.splits option.splits
        intro: that(1) [of "[]"])
  then show ?thesis
  proof cases
    case refused
    then show ?thesis using assms(1) session_ok_cong [OF sent] sent by simp
  next
    case sale
    have len: "length (inventory sd) = MAX_INVENTORY" by (rule session_ok_slots(1) [OF assms(1)])
    note check = sell_check_correct [OF sale(1) [unfolded c_def] refl len]
    have z: "0 \<le> z" "z \<le> MAX_ZENY - zeny sd" "z = sales_value env sd ps"
      using check assms(2) by (auto simp: sales_value_def)
    note get = zeny_getzeny [OF z(1,2)]
    define sd1 where "sd1 = fold (sell_one env) ps (pc_getzeny sd z)"
    have ok: "session_ok env (pc_getzeny sd z)" using get(2) assms(1) by simp
    have "cart (pc_getzeny sd z) = cart sd" by (simp add: pc_getzeny_def Let_def)
    with sell_all_correct [OF ok _ len _ sd1_def] check get
    have all: "session_ok env sd1 \<and> zeny sd1 = zeny sd + z \<and> cart sd1 = cart sd \<and>
        (\<forall>n < MAX_INVENTORY. amount (inventory sd1 ! n) = amount (inventory sd ! n) - sold n ps \<and>
          (sold n ps = 0 \<longrightarrow> inventory sd1 ! n = inventory sd ! n))"
      by simp
    then have g: "belongings sd' = belongings sd1"
      using merchant_gain_frame sale(3) by (simp add: sd1_def)
    show ?thesis
      using all belongings_eq(1,3,7) [OF g] session_ok_cong [OF g, of env] sale(2) z by simp
  qed
qed

theorem npc_selllist_correct_witness:
  "let r = fst (npc_selllist plain_env one_shop merchant [(2, 3), (2, 4), (3, 1)]);
       sd' = snd (npc_selllist plain_env one_shop merchant [(2, 3), (2, 4), (3, 1)]) in
   session_ok plain_env sd' \<and> (r \<noteq> 0 \<longrightarrow> belongings sd' = belongings merchant) \<and>
    (r = 0 \<longrightarrow> zeny sd' = zeny merchant + sales_value plain_env merchant [(2, 3), (2, 4), (3, 1)] \<and>
       zeny merchant \<le> zeny sd' \<and> zeny sd' \<le> MAX_ZENY \<and> cart sd' = cart merchant \<and>
       (\<forall>n < MAX_INVENTORY. amount (inventory sd' ! n) =
            amount (inventory merchant ! n) - sold n [(2, 3), (2, 4), (3, 1)] \<and>
          (sold n [(2, 3), (2, 4), (3, 1)] = 0 \<longrightarrow> inventory sd' ! n = inventory merchant ! n)))"
  unfolding Let_def
  by (rule npc_selllist_correct [OF merchant_ok, where ns = one_shop])
    (simp_all add: merchant_def plain_session_def MAX_ZENY_def)

text \<open>
  The same item twice in one list: each entry alone fits the stack, both together do not; the
  second is paid for and refused.
\<close>

lemma npc_buylist_loses_item:
  "let rich = (plain_session 3 2000000 [stack 512 1] [])\<lparr>npc_shopid := 9\<rparr>;
       (r, sd') = npc_buylist plain_env one_shop rich [(29999, 512), (29999, 512)]
   in r = 0 \<and> zeny sd' = 2000000 - 2 * 29999 * 20 \<and> amount (inventory sd' ! 0) = 30000 \<and>
      map nameid (take 2 (inventory sd')) = [512, 0]"
  by code_simp

end
