(* ===== verification/Path.thy ===== *)
theory Path
  imports Prelude
begin

text \<open>
  Path search on the map: \<open>src/src/map/path.c\<close> and \<open>map_getcellp\<close> of \<open>src/src/map/map.c\<close>. The heap is
  the list of the entries \<open>heap[1]\<close> to \<open>heap[heap[0]]\<close>; the array \<open>tp\<close> of nodes is a function on
  its indices. A call of \<open>exit\<close> and a write past the end of the heap are the result
  \<^term>\<open>None\<close>. What \<open>rand\<close> returns is a parameter.
\<close>

unbundle bit_operations_syntax

section \<open>Cells\<close>

datatype cell_t = CELL_CHKWALL | CELL_CHKWATER | CELL_CHKGROUND | CELL_CHKPASS | CELL_CHKNOPASS
  | CELL_GETTYPE | CELL_CHKNOPASS_NPC | CELL_CHKNPC | CELL_CHKBASILICA

record map_data =
  xs :: int
  ys :: int
  gat :: "int list"

type_synonym maps = "int \<Rightarrow> map_data option"

definition b2i :: "bool \<Rightarrow> int" where
  "b2i b = (if b then 1 else 0)"

definition map_getcellp :: "map_data \<Rightarrow> int \<Rightarrow> int \<Rightarrow> cell_t \<Rightarrow> int" where
  "map_getcellp m x y chk =
     (if x < 0 \<or> x \<ge> xs m - 1 \<or> y < 0 \<or> y \<ge> ys m - 1
      then b2i (chk = CELL_CHKNOPASS \<or> chk = CELL_CHKNOPASS_NPC)
      else
        (let raw = gat m ! nat (x + y * xs m); type = raw AND 0x0f in
         case chk of
           CELL_CHKPASS \<Rightarrow> b2i (type \<noteq> 1 \<and> type \<noteq> 5)
         | CELL_CHKNOPASS \<Rightarrow> b2i (type = 1 \<or> type = 5)
         | CELL_CHKWALL \<Rightarrow> b2i (type = 1)
         | CELL_CHKWATER \<Rightarrow> b2i (type = 3)
         | CELL_CHKGROUND \<Rightarrow> b2i (type = 5)
         | CELL_GETTYPE \<Rightarrow> type
         | CELL_CHKNOPASS_NPC \<Rightarrow> b2i (type = 1 \<or> type = 5 \<or> raw AND 0x80 \<noteq> 0)
         | CELL_CHKNPC \<Rightarrow> raw AND 0x80
         | CELL_CHKBASILICA \<Rightarrow> raw AND 0x40))"

definition can_place :: "map_data \<Rightarrow> int \<Rightarrow> int \<Rightarrow> int \<Rightarrow> bool" where
  "can_place m x y flag =
     (let c = map_getcellp m x y CELL_GETTYPE in
      if c = 1 then False else if flag AND 0x10000 = 0 \<and> c = 5 then False else True)"

definition can_move :: "map_data \<Rightarrow> int \<Rightarrow> int \<Rightarrow> int \<Rightarrow> int \<Rightarrow> int \<Rightarrow> bool" where
  "can_move m x0 y0 x1 y1 flag =
     (if x0 - x1 < - 1 \<or> x0 - x1 > 1 \<or> y0 - y1 < - 1 \<or> y0 - y1 > 1 then False
      else if x1 < 0 \<or> y1 < 0 \<or> x1 \<ge> xs m \<or> y1 \<ge> ys m then False
      else if \<not> can_place m x0 y0 flag then False
      else if \<not> can_place m x1 y1 flag then False
      else if x0 = x1 \<or> y0 = y1 then True
      else can_place m x0 y1 flag \<and> can_place m x1 y0 flag)"

text \<open>\<open>map_setcell\<close>: the cells are unsigned characters.\<close>

datatype cell_set = CELL_SETNPC | CELL_SETBASILICA | CELL_CLRBASILICA | CELL_SETTYPE int

definition map_setcell :: "map_data \<Rightarrow> int \<Rightarrow> int \<Rightarrow> cell_set \<Rightarrow> map_data" where
  "map_setcell m x y c =
     (if x < 0 \<or> x \<ge> xs m \<or> y < 0 \<or> y \<ge> ys m then m
      else (let j = nat (x + y * xs m); old = gat m ! j in
        m\<lparr>gat := (gat m)[j := (case c of
          CELL_SETNPC \<Rightarrow> old OR 0x80
        | CELL_SETBASILICA \<Rightarrow> old OR 0x40
        | CELL_CLRBASILICA \<Rightarrow> u8 (old AND NOT 0x40)
        | CELL_SETTYPE t \<Rightarrow> u8 ((old AND NOT 0x0f) + t))]\<rparr>))"

section \<open>The heap\<close>

record tmp_path =
  px :: int
  py :: int
  dist :: int
  before :: nat
  cost :: int
  dir :: int
  flag :: int

type_synonym nodes = "nat \<Rightarrow> tmp_path"

definition MAX_HEAP :: nat where
  "MAX_HEAP = 150"

definition MAX_WALKPATH :: nat where
  "MAX_WALKPATH = 32"

definition calc_index :: "int \<Rightarrow> int \<Rightarrow> nat" where
  "calc_index x y = nat ((x + y * int MAX_WALKPATH) AND (int (MAX_WALKPATH * MAX_WALKPATH) - 1))"

text \<open>The loop that moves costlier entries down from slot \<open>h\<close> and puts \<open>idx\<close> where it belongs.\<close>

function sift_up :: "(nat \<Rightarrow> int) \<Rightarrow> nat \<Rightarrow> nat \<Rightarrow> nat list \<Rightarrow> nat list" where
  "sift_up c idx h heap =
     (if h > 0 \<and> c idx < c (heap ! ((h - 1) div 2))
      then sift_up c idx ((h - 1) div 2) (heap[h := heap ! ((h - 1) div 2)])
      else heap[h := idx])"
  by pat_completeness auto
termination
  by (relation "measure (\<lambda>(c, idx, h, heap). h)") auto

declare sift_up.simps [simp del]

text \<open>The array ends after \<open>heap[MAX_HEAP]\<close>.\<close>

definition push_heap_path :: "nat list \<Rightarrow> nodes \<Rightarrow> nat \<Rightarrow> nat list option" where
  "push_heap_path heap tp idx =
     (if length heap \<ge> MAX_HEAP then None
      else Some (sift_up (\<lambda>i. cost (tp i)) idx (length heap) (heap @ [idx])))"

text \<open>The last branch of the search in the heap: "update_heap_path bug" and \<open>exit(1)\<close>.\<close>

definition update_heap_path :: "nat list \<Rightarrow> nodes \<Rightarrow> nat \<Rightarrow> nat list option" where
  "update_heap_path heap tp idx =
     (let h = first_idx (\<lambda>i. i = idx) heap in
      if h = length heap then None else Some (sift_up (\<lambda>i. cost (tp i)) idx h heap))"

text \<open>The loop of \<open>pop_heap_path\<close> that moves the cheaper child up; \<open>n\<close> is the new \<open>heap[0]\<close>.\<close>

function sift_down :: "(nat \<Rightarrow> int) \<Rightarrow> nat \<Rightarrow> nat \<Rightarrow> nat \<Rightarrow> nat list \<Rightarrow> nat \<times> nat \<times> nat list" where
  "sift_down c n h k heap =
     (if k < n
      then (let k = (if c (heap ! k) > c (heap ! (k - 1)) then k - 1 else k)
            in sift_down c n k (k * 2 + 2) (heap[h := heap ! k]))
      else (h, k, heap))"
  by pat_completeness auto
termination
  by (relation "measure (\<lambda>(c, n, h, k, heap). n - k)") (auto simp: Let_def)

declare sift_down.simps [simp del]

definition pop_heap_path :: "nat list \<Rightarrow> nodes \<Rightarrow> nat \<times> nat list" where
  "pop_heap_path heap tp =
     (let c = (\<lambda>i. cost (tp i));
          ret = heap ! 0;
          lst = heap ! (length heap - 1);
          n = length heap - 1;
          (h, k, heap) = sift_down c n 0 2 heap;
          (h, heap) = (if k = n then (k - 1, heap[h := heap ! (k - 1)]) else (h, heap))
      in (ret, take n (sift_up c lst h heap)))"

section \<open>Nodes\<close>

definition calc_cost :: "tmp_path \<Rightarrow> int \<Rightarrow> int \<Rightarrow> int" where
  "calc_cost p x1 y1 = (\<bar>x1 - px p\<bar> + \<bar>y1 - py p\<bar>) * 10 + dist p"

text \<open>The result counts the cells that could not be entered because another one has the node.\<close>

definition add_path :: "nat list \<Rightarrow> nodes \<Rightarrow> int \<Rightarrow> int \<Rightarrow> int \<Rightarrow> int \<Rightarrow> nat \<Rightarrow> int \<Rightarrow> int \<Rightarrow>
    (int \<times> nat list \<times> nodes) option" where
  "add_path heap tp x y d dr bf x1 y1 =
     (let i = calc_index x y; p = tp i in
      if px p = x \<and> py p = y then
        (if dist p > d then
           (let p = p\<lparr>dist := s16 d, dir := dr, before := bf\<rparr>;
                p = p\<lparr>cost := s16 (calc_cost p x1 y1)\<rparr>;
                tp = tp(i := p)
            in do {
              heap \<leftarrow> (if flag p \<noteq> 0 then push_heap_path heap tp i else update_heap_path heap tp i);
              Some (0, heap, tp(i := p\<lparr>flag := 0\<rparr>))
            })
         else Some (0, heap, tp))
      else if px p \<noteq> 0 \<or> py p \<noteq> 0 then Some (1, heap, tp)
      else
        (let p = p\<lparr>px := s16 x, py := s16 y, dist := s16 d, dir := dr, before := bf\<rparr>;
             p = p\<lparr>cost := s16 (calc_cost p x1 y1), flag := 0\<rparr>;
             tp = tp(i := p)
         in do {
           heap \<leftarrow> push_heap_path heap tp i;
           Some (0, heap, tp)
         }))"

text \<open>The eight neighbours in the order the code tries them: step, distance, direction.\<close>

definition neighbours :: "(int \<times> int \<times> int \<times> int) list" where
  "neighbours = [(1, -1, 14, 5), (1, 0, 10, 6), (1, 1, 14, 7), (0, 1, 10, 0),
     (-1, 1, 14, 1), (-1, 0, 10, 2), (-1, -1, 14, 3), (0, -1, 10, 4)]"

fun expand :: "map_data \<Rightarrow> int \<Rightarrow> int \<times> int \<Rightarrow> int \<times> int \<Rightarrow> nat \<Rightarrow> (int \<times> int \<times> int \<times> int) list \<Rightarrow>
    int \<times> nat list \<times> nodes \<Rightarrow> (int \<times> nat list \<times> nodes) option" where
  "expand md flg goal (x, y) rp [] s = Some s"
| "expand md flg goal (x, y) rp ((dx, dy, w, dr) # ns) (e, heap, tp) =
     (if can_move md x y (x + dx) (y + dy) flg then do {
        (r, heap, tp) \<leftarrow> add_path heap tp (x + dx) (y + dy) (dist (tp rp) + w) dr rp (fst goal) (snd goal);
        expand md flg goal (x, y) rp ns (e + r, heap, tp)
      }
      else expand md flg goal (x, y) rp ns (e, heap, tp))"

section \<open>The search\<close>

text \<open>\<open>Fail\<close>: the result -1. \<open>Walk\<close>: the result 0 with \<open>path\<close> up to \<open>path_len\<close>.\<close>

datatype walk_result = Fail | Walk "int list" | Crash

datatype search_step = Finish walk_result | Next "nat list" nodes

text \<open>The counting loop of at most 100 rounds, and the loop that writes the path from its end.\<close>

fun chain_len :: "nat \<Rightarrow> nodes \<Rightarrow> nat \<Rightarrow> nat \<Rightarrow> nat" where
  "chain_len 0 tp s i = 0"
| "chain_len (Suc n) tp s i = (if i = s then 0 else Suc (chain_len n tp s (before (tp i))))"

fun back_dirs :: "nodes \<Rightarrow> nat \<Rightarrow> nat \<Rightarrow> int list \<Rightarrow> int list" where
  "back_dirs tp i 0 path = path"
| "back_dirs tp i (Suc j) path = back_dirs tp (before (tp i)) j (dir (tp i) # path)"

definition search_round :: "map_data \<Rightarrow> int \<Rightarrow> int \<times> int \<Rightarrow> nat \<Rightarrow> nat list \<Rightarrow> nodes \<Rightarrow> search_step" where
  "search_round md flg goal s heap tp =
     (if heap = [] then Finish Fail
      else (let (rp, heap) = pop_heap_path heap tp; x = px (tp rp); y = py (tp rp) in
        if (x, y) = goal then
          (let len = chain_len 100 tp s rp in
           if len = 100 \<or> len \<ge> MAX_WALKPATH then Finish Fail
           else Finish (Walk (back_dirs tp rp len [])))
        else (case expand md flg goal (x, y) rp neighbours (0, heap, tp) of
            None \<Rightarrow> Finish Crash
          | Some (e, heap, tp) \<Rightarrow>
              (let tp = tp(rp := (tp rp)\<lparr>flag := 1\<rparr>) in
               if e \<noteq> 0 \<or> length heap \<ge> MAX_HEAP - 5 then Finish Fail else Next heap tp))))"

partial_function (option) search :: "map_data \<Rightarrow> int \<Rightarrow> int \<times> int \<Rightarrow> nat \<Rightarrow> nat list \<Rightarrow> nodes \<Rightarrow>
    walk_result option" where
  "search md flg goal s heap tp =
     (case search_round md flg goal s heap tp of
        Finish r \<Rightarrow> Some r
      | Next heap tp \<Rightarrow> search md flg goal s heap tp)"

declare search.simps [code]

definition no_node :: tmp_path where
  "no_node = \<lparr>px = 0, py = 0, dist = 0, before = 0, cost = 0, dir = 0, flag = 0\<rparr>"

definition start_node :: "int \<Rightarrow> int \<Rightarrow> int \<times> int \<Rightarrow> tmp_path" where
  "start_node x0 y0 goal =
     (let p = no_node\<lparr>px := s16 x0, py := s16 y0\<rparr>
      in p\<lparr>cost := s16 (calc_cost p (fst goal) (snd goal))\<rparr>)"

text \<open>The straight way, diagonal first: \<^term>\<open>None\<close> when it is blocked and the search has to help.\<close>

definition easy_dir :: "int \<times> int \<Rightarrow> int \<Rightarrow> int \<Rightarrow> int \<Rightarrow> int \<Rightarrow> int \<times> int \<times> int" where
  "easy_dir goal dx dy x y =
     (if x \<noteq> fst goal \<and> y \<noteq> snd goal
      then (dx, dy, if dx < 0 then (if dy > 0 then 1 else 3) else (if dy < 0 then 5 else 7))
      else if x \<noteq> fst goal then (dx, 0, if dx < 0 then 2 else 6)
      else (0, dy, if dy > 0 then 0 else 4))"

function easy_path :: "map_data \<Rightarrow> int \<Rightarrow> int \<times> int \<Rightarrow> int \<Rightarrow> int \<Rightarrow> int \<Rightarrow> int \<Rightarrow> int list \<Rightarrow>
    walk_result option" where
  "easy_path md flg goal dx dy x y path =
     (if (x, y) = goal then None
      else if length path \<ge> MAX_WALKPATH then Some Fail
      else (let (ex, ey, dr) = easy_dir goal dx dy x y in
        if \<not> can_move md x y (x + ex) (y + ey) flg then None
        else if (x + ex, y + ey) = goal then Some (Walk (path @ [dr]))
        else easy_path md flg goal dx dy (x + ex) (y + ey) (path @ [dr])))"
  by pat_completeness auto
termination
  by (relation "measure (\<lambda>(md, flg, goal, dx, dy, x, y, path). MAX_WALKPATH - length path)") auto

declare easy_path.simps [simp del]

definition path_search :: "maps \<Rightarrow> int \<Rightarrow> int \<Rightarrow> int \<Rightarrow> int \<Rightarrow> int \<Rightarrow> int \<Rightarrow> walk_result option" where
  "path_search maps m x0 y0 x1 y1 flg = (case maps m of
     None \<Rightarrow> Some Fail
   | Some md \<Rightarrow>
      (if x1 < 0 \<or> y1 < 0 \<or> x1 \<ge> xs md \<or> y1 \<ge> ys md \<or> map_getcellp md x1 y1 CELL_CHKNOPASS \<noteq> 0
       then Some Fail
       else (case easy_path md flg (x1, y1) (if x1 - x0 < 0 then - 1 else 1) (if y1 - y0 < 0 then - 1 else 1)
               x0 y0 [] of
           Some r \<Rightarrow> Some r
         | None \<Rightarrow>
            (if flg AND 1 \<noteq> 0 then Some Fail
             else (let s = calc_index x0 y0; tp = (\<lambda>_. no_node)(s := start_node x0 y0 (x1, y1)) in
               case push_heap_path [] tp s of
                 None \<Rightarrow> Some Crash
               | Some heap \<Rightarrow> search md flg (x1, y1) s heap tp)))))"

section \<open>The straight line\<close>

partial_function (option) long_loop :: "map_data \<Rightarrow> int \<Rightarrow> int \<Rightarrow> int \<Rightarrow> int \<times> int \<Rightarrow> int \<Rightarrow> int \<Rightarrow>
    int \<Rightarrow> int \<Rightarrow> int option" where
  "long_loop md dx dy weight goal wx wy x y =
     (if x \<noteq> fst goal \<or> y \<noteq> snd goal then
        (if map_getcellp md x y CELL_CHKWALL \<noteq> 0 then Some 0
         else (let wx = wx + dx; wy = wy + dy;
                   (wx, x) = (if wx \<ge> weight then (wx - weight, x + 1) else (wx, x));
                   (wy, y) = (if wy \<ge> weight then (wy - weight, y + 1)
                     else if wy < 0 then (wy + weight, y - 1) else (wy, y))
               in long_loop md dx dy weight goal wx wy x y))
      else Some 1)"

declare long_loop.simps [code]

definition path_search_long :: "maps \<Rightarrow> int \<Rightarrow> int \<Rightarrow> int \<Rightarrow> int \<Rightarrow> int \<Rightarrow> int option" where
  "path_search_long maps m x0 y0 x1 y1 = (case maps m of
     None \<Rightarrow> Some 0
   | Some md \<Rightarrow>
      (let (x0, y0, x1, y1) = (if x1 - x0 < 0 then (x1, y1, x0, y0) else (x0, y0, x1, y1));
           dx = x1 - x0; dy = y1 - y0 in
       if map_getcellp md x1 y1 CELL_CHKWALL \<noteq> 0 then Some 0
       else long_loop md dx dy (if dx > \<bar>dy\<bar> then dx else \<bar>dy\<bar>) (x1, y1) 0 0 x0 y0))"

section \<open>Being pushed\<close>

text \<open>One direction, or none, is left when the way is blocked; \<open>r\<close> is what \<open>rand\<close> returns.\<close>

definition deflect :: "map_data \<Rightarrow> int \<Rightarrow> int \<Rightarrow> int \<Rightarrow> int \<Rightarrow> int \<Rightarrow> int \<times> int" where
  "deflect md r x y dx dy =
     (let fx = (dx \<noteq> 0 \<and> can_move md x y (x + dx) y 0);
          fy = (dy \<noteq> 0 \<and> can_move md x y x (y + dy) 0);
          (dx, dy) = (if fx \<and> fy then (if r AND 1 \<noteq> 0 then (0, dy) else (dx, 0)) else (dx, dy))
      in (if \<not> fx then 0 else dx, if \<not> fy then 0 else dy))"

fun blown :: "map_data \<Rightarrow> (nat \<Rightarrow> int) \<Rightarrow> nat \<Rightarrow> int \<Rightarrow> int \<Rightarrow> int \<Rightarrow> int \<Rightarrow> int \<times> int" where
  "blown md rnd 0 dx dy x y = (x, y)"
| "blown md rnd (Suc n) dx dy x y =
     (if dx \<noteq> 0 \<or> dy \<noteq> 0 then
        (let (dx, dy) = (if \<not> can_move md x y (x + dx) (y + dy) 0 then deflect md (rnd n) x y dx dy
                         else (dx, dy))
         in blown md rnd n dx dy (x + dx) (y + dy))
      else (x, y))"

definition path_blownpos :: "maps \<Rightarrow> (nat \<Rightarrow> int) \<Rightarrow> int \<Rightarrow> int \<Rightarrow> int \<Rightarrow> int \<Rightarrow> int \<Rightarrow> int \<Rightarrow> int" where
  "path_blownpos maps rnd m x0 y0 dx dy cnt = (case maps m of
     None \<Rightarrow> - 1
   | Some md \<Rightarrow>
      (let cnt = (if cnt > 15 then 15 else cnt);
           (dx, dy) = (if dx > 1 \<or> dx < - 1 \<or> dy > 1 \<or> dy < - 1
             then (if dx \<ge> 0 then 1 else - 1, if dy \<ge> 0 then 1 else - 1) else (dx, dy));
           (x, y) = blown md rnd (nat cnt) dx dy x0 y0
       in push_bit 16 x OR y))"

end
