(* ===== verification/PathProofs.thy ===== *)
theory PathProofs
  imports Path
begin

text \<open>
  What \<open>Path\<close> promises: the heap keeps its entries, a walk that is found is a way over the map, the
  search ends without leaving the arrays or reaching \<open>exit\<close>, the straight line is the one of a
  reference definition and does not depend on its direction, a push moves by allowed steps only.
\<close>

section \<open>The heap keeps its entries\<close>

lemma mset_hole: "\<lbrakk>h < length L; k < length L\<rbrakk> \<Longrightarrow> mset (L[h := L ! k, k := z]) = mset (L[h := z])"
proof (cases "h = k")
  case False
  assume a: "h < length L" "k < length L"
  have "L[h := L ! k, k := z] = (L[h := z])[h := (L[h := z]) ! k, k := (L[h := z]) ! h]"
    using a False by simp
  also have "mset \<dots> = mset (L[h := z])"
    using a by (intro mset_swap) simp_all
  finally show ?thesis .
qed simp

lemma length_sift_up [simp]: "length (sift_up c idx h L) = length L"
  by (induction c idx h L rule: sift_up.induct) (subst sift_up.simps, simp)

lemma mset_sift_up: "h < length L \<Longrightarrow> mset (sift_up c idx h L) = mset (L[h := idx])"
proof (induction c idx h L rule: sift_up.induct)
  case (1 c idx h L)
  have "mset (L[h := L ! ((h - 1) div 2), (h - 1) div 2 := idx]) = mset (L[h := idx])"
    using 1(2) by (intro mset_hole) auto
  then show ?case
    using 1 by (subst sift_up.simps) auto
qed

lemma sift_up_take: "\<lbrakk>h < n; n \<le> length L\<rbrakk> \<Longrightarrow> take n (sift_up c idx h L) = sift_up c idx h (take n L)"
proof (induction c idx h L rule: sift_up.induct)
  case (1 c idx h L)
  then show ?case
    by (subst (1 2) sift_up.simps) (auto simp: take_update_swap)
qed

lemma sift_down_keeps:
  "\<lbrakk>sift_down c n h k L = (h', k', L'); h < n; k = h * 2 + 2; n < length L\<rbrakk> \<Longrightarrow>
    h' < n \<and> k' = h' * 2 + 2 \<and> n \<le> k' \<and> length L' = length L \<and>
    (\<forall>z. mset (take n (L'[h' := z])) = mset (take n (L[h := z])))"
proof (induction c n h k L rule: sift_down.induct)
  case (1 c n h k L)
  show ?case
  proof (cases "k < n")
    case True
    define j where "j = (if c (L ! k) > c (L ! (k - 1)) then k - 1 else k)"
    have j: "j < n" "h < j"
      using True 1(4) by (auto simp: j_def)
    have eq: "sift_down c n j (j * 2 + 2) (L[h := L ! j]) = (h', k', L')"
      using 1(2) True by (simp add: sift_down.simps [of c n h k L] j_def Let_def)
    have hole: "mset (take n (L[h := L ! j, j := z])) = mset (take n (L[h := z]))" for z
      using mset_hole [of h "take n L" j z] j 1(3,5) by (simp add: take_update_swap)
    show ?thesis
      using 1(1) [OF True, folded j_def] eq j 1(5) by (auto simp: hole j_def [symmetric])
  next
    case False
    then have "h' = h" "k' = k" "L' = L"
      using 1(2) sift_down.simps [of c n h k L] by auto
    then show ?thesis using False 1 by auto
  qed
qed

lemma pop_heap_path_keeps:
  assumes "heap \<noteq> []" "pop_heap_path heap tp = (rp, heap')"
  shows "mset heap = add_mset rp (mset heap')" "length heap' + 1 = length heap" "rp = heap ! 0"
proof -
  define n c lst where "n = length heap - 1" and "c = (\<lambda>i. cost (tp i))" and "lst = heap ! n"
  obtain h k L where sd: "sift_down c n 0 2 heap = (h, k, L)"
    by (cases "sift_down c n 0 2 heap")
  define h2 L2 where "h2 = (if k = n then k - 1 else h)" and "L2 = (if k = n then L[h := L ! (k - 1)] else L)"
  have res: "rp = heap ! 0" "heap' = take n (sift_up c lst h2 L2)"
    using assms(2) sd by (auto simp: pop_heap_path_def Let_def n_def c_def lst_def h2_def L2_def split: if_splits)
  show "rp = heap ! 0" by (fact res)
  obtain r rest where heap: "heap = r # rest" using assms(1) by (cases heap) auto
  have len: "length L2 = length heap \<and> length heap' = n"
  proof (cases "n = 0")
    case True
    then have "L = heap" using sd by (simp add: sift_down.simps)
    then show ?thesis using True res by (simp add: L2_def)
  next
    case False
    then show ?thesis
      using sift_down_keeps [OF sd] res heap by (auto simp: L2_def n_def)
  qed
  show "length heap' + 1 = length heap"
    using len assms(1) by (simp add: n_def)
  show "mset heap = add_mset rp (mset heap')"
  proof (cases "n = 0")
    case True
    then show ?thesis using res heap n_def by simp
  next
    case False
    note sk = sift_down_keeps [OF sd]
    have L: "h < n" "k = h * 2 + 2" "n \<le> k" "length L = length heap"
      "mset (take n (L[h := lst])) = mset (take n (heap[0 := lst]))"
      using sk False assms(1) by (simp_all add: n_def)
    have h2: "h2 < n" using L by (auto simp: h2_def)
    have "mset heap' = mset ((take n L2)[h2 := lst])"
      unfolding res using h2 len by (simp add: sift_up_take mset_sift_up n_def)
    also have "\<dots> = mset (take n (L[h := lst]))"
    proof (cases "k = n")
      case True
      have "mset ((take n L)[h := take n L ! (n - 1), n - 1 := lst]) = mset ((take n L)[h := lst])"
        using L False by (intro mset_hole) (auto simp: n_def)
      then show ?thesis
        using True False L by (simp add: L2_def h2_def take_update_swap)
    qed (simp add: L2_def h2_def take_update_swap)
    also have "\<dots> = mset (take n (heap[0 := lst]))" by (fact L)
    also have "take n (heap[0 := lst]) = lst # butlast rest"
      using heap False by (cases n) (auto simp: n_def butlast_conv_take)
    also have "mset (lst # butlast rest) = mset rest"
    proof -
      have "lst = last rest" "rest \<noteq> []"
        using heap False by (auto simp: lst_def n_def last_conv_nth)
      then show ?thesis by (cases rest rule: rev_cases) auto
    qed
    finally show ?thesis using res heap by simp
  qed
qed

lemma push_heap_path_keeps:
  "push_heap_path heap tp i = Some heap' \<longleftrightarrow>
     length heap < MAX_HEAP \<and> heap' = sift_up (\<lambda>i. cost (tp i)) i (length heap) (heap @ [i])"
  by (auto simp: push_heap_path_def)

lemma push_heap_path_some:
  assumes "length heap < MAX_HEAP"
  obtains heap' where "push_heap_path heap tp i = Some heap'" "mset heap' = add_mset i (mset heap)"
proof
  show "push_heap_path heap tp i = Some (sift_up (\<lambda>i. cost (tp i)) i (length heap) (heap @ [i]))"
    using assms by (simp add: push_heap_path_def)
qed (simp add: mset_sift_up)

lemma update_heap_path_some:
  assumes "i \<in> set heap"
  obtains heap' where "update_heap_path heap tp i = Some heap'" "mset heap' = mset heap"
proof -
  define h where "h = first_idx (\<lambda>j. j = i) heap"
  have h: "h < length heap" "heap ! h = i"
    using assms unfolding h_def by (auto simp: first_idx_less intro: first_idx_sat)
  show thesis
  proof (rule that)
    show "update_heap_path heap tp i = Some (sift_up (\<lambda>i. cost (tp i)) i h heap)"
      using h by (simp add: update_heap_path_def h_def [symmetric] Let_def)
    show "mset (sift_up (\<lambda>i. cost (tp i)) i h heap) = mset heap"
      using h by (simp add: mset_sift_up) (metis list_update_id)
  qed
qed

section \<open>Walks over the map\<close>

text \<open>The steps of the eight directions, as \<open>dirx\<close> and \<open>diry\<close> of \<open>src/src/map/mob.c\<close> list them.\<close>

definition dirx :: "int list" where
  "dirx = [0, -1, -1, -1, 0, 1, 1, 1]"

definition diry :: "int list" where
  "diry = [1, 1, 0, -1, -1, -1, 0, 1]"

definition along :: "int \<Rightarrow> int \<times> int \<Rightarrow> int \<times> int" where
  "along d c = (fst c + dirx ! nat d, snd c + diry ! nat d)"

definition step_ok :: "map_data \<Rightarrow> int \<Rightarrow> int \<times> int \<Rightarrow> int \<Rightarrow> int \<times> int \<Rightarrow> bool" where
  "step_ok md flg c d c' \<longleftrightarrow> 0 \<le> d \<and> d < 8 \<and> c' = along d c \<and> can_move md (fst c) (snd c) (fst c') (snd c') flg"

text \<open>The directions \<open>ds\<close> lead from one cell to the other, each step over free cells.\<close>

fun walks :: "map_data \<Rightarrow> int \<Rightarrow> int \<times> int \<Rightarrow> int list \<Rightarrow> int \<times> int \<Rightarrow> bool" where
  "walks md flg c [] goal \<longleftrightarrow> c = goal"
| "walks md flg c (d # ds) goal \<longleftrightarrow> step_ok md flg c d (along d c) \<and> walks md flg (along d c) ds goal"

lemma walks_append: "walks md flg a (ds @ es) c \<longleftrightarrow> (\<exists>b. walks md flg a ds b \<and> walks md flg b es c)"
  by (induction ds arbitrary: a) auto

lemma walks_snoc: "\<lbrakk>walks md flg a ds b; step_ok md flg b d c\<rbrakk> \<Longrightarrow> walks md flg a (ds @ [d]) c"
  unfolding walks_append by (rule exI [of _ b]) (auto simp: step_ok_def)

definition on_map :: "map_data \<Rightarrow> int \<times> int \<Rightarrow> bool" where
  "on_map md c \<longleftrightarrow> 0 \<le> fst c \<and> fst c < xs md \<and> 0 \<le> snd c \<and> snd c < ys md"

definition map_ok :: "map_data \<Rightarrow> bool" where
  "map_ok md \<longleftrightarrow> xs md \<le> 32767 \<and> ys md \<le> 32767"

lemma can_move_on_map: "can_move md x y x' y' flg \<Longrightarrow> on_map md (x', y')"
  by (auto simp: can_move_def on_map_def split: if_splits)

lemma easy_dir_step:
  assumes "easy_dir goal dx dy x y = (ex, ey, dr)" "\<bar>dx\<bar> = 1" "\<bar>dy\<bar> = 1" "can_move md x y (x + ex) (y + ey) flg"
  shows "step_ok md flg (x, y) dr (x + ex, y + ey)"
proof -
  have "dx = 1 \<or> dx = - 1" "dy = 1 \<or> dy = - 1" using assms by auto
  then show ?thesis
    using assms by (auto simp: easy_dir_def step_ok_def along_def dirx_def diry_def split: if_splits)
qed

lemma easy_path_walks:
  assumes "\<bar>dx\<bar> = 1" "\<bar>dy\<bar> = 1" "walks md flg c path (x, y)"
  shows "easy_path md flg goal dx dy x y path \<noteq> Some Crash \<and>
    (easy_path md flg goal dx dy x y path = Some (Walk ds) \<longrightarrow>
       walks md flg c ds goal \<and> length ds \<le> MAX_WALKPATH)"
  using assms
proof (induction md flg goal dx dy x y path rule: easy_path.induct)
  case (1 md flg goal dx dy x y path)
  obtain ex ey dr where e: "easy_dir goal dx dy x y = (ex, ey, dr)" by (cases "easy_dir goal dx dy x y")
  show ?case
  proof (cases "(x, y) = goal \<or> length path \<ge> MAX_WALKPATH \<or> \<not> can_move md x y (x + ex) (y + ey) flg")
    case True
    then show ?thesis by (subst (1 2) easy_path.simps) (auto simp: e)
  next
    case False
    then have w: "walks md flg c (path @ [dr]) (x + ex, y + ey)"
      using easy_dir_step [OF e 1(2,3)] 1(4) by (blast intro: walks_snoc)
    show ?thesis
    proof (cases "(x + ex, y + ey) = goal")
      case True
      then show ?thesis using False w by (subst (1 2) easy_path.simps) (auto simp: e)
    next
      case neq: False
      have "easy_path md flg goal dx dy x y path = easy_path md flg goal dx dy (x + ex) (y + ey) (path @ [dr])"
        using False neq by (subst easy_path.simps) (auto simp: e)
      then show ?thesis using 1(1) [of "(ex, ey, dr)" ex "(ey, dr)" ey dr] 1(2,3) w False neq e by auto
    qed
  qed
qed

section \<open>The invariant of the search\<close>

definition cell :: "nodes \<Rightarrow> nat \<Rightarrow> int \<times> int" where
  "cell tp i = (px (tp i), py (tp i))"

definition visited :: "nodes \<Rightarrow> nat set" where
  "visited tp = {i. cell tp i \<noteq> (0, 0)}"

definition node_ok :: "map_data \<Rightarrow> int \<Rightarrow> nat \<Rightarrow> nodes \<Rightarrow> nat \<Rightarrow> bool" where
  "node_ok md flg s tp i \<longleftrightarrow> i = calc_index (px (tp i)) (py (tp i)) \<and> on_map md (cell tp i) \<and>
     0 \<le> dist (tp i) \<and> dist (tp i) + 14 \<le> 14 * int (card (visited tp)) \<and>
     (i \<noteq> s \<longrightarrow> before (tp i) \<in> visited tp \<and> dist (tp (before (tp i))) < dist (tp i) \<and>
        step_ok md flg (cell tp (before (tp i))) (dir (tp i)) (cell tp i))"

text \<open>\<open>cur\<close> holds the node that is being expanded.\<close>

definition search_inv :: "map_data \<Rightarrow> int \<Rightarrow> int \<times> int \<Rightarrow> nat \<Rightarrow> nat set \<Rightarrow> nat list \<Rightarrow> nodes \<Rightarrow> bool" where
  "search_inv md flg start s cur heap tp \<longleftrightarrow>
     s \<in> visited tp \<and> cell tp s = start \<and> dist (tp s) = 0 \<and> (\<forall>i \<in> visited tp. node_ok md flg s tp i) \<and>
     (\<forall>i. i \<notin> visited tp \<longrightarrow> dist (tp i) = 0) \<and>
     distinct heap \<and> set heap \<subseteq> visited tp \<and> cur \<subseteq> visited tp \<and> cur \<inter> set heap = {} \<and>
     (\<forall>i \<in> visited tp. flag (tp i) = 0 \<longleftrightarrow> i \<in> set heap \<union> cur)"

lemma calc_index_less: "calc_index x y < 1024"
proof -
  have "(x + y * int MAX_WALKPATH) AND (int (MAX_WALKPATH * MAX_WALKPATH) - 1)
      = take_bit 10 (x + y * int MAX_WALKPATH)"
    by (simp add: MAX_WALKPATH_def take_bit_eq_mask mask_eq_exp_minus_1)
  then show ?thesis
    using take_bit_int_less_exp [of 10 "x + y * int MAX_WALKPATH"] by (simp add: calc_index_def nat_less_iff)
qed

lemma visited_bounded:
  assumes "\<forall>i \<in> visited tp. node_ok md flg s tp i"
  shows "visited tp \<subseteq> {..<1024}" "finite (visited tp)" "card (visited tp) \<le> 1024"
proof -
  show *: "visited tp \<subseteq> {..<1024}"
  proof
    fix i assume "i \<in> visited tp"
    then have "i = calc_index (px (tp i)) (py (tp i))" using assms by (auto simp: node_ok_def)
    then show "i \<in> {..<1024}" using calc_index_less [of "px (tp i)" "py (tp i)"] by simp
  qed
  then show "finite (visited tp)" by (rule finite_subset) simp
  show "card (visited tp) \<le> 1024"
    using card_mono [OF _ *] by simp
qed

text \<open>What a search still has to do: cells to visit, distances to shorten, entries to pop.\<close>

definition work :: "nodes \<Rightarrow> nat \<times> nat" where
  "work tp = (1024 - card (visited tp), \<Sum>i<1024. nat (dist (tp i)))"

abbreviation less_work :: "((nat \<times> nat) \<times> nat \<times> nat) set" where
  "less_work \<equiv> less_than <*lex*> less_than"

lemma search_inv_visit:
  assumes inv: "search_inv md flg start s {rp} heap tp"
    and i: "i \<noteq> rp" "i \<noteq> s" "i = calc_index x y" "on_map md (x, y)" "(x, y) \<noteq> (0, 0)"
      "i \<in> visited tp \<Longrightarrow> cell tp i = (x, y) \<and> d < dist (tp i)"
    and p: "px p = x" "py p = y" "dist p = d" "before p = rp" "flag p = 0"
    and d: "dist (tp rp) < d" "d \<le> dist (tp rp) + 14"
    and step: "step_ok md flg (cell tp rp) (dir p) (x, y)"
    and heap: "mset heap' = (if i \<in> set heap then mset heap else add_mset i (mset heap))"
  shows "search_inv md flg start s {rp} heap' (tp(i := p))" "(work (tp(i := p)), work tp) \<in> less_work"
proof -
  define tp' where "tp' = tp(i := p)"
  have nodes: "\<forall>j \<in> visited tp. node_ok md flg s tp j" and rp: "rp \<in> visited tp"
    using inv by (auto simp: search_inv_def)
  note fin = visited_bounded [OF nodes]
  have cell': "cell tp' j = (if j = i then (x, y) else cell tp j)" for j
    using p by (simp add: cell_def tp'_def)
  have vis: "visited tp' = insert i (visited tp)"
    using i by (auto simp: visited_def cell')
  have card: "card (insert i (visited tp)) = (if i \<in> visited tp then card (visited tp) else Suc (card (visited tp)))"
    using fin by (simp add: card_insert_if insert_absorb)
  have node_rp: "node_ok md flg s tp rp" using nodes rp by blast
  have same: "tp' j = tp j" if "j \<noteq> i" for j using that by (simp add: tp'_def)
  have pi: "tp' i = p" by (simp add: tp'_def)
  have old: "node_ok md flg s tp' j" if j: "j \<in> visited tp" "j \<noteq> i" for j
  proof -
    have n: "node_ok md flg s tp j" using nodes j by blast
    have "dist (tp' (before (tp j))) \<le> dist (tp (before (tp j)))" if "j \<noteq> s"
    proof -
      have "before (tp j) \<in> visited tp" using n that by (auto simp: node_ok_def)
      then show ?thesis using i(6) p by (cases "before (tp j) = i") (auto simp: same pi)
    qed
    moreover have "cell tp' (before (tp j)) = cell tp (before (tp j))" if "j \<noteq> s"
      using n that i(6) by (auto simp: node_ok_def cell')
    ultimately show ?thesis
      using n j by (auto simp: node_ok_def same vis card cell')
  qed
  have new: "node_ok md flg s tp' i"
  proof -
    have "0 \<le> dist (tp rp)" "dist (tp rp) + 14 \<le> 14 * int (card (visited tp))"
      using node_rp by (auto simp: node_ok_def)
    then have "0 \<le> dist p" "dist p + 14 \<le> 14 * int (card (visited tp'))"
      using p(3) d i(6) nodes by (auto simp: vis card node_ok_def)
    then show ?thesis
      using p d(1) step rp i(1,2,4) i(3) [symmetric] same [of rp] by (simp add: node_ok_def pi vis cell')
  qed
  have bnd: "i < 1024" using i calc_index_less by simp
  have heap': "distinct heap'" "set heap' = insert i (set heap)"
  proof -
    have "distinct (if i \<in> set heap then heap else i # heap)"
      using inv by (auto simp: search_inv_def)
    then show "distinct heap'"
      using heap mset_eq_imp_distinct_iff [of heap' "if i \<in> set heap then heap else i # heap"] by (auto split: if_splits)
    show "set heap' = insert i (set heap)"
      using arg_cong [OF heap, of set_mset] by (auto split: if_splits)
  qed
  show "search_inv md flg start s {rp} heap' (tp(i := p))"
  proof -
    have "flag (tp' j) = (if j = i then 0 else flag (tp j))"
      "dist (tp' j) = (if j = i then d else dist (tp j))" for j
      using p by (auto simp: same pi)
    then show ?thesis
      unfolding tp'_def [symmetric]
      using inv i(1,2) old new by (auto simp: search_inv_def vis heap' cell')
  qed
  show "(work (tp(i := p)), work tp) \<in> less_work"
  proof (cases "i \<in> visited tp")
    case True
    have "nat (dist (tp' i)) < nat (dist (tp i))"
      using i(6) [OF True] p d node_rp by (auto simp: pi node_ok_def)
    moreover have "nat (dist (tp' j)) \<le> nat (dist (tp j))" for j
      using calculation by (cases "j = i") (auto simp: same)
    ultimately have "(\<Sum>j<1024. nat (dist (tp' j))) < (\<Sum>j<1024. nat (dist (tp j)))"
      using bnd by (intro sum_strict_mono_ex1) auto
    then show ?thesis
      using True by (simp add: work_def vis card tp'_def [symmetric])
  next
    case False
    have "visited tp' \<subseteq> {..<1024}" using fin(1) bnd by (auto simp: vis)
    then have "card (insert i (visited tp)) \<le> 1024" using card_mono [of "{..<1024}" "visited tp'"] by (simp add: vis)
    then have "1024 - card (insert i (visited tp)) < 1024 - card (visited tp)"
      using False card by auto
    then show ?thesis
      by (simp add: work_def vis tp'_def [symmetric])
  qed
qed

lemma add_path_inv:
  assumes inv: "search_inv md flg start s {rp} heap tp" and mp: "map_ok md"
    and step: "step_ok md flg (cell tp rp) dr (x, y)" and on: "on_map md (x, y)"
    and w: "10 \<le> w" "w \<le> 14" and d: "d = dist (tp rp) + w"
    and room: "length heap < MAX_HEAP \<or> rp \<noteq> s \<and> (x, y) = cell tp (before (tp rp))"
  obtains r heap' tp' where "add_path heap tp x y d dr rp x1 y1 = Some (r, heap', tp')"
    "search_inv md flg start s {rp} heap' tp'" "tp' rp = tp rp" "tp' s = tp s"
    "\<And>i. i \<in> visited tp \<Longrightarrow> cell tp' i = cell tp i" "visited tp \<subseteq> visited tp'"
    "heap' = heap \<and> tp' = tp \<or> (work tp', work tp) \<in> less_work"
    "length heap' \<le> Suc (length heap)"
    "rp \<noteq> s \<Longrightarrow> (x, y) = cell tp (before (tp rp)) \<Longrightarrow> heap' = heap"
proof -
  define i where "i = calc_index x y"
  define p where "p = tp i\<lparr>dist := s16 d, dir := dr, before := rp\<rparr>"
  have nodes: "\<forall>j \<in> visited tp. node_ok md flg s tp j" and rp: "rp \<in> visited tp" and s: "s \<in> visited tp" "dist (tp s) = 0"
    using inv by (auto simp: search_inv_def)
  note fin = visited_bounded [OF nodes]
  have node_rp: "node_ok md flg s tp rp" using nodes rp by blast
  have d0: "0 \<le> dist (tp rp)" "dist (tp rp) \<le> 14336"
    using node_rp fin(3) by (auto simp: node_ok_def)
  have sd: "s16 d = d" using d d0 w by (intro s16_id) auto
  have xy: "s16 x = x" "s16 y = y"
    using on mp by (auto simp: on_map_def map_ok_def intro!: s16_id)
  have unvis: "px (tp i) = 0 \<and> py (tp i) = 0 \<longleftrightarrow> i \<notin> visited tp" by (simp add: visited_def cell_def)
  have near: "(x, y) \<noteq> cell tp rp"
  proof
    assume "(x, y) = cell tp rp"
    then have "along dr (x, y) = (x, y)" "0 \<le> dr" "dr < 8"
      using step by (auto simp: step_ok_def)
    then show False
      by (auto simp: along_def dirx_def diry_def nth_Cons' nat_less_iff split: if_splits)
  qed
  have parent: False if "rp \<noteq> s" "(x, y) = cell tp (before (tp rp))" "cell tp i \<noteq> (x, y) \<or> d < dist (tp i)"
  proof -
    have b: "before (tp rp) \<in> visited tp" "dist (tp (before (tp rp))) < dist (tp rp)"
      using node_rp that by (auto simp: node_ok_def)
    then have "before (tp rp) = i"
      using nodes that(2) by (auto simp: node_ok_def i_def cell_def)
    then show False using b that d w by auto
  qed
  consider (keep) "cell tp i = (x, y)" "dist (tp i) \<le> d"
    | (shorter) "cell tp i = (x, y)" "d < dist (tp i)"
    | (clash) "cell tp i \<noteq> (x, y)" "i \<in> visited tp"
    | (fresh) "cell tp i \<noteq> (x, y)" "i \<notin> visited tp" by linarith
  then show thesis
  proof cases
    case keep
    then show ?thesis
      using inv by (intro that [of 0 heap tp]) (auto simp: add_path_def i_def cell_def Let_def)
  next
    case clash
    then show ?thesis
      using inv unvis by (intro that [of 1 heap tp]) (auto simp: add_path_def i_def [symmetric] cell_def Let_def)
  next
    case shorter
    have vis: "i \<in> visited tp"
      using shorter(2) d d0 w inv by (auto simp: search_inv_def)
    define p1 where "p1 = p\<lparr>cost := s16 (calc_cost p x1 y1)\<rparr>"
    have p1: "px p1 = x" "py p1 = y" "dist p1 = d" "before p1 = rp" "dir p1 = dr" "flag p1 = flag (tp i)"
      using shorter by (auto simp: p1_def p_def cell_def sd)
    have fl: "flag p = flag (tp i)" "flag p1 = flag (tp i)" by (simp_all add: p1_def p_def)
    have ne: "i \<noteq> rp" "i \<noteq> s"
      using near shorter d d0 w s by auto
    have room': "length heap < MAX_HEAP" using room parent shorter by blast
    have "\<exists>heap'. (if flag p1 \<noteq> 0 then push_heap_path heap (tp(i := p1)) i
        else update_heap_path heap (tp(i := p1)) i) = Some heap' \<and>
      mset heap' = (if i \<in> set heap then mset heap else add_mset i (mset heap))"
    proof (cases "flag p1 = 0")
      case True
      then have "i \<in> set heap" using inv vis ne p1 by (auto simp: search_inv_def)
      then show ?thesis using True by (metis update_heap_path_some)
    next
      case False
      then have "i \<notin> set heap" using inv vis ne p1 by (auto simp: search_inv_def)
      then show ?thesis using False room' by (metis push_heap_path_some)
    qed
    then obtain heap' where h: "(if flag p1 \<noteq> 0 then push_heap_path heap (tp(i := p1)) i
        else update_heap_path heap (tp(i := p1)) i) = Some heap'"
      "mset heap' = (if i \<in> set heap then mset heap else add_mset i (mset heap))" by blast
    have res: "add_path heap tp x y d dr rp x1 y1 = Some (0, heap', tp(i := p1\<lparr>flag := 0\<rparr>))"
      using shorter h(1)
      by (auto simp: add_path_def i_def [symmetric] cell_def Let_def p_def [symmetric] p1_def [symmetric] fl)
    have v: "search_inv md flg start s {rp} heap' (tp(i := p1\<lparr>flag := 0\<rparr>))"
      "(work (tp(i := p1\<lparr>flag := 0\<rparr>)), work tp) \<in> less_work"
      using search_inv_visit [OF inv ne i_def on, of d "p1\<lparr>flag := 0\<rparr>" heap']
        vis shorter p1 d d0 w step h(2) by (auto simp: visited_def)
    have len: "length heap' \<le> Suc (length heap)"
      using arg_cong [OF h(2), of size] by (auto split: if_splits)
    show ?thesis
    proof (rule that [OF res v(1)])
      show "(tp(i := p1\<lparr>flag := 0\<rparr>)) rp = tp rp" "(tp(i := p1\<lparr>flag := 0\<rparr>)) s = tp s" using ne by simp_all
      show "cell (tp(i := p1\<lparr>flag := 0\<rparr>)) j = cell tp j" if "j \<in> visited tp" for j
        using that shorter p1 by (auto simp: cell_def)
      show "visited tp \<subseteq> visited (tp(i := p1\<lparr>flag := 0\<rparr>))"
        using shorter p1 by (auto simp: visited_def cell_def)
      show "heap' = heap \<and> tp(i := p1\<lparr>flag := 0\<rparr>) = tp \<or> (work (tp(i := p1\<lparr>flag := 0\<rparr>)), work tp) \<in> less_work"
        using v(2) by blast
      show "heap' = heap" if "rp \<noteq> s" "(x, y) = cell tp (before (tp rp))"
        using parent [OF that] shorter p1 by blast
    qed (fact len)
  next
    case fresh
    define p2 where "p2 = p\<lparr>px := s16 x, py := s16 y\<rparr>"
    define p1 where "p1 = p2\<lparr>cost := s16 (calc_cost p2 x1 y1), flag := 0\<rparr>"
    have p1: "px p1 = x" "py p1 = y" "dist p1 = d" "before p1 = rp" "dir p1 = dr" "flag p1 = 0"
      by (auto simp: p1_def p2_def p_def sd xy)
    have c0: "cell tp i = (0, 0)" using fresh by (simp add: visited_def)
    have ne: "i \<noteq> rp" "i \<noteq> s" "(x, y) \<noteq> (0, 0)" "i \<notin> set heap"
      using fresh rp s inv c0 by (auto simp: search_inv_def)
    have room': "length heap < MAX_HEAP" using room parent fresh by blast
    obtain heap' where h: "push_heap_path heap (tp(i := p1)) i = Some heap'" "mset heap' = add_mset i (mset heap)"
      using push_heap_path_some [OF room'] by metis
    have p2': "p2 = tp i\<lparr>px := s16 x, py := s16 y, dist := s16 d, dir := dr, before := rp\<rparr>"
      by (simp add: p2_def p_def)
    have res: "add_path heap tp x y d dr rp x1 y1 = Some (0, heap', tp(i := p1))"
      using fresh c0 h(1)
      by (auto simp: add_path_def i_def [symmetric] cell_def Let_def p2' [symmetric] p1_def [symmetric])
    have v: "search_inv md flg start s {rp} heap' (tp(i := p1))" "(work (tp(i := p1)), work tp) \<in> less_work"
      using search_inv_visit [OF inv ne(1,2) i_def on, of d p1 heap'] ne
        fresh p1 d d0 w step h(2) by auto
    have len: "length heap' \<le> Suc (length heap)"
      using arg_cong [OF h(2), of size] by simp
    show ?thesis
    proof (rule that [OF res v(1)])
      show "(tp(i := p1)) rp = tp rp" "(tp(i := p1)) s = tp s" using ne by simp_all
      show "cell (tp(i := p1)) j = cell tp j" if "j \<in> visited tp" for j
        using that fresh p1 by (auto simp: cell_def)
      show "visited tp \<subseteq> visited (tp(i := p1))"
        using fresh p1 by (auto simp: visited_def cell_def)
      show "heap' = heap \<and> tp(i := p1) = tp \<or> (work (tp(i := p1)), work tp) \<in> less_work"
        using v(2) by blast
      show "heap' = heap" if "rp \<noteq> s" "(x, y) = cell tp (before (tp rp))"
        using parent [OF that] fresh p1 by blast
    qed (fact len)
  qed
qed

section \<open>One round\<close>

lemma less_work_trans: "\<lbrakk>(a, b) \<in> less_work; (b, c) \<in> less_work\<rbrakk> \<Longrightarrow> (a, c) \<in> less_work"
  by (cases a; cases b; cases c) auto

lemma neighbours_steps:
  assumes "(dx, dy, w, dr) \<in> set neighbours"
  shows "10 \<le> w" "w \<le> 14" "0 \<le> dr" "dr < 8" "along dr (x, y) = (x + dx, y + dy)"
  using assms by (auto simp: neighbours_def along_def dirx_def diry_def)

text \<open>Neighbours that may be put into the heap: not the one the node was reached from.\<close>

definition pushable :: "nodes \<Rightarrow> nat \<Rightarrow> nat \<Rightarrow> (int \<times> int \<times> int \<times> int) list \<Rightarrow> nat" where
  "pushable tp s rp ns = length (filter (\<lambda>(dx, dy, w, dr). rp = s \<or>
     (px (tp rp) + dx, py (tp rp) + dy) \<noteq> cell tp (before (tp rp))) ns)"

lemma expand_inv:
  assumes "search_inv md flg start s {rp} heap tp" "map_ok md" "set ns \<subseteq> set neighbours"
    "cell tp rp = (x, y)" "length heap + pushable tp s rp ns \<le> MAX_HEAP"
  shows "\<exists>e' heap' tp'. expand md flg goal (x, y) rp ns (e, heap, tp) = Some (e', heap', tp') \<and>
    search_inv md flg start s {rp} heap' tp' \<and> tp' rp = tp rp \<and> tp' s = tp s \<and>
    (heap' = heap \<and> tp' = tp \<or> (work tp', work tp) \<in> less_work) \<and> length heap' \<le> MAX_HEAP"
  using assms
proof (induction ns arbitrary: e heap tp)
  case (Cons n ns)
  obtain dx dy w dr where n: "n = (dx, dy, w, dr)" by (cases n)
  note st = neighbours_steps [of dx dy w dr]
  have nb: "n \<in> set neighbours" using Cons.prems by simp
  have xy: "px (tp rp) = x" "py (tp rp) = y" using Cons.prems by (auto simp: cell_def)
  show ?case
  proof (cases "can_move md x y (x + dx) (y + dy) flg")
    case False
    have "length heap + pushable tp s rp ns \<le> MAX_HEAP"
      using Cons.prems(5) by (auto simp: pushable_def split: if_splits)
    then show ?thesis
      using Cons.IH [of heap tp e] Cons.prems False by (simp add: n)
  next
    case True
    have step: "step_ok md flg (cell tp rp) dr (x + dx, y + dy)"
      using True st nb by (simp add: step_ok_def Cons.prems(4) n)
    let ?parent = "rp \<noteq> s \<and> (x + dx, y + dy) = cell tp (before (tp rp))"
    have cnt: "pushable tp s rp (n # ns) = (if ?parent then 0 else 1) + pushable tp s rp ns"
      by (auto simp: pushable_def n xy)
    then have room: "length heap < MAX_HEAP \<or> ?parent"
      using Cons.prems(5) by (auto split: if_splits)
    obtain r heap1 tp1 where a: "add_path heap tp (x + dx) (y + dy) (dist (tp rp) + w) dr rp (fst goal) (snd goal)
          = Some (r, heap1, tp1)"
        "search_inv md flg start s {rp} heap1 tp1" "tp1 rp = tp rp" "tp1 s = tp s"
        "\<And>i. i \<in> visited tp \<Longrightarrow> cell tp1 i = cell tp i" "visited tp \<subseteq> visited tp1"
        "heap1 = heap \<and> tp1 = tp \<or> (work tp1, work tp) \<in> less_work"
        "length heap1 \<le> Suc (length heap)" "?parent \<Longrightarrow> heap1 = heap"
      using add_path_inv [OF Cons.prems(1,2) step can_move_on_map [OF True] st(1,2) refl room] nb n by metis
    have rp: "rp \<in> visited tp" "rp \<noteq> s \<Longrightarrow> before (tp rp) \<in> visited tp"
      using Cons.prems(1) by (auto simp: search_inv_def node_ok_def)
    have push: "pushable tp1 s rp ns = pushable tp s rp ns"
      using a(3,5) rp by (cases "rp = s") (auto simp: pushable_def)
    have "length heap1 + pushable tp1 s rp ns \<le> MAX_HEAP"
      using Cons.prems(5) a(8,9) unfolding push cnt by (auto split: if_splits)
    moreover have "cell tp1 rp = (x, y)" using a(5) rp Cons.prems(4) by simp
    ultimately obtain e2 heap2 tp2 where
        "expand md flg goal (x, y) rp ns (e + r, heap1, tp1) = Some (e2, heap2, tp2)"
        "search_inv md flg start s {rp} heap2 tp2" "tp2 rp = tp1 rp" "tp2 s = tp1 s"
        "heap2 = heap1 \<and> tp2 = tp1 \<or> (work tp2, work tp1) \<in> less_work" "length heap2 \<le> MAX_HEAP"
      using Cons.IH [OF a(2)] Cons.prems(2,3) by fastforce
    then show ?thesis
      using True a(1,3,4,7) less_work_trans by (fastforce simp: n)
  qed
qed (auto simp: pushable_def)

lemma pushable_neighbours:
  assumes "step_ok md flg (cell tp (before (tp rp))) (dir (tp rp)) (cell tp rp)" "rp \<noteq> s"
  shows "pushable tp s rp neighbours \<le> 7"
proof -
  define k where "k = nat (dir (tp rp))"
  have k: "k \<in> {0, 1, 2, 3, 4, 5, 6, 7}" using assms by (auto simp: step_ok_def k_def)
  have c: "cell tp rp = along (dir (tp rp)) (cell tp (before (tp rp)))"
    using assms by (simp add: step_ok_def)
  have "(\<lambda>(dx, dy, w :: int, dr :: int). rp = s \<or> (px (tp rp) + dx, py (tp rp) + dy) \<noteq> cell tp (before (tp rp)))
      = (\<lambda>(dx, dy, w, dr). dx \<noteq> - (dirx ! k) \<or> dy \<noteq> - (diry ! k))"
    using c assms(2) by (auto simp: along_def cell_def fun_eq_iff k_def)
  then have "pushable tp s rp neighbours
      = length (filter (\<lambda>(dx, dy, w, dr). dx \<noteq> - (dirx ! k) \<or> dy \<noteq> - (diry ! k)) neighbours)"
    by (simp add: pushable_def)
  also have "\<dots> \<le> 7"
    using k by (elim insertE emptyE) (simp_all add: neighbours_def dirx_def diry_def)
  finally show ?thesis .
qed

text \<open>Between two rounds: the start is in the heap only at the beginning, and the heap has room.\<close>

definition round_inv :: "map_data \<Rightarrow> int \<Rightarrow> int \<times> int \<Rightarrow> nat \<Rightarrow> nat list \<Rightarrow> nodes \<Rightarrow> bool" where
  "round_inv md flg start s heap tp \<longleftrightarrow> search_inv md flg start s {} heap tp \<and>
     length heap < MAX_HEAP - 5 \<and> (s \<in> set heap \<longrightarrow> heap = [s])"

lemma back_dirs_walks:
  assumes "search_inv md flg start s cur heap tp" "i \<in> visited tp" "chain_len n tp s i < n"
    "walks md flg (cell tp i) path goal"
  shows "walks md flg start (back_dirs tp i (chain_len n tp s i) path) goal \<and>
    length (back_dirs tp i (chain_len n tp s i) path) = chain_len n tp s i + length path"
  using assms(2-)
proof (induction n arbitrary: i path)
  case (Suc n)
  show ?case
  proof (cases "i = s")
    case False
    have b: "before (tp i) \<in> visited tp"
        "step_ok md flg (cell tp (before (tp i))) (dir (tp i)) (cell tp i)"
      using assms(1) Suc.prems(1) False by (auto simp: search_inv_def node_ok_def)
    then have "walks md flg (cell tp (before (tp i))) (dir (tp i) # path) goal"
    proof -
      have c: "cell tp i = along (dir (tp i)) (cell tp (before (tp i)))"
        using b(2) by (simp add: step_ok_def)
      show ?thesis using b(2) Suc.prems(3) unfolding c by simp
    qed
    then show ?thesis
      using Suc.IH [OF b(1), of "dir (tp i) # path"] Suc.prems(2) False by auto
  qed (use Suc.prems assms(1) in \<open>auto simp: search_inv_def\<close>)
qed simp

lemma search_inv_pop:
  assumes "search_inv md flg start s {} heap tp" "mset heap = add_mset rp (mset heap')"
  shows "search_inv md flg start s {rp} heap' tp"
proof -
  have "set heap = insert rp (set heap')" using arg_cong [OF assms(2), of set_mset] by simp
  moreover have "distinct (rp # heap')"
    using assms mset_eq_imp_distinct_iff [of heap "rp # heap'"] by (simp add: search_inv_def)
  ultimately show ?thesis using assms(1) by (auto simp: search_inv_def)
qed

lemma search_inv_close:
  assumes "search_inv md flg start s {rp} heap tp"
  shows "search_inv md flg start s {} heap (tp(rp := (tp rp)\<lparr>flag := 1\<rparr>))"
    "work (tp(rp := (tp rp)\<lparr>flag := 1\<rparr>)) = work tp"
proof -
  define tp' where "tp' = tp(rp := (tp rp)\<lparr>flag := 1\<rparr>)"
  have f: "cell tp' = cell tp" "dist (tp' i) = dist (tp i)" "before (tp' i) = before (tp i)"
    "dir (tp' i) = dir (tp i)" "px (tp' i) = px (tp i)" "py (tp' i) = py (tp i)"
    "flag (tp' i) = (if i = rp then 1 else flag (tp i))" for i
    by (auto simp: tp'_def cell_def fun_eq_iff)
  have v: "visited tp' = visited tp" by (simp add: visited_def f)
  show "search_inv md flg start s {} heap (tp(rp := (tp rp)\<lparr>flag := 1\<rparr>))"
    unfolding tp'_def [symmetric] using assms by (auto simp: search_inv_def node_ok_def v f)
  show "work (tp(rp := (tp rp)\<lparr>flag := 1\<rparr>)) = work tp"
    unfolding tp'_def [symmetric] by (simp add: work_def v f)
qed

lemma search_round_inv:
  assumes inv: "round_inv md flg start s heap tp" and mp: "map_ok md"
  shows "case search_round md flg goal s heap tp of
      Finish r \<Rightarrow> r \<noteq> Crash \<and> (\<forall>ds. r = Walk ds \<longrightarrow> walks md flg start ds goal \<and> length ds < MAX_WALKPATH)
    | Next heap' tp' \<Rightarrow> round_inv md flg start s heap' tp' \<and>
        ((work tp', length heap'), (work tp, length heap)) \<in> less_work <*lex*> less_than"
proof (cases "heap = []")
  case False
  obtain rp heap1 where pop: "pop_heap_path heap tp = (rp, heap1)" by fastforce
  note pk = pop_heap_path_keeps [OF False pop]
  have si: "search_inv md flg start s {} heap tp" using inv by (simp add: round_inv_def)
  note si1 = search_inv_pop [OF si pk(1)]
  have rp: "rp \<in> visited tp" using si1 by (auto simp: search_inv_def)
  show ?thesis
  proof (cases "cell tp rp = goal")
    case True
    then show ?thesis
      using back_dirs_walks [OF si1 rp, of 100 "[]" goal]
      by (auto simp: search_round_def False pop Let_def cell_def MAX_WALKPATH_def)
  next
    case neq: False
    have "pushable tp s rp neighbours \<le> (if rp = s then 8 else 7)"
    proof (cases "rp = s")
      case True
      then show ?thesis by (auto simp: pushable_def neighbours_def)
    next
      case False
      then show ?thesis using si1 rp pushable_neighbours by (auto simp: search_inv_def node_ok_def)
    qed
    moreover have "rp = s \<longrightarrow> heap1 = []"
    proof
      assume "rp = s"
      then have "heap = [s]"
        using inv arg_cong [OF pk(1), of set_mset] by (auto simp: round_inv_def)
      then show "heap1 = []" using pk(2) by simp
    qed
    ultimately have room: "length heap1 + pushable tp s rp neighbours \<le> MAX_HEAP"
      using inv pk(2) by (auto simp: round_inv_def MAX_HEAP_def split: if_splits)
    obtain e heap2 tp2 where ex: "expand md flg goal (cell tp rp) rp neighbours (0, heap1, tp) = Some (e, heap2, tp2)"
      "search_inv md flg start s {rp} heap2 tp2" "tp2 rp = tp rp" "tp2 s = tp s"
      "heap2 = heap1 \<and> tp2 = tp \<or> (work tp2, work tp) \<in> less_work"
      using expand_inv [OF si1 mp order.refl cell_def room] by (metis cell_def)
    define tp3 where "tp3 = tp2(rp := (tp2 rp)\<lparr>flag := 1\<rparr>)"
    have sr: "search_round md flg goal s heap tp =
        (if e \<noteq> 0 \<or> length heap2 \<ge> MAX_HEAP - 5 then Finish Fail else Next heap2 tp3)"
      using neq ex(1) by (simp add: search_round_def False pop Let_def cell_def tp3_def)
    note si3 = search_inv_close [OF ex(2), folded tp3_def]
    have "s \<notin> set heap2"
    proof
      assume "s \<in> set heap2"
      then have "flag (tp3 s) = 0" using si3(1) by (auto simp: search_inv_def)
      then have "rp \<noteq> s" "flag (tp s) = 0" using ex(4) by (auto simp: tp3_def split: if_splits)
      then have "s \<in> set heap" using si by (auto simp: search_inv_def)
      then show False using inv pk \<open>rp \<noteq> s\<close> by (auto simp: round_inv_def)
    qed
    then show ?thesis
      using si3 ex(5) pk(2) sr by (auto simp: round_inv_def)
  qed
qed (simp add: search_round_def)

section \<open>The search\<close>

lemma search_ends:
  assumes "round_inv md flg start s heap tp" "map_ok md"
  shows "\<exists>r. search md flg goal s heap tp = Some r \<and> r \<noteq> Crash \<and>
    (\<forall>ds. r = Walk ds \<longrightarrow> walks md flg start ds goal \<and> length ds < MAX_WALKPATH)"
proof -
  have wf: "wf (less_work <*lex*> less_than)" by auto
  show ?thesis
    using wf assms
  proof (induction "(work tp, length heap)" arbitrary: heap tp rule: wf_induct_rule)
    case less
    show ?case
    proof (cases "search_round md flg goal s heap tp")
      case (Finish r)
      then show ?thesis
        using search_round_inv [OF less(2,3), of goal] by (subst search.simps) auto
    next
      case (Next heap' tp')
      then show ?thesis
        using search_round_inv [OF less(2,3), of goal] less(1) [of tp' heap'] less(3)
        by (subst search.simps) auto
    qed
  qed
qed

lemma calc_cell: "s16 x = x \<Longrightarrow> s16 y = y \<Longrightarrow> px (start_node x y goal) = x \<and> py (start_node x y goal) = y \<and>
    dist (start_node x y goal) = 0 \<and> flag (start_node x y goal) = 0"
  by (simp add: start_node_def no_node_def Let_def)

lemma start_round:
  assumes "map_ok md" "on_map md (x0, y0)" "(x0, y0) \<noteq> (0, 0)"
  shows "round_inv md flg (x0, y0) (calc_index x0 y0) [calc_index x0 y0]
    ((\<lambda>_. no_node)(calc_index x0 y0 := start_node x0 y0 goal))"
proof -
  let ?s = "calc_index x0 y0" and ?tp = "(\<lambda>_. no_node)(calc_index x0 y0 := start_node x0 y0 goal)"
  have xy: "s16 x0 = x0" "s16 y0 = y0"
    using assms by (auto simp: map_ok_def on_map_def intro!: s16_id)
  note c = calc_cell [OF xy, of goal]
  have v: "visited ?tp = {?s}"
    using c assms(3) by (auto simp: visited_def cell_def no_node_def)
  show ?thesis
    unfolding round_inv_def search_inv_def node_ok_def v
    using c assms(2) by (auto simp: cell_def no_node_def MAX_HEAP_def)
qed

text \<open>
  C14: on a map of at most 32767 cells each way, from a start on the map other than (0, 0), the path search
  ends, never calls \<open>exit\<close> and never writes behind the heap; a path it finds has at most 32
  directions and leads from the start to the target over steps that \<open>can_move\<close> allows.
\<close>

theorem path_search_correct:
  assumes "maps m = Some md" "map_ok md" "on_map md (x0, y0)" "(x0, y0) \<noteq> (0, 0)"
  shows "\<exists>r. path_search maps m x0 y0 x1 y1 flg = Some r \<and> r \<noteq> Crash \<and>
    (\<forall>ds. r = Walk ds \<longrightarrow> walks md flg (x0, y0) ds (x1, y1) \<and> length ds \<le> MAX_WALKPATH)"
proof -
  let ?dx = "if x1 - x0 < 0 then - 1 else 1 :: int" and ?dy = "if y1 - y0 < 0 then - 1 else 1 :: int"
  let ?tp = "(\<lambda>_. no_node)(calc_index x0 y0 := start_node x0 y0 (x1, y1))"
  have push: "push_heap_path [] ?tp (calc_index x0 y0) = Some [calc_index x0 y0]"
    by (simp add: push_heap_path_def MAX_HEAP_def sift_up.simps)
  note se = search_ends [OF start_round [OF assms(2-4), of flg "(x1, y1)"] assms(2), of "(x1, y1)"]
  have "easy_path md flg (x1, y1) ?dx ?dy x0 y0 [] \<noteq> Some Crash \<and>
    (easy_path md flg (x1, y1) ?dx ?dy x0 y0 [] = Some (Walk ds) \<longrightarrow>
       walks md flg (x0, y0) ds (x1, y1) \<and> length ds \<le> MAX_WALKPATH)" for ds
    by (rule easy_path_walks) auto
  then show ?thesis
    using se unfolding path_search_def assms(1) option.case
    by (cases "easy_path md flg (x1, y1) ?dx ?dy x0 y0 []") (auto simp: Let_def push)
qed

section \<open>The straight line\<close>

text \<open>The reference: the point after \<open>t\<close> of \<open>w\<close> equal parts of the line, rounded down.\<close>

definition line_cell :: "int \<times> int \<Rightarrow> int \<times> int \<Rightarrow> int \<Rightarrow> int \<Rightarrow> int \<times> int" where
  "line_cell a b w t = (fst a + (t * (fst b - fst a)) div w, snd a + (t * (snd b - snd a)) div w)"

definition line_cells :: "int \<times> int \<Rightarrow> int \<times> int \<Rightarrow> (int \<times> int) list" where
  "line_cells a b =
     (let (a, b) = (if fst b < fst a then (b, a) else (a, b));
          w = max \<bar>fst b - fst a\<bar> \<bar>snd b - snd a\<bar>
      in map (line_cell a b w) [0..w - 1] @ [b])"

definition wall :: "map_data \<Rightarrow> int \<times> int \<Rightarrow> bool" where
  "wall md c \<longleftrightarrow> map_getcellp md (fst c) (snd c) CELL_CHKWALL \<noteq> 0"

lemma div_mod_step:
  fixes a d w :: int
  assumes "0 < w" "- w \<le> d" "d \<le> w"
  shows "(a + d) div w = a div w + (if a mod w + d \<ge> w then 1 else if a mod w + d < 0 then - 1 else 0)"
    and "(a + d) mod w = a mod w + d - w * (if a mod w + d \<ge> w then 1 else if a mod w + d < 0 then - 1 else 0)"
proof -
  define k where "k = (if a mod w + d \<ge> w then 1 else if a mod w + d < 0 then - 1 else 0 :: int)"
  have r: "0 \<le> a mod w" "a mod w < w" using assms by simp_all
  have eq: "a + d = w * (a div w + k) + (a mod w + d - w * k)"
    by (simp add: algebra_simps)
  have bnd: "0 \<le> a mod w + d - w * k" "a mod w + d - w * k < w"
    using r assms unfolding k_def by (smt (verit) mult_cancel_left1 mult_minus_right mult_zero_right)+
  show "(a + d) div w = a div w + k"
    by (rule int_div_pos_eq [OF eq bnd])
  show "(a + d) mod w = a mod w + d - w * k"
    by (rule int_mod_pos_eq [OF eq bnd])
qed

lemma long_loop_line:
  fixes x0 y0 x1 y1 t :: int
  defines "dx \<equiv> x1 - x0" and "dy \<equiv> y1 - y0" and "w \<equiv> max \<bar>x1 - x0\<bar> \<bar>y1 - y0\<bar>"
  assumes "0 \<le> dx" "0 \<le> t" "t \<le> w" "0 < w"
  shows "long_loop md dx dy w (x1, y1) ((t * dx) mod w) ((t * dy) mod w) (x0 + (t * dx) div w) (y0 + (t * dy) div w)
     = Some (if \<exists>s \<in> {t..<w}. wall md (line_cell (x0, y0) (x1, y1) w s) then 0 else 1)"
  using assms(4-)
proof (induction "nat (w - t)" arbitrary: t)
  case 0
  then have "t = w" by simp
  then show ?case using 0 by (subst long_loop.simps) (simp add: dx_def dy_def)
next
  case (Suc n)
  then have t: "t < w" by simp
  let ?x = "x0 + (t * dx) div w" and ?y = "y0 + (t * dy) div w"
  have "(t * dx) div w \<noteq> dx \<or> (t * dy) div w \<noteq> dy"
  proof -
    consider "dx = w" | "dy = w" | "dy = - w" using Suc.prems by (auto simp: w_def dx_def dy_def max_def abs_if split: if_splits)
    moreover have "(t * - w) div w = - t"
      using Suc.prems nonzero_mult_div_cancel_right [of w "- t"] by simp
    ultimately show ?thesis using t Suc.prems by cases auto
  qed
  then have go: "?x \<noteq> x1 \<or> ?y \<noteq> y1" by (auto simp: dx_def dy_def)
  have cell: "line_cell (x0, y0) (x1, y1) w t = (?x, ?y)" by (simp add: line_cell_def dx_def dy_def)
  have split: "{t..<w} = insert t {t + 1..<w}" using t by auto
  show ?case
  proof (cases "wall md (?x, ?y)")
    case True
    then show ?thesis
      using go unfolding split by (subst long_loop.simps) (auto simp: wall_def cell)
  next
    case False
    have b: "- w \<le> dx" "dx \<le> w" "- w \<le> dy" "dy \<le> w" using Suc.prems by (auto simp: w_def dx_def dy_def)
    have dxp: "0 \<le> (t * dx) mod w + dx" using Suc.prems by simp
    note ih = Suc.hyps(1) [of "t + 1"]
    have "long_loop md dx dy w (x1, y1) ((t * dx) mod w) ((t * dy) mod w) ?x ?y
      = long_loop md dx dy w (x1, y1) (((t + 1) * dx) mod w) (((t + 1) * dy) mod w)
          (x0 + ((t + 1) * dx) div w) (y0 + ((t + 1) * dy) div w)"
      using go False dxp unfolding distrib_right mult_1
        div_mod_step [OF Suc.prems(4) b(1,2)] div_mod_step [OF Suc.prems(4) b(3,4)]
      by (subst long_loop.simps) (auto simp: wall_def Let_def algebra_simps)
    also have "\<dots> = Some (if \<exists>s \<in> {t + 1..<w}. wall md (line_cell (x0, y0) (x1, y1) w s) then 0 else 1)"
      using Suc.hyps(2) Suc.prems by (intro ih) auto
    finally show ?thesis using False unfolding split by (simp add: cell)
  qed
qed

lemma path_search_long_eq:
  "path_search_long maps m x0 y0 x1 y1 = Some (case maps m of None \<Rightarrow> 0
     | Some md \<Rightarrow> if list_ex (wall md) (line_cells (x0, y0) (x1, y1)) then 0 else 1)"
proof (cases "maps m")
  case (Some md)
  have line: "long_loop md (x1 - x0) (y1 - y0) (if x1 - x0 > \<bar>y1 - y0\<bar> then x1 - x0 else \<bar>y1 - y0\<bar>) (x1, y1) 0 0 x0 y0
      = Some (if \<exists>s \<in> {0..<w}. wall md (line_cell (x0, y0) (x1, y1) w s) then 0 else 1)"
    if "x0 \<le> x1" "w = max \<bar>x1 - x0\<bar> \<bar>y1 - y0\<bar>" for x0 y0 x1 y1 w
  proof (cases "w = 0")
    case True
    then show ?thesis using that by (subst long_loop.simps) (auto simp: max_def split: if_splits)
  next
    case False
    have "(if x1 - x0 > \<bar>y1 - y0\<bar> then x1 - x0 else \<bar>y1 - y0\<bar>) = w" using that by auto
    moreover have "long_loop md (x1 - x0) (y1 - y0) w (x1, y1) ((0 * (x1 - x0)) mod w) ((0 * (y1 - y0)) mod w)
        (x0 + (0 * (x1 - x0)) div w) (y0 + (0 * (y1 - y0)) div w)
      = Some (if \<exists>s \<in> {0..<w}. wall md (line_cell (x0, y0) (x1, y1) w s) then 0 else 1)"
      unfolding that(2) by (rule long_loop_line) (use that False in auto)
    ultimately show ?thesis by simp
  qed
  have oriented: "(if map_getcellp md x1 y1 CELL_CHKWALL \<noteq> 0 then Some 0 else
        long_loop md (x1 - x0) (y1 - y0) (if x1 - x0 > \<bar>y1 - y0\<bar> then x1 - x0 else \<bar>y1 - y0\<bar>) (x1, y1) 0 0 x0 y0)
      = Some (if list_ex (wall md) (map (line_cell (x0, y0) (x1, y1) w) [0..w - 1] @ [(x1, y1)]) then 0 else 1)"
    if "x0 \<le> x1" "w = max \<bar>x1 - x0\<bar> \<bar>y1 - y0\<bar>" for x0 y0 x1 y1 w
  proof -
    have "{0..<w} = {0..w - 1}" by auto
    then show ?thesis
      unfolding line [OF that] by (auto simp: list_ex_iff wall_def)
  qed
  show ?thesis
  proof (cases "x1 < x0")
    case True
    then show ?thesis
      using oriented [of x1 x0 _ y0 y1, OF _ refl]
      by (simp add: path_search_long_def Some line_cells_def Let_def)
  next
    case False
    then show ?thesis
      using oriented [of x0 x1 _ y1 y0, OF _ refl]
      by (simp add: path_search_long_def Some line_cells_def Let_def)
  qed
qed (simp add: path_search_long_def)

lemma line_cells_vertical: "set (line_cells (x, a) (x, b)) = Pair x ` {min a b..max a b}"
proof -
  have "(t * (b - a)) div \<bar>b - a\<bar> = (if a \<le> b then t else - t)" if "a \<noteq> b" for t :: int
  proof (cases "a \<le> b")
    case True
    then show ?thesis using that by simp
  next
    case False
    have "t * (b - a) = - t * \<bar>b - a\<bar>" using False by (simp add: algebra_simps)
    then show ?thesis using that False by (metis abs_eq_0 nonzero_mult_div_cancel_right right_minus_eq)
  qed
  then have cell: "line_cell (x, a) (x, b) \<bar>b - a\<bar> t = (x, if a \<le> b then a + t else a - t)" if "a \<noteq> b" for t
    using that by (simp add: line_cell_def)
  define S where "S = set (line_cells (x, a) (x, b))"
  have "snd ` S = {min a b..max a b}" unfolding S_def
  proof (cases "a = b")
    case False
    have "snd ` set (line_cells (x, a) (x, b)) = (\<lambda>t. if a \<le> b then a + t else a - t) ` {0..\<bar>b - a\<bar> - 1} \<union> {b}"
      using cell [OF False] by (simp add: line_cells_def image_image Let_def)
    also have "\<dots> = {min a b..max a b}"
    proof (cases "a \<le> b")
      case True
      have "(\<lambda>t. a + t) ` {0..b - a - 1} = {a..b - 1}"
        using image_add_atLeastAtMost [of a 0 "b - a - 1"] by (simp add: algebra_simps)
      then show ?thesis using True by auto
    next
      case False
      have "(\<lambda>t. a - t) ` {0..a - b - 1} = {b + 1..a}"
        using image_diff_atLeastAtMost [of a 0 "a - b - 1"] by (simp add: algebra_simps)
      then show ?thesis using False by auto
    qed
    finally show "snd ` set (line_cells (x, a) (x, b)) = {min a b..max a b}" .
  qed (simp add: line_cells_def)
  moreover have "S = Pair x ` snd ` S"
  proof -
    have "c = (x, snd c)" if "c \<in> S" for c
      using that by (cases c) (auto simp: S_def line_cells_def line_cell_def Let_def)
    then show ?thesis by (force simp: image_image)
  qed
  ultimately show ?thesis by (simp add: S_def)
qed

lemma path_search_long_sym: "path_search_long maps m x0 y0 x1 y1 = path_search_long maps m x1 y1 x0 y0"
proof -
  have "set (line_cells (x0, y0) (x1, y1)) = set (line_cells (x1, y1) (x0, y0))"
  proof (cases "x0 = x1")
    case True
    then show ?thesis by (simp add: line_cells_vertical min.commute max.commute)
  next
    case False
    then show ?thesis by (auto simp: line_cells_def Let_def)
  qed
  then show ?thesis
    by (cases "maps m") (simp_all add: path_search_long_eq list_ex_iff)
qed

text \<open>
  C15: \<open>path_search_long\<close> ends and tells whether the cells of the straight line, between its ends
  rounded down, are free of walls; sight does not depend on its direction.
\<close>

theorem path_search_long_line:
  "path_search_long maps m x0 y0 x1 y1 = Some (case maps m of None \<Rightarrow> 0
     | Some md \<Rightarrow> if list_ex (wall md) (line_cells (x0, y0) (x1, y1)) then 0 else 1) \<and>
   path_search_long maps m x0 y0 x1 y1 = path_search_long maps m x1 y1 x0 y0"
  using path_search_long_eq path_search_long_sym by blast

section \<open>Being pushed\<close>

text \<open>At most \<open>n\<close> allowed steps (or none where the way is blocked) lead from one cell to the other.\<close>

inductive reach :: "map_data \<Rightarrow> nat \<Rightarrow> int \<times> int \<Rightarrow> int \<times> int \<Rightarrow> bool" for md where
  here: "reach md n c c"
| step: "\<lbrakk>can_move md (fst a) (snd a) (fst b) (snd b) 0; reach md n b c\<rbrakk> \<Longrightarrow> reach md (Suc n) a c"

inductive_cases reach_0E: "reach md 0 a c"

lemma deflect_moves:
  assumes "deflect md r x y dx dy = (ex, ey)" "ex \<noteq> 0 \<or> ey \<noteq> 0"
  shows "can_move md x y (x + ex) (y + ey) 0" "\<bar>ex\<bar> \<le> \<bar>dx\<bar>" "\<bar>ey\<bar> \<le> \<bar>dy\<bar>"
  using assms by (auto simp: deflect_def Let_def split: if_splits)

lemma blown_reaches: "reach md n (x, y) (blown md rnd n dx dy x y)"
proof (induction n arbitrary: dx dy x y)
  case (Suc n)
  define e where "e = (if \<not> can_move md x y (x + dx) (y + dy) 0 then deflect md (rnd n) x y dx dy else (dx, dy))"
  obtain ex ey where ee: "e = (ex, ey)" by fastforce
  show ?case
  proof (cases "dx = 0 \<and> dy = 0")
    case True
    then show ?thesis by (simp add: here)
  next
    case False
    then have b: "blown md rnd (Suc n) dx dy x y = blown md rnd n ex ey (x + ex) (y + ey)"
      using ee by (simp add: e_def split: if_splits)
    show ?thesis
    proof (cases "ex = 0 \<and> ey = 0")
      case True
      have "blown md rnd n 0 0 x y = (x, y)" by (cases n) auto
      then show ?thesis using True b by (simp add: here)
    next
      case move: False
      then have "can_move md x y (x + ex) (y + ey) 0"
        using ee deflect_moves(1) [of md "rnd n" x y dx dy ex ey] by (auto simp: e_def split: if_splits)
      then show ?thesis
        using Suc.IH unfolding b by (intro step [where b = "(x + ex, y + ey)"]) auto
    qed
  qed
qed (simp add: here)

lemma reach_on_map: "\<lbrakk>reach md n a c; on_map md a\<rbrakk> \<Longrightarrow> on_map md c"
proof (induction rule: reach.induct)
  case (step a b n c)
  then show ?case using can_move_on_map [of md "fst a" "snd a" "fst b" "snd b" 0] by simp
qed

text \<open>
  From a cell of the map a push ends, whatever \<open>rand\<close> returns, on a cell of the map that at most
  15, and at most \<open>cnt\<close>, allowed steps reach; the result holds both coordinates.
\<close>

lemma path_blownpos_reaches:
  assumes "maps m = Some md" "map_ok md" "on_map md (x0, y0)"
  shows "\<exists>x y. path_blownpos maps rnd m x0 y0 dx dy cnt = x * 65536 + y \<and> on_map md (x, y) \<and>
    reach md (nat (min cnt 15)) (x0, y0) (x, y)"
proof -
  define c where "c = (if cnt > 15 then 15 else cnt)"
  define e where "e = (if dx > 1 \<or> dx < - 1 \<or> dy > 1 \<or> dy < - 1
      then (if dx \<ge> 0 then 1 else - 1, if dy \<ge> 0 then 1 else - 1) else (dx, dy))"
  obtain x y where xy: "blown md rnd (nat c) (fst e) (snd e) x0 y0 = (x, y)" by fastforce
  have r: "reach md (nat c) (x0, y0) (x, y)" using blown_reaches xy by metis
  have on: "on_map md (x, y)" using reach_on_map [OF r assms(3)] .
  then have "0 \<le> y" "y < 2 ^ 16" using assms(2) by (auto simp: on_map_def map_ok_def)
  then have "take_bit 16 y = y" by (simp add: take_bit_int_eq_self)
  then have "\<not> bit (push_bit 16 x) n \<or> \<not> bit y n" for n
    by (metis bit_push_bit_iff bit_take_bit_iff not_le)
  then have "push_bit 16 x OR y = x * 65536 + y"
    using disjunctive_add [of "push_bit 16 x" y] by (simp add: push_bit_eq_mult)
  moreover have "path_blownpos maps rnd m x0 y0 dx dy cnt = push_bit 16 x OR y"
    using xy by (cases e) (simp add: path_blownpos_def assms(1) c_def [symmetric] e_def [symmetric])
  moreover have "c = min cnt 15" by (auto simp: c_def)
  ultimately show ?thesis using r on by auto
qed

section \<open>Examples\<close>

text \<open>A map of five by five cells with a wall at (1, 1) and (2, 1).\<close>

definition small_map :: map_data where
  "small_map = \<lparr>xs = 5, ys = 5, gat = (replicate 25 0)[6 := 1, 7 := 1]\<rparr>"

definition small_maps :: maps where
  "small_maps m = (if m = 0 then Some small_map else None)"

lemma small_map_ok: "small_maps 0 = Some small_map" "map_ok small_map" "on_map small_map (2, 2)"
  by (simp_all add: small_maps_def small_map_def map_ok_def on_map_def)

theorem path_search_correct_witness:
  "\<exists>r. path_search small_maps 0 2 2 2 0 0 = Some r \<and> r \<noteq> Crash \<and>
    (\<forall>ds. r = Walk ds \<longrightarrow> walks small_map 0 (2, 2) ds (2, 0) \<and> length ds \<le> MAX_WALKPATH)"
  by (rule path_search_correct [where maps = small_maps, OF small_map_ok]) simp

theorem path_blownpos_reaches_witness:
  "\<exists>x y. path_blownpos small_maps (\<lambda>n. 1) 0 2 2 (-1) (-1) 4 = x * 65536 + y \<and> on_map small_map (x, y) \<and>
    reach small_map 4 (2, 2) (x, y)"
  using path_blownpos_reaches [where maps = small_maps and rnd = "\<lambda>n. 1" and dx = "-1" and dy = "-1" and cnt = 4,
      OF small_map_ok] by simp

end
