(* ===== verification/Registers.thy ===== *)
theory Registers
  imports Prelude "HOL-Library.AList"
begin

text \<open>
  The variables of scripts: those of a player (\<open>pc_setreg\<close> to \<open>pc_setaccountreg2\<close> of
  \<open>src/src/map/pc.c\<close>) and those of the map server (\<open>mapreg_setreg\<close>, \<open>mapreg_setregstr\<close> of
  \<open>src/src/map/script.c\<close>). An array of registers is the list of its entries. A call of \<open>status_calc_pc\<close>
  is counted; nothing else is modelled of it.
\<close>

section \<open>State\<close>

record script_config =
  die_event_name :: string
  kill_event_name :: string
  logout_event_name :: string
  check_cmdcount :: int
  check_gotocount :: int

record registers =
  reg :: "(int \<times> int) list"
  regstr :: "(int \<times> string) list"
  global_reg :: "(string \<times> int) list"
  global_reg_dirty :: bool
  account_reg :: "(string \<times> int) list"
  account_reg_dirty :: bool
  account_reg2 :: "(string \<times> int) list"
  account_reg2_dirty :: bool
  die_counter :: int
  event_death :: int
  event_kill :: int
  event_disconnect :: int
  status_calcs :: nat

text \<open>\<open>mapreg_db\<close> and \<open>mapregstr_db\<close>: tables of integer keys (\<open>numdb\<close>).\<close>

record mapregs =
  mapreg_db :: "int \<Rightarrow> int option"
  mapregstr_db :: "int \<Rightarrow> string option"
  mapreg_dirty :: int

definition GLOBAL_REG_NUM :: nat where
  "GLOBAL_REG_NUM = 700"

definition ACCOUNT_REG_NUM :: nat where
  "ACCOUNT_REG_NUM = 700"

definition ACCOUNT_REG2_NUM :: nat where
  "ACCOUNT_REG2_NUM = 700"

section \<open>Temporary variables\<close>

definition pc_readreg :: "registers \<Rightarrow> int \<Rightarrow> int" where
  "pc_readreg sd r = (case map_of (reg sd) r of None \<Rightarrow> 0 | Some v \<Rightarrow> v)"

text \<open>The first entry with the index is changed, or a new one is added at the end.\<close>

definition pc_setreg :: "registers \<Rightarrow> int \<Rightarrow> int \<Rightarrow> registers" where
  "pc_setreg sd r val = sd\<lparr>reg := AList.update r (s32 val) (reg sd)\<rparr>"

definition pc_readregstr :: "registers \<Rightarrow> int \<Rightarrow> string option" where
  "pc_readregstr sd r = map_of (regstr sd) r"

definition pc_setregstr :: "registers \<Rightarrow> int \<Rightarrow> string \<Rightarrow> registers" where
  "pc_setregstr sd r str =
     (if length str + 1 \<ge> 256 then sd else sd\<lparr>regstr := AList.update r str (regstr sd)\<rparr>)"

section \<open>Saved variables\<close>

definition read_reg :: "(string \<times> int) list \<Rightarrow> string \<Rightarrow> int" where
  "read_reg rs r = (case map_of rs r of None \<Rightarrow> 0 | Some v \<Rightarrow> v)"

text \<open>
  What the three functions that set a saved variable do with its array: a value 0 deletes the entry, whose
  place the last entry takes; another value changes the entry or adds one, cut to 32 characters.
  The result tells whether the array changed.
\<close>

definition store_reg :: "nat \<Rightarrow> (string \<times> int) list \<Rightarrow> string \<Rightarrow> int \<Rightarrow> (string \<times> int) list \<times> bool" where
  "store_reg limit rs r val =
     (let i = first_idx (\<lambda>e. fst e = r) rs in
      if val = 0 then
        (if i < length rs then (butlast (rs[i := last rs]), True) else (rs, False))
      else if i < length rs then
        (if snd (rs ! i) \<noteq> val then (rs[i := (fst (rs ! i), val)], True) else (rs, False))
      else if length rs < limit then (rs @ [(take 32 r, val)], True)
      else (rs, False))"

definition pc_readglobalreg :: "registers \<Rightarrow> string \<Rightarrow> int" where
  "pc_readglobalreg sd r = read_reg (global_reg sd) r"

text \<open>Some names belong to fields of the player.\<close>

definition set_event_reg :: "script_config \<Rightarrow> registers \<Rightarrow> string \<Rightarrow> int \<Rightarrow> registers" where
  "set_event_reg conf sd r val =
     (if r = ''PC_DIE_COUNTER'' \<and> die_counter sd \<noteq> val
      then sd\<lparr>die_counter := val, status_calcs := status_calcs sd + 1\<rparr>
      else if r = die_event_name conf then sd\<lparr>event_death := val\<rparr>
      else if r = kill_event_name conf then sd\<lparr>event_kill := val\<rparr>
      else if r = logout_event_name conf then sd\<lparr>event_disconnect := val\<rparr>
      else sd)"

definition pc_setglobalreg :: "script_config \<Rightarrow> registers \<Rightarrow> string \<Rightarrow> int \<Rightarrow> registers" where
  "pc_setglobalreg conf sd r val =
     (if r = [] then sd
      else (let sd = set_event_reg conf sd r val; (rs, changed) = store_reg GLOBAL_REG_NUM (global_reg sd) r val
        in sd\<lparr>global_reg := rs, global_reg_dirty := global_reg_dirty sd \<or> changed\<rparr>))"

definition pc_readaccountreg :: "registers \<Rightarrow> string \<Rightarrow> int" where
  "pc_readaccountreg sd r = read_reg (account_reg sd) r"

definition pc_setaccountreg :: "registers \<Rightarrow> string \<Rightarrow> int \<Rightarrow> registers" where
  "pc_setaccountreg sd r val =
     (let (rs, changed) = store_reg ACCOUNT_REG_NUM (account_reg sd) r val
      in sd\<lparr>account_reg := rs, account_reg_dirty := account_reg_dirty sd \<or> changed\<rparr>)"

definition pc_readaccountreg2 :: "registers \<Rightarrow> string \<Rightarrow> int" where
  "pc_readaccountreg2 sd r = read_reg (account_reg2 sd) r"

definition pc_setaccountreg2 :: "registers \<Rightarrow> string \<Rightarrow> int \<Rightarrow> registers" where
  "pc_setaccountreg2 sd r val =
     (let (rs, changed) = store_reg ACCOUNT_REG2_NUM (account_reg2 sd) r val
      in sd\<lparr>account_reg2 := rs, account_reg2_dirty := account_reg2_dirty sd \<or> changed\<rparr>)"

section \<open>Variables of the server\<close>

definition mapreg_setreg :: "mapregs \<Rightarrow> int \<Rightarrow> int \<Rightarrow> mapregs" where
  "mapreg_setreg ms num val =
     ms\<lparr>mapreg_db := (mapreg_db ms)(num := if val \<noteq> 0 then Some val else None), mapreg_dirty := 1\<rparr>"

definition mapreg_setregstr :: "mapregs \<Rightarrow> int \<Rightarrow> string \<Rightarrow> mapregs" where
  "mapreg_setregstr ms num str =
     ms\<lparr>mapregstr_db := (mapregstr_db ms)(num := if str = [] then None else Some str), mapreg_dirty := 1\<rparr>"

section \<open>What a variable holds\<close>

text \<open>An array of saved variables: no name twice, none cut, no 0, at most \<open>limit\<close>.\<close>

definition regs_ok :: "nat \<Rightarrow> (string \<times> int) list \<Rightarrow> bool" where
  "regs_ok limit rs \<longleftrightarrow> distinct (map fst rs) \<and> length rs \<le> limit \<and>
     (\<forall>(r, v) \<in> set rs. length r \<le> 32 \<and> v \<noteq> 0)"

lemma first_idx_key:
  assumes "distinct (map fst rs)"
  shows "first_idx (\<lambda>e. fst e = r) rs < length rs \<longleftrightarrow> r \<in> fst ` set rs"
    and "first_idx (\<lambda>e. fst e = r) rs < length rs \<Longrightarrow> fst (rs ! first_idx (\<lambda>e. fst e = r) rs) = r"
    and "first_idx (\<lambda>e. fst e = r) rs < length rs \<Longrightarrow>
      map_of rs r = Some (snd (rs ! first_idx (\<lambda>e. fst e = r) rs))"
proof -
  let ?i = "first_idx (\<lambda>e. fst e = r) rs"
  show "?i < length rs \<longleftrightarrow> r \<in> fst ` set rs"
    by (auto simp: first_idx_less)
  show *: "?i < length rs \<Longrightarrow> fst (rs ! ?i) = r"
    by (rule first_idx_sat)
  show "?i < length rs \<Longrightarrow> map_of rs r = Some (snd (rs ! ?i))"
    using assms * by (metis map_of_eq_Some_iff nth_mem prod.collapse)
qed

lemma butlast_update_last:
  assumes "i < length rs" "distinct (map fst rs)"
  shows "distinct (map fst (butlast (rs[i := last rs])))"
    and "set (butlast (rs[i := last rs])) = set rs - {rs ! i}"
proof -
  obtain xs x where rs: "rs = xs @ [x]" using assms(1) by (cases rs rule: rev_cases) auto
  have d: "distinct rs" using assms(2) by (simp add: distinct_map)
  show "set (butlast (rs[i := last rs])) = set rs - {rs ! i}"
  proof (cases "i = length xs")
    case True
    then show ?thesis using d by (simp add: rs)
  next
    case False
    then have "i < length xs" using assms(1) rs by simp
    then have "rs[i := last rs] = xs[i := x] @ [x]" "rs ! i = xs ! i" by (simp_all add: rs list_update_append nth_append)
    then show ?thesis
      using d \<open>i < length xs\<close> set_update_distinct [of xs i x] nth_mem [of i xs] by (auto simp: rs)
  qed
  show "distinct (map fst (butlast (rs[i := last rs])))"
  proof (cases "i = length xs")
    case True
    then show ?thesis using assms(2) by (simp add: rs)
  next
    case False
    then have "i < length xs" using assms(1) rs by simp
    then show ?thesis
      using assms(2) by (auto simp: rs list_update_append map_update intro!: distinct_list_update)
  qed
qed

text \<open>Setting a variable, on the finite map that an array stands for.\<close>

lemma map_of_by_set:
  assumes "distinct (map fst rs')" "\<And>k v. (k, v) \<in> set rs' \<longleftrightarrow> m k = Some v"
  shows "map_of rs' = m"
proof
  fix k
  show "map_of rs' k = m k"
    using assms(2) [of k] map_of_eq_Some_iff [OF assms(1), of k] by (cases "m k"; cases "map_of rs' k") auto
qed

lemma store_reg_map:
  assumes "regs_ok limit rs" "length r \<le> 32" "store_reg limit rs r val = (rs', changed)"
  shows "regs_ok limit rs'"
    and "map_of rs' = (if val = 0 then (map_of rs)(r := None)
      else if r \<in> fst ` set rs \<or> length rs < limit then (map_of rs)(r \<mapsto> val) else map_of rs)"
proof -
  define i where "i = first_idx (\<lambda>e. fst e = r) rs"
  have d: "distinct (map fst rs)" using assms(1) by (simp add: regs_ok_def)
  note key = first_idx_key [OF d, of r, folded i_def]
  note mo = map_of_eq_Some_iff [OF d]
  consider (erase) "val = 0" "i < length rs" | (change) "val \<noteq> 0" "i < length rs"
    | (add) "val \<noteq> 0" "\<not> i < length rs" "length rs < limit"
    | (none) "\<not> i < length rs" "val = 0 \<or> \<not> length rs < limit" by blast
  then have "regs_ok limit rs' \<and> map_of rs' = (if val = 0 then (map_of rs)(r := None)
      else if r \<in> fst ` set rs \<or> length rs < limit then (map_of rs)(r \<mapsto> val) else map_of rs)"
  proof cases
    case erase
    then have rs': "rs' = butlast (rs[i := last rs])" using assms(3) by (simp add: store_reg_def i_def Let_def)
    note bl = butlast_update_last [OF erase(2) d, folded rs']
    obtain w where ri: "rs ! i = (r, w)" using key(2) [OF erase(2)] by (cases "rs ! i") auto
    have "(k, v) \<in> set rs' \<longleftrightarrow> ((map_of rs)(r := None)) k = Some v" for k v
      unfolding bl(2) using mo [of k v] mo [of r v] key(3) [OF erase(2)] ri by auto
    then have "map_of rs' = (map_of rs)(r := None)"
      by (rule map_of_by_set [OF bl(1)])
    moreover have "regs_ok limit rs'"
      using assms(1) bl by (auto simp: regs_ok_def rs')
    ultimately show ?thesis using erase by simp
  next
    case change
    then have rs': "rs' = rs[i := (r, val)]"
      using assms(3) key(2) by (auto simp: store_reg_def i_def [symmetric] Let_def split: if_splits)
    have ds: "distinct (map fst rs')"
      using d key(2) change by (metis fst_conv list_update_id map_update rs')
    have st: "set rs' = insert (r, val) (set rs - {rs ! i})"
      unfolding rs' using d change by (intro set_update_distinct) (auto simp: distinct_map)
    have "(k, v) \<in> set rs' \<longleftrightarrow> ((map_of rs)(r \<mapsto> val)) k = Some v" for k v
      unfolding st using mo [of k v] mo [of r v] key(2,3) change by (cases "rs ! i") auto
    then have "map_of rs' = (map_of rs)(r \<mapsto> val)"
      by (rule map_of_by_set [OF ds])
    moreover have "regs_ok limit rs'"
      using assms(1,2) ds change st by (auto simp: regs_ok_def rs')
    ultimately show ?thesis using change key(1) by simp
  next
    case add
    then have "rs' = rs @ [(r, val)]" "r \<notin> fst ` set rs"
      using assms(3) key(1) by (auto simp: store_reg_def i_def [symmetric] Let_def assms(2))
    moreover from this have "map_of rs r = None" by (simp add: map_of_eq_None_iff)
    ultimately show ?thesis
      using add assms(1,2) by (auto simp: regs_ok_def map_add_def fun_eq_iff split: option.split)
  next
    case none
    then have "rs' = rs" "r \<notin> fst ` set rs"
      using assms(3) key(1) by (auto simp: store_reg_def i_def [symmetric] Let_def split: if_splits)
    moreover from this have "(map_of rs)(r := None) = map_of rs"
      by (metis fun_upd_triv map_of_eq_None_iff)
    ultimately show ?thesis using none assms(1) by auto
  qed
  then show "regs_ok limit rs'"
    and "map_of rs' = (if val = 0 then (map_of rs)(r := None)
      else if r \<in> fst ` set rs \<or> length rs < limit then (map_of rs)(r \<mapsto> val) else map_of rs)"
    by blast+
qed

text \<open>The result tells whether the array changed.\<close>

lemma store_reg_changed:
  assumes "store_reg limit rs r val = (rs', changed)"
  shows "changed \<longleftrightarrow> rs' \<noteq> rs"
proof -
  define i where "i = first_idx (\<lambda>e. fst e = r) rs"
  have s: "(rs', changed) =
      (if val = 0 then (if i < length rs then (butlast (rs[i := last rs]), True) else (rs, False))
       else if i < length rs then (if snd (rs ! i) \<noteq> val then (rs[i := (fst (rs ! i), val)], True) else (rs, False))
       else if length rs < limit then (rs @ [(take 32 r, val)], True) else (rs, False))"
    using assms [symmetric] unfolding store_reg_def i_def Let_def .
  have "butlast (rs[i := last rs]) \<noteq> rs" if "i < length rs"
  proof
    assume "butlast (rs[i := last rs]) = rs"
    then have "length (butlast (rs[i := last rs])) = length rs" by simp
    then show False using that by simp
  qed
  moreover have "rs[i := (fst (rs ! i), val)] \<noteq> rs" if "i < length rs" "snd (rs ! i) \<noteq> val"
  proof
    assume "rs[i := (fst (rs ! i), val)] = rs"
    then have "rs ! i = (fst (rs ! i), val)" using that(1) by (metis nth_list_update_eq)
    then show False using that(2) by (metis snd_conv)
  qed
  ultimately show ?thesis using s by (simp split: if_splits)
qed

text \<open>
  C16: setting a global variable whose name has at most 32 characters keeps the array well-formed; the variable
  then reads as the value (unless the array is full and the variable new), every other one as before. The array is marked
  for saving just when it has changed.
\<close>

theorem pc_setglobalreg_correct:
  assumes "regs_ok GLOBAL_REG_NUM (global_reg sd)" "length r \<le> 32" "r \<noteq> []"
  shows "regs_ok GLOBAL_REG_NUM (global_reg (pc_setglobalreg conf sd r val)) \<and>
    pc_readglobalreg (pc_setglobalreg conf sd r val) r' =
      (if r' = r \<and> (val = 0 \<or> r \<in> fst ` set (global_reg sd) \<or> length (global_reg sd) < GLOBAL_REG_NUM) then val
       else pc_readglobalreg sd r') \<and>
    (global_reg_dirty (pc_setglobalreg conf sd r val) \<longleftrightarrow>
      global_reg_dirty sd \<or> global_reg (pc_setglobalreg conf sd r val) \<noteq> global_reg sd) \<and>
    reg (pc_setglobalreg conf sd r val) = reg sd \<and> account_reg (pc_setglobalreg conf sd r val) = account_reg sd"
proof -
  have e: "global_reg (set_event_reg conf sd r val) = global_reg sd" "reg (set_event_reg conf sd r val) = reg sd"
    "account_reg (set_event_reg conf sd r val) = account_reg sd" "global_reg_dirty (set_event_reg conf sd r val) = global_reg_dirty sd"
    by (simp_all add: set_event_reg_def)
  obtain rs changed where s: "store_reg GLOBAL_REG_NUM (global_reg sd) r val = (rs, changed)" by fastforce
  note sm = store_reg_map [OF assms(1,2) s]
  have "r \<notin> fst ` set (global_reg sd) \<Longrightarrow> map_of (global_reg sd) r = None"
    by (simp add: map_of_eq_None_iff)
  then show ?thesis
    using sm(1) assms(3) store_reg_changed [OF s]
    by (auto simp: pc_setglobalreg_def pc_readglobalreg_def read_reg_def e s sm(2) Let_def)
qed

text \<open>
  A variable with a longer name is lost: it never reads as the value it was set to, and every attempt to
  set it takes another place of the array until that is full.
\<close>

lemma pc_setglobalreg_long_name:
  assumes "regs_ok GLOBAL_REG_NUM (global_reg sd)" "length r > 32" "val \<noteq> 0"
  shows "let sd' = ((\<lambda>sd. pc_setglobalreg conf sd r val) ^^ n) sd in
    pc_readglobalreg sd' r = 0 \<and>
    length (global_reg sd') = min GLOBAL_REG_NUM (length (global_reg sd) + n)"
proof -
  have step: "global_reg (pc_setglobalreg conf sd r val) =
      (if length (global_reg sd) < GLOBAL_REG_NUM then global_reg sd @ [(take 32 r, val)] else global_reg sd)"
    if "\<forall>e \<in> set (global_reg sd). length (fst e) \<le> 32" for sd
  proof -
    have "\<not> first_idx (\<lambda>e. fst e = r) (global_reg sd) < length (global_reg sd)"
      using that assms(2) by (auto simp: first_idx_less)
    moreover have "r \<noteq> []" using assms(2) by auto
    moreover have "global_reg (set_event_reg conf sd r val) = global_reg sd" by (simp add: set_event_reg_def)
    ultimately show ?thesis
      using assms(3) by (simp add: pc_setglobalreg_def store_reg_def Let_def)
  qed
  have "(\<forall>e \<in> set (global_reg (((\<lambda>sd. pc_setglobalreg conf sd r val) ^^ n) sd)). length (fst e) \<le> 32) \<and>
    length (global_reg (((\<lambda>sd. pc_setglobalreg conf sd r val) ^^ n) sd)) = min GLOBAL_REG_NUM (length (global_reg sd) + n)"
  proof (induction n)
    case 0
    then show ?case using assms(1) by (auto simp: regs_ok_def)
  next
    case (Suc n)
    then show ?case by (auto simp: step)
  qed
  moreover from this have "map_of (global_reg (((\<lambda>sd. pc_setglobalreg conf sd r val) ^^ n) sd)) r = None"
    using assms(2) by (force simp: map_of_eq_None_iff)
  ultimately show ?thesis by (simp add: pc_readglobalreg_def read_reg_def Let_def)
qed

definition no_regs :: registers where
  "no_regs = \<lparr>reg = [], regstr = [], global_reg = [], global_reg_dirty = False,
     account_reg = [], account_reg_dirty = False, account_reg2 = [], account_reg2_dirty = False, die_counter = 0,
     event_death = 0, event_kill = 0, event_disconnect = 0, status_calcs = 0\<rparr>"

definition standard_config :: script_config where
  "standard_config = \<lparr>die_event_name = ''PCDieEvent'', kill_event_name = ''PCKillEvent'',
     logout_event_name = ''PCLogoutEvent'', check_cmdcount = 65536, check_gotocount = 2048\<rparr>"

theorem pc_setglobalreg_correct_witness:
  "pc_readglobalreg (pc_setglobalreg standard_config
    (no_regs\<lparr>global_reg := [(''a'', 1), (''b'', 2), (''c'', 3)]\<rparr>) ''a'' 0) ''c'' = 3"
  using pc_setglobalreg_correct [of "no_regs\<lparr>global_reg := [(''a'', 1), (''b'', 2), (''c'', 3)]\<rparr>" "''a''"
      standard_config 0 "''c''"]
  by (simp add: regs_ok_def GLOBAL_REG_NUM_def pc_readglobalreg_def [of "no_regs\<lparr>global_reg := x\<rparr>" for x]
      read_reg_def)

theorem pc_setglobalreg_long_name_witness:
  "let sd' = ((\<lambda>sd. pc_setglobalreg standard_config sd (replicate 33 CHR ''x'') 5) ^^ 2) no_regs
   in pc_readglobalreg sd' (replicate 33 CHR ''x'') = 0 \<and> length (global_reg sd') = 2"
  using pc_setglobalreg_long_name [of no_regs "replicate 33 CHR ''x''" 5 2 standard_config]
  by (simp add: regs_ok_def GLOBAL_REG_NUM_def no_regs_def numeral_2_eq_2 del: funpow.simps)

end
