(* ===== verification/ScriptCode.thy ===== *)
theory ScriptCode
  imports Prelude
begin

text \<open>
  What the script parser writes: byte code, numbers in it, the table of names with the chains of places
  that wait for a label (\<open>src/src/map/script.c\<close>). The growing buffers are lists; a byte that is
  read behind the end of a script counts as 0.
\<close>

unbundle bit_operations_syntax

section \<open>Commands\<close>

abbreviation (input) C_NOP :: int where "C_NOP \<equiv> 0"
abbreviation (input) C_POS :: int where "C_POS \<equiv> 1"
abbreviation (input) C_INT :: int where "C_INT \<equiv> 2"
abbreviation (input) C_PARAM :: int where "C_PARAM \<equiv> 3"
abbreviation (input) C_FUNC :: int where "C_FUNC \<equiv> 4"
abbreviation (input) C_STR :: int where "C_STR \<equiv> 5"
abbreviation (input) C_CONSTSTR :: int where "C_CONSTSTR \<equiv> 6"
abbreviation (input) C_ARG :: int where "C_ARG \<equiv> 7"
abbreviation (input) C_NAME :: int where "C_NAME \<equiv> 8"
abbreviation (input) C_EOL :: int where "C_EOL \<equiv> 9"
abbreviation (input) C_RETINFO :: int where "C_RETINFO \<equiv> 10"
abbreviation (input) C_LOR :: int where "C_LOR \<equiv> 11"
abbreviation (input) C_LAND :: int where "C_LAND \<equiv> 12"
abbreviation (input) C_LE :: int where "C_LE \<equiv> 13"
abbreviation (input) C_LT :: int where "C_LT \<equiv> 14"
abbreviation (input) C_GE :: int where "C_GE \<equiv> 15"
abbreviation (input) C_GT :: int where "C_GT \<equiv> 16"
abbreviation (input) C_EQ :: int where "C_EQ \<equiv> 17"
abbreviation (input) C_NE :: int where "C_NE \<equiv> 18"
abbreviation (input) C_XOR :: int where "C_XOR \<equiv> 19"
abbreviation (input) C_OR :: int where "C_OR \<equiv> 20"
abbreviation (input) C_AND :: int where "C_AND \<equiv> 21"
abbreviation (input) C_ADD :: int where "C_ADD \<equiv> 22"
abbreviation (input) C_SUB :: int where "C_SUB \<equiv> 23"
abbreviation (input) C_MUL :: int where "C_MUL \<equiv> 24"
abbreviation (input) C_DIV :: int where "C_DIV \<equiv> 25"
abbreviation (input) C_MOD :: int where "C_MOD \<equiv> 26"
abbreviation (input) C_NEG :: int where "C_NEG \<equiv> 27"
abbreviation (input) C_LNOT :: int where "C_LNOT \<equiv> 28"
abbreviation (input) C_NOT :: int where "C_NOT \<equiv> 29"
abbreviation (input) C_R_SHIFT :: int where "C_R_SHIFT \<equiv> 30"
abbreviation (input) C_L_SHIFT :: int where "C_L_SHIFT \<equiv> 31"

section \<open>Bytes\<close>

definition rd :: "int list \<Rightarrow> nat \<Rightarrow> int" where
  "rd s p = (if p < length s then s ! p else 0)"

definition add_scriptb :: "int \<Rightarrow> int list \<Rightarrow> int list" where
  "add_scriptb a code = code @ [u8 a]"

function add_scriptc :: "int \<Rightarrow> int list \<Rightarrow> int list" where
  "add_scriptc a code =
     (if a \<ge> 0x40 then add_scriptc (drop_bit 6 (a - 0x40)) (add_scriptb ((a AND 0x3f) OR 0x40) code)
      else add_scriptb (a AND 0x3f) code)"
  by pat_completeness auto
termination
  by (relation "measure (\<lambda>(a, code). nat a)") (auto simp: drop_bit_eq_div)

function add_scripti :: "int \<Rightarrow> int list \<Rightarrow> int list" where
  "add_scripti a code =
     (if a \<ge> 0x40 then add_scripti (drop_bit 6 (a - 0x40)) (add_scriptb (a OR 0xc0) code)
      else add_scriptb (a OR 0x80) code)"
  by pat_completeness auto
termination
  by (relation "measure (\<lambda>(a, code). nat a)") (auto simp: drop_bit_eq_div)

declare add_scriptc.simps [simp del] add_scripti.simps [simp del]

text \<open>
  Reading a command and a number. \<open>i\<close> and \<open>j\<close> are the variables of the loops; \<open>get_com\<close> overwrites
  \<open>i\<close> where \<open>get_num\<close> adds to it. Nothing is ever pushed back with \<open>unget_com\<close>.
\<close>

function com_loop :: "int list \<Rightarrow> nat \<Rightarrow> int \<Rightarrow> nat \<Rightarrow> int \<times> nat" where
  "com_loop s p i j =
     (if rd s p \<ge> 0x40 then com_loop s (p + 1) (s32 (push_bit j (rd s p))) (j + 6)
      else (s32 (i + push_bit j (rd s p)), p + 1))"
  by pat_completeness auto
termination
  by (relation "measure (\<lambda>(s, p, i, j). length s - p)") (auto simp: rd_def split: if_splits)

definition get_com :: "int list \<Rightarrow> nat \<Rightarrow> int \<times> nat" where
  "get_com s p = (if rd s p \<ge> 0x80 then (C_INT, p) else com_loop s p 0 0)"

function num_loop :: "int list \<Rightarrow> nat \<Rightarrow> int \<Rightarrow> nat \<Rightarrow> int \<times> nat" where
  "num_loop s p i j =
     (if rd s p \<ge> 0xc0 then num_loop s (p + 1) (s32 (i + push_bit j (rd s p AND 0x7f))) (j + 6)
      else (s32 (i + push_bit j (rd s p AND 0x7f)), p + 1))"
  by pat_completeness auto
termination
  by (relation "measure (\<lambda>(s, p, i, j). length s - p)") (auto simp: rd_def split: if_splits)

definition get_num :: "int list \<Rightarrow> nat \<Rightarrow> int \<times> nat" where
  "get_num s p = num_loop s p 0 0"

declare com_loop.simps [simp del] num_loop.simps [simp del]

section \<open>Names\<close>

record str_data =
  sname :: string
  stype :: int
  backpatch :: int
  label :: int
  sval :: int
  nxt :: nat

text \<open>
  The table: \<open>str_hash\<close> holds the first entry of each of the 16 chains, \<open>nxt\<close> the next one, 0 ends a chain.
\<close>

record symbols =
  str_hash :: "nat list"
  str_data :: "str_data list"

definition LABEL_NEXTLINE :: nat where
  "LABEL_NEXTLINE = 1"

definition LABEL_START :: nat where
  "LABEL_START = 2"

definition no_str :: str_data where
  "no_str = \<lparr>sname = [], stype = C_NOP, backpatch = - 1, label = - 1, sval = 0, nxt = 0\<rparr>"

definition no_symbols :: symbols where
  "no_symbols = \<lparr>str_hash = replicate 16 0, str_data = replicate LABEL_START no_str\<rparr>"

definition calc_hash :: "string \<Rightarrow> nat" where
  "calc_hash p = nat (foldl (\<lambda>h c. s32 (s32 (s32 (2 * h) + drop_bit 3 h + drop_bit 5 h + drop_bit 8 h) + of_char c)) 0 p
     AND 15)"

text \<open>A chain is walked for at most as many rounds as there are entries: a chain only goes up.\<close>

fun walk_chain :: "nat \<Rightarrow> symbols \<Rightarrow> string \<Rightarrow> nat \<Rightarrow> nat option" where
  "walk_chain 0 sy p i = None"
| "walk_chain (Suc n) sy p i =
     (if i = 0 then None
      else if sname (str_data sy ! i) = p then Some i
      else walk_chain n sy p (nxt (str_data sy ! i)))"

definition search_str :: "symbols \<Rightarrow> string \<Rightarrow> nat option" where
  "search_str sy p = walk_chain (length (str_data sy)) sy p (str_hash sy ! calc_hash p)"

definition to_lower :: "char \<Rightarrow> char" where
  "to_lower c = (if 65 \<le> (of_char c :: nat) \<and> (of_char c :: nat) \<le> 90 then char_of (of_char c + 32 :: nat) else c)"

fun chain_end :: "nat \<Rightarrow> symbols \<Rightarrow> nat \<Rightarrow> nat" where
  "chain_end 0 sy i = i"
| "chain_end (Suc n) sy i =
     (if nxt (str_data sy ! i) = 0 then i else chain_end n sy (nxt (str_data sy ! i)))"

definition add_str :: "symbols \<Rightarrow> string \<Rightarrow> nat \<times> symbols" where
  "add_str sy p = (case search_str sy (map to_lower p) of
     Some i \<Rightarrow> (i, sy)
   | None \<Rightarrow> (case search_str sy p of
       Some i \<Rightarrow> (i, sy)
     | None \<Rightarrow>
         (let h = calc_hash p; n = length (str_data sy);
              sy = (if str_hash sy ! h = 0 then sy\<lparr>str_hash := (str_hash sy)[h := n]\<rparr>
                else (let i = chain_end n sy (str_hash sy ! h)
                  in sy\<lparr>str_data := (str_data sy)[i := (str_data sy ! i)\<lparr>nxt := n\<rparr>]\<rparr>))
          in (n, sy\<lparr>str_data := str_data sy @ [no_str\<lparr>sname := p\<rparr>]\<rparr>))))"

section \<open>Names in the code\<close>

definition add_scriptl3 :: "int \<Rightarrow> int list \<Rightarrow> int list" where
  "add_scriptl3 a code = add_scriptb (drop_bit 16 a) (add_scriptb (drop_bit 8 a) (add_scriptb a code))"

definition add_scriptl :: "nat \<Rightarrow> int list \<times> symbols \<Rightarrow> int list \<times> symbols" where
  "add_scriptl l s = (case s of (code, sy) \<Rightarrow> (let d = str_data sy ! l in
     if stype d = C_POS then (add_scriptl3 (label d) (add_scriptc C_POS code), sy)
     else if stype d = C_NOP then
       (let code = add_scriptc C_NAME code
        in (add_scriptl3 (backpatch d) code,
            sy\<lparr>str_data := (str_data sy)[l := d\<lparr>backpatch := int (length code)\<rparr>]\<rparr>))
     else if stype d = C_INT then (add_scripti (sval d) code, sy)
     else (add_scriptl3 (int l) (add_scriptc C_NAME code), sy)))"

definition rd3 :: "int list \<Rightarrow> nat \<Rightarrow> int" where
  "rd3 s p = rd s p + 256 * rd s (p + 1) + 65536 * rd s (p + 2)"

definition wr3 :: "nat \<Rightarrow> int \<Rightarrow> int list \<Rightarrow> int list" where
  "wr3 i a code = code[i := u8 a, i + 1 := u8 (drop_bit 8 a), i + 2 := u8 (drop_bit 16 a)]"

text \<open>
  The loop over the places that wait for a name; \<open>n\<close> bounds its rounds, because the places go down.
  \<open>set_label\<close> makes them positions, the end of \<open>parse_script\<close> writes the number of the name.
\<close>

fun patch_loop :: "nat \<Rightarrow> bool \<Rightarrow> int \<Rightarrow> int \<Rightarrow> int list \<Rightarrow> int list" where
  "patch_loop 0 is_pos a i code = code"
| "patch_loop (Suc n) is_pos a i code =
     (if 0 \<le> i \<and> i \<noteq> 0xffffff then
        (let k = rd3 code (nat i);
             code = (if is_pos then code[nat i - 1 := C_POS] else code)
         in patch_loop n is_pos a k (wr3 (nat i) a code))
      else code)"

definition set_label :: "nat \<Rightarrow> int \<Rightarrow> int list \<times> symbols \<Rightarrow> int list \<times> symbols" where
  "set_label l pos s = (case s of (code, sy) \<Rightarrow> (let d = str_data sy ! l in
     (patch_loop (length code) True pos (backpatch d) code,
      sy\<lparr>str_data := (str_data sy)[l := d\<lparr>stype := C_POS, label := pos\<rparr>]\<rparr>)))"

section \<open>Numbers survive\<close>

lemma byte_facts:
  "\<forall>x \<in> set [0..255 :: int]. x OR 192 = 192 + x mod 64 \<and> (192 + x mod 64) AND 127 = 64 + x mod 64"
  "\<forall>x \<in> set [0..63 :: int]. x OR 128 = 128 + x \<and> (128 + x) AND 127 = x \<and> x AND 63 = x"
  by code_simp+

lemma last_byte: "0 \<le> a \<Longrightarrow> a < 64 \<Longrightarrow> u8 (a OR 128) = 128 + a \<and> (128 + a) AND 127 = a \<and> a AND 63 = a"
  using byte_facts(2) u8_id [of "128 + a"] by simp

lemma more_byte: "u8 (a OR 192) = 192 + a mod 64 \<and> (192 + a mod 64) AND 127 = 64 + a mod 64"
proof -
  have "u8 (a OR 192) = take_bit 8 (take_bit 8 a OR 192)"
    by (simp add: u8_def take_bit_or)
  moreover have "take_bit 8 a \<in> set [0..255]"
    using take_bit_int_less_exp [of 8 a] by simp
  then have "take_bit 8 a OR 192 = 192 + a mod 64 \<and> (192 + a mod 64) AND 127 = 64 + a mod 64"
  proof -
    assume *: "take_bit 8 a \<in> set [0..255]"
    have "take_bit 8 a mod 64 = a mod 64" by (simp add: take_bit_eq_mod mod_mod_cancel)
    then show ?thesis using bspec [OF byte_facts(1) *] by simp
  qed
  moreover have "take_bit 8 (192 + a mod 64) = 192 + a mod 64"
    by (rule take_bit_int_eq_self) (auto intro: add_less_le_mono less_le_trans [of _ 64])
  ultimately show ?thesis by simp
qed

lemma add_scripti_extends: "\<exists>bs. add_scripti a code = code @ bs \<and> bs \<noteq> []"
proof (induction a code rule: add_scripti.induct)
  case (1 a code)
  then show ?case by (subst add_scripti.simps) (auto simp: add_scriptb_def)
qed

lemma rd_append [simp]: "rd (s @ t) (length s) = (if t = [] then 0 else hd t)"
  by (cases t) (auto simp: rd_def nth_append)

lemma num_loop_reads:
  assumes "0 \<le> a" "0 \<le> i" "i + a * 2 ^ j < 2 ^ 31"
  shows "num_loop (add_scripti a code @ rest) (length code) i j = (i + a * 2 ^ j, length (add_scripti a code))"
  using assms
proof (induction a code arbitrary: i j rule: add_scripti.induct)
  case (1 a code)
  show ?case
  proof (cases "a \<ge> 64")
    case True
    define code' where "code' = add_scriptb (a OR 0xc0) code"
    have q: "drop_bit 6 (a - 64) = a div 64 - 1" by (simp add: drop_bit_eq_div)
    have eq: "add_scripti a code = add_scripti (a div 64 - 1) code'"
      using True by (subst add_scripti.simps) (simp add: code'_def q)
    obtain bs where bs: "add_scripti (a div 64 - 1) code' = code' @ bs" using add_scripti_extends by blast
    have c': "code' = code @ [192 + a mod 64]" using more_byte by (simp add: code'_def add_scriptb_def)
    have b: "rd (add_scripti a code @ rest) (length code) = 192 + a mod 64"
      unfolding eq bs by (simp add: c')
    have sum: "i + (64 + a mod 64) * 2 ^ j + (a div 64 - 1) * 2 ^ (j + 6) = i + a * 2 ^ j"
    proof -
      have "i + (64 + r) * 2 ^ j + (q - 1) * 2 ^ (j + 6) = i + (64 * q + r) * 2 ^ j" for q r :: int
        by (simp add: power_add algebra_simps)
      then show ?thesis by (simp add: mult_div_mod_eq)
    qed
    have a': "0 \<le> a div 64 - 1" using True by simp
    have pos: "0 \<le> (64 + a mod 64) * 2 ^ j" by simp
    have le: "(64 + a mod 64) * 2 ^ j \<le> a * 2 ^ j"
    proof (rule mult_right_mono)
      show "64 + a mod 64 \<le> a" using True mult_div_mod_eq [of 64 a] a' by linarith
    qed simp
    have bound: "i + a * 2 ^ j \<le> 2147483647" using 1(4) by simp
    have sm: "s32 (i + push_bit j (64 + a mod 64)) = i + (64 + a mod 64) * 2 ^ j"
      unfolding push_bit_eq_mult by (rule s32_id) (use le pos bound 1(3) in linarith)+
    have "num_loop (add_scripti (a div 64 - 1) code' @ rest) (length code') (i + (64 + a mod 64) * 2 ^ j) (j + 6)
      = (i + (64 + a mod 64) * 2 ^ j + (a div 64 - 1) * 2 ^ (j + 6), length (add_scripti (a div 64 - 1) code'))"
      using 1(1) [of "i + (64 + a mod 64) * 2 ^ j" "j + 6"] True a' pos 1(3,4) sum
      by (simp add: q code'_def)
    then show ?thesis
      using more_byte [of a] unfolding eq [symmetric] sum
      by (subst num_loop.simps) (simp add: b sm c' pos_mod_sign)
  next
    case False
    then have l: "add_scripti a code = code @ [128 + a]" "(128 + a) AND 127 = a" "128 + a < 192"
      using last_byte [of a] 1(2) by (subst add_scripti.simps, auto simp: add_scriptb_def)
    moreover have "s32 (i + push_bit j a) = i + a * 2 ^ j"
      using 1(2-4) by (intro s32_id [THEN trans]) (auto simp: push_bit_eq_mult intro: order.trans [of _ 0])
    ultimately show ?thesis by (subst num_loop.simps) simp
  qed
qed

lemma get_com_one: "0 \<le> c \<Longrightarrow> c < 64 \<Longrightarrow> get_com (add_scriptc c code @ rest) (length code) = (c, length code + 1)"
  using last_byte [of c] u8_id [of c] s32_id [of c]
  by (subst add_scriptc.simps) (simp add: get_com_def com_loop.simps [of _ "length code"] add_scriptb_def)

lemma get_com_num:
  assumes "0 \<le> a"
  shows "get_com (add_scripti a code @ rest) (length code) = (C_INT, length code)"
proof -
  obtain bs where "add_scripti a code = code @ bs" "bs \<noteq> []" using add_scripti_extends by blast
  moreover have "hd bs \<ge> 128"
  proof (cases "a \<ge> 64")
    case True
    obtain cs where "add_scripti (drop_bit 6 (a - 64)) (add_scriptb (a OR 192) code) = add_scriptb (a OR 192) code @ cs"
      using add_scripti_extends by blast
    then have "add_scripti a code = code @ u8 (a OR 192) # cs"
      using True by (subst add_scripti.simps) (simp add: add_scriptb_def)
    then show ?thesis using calculation more_byte [of a] by (simp add: pos_mod_sign)
  next
    case False
    then show ?thesis
      using calculation last_byte [of a] assms add_scripti.simps [of a code] by (auto simp: add_scriptb_def)
  qed
  ultimately show ?thesis by (simp add: get_com_def)
qed

text \<open>
  C17: a number from 0 to 2147483647 that is written into the code is recognised there and read back with the
  position behind it, and so is a command.
\<close>

theorem script_code_roundtrip:
  assumes "0 \<le> a" "a < 2 ^ 31" "0 \<le> c" "c < 64"
  shows "get_com (add_scripti a code @ rest) (length code) = (C_INT, length code) \<and>
    get_num (add_scripti a code @ rest) (length code) = (a, length (add_scripti a code)) \<and>
    get_com (add_scriptc c code @ rest) (length code) = (c, length (add_scriptc c code))"
proof -
  have "length (add_scriptc c code) = length code + 1"
    using assms by (subst add_scriptc.simps) (simp add: add_scriptb_def)
  then show ?thesis
    using get_com_num [OF assms(1)] get_com_one [OF assms(3,4)] num_loop_reads [of a 0 0 code rest] assms
    by (simp add: get_num_def)
qed

theorem script_code_roundtrip_witness:
  "get_num (add_scripti 100000 [7] @ [0]) 1 = (100000, length (add_scripti 100000 [7]))"
  using script_code_roundtrip [of 100000 0 "[7]" "[0]"] by simp

text \<open>A negative number, as a constant of the data base may have, does not come back.\<close>

lemma script_code_negative: "get_num (add_scripti (- 1) [] @ [C_FUNC]) 0 = (383, 2)"
  by code_simp

section \<open>The table of names\<close>

text \<open>The chain that starts at \<open>i\<close> runs through the entries \<open>ls\<close>.\<close>

fun linked :: "str_data list \<Rightarrow> nat \<Rightarrow> nat list \<Rightarrow> bool" where
  "linked ds i [] \<longleftrightarrow> i = 0"
| "linked ds i (l # ls) \<longleftrightarrow> i = l \<and> l \<noteq> 0 \<and> linked ds (nxt (ds ! l)) ls"

definition chain :: "str_data list \<Rightarrow> nat \<Rightarrow> nat list" where
  "chain ds h = filter (\<lambda>l. calc_hash (sname (ds ! l)) = h) [LABEL_START..<length ds]"

definition symbols_ok :: "symbols \<Rightarrow> bool" where
  "symbols_ok sy \<longleftrightarrow> length (str_hash sy) = 16 \<and> LABEL_START \<le> length (str_data sy) \<and>
     (\<forall>h < 16. linked (str_data sy) (str_hash sy ! h) (chain (str_data sy) h))"

text \<open>The reference: the first entry with the name.\<close>

definition lookup_name :: "str_data list \<Rightarrow> string \<Rightarrow> nat option" where
  "lookup_name ds p = find (\<lambda>l. sname (ds ! l) = p) [LABEL_START..<length ds]"

lemma calc_hash_less: "calc_hash p < 16"
proof -
  have "\<And>x :: int. x AND 15 = take_bit 4 x"
    by (simp add: take_bit_eq_mask mask_eq_exp_minus_1)
  then show ?thesis
    unfolding calc_hash_def using take_bit_int_less_exp [of 4] by (simp add: nat_less_iff)
qed

lemma walk_chain_linked:
  "\<lbrakk>linked (str_data sy) i ls; length ls < n\<rbrakk> \<Longrightarrow>
    walk_chain n sy p i = find (\<lambda>l. sname (str_data sy ! l) = p) ls"
proof (induction ls arbitrary: n i)
  case Nil
  then show ?case by (cases n) auto
next
  case (Cons l ls)
  then show ?case by (cases n) auto
qed

lemma find_filter:
  "(\<And>x. P x \<Longrightarrow> Q x) \<Longrightarrow> find P (filter Q xs) = find P xs"
  by (induction xs) auto

lemma chain_length: "LABEL_START \<le> length ds \<Longrightarrow> length (chain ds h) < length ds"
  unfolding chain_def by (rule le_less_trans [OF length_filter_le]) (auto simp: LABEL_START_def)

lemma search_str_lookup:
  assumes "symbols_ok sy"
  shows "search_str sy p = lookup_name (str_data sy) p"
proof -
  have "find (\<lambda>l. sname (str_data sy ! l) = p) (chain (str_data sy) (calc_hash p)) = lookup_name (str_data sy) p"
    unfolding chain_def lookup_name_def by (rule find_filter) simp
  then show ?thesis
    unfolding search_str_def
    by (subst walk_chain_linked [where ls = "chain (str_data sy) (calc_hash p)"])
      (use assms in \<open>auto simp: symbols_ok_def calc_hash_less chain_length\<close>)
qed

lemma chain_end_linked:
  "\<lbrakk>linked (str_data sy) i (ls @ [l]); length ls \<le> n\<rbrakk> \<Longrightarrow> chain_end n sy i = l"
proof (induction ls arbitrary: n i)
  case Nil
  then show ?case by (cases n) auto
next
  case (Cons k ls)
  then obtain m where "n = Suc m" by (cases n) auto
  moreover have "nxt (str_data sy ! i) \<noteq> 0"
    using Cons.prems(1) by (cases ls) auto
  ultimately show ?case using Cons by auto
qed

lemma linked_cong:
  "\<lbrakk>linked ds i ls; \<And>l. l \<in> set ls \<Longrightarrow> nxt (ds' ! l) = nxt (ds ! l)\<rbrakk> \<Longrightarrow> linked ds' i ls"
  by (induction ls arbitrary: i) auto

lemma linked_snoc:
  "\<lbrakk>linked ds i (ls @ [l]); distinct (ls @ [l]); n \<noteq> 0; n < length ds'; nxt (ds' ! n) = 0; nxt (ds' ! l) = n;
    \<And>k. k \<in> set ls \<Longrightarrow> nxt (ds' ! k) = nxt (ds ! k)\<rbrakk> \<Longrightarrow> linked ds' i (ls @ [l, n])"
  by (induction ls arbitrary: i) auto

lemma chain_snoc:
  assumes "LABEL_START \<le> length ds" "length ds' = length ds"
    and "\<And>l. sname (ds' ! l) = sname (ds ! l)"
  shows "chain (ds' @ [d]) h = chain ds h @ (if calc_hash (sname d) = h then [length ds] else [])"
proof -
  have "filter (\<lambda>l. calc_hash (sname ((ds' @ [d]) ! l)) = h) [LABEL_START..<length ds]
      = filter (\<lambda>l. calc_hash (sname (ds ! l)) = h) [LABEL_START..<length ds]"
    by (rule filter_cong) (auto simp: nth_append assms)
  then show ?thesis
    using assms(1) by (simp add: chain_def assms(2)) (simp add: nth_append assms)
qed

text \<open>What \<open>add_str\<close> does when the name is new.\<close>

lemma add_str_new:
  assumes ok: "symbols_ok sy" and new: "search_str sy (map to_lower p) = None" "search_str sy p = None"
    and res: "add_str sy p = (l, sy')"
  shows "symbols_ok sy'" "l = length (str_data sy)" "length (str_data sy') = Suc l"
    "str_data sy' ! l = no_str\<lparr>sname := p\<rparr>"
    "\<And>k. k < l \<Longrightarrow> \<exists>n. str_data sy' ! k = (str_data sy ! k)\<lparr>nxt := n\<rparr>"
proof -
  define h ds n where "h = calc_hash p" and "ds = str_data sy" and "n = length ds"
  define e where "e = chain_end n sy (str_hash sy ! h)"
  define ds' where "ds' = (if str_hash sy ! h = 0 then ds else ds[e := (ds ! e)\<lparr>nxt := n\<rparr>])"
  define hs' where "hs' = (if str_hash sy ! h = 0 then (str_hash sy)[h := n] else str_hash sy)"
  define d where "d = no_str\<lparr>sname := p\<rparr>"
  have n: "LABEL_START \<le> n" "n \<noteq> 0" using ok by (auto simp: symbols_ok_def ds_def n_def LABEL_START_def)
  have h: "h < 16" "length (str_hash sy) = 16" using ok by (auto simp: h_def calc_hash_less symbols_ok_def)
  have sy': "str_hash sy' = hs'" "str_data sy' = ds' @ [d]" "l = n"
    using res new by (auto simp: add_str_def Let_def h_def ds_def n_def e_def ds'_def hs'_def d_def split: if_splits)
  have len: "length ds' = n" by (simp add: ds'_def n_def)
  have names: "sname (ds' ! k) = sname (ds ! k)" for k
    by (cases "e < length ds"; cases "k = e") (auto simp: ds'_def list_update_beyond)
  have link: "linked ds (str_hash sy ! j) (chain ds j)" if "j < 16" for j
    using ok that by (simp add: symbols_ok_def ds_def)
  have dis: "distinct (chain ds j)" "set (chain ds j) \<subseteq> {LABEL_START..<n}" for j
    by (auto simp: chain_def n_def)
  have last: "\<exists>ls. chain ds h = ls @ [e]" if "str_hash sy ! h \<noteq> 0"
  proof -
    have "chain ds h \<noteq> []" using link [OF h(1)] that by (metis linked.simps(1))
    then obtain ls k where ls: "chain ds h = ls @ [k]" by (metis rev_exhaust)
    then have "length ls \<le> n"
      using chain_length [of ds h] n(1) by (simp add: n_def)
    then have "e = k"
      using link [OF h(1)] ls unfolding e_def ds_def by (intro chain_end_linked) auto
    then show ?thesis using ls by blast
  qed
  have hash: "calc_hash (sname (ds ! k)) = j" if "k \<in> set (chain ds j)" for k j
    using that by (simp add: chain_def)
  have "linked (ds' @ [d]) (hs' ! j) (chain (ds' @ [d]) j)" if j: "j < 16" for j
  proof (cases "j = h")
    case False
    have "nxt ((ds' @ [d]) ! k) = nxt (ds ! k)" if k: "k \<in> set (chain ds j)" for k
    proof -
      have "k \<noteq> e" if "str_hash sy ! h \<noteq> 0"
        using last [OF that] hash [OF k] hash [of e h] False by auto
      moreover have "k < n" using dis(2) [of j] k by auto
      ultimately show ?thesis by (auto simp: nth_append ds'_def n_def)
    qed
    then have "linked (ds' @ [d]) (str_hash sy ! j) (chain ds j)"
      using link [OF j] by (rule linked_cong [rotated])
    then show ?thesis
      using False n(1) names len by (simp add: hs'_def d_def h_def [symmetric] chain_snoc [of ds] n_def)
  next
    case True
    have ch: "chain (ds' @ [d]) j = chain ds h @ [n]"
      using True n(1) names len by (simp add: d_def h_def [symmetric] chain_snoc [of ds] n_def)
    show ?thesis
    proof (cases "str_hash sy ! h = 0")
      case True
      then have "chain ds h = []" using link [OF h(1)] by (cases "chain ds h") auto
      then show ?thesis
        using \<open>j = h\<close> True n h unfolding ch by (simp add: hs'_def nth_append len d_def no_str_def)
    next
      case False
      then obtain ls where ls: "chain ds h = ls @ [e]" using last by blast
      have "e < n" using dis(2) [of h] ls by auto
      moreover have "\<forall>k \<in> set ls. k < n \<and> e \<noteq> k"
        using dis [of h] ls by auto
      ultimately have "linked (ds' @ [d]) (str_hash sy ! h) (ls @ [e, n])"
        using link [OF h(1)] dis(1) [of h] n False unfolding ls
        by (intro linked_snoc [where ds = ds]) (auto simp: nth_append len ds'_def d_def no_str_def n_def)
      then show ?thesis
        using False \<open>j = h\<close> unfolding ch ls by (simp add: hs'_def)
    qed
  qed
  then show "symbols_ok sy'"
    using h n len by (simp add: symbols_ok_def sy' hs'_def)
  show "l = length (str_data sy)" "length (str_data sy') = Suc l" "str_data sy' ! l = no_str\<lparr>sname := p\<rparr>"
    using sy' len by (auto simp: n_def ds_def nth_append d_def)
  show "\<exists>m. str_data sy' ! k = (str_data sy ! k)\<lparr>nxt := m\<rparr>" if "k < l" for k
  proof (cases "str_hash sy ! h \<noteq> 0 \<and> k = e")
    case True
    then show ?thesis using that sy' len by (auto simp: nth_append ds'_def ds_def n_def)
  next
    case False
    then have "str_data sy' ! k = str_data sy ! k"
      using that sy' len by (auto simp: nth_append ds'_def ds_def)
    then show ?thesis by (metis str_data.surjective str_data.update_convs(6))
  qed
qed

lemma lookup_name_some: "lookup_name ds p = Some l \<Longrightarrow> l < length ds \<and> LABEL_START \<le> l \<and> sname (ds ! l) = p"
  by (auto simp: lookup_name_def find_Some_iff)

lemma lookup_name_snoc:
  assumes "LABEL_START \<le> length ds" "length ds' = Suc (length ds)"
    and "\<And>k. k < length ds \<Longrightarrow> sname (ds' ! k) = sname (ds ! k)"
  shows "lookup_name ds' q = (case lookup_name ds q of Some k \<Rightarrow> Some k
     | None \<Rightarrow> if sname (ds' ! length ds) = q then Some (length ds) else None)"
proof -
  have "find (\<lambda>l. sname (ds' ! l) = q) [LABEL_START..<length ds] = find (\<lambda>l. sname (ds ! l) = q) [LABEL_START..<length ds]"
    by (rule find_cong) (auto simp: assms(3))
  moreover have "find P (xs @ [x]) = (case find P xs of Some k \<Rightarrow> Some k | None \<Rightarrow> if P x then Some x else None)" for P :: "nat \<Rightarrow> bool" and xs x
    by (induction xs) auto
  ultimately show ?thesis using assms(1,2) by (simp add: lookup_name_def)
qed

text \<open>
  C18: with the hash chains in order, \<open>search_str\<close> finds the first entry of a name; \<open>add_str\<close> keeps them in
  order and the meaning of all other names, and returns the entry of the name in small letters, of the
  name itself, or a new one at the end, which \<open>search_str\<close> finds from then on.
\<close>

theorem add_str_correct:
  assumes "symbols_ok sy" "add_str sy p = (l, sy')"
  shows "symbols_ok sy' \<and> (\<forall>q. search_str sy q = lookup_name (str_data sy) q) \<and>
    (case lookup_name (str_data sy) (map to_lower p) of
       Some k \<Rightarrow> l = k \<and> sy' = sy
     | None \<Rightarrow> search_str sy' p = Some l \<and> (\<forall>q. q \<noteq> p \<longrightarrow> search_str sy' q = search_str sy q) \<and>
         (lookup_name (str_data sy) p = None \<longrightarrow> l = length (str_data sy)))"
proof (cases "search_str sy (map to_lower p) = None \<and> search_str sy p = None")
  case True
  note new = add_str_new [OF assms(1) conjunct1 [OF True] conjunct2 [OF True] assms(2)]
  have "sname (str_data sy' ! k) = sname (str_data sy ! k)" if "k < length (str_data sy)" for k
    using new(5) [of k] that new(2) by auto
  note lk = lookup_name_snoc [of "str_data sy" "str_data sy'", OF _ _ this]
  have "lookup_name (str_data sy') q = (case lookup_name (str_data sy) q of Some k \<Rightarrow> Some k
      | None \<Rightarrow> if p = q then Some l else None)" for q
    using lk [of q] new(2-4) assms(1) by (simp add: symbols_ok_def split: option.split)
  then show ?thesis
    using True new(1,2) assms(1) by (auto simp: search_str_lookup split: option.split)
next
  case False
  then show ?thesis
    using assms by (auto simp: add_str_def search_str_lookup split: option.splits)
qed

lemma no_symbols_ok: "symbols_ok no_symbols"
  by (simp add: symbols_ok_def no_symbols_def LABEL_START_def chain_def nth_Cons' numeral_eq_Suc)

theorem add_str_correct_witness: "search_str (snd (add_str no_symbols ''mes'')) ''mes'' = Some 2"
proof -
  have "add_str no_symbols ''mes'' = (2, snd (add_str no_symbols ''mes''))"
    by (rule prod_eqI) (code_simp, simp)
  from add_str_correct [OF no_symbols_ok this] show ?thesis
    by (simp add: lookup_name_def no_symbols_def LABEL_START_def)
qed

end
