(* ===== verification/CLib.thy ===== *)
theory CLib
  imports Prelude
begin

text \<open>
  What the code uses of the C library on characters and numbers: \<open>isspace\<close> and the like, the digits that
  \<open>strtoul\<close>, \<open>atoi\<close> and \<open>sscanf\<close> read, and \<open>sprintf\<close> with \<open>%d\<close>.
\<close>

section \<open>Characters\<close>

definition byte :: "char \<Rightarrow> nat" where
  "byte c = of_char c"

definition isspace :: "char \<Rightarrow> bool" where
  "isspace c \<longleftrightarrow> byte c = 32 \<or> 9 \<le> byte c \<and> byte c \<le> 13"

definition isdigit :: "char \<Rightarrow> bool" where
  "isdigit c \<longleftrightarrow> 48 \<le> byte c \<and> byte c \<le> 57"

definition isalnum :: "char \<Rightarrow> bool" where
  "isalnum c \<longleftrightarrow> isdigit c \<or> 65 \<le> byte c \<and> byte c \<le> 90 \<or> 97 \<le> byte c \<and> byte c \<le> 122"

definition ispunct :: "char \<Rightarrow> bool" where
  "ispunct c \<longleftrightarrow> 33 \<le> byte c \<and> byte c \<le> 126 \<and> \<not> isalnum c"

definition iscntrl :: "char \<Rightarrow> bool" where
  "iscntrl c \<longleftrightarrow> byte c < 32 \<or> byte c = 127"

definition tolower :: "char \<Rightarrow> char" where
  "tolower c = (if 65 \<le> byte c \<and> byte c \<le> 90 then char_of (byte c + 32) else c)"

definition strcasecmp_eq :: "string \<Rightarrow> string \<Rightarrow> bool" where
  "strcasecmp_eq a b \<longleftrightarrow> map tolower a = map tolower b"

text \<open>
  The string at a field of \<open>n\<close> bytes of a packet: when all of them are used nothing ends it there, and it goes on with what
  follows.
\<close>

definition cstring_field :: "nat \<Rightarrow> string \<Rightarrow> string \<Rightarrow> string" where
  "cstring_field n s following = (if length s < n then s else take n s @ following)"

text \<open>The place of the first occurrence that \<open>strstr(p, w)\<close> finds.\<close>

fun strstr :: "string \<Rightarrow> string \<Rightarrow> nat option" where
  "strstr [] w = (if w = [] then Some 0 else None)"
| "strstr (c # p) w = (if take (length w) (c # p) = w then Some 0 else map_option Suc (strstr p w))"

lemma strstr_iff:
  "strstr p w = Some k \<longleftrightarrow> k \<le> length p \<and> take (length w) (drop k p) = w \<and> (\<forall>j < k. take (length w) (drop j p) \<noteq> w)"
proof (induction p arbitrary: k)
  case (Cons c p)
  show ?case
  proof (cases "take (length w) (c # p) = w")
    case True
    then show ?thesis by (cases k) (auto simp del: take_Cons')
  next
    case False
    then show ?thesis using Cons [of "k - 1"]
      by (cases k) (auto simp: less_Suc_eq_0_disj simp del: take_Cons')
  qed
qed auto

lemma strstr_None: "strstr p w = None \<longleftrightarrow> (\<forall>k \<le> length p. take (length w) (drop k p) \<noteq> w)"
proof (induction p)
  case (Cons c p)
  have "(\<forall>k \<le> Suc (length p). P k) \<longleftrightarrow> P 0 \<and> (\<forall>k \<le> length p. P (Suc k))" for P :: "nat \<Rightarrow> bool"
    by (metis Suc_le_mono le0 not0_implies_Suc)
  then show ?case using Cons by (simp del: take_Cons')
qed auto

definition peek :: "string \<Rightarrow> nat \<Rightarrow> char" where
  "peek p n = (if n < length p then p ! n else NUL)"

definition advance :: "nat \<Rightarrow> string \<Rightarrow> string" where
  "advance n p = drop n p"

section \<open>Numbers\<close>

definition digit_val :: "char \<Rightarrow> nat" where
  "digit_val c =
     (if isdigit c then byte c - 48
      else if 97 \<le> byte c \<and> byte c \<le> 122 then byte c - 87
      else if 65 \<le> byte c \<and> byte c \<le> 90 then byte c - 55 else 99)"

fun digits :: "nat \<Rightarrow> int \<Rightarrow> string \<Rightarrow> int \<times> string" where
  "digits b acc [] = (acc, [])"
| "digits b acc (c # p) =
     (if digit_val c < b then digits b (acc * int b + int (digit_val c)) p else (acc, c # p))"

text \<open>\<open>sprintf\<close> with \<open>%d\<close>.\<close>

fun decimal :: "nat \<Rightarrow> string" where
  "decimal n = (if n < 10 then [char_of (48 + n)] else decimal (n div 10) @ [char_of (48 + n mod 10)])"

declare decimal.simps [simp del]

definition sprintf_d :: "int \<Rightarrow> string" where
  "sprintf_d i = (if i < 0 then CHR ''-'' # decimal (nat (- i)) else decimal (nat i))"

section \<open>Lines of a file\<close>

definition LF :: char where
  "LF = CHR 0x0A"

text \<open>What \<open>fgets\<close> reads into room for \<open>n + 1\<close> characters, and the rest of the file.\<close>

fun fgets :: "nat \<Rightarrow> string \<Rightarrow> string \<times> string" where
  "fgets 0 p = ([], p)"
| "fgets (Suc n) [] = ([], [])"
| "fgets (Suc n) (c # p) = (if c = LF then ([c], p) else (let (l, r) = fgets n p in (c # l, r)))"

lemma fgets_shorter: "length (snd (fgets n p)) \<le> length p - min 1 n"
  by (induction n p rule: fgets.induct) (auto split: prod.splits)

text \<open>The lines that \<open>while(fgets(line, n + 1, fp))\<close> goes through.\<close>

function file_lines :: "nat \<Rightarrow> string \<Rightarrow> string list" where
  "file_lines n p = (if p = [] \<or> n = 0 then [] else fst (fgets n p) # file_lines n (snd (fgets n p)))"
  by auto
termination
proof (relation "measure (\<lambda>(n, p). length p)")
  show "((n, snd (fgets n p)), (n, p)) \<in> measure (\<lambda>(n, p). length p)" if "\<not> (p = [] \<or> n = 0)" for n p
    using fgets_shorter [of n p] that by (cases p) auto
qed simp

declare file_lines.simps [simp del]

section \<open>Reading what was written\<close>

lemma decimal_digits: "decimal n \<noteq> [] \<and> set (decimal n) \<subseteq> {c. isdigit c}"
proof (induction n rule: decimal.induct)
  case (1 n)
  have d: "isdigit (char_of (48 + k))" if "k < 10" for k :: nat
    using that by (simp add: isdigit_def byte_def of_char_of)
  show ?case
    using 1 d [of n] d [of "n mod 10"] by (subst (1 2) decimal.simps) auto
qed

lemma digit_val_digit: "k < 10 \<Longrightarrow> digit_val (char_of (48 + k :: nat)) = k"
  by (simp add: digit_val_def isdigit_def byte_def of_char_of)

lemma digits_append:
  "\<forall>c \<in> set xs. digit_val c < b \<Longrightarrow> digits b acc (xs @ r) = digits b (fst (digits b acc xs)) r \<and> snd (digits b acc xs) = []"
  by (induction xs arbitrary: acc) auto

lemma decimal_val: "\<forall>c \<in> set (decimal n). digit_val c < 10" "fst (digits 10 0 (decimal n)) = int n"
proof (induction n rule: decimal.induct)
  case (1 n)
  { case 1
    show ?case using "1.IH"(1) digit_val_digit [of n] digit_val_digit [of "n mod 10"]
      by (subst decimal.simps) auto }
  { case 2
    show ?case
    proof (cases "n < 10")
      case True
      then show ?thesis using digit_val_digit [of n] by (subst decimal.simps) simp
    next
      case False
      have "fst (digits 10 0 (decimal (n div 10) @ [char_of (48 + n mod 10)])) = int (n div 10) * 10 + int (n mod 10)"
        using digits_append [OF "1.IH"(1) [OF False], of 0 "[char_of (48 + n mod 10)]"] "1.IH"(2) [OF False]
          digit_val_digit [of "n mod 10"] by simp
      moreover have "int (n div 10) * 10 + int (n mod 10) = int n"
        by (metis div_mult_mod_eq of_nat_add of_nat_mult of_nat_numeral)
      ultimately show ?thesis using False by (subst decimal.simps) simp
    qed }
qed

lemma decimal_hd: "hd (decimal n) = CHR ''0'' \<longleftrightarrow> n = 0"
proof (induction n rule: decimal.induct)
  case (1 n)
  have "char_of (48 + n) = CHR ''0'' \<longleftrightarrow> n = 0" if "n < 10"
    using that by (simp add: char_of_eq_iff take_bit_eq_mod)
  then show ?case
    using 1 decimal_digits [of "n div 10"] by (subst decimal.simps) (auto simp: hd_append)
qed

lemma digit_val_less: "digit_val c < 10 \<longleftrightarrow> isdigit c"
  by (auto simp: digit_val_def isdigit_def)

lemma digits_decimal: "\<not> isdigit (peek r 0) \<Longrightarrow> digits 10 0 (decimal n @ r) = (int n, r)"
  using digits_append [OF decimal_val(1) [of n], of 0 r] decimal_val(2) [of n]
  by (cases r) (simp_all add: digit_val_less peek_def)

lemma length_decimal: "n < 10 ^ k \<Longrightarrow> 0 < k \<Longrightarrow> length (decimal n) \<le> k"
proof (induction n arbitrary: k rule: decimal.induct)
  case (1 n)
  show ?case
  proof (cases "n < 10")
    case True
    then show ?thesis using "1.prems" by (subst decimal.simps) simp
  next
    case False
    then obtain j where j: "k = Suc j" "0 < j" using "1.prems" by (cases k; cases "k - 1") auto
    then have "n div 10 < 10 ^ j" using "1.prems"(1) by (simp add: less_mult_imp_div_less mult.commute)
    then show ?thesis using "1.IH" [OF False _ j(2)] False j(1) by (subst decimal.simps) simp
  qed
qed

lemma sprintf_d_set: "c \<in> set (sprintf_d i) \<Longrightarrow> c = CHR ''-'' \<or> isdigit c"
  using decimal_digits [of "nat i"] decimal_digits [of "nat (- i)"] by (auto simp: sprintf_d_def split: if_splits)

lemma sprintf_d_not_Nil [simp]: "sprintf_d i \<noteq> []"
  using decimal_digits by (simp add: sprintf_d_def)

lemma length_sprintf_d:
  assumes "- 2147483648 \<le> i" "i \<le> 2147483647"
  shows "length (sprintf_d i) \<le> 11"
proof -
  have "nat (- i) < 10 ^ 10" if "i < 0" using assms(1) that by simp
  moreover have "nat i < 10 ^ 11" if "\<not> i < 0" using assms(2) that by simp
  ultimately show ?thesis using length_decimal [of "nat (- i)" 10] length_decimal [of "nat i" 11] by (auto simp: sprintf_d_def)
qed

lemma fgets_line:
  "LF \<notin> set p \<Longrightarrow> length p < n \<Longrightarrow> fgets n (p @ LF # r) = (p @ [LF], r)"
proof (induction p arbitrary: n)
  case Nil
  then show ?case by (cases n) auto
next
  case (Cons c p)
  then show ?case by (cases n) auto
qed

lemma file_lines_concat:
  assumes "\<And>l. l \<in> set ls \<Longrightarrow> LF \<notin> set l \<and> length l < n"
  shows "file_lines n (concat (map (\<lambda>l. l @ [LF]) ls)) = map (\<lambda>l. l @ [LF]) ls"
  using assms
proof (induction ls)
  case Nil
  then show ?case by (subst file_lines.simps) simp
next
  case (Cons l ls)
  then have "fgets n (concat (map (\<lambda>l. l @ [LF]) (l # ls))) = (l @ [LF], concat (map (\<lambda>l. l @ [LF]) ls))"
    by (simp add: fgets_line)
  moreover have "n \<noteq> 0" using Cons.prems [of l] by auto
  ultimately show ?case using Cons.IH Cons.prems by (subst file_lines.simps) simp
qed

lemma length_digits: "length (snd (digits b acc p)) \<le> length p"
  by (induction b acc p rule: digits.induct) auto

end
