(* ===== verification/ScriptParse.thy ===== *)
theory ScriptParse
  imports ScriptCode CLib
begin

text \<open>
  The parser of the script language (\<open>skip_space\<close> to \<open>parse_script\<close> of \<open>src/src/map/script.c\<close>). A text is
  the list of its bytes without the NUL at its end. The functions that call each other have a bound on
  their depth as first argument; \<open>ScriptProofs\<close> shows how much is enough. Warnings are left out.
\<close>

section \<open>Results\<close>

text \<open>\<open>Exit\<close>: an error message and \<open>exit\<close>; \<open>Overrun\<close>: a read behind the NUL.\<close>

datatype 'a parsed = Ok 'a | Exit | Overrun | No_fuel

definition andthen :: "'a parsed \<Rightarrow> ('a \<Rightarrow> 'b parsed) \<Rightarrow> 'b parsed" where
  "andthen r f = (case r of Ok a \<Rightarrow> f a | Exit \<Rightarrow> Exit | Overrun \<Rightarrow> Overrun | No_fuel \<Rightarrow> No_fuel)"

section \<open>Blanks, comments and words\<close>

text \<open>The rest of a comment; \<open>prev\<close> is the byte before.\<close>

fun comment_end :: "char \<Rightarrow> string \<Rightarrow> string" where
  "comment_end prev [] = []"
| "comment_end prev (c # p) = (if prev = CHR ''*'' \<and> c = CHR ''/'' then p else comment_end c p)"

lemma length_comment_end: "length (comment_end prev p) \<le> length p"
  by (induction prev p rule: comment_end.induct) auto

function skip_space :: "string \<Rightarrow> string" where
  "skip_space p =
     (let q = dropWhile isspace p in
      if peek q 0 = CHR ''/'' \<and> peek q 1 = CHR ''/'' then skip_space (dropWhile (\<lambda>c. c \<noteq> CHR 0x0A) q)
      else if peek q 0 = CHR ''/'' \<and> peek q 1 = CHR ''*'' then skip_space (comment_end CHR ''/'' (tl q))
      else q)"
  by pat_completeness auto
termination
proof (relation "measure length")
  fix p q :: string
  assume q: "q = dropWhile isspace p" and sl: "peek q 0 = CHR ''/'' \<and> peek q 1 = CHR ''/''"
  have "length q \<le> length p" unfolding q by (rule length_dropWhile_le)
  moreover obtain r where "q = CHR ''/'' # r"
    using sl by (cases q) (auto simp: peek_def NUL_def)
  then have "length (dropWhile (\<lambda>c. c \<noteq> CHR 0x0A) q) < length q"
    using length_dropWhile_le [of "\<lambda>c. c \<noteq> CHR 0x0A" r] by simp
  ultimately show "(dropWhile (\<lambda>c. c \<noteq> CHR 0x0A) q, p) \<in> measure length" by simp
next
  fix p q :: string
  assume q: "q = dropWhile isspace p" and sl: "peek q 0 = CHR ''/'' \<and> peek q 1 = CHR ''*''"
  have "length q \<le> length p" unfolding q by (rule length_dropWhile_le)
  moreover obtain r where "q = CHR ''/'' # r"
    using sl by (cases q) (auto simp: peek_def NUL_def)
  then have "length (comment_end CHR ''/'' (tl q)) < length q"
    using length_comment_end [of "CHR ''/''" r] by simp
  ultimately show "(comment_end CHR ''/'' (tl q), p) \<in> measure length" by simp
qed auto

declare skip_space.simps [simp del]

definition skip_one :: "char \<Rightarrow> string \<Rightarrow> string" where
  "skip_one c p = (if peek p 0 = c then tl p else p)"

text \<open>A byte from 0x81 on takes the next one with it (two-byte characters).\<close>

fun word_chars :: "string \<Rightarrow> string" where
  "word_chars [] = []"
| "word_chars [c] = (if isalnum c \<or> c = CHR ''_'' \<or> byte c \<ge> 0x81 then [] else [c])"
| "word_chars (c # d # p) =
     (if byte c \<ge> 0x81 then word_chars p
      else if isalnum c \<or> c = CHR ''_'' then word_chars (d # p) else c # d # p)"

definition skip_word :: "string \<Rightarrow> string" where
  "skip_word p = skip_one CHR ''$'' (word_chars
     (skip_one CHR ''#'' (skip_one CHR ''#'' (skip_one CHR ''@'' (skip_one CHR ''$'' p)))))"

definition word_of :: "string \<Rightarrow> string" where
  "word_of p = take (length p - length (skip_word p)) p"

section \<open>Literals\<close>

text \<open>\<open>strtoul(p, &np, 0)\<close>, stored in an \<open>int\<close>: hexadecimal after 0x, octal after 0.\<close>

definition strtoul :: "string \<Rightarrow> int \<times> string" where
  "strtoul p =
     (let neg = (peek p 0 = CHR ''-''); q = (if peek p 0 = CHR ''-'' \<or> peek p 0 = CHR ''+'' then tl p else p);
          (v, r) = (if peek q 0 = CHR ''0'' \<and> (peek q 1 = CHR ''x'' \<or> peek q 1 = CHR ''X'') \<and> digit_val (peek q 2) < 16
            then digits 16 0 (advance 2 q)
            else if peek q 0 = CHR ''0'' then digits 8 0 q else digits 10 0 q)
      in (s32 (if v \<ge> 2 ^ 64 then 2 ^ 64 - 1 else if neg then - v else v), r))"

text \<open>A string up to its closing quote; a backslash protects the next byte.\<close>

fun string_body :: "char \<Rightarrow> string \<Rightarrow> int list \<Rightarrow> (int list \<times> string) parsed" where
  "string_body prev [] code = Exit"
| "string_body prev (c # p) code =
     (if c = CHR ''\"'' then Ok (add_scriptb 0 code, p)
      else if byte prev \<le> 0x7e \<and> c = CHR 0x5C
      then (case p of [] \<Rightarrow> Overrun | d # p' \<Rightarrow> string_body d p' (add_scriptb (int (byte d)) code))
      else if c = CHR 0x0A then Exit
      else string_body c p (add_scriptb (int (byte c)) code))"

section \<open>Expressions\<close>

record parser =
  code :: "int list"
  syms :: symbols
  parse_cmd :: nat
  parse_cmd_if :: nat

definition emit :: "(int list \<Rightarrow> int list) \<Rightarrow> parser \<Rightarrow> parser" where
  "emit f st = st\<lparr>code := f (code st)\<rparr>"

definition emit_name :: "nat \<Rightarrow> parser \<Rightarrow> parser" where
  "emit_name l st = (let (c, sy) = add_scriptl l (code st, syms st) in st\<lparr>code := c, syms := sy\<rparr>)"

definition is_func :: "parser \<Rightarrow> nat \<Rightarrow> bool" where
  "is_func st l \<longleftrightarrow> stype (str_data (syms st) ! l) = C_FUNC"

text \<open>The operators in the order of the tests: command, precedence, length.\<close>

definition match_op :: "string \<Rightarrow> (int \<times> int \<times> nat) option" where
  "match_op p =
     (let a = peek p 0; b = peek p 1 in
      if a = CHR ''+'' then Some (C_ADD, 6, 1)
      else if a = CHR ''-'' then Some (C_SUB, 6, 1)
      else if a = CHR ''*'' then Some (C_MUL, 7, 1)
      else if a = CHR ''/'' then Some (C_DIV, 7, 1)
      else if a = CHR ''%'' then Some (C_MOD, 7, 1)
      else if a = CHR ''('' then Some (C_FUNC, 8, 1)
      else if a = CHR ''&'' \<and> b = CHR ''&'' then Some (C_LAND, 1, 2)
      else if a = CHR ''&'' then Some (C_AND, 5, 1)
      else if a = CHR ''|'' \<and> b = CHR ''|'' then Some (C_LOR, 0, 2)
      else if a = CHR ''|'' then Some (C_OR, 4, 1)
      else if a = CHR ''^'' then Some (C_XOR, 3, 1)
      else if a = CHR ''='' \<and> b = CHR ''='' then Some (C_EQ, 2, 2)
      else if a = CHR ''!'' \<and> b = CHR ''='' then Some (C_NE, 2, 2)
      else if a = CHR ''>'' \<and> b = CHR ''>'' then Some (C_R_SHIFT, 5, 2)
      else if a = CHR ''>'' \<and> b = CHR ''='' then Some (C_GE, 2, 2)
      else if a = CHR ''>'' then Some (C_GT, 2, 1)
      else if a = CHR ''<'' \<and> b = CHR ''<'' then Some (C_L_SHIFT, 5, 2)
      else if a = CHR ''<'' \<and> b = CHR ''='' then Some (C_LE, 2, 2)
      else if a = CHR ''<'' then Some (C_LT, 2, 1)
      else None)"

definition unary_op :: "string \<Rightarrow> int option" where
  "unary_op p =
     (if peek p 0 = CHR ''-'' then Some C_NEG
      else if peek p 0 = CHR ''!'' then Some C_LNOT
      else if peek p 0 = CHR ''~'' then Some C_NOT else None)"

text \<open>
  The functions that call each other are told apart by a tag; \<open>rec\<close> stands for the calls. \<open>Ops\<close> is the
  loop of \<open>parse_subexpr\<close> over the operators above \<open>limit\<close>, \<open>Args\<close> its inner loop over the arguments of a
  function.
\<close>

datatype routine = Simple | Sub int | Ops int | Args nat

type_synonym routines = "routine \<Rightarrow> string \<Rightarrow> parser \<Rightarrow> (string \<times> parser) parsed"

text \<open>A name: a label, a variable, a function, or an element of an array \<open>name[i]\<close>.\<close>

definition parse_name :: "routines \<Rightarrow> string \<Rightarrow> parser \<Rightarrow> (string \<times> parser) parsed" where
  "parse_name rec p st =
     (let (l, sy) = add_str (syms st) (word_of p);
          st = st\<lparr>syms := sy, parse_cmd := l\<rparr>;
          st = (if search_str sy ''if'' = Some l then st\<lparr>parse_cmd_if := parse_cmd_if st + 1\<rparr> else st);
          p = skip_word p
      in if \<not> is_func st l \<and> peek p 0 = CHR ''[''
         then (case search_str (syms st) ''getelementofarray'' of
             None \<Rightarrow> Overrun
           | Some g \<Rightarrow>
               andthen (rec (Sub (- 1)) (advance 1 p) (emit_name l (emit (add_scriptc C_ARG) (emit_name g st))))
                 (\<lambda>(p, st). let p = skip_space p in
                   if peek p 0 \<noteq> CHR '']'' then Exit else Ok (advance 1 p, emit (add_scriptc C_FUNC) st)))
         else Ok (p, emit_name l st))"

definition simple_body :: "routines \<Rightarrow> string \<Rightarrow> parser \<Rightarrow> (string \<times> parser) parsed" where
  "simple_body rec p st =
     (let p = skip_space p; c = peek p 0 in
      if c = CHR '';'' \<or> c = CHR '','' then Exit
      else if c = CHR ''('' then
        andthen (rec (Sub (- 1)) (advance 1 p) st) (\<lambda>(p, st).
          let p = skip_space p in if peek p 0 \<noteq> CHR '')'' then Exit else Ok (advance 1 p, st))
      else if isdigit c \<or> (c = CHR ''-'' \<or> c = CHR ''+'') \<and> isdigit (peek p 1) then
        (let (i, p) = strtoul p in Ok (p, emit (add_scripti i) st))
      else if c = CHR ''\"'' then
        andthen (string_body c (advance 1 p) (add_scriptc C_STR (code st))) (\<lambda>(co, p). Ok (p, st\<lparr>code := co\<rparr>))
      else parse_name rec p st)"

definition sub_body :: "routines \<Rightarrow> int \<Rightarrow> string \<Rightarrow> parser \<Rightarrow> (string \<times> parser) parsed" where
  "sub_body rec limit p st =
     (let p = skip_space p; q = skip_space (advance 1 p) in
      if peek p 0 = CHR ''-'' \<and> (peek q 0 = CHR '';'' \<or> peek q 0 = CHR '','')
      then Ok (advance 1 p, emit_name LABEL_NEXTLINE st)
      else
        andthen (case unary_op p of
            Some op \<Rightarrow> andthen (rec (Sub 100) (advance 1 p) st) (\<lambda>(p, st). Ok (p, emit (add_scriptc op) st))
          | None \<Rightarrow> rec Simple p st)
        (\<lambda>(p, st). rec (Ops limit) (skip_space p) st))"

definition ops_body :: "routines \<Rightarrow> int \<Rightarrow> string \<Rightarrow> parser \<Rightarrow> (string \<times> parser) parsed" where
  "ops_body rec limit p st =
     (case match_op p of
        None \<Rightarrow> Ok (p, st)
      | Some (op, opl, len) \<Rightarrow>
          (if opl \<le> limit then Ok (p, st)
           else
             andthen (if op = C_FUNC then
                 (if \<not> is_func st (parse_cmd st) then Exit
                  else andthen (rec (Args 0) (advance len p) (emit (add_scriptc C_ARG) st)) (\<lambda>(p, st).
                    if peek p 0 \<noteq> CHR '')'' then Exit else Ok (advance 1 p, st)))
               else rec (Sub opl) (advance len p) st)
             (\<lambda>(p, st). rec (Ops limit) (skip_space p) (emit (add_scriptc op) st))))"

text \<open>The arguments of a function, at most 128. (The end of the last of 128 is written behind \<open>plist\<close>, which only warnings read.)\<close>

definition args_body :: "routines \<Rightarrow> nat \<Rightarrow> string \<Rightarrow> parser \<Rightarrow> (string \<times> parser) parsed" where
  "args_body rec i p st =
     andthen (rec (Sub (- 1)) p st) (\<lambda>(p, st).
       let p = skip_space p; p = skip_space (if peek p 0 = CHR '','' then advance 1 p else p) in
       if p \<noteq> [] \<and> peek p 0 \<noteq> CHR '')'' \<and> i + 1 < 128 then rec (Args (i + 1)) p st else Ok (p, st))"

primrec parse :: "nat \<Rightarrow> routines" where
  "parse 0 = (\<lambda>r p st. No_fuel)"
| "parse (Suc n) = (\<lambda>r p st. case r of
     Simple \<Rightarrow> simple_body (parse n) p st
   | Sub limit \<Rightarrow> sub_body (parse n) limit p st
   | Ops limit \<Rightarrow> ops_body (parse n) limit p st
   | Args i \<Rightarrow> args_body (parse n) i p st)"

text \<open>
  The depth that is always enough for a text (see \<open>ScriptProofs\<close>): the loop over arguments may go round
  128 times without reading anything.
\<close>

definition parse_simpleexpr :: "string \<Rightarrow> parser \<Rightarrow> (string \<times> parser) parsed" where
  "parse_simpleexpr p st = parse (131 * length p + 1) Simple p st"

definition parse_subexpr :: "string \<Rightarrow> int \<Rightarrow> parser \<Rightarrow> (string \<times> parser) parsed" where
  "parse_subexpr p limit st = parse (131 * length p + 2) (Sub limit) p st"

definition parse_expr :: "string \<Rightarrow> parser \<Rightarrow> (string \<times> parser) parsed" where
  "parse_expr p st =
     (if peek p 0 \<in> {CHR '')'', CHR '';'', CHR '':'', CHR ''['', CHR '']'', CHR ''}''} then Exit
      else parse_subexpr p (- 1) st)"

section \<open>Lines and scripts\<close>

text \<open>The arguments of a command; \<open>n\<close> is what is left of the 128. (The end of the last of 128 is written behind \<open>plist\<close>.)\<close>

fun line_args :: "nat \<Rightarrow> string \<Rightarrow> parser \<Rightarrow> (string \<times> parser) parsed" where
  "line_args 0 p st = Ok (p, st)"
| "line_args (Suc n) p st =
     (if p = [] \<or> peek p 0 = CHR '';'' then Ok (p, st)
      else andthen (parse_expr p st) (\<lambda>(p, st).
        let p = skip_space p in line_args n (skip_space (if peek p 0 = CHR '','' then advance 1 p else p)) st))"

definition parse_line :: "string \<Rightarrow> parser \<Rightarrow> (string \<times> parser) parsed" where
  "parse_line p st =
     (let p = skip_space p in
      if peek p 0 = CHR '';'' then Ok (p, st)
      else andthen (parse_simpleexpr p (st\<lparr>parse_cmd_if := 0\<rparr>)) (\<lambda>(p, st).
        andthen (line_args 128 (skip_space p) (emit (add_scriptc C_ARG) st)) (\<lambda>(p, st).
          if peek p 0 \<noteq> CHR '';'' then Exit else Ok (advance 1 p, emit (add_scriptc C_FUNC) st))))"

definition set_entry :: "nat \<Rightarrow> (str_data \<Rightarrow> str_data) \<Rightarrow> symbols \<Rightarrow> symbols" where
  "set_entry l f sy = sy\<lparr>str_data := (str_data sy)[l := f (str_data sy ! l)]\<rparr>"

definition reset_name :: "str_data \<Rightarrow> str_data" where
  "reset_name d = d\<lparr>stype := C_NOP, backpatch := - 1, label := - 1\<rparr>"

definition parser_set_label :: "nat \<Rightarrow> parser \<Rightarrow> parser" where
  "parser_set_label l st = (let (c, sy) = set_label l (int (length (code st))) (code st, syms st)
     in st\<lparr>code := c, syms := sy\<rparr>)"

text \<open>
  The loop over the lines, with the table of the labels as association list. A line \<open>;\<close> is not consumed
  by \<open>parse_line\<close>: the code then loops forever, here until \<open>n\<close> rounds are over.
\<close>

fun parse_lines :: "nat \<Rightarrow> string \<Rightarrow> parser \<Rightarrow> (string \<times> nat) list \<Rightarrow> (parser \<times> (string \<times> nat) list) parsed" where
  "parse_lines 0 p st labels = No_fuel"
| "parse_lines (Suc n) p st labels =
     (if p = [] \<or> peek p 0 = CHR ''}'' then Ok (st, labels)
      else (let p = skip_space p; q = skip_space (skip_word p) in
        if peek q 0 = CHR '':'' then
          (let (l, sy) = add_str (syms st) (word_of p); st = st\<lparr>syms := sy\<rparr> in
           if label (str_data sy ! l) \<noteq> - 1 then Exit
           else parse_lines n (advance 1 q) (parser_set_label l st) ((word_of p, length (code st)) # labels))
        else andthen (parse_line p st) (\<lambda>(p, st).
          let p = skip_space p; st = parser_set_label LABEL_NEXTLINE (emit (add_scriptc C_EOL) st) in
          parse_lines n p (st\<lparr>syms := set_entry LABEL_NEXTLINE reset_name (syms st)\<rparr>) labels)))"

text \<open>At the end of a script every name that is no label becomes a variable.\<close>

definition name_variable :: "nat \<Rightarrow> parser \<Rightarrow> parser" where
  "name_variable i st = (let d = str_data (syms st) ! i in
     if stype d = C_NOP
     then st\<lparr>code := patch_loop (length (code st)) False (int i) (backpatch d) (code st),
       syms := set_entry i (\<lambda>d. d\<lparr>stype := C_NAME, label := int i\<rparr>) (syms st)\<rparr>
     else st)"

definition forget_labels :: "symbols \<Rightarrow> symbols" where
  "forget_labels sy = sy\<lparr>str_data := map (\<lambda>i. let d = str_data sy ! i in
     if i = LABEL_NEXTLINE \<or> LABEL_START \<le> i \<and> (stype d = C_POS \<or> stype d = C_NAME) then reset_name d else d)
     [0..<length (str_data sy)]\<rparr>"

text \<open>The result is the code, with the labels, or nothing when there is no script.\<close>

definition parse_script :: "string \<Rightarrow> symbols \<Rightarrow> (symbols \<times> (int list \<times> (string \<times> nat) list) option) parsed" where
  "parse_script src sy =
     (let p = skip_space src in
      if peek p 0 \<noteq> CHR ''{'' then Ok (sy, None)
      else if peek (skip_space (advance 1 p)) 0 = CHR ''}'' then Ok (sy, None)
      else andthen (parse_lines (length p) (advance 1 p)
          \<lparr>code = [], syms = forget_labels sy, parse_cmd = 0, parse_cmd_if = 0\<rparr> []) (\<lambda>(st, labels).
        let st = emit (add_scriptc C_NOP) st;
            st = fold name_variable [LABEL_START..<length (str_data (syms st))] st
        in Ok (syms st, Some (code st, labels))))"

section \<open>Names known from the start\<close>

text \<open>\<open>add_buildin_func\<close>: the names of the commands; \<open>read_constdb\<close>: constants and parameters.\<close>

definition add_buildin :: "string \<times> nat \<Rightarrow> symbols \<Rightarrow> symbols" where
  "add_buildin f sy = (let (l, sy) = add_str sy (fst f)
     in set_entry l (\<lambda>d. d\<lparr>stype := C_FUNC, sval := int (snd f)\<rparr>) sy)"

definition add_const :: "string \<times> int \<times> int \<Rightarrow> symbols \<Rightarrow> symbols" where
  "add_const c sy = (case c of (name, val, type) \<Rightarrow> (let (l, sy) = add_str sy (map to_lower name)
     in set_entry l (\<lambda>d. d\<lparr>stype := (if type = 0 then C_INT else C_PARAM), sval := val\<rparr>) sy))"

end
