(* ===== verification/ScriptVM.thy ===== *)
theory ScriptVM
  imports ScriptParse Registers
begin

text \<open>
  The machine that runs the code of a script (\<open>get_val\<close> to \<open>buildin_getelementofarray\<close> and \<open>get_com\<close> to
  \<open>run_script\<close> of \<open>src/src/map/script.c\<close>), for a script whose player is attached. The memory of the
  stack is a function on its indices, because the code reads entries above the top and lets the top go
  below 0. A pointer to a script is a number. Commands that are not modelled are a parameter.
\<close>

section \<open>State\<close>

datatype sdata = D_NOP | D_INT int | D_NAME int | D_POS int | D_STR string | D_CONSTSTR string | D_ARG
  | D_RETINFO int

text \<open>
  \<open>Run\<close> is the state 0. \<open>Wild\<close>: the code uses a number as a pointer, an index below 0, or divides the
  least number by -1; what follows is undefined.
\<close>

datatype run_state = Run | Stop | End | Rerunline | Goto | Retfunc | Wild

datatype script_event = Mes string | Next | Close | Menu string | Set_param int int | Dequeue

record script_state =
  mem :: "nat \<Rightarrow> sdata"
  sp :: int
  start :: int
  fin :: int
  pos :: int
  state :: run_state
  script :: int
  defsp :: int
  rerun_pos :: int
  cmdcount :: int
  gotocount :: int
  regs :: registers
  mapr :: mapregs
  menu_or_input :: bool
  npc_menu :: int
  rands :: "int list"
  events :: "script_event list"

record script_env =
  names :: "str_data list"
  scripts :: "int \<Rightarrow> int list"
  userfunc :: "string \<Rightarrow> int option"
  conf :: script_config
  readparam :: "int \<Rightarrow> int"
  other_command :: "string \<Rightarrow> script_state \<Rightarrow> script_state"

definition wild :: "script_state \<Rightarrow> script_state" where
  "wild st = st\<lparr>state := Wild\<rparr>"

definition event :: "script_event \<Rightarrow> script_state \<Rightarrow> script_state" where
  "event e st = st\<lparr>events := events st @ [e]\<rparr>"

definition stack_at :: "script_state \<Rightarrow> int \<Rightarrow> sdata" where
  "stack_at st i = (if i < 0 then D_NOP else mem st (nat i))"

definition put :: "int \<Rightarrow> sdata \<Rightarrow> script_state \<Rightarrow> script_state" where
  "put i d st = (if i < 0 then wild st else st\<lparr>mem := (mem st)(nat i := d)\<rparr>)"

section \<open>Values\<close>

definition name_entry :: "script_env \<Rightarrow> int \<Rightarrow> str_data" where
  "name_entry env n = names env ! nat (n AND 0xffffff)"

definition is_string_name :: "string \<Rightarrow> bool" where
  "is_string_name name \<longleftrightarrow> name \<noteq> [] \<and> last name = CHR ''$''"

definition get_val :: "script_env \<Rightarrow> script_state \<Rightarrow> sdata \<Rightarrow> sdata" where
  "get_val env st d = (case d of
     D_NAME n \<Rightarrow> (let e = name_entry env n; name = sname e; prefix = peek name 0 in
       if is_string_name name then
         D_CONSTSTR (if prefix = CHR ''@'' then (case pc_readregstr (regs st) n of None \<Rightarrow> [] | Some s \<Rightarrow> s)
           else if prefix = CHR ''$'' then (case mapregstr_db (mapr st) n of None \<Rightarrow> [] | Some s \<Rightarrow> s)
           else ''!!ERROR!!'')
       else
         D_INT (if stype e = C_INT then sval e
           else if stype e = C_PARAM then readparam env (sval e)
           else if prefix = CHR ''@'' then pc_readreg (regs st) n
           else if prefix = CHR ''$'' then (case mapreg_db (mapr st) n of None \<Rightarrow> 0 | Some v \<Rightarrow> v)
           else if prefix = CHR ''#'' then
             (if peek name 1 = CHR ''#'' then pc_readaccountreg2 (regs st) name
              else pc_readaccountreg (regs st) name)
           else pc_readglobalreg (regs st) name))
   | _ \<Rightarrow> d)"

definition isstr :: "sdata \<Rightarrow> bool" where
  "isstr d \<longleftrightarrow> (case d of D_STR s \<Rightarrow> True | D_CONSTSTR s \<Rightarrow> True | _ \<Rightarrow> False)"

text \<open>The union read as a number or as a string.\<close>

definition num_of :: "sdata \<Rightarrow> int" where
  "num_of d = (case d of D_INT n \<Rightarrow> n | D_NAME n \<Rightarrow> n | D_POS n \<Rightarrow> n | D_RETINFO n \<Rightarrow> n | _ \<Rightarrow> 0)"

definition str_of :: "sdata \<Rightarrow> string" where
  "str_of d = (case d of D_STR s \<Rightarrow> s | D_CONSTSTR s \<Rightarrow> s | _ \<Rightarrow> [])"

text \<open>\<open>atoi\<close>.\<close>

definition atoi :: "string \<Rightarrow> int" where
  "atoi p = (let p = dropWhile isspace p; neg = (peek p 0 = CHR ''-'');
       q = (if neg \<or> peek p 0 = CHR ''+'' then tl p else p); v = fst (digits 10 0 q)
     in s32 (if neg then max (- v) (- (2 ^ 63)) else min v (2 ^ 63 - 1)))"

definition conv_str :: "script_env \<Rightarrow> script_state \<Rightarrow> sdata \<Rightarrow> sdata" where
  "conv_str env st d = (case get_val env st d of D_INT i \<Rightarrow> D_STR (sprintf_d (s32 i)) | d \<Rightarrow> d)"

definition conv_num :: "script_env \<Rightarrow> script_state \<Rightarrow> sdata \<Rightarrow> sdata" where
  "conv_num env st d = (let d = get_val env st d in if isstr d then D_INT (atoi (str_of d)) else d)"

section \<open>The stack\<close>

definition push_val :: "sdata \<Rightarrow> script_state \<Rightarrow> script_state" where
  "push_val d st = (put (sp st) d st)\<lparr>sp := sp st + 1\<rparr>"

definition push_copy :: "int \<Rightarrow> script_state \<Rightarrow> script_state" where
  "push_copy i st = (if i < 0 then wild st else push_val (stack_at st i) st)"

definition pop_stack :: "int \<Rightarrow> int \<Rightarrow> script_state \<Rightarrow> script_state" where
  "pop_stack a b st =
     (let st' = (if sp st > b
          then (if a < 0 then wild st
            else st\<lparr>mem := (\<lambda>i. if nat a \<le> i \<and> int i < a + (sp st - b) then mem st (nat (int i + (b - a))) else mem st i)\<rparr>)
          else st)
      in st'\<lparr>sp := sp st - (b - a)\<rparr>)"

definition pop_val :: "script_env \<Rightarrow> script_state \<Rightarrow> int \<times> script_state" where
  "pop_val env st =
     (if sp st \<le> 0 then (0, st)
      else (let s = sp st - 1; d = get_val env st (stack_at st s)
        in ((case d of D_INT n \<Rightarrow> s32 n | _ \<Rightarrow> 0), (put s d st)\<lparr>sp := s\<rparr>)))"

section \<open>Operators\<close>

definition s64 :: "int \<Rightarrow> int" where
  "s64 x = signed_take_bit 63 x"

definition op_add :: "script_env \<Rightarrow> script_state \<Rightarrow> script_state" where
  "op_add env st =
     (let s = sp st - 1 in
      if s < 1 then wild st
      else (let d2 = get_val env st (stack_at st s); d1 = get_val env st (stack_at st (s - 1));
          (d2, d1) = (if isstr d2 \<or> isstr d1 then (conv_str env st d2, conv_str env st d1) else (d2, d1));
          st = (put s d2 st)\<lparr>sp := s\<rparr>
        in case d2 of
            D_INT b \<Rightarrow> (case d1 of
                D_INT a \<Rightarrow> put (s - 1) (D_INT (s64 (a + b))) st
              | D_POS a \<Rightarrow> put (s - 1) (D_POS (s64 (a + b))) st
              | D_RETINFO a \<Rightarrow> put (s - 1) (D_RETINFO (s64 (a + b))) st
              | d \<Rightarrow> put (s - 1) d st)
          | _ \<Rightarrow> (if isstr d2 \<and> isstr d1 then put (s - 1) (D_STR (str_of d1 @ str_of d2)) st else wild st)))"

text \<open>\<open>strcmp\<close> on bytes.\<close>

fun strcmp :: "string \<Rightarrow> string \<Rightarrow> int" where
  "strcmp [] [] = 0"
| "strcmp [] (d # t) = - 1"
| "strcmp (c # s) [] = 1"
| "strcmp (c # s) (d # t) = (if byte c = byte d then strcmp s t else if byte c < byte d then - 1 else 1)"

definition op_2str :: "int \<Rightarrow> string \<Rightarrow> string \<Rightarrow> script_state \<Rightarrow> script_state" where
  "op_2str op s1 s2 st = push_val (D_INT
     (if op = C_EQ then of_bool (strcmp s1 s2 = 0)
      else if op = C_NE then of_bool (strcmp s1 s2 \<noteq> 0)
      else if op = C_GT then of_bool (strcmp s1 s2 > 0)
      else if op = C_GE then of_bool (strcmp s1 s2 \<ge> 0)
      else if op = C_LT then of_bool (strcmp s1 s2 < 0)
      else if op = C_LE then of_bool (strcmp s1 s2 \<le> 0)
      else 0)) st"

definition INT_MAX :: int where
  "INT_MAX = 2147483647"

text \<open>The multiplication with its test for an overflow.\<close>

definition script_mul :: "int \<Rightarrow> int \<Rightarrow> int" where
  "script_mul i1 i2 =
     (if i2 \<noteq> 0 \<and> i1 > cdiv INT_MAX i2 \<or> i1 \<noteq> 0 \<and> i2 > cdiv INT_MAX i1 then INT_MAX else s32 (i1 * i2))"

definition division_by_zero :: "script_state \<Rightarrow> script_state" where
  "division_by_zero st =
     (event Close (event (Mes ''Sorry, I am feeling sick. Please call me a Game Master !'') st))\<lparr>state := End\<rparr>"

definition op_2num :: "int \<Rightarrow> int \<Rightarrow> int \<Rightarrow> script_state \<Rightarrow> script_state" where
  "op_2num op i1 i2 st =
     (if op = C_SUB then push_val (D_INT (s32 (i1 - i2))) st
      else if op = C_MUL then push_val (D_INT (script_mul i1 i2)) st
      else if op = C_DIV \<or> op = C_MOD then
        (if i2 = 0 then push_val (D_INT i1) (division_by_zero st)
         else if i2 = - 1 \<and> i1 = - 2147483648 then wild st
         else push_val (D_INT (if op = C_DIV then cdiv i1 i2 else cmod i1 i2)) st)
      else if op = C_AND then push_val (D_INT (i1 AND i2)) st
      else if op = C_OR then push_val (D_INT (i1 OR i2)) st
      else if op = C_XOR then push_val (D_INT (i1 XOR i2)) st
      else if op = C_LAND then push_val (D_INT (of_bool (i1 \<noteq> 0 \<and> i2 \<noteq> 0))) st
      else if op = C_LOR then push_val (D_INT (of_bool (i1 \<noteq> 0 \<or> i2 \<noteq> 0))) st
      else if op = C_EQ then push_val (D_INT (of_bool (i1 = i2))) st
      else if op = C_NE then push_val (D_INT (of_bool (i1 \<noteq> i2))) st
      else if op = C_GT then push_val (D_INT (of_bool (i1 > i2))) st
      else if op = C_GE then push_val (D_INT (of_bool (i1 \<ge> i2))) st
      else if op = C_LT then push_val (D_INT (of_bool (i1 < i2))) st
      else if op = C_LE then push_val (D_INT (of_bool (i1 \<le> i2))) st
      else if i2 < 0 \<or> i2 > 31 then wild st
      else if op = C_R_SHIFT then push_val (D_INT (drop_bit (nat i2) i1)) st
      else push_val (D_INT (s32 (push_bit (nat i2) i1))) st)"

definition op_2 :: "script_env \<Rightarrow> int \<Rightarrow> script_state \<Rightarrow> script_state" where
  "op_2 env op st =
     (let (i2, st) = pop_val env st; d2 = stack_at st (sp st);
          (i1, st) = pop_val env st; d1 = stack_at st (sp st) in
      if sp st < 0 then wild st
      else if isstr d1 \<and> isstr d2 then op_2str op (str_of d1) (str_of d2) st
      else if \<not> isstr d1 \<and> \<not> isstr d2 then op_2num op i1 i2 st
      else push_val (D_INT 0) st)"

definition op_1num :: "script_env \<Rightarrow> int \<Rightarrow> script_state \<Rightarrow> script_state" where
  "op_1num env op st =
     (let (i1, st) = pop_val env st
      in push_val (D_INT (if op = C_NEG then s32 (- i1) else if op = C_NOT then NOT i1 else of_bool (i1 = 0))) st)"

section \<open>Variables\<close>

text \<open>The value goes into the variable by the kind of its name; an \<open>int\<close> parameter cuts it.\<close>

definition set_reg :: "script_env \<Rightarrow> int \<Rightarrow> string \<Rightarrow> sdata \<Rightarrow> script_state \<Rightarrow> script_state" where
  "set_reg env num name v st =
     (let prefix = peek name 0 in
      if is_string_name name then
        (if prefix = CHR ''@'' then st\<lparr>regs := pc_setregstr (regs st) num (str_of v)\<rparr>
         else if prefix = CHR ''$'' then st\<lparr>mapr := mapreg_setregstr (mapr st) num (str_of v)\<rparr>
         else st)
      else if stype (name_entry env num) = C_PARAM then event (Set_param (sval (name_entry env num)) (num_of v)) st
      else if prefix = CHR ''@'' then st\<lparr>regs := pc_setreg (regs st) num (num_of v)\<rparr>
      else if prefix = CHR ''$'' then st\<lparr>mapr := mapreg_setreg (mapr st) num (num_of v)\<rparr>
      else if prefix = CHR ''#'' then
        (if peek name 1 = CHR ''#'' then st\<lparr>regs := pc_setaccountreg2 (regs st) name (s32 (num_of v))\<rparr>
         else st\<lparr>regs := pc_setaccountreg (regs st) name (s32 (num_of v))\<rparr>)
      else st\<lparr>regs := pc_setglobalreg (conf env) (regs st) name (s32 (num_of v))\<rparr>)"

section \<open>Commands\<close>

text \<open>The \<open>k\<close>-th entry of a call is converted in place; the arguments begin with \<open>k = 2\<close>.\<close>

definition arg :: "script_state \<Rightarrow> int \<Rightarrow> sdata" where
  "arg st k = stack_at st (start st + k)"

definition conv_arg_num :: "script_env \<Rightarrow> int \<Rightarrow> script_state \<Rightarrow> script_state" where
  "conv_arg_num env k st = put (start st + k) (conv_num env st (arg st k)) st"

definition conv_arg_str :: "script_env \<Rightarrow> int \<Rightarrow> script_state \<Rightarrow> script_state" where
  "conv_arg_str env k st =
     (let d = conv_str env st (arg st k); st = put (start st + k) d st in if isstr d then st else wild st)"

definition buildin_mes :: "script_env \<Rightarrow> script_state \<Rightarrow> script_state" where
  "buildin_mes env st = (let st = conv_arg_str env 2 st in event (Mes (str_of (arg st 2))) st)"

definition buildin_goto :: "script_env \<Rightarrow> script_state \<Rightarrow> script_state" where
  "buildin_goto env st = (case arg st 2 of
     D_POS n \<Rightarrow> st\<lparr>pos := s32 n, state := Goto\<rparr>
   | _ \<Rightarrow> st\<lparr>state := End\<rparr>)"

definition copy_args :: "int \<Rightarrow> script_state \<Rightarrow> script_state" where
  "copy_args k st = fold push_copy [start st + k..fin st - 1] st"

text \<open>
  What \<open>callfunc\<close> and \<open>callsub\<close> leave on the stack: the arguments, their number, the old base of
  the stack, the script and the position to return to.
\<close>

definition push_frame :: "script_state \<Rightarrow> script_state" where
  "push_frame st =
     (let j = max 0 (fin st - (start st + 3)); p = pos st; scr = script st; b = defsp st; st = copy_args 3 st;
          st = push_val (D_RETINFO p) (push_val (D_INT scr) (push_val (D_INT b) (push_val (D_INT j) st)))
      in st\<lparr>defsp := start st + 4 + j\<rparr>)"

definition buildin_callfunc :: "script_env \<Rightarrow> script_state \<Rightarrow> script_state" where
  "buildin_callfunc env st =
     (let st = conv_arg_str env 2 st in
      case userfunc env (str_of (arg st 2)) of
        Some scr \<Rightarrow> (push_frame st)\<lparr>pos := 0, script := scr, state := Goto\<rparr>
      | None \<Rightarrow> st\<lparr>state := End\<rparr>)"

definition buildin_callsub :: "script_env \<Rightarrow> script_state \<Rightarrow> script_state" where
  "buildin_callsub env st =
     (let st = conv_arg_num env 2 st; p = s32 (num_of (arg st 2))
      in (push_frame st)\<lparr>pos := p, state := Goto\<rparr>)"

definition is_retinfo :: "sdata \<Rightarrow> bool" where
  "is_retinfo d \<longleftrightarrow> (case d of D_RETINFO n \<Rightarrow> True | _ \<Rightarrow> False)"

definition buildin_getarg :: "script_env \<Rightarrow> script_state \<Rightarrow> script_state" where
  "buildin_getarg env st =
     (let st = conv_arg_num env 2 st; num = s32 (num_of (arg st 2)) in
      if defsp st < 4 \<or> \<not> is_retinfo (stack_at st (defsp st - 1)) then st\<lparr>state := End\<rparr>
      else (let d = conv_num env st (stack_at st (defsp st - 4)); st = put (defsp st - 4) d st;
              mx = s32 (num_of d); stsp = defsp st - mx - 4 in
        if num \<ge> mx then st\<lparr>state := End\<rparr> else push_copy (stsp + num) st))"

definition buildin_return :: "script_state \<Rightarrow> script_state" where
  "buildin_return st =
     (if fin st > start st + 2 then push_copy (start st + 2) st else st)\<lparr>state := Retfunc\<rparr>"

definition buildin_next :: "script_state \<Rightarrow> script_state" where
  "buildin_next st = event Next (st\<lparr>state := Stop\<rparr>)"

definition buildin_close :: "script_state \<Rightarrow> script_state" where
  "buildin_close st = event Close (st\<lparr>state := End\<rparr>)"

definition buildin_close2 :: "script_state \<Rightarrow> script_state" where
  "buildin_close2 st = event Close (st\<lparr>state := Stop\<rparr>)"

definition buildin_end :: "script_state \<Rightarrow> script_state" where
  "buildin_end st = st\<lparr>state := End\<rparr>"

text \<open>The first entry of the name table whose number \<open>add_str\<close> would give.\<close>

definition reg_number :: "script_env \<Rightarrow> string \<Rightarrow> int" where
  "reg_number env name = (case lookup_name (names env) name of Some l \<Rightarrow> int l | None \<Rightarrow> int (length (names env)))"

text \<open>Every second argument from the first one on is an entry of the menu, the one after it its label.\<close>

definition menu_text :: "script_env \<Rightarrow> script_state \<Rightarrow> string \<times> script_state" where
  "menu_text env st =
     fold (\<lambda>k (buf, st). let st = conv_arg_str env k st in (buf @ str_of (arg st k) @ '':'', st))
       (filter (\<lambda>k. k mod 2 = 0) [2..fin st - start st - 1]) ([], st)"

definition buildin_menu :: "script_env \<Rightarrow> script_state \<Rightarrow> script_state" where
  "buildin_menu env st =
     (if \<not> menu_or_input st then
        (let (buf, st) = menu_text env (st\<lparr>state := Rerunline, menu_or_input := True\<rparr>) in event (Menu buf) st)
      else if npc_menu st = 0xff then st\<lparr>menu_or_input := False, state := End\<rparr>
      else
        (let r = pc_setreg (pc_setreg (regs st) (reg_number env ''l15'') (npc_menu st))
               (reg_number env ''@menu'') (npc_menu st);
             st = st\<lparr>regs := r, menu_or_input := False\<rparr> in
         if npc_menu st > 0 \<and> npc_menu st < cdiv (fin st - start st) 2 then
           (case arg st (npc_menu st * 2 + 1) of
              D_POS n \<Rightarrow> st\<lparr>pos := s32 n, state := Goto\<rparr>
            | _ \<Rightarrow> st\<lparr>state := End\<rparr>)
         else st))"

text \<open>A range of 0 divides by zero.\<close>

definition buildin_rand :: "script_env \<Rightarrow> script_state \<Rightarrow> script_state" where
  "buildin_rand env st =
     (let r = (case rands st of [] \<Rightarrow> 0 | r # rs \<Rightarrow> r); st = conv_arg_num env 2 (st\<lparr>rands := tl (rands st)\<rparr>) in
      if fin st > start st + 3 then
        (let st = conv_arg_num env 3 st; a = s32 (num_of (arg st 2)); b = s32 (num_of (arg st 3));
             mn = min a b; range = s32 (max a b - mn + 1)
         in if range = 0 then wild st else push_val (D_INT (s32 (cmod r range + mn))) st)
      else (let range = s32 (num_of (arg st 2))
        in if range = 0 then wild st else push_val (D_INT (cmod r range)) st))"

definition set_var :: "script_env \<Rightarrow> int \<Rightarrow> int \<Rightarrow> script_state \<Rightarrow> script_state" where
  "set_var env num k st = (let name = sname (name_entry env num);
       st = (if is_string_name name then conv_arg_str env k st else conv_arg_num env k st)
     in set_reg env num name (arg st k) st)"

definition buildin_set :: "script_env \<Rightarrow> script_state \<Rightarrow> script_state" where
  "buildin_set env st = (case arg st 2 of D_NAME n \<Rightarrow> set_var env (s32 n) 3 st | _ \<Rightarrow> st)"

definition array_scope :: "string \<Rightarrow> bool" where
  "array_scope name \<longleftrightarrow> peek name 0 = CHR ''$'' \<or> peek name 0 = CHR ''@''"

definition element :: "int \<Rightarrow> int \<Rightarrow> int" where
  "element num j = s32 (num + push_bit 24 j)"

definition buildin_setarray :: "script_env \<Rightarrow> script_state \<Rightarrow> script_state" where
  "buildin_setarray env st =
     (let num = s32 (num_of (arg st 2)) in
      if \<not> array_scope (sname (name_entry env num)) then st
      else fold (\<lambda>j st. let name = sname (name_entry env num);
            st = (if is_string_name name then conv_arg_str env (3 + j) st else conv_arg_num env (3 + j) st)
          in set_reg env (element num j) name (arg st (3 + j)) st)
        [0..min (fin st - start st - 3) 128 - 1] st)"

definition buildin_cleararray :: "script_env \<Rightarrow> script_state \<Rightarrow> script_state" where
  "buildin_cleararray env st =
     (let num = s32 (num_of (arg st 2)); name = sname (name_entry env num);
          st = conv_arg_num env 4 st; sz = s32 (num_of (arg st 4)) in
      if \<not> array_scope name then st
      else (let st = (if is_string_name name then conv_arg_str env 3 st else conv_arg_num env 3 st); v = arg st 3
        in fold (\<lambda>i st. set_reg env (element num i) name v st) [0..sz - 1] st))"

definition buildin_getelementofarray :: "script_env \<Rightarrow> script_state \<Rightarrow> script_state" where
  "buildin_getelementofarray env st = (case arg st 2 of
     D_NAME n \<Rightarrow>
       (let st = conv_arg_num env 3 st; i = s32 (num_of (arg st 3)) in
        if i > 127 \<or> i < 0 then push_val (D_INT 0) st
        else push_val (D_NAME (push_bit 24 i OR n)) st)
   | _ \<Rightarrow> push_val (D_INT 0) st)"

section \<open>Calls\<close>

fun last_arg :: "(nat \<Rightarrow> sdata) \<Rightarrow> nat \<Rightarrow> int" where
  "last_arg m 0 = - 1"
| "last_arg m (Suc n) = (if m n = D_ARG then int n else last_arg m n)"

text \<open>The end of a subroutine: the frame below \<open>defsp\<close> is read and removed.\<close>

definition return_frame :: "script_env \<Rightarrow> int \<Rightarrow> script_state \<Rightarrow> script_state" where
  "return_frame env start_sp st =
     (let olddefsp = defsp st; st = pop_stack (defsp st) start_sp st in
      if defsp st < 4 \<or> \<not> is_retinfo (stack_at st (defsp st - 1)) then st\<lparr>state := End\<rparr>
      else
        (let n = conv_num env st (stack_at st (defsp st - 4));
             p = conv_num env st (stack_at st (defsp st - 1));
             scr = conv_num env st (stack_at st (defsp st - 2));
             b = conv_num env st (stack_at st (defsp st - 3));
             st = st\<lparr>pos := s32 (num_of p), script := num_of scr, defsp := s32 (num_of b)\<rparr>;
             st = pop_stack (olddefsp - 4 - s32 (num_of n)) olddefsp st
         in st\<lparr>state := Goto\<rparr>))"

text \<open>\<open>call\<close> is \<open>run_func\<close> itself, which \<open>buildin_if\<close> calls again.\<close>

definition buildin_if :: "(script_state \<Rightarrow> script_state) \<Rightarrow> script_env \<Rightarrow> script_state \<Rightarrow> script_state" where
  "buildin_if call env st =
     (let st = conv_arg_num env 2 st in
      if s32 (num_of (arg st 2)) = 0 then st
      else (let st = push_val D_ARG (push_copy (start st + 3) st) in call (copy_args 4 st)))"

definition command :: "(script_state \<Rightarrow> script_state) \<Rightarrow> script_env \<Rightarrow> string \<Rightarrow> script_state \<Rightarrow> script_state" where
  "command call env name st =
     (if name = ''mes'' then buildin_mes env st
      else if name = ''goto'' then buildin_goto env st
      else if name = ''callfunc'' then buildin_callfunc env st
      else if name = ''callsub'' then buildin_callsub env st
      else if name = ''getarg'' then buildin_getarg env st
      else if name = ''return'' then buildin_return st
      else if name = ''next'' then buildin_next st
      else if name = ''close'' then buildin_close st
      else if name = ''close2'' then buildin_close2 st
      else if name = ''end'' \<or> name = ''break'' then buildin_end st
      else if name = ''menu'' then buildin_menu env st
      else if name = ''rand'' then buildin_rand env st
      else if name = ''if'' then buildin_if call env st
      else if name = ''set'' then buildin_set env st
      else if name = ''setarray'' then buildin_setarray env st
      else if name = ''cleararray'' then buildin_cleararray env st
      else if name = ''getelementofarray'' then buildin_getelementofarray env st
      else other_command env name st)"

text \<open>\<open>n\<close> bounds the depth of \<open>if\<close> commands in each other; each has two arguments less than the one around it.\<close>

fun run_func_n :: "nat \<Rightarrow> script_env \<Rightarrow> script_state \<Rightarrow> script_state" where
  "run_func_n 0 env st = wild st"
| "run_func_n (Suc n) env st =
     (let end_sp = sp st; i = last_arg (mem st) (nat end_sp) in
      if i = 0 then st\<lparr>state := End\<rparr>
      else if i < 0 then wild st
      else
        (let start_sp = i - 1; st = st\<lparr>start := start_sp, fin := end_sp\<rparr> in
         case stack_at st start_sp of
           D_NAME f \<Rightarrow>
             (if nat f \<ge> length (names env) then wild st
              else if stype (names env ! nat f) \<noteq> C_FUNC then st\<lparr>state := End\<rparr>
              else
                (let st = pop_stack start_sp end_sp (command (run_func_n n env) env (sname (names env ! nat f)) st)
                 in if state st = Retfunc then return_frame env start_sp st else st))
         | _ \<Rightarrow> st\<lparr>state := End\<rparr>))"

definition run_func :: "script_env \<Rightarrow> script_state \<Rightarrow> script_state" where
  "run_func env st = run_func_n (nat (sp st) + 1) env st"

section \<open>The loop\<close>

definition script_string :: "int list \<Rightarrow> nat \<Rightarrow> string" where
  "script_string bytes p = map (\<lambda>b. char_of (nat b)) (takeWhile (\<lambda>b. b \<noteq> 0) (drop p bytes))"

text \<open>A call that goes somewhere else counts against \<open>gotocount\<close>.\<close>

definition after_call :: "script_state \<Rightarrow> script_state" where
  "after_call st =
     (if state st = Goto then
        (let st = st\<lparr>rerun_pos := pos st, state := Run\<rparr> in
         if gotocount st > 0
         then (let st = st\<lparr>gotocount := gotocount st - 1\<rparr> in if gotocount st \<le> 0 then st\<lparr>state := End\<rparr> else st)
         else st)
      else st)"

definition vm_command :: "script_env \<Rightarrow> script_state \<Rightarrow> script_state" where
  "vm_command env st =
     (let bytes = scripts env (script st); (c, p) = get_com bytes (nat (pos st)); st = st\<lparr>pos := int p\<rparr> in
      if c = C_EOL then (if sp st \<noteq> defsp st then st\<lparr>sp := defsp st\<rparr> else st)\<lparr>rerun_pos := pos st\<rparr>
      else if c = C_INT then (let (n, p) = get_num bytes p in push_val (D_INT n) (st\<lparr>pos := int p\<rparr>))
      else if c = C_POS then push_val (D_POS (rd3 bytes p)) (st\<lparr>pos := int p + 3\<rparr>)
      else if c = C_NAME then push_val (D_NAME (rd3 bytes p)) (st\<lparr>pos := int p + 3\<rparr>)
      else if c = C_ARG then push_val D_ARG st
      else if c = C_STR then
        (let s = script_string bytes p in push_val (D_CONSTSTR s) (st\<lparr>pos := int p + int (length s) + 1\<rparr>))
      else if c = C_FUNC then after_call (run_func env st)
      else if c = C_ADD then op_add env st
      else if C_LOR \<le> c \<and> c \<le> C_MOD \<or> c = C_R_SHIFT \<or> c = C_L_SHIFT then op_2 env c st
      else if c = C_NEG \<or> c = C_NOT \<or> c = C_LNOT then op_1num env c st
      else st\<lparr>state := End\<rparr>)"

definition count_command :: "script_state \<Rightarrow> script_state" where
  "count_command st =
     (if cmdcount st > 0
      then (let st = st\<lparr>cmdcount := cmdcount st - 1\<rparr> in if cmdcount st \<le> 0 then st\<lparr>state := End\<rparr> else st)
      else st)"

definition vm_round :: "script_env \<Rightarrow> script_state \<Rightarrow> script_state" where
  "vm_round env st = count_command (vm_command env st)"

partial_function (option) vm_loop :: "script_env \<Rightarrow> script_state \<Rightarrow> script_state option" where
  "vm_loop env st = (if state st \<noteq> Run then Some st else vm_loop env (vm_round env st))"

declare vm_loop.simps [code]

text \<open>Before and after the loop; a script that has not ended leaves its state with the player.\<close>

definition start_script :: "script_env \<Rightarrow> script_state \<Rightarrow> script_state" where
  "start_script env st = st\<lparr>cmdcount := check_cmdcount (conf env), gotocount := check_gotocount (conf env),
     defsp := sp st, rerun_pos := pos st, state := Run\<rparr>"

text \<open>At the end the event \<open>Dequeue\<close> is recorded; the code asks for it when the player still talks to the NPC of the script.\<close>

definition finish_script :: "script_state \<Rightarrow> script_state" where
  "finish_script st =
     (if state st = End then event Dequeue (st\<lparr>pos := - 1\<rparr>)
      else if state st = Rerunline then st\<lparr>pos := rerun_pos st\<rparr>
      else st)"

definition run_script_main :: "script_env \<Rightarrow> script_state \<Rightarrow> script_state option" where
  "run_script_main env st = map_option finish_script (vm_loop env (start_script env st))"

text \<open>
  \<open>run_script\<close>: a player who talks to an NPC has the stack and the script saved when the script stopped,
  with the script it began with.
\<close>

record npc_talk =
  npc_stackbuf :: "nat \<Rightarrow> sdata"
  npc_stack :: int
  npc_script :: int
  npc_scriptroot :: int

definition run_script :: "script_env \<Rightarrow> int \<Rightarrow> int \<Rightarrow> script_state \<Rightarrow> npc_talk option \<Rightarrow>
    (int \<times> script_state \<times> npc_talk option) option" where
  "run_script env scr p st saved =
     (if p < 0 then Some (- 1, st, saved)
      else
        (let resume = (case saved of None \<Rightarrow> False | Some t \<Rightarrow> npc_scriptroot t = scr);
             st0 = (case saved of
               Some t \<Rightarrow> (if npc_scriptroot t = scr
                 then st\<lparr>mem := npc_stackbuf t, sp := npc_stack t, script := npc_script t\<rparr>
                 else st\<lparr>mem := (\<lambda>_. D_NOP), sp := 0, script := scr\<rparr>)
             | None \<Rightarrow> st\<lparr>mem := (\<lambda>_. D_NOP), sp := 0, script := scr\<rparr>)
         in case run_script_main env (st0\<lparr>pos := p\<rparr>) of
            None \<Rightarrow> None
          | Some st' \<Rightarrow> Some (pos st', st',
              if state st' = End then (if resume then None else saved)
              else Some \<lparr>npc_stackbuf = mem st', npc_stack = sp st', npc_script = script st',
                npc_scriptroot = scr\<rparr>)))"

end
