(* ===== verification/ScriptProofs.thy ===== *)
theory ScriptProofs
  imports ScriptVM
begin

text \<open>
  The parser of expressions: the depth bound of its definition is enough for every text, and a printed
  expression, with parentheses only where the precedences need them, is parsed to the code of a reference
  compiler.
\<close>

declare One_nat_def [simp del]

section \<open>The depth of the parser\<close>

text \<open>Enough depth: the result is not \<open>No_fuel\<close>, and the rest of the text is not longer than the text.\<close>

definition fine :: "string \<Rightarrow> (string \<times> 'a) parsed \<Rightarrow> bool" where
  "fine p r = (case r of No_fuel \<Rightarrow> False | Ok (p', st) \<Rightarrow> length p' \<le> length p | _ \<Rightarrow> True)"

lemma fine_simps [simp]:
  "fine p (Ok (p', st)) \<longleftrightarrow> length p' \<le> length p" "fine p Exit" "fine p Overrun" "\<not> fine p No_fuel"
  by (simp_all add: fine_def)

lemma fine_andthen:
  assumes "fine q r" "length q \<le> length p"
    and "\<And>p' st'. r = Ok (p', st') \<Longrightarrow> length p' \<le> length q \<Longrightarrow> fine p (f (p', st'))"
  shows "fine p (andthen r f)"
  using assms by (cases r) (auto simp: andthen_def)

lemma fine_longer: "fine q r \<Longrightarrow> length q \<le> length p \<Longrightarrow> fine p r"
  by (cases r) (auto simp: fine_def)

lemma length_skip_space: "length (skip_space p) \<le> length p"
proof (induction p rule: skip_space.induct)
  case (1 p)
  define q where "q = dropWhile isspace p"
  have q: "length q \<le> length p" unfolding q_def by (rule length_dropWhile_le)
  consider "peek q 0 = CHR ''/'' \<and> peek q 1 = CHR ''/''" | "peek q 0 = CHR ''/'' \<and> peek q 1 = CHR ''*''"
    | "\<not> (peek q 0 = CHR ''/'' \<and> peek q 1 = CHR ''/'')" "\<not> (peek q 0 = CHR ''/'' \<and> peek q 1 = CHR ''*'')" by blast
  then show ?case
  proof cases
    case 1
    then show ?thesis
      using "1.IH"(1) [OF q_def] length_dropWhile_le [of "\<lambda>c. c \<noteq> CHR 0x0A" q] q
      by (subst skip_space.simps) (simp add: Let_def q_def [symmetric])
  next
    case 2
    then show ?thesis
      using "1.IH"(2) [OF q_def] length_comment_end [of "CHR ''/''" "tl q"] q
      by (subst skip_space.simps) (auto simp: Let_def q_def [symmetric])
  next
    case 3
    then show ?thesis using q by (subst skip_space.simps) (auto simp: Let_def q_def [symmetric])
  qed
qed

lemma length_skip_one: "length (skip_one c p) \<le> length p"
  by (simp add: skip_one_def)

lemma length_word_chars: "length (word_chars p) \<le> length p"
  by (induction p rule: word_chars.induct) auto

lemma length_skip_word: "length (skip_word p) \<le> length p"
  unfolding skip_word_def by (intro order.trans [OF length_skip_one] order.trans [OF length_word_chars] order.refl length_skip_one)

lemma length_strtoul: "length (snd (strtoul p)) \<le> length p"
proof -
  define q where "q = (if peek p 0 = CHR ''-'' \<or> peek p 0 = CHR ''+'' then tl p else p)"
  have q: "length q \<le> length p" by (simp add: q_def)
  have "\<exists>b r. snd (strtoul p) = snd (digits b 0 r) \<and> length r \<le> length q"
    unfolding strtoul_def Let_def q_def [symmetric]
    by (auto simp: advance_def split: prod.split) (metis snd_conv order.refl diff_le_self length_drop)+
  then show ?thesis using q length_digits by (metis le_trans)
qed

definition shrinks :: "string \<Rightarrow> ('a \<times> string) parsed \<Rightarrow> bool" where
  "shrinks p r = (case r of No_fuel \<Rightarrow> False | Ok (c, p') \<Rightarrow> length p' < length p | _ \<Rightarrow> True)"

lemma shrinks_simps [simp]:
  "shrinks p (Ok (c, p')) \<longleftrightarrow> length p' < length p" "shrinks p Exit" "shrinks p Overrun" "\<not> shrinks p No_fuel"
  by (simp_all add: shrinks_def)

lemma shrinks_longer: "shrinks q r \<Longrightarrow> length q \<le> length p \<Longrightarrow> shrinks p r"
  by (cases r) (auto simp: shrinks_def)

lemma shrinks_string_body: "shrinks p (string_body prev p co)"
proof (induction prev p co rule: string_body.induct)
  case (2 prev c p co)
  show ?case
  proof (cases p)
    case Nil
    then show ?thesis by simp
  next
    case (Cons d p')
    have "shrinks (c # p) (string_body d p' (add_scriptb (int (byte d)) co))"
      if "c \<noteq> CHR ''\"''" "byte prev \<le> 0x7e \<and> c = CHR 0x5C"
      using 2(1) [OF that Cons] by (rule shrinks_longer) (simp add: Cons)
    moreover have "shrinks (c # p) (string_body c p (add_scriptb (int (byte c)) co))"
      if "c \<noteq> CHR ''\"''" "\<not> (byte prev \<le> 0x7e \<and> c = CHR 0x5C)" "c \<noteq> CHR 0x0A"
      using 2(2) [OF that] by (rule shrinks_longer) simp
    ultimately show ?thesis
      unfolding string_body.simps(2) by (simp add: Cons)
  qed
qed simp

lemma peek_nonempty: "peek p 0 = c \<Longrightarrow> c \<noteq> NUL \<Longrightarrow> p \<noteq> []"
  by (auto simp: peek_def)

lemma advance_shorter: "p \<noteq> [] \<Longrightarrow> 0 < n \<Longrightarrow> length (advance n p) < length p"
  by (simp add: advance_def)

lemma advance_le: "length (advance n p) \<le> length p"
  by (simp add: advance_def)

lemma advance_leD: "n \<le> length (advance k p) \<Longrightarrow> n \<le> length p"
  by (rule le_trans [OF _ advance_le])

fun need :: "routine \<Rightarrow> string \<Rightarrow> nat" where
  "need Simple p = 131 * length p + 1"
| "need (Sub limit) p = 131 * length p + 2"
| "need (Ops limit) p = 131 * length p + 1"
| "need (Args i) p = 131 * length p + 3 + (128 - i)"

lemma fine_rec:
  assumes "\<And>r q st. need r q \<le> n \<Longrightarrow> fine q (rec r q st)" "need r q \<le> n" "length q \<le> length p"
  shows "fine p (rec r q st)"
  using fine_longer [OF assms(1) [OF assms(2)] assms(3)] .

lemma fine_name:
  assumes rec: "\<And>r q st. need r q \<le> n \<Longrightarrow> fine q (rec r q st)" and n: "131 * length p \<le> n"
  shows "fine p (parse_name rec p st)"
proof -
  have sw: "length (skip_word p) \<le> length p" by (rule length_skip_word)
  have sub: "fine (advance 1 (skip_word p)) (rec (Sub (- 1)) (advance 1 (skip_word p)) st')"
    if "peek (skip_word p) 0 = CHR ''[''" for st'
    using advance_shorter [of "skip_word p" 1] peek_nonempty [OF that] sw n by (intro rec) (simp add: NUL_def)
  show ?thesis
    unfolding parse_name_def
    by (auto simp: Let_def sw split: prod.split option.split
      intro!: fine_andthen [OF sub] order.trans [OF advance_le] order.trans [OF length_skip_space]
        order.trans [OF _ sw] dest: advance_leD)
qed

lemma fine_simple:
  assumes rec: "\<And>r q st. need r q \<le> n \<Longrightarrow> fine q (rec r q st)" and n: "need Simple p \<le> Suc n"
  shows "fine p (simple_body rec p st)"
proof -
  define q where "q = skip_space p"
  have q: "length q \<le> length p" by (simp add: q_def length_skip_space)
  have name: "fine p (parse_name rec q st)"
    using fine_longer [OF fine_name [OF rec] q] n q by simp
  have sub: "fine (advance 1 q) (rec (Sub (- 1)) (advance 1 q) st)" if "peek q 0 = CHR ''(''"
    using advance_shorter [of q 1] peek_nonempty [OF that] q n by (intro rec) (simp add: NUL_def)
  have num: "fine p (let (i, p) = strtoul q in Ok (p, emit (add_scripti i) st))"
    using length_strtoul [of q] q by (auto split: prod.split)
  have str: "fine p (andthen (string_body c (advance 1 q) co) (\<lambda>(co, p). Ok (p, st\<lparr>code := co\<rparr>)))" for c co
    using shrinks_string_body [of "advance 1 q" c co] q advance_le [of 1 q]
    by (cases "string_body c (advance 1 q) co") (auto simp: andthen_def)
  show ?thesis
    unfolding simple_body_def q_def [symmetric] Let_def [where s = q]
    by (auto simp: Let_def name str num [unfolded Let_def]
      intro!: fine_andthen [OF sub] order.trans [OF advance_le] order.trans [OF length_skip_space]
        order.trans [OF _ q] dest: advance_leD)
qed

lemma fine_sub:
  assumes rec: "\<And>r q st. need r q \<le> n \<Longrightarrow> fine q (rec r q st)" and n: "need (Sub l) p \<le> Suc n"
  shows "fine p (sub_body rec l p st)"
proof -
  define q where "q = skip_space p"
  have q: "length q \<le> length p" by (simp add: q_def length_skip_space)
  have simple: "fine q (rec Simple q st)" using n q by (intro rec) simp
  have un: "fine q (andthen (rec (Sub 100) (advance 1 q) st) (\<lambda>(p, st). Ok (p, emit (add_scriptc op) st)))"
    if "unary_op q = Some op" for op
  proof (rule fine_andthen)
    have "q \<noteq> []" using that by (auto simp: unary_op_def peek_def NUL_def)
    then show "fine (advance 1 q) (rec (Sub 100) (advance 1 q) st)"
      using advance_shorter [of q 1] q n by (intro rec) simp
  qed (auto intro: order.trans [OF _ advance_le] simp: advance_le)
  have ops: "fine p (rec (Ops l) (skip_space p') st')" if "length p' \<le> length q" for p' st'
    using that q n length_skip_space [of p'] by (intro fine_rec [OF rec]) auto
  show ?thesis
    unfolding sub_body_def q_def [symmetric] Let_def
    by (auto simp: un simple intro!: fine_andthen [OF _ q] ops order.trans [OF advance_le] q split: option.split)
qed

lemma fine_ops:
  assumes rec: "\<And>r q st. need r q \<le> n \<Longrightarrow> fine q (rec r q st)" and n: "need (Ops l) p \<le> Suc n"
  shows "fine p (ops_body rec l p st)"
proof (cases "match_op p")
  case (Some m)
  obtain op opl len where m: "m = (op, opl, len)" by (cases m)
  define q where "q = advance len p"
  have "p \<noteq> []" "0 < len"
    using Some m by (auto simp: match_op_def peek_def NUL_def Let_def split: if_splits)
  then have q: "length q < length p" unfolding q_def by (rule advance_shorter)
  have sub: "fine q (rec (Sub opl) q st')" for st' using q n by (intro rec) simp
  have args: "fine q (rec (Args 0) q st')" for st' using q n by (intro rec) simp
  have ops: "fine p (rec (Ops l) (skip_space p') st')" if "length p' \<le> length q" for p' st'
    using that q n length_skip_space [of p'] by (intro fine_rec [OF rec]) auto
  show ?thesis
    unfolding ops_body_def Some m option.case prod.case q_def [symmetric]
    by (auto intro!: fine_andthen [where q = q] sub args ops order.trans [OF advance_le] less_imp_le [OF q])
qed (simp add: ops_body_def)

lemma fine_args:
  assumes rec: "\<And>r q st. need r q \<le> n \<Longrightarrow> fine q (rec r q st)" and n: "need (Args i) p \<le> Suc n"
  shows "fine p (args_body rec i p st)"
proof -
  have sub: "fine p (rec (Sub (- 1)) p st)" using n by (intro rec) simp
  have again: "fine p (rec (Args (i + 1)) q st')" if "length q \<le> length p" "i + 1 < 128" for q st'
    using that n by (intro fine_rec [OF rec]) auto
  show ?thesis
    unfolding args_body_def
    by (auto simp: Let_def intro!: fine_andthen [OF sub] again order.trans [OF length_skip_space]
      order.trans [OF advance_le])
qed

lemma parse_Suc: "parse (Suc n) r p st = (case r of
     Simple \<Rightarrow> simple_body (parse n) p st
   | Sub limit \<Rightarrow> sub_body (parse n) limit p st
   | Ops limit \<Rightarrow> ops_body (parse n) limit p st
   | Args i \<Rightarrow> args_body (parse n) i p st)"
  by simp

declare parse.simps(2) [simp del]

lemma parse_fine: "need r p \<le> n \<Longrightarrow> fine p (parse n r p st)"
proof (induction n arbitrary: r p st)
  case 0
  then show ?case by (cases r) auto
next
  case (Suc n)
  then show ?case
    by (cases r) (auto simp: parse_Suc intro: fine_simple fine_sub fine_ops fine_args simp del: need.simps)
qed

text \<open>More depth than enough does not change the result.\<close>

definition up_to_fuel :: "'a parsed \<Rightarrow> 'a parsed \<Rightarrow> bool" where
  "up_to_fuel a b \<longleftrightarrow> a = No_fuel \<or> a = b"

lemma up_to_fuel_andthen:
  "up_to_fuel a b \<Longrightarrow> (\<And>x. up_to_fuel (f x) (g x)) \<Longrightarrow> up_to_fuel (andthen a f) (andthen b g)"
  unfolding up_to_fuel_def andthen_def by (elim disjE) (auto split: parsed.split)

lemma up_to_fuel_refl: "up_to_fuel a a"
  by (simp add: up_to_fuel_def)

lemma up_to_fuel_bodies:
  assumes "\<And>r p st. up_to_fuel (rec r p st) (rec' r p st)"
  shows "up_to_fuel (parse_name rec p st) (parse_name rec' p st)"
    and "up_to_fuel (simple_body rec p st) (simple_body rec' p st)"
    and "up_to_fuel (sub_body rec l p st) (sub_body rec' l p st)"
    and "up_to_fuel (ops_body rec l p st) (ops_body rec' l p st)"
    and "up_to_fuel (args_body rec i p st) (args_body rec' i p st)"
proof -
  note intros = up_to_fuel_andthen up_to_fuel_refl assms
  show name: "up_to_fuel (parse_name rec p st) (parse_name rec' p st)" for p st
    by (auto simp: parse_name_def Let_def intro!: intros split: option.split prod.split)
  show "up_to_fuel (simple_body rec p st) (simple_body rec' p st)"
    by (auto simp: simple_body_def Let_def intro!: intros name split: prod.split)
  show "up_to_fuel (sub_body rec l p st) (sub_body rec' l p st)"
    by (auto simp: sub_body_def Let_def intro!: intros split: option.split)
  show "up_to_fuel (ops_body rec l p st) (ops_body rec' l p st)"
    by (auto simp: ops_body_def Let_def intro!: intros split: option.split)
  show "up_to_fuel (args_body rec i p st) (args_body rec' i p st)"
    by (auto simp: args_body_def Let_def intro!: intros)
qed

lemma parse_more: "up_to_fuel (parse n r p st) (parse (Suc n) r p st)"
proof (induction n arbitrary: r p st)
  case (Suc n)
  note bodies = up_to_fuel_bodies [OF Suc.IH]
  show ?case
    by (cases r) (simp_all only: parse_Suc routine.case bodies)
qed (simp add: up_to_fuel_def)

lemma parse_stable:
  assumes "parse n r p st \<noteq> No_fuel" "n \<le> m"
  shows "parse m r p st = parse n r p st"
  using assms(2)
proof (induction rule: dec_induct)
  case (step k)
  then show ?case using parse_more [of k r p st] assms(1) by (auto simp: up_to_fuel_def)
qed simp

text \<open>
  C19: the parser of expressions ends, with any text and any state: with the depth bound of the definition it
  never runs out of depth, a greater bound gives the same result, and it returns a rest of the text.
\<close>

theorem parse_subexpr_ends:
  "parse_subexpr p limit st \<noteq> No_fuel \<and>
   (131 * length p + 2 \<le> n \<longrightarrow> parse n (Sub limit) p st = parse_subexpr p limit st) \<and>
   (\<forall>p' st'. parse_subexpr p limit st = Ok (p', st') \<longrightarrow> length p' \<le> length p)"
proof -
  have f: "fine p (parse_subexpr p limit st)"
    unfolding parse_subexpr_def by (rule parse_fine) simp
  then have "parse_subexpr p limit st \<noteq> No_fuel" by (cases "parse_subexpr p limit st") auto
  then show ?thesis
    using f parse_stable [of "131 * length p + 2" "Sub limit" p st n] by (auto simp: parse_subexpr_def)
qed

definition no_code :: parser where
  "no_code = \<lparr>code = [], syms = no_symbols, parse_cmd = 0, parse_cmd_if = 0\<rparr>"

theorem parse_subexpr_ends_witness:
  "parse 1000 (Sub (- 1)) ''(('' no_code = parse_subexpr ''(('' (- 1) no_code \<and> parse_subexpr ''(('' (- 1) no_code \<noteq> No_fuel"
  using parse_subexpr_ends [of "''((''" "- 1" no_code 1000] by simp

section \<open>Printing expressions\<close>

datatype unop = Neg | Lnot | Bnot

datatype binop = Add | Subtract | Mul | Div | Mod | Land | And | Lor | Or | Xor | Eq | Ne | Shr | Ge | Gt | Shl | Le | Lt

datatype expr = Num int | Txt string | Unary unop expr | Binary binop expr expr

fun un_sym :: "unop \<Rightarrow> char" where
  "un_sym Neg = CHR ''-''"
| "un_sym Lnot = CHR ''!''"
| "un_sym Bnot = CHR ''~''"

fun un_code :: "unop \<Rightarrow> int" where
  "un_code Neg = C_NEG"
| "un_code Lnot = C_LNOT"
| "un_code Bnot = C_NOT"

fun op_sym :: "binop \<Rightarrow> string" where
  "op_sym Add = ''+''" | "op_sym Subtract = ''-''" | "op_sym Mul = ''*''" | "op_sym Div = ''/''" | "op_sym Mod = ''%''"
| "op_sym Land = ''&&''" | "op_sym And = ''&''" | "op_sym Lor = ''||''" | "op_sym Or = ''|''" | "op_sym Xor = ''^''"
| "op_sym Eq = ''==''" | "op_sym Ne = ''!=''" | "op_sym Shr = ''>>''" | "op_sym Ge = ''>=''" | "op_sym Gt = ''>''"
| "op_sym Shl = ''<<''" | "op_sym Le = ''<=''" | "op_sym Lt = ''<''"

fun prec :: "binop \<Rightarrow> int" where
  "prec Add = 6" | "prec Subtract = 6" | "prec Mul = 7" | "prec Div = 7" | "prec Mod = 7"
| "prec Land = 1" | "prec And = 5" | "prec Lor = 0" | "prec Or = 4" | "prec Xor = 3"
| "prec Eq = 2" | "prec Ne = 2" | "prec Shr = 5" | "prec Ge = 2" | "prec Gt = 2"
| "prec Shl = 5" | "prec Le = 2" | "prec Lt = 2"

fun opc :: "binop \<Rightarrow> int" where
  "opc Add = C_ADD" | "opc Subtract = C_SUB" | "opc Mul = C_MUL" | "opc Div = C_DIV" | "opc Mod = C_MOD"
| "opc Land = C_LAND" | "opc And = C_AND" | "opc Lor = C_LOR" | "opc Or = C_OR" | "opc Xor = C_XOR"
| "opc Eq = C_EQ" | "opc Ne = C_NE" | "opc Shr = C_R_SHIFT" | "opc Ge = C_GE" | "opc Gt = C_GT"
| "opc Shl = C_L_SHIFT" | "opc Le = C_LE" | "opc Lt = C_LT"

text \<open>Parentheses only where an operator does not bind more than \<open>limit\<close>.\<close>

fun print_expr :: "int \<Rightarrow> expr \<Rightarrow> string" where
  "print_expr l (Num n) = decimal (nat n)"
| "print_expr l (Txt s) = CHR ''\"'' # s @ ''\"''"
| "print_expr l (Unary u e) = un_sym u # print_expr 100 e"
| "print_expr l (Binary b e1 e2) =
     (let t = print_expr (prec b - 1) e1 @ op_sym b @ print_expr (prec b) e2
      in if prec b > l then t else CHR ''('' # t @ '')'')"

text \<open>Numbers that an \<open>int\<close> holds; strings without quotes, backslashes, line ends and NUL.\<close>

fun expr_ok :: "expr \<Rightarrow> bool" where
  "expr_ok (Num n) \<longleftrightarrow> 0 \<le> n \<and> n < 2 ^ 31"
| "expr_ok (Txt s) \<longleftrightarrow> set s \<inter> {CHR ''\"'', CHR 0x5C, CHR 0x0A, NUL} = {}"
| "expr_ok (Unary u e) \<longleftrightarrow> expr_ok e"
| "expr_ok (Binary b e1 e2) \<longleftrightarrow> expr_ok e1 \<and> expr_ok e2"

text \<open>The reference compiler.\<close>

fun compile :: "expr \<Rightarrow> int list \<Rightarrow> int list" where
  "compile (Num n) co = add_scripti n co"
| "compile (Txt s) co = add_scriptc C_STR co @ map (\<lambda>c. int (byte c)) s @ [0]"
| "compile (Unary u e) co = add_scriptc (un_code u) (compile e co)"
| "compile (Binary b e1 e2) co = add_scriptc (opc b) (compile e2 (compile e1 co))"

section \<open>Parsing what was printed\<close>

definition firsts :: "char set" where
  "firsts = {c. isdigit c} \<union> {CHR ''\"'', CHR ''('', CHR ''-'', CHR ''!'', CHR ''~''}"

lemma print_expr_first: "\<exists>c t. print_expr l e = c # t \<and> c \<in> firsts"
proof (induction e arbitrary: l)
  case (Num n)
  then show ?case using decimal_digits [of "nat n"] by (cases "decimal (nat n)") (auto simp: firsts_def)
next
  case (Unary u e)
  then show ?case by (cases u) (auto simp: firsts_def)
next
  case (Binary b e1 e2)
  obtain c t where "print_expr (prec b - 1) e1 = c # t" "c \<in> firsts" using Binary(1) by blast
  then show ?case by (auto simp: Let_def) (simp add: firsts_def)
qed (auto simp: firsts_def)

lemma firsts_plain:
  assumes "c \<in> firsts"
  shows "\<not> isspace c" "c \<notin> {CHR ''/'', CHR ''*'', CHR ''&'', CHR ''|'', CHR ''='', CHR ''>'', CHR ''<'', CHR '';'', CHR '',''}"
  using assms by (auto simp: firsts_def isspace_def isdigit_def byte_def)

lemma skip_space_plain: "\<not> isspace c \<Longrightarrow> c \<noteq> CHR ''/'' \<Longrightarrow> skip_space (c # p) = c # p"
  by (subst skip_space.simps) (simp add: peek_def)

lemma skip_space_print [simp]: "skip_space (print_expr l e @ r) = print_expr l e @ r"
  using print_expr_first [of l e] firsts_plain by (fastforce intro: skip_space_plain)

lemma skip_space_Nil [simp]: "skip_space [] = []"
  by (subst skip_space.simps) (simp add: peek_def NUL_def)

lemma op_sym_lexed:
  assumes "c \<in> firsts"
  shows "match_op (op_sym b @ c # t) = Some (opc b, prec b, length (op_sym b))" "skip_space (op_sym b @ c # t) = op_sym b @ c # t"
    "\<not> isalnum (hd (op_sym b))"
proof -
  note p = firsts_plain [OF assms]
  show "match_op (op_sym b @ c # t) = Some (opc b, prec b, length (op_sym b))"
    using p by (cases b) (auto simp: match_op_def peek_def)
  show "skip_space (op_sym b @ c # t) = op_sym b @ c # t"
  proof (cases "b = Div")
    case True
    then show ?thesis using p by (subst skip_space.simps) (auto simp: peek_def isspace_def byte_def)
  next
    case False
    then have "\<exists>d u. op_sym b = d # u \<and> \<not> isspace d \<and> d \<noteq> CHR ''/''"
      by (cases b) (auto simp: isspace_def byte_def)
    then show ?thesis using skip_space_plain by auto
  qed
  show "\<not> isalnum (hd (op_sym b))"
    by (cases b) (auto simp: isalnum_def isdigit_def byte_def)
qed

text \<open>Literals.\<close>

definition rest_ok :: "string \<Rightarrow> bool" where
  "rest_ok r \<longleftrightarrow> skip_space r = r \<and> (r = [] \<or> \<not> isalnum (hd r))"

lemma rest_digits: "rest_ok r \<Longrightarrow> b \<le> 16 \<Longrightarrow> digits b acc r = (acc, r)"
  by (cases r) (auto simp: rest_ok_def digit_val_def isalnum_def)

lemma strtoul_decimal:
  assumes "0 \<le> n" "n < 2 ^ 31" "rest_ok r"
  shows "strtoul (decimal (nat n) @ r) = (n, r)"
proof -
  obtain c t where ct: "decimal (nat n) = c # t" "isdigit c"
    using decimal_digits [of "nat n"] by (cases "decimal (nat n)") auto
  have sign: "c \<noteq> CHR ''-''" "c \<noteq> CHR ''+''" using ct(2) by (auto simp: isdigit_def byte_def)
  show ?thesis
  proof (cases "n = 0")
    case True
    then have "decimal (nat n) = ''0''" by (simp add: decimal.simps char_of_eq_iff take_bit_eq_mod)
    moreover have "peek (CHR ''0'' # r) 1 \<noteq> CHR ''x'' \<and> peek (CHR ''0'' # r) 1 \<noteq> CHR ''X''"
      using assms(3) by (cases r) (auto simp: peek_def rest_ok_def NUL_def isalnum_def byte_def)
    ultimately show ?thesis
      using True rest_digits [OF assms(3), of 8] s32_id [of 0]
      by (simp add: strtoul_def peek_def digit_val_def isdigit_def byte_def)
  next
    case False
    then have "c \<noteq> CHR ''0''" using decimal_hd [of "nat n"] ct assms(1) by auto
    moreover have "digits 10 0 (decimal (nat n) @ r) = (n, r)"
      using digits_append [OF decimal_val(1), of 0 "nat n" r] decimal_val(2) [of "nat n"]
        rest_digits [OF assms(3)] assms(1) by simp
    ultimately show ?thesis
      using assms sign ct s32_id [of n] by (simp add: strtoul_def peek_def)
  qed
qed

lemma byte_less: "byte c < 256"
  unfolding byte_def by (rule nat_of_char_less_256)

lemma advance_one [simp]: "advance 1 (c # p) = p"
  by (simp add: advance_def One_nat_def)

lemma advance_append [simp]: "advance (length xs) (xs @ p) = p"
  by (simp add: advance_def)

lemma string_body_plain:
  assumes "set s \<inter> {CHR ''\"'', CHR 0x5C, CHR 0x0A, NUL} = {}"
  shows "string_body prev (s @ CHR ''\"'' # r) co = Ok (co @ map (\<lambda>c. int (byte c)) s @ [0], r)"
  using assms
proof (induction s arbitrary: prev co)
  case Nil
  then show ?case by (simp add: add_scriptb_def u8_def)
next
  case (Cons c s)
  have "u8 (int (byte c)) = int (byte c)"
    using byte_less [of c] by (intro u8_id) auto
  then show ?case using Cons by (auto simp: add_scriptb_def)
qed

text \<open>What is left of the text begins with no operator that binds more than \<open>k\<close>.\<close>

definition binds :: "int \<Rightarrow> string \<Rightarrow> bool" where
  "binds k r \<longleftrightarrow> (case match_op r of None \<Rightarrow> True | Some (op, opl, len) \<Rightarrow> opl \<le> k)"

lemma ops_stop: "binds l r \<Longrightarrow> 0 < n \<Longrightarrow> parse n (Ops l) r st = Ok (r, st)"
  by (cases n) (auto simp: binds_def parse_Suc ops_body_def split: option.splits)

text \<open>With enough depth the parser gives \<open>res\<close>.\<close>

definition parses :: "routine \<Rightarrow> string \<Rightarrow> parser \<Rightarrow> (string \<times> parser) parsed \<Rightarrow> bool" where
  "parses rt p st res \<longleftrightarrow> (\<exists>m. \<forall>n \<ge> m. parse n rt p st = res)"

lemma parsesI: "(\<And>n. m \<le> n \<Longrightarrow> parse (Suc n) rt p st = res) \<Longrightarrow> parses rt p st res"
  unfolding parses_def by (rule exI [of _ "Suc m"]) (metis Suc_le_D Suc_le_mono)

lemma ops_stops: "binds l r \<Longrightarrow> parses (Ops l) r st (Ok (r, st))"
  unfolding parses_def by (rule exI [of _ 1]) (auto intro: ops_stop)

lemma sub_simple:
  assumes "parses Simple (c # t) st (Ok (r, st'))" "parses (Ops l) r st' res" "rest_ok r"
    and "c \<in> firsts" "c \<notin> {CHR ''-'', CHR ''!'', CHR ''~''}"
  shows "parses (Sub l) (c # t) st res"
proof -
  obtain m1 m2 where m: "\<And>n. m1 \<le> n \<Longrightarrow> parse n Simple (c # t) st = Ok (r, st')"
    "\<And>n. m2 \<le> n \<Longrightarrow> parse n (Ops l) r st' = res"
    using assms(1,2) unfolding parses_def by blast
  have sk: "skip_space (c # t) = c # t" using firsts_plain [OF assms(4)] by (intro skip_space_plain) auto
  show ?thesis
    by (rule parsesI [of "max m1 m2"])
      (use assms(3,5) m in \<open>auto simp: parse_Suc sub_body_def Let_def sk unary_op_def peek_def andthen_def rest_ok_def\<close>)
qed

lemma sub_unary:
  assumes "parses (Sub 100) (c # t) st (Ok (r, st'))" "parses (Ops l) r (emit (add_scriptc (un_code u)) st') res"
    and "rest_ok r" "c \<in> firsts"
  shows "parses (Sub l) (un_sym u # c # t) st res"
proof -
  obtain m1 m2 where m: "\<And>n. m1 \<le> n \<Longrightarrow> parse n (Sub 100) (c # t) st = Ok (r, st')"
    "\<And>n. m2 \<le> n \<Longrightarrow> parse n (Ops l) r (emit (add_scriptc (un_code u)) st') = res"
    using assms(1,2) unfolding parses_def by blast
  have sk: "skip_space (c # t) = c # t" using firsts_plain [OF assms(4)] by (intro skip_space_plain) auto
  have sk2: "skip_space (un_sym u # c # t) = un_sym u # c # t"
    by (intro skip_space_plain) (cases u, auto simp: isspace_def byte_def)+
  have un: "unary_op (un_sym u # c # t) = Some (un_code u)" by (cases u) (auto simp: unary_op_def peek_def)
  have c: "c \<noteq> CHR '';''" "c \<noteq> CHR '',''" using firsts_plain [OF assms(4)] by auto
  show ?thesis
    by (rule parsesI [of "max m1 m2"])
      (use assms(3) m c in \<open>auto simp: parse_Suc sub_body_def Let_def sk sk2 un andthen_def rest_ok_def peek_def\<close>)
qed

lemma ops_binary:
  assumes "parses (Sub (prec b)) (c # t) st (Ok (r, st'))" "parses (Ops l) r (emit (add_scriptc (opc b)) st') res"
    and "rest_ok r" "c \<in> firsts" "l < prec b"
  shows "parses (Ops l) (op_sym b @ c # t) st res"
proof -
  obtain m1 m2 where m: "\<And>n. m1 \<le> n \<Longrightarrow> parse n (Sub (prec b)) (c # t) st = Ok (r, st')"
    "\<And>n. m2 \<le> n \<Longrightarrow> parse n (Ops l) r (emit (add_scriptc (opc b)) st') = res"
    using assms(1,2) unfolding parses_def by blast
  have "opc b \<noteq> C_FUNC" by (cases b) auto
  then show ?thesis
    by (intro parsesI [of "max m1 m2"])
      (use assms(3,5) m in \<open>auto simp: parse_Suc ops_body_def op_sym_lexed(1) [OF assms(4)] andthen_def rest_ok_def\<close>)
qed

lemma simple_number:
  assumes "0 \<le> n" "n < 2 ^ 31" "rest_ok r"
  shows "parses Simple (decimal (nat n) @ r) st (Ok (r, emit (add_scripti n) st))"
proof -
  obtain c t where ct: "decimal (nat n) = c # t" "isdigit c"
    using decimal_digits [of "nat n"] by (cases "decimal (nat n)") auto
  have c: "c \<noteq> CHR '';''" "c \<noteq> CHR '',''" "c \<noteq> CHR ''(''" "c \<noteq> CHR ''/''" "\<not> isspace c"
    using ct(2) by (auto simp: isdigit_def byte_def isspace_def)
  have sk: "skip_space (c # t @ r) = c # t @ r"
    using c by (simp add: skip_space_plain)
  have num: "strtoul (c # t @ r) = (n, r)"
    using strtoul_decimal [OF assms] ct by simp
  have p0: "peek (c # t @ r) 0 = c" by (simp add: peek_def)
  show ?thesis
    unfolding ct append_Cons
    by (rule parsesI [of 0]) (simp add: parse_Suc simple_body_def Let_def sk num p0 c ct(2))
qed

lemma simple_string:
  assumes "set s \<inter> {CHR ''\"'', CHR 0x5C, CHR 0x0A, NUL} = {}"
  shows "parses Simple (CHR ''\"'' # s @ CHR ''\"'' # r) st (Ok (r, emit (compile (Txt s)) st))"
proof -
  have sk: "skip_space (CHR ''\"'' # s @ CHR ''\"'' # r) = CHR ''\"'' # s @ CHR ''\"'' # r"
    by (rule skip_space_plain) (auto simp: isspace_def byte_def)
  show ?thesis
    by (rule parsesI [of 0])
      (auto simp: parse_Suc simple_body_def Let_def sk peek_def isdigit_def byte_def andthen_def emit_def
        string_body_plain [OF assms, unfolded byte_def])
qed

lemma simple_parens:
  assumes "parses (Sub (- 1)) t st (Ok (CHR '')'' # r, st'))"
  shows "parses Simple (CHR ''('' # t) st (Ok (r, st'))"
proof -
  obtain m where m: "\<And>n. m \<le> n \<Longrightarrow> parse n (Sub (- 1)) t st = Ok (CHR '')'' # r, st')"
    using assms unfolding parses_def by blast
  have sk: "skip_space (CHR ''('' # t) = CHR ''('' # t" "skip_space (CHR '')'' # r) = CHR '')'' # r"
    by (intro skip_space_plain; auto simp: isspace_def byte_def)+
  show ?thesis
    by (rule parsesI [of m])
      (use m in \<open>auto simp: parse_Suc simple_body_def Let_def sk peek_def andthen_def\<close>)
qed

lemma prec_bounds: "0 \<le> prec b" "prec b \<le> 8"
  by (cases b; simp)+

lemma binds_100: "binds 100 r"
  by (auto simp: binds_def match_op_def Let_def)

lemma binds_mono: "binds a r \<Longrightarrow> a \<le> b \<Longrightarrow> binds b r"
  by (auto simp: binds_def split: option.splits)

lemma parses_print:
  "\<lbrakk>expr_ok e; rest_ok r; binds (k + 1) r; l \<le> k; - 1 \<le> k; parses (Ops l) r (emit (compile e) st) res\<rbrakk> \<Longrightarrow>
    parses (Sub l) (print_expr k e @ r) st res"
proof (induction e arbitrary: k l r st res)
  case (Num n)
  obtain c t where ct: "decimal (nat n) = c # t" "isdigit c"
    using decimal_digits [of "nat n"] by (cases "decimal (nat n)") auto
  then have c: "c \<in> firsts" "c \<notin> {CHR ''-'', CHR ''!'', CHR ''~''}"
    by (auto simp: firsts_def isdigit_def byte_def)
  have "parses Simple (c # t @ r) st (Ok (r, emit (add_scripti n) st))"
    using simple_number [of n r st] Num ct by simp
  then show ?case
    using sub_simple [OF _ _ Num(2) c] Num(6) ct by (simp add: emit_def)
next
  case (Txt s)
  have "parses Simple (CHR ''\"'' # s @ CHR ''\"'' # r) st (Ok (r, emit (compile (Txt s)) st))"
    using simple_string Txt(1) by simp
  from sub_simple [OF this Txt(6) Txt(2)] show ?case by (simp add: firsts_def)
next
  case (Unary u e)
  obtain c t where ct: "print_expr 100 e = c # t" "c \<in> firsts" using print_expr_first by blast
  have "parses (Sub 100) (print_expr 100 e @ r) st (Ok (r, emit (compile e) st))"
    using Unary.prems(1,2) binds_mono [OF binds_100 [of r]] ops_stops [OF binds_100]
    by (intro Unary.IH) auto
  then show ?case
    using sub_unary [OF _ _ Unary.prems(2) ct(2), of "t @ r" st "emit (compile e) st" l u res] Unary.prems(6) ct
    by (simp add: emit_def)
next
  case (Binary b e1 e2)
  have flat: "parses (Sub l) (print_expr (prec b - 1) e1 @ op_sym b @ print_expr (prec b) e2 @ r) st res"
    if "rest_ok r" "binds (prec b) r" "l < prec b" "parses (Ops l) r (emit (compile (Binary b e1 e2)) st) res"
    for l r res
  proof -
    obtain c t where ct: "print_expr (prec b) e2 = c # t" "c \<in> firsts" using print_expr_first by blast
    have "parses (Sub (prec b)) (print_expr (prec b) e2 @ r) (emit (compile e1) st)
        (Ok (r, emit (compile e2) (emit (compile e1) st)))"
      using Binary.prems(1) that prec_bounds(1) [of b]
      by (intro Binary.IH(2) ops_stops) (auto simp: binds_def split: option.splits)
    then have "parses (Ops l) (op_sym b @ print_expr (prec b) e2 @ r) (emit (compile e1) st) res"
      using ops_binary [OF _ _ that(1) ct(2) that(3), of "t @ r" "emit (compile e1) st" "emit (compile e2) (emit (compile e1) st)" res]
        that(4) ct by (simp add: emit_def)
    moreover have "rest_ok (op_sym b @ print_expr (prec b) e2 @ r)"
      using op_sym_lexed [OF ct(2), of b] ct(1) by (cases b) (auto simp: rest_ok_def)
    moreover have "binds (prec b) (op_sym b @ print_expr (prec b) e2 @ r)"
      using op_sym_lexed(1) [OF ct(2), of b] ct(1) by (simp add: binds_def)
    ultimately show ?thesis
      using Binary.prems(1) that(3) prec_bounds(1) [of b] by (intro Binary.IH(1)) auto
  qed
  show ?case
  proof (cases "k < prec b")
    case True
    have "binds (prec b) r" using Binary.prems(3) True by (auto simp: binds_def split: option.splits)
    then show ?thesis using flat [OF Binary.prems(2)] Binary.prems(4,6) True by (simp add: Let_def del: compile.simps)
  next
    case False
    have "rest_ok (CHR '')'' # r)"
      by (auto simp: rest_ok_def isalnum_def isdigit_def byte_def isspace_def intro!: skip_space_plain)
    moreover have "binds m (CHR '')'' # r)" for m by (simp add: binds_def match_op_def peek_def)
    ultimately have "parses (Sub (- 1)) (print_expr (prec b - 1) e1 @ op_sym b @ print_expr (prec b) e2 @ CHR '')'' # r) st
        (Ok (CHR '')'' # r, emit (compile (Binary b e1 e2)) st))"
      using prec_bounds(1) [of b] by (intro flat ops_stops) auto
    from sub_simple [OF simple_parens [OF this] Binary.prems(6) Binary.prems(2)] show ?thesis
      using False by (simp add: Let_def firsts_def)
  qed
qed

lemma parses_whole:
  assumes "expr_ok e" "rest_ok r" "binds (- 1) r"
  shows "parse_subexpr (print_expr (- 1) e @ r) (- 1) st = Ok (r, emit (compile e) st)"
proof -
  have "parses (Sub (- 1)) (print_expr (- 1) e @ r) st (Ok (r, emit (compile e) st))"
    using assms by (intro parses_print ops_stops) (auto simp: binds_def split: option.splits)
  then obtain m where m: "\<And>n. m \<le> n \<Longrightarrow> parse n (Sub (- 1)) (print_expr (- 1) e @ r) st = Ok (r, emit (compile e) st)"
    unfolding parses_def by blast
  define k where "k = 131 * length (print_expr (- 1) e @ r) + 2"
  have "fine (print_expr (- 1) e @ r) (parse k (Sub (- 1)) (print_expr (- 1) e @ r) st)"
    unfolding k_def by (rule parse_fine) simp
  then have "parse k (Sub (- 1)) (print_expr (- 1) e @ r) st \<noteq> No_fuel" by auto
  then have "parse (max m k) (Sub (- 1)) (print_expr (- 1) e @ r) st = parse k (Sub (- 1)) (print_expr (- 1) e @ r) st"
    by (rule parse_stable) simp
  then show ?thesis using m [of "max m k"] by (simp add: parse_subexpr_def k_def)
qed

text \<open>
  C20: an expression that is printed with parentheses only where the precedences need them is parsed to the
  code of the reference compiler, up to the first byte behind it.
\<close>

theorem parse_print:
  assumes "expr_ok e" "rest_ok r" "binds (- 1) r"
  shows "parse_subexpr (print_expr (- 1) e @ r) (- 1) st = Ok (r, emit (compile e) st)"
  using assms by (rule parses_whole)

lemma semicolon_ends: "rest_ok '';''" "binds (- 1) '';''"
  by (auto simp: rest_ok_def binds_def match_op_def peek_def isalnum_def isdigit_def byte_def isspace_def
      intro!: skip_space_plain)

text \<open>\<open>(4+2)*3;\<close>.\<close>

theorem parse_print_witness:
  "print_expr (- 1) (Binary Mul (Binary Add (Num 4) (Num 2)) (Num 3)) @ '';'' = ''(4+2)*3;'' \<and>
   parse_subexpr ''(4+2)*3;'' (- 1) no_code =
     Ok ('';'', emit (compile (Binary Mul (Binary Add (Num 4) (Num 2)) (Num 3))) no_code)"
proof -
  have d: "decimal 4 = ''4''" "decimal 2 = ''2''" "decimal 3 = ''3''" by (simp_all add: decimal.simps char_of_eq_iff)
  have p: "print_expr (- 1) (Binary Mul (Binary Add (Num 4) (Num 2)) (Num 3)) @ '';'' = ''(4+2)*3;''"
    by (simp add: Let_def d)
  show ?thesis
    using parse_print [OF _ semicolon_ends, of "Binary Mul (Binary Add (Num 4) (Num 2)) (Num 3)" no_code] p
    by (simp only: p) simp
qed

end
