(* ===== verification/ScriptRun.thy ===== *)
theory ScriptRun
  imports ScriptProofs
begin

text \<open>
  The machine of the scripts: it computes the value of every expression the parser accepts; it stops after the
  number of commands it counts; and where the code does not do what it means.
\<close>

declare One_nat_def [simp del]

section \<open>What an expression means\<close>

definition int_val :: "sdata \<Rightarrow> int" where
  "int_val v = (case v of D_INT n \<Rightarrow> s32 n | _ \<Rightarrow> 0)"

definition text_val :: "sdata \<Rightarrow> string" where
  "text_val v = (case v of D_INT n \<Rightarrow> sprintf_d (s32 n) | _ \<Rightarrow> str_of v)"

fun unary_val :: "unop \<Rightarrow> int \<Rightarrow> int" where
  "unary_val Neg a = s32 (- a)"
| "unary_val Lnot a = of_bool (a = 0)"
| "unary_val Bnot a = NOT a"

text \<open>Nothing is the value of a division by 0 or a shift that C does not define.\<close>

fun arith :: "binop \<Rightarrow> int \<Rightarrow> int \<Rightarrow> int option" where
  "arith Add a b = Some (a + b)"
| "arith Subtract a b = Some (s32 (a - b))"
| "arith Mul a b = Some (script_mul a b)"
| "arith Div a b = (if b = 0 \<or> b = - 1 \<and> a = - 2147483648 then None else Some (cdiv a b))"
| "arith Mod a b = (if b = 0 \<or> b = - 1 \<and> a = - 2147483648 then None else Some (cmod a b))"
| "arith Land a b = Some (of_bool (a \<noteq> 0 \<and> b \<noteq> 0))"
| "arith And a b = Some (a AND b)"
| "arith Lor a b = Some (of_bool (a \<noteq> 0 \<or> b \<noteq> 0))"
| "arith Or a b = Some (a OR b)"
| "arith Xor a b = Some (a XOR b)"
| "arith Eq a b = Some (of_bool (a = b))"
| "arith Ne a b = Some (of_bool (a \<noteq> b))"
| "arith Shr a b = (if b < 0 \<or> b > 31 then None else Some (drop_bit (nat b) a))"
| "arith Ge a b = Some (of_bool (a \<ge> b))"
| "arith Gt a b = Some (of_bool (a > b))"
| "arith Shl a b = (if b < 0 \<or> b > 31 then None else Some (s32 (push_bit (nat b) a)))"
| "arith Le a b = Some (of_bool (a \<le> b))"
| "arith Lt a b = Some (of_bool (a < b))"

fun text_cmp :: "binop \<Rightarrow> string \<Rightarrow> string \<Rightarrow> bool" where
  "text_cmp Eq s t \<longleftrightarrow> strcmp s t = 0"
| "text_cmp Ne s t \<longleftrightarrow> strcmp s t \<noteq> 0"
| "text_cmp Gt s t \<longleftrightarrow> strcmp s t > 0"
| "text_cmp Ge s t \<longleftrightarrow> strcmp s t \<ge> 0"
| "text_cmp Lt s t \<longleftrightarrow> strcmp s t < 0"
| "text_cmp Le s t \<longleftrightarrow> strcmp s t \<le> 0"
| "text_cmp _ s t \<longleftrightarrow> False"

text \<open>
  A sum is a number or, with a string on a side, a string; another operator wants two numbers or two
  strings and gives 0 for anything else.
\<close>

definition binary_val :: "binop \<Rightarrow> sdata \<Rightarrow> sdata \<Rightarrow> sdata option" where
  "binary_val b v1 v2 =
     (if b = Add then
        (if isstr v1 \<or> isstr v2 then Some (D_STR (text_val v1 @ text_val v2))
         else Some (D_INT (s64 (num_of v1 + num_of v2))))
      else if isstr v1 \<and> isstr v2 then Some (D_INT (of_bool (text_cmp b (str_of v1) (str_of v2))))
      else if \<not> isstr v1 \<and> \<not> isstr v2 then map_option D_INT (arith b (int_val v1) (int_val v2))
      else Some (D_INT 0))"

fun eval :: "expr \<Rightarrow> sdata option" where
  "eval (Num n) = Some (D_INT n)"
| "eval (Txt s) = Some (D_CONSTSTR s)"
| "eval (Unary u e) = map_option (\<lambda>v. D_INT (unary_val u (int_val v))) (eval e)"
| "eval (Binary b e1 e2) = (case eval e1 of None \<Rightarrow> None | Some v1 \<Rightarrow>
     (case eval e2 of None \<Rightarrow> None | Some v2 \<Rightarrow> binary_val b v1 v2))"

definition is_value :: "sdata \<Rightarrow> bool" where
  "is_value v \<longleftrightarrow> (\<exists>n. v = D_INT n) \<or> (\<exists>s. v = D_STR s) \<or> (\<exists>s. v = D_CONSTSTR s)"

lemma binary_is_value: "binary_val b v1 v2 = Some v \<Longrightarrow> is_value v"
  by (auto simp: binary_val_def is_value_def split: if_splits)

lemma eval_is_value: "eval e = Some v \<Longrightarrow> is_value v"
  by (cases e) (auto simp: is_value_def dest: binary_is_value [unfolded is_value_def] split: option.splits)

section \<open>Running the code\<close>

definition with_stack :: "int \<Rightarrow> (nat \<Rightarrow> sdata) \<Rightarrow> script_state \<Rightarrow> script_state" where
  "with_stack s m st = st\<lparr>sp := s, mem := m\<rparr>"

lemma get_val_value: "is_value v \<Longrightarrow> get_val env st v = v"
  by (auto simp: is_value_def get_val_def)

lemma pop_value:
  assumes "0 < sp st" "is_value (stack_at st (sp st - 1))"
  shows "pop_val env st = (int_val (stack_at st (sp st - 1)), st\<lparr>sp := sp st - 1\<rparr>)"
  using assms by (simp add: pop_val_def get_val_value put_def stack_at_def Let_def int_val_def)

lemma push_value: "0 \<le> sp st \<Longrightarrow> push_val v st = with_stack (sp st + 1) ((mem st)(nat (sp st) := v)) st"
  by (simp add: push_val_def put_def with_stack_def)

lemma op_2num_arith:
  assumes "b \<noteq> Add" "arith b i1 i2 = Some n"
  shows "op_2num (opc b) i1 i2 st = push_val (D_INT n) st"
  using assms by (cases b) (auto simp: op_2num_def split: if_splits)

lemma op_2str_cmp: "b \<noteq> Add \<Longrightarrow> op_2str (opc b) s t st = push_val (D_INT (of_bool (text_cmp b s t))) st"
  by (cases b) (auto simp: op_2str_def)

lemma op_2_value:
  assumes "2 \<le> sp st" "is_value (stack_at st (sp st - 2))" "is_value (stack_at st (sp st - 1))" "b \<noteq> Add"
    "binary_val b (stack_at st (sp st - 2)) (stack_at st (sp st - 1)) = Some v"
  shows "op_2 env (opc b) st = with_stack (sp st - 1) ((mem st)(nat (sp st - 2) := v)) st"
proof -
  have p2: "pop_val env st = (int_val (stack_at st (sp st - 1)), st\<lparr>sp := sp st - 1\<rparr>)"
    using assms by (intro pop_value) auto
  have p1: "pop_val env (st\<lparr>sp := sp st - 1\<rparr>) = (int_val (stack_at st (sp st - 2)), st\<lparr>sp := sp st - 2\<rparr>)"
    using assms pop_value [of "st\<lparr>sp := sp st - 1\<rparr>" env] by (simp add: stack_at_def)
  have at: "stack_at (st\<lparr>sp := x\<rparr>) y = stack_at st y" for x y by (simp add: stack_at_def)
  have "push_val v (st\<lparr>sp := sp st - 2\<rparr>) = with_stack (sp st - 1) ((mem st)(nat (sp st - 2) := v)) st"
    using assms(1) by (simp add: push_value with_stack_def)
  then show ?thesis
    using assms(1,4,5) unfolding op_2_def p1 p2 Let_def prod.case at
    by (auto simp: binary_val_def op_2num_arith op_2str_cmp at split: if_splits)
qed

lemma op_add_value:
  assumes "2 \<le> sp st" "stack_at st (sp st - 2) = d1" "stack_at st (sp st - 1) = d2" "is_value d1" "is_value d2"
    "binary_val Add d1 d2 = Some v"
  shows "\<exists>x. op_add env st = with_stack (sp st - 1) ((mem st)(nat (sp st - 1) := x, nat (sp st - 2) := v)) st"
proof -
  have i: "\<not> sp st < 2" "sp st - 1 - 1 = sp st - 2" using assms(1) by auto
  have put2: "put (sp st - 2) w ((put (sp st - 1) x st)\<lparr>sp := sp st - 1\<rparr>)
      = with_stack (sp st - 1) ((mem st)(nat (sp st - 1) := x, nat (sp st - 2) := w)) st" for x w
    using assms(1) by (simp add: put_def with_stack_def)
  have str: "isstr (D_STR s)" "isstr (D_CONSTSTR s)" "\<not> isstr (D_INT n)" for s n by (simp_all add: isstr_def)
  have texts: "get_val env st' d = d" "conv_str env st' d = d" "text_val d = str_of d"
      "(case d of D_INT b \<Rightarrow> f b | _ \<Rightarrow> st') = st'" if "isstr d" for d st' and f :: "int \<Rightarrow> script_state"
    using that by (auto simp: isstr_def get_val_def conv_str_def text_val_def split: sdata.splits)
  consider (nn) a b where "d1 = D_INT a" "d2 = D_INT b" | (ns) a where "d1 = D_INT a" "isstr d2"
    | (sn) b where "isstr d1" "d2 = D_INT b" | (ss) "isstr d1" "isstr d2"
    using assms(4,5) str by (auto simp: is_value_def)
  then show ?thesis
  proof cases
    case nn
    then show ?thesis
      using assms i by (intro exI [of _ d2])
        (simp add: op_add_def Let_def get_val_def str put2 binary_val_def num_of_def)
  next
    case ns
    then show ?thesis
      using assms i texts [OF ns(2)] by (intro exI [of _ d2])
        (simp add: op_add_def Let_def get_val_def [of _ _ "D_INT a"] conv_str_def [of _ _ "D_INT a"] str put2
          binary_val_def text_val_def [of "D_INT a"] str_of_def [of "D_STR x" for x])
  next
    case sn
    then show ?thesis
      using assms i texts [OF sn(1)] by (intro exI [of _ "D_STR (sprintf_d (s32 b))"])
        (simp add: op_add_def Let_def get_val_def [of _ _ "D_INT b"] conv_str_def [of _ _ "D_INT b"] str put2
          binary_val_def text_val_def [of "D_INT b"] str_of_def [of "D_STR x" for x])
  next
    case ss
    then show ?thesis
      using assms i texts [OF ss(1)] texts [OF ss(2)] by (intro exI [of _ d2])
        (simp add: op_add_def Let_def put2 binary_val_def)
  qed
qed

lemma add_scriptc_one: "0 \<le> c \<Longrightarrow> c < 64 \<Longrightarrow> add_scriptc c co = co @ [c]"
  using last_byte [of c] u8_id [of c] by (subst add_scriptc.simps) (simp add: add_scriptb_def)

lemma opc_bounds: "0 \<le> opc b" "opc b < 64" "0 \<le> un_code u" "un_code u < 64"
proof -
  show "0 \<le> opc b" by (cases b) simp_all
  show "opc b < 64" by (cases b) simp_all
  show "0 \<le> un_code u" by (cases u) simp_all
  show "un_code u < 64" by (cases u) simp_all
qed

lemma compile_extends: "\<exists>bs. compile e co = co @ bs"
proof (induction e arbitrary: co)
  case (Num n)
  then show ?case using add_scripti_extends [of n co] by auto
next
  case (Unary u e)
  then show ?case using opc_bounds by (metis add_scriptc_one append.assoc compile.simps(3))
next
  case (Binary b e1 e2)
  obtain bs where "compile e1 co = co @ bs" using Binary(1) by blast
  moreover obtain cs where "compile e2 (co @ bs) = co @ bs @ cs" using Binary(2) [of "co @ bs"] by auto
  ultimately show ?case using opc_bounds(1,2) [of b] by (simp add: add_scriptc_one)
qed (simp add: add_scriptc_one)

lemma byte_0: "byte c = 0 \<longleftrightarrow> c = NUL"
proof
  assume "byte c = 0"
  then have "char_of (byte c) = (char_of (0 :: nat) :: char)" by simp
  then show "c = NUL" by (simp add: byte_def NUL_def char_of_eq_iff)
qed (simp add: byte_def NUL_def)

lemma script_string_read:
  assumes "NUL \<notin> set s"
  shows "script_string (co @ map (\<lambda>c. int (byte c)) s @ 0 # rest) (length co) = s"
proof -
  have nz: "\<forall>c \<in> set s. byte c \<noteq> 0" using assms by (auto simp: byte_0)
  then have "takeWhile (\<lambda>b. b \<noteq> 0) (map (\<lambda>c. int (byte c)) s @ 0 # rest) = map (\<lambda>c. int (byte c)) s"
    by (induction s) auto
  moreover have "map ((\<lambda>b. char_of (nat b)) \<circ> (\<lambda>c. int (byte c))) s = s"
    by (rule map_idI) (simp add: byte_def)
  ultimately show ?thesis by (simp add: script_string_def)
qed

text \<open>From \<open>st\<close> the machine gets to a state with \<open>v\<close> on the top of the stack and the position \<open>p\<close>.\<close>

definition computes :: "script_env \<Rightarrow> script_state \<Rightarrow> sdata \<Rightarrow> nat \<Rightarrow> bool" where
  "computes env st v p \<longleftrightarrow> (\<exists>k m. (vm_command env ^^ k) st = (with_stack (sp st + 1) m st)\<lparr>pos := int p\<rparr> \<and>
     m (nat (sp st)) = v \<and> (\<forall>i < nat (sp st). m i = mem st i))"

lemma computes_one:
  assumes "vm_command env st = (push_val v st)\<lparr>pos := int p\<rparr>" "0 \<le> sp st"
  shows "computes env st v p"
  unfolding computes_def
  by (rule exI [of _ 1], rule exI [of _ "(mem st)(nat (sp st) := v)"])
    (use assms in \<open>auto simp: push_value with_stack_def One_nat_def\<close>)

lemma command_at:
  assumes "0 \<le> c" "c < 64" "bytes = add_scriptc c co @ rest"
  shows "get_com bytes (length co) = (c, length (add_scriptc c co))"
  using get_com_one [OF assms(1,2), of co rest] add_scriptc_one [OF assms(1,2), of co] assms(3) by simp

lemma run_number:
  assumes "0 \<le> n" "n < 2 ^ 31" "scripts env (script st) = add_scripti n co @ rest" "pos st = int (length co)" "0 \<le> sp st"
  shows "computes env st (D_INT n) (length (add_scripti n co))"
proof -
  have "get_num (add_scripti n co @ rest) (length co) = (n, length (add_scripti n co))"
    using num_loop_reads [of n 0 0 co rest] assms(1,2) by (simp add: get_num_def)
  then have "vm_command env st = (push_val (D_INT n) st)\<lparr>pos := int (length (add_scripti n co))\<rparr>"
    using get_com_num [OF assms(1), of co rest] assms(3-5) by (simp add: vm_command_def Let_def push_val_def put_def)
  then show ?thesis using assms(5) by (rule computes_one)
qed

lemma run_text:
  assumes "NUL \<notin> set s" "scripts env (script st) = compile (Txt s) co @ rest" "pos st = int (length co)" "0 \<le> sp st"
  shows "computes env st (D_CONSTSTR s) (length (compile (Txt s) co))"
proof -
  define c1 where "c1 = add_scriptc C_STR co"
  have bytes: "scripts env (script st) = c1 @ map (\<lambda>c. int (byte c)) s @ 0 # rest" using assms(2) by (simp add: c1_def)
  have com: "get_com (c1 @ map (\<lambda>c. int (byte c)) s @ 0 # rest) (length co) = (C_STR, length c1)"
    unfolding c1_def by (rule command_at) simp_all
  have str: "script_string (c1 @ map (\<lambda>c. int (byte c)) s @ 0 # rest) (length c1) = s"
    by (rule script_string_read [OF assms(1)])
  have "vm_command env st = (push_val (D_CONSTSTR s) st)\<lparr>pos := int (length (compile (Txt s) co))\<rparr>"
    using assms(3,4) by (simp add: vm_command_def Let_def bytes com str push_val_def put_def c1_def [symmetric])
  then show ?thesis using assms(4) by (rule computes_one)
qed

lemma run_unary:
  assumes "computes env st v1 (length co)" "is_value v1" "scripts env (script st) = add_scriptc (un_code u) co @ rest" "0 \<le> sp st"
  shows "computes env st (D_INT (unary_val u (int_val v1))) (length (add_scriptc (un_code u) co))"
proof -
  obtain k m where km: "(vm_command env ^^ k) st = (with_stack (sp st + 1) m st)\<lparr>pos := int (length co)\<rparr>"
    "m (nat (sp st)) = v1" "\<forall>i < nat (sp st). m i = mem st i"
    using assms(1) unfolding computes_def by blast
  define st1 where "st1 = (with_stack (sp st + 1) m st)\<lparr>pos := int (length (add_scriptc (un_code u) co))\<rparr>"
  have top: "0 < sp st1" "stack_at st1 (sp st1 - 1) = v1"
    using assms(4) km(2) by (simp_all add: st1_def with_stack_def stack_at_def)
  have pop: "pop_val env st1 = (int_val v1, st1\<lparr>sp := sp st\<rparr>)"
    using pop_value [OF top(1), of env] top assms(2) by (simp add: st1_def with_stack_def)
  have com: "get_com (scripts env (script st)) (length co) = (un_code u, length (add_scriptc (un_code u) co))"
    using opc_bounds(3,4) [of u] assms(3) by (rule command_at)
  have "vm_command env ((vm_command env ^^ k) st) = op_1num env (un_code u) st1"
    unfolding km(1) vm_command_def st1_def by (cases u) (simp_all add: with_stack_def com [simplified])
  also have "\<dots> = push_val (D_INT (unary_val u (int_val v1))) (st1\<lparr>sp := sp st\<rparr>)"
    by (cases u) (simp_all add: op_1num_def pop)
  also have "\<dots> = (with_stack (sp st + 1) (m(nat (sp st) := D_INT (unary_val u (int_val v1)))) st)
      \<lparr>pos := int (length (add_scriptc (un_code u) co))\<rparr>"
    using assms(4) by (simp add: push_value st1_def with_stack_def)
  finally show ?thesis
    unfolding computes_def
    by (intro exI [of _ "Suc k"] exI [of _ "m(nat (sp st) := D_INT (unary_val u (int_val v1)))"]) (simp add: km(3))
qed

lemma run_binary:
  assumes 1: "computes env st v1 p" and v: "is_value v1" "is_value v2" "binary_val b v1 v2 = Some v"
    and 2: "\<And>st'. script st' = script st \<Longrightarrow> pos st' = int p \<Longrightarrow> sp st' = sp st + 1 \<Longrightarrow> computes env st' v2 (length co)"
    and code: "scripts env (script st) = add_scriptc (opc b) co @ rest" and sp: "0 \<le> sp st"
  shows "computes env st v (length (add_scriptc (opc b) co))"
proof -
  define s where "s = nat (sp st)"
  obtain k1 m1 where 1: "(vm_command env ^^ k1) st = (with_stack (sp st + 1) m1 st)\<lparr>pos := int p\<rparr>"
    "m1 s = v1" "\<forall>i < s. m1 i = mem st i"
    using 1 unfolding computes_def s_def by blast
  define st1 where "st1 = (with_stack (sp st + 1) m1 st)\<lparr>pos := int p\<rparr>"
  have "computes env st1 v2 (length co)" by (rule 2) (simp_all add: st1_def with_stack_def)
  then obtain k2 m2 where 2: "(vm_command env ^^ k2) st1 = (with_stack (sp st1 + 1) m2 st1)\<lparr>pos := int (length co)\<rparr>"
    "m2 (nat (sp st1)) = v2" "\<forall>i < nat (sp st1). m2 i = mem st1 i"
    unfolding computes_def by blast
  have m2: "m2 (Suc s) = v2" "m2 s = v1" "\<forall>i < s. m2 i = mem st i"
    using 1(2,3) 2(2,3) sp by (simp_all add: st1_def with_stack_def s_def nat_add_distrib One_nat_def)
  define q where "q = length (add_scriptc (opc b) co)"
  define st2 where "st2 = (with_stack (sp st + 2) m2 st)\<lparr>pos := int q\<rparr>"
  have top: "2 \<le> sp st2" "stack_at st2 (sp st2 - 2) = v1" "stack_at st2 (sp st2 - 1) = v2"
    using sp m2(1,2) by (simp_all add: st2_def with_stack_def stack_at_def s_def nat_add_distrib)
  have com: "get_com (scripts env (script st)) (length co) = (opc b, q)"
    unfolding q_def using opc_bounds(1,2) [of b] code by (rule command_at)
  have two: "(vm_command env ^^ (k2 + k1)) st = (with_stack (sp st + 2) m2 st)\<lparr>pos := int (length co)\<rparr>"
    unfolding funpow_add comp_apply 1(1) st1_def [symmetric] 2(1) by (simp add: st1_def with_stack_def)
  have step: "(vm_command env ^^ Suc (k2 + k1)) st = (if b = Add then op_add env st2 else op_2 env (opc b) st2)"
    unfolding funpow.simps comp_apply two vm_command_def st2_def
    by (cases b) (simp_all add: with_stack_def com [simplified])
  have "\<exists>m. (vm_command env ^^ Suc (k2 + k1)) st = with_stack (sp st2 - 1) m st2 \<and> m s = v \<and> (\<forall>i < s. m i = m2 i)"
  proof (cases "b = Add")
    case True
    have "nat (sp st2 - 2) = s" "nat (sp st2 - 1) = Suc s"
      using sp by (simp_all add: st2_def with_stack_def s_def nat_add_distrib)
    moreover obtain x where "op_add env st2 = with_stack (sp st2 - 1) ((mem st2)(nat (sp st2 - 1) := x, nat (sp st2 - 2) := v)) st2"
      using op_add_value [OF top v(1,2)] v(3) True by blast
    ultimately show ?thesis
      using True unfolding step by (intro exI [of _ "m2(Suc s := x, s := v)"]) (simp add: st2_def with_stack_def)
  next
    case False
    have "nat (sp st2 - 2) = s" using sp by (simp add: st2_def with_stack_def s_def)
    then show ?thesis
      using op_2_value [of st2 b v env] top v False unfolding step
      by (intro exI [of _ "m2(s := v)"]) (simp add: st2_def with_stack_def)
  qed
  then obtain m where m: "(vm_command env ^^ Suc (k2 + k1)) st = with_stack (sp st2 - 1) m st2" "m s = v" "\<forall>i < s. m i = m2 i"
    by blast
  have "with_stack (sp st2 - 1) m st2 = (with_stack (sp st + 1) m st)\<lparr>pos := int q\<rparr>"
    by (simp add: st2_def with_stack_def)
  then show ?thesis
    unfolding computes_def s_def [symmetric] q_def [symmetric]
    by (intro exI [of _ "Suc (k2 + k1)"] exI [of _ m]) (use m m2(3) in simp)
qed

lemma run_expr:
  "\<lbrakk>expr_ok e; eval e = Some v; scripts env (script st) = compile e co @ rest; pos st = int (length co); 0 \<le> sp st\<rbrakk>
    \<Longrightarrow> computes env st v (length (compile e co))"
proof (induction e arbitrary: v st co rest)
  case (Num n)
  then show ?case using run_number [of n env st co rest] by simp
next
  case (Txt s)
  then show ?case using run_text [of s env st co rest] by simp
next
  case (Unary u e)
  then obtain v1 where v1: "eval e = Some v1" "v = D_INT (unary_val u (int_val v1))" by auto
  obtain bs where "scripts env (script st) = compile e co @ bs"
    using Unary.prems(3) add_scriptc_one [of "un_code u" "compile e co"] opc_bounds(3,4) [of u] by simp
  then have "computes env st v1 (length (compile e co))" using Unary v1(1) by simp
  then show ?case
    using run_unary [OF _ eval_is_value [OF v1(1)]] Unary.prems(3,5) v1(2) by simp
next
  case (Binary b e1 e2)
  obtain v1 v2 where v: "eval e1 = Some v1" "eval e2 = Some v2" "binary_val b v1 v2 = Some v"
    using Binary.prems(2) by (auto split: option.splits)
  obtain bs where bs: "compile e2 (compile e1 co) = compile e1 co @ bs" using compile_extends by blast
  have code: "scripts env (script st) = compile e2 (compile e1 co) @ opc b # rest"
    using Binary.prems(3) add_scriptc_one [of "opc b"] opc_bounds(1,2) [of b] by simp
  have "computes env st v1 (length (compile e1 co))"
    using Binary.IH(1) [of v1 st co] Binary.prems(1,4,5) v(1) code bs by simp
  then show ?case
    using run_binary [of env st v1 "length (compile e1 co)" v2 b v "compile e2 (compile e1 co)" rest]
      Binary.IH(2) [of v2 _ "compile e1 co" "opc b # rest"] Binary.prems v code eval_is_value by simp
qed

text \<open>
  C21: what the parser makes of a printed expression computes the value of the expression: run from the place where
  the code begins it ends behind it, with the value on top of the stack and what lay below unchanged.
\<close>

theorem parsed_expression_runs:
  assumes "expr_ok e" "rest_ok r" "binds (- 1) r" "eval e = Some v"
  shows "\<exists>st1. parse_subexpr (print_expr (- 1) e @ r) (- 1) st0 = Ok (r, st1) \<and>
    (\<forall>env st rest. scripts env (script st) = code st1 @ rest \<and> pos st = int (length (code st0)) \<and> 0 \<le> sp st \<longrightarrow>
      computes env st v (length (code st1)))"
  using parses_whole [OF assms(1-3), of st0] run_expr [OF assms(1,4)] by (auto simp: emit_def)

text \<open>The value of \<open>1+2*3\<close> with a \<open>;\<close> behind it.\<close>

theorem parsed_expression_runs_witness:
  "\<exists>st1. parse_subexpr (print_expr (- 1) (Binary Add (Num 1) (Binary Mul (Num 2) (Num 3))) @ '';'') (- 1) no_code = Ok ('';'', st1) \<and>
    (\<forall>env st rest. scripts env (script st) = code st1 @ rest \<and> pos st = int (length (code no_code)) \<and> 0 \<le> sp st \<longrightarrow>
      computes env st (D_INT 7) (length (code st1)))"
proof (rule parsed_expression_runs [OF _ semicolon_ends])
  show "eval (Binary Add (Num 1) (Binary Mul (Num 2) (Num 3))) = Some (D_INT 7)" by code_simp
qed simp

section \<open>Multiplication\<close>

lemma div_less:
  assumes "0 < y"
  shows "k div y < x \<longleftrightarrow> k < x * (y :: int)"
proof
  assume "k div y < x"
  then have "(k div y + 1) * y \<le> x * y" using assms by (intro mult_right_mono) auto
  then show "k < x * y"
    using pos_mod_bound [OF assms, of k] div_mult_mod_eq [of k y] unfolding distrib_right by linarith
next
  assume less: "k < x * y"
  show "k div y < x"
  proof (rule ccontr)
    assume "\<not> k div y < x"
    then have "x * y \<le> (k div y) * y" using assms by (intro mult_right_mono) auto
    then show False using less pos_mod_sign [OF assms, of k] div_mult_mod_eq [of k y] by linarith
  qed
qed

lemma mul_nonneg:
  assumes "0 \<le> a" "0 \<le> b"
  shows "script_mul a b = min (a * b) INT_MAX"
proof (cases "a = 0 \<or> b = 0")
  case True
  then show ?thesis using assms by (auto simp: script_mul_def cdiv_nonneg INT_MAX_def s32_id pos_imp_zdiv_neg_iff)
next
  case False
  then have ab: "0 < a" "0 < b" using assms by auto
  have gt: "cdiv INT_MAX y < x \<longleftrightarrow> INT_MAX < x * y" if "0 < y" for x y
    using that div_less [of y INT_MAX x] by (simp add: cdiv_nonneg INT_MAX_def)
  have "s32 (a * b) = a * b" if "a * b \<le> INT_MAX"
    using that ab by (intro s32_id) (auto simp: INT_MAX_def intro: order.trans [of _ 0])
  then show ?thesis
    using ab gt [of a b] gt [of b a] by (auto simp: script_mul_def mult.commute [of b a])
qed

lemma mul_sign:
  assumes "0 \<le> a" "- INT_MAX \<le> b" "b < 0"
  shows "cdiv INT_MAX b < a"
proof -
  have "1 \<le> INT_MAX div (- b)"
    using assms div_less [of "- b" INT_MAX 1] by simp
  then show ?thesis using assms(1,3) by (simp add: cdiv_def INT_MAX_def)
qed

text \<open>
  For factors that are not negative the multiplication is exact up to the greatest number and stops there;
  a negative factor with one that is not negative gives the greatest number, whatever the factors are, even 0.
\<close>

lemma script_mul_value:
  assumes "- INT_MAX \<le> a" "- INT_MAX \<le> b"
  shows "(0 \<le> a \<and> 0 \<le> b \<longrightarrow> script_mul a b = min (a * b) INT_MAX) \<and>
    (0 \<le> a \<and> b < 0 \<or> a < 0 \<and> 0 \<le> b \<longrightarrow> script_mul a b = INT_MAX)"
  using mul_nonneg [of a b] mul_sign [of a b] mul_sign [of b a] assms by (auto simp: script_mul_def)

text \<open>Neither \<open>4 * -3\<close> nor \<open>0 * -3\<close> is what it says.\<close>

theorem script_mul_value_witness: "script_mul 6 7 = 42 \<and> script_mul 65536 65536 = INT_MAX \<and> script_mul 0 (- 3) = INT_MAX"
  using script_mul_value [of 6 7] script_mul_value [of 65536 65536] script_mul_value [of 0 "- 3"]
  by (simp add: INT_MAX_def)

section \<open>The loop ends\<close>

text \<open>Only the loop itself changes the number of commands that are left.\<close>

named_theorems kept

lemma kept_basic [kept]:
  "cmdcount (wild st) = cmdcount st" "cmdcount (event e st) = cmdcount st" "cmdcount (put i d st) = cmdcount st"
  "cmdcount (push_val d st) = cmdcount st" "cmdcount (push_copy i st) = cmdcount st"
  "cmdcount (pop_stack a b st) = cmdcount st" "cmdcount (snd (pop_val env st)) = cmdcount st"
  "cmdcount (set_reg env num name v st) = cmdcount st"
  by (simp_all add: wild_def event_def put_def push_val_def push_copy_def pop_stack_def pop_val_def Let_def set_reg_def)

lemma kept_fold [kept]:
  "(\<And>x st. x \<in> set xs \<Longrightarrow> cmdcount (f x st) = cmdcount st) \<Longrightarrow> cmdcount (fold f xs st) = cmdcount (st :: script_state)"
  by (induction xs arbitrary: st) auto

lemma kept_args [kept]:
  "cmdcount (conv_arg_num env k st) = cmdcount st" "cmdcount (conv_arg_str env k st) = cmdcount st"
  "cmdcount (copy_args k st) = cmdcount st" "cmdcount (set_var env num k st) = cmdcount st"
  by (simp_all add: conv_arg_num_def conv_arg_str_def copy_args_def set_var_def Let_def kept)

lemma kept_frame [kept]: "cmdcount (push_frame st) = cmdcount st" "cmdcount (return_frame env s st) = cmdcount st"
  by (simp_all add: push_frame_def return_frame_def Let_def kept)

lemma kept_menu [kept]: "cmdcount (snd (menu_text env st)) = cmdcount st"
proof -
  have "cmdcount (snd (fold (\<lambda>k (buf, st). let st = conv_arg_str env k st in (buf @ str_of (arg st k) @ '':'', st)) ks (b, st)))
      = cmdcount st" for ks b
    by (induction ks arbitrary: b st) (simp_all add: Let_def kept)
  then show ?thesis by (simp add: menu_text_def)
qed

lemma kept_commands [kept]:
  "cmdcount (buildin_mes env st) = cmdcount st" "cmdcount (buildin_goto env st) = cmdcount st"
  "cmdcount (buildin_callfunc env st) = cmdcount st" "cmdcount (buildin_callsub env st) = cmdcount st"
  "cmdcount (buildin_getarg env st) = cmdcount st" "cmdcount (buildin_return st) = cmdcount st"
  "cmdcount (buildin_next st) = cmdcount st" "cmdcount (buildin_close st) = cmdcount st"
  "cmdcount (buildin_close2 st) = cmdcount st" "cmdcount (buildin_end st) = cmdcount st"
  "cmdcount (buildin_rand env st) = cmdcount st" "cmdcount (buildin_set env st) = cmdcount st"
  "cmdcount (buildin_setarray env st) = cmdcount st" "cmdcount (buildin_cleararray env st) = cmdcount st"
  "cmdcount (buildin_getelementofarray env st) = cmdcount st"
  by (simp_all add: buildin_mes_def buildin_goto_def buildin_callfunc_def buildin_callsub_def buildin_getarg_def
      buildin_return_def buildin_next_def buildin_close_def buildin_close2_def buildin_end_def buildin_rand_def
      buildin_set_def buildin_setarray_def buildin_cleararray_def buildin_getelementofarray_def Let_def kept
      split: sdata.split option.split)

lemma kept_buildin_menu [kept]: "cmdcount (buildin_menu env st) = cmdcount st"
  by (simp add: buildin_menu_def Let_def split_beta kept split: sdata.split)

lemma kept_command:
  assumes "\<And>st. cmdcount (call st) = cmdcount st" "\<And>name st. cmdcount (other_command env name st) = cmdcount st"
  shows "cmdcount (command call env name st) = cmdcount st"
  by (simp add: command_def buildin_if_def Let_def assms kept)

lemma kept_run_func:
  assumes "\<And>name st. cmdcount (other_command env name st) = cmdcount st"
  shows "cmdcount (run_func_n n env st) = cmdcount st"
proof (induction n arbitrary: st)
  case (Suc n)
  then show ?case by (simp add: Let_def kept kept_command assms split: sdata.split)
qed (simp add: kept)

lemma kept_operators [kept]:
  "cmdcount (op_add env st) = cmdcount st" "cmdcount (op_2str op s1 s2 st) = cmdcount st"
  "cmdcount (op_2num op i1 i2 st) = cmdcount st"
  by (simp_all add: op_add_def op_2str_def op_2num_def division_by_zero_def Let_def kept split: sdata.split prod.split)

lemma kept_op_2 [kept]: "cmdcount (op_2 env op st) = cmdcount st" "cmdcount (op_1num env op st) = cmdcount st"
  by (simp_all add: op_2_def op_1num_def Let_def kept split_beta)

lemma kept_vm_command:
  assumes "\<And>name st. cmdcount (other_command env name st) = cmdcount st"
  shows "cmdcount (vm_command env st) = cmdcount st"
  by (simp add: vm_command_def after_call_def run_func_def Let_def split_beta kept kept_run_func [OF assms])

lemma vm_round_cmdcount:
  assumes "\<And>name st. cmdcount (other_command env name st) = cmdcount st" "0 < cmdcount st"
  shows "cmdcount (vm_round env st) = cmdcount st - 1" "cmdcount st = 1 \<Longrightarrow> state (vm_round env st) = End"
  using kept_vm_command [OF assms(1), of st] assms(2) by (simp_all add: vm_round_def count_command_def Let_def)

text \<open>
  C22: with a limit on the number of commands the machine stops: after at most that many rounds, whatever the
  script is, the state is not \<open>Run\<close>, and the loop returns the state of that round. The number is a local
  variable of \<open>run_script_main\<close>, so that the commands that are not modelled cannot change it.
\<close>

lemma vm_loop_stops:
  assumes "\<And>name st. cmdcount (other_command env name st) = cmdcount st" "0 < cmdcount st"
  shows "\<exists>k \<le> nat (cmdcount st). vm_loop env st = Some ((vm_round env ^^ k) st) \<and> state ((vm_round env ^^ k) st) \<noteq> Run"
  using assms(2)
proof (induction "nat (cmdcount st)" arbitrary: st)
  case (Suc n)
  show ?case
  proof (cases "state st = Run")
    case True
    have loop: "vm_loop env st = vm_loop env (vm_round env st)" using True by (subst vm_loop.simps) simp
    note r = vm_round_cmdcount [OF assms(1) Suc.prems]
    show ?thesis
    proof (cases "cmdcount st = 1")
      case True
      then have "vm_loop env st = Some (vm_round env st)" using loop r(2) by (simp add: vm_loop.simps)
      then show ?thesis using True r(2) by (intro exI [of _ 1]) (simp add: One_nat_def)
    next
      case False
      then have "0 < cmdcount (vm_round env st)" "n = nat (cmdcount (vm_round env st))" using Suc r(1) by auto
      from Suc.hyps(1) [OF this(2,1)] obtain k where "k \<le> nat (cmdcount (vm_round env st))"
        "vm_loop env (vm_round env st) = Some ((vm_round env ^^ k) (vm_round env st))"
        "state ((vm_round env ^^ k) (vm_round env st)) \<noteq> Run" by blast
      then show ?thesis
        using loop r(1) Suc.prems by (intro exI [of _ "Suc k"]) (simp add: funpow_swap1)
    qed
  next
    case False
    then show ?thesis by (intro exI [of _ 0]) (simp add: vm_loop.simps)
  qed
qed simp

theorem run_script_main_ends:
  assumes "\<And>name st. cmdcount (other_command env name st) = cmdcount st" "0 < check_cmdcount (conf env)"
  shows "\<exists>k \<le> nat (check_cmdcount (conf env)). run_script_main env st =
      Some (finish_script ((vm_round env ^^ k) (start_script env st))) \<and>
    state ((vm_round env ^^ k) (start_script env st)) \<noteq> Run"
  using vm_loop_stops [OF assms(1), of "start_script env st"] assms(2)
  by (auto simp: run_script_main_def start_script_def)

section \<open>The loop over the lines\<close>

lemma fine_Ok: "fine p r \<Longrightarrow> r = Ok (p', st') \<Longrightarrow> length p' \<le> length p"
  by simp

lemma fine_parse_expr: "fine p (parse_expr p st)"
  using parse_fine [of "Sub (- 1)" p] by (simp add: parse_expr_def parse_subexpr_def)

lemma fine_line_args: "fine p (line_args n p st)"
proof (induction n arbitrary: p st)
  case (Suc n)
  have "fine p (line_args n (skip_space (if peek (skip_space q) 0 = CHR '','' then advance 1 (skip_space q) else skip_space q)) st')"
    if "length q \<le> length p" for q st'
    using that length_skip_space [of q] advance_le [of 1 "skip_space q"]
    by (intro fine_longer [OF Suc.IH] order.trans [OF length_skip_space]) auto
  then show ?case
    by (auto simp: Let_def simp del: if_split intro!: fine_andthen [OF fine_parse_expr order.refl])
qed simp

lemma skip_space_fixed: "skip_space p = q \<Longrightarrow> dropWhile isspace q = q \<and> \<not> (peek q 0 = CHR ''/'' \<and> peek q 1 \<in> {CHR ''/'', CHR ''*''})"
proof (induction p rule: skip_space.induct)
  case (1 p)
  define u where "u = dropWhile isspace p"
  consider "peek u 0 = CHR ''/'' \<and> peek u 1 = CHR ''/''" | "peek u 0 = CHR ''/'' \<and> peek u 1 = CHR ''*''"
    | "\<not> (peek u 0 = CHR ''/'' \<and> peek u 1 \<in> {CHR ''/'', CHR ''*''})" by blast
  then show ?case
  proof cases
    case 1
    then have "skip_space p = skip_space (dropWhile (\<lambda>c. c \<noteq> CHR 0x0A) u)"
      by (subst skip_space.simps) (simp add: u_def [symmetric] Let_def)
    then show ?thesis using "1.IH"(1) [OF u_def 1] "1.prems" by simp
  next
    case 2
    then have "skip_space p = skip_space (comment_end CHR ''/'' (tl u))"
      by (subst skip_space.simps) (simp add: u_def [symmetric] Let_def)
    then show ?thesis using "1.IH"(2) [OF u_def _ 2] "1.prems" 2 by simp
  next
    case 3
    then have "q = u" using "1.prems" by (subst (asm) skip_space.simps) (auto simp: u_def [symmetric] Let_def)
    then show ?thesis using 3 dropWhile_idem [of isspace p] by (simp add: u_def)
  qed
qed

lemma skip_space_idem: "skip_space (skip_space p) = skip_space p"
  using skip_space_fixed [of p "skip_space p"] by (subst skip_space.simps) (auto simp: Let_def)

text \<open>A line that is read takes something from the text.\<close>

lemma parse_line_shorter:
  assumes "parse_line p st = Ok (p', st')" "peek (skip_space p) 0 \<noteq> CHR '';''"
  shows "length p' < length p"
proof -
  obtain q st1 where q: "parse_simpleexpr (skip_space p) (st\<lparr>parse_cmd_if := 0\<rparr>) = Ok (q, st1)"
    and r: "andthen (line_args 128 (skip_space q) (emit (add_scriptc C_ARG) st1)) (\<lambda>(p, st).
          if peek p 0 \<noteq> CHR '';'' then Exit else Ok (advance 1 p, emit (add_scriptc C_FUNC) st)) = Ok (p', st')"
    using assms by (auto simp: parse_line_def Let_def andthen_def split: parsed.splits)
  obtain u st2 where u: "line_args 128 (skip_space q) (emit (add_scriptc C_ARG) st1) = Ok (u, st2)"
    and v: "peek u 0 = CHR '';''" "p' = advance 1 u"
    using r by (auto simp: andthen_def split: parsed.splits if_splits)
  have "fine (skip_space p) (parse_simpleexpr (skip_space p) (st\<lparr>parse_cmd_if := 0\<rparr>))"
    unfolding parse_simpleexpr_def by (rule parse_fine) simp
  from fine_Ok [OF this q] have "length q \<le> length p" using length_skip_space [of p] by simp
  moreover have "length u \<le> length q" using fine_Ok [OF fine_line_args u] length_skip_space [of q] by simp
  moreover have "u \<noteq> []" using v(1) by (auto simp: peek_def NUL_def)
  ultimately show ?thesis using v(2) advance_shorter [of u 1] by simp
qed

lemma semicolon_line:
  assumes "peek (skip_space p) 0 = CHR '';''"
  shows "parse_lines n p st labels = No_fuel"
  using assms
proof (induction n arbitrary: p st labels)
  case (Suc n)
  obtain t where t: "skip_space p = CHR '';'' # t" using Suc.prems by (cases "skip_space p") (auto simp: peek_def NUL_def)
  have sp: "skip_space (CHR '';'' # t) = CHR '';'' # t" by (rule skip_space_plain) (auto simp: isspace_def byte_def)
  have w: "skip_word (CHR '';'' # t) = CHR '';'' # t"
    by (cases t) (auto simp: skip_word_def skip_one_def peek_def isalnum_def isdigit_def byte_def)
  have "p \<noteq> []" using t by auto
  moreover have "peek p 0 \<noteq> CHR ''}''"
  proof
    assume "peek p 0 = CHR ''}''"
    then obtain u where "p = CHR ''}'' # u" using \<open>p \<noteq> []\<close> by (cases p) (auto simp: peek_def)
    moreover have "skip_space (CHR ''}'' # u) = CHR ''}'' # u" by (rule skip_space_plain) (auto simp: isspace_def byte_def)
    ultimately show False using t by simp
  qed
  moreover have "parse_line (CHR '';'' # t) st = Ok (CHR '';'' # t, st)"
    by (simp add: parse_line_def sp peek_def)
  ultimately show ?case
    using Suc.IH [of "CHR '';'' # t"] by (simp add: t sp w peek_def andthen_def Let_def)
qed simp

lemma parse_lines_stable:
  "length p < n \<Longrightarrow> n \<le> m \<Longrightarrow> parse_lines m p st labels = parse_lines n p st labels"
proof (induction "length p" arbitrary: p n m st labels rule: less_induct)
  case less
  obtain n' m' where nm: "n = Suc n'" "m = Suc m'" "length p \<le> n'" "n' \<le> m'"
    using less.prems by (cases n; cases m) auto
  show ?case
  proof (cases "peek (skip_space p) 0 = CHR '';''")
    case True
    then show ?thesis by (simp only: semicolon_line)
  next
    case False
    have rec: "parse_lines m' q st' l = parse_lines n' q st' l" if "length q < length p" for q st' l
      using less.hyps [OF that, of n' m'] that nm by simp
    have label: "length (advance 1 (skip_space (skip_word (skip_space p)))) < length p"
      if "peek (skip_space (skip_word (skip_space p))) 0 = CHR '':''"
    proof -
      have "length (skip_space (skip_word (skip_space p))) \<le> length p"
        by (intro order.trans [OF length_skip_space] order.trans [OF length_skip_word] length_skip_space)
      moreover have "skip_space (skip_word (skip_space p)) \<noteq> []" using that by (auto simp: peek_def NUL_def)
      ultimately show ?thesis using advance_shorter [of "skip_space (skip_word (skip_space p))" 1] by simp
    qed
    have line: "length (skip_space p') < length p" if "parse_line (skip_space p) st = Ok (p', st')" for p' st'
    proof -
      have "peek (skip_space (skip_space p)) 0 \<noteq> CHR '';''" using False by (simp add: skip_space_idem)
      from parse_line_shorter [OF that this] show ?thesis using length_skip_space [of p] length_skip_space [of p'] by simp
    qed
    show ?thesis
    proof (cases "parse_line (skip_space p) st")
      case (Ok r)
      then show ?thesis using rec label line nm(1,2) by (cases r) (simp add: Let_def andthen_def split: prod.split)
    qed (use rec label nm(1,2) in \<open>simp_all add: Let_def andthen_def split: prod.split\<close>)
  qed
qed

text \<open>
  C23: the loop over the lines of a script, with the bound of \<open>parse_script\<close> or a greater one, gives one result
  for all bounds; and a line that is only \<open>;\<close>, as a second \<open>;\<close> behind a command makes it, keeps it from
  ever ending.
\<close>

theorem parse_lines_ends_or_loops:
  "(length p < n \<longrightarrow> parse_lines n p st labels = parse_lines (length p + 1) p st labels) \<and>
   (peek (skip_space p) 0 = CHR '';'' \<longrightarrow> parse_lines n p st labels = No_fuel)"
  using parse_lines_stable [of p "length p + 1" n st labels] semicolon_line [of p n st labels] by auto

theorem parse_lines_ends_or_loops_witness:
  "parse_lines 5 '';}'' no_code [] = No_fuel"
proof -
  have "skip_space '';}'' = '';}''" by (rule skip_space_plain) (auto simp: isspace_def byte_def)
  then have "peek (skip_space '';}'') 0 = CHR '';''" by (simp add: peek_def)
  then show ?thesis by (rule parse_lines_ends_or_loops [THEN conjunct2, THEN mp])
qed

section \<open>Two scripts\<close>

definition demo_names :: "str_data list" where
  "demo_names = map (\<lambda>(name, type). no_str\<lparr>sname := name, stype := type\<rparr>)
     [([], C_NOP), ([], C_NOP), (''mes'', C_FUNC), (''goto'', C_FUNC), (''callsub'', C_FUNC), (''return'', C_FUNC),
      (''end'', C_FUNC), (''if'', C_FUNC), (''set'', C_FUNC), (''@x'', C_NAME)]"

definition demo_env :: "int \<Rightarrow> int list \<Rightarrow> script_env" where
  "demo_env limit bytes = \<lparr>names = demo_names, scripts = (\<lambda>_. bytes), userfunc = (\<lambda>_. None),
     conf = standard_config\<lparr>check_cmdcount := limit\<rparr>,
     readparam = (\<lambda>_. 0), other_command = (\<lambda>_ st. st)\<rparr>"

definition demo_state :: script_state where
  "demo_state = \<lparr>mem = (\<lambda>_. D_NOP), sp = 0, start = 0, fin = 0, pos = 0, state = Run, script = 0, defsp = 0, rerun_pos = 0,
     cmdcount = 0, gotocount = 0,
     regs = no_regs,
     mapr = \<lparr>mapreg_db = Map.empty, mapregstr_db = Map.empty, mapreg_dirty = 0\<rparr>,
     menu_or_input = False, npc_menu = 0, rands = [], events = []\<rparr>"

text \<open>\<open>{ L: goto L; }\<close> is stopped.\<close>

theorem run_script_main_ends_witness:
  "\<exists>k \<le> 8. run_script_main (demo_env 8 [8, 3, 0, 0, 7, 1, 0, 0, 0, 4, 9, 0]) demo_state =
      Some (finish_script ((vm_round (demo_env 8 [8, 3, 0, 0, 7, 1, 0, 0, 0, 4, 9, 0]) ^^ k)
        (start_script (demo_env 8 [8, 3, 0, 0, 7, 1, 0, 0, 0, 4, 9, 0]) demo_state))) \<and>
    state ((vm_round (demo_env 8 [8, 3, 0, 0, 7, 1, 0, 0, 0, 4, 9, 0]) ^^ k)
        (start_script (demo_env 8 [8, 3, 0, 0, 7, 1, 0, 0, 0, 4, 9, 0]) demo_state)) \<noteq> Run"
  using run_script_main_ends [of "demo_env 8 [8, 3, 0, 0, 7, 1, 0, 0, 0, 4, 9, 0]" demo_state]
  by (simp add: demo_env_def)

text \<open>
  \<open>{ set @x,callsub(L)+1; end; L: return 5; }\<close> just before the call of \<open>return\<close>, and the same with
  \<open>if(1) return 5;\<close> in the subroutine. The first leaves the 5 on the stack. In the second, \<open>return\<close> removes the frame of
  the subroutine while \<open>if\<close> is still at work, \<open>if\<close> then removes its own arguments from a stack that no longer has
  them, and the top of the stack is below 0 when the addition is to run.
\<close>

definition in_subroutine :: "sdata list \<Rightarrow> script_state" where
  "in_subroutine ds = (let m = [D_NAME 8, D_ARG, D_NAME 9, D_INT 0, D_INT 0, D_INT 0, D_RETINFO 19] @ ds in
     demo_state\<lparr>mem := (\<lambda>i. if i < length m then m ! i else D_NOP), sp := int (length m), defsp := 7\<rparr>)"

lemma return_from_subroutine:
  "(let st = run_func (demo_env 50 []) (in_subroutine [D_NAME 5, D_ARG, D_INT 5])
    in (state st, sp st, pos st, stack_at st 3)) = (Goto, 4, 19, D_INT 5)"
  by code_simp

lemma return_under_if:
  "(let st = run_func (demo_env 50 []) (in_subroutine [D_NAME 7, D_ARG, D_INT 1, D_NAME 5, D_INT 5])
    in (state st, sp st, pos st)) = (Goto, - 1, 19)"
  by code_simp

end
