(* ===== verification/Timer.thy ===== *)
theory Timer
  imports Prelude
begin

text \<open>
  The timers of \<open>src/src/common/timer.c\<close>: an array of timers, a stack of its unused slots and \<open>timer_heap\<close>, the
  slots that wait, with falling ticks, so that the last one is next. A tick is a 32 bit word that wraps around.
  What a timer calls is a parameter that may use the module in turn; the argument \<open>now\<close> is
  \<open>gettick_cache\<close>, which only the main loop sets.
\<close>

section \<open>State\<close>

record 'f timer =
  tick :: "32 word"
  func :: "'f option"
  td_id :: int
  td_data :: int
  td_type :: nat
  interval :: int

abbreviation (input) TIMER_ONCE_AUTODEL :: nat where "TIMER_ONCE_AUTODEL \<equiv> 1"
abbreviation (input) TIMER_INTERVAL :: nat where "TIMER_INTERVAL \<equiv> 2"

definition no_timer :: "'f timer" where
  "no_timer = \<lparr>tick = 0, func = None, td_id = 0, td_data = 0, td_type = 0, interval = 0\<rparr>"

text \<open>\<open>timer_data_max\<close> is the length of \<open>timer_data\<close>; \<open>free_timer_list\<close> begins with its top.\<close>

record 'f timers =
  timer_data :: "'f timer list"
  timer_data_num :: nat
  timer_heap :: "nat list"
  free_timer_list :: "nat list"

definition no_timers :: "'f timers" where
  "no_timers = \<lparr>timer_data = [], timer_data_num = 0, timer_heap = [], free_timer_list = []\<rparr>"

definition tick_of :: "'f timers \<Rightarrow> nat \<Rightarrow> 32 word" where
  "tick_of ts i = tick (timer_data ts ! i)"

definition set_timer :: "nat \<Rightarrow> ('f timer \<Rightarrow> 'f timer) \<Rightarrow> 'f timers \<Rightarrow> 'f timers" where
  "set_timer i f ts = ts\<lparr>timer_data := (timer_data ts)[i := f (timer_data ts ! i)]\<rparr>"

definition DIFF_TICK :: "32 word \<Rightarrow> 32 word \<Rightarrow> int" where
  "DIFF_TICK a b = sint (a - b)"

section \<open>The clock and the names of functions\<close>

text \<open>
  The time of day in seconds and microseconds gives milliseconds since the second of the start. The list of names
  serves messages.
\<close>

definition init_gettick :: "int \<Rightarrow> 32 word" where
  "init_gettick tv_sec = word_of_int tv_sec"

definition gettick_nocache :: "32 word \<Rightarrow> int \<Rightarrow> int \<Rightarrow> 32 word" where
  "gettick_nocache tick_start tv_sec tv_usec =
     (word_of_int tv_sec - tick_start) * 1000 + word_of_int (cdiv tv_usec 1000)"

definition add_timer_func_list :: "'f \<Rightarrow> string \<Rightarrow> ('f \<times> string) list \<Rightarrow> ('f \<times> string) list" where
  "add_timer_func_list f name tfl = (f, name) # tfl"

fun search_timer_func_list :: "'f \<Rightarrow> ('f \<times> string) list \<Rightarrow> string" where
  "search_timer_func_list f [] = ''???''"
| "search_timer_func_list f ((g, name) # tfl) = (if f = g then name else search_timer_func_list f tfl)"

section \<open>The waiting list\<close>

text \<open>The place for a timer with the tick \<open>j\<close>: from the end for short lists, by bisection for others.\<close>

fun linear_pos :: "(nat \<Rightarrow> 32 word) \<Rightarrow> 32 word \<Rightarrow> nat list \<Rightarrow> nat \<Rightarrow> nat" where
  "linear_pos t j h 0 = 0"
| "linear_pos t j h (Suc i) = (if j < t (h ! i) then Suc i else linear_pos t j h i)"

function binary_pos :: "(nat \<Rightarrow> 32 word) \<Rightarrow> 32 word \<Rightarrow> nat list \<Rightarrow> nat \<Rightarrow> nat \<Rightarrow> nat" where
  "binary_pos t j h mn mx =
     (if mn < mx then
        (let pivot = (mn + mx) div 2 in
         if j < t (h ! pivot) then binary_pos t j h (pivot + 1) mx else binary_pos t j h mn pivot)
      else mn)"
  by pat_completeness auto
termination by (relation "measure (\<lambda>(t, j, h, mn, mx). mx - mn)") auto

declare binary_pos.simps [simp del]

definition heap_pos :: "(nat \<Rightarrow> 32 word) \<Rightarrow> 32 word \<Rightarrow> nat list \<Rightarrow> nat" where
  "heap_pos t j h =
     (if length h < 4 then linear_pos t j h (length h)
      else if j < t (last h) then length h
      else binary_pos t j h 0 (length h - 1))"

definition push_timer_heap :: "nat \<Rightarrow> 'f timers \<Rightarrow> 'f timers" where
  "push_timer_heap i ts =
     (let h = timer_heap ts; p = heap_pos (tick_of ts) (tick_of ts i) h
      in ts\<lparr>timer_heap := take p h @ i # drop p h\<rparr>)"

section \<open>Operations\<close>

text \<open>A slot: from the stack, leaving out those that were never used, or the first one behind all used ones.\<close>

fun pop_free :: "nat \<Rightarrow> nat \<Rightarrow> nat list \<Rightarrow> nat \<times> nat list" where
  "pop_free n i [] = (i, [])"
| "pop_free n i (j # free) = (if i \<ge> n then pop_free n j free else (i, j # free))"

definition take_slot :: "'f timers \<Rightarrow> nat \<times> 'f timers" where
  "take_slot ts =
     (let n = timer_data_num ts;
          (i, free) = (case free_timer_list ts of [] \<Rightarrow> (n, []) | i # free \<Rightarrow> pop_free n i free);
          i = (if i \<ge> n then n + first_idx (\<lambda>td. td_type td = 0) (drop n (timer_data ts)) else i);
          ds = (if i \<ge> n \<and> i \<ge> length (timer_data ts) then timer_data ts @ replicate 256 no_timer else timer_data ts)
      in (i, ts\<lparr>timer_data := ds, free_timer_list := free\<rparr>))"

definition new_timer :: "'f timer \<Rightarrow> 'f timers \<Rightarrow> nat \<times> 'f timers" where
  "new_timer td ts =
     (let (i, ts) = take_slot ts; ts = push_timer_heap i (set_timer i (\<lambda>_. td) ts)
      in (i, if i \<ge> timer_data_num ts then ts\<lparr>timer_data_num := i + 1\<rparr> else ts))"

definition add_timer :: "32 word \<Rightarrow> 'f \<Rightarrow> int \<Rightarrow> int \<Rightarrow> 'f timers \<Rightarrow> nat \<times> 'f timers" where
  "add_timer t f i d ts = new_timer
     \<lparr>tick = t, func = Some f, td_id = i, td_data = d, td_type = TIMER_ONCE_AUTODEL, interval = 1000\<rparr> ts"

definition add_timer_interval :: "32 word \<Rightarrow> 'f \<Rightarrow> int \<Rightarrow> int \<Rightarrow> int \<Rightarrow> 'f timers \<Rightarrow> nat \<times> 'f timers" where
  "add_timer_interval t f i d v ts = new_timer
     \<lparr>tick = t, func = Some f, td_id = i, td_data = d, td_type = TIMER_INTERVAL, interval = v\<rparr> ts"

definition delete_timer :: "int \<Rightarrow> 'f \<Rightarrow> 'f timers \<Rightarrow> int \<times> 'f timers" where
  "delete_timer i f ts =
     (if i < 0 \<or> i \<ge> int (length (timer_data ts)) then (- 1, ts)
      else if func (timer_data ts ! nat i) \<noteq> Some f then (- 2, ts)
      else (0, set_timer (nat i) (\<lambda>td. td\<lparr>func := None, td_type := TIMER_ONCE_AUTODEL\<rparr>) ts))"

definition add_tick :: "int \<Rightarrow> 'f timer \<Rightarrow> 'f timer" where
  "add_tick v td = td\<lparr>tick := tick td + word_of_int v\<rparr>"

definition addtick_timer :: "int \<Rightarrow> int \<Rightarrow> 'f timers \<Rightarrow> 32 word \<times> 'f timers" where
  "addtick_timer tid v ts =
     (if tid < 0 \<or> tid \<ge> int (length (timer_data ts)) then (- 1, ts)
      else
        (let i = nat tid; k = first_idx (\<lambda>j. j = i) (timer_heap ts);
             ts = (if k = length (timer_heap ts) then set_timer i (add_tick v) ts
               else push_timer_heap i (set_timer i (add_tick v)
                 (ts\<lparr>timer_heap := take k (timer_heap ts) @ drop (k + 1) (timer_heap ts)\<rparr>)))
         in (tick_of ts i, ts)))"

section \<open>Running the timers\<close>

text \<open>How long the main loop may wait for a timer that is due in \<open>nextmin\<close> ms.\<close>

definition wait_time :: "int \<Rightarrow> int" where
  "wait_time nextmin = (if nextmin < 50 then 50 else if nextmin > 1000 then 1000 else nextmin)"

text \<open>What happens to a timer after its call.\<close>

definition retire_timer :: "32 word \<Rightarrow> nat \<Rightarrow> 'f timers \<Rightarrow> 'f timers" where
  "retire_timer now i ts =
     (let ts = (if func (timer_data ts ! i) = None
            then set_timer i (\<lambda>td. td\<lparr>td_type := TIMER_ONCE_AUTODEL\<rparr>) ts else ts);
          td = timer_data ts ! i
      in if td_type td = TIMER_ONCE_AUTODEL then
           (set_timer i (\<lambda>td. td\<lparr>td_type := 0\<rparr>) ts)\<lparr>free_timer_list := i # free_timer_list ts\<rparr>
         else if td_type td = TIMER_INTERVAL then
           push_timer_heap i (set_timer i (\<lambda>td. td\<lparr>tick :=
             (if DIFF_TICK (tick td) now < - 1000 then now else tick td) + word_of_int (interval td)\<rparr>) ts)
         else ts)"

type_synonym ('f, 'w) timer_call =
  "'f \<Rightarrow> nat \<Rightarrow> 32 word \<Rightarrow> int \<Rightarrow> int \<Rightarrow> 'f timers \<times> 'w \<Rightarrow> 'f timers \<times> 'w"

definition run_timer :: "('f, 'w) timer_call \<Rightarrow> 32 word \<Rightarrow> 'f timers \<times> 'w \<Rightarrow> 'f timers \<times> 'w" where
  "run_timer call now s = (case s of (ts, w) \<Rightarrow>
     (let i = last (timer_heap ts); td = timer_data ts ! i; s = (ts\<lparr>timer_heap := butlast (timer_heap ts)\<rparr>, w);
          (ts, w) = (case func td of
              None \<Rightarrow> s
            | Some f \<Rightarrow> call f i (if DIFF_TICK (tick td) now < - 1000 then now else tick td) (td_id td) (td_data td) s)
      in (retire_timer now i ts, w)))"

partial_function (option) do_timer ::
    "('f, 'w) timer_call \<Rightarrow> 32 word \<Rightarrow> 'f timers \<times> 'w \<Rightarrow> (int \<times> 'f timers \<times> 'w) option" where
  "do_timer call now s =
     (if timer_heap (fst s) = [] then Some (1000, s)
      else
        (let td = timer_data (fst s) ! last (timer_heap (fst s)); nextmin = DIFF_TICK (tick td) now in
         if nextmin > 0 \<and> func td \<noteq> None then Some (wait_time nextmin, s)
         else do_timer call now (run_timer call now s)))"

declare do_timer.simps [code]

end
