(* ===== verification/TimerProofs.thy ===== *)
theory TimerProofs
  imports Timer
begin

text \<open>
  Lemmas on the timers: the search for the place in the waiting list, in both its forms, agrees with insertion
  behind the later ones; the slots stay divided between the waiting list, the unused ones and the one that runs,
  whatever the called functions do with the module; and the loop ends with no due timer left.
\<close>

declare One_nat_def [simp del]

section \<open>The clock\<close>

text \<open>For the first 49 days after the start the clock counts milliseconds.\<close>

lemma gettick_exact:
  assumes "start \<le> sec" "0 \<le> usec" "usec < 1000000" "(sec - start) * 1000 + usec div 1000 < 2 ^ 32"
  shows "uint (gettick_nocache (init_gettick start) sec usec) = (sec - start) * 1000 + usec div 1000"
proof -
  have "gettick_nocache (init_gettick start) sec usec = word_of_int ((sec - start) * 1000 + usec div 1000)"
    using assms(2) by (simp add: gettick_nocache_def init_gettick_def cdiv_nonneg)
  moreover have "0 \<le> (sec - start) * 1000 + usec div 1000" using assms by simp
  ultimately show ?thesis using assms(4) by (simp only: uint_word_of_int) simp
qed

section \<open>The waiting list\<close>

definition falling :: "(nat \<Rightarrow> 32 word) \<Rightarrow> nat list \<Rightarrow> bool" where
  "falling t h \<longleftrightarrow> sorted_wrt (\<lambda>a b. t b \<le> t a) h"

lemma falling_nth: "falling t h \<Longrightarrow> a \<le> b \<Longrightarrow> b < length h \<Longrightarrow> t (h ! b) \<le> t (h ! a)"
  by (cases "a = b") (auto simp: falling_def sorted_wrt_iff_nth_less)

lemma last_lowest:
  assumes "falling t h" "i \<in> set h"
  shows "t (last h) \<le> t i"
proof -
  obtain k where k: "k < length h" "h ! k = i" using assms(2) by (auto simp: in_set_conv_nth)
  then have "last h = h ! (length h - 1)" by (intro last_conv_nth) auto
  then show ?thesis using falling_nth [OF assms(1), of k "length h - 1"] k by simp
qed

lemma linear_pos_prefix:
  assumes "falling t h"
  shows "n \<le> length h \<Longrightarrow> linear_pos t j h n = length (takeWhile (\<lambda>i. j < t i) (take n h))"
proof (induction n)
  case (Suc n)
  show ?case
  proof (cases "j < t (h ! n)")
    case True
    have "\<forall>i \<in> set (take (Suc n) h). j < t i"
    proof
      fix i assume "i \<in> set (take (Suc n) h)"
      then obtain k where "k \<le> n" "i = h ! k" using Suc.prems by (auto simp: in_set_conv_nth less_Suc_eq_le)
      then show "j < t i" using falling_nth [OF assms, of k n] Suc.prems True by auto
    qed
    then show ?thesis using True Suc.prems by (subst takeWhile_eq_all_conv [THEN iffD2]) auto
  next
    case False
    then show ?thesis using Suc by (simp add: take_Suc_conv_app_nth takeWhile_tail)
  qed
qed simp

lemma binary_pos_bounds:
  "\<lbrakk>falling t h; mn \<le> mx; mx < length h; \<forall>k < mn. j < t (h ! k); \<not> j < t (h ! mx)\<rbrakk> \<Longrightarrow>
    (\<forall>k < binary_pos t j h mn mx. j < t (h ! k)) \<and> binary_pos t j h mn mx < length h \<and>
    \<not> j < t (h ! binary_pos t j h mn mx)"
proof (induction t j h mn mx rule: binary_pos.induct)
  case (1 t j h mn mx)
  define p where "p = (mn + mx) div 2"
  show ?case
  proof (cases "mn < mx")
    case True
    show ?thesis
    proof (cases "j < t (h ! p)")
      case less: True
      have "\<forall>k < p + 1. j < t (h ! k)"
        using falling_nth [OF "1.prems"(1), of _ p] less True "1.prems"(3) by (auto simp: p_def intro: less_le_trans)
      moreover have "p + 1 \<le> mx" using True by (simp add: p_def)
      ultimately show ?thesis
        using "1.IH"(1) [OF True p_def less] "1.prems" True less by (subst (1 2 3) binary_pos.simps) (simp add: p_def [symmetric])
    next
      case False
      have "mn \<le> p" "p < length h" using True "1.prems"(3) by (simp_all add: p_def)
      then show ?thesis
        using "1.IH"(2) [OF True p_def False] "1.prems" True False by (subst (1 2 3) binary_pos.simps) (simp add: p_def [symmetric])
    qed
  next
    case False
    then show ?thesis using "1.prems" by (subst (1 2 3) binary_pos.simps) simp
  qed
qed

lemma heap_pos_prefix:
  assumes "falling t h"
  shows "take (heap_pos t j h) h = takeWhile (\<lambda>i. j < t i) h" "drop (heap_pos t j h) h = dropWhile (\<lambda>i. j < t i) h"
proof -
  have "heap_pos t j h = length (takeWhile (\<lambda>i. j < t i) h)"
  proof (cases "length h < 4")
    case True
    then show ?thesis using linear_pos_prefix [OF assms, of "length h"] by (simp add: heap_pos_def)
  next
    case False
    then have l: "last h = h ! (length h - 1)" by (subst last_conv_nth) auto
    show ?thesis
    proof (cases "j < t (last h)")
      case True
      have "j < t (h ! k)" if "k < length h" for k
        using falling_nth [OF assms, of k "length h - 1"] True l that by (simp add: less_le_trans)
      then have "\<forall>i \<in> set h. j < t i" by (auto simp: in_set_conv_nth)
      then show ?thesis using True False by (simp add: heap_pos_def takeWhile_eq_all_conv [THEN iffD2])
    next
      case last: False
      define p where "p = binary_pos t j h 0 (length h - 1)"
      have "(\<forall>k < p. j < t (h ! k)) \<and> p < length h \<and> \<not> j < t (h ! p)"
        unfolding p_def using assms False last l by (intro binary_pos_bounds) auto
      then have "takeWhile (\<lambda>i. j < t i) h = take p h" "p < length h" by (auto intro: takeWhile_eq_take_P_nth)
      then show ?thesis using False last by (simp add: heap_pos_def p_def)
    qed
  qed
  then show "take (heap_pos t j h) h = takeWhile (\<lambda>i. j < t i) h" "drop (heap_pos t j h) h = dropWhile (\<lambda>i. j < t i) h"
    using takeWhile_dropWhile_id [of "\<lambda>i. j < t i" h] by (simp_all add: takeWhile_eq_take [symmetric] dropWhile_eq_drop)
qed

lemma falling_insert:
  assumes "falling t h"
  shows "falling t (takeWhile (\<lambda>i. t x < t i) h @ x # dropWhile (\<lambda>i. t x < t i) h)"
proof -
  have "falling t (takeWhile (\<lambda>i. t x < t i) h @ dropWhile (\<lambda>i. t x < t i) h)" using assms by simp
  then have s: "falling t (takeWhile (\<lambda>i. t x < t i) h)" "falling t (dropWhile (\<lambda>i. t x < t i) h)"
    "\<forall>a \<in> set (takeWhile (\<lambda>i. t x < t i) h). \<forall>b \<in> set (dropWhile (\<lambda>i. t x < t i) h). t b \<le> t a"
    unfolding falling_def sorted_wrt_append by blast+
  have "\<forall>a \<in> set (takeWhile (\<lambda>i. t x < t i) h). t x \<le> t a" by (auto dest!: set_takeWhileD)
  moreover have "t b \<le> t x" if b: "b \<in> set (dropWhile (\<lambda>i. t x < t i) h)" for b
  proof -
    define D where "D = dropWhile (\<lambda>i. t x < t i) h"
    obtain c r where c: "D = c # r" using b unfolding D_def [symmetric] by (cases D) auto
    then have "\<not> t x < t c" using hd_dropWhile [of "\<lambda>i. t x < t i" h] by (simp add: D_def)
    then show ?thesis using b s(2) c unfolding D_def [symmetric] by (auto simp: falling_def)
  qed
  ultimately show ?thesis using s by (simp add: falling_def sorted_wrt_append)
qed

lemma push_heap:
  assumes "falling (tick_of ts) (timer_heap ts)"
  shows "push_timer_heap i ts = ts\<lparr>timer_heap := takeWhile (\<lambda>k. tick_of ts i < tick_of ts k) (timer_heap ts) @
    i # dropWhile (\<lambda>k. tick_of ts i < tick_of ts k) (timer_heap ts)\<rparr>"
  by (simp add: push_timer_heap_def Let_def heap_pos_prefix [OF assms])

text \<open>
  C24: both searches for the place of a timer, the one from the end and the bisection, insert it behind all that
  are due later and before all others, so that the list keeps its order and of timers with equal ticks the one
  added first runs first.
\<close>

theorem push_timer_heap_correct:
  assumes "sorted_wrt (\<lambda>a b. tick_of ts b \<le> tick_of ts a) (timer_heap ts)"
  shows "timer_heap (push_timer_heap i ts) = takeWhile (\<lambda>k. tick_of ts i < tick_of ts k) (timer_heap ts) @
      i # dropWhile (\<lambda>k. tick_of ts i < tick_of ts k) (timer_heap ts) \<and>
    sorted_wrt (\<lambda>a b. tick_of ts b \<le> tick_of ts a) (timer_heap (push_timer_heap i ts)) \<and>
    mset (timer_heap (push_timer_heap i ts)) = add_mset i (mset (timer_heap ts))"
proof -
  have f: "falling (tick_of ts) (timer_heap ts)" using assms by (simp add: falling_def)
  have "mset (takeWhile P h) + mset (dropWhile P h) = mset h" for P and h :: "nat list"
    by (metis mset_append takeWhile_dropWhile_id)
  then show ?thesis
    using falling_insert [OF f, of i] unfolding falling_def push_heap [OF f] by simp
qed

definition three_timers :: "nat timers" where
  "three_timers = \<lparr>timer_data = [no_timer\<lparr>tick := 5\<rparr>, no_timer\<lparr>tick := 9\<rparr>, no_timer\<lparr>tick := 5\<rparr>], timer_data_num = 3,
     timer_heap = [1, 2], free_timer_list = []\<rparr>"

lemma three_ticks: "tick_of three_timers 0 = 5" "tick_of three_timers 1 = 9" "tick_of three_timers 2 = 5"
  "timer_heap three_timers = [1, 2]"
  by (simp_all add: three_timers_def tick_of_def no_timer_def One_nat_def numeral_2_eq_2)

theorem push_timer_heap_correct_witness: "timer_heap (push_timer_heap 0 three_timers) = [1, 0, 2]"
  using push_timer_heap_correct [of three_timers 0, THEN conjunct1] by (simp add: three_ticks)

section \<open>The slots\<close>

text \<open>Every used slot waits, or is free, or belongs to \<open>busy\<close>, the timers that run now.\<close>

definition slots_ok :: "nat set \<Rightarrow> 'f timers \<Rightarrow> bool" where
  "slots_ok busy ts \<longleftrightarrow>
     distinct (timer_heap ts @ free_timer_list ts) \<and>
     set (timer_heap ts) \<union> set (free_timer_list ts) \<union> busy = {..<timer_data_num ts} \<and>
     (set (timer_heap ts) \<union> set (free_timer_list ts)) \<inter> busy = {} \<and>
     timer_data_num ts \<le> length (timer_data ts) \<and>
     (\<forall>i. timer_data_num ts \<le> i \<and> i < length (timer_data ts) \<longrightarrow>
       td_type (timer_data ts ! i) = 0 \<and> func (timer_data ts ! i) = None) \<and>
     (\<forall>i \<in> set (timer_heap ts) \<union> busy. td_type (timer_data ts ! i) \<in> {TIMER_ONCE_AUTODEL, TIMER_INTERVAL}) \<and>
     falling (tick_of ts) (timer_heap ts)"

lemma slots_okI:
  assumes "distinct (timer_heap ts @ free_timer_list ts)"
    and "set (timer_heap ts) \<union> set (free_timer_list ts) \<union> busy = {..<timer_data_num ts}"
    and "(set (timer_heap ts) \<union> set (free_timer_list ts)) \<inter> busy = {}"
    and "timer_data_num ts \<le> length (timer_data ts)"
    and "\<And>i. timer_data_num ts \<le> i \<Longrightarrow> i < length (timer_data ts) \<Longrightarrow>
       td_type (timer_data ts ! i) = 0 \<and> func (timer_data ts ! i) = None"
    and "\<And>i. i \<in> set (timer_heap ts) \<union> busy \<Longrightarrow> td_type (timer_data ts ! i) \<in> {TIMER_ONCE_AUTODEL, TIMER_INTERVAL}"
    and "falling (tick_of ts) (timer_heap ts)"
  shows "slots_ok busy ts"
  using assms unfolding slots_ok_def by blast

lemma slots_okD:
  assumes "slots_ok busy ts"
  shows "distinct (timer_heap ts @ free_timer_list ts)"
    and "set (timer_heap ts) \<union> set (free_timer_list ts) \<union> busy = {..<timer_data_num ts}"
    and "(set (timer_heap ts) \<union> set (free_timer_list ts)) \<inter> busy = {}"
    and "timer_data_num ts \<le> length (timer_data ts)"
    and "\<And>i. timer_data_num ts \<le> i \<Longrightarrow> i < length (timer_data ts) \<Longrightarrow>
       td_type (timer_data ts ! i) = 0 \<and> func (timer_data ts ! i) = None"
    and "\<And>i. i \<in> set (timer_heap ts) \<union> busy \<Longrightarrow> td_type (timer_data ts ! i) \<in> {TIMER_ONCE_AUTODEL, TIMER_INTERVAL}"
    and "falling (tick_of ts) (timer_heap ts)"
  using assms unfolding slots_ok_def by blast+

lemma slots_ok_busy:
  assumes "slots_ok busy ts" "i \<in> busy"
  shows "i < timer_data_num ts" "i < length (timer_data ts)" "i \<notin> set (timer_heap ts)" "i \<notin> set (free_timer_list ts)"
proof -
  have "i \<in> {..<timer_data_num ts}" using assms(2) unfolding slots_okD(2) [OF assms(1), symmetric] by blast
  then show "i < timer_data_num ts" "i < length (timer_data ts)" using slots_okD(4) [OF assms(1)] by simp_all
  show "i \<notin> set (timer_heap ts)" "i \<notin> set (free_timer_list ts)" using slots_okD(3) [OF assms(1)] assms(2) by blast+
qed

lemma falling_cong: "falling t h \<Longrightarrow> (\<And>i. i \<in> set h \<Longrightarrow> t i = t' i) \<Longrightarrow> falling t' h"
  using sorted_wrt_mono_rel [of h "\<lambda>a b. t b \<le> t a" "\<lambda>a b. t' b \<le> t' a"] by (auto simp: falling_def)

lemma set_timer_simps [simp]:
  "timer_heap (set_timer i f ts) = timer_heap ts" "free_timer_list (set_timer i f ts) = free_timer_list ts"
  "timer_data_num (set_timer i f ts) = timer_data_num ts" "length (timer_data (set_timer i f ts)) = length (timer_data ts)"
  "timer_data (set_timer i f ts) ! k = (if k = i \<and> i < length (timer_data ts) then f (timer_data ts ! i) else timer_data ts ! k)"
  by (simp_all add: set_timer_def) (metis list_update_beyond not_less nth_list_update)

text \<open>A timer that is not waiting goes into the list.\<close>

lemma push_simps:
  assumes "falling (tick_of ts) (timer_heap ts)"
  shows "set (timer_heap (push_timer_heap i ts)) = insert i (set (timer_heap ts))"
    and "distinct (timer_heap (push_timer_heap i ts)) \<longleftrightarrow> distinct (i # timer_heap ts)"
    and "free_timer_list (push_timer_heap i ts) = free_timer_list ts"
    and "timer_data_num (push_timer_heap i ts) = timer_data_num ts" "timer_data (push_timer_heap i ts) = timer_data ts"
    and "falling (tick_of (push_timer_heap i ts)) (timer_heap (push_timer_heap i ts))"
proof -
  let ?P = "\<lambda>k. tick_of ts i < tick_of ts k"
  have m: "mset (timer_heap (push_timer_heap i ts)) = mset (i # timer_heap ts)"
    unfolding push_heap [OF assms] by simp (metis mset_append takeWhile_dropWhile_id)
  show "set (timer_heap (push_timer_heap i ts)) = insert i (set (timer_heap ts))"
    using mset_eq_setD [OF m] by simp
  show "distinct (timer_heap (push_timer_heap i ts)) \<longleftrightarrow> distinct (i # timer_heap ts)"
    by (rule mset_eq_imp_distinct_iff [OF m])
  show "free_timer_list (push_timer_heap i ts) = free_timer_list ts"
    "timer_data_num (push_timer_heap i ts) = timer_data_num ts" and d: "timer_data (push_timer_heap i ts) = timer_data ts"
    by (simp_all add: push_timer_heap_def Let_def)
  have "tick_of (push_timer_heap i ts) = tick_of ts" using d by (simp add: fun_eq_iff tick_of_def)
  then show "falling (tick_of (push_timer_heap i ts)) (timer_heap (push_timer_heap i ts))"
    using falling_insert [OF assms, of i] by (simp add: push_heap [OF assms])
qed

lemma slots_ok_push:
  assumes "slots_ok (insert i busy) ts" "i \<notin> busy"
  shows "slots_ok busy (push_timer_heap i ts)"
proof -
  note ok = slots_okD [OF assms(1)]
  note p = push_simps [OF ok(7), of i]
  show ?thesis
  proof (rule slots_okI)
    show "distinct (timer_heap (push_timer_heap i ts) @ free_timer_list (push_timer_heap i ts))"
      using ok(1,3) p(1-3) by auto
    show "set (timer_heap (push_timer_heap i ts)) \<union> set (free_timer_list (push_timer_heap i ts)) \<union> busy =
        {..<timer_data_num (push_timer_heap i ts)}"
      using ok(2) unfolding p(1,3,4) by auto
    show "(set (timer_heap (push_timer_heap i ts)) \<union> set (free_timer_list (push_timer_heap i ts))) \<inter> busy = {}"
      using ok(3) assms(2) unfolding p(1,3) by auto
    show "td_type (timer_data (push_timer_heap i ts) ! k) \<in> {TIMER_ONCE_AUTODEL, TIMER_INTERVAL}"
      if "k \<in> set (timer_heap (push_timer_heap i ts)) \<union> busy" for k
      unfolding p(5) by (rule ok(6)) (use that in \<open>unfold p(1), blast\<close>)
    show "td_type (timer_data (push_timer_heap i ts) ! k) = 0 \<and> func (timer_data (push_timer_heap i ts) ! k) = None"
      if "timer_data_num (push_timer_heap i ts) \<le> k" "k < length (timer_data (push_timer_heap i ts))" for k
      using that unfolding p(4,5) by (rule ok(5))
    show "timer_data_num (push_timer_heap i ts) \<le> length (timer_data (push_timer_heap i ts))"
      unfolding p(4,5) by (rule ok(4))
    show "falling (tick_of (push_timer_heap i ts)) (timer_heap (push_timer_heap i ts))" by (rule p(6))
  qed
qed

text \<open>Changes of a timer that is not waiting, or that keep its tick.\<close>

lemma slots_ok_set_timer:
  assumes "slots_ok busy ts"
    and unused: "timer_data_num ts \<le> i \<Longrightarrow> td_type (f (timer_data ts ! i)) = td_type (timer_data ts ! i) \<and>
      func (f (timer_data ts ! i)) = func (timer_data ts ! i)"
    and type: "td_type (timer_data ts ! i) \<in> {TIMER_ONCE_AUTODEL, TIMER_INTERVAL} \<Longrightarrow>
      td_type (f (timer_data ts ! i)) \<in> {TIMER_ONCE_AUTODEL, TIMER_INTERVAL}"
    and tick: "i \<in> set (timer_heap ts) \<Longrightarrow> tick (f (timer_data ts ! i)) = tick (timer_data ts ! i)"
  shows "slots_ok busy (set_timer i f ts)"
proof -
  note ok = slots_okD [OF assms(1)]
  show ?thesis
  proof (rule slots_okI)
    show "falling (tick_of (set_timer i f ts)) (timer_heap (set_timer i f ts))"
      unfolding set_timer_simps(1) by (rule falling_cong [OF ok(7)]) (use tick in \<open>auto simp: tick_of_def\<close>)
    show "td_type (timer_data (set_timer i f ts) ! k) \<in> {TIMER_ONCE_AUTODEL, TIMER_INTERVAL}"
      if "k \<in> set (timer_heap (set_timer i f ts)) \<union> busy" for k
      using that ok(6) [of k] type by (cases "k = i") auto
    show "td_type (timer_data (set_timer i f ts) ! k) = 0 \<and> func (timer_data (set_timer i f ts) ! k) = None"
      if "timer_data_num (set_timer i f ts) \<le> k" "k < length (timer_data (set_timer i f ts))" for k
      using that ok(5) [of k] unused by (cases "k = i") auto
  qed (use ok(1-4) in simp_all)
qed

text \<open>Taking a slot, and the operations.\<close>

lemma take_slot_ok:
  assumes "slots_ok busy ts" "take_slot ts = (i, ts')"
  shows "i < length (timer_data ts')" "i \<notin> set (timer_heap ts) \<union> busy" "timer_heap ts' = timer_heap ts"
    "timer_data_num ts' = timer_data_num ts" "i \<le> timer_data_num ts"
    "set (free_timer_list ts') = set (free_timer_list ts) - {i}" "distinct (timer_heap ts' @ free_timer_list ts')"
    "i = timer_data_num ts \<or> i \<in> set (free_timer_list ts)"
    "\<And>k. k < length (timer_data ts) \<Longrightarrow> timer_data ts' ! k = timer_data ts ! k"
    "\<And>k. length (timer_data ts) \<le> k \<Longrightarrow> k < length (timer_data ts') \<Longrightarrow> timer_data ts' ! k = no_timer"
    "length (timer_data ts) \<le> length (timer_data ts')"
proof -
  note ok = slots_okD [OF assms(1)]
  define n where "n = timer_data_num ts"
  have facts: "i < length (timer_data ts') \<and> (i = n \<and> free_timer_list ts' = [] \<and> free_timer_list ts = [] \<or>
      free_timer_list ts = i # free_timer_list ts') \<and> timer_heap ts' = timer_heap ts \<and> timer_data_num ts' = n \<and>
      (timer_data ts' = timer_data ts \<or> timer_data ts' = timer_data ts @ replicate 256 no_timer)"
  proof (cases "free_timer_list ts")
    case Nil
    have "first_idx (\<lambda>td. td_type td = 0) (drop n (timer_data ts)) = 0"
      using ok(5) [of n] by (cases "n < length (timer_data ts)") (simp_all add: n_def flip: Cons_nth_drop_Suc)
    then show ?thesis
      using assms(2) ok(4) Nil by (auto simp: take_slot_def Let_def n_def)
  next
    case (Cons j free)
    then have "j < n" using ok(2) by (auto simp: n_def)
    then have "pop_free n j free = (j, free)" by (cases free) auto
    then show ?thesis
      using assms(2) ok(4) Cons \<open>j < n\<close> by (auto simp: take_slot_def Let_def n_def)
  qed
  show "i < length (timer_data ts')" "timer_heap ts' = timer_heap ts" "timer_data_num ts' = timer_data_num ts"
    using facts by (auto simp: n_def)
  show new: "i = timer_data_num ts \<or> i \<in> set (free_timer_list ts)" using facts by (auto simp: n_def)
  have less: "k < timer_data_num ts" if "k \<in> set (timer_heap ts) \<union> set (free_timer_list ts) \<union> busy" for k
    using that unfolding ok(2) by simp
  show "i \<le> timer_data_num ts" using new less [of i] by auto
  show "i \<notin> set (timer_heap ts) \<union> busy"
  proof
    assume i: "i \<in> set (timer_heap ts) \<union> busy"
    then have "i \<in> set (free_timer_list ts)" using new less [of i] by auto
    then show False using i ok(1,3) by auto
  qed
  show "set (free_timer_list ts') = set (free_timer_list ts) - {i}" "distinct (timer_heap ts' @ free_timer_list ts')"
    using facts ok(1) by auto
  show "\<And>k. k < length (timer_data ts) \<Longrightarrow> timer_data ts' ! k = timer_data ts ! k"
    "\<And>k. length (timer_data ts) \<le> k \<Longrightarrow> k < length (timer_data ts') \<Longrightarrow> timer_data ts' ! k = no_timer"
    "length (timer_data ts) \<le> length (timer_data ts')"
    using facts by (auto simp: nth_append)
qed

lemma new_timer_ok:
  assumes ok: "slots_ok busy ts" and type: "td_type td \<in> {TIMER_ONCE_AUTODEL, TIMER_INTERVAL}"
    and new: "new_timer td ts = (i, ts')"
  shows "slots_ok busy ts'" "i \<notin> set (timer_heap ts) \<union> busy" "set (timer_heap ts') = insert i (set (timer_heap ts))"
    "timer_data ts' ! i = td"
proof -
  obtain ts1 where slot: "take_slot ts = (i, ts1)" using new by (auto simp: new_timer_def Let_def split: prod.splits)
  note s = take_slot_ok [OF ok slot] and oks = slots_okD [OF ok]
  define ts2 where "ts2 = (set_timer i (\<lambda>_. td) ts1)\<lparr>timer_data_num := max (i + 1) (timer_data_num ts1)\<rparr>"
  have push: "push_timer_heap i (t\<lparr>timer_data_num := n\<rparr>) = (push_timer_heap i t)\<lparr>timer_data_num := n\<rparr>" for t :: "'a timers" and n
  proof -
    have "tick_of (t\<lparr>timer_data_num := n\<rparr>) = tick_of t" by (simp add: fun_eq_iff tick_of_def)
    then show ?thesis by (simp add: push_timer_heap_def Let_def)
  qed
  define P where "P = push_timer_heap i (set_timer i (\<lambda>_. td) ts1)"
  have n: "timer_data_num P = timer_data_num ts1" by (simp add: P_def push_timer_heap_def Let_def)
  have r: "ts' = (if i \<ge> timer_data_num P then P\<lparr>timer_data_num := i + 1\<rparr> else P)"
    using new unfolding new_timer_def slot Let_def prod.case P_def [symmetric] by (rule Pair_inject) (rule sym)
  have "ts' = P\<lparr>timer_data_num := max (i + 1) (timer_data_num ts1)\<rparr>"
  proof (cases "timer_data_num ts1 \<le> i")
    case True
    then show ?thesis using r n by simp
  next
    case False
    then have "max (i + 1) (timer_data_num ts1) = timer_data_num P" using n by (simp add: max_def)
    then show ?thesis using r n False by simp
  qed
  then have ts': "ts' = push_timer_heap i ts2" unfolding ts2_def push P_def .
  have old: "timer_data ts2 ! k = timer_data ts ! k" if "k < timer_data_num ts" "k \<noteq> i" for k
    using that s(9) [of k] oks(4) by (simp add: ts2_def)
  have falls: "falling (tick_of ts2) (timer_heap ts2)"
  proof -
    have "timer_heap ts2 = timer_heap ts" by (simp add: ts2_def s(3))
    moreover have "tick_of ts k = tick_of ts2 k" if "k \<in> set (timer_heap ts)" for k
    proof -
      have "k < timer_data_num ts" "k \<noteq> i" using that oks(2) s(2) by blast+
      then show ?thesis using old [of k] by (simp add: tick_of_def)
    qed
    ultimately show ?thesis using falling_cong [OF oks(7)] by simp
  qed
  have ok2: "slots_ok (insert i busy) ts2"
  proof (rule slots_okI)
    have f: "timer_heap ts2 = timer_heap ts" "set (free_timer_list ts2) = set (free_timer_list ts) - {i}"
      "timer_data_num ts2 = max (i + 1) (timer_data_num ts)"
      using s(3,4,6) by (simp_all add: ts2_def)
    have "{..<max (i + 1) (timer_data_num ts)} = insert i {..<timer_data_num ts}"
      using s(5) by (auto simp: max_def)
    then show "set (timer_heap ts2) \<union> set (free_timer_list ts2) \<union> insert i busy = {..<timer_data_num ts2}"
      unfolding f oks(2) [symmetric] by blast
    show "(set (timer_heap ts2) \<union> set (free_timer_list ts2)) \<inter> insert i busy = {}"
      unfolding f using oks(3) s(2) by blast
    show "timer_data_num ts2 \<le> length (timer_data ts2)"
      using oks(4) s(1,4,11) by (simp add: ts2_def)
    show "td_type (timer_data ts2 ! k) = 0 \<and> func (timer_data ts2 ! k) = None"
      if "timer_data_num ts2 \<le> k" "k < length (timer_data ts2)" for k
      using that oks(5) [of k] s(4) s(9) [of k] s(10) [of k]
      by (cases "k < length (timer_data ts)") (auto simp: ts2_def no_timer_def)
    show "td_type (timer_data ts2 ! k) \<in> {TIMER_ONCE_AUTODEL, TIMER_INTERVAL}"
      if "k \<in> set (timer_heap ts2) \<union> insert i busy" for k
    proof (cases "k = i")
      case True
      then show ?thesis using type s(1) by (simp add: ts2_def)
    next
      case False
      then have k: "k \<in> set (timer_heap ts) \<union> busy" using that unfolding f by blast
      then have "k < timer_data_num ts" using oks(2) by blast
      then show ?thesis using oks(6) [OF k] old [of k] False by simp
    qed
  qed (use s(7) falls in \<open>simp_all add: ts2_def\<close>)
  show "slots_ok busy ts'" unfolding ts' by (rule slots_ok_push [OF ok2]) (use s(2) in blast)
  show "i \<notin> set (timer_heap ts) \<union> busy" by (rule s(2))
  show "set (timer_heap ts') = insert i (set (timer_heap ts))"
    unfolding ts' push_simps(1) [OF falls] by (simp add: ts2_def s(3))
  show "timer_data ts' ! i = td" unfolding ts' push_simps(5) [OF falls] using s(1) by (simp add: ts2_def)
qed

lemma delete_timer_ok: "slots_ok busy ts \<Longrightarrow> slots_ok busy (snd (delete_timer i f ts))"
proof -
  assume ok: "slots_ok busy ts"
  show ?thesis
  proof (cases "i < 0 \<or> i \<ge> int (length (timer_data ts)) \<or> func (timer_data ts ! nat i) \<noteq> Some f")
    case True
    then show ?thesis using ok by (auto simp: delete_timer_def)
  next
    case False
    then have "nat i < timer_data_num ts" using slots_okD(5) [OF ok, of "nat i"] by fastforce
    then have "slots_ok busy (set_timer (nat i) (\<lambda>td. td\<lparr>func := None, td_type := TIMER_ONCE_AUTODEL\<rparr>) ts)"
      using ok by (intro slots_ok_set_timer) simp_all
    then show ?thesis using False by (simp add: delete_timer_def)
  qed
qed

lemma slots_ok_pop:
  assumes "slots_ok busy ts" "k < length (timer_heap ts)"
  shows "slots_ok (insert (timer_heap ts ! k) busy) (ts\<lparr>timer_heap := take k (timer_heap ts) @ drop (k + 1) (timer_heap ts)\<rparr>)"
proof -
  note ok = slots_okD [OF assms(1)]
  define i where "i = timer_heap ts ! k"
  define h where "h = take k (timer_heap ts) @ drop (k + 1) (timer_heap ts)"
  have split: "timer_heap ts = take k (timer_heap ts) @ i # drop (k + 1) (timer_heap ts)"
    unfolding i_def using id_take_nth_drop [OF assms(2)] by (simp add: One_nat_def)
  have set: "set (timer_heap ts) = insert i (set h)"
    by (subst split) (auto simp: h_def)
  have dist: "distinct (i # h @ free_timer_list ts)"
    using ok(1) by (subst (asm) split) (auto simp: h_def)
  have falls: "falling (tick_of ts) h"
    using ok(7) unfolding falling_def h_def by (subst (asm) split) (auto simp: sorted_wrt_append)
  have tk: "tick_of (ts\<lparr>timer_heap := h\<rparr>) = tick_of ts" by (simp add: fun_eq_iff tick_of_def)
  show ?thesis
    unfolding i_def [symmetric] h_def [symmetric]
  proof (rule slots_okI)
    show "td_type (timer_data (ts\<lparr>timer_heap := h\<rparr>) ! j) \<in> {TIMER_ONCE_AUTODEL, TIMER_INTERVAL}"
      if "j \<in> set (timer_heap (ts\<lparr>timer_heap := h\<rparr>)) \<union> insert i busy" for j
      using that ok(6) [of j] set by auto
    show "falling (tick_of (ts\<lparr>timer_heap := h\<rparr>)) (timer_heap (ts\<lparr>timer_heap := h\<rparr>))" using falls tk by simp
  qed (use ok(2-5) dist set in auto)
qed

lemma addtick_timer_ok:
  assumes "slots_ok busy ts"
  shows "slots_ok busy (snd (addtick_timer tid v ts))"
proof -
  define i where "i = nat tid"
  define k where "k = first_idx (\<lambda>j. j = i) (timer_heap ts)"
  define ts1 where "ts1 = ts\<lparr>timer_heap := take k (timer_heap ts) @ drop (k + 1) (timer_heap ts)\<rparr>"
  consider "tid < 0 \<or> tid \<ge> int (length (timer_data ts))"
    | "\<not> (tid < 0 \<or> tid \<ge> int (length (timer_data ts)))" "k = length (timer_heap ts)"
    | "\<not> (tid < 0 \<or> tid \<ge> int (length (timer_data ts)))" "k < length (timer_heap ts)"
    using first_idx_le [of "\<lambda>j. j = i" "timer_heap ts"] by (cases "k = length (timer_heap ts)") (auto simp: k_def)
  then show ?thesis
  proof cases
    case 1
    then show ?thesis using assms by (auto simp: addtick_timer_def)
  next
    case 2
    then have "i \<notin> set (timer_heap ts)" unfolding k_def first_idx_length by auto
    then have "slots_ok busy (set_timer i (add_tick v) ts)"
      using assms by (intro slots_ok_set_timer) (auto simp: add_tick_def)
    then show ?thesis using 2 by (simp add: addtick_timer_def Let_def i_def k_def)
  next
    case 3
    have i: "timer_heap ts ! k = i" using first_idx_sat [of "\<lambda>j. j = i" "timer_heap ts"] 3(2) unfolding k_def by simp
    have ok1: "slots_ok (insert i busy) ts1" using slots_ok_pop [OF assms 3(2)] unfolding ts1_def i .
    have "i \<in> set (timer_heap ts)" using i 3(2) nth_mem by blast
    then have "i \<notin> busy" using slots_okD(3) [OF assms] by blast
    moreover have "slots_ok (insert i busy) (set_timer i (add_tick v) ts1)"
      using ok1 slots_okD(3) [OF ok1] by (intro slots_ok_set_timer) (auto simp: add_tick_def)
    ultimately have "slots_ok busy (push_timer_heap i (set_timer i (add_tick v) ts1))" by (rule slots_ok_push [rotated])
    then show ?thesis using 3 by (simp add: addtick_timer_def Let_def i_def k_def ts1_def)
  qed
qed

section \<open>What called functions may do\<close>

inductive timer_step :: "'f timers \<Rightarrow> 'f timers \<Rightarrow> bool" where
  step_add: "timer_step ts (snd (add_timer t f i d ts))"
| step_add_interval: "timer_step ts (snd (add_timer_interval t f i d v ts))"
| step_delete: "timer_step ts (snd (delete_timer i f ts))"
| step_addtick: "timer_step ts (snd (addtick_timer i v ts))"

lemma timer_step_ok: "timer_step ts ts' \<Longrightarrow> slots_ok busy ts \<Longrightarrow> slots_ok busy ts'"
proof (induction rule: timer_step.induct)
  case (step_add ts t f i d)
  then show ?case
    unfolding add_timer_def by (rule new_timer_ok(1) [OF _ _ surjective_pairing]) simp
next
  case (step_add_interval ts t f i d v)
  then show ?case
    unfolding add_timer_interval_def by (rule new_timer_ok(1) [OF _ _ surjective_pairing]) simp
qed (auto intro: delete_timer_ok addtick_timer_ok)

lemma timer_steps_ok: "timer_step\<^sup>*\<^sup>* ts ts' \<Longrightarrow> slots_ok busy ts \<Longrightarrow> slots_ok busy ts'"
  by (induction rule: rtranclp_induct) (auto intro: timer_step_ok)

lemma retire_timer_ok:
  assumes "slots_ok {i} ts"
  shows "slots_ok {} (retire_timer now i ts)"
proof -
  define ts1 where "ts1 = (if func (timer_data ts ! i) = None
            then set_timer i (\<lambda>td. td\<lparr>td_type := TIMER_ONCE_AUTODEL\<rparr>) ts else ts)"
  have i: "i < timer_data_num ts" "i \<notin> set (timer_heap ts)" using slots_ok_busy [OF assms] by auto
  have ok1: "slots_ok {i} ts1"
    using assms i by (auto simp: ts1_def intro!: slots_ok_set_timer)
  note o1 = slots_okD [OF ok1]
  have "td_type (timer_data ts1 ! i) \<in> {TIMER_ONCE_AUTODEL, TIMER_INTERVAL}" by (rule o1(6)) simp
  then consider "td_type (timer_data ts1 ! i) = TIMER_ONCE_AUTODEL" | "td_type (timer_data ts1 ! i) = TIMER_INTERVAL" by blast
  then show ?thesis
  proof cases
    case 1
    define ts2 where "ts2 = (set_timer i (\<lambda>td. td\<lparr>td_type := 0\<rparr>) ts1)\<lparr>free_timer_list := i # free_timer_list ts1\<rparr>"
    have "falling (tick_of ts2) (timer_heap ts2)"
      unfolding ts2_def by (simp, rule falling_cong [OF o1(7)]) (auto simp: tick_of_def)
    moreover have "td_type (timer_data ts2 ! k) \<in> {TIMER_ONCE_AUTODEL, TIMER_INTERVAL}" if "k \<in> set (timer_heap ts2)" for k
      using that o1(3) o1(6) [of k] by (auto simp: ts2_def)
    moreover have "td_type (timer_data ts2 ! k) = 0 \<and> func (timer_data ts2 ! k) = None"
      if "timer_data_num ts2 \<le> k" "k < length (timer_data ts2)" for k
      using that o1(5) [of k] o1(2) by (auto simp: ts2_def)
    ultimately have "slots_ok {} ts2"
      by (intro slots_okI) (use o1(1-4) in \<open>auto simp: ts2_def\<close>)
    then show ?thesis using 1 by (simp add: retire_timer_def Let_def ts1_def [symmetric] ts2_def)
  next
    case 2
    define ts2 where "ts2 = set_timer i (\<lambda>td. td\<lparr>tick :=
             (if DIFF_TICK (tick td) now < - 1000 then now else tick td) + word_of_int (interval td)\<rparr>) ts1"
    have "slots_ok {i} ts2" unfolding ts2_def using ok1 o1(3) by (intro slots_ok_set_timer) auto
    then have "slots_ok {} (push_timer_heap i ts2)" by (rule slots_ok_push) simp
    then show ?thesis using 2 by (simp add: retire_timer_def Let_def ts1_def [symmetric] ts2_def)
  qed
qed

section \<open>The loop\<close>

lemma DIFF_TICK_uint:
  assumes "now \<le> t" "uint t - uint now < 2 ^ 31"
  shows "DIFF_TICK t now = uint t - uint now"
proof -
  have u: "uint (t - now) = uint t - uint now" using assms(1) by (simp add: uint_sub_lem [THEN iffD1] word_le_def)
  have "sint (t - now) = signed_take_bit 31 (uint (t - now))" by (simp add: sint_uint)
  then show ?thesis using assms word_le_def [of now t] unfolding u DIFF_TICK_def by (simp add: signed_take_bit_int_eq_self)
qed

lemma DIFF_TICK_pos:
  assumes "now < t" "0 < DIFF_TICK t now"
  shows "DIFF_TICK t now = uint t - uint now"
proof -
  have u: "uint (t - now) = uint t - uint now" using assms(1) by (simp add: uint_sub_lem [THEN iffD1] word_less_def)
  have b: "uint (t - now) < 2 ^ 32" using uint_bounded [of "t - now"] by simp
  then have "take_bit 32 (uint (t - now)) = uint (t - now)" by (intro take_bit_int_eq_self) simp_all
  then have "sint (t - now) = uint (t - now) - 2 ^ 32 * of_bool (bit (uint (t - now)) 31)"
    by (simp add: sint_uint signed_take_bit_eq_take_bit_minus)
  then have "sint (t - now) = uint (t - now)"
    using assms(2) b by (cases "bit (uint (t - now)) 31") (simp_all add: DIFF_TICK_def)
  then show ?thesis using u by (simp add: DIFF_TICK_def)
qed

lemma wait_time_bounds: "50 \<le> wait_time n" "wait_time n \<le> 1000" "wait_time n \<le> max 50 n"
  by (simp_all add: wait_time_def)

text \<open>The state in which the loop returns \<open>r\<close>.\<close>

definition rests :: "32 word \<Rightarrow> int \<Rightarrow> 'f timers \<Rightarrow> bool" where
  "rests now r ts \<longleftrightarrow> slots_ok {} ts \<and> (timer_heap ts = [] \<and> r = 1000 \<or>
    timer_heap ts \<noteq> [] \<and> 0 < DIFF_TICK (tick_of ts (last (timer_heap ts))) now \<and>
      r = wait_time (DIFF_TICK (tick_of ts (last (timer_heap ts))) now))"

text \<open>The contract of what timers call: it uses the module through its operations only.\<close>

locale timer_client =
  fixes call :: "('f, 'w) timer_call"
  assumes call_steps: "timer_step\<^sup>*\<^sup>* (fst s) (fst (call f i t a b s))"
begin

lemma run_timer_ok:
  assumes ok: "slots_ok {} (fst s)" and h: "timer_heap (fst s) \<noteq> []"
  shows "slots_ok {} (fst (run_timer call now s))"
proof -
  obtain ts w where s: "s = (ts, w)" by (cases s)
  define i where "i = last (timer_heap ts)"
  define ts1 where "ts1 = ts\<lparr>timer_heap := butlast (timer_heap ts)\<rparr>"
  have "timer_heap ts ! (length (timer_heap ts) - 1) = i" using h s by (simp add: i_def last_conv_nth)
  then have "slots_ok {i} ts1"
    using slots_ok_pop [OF ok [unfolded s fst_conv], of "length (timer_heap ts) - 1"] h s
    by (simp add: ts1_def butlast_conv_take)
  moreover have "timer_step\<^sup>*\<^sup>* ts1 (fst (call f i t a b (ts1, w)))" for f t a b
    using call_steps [of "(ts1, w)"] by simp
  ultimately have call: "slots_ok {i} (fst (call f i t a b (ts1, w)))" for f t a b
    using timer_steps_ok by blast
  define c where "c = (case func (timer_data ts ! i) of None \<Rightarrow> (ts1, w) | Some f \<Rightarrow>
    call f i (if DIFF_TICK (tick (timer_data ts ! i)) now < - 1000 then now else tick (timer_data ts ! i))
      (td_id (timer_data ts ! i)) (td_data (timer_data ts ! i)) (ts1, w))"
  have "run_timer call now s = (retire_timer now i (fst c), snd c)"
    unfolding run_timer_def s prod.case Let_def i_def [symmetric] ts1_def [symmetric] c_def [symmetric]
    by (simp add: split_beta)
  moreover have "slots_ok {i} (fst c)"
    using call \<open>slots_ok {i} ts1\<close> by (cases "func (timer_data ts ! i)") (simp_all add: c_def)
  ultimately show ?thesis using retire_timer_ok by simp
qed

lemma do_timer_result:
  assumes "do_timer call now s = Some (r, s')" "slots_ok {} (fst s)"
  shows "rests now r (fst s')"
proof -
  have "call = call \<longrightarrow> slots_ok {} (fst s) \<longrightarrow> rests now (fst (r, s')) (fst (snd (r, s')))"
  proof (rule do_timer.raw_induct [where P = "\<lambda>c now s y. c = call \<longrightarrow> slots_ok {} (fst s) \<longrightarrow>
      rests now (fst y) (fst (snd y))", OF _ assms(1)])
    fix f :: "('f, 'w) timer_call \<Rightarrow> 32 word \<Rightarrow> 'f timers \<times> 'w \<Rightarrow> (int \<times> 'f timers \<times> 'w) option"
      and c now' and s1 :: "'f timers \<times> 'w" and y :: "int \<times> 'f timers \<times> 'w"
    define td where "td = timer_data (fst s1) ! last (timer_heap (fst s1))"
    assume IH: "\<And>c now s y. f c now s = Some y \<Longrightarrow> c = call \<longrightarrow> slots_ok {} (fst s) \<longrightarrow> rests now (fst y) (fst (snd y))"
      and body: "(if timer_heap (fst s1) = [] then Some (1000, s1)
       else let td = timer_data (fst s1) ! last (timer_heap (fst s1)); nextmin = DIFF_TICK (tick td) now'
         in if 0 < nextmin \<and> func td \<noteq> None then Some (wait_time nextmin, s1)
            else f c now' (run_timer c now' s1)) = Some y"
    show "c = call \<longrightarrow> slots_ok {} (fst s1) \<longrightarrow> rests now' (fst y) (fst (snd y))"
    proof (intro impI)
      assume c: "c = call" and ok: "slots_ok {} (fst s1)"
      show "rests now' (fst y) (fst (snd y))"
      proof (cases "timer_heap (fst s1) = [] \<or> 0 < DIFF_TICK (tick td) now' \<and> func td \<noteq> None")
        case True
        then show ?thesis using body ok by (auto simp: rests_def td_def tick_of_def Let_def split: if_splits)
      next
        case False
        then have n: "timer_heap (fst s1) \<noteq> []" "\<not> (0 < DIFF_TICK (tick td) now' \<and> func td \<noteq> None)" by blast+
        have "f call now' (run_timer call now' s1) = Some y"
          using body unfolding Let_def td_def [symmetric] if_not_P [OF n(1)] if_not_P [OF n(2)] c .
        then show ?thesis using IH run_timer_ok [OF ok n(1), of now'] by blast
      qed
    qed
  qed
  then show ?thesis using assms(2) by simp
qed

end

text \<open>
  C25: the slots of the timers keep their invariant whatever the called functions do with the module: no slot
  waits twice or is given away while it waits or runs, and none is lost. When \<open>do_timer\<close> returns, and the ticks do not wrap
  around between now and the timers that wait, none of these is due, and the time it returns, between 50
  and 1000 ms, is not longer than the first of them may wait, or 50.
\<close>

theorem do_timer_correct:
  assumes "\<And>f i t a b s. timer_step\<^sup>*\<^sup>* (fst s) (fst (call f i t a b s))"
    and "slots_ok {} (fst s)" "do_timer call now s = Some (r, s')"
  shows "slots_ok {} (fst s') \<and> 50 \<le> r \<and> r \<le> 1000 \<and>
    ((\<forall>i \<in> set (timer_heap (fst s')). 0 < DIFF_TICK (tick_of (fst s') i) now \<longleftrightarrow> now < tick_of (fst s') i) \<longrightarrow>
     (\<forall>i \<in> set (timer_heap (fst s')). 0 < DIFF_TICK (tick_of (fst s') i) now \<and>
        r \<le> max 50 (DIFF_TICK (tick_of (fst s') i) now)))"
proof -
  have "rests now r (fst s')"
    using assms(2,3) by (intro timer_client.do_timer_result [OF timer_client.intro]) (rule assms(1))
  then have ok: "slots_ok {} (fst s')" and r: "timer_heap (fst s') = [] \<and> r = 1000 \<or> timer_heap (fst s') \<noteq> [] \<and>
      0 < DIFF_TICK (tick_of (fst s') (last (timer_heap (fst s')))) now \<and>
      r = wait_time (DIFF_TICK (tick_of (fst s') (last (timer_heap (fst s')))) now)"
    by (auto simp: rests_def)
  define ts where "ts = fst s'"
  have "0 < DIFF_TICK (tick_of ts i) now \<and> r \<le> max 50 (DIFF_TICK (tick_of ts i) now)"
    if nowrap: "\<forall>i \<in> set (timer_heap ts). 0 < DIFF_TICK (tick_of ts i) now \<longleftrightarrow> now < tick_of ts i"
      and i: "i \<in> set (timer_heap ts)" for i
  proof -
    let ?l = "last (timer_heap ts)"
    have ne: "timer_heap ts \<noteq> []" using i by auto
    then have l: "?l \<in> set (timer_heap ts)" by simp
    have le: "tick_of ts ?l \<le> tick_of ts i"
      using last_lowest [OF slots_okD(7) [OF ok]] i by (simp add: ts_def)
    have dl: "0 < DIFF_TICK (tick_of ts ?l) now" "r = wait_time (DIFF_TICK (tick_of ts ?l) now)"
      using r ne by (auto simp: ts_def)
    then have nl: "now < tick_of ts ?l" using nowrap l by blast
    then have ni: "now < tick_of ts i" using le by simp
    then have di: "0 < DIFF_TICK (tick_of ts i) now" using nowrap i by blast
    have "DIFF_TICK (tick_of ts ?l) now \<le> DIFF_TICK (tick_of ts i) now"
      using DIFF_TICK_pos [OF nl dl(1)] DIFF_TICK_pos [OF ni di] le by (simp add: word_le_def)
    then show ?thesis using di dl(2) wait_time_bounds(3) [of "DIFF_TICK (tick_of ts ?l) now"] by simp
  qed
  moreover have "50 \<le> r" "r \<le> 1000" using r wait_time_bounds(1,2) by auto
  ultimately show ?thesis using ok unfolding ts_def by blast
qed

section \<open>Every due timer runs\<close>

text \<open>Calls that only leave a note, and timers near enough to \<open>now\<close> for the ticks not to wrap around.\<close>

definition note_call :: "('f, nat list) timer_call" where
  "note_call f i t a b s = (fst s, snd s @ [i])"

interpretation notes_calls: timer_client note_call
  by unfold_locales (simp add: note_call_def)

definition no_wrap :: "32 word \<Rightarrow> 'f timers \<Rightarrow> bool" where
  "no_wrap now ts \<longleftrightarrow> (\<forall>i \<in> set (timer_heap ts). let td = timer_data ts ! i in
     (if now < tick td then uint (tick td) - uint now < 2 ^ 31 else uint now - uint (tick td) < 2 ^ 31) \<and>
     (td_type td = TIMER_INTERVAL \<longrightarrow> 0 < interval td \<and> interval td < 2 ^ 31 \<and> uint now + interval td < 2 ^ 32))"

definition overdue :: "32 word \<Rightarrow> 'f timers \<Rightarrow> nat \<Rightarrow> nat" where
  "overdue now ts i = Suc (nat (uint now + 1 - uint (tick_of ts i)))"

lemma DIFF_TICK_neg:
  assumes "\<not> now < t" "uint now - uint t < 2 ^ 31"
  shows "DIFF_TICK t now \<le> 0"
proof -
  have "uint (t - now) = take_bit 32 (uint t - uint now)" by (simp add: uint_word_ariths take_bit_eq_mod)
  then have "DIFF_TICK t now = signed_take_bit 31 (uint t - uint now)"
    by (simp add: DIFF_TICK_def sint_uint signed_take_bit_take_bit)
  moreover have "signed_take_bit 31 (uint t - uint now) = uint t - uint now"
    using assms by (intro signed_take_bit_int_eq_self) (simp_all add: word_less_def)
  ultimately show ?thesis using assms(1) by (simp add: word_less_def)
qed

text \<open>The new tick of an interval timer.\<close>

definition next_tick :: "32 word \<Rightarrow> 'f timer \<Rightarrow> 32 word" where
  "next_tick now td = (if DIFF_TICK (tick td) now < - 1000 then now else tick td) + word_of_int (interval td)"

lemma next_tick_bounds:
  assumes "tick td \<le> now" "0 < interval td" "uint now + interval td < 2 ^ 32"
  shows "tick td < next_tick now td" "uint (next_tick now td) \<le> uint now + interval td"
proof -
  define b where "b = (if DIFF_TICK (tick td) now < - 1000 then now else tick td)"
  have b: "tick td \<le> b" "b \<le> now" using assms(1) by (auto simp: b_def)
  have "interval td < 2 ^ 32" using assms(3) uint_ge_0 [of now] by linarith
  then have "uint (word_of_int (interval td) :: 32 word) = interval td"
    using assms(2) by (simp add: uint_word_of_int)
  moreover have "uint b + interval td < 2 ^ 32" using b(2) assms(3) by (simp add: word_le_def)
  ultimately have "uint (b + word_of_int (interval td)) = uint b + interval td"
    by (subst uint_add_lem [THEN iffD1]) simp_all
  then have "uint (next_tick now td) = uint b + interval td" by (simp add: next_tick_def b_def)
  then show "tick td < next_tick now td" "uint (next_tick now td) \<le> uint now + interval td"
    using b assms(2) by (simp_all add: word_le_def word_less_def)
qed

lemma retire_timer_cases:
  assumes ok: "slots_ok {i} ts"
  obtains (freed) "timer_heap (retire_timer now i ts) = timer_heap ts"
      "\<And>k. k \<noteq> i \<Longrightarrow> timer_data (retire_timer now i ts) ! k = timer_data ts ! k"
    | (again) "func (timer_data ts ! i) \<noteq> None" "td_type (timer_data ts ! i) = TIMER_INTERVAL"
      "set (timer_heap (retire_timer now i ts)) = insert i (set (timer_heap ts))"
      "\<And>k. k \<noteq> i \<Longrightarrow> timer_data (retire_timer now i ts) ! k = timer_data ts ! k"
      "timer_data (retire_timer now i ts) ! i = (timer_data ts ! i)\<lparr>tick := next_tick now (timer_data ts ! i)\<rparr>"
proof (cases "func (timer_data ts ! i) = None \<or> td_type (timer_data ts ! i) = TIMER_ONCE_AUTODEL")
  case True
  have "i < length (timer_data ts)" using slots_ok_busy [OF ok] by simp
  then have "timer_heap (retire_timer now i ts) = timer_heap ts"
      "\<And>k. k \<noteq> i \<Longrightarrow> timer_data (retire_timer now i ts) ! k = timer_data ts ! k"
    using True by (auto simp: retire_timer_def Let_def)
  then show ?thesis by (rule freed)
next
  case False
  have i: "i < length (timer_data ts)" "i \<notin> set (timer_heap ts)" using slots_ok_busy [OF ok] by auto
  have type: "td_type (timer_data ts ! i) = TIMER_INTERVAL" using slots_okD(6) [OF ok, of i] False by auto
  define ts2 where "ts2 = set_timer i (\<lambda>td. td\<lparr>tick := next_tick now td\<rparr>) ts"
  obtain f where f: "func (timer_data ts ! i) = Some f" using False by auto
  have eq: "retire_timer now i ts = push_timer_heap i ts2"
    using f type by (simp add: retire_timer_def Let_def ts2_def next_tick_def)
  have falls: "falling (tick_of ts2) (timer_heap ts2)"
    unfolding ts2_def set_timer_simps(1)
    by (rule falling_cong [OF slots_okD(7) [OF ok]]) (use i(2) in \<open>auto simp: tick_of_def\<close>)
  have "set (timer_heap (retire_timer now i ts)) = insert i (set (timer_heap ts))"
    unfolding eq push_simps [OF falls] by (simp add: ts2_def)
  moreover have "timer_data (retire_timer now i ts) ! k = timer_data ts ! k" if "k \<noteq> i" for k
    unfolding eq push_simps [OF falls] using that by (simp add: ts2_def)
  moreover have "timer_data (retire_timer now i ts) ! i = (timer_data ts ! i)\<lparr>tick := next_tick now (timer_data ts ! i)\<rparr>"
    unfolding eq push_simps [OF falls] using i by (simp add: ts2_def)
  ultimately show ?thesis using again f type by simp
qed

text \<open>One timer that is due or deleted is taken off the list.\<close>

lemma run_timer_cases:
  fixes ts :: "'f timers" and now :: "32 word" and log :: "nat list"
  assumes ok: "slots_ok {} ts" and h: "timer_heap ts \<noteq> []" and nw: "no_wrap now ts"
    and due: "\<not> (0 < DIFF_TICK (tick_of ts (last (timer_heap ts))) now \<and> func (timer_data ts ! last (timer_heap ts)) \<noteq> None)"
    and i: "i = last (timer_heap ts)"
  obtains ts' log' where "run_timer note_call now (ts, log) = (ts', log')" "slots_ok {} ts'" "no_wrap now ts'"
    "set log \<subseteq> set log'" "func (timer_data ts ! i) \<noteq> None \<Longrightarrow> i \<in> set log'"
    "\<And>k. k \<noteq> i \<Longrightarrow> timer_data ts' ! k = timer_data ts ! k"
    "set (timer_heap ts') = set (timer_heap ts) - {i} \<or>
     set (timer_heap ts') = set (timer_heap ts) \<and> tick_of ts i \<le> now \<and> tick_of ts i < tick_of ts' i"
proof -
  define ts1 where "ts1 = ts\<lparr>timer_heap := butlast (timer_heap ts)\<rparr>"
  define ts' where "ts' = retire_timer now i ts1"
  define log' where "log' = (if func (timer_data ts ! i) = None then log else log @ [i])"
  have set1: "set (timer_heap ts1) = set (timer_heap ts) - {i}"
  proof -
    have "distinct (butlast (timer_heap ts) @ [i])" using slots_okD(1) [OF ok] h i by simp
    moreover have "set (timer_heap ts) = set (butlast (timer_heap ts) @ [i])" using h i by simp
    ultimately show ?thesis by (auto simp: ts1_def)
  qed
  have mem: "i \<in> set (timer_heap ts)" using h i by simp
  have "timer_heap ts ! (length (timer_heap ts) - 1) = i" using h i by (simp add: last_conv_nth)
  then have ok1: "slots_ok {i} ts1"
    using slots_ok_pop [OF ok, of "length (timer_heap ts) - 1"] h by (simp add: ts1_def butlast_conv_take)
  have run: "run_timer note_call now (ts, log) = (ts', log')"
    by (cases "func (timer_data ts ! i)") (simp_all add: run_timer_def Let_def i [symmetric] note_call_def ts'_def ts1_def log'_def)
  have ok': "slots_ok {} ts'" unfolding ts'_def by (rule retire_timer_ok [OF ok1])
  have data1: "timer_data ts1 = timer_data ts" by (simp add: ts1_def)
  show ?thesis
  proof (rule that [OF run ok'])
    show "set log \<subseteq> set log'" "func (timer_data ts ! i) \<noteq> None \<Longrightarrow> i \<in> set log'" by (auto simp: log'_def)
    show "timer_data ts' ! k = timer_data ts ! k" if "k \<noteq> i" for k
      by (rule retire_timer_cases [OF ok1, of now]) (use that in \<open>simp_all add: ts'_def data1\<close>)
    have nw_i: "(if now < tick (timer_data ts ! i) then uint (tick (timer_data ts ! i)) - uint now < 2 ^ 31
        else uint now - uint (tick (timer_data ts ! i)) < 2 ^ 31)"
      "td_type (timer_data ts ! i) = TIMER_INTERVAL \<Longrightarrow>
        0 < interval (timer_data ts ! i) \<and> interval (timer_data ts ! i) < 2 ^ 31 \<and> uint now + interval (timer_data ts ! i) < 2 ^ 32"
      using nw mem by (auto simp: no_wrap_def Let_def)
    have both: "no_wrap now ts' \<and> (set (timer_heap ts') = set (timer_heap ts) - {i} \<or>
      set (timer_heap ts') = set (timer_heap ts) \<and> tick_of ts i \<le> now \<and> tick_of ts i < tick_of ts' i)"
    proof (rule retire_timer_cases [OF ok1, of now])
      assume "timer_heap (retire_timer now i ts1) = timer_heap ts1"
        "\<And>k. k \<noteq> i \<Longrightarrow> timer_data (retire_timer now i ts1) ! k = timer_data ts1 ! k"
      then have "timer_heap ts' = timer_heap ts1" "\<And>k. k \<noteq> i \<Longrightarrow> timer_data ts' ! k = timer_data ts ! k"
        by (simp_all add: ts'_def data1)
      then show ?thesis using nw set1 by (simp add: no_wrap_def)
    next
      let ?td = "timer_data ts ! i"
      assume "func (timer_data ts1 ! i) \<noteq> None" "td_type (timer_data ts1 ! i) = TIMER_INTERVAL"
        "set (timer_heap (retire_timer now i ts1)) = insert i (set (timer_heap ts1))"
        "\<And>k. k \<noteq> i \<Longrightarrow> timer_data (retire_timer now i ts1) ! k = timer_data ts1 ! k"
        "timer_data (retire_timer now i ts1) ! i = (timer_data ts1 ! i)\<lparr>tick := next_tick now (timer_data ts1 ! i)\<rparr>"
      then have a: "func ?td \<noteq> None" "td_type ?td = TIMER_INTERVAL" "set (timer_heap ts') = set (timer_heap ts)"
        "\<And>k. k \<noteq> i \<Longrightarrow> timer_data ts' ! k = timer_data ts ! k" "timer_data ts' ! i = ?td\<lparr>tick := next_tick now ?td\<rparr>"
        using set1 mem by (auto simp: ts'_def data1)
      have le: "tick ?td \<le> now"
      proof (rule ccontr)
        assume "\<not> tick ?td \<le> now"
        then have "now < tick ?td" by simp
        then have "DIFF_TICK (tick ?td) now = uint (tick ?td) - uint now" "uint now < uint (tick ?td)"
          using nw_i(1) DIFF_TICK_uint [OF less_imp_le, of now "tick ?td"] by (simp_all add: word_less_def)
        then show False using due a(1) i by (simp add: tick_of_def)
      qed
      note int = nw_i(2) [OF a(2)]
      have new: "tick ?td < next_tick now ?td" "uint (next_tick now ?td) \<le> uint now + interval ?td"
        using next_tick_bounds [OF le] int by blast+
      have ti: "tick_of ts' i = next_tick now ?td" by (simp add: tick_of_def a(5))
      have "no_wrap now ts'"
        unfolding no_wrap_def Let_def
      proof
        fix k assume k: "k \<in> set (timer_heap ts')"
        show "(if now < tick (timer_data ts' ! k) then uint (tick (timer_data ts' ! k)) - uint now < 2 ^ 31
            else uint now - uint (tick (timer_data ts' ! k)) < 2 ^ 31) \<and>
          (td_type (timer_data ts' ! k) = TIMER_INTERVAL \<longrightarrow> 0 < interval (timer_data ts' ! k) \<and>
            interval (timer_data ts' ! k) < 2 ^ 31 \<and> uint now + interval (timer_data ts' ! k) < 2 ^ 32)"
        proof (cases "k = i")
          case True
          have "\<not> now < tick ?td" using le by simp
          then show ?thesis using nw_i(1) int new True by (simp add: a(5) word_less_def)
        next
          case False
          have "k \<in> set (timer_heap ts)" using k a(3) by simp
          from bspec [OF nw [unfolded no_wrap_def Let_def] this] show ?thesis unfolding a(4) [OF False] .
        qed
      qed
      then show ?thesis using a(3) le new(1) ti by (simp add: tick_of_def)
    qed
    then show "no_wrap now ts'" "set (timer_heap ts') = set (timer_heap ts) - {i} \<or>
      set (timer_heap ts') = set (timer_heap ts) \<and> tick_of ts i \<le> now \<and> tick_of ts i < tick_of ts' i" by blast+
  qed
qed

lemma overdue_less: "tick_of ts i \<le> now \<Longrightarrow> tick_of ts i < tick_of ts' i \<Longrightarrow> overdue now ts' i < overdue now ts i"
  by (simp add: overdue_def word_le_def word_less_def)

lemma do_timer_ends:
  "\<lbrakk>slots_ok {} ts; no_wrap now ts\<rbrakk> \<Longrightarrow> \<exists>r ts' log'. do_timer note_call now (ts, log) = Some (r, ts', log') \<and>
    set log \<subseteq> set log' \<and>
    (\<forall>i \<in> set (timer_heap ts). DIFF_TICK (tick_of ts i) now \<le> 0 \<and> func (timer_data ts ! i) \<noteq> None \<longrightarrow> i \<in> set log') \<and>
    no_wrap now ts'"
proof (induction "\<Sum>i \<in> set (timer_heap ts). overdue now ts i" arbitrary: ts log rule: less_induct)
  case less
  define i where "i = last (timer_heap ts)"
  have falls: "tick_of ts i \<le> tick_of ts k" if "k \<in> set (timer_heap ts)" for k
    unfolding i_def using last_lowest [OF slots_okD(7) [OF less.prems(1)] that] .
  show ?case
  proof (cases "timer_heap ts = [] \<or> 0 < DIFF_TICK (tick_of ts i) now \<and> func (timer_data ts ! i) \<noteq> None")
    case True
    have late: "\<not> DIFF_TICK (tick_of ts k) now \<le> 0" if k: "k \<in> set (timer_heap ts)" for k
    proof -
      have "timer_heap ts \<noteq> []" using k by auto
      then have i: "i \<in> set (timer_heap ts)" "0 < DIFF_TICK (tick_of ts i) now" using True by (simp_all add: i_def)
      have nw: "if now < tick_of ts j then uint (tick_of ts j) - uint now < 2 ^ 31 else uint now - uint (tick_of ts j) < 2 ^ 31"
        if "j \<in> set (timer_heap ts)" for j using less.prems(2) that by (auto simp: no_wrap_def Let_def tick_of_def)
      have "now < tick_of ts i" using nw [OF i(1)] i(2) DIFF_TICK_neg [of now "tick_of ts i"] by (cases "now < tick_of ts i") auto
      then have "now < tick_of ts k" using falls [OF k] by simp
      then show ?thesis
        using nw [OF k] DIFF_TICK_uint [OF less_imp_le, of now "tick_of ts k"] by (simp add: word_less_def)
    qed
    have "\<exists>r. do_timer note_call now (ts, log) = Some (r, ts, log)"
      using True by (subst do_timer.simps) (auto simp: i_def tick_of_def Let_def)
    then show ?thesis using late less.prems(2) by blast
  next
    case False
    then have h: "timer_heap ts \<noteq> []" and due: "\<not> (0 < DIFF_TICK (tick_of ts i) now \<and> func (timer_data ts ! i) \<noteq> None)" by blast+
    obtain ts1 log1 where run: "run_timer note_call now (ts, log) = (ts1, log1)" "slots_ok {} ts1" "no_wrap now ts1"
      and log1: "set log \<subseteq> set log1" "func (timer_data ts ! i) \<noteq> None \<Longrightarrow> i \<in> set log1"
      and same: "\<And>k. k \<noteq> i \<Longrightarrow> timer_data ts1 ! k = timer_data ts ! k"
      and heap: "set (timer_heap ts1) = set (timer_heap ts) - {i} \<or>
        set (timer_heap ts1) = set (timer_heap ts) \<and> tick_of ts i \<le> now \<and> tick_of ts i < tick_of ts1 i"
      using run_timer_cases [OF less.prems(1) h less.prems(2) due [unfolded i_def] i_def] by metis
    have mem: "i \<in> set (timer_heap ts)" using h by (simp add: i_def)
    have od: "overdue now ts1 k = overdue now ts k" if "k \<noteq> i" for k using same [OF that] by (simp add: overdue_def tick_of_def)
    have "(\<Sum>k \<in> set (timer_heap ts1). overdue now ts1 k) < (\<Sum>k \<in> set (timer_heap ts). overdue now ts k)"
      using heap
    proof
      assume "set (timer_heap ts1) = set (timer_heap ts) - {i}"
      then show ?thesis using od mem by (subst sum.remove [of _ i]) (auto simp: overdue_def)
    next
      assume "set (timer_heap ts1) = set (timer_heap ts) \<and> tick_of ts i \<le> now \<and> tick_of ts i < tick_of ts1 i"
      then have h: "set (timer_heap ts1) = set (timer_heap ts)" and lt: "overdue now ts1 i < overdue now ts i"
        by (simp_all add: overdue_less)
      have "overdue now ts1 k \<le> overdue now ts k" for k using od [of k] lt by (cases "k = i") auto
      then show ?thesis unfolding h using mem lt by (intro sum_strict_mono_ex1) auto
    qed
    from less.hyps [OF this run(2,3), of log1] obtain r ts' log' where
      rec: "do_timer note_call now (ts1, log1) = Some (r, ts', log')" "set log1 \<subseteq> set log'"
        "\<forall>k \<in> set (timer_heap ts1). DIFF_TICK (tick_of ts1 k) now \<le> 0 \<and> func (timer_data ts1 ! k) \<noteq> None \<longrightarrow> k \<in> set log'"
        "no_wrap now ts'" by blast
    have "do_timer note_call now (ts, log) = Some (r, ts', log')"
      using rec(1) h due run(1) by (subst do_timer.simps) (auto simp: i_def [symmetric] tick_of_def Let_def)
    moreover have "k \<in> set log'" if "k \<in> set (timer_heap ts)" "DIFF_TICK (tick_of ts k) now \<le> 0" "func (timer_data ts ! k) \<noteq> None" for k
    proof (cases "k = i")
      case True
      then show ?thesis using log1(2) rec(2) that(3) by blast
    next
      case False
      then show ?thesis using rec(3) same [OF False] heap that by (auto simp: tick_of_def)
    qed
    ultimately show ?thesis using rec(2,4) log1(1) by blast
  qed
qed

text \<open>
  C26: with calls that leave the timers alone \<open>do_timer\<close> ends, and every timer that was due and not deleted has been
  called. Interval timers count only with a positive interval: with others the loop need not end. No tick is more than half the
  range away from the time of the call, and the next tick of an interval does not wrap round (\<open>no_wrap\<close>).
\<close>

theorem do_timer_runs_due:
  assumes "slots_ok {} ts" "no_wrap now ts"
  shows "\<exists>r ts' log'. do_timer note_call now (ts, log) = Some (r, ts', log') \<and>
    (\<forall>i \<in> set (timer_heap ts). DIFF_TICK (tick_of ts i) now \<le> 0 \<and> func (timer_data ts ! i) \<noteq> None \<longrightarrow> i \<in> set log')"
  using do_timer_ends [OF assms, of log] by blast

text \<open>Three timers with the ticks 5, 9 and 5, the second one every 10 ms; at 9 all are due.\<close>

definition due_timers :: "nat timers" where
  "due_timers = \<lparr>timer_data = [no_timer\<lparr>tick := 5, func := Some 1, td_type := 1\<rparr>,
       no_timer\<lparr>tick := 9, func := Some 2, td_type := 2, interval := 10\<rparr>, no_timer\<lparr>tick := 5, func := Some 3, td_type := 1\<rparr>],
     timer_data_num = 3, timer_heap = [1, 0, 2], free_timer_list = []\<rparr>"

lemma due_facts:
  "timer_heap due_timers = [1, 0, 2]" "tick (timer_data due_timers ! 0) = 5" "tick (timer_data due_timers ! 1) = 9"
  "tick (timer_data due_timers ! 2) = 5" "td_type (timer_data due_timers ! 0) = 1" "td_type (timer_data due_timers ! 1) = 2"
  "td_type (timer_data due_timers ! 2) = 1" "interval (timer_data due_timers ! 1) = 10" "func (timer_data due_timers ! 0) = Some 1"
  "func (timer_data due_timers ! 1) = Some 2" "func (timer_data due_timers ! 2) = Some 3"
  "timer_data_num due_timers = 3" "free_timer_list due_timers = []" "length (timer_data due_timers) = 3"
  by (simp_all add: due_timers_def no_timer_def One_nat_def numeral_2_eq_2 numeral_3_eq_3)

lemma due_ok: "slots_ok {} due_timers"
  by (rule slots_okI) (auto simp: due_facts falling_def tick_of_def)

theorem do_timer_runs_due_witness:
  "\<exists>r ts' log'. do_timer note_call 9 (due_timers, []) = Some (r, ts', log') \<and>
    (\<forall>i \<in> {0, 1, 2}. DIFF_TICK (tick_of due_timers i) 9 \<le> 0 \<longrightarrow> i \<in> set log')"
proof -
  have "no_wrap 9 due_timers" by (simp add: no_wrap_def due_facts)
  from do_timer_runs_due [OF due_ok this, of "[]"] show ?thesis by (auto simp: due_facts)
qed

theorem do_timer_correct_witness:
  "case do_timer note_call 9 (due_timers, []) of None \<Rightarrow> False
   | Some (r, s') \<Rightarrow> slots_ok {} (fst s') \<and> 50 \<le> r \<and> r \<le> 1000"
proof -
  have "no_wrap 9 due_timers" by (simp add: no_wrap_def due_facts)
  from do_timer_ends [OF due_ok this, of "[]"] obtain r s' where s': "do_timer note_call 9 (due_timers, []) = Some (r, s')"
    by blast
  show ?thesis
    using do_timer_correct [OF _ _ s'] due_ok s' by (simp add: note_call_def)
qed

text \<open>
  Ticks that wrap around: at 4294967280 the timer 0, due since 4294967270, waits behind the timer 1, due in
  32 ms at the tick 16, because the list compares ticks as numbers.
\<close>

definition wrapped_timers :: "nat timers" where
  "wrapped_timers = \<lparr>timer_data = [no_timer\<lparr>tick := 4294967270, func := Some 1, td_type := 1\<rparr>,
       no_timer\<lparr>tick := 16, func := Some 2, td_type := 1\<rparr>], timer_data_num = 2, timer_heap = [0, 1], free_timer_list = []\<rparr>"

lemma do_timer_wraps:
  "do_timer note_call 4294967280 (wrapped_timers, []) = Some (50, wrapped_timers, [])"
  "DIFF_TICK (tick_of wrapped_timers 0) 4294967280 = - 10"
proof -
  have d: "DIFF_TICK 16 4294967280 = 32" "DIFF_TICK 4294967270 4294967280 = - 10" by code_simp+
  show "do_timer note_call 4294967280 (wrapped_timers, []) = Some (50, wrapped_timers, [])"
    by (subst do_timer.simps) (simp add: wrapped_timers_def d wait_time_def One_nat_def)
  show "DIFF_TICK (tick_of wrapped_timers 0) 4294967280 = - 10"
    by (simp add: wrapped_timers_def tick_of_def d)
qed

end
