(* ===== verification/IntParty.thy ===== *)
theory IntParty
  imports CLib
begin

text \<open>
  The parties of the character server (\<open>src/src/char/int_party.c\<close>): their table, the requests of the map
  servers, and the lines of the file that keeps them. The table \<open>party_db\<close> is a finite map; where the code
  goes through it with \<open>numdb_foreach\<close>, the keys in the order of the visit are an argument.
\<close>

section \<open>State\<close>

definition MAX_PARTY :: nat where
  "MAX_PARTY = 12"

record party_member =
  account_id :: int
  member_name :: string
  member_map :: string
  leader :: int
  online :: int
  lv :: int

record party =
  party_id :: int
  party_name :: string
  exp_share :: int
  item_share :: int
  itemc :: int
  member :: "party_member list"

definition no_member :: party_member where
  "no_member = \<lparr>account_id = 0, member_name = [], member_map = [], leader = 0, online = 0, lv = 0\<rparr>"

definition no_party :: party where
  "no_party = \<lparr>party_id = 0, party_name = [], exp_share = 0, item_share = 0, itemc = 0,
     member = replicate MAX_PARTY no_member\<rparr>"

text \<open>What is sent to the map servers; a \<open>fd\<close> below 0 means all of them.\<close>

datatype party_message =
    Party_created int int "(int \<times> string) option"
  | Party_noinfo int int
  | Party_info int party
  | Party_memberadded int int int int
  | Party_optionchanged int int int int int int
  | Party_leaved int int string
  | Party_membermoved int int string int int
  | Party_broken int
  | Party_message int int int string

record party_server =
  party_db :: "int \<Rightarrow> party option"
  party_newid :: int
  party_share_level :: int
  sent :: "party_message list"

definition say :: "party_message \<Rightarrow> party_server \<Rightarrow> party_server" where
  "say m s = s\<lparr>sent := sent s @ [m]\<rparr>"

definition set_party :: "party \<Rightarrow> party_server \<Rightarrow> party_server" where
  "set_party p s = s\<lparr>party_db := (party_db s)(party_id p := Some p)\<rparr>"

section \<open>Lines of the file\<close>

definition TAB :: char where
  "TAB = CHR 0x09"

definition member_tostr :: "party_member \<Rightarrow> string" where
  "member_tostr m = sprintf_d (account_id m) @ '','' @ sprintf_d (leader m) @ [TAB] @
     (if account_id m > 0 then member_name m else ''NoMember'') @ [TAB]"

definition inter_party_tostr :: "party \<Rightarrow> string" where
  "inter_party_tostr p = sprintf_d (party_id p) @ [TAB] @ party_name p @ [TAB] @
     sprintf_d (exp_share p) @ '','' @ sprintf_d (item_share p) @ [TAB] @ concat (map member_tostr (member p))"

text \<open>
  The conversions of \<open>sscanf\<close> that are used: \<open>%d\<close>, \<open>%[^\t]\<close>, a character, and blanks. Fields are at most 255
  characters long, the room there is for them.
\<close>

definition scan_d :: "string \<Rightarrow> (int \<times> string) option" where
  "scan_d p = (let p = dropWhile isspace p; neg = (peek p 0 = CHR ''-'');
       q = (if neg \<or> peek p 0 = CHR ''+'' then tl p else p) in
     if isdigit (peek q 0)
     then (let (v, r) = digits 10 0 q in Some (s32 (if neg then max (- v) (- (2 ^ 63)) else min v (2 ^ 63 - 1)), r))
     else None)"

definition scan_field :: "string \<Rightarrow> (string \<times> string) option" where
  "scan_field p = (let s = takeWhile (\<lambda>c. c \<noteq> TAB) p in if s = [] then None else Some (s, dropWhile (\<lambda>c. c \<noteq> TAB) p))"

definition scan_char :: "char \<Rightarrow> string \<Rightarrow> string option" where
  "scan_char c p = (if peek p 0 = c \<and> p \<noteq> [] then Some (tl p) else None)"

definition scan_blanks :: "string \<Rightarrow> string" where
  "scan_blanks p = dropWhile isspace p"

definition scan_member :: "string \<Rightarrow> (int \<times> int \<times> string) option" where
  "scan_member p = do {
     (a, p) \<leftarrow> scan_d p;
     p \<leftarrow> scan_char CHR '','' p;
     (l, p) \<leftarrow> scan_d p;
     (n, p) \<leftarrow> scan_field (scan_blanks p);
     Some (a, l, n)}"

definition scan_party :: "string \<Rightarrow> (int \<times> string \<times> int \<times> int) option" where
  "scan_party p = do {
     (i, p) \<leftarrow> scan_d p;
     (n, p) \<leftarrow> scan_field (scan_blanks p);
     (e, p) \<leftarrow> scan_d (scan_blanks p);
     p \<leftarrow> scan_char CHR '','' p;
     (t, p) \<leftarrow> scan_d p;
     Some (i, n, e, t)}"

text \<open>\<open>strchr(str + 1, '\t')\<close>.\<close>

definition next_tab :: "string \<Rightarrow> string option" where
  "next_tab p = (case dropWhile (\<lambda>c. c \<noteq> TAB) (tl p) of [] \<Rightarrow> None | q \<Rightarrow> Some q)"

fun skip_tabs :: "nat \<Rightarrow> string \<Rightarrow> string option" where
  "skip_tabs 0 p = Some p"
| "skip_tabs (Suc n) p = (case next_tab p of None \<Rightarrow> None | Some q \<Rightarrow> skip_tabs n q)"

fun members_fromstr :: "nat \<Rightarrow> string option \<Rightarrow> party_member list option" where
  "members_fromstr 0 str = Some []"
| "members_fromstr (Suc n) str = (case str of
     None \<Rightarrow> None
   | Some p \<Rightarrow> do {
       (a, l, name) \<leftarrow> scan_member (tl p);
       ms \<leftarrow> members_fromstr n (skip_tabs 2 p);
       Some (no_member\<lparr>account_id := a, leader := l mod 2, member_name := take 24 name\<rparr> # ms)})"

definition inter_party_fromstr :: "string \<Rightarrow> party option" where
  "inter_party_fromstr str = do {
     (i, n, e, t) \<leftarrow> scan_party str;
     ms \<leftarrow> members_fromstr MAX_PARTY (skip_tabs 3 str);
     Some (no_party\<lparr>party_id := i, party_name := take 24 n, exp_share := u8 e, item_share := u8 t, member := ms\<rparr>)}"

section \<open>Members\<close>

text \<open>The loop over the members who are online, with the least and the greatest level so far.\<close>

definition level_range :: "party_member list \<Rightarrow> int \<times> int" where
  "level_range ms = fold (\<lambda>m (mn, mx). if online m \<noteq> 0 then (min mn (lv m), max mx (lv m)) else (mn, mx)) ms (0x7fffffff, 0)"

definition party_check_exp_share :: "party_server \<Rightarrow> party \<Rightarrow> bool" where
  "party_check_exp_share s p = (let (mn, mx) = level_range (member p) in mx = 0 \<or> mx - mn \<le> party_share_level s)"

text \<open>A party without members is broken, and its memory freed. The result is 1 then.\<close>

definition party_check_empty :: "party \<Rightarrow> party_server \<Rightarrow> int \<times> party_server" where
  "party_check_empty p s =
     (if party_id p = 0 then (1, s)
      else if \<exists>m \<in> set (member p). account_id m > 0 then (0, s)
      else (1, (say (Party_broken (party_id p)) s)\<lparr>party_db := (party_db s)(party_id p := None)\<rparr>))"

text \<open>After a change of the members: sharing ends when the levels are too far apart.\<close>

definition recheck_share :: "int \<Rightarrow> party \<Rightarrow> party_server \<Rightarrow> party_server" where
  "recheck_share fd p s =
     (if exp_share p > 0 \<and> \<not> party_check_exp_share s p
      then say (Party_optionchanged fd (party_id p) 0 0 (item_share p) 0) (set_party (p\<lparr>exp_share := 0\<rparr>) s)
      else s)"

section \<open>Requests\<close>

definition search_partyname :: "int list \<Rightarrow> string \<Rightarrow> party_server \<Rightarrow> party option" where
  "search_partyname keys str s = fold (\<lambda>k found. case party_db s k of
       Some p \<Rightarrow> if strcasecmp_eq (party_name p) str then Some p else found
     | None \<Rightarrow> found) keys None"

definition mapif_parse_CreateParty ::
    "int list \<Rightarrow> int \<Rightarrow> int \<Rightarrow> string \<Rightarrow> string \<Rightarrow> string \<Rightarrow> int \<Rightarrow> int \<Rightarrow> int \<Rightarrow> party_server \<Rightarrow> party_server" where
  "mapif_parse_CreateParty keys fd acc name nick mp level it it2 s =
     (if search_partyname keys name s \<noteq> None then say (Party_created fd acc None) s
      else (let p = no_party\<lparr>party_id := party_newid s, party_name := take 24 name, item_share := it, itemc := it2,
              member := (member no_party)[0 := \<lparr>account_id = acc, member_name = take 24 nick, member_map = take 16 mp,
                leader = 1, online = 1, lv = level\<rparr>]\<rparr>
        in say (Party_info fd p) (say (Party_created fd acc (Some (party_id p, party_name p)))
             (set_party p (s\<lparr>party_newid := s32 (party_newid s + 1)\<rparr>)))))"

definition mapif_parse_PartyInfo :: "int \<Rightarrow> int \<Rightarrow> party_server \<Rightarrow> party_server" where
  "mapif_parse_PartyInfo fd pid s = (case party_db s pid of
     Some p \<Rightarrow> say (Party_info fd p) s | None \<Rightarrow> say (Party_noinfo fd pid) s)"

definition mapif_parse_PartyAddMember ::
    "int \<Rightarrow> int \<Rightarrow> int \<Rightarrow> string \<Rightarrow> string \<Rightarrow> int \<Rightarrow> party_server \<Rightarrow> party_server" where
  "mapif_parse_PartyAddMember fd pid acc nick mp level s = (case party_db s pid of
     None \<Rightarrow> say (Party_memberadded fd pid acc 1) s
   | Some p \<Rightarrow>
       (let i = first_idx (\<lambda>m. account_id m = 0) (member p) in
        if i < length (member p) then
          (let p = p\<lparr>member := (member p)[i := \<lparr>account_id = acc, member_name = take 24 nick, member_map = take 16 mp,
                 leader = 0, online = 1, lv = level\<rparr>]\<rparr>
           in recheck_share fd p (say (Party_info (- 1) p) (say (Party_memberadded fd pid acc 0) (set_party p s))))
        else say (Party_memberadded fd pid acc 1) s))"

definition mapif_parse_PartyChangeOption :: "int \<Rightarrow> int \<Rightarrow> int \<Rightarrow> int \<Rightarrow> int \<Rightarrow> party_server \<Rightarrow> party_server" where
  "mapif_parse_PartyChangeOption fd pid acc e it s = (case party_db s pid of
     None \<Rightarrow> s
   | Some p \<Rightarrow>
       (let flag = (if e > 0 \<and> \<not> party_check_exp_share s p then 1 else 0);
            p = p\<lparr>exp_share := (if flag = 1 then 0 else u8 e), item_share := it\<rparr>
        in say (Party_optionchanged fd pid acc (exp_share p) it flag) (set_party p s)))"

definition mapif_parse_PartyLeave :: "int \<Rightarrow> int \<Rightarrow> party_server \<Rightarrow> party_server" where
  "mapif_parse_PartyLeave pid acc s = (case party_db s pid of
     None \<Rightarrow> s
   | Some p \<Rightarrow>
       (let i = first_idx (\<lambda>m. account_id m = acc) (member p) in
        if i < length (member p) then
          (let s = say (Party_leaved pid acc (member_name (member p ! i))) s;
               p = p\<lparr>member := (member p)[i := no_member]\<rparr>;
               (empt, s) = party_check_empty p (set_party p s)
           in if empt = 0 then say (Party_info (- 1) p) s else s)
        else s))"

definition mapif_parse_PartyChangeMap ::
    "int \<Rightarrow> int \<Rightarrow> int \<Rightarrow> string \<Rightarrow> int \<Rightarrow> int \<Rightarrow> party_server \<Rightarrow> party_server" where
  "mapif_parse_PartyChangeMap fd pid acc mp onl level s = (case party_db s pid of
     None \<Rightarrow> s
   | Some p \<Rightarrow>
       (let i = first_idx (\<lambda>m. account_id m = acc) (member p) in
        if i < length (member p) then
          (let m = (member p ! i)\<lparr>member_map := take 16 mp, online := onl mod 2, lv := level\<rparr>;
               p = p\<lparr>member := (member p)[i := m]\<rparr>
           in recheck_share fd p (say (Party_membermoved pid (account_id m) (member_map m) (online m) (lv m)) (set_party p s)))
        else s))"

definition mapif_parse_BreakParty :: "int \<Rightarrow> party_server \<Rightarrow> party_server" where
  "mapif_parse_BreakParty pid s = (case party_db s pid of
     None \<Rightarrow> s
   | Some p \<Rightarrow> say (Party_broken pid) (s\<lparr>party_db := (party_db s)(pid := None)\<rparr>))"

definition mapif_parse_PartyMessage :: "int \<Rightarrow> int \<Rightarrow> int \<Rightarrow> string \<Rightarrow> party_server \<Rightarrow> party_server" where
  "mapif_parse_PartyMessage fd pid acc mes s = say (Party_message fd pid acc mes) s"

text \<open>
  The members \<open>i\<close>, \<open>i + 1\<close>, \<open>\<dots>\<close> of another party the character may be in. When its leaving breaks the party, the
  loop goes on in memory that is freed: no result.
\<close>

fun conflict_loop :: "int \<Rightarrow> int \<Rightarrow> string \<Rightarrow> nat list \<Rightarrow> party_server \<Rightarrow> party_server option" where
  "conflict_loop pid acc nick [] s = Some s"
| "conflict_loop pid acc nick (i # is) s = (case party_db s pid of
     None \<Rightarrow> None
   | Some p \<Rightarrow> conflict_loop pid acc nick is
       (if account_id (member p ! i) = acc \<and> member_name (member p ! i) = nick
        then mapif_parse_PartyLeave pid acc s else s))"

definition party_check_conflict_sub :: "int \<Rightarrow> int \<Rightarrow> string \<Rightarrow> int \<Rightarrow> party_server \<Rightarrow> party_server option" where
  "party_check_conflict_sub pid acc nick k s =
     (if k = pid \<or> party_db s k = None then Some s else conflict_loop k acc nick [0..<MAX_PARTY] s)"

fun party_check_conflict :: "int list \<Rightarrow> int \<Rightarrow> int \<Rightarrow> string \<Rightarrow> party_server \<Rightarrow> party_server option" where
  "party_check_conflict [] pid acc nick s = Some s"
| "party_check_conflict (k # keys) pid acc nick s = (case party_check_conflict_sub pid acc nick k s of
     None \<Rightarrow> None | Some s \<Rightarrow> party_check_conflict keys pid acc nick s)"

text \<open>
  The packets of the map servers. In \<open>Create\<close> the name is what its 24 bytes hold: the code reads it as a string that goes on,
  when no byte ends it, with the name of the player. (What would follow a name of a player of 24 bytes does not matter to the
  comparison with names of at most 24.)
\<close>

datatype party_request =
    Create int string string string int int int
  | Info int
  | Add_member int int string string int
  | Change_option int int int int
  | Leave int int
  | Change_map int int string int int
  | Break int
  | Message int int string
  | Check int int string

fun inter_party_parse_frommap :: "int list \<Rightarrow> int \<Rightarrow> party_request \<Rightarrow> party_server \<Rightarrow> party_server option" where
  "inter_party_parse_frommap keys fd (Create acc name nick mp level it it2) s =
     Some (mapif_parse_CreateParty keys fd acc (cstring_field 24 name nick) nick mp (u16 level) (u8 it) (u8 it2) s)"
| "inter_party_parse_frommap keys fd (Info pid) s = Some (mapif_parse_PartyInfo fd pid s)"
| "inter_party_parse_frommap keys fd (Add_member pid acc nick mp level) s =
     Some (mapif_parse_PartyAddMember fd pid acc nick mp (u16 level) s)"
| "inter_party_parse_frommap keys fd (Change_option pid acc e it) s =
     Some (mapif_parse_PartyChangeOption fd pid acc (u16 e) (u8 it) s)"
| "inter_party_parse_frommap keys fd (Leave pid acc) s = Some (mapif_parse_PartyLeave pid acc s)"
| "inter_party_parse_frommap keys fd (Change_map pid acc mp onl level) s =
     Some (mapif_parse_PartyChangeMap fd pid acc mp onl (u16 level) s)"
| "inter_party_parse_frommap keys fd (Break pid) s = Some (mapif_parse_BreakParty pid s)"
| "inter_party_parse_frommap keys fd (Message pid acc mes) s = Some (mapif_parse_PartyMessage fd pid acc mes s)"
| "inter_party_parse_frommap keys fd (Check pid acc nick) s = party_check_conflict keys pid acc nick s"

section \<open>Saving and loading\<close>

text \<open>
  \<open>sscanf(line, "%d\t%%newid%%\n%n")\<close>: the number, when the word follows it. Like a conversion, \<open>%%\<close> goes
  over blanks before the character.
\<close>

fun match_word :: "string \<Rightarrow> string \<Rightarrow> bool" where
  "match_word [] p = True"
| "match_word (c # w) p = (case p of [] \<Rightarrow> False | d # q \<Rightarrow> c = d \<and> match_word w q)"

definition scan_newid :: "string \<Rightarrow> int option" where
  "scan_newid line = (case scan_d line of
     None \<Rightarrow> None
   | Some (i, p) \<Rightarrow>
       (let q = scan_blanks p in
        if match_word ''%newid'' q \<and> match_word ''%'' (scan_blanks (advance 6 q)) then Some i else None))"

definition load_line :: "string \<Rightarrow> party_server \<Rightarrow> party_server" where
  "load_line line s =
     (if peek line 0 = CHR ''/'' \<and> peek line 1 = CHR ''/'' \<or> line = [] \<or> peek line 0 = LF \<or> peek line 0 = CHR 0x0D then s
      else case scan_newid line of
        Some i \<Rightarrow> (if party_newid s < i then s\<lparr>party_newid := i\<rparr> else s)
      | None \<Rightarrow> (case inter_party_fromstr line of
          Some p \<Rightarrow>
            (if party_id p > 0 then
               (let s = (if party_id p \<ge> party_newid s then s\<lparr>party_newid := s32 (party_id p + 1)\<rparr> else s)
                in snd (party_check_empty p (set_party p s)))
             else s)
        | None \<Rightarrow> s))"

definition inter_party_init :: "int \<Rightarrow> string \<Rightarrow> party_server" where
  "inter_party_init level file = fold load_line (file_lines 8191 file)
     \<lparr>party_db = Map.empty, party_newid = 100, party_share_level = level, sent = []\<rparr>"

definition inter_party_save_sub :: "party_server \<Rightarrow> int \<Rightarrow> string" where
  "inter_party_save_sub s k = (case party_db s k of Some p \<Rightarrow> inter_party_tostr p @ [LF] | None \<Rightarrow> [])"

definition inter_party_save :: "int list \<Rightarrow> party_server \<Rightarrow> string" where
  "inter_party_save keys s = concat (map (inter_party_save_sub s) keys)"

end
