(* ===== verification/IntPartyProofs.thy ===== *)
theory IntPartyProofs
  imports IntParty
begin

text \<open>
  Lemmas on the parties of the character server: every request keeps the table well-formed and lets experience be
  shared only between levels that are near enough; what is written to the file is read back, but for names that
  the format does not carry; and a check of membership that frees a party it still reads.
\<close>

declare One_nat_def [simp del]

section \<open>Sharing experience\<close>

definition near_levels :: "int \<Rightarrow> party_member list \<Rightarrow> bool" where
  "near_levels d ms \<longleftrightarrow> (\<forall>a \<in> set ms. \<forall>b \<in> set ms. online a \<noteq> 0 \<and> online b \<noteq> 0 \<longrightarrow> lv a - lv b \<le> d)"

lemma level_range_fold:
  assumes "fold (\<lambda>m (mn, mx). if online m \<noteq> 0 then (min mn (lv m), max mx (lv m)) else (mn, mx)) ms (mn, mx) = (mn', mx')"
  shows "mn' \<le> mn \<and> mx \<le> mx' \<and> (\<forall>m \<in> set ms. online m \<noteq> 0 \<longrightarrow> mn' \<le> lv m \<and> lv m \<le> mx') \<and>
    (mn' = mn \<or> (\<exists>m \<in> set ms. online m \<noteq> 0 \<and> lv m = mn')) \<and> (mx' = mx \<or> (\<exists>m \<in> set ms. online m \<noteq> 0 \<and> lv m = mx'))"
  using assms
proof (induction ms arbitrary: mn mx)
  case (Cons m ms)
  show ?case
  proof (cases "online m \<noteq> 0")
    case True
    then have "fold (\<lambda>m (mn, mx). if online m \<noteq> 0 then (min mn (lv m), max mx (lv m)) else (mn, mx)) ms
        (min mn (lv m), max mx (lv m)) = (mn', mx')" using Cons.prems by simp
    from Cons.IH [OF this] show ?thesis using True by (auto simp: min_def max_def split: if_splits)
  next
    case False
    then show ?thesis using Cons.IH [of mn mx] Cons.prems by auto
  qed
qed simp

definition levels_ok :: "party_member list \<Rightarrow> bool" where
  "levels_ok ms \<longleftrightarrow> (\<forall>m \<in> set ms. 0 \<le> lv m \<and> lv m \<le> 65535)"

lemma share_check:
  assumes "0 \<le> party_share_level s" "levels_ok (member p)"
  shows "party_check_exp_share s p \<longleftrightarrow> near_levels (party_share_level s) (member p)"
proof -
  obtain mn mx where r: "level_range (member p) = (mn, mx)" by force
  note f = level_range_fold [OF r [unfolded level_range_def]]
  let ?on = "\<lambda>m. m \<in> set (member p) \<and> online m \<noteq> 0"
  have bounds: "0 \<le> lv m" "lv m \<le> 65535" "mn \<le> lv m" "lv m \<le> mx" if "?on m" for m
    using f that assms(2) by (auto simp: levels_ok_def)
  have "(mx = 0 \<or> mx - mn \<le> party_share_level s) \<longleftrightarrow> (\<forall>a b. ?on a \<and> ?on b \<longrightarrow> lv a - lv b \<le> party_share_level s)"
  proof
    assume l: "mx = 0 \<or> mx - mn \<le> party_share_level s"
    show "\<forall>a b. ?on a \<and> ?on b \<longrightarrow> lv a - lv b \<le> party_share_level s"
    proof (intro allI impI)
      fix a b assume "?on a \<and> ?on b"
      then show "lv a - lv b \<le> party_share_level s"
        using l bounds(1,4) [of a] bounds(1,3) [of b] assms(1) by linarith
    qed
  next
    assume r: "\<forall>a b. ?on a \<and> ?on b \<longrightarrow> lv a - lv b \<le> party_share_level s"
    show "mx = 0 \<or> mx - mn \<le> party_share_level s"
    proof (cases "mx = 0")
      case False
      then obtain a where a: "?on a" "lv a = mx" using f by auto
      have "mn \<le> 65535" using bounds(2,3) [OF a(1)] by simp
      then obtain b where "?on b" "lv b = mn" using f by auto
      then show ?thesis using r a by blast
    qed simp
  qed
  then show ?thesis unfolding party_check_exp_share_def r near_levels_def by (simp add: Ball_def) blast
qed

lemma near_levels_subset:
  "near_levels d ms \<Longrightarrow> (\<And>m. m \<in> set ms' \<Longrightarrow> online m \<noteq> 0 \<Longrightarrow> m \<in> set ms) \<Longrightarrow> near_levels d ms'"
  unfolding near_levels_def by blast

section \<open>The table stays well-formed\<close>

definition party_ok :: "int \<Rightarrow> int \<Rightarrow> party \<Rightarrow> bool" where
  "party_ok d k p \<longleftrightarrow> party_id p = k \<and> 0 < k \<and> length (member p) = MAX_PARTY \<and> (\<exists>m \<in> set (member p). account_id m > 0) \<and>
     levels_ok (member p) \<and> (exp_share p > 0 \<longrightarrow> near_levels d (member p))"

text \<open>
  No party without members, numbers below the next free one, names that differ in more than the case of letters,
  and nobody shares experience with a player online whose level is too far away.
\<close>

definition unique_names :: "(int \<Rightarrow> party option) \<Rightarrow> bool" where
  "unique_names db \<longleftrightarrow> (\<forall>k l p q. db k = Some p \<longrightarrow> db l = Some q \<longrightarrow>
     length (party_name p) < 24 \<longrightarrow> length (party_name q) < 24 \<longrightarrow> strcasecmp_eq (party_name p) (party_name q) \<longrightarrow> k = l)"

definition server_ok :: "party_server \<Rightarrow> bool" where
  "server_ok s \<longleftrightarrow> 0 \<le> party_share_level s \<and> 0 < party_newid s \<and>
     (\<forall>k p. party_db s k = Some p \<longrightarrow> party_ok (party_share_level s) k p \<and> k < party_newid s) \<and> unique_names (party_db s)"

lemma server_okD:
  assumes "server_ok s"
  shows "0 \<le> party_share_level s" "0 < party_newid s" "unique_names (party_db s)"
    and "party_db s k = Some p \<Longrightarrow> party_ok (party_share_level s) k p"
    and "party_db s k = Some p \<Longrightarrow> k < party_newid s"
  using assms unfolding server_ok_def by blast+

lemma say_simps [simp]:
  "party_db (say m s) = party_db s" "party_newid (say m s) = party_newid s" "party_share_level (say m s) = party_share_level s"
  "server_ok (say m s) = server_ok s" "party_check_exp_share (say m s) p = party_check_exp_share s p"
  by (simp_all add: say_def server_ok_def party_check_exp_share_def)

lemma set_party_simps [simp]:
  "party_db (set_party p s) = (party_db s)(party_id p := Some p)" "party_newid (set_party p s) = party_newid s"
  "party_share_level (set_party p s) = party_share_level s"
  "party_check_exp_share (set_party p s) q = party_check_exp_share s q"
  by (simp_all add: set_party_def party_check_exp_share_def)

lemma unique_names_update:
  "unique_names db \<Longrightarrow> db k = Some p0 \<Longrightarrow> party_name p = party_name p0 \<Longrightarrow> unique_names (db(k := Some p))"
  unfolding unique_names_def by (smt (verit) fun_upd_apply option.inject)

lemma unique_names_remove: "unique_names db \<Longrightarrow> unique_names (db(k := None))"
  unfolding unique_names_def by (metis fun_upd_apply option.distinct(1))

lemma server_ok_update:
  assumes s: "server_ok s" "party_db s k = Some p0" "party_ok (party_share_level s) k p" "party_name p = party_name p0"
    and s': "party_db s' = (party_db s)(k := Some p)" "party_newid s' = party_newid s" "party_share_level s' = party_share_level s"
  shows "server_ok s'"
  using unique_names_update [OF server_okD(3) [OF s(1)] s(2) s(4)] server_okD(1,2) [OF s(1)] server_okD(4,5) [OF s(1)] s(2,3)
  by (simp add: server_ok_def s')

lemma server_ok_remove:
  assumes "server_ok s" "party_db s' = (party_db s)(k := None)" "party_newid s' = party_newid s"
    "party_share_level s' = party_share_level s"
  shows "server_ok s'"
  using assms unique_names_remove [OF server_okD(3) [OF assms(1)], of k] server_okD(1,2,4,5) [OF assms(1)]
  by (simp add: server_ok_def)

text \<open>A change of the members, up to the check whether they may share, and the check.\<close>

lemma recheck_share_ok:
  assumes ok: "server_ok s" "party_db s (party_id p) = Some p0" "party_name p = party_name p0"
    and p: "length (member p) = MAX_PARTY" "\<exists>m \<in> set (member p). account_id m > 0" "levels_ok (member p)"
    and s': "party_db s' = (party_db s)(party_id p := Some p)" "party_newid s' = party_newid s" "party_share_level s' = party_share_level s"
  shows "server_ok (recheck_share fd p s')"
proof -
  have k: "0 < party_id p" using server_okD(4) [OF ok(1,2)] by (simp add: party_ok_def)
  have sh: "party_check_exp_share s' p \<longleftrightarrow> near_levels (party_share_level s) (member p)"
    using share_check [of s' p] server_okD(1) [OF ok(1)] p(3) s'(3) by simp
  show ?thesis
  proof (cases "exp_share p > 0 \<and> \<not> party_check_exp_share s' p")
    case True
    have "server_ok (set_party (p\<lparr>exp_share := 0\<rparr>) s')"
      by (rule server_ok_update [OF ok(1,2), of "p\<lparr>exp_share := 0\<rparr>"]) (use k p ok(3) s' in \<open>simp_all add: party_ok_def\<close>)
    then show ?thesis using True by (simp add: recheck_share_def)
  next
    case False
    have "server_ok s'"
      by (rule server_ok_update [OF ok(1,2), of p]) (use k p ok(3) s' False sh in \<open>simp_all add: party_ok_def\<close>)
    then show ?thesis using False by (auto simp: recheck_share_def)
  qed
qed

lemma levels_ok_update: "levels_ok ms \<Longrightarrow> 0 \<le> lv m \<Longrightarrow> lv m \<le> 65535 \<Longrightarrow> levels_ok (ms[i := m])"
  using set_update_subset_insert [of ms i m] by (auto simp: levels_ok_def)

lemma party_check_empty_ok:
  assumes ok: "server_ok s" "party_db s k = Some p0" "party_id p = k" "party_name p = party_name p0"
    and p: "length (member p) = MAX_PARTY" "levels_ok (member p)"
      "0 < exp_share p \<Longrightarrow> near_levels (party_share_level s) (member p)"
  shows "server_ok (snd (party_check_empty p (set_party p s)))"
proof -
  have k: "0 < k" using server_okD(4) [OF ok(1,2)] by (simp add: party_ok_def)
  show ?thesis
  proof (cases "\<exists>m \<in> set (member p). account_id m > 0")
    case True
    have "server_ok (set_party p s)"
      by (rule server_ok_update [OF ok(1,2), of p]) (use k True p ok(3,4) in \<open>simp_all add: party_ok_def\<close>)
    then show ?thesis using True k ok(3) by (auto simp: party_check_empty_def)
  next
    case False
    have "server_ok ((say (Party_broken k) (set_party p s))\<lparr>party_db := (party_db (set_party p s))(k := None)\<rparr>)"
      by (rule server_ok_remove [OF ok(1), of _ k]) (simp_all add: ok(3))
    then show ?thesis using False k ok(3) by (simp add: party_check_empty_def)
  qed
qed

lemma search_partyname_None:
  assumes "dom (party_db s) \<subseteq> set keys" "search_partyname keys str s = None" "party_db s k = Some p"
  shows "\<not> strcasecmp_eq (party_name p) str"
proof -
  let ?f = "\<lambda>k found. case party_db s k of
       Some p \<Rightarrow> if strcasecmp_eq (party_name p) str then Some p else found | None \<Rightarrow> found"
  have found: "fold ?f ks (Some q) \<noteq> None" for ks q
    by (induction ks arbitrary: q) (auto split: option.splits)
  have "fold ?f ks None \<noteq> None" if "k \<in> set ks" "strcasecmp_eq (party_name p) str" for ks
    using that assms(3) found by (induction ks) (auto split: option.splits)
  moreover have "k \<in> set keys" using assms(1,3) by blast
  ultimately show ?thesis using assms(2) unfolding search_partyname_def by blast
qed

lemma CreateParty_ok:
  assumes ok: "server_ok s" and keys: "dom (party_db s) \<subseteq> set keys" and new: "party_newid s < 2147483647"
    and arg: "0 < acc" "0 \<le> level" "level \<le> 65535"
  shows "server_ok (mapif_parse_CreateParty keys fd acc name nick mp level it it2 s)"
proof (cases "search_partyname keys name s = None")
  case False
  then show ?thesis using ok by (simp add: mapif_parse_CreateParty_def)
next
  case True
  let ?n = "party_newid s"
  define m where "m = \<lparr>account_id = acc, member_name = take 24 nick, member_map = take 16 mp, leader = 1, online = 1, lv = level\<rparr>"
  define p where "p = no_party\<lparr>party_id := ?n, party_name := take 24 name, item_share := it, itemc := it2,
    member := (member no_party)[0 := m]\<rparr>"
  have ms: "member p = m # replicate 11 no_member" by (simp add: p_def no_party_def MAX_PARTY_def numeral_eq_Suc)
  have "party_ok (party_share_level s) ?n p"
    unfolding party_ok_def ms using server_okD(2) [OF ok] arg
    by (auto simp: levels_ok_def m_def no_member_def MAX_PARTY_def) (simp_all add: p_def no_party_def)
  moreover have "unique_names ((party_db s)(?n := Some p))"
    unfolding unique_names_def
  proof (intro allI impI)
    fix k l q r
    assume kl: "((party_db s)(?n := Some p)) k = Some q" "((party_db s)(?n := Some p)) l = Some r"
      "length (party_name q) < 24" "length (party_name r) < 24" "strcasecmp_eq (party_name q) (party_name r)"
    have name: "party_name p = name" if "length (party_name p) < 24" using that by (simp add: p_def)
    have other: "\<not> strcasecmp_eq (party_name q) name" if "party_db s k = Some q" for k q
      using search_partyname_None [OF keys True that] .
    show "k = l"
      using kl other name server_okD(3) [OF ok, unfolded unique_names_def] unfolding strcasecmp_eq_def
      by (cases "k = ?n"; cases "l = ?n") (simp_all, metis+)
  qed
  moreover have "k < ?n + 1" if "party_db s k = Some q" for k q using server_okD(5) [OF ok that] by simp
  moreover have "s32 (?n + 1) = ?n + 1" using new server_okD(2) [OF ok] by (intro s32_id) simp_all
  moreover have "party_id p = ?n" by (simp add: p_def)
  ultimately have "server_ok (set_party p (s\<lparr>party_newid := s32 (?n + 1)\<rparr>))"
    using server_okD(1,2,4) [OF ok] by (simp add: server_ok_def)
  then show ?thesis using True by (simp add: mapif_parse_CreateParty_def Let_def p_def m_def)
qed

lemma AddMember_ok:
  assumes ok: "server_ok s" and "0 \<le> level" "level \<le> 65535"
  shows "server_ok (mapif_parse_PartyAddMember fd pid acc nick mp level s)"
proof (cases "party_db s pid")
  case None
  then show ?thesis using ok by (simp add: mapif_parse_PartyAddMember_def)
next
  case (Some p)
  define i where "i = first_idx (\<lambda>m. account_id m = 0) (member p)"
  define m where "m = \<lparr>account_id = acc, member_name = take 24 nick, member_map = take 16 mp, leader = 0, online = 1, lv = level\<rparr>"
  define q where "q = p\<lparr>member := (member p)[i := m]\<rparr>"
  note pok = server_okD(4) [OF ok Some, unfolded party_ok_def]
  show ?thesis
  proof (cases "i < length (member p)")
    case True
    obtain a where a: "a \<in> set (member p)" "account_id a > 0" using pok by blast
    have "account_id (member p ! i) = 0" using first_idx_sat [of "\<lambda>m. account_id m = 0" "member p"] True unfolding i_def .
    then obtain j where "j < length (member p)" "member p ! j = a" "j \<noteq> i" using a by (metis in_set_conv_nth less_irrefl)
    then have "j < length (member q) \<and> member q ! j = a" by (simp add: q_def)
    then have "a \<in> set (member q)" by (metis nth_mem)
    then have "\<exists>m \<in> set (member q). account_id m > 0" using a(2) by blast
    moreover have "levels_ok (member q)" using pok assms(2,3) by (simp add: q_def m_def levels_ok_update)
    ultimately have "server_ok (recheck_share fd q (say (Party_info (- 1) q) (say (Party_memberadded fd pid acc 0) (set_party q s))))"
      using pok Some by (intro recheck_share_ok [OF ok, of q p]) (simp_all add: q_def)
    then show ?thesis
      using Some True by (simp add: mapif_parse_PartyAddMember_def Let_def i_def q_def m_def)
  qed (use Some ok in \<open>simp add: mapif_parse_PartyAddMember_def Let_def i_def\<close>)
qed

lemma ChangeMap_ok:
  assumes ok: "server_ok s" and "0 \<le> level" "level \<le> 65535"
  shows "server_ok (mapif_parse_PartyChangeMap fd pid acc mp onl level s)"
proof (cases "party_db s pid")
  case None
  then show ?thesis using ok by (simp add: mapif_parse_PartyChangeMap_def)
next
  case (Some p)
  define i where "i = first_idx (\<lambda>m. account_id m = acc) (member p)"
  define m where "m = (member p ! i)\<lparr>member_map := take 16 mp, online := onl mod 2, lv := level\<rparr>"
  define q where "q = p\<lparr>member := (member p)[i := m]\<rparr>"
  note pok = server_okD(4) [OF ok Some, unfolded party_ok_def]
  show ?thesis
  proof (cases "i < length (member p)")
    case True
    have "account_id (member q ! j) = account_id (member p ! j)" if "j < length (member p)" for j
      using that by (cases "j = i") (simp_all add: q_def m_def)
    moreover have "length (member q) = length (member p)" by (simp add: q_def)
    ultimately have "\<exists>m \<in> set (member q). account_id m > 0" using pok by (metis in_set_conv_nth)
    moreover have "levels_ok (member q)" using pok assms(2,3) by (simp add: q_def m_def levels_ok_update)
    ultimately have "server_ok (recheck_share fd q (say (Party_membermoved pid (account_id m) (member_map m) (online m) (lv m)) (set_party q s)))"
      using pok Some by (intro recheck_share_ok [OF ok, of q p]) (simp_all add: q_def)
    then show ?thesis
      using Some True by (simp add: mapif_parse_PartyChangeMap_def Let_def i_def q_def m_def)
  qed (use Some ok in \<open>simp add: mapif_parse_PartyChangeMap_def Let_def i_def\<close>)
qed

lemma ChangeOption_ok:
  assumes ok: "server_ok s" and "0 \<le> e"
  shows "server_ok (mapif_parse_PartyChangeOption fd pid acc e it s)"
proof (cases "party_db s pid")
  case None
  then show ?thesis using ok by (simp add: mapif_parse_PartyChangeOption_def)
next
  case (Some p)
  note pok = server_okD(4) [OF ok Some, unfolded party_ok_def]
  define flag :: int where "flag = (if e > 0 \<and> \<not> party_check_exp_share s p then 1 else 0)"
  define q where "q = p\<lparr>exp_share := (if flag = 1 then 0 else u8 e), item_share := it\<rparr>"
  have sh: "party_check_exp_share s p \<longleftrightarrow> near_levels (party_share_level s) (member p)"
    using share_check [of s p] pok server_okD(1) [OF ok] by simp
  have "0 < u8 e \<Longrightarrow> 0 < e" using assms(2) by (cases "e = 0") (auto simp: u8_def)
  then have "near_levels (party_share_level s) (member q)" if "0 < exp_share q"
    using that sh by (auto simp: q_def flag_def split: if_splits)
  then have "server_ok (set_party q s)"
    using pok by (intro server_ok_update [OF ok Some, of q]) (simp_all add: q_def party_ok_def)
  then show ?thesis using Some by (simp add: mapif_parse_PartyChangeOption_def Let_def q_def flag_def)
qed

lemma PartyLeave_ok:
  assumes ok: "server_ok s"
  shows "server_ok (mapif_parse_PartyLeave pid acc s)"
proof (cases "party_db s pid")
  case None
  then show ?thesis using ok by (simp add: mapif_parse_PartyLeave_def)
next
  case (Some p)
  define i where "i = first_idx (\<lambda>m. account_id m = acc) (member p)"
  define q where "q = p\<lparr>member := (member p)[i := no_member]\<rparr>"
  note pok = server_okD(4) [OF ok Some, unfolded party_ok_def]
  show ?thesis
  proof (cases "i < length (member p)")
    case True
    have sub: "m \<in> set (member p)" if "m \<in> set (member q)" "online m \<noteq> 0" for m
      using that set_update_subset_insert [of "member p" i no_member] by (auto simp: q_def no_member_def)
    have "near_levels (party_share_level s) (member q)" if "0 < exp_share q"
      using pok that near_levels_subset [of "party_share_level s" "member p" "member q"] sub by (simp add: q_def)
    then have "server_ok (snd (party_check_empty q (set_party q (say (Party_leaved pid acc (member_name (member p ! i))) s))))"
      using ok Some pok by (intro party_check_empty_ok [of _ pid p]) (simp_all add: q_def levels_ok_update no_member_def)
    then show ?thesis
      using Some True by (simp add: mapif_parse_PartyLeave_def Let_def i_def q_def split_beta)
  qed (use Some ok in \<open>simp add: mapif_parse_PartyLeave_def Let_def i_def\<close>)
qed

lemma BreakParty_ok:
  assumes ok: "server_ok s"
  shows "server_ok (mapif_parse_BreakParty pid s)"
proof (cases "party_db s pid")
  case None
  then show ?thesis using ok by (simp add: mapif_parse_BreakParty_def)
next
  case (Some p)
  have "server_ok (s\<lparr>party_db := (party_db s)(pid := None)\<rparr>)" by (rule server_ok_remove [OF ok]) simp_all
  then show ?thesis using Some by (simp add: mapif_parse_BreakParty_def)
qed

lemma conflict_loop_ok: "conflict_loop pid acc nick js s = Some s' \<Longrightarrow> server_ok s \<Longrightarrow> server_ok s'"
proof (induction pid acc nick js s rule: conflict_loop.induct)
  case (2 pid acc nick i js s)
  then obtain p where "party_db s pid = Some p" by (auto split: option.splits)
  then show ?case using 2 PartyLeave_ok [of s pid acc] by (simp split: if_splits)
qed simp

lemma party_check_conflict_ok: "party_check_conflict keys pid acc nick s = Some s' \<Longrightarrow> server_ok s \<Longrightarrow> server_ok s'"
proof (induction keys pid acc nick s rule: party_check_conflict.induct)
  case (2 k keys pid acc nick s)
  obtain t where t: "party_check_conflict_sub pid acc nick k s = Some t" "party_check_conflict keys pid acc nick t = Some s'"
    using 2(2) by (auto split: option.splits)
  then have "server_ok t"
    using conflict_loop_ok 2(3) unfolding party_check_conflict_sub_def by (metis option.inject)
  then show ?case using 2(1) t by blast
qed simp


section \<open>A party freed while it is looked at\<close>

lemma conflict_loop_append:
  "conflict_loop pid acc nick (js @ ks) s =
     (case conflict_loop pid acc nick js s of None \<Rightarrow> None | Some t \<Rightarrow> conflict_loop pid acc nick ks t)"
  by (induction pid acc nick js s rule: conflict_loop.induct) (auto split: option.splits)

lemma conflict_loop_skip:
  "party_db s pid = Some p \<Longrightarrow> \<forall>j \<in> set js. account_id (member p ! j) \<noteq> acc \<Longrightarrow> conflict_loop pid acc nick js s = Some s"
  by (induction js) auto

text \<open>
  When the character was the last member of the other party, and had any but the last of its places, the loop reads
  the next place after the party was freed.
\<close>

lemma conflict_reads_freed_party:
  assumes ok: "server_ok s" and p: "party_db s k = Some p" "k \<noteq> pid"
    and i: "i < 11" "account_id (member p ! i) = acc" "member_name (member p ! i) = nick" "0 < acc"
    and only: "\<And>j. j < 12 \<Longrightarrow> j \<noteq> i \<Longrightarrow> account_id (member p ! j) \<le> 0"
  shows "party_check_conflict_sub pid acc nick k s = None"
proof -
  note pok = server_okD(4) [OF ok p(1), unfolded party_ok_def]
  have len: "length (member p) = 12" using pok by (simp add: MAX_PARTY_def)
  have other: "account_id (member p ! j) \<noteq> acc" if "j < 12" "j \<noteq> i" for j using only [OF that] i(4) by simp
  have "first_idx (\<lambda>m. account_id m = acc) (member p) = i"
  proof -
    have "first_idx (\<lambda>m. account_id m = acc) (member p) < 12"
      using first_idx_less [of "\<lambda>m. account_id m = acc" "member p"] i(1,2) len nth_mem [of i "member p"] by auto
    then show ?thesis
      using first_idx_sat [of "\<lambda>m. account_id m = acc" "member p"] other len by metis
  qed
  moreover have "\<not> account_id m > 0" if m: "m \<in> set ((member p)[i := no_member])" for m
  proof -
    obtain j where "j < length ((member p)[i := no_member])" "(member p)[i := no_member] ! j = m"
      using m unfolding in_set_conv_nth by blast
    then have j: "j < 12" "m = (member p)[i := no_member] ! j" using len by simp_all
    then show ?thesis using only [of j] len by (cases "j = i") (auto simp: no_member_def)
  qed
  ultimately have "party_db (mapif_parse_PartyLeave k acc s) k = None"
    using p i(1) len pok by (auto simp: mapif_parse_PartyLeave_def Let_def party_check_empty_def)
  moreover have "conflict_loop k acc nick [0..<i] s = Some s"
    using other i(1) by (intro conflict_loop_skip [OF p(1)]) auto
  moreover have "[0..<12] = [0..<i] @ i # Suc i # [Suc (Suc i)..<12]"
  proof -
    have "[0..<12] = [0..<i] @ [i..<12]" using i(1) upt_add_eq_append [of 0 i "12 - i"] by simp
    also have "[i..<12] = i # Suc i # [Suc (Suc i)..<12]" using i(1) upt_conv_Cons [of i 12] upt_conv_Cons [of "Suc i" 12] by simp
    finally show ?thesis .
  qed
  ultimately have "conflict_loop k acc nick [0..<12] s = None"
    using p(1) i by (simp add: conflict_loop_append)
  then show ?thesis using p by (simp add: party_check_conflict_sub_def MAX_PARTY_def)
qed

text \<open>
  A name that fills its 24 bytes is never found in the table, where it would have to be longer than names there are: a party
  with that name can be founded again and again.
\<close>

lemma full_name_is_free:
  assumes "length name = 24" "nick \<noteq> []" "\<And>k p. party_db s k = Some p \<Longrightarrow> length (party_name p) \<le> 24"
  shows "search_partyname keys (cstring_field 24 name nick) s = None"
proof -
  have "\<not> strcasecmp_eq (party_name p) (name @ nick)" if p: "party_db s k = Some p" for k p
  proof -
    have "length (party_name p) \<noteq> length (name @ nick)" using assms(3) [OF p] assms(1,2) by (cases nick) simp_all
    then show ?thesis unfolding strcasecmp_eq_def by (metis length_map)
  qed
  then have "fold (\<lambda>k found. case party_db s k of
       Some p \<Rightarrow> if strcasecmp_eq (party_name p) (name @ nick) then Some p else found | None \<Rightarrow> found) keys None = None"
    by (induction keys) (simp_all split: option.split)
  then show ?thesis using assms(1) by (simp add: search_partyname_def cstring_field_def)
qed

section \<open>Requests in a row\<close>

text \<open>An account has a number above 0, and the numbers for parties are not used up.\<close>

fun request_ok :: "party_server \<Rightarrow> party_request \<Rightarrow> bool" where
  "request_ok s (Create acc name nick mp level it it2) \<longleftrightarrow>
     0 < acc \<and> party_newid s < 2147483647"
| "request_ok s r \<longleftrightarrow> True"

inductive serves :: "party_server \<Rightarrow> party_server \<Rightarrow> bool" where
  serves_start: "serves s s"
| serves_step: "serves s t \<Longrightarrow> request_ok t r \<Longrightarrow> dom (party_db t) \<subseteq> set keys \<Longrightarrow>
    inter_party_parse_frommap keys fd r t = Some u \<Longrightarrow> serves s u"

lemma frommap_ok:
  assumes "server_ok s" "request_ok s r" "dom (party_db s) \<subseteq> set keys" "inter_party_parse_frommap keys fd r s = Some u"
  shows "server_ok u"
  using assms CreateParty_ok AddMember_ok ChangeOption_ok PartyLeave_ok ChangeMap_ok BreakParty_ok party_check_conflict_ok
  by (cases r) (auto simp: mapif_parse_PartyInfo_def mapif_parse_PartyMessage_def u16_bounds split: option.splits)

definition grows :: "party_server \<Rightarrow> party_server \<Rightarrow> bool" where
  "grows s t \<longleftrightarrow> party_newid s \<le> party_newid t \<and> dom (party_db t) \<subseteq> dom (party_db s) \<union> {party_newid s..}"

lemma grows_refl [simp]: "grows s s"
  by (auto simp: grows_def)

lemma grows_trans: "grows s t \<Longrightarrow> grows t u \<Longrightarrow> grows s u"
  by (force simp: grows_def)

lemma grows_say [simp]: "grows s (say m t) \<longleftrightarrow> grows s t"
  by (simp add: grows_def)

lemma grows_set [simp]: "party_db s (party_id p) = Some q \<Longrightarrow> grows s t \<Longrightarrow> grows s (set_party p t)"
  by (auto simp: grows_def)

lemma grows_new: "party_newid s \<le> party_id p \<Longrightarrow> grows s t \<Longrightarrow> grows s (set_party p t)"
  by (auto simp: grows_def)

lemma grows_recheck [simp]: "party_db s (party_id p) = Some q \<Longrightarrow> grows s t \<Longrightarrow> grows s (recheck_share fd p t)"
  by (simp add: recheck_share_def)

lemma grows_remove [simp]: "grows s t \<Longrightarrow> grows s (t\<lparr>party_db := (party_db t)(k := None)\<rparr>)"
  by (auto simp: grows_def)

lemma grows_empty [simp]: "grows s t \<Longrightarrow> grows s (snd (party_check_empty p t))"
  by (simp add: party_check_empty_def) (auto simp: grows_def)

lemma server_id: "server_ok s \<Longrightarrow> party_db s k = Some p \<Longrightarrow> party_id p = k"
  using server_okD(4) by (simp add: party_ok_def)

lemma PartyLeave_grows: "server_ok s \<Longrightarrow> grows s (mapif_parse_PartyLeave pid acc s)"
  by (auto simp: mapif_parse_PartyLeave_def Let_def split_beta server_id split: option.splits)

lemma conflict_loop_grows: "conflict_loop pid acc nick js s = Some s' \<Longrightarrow> server_ok s \<Longrightarrow> grows s s'"
proof (induction pid acc nick js s rule: conflict_loop.induct)
  case (2 pid acc nick i js s)
  then obtain p where "party_db s pid = Some p" by (auto split: option.splits)
  then show ?case
    using 2 PartyLeave_ok [of s pid acc] PartyLeave_grows [of s pid acc]
    by (auto split: if_splits intro: grows_trans)
qed simp

lemma party_check_conflict_grows:
  "party_check_conflict keys pid acc nick s = Some s' \<Longrightarrow> server_ok s \<Longrightarrow> grows s s'"
proof (induction keys pid acc nick s rule: party_check_conflict.induct)
  case (2 k keys pid acc nick s)
  obtain t where t: "party_check_conflict_sub pid acc nick k s = Some t" "party_check_conflict keys pid acc nick t = Some s'"
    using 2(2) by (auto split: option.splits)
  then have "server_ok t \<and> grows s t"
    using conflict_loop_ok conflict_loop_grows 2(3) grows_refl unfolding party_check_conflict_sub_def by (metis option.inject)
  then show ?case using 2(1) t grows_trans by blast
qed simp

lemma frommap_grows:
  assumes ok: "server_ok s" "request_ok s r" and u: "inter_party_parse_frommap keys fd r s = Some u"
  shows "grows s u"
proof (cases r)
  case (Create acc name nick mp level it it2)
  then have "s32 (party_newid s + 1) = party_newid s + 1" using ok server_okD(2) [OF ok(1)] by (intro s32_id) auto
  then have "grows s (s\<lparr>party_newid := s32 (party_newid s + 1)\<rparr>)" by (auto simp: grows_def)
  then have "grows s (mapif_parse_CreateParty keys fd acc n nick mp l i i2 s)" for n l i i2
    by (simp add: mapif_parse_CreateParty_def Let_def grows_new)
  then show ?thesis using u unfolding Create by (metis inter_party_parse_frommap.simps(1) option.inject)
qed (use ok u PartyLeave_grows party_check_conflict_grows in
    \<open>auto simp: mapif_parse_PartyInfo_def mapif_parse_PartyMessage_def mapif_parse_PartyAddMember_def
      mapif_parse_PartyChangeMap_def mapif_parse_PartyChangeOption_def mapif_parse_BreakParty_def Let_def server_id
      split: option.splits if_splits\<close>)

text \<open>
  C27. Whatever the map servers ask, in any order, the parties stay as they should: each is kept under its number, below the
  next free one, with twelve places and at least one member; no two with names of fewer than 24 characters have the same name,
  but for the case of letters; and when experience is shared the levels of the players online are near enough. The number of a
  party that was broken is never given again. (Names that fill all 24 bytes can be the same, see \<open>full_name_is_free\<close>.) The
  player who founds a party has an account above 0, numbers for parties are not used up, and a check of conflicts that reads
  freed memory has no result, so nothing is said of what follows it.
\<close>

theorem party_requests_ok:
  assumes "serves s t" "server_ok s"
  shows "server_ok t \<and> party_newid s \<le> party_newid t \<and> dom (party_db t) \<inter> {..< party_newid s} \<subseteq> dom (party_db s)"
  using assms
proof -
  have "server_ok t \<and> grows s t"
    using assms
  proof (induction rule: serves.induct)
    case (serves_step s t r keys fd u)
    then show ?case using frommap_ok frommap_grows grows_trans by blast
  qed simp
  then show ?thesis by (auto simp: grows_def)
qed

text \<open>Two players share experience until the second comes back forty levels higher.\<close>

definition two_members :: "int \<Rightarrow> party" where
  "two_members e = no_party\<lparr>party_id := 100, party_name := ''Friends'', exp_share := e,
     member := \<lparr>account_id = 2000001, member_name = ''Al'', member_map = ''geffen'', leader = 1, online = 1, lv = 48\<rparr>
       # \<lparr>account_id = 2000002, member_name = ''Bo'', member_map = ''geffen'', leader = 0, online = 1, lv = 50\<rparr>
       # replicate 10 no_member\<rparr>"

lemma party_requests_ok_witness:
  "let s1 = mapif_parse_CreateParty [] 1 2000001 ''Friends'' ''Al'' ''geffen'' 48 0 0 (inter_party_init 10 []);
       s2 = mapif_parse_PartyAddMember 1 100 2000002 ''Bo'' ''geffen'' 50 s1;
       s3 = mapif_parse_PartyChangeOption 1 100 2000001 1 0 s2;
       s4 = mapif_parse_PartyChangeMap 1 100 2000002 ''prontera'' 1 90 s3
   in server_ok s4 \<and> map_option exp_share (party_db s3 100) = Some 1 \<and> map_option exp_share (party_db s4 100) = Some 0"
proof -
  note eval = numeral_eq_Suc One_nat_def MAX_PARTY_def no_party_def no_member_def Let_def recheck_share_def
    party_check_exp_share_def level_range_def
  define s0 where "s0 = inter_party_init 10 []"
  define s1 where "s1 = mapif_parse_CreateParty [] 1 2000001 ''Friends'' ''Al'' ''geffen'' 48 0 0 s0"
  define s2 where "s2 = mapif_parse_PartyAddMember 1 100 2000002 ''Bo'' ''geffen'' 50 s1"
  define s3 where "s3 = mapif_parse_PartyChangeOption 1 100 2000001 1 0 s2"
  define s4 where "s4 = mapif_parse_PartyChangeMap 1 100 2000002 ''prontera'' 1 90 s3"
  have d0: "party_db s0 = Map.empty" "party_newid s0 = 100" "party_share_level s0 = 10" "server_ok s0"
    by (simp_all add: s0_def inter_party_init_def file_lines.simps server_ok_def unique_names_def)
  have d1: "party_db s1 = [100 \<mapsto> (two_members 0)\<lparr>member := (member (two_members 0))[1 := no_member]\<rparr>]"
      "party_share_level s1 = 10"
    by (simp_all add: s1_def mapif_parse_CreateParty_def search_partyname_def d0 two_members_def eval)
  have d2: "party_db s2 = [100 \<mapsto> two_members 0]" "party_share_level s2 = 10"
    by (simp_all add: s2_def mapif_parse_PartyAddMember_def d1 two_members_def eval)
  have d3: "party_db s3 = [100 \<mapsto> two_members 1]" "party_share_level s3 = 10"
    by (simp_all add: s3_def mapif_parse_PartyChangeOption_def d2 two_members_def u8_def eval)
  have d4: "map_option exp_share (party_db s4 100) = Some 0"
    by (simp add: s4_def mapif_parse_PartyChangeMap_def d3 two_members_def eval)
  have "serves s0 s1"
    by (rule serves_step [OF serves_start, of _ "Create 2000001 ''Friends'' ''Al'' ''geffen'' 48 0 0" "[]" 1])
      (simp_all add: d0 s1_def cstring_field_def u16_id u8_id)
  then have "serves s0 s2"
    by (rule serves_step [of _ _ "Add_member 100 2000002 ''Bo'' ''geffen'' 50" "[100]" 1]) (simp_all add: d1 s2_def u16_id u8_id)
  then have "serves s0 s3"
    by (rule serves_step [of _ _ "Change_option 100 2000001 1 0" "[100]" 1]) (simp_all add: d2 s3_def u16_id u8_id)
  then have "serves s0 s4"
    by (rule serves_step [of _ _ "Change_map 100 2000002 ''prontera'' 1 90" "[100]" 1]) (simp_all add: d3 s4_def u16_id u8_id)
  then have "server_ok s4" using party_requests_ok [of s0 s4] d0(4) by blast
  then show ?thesis
    using d3(1) d4 unfolding Let_def s0_def [symmetric] s1_def [symmetric] s2_def [symmetric] s3_def [symmetric] s4_def [symmetric]
    by (simp add: two_members_def)
qed

end
