(* ===== verification/IntPartyFile.thy ===== *)
theory IntPartyFile
  imports IntPartyProofs
begin

text \<open>
  The file of the parties: what the character server writes it reads back, as far as the format carries it.
\<close>

section \<open>Fields\<close>

lemma scan_d_sprintf:
  assumes "- 2147483648 \<le> i" "i \<le> 2147483647" "\<not> isdigit (peek r 0)"
  shows "scan_d (sprintf_d i @ r) = Some (i, r)"
proof -
  have s: "s32 i = i" using assms(1,2) by (intro s32_id) simp_all
  obtain c p where c: "decimal (nat \<bar>i\<bar>) = c # p" "isdigit c"
    using decimal_digits [of "nat \<bar>i\<bar>"] by (cases "decimal (nat \<bar>i\<bar>)") auto
  have d: "digits 10 0 ((c # p) @ r) = (\<bar>i\<bar>, r)"
    using digits_decimal [OF assms(3), of "nat \<bar>i\<bar>"] c(1) by simp
  have c': "\<not> isspace c" "c \<noteq> CHR ''-''" "c \<noteq> CHR ''+''" "\<not> isspace (CHR ''-'')"
    using c(2) by (auto simp: isdigit_def isspace_def byte_def)
  show ?thesis
  proof (cases "i < 0")
    case True
    then have "sprintf_d i = CHR ''-'' # c # p" using c(1) by (simp add: sprintf_d_def)
    then show ?thesis using True c' c(2) d s assms(1) by (simp add: scan_d_def peek_def max_def)
  next
    case False
    then have "sprintf_d i = c # p" using c(1) by (simp add: sprintf_d_def)
    then show ?thesis using False c' c(2) d s assms(2) by (simp add: scan_d_def peek_def min_def)
  qed
qed

definition field_ok :: "string \<Rightarrow> bool" where
  "field_ok n \<longleftrightarrow> n \<noteq> [] \<and> length n \<le> 24 \<and> TAB \<notin> set n \<and> LF \<notin> set n \<and> \<not> isspace (hd n)"

lemma field_TAB:
  assumes "TAB \<notin> set x"
  shows "takeWhile (\<lambda>c. c \<noteq> TAB) (x @ TAB # r) = x" "dropWhile (\<lambda>c. c \<noteq> TAB) (x @ TAB # r) = TAB # r"
  using assms by (induction x) auto

lemma scan_field_TAB: "field_ok n \<Longrightarrow> scan_field (n @ TAB # r) = Some (n, TAB # r)"
  by (simp add: scan_field_def field_ok_def field_TAB)

lemma TAB_facts: "isspace TAB" "\<not> isdigit TAB" "\<not> isdigit (CHR '','')" "TAB \<noteq> CHR '',''" "TAB \<noteq> CHR ''-''" "TAB \<noteq> LF"
    "LF \<noteq> CHR '',''" "LF \<noteq> CHR ''-''" "\<not> isdigit LF"
  by (simp_all add: TAB_def LF_def isspace_def isdigit_def byte_def)

lemma scan_blanks_TAB: "field_ok n \<Longrightarrow> scan_blanks (TAB # n @ r) = n @ r"
  by (cases n) (simp_all add: scan_blanks_def field_ok_def TAB_facts)

lemma scan_blanks_TAB_d: "scan_blanks (TAB # sprintf_d i @ r) = sprintf_d i @ r"
proof -
  obtain c p where c: "sprintf_d i = c # p" by (cases "sprintf_d i") auto
  have "\<not> isspace c" using sprintf_d_set [of c i] c by (auto simp: isdigit_def isspace_def byte_def)
  then show ?thesis using c by (simp add: scan_blanks_def TAB_facts)
qed

lemma sprintf_d_plain: "TAB \<notin> set (sprintf_d i)" "LF \<notin> set (sprintf_d i)"
  using sprintf_d_set [of TAB i] sprintf_d_set [of LF i] by (auto simp: TAB_facts)

lemma next_tab_step: "TAB \<notin> set x \<Longrightarrow> next_tab (c # x @ TAB # r) = Some (TAB # r)"
  by (simp add: next_tab_def field_TAB)

section \<open>Members\<close>

definition member_storable :: "party_member \<Rightarrow> bool" where
  "member_storable m \<longleftrightarrow> - 2147483648 \<le> account_id m \<and> account_id m \<le> 2147483647 \<and> (leader m = 0 \<or> leader m = 1) \<and>
     (account_id m > 0 \<longrightarrow> field_ok (member_name m))"

text \<open>What the file keeps of a member.\<close>

definition stored_name :: "party_member \<Rightarrow> string" where
  "stored_name m = (if account_id m > 0 then member_name m else ''NoMember'')"

definition stored_member :: "party_member \<Rightarrow> party_member" where
  "stored_member m = no_member\<lparr>account_id := account_id m, leader := leader m, member_name := stored_name m\<rparr>"

lemma field_ok_NoMember: "field_ok ''NoMember''"
  by (simp add: field_ok_def TAB_def LF_def isspace_def byte_def)

lemma stored_name_ok: "member_storable m \<Longrightarrow> field_ok (stored_name m)"
  by (simp add: member_storable_def stored_name_def field_ok_NoMember)

lemma member_tostr_eq: "member_tostr m @ r =
    sprintf_d (account_id m) @ CHR '','' # sprintf_d (leader m) @ TAB # stored_name m @ TAB # r"
  by (simp add: member_tostr_def stored_name_def)

lemma scan_member_tostr:
  assumes "member_storable m"
  shows "scan_member (member_tostr m @ r) = Some (account_id m, leader m, stored_name m)"
proof -
  have a: "scan_d (sprintf_d (account_id m) @ CHR '','' # q) = Some (account_id m, CHR '','' # q)" for q
    using assms by (intro scan_d_sprintf) (simp_all add: member_storable_def peek_def TAB_facts)
  have l: "scan_d (sprintf_d (leader m) @ TAB # q) = Some (leader m, TAB # q)" for q
    using assms by (intro scan_d_sprintf) (auto simp: member_storable_def peek_def TAB_facts)
  show ?thesis
    unfolding scan_member_def member_tostr_eq
    by (simp add: a l scan_char_def peek_def scan_blanks_TAB [OF stored_name_ok [OF assms]]
        scan_field_TAB [OF stored_name_ok [OF assms]])
qed

lemma skip_member:
  assumes "member_storable m"
  shows "skip_tabs 2 (TAB # member_tostr m @ r) = Some (TAB # r)"
proof -
  let ?x = "sprintf_d (account_id m) @ CHR '','' # sprintf_d (leader m)"
  have "next_tab (TAB # ?x @ TAB # stored_name m @ TAB # r) = Some (TAB # stored_name m @ TAB # r)"
    by (rule next_tab_step) (simp add: sprintf_d_plain TAB_facts)
  moreover have "next_tab (TAB # stored_name m @ TAB # r) = Some (TAB # r)"
    using stored_name_ok [OF assms] by (intro next_tab_step) (simp add: field_ok_def)
  ultimately show ?thesis by (simp add: member_tostr_eq numeral_2_eq_2)
qed

lemma members_fromstr_tostr:
  assumes "\<forall>m \<in> set ms. member_storable m"
  shows "members_fromstr (length ms) (Some (TAB # concat (map member_tostr ms) @ r)) = Some (map stored_member ms)"
  using assms
proof (induction ms)
  case (Cons m ms)
  then have m: "member_storable m" and ms: "members_fromstr (length ms) (Some (TAB # concat (map member_tostr ms) @ r)) =
      Some (map stored_member ms)" by simp_all
  have "leader m mod 2 = leader m" "take 24 (stored_name m) = stored_name m"
    using m stored_name_ok [OF m] by (auto simp: member_storable_def field_ok_def)
  then show ?case
    using scan_member_tostr [OF m] skip_member [OF m] ms by (simp add: stored_member_def)
qed simp

section \<open>Parties\<close>

definition storable :: "party \<Rightarrow> bool" where
  "storable p \<longleftrightarrow> 0 < party_id p \<and> party_id p < 2147483647 \<and> field_ok (party_name p) \<and>
     \<not> match_word ''%newid'' (party_name p) \<and> 0 \<le> exp_share p \<and> exp_share p \<le> 255 \<and> 0 \<le> item_share p \<and> item_share p \<le> 255 \<and>
     length (member p) = MAX_PARTY \<and> (\<forall>m \<in> set (member p). member_storable m) \<and> (\<exists>m \<in> set (member p). account_id m > 0)"

definition stored_party :: "party \<Rightarrow> party" where
  "stored_party p = p\<lparr>itemc := 0, member := map stored_member (member p)\<rparr>"

lemma tostr_eq: "inter_party_tostr p @ r = sprintf_d (party_id p) @ TAB # party_name p @ TAB #
    sprintf_d (exp_share p) @ CHR '','' # sprintf_d (item_share p) @ TAB # concat (map member_tostr (member p)) @ r"
  by (simp add: inter_party_tostr_def)

lemma inter_party_fromstr_tostr:
  assumes p: "storable p"
  shows "inter_party_fromstr (inter_party_tostr p @ r) = Some (stored_party p)"
proof -
  have n: "field_ok (party_name p)" using p by (simp add: storable_def)
  have i: "scan_d (sprintf_d (party_id p) @ TAB # q) = Some (party_id p, TAB # q)" for q
    using p by (intro scan_d_sprintf) (auto simp: storable_def peek_def TAB_facts)
  have e: "scan_d (sprintf_d (exp_share p) @ CHR '','' # q) = Some (exp_share p, CHR '','' # q)" for q
    using p by (intro scan_d_sprintf) (auto simp: storable_def peek_def TAB_facts)
  have t: "scan_d (sprintf_d (item_share p) @ TAB # q) = Some (item_share p, TAB # q)" for q
    using p by (intro scan_d_sprintf) (auto simp: storable_def peek_def TAB_facts)
  have scan: "scan_party (inter_party_tostr p @ r) = Some (party_id p, party_name p, exp_share p, item_share p)"
    unfolding scan_party_def tostr_eq
    by (simp add: i e t scan_char_def peek_def scan_blanks_TAB [OF n] scan_field_TAB [OF n] scan_blanks_TAB_d)
  obtain c x where x: "sprintf_d (party_id p) = c # x" by (cases "sprintf_d (party_id p)") auto
  let ?y = "sprintf_d (exp_share p) @ CHR '','' # sprintf_d (item_share p)"
  let ?ms = "concat (map member_tostr (member p)) @ r"
  have "next_tab (c # x @ TAB # party_name p @ TAB # ?y @ TAB # ?ms) = Some (TAB # party_name p @ TAB # ?y @ TAB # ?ms)"
    using sprintf_d_plain(1) [of "party_id p"] x by (intro next_tab_step) simp
  moreover have "next_tab (TAB # party_name p @ TAB # ?y @ TAB # ?ms) = Some (TAB # ?y @ TAB # ?ms)"
    using n by (intro next_tab_step) (simp add: field_ok_def)
  moreover have "next_tab (TAB # ?y @ TAB # ?ms) = Some (TAB # ?ms)"
    by (rule next_tab_step) (simp add: sprintf_d_plain TAB_facts)
  ultimately have skip: "skip_tabs 3 (inter_party_tostr p @ r) = Some (TAB # ?ms)"
    using x by (simp add: tostr_eq numeral_3_eq_3)
  have "members_fromstr MAX_PARTY (Some (TAB # ?ms)) = Some (map stored_member (member p))"
    using members_fromstr_tostr [of "member p" r] p by (simp add: storable_def)
  moreover have "u8 (exp_share p) = exp_share p" "u8 (item_share p) = item_share p"
    using p by (simp_all add: storable_def u8_id)
  moreover have "take 24 (party_name p) = party_name p" using n by (simp add: field_ok_def)
  ultimately show ?thesis
    unfolding inter_party_fromstr_def scan by (simp add: skip stored_party_def no_party_def)
qed

lemma match_word_append: "match_word w (p @ d # q) \<Longrightarrow> d \<notin> set w \<Longrightarrow> match_word w p"
proof (induction w arbitrary: p)
  case (Cons c w)
  then show ?case by (cases p) auto
qed simp

lemma scan_newid_tostr:
  assumes p: "storable p"
  shows "scan_newid (inter_party_tostr p @ r) = None"
proof -
  have n: "field_ok (party_name p)" using p by (simp add: storable_def)
  have i: "scan_d (sprintf_d (party_id p) @ TAB # q) = Some (party_id p, TAB # q)" for q
    using p by (intro scan_d_sprintf) (auto simp: storable_def peek_def TAB_facts)
  have "\<not> match_word ''%newid'' (party_name p @ TAB # q)" for q
    using p match_word_append [of "''%newid''" "party_name p" TAB q] by (auto simp: storable_def TAB_def)
  then show ?thesis unfolding scan_newid_def tostr_eq by (simp add: i scan_blanks_TAB [OF n] Let_def)
qed

lemma load_line_tostr:
  assumes p: "storable p"
  shows "party_db (load_line (inter_party_tostr p @ [LF]) s) = (party_db s)(party_id p := Some (stored_party p))"
    and "party_newid (load_line (inter_party_tostr p @ [LF]) s) =
      (if party_id p \<ge> party_newid s then party_id p + 1 else party_newid s)"
proof -
  obtain c x where x: "inter_party_tostr p @ [LF] = c # x" "c = CHR ''-'' \<or> isdigit c"
    using sprintf_d_set [of "hd (sprintf_d (party_id p))" "party_id p"]
    by (cases "sprintf_d (party_id p)") (auto simp: tostr_eq)
  have c: "c \<noteq> CHR ''/''" "c \<noteq> LF" "c \<noteq> CHR 0x0D" using x(2) by (auto simp: isdigit_def byte_def LF_def)
  have id: "party_id (stored_party p) = party_id p" "0 < party_id p" "s32 (party_id p + 1) = party_id p + 1"
    using p by (auto simp: stored_party_def storable_def intro!: s32_id)
  obtain m where m: "m \<in> set (member p)" "account_id m > 0" using p by (auto simp: storable_def)
  have "account_id (stored_member m) > 0" using m(2) by (simp add: stored_member_def)
  then have "\<exists>m \<in> set (member (stored_party p)). account_id m > 0" using m(1) by (auto simp: stored_party_def)
  then have e: "snd (party_check_empty (stored_party p) t) = t" for t
    using id by (simp add: party_check_empty_def)
  have "load_line (inter_party_tostr p @ [LF]) s =
      set_party (stored_party p) (if party_id p \<ge> party_newid s then s\<lparr>party_newid := s32 (party_id p + 1)\<rparr> else s)"
  proof -
    have nl: "\<not> (peek (inter_party_tostr p @ [LF]) 0 = CHR ''/'' \<and> peek (inter_party_tostr p @ [LF]) 1 = CHR ''/'' \<or>
        inter_party_tostr p @ [LF] = [] \<or> peek (inter_party_tostr p @ [LF]) 0 = LF \<or> peek (inter_party_tostr p @ [LF]) 0 = CHR 0x0D)"
      using c unfolding x(1) by (simp add: peek_def)
    then show ?thesis
      unfolding load_line_def if_not_P [OF nl] scan_newid_tostr [OF p] inter_party_fromstr_tostr [OF p] using id(1,2) e by (simp add: Let_def)
  qed
  then show "party_db (load_line (inter_party_tostr p @ [LF]) s) = (party_db s)(party_id p := Some (stored_party p))"
    and "party_newid (load_line (inter_party_tostr p @ [LF]) s) =
      (if party_id p \<ge> party_newid s then party_id p + 1 else party_newid s)"
    using id by simp_all
qed

section \<open>The file\<close>

lemma member_tostr_length:
  assumes "member_storable m"
  shows "length (member_tostr m) \<le> 50" "LF \<notin> set (member_tostr m)"
proof -
  have "length (sprintf_d (leader m)) \<le> 11" using assms by (intro length_sprintf_d) (auto simp: member_storable_def)
  moreover have "length (sprintf_d (account_id m)) \<le> 11" using assms by (intro length_sprintf_d) (auto simp: member_storable_def)
  moreover have "member_tostr m = sprintf_d (account_id m) @ CHR '','' # sprintf_d (leader m) @ TAB # stored_name m @ [TAB]"
    using member_tostr_eq [of m "[]"] by simp
  ultimately show "length (member_tostr m) \<le> 50" "LF \<notin> set (member_tostr m)"
    using stored_name_ok [OF assms] sprintf_d_plain(2) by (simp_all add: field_ok_def TAB_facts TAB_facts(6) [symmetric])
qed

lemma tostr_line:
  assumes p: "storable p"
  shows "LF \<notin> set (inter_party_tostr p)" "length (inter_party_tostr p) < 8191"
proof -
  have ms: "length (concat (map member_tostr ms)) \<le> 50 * length ms" "LF \<notin> set (concat (map member_tostr ms))"
    if "\<forall>m \<in> set ms. member_storable m" for ms
    using that member_tostr_length by (induction ms) fastforce+
  have len: "length (sprintf_d (party_id p)) \<le> 11" "length (sprintf_d (exp_share p)) \<le> 11" "length (sprintf_d (item_share p)) \<le> 11"
    using p by (auto simp: storable_def intro!: length_sprintf_d)
  have eq: "inter_party_tostr p = sprintf_d (party_id p) @ TAB # party_name p @ TAB #
    sprintf_d (exp_share p) @ CHR '','' # sprintf_d (item_share p) @ TAB # concat (map member_tostr (member p))"
    using tostr_eq [of p "[]"] by simp
  have m: "\<forall>m \<in> set (member p). member_storable m" "length (member p) = 12" "field_ok (party_name p)"
    using p by (auto simp: storable_def MAX_PARTY_def)
  show "LF \<notin> set (inter_party_tostr p)"
    using ms(2) [OF m(1)] m(3) unfolding eq by (simp add: sprintf_d_plain field_ok_def TAB_facts TAB_facts(6) [symmetric])
  show "length (inter_party_tostr p) < 8191"
    using ms(1) [OF m(1)] m(2,3) len unfolding eq by (simp add: field_ok_def)
qed

lemma load_lines:
  assumes "\<forall>k \<in> set keys. \<exists>p. db k = Some p \<and> party_id p = k \<and> storable p"
  defines "load \<equiv> \<lambda>keys. fold load_line (map (\<lambda>k. inter_party_tostr (the (db k)) @ [LF]) keys)"
  shows "party_db (load keys s) k = (if k \<in> set keys then map_option stored_party (db k) else party_db s k) \<and>
    party_newid s \<le> party_newid (load keys s) \<and> (k \<in> set keys \<longrightarrow> k < party_newid (load keys s))"
  using assms(1)
proof (induction keys arbitrary: s)
  case (Cons j keys)
  from Cons.prems obtain p where p: "db j = Some p" "party_id p = j" "storable p" by auto
  let ?t = "load_line (inter_party_tostr p @ [LF]) s"
  have t: "party_db ?t = (party_db s)(j := Some (stored_party p))"
      "party_newid ?t = (if j \<ge> party_newid s then j + 1 else party_newid s)"
    using load_line_tostr [OF p(3), of s] p(2) by simp_all
  have load: "load (j # keys) s = load keys ?t" using p(1) by (simp add: load_def)
  have IH: "party_db (load keys ?t) k = (if k \<in> set keys then map_option stored_party (db k) else party_db ?t k)"
      "party_newid ?t \<le> party_newid (load keys ?t)" "k \<in> set keys \<Longrightarrow> k < party_newid (load keys ?t)"
    using Cons.IH [of ?t] Cons.prems by auto
  have "party_newid s \<le> party_newid ?t" "j < party_newid ?t" using t(2) by simp_all
  then have "party_newid s \<le> party_newid (load keys ?t)" "j < party_newid (load keys ?t)" using IH(2) by simp_all
  moreover have "party_db (load keys ?t) k = (if k \<in> set (j # keys) then map_option stored_party (db k) else party_db s k)"
    using IH(1) t(1) p(1) by simp
  ultimately show ?case using IH(3) unfolding load by auto
qed (simp add: load_def)

text \<open>
  C28. The file of the parties can be read back: every party is found again under its number, with its name, its
  options and its members, and numbers given later are free. What the format does not carry is lost: who is online,
  where and at which level, and the second option on items. The names have to be ones the format can hold.
\<close>

theorem party_file_roundtrip:
  assumes "\<And>k p. party_db s k = Some p \<Longrightarrow> party_id p = k \<and> storable p" "set keys = dom (party_db s)"
  shows "party_db (inter_party_init level (inter_party_save keys s)) = map_option stored_party \<circ> party_db s \<and>
    (\<forall>k p. party_db (inter_party_init level (inter_party_save keys s)) k = Some p \<longrightarrow>
       k < party_newid (inter_party_init level (inter_party_save keys s)))"
proof -
  let ?line = "\<lambda>k. inter_party_tostr (the (party_db s k))"
  let ?s0 = "\<lparr>party_db = Map.empty, party_newid = 100, party_share_level = level, sent = []\<rparr>"
  have keys: "\<forall>k \<in> set keys. \<exists>p. party_db s k = Some p \<and> party_id p = k \<and> storable p" using assms by blast
  have "inter_party_save keys s = concat (map (\<lambda>l. l @ [LF]) (map ?line keys))"
    using keys by (auto simp: inter_party_save_def inter_party_save_sub_def comp_def intro!: arg_cong [where f = concat] map_cong)
  moreover have "file_lines 8191 (concat (map (\<lambda>l. l @ [LF]) (map ?line keys))) = map (\<lambda>l. l @ [LF]) (map ?line keys)"
    using keys tostr_line by (intro file_lines_concat) fastforce
  ultimately have init: "inter_party_init level (inter_party_save keys s) = fold load_line (map (\<lambda>k. ?line k @ [LF]) keys) ?s0"
    by (simp add: inter_party_init_def comp_def)
  have loaded: "party_db (fold load_line (map (\<lambda>k. ?line k @ [LF]) keys) ?s0) k =
        (if k \<in> set keys then map_option stored_party (party_db s k) else party_db ?s0 k) \<and>
      (k \<in> set keys \<longrightarrow> k < party_newid (fold load_line (map (\<lambda>k. ?line k @ [LF]) keys) ?s0))" for k
    using load_lines [OF keys] by blast
  have db: "party_db (inter_party_init level (inter_party_save keys s)) k = map_option stored_party (party_db s k)" for k
    unfolding init using loaded [of k] assms(2) by (auto simp: domIff)
  have "k < party_newid (inter_party_init level (inter_party_save keys s))"
    if "party_db (inter_party_init level (inter_party_save keys s)) k = Some p" for k p
  proof -
    have "k \<in> set keys" using that db [of k] assms(2) by auto
    then show ?thesis unfolding init using loaded by blast
  qed
  then show ?thesis using db by auto
qed

lemma party_file_roundtrip_witness:
  "party_db (inter_party_init 10 (inter_party_save [100] \<lparr>party_db = [100 \<mapsto> two_members 1], party_newid = 101,
     party_share_level = 10, sent = []\<rparr>)) 100 = Some (stored_party (two_members 1))"
proof -
  let ?s = "\<lparr>party_db = [100 \<mapsto> two_members 1], party_newid = 101, party_share_level = 10, sent = []\<rparr>"
  have f: "field_ok ''Friends''" "field_ok ''Al''" "field_ok ''Bo''" "\<not> match_word ''%newid'' ''Friends''"
    by (simp_all add: field_ok_def TAB_def LF_def isspace_def byte_def)
  have "storable (two_members 1)"
    using f by (auto simp: storable_def two_members_def no_party_def no_member_def MAX_PARTY_def member_storable_def)
  moreover have "party_id (two_members 1) = 100" by (simp add: two_members_def)
  ultimately have hyp: "party_id p = k \<and> storable p" if "party_db ?s k = Some p" for k p
    using that by (simp split: if_splits)
  have "party_db (inter_party_init 10 (inter_party_save [100] ?s)) = map_option stored_party \<circ> party_db ?s"
    using party_file_roundtrip [of ?s "[100]" 10, OF hyp] by simp
  then show ?thesis by simp
qed

end
