(* ===== verification/Manner.thy ===== *)
theory Manner
  imports CLib
begin

text \<open>
  The manner system (\<open>src/src/map/clif.c\<close>): the list of bad words that is read from a file, and the search for them in
  what a player writes.
\<close>

section \<open>The list\<close>

definition MANNER_SIZE :: nat where
  "MANNER_SIZE = 80"

text \<open>\<open>sscanf(line, "%[^:]:%s", w1, w2) == 2\<close>.\<close>

definition scan_option :: "string \<Rightarrow> (string \<times> string) option" where
  "scan_option line =
     (let w1 = takeWhile (\<lambda>c. c \<noteq> CHR '':'') line; p = dropWhile (\<lambda>c. c \<noteq> CHR '':'') line;
          w2 = takeWhile (\<lambda>c. \<not> isspace c) (dropWhile isspace (tl p))
      in if w1 = [] \<or> p = [] \<or> w2 = [] then None else Some (w1, w2))"

definition trim_end :: "string \<Rightarrow> string" where
  "trim_end line = rev (dropWhile isspace (rev line))"

text \<open>A line of the file: whether words are to be taken now, and the words so far.\<close>

definition read_line :: "string \<Rightarrow> string \<Rightarrow> bool \<times> string list \<Rightarrow> bool \<times> string list" where
  "read_line npc_language raw = (\<lambda>(add_word, db).
     let line = dropWhile isspace (cstr raw) in
     if peek line 0 = CHR ''/'' \<and> peek line 1 = CHR ''/'' \<or> line = [] \<or> peek line 0 = LF \<or> peek line 0 = CHR 0x0D then (add_word, db)
     else (let line = trim_end line;
               add = (if add_word then (True, db @ [take (MANNER_SIZE - 1) (map tolower line)]) else (False, db))
           in case scan_option line of
                Some (w1, w2) \<Rightarrow> if strcasecmp_eq w1 ''language'' then (w2 = npc_language, db) else add
              | None \<Rightarrow> add))"

definition read_manner :: "string \<Rightarrow> string option \<Rightarrow> string list" where
  "read_manner npc_language file = (case file of None \<Rightarrow> []
     | Some text \<Rightarrow> snd (fold (read_line npc_language) (file_lines (MANNER_SIZE - 1) text) (False, [])))"

section \<open>The search\<close>

definition boundary :: "char \<Rightarrow> bool" where
  "boundary c \<longleftrightarrow> isspace c \<or> ispunct c \<or> isdigit c"

text \<open>
  The loop over the occurrences of a word, from \<open>to_check\<close> on. No result stands for reading behind the end of the
  sentence, which the empty word makes it do.
\<close>

function word_loop :: "string \<Rightarrow> string \<Rightarrow> nat \<Rightarrow> bool option" where
  "word_loop s w to_check =
     (if to_check > length s then None
      else case strstr (drop to_check s) w of
        None \<Rightarrow> Some False
      | Some k \<Rightarrow>
          (let p = to_check + k; q = p + length w in
           if (p = 0 \<or> boundary (s ! (p - 1))) \<and> (q = length s \<or> boundary (s ! q)) then Some True
           else word_loop s w (to_check + 1)))"
  by auto
termination by (relation "measure (\<lambda>(s, w, n). length s + 1 - n)") auto

declare word_loop.simps [simp del]

fun words_loop :: "string \<Rightarrow> string list \<Rightarrow> bool option" where
  "words_loop s [] = Some False"
| "words_loop s (w # ws) = (case word_loop s w 0 of
     None \<Rightarrow> None
   | Some found \<Rightarrow> if found then Some True else words_loop s ws)"

definition lower_sentence :: "string \<Rightarrow> string" where
  "lower_sentence s = map (\<lambda>c. if iscntrl c then CHR ''_'' else tolower c) s"

text \<open>Whether the sentence is blocked, and the message to the player.\<close>

definition check_bad_word :: "int \<Rightarrow> string list \<Rightarrow> string \<Rightarrow> (int \<times> nat option) option" where
  "check_bad_word manner_action manner_db sentence =
     (if manner_action = 0 \<or> manner_db = [] then Some (0, None)
      else case words_loop (lower_sentence (cstr sentence)) manner_db of
        None \<Rightarrow> None
      | Some False \<Rightarrow> Some (0, None)
      | Some True \<Rightarrow> Some (if manner_action = 1 then (0, Some 651) else if manner_action = 2 then (1, None)
                          else if manner_action = 3 then (1, Some 650) else (0, None)))"

section \<open>What is found\<close>

text \<open>A word that stands alone: at both ends there is the end of the sentence, a blank, a sign or a digit.\<close>

definition stands_alone :: "string \<Rightarrow> string \<Rightarrow> bool" where
  "stands_alone s w \<longleftrightarrow> (\<exists>a b. s = a @ w @ b \<and> (a = [] \<or> boundary (last a)) \<and> (b = [] \<or> boundary (hd b)))"

definition alone_at :: "string \<Rightarrow> string \<Rightarrow> nat \<Rightarrow> bool" where
  "alone_at s w p \<longleftrightarrow> p \<le> length s \<and> take (length w) (drop p s) = w \<and> (p = 0 \<or> boundary (s ! (p - 1))) \<and>
     (p + length w = length s \<or> boundary (s ! (p + length w)))"

lemma stands_alone_at: "stands_alone s w \<longleftrightarrow> (\<exists>p. alone_at s w p)"
proof
  assume "stands_alone s w"
  then obtain a b where ab: "s = a @ w @ b" "a = [] \<or> boundary (last a)" "b = [] \<or> boundary (hd b)"
    by (auto simp: stands_alone_def)
  have "a = [] \<or> boundary (s ! (length a - 1))" using ab(2) by (cases "a = []") (simp_all add: ab(1) nth_append last_conv_nth)
  moreover have "b = [] \<or> boundary (s ! (length a + length w))" using ab(3) by (cases b) (simp_all add: ab(1) nth_append)
  ultimately have "alone_at s w (length a)" by (auto simp: alone_at_def ab(1))
  then show "\<exists>p. alone_at s w p" ..
next
  assume "\<exists>p. alone_at s w p"
  then obtain p where p: "alone_at s w p" ..
  define a where "a = take p s"
  define b where "b = drop (p + length w) s"
  have w: "take (length w) (drop p s) = w" "p \<le> length s" using p by (simp_all add: alone_at_def)
  have "s = a @ drop p s" by (simp add: a_def)
  also have "drop p s = w @ b"
    using append_take_drop_id [of "length w" "drop p s"] w(1) by (simp add: b_def add.commute)
  finally have s: "s = a @ w @ b" .
  have len: "length a = p" using w(2) by (simp add: a_def)
  have "a = [] \<or> boundary (last a)"
  proof (cases "p = 0")
    case False
    then have "last a = s ! (p - 1)" using len w(2) by (simp add: last_conv_nth a_def flip: length_greater_0_conv)
    then show ?thesis using p False by (simp add: alone_at_def)
  qed (simp add: a_def)
  moreover have "b = [] \<or> boundary (hd b)"
  proof (cases b)
    case (Cons c b')
    then have "s ! (p + length w) = c" "p + length w \<noteq> length s" using s len by (simp_all add: nth_append)
    then show ?thesis using p Cons by (simp add: alone_at_def)
  qed simp
  ultimately show "stands_alone s w" using s by (auto simp: stands_alone_def)
qed

lemma word_loop_correct:
  assumes "w \<noteq> []" "to_check \<le> length s" "\<And>p. p < to_check \<Longrightarrow> \<not> alone_at s w p"
  shows "word_loop s w to_check = Some (stands_alone s w)"
  using assms(2,3)
proof (induction "length s - to_check" arbitrary: to_check)
  case 0
  then have "strstr (drop to_check s) w = None" using assms(1) by (simp add: strstr_None)
  moreover have "\<not> alone_at s w p" for p
    using 0 assms(1) by (cases "p < to_check") (auto simp: alone_at_def)
  ultimately show ?case using 0 by (subst word_loop.simps) (simp add: stands_alone_at)
next
  case (Suc n)
  show ?case
  proof (cases "strstr (drop to_check s) w")
    case None
    have "\<not> alone_at s w p" for p
    proof (cases "p < to_check")
      case False
      then show ?thesis
        using None Suc.prems(1) by (auto simp: strstr_None alone_at_def dest!: spec [of _ "p - to_check"])
    qed (use Suc.prems in blast)
    then show ?thesis using None Suc.prems(1) by (subst word_loop.simps) (simp add: stands_alone_at)
  next
    case (Some k)
    note k = Some [unfolded strstr_iff]
    let ?p = "to_check + k"
    have at: "take (length w) (drop ?p s) = w" "?p \<le> length s" using k Suc.prems(1) by (auto simp: add.commute)
    show ?thesis
    proof (cases "alone_at s w ?p")
      case True
      then show ?thesis using Some Suc.prems(1) by (subst word_loop.simps) (auto simp: alone_at_def stands_alone_at Let_def)
    next
      case False
      have less: "\<not> alone_at s w p" if "p < to_check + 1" for p
      proof (cases "p < to_check")
        case False
        then have "p = to_check" using that by simp
        then show ?thesis
          using k \<open>\<not> alone_at s w ?p\<close> by (cases "k = 0") (auto simp: alone_at_def)
      qed (use Suc.prems in blast)
      have "word_loop s w (to_check + 1) = Some (stands_alone s w)"
        using Suc.hyps(2) less by (intro Suc.hyps(1)) simp_all
      then show ?thesis
        using False Some at Suc.prems(1) by (subst word_loop.simps) (auto simp: alone_at_def Let_def)
    qed
  qed
qed

lemma words_loop_correct:
  "[] \<notin> set ws \<Longrightarrow> words_loop s ws = Some (\<exists>w \<in> set ws. stands_alone s w)"
  by (induction ws) (auto simp: word_loop_correct)

lemma read_line_words: "[] \<notin> set (snd st) \<Longrightarrow> [] \<notin> set (snd (read_line lang raw st))"
proof -
  assume st: "[] \<notin> set (snd st)"
  define line where "line = dropWhile isspace (cstr raw)"
  have "trim_end line \<noteq> []" if "line \<noteq> []"
  proof -
    have "\<not> isspace (hd line)" using that hd_dropWhile unfolding line_def by blast
    then show ?thesis using that by (simp add: trim_end_def) (metis hd_in_set)
  qed
  then show ?thesis
    using st by (auto simp: read_line_def line_def [symmetric] Let_def MANNER_SIZE_def split: prod.splits option.splits)
qed

lemma read_manner_words: "[] \<notin> set (read_manner lang file)"
proof -
  have "[] \<notin> set (snd (fold (read_line lang) ls st))" if "[] \<notin> set (snd st)" for ls st
    using that by (induction ls arbitrary: st) (simp_all add: read_line_words)
  then show ?thesis by (simp add: read_manner_def split: option.splits)
qed

text \<open>
  C29. With a list of words that was read from a file, the search never leaves the sentence, and finds a bad word just when
  one of them stands alone in what the player wrote, in small letters and with \<open>_\<close> for control characters.
\<close>

theorem check_bad_word_correct:
  "check_bad_word action (read_manner lang file) sentence =
     Some (if action \<in> {1, 2, 3} \<and> (\<exists>w \<in> set (read_manner lang file). stands_alone (lower_sentence (cstr sentence)) w)
           then (if action = 1 then 0 else 1, if action = 1 then Some 651 else if action = 3 then Some 650 else None)
           else (0, None))"
  using words_loop_correct [OF read_manner_words] by (auto simp: check_bad_word_def split: bool.splits)

end
