(* ===== verification/Chat.thy ===== *)
theory Chat
  imports Manner "HOL-Library.Monad_Syntax"
begin

text \<open>
  Chat rooms (\<open>src/src/map/chat.c\<close>), the table of objects they are kept in (\<open>map_addobject\<close> and \<open>map_delobject\<close> of
  \<open>map.c\<close>), the packets of the clients about them and what is sent to the clients (\<open>clif.c\<close>).

  A room holds pointers to the sessions of its users. Here they are the numbers of the players; following one whose
  session is gone, and reading or writing behind an array, has no result (\<open>None\<close>).
\<close>

section \<open>Data\<close>

definition MAX_FLOORITEM :: int where
  "MAX_FLOORITEM = 500000"

text \<open>The twenty places of \<open>usersd\<close>.\<close>

definition MAX_CHATTERS :: nat where
  "MAX_CHATTERS = 20"

record block_list =
  bl_m :: int
  bl_x :: int
  bl_y :: int

record chatter = block_list +
  status_name :: string
  chatID :: int
  vender_id :: int
  dead_sit :: int
  sc_berserk :: int
  sc_nochat :: int
  basic_skill :: "int \<times> int"

text \<open>\<open>*cd->owner\<close> is the first user of the room of a player, and the NPC of another.\<close>

datatype chat_owner = First_user | Owner_npc int

record chat_data = block_list +
  pass :: string
  title :: string
  limit :: int
  trigger :: int
  users :: nat
  pub :: int
  usersd :: "int list"
  owner :: chat_owner
  npc_event :: string

datatype block_object = Chat_object chat_data | Other_object

record npc_data = block_list +
  chat_id :: int

datatype chat_message =
    Createchat int int
  | Dispchat int int int nat int string
  | Changechatstatus int int int nat int string
  | Clearchat int
  | Joinchatfail int int
  | Joinchatok int int "(bool \<times> string) list"
  | Addchat nat string
  | Changechatowner string string
  | Leavechat int string
  | Wis_message int nat
  | Displaymessage int nat
  | Skill_fail int
  | Stop_walking int
  | Npc_event_do string

record world =
  sessions :: "int \<Rightarrow> chatter option"
  npcs :: "int \<Rightarrow> npc_data option"
  object :: "int \<Rightarrow> block_object option"
  first_free_object_id :: int
  last_object_id :: int
  sent :: "chat_message list"

definition say :: "chat_message \<Rightarrow> world \<Rightarrow> world" where
  "say m w = w\<lparr>sent := sent w @ [m]\<rparr>"

definition set_session :: "int \<Rightarrow> chatter \<Rightarrow> world \<Rightarrow> world" where
  "set_session sid sd w = w\<lparr>sessions := (sessions w)(sid := Some sd)\<rparr>"

definition set_chat :: "int \<Rightarrow> chat_data \<Rightarrow> world \<Rightarrow> world" where
  "set_chat cid cd w = w\<lparr>object := (object w)(cid := Some (Chat_object cd))\<rparr>"

text \<open>\<open>map_id2bl\<close> followed by the check that it is a room; what is not in the table of objects is none.\<close>

definition id2chat :: "world \<Rightarrow> int \<Rightarrow> chat_data option" where
  "id2chat w i = (if 0 \<le> i \<and> i < MAX_FLOORITEM then (case object w i of Some (Chat_object cd) \<Rightarrow> Some cd | _ \<Rightarrow> None) else None)"

section \<open>Objects\<close>

text \<open>The first number from \<open>i\<close> on that is not in use.\<close>

function free_from :: "(int \<Rightarrow> block_object option) \<Rightarrow> int \<Rightarrow> int" where
  "free_from obj i = (if i < MAX_FLOORITEM \<and> obj i \<noteq> None then free_from obj (i + 1) else i)"
  by auto
termination by (relation "measure (\<lambda>(obj, i). nat (MAX_FLOORITEM - i))") auto

declare free_from.simps [simp del]

definition map_addobject :: "block_object \<Rightarrow> world \<Rightarrow> int \<times> world" where
  "map_addobject bl w =
     (let first = (if first_free_object_id w < 2 \<or> first_free_object_id w \<ge> MAX_FLOORITEM then 2 else first_free_object_id w);
          i = free_from (object w) first
      in if i \<ge> MAX_FLOORITEM then (0, w\<lparr>first_free_object_id := first\<rparr>)
         else (i, w\<lparr>first_free_object_id := i, last_object_id := (if last_object_id w < i then i else last_object_id w),
                    object := (object w)(i := Some bl)\<rparr>))"

function last_used :: "(int \<Rightarrow> block_object option) \<Rightarrow> int \<Rightarrow> int" where
  "last_used obj i = (if i > 2 \<and> obj i = None then last_used obj (i - 1) else i)"
  by auto
termination by (relation "measure (\<lambda>(obj, i). nat i)") auto

declare last_used.simps [simp del]

definition map_delobject :: "int \<Rightarrow> world \<Rightarrow> world" where
  "map_delobject i w =
     (if object w i = None then w
      else (let obj = (object w)(i := None)
            in w\<lparr>object := obj, first_free_object_id := (if first_free_object_id w > i then i else first_free_object_id w),
                 last_object_id := last_used obj (last_object_id w)\<rparr>))"

section \<open>Sending\<close>

text \<open>Whoever the message is about must still be there: the position of the owner is read to find who is near.\<close>

definition owner_id :: "world \<Rightarrow> chat_data \<Rightarrow> int option" where
  "owner_id w cd = (case owner cd of
     First_user \<Rightarrow> if sessions w (usersd cd ! 0) = None then None else Some (usersd cd ! 0)
   | Owner_npc n \<Rightarrow> if npcs w n = None then None else Some n)"

definition alive_users :: "world \<Rightarrow> chat_data \<Rightarrow> bool" where
  "alive_users w cd = list_all (\<lambda>u. sessions w u \<noteq> None) (take (users cd) (usersd cd))"

text \<open>\<open>clif_send\<close> to the users of the room the player is in.\<close>

definition send_chat :: "int \<Rightarrow> chat_message \<Rightarrow> world \<Rightarrow> world option" where
  "send_chat sid m w = do {
     sd \<leftarrow> sessions w sid;
     (case id2chat w (chatID sd) of
        None \<Rightarrow> Some w
      | Some cd \<Rightarrow> if alive_users w cd then Some (say m w) else None)}"

definition clif_dispchat :: "int \<Rightarrow> chat_data \<Rightarrow> world \<Rightarrow> world option" where
  "clif_dispchat cid cd w = do {
     i \<leftarrow> owner_id w cd;
     Some (say (Dispchat cid i (limit cd) (users cd) (pub cd) (title cd)) w)}"

definition clif_changechatstatus :: "int \<Rightarrow> chat_data \<Rightarrow> world \<Rightarrow> world option" where
  "clif_changechatstatus cid cd w =
     send_chat (usersd cd ! 0) (Changechatstatus cid (usersd cd ! 0) (limit cd) (users cd) (pub cd) (title cd)) w"

definition clif_clearchat :: "int \<Rightarrow> chat_data \<Rightarrow> world \<Rightarrow> world option" where
  "clif_clearchat cid cd w = do { i \<leftarrow> owner_id w cd; Some (say (Clearchat cid) w) }"

fun user_names :: "world \<Rightarrow> int list \<Rightarrow> string list option" where
  "user_names w [] = Some []"
| "user_names w (u # us) = do { sd \<leftarrow> sessions w u; ns \<leftarrow> user_names w us; Some (status_name sd # ns) }"

definition clif_joinchatok :: "int \<Rightarrow> int \<Rightarrow> chat_data \<Rightarrow> world \<Rightarrow> world option" where
  "clif_joinchatok sid cid cd w = do {
     ns \<leftarrow> user_names w (take (users cd) (usersd cd));
     Some (say (Joinchatok sid cid (zip (map (\<lambda>i. i \<noteq> 0 \<or> (case owner cd of Owner_npc n \<Rightarrow> True | First_user \<Rightarrow> False))
       [0..<users cd]) ns)) w)}"

definition clif_addchat :: "chat_data \<Rightarrow> int \<Rightarrow> world \<Rightarrow> world option" where
  "clif_addchat cd sid w = do { sd \<leftarrow> sessions w sid; send_chat sid (Addchat (users cd) (status_name sd)) w }"

definition clif_changechatowner :: "chat_data \<Rightarrow> int \<Rightarrow> world \<Rightarrow> world option" where
  "clif_changechatowner cd sid w = do {
     sd0 \<leftarrow> sessions w (usersd cd ! 0);
     sd \<leftarrow> sessions w sid;
     send_chat sid (Changechatowner (status_name sd0) (status_name sd)) w}"

definition clif_leavechat :: "chat_data \<Rightarrow> int \<Rightarrow> world \<Rightarrow> world option" where
  "clif_leavechat cd sid w = do { sd \<leftarrow> sessions w sid; send_chat sid (Leavechat (int (users cd) - 1) (status_name sd)) w }"

definition stop_walking :: "int \<Rightarrow> chatter \<Rightarrow> world \<Rightarrow> world" where
  "stop_walking sid sd w = (if dead_sit sd = 2 then w else say (Stop_walking sid) w)"

section \<open>Rooms\<close>

text \<open>\<open>titlelen\<close> is compared with an unsigned number, so that a negative one is large.\<close>

definition clip_title :: "int \<Rightarrow> nat" where
  "clip_title titlelen = (if titlelen < 0 \<or> titlelen \<ge> 60 then 60 else nat titlelen)"

definition chat_triggerevent :: "chat_data \<Rightarrow> world \<Rightarrow> world" where
  "chat_triggerevent cd w =
     (if int (users cd) \<ge> trigger cd \<and> peek (npc_event cd) 0 \<noteq> NUL then say (Npc_event_do (npc_event cd)) w else w)"

definition no_chat :: chat_data where
  "no_chat = \<lparr>bl_m = 0, bl_x = 0, bl_y = 0, pass = [], title = [], limit = 0, trigger = 0, users = 0, pub = 0,
     usersd = replicate MAX_CHATTERS 0, owner = First_user, npc_event = []\<rparr>"

definition chat_createchat :: "int \<Rightarrow> int \<Rightarrow> int \<Rightarrow> string \<Rightarrow> string \<Rightarrow> int \<Rightarrow> world \<Rightarrow> world option" where
  "chat_createchat sid lim pb pss ttl titlelen w = do {
     sd \<leftarrow> sessions w sid;
     if chatID sd \<noteq> 0 then Some (say (Wis_message sid 670) w)
     else (let w = stop_walking sid sd w;
               cd = no_chat\<lparr>limit := u8 lim, pub := u8 pb, users := 1, pass := strncpy_buf 8 pss,
                 title := strncpy_buf (clip_title titlelen) ttl, usersd := (usersd no_chat)[0 := sid],
                 bl_m := bl_m sd, bl_x := bl_x sd, bl_y := bl_y sd\<rparr>;
               (cid, w) = map_addobject (Chat_object cd) w
           in if cid = 0 then Some (say (Createchat sid 1) w)
              else clif_dispchat cid cd (say (Createchat sid 0) (set_session sid (sd\<lparr>chatID := cid\<rparr>) w)))}"

text \<open>\<open>strncmp\<close> with 8 characters.\<close>

definition same_pass :: "string \<Rightarrow> string \<Rightarrow> bool" where
  "same_pass a b \<longleftrightarrow> cstr (take 8 a) = cstr (take 8 b)"

definition with_user :: "int \<Rightarrow> chat_data \<Rightarrow> chat_data" where
  "with_user sid cd = cd\<lparr>usersd := (usersd cd)[users cd := sid], users := users cd + 1\<rparr>"

definition chat_joinchat :: "int \<Rightarrow> int \<Rightarrow> string \<Rightarrow> world \<Rightarrow> world option" where
  "chat_joinchat sid cid pss w = do {
     sd \<leftarrow> sessions w sid;
     (case id2chat w cid of
        None \<Rightarrow> Some w
      | Some cd \<Rightarrow>
          if bl_m cd \<noteq> bl_m sd \<or> limit cd \<le> int (users cd) then Some (say (Joinchatfail sid 0) w)
          else if pub cd = 0 \<and> \<not> same_pass pss (pass cd) then Some (say (Joinchatfail sid 1) w)
          else if vender_id sd \<noteq> 0 then Some (say (Wis_message sid 648) w)
          else if cid = chatID sd then Some (say (Joinchatfail sid 1) w)
          else if users cd \<ge> MAX_CHATTERS then None
          else do {
            let cd = with_user sid cd;
            let w = set_session sid (sd\<lparr>chatID := cid\<rparr>) (set_chat cid cd (stop_walking sid sd w));
            w \<leftarrow> clif_joinchatok sid cid cd w;
            w \<leftarrow> clif_addchat cd sid w;
            w \<leftarrow> clif_dispchat cid cd w;
            Some (chat_triggerevent cd w)})}"

text \<open>The loop that closes the gap a user left.\<close>

definition close_gap :: "nat \<Rightarrow> nat \<Rightarrow> int list \<Rightarrow> int list" where
  "close_gap i n us = fold (\<lambda>j us. us[j := us ! (j + 1)]) [i..<n] us"

text \<open>The next user becomes the owner when the owner leaves.\<close>

definition next_owner :: "int \<Rightarrow> nat \<Rightarrow> chat_data \<Rightarrow> world \<Rightarrow> world option" where
  "next_owner cid leavechar cd w =
     (if leavechar = 0 \<and> users cd > 1 \<and> owner cd = First_user then do {
        w \<leftarrow> clif_changechatowner cd (usersd cd ! 1) w;
        clif_clearchat cid cd w}
      else Some w)"

text \<open>The place of a new owner becomes the place of the room.\<close>

definition moved_to :: "chatter \<Rightarrow> chat_data \<Rightarrow> chat_data" where
  "moved_to sd cd = cd\<lparr>bl_x := bl_x sd, bl_y := bl_y sd\<rparr>"

definition shift_users :: "nat \<Rightarrow> chat_data \<Rightarrow> world \<Rightarrow> chat_data option" where
  "shift_users leavechar cd w =
     (let cd = cd\<lparr>usersd := close_gap leavechar (users cd) (usersd cd)\<rparr> in
      if leavechar = 0 \<and> owner cd = First_user then do {
        sd0 \<leftarrow> sessions w (usersd cd ! 0);
        Some (moved_to sd0 cd)}
      else Some cd)"

definition remove_user :: "int \<Rightarrow> nat \<Rightarrow> chat_data \<Rightarrow> world \<Rightarrow> world option" where
  "remove_user cid leavechar cd w =
     (if users cd = 0 \<and> owner cd = First_user then do {
        w \<leftarrow> clif_clearchat cid cd w;
        Some (map_delobject cid w)}
      else do {
        cd \<leftarrow> shift_users leavechar cd w;
        clif_dispchat cid cd (set_chat cid cd w)})"

definition chat_leavechat :: "int \<Rightarrow> world \<Rightarrow> world option" where
  "chat_leavechat sid w = do {
     sd \<leftarrow> sessions w sid;
     let cid = chatID sd;
     (case id2chat w cid of
        None \<Rightarrow> Some w
      | Some cd \<Rightarrow>
          (let leavechar = first_idx (\<lambda>u. u = sid) (take (users cd) (usersd cd)) in
           if leavechar \<ge> users cd then Some w
           else do {
             w \<leftarrow> next_owner cid leavechar cd w;
             w \<leftarrow> clif_leavechat cd sid w;
             remove_user cid leavechar (cd\<lparr>users := users cd - 1\<rparr>) (set_session sid (sd\<lparr>chatID := 0\<rparr>) w)}))}"

text \<open>The user with a name, among the places from \<open>i\<close> on: every session that is looked at must be there.\<close>

fun find_named :: "world \<Rightarrow> string \<Rightarrow> nat \<Rightarrow> int list \<Rightarrow> nat option option" where
  "find_named w nm i [] = Some None"
| "find_named w nm i (u # us) = do {
     sd \<leftarrow> sessions w u;
     if status_name sd = nm then Some (Some i) else find_named w nm (i + 1) us}"

definition owns_chat :: "int \<Rightarrow> chat_data \<Rightarrow> bool" where
  "owns_chat sid cd \<longleftrightarrow> owner cd = First_user \<and> usersd cd ! 0 = sid"

definition make_owner :: "int \<Rightarrow> nat \<Rightarrow> chat_data \<Rightarrow> world \<Rightarrow> world option" where
  "make_owner cid nextowner cd w = do {
     w \<leftarrow> clif_changechatowner cd (usersd cd ! nextowner) w;
     w \<leftarrow> clif_clearchat cid cd w;
     let cd = cd\<lparr>usersd := (usersd cd)[0 := usersd cd ! nextowner, nextowner := usersd cd ! 0]\<rparr>;
     sd0 \<leftarrow> sessions w (usersd cd ! 0);
     let cd = moved_to sd0 cd;
     clif_dispchat cid cd (set_chat cid cd w)}"

definition chat_changechatowner :: "int \<Rightarrow> string \<Rightarrow> world \<Rightarrow> world option" where
  "chat_changechatowner sid nextownername w = do {
     sd \<leftarrow> sessions w sid;
     let cid = chatID sd;
     (case id2chat w cid of
        None \<Rightarrow> Some w
      | Some cd \<Rightarrow>
          if \<not> owns_chat sid cd then Some w
          else do {
            found \<leftarrow> find_named w nextownername 1 (drop 1 (take (users cd) (usersd cd)));
            (case found of
               None \<Rightarrow> Some w
             | Some nextowner \<Rightarrow> make_owner cid nextowner cd w)})}"

definition chat_changechatstatus ::
    "int \<Rightarrow> string list \<Rightarrow> int \<Rightarrow> int \<Rightarrow> int \<Rightarrow> string \<Rightarrow> string \<Rightarrow> int \<Rightarrow> world \<Rightarrow> world option" where
  "chat_changechatstatus action words sid lim pb pss ttl titlelen w = do {
     sd \<leftarrow> sessions w sid;
     let cid = chatID sd;
     (case id2chat w cid of
        None \<Rightarrow> Some w
      | Some cd \<Rightarrow>
          if \<not> owns_chat sid cd then Some w
          else do {
            let chat_title = strncpy_buf (clip_title titlelen) ttl;
            (bad, mes) \<leftarrow> check_bad_word action words chat_title;
            let w = (case mes of None \<Rightarrow> w | Some n \<Rightarrow> say (Displaymessage sid n) w);
            if bad \<noteq> 0 then Some w
            else do {
              let cd = cd\<lparr>limit := u8 lim, pub := u8 pb, pass := strncpy_buf 8 pss, title := chat_title\<rparr>;
              w \<leftarrow> clif_changechatstatus cid cd (set_chat cid cd w);
              clif_dispchat cid cd w}})}"

definition chat_kickchat :: "int \<Rightarrow> string \<Rightarrow> world \<Rightarrow> world option" where
  "chat_kickchat sid kickusername w = do {
     sd \<leftarrow> sessions w sid;
     (case id2chat w (chatID sd) of
        None \<Rightarrow> Some w
      | Some cd \<Rightarrow>
          if \<not> owns_chat sid cd then Some w
          else do {
            found \<leftarrow> find_named w kickusername 0 (take (users cd) (usersd cd));
            (case found of None \<Rightarrow> Some w | Some i \<Rightarrow> chat_leavechat (usersd cd ! i) w)})}"

section \<open>Rooms of NPCs\<close>

definition chat_createnpcchat :: "int \<Rightarrow> int \<Rightarrow> int \<Rightarrow> int \<Rightarrow> string \<Rightarrow> int \<Rightarrow> string \<Rightarrow> world \<Rightarrow> world option" where
  "chat_createnpcchat nid lim pb trg ttl titlelen ev w = (case npcs w nid of
     None \<Rightarrow> Some w
   | Some nd \<Rightarrow>
       (let cd = no_chat\<lparr>limit := u8 lim, trigger := (if trg > 0 then u8 trg else u8 lim), pub := u8 pb, users := 0,
              title := strncpy_buf (clip_title titlelen) ttl, bl_m := bl_m nd, bl_x := bl_x nd, bl_y := bl_y nd,
              owner := Owner_npc nid, npc_event := strncpy_buf 49 ev\<rparr>;
            (cid, w) = map_addobject (Chat_object cd) w
        in if cid = 0 then Some w
           else clif_dispchat cid cd (w\<lparr>npcs := (npcs w)(nid := Some (nd\<lparr>chat_id := cid\<rparr>))\<rparr>)))"

text \<open>
  Each round makes the last user leave - the room that player is in. The rounds may not end. When the room itself is
  gone, its memory is still read.
\<close>

partial_function (option) kick_loop :: "int \<Rightarrow> world \<Rightarrow> world option" where
  "kick_loop cid w = (case id2chat w cid of
     None \<Rightarrow> None
   | Some cd \<Rightarrow>
       if users cd > 0 then (case chat_leavechat (usersd cd ! (users cd - 1)) w of
         None \<Rightarrow> None
       | Some w' \<Rightarrow> kick_loop cid w')
       else Some w)"

definition chat_npckickall :: "int \<Rightarrow> world \<Rightarrow> world option" where
  "chat_npckickall cid w = (if id2chat w cid = None then Some w else kick_loop cid w)"

definition chat_deletenpcchat :: "int \<Rightarrow> world \<Rightarrow> world option" where
  "chat_deletenpcchat nid w = (case npcs w nid of
     None \<Rightarrow> Some w
   | Some nd \<Rightarrow>
       (let cid = chat_id nd in
        case id2chat w cid of
          None \<Rightarrow> Some w
        | Some cd \<Rightarrow> do {
            w \<leftarrow> chat_npckickall cid w;
            cd \<leftarrow> id2chat w cid;
            w \<leftarrow> clif_clearchat cid cd w;
            let w = map_delobject cid w;
            Some (w\<lparr>npcs := (npcs w)(nid := Some (nd\<lparr>chat_id := 0\<rparr>))\<rparr>)}))"

definition chat_enableevent :: "int \<Rightarrow> world \<Rightarrow> world" where
  "chat_enableevent cid w = (case id2chat w cid of
     None \<Rightarrow> w
   | Some cd \<Rightarrow> (let cd = cd\<lparr>trigger := trigger cd mod 128\<rparr> in chat_triggerevent cd (set_chat cid cd w)))"

definition chat_disableevent :: "int \<Rightarrow> world \<Rightarrow> world" where
  "chat_disableevent cid w = (case id2chat w cid of
     None \<Rightarrow> w
   | Some cd \<Rightarrow> set_chat cid (cd\<lparr>trigger := trigger cd mod 128 + 128\<rparr>) w)"

section \<open>Packets\<close>

definition clif_parse_CreateChatRoom ::
    "int \<Rightarrow> int \<Rightarrow> string list \<Rightarrow> int \<Rightarrow> int \<Rightarrow> int \<Rightarrow> int \<Rightarrow> string \<Rightarrow> string \<Rightarrow> world \<Rightarrow> world option" where
  "clif_parse_CreateChatRoom basic_skill_check action words sid len lim pb pss ttl w = do {
     sd \<leftarrow> sessions w sid;
     if sc_berserk sd \<noteq> -1 \<or> sc_nochat sd \<noteq> -1 then Some w
     else if vender_id sd \<noteq> 0 then Some w
     else if basic_skill_check = 0 \<or> fst (basic_skill sd) = 1 \<and> snd (basic_skill sd) \<ge> 4 then do {
       let chat_title_len = len - 15;
       if chat_title_len < 0 then None
       else do {
         let chat_title = strncpy_buf (nat chat_title_len) ttl;
         if peek chat_title 0 = NUL then Some w
         else do {
           (bad, mes) \<leftarrow> check_bad_word action words chat_title;
           let w = (case mes of None \<Rightarrow> w | Some n \<Rightarrow> say (Displaymessage sid n) w);
           if bad \<noteq> 0 then Some w
           else chat_createchat sid lim pb pss chat_title (int (length chat_title)) w}}}
     else Some (say (Skill_fail sid) w)}"

text \<open>What happens to a chat room: the packets, a player who leaves the map, and the scripts.\<close>

datatype chat_request =
    CreateChatRoom int int int int string string
  | ChatAddMember int int string
  | ChatRoomStatusChange int int int int string string
  | ChangeChatOwner int string
  | KickFromChat int string
  | ChatLeave int
  | Quit int
  | Create_npc int int int int string string
  | Delete_npc int
  | Kick_all int
  | Enable_event int
  | Disable_event int

fun chat_step :: "int \<Rightarrow> int \<Rightarrow> string list \<Rightarrow> chat_request \<Rightarrow> world \<Rightarrow> world option" where
  "chat_step bsc action words (CreateChatRoom sid len lim pb pss ttl) w =
     clif_parse_CreateChatRoom bsc action words sid len lim pb pss ttl w"
| "chat_step bsc action words (ChatAddMember sid cid pss) w = chat_joinchat sid cid pss w"
| "chat_step bsc action words (ChatRoomStatusChange sid len lim pb pss ttl) w =
     chat_changechatstatus action words sid lim pb pss ttl (len - 15) w"
| "chat_step bsc action words (ChangeChatOwner sid nick) w = chat_changechatowner sid nick w"
| "chat_step bsc action words (KickFromChat sid nick) w = chat_kickchat sid nick w"
| "chat_step bsc action words (ChatLeave sid) w = chat_leavechat sid w"
| "chat_step bsc action words (Quit sid) w = do {
     sd \<leftarrow> sessions w sid;
     w \<leftarrow> (if chatID sd \<noteq> 0 then chat_leavechat sid w else Some w);
     Some (w\<lparr>sessions := (sessions w)(sid := None)\<rparr>)}"
| "chat_step bsc action words (Create_npc nid lim pb trg ttl ev) w =
     chat_createnpcchat nid lim pb trg ttl (int (length ttl) + 1) ev w"
| "chat_step bsc action words (Delete_npc nid) w = chat_deletenpcchat nid w"
| "chat_step bsc action words (Kick_all nid) w = (case npcs w nid of
     None \<Rightarrow> Some w | Some nd \<Rightarrow> chat_npckickall (chat_id nd) w)"
| "chat_step bsc action words (Enable_event nid) w = (case npcs w nid of
     None \<Rightarrow> Some w | Some nd \<Rightarrow> Some (chat_enableevent (chat_id nd) w))"
| "chat_step bsc action words (Disable_event nid) w = (case npcs w nid of
     None \<Rightarrow> Some w | Some nd \<Rightarrow> Some (chat_disableevent (chat_id nd) w))"

end
