(* ===== verification/ChatProofs.thy ===== *)
theory ChatProofs
  imports Chat
begin

text \<open>
  Lemmas on chat rooms. Users and rooms know each other as long as nobody joins a room while in another one and no
  room is made larger than the array of its users; then every handler returns, and emptying a room ends.
\<close>

section \<open>The objects\<close>

definition objects_ok :: "world \<Rightarrow> bool" where
  "objects_ok w \<longleftrightarrow> (\<forall>i. object w i \<noteq> None \<longrightarrow> 2 \<le> i \<and> i < MAX_FLOORITEM \<and> i \<le> last_object_id w) \<and>
     (\<forall>i. 2 \<le> i \<and> i < first_free_object_id w \<and> i < MAX_FLOORITEM \<longrightarrow> object w i \<noteq> None)"

lemma objects_okD:
  assumes "objects_ok w"
  shows "object w i \<noteq> None \<Longrightarrow> 2 \<le> i \<and> i < MAX_FLOORITEM \<and> i \<le> last_object_id w"
    and "2 \<le> i \<Longrightarrow> i < first_free_object_id w \<Longrightarrow> i < MAX_FLOORITEM \<Longrightarrow> object w i \<noteq> None"
  using assms unfolding objects_ok_def by blast+

lemma free_from_spec:
  "i \<le> free_from obj i \<and> (i \<le> MAX_FLOORITEM \<longrightarrow> free_from obj i \<le> MAX_FLOORITEM) \<and>
   (\<forall>j. i \<le> j \<and> j < free_from obj i \<longrightarrow> obj j \<noteq> None) \<and> (free_from obj i < MAX_FLOORITEM \<longrightarrow> obj (free_from obj i) = None)"
proof (induction obj i rule: free_from.induct)
  case (1 obj i)
  show ?case
  proof (cases "i < MAX_FLOORITEM \<and> obj i \<noteq> None")
    case True
    note IH = 1 [OF True]
    have eq: "free_from obj i = free_from obj (i + 1)" using True by (subst free_from.simps) simp
    have "obj j \<noteq> None" if "i \<le> j" "j < free_from obj (i + 1)" for j
      using that True IH by (cases "j = i") auto
    then show ?thesis using True IH unfolding eq by auto
  next
    case False
    then have "free_from obj i = i" by (subst free_from.simps) auto
    then show ?thesis using False by auto
  qed
qed

text \<open>Whoever asks for a number gets one that is free, unless all are taken.\<close>

lemma map_addobject_correct:
  assumes w: "objects_ok w" and r: "map_addobject bl w = (i, w')"
  shows "objects_ok w'" "sessions w' = sessions w" "npcs w' = npcs w" "sent w' = sent w"
    "i = 0 \<Longrightarrow> object w' = object w \<and> (\<forall>j. 2 \<le> j \<and> j < MAX_FLOORITEM \<longrightarrow> object w j \<noteq> None)"
    "i \<noteq> 0 \<Longrightarrow> 2 \<le> i \<and> i < MAX_FLOORITEM \<and> object w i = None \<and> object w' = (object w)(i := Some bl)"
proof -
  define first where "first = (if first_free_object_id w < 2 \<or> first_free_object_id w \<ge> MAX_FLOORITEM then 2 else first_free_object_id w)"
  define j where "j = free_from (object w) first"
  have first: "2 \<le> first" "first \<le> MAX_FLOORITEM" by (auto simp: first_def MAX_FLOORITEM_def)
  have j: "first \<le> j" "j \<le> MAX_FLOORITEM" "\<And>k. first \<le> k \<Longrightarrow> k < j \<Longrightarrow> object w k \<noteq> None" "j < MAX_FLOORITEM \<Longrightarrow> object w j = None"
    using free_from_spec [of first "object w"] first by (auto simp: j_def)
  have below: "object w k \<noteq> None" if "2 \<le> k" "k < j" for k
  proof (cases "first \<le> k")
    case False
    then have "k < first_free_object_id w" "k < MAX_FLOORITEM" using that first by (auto simp: first_def split: if_splits)
    then show ?thesis using objects_okD(2) [OF w that(1)] by blast
  qed (use j that in blast)
  have eq: "map_addobject bl w = (if j \<ge> MAX_FLOORITEM then (0, w\<lparr>first_free_object_id := first\<rparr>)
         else (j, w\<lparr>first_free_object_id := j, last_object_id := (if last_object_id w < j then j else last_object_id w),
                    object := (object w)(j := Some bl)\<rparr>))"
    unfolding map_addobject_def Let_def first_def [symmetric] j_def [symmetric] ..
  have i: "i = fst (map_addobject bl w)" and w': "w' = snd (map_addobject bl w)" by (simp_all add: r)
  show "sessions w' = sessions w" "npcs w' = npcs w" "sent w' = sent w" unfolding w' eq by simp_all
  have ob: "object w' = (if j \<ge> MAX_FLOORITEM then object w else (object w)(j := Some bl))"
    "first_free_object_id w' = (if j \<ge> MAX_FLOORITEM then first else j)"
    "last_object_id w' = (if j \<ge> MAX_FLOORITEM \<or> last_object_id w \<ge> j then last_object_id w else j)"
    unfolding w' eq by simp_all
  have i: "i = (if j \<ge> MAX_FLOORITEM then 0 else j)" unfolding i eq by simp
  note inv = objects_okD(1) [OF w]
  show "objects_ok w'"
    unfolding objects_ok_def
  proof (intro conjI allI impI)
    fix k assume "object w' k \<noteq> None"
    then show "2 \<le> k" "k < MAX_FLOORITEM" "k \<le> last_object_id w'"
      using inv [of k] first(1) j(1) by (auto simp: ob split: if_splits)
  next
    fix k assume "2 \<le> k \<and> k < first_free_object_id w' \<and> k < MAX_FLOORITEM"
    then show "object w' k \<noteq> None" using below [of k] j(1) by (auto simp: ob split: if_splits)
  qed
  show "object w' = object w \<and> (\<forall>j. 2 \<le> j \<and> j < MAX_FLOORITEM \<longrightarrow> object w j \<noteq> None)" if "i = 0"
    using that below first(1) j(1) by (auto simp: i ob split: if_splits)
  show "2 \<le> i \<and> i < MAX_FLOORITEM \<and> object w i = None \<and> object w' = (object w)(i := Some bl)" if "i \<noteq> 0"
    using that first(1) j(1,4) by (auto simp: i ob split: if_splits)
qed

lemma last_used_spec:
  assumes "i0 = i"
  shows "last_used obj i0 \<le> i \<and> (\<forall>j. 2 < j \<and> last_used obj i0 < j \<and> j \<le> i \<longrightarrow> obj j = None)"
  using assms
proof (induction obj i0 arbitrary: i rule: last_used.induct)
  case (1 obj i0)
  show ?case
  proof (cases "i0 > 2 \<and> obj i0 = None")
    case True
    note IH = "1.IH" [OF True refl]
    have "last_used obj i0 = last_used obj (i0 - 1)" using True by (subst last_used.simps) simp
    moreover have "obj j = None" if "2 < j" "last_used obj (i0 - 1) < j" "j \<le> i" for j
      using that IH True "1.prems" by (cases "j = i0") auto
    ultimately show ?thesis using IH "1.prems" by auto
  next
    case False
    then have "last_used obj i0 = i0" by (subst last_used.simps) auto
    then show ?thesis using "1.prems" by auto
  qed
qed

lemma last_used_ge: "2 \<le> i \<Longrightarrow> 2 \<le> last_used obj i"
proof (induction obj i rule: last_used.induct)
  case (1 obj i)
  then show ?case by (subst last_used.simps) auto
qed

lemma map_delobject_ok:
  assumes "objects_ok w"
  shows "objects_ok (map_delobject i w)"
proof (cases "object w i = None")
  case False
  let ?obj = "(object w)(i := None)"
  have last: "j \<le> last_used ?obj (last_object_id w)" if "?obj j \<noteq> None" for j
  proof -
    have "object w j \<noteq> None" using that by (simp split: if_splits)
    note j = objects_okD(1) [OF assms this]
    have "\<not> last_used ?obj (last_object_id w) < j" if "j \<noteq> 2"
      using last_used_spec [OF refl, of ?obj "last_object_id w"] j that \<open>?obj j \<noteq> None\<close> by force
    then show ?thesis using j last_used_ge [of "last_object_id w" ?obj] by force
  qed
  show ?thesis
    unfolding objects_ok_def
  proof (intro conjI allI impI)
    fix j assume j: "object (map_delobject i w) j \<noteq> None"
    then have "?obj j \<noteq> None" "object w j \<noteq> None" using False by (auto simp: map_delobject_def Let_def split: if_splits)
    then show "2 \<le> j" "j < MAX_FLOORITEM" "j \<le> last_object_id (map_delobject i w)"
      using objects_okD(1) [OF assms] last False by (auto simp: map_delobject_def Let_def)
  next
    fix j assume "2 \<le> j \<and> j < first_free_object_id (map_delobject i w) \<and> j < MAX_FLOORITEM"
    then have j: "2 \<le> j" "j < first_free_object_id w" "j \<noteq> i" "j < MAX_FLOORITEM"
      using False by (auto simp: map_delobject_def Let_def split: if_splits)
    then show "object (map_delobject i w) j \<noteq> None"
      using objects_okD(2) [OF assms j(1,2,4)] False by (simp add: map_delobject_def Let_def)
  qed
qed (use assms in \<open>simp add: map_delobject_def\<close>)

lemma map_delobject_simps [simp]:
  "sessions (map_delobject i w) = sessions w" "npcs (map_delobject i w) = npcs w" "object (map_delobject i w) = (object w)(i := None)"
proof -
  show "sessions (map_delobject i w) = sessions w" "npcs (map_delobject i w) = npcs w"
    by (simp_all add: map_delobject_def Let_def)
  have "object w = (object w)(i := None)" if "object w i = None" using fun_upd_idem [of "object w", OF that] by simp
  then show "object (map_delobject i w) = (object w)(i := None)" by (simp add: map_delobject_def Let_def)
qed

section \<open>Users and rooms\<close>

definition chatters :: "chat_data \<Rightarrow> int list" where
  "chatters cd = take (users cd) (usersd cd)"

definition chat_ok :: "(int \<Rightarrow> chatter option) \<Rightarrow> (int \<Rightarrow> npc_data option) \<Rightarrow> int \<Rightarrow> chat_data \<Rightarrow> bool" where
  "chat_ok ss ns cid cd \<longleftrightarrow> users cd \<le> MAX_CHATTERS \<and> length (usersd cd) = MAX_CHATTERS \<and> distinct (chatters cd) \<and>
     (\<forall>u \<in> set (chatters cd). \<exists>sd. ss u = Some sd \<and> chatID sd = cid) \<and> (owner cd = First_user \<longrightarrow> 0 < users cd) \<and>
     (\<forall>n. owner cd = Owner_npc n \<longrightarrow> ns n \<noteq> None) \<and> limit cd \<le> int MAX_CHATTERS"

definition rooms_ok ::
    "(int \<Rightarrow> chatter option) \<Rightarrow> (int \<Rightarrow> npc_data option) \<Rightarrow> (int \<Rightarrow> block_object option) \<Rightarrow> bool" where
  "rooms_ok ss ns ob \<longleftrightarrow> (\<forall>cid cd. ob cid = Some (Chat_object cd) \<longrightarrow> chat_ok ss ns cid cd) \<and>
     (\<forall>sid sd. ss sid = Some sd \<longrightarrow> chatID sd \<noteq> 0 \<longrightarrow> (\<exists>cd. ob (chatID sd) = Some (Chat_object cd) \<and> sid \<in> set (chatters cd))) \<and>
     (\<forall>n nd. ns n = Some nd \<longrightarrow> chat_id nd \<noteq> 0 \<longrightarrow> (\<exists>cd. ob (chat_id nd) = Some (Chat_object cd) \<and> owner cd = Owner_npc n))"

definition world_ok :: "world \<Rightarrow> bool" where
  "world_ok w \<longleftrightarrow> objects_ok w \<and> rooms_ok (sessions w) (npcs w) (object w)"

lemma rooms_okD:
  assumes "rooms_ok ss ns ob"
  shows "ob cid = Some (Chat_object cd) \<Longrightarrow> chat_ok ss ns cid cd"
    and "ss sid = Some sd \<Longrightarrow> chatID sd \<noteq> 0 \<Longrightarrow> \<exists>cd. ob (chatID sd) = Some (Chat_object cd) \<and> sid \<in> set (chatters cd)"
    and "ns n = Some nd \<Longrightarrow> chat_id nd \<noteq> 0 \<Longrightarrow> \<exists>cd. ob (chat_id nd) = Some (Chat_object cd) \<and> owner cd = Owner_npc n"
  using assms unfolding rooms_ok_def by blast+

lemma rooms_okI:
  assumes "\<And>cid cd. ob cid = Some (Chat_object cd) \<Longrightarrow> chat_ok ss ns cid cd"
    and "\<And>sid sd. ss sid = Some sd \<Longrightarrow> chatID sd \<noteq> 0 \<Longrightarrow> \<exists>cd. ob (chatID sd) = Some (Chat_object cd) \<and> sid \<in> set (chatters cd)"
    and "\<And>n nd. ns n = Some nd \<Longrightarrow> chat_id nd \<noteq> 0 \<Longrightarrow> \<exists>cd. ob (chat_id nd) = Some (Chat_object cd) \<and> owner cd = Owner_npc n"
  shows "rooms_ok ss ns ob"
  using assms unfolding rooms_ok_def by blast

text \<open>A player is in one room at most.\<close>

lemma member_room:
  assumes "rooms_ok ss ns ob" "ob cid = Some (Chat_object cd)" "u \<in> set (chatters cd)"
  shows "\<exists>sd. ss u = Some sd \<and> chatID sd = cid"
  using rooms_okD(1) [OF assms(1,2)] assms(3) by (simp add: chat_ok_def)

text \<open>The players of room \<open>cid\<close> change from \<open>old\<close> to \<open>new\<close>, and nothing else.\<close>

lemma rooms_change:
  assumes ok: "rooms_ok ss ns ob"
    and old: "\<And>sid. (\<exists>sd. ss sid = Some sd \<and> chatID sd = cid) \<longleftrightarrow> sid \<in> old"
    and new: "\<And>sid. (\<exists>sd. ss' sid = Some sd \<and> chatID sd = cid) \<longleftrightarrow> sid \<in> new"
    and rest: "\<And>sid k. k \<noteq> 0 \<Longrightarrow> k \<noteq> cid \<Longrightarrow> (\<exists>sd. ss' sid = Some sd \<and> chatID sd = k) \<longleftrightarrow> (\<exists>sd. ss sid = Some sd \<and> chatID sd = k)"
    and cd: "chat_ok ss' ns cid cd" "set (chatters cd) = new" "cid \<noteq> 0" "\<And>i. ob i \<noteq> None \<Longrightarrow> i \<noteq> 0"
    and owner: "\<And>c. ob cid = Some (Chat_object c) \<Longrightarrow> owner c = owner cd" "ob cid \<noteq> Some Other_object"
  shows "rooms_ok ss' ns (ob(cid := Some (Chat_object cd)))"
proof (rule rooms_okI)
  fix i c assume c: "(ob(cid := Some (Chat_object cd))) i = Some (Chat_object c)"
  show "chat_ok ss' ns i c"
  proof (cases "i = cid")
    case False
    then have i: "ob i = Some (Chat_object c)" "i \<noteq> 0" using c cd(4) [of i] by auto
    have "\<exists>sd. ss' u = Some sd \<and> chatID sd = i" if "u \<in> set (chatters c)" for u
      using member_room [OF ok i(1) that] rest [OF i(2) False, of u] by blast
    then show ?thesis using rooms_okD(1) [OF ok i(1)] by (simp add: chat_ok_def)
  qed (use c cd(1) in simp)
next
  fix sid sd assume sd: "ss' sid = Some sd" "chatID sd \<noteq> 0"
  show "\<exists>c. (ob(cid := Some (Chat_object cd))) (chatID sd) = Some (Chat_object c) \<and> sid \<in> set (chatters c)"
  proof (cases "chatID sd = cid")
    case True
    then show ?thesis using new sd(1) cd(2) by auto
  next
    case False
    then obtain sd' where "ss sid = Some sd'" "chatID sd' = chatID sd" using rest [OF sd(2) False, of sid] sd(1) by blast
    then show ?thesis using rooms_okD(2) [OF ok, of sid sd'] sd(2) False by auto
  qed
next
  fix n nd assume nd: "ns n = Some nd" "chat_id nd \<noteq> 0"
  from rooms_okD(3) [OF ok this] obtain c where "ob (chat_id nd) = Some (Chat_object c)" "owner c = Owner_npc n" by blast
  then show "\<exists>c. (ob(cid := Some (Chat_object cd))) (chat_id nd) = Some (Chat_object c) \<and> owner c = Owner_npc n"
    using owner(1) by auto
qed

lemma room_members:
  assumes "rooms_ok ss ns ob" "ob cid = Some (Chat_object cd)" "cid \<noteq> 0"
  shows "(\<exists>sd. ss sid = Some sd \<and> chatID sd = cid) \<longleftrightarrow> sid \<in> set (chatters cd)"
  using rooms_okD(2) [OF assms(1), of sid] member_room [OF assms(1,2), of sid] assms(2,3) by fastforce

text \<open>The room goes, with its last player.\<close>

lemma rooms_gone:
  assumes ok: "rooms_ok ss ns ob"
    and none: "\<And>sid sd. ss' sid = Some sd \<Longrightarrow> chatID sd \<noteq> cid"
    and rest: "\<And>sid k. k \<noteq> 0 \<Longrightarrow> k \<noteq> cid \<Longrightarrow> (\<exists>sd. ss' sid = Some sd \<and> chatID sd = k) \<longleftrightarrow> (\<exists>sd. ss sid = Some sd \<and> chatID sd = k)"
    and zero: "\<And>i. ob i \<noteq> None \<Longrightarrow> i \<noteq> 0"
    and npcs: "\<And>n. ns' n \<noteq> None \<longleftrightarrow> ns n \<noteq> None"
      "\<And>n nd. ns' n = Some nd \<Longrightarrow> chat_id nd \<noteq> 0 \<Longrightarrow> chat_id nd \<noteq> cid \<and> (\<exists>nd'. ns n = Some nd' \<and> chat_id nd' = chat_id nd)"
  shows "rooms_ok ss' ns' (ob(cid := None))"
proof (rule rooms_okI)
  fix i c assume c: "(ob(cid := None)) i = Some (Chat_object c)"
  then have i: "ob i = Some (Chat_object c)" "i \<noteq> cid" "i \<noteq> 0" using zero [of i] by (auto split: if_splits)
  have "\<exists>sd. ss' u = Some sd \<and> chatID sd = i" if "u \<in> set (chatters c)" for u
    using member_room [OF ok i(1) that] rest [OF i(3,2), of u] by blast
  then show "chat_ok ss' ns' i c" using rooms_okD(1) [OF ok i(1)] npcs(1) by (auto simp: chat_ok_def)
next
  fix sid sd assume sd: "ss' sid = Some sd" "chatID sd \<noteq> 0"
  then obtain sd' where "ss sid = Some sd'" "chatID sd' = chatID sd" using rest [OF sd(2) none [OF sd(1)], of sid] by blast
  then show "\<exists>c. (ob(cid := None)) (chatID sd) = Some (Chat_object c) \<and> sid \<in> set (chatters c)"
    using rooms_okD(2) [OF ok, of sid sd'] sd(2) none [OF sd(1)] by auto
next
  fix n nd assume "ns' n = Some nd" "chat_id nd \<noteq> 0"
  then show "\<exists>c. (ob(cid := None)) (chat_id nd) = Some (Chat_object c) \<and> owner c = Owner_npc n"
    using npcs(2) [of n nd] rooms_okD(3) [OF ok] by fastforce
qed

section \<open>The gap closes\<close>

lemma close_gap_nth:
  assumes "n < length us"
  shows "length (close_gap i n us) = length us \<and>
    (\<forall>j < length us. close_gap i n us ! j = (if i \<le> j \<and> j < n then us ! (j + 1) else us ! j))"
  using assms
proof (induction n)
  case (Suc n)
  show ?case
  proof (cases "i \<le> n")
    case True
    then have "close_gap i (Suc n) us = (close_gap i n us)[n := close_gap i n us ! (n + 1)]" by (simp add: close_gap_def)
    then show ?thesis using Suc True by (auto simp: nth_list_update less_Suc_eq)
  qed (simp add: close_gap_def)
qed (simp add: close_gap_def)

lemma close_gap_take:
  assumes "i \<le> n" "n < length us"
  shows "take n (close_gap i n us) = take i us @ drop (i + 1) (take (n + 1) us)"
  using close_gap_nth [OF assms(2), of i] assms
  by (intro nth_equalityI) (auto simp: nth_append min_def)

lemma members_leave:
  assumes "distinct (chatters cd)" "chatters cd ! i = u" "i < users cd" "users cd \<le> length (usersd cd)"
    and cd': "users cd' = users cd - 1" "usersd cd' = close_gap i (users cd - 1) (usersd cd)"
  shows "set (chatters cd') = set (chatters cd) - {u}" "distinct (chatters cd')" "length (usersd cd') = length (usersd cd)"
proof -
  have m: "chatters cd' = take i (chatters cd) @ drop (i + 1) (chatters cd)"
    using close_gap_take [of i "users cd - 1" "usersd cd"] assms(3,4) cd' by (simp add: chatters_def min_def)
  have split: "chatters cd = take i (chatters cd) @ u # drop (i + 1) (chatters cd)"
    using id_take_nth_drop [of i "chatters cd"] assms(2-4) by (simp add: chatters_def)
  have "distinct (take i (chatters cd) @ u # drop (i + 1) (chatters cd))" using assms(1) split by simp
  then have "distinct (chatters cd')" "u \<notin> set (chatters cd')" unfolding m by auto
  moreover have "set (chatters cd) = insert u (set (chatters cd'))" unfolding m by (subst split) auto
  ultimately show "set (chatters cd') = set (chatters cd) - {u}" "distinct (chatters cd')" by auto
  show "length (usersd cd') = length (usersd cd)"
    using close_gap_nth [of "users cd - 1" "usersd cd" i] assms(3,4) cd' by simp
qed

section \<open>Sending\<close>

definition says :: "chat_message list \<Rightarrow> world \<Rightarrow> world" where
  "says ms w = w\<lparr>sent := sent w @ ms\<rparr>"

lemma says_simps [simp]:
  "sessions (says ms w) = sessions w" "npcs (says ms w) = npcs w" "object (says ms w) = object w"
  "says ms (says ns w) = says (ns @ ms) w" "objects_ok (says ms w) = objects_ok w" "world_ok (says ms w) = world_ok w"
  "id2chat (says ms w) i = id2chat w i"
  by (simp_all add: says_def objects_ok_def world_ok_def id2chat_def)

lemma owner_id_says [simp]: "owner_id (says ms w) cd = owner_id w cd"
  by (cases "owner cd") (simp_all add: owner_id_def)

lemma say_says: "say m w = says [m] w"
  by (simp add: say_def says_def)

lemma says_Nil: "says [] w = w"
  by (simp add: says_def)

lemma set_simps [simp]:
  "sessions (set_session i sd w) = (sessions w)(i := Some sd)" "npcs (set_session i sd w) = npcs w" "object (set_session i sd w) = object w"
  "objects_ok (set_session i sd w) = objects_ok w"
  "sessions (set_chat i cd w) = sessions w" "npcs (set_chat i cd w) = npcs w"
  "object (set_chat i cd w) = (object w)(i := Some (Chat_object cd))"
  by (simp_all add: set_session_def set_chat_def objects_ok_def)

lemma objects_ok_other [simp]:
  "objects_ok (w\<lparr>npcs := x\<rparr>) = objects_ok w" "objects_ok (w\<lparr>sessions := y\<rparr>) = objects_ok w"
  by (simp_all add: objects_ok_def)

lemma objects_ok_set_chat: "objects_ok w \<Longrightarrow> object w i \<noteq> None \<Longrightarrow> objects_ok (set_chat i cd w)"
proof -
  assume ok: "objects_ok w" and used: "object w i \<noteq> None"
  have same: "object (set_chat i cd w) k \<noteq> None \<longleftrightarrow> object w k \<noteq> None" for k using used by (simp add: set_chat_def)
  have other: "first_free_object_id (set_chat i cd w) = first_free_object_id w" "last_object_id (set_chat i cd w) = last_object_id w"
    by (simp_all add: set_chat_def)
  show ?thesis using ok unfolding objects_ok_def same other .
qed

lemma id2chat_iff: "objects_ok w \<Longrightarrow> id2chat w i = Some cd \<longleftrightarrow> object w i = Some (Chat_object cd)"
  using objects_okD(1) [of w i] by (auto simp: id2chat_def split: option.splits block_object.splits)

lemma object_0: "objects_ok w \<Longrightarrow> object w i \<noteq> None \<Longrightarrow> i \<noteq> 0"
  using objects_okD(1) [of w i] by auto

lemma id2chat_0: "objects_ok w \<Longrightarrow> id2chat w 0 = None"
  using id2chat_iff [of w 0] object_0 [of w 0] by (cases "id2chat w 0") auto

lemma first_member: "0 < users cd \<Longrightarrow> users cd \<le> length (usersd cd) \<Longrightarrow> usersd cd ! 0 \<in> set (chatters cd)"
  using nth_mem [of 0 "chatters cd"] by (simp add: chatters_def)

lemma owner_alive:
  assumes "chat_ok (sessions w) (npcs w) cid cd"
  shows "owner_id w cd \<noteq> None"
  using assms first_member [of cd] by (cases "owner cd") (fastforce simp: chat_ok_def owner_id_def)+

lemma clif_dispchat_says: "owner_id w cd \<noteq> None \<Longrightarrow> \<exists>ms. clif_dispchat cid cd w = Some (says ms w)"
  by (auto simp: clif_dispchat_def say_says)

lemma clif_clearchat_says: "owner_id w cd \<noteq> None \<Longrightarrow> \<exists>ms. clif_clearchat cid cd w = Some (says ms w)"
  by (auto simp: clif_clearchat_def say_says)

lemma send_chat_says:
  assumes "rooms_ok (sessions w) (npcs w) (object w)" "objects_ok w" "sessions w sid \<noteq> None"
  shows "\<exists>ms. send_chat sid m w = Some (says ms w)"
proof -
  obtain sd where sd: "sessions w sid = Some sd" using assms(3) by blast
  have "alive_users w cd" if "id2chat w (chatID sd) = Some cd" for cd
    using member_room [OF assms(1)] that by (fastforce simp: id2chat_iff [OF assms(2)] alive_users_def list_all_iff chatters_def)
  then show ?thesis
    using sd says_Nil [of w] by (auto simp: send_chat_def say_says split: option.splits intro: exI [of _ "[]"])
qed

lemma clif_leavechat_says:
  "rooms_ok (sessions w) (npcs w) (object w) \<Longrightarrow> objects_ok w \<Longrightarrow> sessions w sid \<noteq> None \<Longrightarrow>
   \<exists>ms. clif_leavechat cd sid w = Some (says ms w)"
  using send_chat_says by (auto simp: clif_leavechat_def)

lemma clif_changechatowner_says:
  "rooms_ok (sessions w) (npcs w) (object w) \<Longrightarrow> objects_ok w \<Longrightarrow> sessions w sid \<noteq> None \<Longrightarrow> sessions w (usersd cd ! 0) \<noteq> None \<Longrightarrow>
   \<exists>ms. clif_changechatowner cd sid w = Some (says ms w)"
  using send_chat_says by (auto simp: clif_changechatowner_def)

section \<open>Leaving\<close>

text \<open>The parts of \<open>chat_leavechat\<close>: what is said first, and what is done to the room.\<close>

lemma leave_rooms:
  assumes ok: "world_ok w" and sd: "sessions w sid = Some sd" "chatID sd = cid" and cd: "object w cid = Some (Chat_object cd)"
    and cd': "set (chatters cd') = set (chatters cd) - {sid}" "distinct (chatters cd')" "users cd' = users cd - 1"
      "length (usersd cd') = MAX_CHATTERS" "owner cd' = owner cd" "limit cd' = limit cd" "owner cd = First_user \<Longrightarrow> 1 < users cd"
  shows "rooms_ok ((sessions w)(sid := Some (sd\<lparr>chatID := 0\<rparr>))) (npcs w) ((object w)(cid := Some (Chat_object cd')))"
proof (rule rooms_change)
  have o: "objects_ok w" and r: "rooms_ok (sessions w) (npcs w) (object w)" using ok by (simp_all add: world_ok_def)
  show "rooms_ok (sessions w) (npcs w) (object w)" by (rule r)
  show cid: "cid \<noteq> 0" using object_0 [OF o] cd by blast
  show "(\<exists>sd. sessions w u = Some sd \<and> chatID sd = cid) \<longleftrightarrow> u \<in> set (chatters cd)" for u
    using room_members [OF r cd cid] .
  then show new: "(\<exists>sd'. ((sessions w)(sid := Some (sd\<lparr>chatID := 0\<rparr>))) u = Some sd' \<and> chatID sd' = cid) \<longleftrightarrow> u \<in> set (chatters cd) - {sid}" for u
    using cid by auto
  show "(\<exists>sd'. ((sessions w)(sid := Some (sd\<lparr>chatID := 0\<rparr>))) u = Some sd' \<and> chatID sd' = k) \<longleftrightarrow>
      (\<exists>sd. sessions w u = Some sd \<and> chatID sd = k)" if "k \<noteq> 0" "k \<noteq> cid" for u k
    using sd that by auto
  have "chat_ok (sessions w) (npcs w) cid cd" using rooms_okD(1) [OF r cd] .
  then show "chat_ok ((sessions w)(sid := Some (sd\<lparr>chatID := 0\<rparr>))) (npcs w) cid cd'"
    using cd' new unfolding chat_ok_def by auto
qed (use cd cd' ok object_0 in \<open>auto simp: world_ok_def\<close>)

lemma chat_leavechat_ok:
  assumes ok: "world_ok w" and sd: "sessions w sid = Some sd"
  shows "\<exists>w'. chat_leavechat sid w = Some w' \<and> world_ok w' \<and> sessions w' = (sessions w)(sid := Some (sd\<lparr>chatID := 0\<rparr>)) \<and>
    npcs w' = npcs w \<and> (\<forall>k. k \<noteq> chatID sd \<longrightarrow> object w' k = object w k) \<and>
    (\<forall>cd. object w (chatID sd) = Some (Chat_object cd) \<longrightarrow> owner cd \<noteq> First_user \<longrightarrow>
      (\<exists>cd'. object w' (chatID sd) = Some (Chat_object cd') \<and> owner cd' = owner cd \<and> users cd' = users cd - 1 \<and>
        set (chatters cd') = set (chatters cd) - {sid}))"
proof -
  have o: "objects_ok w" and r: "rooms_ok (sessions w) (npcs w) (object w)" using ok by (simp_all add: world_ok_def)
  define cid where "cid = chatID sd"
  show ?thesis
  proof (cases "id2chat w cid")
    case None
    have "cid = 0"
    proof (rule ccontr)
      assume "cid \<noteq> 0"
      then obtain cd where "object w cid = Some (Chat_object cd)" using rooms_okD(2) [OF r sd] by (auto simp: cid_def)
      then show False using None id2chat_iff [OF o, of cid cd] by simp
    qed
    then have "sd\<lparr>chatID := 0\<rparr> = sd" by (simp add: cid_def)
    then have "(sessions w)(sid := Some (sd\<lparr>chatID := 0\<rparr>)) = sessions w" using sd by (simp add: fun_upd_idem)
    moreover have "chat_leavechat sid w = Some w" using None sd by (simp add: chat_leavechat_def cid_def [symmetric])
    moreover have "object w cid \<noteq> Some (Chat_object cd)" for cd using None id2chat_iff [OF o, of cid cd] by simp
    ultimately show ?thesis using ok by (auto simp: cid_def)
  next
    case (Some cd)
    then have cd: "object w cid = Some (Chat_object cd)" by (simp add: id2chat_iff [OF o])
    have cid: "cid \<noteq> 0" using object_0 [OF o] cd by blast
    note cok = rooms_okD(1) [OF r cd]
    have len: "length (usersd cd) = MAX_CHATTERS" "users cd \<le> length (usersd cd)" using cok by (auto simp: chat_ok_def)
    have mem: "sid \<in> set (chatters cd)" using room_members [OF r cd cid] sd by (auto simp: cid_def)
    define i where "i = first_idx (\<lambda>u. u = sid) (chatters cd)"
    have i: "i < users cd" "chatters cd ! i = sid"
      using mem first_idx_less [of "\<lambda>u. u = sid" "chatters cd"] first_idx_sat [of "\<lambda>u. u = sid" "chatters cd"] len
      by (auto simp: i_def chatters_def)
    have ui: "usersd cd ! i = sid" using i by (simp add: chatters_def)
    obtain ms1 where ms1: "next_owner cid i cd w = Some (says ms1 w)"
    proof (cases "i = 0 \<and> users cd > 1 \<and> owner cd = First_user")
      case True
      have "usersd cd ! 1 \<in> set (chatters cd)" using True len nth_mem [of 1 "chatters cd"] by (simp add: chatters_def)
      then have "sessions w (usersd cd ! 1) \<noteq> None" using member_room [OF r cd] by fastforce
      then obtain ms where "clif_changechatowner cd (usersd cd ! 1) w = Some (says ms w)"
        using clif_changechatowner_says [OF r o, of "usersd cd ! 1" cd] True ui sd by auto
      moreover obtain ms' where "clif_clearchat cid cd (says ms w) = Some (says ms' (says ms w))"
        using clif_clearchat_says [of "says ms w" cd cid] owner_alive [OF cok] by auto
      ultimately show ?thesis using that True by (simp add: next_owner_def)
    qed (use that [of "[]"] says_Nil in \<open>auto simp: next_owner_def\<close>)
    obtain ms2 where ms2: "clif_leavechat cd sid (says ms1 w) = Some (says ms2 (says ms1 w))"
      using clif_leavechat_says [of "says ms1 w" sid cd] r o sd by auto
    define w2 where "w2 = set_session sid (sd\<lparr>chatID := 0\<rparr>) (says (ms1 @ ms2) w)"
    have w2: "sessions w2 = (sessions w)(sid := Some (sd\<lparr>chatID := 0\<rparr>))" "npcs w2 = npcs w" "object w2 = object w" "objects_ok w2"
      using o by (simp_all add: w2_def)
    have head: "chat_leavechat sid w = remove_user cid i (cd\<lparr>users := users cd - 1\<rparr>) w2"
      using i(1) ms1 ms2 by (simp add: chat_leavechat_def Let_def sd Some cid_def [symmetric] i_def [symmetric] chatters_def [symmetric] w2_def)
    show ?thesis
    proof (cases "users cd = 1 \<and> owner cd = First_user")
      case True
      then have i0: "i = 0" "chatters cd = [sid]" using i ui len by (auto simp: chatters_def take_Suc_conv_app_nth)
      let ?cd = "cd\<lparr>users := users cd - 1\<rparr>"
      have "owner_id w2 ?cd \<noteq> None" using True i0(1) ui w2(1) by (simp add: owner_id_def)
      then obtain ms where "clif_clearchat cid ?cd w2 = Some (says ms w2)" using clif_clearchat_says by blast
      then have run: "chat_leavechat sid w = Some (map_delobject cid (says ms w2))" using True by (simp add: head remove_user_def)
      have "rooms_ok (sessions w2) (npcs w) ((object w)(cid := None))"
      proof (rule rooms_gone [OF r])
        show "chatID sd' \<noteq> cid" if "sessions w2 u = Some sd'" for u sd'
          using that room_members [OF r cd cid, of u] i0(2) cid by (auto simp: w2(1) split: if_splits)
        show "(\<exists>sd'. sessions w2 u = Some sd' \<and> chatID sd' = k) \<longleftrightarrow> (\<exists>sd. sessions w u = Some sd \<and> chatID sd = k)"
          if "k \<noteq> 0" "k \<noteq> cid" for u k using that sd by (auto simp: w2(1) cid_def)
        show "chat_id nd \<noteq> cid \<and> (\<exists>nd'. npcs w n = Some nd' \<and> chat_id nd' = chat_id nd)" if "npcs w n = Some nd" "chat_id nd \<noteq> 0" for n nd
          using rooms_okD(3) [OF r that] cd that(1) True by auto
      qed (use object_0 [OF o] in auto)
      then have "world_ok (map_delobject cid (says ms w2))"
        using w2 map_delobject_ok [of "says ms w2" cid] by (simp add: world_ok_def)
      then show ?thesis using run w2 True cd by (auto simp: cid_def [symmetric])
    next
      case False
      define cd1 where "cd1 = cd\<lparr>users := users cd - 1, usersd := close_gap i (users cd - 1) (usersd cd)\<rparr>"
      have u1: "users cd1 = users cd - 1" "usersd cd1 = close_gap i (users cd - 1) (usersd cd)" by (simp_all add: cd1_def)
      note m1 = members_leave [OF _ i(2,1) len(2) u1]
      have m1: "set (chatters cd1) = set (chatters cd) - {sid}" "distinct (chatters cd1)" "length (usersd cd1) = MAX_CHATTERS"
        using m1 cok len(1) by (auto simp: chat_ok_def)
      have many: "1 < users cd" if "owner cd = First_user" using False cok that by (auto simp: chat_ok_def)
      have cd1: "(cd\<lparr>users := users cd - 1\<rparr>)\<lparr>usersd := close_gap i (users (cd\<lparr>users := users cd - 1\<rparr>)) (usersd cd)\<rparr> = cd1"
        by (simp add: cd1_def)
      obtain cd2 where cd2: "shift_users i (cd\<lparr>users := users cd - 1\<rparr>) w2 = Some cd2"
        and same: "users cd2 = users cd1" "usersd cd2 = usersd cd1" "owner cd2 = owner cd1" "limit cd2 = limit cd1"
      proof (cases "i = 0 \<and> owner cd1 = First_user")
        case True
        then have "1 < users cd" using many by (simp add: cd1_def)
        then have "usersd cd1 ! 0 \<in> set (chatters cd1)" using u1(1) m1(3) len by (intro first_member) auto
        then have "sessions w2 (usersd cd1 ! 0) \<noteq> None" using m1(1) member_room [OF r cd] w2(1) by fastforce
        then show ?thesis using that True cd1 by (auto simp: shift_users_def moved_to_def Let_def)
      qed (use that cd1 in \<open>auto simp: shift_users_def moved_to_def Let_def\<close>)
      have m2: "chatters cd2 = chatters cd1" using same by (simp add: chatters_def)
      have rooms: "rooms_ok (sessions w2) (npcs w) ((object w)(cid := Some (Chat_object cd2)))"
        unfolding w2(1) by (rule leave_rooms [OF ok sd cid_def [symmetric] cd]) (use m1 m2 u1 same many in \<open>auto simp: cd1_def\<close>)
      let ?w3 = "set_chat cid cd2 w2"
      have w3: "rooms_ok (sessions ?w3) (npcs ?w3) (object ?w3)" using rooms w2 by simp
      have "chat_ok (sessions ?w3) (npcs ?w3) cid cd2" using rooms_okD(1) [OF w3] by simp
      then obtain ms where ms: "clif_dispchat cid cd2 ?w3 = Some (says ms ?w3)"
        using clif_dispchat_says [OF owner_alive] by blast
      have "\<not> (users cd - 1 = 0 \<and> owner cd = First_user)" using many by auto
      then have run: "chat_leavechat sid w = Some (says ms ?w3)"
        using cd2 ms by (auto simp: head remove_user_def)
      have "world_ok (says ms ?w3)"
        using w3 objects_ok_set_chat [OF w2(4), of cid cd2] cd w2(3) by (simp add: world_ok_def)
      moreover have "owner cd2 = owner cd" "users cd2 = users cd - 1" using same by (simp_all add: cd1_def)
      ultimately show ?thesis using run w2 m1(1) m2 cd by (auto simp: cid_def [symmetric])
    qed
  qed
qed

section \<open>Joining\<close>

lemma members_with_user: "users cd < length (usersd cd) \<Longrightarrow> chatters (with_user sid cd) = chatters cd @ [sid]"
  by (simp add: chatters_def with_user_def take_Suc_conv_app_nth)

lemma join_rooms:
  assumes r: "rooms_ok (sessions w) (npcs w) (object w)" and o: "objects_ok w"
    and sd: "sessions w sid = Some sd" "chatID sd = 0" and cd: "object w cid = Some (Chat_object cd)" "users cd < MAX_CHATTERS"
  shows "rooms_ok ((sessions w)(sid := Some (sd\<lparr>chatID := cid\<rparr>))) (npcs w) ((object w)(cid := Some (Chat_object (with_user sid cd))))"
proof (rule rooms_change)
  show "rooms_ok (sessions w) (npcs w) (object w)" by (rule r)
  show cid: "cid \<noteq> 0" using object_0 [OF o] cd(1) by blast
  note cok = rooms_okD(1) [OF r cd(1)]
  show old: "(\<exists>sd. sessions w u = Some sd \<and> chatID sd = cid) \<longleftrightarrow> u \<in> set (chatters cd)" for u
    using room_members [OF r cd(1) cid] .
  have m: "chatters (with_user sid cd) = chatters cd @ [sid]" using cok cd(2) by (intro members_with_user) (simp add: chat_ok_def)
  show new: "(\<exists>sd'. ((sessions w)(sid := Some (sd\<lparr>chatID := cid\<rparr>))) u = Some sd' \<and> chatID sd' = cid) \<longleftrightarrow> u \<in> insert sid (set (chatters cd))" for u
    using old [of u] by auto
  show "(\<exists>sd'. ((sessions w)(sid := Some (sd\<lparr>chatID := cid\<rparr>))) u = Some sd' \<and> chatID sd' = k) \<longleftrightarrow>
      (\<exists>sd. sessions w u = Some sd \<and> chatID sd = k)" if "k \<noteq> 0" "k \<noteq> cid" for u k
    using sd that by auto
  have "sid \<notin> set (chatters cd)" using old [of sid] sd cid by auto
  then show "chat_ok ((sessions w)(sid := Some (sd\<lparr>chatID := cid\<rparr>))) (npcs w) cid (with_user sid cd)"
    using cok m new cd(2) unfolding chat_ok_def by (auto simp: with_user_def)
  show "set (chatters (with_user sid cd)) = insert sid (set (chatters cd))" using m by auto
qed (use cd o object_0 in \<open>auto simp: with_user_def\<close>)

lemma user_names_alive: "\<forall>u \<in> set us. sessions w u \<noteq> None \<Longrightarrow> \<exists>ns. user_names w us = Some ns"
  by (induction us) auto

lemma chat_joinchat_ok:
  assumes ok: "world_ok w" and sd: "sessions w sid = Some sd" "chatID sd = 0 \<or> chatID sd = cid"
  shows "\<exists>w'. chat_joinchat sid cid pss w = Some w' \<and> world_ok w'"
proof -
  have o: "objects_ok w" and r: "rooms_ok (sessions w) (npcs w) (object w)" using ok by (simp_all add: world_ok_def)
  show ?thesis
  proof (cases "id2chat w cid")
    case None
    then show ?thesis using ok sd by (simp add: chat_joinchat_def)
  next
    case (Some cd)
    then have cd: "object w cid = Some (Chat_object cd)" by (simp add: id2chat_iff [OF o])
    have cid: "cid \<noteq> 0" using object_0 [OF o] cd by blast
    note cok = rooms_okD(1) [OF r cd]
    show ?thesis
    proof (cases "bl_m cd \<noteq> bl_m sd \<or> limit cd \<le> int (users cd) \<or> pub cd = 0 \<and> \<not> same_pass pss (pass cd) \<or> vender_id sd \<noteq> 0 \<or> cid = chatID sd")
      case True
      then show ?thesis using ok sd Some by (auto simp: chat_joinchat_def say_says)
    next
      case False
      have small: "users cd < MAX_CHATTERS" using False cok by (auto simp: chat_ok_def)
      define cd1 where "cd1 = with_user sid cd"
      define w1 where "w1 = set_session sid (sd\<lparr>chatID := cid\<rparr>) (set_chat cid cd1 (stop_walking sid sd w))"
      have w1: "sessions w1 = (sessions w)(sid := Some (sd\<lparr>chatID := cid\<rparr>))" "npcs w1 = npcs w"
        "object w1 = (object w)(cid := Some (Chat_object cd1))"
        by (simp_all add: w1_def stop_walking_def say_says)
      have "chatID sd = 0" using False sd(2) by auto
      then have r1: "rooms_ok (sessions w1) (npcs w1) (object w1)"
        unfolding w1 cd1_def by (rule join_rooms [OF r o sd(1) _ cd small])
      have o1: "objects_ok w1" using o cd by (auto simp: w1_def stop_walking_def say_says objects_ok_set_chat)
      have room: "object w1 cid = Some (Chat_object cd1)" by (simp add: w1)
      note cok1 = rooms_okD(1) [OF r1 room]
      have mem: "sessions w1 u \<noteq> None" if "u \<in> set (chatters cd1)" for u using member_room [OF r1 room that] by auto
      obtain ns where "user_names w1 (chatters cd1) = Some ns" using user_names_alive mem by blast
      then obtain ms1 where ms1: "clif_joinchatok sid cid cd1 w1 = Some (says ms1 w1)"
        by (auto simp: clif_joinchatok_def chatters_def say_says)
      obtain ms2 where ms2: "clif_addchat cd1 sid (says ms1 w1) = Some (says ms2 (says ms1 w1))"
        using send_chat_says [of "says ms1 w1" sid] r1 o1 by (auto simp: clif_addchat_def w1(1))
      obtain ms3 where ms3: "clif_dispchat cid cd1 (says ms2 (says ms1 w1)) = Some (says ms3 (says ms2 (says ms1 w1)))"
        using clif_dispchat_says [of "says ms2 (says ms1 w1)" cd1 cid] owner_alive [OF cok1] by auto
      have "chat_joinchat sid cid pss w = Some (chat_triggerevent cd1 (says (ms1 @ ms2 @ ms3) w1))"
        using False small sd(1) Some ms1 ms2 ms3
        by (auto simp: chat_joinchat_def Let_def cd1_def [symmetric] w1_def [symmetric])
      moreover have "world_ok (chat_triggerevent cd1 (says (ms1 @ ms2 @ ms3) w1))"
        using r1 o1 by (simp add: world_ok_def chat_triggerevent_def say_says)
      ultimately show ?thesis by blast
    qed
  qed
qed

section \<open>Opening a room\<close>

lemma new_room:
  assumes r: "rooms_ok (sessions w) (npcs w) (object w)" and o: "objects_ok w" and free: "object w cid = None" "cid \<noteq> 0"
    and sd: "sessions w sid = Some sd" "chatID sd = 0" and cd: "chatters cd = [sid]" "owner cd = First_user"
      "users cd = 1" "length (usersd cd) = MAX_CHATTERS" "limit cd \<le> int MAX_CHATTERS"
  shows "rooms_ok ((sessions w)(sid := Some (sd\<lparr>chatID := cid\<rparr>))) (npcs w) ((object w)(cid := Some (Chat_object cd)))"
proof (rule rooms_change)
  show "rooms_ok (sessions w) (npcs w) (object w)" by (rule r)
  have nobody: "chatID sd' \<noteq> cid" if "sessions w u = Some sd'" for u sd' using rooms_okD(2) [OF r that] free by auto
  then show "(\<exists>sd. sessions w u = Some sd \<and> chatID sd = cid) \<longleftrightarrow> u \<in> {}" for u by auto
  show "(\<exists>sd'. ((sessions w)(sid := Some (sd\<lparr>chatID := cid\<rparr>))) u = Some sd' \<and> chatID sd' = cid) \<longleftrightarrow> u \<in> {sid}" for u
    using nobody by auto
  show "(\<exists>sd'. ((sessions w)(sid := Some (sd\<lparr>chatID := cid\<rparr>))) u = Some sd' \<and> chatID sd' = k) \<longleftrightarrow>
      (\<exists>sd. sessions w u = Some sd \<and> chatID sd = k)" if "k \<noteq> 0" "k \<noteq> cid" for u k
    using sd that by auto
  show "chat_ok ((sessions w)(sid := Some (sd\<lparr>chatID := cid\<rparr>))) (npcs w) cid cd"
    using cd by (simp add: chat_ok_def MAX_CHATTERS_def)
qed (use free cd o object_0 in auto)

lemma no_chat_members: "chatters (no_chat\<lparr>users := 1, usersd := (usersd no_chat)[0 := sid]\<rparr>) = [sid]"
  by (simp add: chatters_def no_chat_def MAX_CHATTERS_def numeral_eq_Suc)

lemma chat_createchat_ok:
  assumes ok: "world_ok w" and sd: "sessions w sid \<noteq> None" and lim: "u8 lim \<le> int MAX_CHATTERS"
  shows "\<exists>w'. chat_createchat sid lim pb pss ttl titlelen w = Some w' \<and> world_ok w'"
proof -
  obtain sd where sd: "sessions w sid = Some sd" using sd by blast
  show ?thesis
  proof (cases "chatID sd = 0")
    case False
    then show ?thesis using sd ok by (simp add: chat_createchat_def say_says)
  next
    case True
    define cd where "cd = no_chat\<lparr>limit := u8 lim, pub := u8 pb, users := 1, pass := strncpy_buf 8 pss,
                 title := strncpy_buf (clip_title titlelen) ttl, usersd := (usersd no_chat)[0 := sid],
                 bl_m := bl_m sd, bl_x := bl_x sd, bl_y := bl_y sd\<rparr>"
    define w1 where "w1 = stop_walking sid sd w"
    have w1: "sessions w1 = sessions w" "npcs w1 = npcs w" "object w1 = object w" "objects_ok w1" "world_ok w1"
      using ok by (simp_all add: w1_def stop_walking_def say_says world_ok_def)
    obtain cid w2 where w2: "map_addobject (Chat_object cd) w1 = (cid, w2)" by force
    note add = map_addobject_correct [OF w1(4) w2]
    have head: "chat_createchat sid lim pb pss ttl titlelen w = (if cid = 0 then Some (say (Createchat sid 1) w2)
        else clif_dispchat cid cd (say (Createchat sid 0) (set_session sid (sd\<lparr>chatID := cid\<rparr>) w2)))"
      using True sd w2 by (simp add: chat_createchat_def Let_def w1_def [symmetric] cd_def [symmetric] del: One_nat_def)
    show ?thesis
    proof (cases "cid = 0")
      case True
      then have "world_ok w2" using add ok w1 by (simp add: world_ok_def)
      then show ?thesis using True by (simp add: head say_says)
    next
      case False
      note cid = add(6) [OF False]
      let ?w3 = "says [Createchat sid 0] (set_session sid (sd\<lparr>chatID := cid\<rparr>) w2)"
      have "chatters cd = chatters (no_chat\<lparr>users := 1, usersd := (usersd no_chat)[0 := sid]\<rparr>)" by (simp add: chatters_def cd_def)
      then have m: "chatters cd = [sid]" by (simp only: no_chat_members)
      have "rooms_ok ((sessions w)(sid := Some (sd\<lparr>chatID := cid\<rparr>))) (npcs w) ((object w)(cid := Some (Chat_object cd)))"
        by (rule new_room) (use ok cid w1 sd True m False lim in \<open>simp_all add: world_ok_def cd_def no_chat_def\<close>)
      then have r3: "rooms_ok (sessions ?w3) (npcs ?w3) (object ?w3)" using add cid w1 by simp
      then have "chat_ok (sessions ?w3) (npcs ?w3) cid cd" using rooms_okD(1) [OF r3] cid by simp
      then obtain ms where "clif_dispchat cid cd ?w3 = Some (says ms ?w3)" using clif_dispchat_says [OF owner_alive] by blast
      moreover have "world_ok ?w3" using r3 add(1) by (simp add: world_ok_def)
      ultimately show ?thesis using False by (simp add: head say_says)
    qed
  qed
qed

section \<open>The owner's doings\<close>

text \<open>A room whose properties change, and the order of its users.\<close>

lemma change_room:
  assumes ok: "world_ok w" and cd: "object w cid = Some (Chat_object cd)"
    and cd': "set (chatters cd') = set (chatters cd)" "distinct (chatters cd')" "users cd' = users cd"
      "length (usersd cd') = MAX_CHATTERS" "owner cd' = owner cd" "limit cd' \<le> int MAX_CHATTERS"
  shows "world_ok (set_chat cid cd' w)"
proof -
  have o: "objects_ok w" and r: "rooms_ok (sessions w) (npcs w) (object w)" using ok by (simp_all add: world_ok_def)
  have cid: "cid \<noteq> 0" using object_0 [OF o] cd by blast
  note cok = rooms_okD(1) [OF r cd]
  have "rooms_ok (sessions w) (npcs w) ((object w)(cid := Some (Chat_object cd')))"
  proof (rule rooms_change [OF r])
    show "(\<exists>sd. sessions w u = Some sd \<and> chatID sd = cid) \<longleftrightarrow> u \<in> set (chatters cd)" for u
      using room_members [OF r cd cid] .
    then show "(\<exists>sd. sessions w u = Some sd \<and> chatID sd = cid) \<longleftrightarrow> u \<in> set (chatters cd)" for u .
    show "chat_ok (sessions w) (npcs w) cid cd'" using cok cd' by (simp add: chat_ok_def)
  qed (use cd cd' cid o object_0 in auto)
  then show ?thesis using objects_ok_set_chat [OF o, of cid cd'] cd by (simp add: world_ok_def)
qed

lemma find_named_alive:
  "\<forall>u \<in> set us. sessions w u \<noteq> None \<Longrightarrow> \<exists>r. find_named w nm i us = Some r \<and> (\<forall>k. r = Some k \<longrightarrow> i \<le> k \<and> k < i + length us)"
proof (induction us arbitrary: i)
  case (Cons u us)
  then obtain sd where sd: "sessions w u = Some sd" by auto
  obtain r where "find_named w nm (i + 1) us = Some r" "\<forall>k. r = Some k \<longrightarrow> i + 1 \<le> k \<and> k < i + 1 + length us"
    using Cons.IH [of "i + 1"] Cons.prems by auto
  then show ?case using sd by (cases "status_name sd = nm") force+
qed simp

lemma members_swap:
  assumes k: "k < users cd" "users cd \<le> length (usersd cd)" "0 < k"
    and cd': "users cd' = users cd" "usersd cd' = (usersd cd)[0 := usersd cd ! k, k := usersd cd ! 0]"
  shows "mset (chatters cd') = mset (chatters cd)"
proof -
  have "chatters cd' = (chatters cd)[0 := chatters cd ! k, k := chatters cd ! 0]"
    using k by (simp add: chatters_def cd' take_update_swap)
  then show ?thesis using mset_swap [of k "chatters cd" 0] k by (simp add: chatters_def)
qed

lemma owner_here:
  assumes "world_ok w" "sessions w sid = Some sd" "id2chat w (chatID sd) = Some cd"
  shows "object w (chatID sd) = Some (Chat_object cd)" "chat_ok (sessions w) (npcs w) (chatID sd) cd"
    "u \<in> set (chatters cd) \<Longrightarrow> sessions w u \<noteq> None"
proof -
  have o: "objects_ok w" and r: "rooms_ok (sessions w) (npcs w) (object w)" using assms(1) by (simp_all add: world_ok_def)
  show ob: "object w (chatID sd) = Some (Chat_object cd)" using assms(3) by (simp add: id2chat_iff [OF o])
  show "chat_ok (sessions w) (npcs w) (chatID sd) cd" using rooms_okD(1) [OF r ob] .
  show "u \<in> set (chatters cd) \<Longrightarrow> sessions w u \<noteq> None" using member_room [OF r ob] by auto
qed

lemma chat_changechatowner_ok:
  assumes ok: "world_ok w" and sd: "sessions w sid \<noteq> None"
  shows "\<exists>w'. chat_changechatowner sid nick w = Some w' \<and> world_ok w'"
proof -
  have o: "objects_ok w" and r: "rooms_ok (sessions w) (npcs w) (object w)" using ok by (simp_all add: world_ok_def)
  obtain sd where sd: "sessions w sid = Some sd" using sd by blast
  define cid where "cid = chatID sd"
  show ?thesis
  proof (cases "id2chat w cid")
    case None
    then show ?thesis using sd ok by (simp add: chat_changechatowner_def cid_def)
  next
    case (Some cd)
    note here = owner_here [OF ok sd Some [unfolded cid_def], folded cid_def]
    have len: "length (usersd cd) = MAX_CHATTERS" "users cd \<le> length (usersd cd)" using here(2) by (auto simp: chat_ok_def)
    have "\<forall>u \<in> set (drop 1 (chatters cd)). sessions w u \<noteq> None" using here(3) in_set_dropD by fast
    then obtain f where f: "find_named w nick 1 (drop 1 (chatters cd)) = Some f"
      "\<forall>k. f = Some k \<longrightarrow> 1 \<le> k \<and> k < 1 + length (drop 1 (chatters cd))" using find_named_alive [of "drop 1 (chatters cd)" w nick 1] by blast
    have head: "chat_changechatowner sid nick w = (if \<not> owns_chat sid cd then Some w else case f of None \<Rightarrow> Some w | Some k \<Rightarrow> make_owner cid k cd w)"
      using sd Some f(1) by (simp add: chat_changechatowner_def cid_def [symmetric] chatters_def [symmetric] Let_def)
    show ?thesis
    proof (cases "owns_chat sid cd \<and> f \<noteq> None")
      case False
      then show ?thesis using ok by (auto simp: head)
    next
      case True
      then obtain k where k: "f = Some k" by blast
      then have kb: "0 < k" "k < users cd" using f(2) len by (auto simp: chatters_def)
      have mem: "usersd cd ! k \<in> set (chatters cd)" "usersd cd ! 0 \<in> set (chatters cd)"
        using kb len nth_mem [of k "chatters cd"] first_member [of cd] by (simp_all add: chatters_def)
      obtain ms1 where ms1: "clif_changechatowner cd (usersd cd ! k) w = Some (says ms1 w)"
        using clif_changechatowner_says [OF r o] here(3) mem by blast
      obtain ms2 where ms2: "clif_clearchat cid cd (says ms1 w) = Some (says ms2 (says ms1 w))"
        using clif_clearchat_says [of "says ms1 w" cd cid] owner_alive [OF here(2)] by auto
      define cd1 where "cd1 = cd\<lparr>usersd := (usersd cd)[0 := usersd cd ! k, k := usersd cd ! 0]\<rparr>"
      have u0: "usersd cd1 ! 0 = usersd cd ! k" using kb len by (simp add: cd1_def)
      then obtain sd0 where sd0: "sessions w (usersd cd1 ! 0) = Some sd0" using here(3) [OF mem(1)] by auto
      define cd2 where "cd2 = moved_to sd0 cd1"
      have "mset (chatters cd2) = mset (chatters cd)" using kb len by (intro members_swap [of k]) (simp_all add: cd2_def cd1_def moved_to_def)
      then have m: "set (chatters cd2) = set (chatters cd)" "distinct (chatters cd2)"
        using here(2) by (metis set_mset_mset, metis chat_ok_def mset_eq_imp_distinct_iff)
      let ?w = "says (ms1 @ ms2) w"
      have w2: "world_ok (set_chat cid cd2 ?w)"
        by (rule change_room [of _ _ cd]) (use ok here(1,2) m len in \<open>simp_all add: cd2_def cd1_def moved_to_def chat_ok_def\<close>)
      then have "rooms_ok (sessions w) (npcs w) (object (set_chat cid cd2 ?w))" by (simp add: world_ok_def)
      then have "chat_ok (sessions w) (npcs w) cid cd2" by (rule rooms_okD(1)) simp
      then obtain ms3 where "clif_dispchat cid cd2 (set_chat cid cd2 ?w) = Some (says ms3 (set_chat cid cd2 ?w))"
        using clif_dispchat_says [OF owner_alive, of "set_chat cid cd2 ?w" cid cd2] by auto
      then have "chat_changechatowner sid nick w = Some (says ms3 (set_chat cid cd2 ?w))"
        using True k ms1 ms2 sd0 by (simp add: head make_owner_def cd1_def [symmetric] cd2_def [symmetric] Let_def)
      then show ?thesis using w2 by simp
    qed
  qed
qed

lemma check_bad_word_total:
  assumes "[] \<notin> set words"
  shows "\<exists>bad mes. check_bad_word action words s = Some (bad, mes)"
proof -
  obtain b where "words_loop (lower_sentence (cstr s)) words = Some b" using words_loop_correct [OF assms] by blast
  then show ?thesis by (cases b) (simp_all add: check_bad_word_def)
qed

lemma chat_changechatstatus_ok:
  assumes ok: "world_ok w" and sd: "sessions w sid \<noteq> None" and lim: "u8 lim \<le> int MAX_CHATTERS" and words: "[] \<notin> set words"
  shows "\<exists>w'. chat_changechatstatus action words sid lim pb pss ttl titlelen w = Some w' \<and> world_ok w'"
proof -
  obtain sd where sd: "sessions w sid = Some sd" using sd by blast
  define cid where "cid = chatID sd"
  show ?thesis
  proof (cases "id2chat w cid")
    case None
    then show ?thesis using sd ok by (simp add: chat_changechatstatus_def cid_def)
  next
    case (Some cd)
    note here = owner_here [OF ok sd Some [unfolded cid_def], folded cid_def]
    define ttl' where "ttl' = strncpy_buf (clip_title titlelen) ttl"
    obtain bad mes where bad: "check_bad_word action words ttl' = Some (bad, mes)"
      using check_bad_word_total [OF words] by blast
    define w1 where "w1 = (case mes of None \<Rightarrow> w | Some n \<Rightarrow> say (Displaymessage sid n) w)"
    have "w1 = says [] w \<or> (\<exists>m. w1 = says [m] w)" by (auto simp: w1_def says_Nil say_says split: option.splits)
    then obtain ms where ms: "w1 = says ms w" by blast
    define cd1 where "cd1 = cd\<lparr>limit := u8 lim, pub := u8 pb, pass := strncpy_buf 8 pss, title := ttl'\<rparr>"
    have head: "chat_changechatstatus action words sid lim pb pss ttl titlelen w = (if \<not> owns_chat sid cd then Some w
        else if bad \<noteq> 0 then Some w1 else do {
              w \<leftarrow> clif_changechatstatus cid cd1 (set_chat cid cd1 w1); clif_dispchat cid cd1 w})"
      using sd Some bad by (simp add: chat_changechatstatus_def cid_def [symmetric] ttl'_def [symmetric] w1_def [symmetric] cd1_def [symmetric])
    have "chatters cd1 = chatters cd" by (simp add: chatters_def cd1_def)
    then have w2: "world_ok (set_chat cid cd1 w1)"
      unfolding ms by (intro change_room [of _ _ cd]) (use ok here(1,2) lim in \<open>simp_all add: cd1_def chat_ok_def\<close>)
    let ?w2 = "set_chat cid cd1 w1"
    have r2: "rooms_ok (sessions ?w2) (npcs ?w2) (object ?w2)" and o2: "objects_ok ?w2" using w2 by (simp_all add: world_ok_def)
    have "chat_ok (sessions ?w2) (npcs ?w2) cid cd1" by (rule rooms_okD(1) [OF r2]) simp
    show ?thesis
    proof (cases "owns_chat sid cd \<and> bad = 0")
      case False
      then show ?thesis using ok ms by (auto simp: head)
    next
      case True
      have "usersd cd1 ! 0 = sid" using True by (simp add: owns_chat_def cd1_def)
      then obtain ms1 where ms1: "clif_changechatstatus cid cd1 ?w2 = Some (says ms1 ?w2)"
        using send_chat_says [OF r2 o2, of sid] sd ms by (auto simp: clif_changechatstatus_def)
      obtain ms2 where ms2: "clif_dispchat cid cd1 (says ms1 ?w2) = Some (says ms2 (says ms1 ?w2))"
        using clif_dispchat_says [of "says ms1 ?w2" cd1 cid] owner_alive [OF \<open>chat_ok (sessions ?w2) _ _ _\<close>] by auto
      then show ?thesis using True ms1 w2 by (simp add: head)
    qed
  qed
qed

lemma chat_kickchat_ok:
  assumes ok: "world_ok w" and sd: "sessions w sid \<noteq> None"
  shows "\<exists>w'. chat_kickchat sid nick w = Some w' \<and> world_ok w'"
proof -
  obtain sd where sd: "sessions w sid = Some sd" using sd by blast
  show ?thesis
  proof (cases "id2chat w (chatID sd)")
    case None
    then show ?thesis using sd ok by (simp add: chat_kickchat_def)
  next
    case (Some cd)
    note here = owner_here [OF ok sd Some]
    obtain f where f: "find_named w nick 0 (chatters cd) = Some f" "\<forall>k. f = Some k \<longrightarrow> 0 \<le> k \<and> k < 0 + length (chatters cd)"
      using find_named_alive [of "chatters cd" w nick 0] here(3) by blast
    have leave: "\<exists>w'. chat_leavechat (usersd cd ! k) w = Some w' \<and> world_ok w'" if "f = Some k" for k
    proof -
      have "k < length (chatters cd)" using f(2) that by simp
      then have "sessions w (chatters cd ! k) \<noteq> None" using here(3) nth_mem by blast
      moreover have "chatters cd ! k = usersd cd ! k" using \<open>k < length (chatters cd)\<close> by (simp add: chatters_def)
      ultimately show ?thesis using chat_leavechat_ok [OF ok, of "usersd cd ! k"] by (metis not_None_eq)
    qed
    show ?thesis using sd Some f(1) leave ok by (auto simp: chat_kickchat_def chatters_def [symmetric] split: option.splits)
  qed
qed

section \<open>Emptying a room\<close>

definition left_room :: "chat_data \<Rightarrow> world \<Rightarrow> int \<Rightarrow> chatter option" where
  "left_room cd w = (\<lambda>u. if u \<in> set (chatters cd) then map_option (\<lambda>sd. sd\<lparr>chatID := 0\<rparr>) (sessions w u) else sessions w u)"

lemma kick_loop_ok:
  assumes "world_ok w" "object w cid = Some (Chat_object cd)" "owner cd = Owner_npc n"
  shows "\<exists>w' cd'. kick_loop cid w = Some w' \<and> world_ok w' \<and> object w' cid = Some (Chat_object cd') \<and> users cd' = 0 \<and>
    owner cd' = Owner_npc n \<and> npcs w' = npcs w \<and> sessions w' = left_room cd w"
  using assms
proof (induction "users cd" arbitrary: w cd)
  case 0
  then have "id2chat w cid = Some cd" by (simp add: id2chat_iff world_ok_def)
  then have "kick_loop cid w = Some w" using 0 by (simp add: kick_loop.simps)
  moreover have "sessions w = left_room cd w" using 0 by (simp add: left_room_def chatters_def)
  ultimately show ?case using 0 by auto
next
  case (Suc k)
  have o: "objects_ok w" and r: "rooms_ok (sessions w) (npcs w) (object w)" using Suc.prems(1) by (simp_all add: world_ok_def)
  note cok = rooms_okD(1) [OF r Suc.prems(2)]
  define u where "u = usersd cd ! (users cd - 1)"
  have mem: "u \<in> set (chatters cd)"
  proof -
    have "users cd - 1 < length (chatters cd)" using Suc.hyps(2) cok by (auto simp: chatters_def chat_ok_def)
    then have "chatters cd ! (users cd - 1) \<in> set (chatters cd)" by (rule nth_mem)
    then show ?thesis using Suc.hyps(2) by (simp add: u_def chatters_def)
  qed
  obtain sd where sd: "sessions w u = Some sd" "chatID sd = cid" using member_room [OF r Suc.prems(2) mem] by blast
  obtain w1 cd1 where w1: "chat_leavechat u w = Some w1" "world_ok w1" "sessions w1 = (sessions w)(u := Some (sd\<lparr>chatID := 0\<rparr>))"
      "npcs w1 = npcs w" "object w1 cid = Some (Chat_object cd1)" "owner cd1 = owner cd" "users cd1 = users cd - 1"
      "set (chatters cd1) = set (chatters cd) - {u}"
    using chat_leavechat_ok [OF Suc.prems(1) sd(1)] sd(2) Suc.prems(2,3) by auto
  have "k = users cd1" using Suc.hyps(2) w1(7) by simp
  from Suc.hyps(1) [OF this w1(2,5)] obtain w' cd' where w': "kick_loop cid w1 = Some w'" "world_ok w'"
      "object w' cid = Some (Chat_object cd')" "users cd' = 0" "owner cd' = Owner_npc n" "npcs w' = npcs w1" "sessions w' = left_room cd1 w1"
    using w1(6) Suc.prems(3) by auto
  have "id2chat w cid = Some cd" using Suc.prems(2) by (simp add: id2chat_iff [OF o])
  then have "kick_loop cid w = Some w'"
    using w1(1) w'(1) Suc.hyps(2) by (subst kick_loop.simps) (simp add: u_def)
  moreover have "left_room cd1 w1 = left_room cd w"
    using w1(3,8) sd(1) mem by (auto simp: left_room_def fun_eq_iff)
  ultimately show ?case using w' w1(4) by auto
qed

lemma chat_npckickall_ok:
  assumes ok: "world_ok w" and nd: "npcs w n = Some nd"
  shows "\<exists>w'. chat_npckickall (chat_id nd) w = Some w' \<and> world_ok w'"
proof (cases "chat_id nd = 0")
  case True
  then show ?thesis using ok id2chat_0 [of w] by (simp add: chat_npckickall_def world_ok_def)
next
  case False
  have o: "objects_ok w" and r: "rooms_ok (sessions w) (npcs w) (object w)" using ok by (simp_all add: world_ok_def)
  obtain cd where cd: "object w (chat_id nd) = Some (Chat_object cd)" "owner cd = Owner_npc n" using rooms_okD(3) [OF r nd False] by blast
  then have "id2chat w (chat_id nd) = Some cd" by (simp add: id2chat_iff [OF o])
  then show ?thesis using kick_loop_ok [OF ok cd] by (auto simp: chat_npckickall_def)
qed

lemma chat_deletenpcchat_ok:
  assumes ok: "world_ok w"
  shows "\<exists>w'. chat_deletenpcchat n w = Some w' \<and> world_ok w'"
proof (cases "npcs w n")
  case None
  then show ?thesis using ok by (simp add: chat_deletenpcchat_def)
next
  case (Some nd)
  have o: "objects_ok w" and r: "rooms_ok (sessions w) (npcs w) (object w)" using ok by (simp_all add: world_ok_def)
  define cid where "cid = chat_id nd"
  show ?thesis
  proof (cases "id2chat w cid")
    case None
    then show ?thesis using ok Some by (simp add: chat_deletenpcchat_def cid_def)
  next
    case cd: (Some cd)
    then have "object w cid = Some (Chat_object cd)" by (simp add: id2chat_iff [OF o])
    then have cid: "cid \<noteq> 0" "object w cid = Some (Chat_object cd)" using object_0 [OF o, of cid] by auto
    then have own: "owner cd = Owner_npc n" using rooms_okD(3) [OF r Some] by (auto simp: cid_def)
    obtain w1 cd1 where w1: "kick_loop cid w = Some w1" "world_ok w1" "object w1 cid = Some (Chat_object cd1)" "users cd1 = 0"
        "owner cd1 = Owner_npc n" "npcs w1 = npcs w"
      using kick_loop_ok [OF ok cid(2) own] by blast
    have o1: "objects_ok w1" and r1: "rooms_ok (sessions w1) (npcs w1) (object w1)" using w1(2) by (simp_all add: world_ok_def)
    have cd1: "id2chat w1 cid = Some cd1" using w1(3) by (simp add: id2chat_iff [OF o1])
    obtain ms where ms: "clif_clearchat cid cd1 w1 = Some (says ms w1)"
      using clif_clearchat_says owner_alive [OF rooms_okD(1) [OF r1 w1(3)]] by blast
    let ?w2 = "(map_delobject cid (says ms w1))\<lparr>npcs := (npcs w1)(n := Some (nd\<lparr>chat_id := 0\<rparr>))\<rparr>"
    have run: "chat_deletenpcchat n w = Some ?w2"
      using Some cd w1(1) cd1 ms by (simp add: chat_deletenpcchat_def Let_def cid_def [symmetric] chat_npckickall_def)
    have "rooms_ok (sessions w1) ((npcs w1)(n := Some (nd\<lparr>chat_id := 0\<rparr>))) ((object w1)(cid := None))"
    proof (rule rooms_gone [OF r1])
      show "chatID sd \<noteq> cid" if "sessions w1 u = Some sd" for u sd
        using room_members [OF r1 w1(3) cid(1), of u] that w1(4) by (auto simp: chatters_def)
      show "((npcs w1)(n := Some (nd\<lparr>chat_id := 0\<rparr>))) k \<noteq> None \<longleftrightarrow> npcs w1 k \<noteq> None" for k
        using Some w1(6) by simp
      show "chat_id nd' \<noteq> cid \<and> (\<exists>nd''. npcs w1 k = Some nd'' \<and> chat_id nd'' = chat_id nd')"
        if "((npcs w1)(n := Some (nd\<lparr>chat_id := 0\<rparr>))) k = Some nd'" "chat_id nd' \<noteq> 0" for k nd'
      proof -
        have "k \<noteq> n" "npcs w1 k = Some nd'" using that by (auto split: if_splits)
        then show ?thesis using rooms_okD(3) [OF r1 _ that(2), of k] w1(3,5) by auto
      qed
    qed (use object_0 [OF o1] in auto)
    moreover have "objects_ok ?w2" using map_delobject_ok [of "says ms w1" cid] o1 by simp
    ultimately have "world_ok ?w2" by (simp add: world_ok_def)
    then show ?thesis using run by blast
  qed
qed

lemma chat_createnpcchat_ok:
  assumes ok: "world_ok w" and lim: "u8 lim \<le> int MAX_CHATTERS"
  shows "\<exists>w'. chat_createnpcchat n lim pb trg ttl titlelen ev w = Some w' \<and> world_ok w'"
proof (cases "npcs w n")
  case None
  then show ?thesis using ok by (simp add: chat_createnpcchat_def)
next
  case (Some nd)
  have o: "objects_ok w" and r: "rooms_ok (sessions w) (npcs w) (object w)" using ok by (simp_all add: world_ok_def)
  define cd where "cd = no_chat\<lparr>limit := u8 lim, trigger := (if trg > 0 then u8 trg else u8 lim), pub := u8 pb, users := 0,
              title := strncpy_buf (clip_title titlelen) ttl, bl_m := bl_m nd, bl_x := bl_x nd, bl_y := bl_y nd,
              owner := Owner_npc n, npc_event := strncpy_buf 49 ev\<rparr>"
  obtain cid w1 where w1: "map_addobject (Chat_object cd) w = (cid, w1)" by force
  note add = map_addobject_correct [OF o w1]
  let ?w2 = "w1\<lparr>npcs := (npcs w1)(n := Some (nd\<lparr>chat_id := cid\<rparr>))\<rparr>"
  have head: "chat_createnpcchat n lim pb trg ttl titlelen ev w = (if cid = 0 then Some w1 else clif_dispchat cid cd ?w2)"
    using Some w1 by (simp add: chat_createnpcchat_def cd_def [symmetric])
  show ?thesis
  proof (cases "cid = 0")
    case True
    then have "world_ok w1" using add r by (simp add: world_ok_def)
    then show ?thesis using True by (simp add: head)
  next
    case False
    note cid = add(6) [OF False]
    have r1: "rooms_ok (sessions w) (npcs w) ((object w)(cid := Some (Chat_object cd)))"
    proof (rule rooms_change [OF r])
      show "(\<exists>sd. sessions w u = Some sd \<and> chatID sd = cid) \<longleftrightarrow> u \<in> {}" for u
        using rooms_okD(2) [OF r, of u] cid False by auto
      then show "(\<exists>sd. sessions w u = Some sd \<and> chatID sd = cid) \<longleftrightarrow> u \<in> {}" for u .
      show "chat_ok (sessions w) (npcs w) cid cd"
        using Some lim by (simp add: chat_ok_def cd_def no_chat_def chatters_def MAX_CHATTERS_def)
    qed (use cid False object_0 [OF o] in \<open>auto simp: chatters_def cd_def\<close>)
    have "rooms_ok (sessions ?w2) (npcs ?w2) (object ?w2)"
    proof (rule rooms_okI)
      show "chat_ok (sessions ?w2) (npcs ?w2) i c" if "object ?w2 i = Some (Chat_object c)" for i c
        using rooms_okD(1) [OF r1, of i c] that add cid by (auto simp: chat_ok_def)
      show "\<exists>c. object ?w2 (chatID sd) = Some (Chat_object c) \<and> sid \<in> set (chatters c)"
        if "sessions ?w2 sid = Some sd" "chatID sd \<noteq> 0" for sid sd
        using rooms_okD(2) [OF r1, of sid sd] that add cid by simp
      show "\<exists>c. object ?w2 (chat_id nd') = Some (Chat_object c) \<and> owner c = Owner_npc k"
        if "npcs ?w2 k = Some nd'" "chat_id nd' \<noteq> 0" for k nd'
      proof (cases "k = n")
        case True
        then show ?thesis using that(1) cid by (auto simp: cd_def)
      next
        case False
        then show ?thesis using rooms_okD(3) [OF r1, of k nd'] that add cid by simp
      qed
    qed
    moreover have "objects_ok ?w2" using add(1) by simp
    ultimately have ok2: "world_ok ?w2" by (simp add: world_ok_def)
    have "owner_id ?w2 cd \<noteq> None" by (simp add: owner_id_def cd_def)
    then obtain ms where "clif_dispchat cid cd ?w2 = Some (says ms ?w2)" using clif_dispchat_says by blast
    then show ?thesis using False ok2 by (simp add: head)
  qed
qed

section \<open>All requests\<close>

text \<open>
  A room is not made larger than its array, nobody joins a room while in another, the packet that creates a room is as long as
  its header, and the session is there.
\<close>

fun request_ok :: "world \<Rightarrow> chat_request \<Rightarrow> bool" where
  "request_ok w (CreateChatRoom sid len lim pb pss ttl) \<longleftrightarrow> sessions w sid \<noteq> None \<and> 15 \<le> len \<and> u8 lim \<le> int MAX_CHATTERS"
| "request_ok w (ChatAddMember sid cid pss) \<longleftrightarrow> (\<exists>sd. sessions w sid = Some sd \<and> (chatID sd = 0 \<or> chatID sd = cid))"
| "request_ok w (ChatRoomStatusChange sid len lim pb pss ttl) \<longleftrightarrow> sessions w sid \<noteq> None \<and> u8 lim \<le> int MAX_CHATTERS"
| "request_ok w (ChangeChatOwner sid nick) \<longleftrightarrow> sessions w sid \<noteq> None"
| "request_ok w (KickFromChat sid nick) \<longleftrightarrow> sessions w sid \<noteq> None"
| "request_ok w (ChatLeave sid) \<longleftrightarrow> sessions w sid \<noteq> None"
| "request_ok w (Quit sid) \<longleftrightarrow> sessions w sid \<noteq> None"
| "request_ok w (Create_npc nid lim pb trg ttl ev) \<longleftrightarrow> u8 lim \<le> int MAX_CHATTERS"
| "request_ok w r \<longleftrightarrow> True"

lemma clif_parse_CreateChatRoom_ok:
  assumes ok: "world_ok w" and sd: "sessions w sid \<noteq> None" and lim: "u8 lim \<le> int MAX_CHATTERS" "15 \<le> len" and words: "[] \<notin> set words"
  shows "\<exists>w'. clif_parse_CreateChatRoom bsc action words sid len lim pb pss ttl w = Some w' \<and> world_ok w'"
proof -
  obtain sd where sd: "sessions w sid = Some sd" using sd by blast
  define ttl' where "ttl' = strncpy_buf (nat (len - 15)) ttl"
  obtain bad mes where bad: "check_bad_word action words ttl' = Some (bad, mes)" using check_bad_word_total [OF words] by blast
  define w1 where "w1 = (case mes of None \<Rightarrow> w | Some n \<Rightarrow> say (Displaymessage sid n) w)"
  have w1: "world_ok w1" "sessions w1 = sessions w" using ok by (simp_all add: w1_def say_says split: option.splits)
  have "\<exists>w'. chat_createchat sid lim pb pss ttl' (int (length ttl')) w1 = Some w' \<and> world_ok w'"
    using chat_createchat_ok [OF w1(1), of sid] sd lim(1) w1(2) by simp
  then show ?thesis
    using sd bad ok w1 lim by (auto simp: clif_parse_CreateChatRoom_def Let_def ttl'_def [symmetric] w1_def [symmetric] say_says)
qed

lemma chat_enableevent_ok: "world_ok w \<Longrightarrow> world_ok (chat_enableevent cid w)" "world_ok w \<Longrightarrow> world_ok (chat_disableevent cid w)"
proof -
  assume ok: "world_ok w"
  have o: "objects_ok w" and r: "rooms_ok (sessions w) (npcs w) (object w)" using ok by (simp_all add: world_ok_def)
  have keep: "world_ok (set_chat cid (cd\<lparr>trigger := t\<rparr>) w)" if "id2chat w cid = Some cd" for cd t
  proof -
    have cd: "object w cid = Some (Chat_object cd)" using that by (simp add: id2chat_iff [OF o])
    show ?thesis using rooms_okD(1) [OF r cd] by (intro change_room [OF ok cd]) (simp_all add: chatters_def chat_ok_def)
  qed
  show "world_ok (chat_enableevent cid w)" "world_ok (chat_disableevent cid w)"
    using keep ok by (auto simp: chat_enableevent_def chat_disableevent_def chat_triggerevent_def say_says Let_def split: option.splits)
qed

lemma quit_ok:
  assumes ok: "world_ok w" and sd: "sessions w sid = Some sd" "chatID sd = 0"
  shows "world_ok (w\<lparr>sessions := (sessions w)(sid := None)\<rparr>)"
proof -
  have o: "objects_ok w" and r: "rooms_ok (sessions w) (npcs w) (object w)" using ok by (simp_all add: world_ok_def)
  have "rooms_ok ((sessions w)(sid := None)) (npcs w) (object w)"
  proof (rule rooms_okI)
    show "chat_ok ((sessions w)(sid := None)) (npcs w) cid cd" if "object w cid = Some (Chat_object cd)" for cid cd
    proof -
      have "u \<noteq> sid" if "u \<in> set (chatters cd)" for u
        using member_room [OF r \<open>object w cid = _\<close> that] sd object_0 [OF o, of cid] \<open>object w cid = _\<close> by auto
      then show ?thesis using rooms_okD(1) [OF r that] by (auto simp: chat_ok_def)
    qed
  qed (use rooms_okD(2,3) [OF r] in \<open>auto split: if_splits\<close>)
  then show ?thesis using o by (simp add: world_ok_def)
qed

lemma chat_step_ok:
  assumes ok: "world_ok w" and req: "request_ok w r" and words: "[] \<notin> set words"
  shows "\<exists>w'. chat_step bsc action words r w = Some w' \<and> world_ok w'"
proof (cases r)
  case (CreateChatRoom sid len lim pb pss ttl)
  then show ?thesis using clif_parse_CreateChatRoom_ok [OF ok _ _ _ words] req by simp
next
  case (ChatAddMember sid cid pss)
  then show ?thesis using chat_joinchat_ok [OF ok] req by auto
next
  case (ChatRoomStatusChange sid len lim pb pss ttl)
  then show ?thesis using chat_changechatstatus_ok [OF ok _ _ words] req by simp
next
  case (Quit sid)
  then obtain sd where sd: "sessions w sid = Some sd" using req by auto
  show ?thesis
  proof (cases "chatID sd = 0")
    case True
    then show ?thesis using quit_ok [OF ok sd] Quit sd by simp
  next
    case False
    obtain w' where "chat_leavechat sid w = Some w'" "world_ok w'" "sessions w' sid = Some (sd\<lparr>chatID := 0\<rparr>)"
      using chat_leavechat_ok [OF ok sd] by auto
    then show ?thesis using quit_ok [of w' sid] Quit sd False by simp
  qed
next
  case (ChatLeave sid)
  then show ?thesis using chat_leavechat_ok [OF ok, of sid] req by force
qed (use ok req chat_changechatowner_ok chat_kickchat_ok chat_createnpcchat_ok chat_deletenpcchat_ok chat_npckickall_ok
    chat_enableevent_ok in \<open>auto split: option.splits\<close>)

end
