(* ===== verification/ChatRooms.thy ===== *)
theory ChatRooms
  imports ChatProofs
begin

text \<open>
  What the lemmas on chat rooms amount to: every request is answered as long as nobody is in two rooms; and a player in
  two rooms makes the server hang.
\<close>

section \<open>Requests in a row\<close>

inductive chat_reach :: "int \<Rightarrow> int \<Rightarrow> string list \<Rightarrow> world \<Rightarrow> world \<Rightarrow> bool" for bsc action words where
  reach_start: "chat_reach bsc action words w w"
| reach_step: "chat_reach bsc action words w w' \<Longrightarrow> request_ok w' r \<Longrightarrow> chat_step bsc action words r w' = Some w'' \<Longrightarrow>
    chat_reach bsc action words w w''"

lemma reach_ok: "chat_reach bsc action words w w' \<Longrightarrow> world_ok w \<Longrightarrow> [] \<notin> set words \<Longrightarrow> world_ok w'"
proof (induction rule: chat_reach.induct)
  case (reach_step w w' r w'')
  then show ?case using chat_step_ok [of w' r words bsc action] by auto
qed

text \<open>
  C30: as long as nobody joins a room while in another one, no room is made larger than its array, the packets that create a
  room have the 15 bytes of their header (a length below that is a fault of the server: the packet then has no result in the
  model), requests come from sessions that are there, and no bad word is empty: every request is answered, whatever came
  before: no session that is gone is followed, no array overrun, and emptying a room ends. Users and rooms agree about who is
  where, and every room that is no NPC's has a user.
\<close>

theorem chat_rooms_safe:
  assumes "chat_reach bsc action words w w'" "world_ok w" "[] \<notin> set words" "request_ok w' r"
  shows "world_ok w' \<and> (\<exists>w''. chat_step bsc action words r w' = Some w'' \<and> world_ok w'')"
  using reach_ok [OF assms(1-3)] chat_step_ok [OF _ assms(4,3)] by blast

section \<open>In two rooms\<close>

definition is_says :: "world \<Rightarrow> world \<Rightarrow> bool" where
  "is_says w w' \<longleftrightarrow> (\<exists>ms. w' = says ms w)"

lemma is_says_trans: "is_says u v \<Longrightarrow> is_says v w \<Longrightarrow> is_says u w"
  by (auto simp: is_says_def)

lemma is_says_clif:
  "send_chat sid m w = Some w' \<Longrightarrow> is_says w w'"
  "clif_dispchat cid cd w = Some w' \<Longrightarrow> is_says w w'"
  "clif_clearchat cid cd w = Some w' \<Longrightarrow> is_says w w'"
  "clif_leavechat cd sid w = Some w' \<Longrightarrow> is_says w w'"
  "clif_changechatowner cd sid w = Some w' \<Longrightarrow> is_says w w'"
  "clif_addchat cd sid w = Some w' \<Longrightarrow> is_says w w'"
  "clif_joinchatok sid cid cd w = Some w' \<Longrightarrow> is_says w w'"
proof -
  have send: "is_says w w'" if "send_chat sid m w = Some w'" for sid m
    using that says_Nil [of w] by (auto simp: send_chat_def is_says_def say_says bind_eq_Some_conv split: option.splits if_splits intro: exI [of _ "[]"])
  show "send_chat sid m w = Some w' \<Longrightarrow> is_says w w'" by (rule send)
  show "clif_leavechat cd sid w = Some w' \<Longrightarrow> is_says w w'" "clif_changechatowner cd sid w = Some w' \<Longrightarrow> is_says w w'"
    "clif_addchat cd sid w = Some w' \<Longrightarrow> is_says w w'"
    using send by (auto simp: clif_leavechat_def clif_changechatowner_def clif_addchat_def bind_eq_Some_conv)
  show "clif_dispchat cid cd w = Some w' \<Longrightarrow> is_says w w'" "clif_clearchat cid cd w = Some w' \<Longrightarrow> is_says w w'"
    "clif_joinchatok sid cid cd w = Some w' \<Longrightarrow> is_says w w'"
    by (auto simp: clif_dispchat_def clif_clearchat_def clif_joinchatok_def say_says is_says_def bind_eq_Some_conv)
qed

lemma is_saysD:
  assumes "is_says w w'"
  shows "sessions w' = sessions w" "npcs w' = npcs w" "object w' = object w"
  using assms by (auto simp: is_says_def)

text \<open>What a player who is found in the room leaves behind, in any world.\<close>

lemma leave_effect:
  assumes run: "chat_leavechat sid w = Some w'" and sd: "sessions w sid = Some sd" and cd: "id2chat w (chatID sd) = Some cd"
    and mem: "sid \<in> set (chatters cd)" and len: "users cd \<le> length (usersd cd)"
  shows "sessions w' = (sessions w)(sid := Some (sd\<lparr>chatID := 0\<rparr>)) \<and> (\<forall>k. k \<noteq> chatID sd \<longrightarrow> object w' k = object w k)"
proof -
  define i where "i = first_idx (\<lambda>u. u = sid) (chatters cd)"
  have "i < users cd" using mem first_idx_less [of "\<lambda>u. u = sid" "chatters cd"] len by (auto simp: i_def chatters_def)
  then obtain w1 w2 where w: "next_owner (chatID sd) i cd w = Some w1" "clif_leavechat cd sid w1 = Some w2"
    and run': "remove_user (chatID sd) i (cd\<lparr>users := users cd - 1\<rparr>) (set_session sid (sd\<lparr>chatID := 0\<rparr>) w2) = Some w'"
    using run sd cd by (auto simp: chat_leavechat_def Let_def i_def chatters_def bind_eq_Some_conv split: if_splits)
  have "sessions w1 = sessions w \<and> object w1 = object w"
    using w(1) is_saysD by (auto simp: next_owner_def bind_eq_Some_conv dest!: is_says_clif split: if_splits)
  then have w2: "sessions w2 = sessions w" "object w2 = object w" using is_saysD [OF is_says_clif(4) [OF w(2)]] by auto
  let ?w3 = "set_session sid (sd\<lparr>chatID := 0\<rparr>) w2"
  have "sessions w' = sessions ?w3 \<and> (\<forall>k. k \<noteq> chatID sd \<longrightarrow> object w' k = object ?w3 k)"
  proof (cases "users cd - 1 = 0 \<and> owner cd = First_user")
    case True
    then obtain w4 where w4: "clif_clearchat (chatID sd) (cd\<lparr>users := users cd - 1\<rparr>) ?w3 = Some w4" "w' = map_delobject (chatID sd) w4"
      using run' by (auto simp: remove_user_def bind_eq_Some_conv)
    then show ?thesis using is_saysD [OF is_says_clif(3) [OF w4(1)]] by simp
  next
    case False
    then obtain cd' where "clif_dispchat (chatID sd) cd' (set_chat (chatID sd) cd' ?w3) = Some w'"
      using run' by (auto simp: remove_user_def bind_eq_Some_conv split: if_splits)
    then show ?thesis using is_saysD [OF is_says_clif(2)] by fastforce
  qed
  then show ?thesis by (simp add: w2)
qed

text \<open>When the last user of the room believes to be in none, each round changes nothing.\<close>

lemma kick_stuck:
  assumes "id2chat w cid = Some cd" "0 < users cd" "sessions w (usersd cd ! (users cd - 1)) = Some sd" "id2chat w (chatID sd) = None"
  shows "kick_loop cid w = None"
proof -
  define stuck where "stuck = (\<lambda>c v. id2chat v c = Some cd \<and> sessions v (usersd cd ! (users cd - 1)) = Some sd \<and>
    id2chat v (chatID sd) = None)"
  have "\<not> stuck cid w" if "kick_loop cid w = Some y" for y
  proof (rule kick_loop.raw_induct [where P = "\<lambda>c v _. \<not> stuck c v", OF _ that])
    fix kick c v z
    assume IH: "\<And>c v z. kick c v = Some z \<Longrightarrow> \<not> stuck c v"
      and run: "(case id2chat v c of None \<Rightarrow> None | Some cd \<Rightarrow>
        if 0 < users cd then case chat_leavechat (usersd cd ! (users cd - 1)) v of None \<Rightarrow> None | Some w' \<Rightarrow> kick c w' else Some v) = Some z"
    show "\<not> stuck c v"
    proof
      assume s: "stuck c v"
      then have "chat_leavechat (usersd cd ! (users cd - 1)) v = Some v"
        by (simp add: chat_leavechat_def Let_def stuck_def)
      then have "kick c v = Some z" using run assms(2) s by (simp add: stuck_def)
      then show False using IH s by blast
    qed
  qed
  moreover have "stuck cid w" using assms by (simp add: stuck_def)
  ultimately show ?thesis by (cases "kick_loop cid w") auto
qed

text \<open>
  C31: when the user who came last into the room of an NPC joins another room, which nothing forbids, emptying the first
  room never returns: the server hangs when the NPC closes it.
\<close>

theorem chat_two_rooms_hangs:
  assumes ok: "world_ok w" and nd: "npcs w n = Some nd" and a: "object w (chat_id nd) = Some (Chat_object a)"
    and last: "0 < users a" "sid = usersd a ! (users a - 1)"
    and join: "chat_joinchat sid cid pss w = Some w'" "map_option chatID (sessions w' sid) = Some cid" "cid \<noteq> chat_id nd"
  shows "chat_npckickall (chat_id nd) w' = None"
proof -
  have o: "objects_ok w" and r: "rooms_ok (sessions w) (npcs w) (object w)" using ok by (simp_all add: world_ok_def)
  note aok = rooms_okD(1) [OF r a]
  have "users a - 1 < length (chatters a)" using last(1) aok by (auto simp: chatters_def chat_ok_def)
  then have "sid \<in> set (chatters a)" using last nth_mem [of "users a - 1" "chatters a"] by (simp add: chatters_def)
  then obtain sd where sd: "sessions w sid = Some sd" "chatID sd = chat_id nd" using member_room [OF r a] by blast
  obtain cd where cd: "id2chat w cid = Some cd" "users cd < MAX_CHATTERS"
    and w': "\<exists>w1. is_says (set_session sid (sd\<lparr>chatID := cid\<rparr>) (set_chat cid (with_user sid cd) (stop_walking sid sd w))) w1 \<and>
      w' = chat_triggerevent (with_user sid cd) w1"
  proof (cases "id2chat w cid")
    case None
    then show ?thesis using join sd by (simp add: chat_joinchat_def)
  next
    case (Some cd)
    let ?w0 = "set_session sid (sd\<lparr>chatID := cid\<rparr>) (set_chat cid (with_user sid cd) (stop_walking sid sd w))"
    have "\<not> (bl_m cd \<noteq> bl_m sd \<or> limit cd \<le> int (users cd) \<or> pub cd = 0 \<and> \<not> same_pass pss (pass cd) \<or> vender_id sd \<noteq> 0 \<or> cid = chatID sd)"
      using join sd Some by (auto simp: chat_joinchat_def say_says split: if_splits)
    then obtain w1 w2 w3 where "users cd < MAX_CHATTERS" "clif_joinchatok sid cid (with_user sid cd) ?w0 = Some w1"
        "clif_addchat (with_user sid cd) sid w1 = Some w2" "clif_dispchat cid (with_user sid cd) w2 = Some w3"
        "w' = chat_triggerevent (with_user sid cd) w3"
      using join(1) sd Some by (auto simp: chat_joinchat_def Let_def bind_eq_Some_conv split: if_splits)
    moreover from this have "is_says ?w0 w3"
      by (metis is_says_clif(2,6,7) is_says_trans)
    ultimately show ?thesis using that Some by blast
  qed
  let ?cd = "with_user sid cd"
  have s': "sessions w' = (sessions w)(sid := Some (sd\<lparr>chatID := cid\<rparr>))" "object w' = (object w)(cid := Some (Chat_object ?cd))"
    using w' is_saysD by (auto simp: chat_triggerevent_def stop_walking_def say_says)
  have range: "0 \<le> cid \<and> cid < MAX_FLOORITEM" using cd(1) by (auto simp: id2chat_def split: if_splits)
  have b: "id2chat w' cid = Some ?cd" using range by (simp add: id2chat_def s'(2))
  have a': "id2chat w' (chat_id nd) = Some a"
    using a join(3) objects_okD(1) [OF o, of "chat_id nd"] by (simp add: id2chat_def s'(2))
  have "object w 0 = None" using object_0 [OF o, of 0] by (cases "object w 0") auto
  have cid0: "cid \<noteq> 0" using cd(1) id2chat_0 [OF o] by auto
  have "chat_ok (sessions w) (npcs w) cid cd" using cd(1) rooms_okD(1) [OF r] by (simp add: id2chat_iff [OF o])
  then have m: "sid \<in> set (chatters ?cd)" "users ?cd \<le> length (usersd ?cd)"
    using cd(2) members_with_user [of cd sid] by (auto simp: chat_ok_def with_user_def)
  have "kick_loop (chat_id nd) w' = None"
  proof (cases "chat_leavechat sid w'")
    case None
    then show ?thesis using a' last by (subst kick_loop.simps) simp
  next
    case (Some w2)
    have w2: "sessions w2 sid = Some (sd\<lparr>chatID := 0\<rparr>)" "object w2 k = object w' k" if "k \<noteq> cid" for k
      using leave_effect [OF Some, of "sd\<lparr>chatID := cid\<rparr>" ?cd] b m s'(1) that by auto
    have "id2chat w2 (chat_id nd) = Some a" using a' unfolding id2chat_def w2(2) [OF join(3) [symmetric]] .
    moreover have "id2chat w2 0 = None" using w2(2) [of 0] cid0 \<open>object w 0 = None\<close> by (simp add: id2chat_def s'(2))
    ultimately have "kick_loop (chat_id nd) w2 = None"
      using last w2(1) [OF join(3) [symmetric]] by (intro kick_stuck [of _ _ a "sd\<lparr>chatID := 0\<rparr>"]) simp_all
    then show ?thesis using a' last Some by (subst kick_loop.simps) simp
  qed
  then show ?thesis using a' by (simp add: chat_npckickall_def)
qed

section \<open>Examples\<close>

text \<open>An NPC, two players, and no room yet; then a room of the NPC with the first player, and one of the second.\<close>

definition town :: world where
  "town = \<lparr>sessions = [1 \<mapsto> \<lparr>bl_m = 3, bl_x = 10, bl_y = 10, status_name = ''Al'', chatID = 0, vender_id = 0, dead_sit = 0,
       sc_berserk = -1, sc_nochat = -1, basic_skill = (1, 9)\<rparr>,
     2 \<mapsto> \<lparr>bl_m = 3, bl_x = 12, bl_y = 10, status_name = ''Bo'', chatID = 0, vender_id = 0, dead_sit = 2,
       sc_berserk = -1, sc_nochat = -1, basic_skill = (1, 9)\<rparr>],
     npcs = [110000 \<mapsto> \<lparr>bl_m = 3, bl_x = 20, bl_y = 20, chat_id = 0\<rparr>],
     object = Map.empty, first_free_object_id = 0, last_object_id = 0, sent = []\<rparr>"

lemma town_ok: "world_ok town"
  by (auto simp: world_ok_def objects_ok_def rooms_ok_def town_def split: if_splits)

definition town1 :: world where
  "town1 = the (chat_step 1 0 [] (Create_npc 110000 10 1 3 ''arena'' ''Arena::OnFull'') town)"

definition town2 :: world where
  "town2 = the (chat_step 1 0 [] (ChatAddMember 1 2 []) town1)"

definition town3 :: world where
  "town3 = the (chat_step 1 0 [] (CreateChatRoom 2 21 20 1 [] ''trades'') town2)"

lemma step_the:
  "world_ok w \<Longrightarrow> request_ok w r \<Longrightarrow> world_ok (the (chat_step 1 0 [] r w)) \<and> chat_step 1 0 [] r w = Some (the (chat_step 1 0 [] r w))"
  using chat_step_ok [of w r "[]" 1 0] by auto

lemma towns_ok: "world_ok town1" "chat_reach 1 0 [] town town1" "request_ok town1 (ChatAddMember 1 2 [])" "world_ok town2" "world_ok town3"
proof -
  have 1: "request_ok town (Create_npc 110000 10 1 3 ''arena'' ''Arena::OnFull'')"
    by (simp add: u8_def MAX_CHATTERS_def)
  show 2: "world_ok town1" "chat_reach 1 0 [] town town1"
    using step_the [OF town_ok 1] reach_step [OF reach_start 1] by (simp_all add: town1_def)
  have "map_option chatID (sessions town1 1) = Some 0" "map_option chatID (sessions town2 2) = Some 0" by code_simp+
  then show 3: "request_ok town1 (ChatAddMember 1 2 [])" and 4: "world_ok town2"
    using step_the [OF 2(1), of "ChatAddMember 1 2 []"] by (auto simp: town2_def)
  show "world_ok town3"
    using step_the [OF 4, of "CreateChatRoom 2 21 20 1 [] ''trades''"] \<open>map_option chatID (sessions town2 2) = Some 0\<close>
    by (auto simp: town3_def u8_def MAX_CHATTERS_def)
qed

lemma chat_rooms_safe_witness:
  "world_ok town1 \<and> (\<exists>w''. chat_step 1 0 [] (ChatAddMember 1 2 []) town1 = Some w'' \<and> world_ok w'')"
  by (rule chat_rooms_safe [OF towns_ok(2) town_ok _ towns_ok(3)]) simp

lemma chat_two_rooms_hangs_witness:
  "chat_npckickall 2 (the (chat_joinchat 1 3 [] town3)) = None"
proof -
  have facts: "map_option chat_id (npcs town3 110000) = Some 2"
    "map_option (\<lambda>bl. case bl of Chat_object cd \<Rightarrow> (users cd, hd (usersd cd)) | Other_object \<Rightarrow> (0, 0)) (object town3 2) = Some (1, 1)"
    "map_option (\<lambda>w. map_option chatID (sessions w 1)) (chat_joinchat 1 3 [] town3) = Some (Some 3)"
    by code_simp+
  obtain nd where nd: "npcs town3 110000 = Some nd" "chat_id nd = 2" using facts(1) by auto
  obtain a where a: "object town3 2 = Some (Chat_object a)" "users a = 1" "hd (usersd a) = 1"
  proof -
    obtain bl where "object town3 2 = Some bl" "(case bl of Chat_object cd \<Rightarrow> (users cd, hd (usersd cd)) | Other_object \<Rightarrow> (0, 0)) = (1, 1)"
      using facts(2) by auto
    then show ?thesis using that by (cases bl) auto
  qed
  have "chat_ok (sessions town3) (npcs town3) 2 a" using towns_ok(5) a(1) unfolding world_ok_def by (blast intro: rooms_okD(1))
  then have "usersd a \<noteq> []" by (auto simp: chat_ok_def MAX_CHATTERS_def)
  then have last: "1 = usersd a ! (users a - 1)" using a(2,3) by (simp add: hd_conv_nth)
  obtain w' where "chat_joinchat 1 3 [] town3 = Some w'" "map_option chatID (sessions w' 1) = Some 3" using facts(3) by auto
  then show ?thesis
    using chat_two_rooms_hangs [OF towns_ok(5) nd(1) _ _ last, of 3 "[]" w'] nd(2) a by simp
qed

end
