(* ===== verification/SkillTree.thy ===== *)
theory SkillTree
  imports Prelude "HOL-Library.Monad_Syntax"
begin

text \<open>
  The skills of a character (\<open>src/src/map/pc.c\<close>): which ones may be learned (\<open>pc_calc_skilltree\<close>), the least and the
  greatest number of points (\<open>pc_checkminskill\<close>, \<open>pc_checkmaxskill\<close>), learning, and starting anew. The data of the
  files \<open>skill_tree.txt\<close> and \<open>skill_db.txt\<close> and the settings are the environment.

  \<open>status_calc_pc\<close> of \<open>status.c\<close> calls \<open>pc_calc_skilltree\<close> first; of the fields that are modelled it changes no other, but
  for skills given by cards, which are left out.
\<close>

section \<open>Data\<close>

definition MAX_SKILL :: int where
  "MAX_SKILL = 1100"

definition MAX_SKILL_TREE :: nat where
  "MAX_SKILL_TREE = 51"

definition NV_BASIC :: int where
  "NV_BASIC = 1"

record skill =
  skill_id :: int
  lv :: int
  skill_flag :: int

record skill_tree_entry =
  entry_id :: int
  entry_max :: int
  joblv :: int
  need :: "(int \<times> int) list"

record battle_config =
  gm_allskill :: int
  gm_all_skill_job :: int
  gm_all_skill_platinum :: int
  skillfree :: int
  skillup_limit :: int
  quest_skill_learn :: int
  quest_skill_reset :: int
  check_minimum_skill_points :: int
  check_maximum_skill_points :: int
  max_parameter :: int
  maximum_level :: int
  multi_level_up :: int
  pvp_exp :: int

record char_env =
  skill_tree :: "int \<Rightarrow> int \<Rightarrow> skill_tree_entry list"
  skill_get_inf2 :: "int \<Rightarrow> int"
  skill_get_max :: "int \<Rightarrow> int"
  exp_table :: "int \<Rightarrow> int \<Rightarrow> int"
  statp :: "int \<Rightarrow> int"
  config :: battle_config

text \<open>One constructor for each call that tells the client, or another server, something.\<close>

datatype char_message =
    Updatestatus string
  | Skillinfoblock
  | Skillup int
  | Statusupack int int int
  | Misceffect int
  | Status_change_start string
  | Party_send_movemap
  | Guild_skillup int

record character =
  account_id :: int
  char_id :: int
  job_class :: int
  map_class :: int
  base_level :: int
  job_level :: int
  base_exp :: int
  job_exp :: int
  status_point :: int
  skill_point :: int
  str :: int
  agi :: int
  vit :: int
  intel :: int
  dex :: int
  luk :: int
  skill :: "int \<Rightarrow> skill"
  GM_level :: int
  change_level :: int
  guild_id :: int
  party_id :: int
  sent :: "char_message list"

definition say :: "char_message \<Rightarrow> character \<Rightarrow> character" where
  "say m sd = sd\<lparr>sent := sent sd @ [m]\<rparr>"

type_synonym skills = "int \<Rightarrow> skill"

definition set_lv :: "int \<Rightarrow> int \<Rightarrow> skills \<Rightarrow> skills" where
  "set_lv i l sk = sk(i := (sk i)\<lparr>lv := l\<rparr>)"

definition set_id :: "int \<Rightarrow> int \<Rightarrow> skills \<Rightarrow> skills" where
  "set_id i n sk = sk(i := (sk i)\<lparr>skill_id := n\<rparr>)"

definition in_array :: "int \<Rightarrow> bool" where
  "in_array i \<longleftrightarrow> 0 \<le> i \<and> i < MAX_SKILL"

section \<open>Jobs\<close>

definition pc_calc_base_job :: "int \<Rightarrow> int \<times> int \<times> int" where
  "pc_calc_base_job b_class =
     (let (job, upper) =
        (if b_class < 4001 then (b_class, 0)
         else if b_class \<ge> 4001 \<and> b_class < 4023 then (b_class - 4001, 1)
         else if b_class = 4045 then (23, 2)
         else (b_class - 4023, 2))
      in (job, upper, if job = 0 then 0 else if job < 7 then 1 else 2))"

text \<open>The loop \<open>for(i = 0; i < MAX_SKILL_TREE && (id = skill_tree[s][c][i].id) > 0; i++)\<close>, and \<open>id\<close> when it has ended.\<close>

definition row :: "char_env \<Rightarrow> int \<Rightarrow> int \<Rightarrow> skill_tree_entry list" where
  "row env s c = takeWhile (\<lambda>e. entry_id e > 0) (take MAX_SKILL_TREE (skill_tree env s c))"

definition end_id :: "char_env \<Rightarrow> int \<Rightarrow> int \<Rightarrow> int" where
  "end_id env s c =
     (let r = row env s c in
      if length r = MAX_SKILL_TREE then entry_id (last r)
      else if length r < length (skill_tree env s c) then entry_id (skill_tree env s c ! length r) else 0)"

definition find_entry :: "int \<Rightarrow> skill_tree_entry list \<Rightarrow> skill_tree_entry option" where
  "find_entry i es = find (\<lambda>e. entry_id e = i) es"

definition skill_tree_get_max :: "char_env \<Rightarrow> int \<Rightarrow> int \<Rightarrow> int" where
  "skill_tree_get_max env i b_class =
     (let (job, upper, type) = pc_calc_base_job b_class in
      case find_entry i (row env upper job) of Some e \<Rightarrow> entry_max e | None \<Rightarrow> skill_get_max env i)"

text \<open>The numbers of guild skills, from 10000 on, do not occur here.\<close>

definition pc_checkskill_status :: "skills \<Rightarrow> int \<Rightarrow> int" where
  "pc_checkskill_status sk i = (if skill_id (sk i) = i then lv (sk i) else 0)"

section \<open>Points\<close>

text \<open>Whether points are spent on the skill: not for quests, nor for the two that a high novice has for free.\<close>

definition costs_points :: "char_env \<Rightarrow> int \<Rightarrow> int \<Rightarrow> bool" where
  "costs_points env b_class i \<longleftrightarrow> (\<not> odd (skill_get_inf2 env i) \<or> quest_skill_learn (config env) \<noteq> 0) \<and>
     \<not> ((i = 142 \<or> i = 143) \<and> b_class \<ge> 4001 \<and> b_class < 4023)"

definition spent_on :: "char_env \<Rightarrow> int \<Rightarrow> skills \<Rightarrow> int \<Rightarrow> int" where
  "spent_on env b_class sk i =
     (if pc_checkskill_status sk i > 0 \<and> costs_points env b_class i then
        (if skill_flag (sk i) = 0 then pc_checkskill_status sk i
         else if skill_flag (sk i) \<ge> 2 \<and> skill_flag (sk i) \<noteq> 13 then skill_flag (sk i) - 2 else 0)
      else 0)"

definition pc_calc_skillpoint :: "char_env \<Rightarrow> int \<Rightarrow> skills \<Rightarrow> int" where
  "pc_calc_skillpoint env b_class sk = sum_list (map (spent_on env b_class sk) [1..MAX_SKILL - 1])"

definition previous_class_level :: "int \<Rightarrow> int" where
  "previous_class_level l = (if l < 40 \<or> l > 50 then 40 else l)"

text \<open>The points a character has had; the two functions have the same table.\<close>

definition class_points :: "int \<Rightarrow> int \<Rightarrow> int \<Rightarrow> int" where
  "class_points b_class chg job_lv =
     (if b_class \<in> {0, 4001, 4023} then job_lv - 1
      else if b_class \<in> {1..6} \<union> {4002..4007} \<union> {4024..4029} then 9 + job_lv - 1
      else if b_class \<in> {7..21} \<union> {4008..4022} \<union> {4030..4044} then 9 + (previous_class_level chg - 1) + job_lv - 1
      else if b_class \<in> {23, 4045} then 9 + 20 + job_lv - 1
      else 0)"

definition pc_checkminskill :: "char_env \<Rightarrow> character \<Rightarrow> character" where
  "pc_checkminskill env sd =
     (let sd = (if skill_id (skill sd NV_BASIC) = 0
                then say Skillinfoblock (sd\<lparr>skill := set_lv NV_BASIC 0 (set_id NV_BASIC NV_BASIC (skill sd))\<rparr>) else sd)
      in if check_minimum_skill_points (config env) = 0 then sd
         else (let skill_points = skill_point sd + pc_calc_skillpoint env (job_class sd) (skill sd);
                   min_points = class_points (job_class sd) (change_level sd) (job_level sd)
               in if skill_points < min_points
                  then say (Updatestatus ''skill_point'') (sd\<lparr>skill_point := s16 (skill_point sd + (min_points - skill_points))\<rparr>)
                  else sd))"

text \<open>Taking excess points back from a skill.\<close>

definition take_back :: "char_env \<Rightarrow> int \<Rightarrow> int \<Rightarrow> int \<times> skills \<Rightarrow> int \<times> skills" where
  "take_back env b_class i = (\<lambda>(excess, sk).
     if excess > 0 \<and> costs_points env b_class i \<and> lv (sk i) > 0 \<and> skill_flag (sk i) = 0 then
       (if lv (sk i) < excess then (excess - lv (sk i), set_lv i 0 sk)
        else (0, set_lv i (lv (sk i) - excess) sk))
     else (excess, sk))"

definition removal_order :: "char_env \<Rightarrow> int \<Rightarrow> int list" where
  "removal_order env b_class =
     (if skillfree (config env) = 0
      then (let (job, upper, type) = pc_calc_base_job b_class in
            rev (filter (\<lambda>i. i > 0) (map entry_id (take MAX_SKILL_TREE (skill_tree env upper job)))))
      else rev [1..MAX_SKILL - 1])"

definition pc_checkmaxskill :: "char_env \<Rightarrow> character \<Rightarrow> bool \<times> character" where
  "pc_checkmaxskill env sd =
     (if check_maximum_skill_points (config env) < 0 then (False, sd)
      else (let skill_points = skill_point sd + pc_calc_skillpoint env (job_class sd) (skill sd);
                max_points = class_points (job_class sd) (change_level sd) (job_level sd);
                excess = skill_points - (max_points + check_maximum_skill_points (config env))
            in if excess \<le> 0 then (False, sd)
               else (let (excess, sd) =
                       (if skill_point sd > 0 then
                          (let (e, p) = (if skill_point sd < excess then (excess - skill_point sd, 0) else (0, skill_point sd - excess))
                           in (e, say (Updatestatus ''skill_point'') (sd\<lparr>skill_point := p\<rparr>)))
                        else (excess, sd))
                     in if excess > 0
                        then (True, say Skillinfoblock
                          (sd\<lparr>skill := snd (fold (take_back env (job_class sd)) (removal_order env (job_class sd)) (excess, skill sd))\<rparr>))
                        else (True, sd))))"

section \<open>The tree\<close>

definition reset_ids :: "skills \<Rightarrow> skills" where
  "reset_ids sk = (\<lambda>i.
     if in_array i then
       (let e = (if skill_flag (sk i) \<noteq> 13 then (sk i)\<lparr>skill_id := 0\<rparr> else sk i)
        in if skill_flag e \<noteq> 0 \<and> skill_flag e \<noteq> 13
           then e\<lparr>lv := (if skill_flag e = 1 then 0 else skill_flag e - 2), skill_flag := 0\<rparr> else e)
     else sk i)"

text \<open>Skills that are not in the row are forgotten, and levels above the maximum lowered.\<close>

definition remove_invalid :: "char_env \<Rightarrow> int \<Rightarrow> int \<Rightarrow> skills \<Rightarrow> skills" where
  "remove_invalid env s c sk = (\<lambda>i.
     if in_array i \<and> skill_flag (sk i) \<noteq> 13 \<and> lv (sk i) > 0 then
       (case find_entry i (row env s c) of
          Some e \<Rightarrow> if lv (sk i) > entry_max e then (sk i)\<lparr>lv := entry_max e\<rparr> else sk i
        | None \<Rightarrow> if i \<noteq> end_id env s c then (sk i)\<lparr>lv := 0\<rparr> else sk i)
     else sk i)"

text \<open>Skills for game masters: all of them, or all of the job.\<close>

definition free_skill :: "char_env \<Rightarrow> int \<Rightarrow> bool \<Rightarrow> int \<Rightarrow> bool" where
  "free_skill env gm high_novice i \<longleftrightarrow> gm \<ge> gm_all_skill_platinum (config env) \<or> \<not> odd (skill_get_inf2 env i) \<or>
     high_novice \<and> (i = 142 \<or> i = 143)"

definition give_skill :: "char_env \<Rightarrow> int \<Rightarrow> bool \<Rightarrow> bool \<Rightarrow> skill_tree_entry \<Rightarrow> skills \<Rightarrow> skills" where
  "give_skill env gm high_novice keep e sk =
     (let i = entry_id e in
      if skill_flag (sk i) = 13 then sk
      else if free_skill env gm high_novice i
      then (let sk = set_id i i sk in if keep \<and> \<not> lv (sk i) < entry_max e then sk else set_lv i (entry_max e) sk)
      else set_lv i 0 sk)"

definition all_rows :: "char_env \<Rightarrow> skill_tree_entry list" where
  "all_rows env = concat (map (\<lambda>s. concat (map (row env s) [0..24])) [0..2])"

definition no_skill_points :: "character \<Rightarrow> character" where
  "no_skill_points sd = (if skill_point sd > 0 then say (Updatestatus ''skill_point'') (sd\<lparr>skill_point := 0\<rparr>) else sd)"

text \<open>Whether the skills that are needed are there, the level of the job, and the quest.\<close>

definition may_learn :: "char_env \<Rightarrow> int \<Rightarrow> skills \<Rightarrow> skill_tree_entry \<Rightarrow> bool" where
  "may_learn env job_lv sk e \<longleftrightarrow>
     (skillfree (config env) \<noteq> 0 \<or>
       list_all (\<lambda>(n, l). n = 0 \<or> skill_flag (sk n) \<noteq> 13 \<and> \<not> lv (sk n) < l) (need e) \<and> \<not> job_lv < joblv e) \<and>
     \<not> (quest_skill_learn (config env) = 0 \<and> lv (sk (entry_id e)) = 0 \<and> odd (skill_get_inf2 env (entry_id e)))"

definition visit :: "char_env \<Rightarrow> int \<Rightarrow> skill_tree_entry \<Rightarrow> bool \<times> skills \<Rightarrow> bool \<times> skills" where
  "visit env job_lv e = (\<lambda>(flag, sk).
     let i = entry_id e in
     if skill_flag (sk i) = 13 then (flag, sk)
     else if may_learn env job_lv sk e then
       (if skill_id (sk i) = 0 then (True, set_id i i sk) else (flag, sk))
     else (if skill_id (sk i) \<noteq> 0 then (True, set_lv i 0 (set_id i 0 sk)) else (flag, set_lv i 0 sk)))"

partial_function (option) tree_loop :: "char_env \<Rightarrow> skill_tree_entry list \<Rightarrow> character \<Rightarrow> character option" where
  "tree_loop env es sd =
     (let (flag, sk) = fold (visit env (job_level sd)) es (False, skill sd); sd = sd\<lparr>skill := sk\<rparr> in
      if flag then tree_loop env es sd
      else (let (again, sd) = pc_checkmaxskill env sd in
            if again then tree_loop env es sd else Some sd))"

section \<open>The whole calculation\<close>

text \<open>While the first class is not complete, a character of a second class has only its skills.\<close>

definition first_class_of :: "int \<Rightarrow> int" where
  "first_class_of c =
     (if c \<in> {7, 13, 14, 21} then 1 else if c \<in> {8, 15} then 4 else if c \<in> {9, 16} then 2 else if c \<in> {10, 18} then 5
      else if c \<in> {11, 19, 20} then 3 else if c \<in> {12, 17} then 6 else c)"

definition pc_calc_skilltree_normalize_job :: "char_env \<Rightarrow> int \<Rightarrow> int \<Rightarrow> character \<Rightarrow> int" where
  "pc_calc_skilltree_normalize_job env c s sd =
     (if skillup_limit (config env) = 0 then c
      else (let sk = skill sd;
                skill_point = lv (sk NV_BASIC) +
                  (if quest_skill_learn (config env) \<noteq> 0 \<and> s \<noteq> 1 then lv (sk 142) + lv (sk 143) else 0)
            in if skill_point < 9 then 0
               else if c \<ge> 7 \<and> c < 23 then
                 (let c1 = first_class_of c;
                      skill_point = skill_point + sum_list (map (\<lambda>e. let i = entry_id e in
                        if i = NV_BASIC \<or> i = 142 \<or> i = 143 then 0
                        else if skill_flag (sk i) \<noteq> 13 \<and> (quest_skill_learn (config env) \<noteq> 0 \<or> \<not> odd (skill_get_inf2 env i))
                        then lv (sk i) else 0) (row env s c1))
                  in if skill_point < 9 + (previous_class_level (change_level sd) - 1) then c1 else c)
               else c))"

definition pc_calc_skilltree :: "char_env \<Rightarrow> character \<Rightarrow> character option" where
  "pc_calc_skilltree env sd = do {
     let sd = sd\<lparr>skill := reset_ids (skill sd)\<rparr>;
     let (c, s, type) = pc_calc_base_job (job_class sd);
     sd \<leftarrow>
       (if GM_level sd \<ge> gm_allskill (config env) then
          Some (no_skill_points (sd\<lparr>skill := fold (give_skill env (GM_level sd) (c = 1) True) (all_rows env) (skill sd)\<rparr>))
        else if GM_level sd \<ge> gm_all_skill_job (config env) then
          (let sk = (if skillfree (config env) = 0 then remove_invalid env s c (skill sd) else skill sd) in
           Some (no_skill_points (sd\<lparr>skill := fold (give_skill env (GM_level sd) (s = 1) False) (row env s c) sk\<rparr>)))
        else
          (let c = pc_calc_skilltree_normalize_job env c s sd;
               sk = (if skillfree (config env) = 0 then remove_invalid env s c (skill sd) else skill sd)
           in tree_loop env (row env s c) (sd\<lparr>skill := sk\<rparr>)));
     Some (pc_checkminskill env sd)}"

end
