(* ===== verification/SkillTreeData.thy ===== *)
theory SkillTreeData
  imports SkillTree
begin

text \<open>
  The data that comes with the program: the rows of \<open>src/db/skill_tree.txt\<close> as \<open>pc_readdb\<close> puts them into
  \<open>skill_tree\<close>, which skills of the rows are learned by quests (\<open>src/db/skill_db.txt\<close>), and the settings of
  \<open>src/conf-dist/battle_athena.conf\<close>. Places of \<open>need\<close> that are 0 are left out. The conditions of the theorems on
  the skill tree and on growth are shown of this data.
\<close>

definition entry :: "int \<Rightarrow> int \<Rightarrow> int \<Rightarrow> (int \<times> int) list \<Rightarrow> skill_tree_entry" where
  "entry i m l n = \<lparr>entry_id = i, entry_max = m, joblv = l, need = n\<rparr>"

definition novice_row :: "skill_tree_entry list" where
  "novice_row =
    [entry 1 9 0 [], entry 142 1 0 [], entry 143 1 0 []]"

definition swordman_row :: "skill_tree_entry list" where
  "swordman_row =
    [entry 1 9 0 [], entry 142 1 0 [], entry 2 10 0 [], entry 3 10 0 [(2, 1)], entry 4 10 0 [], entry 5 10 0 [],
     entry 6 10 0 [], entry 7 10 0 [(5, 5)], entry 8 10 0 [(6, 5)], entry 144 1 0 [], entry 145 1 0 [], entry 146 1 0 []]"

definition mage_row :: "skill_tree_entry list" where
  "mage_row =
    [entry 1 9 0 [], entry 142 1 0 [], entry 9 10 0 [], entry 10 1 0 [], entry 11 10 0 [], entry 12 10 0 [(11, 7), (13, 5)],
     entry 13 10 0 [(11, 4)], entry 14 10 0 [], entry 15 10 0 [(14, 5)], entry 16 10 0 [], entry 17 10 0 [(19, 4)],
     entry 18 10 0 [(17, 5), (10, 1)], entry 19 10 0 [], entry 20 10 0 [], entry 21 10 0 [(20, 4)], entry 157 1 0 []]"

definition archer_row :: "skill_tree_entry list" where
  "archer_row =
    [entry 1 9 0 [], entry 142 1 0 [], entry 43 10 0 [], entry 44 10 0 [(43, 3)], entry 45 10 0 [(44, 1)], entry 46 10 0 [],
     entry 47 10 0 [(46, 5)], entry 147 1 0 [], entry 148 1 0 []]"

definition acolyte_row :: "skill_tree_entry list" where
  "acolyte_row =
    [entry 1 9 0 [], entry 142 1 0 [], entry 22 10 0 [], entry 23 10 0 [(22, 3)], entry 24 1 0 [], entry 25 1 0 [(27, 4)],
     entry 26 2 0 [(24, 1)], entry 27 4 0 [(26, 2)], entry 28 10 0 [], entry 29 10 0 [(28, 3)], entry 30 10 0 [(29, 1)],
     entry 31 1 0 [], entry 32 10 0 [(23, 3)], entry 33 10 0 [(22, 3)], entry 34 10 0 [(22, 5)], entry 35 1 0 [(28, 2)],
     entry 156 1 0 []]"

definition merchant_row :: "skill_tree_entry list" where
  "merchant_row =
    [entry 1 9 0 [], entry 142 1 0 [], entry 36 10 0 [], entry 37 10 0 [(36, 3)], entry 38 10 0 [(37, 3)],
     entry 39 10 0 [(36, 5)], entry 40 1 0 [], entry 41 10 0 [(39, 3)], entry 42 10 0 [], entry 153 1 0 [], entry 154 1 0 [],
     entry 155 1 0 []]"

definition thief_row :: "skill_tree_entry list" where
  "thief_row =
    [entry 1 9 0 [], entry 142 1 0 [], entry 48 10 0 [], entry 49 10 0 [], entry 50 10 0 [], entry 51 10 0 [(50, 5)],
     entry 52 10 0 [], entry 53 1 0 [(52, 3)], entry 149 1 0 [], entry 150 1 0 [], entry 151 1 0 [], entry 152 1 0 []]"

definition knight_row :: "skill_tree_entry list" where
  "knight_row =
    swordman_row @
    [entry 55 10 0 [], entry 56 10 0 [(55, 1)], entry 57 10 0 [(63, 1), (58, 3)], entry 58 10 0 [(56, 5)],
     entry 59 5 0 [(56, 3)], entry 60 10 0 [(3, 1)], entry 61 5 0 [(3, 1)],
     entry 62 10 0 [(5, 10), (7, 3), (3, 5), (60, 10), (61, 5)], entry 63 1 0 [(8, 1)], entry 64 5 0 [(63, 1)],
     entry 1001 1 0 []]"

definition priest_row :: "skill_tree_entry list" where
  "priest_row =
    acolyte_row @
    [entry 9 10 0 [], entry 12 10 0 [(68, 4), (70, 3)], entry 54 4 0 [(72, 1), (9, 4)], entry 65 10 0 [], entry 66 5 0 [],
     entry 67 3 0 [(66, 2)], entry 68 5 0 [(31, 1), (66, 3)], entry 69 5 0 [(75, 3), (68, 5)], entry 70 10 0 [(28, 1)],
     entry 71 4 0 [], entry 72 1 0 [], entry 73 10 0 [(33, 2)], entry 74 5 0 [], entry 75 5 0 [(73, 4), (74, 3)],
     entry 76 10 0 [(24, 1)], entry 77 10 0 [(54, 1), (76, 3)], entry 78 1 0 [(76, 5)],
     entry 79 10 0 [(12, 1), (78, 1), (77, 3)], entry 1014 1 0 []]"

definition wizard_row :: "skill_tree_entry list" where
  "wizard_row =
    mage_row @
    [entry 80 10 0 [(18, 1)], entry 81 10 0 [(20, 1), (10, 1)], entry 83 10 0 [(81, 2), (21, 1)],
     entry 84 10 0 [(11, 1), (20, 1)], entry 85 10 0 [(21, 1), (84, 5)], entry 86 5 0 [(14, 1), (20, 1)],
     entry 87 10 0 [(16, 1), (15, 1)], entry 88 10 0 [(87, 1)], entry 89 10 0 [(15, 1), (84, 3)], entry 90 5 0 [(16, 1)],
     entry 91 5 0 [(90, 3)], entry 92 5 0 [(91, 1)], entry 93 1 0 []]"

definition blacksmith_row :: "skill_tree_entry list" where
  "blacksmith_row =
    merchant_row @
    [entry 94 5 0 [], entry 95 5 0 [(94, 1)], entry 96 5 0 [(94, 1)], entry 97 5 0 [(96, 1)], entry 98 3 0 [],
     entry 99 3 0 [(98, 1)], entry 100 3 0 [(99, 1)], entry 101 3 0 [(99, 2)], entry 102 3 0 [(103, 1)],
     entry 103 3 0 [(98, 1)], entry 104 3 0 [(98, 2)], entry 105 1 0 [], entry 106 1 0 [(95, 1), (105, 1)],
     entry 107 10 0 [(105, 1)], entry 108 1 0 [(107, 1)], entry 109 5 0 [], entry 110 5 0 [], entry 111 5 0 [(110, 2)],
     entry 112 5 0 [(107, 2), (111, 2)], entry 113 5 0 [(111, 3)], entry 114 5 0 [(112, 3), (113, 2)]]"

definition hunter_row :: "skill_tree_entry list" where
  "hunter_row =
    archer_row @
    [entry 115 5 0 [], entry 116 5 0 [], entry 117 5 0 [(115, 1)], entry 118 5 0 [(117, 1)], entry 119 5 0 [(120, 1)],
     entry 120 5 0 [(115, 1)], entry 121 5 0 [(120, 1)], entry 122 5 0 [(116, 1), (119, 1), (121, 1)],
     entry 123 5 0 [(118, 1), (122, 1)], entry 124 1 0 [(116, 1)], entry 125 1 0 [(118, 1), (124, 1)], entry 126 10 0 [],
     entry 127 1 0 [(126, 1)], entry 128 10 0 [(129, 5)], entry 129 5 0 [(127, 1)], entry 130 4 0 [(45, 1), (127, 1)],
     entry 131 5 0 [(124, 1), (127, 1)], entry 1009 1 0 []]"

definition assassin_row :: "skill_tree_entry list" where
  "assassin_row =
    thief_row @
    [entry 132 5 0 [], entry 133 5 0 [(132, 2)], entry 134 10 0 [], entry 135 10 0 [(51, 2)], entry 136 10 0 [(134, 4)],
     entry 137 5 0 [(135, 2), (136, 5)], entry 138 10 0 [(52, 1)], entry 139 10 0 [(138, 3)], entry 140 10 0 [(138, 5)],
     entry 141 10 0 [(139, 5), (140, 5)], entry 1003 1 0 []]"

definition knight_riding_row :: "skill_tree_entry list" where
  "knight_riding_row =
    swordman_row @
    [entry 55 10 0 [], entry 56 10 0 [(55, 1)], entry 57 10 0 [(63, 1), (58, 3)], entry 58 10 0 [(56, 5)],
     entry 59 5 0 [(56, 3)], entry 60 10 0 [(3, 1)], entry 61 5 0 [(3, 1)],
     entry 62 10 0 [(5, 10), (7, 3), (3, 5), (60, 10), (61, 5)], entry 63 1 0 [(8, 1)], entry 64 5 0 [(63, 1)],
     entry 1001 1 0 []]"

definition crusader_row :: "skill_tree_entry list" where
  "crusader_row =
    swordman_row @
    [entry 63 1 0 [(8, 1)], entry 64 5 0 [(63, 1)], entry 55 10 0 [], entry 35 1 0 [(248, 5)], entry 22 10 0 [(35, 1)],
     entry 23 10 0 [(22, 3)], entry 28 10 0 [(23, 5), (248, 10)], entry 248 10 0 [], entry 249 10 0 [],
     entry 250 5 0 [(249, 5)], entry 251 5 0 [(250, 3)], entry 252 10 0 [(251, 3)], entry 253 10 0 [(248, 7)],
     entry 254 10 0 [(253, 6), (248, 10)], entry 255 5 0 [(252, 5), (254, 4)], entry 256 5 0 [(22, 5), (28, 5)],
     entry 257 5 0 [(251, 1)], entry 258 10 0 [(55, 10)]]"

definition monk_row :: "skill_tree_entry list" where
  "monk_row =
    acolyte_row @
    [entry 259 10 0 [(23, 10), (22, 10)], entry 260 5 0 [(269, 2)], entry 261 5 0 [(259, 2)], entry 262 1 0 [(261, 5)],
     entry 263 10 0 [(265, 5)], entry 264 1 0 [(271, 3), (260, 2), (268, 3)], entry 265 10 0 [(259, 5), (261, 5)],
     entry 266 5 0 [(261, 5)], entry 267 5 0 [(266, 3)], entry 268 5 0 [(273, 3)], entry 269 5 0 [(265, 5)],
     entry 270 5 0 [(262, 1)], entry 271 5 0 [(270, 3), (267, 3)], entry 272 5 0 [(263, 5)], entry 273 5 0 [(272, 3)]]"

definition sage_row :: "skill_tree_entry list" where
  "sage_row =
    mage_row @
    [entry 93 1 0 [], entry 90 5 0 [(283, 1)], entry 91 5 0 [(90, 1)], entry 274 10 0 [], entry 275 5 0 [(274, 2)],
     entry 276 5 0 [(274, 4)], entry 277 5 0 [(276, 1)], entry 278 10 0 [(275, 1)], entry 279 10 0 [(278, 4)],
     entry 280 5 0 [(19, 1), (274, 5)], entry 281 5 0 [(14, 1), (274, 5)], entry 282 5 0 [(20, 1), (274, 5)],
     entry 283 5 0 [(16, 1), (274, 5)], entry 284 5 0 [(274, 9)], entry 285 5 0 [(280, 2)], entry 286 5 0 [(281, 2)],
     entry 287 5 0 [(282, 2)], entry 288 5 0 [(285, 3), (286, 3), (287, 3)], entry 289 5 0 [(277, 3)],
     entry 290 10 0 [(279, 5), (289, 1), (288, 1)]]"

definition rogue_row :: "skill_tree_entry list" where
  "rogue_row =
    thief_row @
    [entry 2 10 0 [], entry 44 10 0 [], entry 46 10 0 [(44, 10)], entry 124 1 0 [(46, 5)], entry 210 10 0 [(50, 1)],
     entry 211 10 0 [(210, 4)], entry 212 10 0 [(211, 4)], entry 213 5 0 [(51, 1)], entry 214 5 0 [(212, 2), (213, 2)],
     entry 215 5 0 [(217, 5)], entry 216 5 0 [(218, 5)], entry 217 5 0 [(216, 5)], entry 218 5 0 [(211, 2)],
     entry 219 5 0 [(212, 4), (214, 5)], entry 220 1 0 [(221, 5)], entry 221 5 0 [(222, 1)], entry 222 1 0 [(223, 1)],
     entry 223 1 0 [(216, 3)], entry 224 5 0 [(223, 1)], entry 225 10 0 [(219, 5)]]"

definition alchemist_row :: "skill_tree_entry list" where
  "alchemist_row =
    merchant_row @
    [entry 226 10 0 [], entry 227 10 0 [], entry 228 10 0 [(227, 5)], entry 229 5 0 [(228, 4)], entry 230 5 0 [(228, 5)],
     entry 231 5 0 [(228, 3)], entry 232 5 0 [(228, 6)], entry 233 5 0 [(228, 2)], entry 234 5 0 [(236, 3)],
     entry 235 5 0 [(237, 3)], entry 236 5 0 [(235, 3)], entry 237 5 0 [(228, 2)]]"

definition bard_row :: "skill_tree_entry list" where
  "bard_row =
    archer_row @
    [entry 315 10 0 [], entry 316 5 0 [(315, 3)], entry 317 5 0 [(315, 1), (304, 1)], entry 318 5 0 [(305, 1)],
     entry 319 10 0 [(317, 3)], entry 320 10 0 [(317, 3)], entry 321 10 0 [(317, 3)], entry 322 10 0 [(317, 3)],
     entry 304 1 0 [], entry 305 1 0 [(304, 1)], entry 306 1 0 [(319, 10)], entry 307 5 0 [(313, 3)], entry 308 1 0 [(311, 1)],
     entry 309 5 0 [(322, 10)], entry 310 5 0 [(309, 3)], entry 311 1 0 [(320, 10)], entry 312 1 0 [(306, 1)],
     entry 313 5 0 [(321, 10)]]"

definition dancer_row :: "skill_tree_entry list" where
  "dancer_row =
    archer_row @
    [entry 323 10 0 [], entry 324 5 0 [(323, 3)], entry 325 5 0 [(323, 1), (304, 1)], entry 326 5 0 [(305, 1)],
     entry 327 10 0 [(325, 3)], entry 328 10 0 [(325, 3)], entry 329 10 0 [(325, 3)], entry 330 10 0 [(325, 3)],
     entry 304 1 0 [], entry 305 1 0 [(304, 1)], entry 306 1 0 [(327, 10)], entry 307 5 0 [(313, 3)], entry 308 1 0 [(311, 1)],
     entry 309 5 0 [(330, 10)], entry 310 5 0 [(309, 3)], entry 311 1 0 [(328, 10)], entry 312 1 0 [(306, 1)],
     entry 313 5 0 [(329, 10)]]"

definition crusader_riding_row :: "skill_tree_entry list" where
  "crusader_riding_row =
    swordman_row @
    [entry 63 1 0 [(8, 1)], entry 64 5 0 [(63, 1)], entry 55 10 0 [], entry 35 1 0 [(248, 5)], entry 22 10 0 [(35, 1)],
     entry 23 10 0 [(22, 3)], entry 28 10 0 [(23, 5), (248, 10)], entry 248 10 0 [], entry 249 10 0 [],
     entry 250 5 0 [(249, 5)], entry 251 5 0 [(250, 3)], entry 252 10 0 [(251, 3)], entry 253 10 0 [(248, 7)],
     entry 254 10 0 [(253, 6), (248, 10)], entry 255 5 0 [(252, 5), (254, 4)], entry 256 5 0 [(22, 5), (28, 5)],
     entry 257 5 0 [(251, 1)], entry 258 10 0 [(55, 10)]]"

definition wedding_row :: "skill_tree_entry list" where
  "wedding_row =
    [entry 1 9 0 [], entry 142 1 0 [], entry 334 1 0 [], entry 335 5 0 [], entry 336 5 0 []]"

definition super_novice_row :: "skill_tree_entry list" where
  "super_novice_row =
    [entry 1 9 0 [], entry 142 1 0 [], entry 2 10 0 [], entry 4 10 0 [], entry 5 10 0 [], entry 6 10 0 [],
     entry 7 10 0 [(5, 5)], entry 8 10 0 [(6, 5)], entry 9 10 0 [], entry 10 1 0 [], entry 11 10 0 [],
     entry 12 10 0 [(11, 7), (13, 5)], entry 13 10 0 [(11, 4)], entry 14 10 0 [], entry 15 10 0 [(14, 5)], entry 16 10 0 [],
     entry 17 10 0 [(19, 4)], entry 18 10 0 [(17, 5), (10, 1)], entry 19 10 0 [], entry 20 10 0 [], entry 21 10 0 [(20, 4)],
     entry 22 10 0 [], entry 23 10 0 [(22, 3)], entry 24 1 0 [], entry 25 1 0 [(27, 4)], entry 26 2 0 [(24, 1)],
     entry 27 4 0 [(26, 2)], entry 28 10 0 [], entry 29 10 0 [(28, 3)], entry 30 10 0 [(29, 1)], entry 31 1 0 [],
     entry 32 10 0 [(23, 3)], entry 33 10 0 [(22, 3)], entry 34 10 0 [(22, 5)], entry 35 1 0 [(28, 2)], entry 36 10 0 [],
     entry 37 10 0 [(36, 3)], entry 38 10 0 [(37, 3)], entry 39 10 0 [(36, 5)], entry 40 1 0 [], entry 41 10 0 [(39, 3)],
     entry 42 10 0 [], entry 43 10 0 [], entry 44 10 0 [(43, 3)], entry 45 10 0 [(44, 1)], entry 48 10 0 [], entry 49 10 0 [],
     entry 50 10 0 [], entry 51 10 0 [(50, 5)], entry 52 10 0 [], entry 53 1 0 [(52, 3)]]"

definition high_knight_row :: "skill_tree_entry list" where
  "high_knight_row =
    knight_row @
    [entry 355 5 0 [(7, 3), (3, 5)], entry 356 10 0 [(3, 10), (6, 5), (60, 3)], entry 357 5 0 [(4, 1), (55, 5), (63, 1)],
     entry 358 1 0 [(4, 10), (8, 3)], entry 359 1 50 [], entry 397 5 0 [(55, 10), (58, 5), (63, 1)],
     entry 398 5 0 [(55, 9), (63, 1)], entry 399 10 0 [(64, 3), (398, 3)]]"

definition high_priest_row :: "skill_tree_entry list" where
  "high_priest_row =
    take 26 priest_row @
    [entry 71 4 0 [(72, 1)], entry 72 1 0 [], entry 73 10 0 [(33, 2)], entry 74 5 0 [], entry 75 5 0 [(73, 4), (74, 3)],
     entry 76 10 0 [(24, 1)], entry 77 10 0 [(54, 1), (76, 3)], entry 78 1 0 [(76, 5)],
     entry 79 10 0 [(12, 1), (78, 1), (77, 3)], entry 1014 1 0 [], entry 361 5 0 [(33, 1), (9, 3), (66, 3)],
     entry 362 5 0 [(75, 2), (9, 1), (73, 3)], entry 363 10 0 [(68, 3), (9, 5), (76, 5)], entry 481 5 0 [(65, 10), (23, 10)]]"

definition high_wizard_row :: "skill_tree_entry list" where
  "high_wizard_row =
    wizard_row @
    [entry 364 10 0 [(9, 5), (13, 7)], entry 365 1 0 [(9, 1)], entry 366 10 0 [], entry 400 5 0 [(11, 5)],
     entry 483 1 0 [(93, 1), (87, 1)], entry 484 5 0 [(365, 1), (366, 10), (92, 1)]]"

definition high_blacksmith_row :: "skill_tree_entry list" where
  "high_blacksmith_row =
    blacksmith_row @
    [entry 384 10 0 [(109, 3), (105, 1), (107, 5), (113, 3)], entry 387 1 0 [(39, 5), (153, 1), (154, 1), (105, 1)],
     entry 477 10 0 [(107, 10)], entry 485 10 0 [(42, 10), (110, 5), (387, 1)], entry 486 5 0 [(113, 5)]]"

definition high_hunter_row :: "skill_tree_entry list" where
  "high_hunter_row =
    hunter_row @
    [entry 380 10 0 [(43, 10), (44, 10), (45, 10), (127, 1)], entry 381 5 0 [(128, 3), (44, 10), (129, 5), (127, 1)],
     entry 382 5 0 [(45, 10), (46, 5)], entry 383 10 0 [(45, 9)]]"

definition high_assassin_row :: "skill_tree_entry list" where
  "high_assassin_row =
    take 22 assassin_row @
    [entry 376 5 0 [(48, 5), (134, 7)], entry 378 5 0 [(407, 1)], entry 379 10 0 [(48, 5), (135, 3), (138, 6), (52, 5)],
     entry 406 10 0 [(132, 3), (134, 5), (136, 5), (379, 1)], entry 407 1 0 [(52, 10), (53, 1), (138, 5)], entry 1003 1 0 []]"

definition high_knight_riding_row :: "skill_tree_entry list" where
  "high_knight_riding_row =
    knight_riding_row @
    [entry 355 5 0 [(7, 3), (3, 5)], entry 356 10 0 [(3, 10), (6, 5), (60, 3)], entry 357 5 0 [(4, 1), (55, 5), (63, 1)],
     entry 358 1 0 [(4, 10), (8, 3)], entry 359 1 50 [], entry 397 5 0 [(55, 10), (58, 5), (63, 1)],
     entry 398 5 0 [(55, 9), (63, 1)], entry 399 10 0 [(64, 3), (398, 3)]]"

definition high_crusader_row :: "skill_tree_entry list" where
  "high_crusader_row =
    crusader_row @
    [entry 367 5 0 [(8, 5), (248, 5), (250, 2)], entry 368 5 0 [(8, 5), (248, 5), (255, 3)],
     entry 369 10 0 [(248, 8), (22, 3), (23, 5)], entry 480 5 0 [(251, 5)]]"

definition high_monk_row :: "skill_tree_entry list" where
  "high_monk_row =
    monk_row @
    [entry 370 5 0 [(259, 7), (261, 5)], entry 371 5 0 [(259, 5), (263, 5), (261, 5), (273, 3)],
     entry 372 10 0 [(259, 5), (261, 5), (371, 2)], entry 401 1 0 [(261, 5), (262, 1), (270, 5)]]"

definition high_sage_row :: "skill_tree_entry list" where
  "high_sage_row =
    take 11 sage_row @
    [entry 18 10 0 [(10, 1), (17, 5)], entry 19 10 0 [], entry 20 10 0 [], entry 21 10 0 [(20, 4)], entry 90 5 0 [(283, 1)],
     entry 91 5 0 [(90, 1)], entry 93 1 0 [], entry 157 1 0 [], entry 274 10 0 [], entry 275 5 0 [(274, 2)],
     entry 276 5 0 [(274, 4)], entry 277 5 0 [(276, 1)], entry 278 10 0 [(275, 1)], entry 279 10 0 [(278, 4)],
     entry 280 5 0 [(19, 1), (274, 5)], entry 281 5 0 [(14, 1), (274, 5)], entry 282 5 0 [(20, 1), (274, 5)],
     entry 283 5 0 [(16, 1), (274, 5)], entry 284 5 0 [(274, 9)], entry 285 5 0 [(280, 2)], entry 286 5 0 [(281, 2)],
     entry 287 5 0 [(282, 2)], entry 288 5 0 [(285, 3), (286, 3), (287, 3)], entry 289 5 0 [(277, 3)],
     entry 290 10 0 [(279, 5), (288, 1), (289, 1)], entry 373 5 0 [(9, 1), (276, 1)], entry 374 1 0 [(276, 3), (277, 2)],
     entry 375 5 0 [(275, 5), (276, 3), (277, 3)], entry 402 5 0 [(9, 3), (289, 2)],
     entry 403 1 0 [(274, 5), (278, 5), (279, 1)], entry 404 1 0 [(286, 2), (287, 2)], entry 405 1 0 [(284, 4)],
     entry 482 5 0 [(279, 1)]]"

definition high_rogue_row :: "skill_tree_entry list" where
  "high_rogue_row =
    rogue_row @
    [entry 389 5 0 [(51, 5), (213, 3)], entry 390 5 0 [(215, 1)], entry 475 1 0 [(225, 10)],
     entry 476 5 0 [(215, 5), (216, 5), (217, 5), (218, 5)]]"

definition high_alchemist_row :: "skill_tree_entry list" where
  "high_alchemist_row =
    alchemist_row @
    [entry 478 10 0 [(231, 5)], entry 479 5 0 [(234, 5), (235, 5), (236, 5), (237, 5)], entry 490 10 0 [(229, 5), (230, 5)]]"

definition high_bard_row :: "skill_tree_entry list" where
  "high_bard_row =
    bard_row @
    [entry 314 1 0 [(312, 1), (308, 1)], entry 394 10 0 [(47, 5), (316, 1)], entry 395 5 0 [(45, 5), (315, 7)],
     entry 396 1 0 [(45, 5), (315, 5)], entry 487 5 0 [(315, 10), (396, 1)], entry 488 5 0 [(45, 10), (315, 10)],
     entry 489 5 0 [(45, 10), (317, 3)]]"

definition high_dancer_row :: "skill_tree_entry list" where
  "high_dancer_row =
    dancer_row @
    [entry 314 1 0 [(312, 1), (308, 1)], entry 394 10 0 [(47, 5), (324, 1)], entry 395 5 0 [(45, 5), (323, 7)],
     entry 396 1 0 [(45, 5), (323, 5)], entry 487 5 0 [(323, 10), (396, 1)], entry 488 5 0 [(45, 10), (323, 10)],
     entry 489 5 0 [(45, 10), (325, 3)]]"

definition high_crusader_riding_row :: "skill_tree_entry list" where
  "high_crusader_riding_row =
    crusader_riding_row @
    [entry 367 5 0 [(8, 5), (248, 5), (250, 2)], entry 368 5 0 [(8, 5), (248, 5), (255, 3)],
     entry 369 10 0 [(248, 8), (22, 3), (23, 5)], entry 480 5 0 [(251, 5)]]"

definition baby_bard_row :: "skill_tree_entry list" where
  "baby_bard_row =
    bard_row @
    [entry 314 1 0 [(312, 1), (308, 1)]]"

definition baby_super_novice_row :: "skill_tree_entry list" where
  "baby_super_novice_row =
    take 34 super_novice_row @
    [entry 35 1 0 [], entry 36 10 0 [], entry 37 10 0 [(36, 3)], entry 38 10 0 [(37, 3)], entry 39 10 0 [(36, 5)],
     entry 40 1 0 [], entry 41 10 0 [(39, 3)], entry 42 10 0 [], entry 43 10 0 [], entry 44 10 0 [(43, 3)],
     entry 45 10 0 [(44, 1)], entry 48 10 0 [], entry 49 10 0 [], entry 50 10 0 [], entry 51 10 0 [(50, 5)], entry 52 10 0 [],
     entry 53 1 0 [(52, 3)]]"

definition nezumi_rows :: "skill_tree_entry list list list" where
  "nezumi_rows = [
    [novice_row, swordman_row, mage_row, archer_row, acolyte_row, merchant_row, thief_row, knight_row, priest_row, wizard_row,
     blacksmith_row, hunter_row, assassin_row, knight_riding_row, crusader_row, monk_row, sage_row, rogue_row, alchemist_row,
     bard_row, dancer_row, crusader_riding_row, wedding_row, super_novice_row],
    [novice_row, swordman_row, mage_row, archer_row, acolyte_row, merchant_row, thief_row, high_knight_row, high_priest_row,
     high_wizard_row, high_blacksmith_row, high_hunter_row, high_assassin_row, high_knight_riding_row, high_crusader_row,
     high_monk_row, high_sage_row, high_rogue_row, high_alchemist_row, high_bard_row, high_dancer_row,
     high_crusader_riding_row, [], []],
    [novice_row, swordman_row, mage_row, archer_row, acolyte_row, merchant_row, thief_row, knight_row, take 35 priest_row,
     wizard_row, blacksmith_row, hunter_row, assassin_row, knight_riding_row, crusader_row, monk_row, sage_row, rogue_row,
     alchemist_row, baby_bard_row, dancer_row, crusader_riding_row, [], baby_super_novice_row]]"

definition nezumi_tree :: "int \<Rightarrow> int \<Rightarrow> skill_tree_entry list" where
  "nezumi_tree s c = (if 0 \<le> s \<and> s < 3 \<and> 0 \<le> c \<and> c < 24 then nezumi_rows ! nat s ! nat c else [])"

definition quest_skills :: "int list" where
  "quest_skills =
    [142, 143, 144, 145, 146, 147, 148, 149, 150, 151, 152, 153, 154, 155, 156, 157, 1001, 1003, 1009, 1014]"

text \<open>Of \<open>inf2\<close> the calculation reads the bit of quests alone.\<close>

definition nezumi_inf2 :: "int \<Rightarrow> int" where
  "nezumi_inf2 i = (if i \<in> set quest_skills then 1 else 0)"

definition nezumi_config :: battle_config where
  "nezumi_config = \<lparr>gm_allskill = 100, gm_all_skill_job = 60, gm_all_skill_platinum = 0, skillfree = 0, skillup_limit = 1,
     quest_skill_learn = 0, quest_skill_reset = 0, check_minimum_skill_points = 1, check_maximum_skill_points = - 1,
     max_parameter = 99, maximum_level = 255, multi_level_up = 0, pvp_exp = 1\<rparr>"

text \<open>The lines of \<open>src/db/statpoint.txt\<close>: a level gives a fifth of itself, and three.\<close>

fun nezumi_statp :: "nat \<Rightarrow> int" where
  "nezumi_statp 0 = 48"
| "nezumi_statp (Suc n) = nezumi_statp n + (int n + 16) div 5"

text \<open>With settings \<open>conf\<close>, and 100 points of experience for each level.\<close>

definition nezumi_env :: "battle_config \<Rightarrow> char_env" where
  "nezumi_env conf = \<lparr>skill_tree = nezumi_tree, skill_get_inf2 = nezumi_inf2, skill_get_max = (\<lambda>_. 10), exp_table = (\<lambda>_ _. 100),
     statp = (\<lambda>i. nezumi_statp (nat i)), config = conf\<rparr>"

end
