(* ===== verification/SkillTreeProofs.thy ===== *)
theory SkillTreeProofs
  imports SkillTreeData
begin

text \<open>
  The calculation of the skill tree ends, and what it leaves: no skill without the skills it needs, and no more and no
  fewer points than the character has had.
\<close>

section \<open>What the calculation leaves alone\<close>

definition other_fields :: "character \<Rightarrow> character" where
  "other_fields sd = sd\<lparr>skill := (\<lambda>_. \<lparr>skill_id = 0, lv = 0, skill_flag = 0\<rparr>), skill_point := 0, sent := []\<rparr>"

lemma other_fields_simps [simp]:
  "other_fields (say m sd) = other_fields sd" "other_fields (sd\<lparr>skill := sk\<rparr>) = other_fields sd"
  "other_fields (sd\<lparr>skill_point := p\<rparr>) = other_fields sd" "other_fields (no_skill_points sd) = other_fields sd"
  by (simp_all add: other_fields_def say_def no_skill_points_def)

lemma other_fields_checkmin [simp]: "other_fields (pc_checkminskill env sd) = other_fields sd"
  by (simp add: pc_checkminskill_def Let_def)

lemma other_fields_checkmax: "other_fields (snd (pc_checkmaxskill env sd)) = other_fields sd"
  by (simp add: pc_checkmaxskill_def Let_def)

lemma tree_loop_other:
  assumes "tree_loop env es sd = Some sd'"
  shows "other_fields sd' = other_fields sd"
proof (rule tree_loop.raw_induct [where P = "\<lambda>env es sd sd'. other_fields sd' = other_fields sd", OF _ assms])
  fix loop env es sd sd'
  assume IH: "\<And>env es sd sd'. loop env es sd = Some sd' \<Longrightarrow> other_fields sd' = other_fields sd"
    and step: "(let (flag, sk) = fold (visit env (job_level sd)) es (False, skill sd); sd = sd\<lparr>skill := sk\<rparr> in
      if flag then loop env es sd
      else (let (again, sd) = pc_checkmaxskill env sd in if again then loop env es sd else Some sd)) = Some sd'"
  obtain flag sk where f: "fold (visit env (job_level sd)) es (False, skill sd) = (flag, sk)" by force
  obtain again sd2 where c: "pc_checkmaxskill env (sd\<lparr>skill := sk\<rparr>) = (again, sd2)" by force
  have "other_fields sd2 = other_fields sd" using other_fields_checkmax [of env "sd\<lparr>skill := sk\<rparr>"] c by simp
  then show "other_fields sd' = other_fields sd"
    using step f c IH [of env es "sd\<lparr>skill := sk\<rparr>" sd'] IH [of env es sd2 sd'] by (auto simp: Let_def split: if_splits)
qed

lemma pc_calc_skilltree_other: "pc_calc_skilltree env sd = Some sd' \<Longrightarrow> other_fields sd' = other_fields sd"
  unfolding pc_calc_skilltree_def
  by (auto simp: Let_def bind_eq_Some_conv split: if_splits prod.splits dest!: tree_loop_other)

section \<open>A pass over the tree\<close>

text \<open>Levels only fall, to 0, and only in the row; what may be learned falls with them.\<close>

definition below :: "skills \<Rightarrow> skills \<Rightarrow> bool" where
  "below sk' sk \<longleftrightarrow> (\<forall>i. lv (sk' i) \<le> lv (sk i) \<and> skill_flag (sk' i) = skill_flag (sk i))"

lemma below_refl [simp]: "below sk sk"
  by (simp add: below_def)

lemma below_trans: "below a b \<Longrightarrow> below b c \<Longrightarrow> below a c"
  unfolding below_def by (metis order_trans)

lemma belowD: "below sk' sk \<Longrightarrow> lv (sk' i) \<le> lv (sk i)" "below sk' sk \<Longrightarrow> skill_flag (sk' i) = skill_flag (sk i)"
  unfolding below_def by blast+

lemma set_lv_simps [simp]:
  "lv (set_lv i l sk j) = (if j = i then l else lv (sk j))" "skill_id (set_lv i l sk j) = skill_id (sk j)"
  "skill_flag (set_lv i l sk j) = skill_flag (sk j)"
  "lv (set_id i n sk j) = lv (sk j)" "skill_id (set_id i n sk j) = (if j = i then n else skill_id (sk j))"
  "skill_flag (set_id i n sk j) = skill_flag (sk j)"
  by (simp_all add: set_lv_def set_id_def)

lemma may_learn_mono:
  assumes b: "below sk' sk" and m: "may_learn env jl sk' e" and pos: "0 \<le> lv (sk' (entry_id e))"
  shows "may_learn env jl sk e"
proof -
  have lv: "lv (sk' i) \<le> lv (sk i)" and fl: "skill_flag (sk' i) = skill_flag (sk i)" for i
    using belowD [OF b] by blast+
  have need: "list_all (\<lambda>(n, l). n = 0 \<or> skill_flag (sk n) \<noteq> 13 \<and> \<not> lv (sk n) < l) ns"
    if "list_all (\<lambda>(n, l). n = 0 \<or> skill_flag (sk' n) \<noteq> 13 \<and> \<not> lv (sk' n) < l) ns" for ns
    using that
  proof (rule list.pred_mono_strong)
    fix z :: "int \<times> int"
    assume "case z of (n, l) \<Rightarrow> n = 0 \<or> skill_flag (sk' n) \<noteq> 13 \<and> \<not> lv (sk' n) < l"
    then show "case z of (n, l) \<Rightarrow> n = 0 \<or> skill_flag (sk n) \<noteq> 13 \<and> \<not> lv (sk n) < l"
      using lv [of "fst z"] fl [of "fst z"] by (cases z) auto
  qed
  have "lv (sk' (entry_id e)) = 0" if "lv (sk (entry_id e)) = 0"
    using that lv [of "entry_id e"] pos by simp
  then show ?thesis using m need unfolding may_learn_def by blast
qed

lemma may_learn_cong:
  assumes "\<And>i. lv (sk' i) = lv (sk i)" "\<And>i. skill_flag (sk' i) = skill_flag (sk i)"
  shows "may_learn env jl sk' e = may_learn env jl sk e"
  by (simp add: may_learn_def assms)

definition levels_ok :: "skills \<Rightarrow> bool" where
  "levels_ok sk \<longleftrightarrow> (\<forall>i. 0 \<le> lv (sk i))"

lemma outside_e: "distinct (map entry_id (e # es)) \<Longrightarrow> x \<in> set es \<Longrightarrow> entry_id x \<noteq> entry_id e"
  by auto (metis image_eqI)

text \<open>A single visit.\<close>

lemma visit_step:
  assumes v: "visit env jl e (f, sk) = (f', sk')" and ok: "levels_ok sk"
  shows "below sk' sk" "levels_ok sk'" "f \<Longrightarrow> f'"
    "i \<noteq> entry_id e \<Longrightarrow> sk' i = sk i"
    "skill_flag (sk (entry_id e)) \<noteq> 13 \<Longrightarrow>
       skill_id (sk' (entry_id e)) = (if may_learn env jl sk e then (if skill_id (sk (entry_id e)) = 0 then entry_id e else skill_id (sk (entry_id e))) else 0) \<and>
       lv (sk' (entry_id e)) = (if may_learn env jl sk e then lv (sk (entry_id e)) else 0)"
    "skill_flag (sk (entry_id e)) = 13 \<Longrightarrow> sk' = sk \<and> f' = f"
    "f' \<noteq> f \<Longrightarrow> f' \<and> skill_flag (sk (entry_id e)) \<noteq> 13 \<and> (may_learn env jl sk e \<longleftrightarrow> skill_id (sk (entry_id e)) = 0)"
    "\<not> f' \<Longrightarrow> skill_flag (sk (entry_id e)) \<noteq> 13 \<Longrightarrow> (may_learn env jl sk e \<longleftrightarrow> skill_id (sk (entry_id e)) \<noteq> 0)"
  using v ok by (auto simp: visit_def Let_def below_def levels_ok_def set_lv_def set_id_def split: if_splits)

definition pass :: "char_env \<Rightarrow> int \<Rightarrow> skill_tree_entry list \<Rightarrow> bool \<times> skills \<Rightarrow> bool \<times> skills" where
  "pass env jl es = fold (visit env jl) es"

lemma pass_below:
  assumes "pass env jl es (f, sk) = (f', sk')" "levels_ok sk"
  shows "below sk' sk \<and> levels_ok sk' \<and> (f \<longrightarrow> f') \<and> (\<forall>i. i \<notin> entry_id ` set es \<longrightarrow> sk' i = sk i) \<and>
    (\<forall>i. skill_id (sk' i) \<in> {0, i, skill_id (sk i)})"
  using assms
proof (induction es arbitrary: f sk)
  case (Cons e es)
  obtain f1 sk1 where v: "visit env jl e (f, sk) = (f1, sk1)" by force
  note step = visit_step [OF v Cons.prems(2)]
  have "pass env jl es (f1, sk1) = (f', sk')" using Cons.prems(1) v by (simp add: pass_def)
  note IH = Cons.IH [OF this step(2)]
  have "skill_id (sk1 i) \<in> {0, i, skill_id (sk i)}" for i
    using step(4,5,6) by (cases "i = entry_id e"; cases "skill_flag (sk (entry_id e)) = 13") auto
  then have "skill_id (sk' i) \<in> {0, i, skill_id (sk i)}" for i
    using IH by (metis insert_iff)
  then show ?case using IH step(1,3,4) below_trans by auto
qed (simp add: pass_def)

text \<open>
  When a pass changes no level, each entry is judged by the same levels; afterwards the numbers say just what may be
  learned, and the pass reports a change when they did not before.
\<close>

definition agrees :: "char_env \<Rightarrow> int \<Rightarrow> skill_tree_entry list \<Rightarrow> skills \<Rightarrow> bool" where
  "agrees env jl es sk \<longleftrightarrow> (\<forall>e \<in> set es. skill_flag (sk (entry_id e)) \<noteq> 13 \<longrightarrow>
     (skill_id (sk (entry_id e)) \<noteq> 0 \<longleftrightarrow> may_learn env jl sk e))"

lemma pass_same_levels:
  assumes "pass env jl es (f, sk) = (f', sk')" "levels_ok sk" "\<And>i. lv (sk' i) = lv (sk i)"
    "distinct (map entry_id es)" "\<forall>e \<in> set es. 0 < entry_id e"
  shows "agrees env jl es sk' \<and> (agrees env jl es sk \<longrightarrow> f' = f)"
  using assms
proof (induction es arbitrary: f sk)
  case Nil
  then show ?case by (simp add: pass_def agrees_def)
next
  case (Cons e es)
  obtain f1 sk1 where v: "visit env jl e (f, sk) = (f1, sk1)" by force
  note step = visit_step [OF v Cons.prems(2)]
  have rest: "pass env jl es (f1, sk1) = (f', sk')" using Cons.prems(1) v by (simp add: pass_def)
  note below = pass_below [OF rest step(2)]
  have lv1: "lv (sk1 i) = lv (sk i)" "lv (sk' i) = lv (sk1 i)" for i
    using belowD(1) [OF step(1), of i] below belowD(1) [of sk' sk1 i] Cons.prems(3) [of i] by auto
  have fl: "skill_flag (sk1 i) = skill_flag (sk i)" "skill_flag (sk' i) = skill_flag (sk i)" for i
    using belowD(2) [OF step(1)] below belowD(2) [of sk' sk1] by auto
  have may: "may_learn env jl sk' x = may_learn env jl sk x" "may_learn env jl sk1 x = may_learn env jl sk x" for x
    by (intro may_learn_cong; simp add: lv1 fl)+
  have IH: "agrees env jl es sk'" "agrees env jl es sk1 \<longrightarrow> f' = f1"
    using Cons.IH [OF rest step(2) lv1(2)] Cons.prems(4,5) by auto
  have e: "sk' (entry_id e) = sk1 (entry_id e)" "0 < entry_id e"
    using below Cons.prems(4,5) by auto
  have "agrees env jl (e # es) sk'"
    using IH(1) step(5) e fl may by (auto simp: agrees_def)
  moreover have "f' = f" if "agrees env jl (e # es) sk"
  proof -
    have "f1 = f" using step(7) that by (auto simp: agrees_def)
    moreover have "agrees env jl es sk1"
      using that step(4) [OF outside_e [OF Cons.prems(4)]] may fl by (auto simp: agrees_def)
    ultimately show ?thesis using IH(2) by simp
  qed
  ultimately show ?case by blast
qed

text \<open>When nothing that may not be learned has a level, a pass without a change changes nothing.\<close>

definition no_lost_levels :: "skill_tree_entry list \<Rightarrow> skills \<Rightarrow> bool" where
  "no_lost_levels es sk \<longleftrightarrow> (\<forall>e \<in> set es. skill_flag (sk (entry_id e)) \<noteq> 13 \<longrightarrow> skill_id (sk (entry_id e)) = 0 \<longrightarrow> lv (sk (entry_id e)) = 0)"

lemma pass_no_lost_levels:
  assumes "pass env jl es (f, sk) = (f', sk')" "levels_ok sk" "distinct (map entry_id es)" "\<forall>e \<in> set es. 0 < entry_id e"
  shows "no_lost_levels es sk'"
  using assms
proof (induction es arbitrary: f sk)
  case (Cons e es)
  obtain f1 sk1 where v: "visit env jl e (f, sk) = (f1, sk1)" by force
  note step = visit_step [OF v Cons.prems(2)]
  have rest: "pass env jl es (f1, sk1) = (f', sk')" using Cons.prems(1) v by (simp add: pass_def)
  note below = pass_below [OF rest step(2)]
  have "sk' (entry_id e) = sk1 (entry_id e)" "0 < entry_id e" using below Cons.prems(3,4) by auto
  moreover have "skill_flag (sk1 i) = skill_flag (sk i)" for i using belowD(2) [OF step(1)] .
  ultimately show ?case
    using Cons.IH [OF rest step(2)] Cons.prems(3,4) step(5) by (auto simp: no_lost_levels_def split: if_splits)
qed (simp add: no_lost_levels_def pass_def)

lemma pass_quiet:
  assumes "pass env jl es (False, sk) = (False, sk')" "levels_ok sk" "no_lost_levels es sk"
    "distinct (map entry_id es)" "\<forall>e \<in> set es. 0 < entry_id e"
  shows "\<forall>i. lv (sk' i) = lv (sk i)"
  using assms
proof (induction es arbitrary: sk)
  case (Cons e es)
  obtain f1 sk1 where v: "visit env jl e (False, sk) = (f1, sk1)" by force
  note step = visit_step [OF v Cons.prems(2)]
  have rest: "pass env jl es (f1, sk1) = (False, sk')" using Cons.prems(1) v by (simp add: pass_def)
  have f1: "\<not> f1" using pass_below [OF rest step(2)] by auto
  have same: "lv (sk1 i) = lv (sk i)" for i
  proof (cases "i = entry_id e")
    case True
    then show ?thesis
      using step(5,6) step(8) [OF f1] Cons.prems(3) by (cases "skill_flag (sk i) = 13") (auto simp: no_lost_levels_def)
  qed (use step(4) in simp)
  have "no_lost_levels es sk1"
    using Cons.prems(3) step(4) [OF outside_e [OF Cons.prems(4)]] by (auto simp: no_lost_levels_def)
  then show ?case using Cons.IH [of sk1] rest f1 step(2) Cons.prems(4,5) same by simp
qed (simp add: pass_def)

text \<open>The first pass starts without numbers.\<close>

definition unlearned :: "skill_tree_entry list \<Rightarrow> skills \<Rightarrow> bool" where
  "unlearned es sk \<longleftrightarrow> (\<forall>e \<in> set es. skill_flag (sk (entry_id e)) \<noteq> 13 \<longrightarrow> skill_id (sk (entry_id e)) = 0)"

lemma pass_unlearned:
  assumes "pass env jl es (False, sk) = (False, sk')" "levels_ok sk" "unlearned es sk"
    "distinct (map entry_id es)" "\<forall>e \<in> set es. 0 < entry_id e"
  shows "agrees env jl es sk'"
  using assms
proof (induction es arbitrary: sk)
  case (Cons e es)
  obtain f1 sk1 where v: "visit env jl e (False, sk) = (f1, sk1)" by force
  note step = visit_step [OF v Cons.prems(2)]
  have rest: "pass env jl es (f1, sk1) = (False, sk')" using Cons.prems(1) v by (simp add: pass_def)
  note below = pass_below [OF rest step(2)]
  have f1: "\<not> f1" using below by auto
  have fl: "skill_flag (sk1 i) = skill_flag (sk i)" "skill_flag (sk' i) = skill_flag (sk i)" for i
    using belowD(2) [OF step(1)] below belowD(2) [of sk' sk1] by auto
  have "unlearned es sk1"
    using Cons.prems(3) step(4) [OF outside_e [OF Cons.prems(4)]] by (auto simp: unlearned_def)
  then have IH: "agrees env jl es sk'" using Cons.IH [of sk1] rest f1 step(2) Cons.prems(4,5) by simp
  have e: "sk' (entry_id e) = sk1 (entry_id e)" using below Cons.prems(4) by auto
  have "skill_id (sk' (entry_id e)) = 0 \<and> \<not> may_learn env jl sk' e" if fl13: "skill_flag (sk (entry_id e)) \<noteq> 13"
  proof -
    have "skill_id (sk (entry_id e)) = 0" using Cons.prems(3) fl13 by (simp add: unlearned_def)
    then have no: "\<not> may_learn env jl sk e" using step(8) [OF f1 fl13] by simp
    have "below sk' sk" "levels_ok sk'" using below step(1) below_trans by blast+
    then have "\<not> may_learn env jl sk' e" using may_learn_mono no by (metis levels_ok_def)
    then show ?thesis using step(5) [OF fl13] no e by simp
  qed
  then show ?case using IH fl by (auto simp: agrees_def)
qed (simp add: agrees_def pass_def)

section \<open>Points and levels\<close>

definition levels :: "skills \<Rightarrow> nat" where
  "levels sk = (\<Sum>i \<in> {1..MAX_SKILL - 1}. nat (lv (sk i)))"

lemma levels_mono: "(\<And>i. lv (sk' i) \<le> lv (sk i)) \<Longrightarrow> levels sk' \<le> levels sk"
  unfolding levels_def by (intro sum_mono) (simp add: nat_mono)

lemma levels_strict:
  assumes "\<And>i. lv (sk' i) \<le> lv (sk i)" "lv (sk' j) < lv (sk j)" "1 \<le> j" "j < MAX_SKILL" "0 \<le> lv (sk' j)"
  shows "levels sk' < levels sk"
  unfolding levels_def
proof (rule sum_strict_mono_ex1)
  show "\<exists>i \<in> {1..MAX_SKILL - 1}. nat (lv (sk' i)) < nat (lv (sk i))"
    using assms(2-5) by (intro bexI [of _ j]) auto
qed (use assms(1) in \<open>auto simp: nat_mono\<close>)

lemma levels_same:
  assumes "\<And>i. lv (sk' i) \<le> lv (sk i)" "levels sk' = levels sk" "levels_ok sk'" "\<And>i. i < 1 \<or> MAX_SKILL \<le> i \<Longrightarrow> sk' i = sk i"
  shows "lv (sk' i) = lv (sk i)"
proof (cases "1 \<le> i \<and> i < MAX_SKILL")
  case True
  show ?thesis
  proof (rule ccontr)
    assume "lv (sk' i) \<noteq> lv (sk i)"
    then have "lv (sk' i) < lv (sk i)" using assms(1) [of i] by simp
    then have "levels sk' < levels sk"
      using levels_strict [of sk' sk i] assms(1,3) True by (simp add: levels_ok_def)
    then show False using assms(2) by simp
  qed
qed (use assms(4) in auto)

definition may_take :: "char_env \<Rightarrow> int \<Rightarrow> skills \<Rightarrow> int \<Rightarrow> bool" where
  "may_take env b_class sk i \<longleftrightarrow> costs_points env b_class i \<and> lv (sk i) > 0 \<and> skill_flag (sk i) = 0"

lemma take_back_step:
  assumes "take_back env b i (x, sk) = (x', sk')" "levels_ok sk" "0 \<le> x"
  shows "below sk' sk \<and> levels_ok sk' \<and> 0 \<le> x' \<and> (\<forall>j. skill_id (sk' j) = skill_id (sk j)) \<and>
    (if 0 < x \<and> may_take env b sk i then lv (sk' i) < lv (sk i) else x' = x \<and> sk' = sk)"
  using assms by (auto simp: take_back_def may_take_def below_def levels_ok_def split: if_splits)

lemma take_back_all:
  assumes "fold (take_back env b) js (x, sk) = (x', sk')" "levels_ok sk" "0 \<le> x"
  shows "below sk' sk \<and> levels_ok sk' \<and> (\<forall>j. skill_id (sk' j) = skill_id (sk j)) \<and>
    (0 < x \<longrightarrow> (\<exists>j \<in> set js. may_take env b sk j) \<longrightarrow> (\<exists>j \<in> set js. may_take env b sk j \<and> lv (sk' j) < lv (sk j)))"
  using assms
proof (induction js arbitrary: x sk)
  case (Cons j js)
  obtain x1 sk1 where t: "take_back env b j (x, sk) = (x1, sk1)" by force
  note step = take_back_step [OF t Cons.prems(2,3)]
  have rest: "fold (take_back env b) js (x1, sk1) = (x', sk')" using Cons.prems(1) t by simp
  have IH: "below sk' sk1" "levels_ok sk'" "\<forall>j. skill_id (sk' j) = skill_id (sk1 j)"
    "0 < x1 \<Longrightarrow> \<exists>j \<in> set js. may_take env b sk1 j \<Longrightarrow> \<exists>j \<in> set js. may_take env b sk1 j \<and> lv (sk' j) < lv (sk1 j)"
    using Cons.IH [OF rest] step by blast+
  have "\<exists>i \<in> set (j # js). may_take env b sk i \<and> lv (sk' i) < lv (sk i)"
    if "0 < x" "\<exists>i \<in> set (j # js). may_take env b sk i"
  proof (cases "may_take env b sk j")
    case True
    then have "lv (sk' j) < lv (sk j)" using step that(1) belowD(1) [OF IH(1), of j] by simp
    then show ?thesis using True by auto
  next
    case False
    then show ?thesis using step IH(4) that by auto
  qed
  then show ?case using step IH below_trans by auto
qed simp

section \<open>The loop\<close>

lemma class_points_nonneg: "1 \<le> l \<Longrightarrow> 0 \<le> class_points b chg l"
  by (simp add: class_points_def previous_class_level_def)

definition skills_ok :: "skill_tree_entry list \<Rightarrow> skills \<Rightarrow> bool" where
  "skills_ok es sk \<longleftrightarrow> levels_ok sk \<and>
     (\<forall>i. 1 \<le> i \<longrightarrow> i < MAX_SKILL \<longrightarrow> skill_flag (sk i) \<in> {0, 13} \<and>
       (skill_flag (sk i) = 0 \<longrightarrow> skill_id (sk i) = 0 \<or> skill_id (sk i) = i \<and> i \<in> entry_id ` set es)) \<and>
     (no_lost_levels es sk \<or> unlearned es sk)"

lemma spent_on_takeable:
  assumes "skills_ok es sk" "1 \<le> i" "i < MAX_SKILL" "0 < spent_on env b sk i"
  shows "may_take env b sk i \<and> i \<in> entry_id ` set es"
proof -
  have "skill_flag (sk i) \<in> {0, 13}" using assms(1-3) by (simp add: skills_ok_def)
  then have "skill_id (sk i) = i" "0 < lv (sk i)" "costs_points env b i" "skill_flag (sk i) = 0"
    using assms(4) by (auto simp: spent_on_def pc_checkskill_status_def split: if_splits)
  then show ?thesis using assms(1-3) by (auto simp: may_take_def skills_ok_def)
qed

lemma pc_calc_skillpoint_pos:
  assumes "0 < pc_calc_skillpoint env b sk"
  shows "\<exists>i. 1 \<le> i \<and> i < MAX_SKILL \<and> 0 < spent_on env b sk i"
proof (rule ccontr)
  assume "\<not> ?thesis"
  then have "spent_on env b sk i \<le> 0" if "i \<in> set [1..MAX_SKILL - 1]" for i using that by force
  then have "pc_calc_skillpoint env b sk \<le> sum_list (map (\<lambda>_. 0) [1..MAX_SKILL - 1])"
    unfolding pc_calc_skillpoint_def by (rule sum_list_mono)
  then show False using assms by simp
qed

text \<open>What the loop keeps of a character, and what it makes smaller.\<close>

definition same_job :: "character \<Rightarrow> character \<Rightarrow> bool" where
  "same_job sd' sd \<longleftrightarrow> job_class sd' = job_class sd \<and> job_level sd' = job_level sd \<and> change_level sd' = change_level sd"

definition potential :: "character \<Rightarrow> nat" where
  "potential sd = levels (skill sd) + nat (skill_point sd)"

lemma say_message_simps [simp]:
  "skill (say m sd) = skill sd" "skill_point (say m sd) = skill_point sd" "job_class (say m sd) = job_class sd"
  "job_level (say m sd) = job_level sd" "change_level (say m sd) = change_level sd"
  by (simp_all add: say_def)

lemma skills_ok_lower:
  assumes "skills_ok es sk" "below sk' sk" "levels_ok sk'" "\<forall>j. skill_id (sk' j) = skill_id (sk j)"
  shows "skills_ok es sk'"
proof -
  have fl: "skill_flag (sk' i) = skill_flag (sk i)" and lv: "lv (sk' i) \<le> lv (sk i)" for i
    using belowD [OF assms(2)] by blast+
  have "no_lost_levels es sk'" if "no_lost_levels es sk"
    unfolding no_lost_levels_def
  proof (intro ballI impI)
    fix e assume "e \<in> set es" "skill_flag (sk' (entry_id e)) \<noteq> 13" "skill_id (sk' (entry_id e)) = 0"
    then have "lv (sk (entry_id e)) = 0" using that fl assms(4) by (simp add: no_lost_levels_def)
    then show "lv (sk' (entry_id e)) = 0" using lv [of "entry_id e"] assms(3) unfolding levels_ok_def by (metis order_antisym)
  qed
  moreover have "unlearned es sk'" if "unlearned es sk"
    using that fl assms(4) by (simp add: unlearned_def)
  ultimately show ?thesis using assms(1,3,4) fl by (simp add: skills_ok_def) blast
qed

definition in_order :: "char_env \<Rightarrow> int \<Rightarrow> skill_tree_entry list \<Rightarrow> bool" where
  "in_order env b es \<longleftrightarrow> distinct (map entry_id es) \<and> (\<forall>e \<in> set es. 0 < entry_id e \<and> entry_id e < MAX_SKILL) \<and>
     (\<forall>i \<in> set (removal_order env b). i < MAX_SKILL) \<and>
     (0 \<le> check_maximum_skill_points (config env) \<longrightarrow>
       (\<forall>e \<in> set es. costs_points env b (entry_id e) \<longrightarrow> entry_id e \<in> set (removal_order env b)))"

lemma removal_order_pos: "i \<in> set (removal_order env b) \<Longrightarrow> 1 \<le> i"
  by (auto simp: removal_order_def split: if_splits prod.splits)

definition total_points :: "char_env \<Rightarrow> character \<Rightarrow> int" where
  "total_points env sd = skill_point sd + pc_calc_skillpoint env (job_class sd) (skill sd)"

definition greatest_points :: "char_env \<Rightarrow> character \<Rightarrow> int" where
  "greatest_points env sd = class_points (job_class sd) (change_level sd) (job_level sd) + check_maximum_skill_points (config env)"

lemma some_level_falls:
  assumes ok: "skills_ok es sk" and order: "in_order env b es" and x: "0 < x" "0 < pc_calc_skillpoint env b sk"
    and max: "0 \<le> check_maximum_skill_points (config env)"
    and t: "fold (take_back env b) (removal_order env b) (x, sk) = (x', sk')"
  shows "below sk' sk \<and> skills_ok es sk' \<and> levels sk' < levels sk"
proof -
  have "levels_ok sk" using ok by (simp add: skills_ok_def)
  from take_back_all [OF t this] x(1)
  have all: "below sk' sk" "levels_ok sk'" "\<forall>j. skill_id (sk' j) = skill_id (sk j)"
    "(\<exists>j \<in> set (removal_order env b). may_take env b sk j) \<Longrightarrow> \<exists>j \<in> set (removal_order env b). may_take env b sk j \<and> lv (sk' j) < lv (sk j)"
    by auto
  obtain i where i: "1 \<le> i" "i < MAX_SKILL" "0 < spent_on env b sk i" using pc_calc_skillpoint_pos [OF x(2)] by blast
  then have "may_take env b sk i" "i \<in> set (removal_order env b)"
    using spent_on_takeable [OF ok i] order max by (auto simp: in_order_def may_take_def)
  then obtain j where j: "j \<in> set (removal_order env b)" "lv (sk' j) < lv (sk j)" using all(4) by blast
  have "levels sk' < levels sk"
    using belowD(1) [OF all(1)] j order removal_order_pos [OF j(1)] all(2)
    by (intro levels_strict [of _ _ j]) (auto simp: in_order_def levels_ok_def)
  then show ?thesis using all skills_ok_lower [OF ok all(1-3)] by blast
qed

lemma pc_checkmaxskill_step:
  assumes "pc_checkmaxskill env sd = (again, sd')" "skills_ok es (skill sd)" "1 \<le> job_level sd" "0 \<le> skill_point sd"
    and order: "in_order env (job_class sd) es"
  shows "skills_ok es (skill sd') \<and> same_job sd' sd \<and> below (skill sd') (skill sd) \<and> 0 \<le> skill_point sd' \<and>
    skill_point sd' \<le> skill_point sd \<and>
    (if again then potential sd' < potential sd
     else sd' = sd \<and> (0 \<le> check_maximum_skill_points (config env) \<longrightarrow> total_points env sd \<le> greatest_points env sd))"
proof -
  define x where "x = total_points env sd - greatest_points env sd"
  consider (none) "check_maximum_skill_points (config env) < 0 \<or> x \<le> 0" "again = False" "sd' = sd"
    | (points) p where "0 < x" "again" "p < skill_point sd" "0 \<le> p" "sd' = say (Updatestatus ''skill_point'') (sd\<lparr>skill_point := p\<rparr>)"
    | (levels) y sk t where "0 < y" "again" "y = total_points env sd - greatest_points env sd - skill_point sd" 
        "check_maximum_skill_points (config env) \<ge> 0"
        "fold (take_back env (job_class sd)) (removal_order env (job_class sd)) (y, skill sd) = (t, sk)"
        "skill sd' = sk" "skill_point sd' = 0" "same_job sd' sd"
  proof -
    let ?tol = "check_maximum_skill_points (config env)"
    have eq: "pc_checkmaxskill env sd = (if ?tol < 0 \<or> x \<le> 0 then (False, sd)
      else (let (y, sd1) = (if skill_point sd > 0 then
              (let (e, p) = (if skill_point sd < x then (x - skill_point sd, 0) else (0, skill_point sd - x))
               in (e, say (Updatestatus ''skill_point'') (sd\<lparr>skill_point := p\<rparr>))) else (x, sd))
            in if y > 0 then (True, say Skillinfoblock (sd1\<lparr>skill :=
                 snd (fold (take_back env (job_class sd1)) (removal_order env (job_class sd1)) (y, skill sd1))\<rparr>))
               else (True, sd1)))"
      unfolding pc_checkmaxskill_def x_def total_points_def greatest_points_def by (simp add: Let_def)
    show thesis
    proof (cases "?tol < 0 \<or> x \<le> 0")
      case True
      then show thesis using none assms(1) eq by simp
    next
      case False
      show thesis
      proof (cases "skill_point sd < x")
        case True
        obtain t sk where f: "fold (take_back env (job_class sd)) (removal_order env (job_class sd)) (x - skill_point sd, skill sd) = (t, sk)"
          by force
        have "again \<and> skill sd' = sk \<and> skill_point sd' = 0 \<and> same_job sd' sd"
          using assms(1,4) False True f unfolding eq
          by (cases "skill_point sd = 0") (auto simp: same_job_def)
        then show thesis using levels [OF _ _ _ _ f] False True by (simp add: x_def)
      next
        case le: False
        then have "again \<and> sd' = say (Updatestatus ''skill_point'') (sd\<lparr>skill_point := skill_point sd - x\<rparr>)"
          using assms(1) False unfolding eq by auto
        then show thesis using points [of "skill_point sd - x"] False le by simp
      qed
    qed
  qed
  then show ?thesis
  proof cases
    case none
    then show ?thesis using assms(2,4) by (auto simp: same_job_def x_def)
  next
    case points
    then show ?thesis using assms(2) by (simp add: same_job_def potential_def)
  next
    case levels
    have "0 \<le> greatest_points env sd"
      using class_points_nonneg [OF assms(3)] levels(4) by (simp add: greatest_points_def)
    then have "0 < pc_calc_skillpoint env (job_class sd) (skill sd)" using levels(1,3) by (simp add: total_points_def)
    from some_level_falls [OF assms(2) order levels(1) this levels(4,5)] levels assms(4) show ?thesis
      by (simp add: potential_def)
  qed
qed

text \<open>A pass, seen by the loop.\<close>

lemma pass_step:
  assumes p: "pass env jl es (False, sk) = (flag, sk')" and ok: "skills_ok es sk" and order: "in_order env b es"
  shows "below sk' sk \<and> skills_ok es sk' \<and> no_lost_levels es sk' \<and>
    (if flag then levels sk' = levels sk \<longrightarrow> \<not> agrees env jl es sk \<and> agrees env jl es sk' else agrees env jl es sk')"
proof -
  have es: "distinct (map entry_id es)" "\<forall>e \<in> set es. 0 < entry_id e" "\<forall>e \<in> set es. entry_id e < MAX_SKILL"
    using order by (auto simp: in_order_def)
  have lok: "levels_ok sk" using ok by (simp add: skills_ok_def)
  note all = pass_below [OF p lok]
  note kept = pass_no_lost_levels [OF p lok es(1,2)]
  have lv: "lv (sk' i) \<le> lv (sk i)" and fl: "skill_flag (sk' i) = skill_flag (sk i)" for i using all belowD by blast+
  have "skill_id (sk' i) = 0 \<or> skill_id (sk' i) = i \<and> i \<in> entry_id ` set es"
    if "1 \<le> i" "i < MAX_SKILL" "skill_flag (sk i) = 0" for i
  proof (cases "i \<in> entry_id ` set es")
    case True
    then show ?thesis using ok all that by (metis insert_iff skills_ok_def empty_iff)
  next
    case False
    then show ?thesis using ok all that by (metis skills_ok_def)
  qed
  then have ok': "skills_ok es sk'"
    using ok kept all fl by (simp add: skills_ok_def)
  have flag: "\<not> agrees env jl es sk \<and> agrees env jl es sk'" if "flag" "levels sk' = levels sk"
  proof -
    have "sk' i = sk i" if "i < 1 \<or> MAX_SKILL \<le> i" for i
      using all es that by (metis (no_types, lifting) image_iff int_one_le_iff_zero_less not_less)
    then have "lv (sk' i) = lv (sk i)" for i using levels_same [of sk' sk] lv that(2) all by blast
    from pass_same_levels [OF p lok this es(1,2)] that(1) show ?thesis by auto
  qed
  have quiet: "agrees env jl es sk'" if no: "\<not> flag"
  proof (cases "unlearned es sk")
    case True
    then show ?thesis using pass_unlearned [of env jl es sk sk'] p no lok es by simp
  next
    case False
    then have "no_lost_levels es sk" using ok by (simp add: skills_ok_def)
    then have "lv (sk' i) = lv (sk i)" for i using pass_quiet [of env jl es sk sk'] p no lok es by simp
    from pass_same_levels [OF p lok this es(1,2)] show ?thesis by blast
  qed
  show ?thesis using all ok' kept flag quiet by (cases flag) simp_all
qed

definition in_loop :: "char_env \<Rightarrow> skill_tree_entry list \<Rightarrow> character \<Rightarrow> bool" where
  "in_loop env es sd \<longleftrightarrow> skills_ok es (skill sd) \<and> in_order env (job_class sd) es \<and> 1 \<le> job_level sd \<and> 0 \<le> skill_point sd"

definition tree_measure :: "char_env \<Rightarrow> skill_tree_entry list \<Rightarrow> character \<Rightarrow> nat" where
  "tree_measure env es sd = 2 * potential sd + (if agrees env (job_level sd) es (skill sd) then 0 else 1)"

definition tree_done :: "char_env \<Rightarrow> skill_tree_entry list \<Rightarrow> character \<Rightarrow> bool" where
  "tree_done env es sd \<longleftrightarrow> agrees env (job_level sd) es (skill sd) \<and> no_lost_levels es (skill sd) \<and>
     (0 \<le> check_maximum_skill_points (config env) \<longrightarrow> total_points env sd \<le> greatest_points env sd)"

lemma same_job_trans: "same_job a b \<Longrightarrow> same_job b c \<Longrightarrow> same_job a c"
  by (simp add: same_job_def)

lemma tree_loop_pass:
  "tree_loop env es sd =
     (let (flag, sk) = pass env (job_level sd) es (False, skill sd); sd1 = sd\<lparr>skill := sk\<rparr> in
      if flag then tree_loop env es sd1
      else (let (again, sd2) = pc_checkmaxskill env sd1 in if again then tree_loop env es sd2 else Some sd2))"
  by (subst tree_loop.simps) (simp add: pass_def)

lemma tree_loop_ends:
  assumes "in_loop env es sd"
  shows "\<exists>sd'. tree_loop env es sd = Some sd' \<and> in_loop env es sd' \<and> same_job sd' sd \<and> tree_done env es sd' \<and> below (skill sd') (skill sd) \<and>
    skill_point sd' \<le> skill_point sd"
  using assms
proof (induction "tree_measure env es sd" arbitrary: sd rule: less_induct)
  case less
  obtain flag sk where p: "pass env (job_level sd) es (False, skill sd) = (flag, sk)" by force
  define sd1 where "sd1 = sd\<lparr>skill := sk\<rparr>"
  have in_sd: "skills_ok es (skill sd)" "in_order env (job_class sd) es" "1 \<le> job_level sd" "0 \<le> skill_point sd"
    using less.prems by (simp_all add: in_loop_def)
  note step = pass_step [OF p in_sd(1,2)]
  have sd1: "skill sd1 = sk" "same_job sd1 sd" "skill_point sd1 = skill_point sd" "job_level sd1 = job_level sd" "job_class sd1 = job_class sd"
    by (simp_all add: sd1_def same_job_def)
  have in1: "in_loop env es sd1" using step in_sd sd1 by (simp add: in_loop_def)
  have pot: "potential sd1 \<le> potential sd" "levels sk \<noteq> levels (skill sd) \<Longrightarrow> potential sd1 < potential sd"
    using levels_mono [of sk "skill sd"] step belowD(1) [of sk "skill sd"] sd1 by (auto simp: potential_def)
  have loop: "tree_loop env es sd = (if flag then tree_loop env es sd1
      else (let (again, sd2) = pc_checkmaxskill env sd1 in if again then tree_loop env es sd2 else Some sd2))"
    unfolding sd1_def by (subst tree_loop_pass) (simp add: p)
  show ?case
  proof (cases flag)
    case True
    then have "tree_measure env es sd1 < tree_measure env es sd"
      using pot step sd1 by (cases "levels sk = levels (skill sd)") (auto simp: tree_measure_def)
    from less.hyps [OF this in1] show ?thesis
      using loop True sd1 step same_job_trans below_trans by metis
  next
    case False
    obtain again sd2 where c: "pc_checkmaxskill env sd1 = (again, sd2)" by force
    have in1': "skills_ok es (skill sd1)" "1 \<le> job_level sd1" "0 \<le> skill_point sd1" "in_order env (job_class sd1) es"
      using in1 by (simp_all add: in_loop_def)
    note check = pc_checkmaxskill_step [OF c in1']
    have b2: "below (skill sd2) (skill sd)" using check step sd1 below_trans by metis
    have in2: "in_loop env es sd2" using check in1' by (simp add: in_loop_def same_job_def)
    show ?thesis
    proof (cases again)
      case True
      then have "tree_measure env es sd2 < tree_measure env es sd" using check pot by (simp add: tree_measure_def)
      from less.hyps [OF this in2] obtain sd' where
        d: "tree_loop env es sd2 = Some sd'" "in_loop env es sd'" "same_job sd' sd2" "tree_done env es sd'" "below (skill sd') (skill sd2)"
        "skill_point sd' \<le> skill_point sd2"
        by blast
      have "same_job sd' sd" using d(3) check sd1(2) same_job_trans by blast
      moreover have "below (skill sd') (skill sd)" using d(5) b2 below_trans by blast
      moreover have "tree_loop env es sd = Some sd'" using loop False True c d(1) by simp
      moreover have "skill_point sd' \<le> skill_point sd" using d(6) check sd1(3) by simp
      ultimately show ?thesis using d(2,4) by blast
    next
      case no: False
      then have "sd2 = sd1" using check by simp
      then have "tree_loop env es sd = Some sd1" using loop False no c by simp
      moreover have "tree_done env es sd1" using check no False step sd1 by (simp add: tree_done_def)
      ultimately show ?thesis using in1 sd1 step by auto
    qed
  qed
qed

section \<open>The least number of points\<close>

definition least_points :: "character \<Rightarrow> int" where
  "least_points sd = class_points (job_class sd) (change_level sd) (job_level sd)"

lemma pc_calc_skillpoint_nonneg: "0 \<le> pc_calc_skillpoint env b sk"
  unfolding pc_calc_skillpoint_def by (rule sum_list_nonneg) (auto simp: spent_on_def)

lemma least_points_bound: "job_level sd < 256 \<Longrightarrow> least_points sd < 400"
  by (simp add: least_points_def class_points_def previous_class_level_def)

lemma pc_calc_skillpoint_cong:
  assumes "\<And>i. pc_checkskill_status sk' i = pc_checkskill_status sk i" "\<And>i. skill_flag (sk' i) = skill_flag (sk i)"
  shows "pc_calc_skillpoint env b sk' = pc_calc_skillpoint env b sk"
proof -
  have "spent_on env b sk' = spent_on env b sk" by (rule ext) (simp add: spent_on_def assms)
  then show ?thesis by (simp add: pc_calc_skillpoint_def)
qed

definition basic_skill :: "skills \<Rightarrow> skills" where
  "basic_skill sk = (if skill_id (sk NV_BASIC) = 0 then set_lv NV_BASIC 0 (set_id NV_BASIC NV_BASIC sk) else sk)"

lemma pc_checkminskill_step:
  assumes "0 \<le> skill_point sd" "skill_point sd < 2 ^ 15" "job_level sd < 256"
  shows "skill (pc_checkminskill env sd) = basic_skill (skill sd) \<and> same_job (pc_checkminskill env sd) sd \<and>
    0 \<le> skill_point (pc_checkminskill env sd) \<and> skill_point (pc_checkminskill env sd) < 2 ^ 15 \<and>
    skill_point (pc_checkminskill env sd) \<le> max (skill_point sd) 400 \<and>
    total_points env (pc_checkminskill env sd) =
      (if check_minimum_skill_points (config env) = 0 then total_points env sd else max (total_points env sd) (least_points sd))"
proof -
  define sd1 where "sd1 = (if skill_id (skill sd NV_BASIC) = 0
    then say Skillinfoblock (sd\<lparr>skill := set_lv NV_BASIC 0 (set_id NV_BASIC NV_BASIC (skill sd))\<rparr>) else sd)"
  have s1: "skill sd1 = basic_skill (skill sd)" "same_job sd1 sd" "skill_point sd1 = skill_point sd"
    "job_class sd1 = job_class sd" "job_level sd1 = job_level sd" "change_level sd1 = change_level sd"
    by (simp_all add: sd1_def basic_skill_def same_job_def)
  have "pc_calc_skillpoint env b (basic_skill (skill sd)) = pc_calc_skillpoint env b (skill sd)" for b
    by (rule pc_calc_skillpoint_cong) (simp_all add: basic_skill_def pc_checkskill_status_def NV_BASIC_def)
  then have total: "total_points env sd1 = total_points env sd" by (simp add: total_points_def s1)
  define d where "d = least_points sd - total_points env sd"
  have eq: "pc_checkminskill env sd = (if check_minimum_skill_points (config env) = 0 then sd1
      else if total_points env sd1 < least_points sd
      then say (Updatestatus ''skill_point'') (sd1\<lparr>skill_point := s16 (skill_point sd1 + (least_points sd - total_points env sd1))\<rparr>)
      else sd1)"
    unfolding pc_checkminskill_def sd1_def [symmetric] by (simp add: Let_def total_points_def least_points_def s1)
  show ?thesis
  proof (cases "check_minimum_skill_points (config env) \<noteq> 0 \<and> 0 < d")
    case True
    have "skill_point sd + d = least_points sd - pc_calc_skillpoint env (job_class sd) (skill sd)"
      by (simp add: d_def total_points_def)
    then have d: "skill_point sd + d < 400" "0 \<le> skill_point sd + d"
      using pc_calc_skillpoint_nonneg [of env "job_class sd" "skill sd"] least_points_bound [OF assms(3)] assms(1) True by linarith+
    then have "s16 (skill_point sd + d) = skill_point sd + d" by (intro s16_id) auto
    moreover have "pc_checkminskill env sd = say (Updatestatus ''skill_point'') (sd1\<lparr>skill_point := s16 (skill_point sd + d)\<rparr>)"
      using True total s1(3) unfolding eq by (simp add: d_def)
    moreover have "total_points env (sd1\<lparr>skill_point := skill_point sd + d\<rparr>) = least_points sd"
      using s1 total by (simp add: total_points_def d_def)
    ultimately show ?thesis
      using True s1 d by (simp add: same_job_def total_points_def) (simp add: d_def total_points_def)
  next
    case False
    then have "pc_checkminskill env sd = sd1" using total unfolding eq by (auto simp: d_def)
    then show ?thesis using False s1 total assms by (auto simp: d_def)
  qed
qed

section \<open>The whole calculation\<close>

text \<open>
  Conditions on the data: the skills of a row are different and in the range of the array. A character whose first class is
  not complete is given the row of that class; where points in excess are taken back (which the settings have off as they
  come), the skills of that row that cost points are in the row of the class, too.
\<close>

definition row_ids :: "char_env \<Rightarrow> int \<Rightarrow> int \<Rightarrow> int list" where
  "row_ids env s c = map entry_id (row env s c)"

definition skill_row_ok :: "char_env \<Rightarrow> int \<Rightarrow> int \<Rightarrow> bool" where
  "skill_row_ok env s c \<longleftrightarrow> distinct (row_ids env s c) \<and> list_all (\<lambda>i. i < MAX_SKILL) (map entry_id (take MAX_SKILL_TREE (skill_tree env s c))) \<and>
     list_all (\<lambda>e. 0 \<le> entry_max e) (row env s c)"

definition takes_excess :: "char_env \<Rightarrow> bool" where
  "takes_excess env \<longleftrightarrow> 0 \<le> check_maximum_skill_points (config env) \<and> skillfree (config env) = 0 \<and> skillup_limit (config env) \<noteq> 0"

definition skill_class_ok :: "char_env \<Rightarrow> int \<Rightarrow> bool" where
  "skill_class_ok env b \<longleftrightarrow> (let (c, s, type) = pc_calc_base_job b in
     list_all (\<lambda>e. costs_points env b (entry_id e) \<longrightarrow> entry_id e \<in> set (row_ids env s c)) (row env s 0 @ row env s (first_class_of c)))"

text \<open>The classes that \<open>pc_jobchange\<close> gives, and the novice.\<close>

definition is_class :: "int \<Rightarrow> bool" where
  "is_class b \<longleftrightarrow> 0 \<le> b \<and> b < 24 \<or> 4001 \<le> b \<and> b \<le> 4045"

definition skill_tree_ok :: "char_env \<Rightarrow> bool" where
  "skill_tree_ok env \<longleftrightarrow> list_all (\<lambda>s. list_all (skill_row_ok env s) [0..24]) [0..2] \<and>
     (takes_excess env \<longrightarrow> list_all (skill_class_ok env) ([0..23] @ [4001..4045]))"

definition character_ok :: "character \<Rightarrow> bool" where
  "character_ok sd \<longleftrightarrow> (\<forall>i. 0 \<le> lv (skill sd i) \<and> 0 \<le> skill_flag (skill sd i)) \<and> 1 \<le> job_level sd \<and> job_level sd < 256 \<and>
     0 \<le> skill_point sd \<and> skill_point sd < 2 ^ 15 \<and> is_class (job_class sd)"

lemma pc_calc_base_job_range:
  assumes "is_class b" "pc_calc_base_job b = (c, s, t)"
  shows "0 \<le> c \<and> c \<le> 24 \<and> 0 \<le> s \<and> s \<le> 2"
  using assms by (auto simp: is_class_def pc_calc_base_job_def Let_def split: if_splits)

lemma normalize_job_cases:
  "pc_calc_skilltree_normalize_job env c s sd = c \<or>
    skillup_limit (config env) \<noteq> 0 \<and> pc_calc_skilltree_normalize_job env c s sd \<in> {0, first_class_of c}"
  by (auto simp: pc_calc_skilltree_normalize_job_def Let_def)

lemma skill_row_okD:
  assumes "skill_tree_ok env" "0 \<le> c" "c \<le> 24" "0 \<le> s" "s \<le> 2"
  shows "skill_row_ok env s c"
  using assms unfolding skill_tree_ok_def list_all_iff by (metis atLeastAtMost_iff set_upto)

lemma skill_class_okD: "skill_tree_ok env \<Longrightarrow> takes_excess env \<Longrightarrow> is_class b \<Longrightarrow> skill_class_ok env b"
  unfolding skill_tree_ok_def is_class_def list_all_iff by (auto simp del: upto_rec_numeral)

lemma first_class_range: "0 \<le> c \<Longrightarrow> c \<le> 24 \<Longrightarrow> 0 \<le> first_class_of c \<and> first_class_of c \<le> 24"
  by (simp add: first_class_of_def)

lemma row_in_removal_order:
  assumes "skillfree (config env) = 0" "pc_calc_base_job b = (c, s, t)"
  shows "set (row_ids env s c) \<subseteq> set (removal_order env b)"
  using assms set_takeWhileD by (fastforce simp: removal_order_def row_ids_def row_def)

lemma in_order_row:
  assumes "skill_tree_ok env" "is_class b" "pc_calc_base_job b = (c, s, t)"
    "c' = c \<or> skillup_limit (config env) \<noteq> 0 \<and> c' \<in> {0, first_class_of c}"
  shows "in_order env b (row env s c')"
proof -
  have r: "0 \<le> c" "c \<le> 24" "0 \<le> s" "s \<le> 2" using pc_calc_base_job_range [OF assms(2,3)] by auto
  then have "0 \<le> c'" "c' \<le> 24" using assms(4) first_class_range [of c] by auto
  then have ok': "skill_row_ok env s c'" and ok: "skill_row_ok env s c"
    using skill_row_okD assms(1) r by blast+
  have pos: "0 < entry_id e \<and> entry_id e < MAX_SKILL" if "e \<in> set (row env s c')" for e
    using that ok' set_takeWhileD unfolding row_def by (fastforce simp: skill_row_ok_def list_all_iff)
  have "entry_id e \<in> set (removal_order env b)"
    if max: "0 \<le> check_maximum_skill_points (config env)" and e: "e \<in> set (row env s c')" "costs_points env b (entry_id e)" for e
  proof (cases "skillfree (config env) = 0")
    case True
    have "entry_id e \<in> set (row_ids env s c)"
    proof (cases "c' = c")
      case True
      then show ?thesis using e(1) by (simp add: row_ids_def)
    next
      case False
      then have "takes_excess env" "c' \<in> {0, first_class_of c}" using assms(4) True max by (auto simp: takes_excess_def)
      then show ?thesis using skill_class_okD [OF assms(1) _ assms(2)] e assms(3) by (auto simp: skill_class_ok_def list_all_iff)
    qed
    then show ?thesis using row_in_removal_order [OF True assms(3)] by blast
  next
    case False
    then show ?thesis using pos [OF e(1)] by (simp add: removal_order_def)
  qed
  moreover have "\<forall>i \<in> set (removal_order env b). i < MAX_SKILL"
    using ok assms(3) by (auto simp: removal_order_def skill_row_ok_def list_all_iff)
  ultimately show ?thesis using ok' pos by (simp add: in_order_def skill_row_ok_def row_ids_def)
qed

text \<open>What the calculation says of every skill but the basic one: learned just when the tree and the levels allow it.\<close>

definition tree_obeyed :: "char_env \<Rightarrow> skill_tree_entry list \<Rightarrow> character \<Rightarrow> bool" where
  "tree_obeyed env es sd \<longleftrightarrow> (\<forall>i. 1 < i \<longrightarrow> i < MAX_SKILL \<longrightarrow> skill_flag (skill sd i) \<noteq> 13 \<longrightarrow>
     (case find_entry i es of
        Some e \<Rightarrow> if may_learn env (job_level sd) (skill sd) e then skill_id (skill sd i) = i
                  else skill_id (skill sd i) = 0 \<and> lv (skill sd i) = 0
      | None \<Rightarrow> skill_id (skill sd i) = 0 \<and> (skillfree (config env) = 0 \<longrightarrow> lv (skill sd i) = 0)))"

lemma find_entry_Some: "find_entry i es = Some e \<Longrightarrow> e \<in> set es \<and> entry_id e = i"
  by (auto simp: find_entry_def find_Some_iff)

lemma find_entry_None: "find_entry i es = None \<Longrightarrow> i \<notin> entry_id ` set es"
  by (auto simp: find_entry_def find_None_iff)

lemma reset_ids_step:
  assumes "\<forall>i. 0 \<le> lv (sk i) \<and> 0 \<le> skill_flag (sk i)"
  shows "levels_ok (reset_ids sk)" "in_array i \<Longrightarrow> skill_flag (reset_ids sk i) \<in> {0, 13}"
    "in_array i \<Longrightarrow> skill_flag (reset_ids sk i) \<noteq> 13 \<Longrightarrow> skill_id (reset_ids sk i) = 0"
proof -
  have "0 \<le> lv (reset_ids sk i)" for i
  proof -
    have "skill_flag (sk i) = 0 \<or> skill_flag (sk i) = 1 \<or> 2 \<le> skill_flag (sk i)" using assms by (smt (verit))
    then show ?thesis using assms by (auto simp: reset_ids_def Let_def)
  qed
  then show "levels_ok (reset_ids sk)" by (simp add: levels_ok_def)
qed (auto simp: reset_ids_def Let_def)

lemma remove_invalid_step:
  assumes "levels_ok sk" "\<forall>e \<in> set (row env s c). 0 \<le> entry_max e"
  shows "levels_ok (remove_invalid env s c sk)" "skill_flag (remove_invalid env s c sk i) = skill_flag (sk i)"
    "skill_id (remove_invalid env s c sk i) = skill_id (sk i)"
    "0 < i \<Longrightarrow> in_array i \<Longrightarrow> skill_flag (sk i) \<noteq> 13 \<Longrightarrow> i \<notin> entry_id ` set (row env s c) \<Longrightarrow> lv (remove_invalid env s c sk i) = 0"
proof -
  show "levels_ok (remove_invalid env s c sk)"
    using assms find_entry_Some by (fastforce simp: levels_ok_def remove_invalid_def split: option.splits)
  show "lv (remove_invalid env s c sk i) = 0"
    if i: "0 < i" "in_array i" "skill_flag (sk i) \<noteq> 13" "i \<notin> entry_id ` set (row env s c)"
  proof -
    have "i \<noteq> end_id env s c"
    proof
      assume e: "i = end_id env s c"
      let ?r = "row env s c" and ?t = "take MAX_SKILL_TREE (skill_tree env s c)"
      show False
      proof (cases "length ?r = MAX_SKILL_TREE")
        case True
        then have "?r \<noteq> []" by (auto simp: MAX_SKILL_TREE_def)
        then show False using e i(4) True by (auto simp: end_id_def Let_def)
      next
        case False
        then have l: "length ?r < length (skill_tree env s c)" using e i(1) by (auto simp: end_id_def Let_def split: if_splits)
        have "length ?r \<le> length ?t" unfolding row_def by (rule length_takeWhile_le)
        then have r: "length ?r < length ?t" using l False by simp
        then have "\<not> 0 < entry_id (?t ! length ?r)" unfolding row_def by (rule nth_length_takeWhile)
        then show False using e i(1) l r False by (auto simp: end_id_def Let_def)
      qed
    qed
    moreover have "find_entry i (row env s c) = None"
      using i(4) by (auto simp: find_entry_def find_None_iff)
    moreover have "0 \<le> lv (sk i)" using assms(1) by (simp add: levels_ok_def)
    ultimately show ?thesis using i(2,3) by (simp add: remove_invalid_def)
  qed
qed (auto simp: remove_invalid_def split: option.splits)

lemma in_array_iff: "1 < i \<Longrightarrow> i < MAX_SKILL \<Longrightarrow> in_array i"
  by (simp add: in_array_def)

text \<open>The start of the loop.\<close>

definition start_skills :: "char_env \<Rightarrow> int \<Rightarrow> int \<Rightarrow> skills \<Rightarrow> skills" where
  "start_skills env s c sk =
     (if skillfree (config env) = 0 then remove_invalid env s c (reset_ids sk) else reset_ids sk)"

lemma start_skills_step:
  assumes sk: "\<forall>i. 0 \<le> lv (sk i) \<and> 0 \<le> skill_flag (sk i)" and row: "skill_row_ok env s c"
  shows "skills_ok (row env s c) (start_skills env s c sk)"
    "0 < i \<Longrightarrow> in_array i \<Longrightarrow> skill_flag (start_skills env s c sk i) \<noteq> 13 \<Longrightarrow> i \<notin> entry_id ` set (row env s c) \<Longrightarrow>
       skillfree (config env) = 0 \<Longrightarrow> lv (start_skills env s c sk i) = 0"
proof -
  have m: "\<forall>e \<in> set (row env s c). 0 \<le> entry_max e" using row by (simp add: skill_row_ok_def list_all_iff)
  note r = reset_ids_step [OF sk]
  note i = remove_invalid_step [OF r(1) m]
  have kept: "skill_flag (start_skills env s c sk j) = skill_flag (reset_ids sk j)" "skill_id (start_skills env s c sk j) = skill_id (reset_ids sk j)"
    "levels_ok (start_skills env s c sk)" for j
    using r(1) i(1-3) by (simp_all add: start_skills_def)
  have "unlearned (row env s c) (start_skills env s c sk)"
    unfolding unlearned_def
  proof (intro ballI impI)
    fix e assume "e \<in> set (row env s c)" "skill_flag (start_skills env s c sk (entry_id e)) \<noteq> 13"
    moreover then have "in_array (entry_id e)"
      using row set_takeWhileD unfolding row_def
      by (fastforce simp: skill_row_ok_def list_all_iff in_array_def)
    ultimately show "skill_id (start_skills env s c sk (entry_id e)) = 0" using r(3) kept by simp
  qed
  then show "skills_ok (row env s c) (start_skills env s c sk)"
    using kept r(2,3) by (auto simp: skills_ok_def in_array_def)
  show "lv (start_skills env s c sk i) = 0"
    if "0 < i" "in_array i" "skill_flag (start_skills env s c sk i) \<noteq> 13" "i \<notin> entry_id ` set (row env s c)" "skillfree (config env) = 0" for i
    using that i(4) kept by (simp add: start_skills_def)
qed

lemma tree_obeyed_basic:
  assumes ok: "skills_ok es (skill sd)" and td: "tree_done env es sd"
    and out: "\<And>i. 0 < i \<Longrightarrow> i < MAX_SKILL \<Longrightarrow> skill_flag (skill sd i) \<noteq> 13 \<Longrightarrow> i \<notin> entry_id ` set es \<Longrightarrow>
      skillfree (config env) = 0 \<Longrightarrow> lv (skill sd i) = 0"
    and es: "in_order env b es"
    and sd': "skill sd' = basic_skill (skill sd)" "job_level sd' = job_level sd"
  shows "tree_obeyed env es sd'"
proof -
  let ?sk = "skill sd" and ?sk' = "basic_skill (skill sd)"
  have other: "?sk' i = ?sk i" if "i \<noteq> NV_BASIC" for i
    using that by (simp add: basic_skill_def set_lv_def set_id_def)
  have fl: "skill_flag (?sk' i) = skill_flag (?sk i)" for i by (simp add: basic_skill_def)
  have basic: "lv (?sk' NV_BASIC) = lv (?sk NV_BASIC)" if "skill_flag (?sk NV_BASIC) \<noteq> 13" "skillfree (config env) = 0"
  proof (cases "NV_BASIC \<in> entry_id ` set es")
    case True
    then show ?thesis using td that(1) by (auto simp: tree_done_def no_lost_levels_def basic_skill_def)
  next
    case False
    then show ?thesis using out [of NV_BASIC] that by (simp add: basic_skill_def NV_BASIC_def MAX_SKILL_def)
  qed
  have "(n = 0 \<or> skill_flag (?sk' n) \<noteq> 13 \<and> \<not> lv (?sk' n) < l) = (n = 0 \<or> skill_flag (?sk n) \<noteq> 13 \<and> \<not> lv (?sk n) < l)"
    if "skillfree (config env) = 0" for n l
    using basic other fl that by (cases "n = NV_BASIC") auto
  then have may: "may_learn env jl ?sk' e = may_learn env jl ?sk e" if "entry_id e \<noteq> NV_BASIC" for jl e
    using other [OF that] by (cases "skillfree (config env) = 0") (simp_all add: may_learn_def)
  show ?thesis
    unfolding tree_obeyed_def sd'
  proof (intro allI impI)
    fix i assume i: "1 < i" "i < MAX_SKILL" "skill_flag (?sk' i) \<noteq> 13"
    have nb: "i \<noteq> NV_BASIC" using i(1) by (simp add: NV_BASIC_def)
    have ids: "skill_id (?sk i) = 0 \<or> skill_id (?sk i) = i \<and> i \<in> entry_id ` set es"
      using ok i fl unfolding skills_ok_def by (metis empty_iff insert_iff less_imp_le)
    show "case find_entry i es of
        Some e \<Rightarrow> if may_learn env (job_level sd) ?sk' e then skill_id (?sk' i) = i else skill_id (?sk' i) = 0 \<and> lv (?sk' i) = 0
      | None \<Rightarrow> skill_id (?sk' i) = 0 \<and> (skillfree (config env) = 0 \<longrightarrow> lv (?sk' i) = 0)"
    proof (cases "find_entry i es")
      case None
      then show ?thesis using find_entry_None [OF None] ids out [of i] i other [OF nb] by auto
    next
      case (Some e)
      have e: "e \<in> set es" "entry_id e = i" using find_entry_Some [OF Some] by auto
      then have "skill_id (?sk i) \<noteq> 0 \<longleftrightarrow> may_learn env (job_level sd) ?sk e" "skill_id (?sk i) = 0 \<Longrightarrow> lv (?sk i) = 0"
        using td i(3) fl by (auto simp: tree_done_def agrees_def no_lost_levels_def)
      then show ?thesis using Some e ids other [OF nb] may [of e] nb by auto
    qed
  qed
qed

text \<open>The row that the calculation works on, and the result for a player who is no game master.\<close>

definition calc_row :: "char_env \<Rightarrow> character \<Rightarrow> skill_tree_entry list" where
  "calc_row env sd = (let (c, s, type) = pc_calc_base_job (job_class sd) in
     row env s (pc_calc_skilltree_normalize_job env c s (sd\<lparr>skill := reset_ids (skill sd)\<rparr>)))"

definition is_gm :: "char_env \<Rightarrow> character \<Rightarrow> bool" where
  "is_gm env sd \<longleftrightarrow> GM_level sd \<ge> gm_allskill (config env) \<or> GM_level sd \<ge> gm_all_skill_job (config env)"

lemma character_ok_kept:
  assumes "character_ok sd" "same_job sd' sd" "\<forall>i. 0 \<le> lv (skill sd' i) \<and> 0 \<le> skill_flag (skill sd' i)"
    "0 \<le> skill_point sd'" "skill_point sd' < 2 ^ 15"
  shows "character_ok sd'"
  using assms by (simp add: character_ok_def same_job_def)

lemma basic_skill_ok:
  assumes "\<And>i. 0 \<le> lv (sk i) \<and> 0 \<le> skill_flag (sk i)"
  shows "\<forall>i. 0 \<le> lv (basic_skill sk i) \<and> 0 \<le> skill_flag (basic_skill sk i)"
  using assms by (simp add: basic_skill_def)

text \<open>What a game master is given has a level.\<close>

definition given_ok :: "skills \<Rightarrow> bool" where
  "given_ok sk \<longleftrightarrow> (\<forall>i. 0 \<le> lv (sk i) \<and> 0 \<le> skill_flag (sk i))"

lemma give_skill_ok:
  "\<forall>e \<in> set es. 0 \<le> entry_max e \<Longrightarrow> given_ok sk \<Longrightarrow> given_ok (fold (give_skill env gm high keep) es sk)"
  by (induction es arbitrary: sk) (simp_all add: given_ok_def give_skill_def Let_def)

lemma entry_max_ok:
  assumes "skill_tree_ok env" "0 \<le> s" "s \<le> 2" "0 \<le> c" "c \<le> 24"
  shows "\<forall>e \<in> set (row env s c). 0 \<le> entry_max e"
  using skill_row_okD [OF assms(1,4,5,2,3)] by (simp add: skill_row_ok_def list_all_iff)

lemma reset_given_ok: "given_ok sk \<Longrightarrow> given_ok (reset_ids sk)"
  unfolding given_ok_def using reset_ids_step(1) [of sk] by (auto simp: levels_ok_def reset_ids_def Let_def)

lemma remove_given_ok: 
  assumes "given_ok sk" "\<forall>e \<in> set (row env s c). 0 \<le> entry_max e"
  shows "given_ok (remove_invalid env s c sk)"
  using assms remove_invalid_step(1,2) [of sk env s c] by (simp add: given_ok_def levels_ok_def)

lemma pc_calc_skilltree_player:
  assumes env: "skill_tree_ok env" and sd: "character_ok sd" and gm: "\<not> is_gm env sd"
  shows "\<exists>sd'. pc_calc_skilltree env sd = Some sd' \<and> same_job sd' sd \<and> tree_obeyed env (calc_row env sd) sd' \<and>
    character_ok sd' \<and> skill_point sd' \<le> max (skill_point sd) 400 \<and>
    (check_minimum_skill_points (config env) \<noteq> 0 \<longrightarrow> least_points sd \<le> total_points env sd') \<and>
    (0 \<le> check_maximum_skill_points (config env) \<longrightarrow> total_points env sd' \<le> greatest_points env sd)"
proof -
  obtain c s t where job: "pc_calc_base_job (job_class sd) = (c, s, t)" using prod_cases3 by blast
  have r: "0 \<le> c" "c \<le> 24" "0 \<le> s" "s \<le> 2" using pc_calc_base_job_range [OF _ job] sd by (auto simp: character_ok_def)
  define c' where "c' = pc_calc_skilltree_normalize_job env c s (sd\<lparr>skill := reset_ids (skill sd)\<rparr>)"
  have c': "c' = c \<or> skillup_limit (config env) \<noteq> 0 \<and> c' \<in> {0, first_class_of c}" unfolding c'_def by (rule normalize_job_cases)
  define es where "es = row env s c'"
  have es: "calc_row env sd = es" by (simp add: calc_row_def job es_def c'_def)
  have order: "in_order env (job_class sd) es"
    unfolding es_def using in_order_row [OF env _ job c'] sd by (simp add: character_ok_def)
  have "0 \<le> c'" "c' \<le> 24" using c' first_class_range [of c] r by auto
  then have row: "skill_row_ok env s c'" using skill_row_okD [OF env] r by blast
  define sd1 where "sd1 = sd\<lparr>skill := start_skills env s c' (skill sd)\<rparr>"
  have lv: "\<forall>i. 0 \<le> lv (skill sd i) \<and> 0 \<le> skill_flag (skill sd i)" using sd by (simp add: character_ok_def)
  note start = start_skills_step [OF lv row, folded es_def]
  have sd1: "skill sd1 = start_skills env s c' (skill sd)" "job_class sd1 = job_class sd" "job_level sd1 = job_level sd"
    "skill_point sd1 = skill_point sd" "change_level sd1 = change_level sd" by (simp_all add: sd1_def)
  have "in_loop env es sd1" using start(1) order sd by (simp add: in_loop_def sd1 character_ok_def)
  from tree_loop_ends [OF this] obtain sd2 where loop: "tree_loop env es sd1 = Some sd2" and in2: "in_loop env es sd2"
    and job2: "same_job sd2 sd1" and td: "tree_done env es sd2" and below: "below (skill sd2) (skill sd1)"
    and sp: "skill_point sd2 \<le> skill_point sd1" by blast
  have result: "pc_calc_skilltree env sd = Some (pc_checkminskill env sd2)"
    using gm loop unfolding pc_calc_skilltree_def is_gm_def
    by (cases "skillfree (config env) = 0") (simp_all add: Let_def job c'_def [symmetric] es_def sd1_def start_skills_def)
  have pts: "0 \<le> skill_point sd2" "skill_point sd2 < 2 ^ 15" "job_level sd2 < 256"
    using in2 sp job2 sd by (simp_all add: in_loop_def same_job_def sd1 character_ok_def)
  note fin = pc_checkminskill_step [OF pts, of env]
  have out: "lv (skill sd2 i) = 0" if "0 < i" "i < MAX_SKILL" "skill_flag (skill sd2 i) \<noteq> 13" "i \<notin> entry_id ` set es" "skillfree (config env) = 0" for i
  proof -
    have "lv (skill sd1 i) = 0" using start(2) that belowD(2) [OF below] by (simp add: sd1 in_array_def)
    then show ?thesis using belowD(1) [OF below, of i] in2 by (simp add: in_loop_def skills_ok_def levels_ok_def order_antisym)
  qed
  have obeyed: "tree_obeyed env es (pc_checkminskill env sd2)"
  proof (rule tree_obeyed_basic [OF _ td _ order])
    show "skills_ok es (skill sd2)" using in2 by (simp add: in_loop_def)
    show "skill (pc_checkminskill env sd2) = basic_skill (skill sd2)" using fin by blast
    show "job_level (pc_checkminskill env sd2) = job_level sd2" using fin unfolding same_job_def by blast
  qed (rule out)
  have same: "same_job sd2 sd" using job2 by (simp add: same_job_def sd1)
  have least: "least_points sd2 = least_points sd" and greatest: "greatest_points env sd2 = greatest_points env sd"
    using same by (simp_all add: same_job_def least_points_def greatest_points_def)
  have total: "total_points env (pc_checkminskill env sd2) =
      (if check_minimum_skill_points (config env) = 0 then total_points env sd2 else max (total_points env sd2) (least_points sd))"
    using fin least by simp
  have min: "least_points sd \<le> total_points env (pc_checkminskill env sd2)" if "check_minimum_skill_points (config env) \<noteq> 0"
    using that by (simp add: total)
  have max: "total_points env (pc_checkminskill env sd2) \<le> greatest_points env sd" if "0 \<le> check_maximum_skill_points (config env)"
  proof -
    have "total_points env sd2 \<le> greatest_points env sd" using td that greatest by (simp add: tree_done_def)
    moreover have "least_points sd \<le> greatest_points env sd" using that by (simp add: least_points_def greatest_points_def)
    ultimately show ?thesis by (simp add: total)
  qed
  have same_fin: "same_job (pc_checkminskill env sd2) sd" using fin same same_job_trans by blast
  have "0 \<le> skill_flag (start_skills env s c' (skill sd) i)" for i
    using lv by (simp add: start_skills_def remove_invalid_def reset_ids_def Let_def split: option.splits)
  then have "0 \<le> lv (skill sd2 i) \<and> 0 \<le> skill_flag (skill sd2 i)" for i
    using in2 belowD(2) [OF below] sd1(1) by (simp add: in_loop_def skills_ok_def levels_ok_def)
  then have "character_ok (pc_checkminskill env sd2)"
    using fin character_ok_kept [OF sd same_fin] basic_skill_ok [of "skill sd2"] by simp
  moreover have "skill_point (pc_checkminskill env sd2) \<le> max (skill_point sd) 400" using fin sp sd1(4) by linarith
  ultimately show ?thesis unfolding es using result obeyed min max same_fin by blast
qed

lemma pc_calc_skilltree_gm:
  assumes env: "skill_tree_ok env" and sd: "character_ok sd" and gm: "is_gm env sd"
  shows "\<exists>sd'. pc_calc_skilltree env sd = Some sd' \<and> same_job sd' sd \<and> character_ok sd' \<and> skill_point sd' \<le> 400 \<and>
    (check_minimum_skill_points (config env) \<noteq> 0 \<longrightarrow> least_points sd \<le> total_points env sd')"
proof -
  obtain c s t where job: "pc_calc_base_job (job_class sd) = (c, s, t)" using prod_cases3 by blast
  have r: "0 \<le> c" "c \<le> 24" "0 \<le> s" "s \<le> 2" using pc_calc_base_job_range [OF _ job] sd by (auto simp: character_ok_def)
  note row = entry_max_ok [OF env r(3,4,1,2)]
  have all: "\<forall>e \<in> set (all_rows env). 0 \<le> entry_max e" using entry_max_ok [OF env] by (auto simp: all_rows_def)
  have sk0: "given_ok (reset_ids (skill sd))" using sd by (intro reset_given_ok) (simp add: given_ok_def character_ok_def)
  obtain sk where result: "pc_calc_skilltree env sd = Some (pc_checkminskill env (no_skill_points (sd\<lparr>skill := sk\<rparr>)))"
    and sk: "given_ok sk"
  proof (cases "GM_level sd \<ge> gm_allskill (config env)")
    case True
    then show thesis using that give_skill_ok [OF all sk0] unfolding pc_calc_skilltree_def by (simp add: Let_def job)
  next
    case False
    then have "GM_level sd \<ge> gm_all_skill_job (config env)" using gm by (simp add: is_gm_def)
    then show thesis
      using that False give_skill_ok [OF row sk0] give_skill_ok [OF row remove_given_ok [OF sk0 row]]
      unfolding pc_calc_skilltree_def by (cases "skillfree (config env) = 0") (simp_all add: Let_def job)
  qed
  define sd1 where "sd1 = no_skill_points (sd\<lparr>skill := sk\<rparr>)"
  have sd1: "skill_point sd1 = 0" "same_job sd1 sd" "job_level sd1 < 256" "skill sd1 = sk"
    using sd by (simp_all add: sd1_def no_skill_points_def same_job_def character_ok_def)
  then have least: "least_points sd1 = least_points sd" by (simp add: least_points_def same_job_def)
  have fin: "skill (pc_checkminskill env sd1) = basic_skill sk \<and> same_job (pc_checkminskill env sd1) sd1 \<and>
    0 \<le> skill_point (pc_checkminskill env sd1) \<and> skill_point (pc_checkminskill env sd1) < 2 ^ 15 \<and> skill_point (pc_checkminskill env sd1) \<le> 400 \<and>
    (check_minimum_skill_points (config env) \<noteq> 0 \<longrightarrow> least_points sd \<le> total_points env (pc_checkminskill env sd1))"
    using pc_checkminskill_step [of sd1 env] sd1 least by auto
  then have same: "same_job (pc_checkminskill env sd1) sd" using sd1(2) same_job_trans by blast
  have "\<forall>i. 0 \<le> lv (basic_skill sk i) \<and> 0 \<le> skill_flag (basic_skill sk i)"
    using sk by (intro basic_skill_ok) (simp add: given_ok_def)
  then have "character_ok (pc_checkminskill env sd1)" using fin character_ok_kept [OF sd same] by simp
  then show ?thesis using result [folded sd1_def] same fin by blast
qed

definition points_ok :: "char_env \<Rightarrow> character \<Rightarrow> bool" where
  "points_ok env sd \<longleftrightarrow> (check_minimum_skill_points (config env) \<noteq> 0 \<longrightarrow> least_points sd \<le> total_points env sd) \<and>
     (if is_gm env sd then skill_point sd \<le> 400
      else check_maximum_skill_points (config env) < 0 \<or> total_points env sd \<le> greatest_points env sd)"

lemma pc_calc_skilltree_ok:
  assumes "skill_tree_ok env" "character_ok sd"
  obtains sd' where "pc_calc_skilltree env sd = Some sd'" "character_ok sd'" "points_ok env sd'" "other_fields sd' = other_fields sd"
    "skill_point sd' \<le> max (skill_point sd) 400"
proof -
  have "\<exists>sd'. pc_calc_skilltree env sd = Some sd' \<and> same_job sd' sd \<and> character_ok sd' \<and> skill_point sd' \<le> max (skill_point sd) 400 \<and>
    (check_minimum_skill_points (config env) \<noteq> 0 \<longrightarrow> least_points sd \<le> total_points env sd') \<and>
    (if is_gm env sd then skill_point sd' \<le> 400
     else check_maximum_skill_points (config env) < 0 \<or> total_points env sd' \<le> greatest_points env sd)"
    using pc_calc_skilltree_gm [OF assms] pc_calc_skilltree_player [OF assms] by (smt (verit) not_less)
  then obtain sd' where sd': "pc_calc_skilltree env sd = Some sd'" "same_job sd' sd" "character_ok sd'" "skill_point sd' \<le> max (skill_point sd) 400"
    "check_minimum_skill_points (config env) \<noteq> 0 \<longrightarrow> least_points sd \<le> total_points env sd'"
    "if is_gm env sd then skill_point sd' \<le> 400
     else check_maximum_skill_points (config env) < 0 \<or> total_points env sd' \<le> greatest_points env sd" by blast
  have other: "other_fields sd' = other_fields sd" by (rule pc_calc_skilltree_other [OF sd'(1)])
  then have "GM_level (other_fields sd') = GM_level (other_fields sd)" by simp
  then have gm: "is_gm env sd' = is_gm env sd" by (simp add: is_gm_def other_fields_def)
  have "least_points sd' = least_points sd" "greatest_points env sd' = greatest_points env sd"
    using sd'(2) by (simp_all add: least_points_def greatest_points_def same_job_def)
  then have "points_ok env sd'" using sd'(5,6) gm by (simp add: points_ok_def)
  then show thesis using that sd'(1,3,4) other by blast
qed

text \<open>
  C32: The calculation of the skill tree ends for every character of every class, when the rows of the tree hold different skills
  of the array and, where points in excess are taken back, the skills of the rows before that cost points (the rows of the
  repository do, see \<open>SkillTreeData\<close>). For a player, afterwards just those skills of the tree are known whose needed skills,
  level of job and quest are there, the others have no level, and the points, spent or not, are no more than the class gives;
  whoever it is, they are no fewer.
\<close>
theorem pc_calc_skilltree_correct:
  assumes "skill_tree_ok env" "character_ok sd"
  shows "\<exists>sd'. pc_calc_skilltree env sd = Some sd' \<and>
    job_class sd' = job_class sd \<and> job_level sd' = job_level sd \<and>
    (check_minimum_skill_points (config env) \<noteq> 0 \<longrightarrow> least_points sd \<le> total_points env sd') \<and>
    (is_gm env sd \<or> tree_obeyed env (calc_row env sd) sd' \<and>
      (0 \<le> check_maximum_skill_points (config env) \<longrightarrow> total_points env sd' \<le> greatest_points env sd))"
proof (cases "is_gm env sd")
  case True
  then show ?thesis using pc_calc_skilltree_gm [OF assms] by (auto simp: same_job_def)
next
  case False
  then show ?thesis using pc_calc_skilltree_player [OF assms] by (auto simp: same_job_def)
qed

section \<open>The data of the repository\<close>

text \<open>
  The conditions hold of the rows that come with the program, with its settings and any others with which skills of quests are
  not learned with points. (The row of the novice has a skill of a quest, 143, that the rows of other classes do not have.)
\<close>

lemma nezumi_rows_ok:
  "list_all (list_all (\<lambda>r. distinct (map entry_id r) \<and> length r \<le> MAX_SKILL_TREE \<and>
     list_all (\<lambda>e. 0 < entry_id e \<and> entry_id e < MAX_SKILL \<and> 0 \<le> entry_max e) r)) nezumi_rows"
  by code_simp

lemma nezumi_shape: "length nezumi_rows = 3 \<and> list_all (\<lambda>rs. length rs = 24) nezumi_rows"
  by code_simp

definition covers :: "skill_tree_entry list \<Rightarrow> skill_tree_entry list \<Rightarrow> bool" where
  "covers r es \<longleftrightarrow> list_all (\<lambda>e. List.member quest_skills (entry_id e) \<or> List.member (map entry_id r) (entry_id e)) es"

lemma nezumi_covers:
  "list_all (\<lambda>rs. list_all (\<lambda>(c, r). r = [] \<or> covers r (rs ! 0) \<and> covers r (rs ! nat (first_class_of c))) (zip [0..23] rs)) nezumi_rows"
  by code_simp

lemma nezumi_empty:
  "map (map (\<lambda>r. r = [])) nezumi_rows =
    [replicate 24 False, replicate 22 False @ [True, True], replicate 22 False @ [True, False]]"
  by code_simp

lemma nezumi_rows_nth:
  assumes "0 \<le> s" "s < 3" "0 \<le> c" "c < 24"
  shows "nezumi_rows ! nat s \<in> set nezumi_rows" "length (nezumi_rows ! nat s) = 24" "nezumi_tree s c = nezumi_rows ! nat s ! nat c"
    "nezumi_tree s c = [] \<longleftrightarrow> map (map (\<lambda>r. r = [])) nezumi_rows ! nat s ! nat c"
proof -
  have len: "length nezumi_rows = 3" using nezumi_shape by simp
  then show s: "nezumi_rows ! nat s \<in> set nezumi_rows" using assms by simp
  then show l: "length (nezumi_rows ! nat s) = 24" using nezumi_shape by (simp add: list_all_iff)
  show e: "nezumi_tree s c = nezumi_rows ! nat s ! nat c" using assms by (simp add: nezumi_tree_def)
  show "nezumi_tree s c = [] \<longleftrightarrow> map (map (\<lambda>r. r = [])) nezumi_rows ! nat s ! nat c" using assms len l e by simp
qed

lemma nezumi_tree_row:
  "distinct (map entry_id (nezumi_tree s c)) \<and> length (nezumi_tree s c) \<le> MAX_SKILL_TREE \<and>
    (\<forall>e \<in> set (nezumi_tree s c). 0 < entry_id e \<and> entry_id e < MAX_SKILL \<and> 0 \<le> entry_max e)"
proof (cases "0 \<le> s \<and> s < 3 \<and> 0 \<le> c \<and> c < 24")
  case True
  note n = nezumi_rows_nth [of s c]
  have "nezumi_tree s c \<in> set (nezumi_rows ! nat s)" using n(2,3) True by (simp add: nat_less_iff)
  then show ?thesis using n(1) True nezumi_rows_ok unfolding list_all_iff by blast
next
  case False
  then show ?thesis unfolding nezumi_tree_def by (simp only: if_False) simp
qed

lemma row_nezumi: "row (nezumi_env conf) s c = nezumi_tree s c"
proof -
  have "takeWhile (\<lambda>e. 0 < entry_id e) (nezumi_tree s c) = nezumi_tree s c" using nezumi_tree_row by (simp add: takeWhile_eq_all_conv)
  then show ?thesis using nezumi_tree_row [of s c] by (simp add: row_def nezumi_env_def)
qed

lemma nezumi_job:
  assumes "is_class b" "pc_calc_base_job b = (c, s, t)"
  shows "0 \<le> s" "s < 3" "0 \<le> c" "c < 24" "nezumi_tree s c \<noteq> []"
proof -
  have j: "0 \<le> c \<and> c < 24 \<and> 0 \<le> s \<and> s < 3 \<and> (s = 1 \<longrightarrow> c < 22) \<and> (s = 2 \<longrightarrow> c \<noteq> 22)"
    using assms by (auto simp: is_class_def pc_calc_base_job_def Let_def split: if_splits)
  then show r: "0 \<le> s" "s < 3" "0 \<le> c" "c < 24" by blast+
  consider "s = 0" "nat c < 24" | "s = 1" "nat c < 22" | "s = 2" "nat c < 22" | "s = 2" "nat c = 23" using j by fastforce
  then show "nezumi_tree s c \<noteq> []"
    unfolding nezumi_rows_nth(4) [OF r] nezumi_empty by cases (simp_all add: nth_append)
qed

lemma nezumi_tree_ok:
  assumes "quest_skill_learn conf = 0"
  shows "skill_tree_ok (nezumi_env conf)"
proof -
  have "skill_row_ok (nezumi_env conf) s c" for s c
  proof -
    have "entry_id e < MAX_SKILL" if "e \<in> set (take MAX_SKILL_TREE (nezumi_tree s c))" for e
      using in_set_takeD [OF that] nezumi_tree_row [of s c] by blast
    moreover have "skill_tree (nezumi_env conf) s c = nezumi_tree s c" by (simp add: nezumi_env_def)
    ultimately show ?thesis
      using nezumi_tree_row [of s c] unfolding skill_row_ok_def row_ids_def row_nezumi by (simp add: list_all_iff)
  qed
  moreover have "skill_class_ok (nezumi_env conf) b" if b: "is_class b" for b
  proof -
    obtain c s t where j: "pc_calc_base_job b = (c, s, t)" using prod_cases3 by blast
    note r = nezumi_job [OF b j]
    note n = nezumi_rows_nth [OF r(1-4)]
    let ?rs = "nezumi_rows ! nat s"
    have "(zip [0..23] ?rs) ! nat c = (c, nezumi_tree s c)" using r n(2,3) by (simp add: nth_upto)
    moreover have "nat c < length (zip [0..23] ?rs)" using r n(2) by simp
    ultimately have "(c, nezumi_tree s c) \<in> set (zip [0..23] ?rs)" by (metis nth_mem)
    then have cov: "covers (nezumi_tree s c) (?rs ! 0)" "covers (nezumi_tree s c) (?rs ! nat (first_class_of c))"
      using nezumi_covers n(1) r(5) unfolding list_all_iff by fast+
    have f: "0 \<le> first_class_of c" "first_class_of c < 24" using r(3,4) by (simp_all add: first_class_of_def)
    have "nezumi_tree s 0 = ?rs ! 0" "nezumi_tree s (first_class_of c) = ?rs ! nat (first_class_of c)"
      using nezumi_rows_nth(3) [OF r(1,2)] f by simp_all
    moreover have "\<not> costs_points (nezumi_env conf) b i" if "List.member quest_skills i" for i
      using that assms by (simp add: costs_points_def nezumi_env_def nezumi_inf2_def)
    ultimately show ?thesis using cov by (fastforce simp: skill_class_ok_def j list_all_iff row_nezumi row_ids_def covers_def)
  qed
  ultimately show ?thesis unfolding skill_tree_ok_def list_all_iff by (auto simp: is_class_def simp del: upto_rec_numeral)
qed

text \<open>A swordman with a skill whose needed skill is gone, and settings with which no point may be in excess.\<close>

definition example_character :: character where
  "example_character = \<lparr>account_id = 1, char_id = 1, job_class = 1, map_class = 1, base_level = 10, job_level = 6, base_exp = 0, job_exp = 0,
     status_point = 0, skill_point = 0, str = 1, agi = 1, vit = 1, intel = 1, dex = 1, luk = 1,
     skill = (\<lambda>i. \<lparr>skill_id = 0, lv = (if i = 1 then 9 else if i = 3 then 5 else 0), skill_flag = 0\<rparr>),
     GM_level = 0, change_level = 0, guild_id = 0, party_id = 0, sent = []\<rparr>"

lemma example_character_ok: "character_ok example_character"
  by (simp add: character_ok_def example_character_def is_class_def)

definition strict_config :: battle_config where
  "strict_config = nezumi_config\<lparr>check_maximum_skill_points := 0\<rparr>"

lemma pc_calc_skilltree_correct_witness:
  "\<exists>sd'. pc_calc_skilltree (nezumi_env strict_config) example_character = Some sd' \<and> job_level sd' = 6 \<and> total_points (nezumi_env strict_config) sd' = 14 \<and>
     tree_obeyed (nezumi_env strict_config) (calc_row (nezumi_env strict_config) example_character) sd'"
proof -
  have gm: "\<not> is_gm (nezumi_env strict_config) example_character" and
    checks: "check_minimum_skill_points (config (nezumi_env strict_config)) = 1" "check_maximum_skill_points (config (nezumi_env strict_config)) = 0" and
    pts: "least_points example_character = 14" "greatest_points (nezumi_env strict_config) example_character = 14" "job_level example_character = 6"
    by code_simp+
  show ?thesis
    using pc_calc_skilltree_correct [OF nezumi_tree_ok example_character_ok, of strict_config] unfolding checks pts using gm by (auto simp: strict_config_def nezumi_config_def)
qed

end
