(* ===== verification/Leveling.thy ===== *)
theory Leveling
  imports Prelude
begin

text \<open>
  Experience and levels, of characters and of guilds: a check that takes the experience needed from a state and
  raises its level, and its repetition. \<open>required\<close> is a column of the table of experience.
\<close>

locale leveling =
  fixes experience level :: "'s \<Rightarrow> int" and required :: "'s \<Rightarrow> int \<Rightarrow> int" and top :: int
    and check :: "'s \<Rightarrow> (bool \<times> 's) option" and loop :: "'s \<Rightarrow> 's option" and good :: "'s \<Rightarrow> bool" and kept :: "'s \<Rightarrow> 's \<Rightarrow> bool"
  assumes loop_step: "loop s = Option.bind (check s) (\<lambda>(up, s). if up then loop s else Some s)"
    and check_quiet: "good s \<Longrightarrow> top \<le> level s \<or> required s (level s) \<le> 0 \<or> experience s < required s (level s) \<Longrightarrow> check s = Some (False, s)"
    and check_up: "good s \<Longrightarrow> level s < top \<Longrightarrow> 0 < required s (level s) \<Longrightarrow> required s (level s) \<le> experience s \<Longrightarrow>
      \<exists>s'. check s = Some (True, s') \<and> good s' \<and> kept s' s \<and> experience s' = experience s - required s (level s) \<and> level s' = level s + 1"
    and kept_refl: "kept s s"
    and kept_trans: "kept a b \<Longrightarrow> kept b c \<Longrightarrow> kept a c"
    and kept_required: "kept s' s \<Longrightarrow> required s' = required s"
begin

definition quiet :: "'s \<Rightarrow> bool" where
  "quiet s \<longleftrightarrow> top \<le> level s \<or> required s (level s) \<le> 0 \<or> experience s < required s (level s)"

definition spent :: "'s \<Rightarrow> 's \<Rightarrow> int" where
  "spent s s' = (\<Sum>l \<in> {level s..<level s'}. required s l)"

lemma loop_ends:
  assumes "good s" "0 \<le> experience s"
  shows "\<exists>s'. loop s = Some s' \<and> good s' \<and> kept s' s \<and> quiet s' \<and> level s \<le> level s' \<and> level s' \<le> max top (level s) \<and>
    0 \<le> experience s' \<and> experience s = experience s' + spent s s'"
  using assms
proof (induction "nat (top - level s)" arbitrary: s rule: less_induct)
  case less
  show ?case
  proof (cases "quiet s")
    case True
    then have "loop s = Some s" using check_quiet [OF less.prems(1)] by (subst loop_step) (simp add: quiet_def)
    then show ?thesis using less.prems True kept_refl by (auto simp: spent_def)
  next
    case False
    then have lt: "level s < top" "0 < required s (level s)" "required s (level s) \<le> experience s"
      by (auto simp: quiet_def)
    from check_up [OF less.prems(1) this] obtain s1 where s1: "check s = Some (True, s1)" "good s1" "kept s1 s"
      "experience s1 = experience s - required s (level s)" "level s1 = level s + 1" by blast
    have "nat (top - level s1) < nat (top - level s)" "0 \<le> experience s1" using lt s1(4,5) by auto
    from less.hyps [OF this(1) s1(2) this(2)] obtain s' where s': "loop s1 = Some s'" "good s'" "kept s' s1" "quiet s'"
      "level s1 \<le> level s'" "level s' \<le> max top (level s1)" "0 \<le> experience s'" "experience s1 = experience s' + spent s1 s'" by blast
    have "{level s..<level s'} = insert (level s) {level s1..<level s'}" using s'(5) s1(5) by auto
    then have "spent s s' = required s (level s) + spent s1 s'"
      using s1(5) by (simp add: spent_def kept_required [OF s1(3)])
    moreover have "loop s = Some s'" using s1(1) s'(1) by (subst loop_step) simp
    ultimately show ?thesis
      using s' s1 lt kept_trans [OF s'(3) s1(3)] by (intro exI [of _ s']) auto
  qed
qed

lemma loop_one_level:
  assumes "good s" "0 \<le> experience s" "loop s = Some s'"
    "0 < required s (level s) \<Longrightarrow> level s < top \<Longrightarrow>
      top \<le> level s + 1 \<or> required s (level s + 1) \<le> 0 \<or> experience s < required s (level s) + required s (level s + 1)"
  shows "level s' \<le> level s + 1"
proof (cases "quiet s")
  case True
  then have "loop s = Some s" using check_quiet [OF assms(1)] by (subst loop_step) (simp add: quiet_def)
  then show ?thesis using assms(3) by simp
next
  case False
  then have lt: "level s < top" "0 < required s (level s)" "required s (level s) \<le> experience s"
    by (auto simp: quiet_def)
  from check_up [OF assms(1) this] obtain s1 where s1: "check s = Some (True, s1)" "good s1" "kept s1 s"
    "experience s1 = experience s - required s (level s)" "level s1 = level s + 1" by blast
  have "quiet s1" using assms(4) [OF lt(2,1)] s1(4,5) lt kept_required [OF s1(3)] by (auto simp: quiet_def)
  then have "loop s1 = Some s1" using check_quiet [OF s1(2)] by (subst loop_step) (simp add: quiet_def)
  moreover have "loop s = loop s1" using s1(1) by (subst loop_step) simp
  ultimately show ?thesis using assms(3) s1(5) by simp
qed

end

end
