(* ===== verification/Growth.thy ===== *)
theory Growth
  imports SkillTree
begin

text \<open>
  How a character grows (\<open>src/src/map/pc.c\<close>, \<open>pc_checkbaselevelup\<close> to \<open>pc_resetskill\<close>): experience and levels, the
  points for the six attributes, and those for skills. The tables of the files \<open>exp.txt\<close> and \<open>statpoint.txt\<close> are in the
  environment. Of \<open>status_calc_pc\<close> the calculation of the skill tree is kept; the values of battle, and healing, are left
  out. The message on the experience gained, for players who ask for it, is left out.
\<close>

section \<open>Tables\<close>

definition MAX_LEVEL :: int where
  "MAX_LEVEL = 255"

definition exp_group :: "int \<Rightarrow> int" where
  "exp_group c =
     (if c = 0 \<or> c = 4023 then 0
      else if c \<le> 6 \<or> c \<ge> 4024 \<and> c \<le> 4029 then 1
      else if c \<le> 22 \<or> c \<ge> 4030 \<and> c \<le> 4044 then 2
      else if c = 23 \<or> c = 4045 then 3
      else if c = 4001 then 4
      else if c \<le> 4007 then 5
      else 6)"

definition pc_nextbaseexp :: "char_env \<Rightarrow> character \<Rightarrow> int" where
  "pc_nextbaseexp env sd =
     (if base_level sd \<ge> MAX_LEVEL \<or> base_level sd \<le> 0 then 0 else exp_table env (exp_group (job_class sd)) (base_level sd - 1))"

definition pc_nextjobexp :: "char_env \<Rightarrow> character \<Rightarrow> int" where
  "pc_nextjobexp env sd =
     (if job_level sd \<ge> MAX_LEVEL \<or> job_level sd \<le> 0 then 0 else exp_table env (7 + exp_group (job_class sd)) (job_level sd - 1))"

definition pc_nextbaseafter :: "char_env \<Rightarrow> character \<Rightarrow> int" where
  "pc_nextbaseafter env sd =
     (if base_level sd \<ge> MAX_LEVEL \<or> base_level sd \<le> 0 then 0 else exp_table env (exp_group (job_class sd)) (base_level sd))"

definition pc_nextjobafter :: "char_env \<Rightarrow> character \<Rightarrow> int" where
  "pc_nextjobafter env sd =
     (if job_level sd \<ge> MAX_LEVEL \<or> job_level sd \<le> 0 then 0 else exp_table env (7 + exp_group (job_class sd)) (job_level sd))"

section \<open>Attributes\<close>

definition SP_STR :: int where
  "SP_STR = 13"

definition SP_LUK :: int where
  "SP_LUK = 18"

definition stat :: "int \<Rightarrow> character \<Rightarrow> int" where
  "stat t sd = (if t = 13 then str sd else if t = 14 then agi sd else if t = 15 then vit sd else if t = 16 then intel sd
     else if t = 17 then dex sd else luk sd)"

definition set_stat :: "int \<Rightarrow> int \<Rightarrow> character \<Rightarrow> character" where
  "set_stat t v sd =
     (if t = 13 then sd\<lparr>str := v\<rparr> else if t = 14 then sd\<lparr>agi := v\<rparr> else if t = 15 then sd\<lparr>vit := v\<rparr>
      else if t = 16 then sd\<lparr>intel := v\<rparr> else if t = 17 then sd\<lparr>dex := v\<rparr> else sd\<lparr>luk := v\<rparr>)"

definition stat_name :: "int \<Rightarrow> string" where
  "stat_name t = (if t = 13 then ''str'' else if t = 14 then ''agi'' else if t = 15 then ''vit'' else if t = 16 then ''int''
     else if t = 17 then ''dex'' else ''luk'')"

definition stat_types :: "int list" where
  "stat_types = [13, 14, 15, 16, 17, 18]"

definition all_max :: "char_env \<Rightarrow> character \<Rightarrow> bool" where
  "all_max env sd \<longleftrightarrow> list_all (\<lambda>t. stat t sd \<ge> max_parameter (config env)) stat_types"

definition pc_need_status_point :: "character \<Rightarrow> int \<Rightarrow> int" where
  "pc_need_status_point sd t = (if t < SP_STR \<or> t > SP_LUK then -1 else cdiv (stat t sd + 9) 10 + 1)"

definition updatestatus :: "string list \<Rightarrow> character \<Rightarrow> character" where
  "updatestatus ns sd = fold (\<lambda>n. say (Updatestatus n)) ns sd"

definition status_calc_pc :: "char_env \<Rightarrow> character \<Rightarrow> character option" where
  "status_calc_pc env sd = pc_calc_skilltree env sd"

definition is_baby :: "character \<Rightarrow> bool" where
  "is_baby sd \<longleftrightarrow> bit (map_class sd) 13"

definition is_upper :: "character \<Rightarrow> bool" where
  "is_upper sd \<longleftrightarrow> bit (map_class sd) 12"

definition pc_statusup :: "char_env \<Rightarrow> int \<Rightarrow> character \<Rightarrow> character option" where
  "pc_statusup env t sd =
     (let most = (if is_baby sd then 80 else max_parameter (config env)); cost = pc_need_status_point sd t in
      if t < SP_STR \<or> t > SP_LUK \<or> cost < 0 \<or> cost > status_point sd then Some (say (Statusupack t 0 0) sd)
      else if stat t sd \<ge> most then Some (say (Statusupack t 0 0) sd)
      else do {
        let sd = set_stat t (s16 (stat t sd + 1)) sd;
        let val = stat t sd;
        let sd = sd\<lparr>status_point := s16 (status_point sd - cost)\<rparr>;
        let sd = (if cost \<noteq> pc_need_status_point sd t then updatestatus [''u'' @ stat_name t] sd else sd);
        let sd = (if all_max env sd then sd\<lparr>status_point := 0\<rparr> else sd);
        let sd = updatestatus [''status_point'', stat_name t] sd;
        sd \<leftarrow> status_calc_pc env sd;
        Some (say (Statusupack t 1 val) sd)})"

definition pc_statusup2 :: "char_env \<Rightarrow> int \<Rightarrow> int \<Rightarrow> character \<Rightarrow> character option" where
  "pc_statusup2 env t val sd =
     (if t < SP_STR \<or> t > SP_LUK then Some (say (Statusupack t 0 0) sd)
      else do {
        let val = (if stat t sd + val \<ge> max_parameter (config env) then max_parameter (config env)
                   else if stat t sd + val < 1 then 1 else stat t sd + val);
        let sd = set_stat t (s16 val) sd;
        let sd = (if all_max env sd \<and> status_point sd \<noteq> 0 then updatestatus [''status_point''] (sd\<lparr>status_point := 0\<rparr>) else sd);
        let sd = updatestatus [''u'' @ stat_name t, stat_name t] sd;
        sd \<leftarrow> status_calc_pc env sd;
        Some (say (Statusupack t 1 val) sd)})"

definition reset_stats :: "character \<Rightarrow> character" where
  "reset_stats sd = fold (\<lambda>t. set_stat t 1) stat_types sd"

definition pc_resetstate :: "char_env \<Rightarrow> character \<Rightarrow> character option" where
  "pc_resetstate env sd =
     (let l = (if base_level sd < MAX_LEVEL then base_level sd else MAX_LEVEL);
          sd = sd\<lparr>status_point := statp env (l - 1)\<rparr>;
          sd = (if is_upper sd then sd\<lparr>status_point := s16 (status_point sd + 52)\<rparr> else sd);
          sd = reset_stats (updatestatus [''status_point''] sd)
      in status_calc_pc env (updatestatus (map stat_name stat_types @ map (\<lambda>t. ''u'' @ stat_name t) stat_types) sd))"

section \<open>Levels\<close>

text \<open>
  The blessings for a super novice are asked for with the class of the character, not with the one of the map server
  that the mask belongs to.
\<close>

definition blessings :: "character \<Rightarrow> character" where
  "blessings sd =
     (if and (job_class sd) 0xFFF = 0x100
      then fold (\<lambda>n. say (Status_change_start n)) [''KYRIE'', ''IMPOSITIO'', ''MAGNIFICAT'', ''GLORIA'', ''SUFFRAGIUM''] sd else sd)"

definition raise_base_level :: "char_env \<Rightarrow> character \<Rightarrow> character" where
  "raise_base_level env sd =
     (let sd = sd\<lparr>base_exp := base_exp sd - pc_nextbaseexp env sd\<rparr>;
          sd = sd\<lparr>base_level := u8 (base_level sd + 1)\<rparr>;
          sd = sd\<lparr>status_point := s16 (status_point sd + cdiv (base_level sd + 14) 5)\<rparr>;
          sd = (if all_max env sd then sd\<lparr>status_point := 0\<rparr> else sd)
      in updatestatus [''status_point'', ''base_level'', ''nextbaseexp''] sd)"

definition pc_checkbaselevelup :: "char_env \<Rightarrow> character \<Rightarrow> (bool \<times> character) option" where
  "pc_checkbaselevelup env sd =
     (if base_exp sd \<ge> pc_nextbaseexp env sd \<and> pc_nextbaseexp env sd > 0
      then do {
        sd \<leftarrow> status_calc_pc env (raise_base_level env sd);
        let sd = say (Misceffect 0) (blessings sd);
        Some (True, if party_id sd > 0 then say Party_send_movemap sd else sd)}
      else Some (False, sd))"

definition raise_job_level :: "char_env \<Rightarrow> character \<Rightarrow> character" where
  "raise_job_level env sd =
     (let sd = sd\<lparr>job_exp := job_exp sd - pc_nextjobexp env sd\<rparr>;
          sd = updatestatus [''job_level'', ''nextjobexp''] (sd\<lparr>job_level := u8 (job_level sd + 1)\<rparr>)
      in updatestatus [''skill_point''] (sd\<lparr>skill_point := s16 (skill_point sd + 1)\<rparr>))"

definition pc_checkjoblevelup :: "char_env \<Rightarrow> character \<Rightarrow> (bool \<times> character) option" where
  "pc_checkjoblevelup env sd =
     (if job_exp sd \<ge> pc_nextjobexp env sd \<and> pc_nextjobexp env sd > 0
      then do {
        sd \<leftarrow> status_calc_pc env (raise_job_level env sd);
        Some (True, say (Misceffect 1) sd)}
      else Some (False, sd))"

partial_function (option) base_level_loop :: "char_env \<Rightarrow> character \<Rightarrow> character option" where
  "base_level_loop env sd = do {
     (up, sd) \<leftarrow> pc_checkbaselevelup env sd;
     if up then base_level_loop env sd else Some sd}"

partial_function (option) job_level_loop :: "char_env \<Rightarrow> character \<Rightarrow> character option" where
  "job_level_loop env sd = do {
     (up, sd) \<leftarrow> pc_checkjoblevelup env sd;
     if up then job_level_loop env sd else Some sd}"

text \<open>Experience that is paid to the guild: \<open>guild_payexp\<close> of \<open>guild.c\<close>.\<close>

record exp_entry =
  cached_guild :: int
  cached_account :: int
  cached_exp :: int

type_synonym expcache = "int \<rightharpoonup> exp_entry"

text \<open>The share of a member, when the guild is loaded: \<open>exp_mode\<close> of the position.\<close>

definition guild_payexp :: "int option \<Rightarrow> character \<Rightarrow> int \<Rightarrow> expcache \<Rightarrow> int \<times> expcache" where
  "guild_payexp mode sd guild_exp cache =
     (case mode of None \<Rightarrow> (0, cache)
      | Some per \<Rightarrow>
        if guild_id sd = 0 \<or> per \<le> 0 then (0, cache)
        else (let per = (if per > 100 then 100 else per); exp2 = cdiv (s32 (guild_exp * per)) 100 in
          if exp2 \<le> 0 then (0, cache)
          else (exp2, cache(char_id sd \<mapsto>
            (case cache (char_id sd) of
               None \<Rightarrow> \<lparr>cached_guild = guild_id sd, cached_account = account_id sd, cached_exp = exp2\<rparr>
             | Some c \<Rightarrow> c\<lparr>cached_exp := s32 (cached_exp c + exp2)\<rparr>)))))"

record situation =
  on_map :: bool
  is_dead :: bool
  pvp_map :: bool
  richmankim :: "int option"
  exp_mode :: "int option"

definition richman_exp :: "situation \<Rightarrow> int \<Rightarrow> int" where
  "richman_exp sit e = (case richmankim sit of None \<Rightarrow> e | Some v \<Rightarrow> cdiv (s32 (e * (125 + v * 11))) 100)"

text \<open>Without \<open>multi_level_up\<close> no more is given than what the level after the next one asks for.\<close>

definition clip_exp :: "char_env \<Rightarrow> int \<Rightarrow> int \<Rightarrow> int \<Rightarrow> int" where
  "clip_exp env after old e =
     (if multi_level_up (config env) = 0 \<and> after \<noteq> 0 \<and> s32 (old + e) \<ge> after
      then (if after - old < 0 then 0 else after - old) else e)"

definition add_exp :: "int \<Rightarrow> int \<Rightarrow> int" where
  "add_exp old e = (if s32 (old + e) < 0 then 0 else s32 (old + e))"

definition pc_gainexp :: "char_env \<Rightarrow> situation \<Rightarrow> int \<Rightarrow> int \<Rightarrow> expcache \<times> character \<Rightarrow> (expcache \<times> character) option" where
  "pc_gainexp env sit base job = (\<lambda>(cache, sd).
     if \<not> on_map sit \<or> is_dead sit then Some (cache, sd)
     else if pvp_exp (config env) = 0 \<and> pvp_map sit then Some (cache, sd)
     else do {
       let base = richman_exp sit base;
       let job = richman_exp sit job;
       let (paid, cache) = (if guild_id sd > 0 then guild_payexp (exp_mode sit) sd base cache else (0, cache));
       let base = (if guild_id sd > 0 then max 0 (base - paid) else base);
       let base = clip_exp env (pc_nextbaseafter env sd) (base_exp sd) base;
       let sd = sd\<lparr>base_exp := add_exp (base_exp sd) base\<rparr>;
       let job = clip_exp env (pc_nextjobafter env sd) (job_exp sd) job;
       let sd = sd\<lparr>job_exp := add_exp (job_exp sd) job\<rparr>;
       sd \<leftarrow> base_level_loop env sd;
       sd \<leftarrow> job_level_loop env sd;
       Some (cache, updatestatus [''base_exp'', ''job_exp''] sd)})"

section \<open>Skills\<close>

text \<open>A number that is not one of a skill is an index outside the array: there is no result.\<close>

definition pc_skillup :: "char_env \<Rightarrow> int \<Rightarrow> character \<Rightarrow> character option" where
  "pc_skillup env n sd =
     (if n \<ge> 10000 then Some (say (Guild_skillup n) sd)
      else if skill_point sd > 0
      then (if \<not> in_array n then None
            else if skill_id (skill sd n) \<noteq> 0 \<and> lv (skill sd n) < skill_tree_get_max env n (job_class sd)
            then do {
              let sd = sd\<lparr>skill := set_lv n (u8 (lv (skill sd n) + 1)) (skill sd), skill_point := skill_point sd - 1\<rparr>;
              sd \<leftarrow> status_calc_pc env sd;
              Some (say Skillinfoblock (updatestatus [''skill_point''] (say (Skillup n) sd)))}
            else Some sd)
      else Some sd)"

definition reset_all_ids :: "skills \<Rightarrow> skills" where
  "reset_all_ids sk = (\<lambda>i.
     if in_array i then
       (let e = (sk i)\<lparr>skill_id := 0\<rparr> in
        if skill_flag e \<noteq> 0 \<and> skill_flag e \<noteq> 13
        then e\<lparr>lv := (if skill_flag e = 1 then 0 else skill_flag e - 2), skill_flag := 0\<rparr> else e)
     else sk i)"

text \<open>A game master: the level that is set to 0 is the one with the number of the place in the row, not of its skill.\<close>

definition give_job_skill :: "char_env \<Rightarrow> int \<Rightarrow> bool \<Rightarrow> int \<times> skill_tree_entry \<Rightarrow> skills \<Rightarrow> skills" where
  "give_job_skill env gm high_novice = (\<lambda>(place, e) sk.
     let i = entry_id e in
     if skill_flag (sk i) = 13 then sk
     else if free_skill env gm high_novice i then set_lv i (entry_max e) (set_id i i sk)
     else set_lv place 0 sk)"

definition give_own_skill :: "char_env \<Rightarrow> bool \<Rightarrow> skill_tree_entry \<Rightarrow> skills \<Rightarrow> skills" where
  "give_own_skill env high_novice e sk =
     (let i = entry_id e in
      if skill_flag (sk i) \<noteq> 13 \<and>
         (\<not> odd (skill_get_inf2 env i) \<or> quest_skill_learn (config env) \<noteq> 0 \<or> high_novice \<and> (i = 142 \<or> i = 143))
      then set_lv i (entry_max e) (set_id i i sk) else sk)"

definition places :: "skill_tree_entry list \<Rightarrow> (int \<times> skill_tree_entry) list" where
  "places es = zip (map int [0..<length es]) es"

definition pc_allskillup :: "char_env \<Rightarrow> character \<Rightarrow> character option" where
  "pc_allskillup env sd =
     (let sk = reset_all_ids (skill sd); (c, s, type) = pc_calc_base_job (job_class sd);
          sk = (if GM_level sd \<ge> gm_allskill (config env)
                then fold (give_skill env (GM_level sd) (c = 1) True) (all_rows env) sk
                else if GM_level sd \<ge> gm_all_skill_job (config env)
                then fold (give_job_skill env (GM_level sd) (s = 1)) (places (row env s c)) sk
                else fold (give_own_skill env (s = 1)) (row env s c) sk)
      in status_calc_pc env (no_skill_points (say Skillinfoblock (sd\<lparr>skill := sk\<rparr>))))"

text \<open>Taking a skill back, with the points that were spent on it.\<close>

definition unlearn :: "char_env \<Rightarrow> bool \<Rightarrow> int \<Rightarrow> int \<times> skills \<Rightarrow> int \<times> skills" where
  "unlearn env upper1 i = (\<lambda>(sp, sk).
     if i = NV_BASIC \<and> (quest_skill_learn (config env) = 0 \<or> upper1 \<or> lv (sk NV_BASIC) = 9) then (sp, sk)
     else if lv (sk i) > 0 then
       (let (sp, sk) =
          (if \<not> odd (skill_get_inf2 env i) \<or> quest_skill_learn (config env) \<noteq> 0
           then (if skill_flag (sk i) = 0 then s16 (sp + lv (sk i))
                 else if skill_flag (sk i) > 2 \<and> skill_flag (sk i) \<noteq> 13 then s16 (sp + (skill_flag (sk i) - 2)) else sp,
                 set_lv i 0 sk)
           else if quest_skill_reset (config env) \<noteq> 0 then (sp, set_lv i 0 sk) else (sp, sk))
        in (sp, sk(i := (sk i)\<lparr>skill_flag := 0\<rparr>)))
     else (sp, set_lv i 0 sk))"

definition pc_resetskill :: "char_env \<Rightarrow> character \<Rightarrow> character option" where
  "pc_resetskill env sd =
     (if GM_level sd \<ge> gm_allskill (config env) \<or> GM_level sd \<ge> gm_all_skill_job (config env) then Some sd
      else (let (c, s, type) = pc_calc_base_job (job_class sd);
                (sp, sk) = fold (unlearn env (s = 1)) [1..MAX_SKILL - 1] (skill_point sd, skill sd)
            in status_calc_pc env (say Skillinfoblock (updatestatus [''skill_point''] (sd\<lparr>skill_point := sp, skill := sk\<rparr>)))))"

text \<open>Setting a skill (\<open>pc_skill\<close>): for good, by adding to it, or by a card.\<close>

definition MAX_SKILL_LEVEL :: int where
  "MAX_SKILL_LEVEL = 100"

definition learned :: "int \<Rightarrow> int \<Rightarrow> skill \<Rightarrow> skill" where
  "learned i l s =
     (if skill_flag s = 1 \<or> skill_flag s \<ge> 2 \<and> skill_flag s \<noteq> 13
      then (if lv s \<le> l then s\<lparr>lv := u8 l, skill_flag := 0\<rparr> else s\<lparr>skill_flag := u8 (l + 2)\<rparr>)
      else s\<lparr>lv := u8 l\<rparr>)"

definition added :: "int \<Rightarrow> int \<Rightarrow> skill \<Rightarrow> skill" where
  "added i l s =
     (if skill_flag s = 1 then (if lv s \<le> l then s\<lparr>lv := u8 l, skill_flag := 0\<rparr> else s\<lparr>skill_flag := u8 (l + 2)\<rparr>)
      else if skill_flag s \<ge> 2 \<and> skill_flag s \<noteq> 13
      then (if lv s \<le> skill_flag s - 2 + l then s\<lparr>lv := u8 (skill_flag s - 2 + l), skill_flag := 0\<rparr>
            else s\<lparr>skill_flag := u8 (skill_flag s + l)\<rparr>)
      else s\<lparr>lv := u8 (lv s + l)\<rparr>)"

definition by_card :: "int \<Rightarrow> int \<Rightarrow> skill \<Rightarrow> skill" where
  "by_card i l s =
     (if lv s < l then
        (let s = (if skill_flag s = 0
                  then (if skill_id s = i then s\<lparr>skill_flag := u8 (lv s + 2)\<rparr> else s\<lparr>skill_id := i, skill_flag := 1\<rparr>) else s)
         in s\<lparr>lv := u8 l\<rparr>)
      else s)"

definition known :: "int \<Rightarrow> skill \<Rightarrow> skill" where
  "known i s = (if lv s \<noteq> 0 then s\<lparr>skill_id := i\<rparr> else s)"

definition pc_skill :: "char_env \<Rightarrow> int \<Rightarrow> int \<Rightarrow> int \<Rightarrow> character \<Rightarrow> character option" where
  "pc_skill env i l flag sd =
     (if l > MAX_SKILL_LEVEL then Some sd
      else if \<not> in_array i then None
      else if flag = 0 \<or> flag = 2
      then do {
        let s = (if flag = 0 then learned i l (skill sd i) else added i l (skill sd i));
        sd \<leftarrow> status_calc_pc env (sd\<lparr>skill := (skill sd)(i := known i s)\<rparr>);
        Some (say Skillinfoblock sd)}
      else Some (sd\<lparr>skill := (skill sd)(i := by_card i l (skill sd i))\<rparr>))"

end
