(* ===== verification/GrowthProofs.thy ===== *)
theory GrowthProofs
  imports Growth SkillTreeProofs Leveling
begin

text \<open>
  How characters grow: experience is neither lost nor made, raising levels ends, and the points for attributes are just
  those of the level.
\<close>

section \<open>Points for attributes\<close>

definition raise_cost :: "int \<Rightarrow> int" where
  "raise_cost v = (v + 9) div 10 + 1"

definition stat_cost :: "int \<Rightarrow> int" where
  "stat_cost v = (\<Sum>u \<in> {1..<v}. raise_cost u)"

lemma stat_cost_1 [simp]: "stat_cost 1 = 0"
  by (simp add: stat_cost_def)

lemma stat_cost_Suc: "1 \<le> v \<Longrightarrow> stat_cost (v + 1) = stat_cost v + raise_cost v"
proof -
  assume "1 \<le> v"
  then have "{1..<v + 1} = insert v {1..<v}" by auto
  then show ?thesis by (simp add: stat_cost_def)
qed

lemma raise_cost_pos: "1 \<le> v \<Longrightarrow> 1 \<le> raise_cost v"
  by (simp add: raise_cost_def)

definition stats_cost :: "character \<Rightarrow> int" where
  "stats_cost sd = sum_list (map (\<lambda>t. stat_cost (stat t sd)) stat_types)"

text \<open>The points of a level, with those of a character that was born again.\<close>

definition stat_budget :: "char_env \<Rightarrow> character \<Rightarrow> int" where
  "stat_budget env sd = statp env (base_level sd - 1) + (if is_upper sd then 52 else 0)"

text \<open>Points and attributes agree; the points of a character with nothing left to raise are taken away.\<close>

definition stats_ok :: "char_env \<Rightarrow> character \<Rightarrow> bool" where
  "stats_ok env sd \<longleftrightarrow> (\<forall>t \<in> set stat_types. 1 \<le> stat t sd \<and> stat t sd < 2 ^ 15) \<and>
     (if all_max env sd then status_point sd = 0 else 0 \<le> status_point sd \<and> status_point sd + stats_cost sd = stat_budget env sd)"

text \<open>What is assumed of the tables and settings: \<open>statpoint.txt\<close> gives what a new level gives.\<close>

definition growth_env_ok :: "char_env \<Rightarrow> bool" where
  "growth_env_ok env \<longleftrightarrow> skill_tree_ok env \<and> statp env 0 = 48 \<and>
     list_all (\<lambda>l. statp env l = statp env (l - 1) + (l + 15) div 5) [1..MAX_LEVEL - 1] \<and>
     1 < max_parameter (config env) \<and> max_parameter (config env) < 2 ^ 15"

lemma statp_step: "growth_env_ok env \<Longrightarrow> 1 \<le> l \<Longrightarrow> l < MAX_LEVEL \<Longrightarrow> statp env l = statp env (l - 1) + (l + 15) div 5"
  by (simp add: growth_env_ok_def list_all_iff)

lemma statp_bound: "growth_env_ok env \<Longrightarrow> n < 255 \<Longrightarrow> 0 \<le> statp env (int n) \<and> statp env (int n) \<le> 48 + 53 * int n"
proof (induction n)
  case 0
  then show ?case by (simp add: growth_env_ok_def)
next
  case (Suc n)
  have "statp env (int (Suc n)) = statp env (int (Suc n) - 1) + (int (Suc n) + 15) div 5"
    using Suc.prems by (intro statp_step) (auto simp: MAX_LEVEL_def)
  moreover have "0 \<le> (int (Suc n) + 15) div 5 \<and> (int (Suc n) + 15) div 5 \<le> 53" using Suc.prems(2) by presburger
  ultimately show ?case using Suc by simp
qed

lemma budget_bound:
  assumes "growth_env_ok env" "1 \<le> base_level sd" "base_level sd < 256"
  shows "0 \<le> stat_budget env sd \<and> stat_budget env sd \<le> 14000"
proof -
  have "nat (base_level sd - 1) < 255" using assms(2,3) by simp
  from statp_bound [OF assms(1) this] show ?thesis using assms(2,3) by (simp add: stat_budget_def)
qed

lemma stat_cost_nonneg: "0 \<le> stat_cost v"
  unfolding stat_cost_def by (rule sum_nonneg) (use raise_cost_pos in force)

lemma stats_cost_nonneg: "0 \<le> stats_cost sd"
  unfolding stats_cost_def by (rule sum_list_nonneg) (auto simp: stat_cost_nonneg)

text \<open>What these conditions read of a character.\<close>

lemma stat_other: "stat t (other_fields sd) = stat t sd"
  by (simp add: stat_def other_fields_def)

lemma other_fieldsD:
  assumes "other_fields a = other_fields b"
  shows "job_class a = job_class b" "map_class a = map_class b" "base_level a = base_level b" "job_level a = job_level b"
    "base_exp a = base_exp b" "job_exp a = job_exp b" "status_point a = status_point b" "stat t a = stat t b"
    "GM_level a = GM_level b" "change_level a = change_level b" "guild_id a = guild_id b" "party_id a = party_id b"
    "is_upper a = is_upper b" "is_baby a = is_baby b"
proof -
  have "f (other_fields a) = f (other_fields b)" for f :: "character \<Rightarrow> int" using assms by simp
  from this [of job_class] this [of map_class] this [of base_level] this [of job_level] this [of base_exp] this [of job_exp]
    this [of status_point] this [of "stat t"] this [of GM_level] this [of change_level] this [of guild_id] this [of party_id]
  show "job_class a = job_class b" "map_class a = map_class b" "base_level a = base_level b" "job_level a = job_level b"
    "base_exp a = base_exp b" "job_exp a = job_exp b" "status_point a = status_point b" "stat t a = stat t b"
    "GM_level a = GM_level b" "change_level a = change_level b" "guild_id a = guild_id b" "party_id a = party_id b"
    "is_upper a = is_upper b" "is_baby a = is_baby b"
    by (simp_all add: other_fields_def is_upper_def is_baby_def stat_other [unfolded other_fields_def])
qed

lemma stats_ok_other: "other_fields a = other_fields b \<Longrightarrow> stats_ok env a = stats_ok env b"
  by (simp add: stats_ok_def all_max_def stats_cost_def stat_budget_def other_fieldsD [of a b] cong: map_cong)

text \<open>Where nothing takes points for skills away, they must have room in a \<open>short\<close> for those of the levels to come.\<close>

definition room_for_points :: "character \<Rightarrow> bool" where
  "room_for_points sd \<longleftrightarrow> skill_point sd \<le> 30000 + job_level sd"

definition grown_ok :: "char_env \<Rightarrow> character \<Rightarrow> bool" where
  "grown_ok env sd \<longleftrightarrow> character_ok sd \<and> points_ok env sd \<and> stats_ok env sd \<and> 1 \<le> base_level sd \<and> base_level sd < 256 \<and>
     room_for_points sd"

text \<open>After a change, the calculation makes the points for skills agree again.\<close>

lemma status_calc_grown:
  assumes "growth_env_ok env" "character_ok sd" "stats_ok env sd" "1 \<le> base_level sd" "base_level sd < 256" "room_for_points sd"
  obtains sd' where "status_calc_pc env sd = Some sd'" "grown_ok env sd'" "other_fields sd' = other_fields sd"
proof -
  have "skill_tree_ok env" using assms(1) by (simp add: growth_env_ok_def)
  from pc_calc_skilltree_ok [OF this assms(2)] obtain sd' where sd': "pc_calc_skilltree env sd = Some sd'" "character_ok sd'"
    "points_ok env sd'" "other_fields sd' = other_fields sd" "skill_point sd' \<le> max (skill_point sd) 400" .
  then have "room_for_points sd'"
    using assms(2,6) other_fieldsD(4) [OF sd'(4)] sd'(5) unfolding room_for_points_def character_ok_def by linarith
  then have "grown_ok env sd'"
    using assms(3-5) sd'(2,3) stats_ok_other [OF sd'(4)] other_fieldsD(3) [OF sd'(4)] by (simp add: grown_ok_def)
  then show thesis using that sd' by (simp add: status_calc_pc_def)
qed

text \<open>Messages change nothing.\<close>

lemma other_updatestatus [simp]: "other_fields (updatestatus ns sd) = other_fields sd"
  unfolding updatestatus_def by (induction ns arbitrary: sd) simp_all

lemma skill_updatestatus [simp]: "skill (updatestatus ns sd) = skill sd" "skill_point (updatestatus ns sd) = skill_point sd"
  unfolding updatestatus_def by (induction ns arbitrary: sd) simp_all

lemma quiet_other:
  assumes "other_fields sd' = other_fields sd" "skill sd' = skill sd" "skill_point sd' = skill_point sd"
  shows "character_ok sd' = character_ok sd" "points_ok env sd' = points_ok env sd" "grown_ok env sd' = grown_ok env sd"
proof -
  note o = other_fieldsD [OF assms(1)]
  show c: "character_ok sd' = character_ok sd" by (simp add: character_ok_def o assms)
  show p: "points_ok env sd' = points_ok env sd"
    by (simp add: points_ok_def least_points_def greatest_points_def total_points_def is_gm_def o assms)
  show "grown_ok env sd' = grown_ok env sd"
    by (simp add: grown_ok_def c p stats_ok_other [OF assms(1)] o room_for_points_def assms)
qed

section \<open>A level\<close>

lemma other_blessings [simp]: "other_fields (blessings sd) = other_fields sd" "skill (blessings sd) = skill sd"
  "skill_point (blessings sd) = skill_point sd"
  by (simp_all add: blessings_def)

lemma stat_level_simps [simp]:
  "stat t (sd\<lparr>base_exp := x\<rparr>) = stat t sd" "stat t (sd\<lparr>base_level := l\<rparr>) = stat t sd" "stat t (sd\<lparr>status_point := p\<rparr>) = stat t sd"
  "stat t (sd\<lparr>job_exp := x\<rparr>) = stat t sd" "stat t (sd\<lparr>job_level := l\<rparr>) = stat t sd" "stat t (sd\<lparr>skill_point := p\<rparr>) = stat t sd"
  "stat t (sd\<lparr>skill := sk\<rparr>) = stat t sd" "stat t (say m sd) = stat t sd"
  by (simp_all add: stat_def say_def)

lemma stats_ok_cong:
  assumes "\<And>t. stat t a = stat t b" "status_point a = status_point b" "base_level a = base_level b" "map_class a = map_class b"
  shows "stats_ok env a = stats_ok env b"
  by (simp add: stats_ok_def all_max_def stats_cost_def stat_budget_def is_upper_def assms)

definition with_level :: "char_env \<Rightarrow> character \<Rightarrow> character" where
  "with_level env sd = sd\<lparr>base_exp := base_exp sd - pc_nextbaseexp env sd, base_level := base_level sd + 1,
     status_point := (if all_max env sd then 0 else status_point sd + (base_level sd + 15) div 5)\<rparr>"

lemma raise_base_level_eq:
  assumes "growth_env_ok env" "stats_ok env sd" "1 \<le> base_level sd" "base_level sd < MAX_LEVEL"
  shows "raise_base_level env sd = updatestatus [''status_point'', ''base_level'', ''nextbaseexp''] (with_level env sd)"
    "stats_ok env (with_level env sd)"
proof -
  have l: "u8 (base_level sd + 1) = base_level sd + 1" using assms(3,4) by (intro u8_id) (auto simp: MAX_LEVEL_def)
  have q: "cdiv (base_level sd + 15) 5 = (base_level sd + 15) div 5" using assms(3) by (intro cdiv_nonneg) auto
  have q2: "0 \<le> (base_level sd + 15) div 5" using assms(3) by simp
  have step: "statp env (base_level sd) = statp env (base_level sd - 1) + (base_level sd + 15) div 5"
    using statp_step [OF assms(1), of "base_level sd"] assms(3,4) by simp
  have budget: "stat_budget env (with_level env sd) = stat_budget env sd + (base_level sd + 15) div 5"
    using step by (simp add: stat_budget_def with_level_def is_upper_def)
  have "stat_budget env (with_level env sd) \<le> 14000"
    using budget_bound [OF assms(1), of "with_level env sd"] assms(3,4) by (simp add: with_level_def MAX_LEVEL_def)
  then have sp: "s16 (status_point sd + (base_level sd + 15) div 5) = status_point sd + (base_level sd + 15) div 5" if "\<not> all_max env sd"
    using that assms(2) q2 stats_cost_nonneg [of sd] budget by (intro s16_id) (auto simp: stats_ok_def)
  have same: "stat t (with_level env sd) = stat t sd" for t by (simp add: with_level_def stat_def)
  have am: "all_max env (with_level env sd) = all_max env sd" by (simp add: all_max_def same)
  have e: "base_level sd + 1 + 14 = base_level sd + 15" by simp
  show "raise_base_level env sd = updatestatus [''status_point'', ''base_level'', ''nextbaseexp''] (with_level env sd)"
    using sp by (simp add: raise_base_level_def Let_def with_level_def l e q all_max_def)
  have cost: "stats_cost (with_level env sd) = stats_cost sd" by (simp add: stats_cost_def same)
  have "status_point (with_level env sd) = (if all_max env sd then 0 else status_point sd + (base_level sd + 15) div 5)"
    by (simp add: with_level_def)
  then show "stats_ok env (with_level env sd)"
    using assms(2) q2 budget cost am same by (simp add: stats_ok_def)
qed

definition kept_base :: "character \<Rightarrow> character \<Rightarrow> bool" where
  "kept_base sd' sd \<longleftrightarrow> job_class sd' = job_class sd \<and> map_class sd' = map_class sd \<and> job_level sd' = job_level sd \<and>
     job_exp sd' = job_exp sd \<and> guild_id sd' = guild_id sd"

definition kept_job :: "character \<Rightarrow> character \<Rightarrow> bool" where
  "kept_job sd' sd \<longleftrightarrow> job_class sd' = job_class sd \<and> map_class sd' = map_class sd \<and> base_level sd' = base_level sd \<and>
     base_exp sd' = base_exp sd \<and> status_point sd' = status_point sd \<and> guild_id sd' = guild_id sd"

definition base_required :: "char_env \<Rightarrow> character \<Rightarrow> int \<Rightarrow> int" where
  "base_required env sd l = exp_table env (exp_group (job_class sd)) (l - 1)"

definition job_required :: "char_env \<Rightarrow> character \<Rightarrow> int \<Rightarrow> int" where
  "job_required env sd l = exp_table env (7 + exp_group (job_class sd)) (l - 1)"

lemma nextexp_required:
  "1 \<le> base_level sd \<Longrightarrow> pc_nextbaseexp env sd = (if MAX_LEVEL \<le> base_level sd then 0 else base_required env sd (base_level sd))"
  "1 \<le> job_level sd \<Longrightarrow> pc_nextjobexp env sd = (if MAX_LEVEL \<le> job_level sd then 0 else job_required env sd (job_level sd))"
  by (simp_all add: pc_nextbaseexp_def pc_nextjobexp_def base_required_def job_required_def)

lemma base_level_step:
  assumes env: "growth_env_ok env" and ok: "grown_ok env sd"
    and l: "base_level sd < MAX_LEVEL" "0 < base_required env sd (base_level sd)" "base_required env sd (base_level sd) \<le> base_exp sd"
  shows "\<exists>sd'. pc_checkbaselevelup env sd = Some (True, sd') \<and> grown_ok env sd' \<and> kept_base sd' sd \<and>
    base_exp sd' = base_exp sd - base_required env sd (base_level sd) \<and> base_level sd' = base_level sd + 1"
proof -
  have pos: "1 \<le> base_level sd" using ok by (simp add: grown_ok_def)
  have nb: "pc_nextbaseexp env sd = base_required env sd (base_level sd)" using nextexp_required(1) [OF pos] l(1) by simp
  have st: "stats_ok env sd" "character_ok sd" using ok by (simp_all add: grown_ok_def)
  define sd1 where "sd1 = raise_base_level env sd"
  note eq = raise_base_level_eq [OF env st(1) pos l(1)]
  have o1: "other_fields sd1 = other_fields (with_level env sd)" unfolding sd1_def eq(1) by simp
  note f1 = other_fieldsD [OF o1]
  have c1: "character_ok sd1"
    using st(2) f1(1,4) eq(1) by (simp add: character_ok_def sd1_def with_level_def)
  have s1: "stats_ok env sd1" using eq(2) stats_ok_other [OF o1] by simp
  have "1 \<le> base_level sd1" "base_level sd1 < 256" using f1(3) pos l(1) by (simp_all add: with_level_def MAX_LEVEL_def)
  moreover have "room_for_points sd1" using ok f1(4) by (simp add: grown_ok_def room_for_points_def sd1_def eq(1) with_level_def)
  ultimately have "\<exists>sd2. status_calc_pc env sd1 = Some sd2 \<and> grown_ok env sd2 \<and> other_fields sd2 = other_fields sd1"
    using status_calc_grown [OF env c1 s1] by metis
  then obtain sd2 where sd2: "status_calc_pc env sd1 = Some sd2" "grown_ok env sd2"
    "other_fields sd2 = other_fields sd1" by blast
  define sd3 where "sd3 = (let sd = say (Misceffect 0) (blessings sd2) in if party_id sd > 0 then say Party_send_movemap sd else sd)"
  have o3: "other_fields sd3 = other_fields sd2" "skill sd3 = skill sd2" "skill_point sd3 = skill_point sd2"
    by (simp_all add: sd3_def Let_def)
  have "pc_checkbaselevelup env sd = Some (True, sd3)"
    unfolding pc_checkbaselevelup_def using nb l sd2(1) by (simp add: sd1_def sd3_def Let_def)
  moreover have "grown_ok env sd3" using quiet_other(3) [OF o3] sd2(2) by simp
  moreover have o: "other_fields sd3 = other_fields (with_level env sd)" using o3(1) sd2(3) o1 by simp
  have "kept_base sd3 sd" using other_fieldsD [OF o] by (simp add: kept_base_def with_level_def)
  moreover have "base_exp sd3 = base_exp sd - base_required env sd (base_level sd)" "base_level sd3 = base_level sd + 1"
    using other_fieldsD(3,5) [OF o] nb by (simp_all add: with_level_def)
  ultimately show ?thesis by blast
qed

lemma skill_point_bound: "grown_ok env sd \<Longrightarrow> 0 \<le> skill_point sd \<and> skill_point sd < 30500"
  by (simp add: grown_ok_def character_ok_def room_for_points_def)

definition with_job_level :: "char_env \<Rightarrow> character \<Rightarrow> character" where
  "with_job_level env sd = sd\<lparr>job_exp := job_exp sd - pc_nextjobexp env sd, job_level := job_level sd + 1, skill_point := skill_point sd + 1\<rparr>"

lemma updatestatus_fields [simp]:
  "base_exp (updatestatus ns sd) = base_exp sd" "job_exp (updatestatus ns sd) = job_exp sd"
  "base_level (updatestatus ns sd) = base_level sd" "job_level (updatestatus ns sd) = job_level sd"
  "job_class (updatestatus ns sd) = job_class sd" "map_class (updatestatus ns sd) = map_class sd"
  "status_point (updatestatus ns sd) = status_point sd" "stat t (updatestatus ns sd) = stat t sd" "guild_id (updatestatus ns sd) = guild_id sd"
  by (rule other_fieldsD [OF other_updatestatus])+

lemma other_fields_eqI:
  assumes "other_fields a = other_fields b"
  shows "other_fields (a\<lparr>job_exp := x\<rparr>) = other_fields (b\<lparr>job_exp := x\<rparr>)" "other_fields (a\<lparr>job_level := l\<rparr>) = other_fields (b\<lparr>job_level := l\<rparr>)"
    "other_fields (a\<lparr>base_exp := x\<rparr>) = other_fields (b\<lparr>base_exp := x\<rparr>)"
proof -
  have e: "other_fields (c\<lparr>job_exp := x\<rparr>) = (other_fields c)\<lparr>job_exp := x\<rparr>" "other_fields (c\<lparr>job_level := l\<rparr>) = (other_fields c)\<lparr>job_level := l\<rparr>"
    "other_fields (c\<lparr>base_exp := x\<rparr>) = (other_fields c)\<lparr>base_exp := x\<rparr>" for c
    by (simp_all add: other_fields_def)
  show "other_fields (a\<lparr>job_exp := x\<rparr>) = other_fields (b\<lparr>job_exp := x\<rparr>)" "other_fields (a\<lparr>job_level := l\<rparr>) = other_fields (b\<lparr>job_level := l\<rparr>)"
    "other_fields (a\<lparr>base_exp := x\<rparr>) = other_fields (b\<lparr>base_exp := x\<rparr>)"
    using assms by (simp_all add: e)
qed

lemma raise_job_level_facts:
  assumes "1 \<le> job_level sd" "job_level sd < MAX_LEVEL" "0 \<le> skill_point sd" "skill_point sd < 30500"
  shows "other_fields (raise_job_level env sd) = other_fields (with_job_level env sd)" "skill (raise_job_level env sd) = skill sd"
    "skill_point (raise_job_level env sd) = skill_point sd + 1"
proof -
  have l: "u8 (job_level sd + 1) = job_level sd + 1" using assms by (intro u8_id) (auto simp: MAX_LEVEL_def)
  have p: "s16 (skill_point sd + 1) = skill_point sd + 1" using assms by (intro s16_id) auto
  show "other_fields (raise_job_level env sd) = other_fields (with_job_level env sd)"
    by (simp add: raise_job_level_def Let_def l) (simp add: other_fields_def with_job_level_def)
  show "skill (raise_job_level env sd) = skill sd" "skill_point (raise_job_level env sd) = skill_point sd + 1"
    by (simp_all add: raise_job_level_def Let_def p)
qed

lemma job_level_step:
  assumes env: "growth_env_ok env" and ok: "grown_ok env sd"
    and l: "job_level sd < MAX_LEVEL" "0 < job_required env sd (job_level sd)" "job_required env sd (job_level sd) \<le> job_exp sd"
  shows "\<exists>sd'. pc_checkjoblevelup env sd = Some (True, sd') \<and> grown_ok env sd' \<and> kept_job sd' sd \<and>
    job_exp sd' = job_exp sd - job_required env sd (job_level sd) \<and> job_level sd' = job_level sd + 1"
proof -
  have ch: "character_ok sd" "stats_ok env sd" "1 \<le> base_level sd" "base_level sd < 256" using ok by (simp_all add: grown_ok_def)
  then have pos: "1 \<le> job_level sd" by (simp add: character_ok_def)
  have nj: "pc_nextjobexp env sd = job_required env sd (job_level sd)" using nextexp_required(2) [OF pos] l(1) by simp
  have sp: "0 \<le> skill_point sd" "skill_point sd < 30500" using skill_point_bound [OF ok] by auto
  define sd1 where "sd1 = raise_job_level env sd"
  note f = raise_job_level_facts [OF pos l(1) sp, of env, folded sd1_def]
  note o1 = other_fieldsD [OF f(1)]
  have "character_ok sd1" using ch(1) o1(1,4) f(2,3) sp l(1) by (simp add: character_ok_def with_job_level_def MAX_LEVEL_def)
  moreover have "stats_ok env sd1"
    using ch(2) stats_ok_cong [of sd1 sd env] o1 by (simp add: with_job_level_def)
  moreover have "1 \<le> base_level sd1" "base_level sd1 < 256" using ch(3,4) o1(3) by (simp_all add: with_job_level_def)
  moreover have "room_for_points sd1" using ok f(3) o1(4) by (simp add: grown_ok_def room_for_points_def with_job_level_def)
  ultimately obtain sd2 where sd2: "status_calc_pc env sd1 = Some sd2" "grown_ok env sd2" "other_fields sd2 = other_fields sd1"
    using status_calc_grown [OF env] by blast
  have "pc_checkjoblevelup env sd = Some (True, say (Misceffect 1) sd2)"
    unfolding pc_checkjoblevelup_def using nj l sd2(1) by (simp add: sd1_def)
  moreover have "grown_ok env (say (Misceffect 1) sd2)" using quiet_other(3) [of "say (Misceffect 1) sd2" sd2] sd2(2) by simp
  moreover have o: "other_fields (say (Misceffect 1) sd2) = other_fields (with_job_level env sd)" using sd2(3) f(1) by simp
  have "kept_job (say (Misceffect 1) sd2) sd" using other_fieldsD [OF o] by (simp add: kept_job_def with_job_level_def)
  moreover have "job_exp (say (Misceffect 1) sd2) = job_exp sd - job_required env sd (job_level sd)"
    "job_level (say (Misceffect 1) sd2) = job_level sd + 1"
    using other_fieldsD(4,6) [OF o] nj by (simp_all add: with_job_level_def)
  ultimately show ?thesis by blast
qed

text \<open>Both levels are raised in the same way.\<close>

definition env_grown :: "char_env \<Rightarrow> character \<Rightarrow> bool" where
  "env_grown env sd \<longleftrightarrow> growth_env_ok env \<and> grown_ok env sd"

interpretation base_leveling: leveling base_exp base_level "base_required env" MAX_LEVEL "pc_checkbaselevelup env" "base_level_loop env"
  "env_grown env" kept_base for env
proof
  show "base_level_loop env s = pc_checkbaselevelup env s \<bind> (\<lambda>(up, s). if up then base_level_loop env s else Some s)" for s
    by (rule base_level_loop.simps)
  show "pc_checkbaselevelup env s = Some (False, s)"
    if "env_grown env s" "MAX_LEVEL \<le> base_level s \<or> base_required env s (base_level s) \<le> 0 \<or> base_exp s < base_required env s (base_level s)" for s
    using that nextexp_required(1) [of s env] by (auto simp: env_grown_def grown_ok_def pc_checkbaselevelup_def)
qed (auto simp: env_grown_def kept_base_def base_required_def dest: base_level_step)

interpretation job_leveling: leveling job_exp job_level "job_required env" MAX_LEVEL "pc_checkjoblevelup env" "job_level_loop env"
  "env_grown env" kept_job for env
proof
  show "job_level_loop env s = pc_checkjoblevelup env s \<bind> (\<lambda>(up, s). if up then job_level_loop env s else Some s)" for s
    by (rule job_level_loop.simps)
  show "pc_checkjoblevelup env s = Some (False, s)"
    if "env_grown env s" "MAX_LEVEL \<le> job_level s \<or> job_required env s (job_level s) \<le> 0 \<or> job_exp s < job_required env s (job_level s)" for s
    using that nextexp_required(2) [of s env] by (auto simp: env_grown_def grown_ok_def character_ok_def pc_checkjoblevelup_def)
qed (auto simp: env_grown_def kept_job_def job_required_def dest: job_level_step)

section \<open>Gaining experience\<close>

definition settled :: "char_env \<Rightarrow> character \<Rightarrow> bool" where
  "settled env sd \<longleftrightarrow> 0 \<le> base_exp sd \<and> 0 \<le> job_exp sd \<and>
     (MAX_LEVEL \<le> base_level sd \<or> base_required env sd (base_level sd) \<le> 0 \<or> base_exp sd < base_required env sd (base_level sd)) \<and>
     (MAX_LEVEL \<le> job_level sd \<or> job_required env sd (job_level sd) \<le> 0 \<or> job_exp sd < job_required env sd (job_level sd))"

definition player_ok :: "char_env \<Rightarrow> character \<Rightarrow> bool" where
  "player_ok env sd \<longleftrightarrow> grown_ok env sd \<and> settled env sd"

lemma settled_other: "other_fields a = other_fields b \<Longrightarrow> settled env a = settled env b"
  by (simp add: settled_def base_required_def job_required_def other_fieldsD [of a b])

lemma grown_ok_exp:
  "grown_ok env (sd\<lparr>base_exp := b\<rparr>) = grown_ok env sd" "grown_ok env (sd\<lparr>job_exp := j\<rparr>) = grown_ok env sd"
proof -
  have "stats_ok env (sd\<lparr>base_exp := b\<rparr>) = stats_ok env sd" "stats_ok env (sd\<lparr>job_exp := j\<rparr>) = stats_ok env sd"
    by (rule stats_ok_cong; simp)+
  then show "grown_ok env (sd\<lparr>base_exp := b\<rparr>) = grown_ok env sd" "grown_ok env (sd\<lparr>job_exp := j\<rparr>) = grown_ok env sd"
    by (simp_all add: grown_ok_def character_ok_def points_ok_def least_points_def greatest_points_def total_points_def is_gm_def
      room_for_points_def)
qed

definition base_spent :: "char_env \<Rightarrow> character \<Rightarrow> character \<Rightarrow> int" where
  "base_spent env sd sd' = (\<Sum>l \<in> {base_level sd..<base_level sd'}. base_required env sd l)"

definition job_spent :: "char_env \<Rightarrow> character \<Rightarrow> character \<Rightarrow> int" where
  "job_spent env sd sd' = (\<Sum>l \<in> {job_level sd..<job_level sd'}. job_required env sd l)"

text \<open>Both loops, from a state with new experience.\<close>

lemma level_loops:
  assumes env: "growth_env_ok env" and ok: "grown_ok env sd" and pos: "0 \<le> base_exp sd" "0 \<le> job_exp sd"
  obtains sd1 sd' where "base_level_loop env sd = Some sd1" "job_level_loop env sd1 = Some sd'" "player_ok env sd'"
    "base_level sd \<le> base_level sd'" "job_level sd \<le> job_level sd'"
    "base_exp sd = base_exp sd' + base_spent env sd sd'" "job_exp sd = job_exp sd' + job_spent env sd sd'"
    "base_level sd' = base_level sd1" "job_class sd' = job_class sd" "map_class sd' = map_class sd" "job_level sd1 = job_level sd"
    "job_exp sd1 = job_exp sd" "job_class sd1 = job_class sd" "grown_ok env sd1"
proof -
  have g: "env_grown env sd" using env ok by (simp add: env_grown_def)
  obtain sd1 where b: "base_level_loop env sd = Some sd1" "env_grown env sd1" "kept_base sd1 sd" "base_leveling.quiet env sd1"
    "base_level sd \<le> base_level sd1" "0 \<le> base_exp sd1" "base_exp sd = base_exp sd1 + base_leveling.spent env sd sd1"
    using base_leveling.loop_ends [OF g pos(1)] by blast
  have pos1: "0 \<le> job_exp sd1" using b(3) pos(2) by (simp add: kept_base_def)
  obtain sd' where j: "job_level_loop env sd1 = Some sd'" "env_grown env sd'" "kept_job sd' sd1" "job_leveling.quiet env sd'"
    "job_level sd1 \<le> job_level sd'" "0 \<le> job_exp sd'" "job_exp sd1 = job_exp sd' + job_leveling.spent env sd1 sd'"
    using job_leveling.loop_ends [OF b(2) pos1] by blast
  have k: "job_class sd' = job_class sd" "job_class sd1 = job_class sd" "map_class sd' = map_class sd" "base_level sd' = base_level sd1"
    "base_exp sd' = base_exp sd1" "job_level sd1 = job_level sd" "job_exp sd1 = job_exp sd"
    using b(3) j(3) by (simp_all add: kept_base_def kept_job_def)
  have req: "base_required env sd1 = base_required env sd" "base_required env sd' = base_required env sd"
    "job_required env sd1 = job_required env sd" "job_required env sd' = job_required env sd"
    by (simp_all add: base_required_def job_required_def k fun_eq_iff)
  have "settled env sd'"
    using b(4,6) j(4,6) by (simp add: settled_def base_leveling.quiet_def job_leveling.quiet_def k req)
  then have "player_ok env sd'" using j(2) by (simp add: player_ok_def env_grown_def)
  moreover have "base_exp sd = base_exp sd' + base_spent env sd sd'" "job_exp sd = job_exp sd' + job_spent env sd sd'"
    using b(7) j(7) by (simp_all add: base_spent_def job_spent_def base_leveling.spent_def job_leveling.spent_def k req)
  moreover have "grown_ok env sd1" using b(2) by (simp add: env_grown_def)
  ultimately show thesis using that [OF b(1) j(1)] b(5) j(5) k by simp
qed

lemma add_exp_nonneg: "0 \<le> add_exp old e"
  by (simp add: add_exp_def)

text \<open>The experience with which \<open>pc_gainexp\<close> goes into the loops.\<close>

definition with_exp :: "char_env \<Rightarrow> int \<Rightarrow> int \<Rightarrow> character \<Rightarrow> character" where
  "with_exp env b j sd = sd\<lparr>base_exp := add_exp (base_exp sd) (clip_exp env (pc_nextbaseafter env sd) (base_exp sd) b),
     job_exp := add_exp (job_exp sd) (clip_exp env (pc_nextjobafter env sd) (job_exp sd) j)\<rparr>"

definition arriving :: "situation \<Rightarrow> character \<Rightarrow> int \<Rightarrow> expcache \<Rightarrow> int \<times> expcache" where
  "arriving sit sd base cache =
     (let b = richman_exp sit base in
      if guild_id sd > 0 then (max 0 (b - fst (guild_payexp (exp_mode sit) sd b cache)), snd (guild_payexp (exp_mode sit) sd b cache))
      else (b, cache))"

lemma pc_gainexp_eq:
  "pc_gainexp env sit base job (cache, sd) =
     (if \<not> on_map sit \<or> is_dead sit \<or> (pvp_exp (config env) = 0 \<and> pvp_map sit) then Some (cache, sd)
      else do {
        sd1 \<leftarrow> base_level_loop env (with_exp env (fst (arriving sit sd base cache)) (richman_exp sit job) sd);
        sd' \<leftarrow> job_level_loop env sd1;
        Some (snd (arriving sit sd base cache), updatestatus [''base_exp'', ''job_exp''] sd')})"
proof -
  have after: "pc_nextjobafter env (sd\<lparr>base_exp := x\<rparr>) = pc_nextjobafter env sd" for x by (simp add: pc_nextjobafter_def)
  show ?thesis
    by (cases "on_map sit"; cases "is_dead sit"; cases "pvp_exp (config env) = 0 \<and> pvp_map sit"; cases "guild_id sd > 0")
      (auto simp: pc_gainexp_def Let_def with_exp_def arriving_def after split_beta)
qed

lemma with_exp_grown: "grown_ok env sd \<Longrightarrow> grown_ok env (with_exp env b j sd)"
  by (simp add: with_exp_def grown_ok_exp)

lemma gainexp_player_ok:
  assumes "growth_env_ok env" "player_ok env sd"
  shows "\<exists>cache' sd'. pc_gainexp env sit base job (cache, sd) = Some (cache', sd') \<and> player_ok env sd' \<and> base_level sd \<le> base_level sd'"
proof (cases "\<not> on_map sit \<or> is_dead sit \<or> pvp_exp (config env) = 0 \<and> pvp_map sit")
  case True
  then show ?thesis using assms(2) by (simp add: pc_gainexp_eq)
next
  case False
  let ?sd = "with_exp env (fst (arriving sit sd base cache)) (richman_exp sit job) sd"
  have "grown_ok env ?sd" using assms(2) by (simp add: player_ok_def with_exp_grown)
  moreover have "0 \<le> base_exp ?sd" "0 \<le> job_exp ?sd" by (simp_all add: with_exp_def add_exp_nonneg)
  ultimately obtain sd1 sd' where l: "base_level_loop env ?sd = Some sd1" "job_level_loop env sd1 = Some sd'" "player_ok env sd'"
    "base_level ?sd \<le> base_level sd'" using level_loops [OF assms(1)] by metis
  let ?sd' = "updatestatus [''base_exp'', ''job_exp''] sd'"
  have "player_ok env ?sd'"
    using l(3) quiet_other(3) [of ?sd' sd'] settled_other [of ?sd' sd'] by (simp add: player_ok_def)
  moreover have "base_level sd \<le> base_level ?sd'" using l(4) by (simp add: with_exp_def)
  moreover have "pc_gainexp env sit base job (cache, sd) = Some (snd (arriving sit sd base cache), ?sd')"
    unfolding pc_gainexp_eq using False l(1,2) by auto
  ultimately show ?thesis by blast
qed

lemma add_clip:
  assumes "0 \<le> old" "0 \<le> e" "old + e < 2 ^ 31"
  shows "add_exp old (clip_exp env after old e) \<le> old + e"
    "multi_level_up (config env) \<noteq> 0 \<Longrightarrow> add_exp old (clip_exp env after old e) = old + e"
    "multi_level_up (config env) = 0 \<Longrightarrow> after \<noteq> 0 \<Longrightarrow> add_exp old (clip_exp env after old e) \<le> max old after"
proof -
  have "s32 (old + e) = old + e" "s32 old = old" using assms by (intro s32_id; simp)+
  moreover have "s32 after = after" if "0 \<le> after" "after \<le> old + e" using that assms by (intro s32_id) simp_all
  ultimately show "add_exp old (clip_exp env after old e) \<le> old + e"
    "multi_level_up (config env) \<noteq> 0 \<Longrightarrow> add_exp old (clip_exp env after old e) = old + e"
    "multi_level_up (config env) = 0 \<Longrightarrow> after \<noteq> 0 \<Longrightarrow> add_exp old (clip_exp env after old e) \<le> max old after"
    using assms by (auto simp: add_exp_def clip_exp_def)
qed

lemma guild_payexp_bound:
  assumes "0 \<le> e"
  shows "0 \<le> fst (guild_payexp mode sd e cache)" "fst (guild_payexp mode sd e cache) \<le> e"
proof -
  have "cdiv (s32 (e * per)) 100 \<le> e" if "0 < per" "per \<le> 100" for per
  proof (cases "0 \<le> s32 (e * per)")
    case True
    have "s32 (e * per) \<le> 100 * e"
    proof (cases "e * per < 2 ^ 31")
      case True
      moreover have "0 \<le> e * per" using assms that by simp
      ultimately have "s32 (e * per) = e * per" by (intro s32_id) auto
      then show ?thesis using assms that by (simp add: mult_left_mono mult.commute)
    next
      case False
      have "s32 (e * per) < 2 ^ 31" using signed_take_bit_int_less_exp [of 31 "e * per"] by (simp add: s32_def)
      moreover have "e * per \<le> e * 100" using assms that by (intro mult_left_mono) auto
      ultimately show ?thesis using False by simp
    qed
    then show ?thesis using True by (simp add: cdiv_nonneg)
  next
    case False
    then have "cdiv (s32 (e * per)) 100 \<le> 0" by (simp add: cdiv_def)
    then show ?thesis using assms by simp
  qed
  then show "0 \<le> fst (guild_payexp mode sd e cache)" "fst (guild_payexp mode sd e cache) \<le> e"
    using assms by (auto simp: guild_payexp_def Let_def split: option.splits)
qed

lemma arriving_bound:
  assumes "0 \<le> richman_exp sit base"
  shows "0 \<le> fst (arriving sit sd base cache)" "fst (arriving sit sd base cache) \<le> richman_exp sit base"
  using guild_payexp_bound [OF assms(1), of "exp_mode sit" sd cache] assms
  by (auto simp: arriving_def Let_def)

lemma nextafter_required:
  "1 \<le> base_level sd \<Longrightarrow> base_level sd < MAX_LEVEL \<Longrightarrow> pc_nextbaseafter env sd = base_required env sd (base_level sd + 1)"
  "1 \<le> job_level sd \<Longrightarrow> job_level sd < MAX_LEVEL \<Longrightarrow> pc_nextjobafter env sd = job_required env sd (job_level sd + 1)"
  by (simp_all add: pc_nextbaseafter_def pc_nextjobafter_def base_required_def job_required_def)

text \<open>Without \<open>multi_level_up\<close> the experience is for one level.\<close>

lemma one_level_enough:
  fixes l mx :: int
  assumes "multi_level_up (config env) = 0" "0 \<le> old" "0 \<le> e" "old + e < 2 ^ 31"
    "l < mx \<Longrightarrow> after = ask (l + 1)" "mx \<le> l \<or> ask l \<le> 0 \<or> old < ask l" "0 < ask l" "l < mx"
  shows "mx \<le> l + 1 \<or> ask (l + 1) \<le> 0 \<or> add_exp old (clip_exp env after old e) < ask l + ask (l + 1)"
  using add_clip(3) [OF assms(2-4,1), of after] assms(5-8) by (cases "after = 0") auto

definition gain_result :: "char_env \<Rightarrow> character \<Rightarrow> int \<Rightarrow> int \<Rightarrow> character \<Rightarrow> bool" where
  "gain_result env sd b j sd' \<longleftrightarrow> base_level sd \<le> base_level sd' \<and> job_level sd \<le> job_level sd' \<and>
     (if multi_level_up (config env) \<noteq> 0
      then base_exp sd' + base_spent env sd sd' = base_exp sd + b \<and> job_exp sd' + job_spent env sd sd' = job_exp sd + j
      else base_exp sd' + base_spent env sd sd' \<le> base_exp sd + b \<and> job_exp sd' + job_spent env sd sd' \<le> job_exp sd + j \<and>
        base_level sd' \<le> base_level sd + 1 \<and> job_level sd' \<le> job_level sd + 1)"

lemma with_exp_fields [simp]:
  "base_level (with_exp env b j sd) = base_level sd" "job_level (with_exp env b j sd) = job_level sd"
  "job_class (with_exp env b j sd) = job_class sd"
  by (simp_all add: with_exp_def)

lemma gain_loops:
  assumes env: "growth_env_ok env" and ok: "player_ok env sd"
    and pos: "0 \<le> b" "0 \<le> j" "base_exp sd + b < 2 ^ 31" "job_exp sd + j < 2 ^ 31"
  obtains sd1 sd' where "base_level_loop env (with_exp env b j sd) = Some sd1" "job_level_loop env sd1 = Some sd'"
    "player_ok env sd'" "gain_result env sd b j sd'"
proof -
  let ?sd = "with_exp env b j sd"
  have old: "0 \<le> base_exp sd" "0 \<le> job_exp sd" and g: "grown_ok env sd" and st: "settled env sd"
    using ok by (simp_all add: player_ok_def settled_def)
  have lv: "1 \<le> base_level sd" "1 \<le> job_level sd" using g by (simp_all add: grown_ok_def character_ok_def)
  have g': "grown_ok env ?sd" using g by (rule with_exp_grown)
  have pos': "0 \<le> base_exp ?sd" "0 \<le> job_exp ?sd" by (simp_all add: with_exp_def add_exp_nonneg)
  obtain sd1 sd' where l: "base_level_loop env ?sd = Some sd1" "job_level_loop env sd1 = Some sd'" "player_ok env sd'"
    "base_level ?sd \<le> base_level sd'" "job_level ?sd \<le> job_level sd'"
    "base_exp ?sd = base_exp sd' + base_spent env ?sd sd'" "job_exp ?sd = job_exp sd' + job_spent env ?sd sd'"
    "base_level sd' = base_level sd1" "job_level sd1 = job_level ?sd" "job_exp sd1 = job_exp ?sd" "job_class sd1 = job_class ?sd" "grown_ok env sd1"
    by (rule level_loops [OF env g' pos'])
  have req: "base_required env ?sd = base_required env sd" "job_required env ?sd = job_required env sd" "job_required env sd1 = job_required env sd"
    using l(11) by (simp_all add: base_required_def job_required_def fun_eq_iff)
  have spent: "base_spent env ?sd sd' = base_spent env sd sd'" "job_spent env ?sd sd' = job_spent env sd sd'"
    by (simp_all add: base_spent_def job_spent_def req)
  have one: "base_level sd' \<le> base_level sd + 1 \<and> job_level sd' \<le> job_level sd + 1" if m: "multi_level_up (config env) = 0"
  proof
    have "MAX_LEVEL \<le> base_level sd + 1 \<or> base_required env sd (base_level sd + 1) \<le> 0 \<or>
        base_exp ?sd < base_required env sd (base_level sd) + base_required env sd (base_level sd + 1)"
      if "0 < base_required env sd (base_level sd)" "base_level sd < MAX_LEVEL"
      using one_level_enough [where ask = "base_required env sd" and l = "base_level sd", OF m old(1) pos(1,3) _ _ that] st nextafter_required(1) [OF lv(1)]
      by (simp add: settled_def with_exp_def)
    then show "base_level sd' \<le> base_level sd + 1"
      using base_leveling.loop_one_level [of env ?sd sd1] env g' pos'(1) l(1,8) req(1) by (simp add: env_grown_def)
    have "MAX_LEVEL \<le> job_level sd + 1 \<or> job_required env sd (job_level sd + 1) \<le> 0 \<or>
        job_exp ?sd < job_required env sd (job_level sd) + job_required env sd (job_level sd + 1)"
      if "0 < job_required env sd (job_level sd)" "job_level sd < MAX_LEVEL"
      using one_level_enough [where ask = "job_required env sd" and l = "job_level sd", OF m old(2) pos(2,4) _ _ that] st nextafter_required(2) [OF lv(2)]
      by (simp add: settled_def with_exp_def)
    then show "job_level sd' \<le> job_level sd + 1"
      using job_leveling.loop_one_level [of env sd1 sd'] env pos'(2) l(2,9,10,12) req(3) by (simp add: env_grown_def)
  qed
  have sum: "base_exp ?sd \<le> base_exp sd + b" "job_exp ?sd \<le> job_exp sd + j"
    "multi_level_up (config env) \<noteq> 0 \<Longrightarrow> base_exp ?sd = base_exp sd + b" "multi_level_up (config env) \<noteq> 0 \<Longrightarrow> job_exp ?sd = job_exp sd + j"
    using add_clip(1,2) [OF old(1) pos(1,3)] add_clip(1,2) [OF old(2) pos(2,4)] by (simp_all add: with_exp_def)
  have "gain_result env sd b j sd'"
    using sum one l(4-7) spent by (simp add: gain_result_def)
  then show thesis using that l(1-3) by blast
qed

text \<open>
  C34: A player who is on the map and alive, where there is experience to gain, gets the experience (raised by the song, if there
  is one) that the guild leaves: levels are raised as long as there is enough for the next one, and with \<open>multi_level_up\<close> what is
  left and what the levels took is just what was there and what has come; without, it is no more, and there is no more than one
  level. The points for attributes and skills are those of the new levels. Other players get nothing. The sums of experience must
  be numbers of 32 bits.
\<close>
theorem pc_gainexp_correct:
  assumes "growth_env_ok env" "player_ok env sd" "b = richman_exp sit base" "j = richman_exp sit job"
    "0 \<le> b" "0 \<le> j" "base_exp sd + b < 2 ^ 31" "job_exp sd + j < 2 ^ 31"
  shows "\<exists>cache' sd'. pc_gainexp env sit base job (cache, sd) = Some (cache', sd') \<and> player_ok env sd' \<and>
    (if on_map sit \<and> \<not> is_dead sit \<and> (pvp_exp (config env) \<noteq> 0 \<or> \<not> pvp_map sit)
     then gain_result env sd (if guild_id sd > 0 then b - fst (guild_payexp (exp_mode sit) sd b cache) else b) j sd'
     else sd' = sd)"
proof (cases "on_map sit \<and> \<not> is_dead sit \<and> (pvp_exp (config env) \<noteq> 0 \<or> \<not> pvp_map sit)")
  case False
  then show ?thesis using assms(2) by (auto simp: pc_gainexp_eq)
next
  case True
  let ?b = "fst (arriving sit sd base cache)"
  have "0 \<le> ?b" "base_exp sd + ?b < 2 ^ 31" using arriving_bound [of sit base sd cache] assms(3,5,7) by auto
  from gain_loops [OF assms(1,2) this(1) assms(6) this(2) assms(8)] obtain sd1 sd' where
    l: "base_level_loop env (with_exp env ?b j sd) = Some sd1" "job_level_loop env sd1 = Some sd'" "player_ok env sd'" "gain_result env sd ?b j sd'" .
  let ?sd' = "updatestatus [''base_exp'', ''job_exp''] sd'"
  have run: "pc_gainexp env sit base job (cache, sd) = Some (snd (arriving sit sd base cache), ?sd')"
    unfolding pc_gainexp_eq using True l(1,2) assms(4) by auto
  have b: "?b = (if guild_id sd > 0 then b - fst (guild_payexp (exp_mode sit) sd b cache) else b)"
    using guild_payexp_bound [OF assms(5)] assms(3) by (simp add: arriving_def Let_def)
  have "player_ok env ?sd'"
    using l(3) quiet_other(3) [of ?sd' sd'] settled_other [of ?sd' sd'] by (simp add: player_ok_def)
  moreover have "gain_result env sd ?b j ?sd'"
    using l(4) unfolding gain_result_def base_spent_def job_spent_def by simp
  ultimately show ?thesis using run b True by auto
qed

section \<open>Everything that a player asks for\<close>

lemma stat_set_stat: "t \<in> set stat_types \<Longrightarrow> u \<in> set stat_types \<Longrightarrow> stat u (set_stat t x sd) = (if u = t then x else stat u sd)"
  by (auto simp: stat_types_def stat_def set_stat_def)

lemma set_stat_fields [simp]:
  "skill (set_stat t x sd) = skill sd" "skill_point (set_stat t x sd) = skill_point sd" "job_class (set_stat t x sd) = job_class sd"
  "map_class (set_stat t x sd) = map_class sd" "base_level (set_stat t x sd) = base_level sd" "job_level (set_stat t x sd) = job_level sd"
  "base_exp (set_stat t x sd) = base_exp sd" "job_exp (set_stat t x sd) = job_exp sd" "status_point (set_stat t x sd) = status_point sd"
  "GM_level (set_stat t x sd) = GM_level sd" "change_level (set_stat t x sd) = change_level sd"
  by (simp_all add: set_stat_def)

lemma character_ok_cong:
  assumes "skill a = skill b" "skill_point a = skill_point b" "job_class a = job_class b" "job_level a = job_level b"
  shows "character_ok a = character_ok b"
  by (simp add: character_ok_def assms)

lemma settled_cong:
  assumes "job_class a = job_class b" "base_level a = base_level b" "job_level a = job_level b" "base_exp a = base_exp b" "job_exp a = job_exp b"
  shows "settled env a = settled env b"
  by (simp add: settled_def base_required_def job_required_def assms)

text \<open>A change of attributes or skills, followed by the calculation.\<close>

lemma calc_player_ok:
  assumes env: "growth_env_ok env" and ok: "player_ok env sd" and ch: "character_ok sd1" and st: "stats_ok env sd1"
    and same: "job_class sd1 = job_class sd" "base_level sd1 = base_level sd" "job_level sd1 = job_level sd"
      "base_exp sd1 = base_exp sd" "job_exp sd1 = job_exp sd" "skill_point sd1 \<le> skill_point sd"
  obtains sd' where "status_calc_pc env sd1 = Some sd'" "player_ok env sd'" "base_level sd' = base_level sd"
proof -
  have "1 \<le> base_level sd1" "base_level sd1 < 256" "room_for_points sd1"
    using ok same(2,3,6) by (simp_all add: player_ok_def grown_ok_def room_for_points_def)
  from status_calc_grown [OF env ch st this] obtain sd' where
    sd': "status_calc_pc env sd1 = Some sd'" "grown_ok env sd'" "other_fields sd' = other_fields sd1" .
  have "settled env sd'" using settled_other [OF sd'(3)] settled_cong [of sd1 sd env] same ok by (simp add: player_ok_def)
  then show thesis using that sd' other_fieldsD(3) [OF sd'(3)] same(2) by (simp add: player_ok_def)
qed

lemma player_ok_quiet:
  assumes "other_fields a = other_fields b" "skill a = skill b" "skill_point a = skill_point b"
  shows "player_ok env a = player_ok env b"
  using quiet_other(3) [OF assms] settled_other [OF assms(1)] by (simp add: player_ok_def)

text \<open>An attribute raised by one.\<close>

lemma stats_cost_raise:
  assumes "t \<in> set stat_types" "1 \<le> stat t sd"
  shows "stats_cost (set_stat t (stat t sd + 1) sd) = stats_cost sd + raise_cost (stat t sd)"
proof -
  have "map (\<lambda>u. stat_cost (stat u (set_stat t (stat t sd + 1) sd))) stat_types =
    map (\<lambda>u. stat_cost (stat u sd) + (if u = t then raise_cost (stat t sd) else 0)) stat_types"
    using stat_set_stat [OF assms(1)] stat_cost_Suc [OF assms(2)] by (intro map_cong) auto
  then show ?thesis using assms(1) by (auto simp: stats_cost_def stat_types_def)
qed

lemma statusup_stats_ok:
  assumes env: "growth_env_ok env" and st: "stats_ok env sd" and t: "t \<in> set stat_types"
    and cost: "raise_cost (stat t sd) \<le> status_point sd" and most: "stat t sd < 2 ^ 15 - 1"
    and lv: "1 \<le> base_level sd" "base_level sd < 256"
    and sd1: "sd1 = (set_stat t (stat t sd + 1) sd)\<lparr>status_point := status_point sd - raise_cost (stat t sd)\<rparr>"
  shows "stats_ok env (if all_max env sd1 then sd1\<lparr>status_point := 0\<rparr> else sd1)"
proof -
  have v: "1 \<le> stat t sd" using st t by (simp add: stats_ok_def)
  have "\<not> all_max env sd" using st cost raise_cost_pos [OF v] by (auto simp: stats_ok_def)
  then have sum: "status_point sd + stats_cost sd = stat_budget env sd" "0 \<le> status_point sd" using st by (simp_all add: stats_ok_def)
  have s1: "stat u sd1 = (if u = t then stat t sd + 1 else stat u sd)" if "u \<in> set stat_types" for u
    using stat_set_stat [OF t that] by (simp add: sd1)
  have "\<forall>u \<in> set stat_types. 1 \<le> stat u sd1 \<and> stat u sd1 < 2 ^ 15" using st s1 v most by (auto simp: stats_ok_def)
  moreover have "stats_cost sd1 = stats_cost sd + raise_cost (stat t sd)"
    using stats_cost_raise [OF t v] by (simp add: sd1 stats_cost_def)
  moreover have "stat_budget env sd1 = stat_budget env sd" by (simp add: sd1 stat_budget_def is_upper_def)
  moreover have "status_point sd1 = status_point sd - raise_cost (stat t sd)" by (simp add: sd1)
  moreover have "all_max env (sd1\<lparr>status_point := 0\<rparr>) = all_max env sd1" by (simp add: all_max_def)
  ultimately show ?thesis using sum cost by (simp add: stats_ok_def)
qed

lemma statusup_player_ok:
  assumes env: "growth_env_ok env" and ok: "player_ok env sd"
  shows "\<exists>sd'. pc_statusup env t sd = Some sd' \<and> player_ok env sd' \<and> base_level sd' = base_level sd"
proof -
  let ?most = "if is_baby sd then 80 else max_parameter (config env)"
  have refused: "player_ok env (say (Statusupack t 0 0) sd) \<and> base_level (say (Statusupack t 0 0) sd) = base_level sd"
    using ok player_ok_quiet [of "say (Statusupack t 0 0) sd" sd] other_fieldsD(3) [of "say (Statusupack t 0 0) sd" sd] by simp
  show ?thesis
  proof (cases "t < SP_STR \<or> t > SP_LUK \<or> pc_need_status_point sd t > status_point sd \<or> ?most \<le> stat t sd")
    case True
    then show ?thesis using refused by (auto simp: pc_statusup_def Let_def)
  next
    case False
    have t: "t \<in> set stat_types" using False by (auto simp: stat_types_def SP_STR_def SP_LUK_def)
    have st: "stats_ok env sd" "1 \<le> base_level sd" "base_level sd < 256" "character_ok sd"
      using ok by (simp_all add: player_ok_def grown_ok_def)
    have v: "1 \<le> stat t sd" using st(1) t by (simp add: stats_ok_def)
    have cost: "pc_need_status_point sd t = raise_cost (stat t sd)"
      using False v by (simp add: pc_need_status_point_def raise_cost_def cdiv_nonneg)
    have most: "stat t sd < 2 ^ 15 - 1" using False env by (auto simp: growth_env_ok_def split: if_splits)
    have e: "s16 (stat t sd + 1) = stat t sd + 1" using v most by (intro s16_id) auto
    have c: "1 \<le> raise_cost (stat t sd)" "raise_cost (stat t sd) \<le> status_point sd" using raise_cost_pos [OF v] False cost by auto
    have "status_point sd \<le> 14000"
      using st(1) budget_bound [OF env st(2,3)] stats_cost_nonneg [of sd] by (auto simp: stats_ok_def split: if_splits)
    then have p: "s16 (status_point sd - raise_cost (stat t sd)) = status_point sd - raise_cost (stat t sd)"
      using c by (intro s16_id) auto
    define sd1 where "sd1 = (set_stat t (stat t sd + 1) sd)\<lparr>status_point := status_point sd - raise_cost (stat t sd)\<rparr>"
    define sd2 where "sd2 = (if raise_cost (stat t sd) \<noteq> pc_need_status_point sd1 t then updatestatus [''u'' @ stat_name t] sd1 else sd1)"
    define sd3 where "sd3 = updatestatus [''status_point'', stat_name t] (if all_max env sd2 then sd2\<lparr>status_point := 0\<rparr> else sd2)"
    have o2: "other_fields sd2 = other_fields sd1" "skill sd2 = skill sd" "skill_point sd2 = skill_point sd"
      by (simp_all add: sd2_def sd1_def)
    have am: "all_max env sd2 = all_max env sd1" using other_fieldsD(8) [OF o2(1)] by (simp add: all_max_def)
    have "stats_ok env sd3 = stats_ok env (if all_max env sd1 then sd1\<lparr>status_point := 0\<rparr> else sd1)"
      using other_fieldsD [OF o2(1)] am by (intro stats_ok_cong) (simp_all add: sd3_def)
    then have s3: "stats_ok env sd3" using statusup_stats_ok [OF env st(1) t c(2) most st(2,3) sd1_def] by simp
    have f3: "job_class sd3 = job_class sd" "base_level sd3 = base_level sd" "job_level sd3 = job_level sd" "base_exp sd3 = base_exp sd"
      "job_exp sd3 = job_exp sd" "skill sd3 = skill sd" "skill_point sd3 = skill_point sd"
      using other_fieldsD [OF o2(1)] o2(2,3) by (simp_all add: sd3_def sd1_def)
    have c3: "character_ok sd3" using character_ok_cong [of sd3 sd] f3 st(4) by simp
    have "skill_point sd3 \<le> skill_point sd" using f3(7) by simp
    from calc_player_ok [OF env ok c3 s3 f3(1-5) this] obtain sd' where
      sd': "status_calc_pc env sd3 = Some sd'" "player_ok env sd'" "base_level sd' = base_level sd" .
    have "pc_statusup env t sd = Option.bind (status_calc_pc env sd3) (\<lambda>sd. Some (say (Statusupack t 1 (stat t sd1)) sd))"
      using False cost c by (simp add: pc_statusup_def Let_def e p sd3_def sd2_def sd1_def)
    then have "pc_statusup env t sd = Some (say (Statusupack t 1 (stat t sd + 1)) sd')"
      using sd'(1) stat_set_stat [OF t t] by (simp add: sd1_def)
    then show ?thesis
      using sd'(2,3) player_ok_quiet [of "say (Statusupack t 1 (stat t sd + 1)) sd'" sd'] other_fieldsD(3) [of "say (Statusupack t 1 (stat t sd + 1)) sd'" sd']
      by simp
  qed
qed

text \<open>A skill raised by one; all attributes taken back.\<close>

lemma skillup_player_ok:
  assumes env: "growth_env_ok env" and ok: "player_ok env sd" and n: "in_array n \<or> 10000 \<le> n"
  shows "\<exists>sd'. pc_skillup env n sd = Some sd' \<and> player_ok env sd' \<and> base_level sd' = base_level sd"
proof -
  let ?up = "skill_point sd > 0 \<and> skill_id (skill sd n) \<noteq> 0 \<and> lv (skill sd n) < skill_tree_get_max env n (job_class sd)"
  consider (guild) "10000 \<le> n" | (refused) "in_array n" "n < 10000" "\<not> ?up" | (up) "in_array n" "n < 10000" ?up using n by fastforce
  then show ?thesis
  proof cases
    case guild
    then show ?thesis
      using ok player_ok_quiet [of "say (Guild_skillup n) sd" sd] other_fieldsD(3) [of "say (Guild_skillup n) sd" sd] by (simp add: pc_skillup_def)
  next
    case refused
    then show ?thesis using ok by (auto simp: pc_skillup_def)
  next
    case up
    define sd1 where "sd1 = sd\<lparr>skill := set_lv n (u8 (lv (skill sd n) + 1)) (skill sd), skill_point := skill_point sd - 1\<rparr>"
    have g: "character_ok sd" "stats_ok env sd" using ok by (simp_all add: player_ok_def grown_ok_def)
    have "character_ok sd1" using g(1) up(3) by (auto simp: character_ok_def sd1_def u8_bounds)
    moreover have "stats_ok env sd1" using g(2) stats_ok_cong [of sd1 sd env] by (simp add: sd1_def)
    ultimately obtain sd' where sd': "status_calc_pc env sd1 = Some sd'" "player_ok env sd'" "base_level sd' = base_level sd"
      using calc_player_ok [OF env ok, of sd1] by (auto simp: sd1_def)
    let ?sd' = "say Skillinfoblock (updatestatus [''skill_point''] (say (Skillup n) sd'))"
    have "pc_skillup env n sd = Some ?sd'" using up sd'(1) by (simp add: pc_skillup_def Let_def sd1_def)
    then show ?thesis using sd'(2,3) player_ok_quiet [of ?sd' sd'] other_fieldsD(3) [of ?sd' sd'] by simp
  qed
qed

lemma stat_reset_stats: "u \<in> set stat_types \<Longrightarrow> stat u (reset_stats sd) = 1"
  by (auto simp: stat_types_def reset_stats_def stat_def set_stat_def)

lemma reset_stats_fields [simp]:
  "skill (reset_stats sd) = skill sd" "skill_point (reset_stats sd) = skill_point sd" "job_class (reset_stats sd) = job_class sd"
  "map_class (reset_stats sd) = map_class sd" "base_level (reset_stats sd) = base_level sd" "job_level (reset_stats sd) = job_level sd"
  "base_exp (reset_stats sd) = base_exp sd" "job_exp (reset_stats sd) = job_exp sd" "status_point (reset_stats sd) = status_point sd"
  by (simp_all add: reset_stats_def stat_types_def)

lemma resetstate_player_ok:
  assumes env: "growth_env_ok env" and ok: "player_ok env sd"
  shows "\<exists>sd'. pc_resetstate env sd = Some sd' \<and> player_ok env sd' \<and> base_level sd' = base_level sd \<and>
    (\<forall>t \<in> set stat_types. stat t sd' = 1) \<and> status_point sd' = stat_budget env sd"
proof -
  have g: "character_ok sd" "1 \<le> base_level sd" "base_level sd < 256" using ok by (simp_all add: player_ok_def grown_ok_def)
  have l: "(if base_level sd < MAX_LEVEL then base_level sd else MAX_LEVEL) = base_level sd" using g(3) by (simp add: MAX_LEVEL_def)
  note bb = budget_bound [OF env g(2,3)]
  have p: "(if is_upper sd then s16 (statp env (base_level sd - 1) + 52) else statp env (base_level sd - 1)) = stat_budget env sd"
    using bb statp_bound [OF env, of "nat (base_level sd - 1)"] g(2,3) by (auto simp: stat_budget_def intro!: s16_id)
  define sd1 where "sd1 = updatestatus (map stat_name stat_types @ map (\<lambda>t. ''u'' @ stat_name t) stat_types)
    (reset_stats (updatestatus [''status_point''] (sd\<lparr>status_point := stat_budget env sd\<rparr>)))"
  have up: "is_upper (sd\<lparr>status_point := x\<rparr>) = is_upper sd" for x by (simp add: is_upper_def)
  have run: "pc_resetstate env sd = status_calc_pc env sd1"
    using p unfolding pc_resetstate_def Let_def l sd1_def up by (cases "is_upper sd") simp_all
  have f: "skill sd1 = skill sd" "skill_point sd1 = skill_point sd" "job_class sd1 = job_class sd" "base_level sd1 = base_level sd"
    "job_level sd1 = job_level sd" "base_exp sd1 = base_exp sd" "job_exp sd1 = job_exp sd" "status_point sd1 = stat_budget env sd"
    "map_class sd1 = map_class sd" by (simp_all add: sd1_def)
  have st1: "stat t sd1 = 1" if "t \<in> set stat_types" for t using stat_reset_stats [OF that] by (simp add: sd1_def)
  have "stats_cost sd1 = 0" using st1 by (simp add: stats_cost_def stat_types_def)
  moreover have "\<not> all_max env sd1" using st1 env by (auto simp: all_max_def stat_types_def growth_env_ok_def)
  moreover have "stat_budget env sd1 = stat_budget env sd" using f by (simp add: stat_budget_def is_upper_def)
  ultimately have "stats_ok env sd1" using st1 f(8) bb by (simp add: stats_ok_def)
  moreover have "character_ok sd1" using character_ok_cong [of sd1 sd] f g(1) by simp
  moreover have "skill_point sd1 \<le> skill_point sd" using f(2) by simp
  ultimately obtain sd' where sd': "status_calc_pc env sd1 = Some sd'" "player_ok env sd'" "base_level sd' = base_level sd"
    using calc_player_ok [OF env ok, of sd1] f by blast
  have "skill_tree_ok env" using env by (simp add: growth_env_ok_def)
  then have o: "other_fields sd' = other_fields sd1" using sd'(1) pc_calc_skilltree_other by (simp add: status_calc_pc_def)
  show ?thesis using run sd' other_fieldsD(7,8) [OF o] st1 f(8) by auto
qed

text \<open>What moves a character: experience from battles and quests, and what the player asks for.\<close>

datatype growth_request =
    Gain situation int int
  | Statusup int
  | Skillup_request int
  | Resetstate

fun grow :: "char_env \<Rightarrow> growth_request \<Rightarrow> expcache \<times> character \<Rightarrow> (expcache \<times> character) option" where
  "grow env (Gain sit b j) = pc_gainexp env sit b j"
| "grow env (Statusup t) = (\<lambda>(c, sd). map_option (Pair c) (pc_statusup env t sd))"
| "grow env (Skillup_request n) = (\<lambda>(c, sd). map_option (Pair c) (pc_skillup env n sd))"
| "grow env Resetstate = (\<lambda>(c, sd). map_option (Pair c) (pc_resetstate env sd))"

fun grow_all :: "char_env \<Rightarrow> growth_request list \<Rightarrow> expcache \<times> character \<Rightarrow> (expcache \<times> character) option" where
  "grow_all env [] s = Some s"
| "grow_all env (r # rs) s = Option.bind (grow env r s) (grow_all env rs)"

fun valid_request :: "growth_request \<Rightarrow> bool" where
  "valid_request (Skillup_request n) \<longleftrightarrow> in_array n \<or> 10000 \<le> n"
| "valid_request _ \<longleftrightarrow> True"

lemma grow_player_ok:
  assumes "growth_env_ok env" "player_ok env sd" "valid_request r"
  shows "\<exists>c' sd'. grow env r (c, sd) = Some (c', sd') \<and> player_ok env sd' \<and> base_level sd \<le> base_level sd'"
proof (cases r)
  case (Gain sit b j)
  then show ?thesis using gainexp_player_ok [OF assms(1,2), of sit b j c] by simp
next
  case (Statusup t)
  then show ?thesis using statusup_player_ok [OF assms(1,2), of t] by auto
next
  case (Skillup_request n)
  then show ?thesis using skillup_player_ok [OF assms(1,2), of n] assms(3) by auto
next
  case Resetstate
  then show ?thesis using resetstate_player_ok [OF assms(1,2)] by auto
qed

lemma grow_all_player_ok:
  assumes "growth_env_ok env" "player_ok env sd" "list_all valid_request rs"
  shows "\<exists>c' sd'. grow_all env rs (c, sd) = Some (c', sd') \<and> player_ok env sd' \<and> base_level sd \<le> base_level sd'"
  using assms(2,3)
proof (induction rs arbitrary: c sd)
  case (Cons r rs)
  obtain c1 sd1 where s1: "grow env r (c, sd) = Some (c1, sd1)" "player_ok env sd1" "base_level sd \<le> base_level sd1"
    using grow_player_ok [OF assms(1) Cons.prems(1), of r c] Cons.prems(2) by auto
  then show ?case using Cons.IH [OF s1(2), of c1] Cons.prems(2) by fastforce
qed simp

text \<open>
  C33: Whatever experience comes, from none to an overflow, and whatever attributes and skills a player asks to raise or has
  taken back, in any order: every request is answered, no level is due afterwards, the base level never falls, points and
  attributes are together what the level gives (or there is nothing left to raise and no points), and the points for skills
  are no fewer than the class gives and, where the settings take points in excess back, no more. This is for numbers of skills
  of the array (and of guilds), and for a character with no more than 30000 points for skills above the level of the job. The
  tables of the repository, with its settings, are such as is asked (\<open>nezumi_growth_ok\<close>).
\<close>
theorem growth_keeps_points:
  assumes "growth_env_ok env" "player_ok env sd" "list_all valid_request rs"
  shows "\<exists>c' sd'. grow_all env rs (c, sd) = Some (c', sd') \<and> settled env sd' \<and> base_level sd \<le> base_level sd' \<and>
    (if all_max env sd' then status_point sd' = 0
     else 0 \<le> status_point sd' \<and> status_point sd' + stats_cost sd' = stat_budget env sd') \<and> points_ok env sd'"
  using grow_all_player_ok [OF assms, of c] by (fastforce simp: player_ok_def grown_ok_def stats_ok_def)

section \<open>An example\<close>

text \<open>The data of the repository, with its settings but for \<open>multi_level_up\<close>.\<close>

definition growth_example_env :: char_env where
  "growth_example_env = nezumi_env (nezumi_config\<lparr>multi_level_up := 1\<rparr>)"

definition growing_character :: character where
  "growing_character = example_character\<lparr>status_point := 80, skill_point := 14\<rparr>"

lemma nezumi_growth_ok:
  assumes "quest_skill_learn conf = 0" "1 < max_parameter conf" "max_parameter conf < 2 ^ 15"
  shows "growth_env_ok (nezumi_env conf)"
proof -
  have "nezumi_statp (nat l) = nezumi_statp (nat (l - 1)) + (l + 15) div 5" if "1 \<le> l" for l
  proof -
    have "nat l = Suc (nat (l - 1))" using that by simp
    then obtain n where "nat l = Suc n" by blast
    then have "l = int n + 1" "nat (l - 1) = n" by auto
    then show ?thesis using \<open>nat l = Suc n\<close> by (simp add: add.commute)
  qed
  then show ?thesis
    using nezumi_tree_ok [OF assms(1)] assms by (simp add: growth_env_ok_def list_all_iff nezumi_env_def del: upto_rec_numeral)
qed

lemma growth_example_env_ok: "growth_env_ok growth_example_env"
  unfolding growth_example_env_def by (rule nezumi_growth_ok) (simp_all add: nezumi_config_def)

lemma growing_character_ok: "player_ok growth_example_env growing_character"
proof -
  have "character_ok growing_character" by (simp add: character_ok_def growing_character_def example_character_def is_class_def)
  moreover have "points_ok growth_example_env growing_character"
  proof -
    have "spent_on env b (skill growing_character) i = 0" if "i \<in> set [1..MAX_SKILL - 1]" for env b i
      using that by (simp add: spent_on_def pc_checkskill_status_def growing_character_def example_character_def)
    then have "pc_calc_skillpoint env b (skill growing_character) = sum_list (map (\<lambda>_. 0) [1..MAX_SKILL - 1])" for env b
      unfolding pc_calc_skillpoint_def by (metis (no_types, lifting) map_cong)
    then have "pc_calc_skillpoint env b (skill growing_character) = 0" for env b by simp
    then show ?thesis
      by (simp add: points_ok_def least_points_def greatest_points_def total_points_def is_gm_def class_points_def growing_character_def
        example_character_def growth_example_env_def nezumi_env_def nezumi_config_def)
  qed
  moreover have "stats_ok growth_example_env growing_character" by code_simp
  moreover have "settled growth_example_env growing_character" by code_simp
  ultimately show ?thesis
    by (simp add: player_ok_def grown_ok_def) (simp add: growing_character_def example_character_def room_for_points_def)
qed

definition example_situation :: situation where
  "example_situation = \<lparr>on_map = True, is_dead = False, pvp_map = False, richmankim = None, exp_mode = None\<rparr>"

lemma two_levels:
  fixes e l :: int
  assumes "0 \<le> e" "255 \<le> l \<or> e < 100" "10 \<le> l" "e + 100 * (l - 10) = 250"
  shows "l = 12"
proof -
  have "l < 13" "11 < l" using assms by auto
  then show ?thesis by simp
qed

text \<open>250 points of experience, with levels of 100, are two levels and 50 points.\<close>

lemma pc_gainexp_correct_witness:
  "\<exists>cache' sd'. pc_gainexp growth_example_env example_situation 250 20 (\<lambda>_. None, growing_character) = Some (cache', sd') \<and>
     base_level sd' = 12 \<and> base_exp sd' = 50"
proof -
  have pre: "base_exp growing_character + 250 < 2 ^ 31" "job_exp growing_character + 20 < 2 ^ 31"
    "on_map example_situation \<and> \<not> is_dead example_situation \<and> (pvp_exp (config growth_example_env) \<noteq> 0 \<or> \<not> pvp_map example_situation)"
    "250 = richman_exp example_situation 250" "20 = richman_exp example_situation 20"
    by (simp_all add: growing_character_def example_character_def example_situation_def richman_exp_def)
  obtain cache' sd' where run: "pc_gainexp growth_example_env example_situation 250 20 (\<lambda>_. None, growing_character) = Some (cache', sd')"
    and ok: "player_ok growth_example_env sd'"
    and gain: "gain_result growth_example_env growing_character (if guild_id growing_character > 0
      then 250 - fst (guild_payexp (exp_mode example_situation) growing_character 250 (\<lambda>_. None)) else 250) 20 sd'"
    using pc_gainexp_correct [OF growth_example_env_ok growing_character_ok pre(4,5) _ _ pre(1,2), of "\<lambda>_. None"] pre(3) by auto
  have old: "guild_id growing_character = 0" "base_level growing_character = 10" "base_exp growing_character = 0"
    "multi_level_up (config growth_example_env) = 1"
    by (simp_all add: growing_character_def example_character_def growth_example_env_def nezumi_env_def)
  have req: "base_required growth_example_env sd l = 100" for sd l by (simp add: base_required_def growth_example_env_def nezumi_env_def nezumi_config_def)
  have lv: "10 \<le> base_level sd'" "base_exp sd' + 100 * (base_level sd' - 10) = 250"
    using gain by (auto simp: gain_result_def base_spent_def old req)
  have "0 \<le> base_exp sd'" "255 \<le> base_level sd' \<or> base_exp sd' < 100" using ok by (auto simp: player_ok_def settled_def req MAX_LEVEL_def)
  then have "base_level sd' = 12" using two_levels lv by blast
  then show ?thesis using run lv(2) by auto
qed

lemma growth_keeps_points_witness:
  "\<exists>c' sd'. grow_all growth_example_env [Statusup 13, Gain example_situation 250 120, Skillup_request 2, Statusup 99, Resetstate]
     (\<lambda>_. None, growing_character) = Some (c', sd') \<and> points_ok growth_example_env sd'"
proof -
  have "list_all valid_request [Statusup 13, Gain example_situation 250 120, Skillup_request 2, Statusup 99, Resetstate]"
    by (simp add: in_array_def MAX_SKILL_def)
  from growth_keeps_points [OF growth_example_env_ok growing_character_ok this, of "\<lambda>_. None"] show ?thesis by blast
qed

end
