(* ===== verification/IntGuild.thy ===== *)
theory IntGuild
  imports CLib
begin

text \<open>
  The guilds of the character server (\<open>src/src/char/int_guild.c\<close>): their table, the requests of the map servers, and the
  castles. Fields that only pass through the server, and the file of the guilds, are left out. \<open>inter_guild_storage_delete\<close> and the
  log are recorded.
\<close>

section \<open>State\<close>

definition GUILD_EXTENTION_BONUS :: int where
  "GUILD_EXTENTION_BONUS = 6"

definition MAX_GUILD :: nat where
  "MAX_GUILD = 76"

definition MAX_GUILDPOSITION :: nat where
  "MAX_GUILDPOSITION = 20"

definition MAX_GUILDALLIANCE :: nat where
  "MAX_GUILDALLIANCE = 16"

definition MAX_GUILDEXPLUSION :: nat where
  "MAX_GUILDEXPLUSION = 32"

definition MAX_GUILDSKILL :: nat where
  "MAX_GUILDSKILL = 15"

definition MAX_GUILDCASTLE :: nat where
  "MAX_GUILDCASTLE = 24"

definition MAX_EMBLEM :: int where
  "MAX_EMBLEM = 2048"

definition GD_SKILLBASE :: int where
  "GD_SKILLBASE = 10000"

definition GD_EXTENSION :: int where
  "GD_EXTENSION = 10004"

record guild_member =
  account_id :: int
  char_id :: int
  member_class :: int
  lv :: int
  member_exp :: int
  online :: int
  pos :: int
  member_name :: string

definition no_member :: guild_member where
  "no_member = \<lparr>account_id = 0, char_id = 0, member_class = 0, lv = 0, member_exp = 0, online = 0, pos = 0, member_name = []\<rparr>"

record guild_position =
  position_name :: string
  mode :: int
  exp_mode :: int

record guild_alliance =
  opposition :: int
  ally :: int
  ally_name :: string

record guild_explusion =
  expelled :: int
  expelled_name :: string
  expelled_mes :: string

record guild_skill =
  skill_id :: int
  skill_lv :: int

record guild =
  guild_id :: int
  guild_lv :: int
  connect_member :: int
  max_member :: int
  average_lv :: int
  exp :: int
  next_exp :: int
  skill_point :: int
  guild_name :: string
  master :: string
  member :: "guild_member list"
  position :: "guild_position list"
  mes1 :: string
  mes2 :: string
  emblem_len :: int
  emblem_id :: int
  emblem_data :: "int list"
  alliance :: "guild_alliance list"
  explusion :: "guild_explusion list"
  skill :: "guild_skill list"

definition no_guild :: guild where
  "no_guild = \<lparr>guild_id = 0, guild_lv = 0, connect_member = 0, max_member = 0, average_lv = 0, exp = 0, next_exp = 0,
     skill_point = 0, guild_name = [], master = [], member = replicate MAX_GUILD no_member,
     position = replicate MAX_GUILDPOSITION \<lparr>position_name = [], mode = 0, exp_mode = 0\<rparr>, mes1 = [], mes2 = [],
     emblem_len = 0, emblem_id = 0, emblem_data = [],
     alliance = replicate MAX_GUILDALLIANCE \<lparr>opposition = 0, ally = 0, ally_name = []\<rparr>,
     explusion = replicate MAX_GUILDEXPLUSION \<lparr>expelled = 0, expelled_name = [], expelled_mes = []\<rparr>,
     skill = replicate MAX_GUILDSKILL \<lparr>skill_id = 0, skill_lv = 0\<rparr>\<rparr>"

text \<open>
  A castle: its number, and its values in the order of their indices in the requests, from 1 on: \<open>guild_id\<close>, \<open>economy\<close>,
  \<open>defense\<close>, \<open>triggerE\<close>, \<open>triggerD\<close>, \<open>nextTime\<close>, \<open>payTime\<close>, \<open>createTime\<close>, \<open>visibleC\<close>, \<open>visibleG0\<close> to \<open>visibleG7\<close>, \<open>Ghp0\<close>
  to \<open>Ghp7\<close>. Those from 9 to 17 have one bit.
\<close>

record castle =
  castle_id :: int
  castle_values :: "int list"

definition castle_value :: "nat \<Rightarrow> castle \<Rightarrow> int" where
  "castle_value idx gc = castle_values gc ! (idx - 1)"

definition castle_owner :: "castle \<Rightarrow> int" where
  "castle_owner gc = castle_value 1 gc"

definition set_castle_value :: "nat \<Rightarrow> int \<Rightarrow> castle \<Rightarrow> castle" where
  "set_castle_value idx v gc = gc\<lparr>castle_values := (castle_values gc)[idx - 1 := (if 9 \<le> idx \<and> idx \<le> 17 then v mod 2 else v)]\<rparr>"

text \<open>What is sent to the map servers; a \<open>fd\<close> below 0 means all of them.\<close>

datatype guild_message =
    Guild_created int int int
  | Guild_noinfo int int
  | Guild_info int guild
  | Guild_memberadded int int int int int
  | Guild_leaved int int int int string string
  | Guild_memberinfoshort int int int int int int
  | Guild_broken int int
  | Guild_basicinfochanged int int int
  | Guild_memberinfochanged int int int int int
  | Guild_skillupack int int int
  | Guild_alliance int int int int int string string
  | Guild_position int int guild_position
  | Guild_notice int string string
  | Guild_emblem int int "int list"
  | Guild_castle_dataload int int int
  | Guild_castle_datasave int int int
  | Guild_message int int int string
  | Guild_storage_deleted int

record guild_server =
  guild_db :: "int \<Rightarrow> guild option"
  castle_db :: "castle list"
  guild_newid :: int
  guild_exp :: "int list"
  guild_extension_bonus :: int
  sent :: "guild_message list"

definition say :: "guild_message \<Rightarrow> guild_server \<Rightarrow> guild_server" where
  "say m s = s\<lparr>sent := sent s @ [m]\<rparr>"

definition set_guild :: "guild \<Rightarrow> guild_server \<Rightarrow> guild_server" where
  "set_guild g s = s\<lparr>guild_db := (guild_db s)(guild_id g := Some g)\<rparr>"

section \<open>Level, members\<close>

definition guild_nextexp :: "int list \<Rightarrow> int \<Rightarrow> int" where
  "guild_nextexp table level = (if level < 100 \<and> level > 0 then table ! nat (level - 1) else 0)"

definition guild_checkskill :: "guild \<Rightarrow> int \<Rightarrow> int" where
  "guild_checkskill g i =
     (let idx = i - GD_SKILLBASE in if idx < 0 \<or> idx \<ge> int MAX_GUILDSKILL then 0 else skill_lv (skill g ! nat idx))"

definition raise_guild :: "int \<Rightarrow> guild \<Rightarrow> guild" where
  "raise_guild nextexp g = g\<lparr>exp := exp g - nextexp, guild_lv := s16 (guild_lv g + 1), skill_point := s16 (skill_point g + 1)\<rparr>"

function guild_levels :: "int list \<Rightarrow> guild \<Rightarrow> guild" where
  "guild_levels table g =
     (let nextexp = guild_nextexp table (guild_lv g) in
      if exp g \<ge> nextexp \<and> nextexp > 0 then guild_levels table (raise_guild nextexp g) else g)"
  by auto
termination
  by (relation "measure (\<lambda>(table, g). nat (exp g))") (auto simp: raise_guild_def)

text \<open>The first \<open>max_member\<close> members.\<close>

definition members :: "guild \<Rightarrow> guild_member list" where
  "members g = take (nat (max_member g)) (member g)"

definition add_average :: "guild_member \<Rightarrow> int \<times> int \<times> int \<Rightarrow> int \<times> int \<times> int" where
  "add_average m = (\<lambda>(sum, conn, c).
     if account_id m > 0 then (s16 (sum + lv m), if online m > 0 then s16 (conn + 1) else conn, c + 1) else (sum, conn, c))"

definition calc_members :: "guild \<Rightarrow> guild" where
  "calc_members g =
     (let (sum, conn, c) = fold add_average (members g) (0, 0, 0)
      in g\<lparr>average_lv := (if c \<noteq> 0 then cdiv sum c else sum), connect_member := conn\<rparr>)"

definition skill_ids :: "guild \<Rightarrow> guild" where
  "skill_ids g = g\<lparr>skill := map (\<lambda>(i, sk). sk\<lparr>skill_id := i + GD_SKILLBASE\<rparr>) (zip (map int [0..<MAX_GUILDSKILL]) (skill g))\<rparr>"

definition recalc :: "guild_server \<Rightarrow> guild \<Rightarrow> guild" where
  "recalc s g =
     (let g = skill_ids g;
          g = (if guild_lv g \<le> 0 then g\<lparr>guild_lv := 1\<rparr> else g);
          g = guild_levels (guild_exp s) g;
          g = g\<lparr>next_exp := guild_nextexp (guild_exp s) (guild_lv g)\<rparr>;
          g = g\<lparr>max_member := s16 (16 + guild_checkskill g GD_EXTENSION * guild_extension_bonus s)\<rparr>
      in calc_members g)"

text \<open>1 when all data has been sent.\<close>

definition guild_calcinfo :: "guild \<Rightarrow> guild_server \<Rightarrow> int \<times> guild \<times> guild_server" where
  "guild_calcinfo g s =
     (let g1 = recalc s g; s = set_guild g1 s in
      if max_member g1 \<noteq> max_member g \<or> guild_lv g1 \<noteq> guild_lv g \<or> skill_point g1 \<noteq> skill_point g
      then (1, g1, say (Guild_info (- 1) g1) s) else (0, g1, s))"

section \<open>Castles\<close>

text \<open>The check of the number is never true: a number above the last is a place behind the array.\<close>

definition mapif_parse_GuildCastleDataLoad :: "int \<Rightarrow> int \<Rightarrow> guild_server \<Rightarrow> guild_server option" where
  "mapif_parse_GuildCastleDataLoad cid idx s =
     (if cid < 0 \<or> cid \<ge> int MAX_GUILDCASTLE then None
      else if 1 \<le> idx \<and> idx \<le> 25
      then (let gc = castle_db s ! nat cid in
            Some (say (Guild_castle_dataload (castle_id gc) idx (castle_value (nat idx) gc)) s))
      else Some s)"

definition save_castle :: "nat \<Rightarrow> int \<Rightarrow> int \<Rightarrow> guild_server \<Rightarrow> guild_server" where
  "save_castle c idx v s =
     (let gc = castle_db s ! c in
      if 1 \<le> idx \<and> idx \<le> 25 \<and> castle_value (nat idx) gc \<noteq> v
      then say (Guild_castle_datasave (castle_id gc) idx v)
        (s\<lparr>castle_db := (castle_db s)[c := set_castle_value (nat idx) v gc]\<rparr>)
      else s)"

definition mapif_parse_GuildCastleDataSave :: "int \<Rightarrow> int \<Rightarrow> int \<Rightarrow> guild_server \<Rightarrow> guild_server option" where
  "mapif_parse_GuildCastleDataSave cid idx v s =
     (if cid < 0 \<or> cid \<ge> int MAX_GUILDCASTLE then None else Some (save_castle (nat cid) idx v s))"

definition abandon_castle :: "int \<Rightarrow> nat \<Rightarrow> guild_server \<Rightarrow> guild_server" where
  "abandon_castle gid c s = (if castle_owner (castle_db s ! c) = gid then save_castle c 1 0 s else s)"

section \<open>Breaking a guild\<close>

definition guild_break_sub :: "int \<Rightarrow> guild \<Rightarrow> guild" where
  "guild_break_sub gid g = g\<lparr>alliance := map (\<lambda>a. if ally a = gid then a\<lparr>ally := 0\<rparr> else a) (alliance g)\<rparr>"

definition remove_guild :: "int \<Rightarrow> guild_server \<Rightarrow> guild_server" where
  "remove_guild gid s =
     (let s = s\<lparr>guild_db := (\<lambda>k. map_option (guild_break_sub gid) (guild_db s k))(gid := None)\<rparr>;
          s = say (Guild_broken gid 0) (say (Guild_storage_deleted gid) s)
      in fold (abandon_castle gid) [0..<MAX_GUILDCASTLE] s)"

definition guild_check_empty :: "guild \<Rightarrow> guild_server \<Rightarrow> int \<times> guild_server" where
  "guild_check_empty g s = (if \<exists>m \<in> set (members g). account_id m > 0 then (0, s) else (1, remove_guild (guild_id g) s))"

section \<open>Requests\<close>

definition search_guildname :: "int list \<Rightarrow> string \<Rightarrow> guild_server \<Rightarrow> guild option" where
  "search_guildname keys str s = fold (\<lambda>k found. case guild_db s k of
       Some g \<Rightarrow> if strcasecmp_eq (guild_name g) str then Some g else found
     | None \<Rightarrow> found) keys None"

definition illegal_name :: "string \<Rightarrow> bool" where
  "illegal_name name \<longleftrightarrow> (\<exists>c \<in> set (take 24 name). byte c < 32 \<or> byte c = 127)"

definition new_guild :: "int \<Rightarrow> string \<Rightarrow> guild_member \<Rightarrow> guild" where
  "new_guild gid name m =
     no_guild\<lparr>guild_id := gid, guild_name := take 24 name, master := take 24 (member_name m),
       member := (member no_guild)[0 := m],
       position := map (\<lambda>i. if i = 0 then \<lparr>position_name = ''GuildMaster'', mode = 0x11, exp_mode = 0\<rparr>
           else if i = MAX_GUILDPOSITION - 1 then \<lparr>position_name = ''Newbie'', mode = 0, exp_mode = 0\<rparr>
           else \<lparr>position_name = ''Position '' @ sprintf_d (int i + 1), mode = 0, exp_mode = 0\<rparr>) [0..<MAX_GUILDPOSITION],
       max_member := 16, average_lv := lv m,
       skill := map (\<lambda>i. \<lparr>skill_id = int i + GD_SKILLBASE, skill_lv = 0\<rparr>) [0..<MAX_GUILDSKILL]\<rparr>"

definition mapif_parse_CreateGuild :: "int list \<Rightarrow> int \<Rightarrow> int \<Rightarrow> string \<Rightarrow> guild_member \<Rightarrow> guild_server \<Rightarrow> guild_server" where
  "mapif_parse_CreateGuild keys fd acc name m s =
     (if illegal_name name \<or> search_guildname keys name s \<noteq> None then say (Guild_created fd acc 0) s
      else (let g = new_guild (guild_newid s) name m in
        say (Guild_info fd g) (say (Guild_created fd acc (guild_id g))
          (set_guild g (s\<lparr>guild_newid := s32 (guild_newid s + 1)\<rparr>)))))"

definition mapif_parse_GuildInfo :: "int \<Rightarrow> int \<Rightarrow> guild_server \<Rightarrow> guild_server" where
  "mapif_parse_GuildInfo fd gid s = (case guild_db s gid of
     Some g \<Rightarrow> (if guild_id g > 0 then (let (_, g, s) = guild_calcinfo g s in say (Guild_info fd g) s) else say (Guild_noinfo fd gid) s)
   | None \<Rightarrow> say (Guild_noinfo fd gid) s)"

definition mapif_parse_GuildAddMember :: "int \<Rightarrow> int \<Rightarrow> guild_member \<Rightarrow> guild_server \<Rightarrow> guild_server" where
  "mapif_parse_GuildAddMember fd gid m s = (case guild_db s gid of
     None \<Rightarrow> say (Guild_memberadded fd gid (account_id m) (char_id m) 1) s
   | Some g \<Rightarrow>
       (let i = first_idx (\<lambda>n. account_id n = 0) (members g) in
        if guild_id g > 0 \<and> i < length (members g) then
          (let g = g\<lparr>member := (member g)[i := m]\<rparr>;
               s = say (Guild_memberadded fd gid (account_id m) (char_id m) 0) (set_guild g s);
               (_, g, s) = guild_calcinfo g s
           in say (Guild_info (- 1) g) s)
        else say (Guild_memberadded fd gid (account_id m) (char_id m) 1) s))"

text \<open>A member that is expelled is noted; when there is no room, the oldest entry goes.\<close>

definition note_expelled :: "int \<Rightarrow> string \<Rightarrow> string \<Rightarrow> guild_explusion list \<Rightarrow> guild_explusion list" where
  "note_expelled acc name mes es =
     (let j = first_idx (\<lambda>e. expelled e = 0) es;
          es = (if j = MAX_GUILDEXPLUSION then tl es @ [last es] else es);
          j = (if j = MAX_GUILDEXPLUSION then MAX_GUILDEXPLUSION - 1 else j)
      in es[j := \<lparr>expelled = acc, expelled_name = take 24 name, expelled_mes = take 40 mes\<rparr>])"

definition mapif_parse_GuildLeave :: "int \<Rightarrow> int \<Rightarrow> int \<Rightarrow> int \<Rightarrow> string \<Rightarrow> guild_server \<Rightarrow> guild_server" where
  "mapif_parse_GuildLeave gid acc cid flag mes s = (case guild_db s gid of
     None \<Rightarrow> s
   | Some g \<Rightarrow>
       (let i = first_idx (\<lambda>m. char_id m = cid) (member g) in
        if guild_id g > 0 \<and> i < length (member g) then
          (let name = member_name (member g ! i);
               g = (if flag \<noteq> 0 then g\<lparr>explusion := note_expelled acc name mes (explusion g)\<rparr> else g);
               s = say (Guild_leaved gid acc cid flag name mes) s;
               g = g\<lparr>member := (member g)[i := no_member]\<rparr>;
               (empt, s) = guild_check_empty g (set_guild g s)
           in if empt = 0 then say (Guild_info (- 1) g) s else s)
        else s))"

definition change_short :: "int \<Rightarrow> int \<Rightarrow> int \<Rightarrow> int \<Rightarrow> guild_member \<Rightarrow> guild_member" where
  "change_short cid onl level cls m = (if char_id m = cid then m\<lparr>online := onl, lv := s16 level, member_class := s16 cls\<rparr> else m)"

definition mapif_parse_GuildChangeMemberInfoShort :: "int \<Rightarrow> int \<Rightarrow> int \<Rightarrow> int \<Rightarrow> int \<Rightarrow> int \<Rightarrow> guild_server \<Rightarrow> guild_server" where
  "mapif_parse_GuildChangeMemberInfoShort gid acc cid onl level cls s = (case guild_db s gid of
     None \<Rightarrow> s
   | Some g \<Rightarrow>
       (if guild_id g \<le> 0 then s
        else (let ms = map (change_short cid onl level cls) (member g);
                  s = fold (\<lambda>m. say (Guild_memberinfoshort gid (account_id m) (char_id m) (online m) (lv m) (member_class m)))
                        (filter (\<lambda>m. char_id m = cid) ms) s;
                  ok = filter (\<lambda>m. account_id m > 0) ms
              in set_guild (g\<lparr>member := ms, connect_member := int (length (filter (\<lambda>m. online m \<noteq> 0) ms)),
                   average_lv := (if ok = [] then 0 else s16 (cdiv (sum_list (map lv ok)) (int (length ok))))\<rparr>) s)))"

definition mapif_parse_BreakGuild :: "int \<Rightarrow> guild_server \<Rightarrow> guild_server" where
  "mapif_parse_BreakGuild gid s = (case guild_db s gid of None \<Rightarrow> s | Some g \<Rightarrow> remove_guild gid s)"

definition mapif_parse_GuildMessage :: "int \<Rightarrow> int \<Rightarrow> int \<Rightarrow> string \<Rightarrow> guild_server \<Rightarrow> guild_server" where
  "mapif_parse_GuildMessage fd gid acc mes s = say (Guild_message fd gid acc mes) s"

definition GBI_EXP :: int where
  "GBI_EXP = 1"

definition GBI_GUILDLV :: int where
  "GBI_GUILDLV = 2"

text \<open>The value is the first two bytes of the data.\<close>

definition mapif_parse_GuildBasicInfoChange :: "int \<Rightarrow> int \<Rightarrow> int \<Rightarrow> guild_server \<Rightarrow> guild_server" where
  "mapif_parse_GuildBasicInfoChange gid type dw s = (case guild_db s gid of
     None \<Rightarrow> s
   | Some g \<Rightarrow>
       (if guild_id g \<le> 0 then s
        else if type = GBI_GUILDLV then
          (let g = (if dw > 0 \<and> guild_lv g + dw \<le> 50
                    then g\<lparr>guild_lv := s16 (guild_lv g + dw), skill_point := s16 (skill_point g + dw)\<rparr>
                    else if dw < 0 \<and> guild_lv g + dw \<ge> 1 then g\<lparr>guild_lv := s16 (guild_lv g + dw)\<rparr> else g)
           in say (Guild_info (- 1) g) (set_guild g s))
        else say (Guild_basicinfochanged gid type dw) s))"

definition GMI_POSITION :: int where
  "GMI_POSITION = 0"

definition GMI_EXP :: int where
  "GMI_EXP = 1"

definition saturate :: "int \<Rightarrow> int \<Rightarrow> int" where
  "saturate e d = (if s32 (e + d) < 0 then 0x7FFFFFFF else s32 (e + d))"

definition mapif_parse_GuildMemberInfoChange :: "int \<Rightarrow> int \<Rightarrow> int \<Rightarrow> int \<Rightarrow> int \<Rightarrow> guild_server \<Rightarrow> guild_server" where
  "mapif_parse_GuildMemberInfoChange gid acc cid type v s = (case guild_db s gid of
     None \<Rightarrow> s
   | Some g \<Rightarrow>
       (let i = first_idx (\<lambda>m. account_id m = acc \<and> char_id m = cid) (members g) in
        if i \<ge> length (members g) then s
        else if type = GMI_POSITION then
          say (Guild_memberinfochanged gid acc cid type v)
            (set_guild (g\<lparr>member := (member g)[i := (member g ! i)\<lparr>pos := s16 v\<rparr>]\<rparr>) s)
        else if type = GMI_EXP then
          (let m = (member g ! i)\<lparr>member_exp := saturate (member_exp (member g ! i)) v\<rparr>;
               g = g\<lparr>exp := saturate (exp g) v, member := (member g)[i := m]\<rparr>;
               (_, g, s) = guild_calcinfo g s
           in say (Guild_memberinfochanged gid acc cid type (member_exp m)) (say (Guild_basicinfochanged gid GBI_EXP (exp g)) s))
        else s))"

definition mapif_parse_GuildPosition :: "int \<Rightarrow> int \<Rightarrow> guild_position \<Rightarrow> guild_server \<Rightarrow> guild_server" where
  "mapif_parse_GuildPosition gid idx p s =
     (if idx < 0 \<or> idx \<ge> int MAX_GUILDPOSITION then s
      else case guild_db s gid of
        None \<Rightarrow> s
      | Some g \<Rightarrow> (if guild_id g \<le> 0 then s
          else say (Guild_position gid idx p) (set_guild (g\<lparr>position := (position g)[nat idx := p]\<rparr>) s)))"

definition mapif_parse_GuildSkillUp :: "int \<Rightarrow> int \<Rightarrow> int \<Rightarrow> guild_server \<Rightarrow> guild_server" where
  "mapif_parse_GuildSkillUp gid skill_num acc s =
     (let idx = skill_num - GD_SKILLBASE in
      if idx < 0 \<or> idx \<ge> int MAX_GUILDSKILL then s
      else case guild_db s gid of
        None \<Rightarrow> s
      | Some g \<Rightarrow>
          (let sk = skill g ! nat idx in
           if skill_point g > 0 \<and> skill_id sk > 0 \<and> skill_lv sk < 10 then
             (let g = g\<lparr>skill := (skill g)[nat idx := sk\<lparr>skill_lv := skill_lv sk + 1\<rparr>], skill_point := skill_point g - 1\<rparr>;
                  (changed, g, s) = guild_calcinfo g s;
                  s = (if changed = 0 then say (Guild_info (- 1) g) s else s)
              in say (Guild_skillupack gid skill_num acc) s)
           else s))"

text \<open>
  Alliance and opposition: the first goes both ways. The two guilds can be one and the same, so each is read when its turn
  comes.
\<close>

definition add_ally :: "int \<Rightarrow> guild \<Rightarrow> guild \<Rightarrow> guild" where
  "add_ally flag other g =
     (let j = first_idx (\<lambda>a. ally a = 0) (alliance g) in
      g\<lparr>alliance := (alliance g)[j := \<lparr>opposition = flag mod 2, ally = guild_id other, ally_name = take 24 (guild_name other)\<rparr>]\<rparr>)"

definition remove_ally :: "int \<Rightarrow> guild \<Rightarrow> guild \<Rightarrow> guild" where
  "remove_ally flag other g =
     (let j = first_idx (\<lambda>a. ally a = guild_id other \<and> opposition a = flag mod 2) (alliance g) in
      g\<lparr>alliance := (if j < length (alliance g) then (alliance g)[j := (alliance g ! j)\<lparr>ally := 0\<rparr>] else alliance g)\<rparr>)"

definition ally_turn :: "int \<Rightarrow> int \<Rightarrow> int \<Rightarrow> guild_server \<Rightarrow> guild_server" where
  "ally_turn flag gid1 gid2 s = (case (guild_db s gid1, guild_db s gid2) of
     (Some g, Some other) \<Rightarrow> set_guild ((if bit flag 3 then remove_ally else add_ally) flag other g) s
   | _ \<Rightarrow> s)"

definition mapif_parse_GuildAlliance :: "int \<Rightarrow> int \<Rightarrow> int \<Rightarrow> int \<Rightarrow> int \<Rightarrow> guild_server \<Rightarrow> guild_server" where
  "mapif_parse_GuildAlliance gid1 gid2 acc1 acc2 flag s =
     (if gid1 \<le> 0 \<or> gid2 \<le> 0 then s
      else case (guild_db s gid1, guild_db s gid2) of
        (Some g1, Some g2) \<Rightarrow>
          (if guild_id g1 = 0 \<or> guild_id g2 = 0 then s
           else (let s = ally_turn flag gid1 gid2 s; s = (if odd flag then s else ally_turn flag gid2 gid1 s)
                 in say (Guild_alliance gid1 gid2 acc1 acc2 flag (guild_name g1) (guild_name g2)) s))
      | _ \<Rightarrow> s)"

definition mapif_parse_GuildNotice :: "int \<Rightarrow> string \<Rightarrow> string \<Rightarrow> guild_server \<Rightarrow> guild_server" where
  "mapif_parse_GuildNotice gid m1 m2 s =
     (if gid \<le> 0 then s
      else case guild_db s gid of
        None \<Rightarrow> s
      | Some g \<Rightarrow> (if guild_id g \<le> 0 then s
          else say (Guild_notice gid (take 60 m1) (take 120 m2)) (set_guild (g\<lparr>mes1 := take 60 m1, mes2 := take 120 m2\<rparr>) s)))"

text \<open>The length is not compared with the room for the data.\<close>

definition mapif_parse_GuildEmblem :: "int \<Rightarrow> int \<Rightarrow> int list \<Rightarrow> guild_server \<Rightarrow> guild_server option" where
  "mapif_parse_GuildEmblem len gid dat s =
     (if gid \<le> 0 then Some s
      else case guild_db s gid of
        None \<Rightarrow> Some s
      | Some g \<Rightarrow>
          (if guild_id g \<le> 0 then Some s
           else if len < 0 \<or> len > MAX_EMBLEM then None
           else (let g = g\<lparr>emblem_data := take (nat len) dat @ drop (nat len) (emblem_data g), emblem_len := len,
                   emblem_id := s32 (emblem_id g + 1)\<rparr>
                 in Some (say (Guild_emblem gid (emblem_id g) (take (nat len) (emblem_data g))) (set_guild g s)))))"

text \<open>
  A character that is in another guild leaves it. When that breaks the guild, the loop goes on in memory that is freed: no
  result.
\<close>

fun guild_conflict_loop :: "int \<Rightarrow> int \<Rightarrow> int \<Rightarrow> nat list \<Rightarrow> guild_server \<Rightarrow> guild_server option" where
  "guild_conflict_loop gid acc cid [] s = Some s"
| "guild_conflict_loop gid acc cid (i # is) s = (case guild_db s gid of
     None \<Rightarrow> None
   | Some g \<Rightarrow> guild_conflict_loop gid acc cid is
       (if char_id (member g ! i) = cid then mapif_parse_GuildLeave gid acc cid 0 ''**Guild Data Bug**'' s else s))"

definition guild_check_conflict_sub :: "int \<Rightarrow> int \<Rightarrow> int \<Rightarrow> int \<Rightarrow> guild_server \<Rightarrow> guild_server option" where
  "guild_check_conflict_sub gid acc cid k s =
     (if k = gid \<or> guild_db s k = None then Some s else guild_conflict_loop k acc cid [0..<MAX_GUILD] s)"

fun guild_check_conflict :: "int list \<Rightarrow> int \<Rightarrow> int \<Rightarrow> int \<Rightarrow> guild_server \<Rightarrow> guild_server option" where
  "guild_check_conflict [] gid acc cid s = Some s"
| "guild_check_conflict (k # keys) gid acc cid s = Option.bind (guild_check_conflict_sub gid acc cid k s)
     (guild_check_conflict keys gid acc cid)"

text \<open>
  The packets of the map servers. In \<open>Create\<close> the name is what its 24 bytes hold: the code reads it as a string that goes on,
  when no byte ends it, with the number of the account that starts the member.
\<close>

definition account_bytes :: "guild_member \<Rightarrow> string" where
  "account_bytes m = cstr (map (\<lambda>i. char_of (nat (account_id m div 256 ^ i mod 256))) [0..<4])"

datatype guild_request =
    Create int string guild_member
  | Info int
  | Add_member int guild_member
  | Leave int int int int string
  | Change_short int int int int int int
  | Break int
  | Message int int string
  | Check int int int
  | Basic_info int int int
  | Member_info int int int int int
  | Position int int guild_position
  | Skill_up int int int
  | Alliance int int int int int
  | Notice int string string
  | Emblem int int "int list"
  | Castle_load int int
  | Castle_save int int int

fun inter_guild_parse_frommap :: "int list \<Rightarrow> int \<Rightarrow> guild_request \<Rightarrow> guild_server \<Rightarrow> guild_server option" where
  "inter_guild_parse_frommap keys fd (Create acc name m) s = 
     Some (mapif_parse_CreateGuild keys fd acc (cstring_field 24 name (account_bytes m)) m s)"
| "inter_guild_parse_frommap keys fd (Info gid) s = Some (mapif_parse_GuildInfo fd gid s)"
| "inter_guild_parse_frommap keys fd (Add_member gid m) s = Some (mapif_parse_GuildAddMember fd gid m s)"
| "inter_guild_parse_frommap keys fd (Leave gid acc cid flag mes) s = Some (mapif_parse_GuildLeave gid acc cid flag mes s)"
| "inter_guild_parse_frommap keys fd (Change_short gid acc cid onl level cls) s =
     Some (mapif_parse_GuildChangeMemberInfoShort gid acc cid onl level cls s)"
| "inter_guild_parse_frommap keys fd (Break gid) s = Some (mapif_parse_BreakGuild gid s)"
| "inter_guild_parse_frommap keys fd (Message gid acc mes) s = Some (mapif_parse_GuildMessage fd gid acc mes s)"
| "inter_guild_parse_frommap keys fd (Check gid acc cid) s = guild_check_conflict keys gid acc cid s"
| "inter_guild_parse_frommap keys fd (Basic_info gid type dw) s = Some (mapif_parse_GuildBasicInfoChange gid type dw s)"
| "inter_guild_parse_frommap keys fd (Member_info gid acc cid type v) s =
     Some (mapif_parse_GuildMemberInfoChange gid acc cid type v s)"
| "inter_guild_parse_frommap keys fd (Position gid idx p) s = Some (mapif_parse_GuildPosition gid idx p s)"
| "inter_guild_parse_frommap keys fd (Skill_up gid n acc) s = Some (mapif_parse_GuildSkillUp gid n acc s)"
| "inter_guild_parse_frommap keys fd (Alliance gid1 gid2 acc1 acc2 flag) s =
     Some (mapif_parse_GuildAlliance gid1 gid2 acc1 acc2 flag s)"
| "inter_guild_parse_frommap keys fd (Notice gid m1 m2) s = Some (mapif_parse_GuildNotice gid m1 m2 s)"
| "inter_guild_parse_frommap keys fd (Emblem len gid dat) s = mapif_parse_GuildEmblem len gid dat s"
| "inter_guild_parse_frommap keys fd (Castle_load cid idx) s = mapif_parse_GuildCastleDataLoad cid idx s"
| "inter_guild_parse_frommap keys fd (Castle_save cid idx v) s = mapif_parse_GuildCastleDataSave cid idx v s"

end
