(* ===== verification/IntGuildProofs.thy ===== *)
theory IntGuildProofs
  imports IntGuild Leveling
begin

text \<open>
  Lemmas on the guilds of the character server: the level of a guild, and what requests keep: no castle, alliance or name is left
  to a guild that is gone. Two requests can take a part of this away, for one guild (its points) or one castle (its owner); the
  invariant carries those that are open.
\<close>

declare guild_levels.simps [simp del]

section \<open>Levels\<close>

definition guild_other_fields :: "guild \<Rightarrow> guild" where
  "guild_other_fields g = g\<lparr>exp := 0, guild_lv := 0, skill_point := 0\<rparr>"

definition kept_guild :: "bool \<Rightarrow> guild \<Rightarrow> guild \<Rightarrow> bool" where
  "kept_guild p g' g \<longleftrightarrow> guild_other_fields g' = guild_other_fields g \<and>
     (p \<longrightarrow> skill_point g' - guild_lv g' = skill_point g - guild_lv g)"

definition guild_level_ok :: "bool \<Rightarrow> guild \<Rightarrow> bool" where
  "guild_level_ok p g \<longleftrightarrow> 1 \<le> guild_lv g \<and> guild_lv g \<le> 100 \<and> (p \<longrightarrow> 0 \<le> skill_point g \<and> skill_point g \<le> guild_lv g)"

definition guild_check :: "int list \<Rightarrow> guild \<Rightarrow> (bool \<times> guild) option" where
  "guild_check table g = (let nextexp = guild_nextexp table (guild_lv g) in
     Some (if exp g \<ge> nextexp \<and> nextexp > 0 then (True, raise_guild nextexp g) else (False, g)))"

definition guild_required :: "int list \<Rightarrow> guild \<Rightarrow> int \<Rightarrow> int" where
  "guild_required table g l = table ! nat (l - 1)"

interpretation guild_leveling: leveling exp guild_lv "guild_required table" 100 "guild_check table"
  "\<lambda>g. Some (guild_levels table g)" "guild_level_ok p" "kept_guild p" for table p
proof
  show "Some (guild_levels table g) = guild_check table g \<bind> (\<lambda>(up, g). if up then Some (guild_levels table g) else Some g)" for g
    by (subst guild_levels.simps) (simp add: guild_check_def Let_def)
  show "\<exists>g'. guild_check table g = Some (True, g') \<and> guild_level_ok p g' \<and> kept_guild p g' g \<and>
      exp g' = exp g - guild_required table g (guild_lv g) \<and> guild_lv g' = guild_lv g + 1"
    if g: "guild_level_ok p g" "guild_lv g < 100" "0 < guild_required table g (guild_lv g)" "guild_required table g (guild_lv g) \<le> exp g" for g
  proof -
    have "s16 (guild_lv g + 1) = guild_lv g + 1" "p \<longrightarrow> s16 (skill_point g + 1) = skill_point g + 1"
      using g(1,2) by (auto simp: guild_level_ok_def intro!: s16_id)
    then show ?thesis
      using g by (simp add: guild_check_def guild_nextexp_def guild_required_def guild_level_ok_def raise_guild_def kept_guild_def guild_other_fields_def)
  qed
qed (auto simp: guild_check_def Let_def guild_nextexp_def guild_required_def guild_level_ok_def kept_guild_def fun_eq_iff)

lemma guild_levels_ok:
  assumes "guild_level_ok p g" "0 \<le> exp g"
  shows "guild_level_ok p (guild_levels table g) \<and> guild_other_fields (guild_levels table g) = guild_other_fields g \<and>
    (p \<longrightarrow> skill_point (guild_levels table g) - guild_lv (guild_levels table g) = skill_point g - guild_lv g) \<and>
    guild_lv g \<le> guild_lv (guild_levels table g) \<and> 0 \<le> exp (guild_levels table g) \<and>
    (100 \<le> guild_lv (guild_levels table g) \<or> guild_nextexp table (guild_lv (guild_levels table g)) \<le> 0 \<or>
      exp (guild_levels table g) < guild_nextexp table (guild_lv (guild_levels table g))) \<and>
    exp g = exp (guild_levels table g) + (\<Sum>l \<in> {guild_lv g..<guild_lv (guild_levels table g)}. guild_nextexp table l)"
proof -
  let ?g = "guild_levels table g"
  have loop: "guild_level_ok p ?g \<and> kept_guild p ?g g \<and> guild_leveling.quiet table ?g \<and> guild_lv g \<le> guild_lv ?g \<and>
      0 \<le> exp ?g \<and> exp g = exp ?g + guild_leveling.spent table g ?g"
    using guild_leveling.loop_ends [OF assms] by auto
  have "(\<Sum>l \<in> {guild_lv g..<guild_lv ?g}. guild_nextexp table l) = guild_leveling.spent table g ?g"
    unfolding guild_leveling.spent_def using assms(1) loop
    by (intro sum.cong) (auto simp: guild_nextexp_def guild_required_def guild_level_ok_def)
  then show ?thesis using loop
    by (auto simp: kept_guild_def guild_leveling.quiet_def guild_nextexp_def guild_required_def guild_level_ok_def)
qed

lemma guild_other_fieldsD:
  assumes "guild_other_fields a = guild_other_fields b"
  shows "guild_id a = guild_id b" "max_member a = max_member b" "guild_name a = guild_name b" "member a = member b"
    "position a = position b" "alliance a = alliance b" "explusion a = explusion b" "skill a = skill b" "emblem_len a = emblem_len b"
    "master a = master b"
  using arg_cong [OF assms, of guild_id] arg_cong [OF assms, of max_member] arg_cong [OF assms, of guild_name]
    arg_cong [OF assms, of member] arg_cong [OF assms, of position] arg_cong [OF assms, of alliance]
    arg_cong [OF assms, of explusion] arg_cong [OF assms, of skill] arg_cong [OF assms, of emblem_len] arg_cong [OF assms, of master]
  by (simp_all add: guild_other_fields_def)

section \<open>Members\<close>

definition present :: "guild \<Rightarrow> guild_member list" where
  "present g = filter (\<lambda>m. account_id m > 0) (members g)"

definition levels_small :: "guild_member list \<Rightarrow> bool" where
  "levels_small ms \<longleftrightarrow> (\<forall>m \<in> set ms. 0 \<le> lv m \<and> lv m \<le> 255)"

lemma add_average_fold:
  assumes "levels_small ms" "length ms + nat n \<le> 128" "0 \<le> n" "0 \<le> acc" "acc \<le> 255 * n" "0 \<le> conn" "conn \<le> n"
  shows "fold add_average ms (acc, conn, c) =
    (acc + sum_list (map lv (filter (\<lambda>m. account_id m > 0) ms)),
     conn + int (length (filter (\<lambda>m. account_id m > 0 \<and> online m > 0) ms)),
     c + int (length (filter (\<lambda>m. account_id m > 0) ms)))"
  using assms
proof (induction ms arbitrary: acc conn c n)
  case (Cons m ms)
  have small: "levels_small ms" "0 \<le> lv m" "lv m \<le> 255" using Cons.prems(1) by (auto simp: levels_small_def)
  have n: "n + 1 \<le> 128" using Cons.prems(2,3) by simp
  show ?case
  proof (cases "account_id m > 0")
    case False
    have "length ms + nat n \<le> 128" using Cons.prems(2) by simp
    then show ?thesis using Cons.IH [OF small(1) _ Cons.prems(3-7)] False by (simp add: add_average_def)
  next
    case True
    have s: "s16 (acc + lv m) = acc + lv m" "s16 (conn + 1) = conn + 1"
      using Cons.prems(3-7) small(2,3) n by (intro s16_id; linarith)+
    have "length ms + nat (n + 1) \<le> 128" "acc + lv m \<le> 255 * (n + 1)" "0 \<le> acc + lv m" "0 \<le> n + 1"
      using Cons.prems small(2,3) by (simp_all add: nat_add_distrib)
    from Cons.IH [OF small(1) this(1,4,3,2), of "if online m > 0 then conn + 1 else conn" "c + 1"] Cons.prems(6,7)
    show ?thesis using True s by (cases "online m > 0") (simp_all add: add_average_def)
  qed
qed simp

lemma calc_members_correct:
  assumes "levels_small (members g)" "length (members g) \<le> 76"
  shows "average_lv (calc_members g) = sum_list (map lv (present g)) div int (length (present g))"
    "connect_member (calc_members g) = int (length (filter (\<lambda>m. account_id m > 0 \<and> online m > 0) (members g)))"
proof -
  have f: "fold add_average (members g) (0, 0, 0) =
    (sum_list (map lv (present g)), int (length (filter (\<lambda>m. account_id m > 0 \<and> online m > 0) (members g))), int (length (present g)))"
    using add_average_fold [OF assms(1), of 0 0 0 0] assms(2) by (simp add: present_def)
  have "0 \<le> sum_list (map lv (present g))"
    using assms(1) by (intro sum_list_nonneg) (auto simp: levels_small_def present_def)
  then show "average_lv (calc_members g) = sum_list (map lv (present g)) div int (length (present g))"
    by (cases "present g = []") (simp_all add: calc_members_def f cdiv_nonneg)
  show "connect_member (calc_members g) = int (length (filter (\<lambda>m. account_id m > 0 \<and> online m > 0) (members g)))"
    by (simp add: calc_members_def f)
qed

lemma calc_members_fields [simp]:
  "guild_id (calc_members g) = guild_id g" "max_member (calc_members g) = max_member g" "guild_name (calc_members g) = guild_name g"
  "member (calc_members g) = member g" "position (calc_members g) = position g" "alliance (calc_members g) = alliance g"
  "explusion (calc_members g) = explusion g" "skill (calc_members g) = skill g" "emblem_len (calc_members g) = emblem_len g"
  "guild_lv (calc_members g) = guild_lv g" "skill_point (calc_members g) = skill_point g" "exp (calc_members g) = exp g"
  by (simp_all add: calc_members_def split: prod.split)

section \<open>Recalculation\<close>

definition skill_sum :: "guild \<Rightarrow> int" where
  "skill_sum g = sum_list (map skill_lv (skill g))"

definition capacity :: "int \<Rightarrow> guild \<Rightarrow> int" where
  "capacity bonus g = 16 + skill_lv (skill g ! 4) * bonus"

definition guild_skills_ok :: "guild_skill list \<Rightarrow> bool" where
  "guild_skills_ok sk \<longleftrightarrow> length sk = MAX_GUILDSKILL \<and>
     (\<forall>i < MAX_GUILDSKILL. skill_id (sk ! i) = GD_SKILLBASE + int i \<and> 0 \<le> skill_lv (sk ! i) \<and> skill_lv (sk ! i) \<le> 10)"

text \<open>
  A guild of the table: its arrays, the points that are left or were spent on skills are those of its level (one more when it
  got its first level from a game master), and there are members.
\<close>

definition guild_core :: "bool \<Rightarrow> int \<Rightarrow> int \<Rightarrow> guild \<Rightarrow> bool" where
  "guild_core p bonus k g \<longleftrightarrow> guild_id g = k \<and> 0 < k \<and> length (member g) = MAX_GUILD \<and> length (position g) = MAX_GUILDPOSITION \<and>
     length (alliance g) = MAX_GUILDALLIANCE \<and> length (explusion g) = MAX_GUILDEXPLUSION \<and> guild_skills_ok (skill g) \<and>
     0 \<le> exp g \<and> 0 \<le> guild_lv g \<and> guild_lv g \<le> 100 \<and>
     (p \<longrightarrow> 0 \<le> skill_point g \<and> guild_lv g - 1 \<le> skill_point g + skill_sum g \<and> skill_point g + skill_sum g \<le> guild_lv g) \<and>
     0 \<le> emblem_len g \<and> emblem_len g \<le> MAX_EMBLEM \<and>
     (\<exists>m \<in> set (take (nat (capacity bonus g)) (member g)). account_id m > 0)"

definition guild_ok :: "bool \<Rightarrow> int \<Rightarrow> int \<Rightarrow> guild \<Rightarrow> bool" where
  "guild_ok p bonus k g \<longleftrightarrow> guild_core p bonus k g \<and> max_member g = capacity bonus g"

lemma skills_nth: "guild_skills_ok sk \<Longrightarrow> i < 15 \<Longrightarrow> skill_id (sk ! i) = GD_SKILLBASE + int i \<and> 0 \<le> skill_lv (sk ! i) \<and> skill_lv (sk ! i) \<le> 10"
  by (simp add: guild_skills_ok_def MAX_GUILDSKILL_def)

lemma skill_sum_nonneg: "guild_skills_ok (skill g) \<Longrightarrow> 0 \<le> skill_sum g"
  unfolding skill_sum_def by (rule sum_list_nonneg) (auto simp: guild_skills_ok_def in_set_conv_nth)

lemma skill_ids_same:
  assumes "guild_skills_ok (skill g)"
  shows "skill_ids g = g"
proof -
  have "map (\<lambda>(i, sk). sk\<lparr>skill_id := i + GD_SKILLBASE\<rparr>) (zip (map int [0..<MAX_GUILDSKILL]) (skill g)) = skill g"
    using assms by (intro nth_equalityI) (auto simp: guild_skills_ok_def intro!: guild_skill.equality)
  then show ?thesis by (simp add: skill_ids_def)
qed

lemma guild_checkskill_extension: "guild_checkskill g GD_EXTENSION = skill_lv (skill g ! 4)"
  by (simp add: guild_checkskill_def GD_EXTENSION_def GD_SKILLBASE_def MAX_GUILDSKILL_def)

lemma capacity_bounds:
  assumes "guild_skills_ok (skill g)" "0 \<le> bonus" "bonus \<le> 6"
  shows "16 \<le> capacity bonus g" "capacity bonus g \<le> 76"
proof -
  have l: "0 \<le> skill_lv (skill g ! 4)" "skill_lv (skill g ! 4) \<le> 10" using skills_nth [OF assms(1), of 4] by simp_all
  then have "skill_lv (skill g ! 4) * bonus \<le> 10 * 6" using assms(2,3) by (intro mult_mono) auto
  then show "16 \<le> capacity bonus g" "capacity bonus g \<le> 76" using l(1) assms(2) by (simp_all add: capacity_def)
qed

text \<open>The guild before the loop over the levels, and after it.\<close>

definition started :: "guild \<Rightarrow> guild" where
  "started g = (if guild_lv g \<le> 0 then g\<lparr>guild_lv := 1\<rparr> else g)"

lemma recalc_facts:
  assumes core: "guild_core p (guild_extension_bonus s) k g" and bonus: "0 \<le> guild_extension_bonus s" "guild_extension_bonus s \<le> 6"
  shows "guild_ok p (guild_extension_bonus s) k (recalc s g)" "alliance (recalc s g) = alliance g" "guild_name (recalc s g) = guild_name g"
    "member (recalc s g) = member g" "skill (recalc s g) = skill g"
    "max 1 (guild_lv g) \<le> guild_lv (recalc s g)"
    "100 \<le> guild_lv (recalc s g) \<or> guild_nextexp (guild_exp s) (guild_lv (recalc s g)) \<le> 0 \<or>
      exp (recalc s g) < guild_nextexp (guild_exp s) (guild_lv (recalc s g))"
    "exp g = exp (recalc s g) + (\<Sum>l \<in> {max 1 (guild_lv g)..<guild_lv (recalc s g)}. guild_nextexp (guild_exp s) l)"
proof -
  let ?b = "guild_extension_bonus s" and ?t = "guild_exp s"
  have c: "guild_skills_ok (skill g)" "0 \<le> exp g" "0 \<le> guild_lv g" "guild_lv g \<le> 100"
    "p \<longrightarrow> 0 \<le> skill_point g \<and> guild_lv g - 1 \<le> skill_point g + skill_sum g \<and> skill_point g + skill_sum g \<le> guild_lv g"
    using core by (simp_all add: guild_core_def)
  have lv: "guild_lv (started g) = max 1 (guild_lv g)" using c(3) by (simp add: started_def)
  have st: "skill_point (started g) = skill_point g" "exp (started g) = exp g" "skill (started g) = skill g"
    by (simp_all add: started_def)
  have "guild_level_ok p (started g)" using c lv st skill_sum_nonneg [OF c(1)] by (auto simp: guild_level_ok_def)
  note l = guild_levels_ok [OF this, of ?t, unfolded st(2), OF c(2)]
  define g2 where "g2 = guild_levels ?t (started g)"
  have o: "guild_other_fields g2 = guild_other_fields (started g)" using l by (simp add: g2_def)
  note od = guild_other_fieldsD [OF o]
  have started_fields: "guild_id (started g) = guild_id g" "guild_name (started g) = guild_name g" "member (started g) = member g"
    "position (started g) = position g" "alliance (started g) = alliance g" "explusion (started g) = explusion g" "emblem_len (started g) = emblem_len g"
    by (simp_all add: started_def)
  define g3 where "g3 = g2\<lparr>next_exp := guild_nextexp ?t (guild_lv g2), max_member := capacity ?b g2\<rparr>"
  have cap: "capacity ?b g2 = capacity ?b g" using od(8) st(3) by (simp add: capacity_def)
  have "s16 (16 + guild_checkskill g2 GD_EXTENSION * ?b) = capacity ?b g2"
    using capacity_bounds [OF c(1) bonus] cap unfolding guild_checkskill_extension capacity_def [symmetric] by (intro s16_id) auto
  then have r: "recalc s g = calc_members g3"
    unfolding recalc_def Let_def skill_ids_same [OF c(1)] started_def [symmetric] g2_def [symmetric] g3_def
    by (simp add: guild_checkskill_extension)
  have f3: "guild_id g3 = guild_id g" "guild_name g3 = guild_name g" "member g3 = member g" "position g3 = position g" "alliance g3 = alliance g"
    "explusion g3 = explusion g" "skill g3 = skill g" "emblem_len g3 = emblem_len g" "max_member g3 = capacity ?b g" "exp g3 = exp g2"
    "guild_lv g3 = guild_lv g2" "skill_point g3 = skill_point g2"
    using od started_fields st(3) cap by (simp_all add: g3_def)
  show "alliance (recalc s g) = alliance g" "guild_name (recalc s g) = guild_name g" "member (recalc s g) = member g" "skill (recalc s g) = skill g"
    using f3 by (simp_all add: r)
  show "max 1 (guild_lv g) \<le> guild_lv (recalc s g)"
    "100 \<le> guild_lv (recalc s g) \<or> guild_nextexp (guild_exp s) (guild_lv (recalc s g)) \<le> 0 \<or>
      exp (recalc s g) < guild_nextexp (guild_exp s) (guild_lv (recalc s g))"
    "exp g = exp (recalc s g) + (\<Sum>l \<in> {max 1 (guild_lv g)..<guild_lv (recalc s g)}. guild_nextexp (guild_exp s) l)"
    using l f3 lv unfolding g2_def [symmetric] by (simp_all add: r)
  have sums: "skill_sum (calc_members g3) = skill_sum g" "capacity ?b (calc_members g3) = capacity ?b g"
    using f3 by (simp_all add: skill_sum_def capacity_def)
  have sp: "p \<longrightarrow> skill_point g2 - guild_lv g2 = skill_point g - max 1 (guild_lv g)" "guild_level_ok p g2" "0 \<le> exp g2"
    using l lv st unfolding g2_def by simp_all
  have "guild_core p ?b k (calc_members g3)"
    using core sp c skill_sum_nonneg [OF c(1)] f3 sums by (auto simp: guild_core_def guild_level_ok_def)
  then show "guild_ok p ?b k (recalc s g)" using f3 sums by (simp add: guild_ok_def r)
qed

section \<open>The server\<close>

text \<open>
  Guilds are kept under their numbers, numbers are below the next free one, names differ in more than the case of letters,
  and castles and alliances belong to guilds that are there.
\<close>

definition guild_unique_names :: "(int \<Rightarrow> guild option) \<Rightarrow> bool" where
  "guild_unique_names db \<longleftrightarrow> (\<forall>k l p q. db k = Some p \<longrightarrow> db l = Some q \<longrightarrow>
     length (guild_name p) < 24 \<longrightarrow> length (guild_name q) < 24 \<longrightarrow> strcasecmp_eq (guild_name p) (guild_name q) \<longrightarrow> k = l)"

definition allies_ok :: "(int \<Rightarrow> guild option) \<Rightarrow> guild \<Rightarrow> bool" where
  "allies_ok db g \<longleftrightarrow> (\<forall>a \<in> set (alliance g). ally a = 0 \<or> db (ally a) \<noteq> None)"

definition castle_ok :: "bool \<Rightarrow> (int \<Rightarrow> guild option) \<Rightarrow> castle \<Rightarrow> bool" where
  "castle_ok q db gc \<longleftrightarrow> length (castle_values gc) = 25 \<and> (q \<longrightarrow> castle_owner gc = 0 \<or> db (castle_owner gc) \<noteq> None)"

definition castles_ok :: "nat set \<Rightarrow> (int \<Rightarrow> guild option) \<Rightarrow> castle list \<Rightarrow> bool" where
  "castles_ok E db cs \<longleftrightarrow> length cs = MAX_GUILDCASTLE \<and> (\<forall>i < MAX_GUILDCASTLE. castle_ok (i \<notin> E) db (cs ! i))"

definition guild_server_ok :: "int set \<Rightarrow> nat set \<Rightarrow> guild_server \<Rightarrow> bool" where
  "guild_server_ok D E s \<longleftrightarrow> 0 \<le> guild_extension_bonus s \<and> guild_extension_bonus s \<le> 6 \<and> 0 < guild_newid s \<and> castles_ok E (guild_db s) (castle_db s) \<and>
     (\<forall>k g. guild_db s k = Some g \<longrightarrow> guild_ok (k \<notin> D) (guild_extension_bonus s) k g \<and> k < guild_newid s \<and> allies_ok (guild_db s) g) \<and>
     guild_unique_names (guild_db s)"

lemma guild_server_okD:
  assumes "guild_server_ok D E s"
  shows "0 \<le> guild_extension_bonus s" "guild_extension_bonus s \<le> 6" "0 < guild_newid s" "castles_ok E (guild_db s) (castle_db s)" "guild_unique_names (guild_db s)"
    and "guild_db s k = Some g \<Longrightarrow> guild_ok (k \<notin> D) (guild_extension_bonus s) k g"
    and "guild_db s k = Some g \<Longrightarrow> k < guild_newid s"
    and "guild_db s k = Some g \<Longrightarrow> allies_ok (guild_db s) g"
  using assms unfolding guild_server_ok_def by blast+

lemma guild_say_simps [simp]:
  "guild_db (say m s) = guild_db s" "guild_newid (say m s) = guild_newid s" "guild_extension_bonus (say m s) = guild_extension_bonus s"
  "castle_db (say m s) = castle_db s" "guild_exp (say m s) = guild_exp s" "guild_server_ok D E (say m s) = guild_server_ok D E s"
  by (simp_all add: say_def guild_server_ok_def)

lemma set_guild_simps [simp]:
  "guild_db (set_guild g s) = (guild_db s)(guild_id g := Some g)" "guild_newid (set_guild g s) = guild_newid s"
  "guild_extension_bonus (set_guild g s) = guild_extension_bonus s" "castle_db (set_guild g s) = castle_db s" "guild_exp (set_guild g s) = guild_exp s"
  by (simp_all add: set_guild_def)

lemma guild_okD:
  assumes "guild_ok p b k g"
  shows "guild_id g = k" "0 < k" "guild_core p b k g" "max_member g = capacity b g" "length (member g) = MAX_GUILD" "guild_skills_ok (skill g)"
  using assms by (simp_all add: guild_ok_def guild_core_def)

lemma guild_ok_mono: "guild_ok p b k g \<Longrightarrow> (p' \<Longrightarrow> p) \<Longrightarrow> guild_ok p' b k g"
  by (auto simp: guild_ok_def guild_core_def)

lemma guild_server_ok_mono:
  assumes "guild_server_ok D E s" "D \<subseteq> D'"
  shows "guild_server_ok D' E s"
  using assms guild_ok_mono unfolding guild_server_ok_def by (metis subsetD)

text \<open>Whether guilds are there matters to castles and alliances, not what they are.\<close>

lemma allies_ok_dom: "dom db = dom db' \<Longrightarrow> allies_ok db g = allies_ok db' g"
  unfolding allies_ok_def by (metis domIff)

lemma castles_ok_dom:
  assumes "dom db = dom db'"
  shows "castles_ok E db cs = castles_ok E db' cs"
proof -
  have "castle_ok q db gc = castle_ok q db' gc" for q gc using assms unfolding castle_ok_def by (metis domIff)
  then show ?thesis by (simp add: castles_ok_def)
qed

lemma guild_server_ok_update:
  assumes s: "guild_server_ok D E s" "guild_db s k = Some g0" "guild_ok (k \<notin> D) (guild_extension_bonus s) k g" "guild_name g = guild_name g0" "allies_ok (guild_db s) g"
    and s': "guild_db s' = (guild_db s)(k := Some g)" "guild_newid s' = guild_newid s" "guild_extension_bonus s' = guild_extension_bonus s"
      "castle_db s' = castle_db s"
  shows "guild_server_ok D E s'"
proof -
  have dom: "dom (guild_db s') = dom (guild_db s)" using s(2) s'(1) by auto
  have "guild_unique_names (guild_db s')"
    using guild_server_okD(5) [OF s(1)] s(2,4) unfolding s'(1) guild_unique_names_def by (smt (verit) fun_upd_apply option.inject)
  moreover have "guild_ok (l \<notin> D) (guild_extension_bonus s) l h \<and> l < guild_newid s \<and> allies_ok (guild_db s') h" if "guild_db s' l = Some h" for l h
    using that s guild_server_okD(6-8) [OF s(1)] unfolding s'(1) allies_ok_dom [OF dom [unfolded s'(1)]] by (cases "l = k") auto
  ultimately show ?thesis
    using guild_server_okD(1-4) [OF s(1)] s'(2-4) castles_ok_dom [OF dom] unfolding guild_server_ok_def by simp
qed

text \<open>A guild that is written back in its place.\<close>

lemma guild_server_ok_set:
  assumes "guild_server_ok D E s" "guild_db s k = Some g0" "guild_ok (k \<notin> D) (guild_extension_bonus s) k g" "guild_name g = guild_name g0" "alliance g = alliance g0"
  shows "guild_server_ok D E (set_guild g s)"
  using guild_server_ok_update [OF assms(1-4), of "set_guild g s"] guild_server_okD(8) [OF assms(1,2)] assms(5) guild_okD(1) [OF assms(3)]
  by (simp add: allies_ok_def)

lemma calcinfo_ok:
  assumes s: "guild_server_ok D E s" "guild_db s k = Some g0" "guild_core (k \<notin> D) (guild_extension_bonus s) k g" "guild_name g = guild_name g0" "alliance g = alliance g0"
    and c: "guild_calcinfo g s = (changed, g', s')"
  shows "guild_server_ok D E s'" "guild_db s' = (guild_db s)(k := Some g')" "guild_ok (k \<notin> D) (guild_extension_bonus s) k g'"
    "guild_newid s' = guild_newid s" "guild_extension_bonus s' = guild_extension_bonus s" "guild_name g' = guild_name g0" "alliance g' = alliance g0"
proof -
  note r = recalc_facts [OF s(3) guild_server_okD(1,2) [OF s(1)]]
  have g': "g' = recalc s g" and s': "s' = set_guild g' s \<or> s' = say (Guild_info (- 1) g') (set_guild g' s)"
    using c by (auto simp: guild_calcinfo_def Let_def split: if_splits)
  have ok: "guild_ok (k \<notin> D) (guild_extension_bonus s) k g'" "guild_name g' = guild_name g0" "alliance g' = alliance g0" using r s(4,5) g' by simp_all
  show "guild_server_ok D E s'" using guild_server_ok_set [OF s(1,2) ok] s' by auto
  show "guild_db s' = (guild_db s)(k := Some g')" "guild_newid s' = guild_newid s" "guild_extension_bonus s' = guild_extension_bonus s"
    using s' guild_okD(1) [OF ok(1)] by auto
  show "guild_ok (k \<notin> D) (guild_extension_bonus s) k g'" "guild_name g' = guild_name g0" "alliance g' = alliance g0" by (rule ok)+
qed

section \<open>Castles and broken guilds\<close>

lemma castle_value_set: "length (castle_values gc) = 25 \<Longrightarrow> 1 \<le> i \<Longrightarrow> i \<le> 25 \<Longrightarrow>
    castle_value j (set_castle_value i v gc) = (if j - 1 = i - 1 then (if 9 \<le> i \<and> i \<le> 17 then v mod 2 else v) else castle_value j gc)"
  by (simp add: castle_value_def set_castle_value_def nth_list_update)

lemma castle_owner_set: "length (castle_values gc) = 25 \<Longrightarrow> 1 \<le> i \<Longrightarrow> i \<le> 25 \<Longrightarrow>
    castle_owner (set_castle_value i v gc) = (if i = 1 then v else castle_owner gc)"
  by (auto simp: castle_owner_def castle_value_set)

lemma length_set_castle_value [simp]: "length (castle_values (set_castle_value i v gc)) = length (castle_values gc)"
  by (simp add: set_castle_value_def)

lemma save_castle_simps [simp]:
  "guild_db (save_castle c i v s) = guild_db s" "guild_newid (save_castle c i v s) = guild_newid s"
  "guild_extension_bonus (save_castle c i v s) = guild_extension_bonus s" "guild_exp (save_castle c i v s) = guild_exp s"
  by (simp_all add: save_castle_def Let_def)

text \<open>A castle that is given to a number without a guild is noted.\<close>

definition given_away :: "(int \<Rightarrow> guild option) \<Rightarrow> nat \<Rightarrow> int \<Rightarrow> int \<Rightarrow> nat set \<Rightarrow> nat set" where
  "given_away db c i v E = (if i \<noteq> 1 then E else if v = 0 \<or> db v \<noteq> None then E - {c} else insert c E)"

lemma save_castle_ok:
  assumes "castles_ok E db (castle_db s)" "c < MAX_GUILDCASTLE"
  shows "castles_ok (given_away db c i v E) db (castle_db (save_castle c i v s))"
proof -
  let ?t = "save_castle c i v s" and ?E = "given_away db c i v E"
  have len: "length (castle_db ?t) = MAX_GUILDCASTLE" using assms(1) by (simp add: save_castle_def Let_def castles_ok_def)
  have other: "castle_db ?t ! j = castle_db s ! j" if "j \<noteq> c" for j using that by (simp add: save_castle_def Let_def)
  have gc: "castle_ok (c \<notin> E) db (castle_db s ! c)" "c < length (castle_db s)" using assms by (auto simp: castles_ok_def)
  have at: "length (castle_values (castle_db ?t ! c)) = 25" "castle_owner (castle_db ?t ! c) = (if i = 1 then v else castle_owner (castle_db s ! c))"
    using gc by (auto simp: save_castle_def Let_def castle_ok_def castle_owner_set nat_eq_iff) (simp_all add: castle_owner_def)
  have "castle_ok (j \<notin> ?E) db (castle_db ?t ! j)" if j: "j < MAX_GUILDCASTLE" for j
  proof (cases "j = c")
    case True
    then show ?thesis using at gc(1) by (auto simp: castle_ok_def given_away_def)
  next
    case False
    then show ?thesis using other assms(1) j by (auto simp: castles_ok_def castle_ok_def given_away_def)
  qed
  then show ?thesis using len by (simp add: castles_ok_def)
qed

text \<open>Castles of a guild are abandoned.\<close>

lemma abandon_simps [simp]:
  "guild_db (abandon_castle gid c s) = guild_db s" "guild_newid (abandon_castle gid c s) = guild_newid s"
  "guild_extension_bonus (abandon_castle gid c s) = guild_extension_bonus s" "guild_exp (abandon_castle gid c s) = guild_exp s"
  by (simp_all add: abandon_castle_def)

lemma abandon_castle_at:
  assumes "c < length (castle_db s)" "length (castle_values (castle_db s ! c)) = 25"
  shows "castle_db (abandon_castle gid c s) = (castle_db s)[c := castle_db (abandon_castle gid c s) ! c]"
    "length (castle_values (castle_db (abandon_castle gid c s) ! c)) = 25"
    "castle_owner (castle_db (abandon_castle gid c s) ! c) = (if castle_owner (castle_db s ! c) = gid then 0 else castle_owner (castle_db s ! c))"
  using assms by (auto simp: abandon_castle_def save_castle_def Let_def castle_owner_set) (auto simp: castle_owner_def)

lemma abandon_all:
  assumes "length (castle_db s) = MAX_GUILDCASTLE" "\<forall>gc \<in> set (castle_db s). length (castle_values gc) = 25" "n \<le> MAX_GUILDCASTLE"
  shows "length (castle_db (fold (abandon_castle gid) [0..<n] s)) = MAX_GUILDCASTLE \<and>
    (\<forall>i < MAX_GUILDCASTLE. length (castle_values (castle_db (fold (abandon_castle gid) [0..<n] s) ! i)) = 25 \<and>
      castle_owner (castle_db (fold (abandon_castle gid) [0..<n] s) ! i) =
        (if i < n \<and> castle_owner (castle_db s ! i) = gid then 0 else castle_owner (castle_db s ! i))) \<and>
    guild_db (fold (abandon_castle gid) [0..<n] s) = guild_db s \<and> guild_newid (fold (abandon_castle gid) [0..<n] s) = guild_newid s \<and>
    guild_extension_bonus (fold (abandon_castle gid) [0..<n] s) = guild_extension_bonus s"
  using assms(3)
proof (induction n)
  case 0
  then show ?case using assms(1,2) by simp
next
  case (Suc n)
  let ?s = "fold (abandon_castle gid) [0..<n] s"
  have IH: "length (castle_db ?s) = MAX_GUILDCASTLE" "\<And>i. i < MAX_GUILDCASTLE \<Longrightarrow> length (castle_values (castle_db ?s ! i)) = 25"
    "\<And>i. i < MAX_GUILDCASTLE \<Longrightarrow> castle_owner (castle_db ?s ! i) = (if i < n \<and> castle_owner (castle_db s ! i) = gid then 0 else castle_owner (castle_db s ! i))"
    "guild_db ?s = guild_db s" "guild_newid ?s = guild_newid s" "guild_extension_bonus ?s = guild_extension_bonus s"
    using Suc by auto
  have n: "n < length (castle_db ?s)" "length (castle_values (castle_db ?s ! n)) = 25" using IH Suc.prems by auto
  note at = abandon_castle_at [OF n, of gid]
  have same: "castle_db (abandon_castle gid n ?s) ! i = castle_db ?s ! i" if "i \<noteq> n" for i using at(1) that by (metis nth_list_update_neq)
  have len: "length (castle_db (abandon_castle gid n ?s)) = MAX_GUILDCASTLE" using at(1) IH(1) by (metis length_list_update)
  have "length (castle_values (castle_db (abandon_castle gid n ?s) ! i)) = 25 \<and>
      castle_owner (castle_db (abandon_castle gid n ?s) ! i) =
        (if i < Suc n \<and> castle_owner (castle_db s ! i) = gid then 0 else castle_owner (castle_db s ! i))" if i: "i < MAX_GUILDCASTLE" for i
    using same [of i] at(2,3) IH(2,3) [OF i] by (cases "i = n") auto
  then show ?case using len IH(4-6) by simp
qed

text \<open>A step of the server: the state stays well-formed, and a number that was given out does not come back.\<close>

definition good_step :: "int set \<Rightarrow> nat set \<Rightarrow> guild_server \<Rightarrow> guild_server \<Rightarrow> bool" where
  "good_step D E s t \<longleftrightarrow> guild_server_ok D E t \<and> guild_newid s \<le> guild_newid t \<and>
     (\<forall>k < guild_newid s. guild_db s k = None \<longrightarrow> guild_db t k = None)"

lemma good_step_refl: "guild_server_ok D E s \<Longrightarrow> good_step D E s s"
  by (simp add: good_step_def)

lemma good_step_trans: "good_step D E s t \<Longrightarrow> good_step D E t u \<Longrightarrow> good_step D E s u"
  unfolding good_step_def by (meson order.strict_trans2 order_trans)

lemma good_step_say [simp]: "good_step D E s (say m t) = good_step D E s t"
  by (simp add: good_step_def)

lemma good_step_set:
  assumes "guild_server_ok D E s" "guild_db s k = Some g0" "guild_ok (k \<notin> D) (guild_extension_bonus s) k g" "guild_name g = guild_name g0" "alliance g = alliance g0"
  shows "good_step D E s (set_guild g s)"
  using guild_server_ok_set [OF assms] assms(2) guild_okD(1) [OF assms(3)] by (auto simp: good_step_def)

lemma good_step_set_say:
  assumes "guild_server_ok D E s" "guild_db s k = Some g0" "guild_ok (k \<notin> D) (guild_extension_bonus s) k g" "guild_name g = guild_name g0" "alliance g = alliance g0"
  shows "good_step D E s (set_guild g (say m s))"
  using good_step_set [OF assms] by (simp add: good_step_def set_guild_def say_def guild_server_ok_def)

lemma good_step_calcinfo:
  assumes "guild_server_ok D E s" "guild_db s k = Some g0" "guild_core (k \<notin> D) (guild_extension_bonus s) k g" "guild_name g = guild_name g0" "alliance g = alliance g0"
    "guild_calcinfo g s = (changed, g', s')"
  shows "good_step D E s s'"
  using calcinfo_ok [OF assms] assms(2) by (auto simp: good_step_def)

lemma guild_break_sub_ok:
  "guild_ok p b k g \<Longrightarrow> guild_ok p b k (guild_break_sub gid g)" "guild_name (guild_break_sub gid g) = guild_name g"
  by (simp_all add: guild_break_sub_def guild_ok_def guild_core_def capacity_def skill_sum_def)

text \<open>Breaking a guild mends the state whatever the guild has become.\<close>

lemma remove_guild_from:
  assumes ok: "guild_server_ok D E s0" and agree: "guild_db s = (guild_db s0)(gid := x)" "castle_db s = castle_db s0"
      "guild_newid s = guild_newid s0" "guild_extension_bonus s = guild_extension_bonus s0"
  shows "good_step D E s0 (remove_guild gid s) \<and> guild_db (remove_guild gid s) gid = None"
proof -
  define db where "db = (\<lambda>k. map_option (guild_break_sub gid) (guild_db s k))(gid := None)"
  define s1 where "s1 = say (Guild_broken gid 0) (say (Guild_storage_deleted gid) (s\<lparr>guild_db := db\<rparr>))"
  let ?t = "fold (abandon_castle gid) [0..<MAX_GUILDCASTLE] s1"
  have t: "remove_guild gid s = ?t" by (simp add: remove_guild_def Let_def s1_def db_def)
  have s1: "guild_db s1 = db" "castle_db s1 = castle_db s0" "guild_newid s1 = guild_newid s0" "guild_extension_bonus s1 = guild_extension_bonus s0"
    using agree by (simp_all add: s1_def)
  have cs: "length (castle_db s0) = MAX_GUILDCASTLE" "\<And>i. i < MAX_GUILDCASTLE \<Longrightarrow> castle_ok (i \<notin> E) (guild_db s0) (castle_db s0 ! i)"
    using guild_server_okD(4) [OF ok] by (simp_all add: castles_ok_def)
  have v: "\<forall>gc \<in> set (castle_db s1). length (castle_values gc) = 25" using cs s1(2) by (auto simp: in_set_conv_nth castle_ok_def)
  have all: "length (castle_db ?t) = MAX_GUILDCASTLE" "guild_db ?t = db" "guild_newid ?t = guild_newid s0"
      "guild_extension_bonus ?t = guild_extension_bonus s0"
      "\<And>i. i < MAX_GUILDCASTLE \<Longrightarrow> length (castle_values (castle_db ?t ! i)) = 25 \<and> castle_owner (castle_db ?t ! i) =
        (if castle_owner (castle_db s0 ! i) = gid then 0 else castle_owner (castle_db s0 ! i))"
    using abandon_all [OF _ v order_refl, of gid] cs(1) s1 by simp_all
  have db: "db k \<noteq> None \<longleftrightarrow> k \<noteq> gid \<and> guild_db s0 k \<noteq> None" for k by (simp add: db_def agree)
  have from_s0: "\<exists>h. guild_db s0 k = Some h \<and> g = guild_break_sub gid h \<and> k \<noteq> gid" if "guild_db ?t k = Some g" for k g
    using that all(2) by (auto simp: db_def agree split: if_splits)
  have "castle_ok (i \<notin> E) db (castle_db ?t ! i)" if i: "i < MAX_GUILDCASTLE" for i
    using cs(2) [OF i] all(5) [OF i] db by (auto simp: castle_ok_def)
  then have castles: "castles_ok E (guild_db ?t) (castle_db ?t)" using all(1,2) by (simp add: castles_ok_def)
  have guilds: "guild_ok (k \<notin> D) (guild_extension_bonus ?t) k g \<and> k < guild_newid ?t \<and> allies_ok (guild_db ?t) g" if kg: "guild_db ?t k = Some g" for k g
  proof -
    obtain h where h: "guild_db s0 k = Some h" "g = guild_break_sub gid h" using from_s0 [OF kg] by blast
    have "allies_ok db g"
      using guild_server_okD(8) [OF ok h(1)] db unfolding h(2) by (fastforce simp: allies_ok_def guild_break_sub_def)
    then show ?thesis using guild_server_okD(6,7) [OF ok h(1)] guild_break_sub_ok(1) all(2-4) h(2) by simp
  qed
  have "guild_unique_names (guild_db ?t)"
    unfolding guild_unique_names_def
  proof (intro allI impI)
    fix k l p q assume kl: "guild_db ?t k = Some p" "guild_db ?t l = Some q"
      and short: "length (guild_name p) < 24" "length (guild_name q) < 24" and eq: "strcasecmp_eq (guild_name p) (guild_name q)"
    obtain p0 q0 where "guild_db s0 k = Some p0" "guild_db s0 l = Some q0" "guild_name p = guild_name p0" "guild_name q = guild_name q0"
      using from_s0 [OF kl(1)] from_s0 [OF kl(2)] guild_break_sub_ok(2) by blast
    then show "k = l" using guild_server_okD(5) [OF ok] short eq unfolding guild_unique_names_def by metis
  qed
  then have "guild_server_ok D E ?t"
    using castles guilds guild_server_okD(1-3) [OF ok] all(3,4) unfolding guild_server_ok_def by simp
  moreover have "guild_db ?t k = None" if "guild_db s0 k = None" for k using that db all(2) by metis
  ultimately show ?thesis using t all(2,3) by (simp add: good_step_def db_def)
qed

lemma remove_guild_db:
  "guild_db (remove_guild gid s) = (\<lambda>k. map_option (guild_break_sub gid) (guild_db s k))(gid := None)"
proof -
  have "guild_db (fold (abandon_castle gid) cs u) = guild_db u" for cs u by (induction cs arbitrary: u) simp_all
  then show ?thesis by (simp add: remove_guild_def Let_def)
qed

lemma remove_guild_ok:
  assumes "guild_server_ok D E s"
  shows "good_step D E s (remove_guild gid s)" "guild_db (remove_guild gid s) gid = None"
  using remove_guild_from [OF assms, of s gid "guild_db s gid"] by simp_all

section \<open>Requests\<close>

lemma search_guildname_None:
  assumes "dom (guild_db s) \<subseteq> set keys" "search_guildname keys str s = None" "guild_db s k = Some p"
  shows "\<not> strcasecmp_eq (guild_name p) str"
proof -
  let ?f = "\<lambda>k found. case guild_db s k of
       Some p \<Rightarrow> if strcasecmp_eq (guild_name p) str then Some p else found | None \<Rightarrow> found"
  have found: "fold ?f ks (Some q) \<noteq> None" for ks q
    by (induction ks arbitrary: q) (auto split: option.splits)
  have "fold ?f ks None \<noteq> None" if "k \<in> set ks" "strcasecmp_eq (guild_name p) str" for ks
    using that assms(3) found by (induction ks) (auto split: option.splits)
  moreover have "k \<in> set keys" using assms(1,3) by blast
  ultimately show ?thesis using assms(2) unfolding search_guildname_def by blast
qed

lemma new_guild_ok:
  assumes "0 < k" "0 < account_id m" "0 \<le> b"
  shows "guild_ok p b k (new_guild k name m)" "\<forall>a \<in> set (alliance (new_guild k name m)). ally a = 0"
proof -
  let ?g = "new_guild k name m"
  have sk: "skill_lv (skill ?g ! i) = 0" "skill_id (skill ?g ! i) = int i + GD_SKILLBASE" if "i < MAX_GUILDSKILL" for i
    using that by (simp_all add: new_guild_def)
  have "guild_skills_ok (skill ?g)" using sk by (simp add: guild_skills_ok_def) (simp add: new_guild_def)
  moreover have "skill_sum ?g = 0" by (simp add: skill_sum_def new_guild_def comp_def)
  moreover have "capacity b ?g = 16" using sk(1) [of 4] by (simp add: capacity_def MAX_GUILDSKILL_def)
  moreover have "m \<in> set (take 16 (member ?g))" by (simp add: new_guild_def no_guild_def MAX_GUILD_def take_Cons' replicate_Suc [symmetric] del: replicate_Suc) (simp add: numeral_eq_Suc)
  ultimately show "guild_ok p b k ?g"
    using assms by (auto simp: guild_ok_def guild_core_def) (auto simp: new_guild_def no_guild_def MAX_EMBLEM_def)
  show "\<forall>a \<in> set (alliance ?g). ally a = 0" by (simp add: new_guild_def no_guild_def)
qed

lemma CreateGuild_ok:
  assumes ok: "guild_server_ok D E s" and keys: "dom (guild_db s) \<subseteq> set keys" and new: "guild_newid s < 2147483647"
    and arg: "0 < account_id m"
  shows "good_step D E s (mapif_parse_CreateGuild keys fd acc name m s)"
proof (cases "illegal_name name \<or> search_guildname keys name s \<noteq> None")
  case True
  then show ?thesis using good_step_refl [OF ok] by (simp add: mapif_parse_CreateGuild_def)
next
  case False
  let ?n = "guild_newid s" and ?g = "new_guild (guild_newid s) name m"
  let ?s = "set_guild ?g (s\<lparr>guild_newid := s32 (guild_newid s + 1)\<rparr>)"
  have id: "guild_id ?g = ?n" "guild_name ?g = take 24 name" by (simp_all add: new_guild_def)
  have n1: "s32 (?n + 1) = ?n + 1" using new guild_server_okD(3) [OF ok] by (intro s32_id) auto
  have s': "guild_db ?s = (guild_db s)(?n := Some ?g)" "guild_newid ?s = ?n + 1" "guild_extension_bonus ?s = guild_extension_bonus s"
    "castle_db ?s = castle_db s" using id n1 by (simp_all)
  have g: "guild_ok (?n \<notin> D) (guild_extension_bonus s) ?n ?g" "\<forall>a \<in> set (alliance ?g). ally a = 0"
    using new_guild_ok [OF guild_server_okD(3) [OF ok] arg guild_server_okD(1) [OF ok]] by simp_all
  have more: "db' l \<noteq> None" if "guild_db s l \<noteq> None" "db' = (guild_db s)(?n := Some ?g)" for l db' using that by simp
  have castles: "castles_ok E (guild_db ?s) (castle_db ?s)"
    using guild_server_okD(4) [OF ok] unfolding s'(1,4) by (auto simp: castles_ok_def castle_ok_def)
  have guilds: "guild_ok (l \<notin> D) (guild_extension_bonus s) l h \<and> l < ?n + 1 \<and> allies_ok (guild_db ?s) h" if "guild_db ?s l = Some h" for l h
  proof (cases "l = ?n")
    case True
    then have h: "h = ?g" using that unfolding s'(1) by simp
    show ?thesis using g True unfolding h allies_ok_def by simp
  next
    case False
    then have "guild_db s l = Some h" using that unfolding s'(1) by simp
    then show ?thesis using guild_server_okD(6) [OF ok] guild_server_okD(7) [OF ok, of l h] guild_server_okD(8) [OF ok, of l h] by (auto simp: s'(1) allies_ok_def)
  qed
  have unique: "guild_unique_names (guild_db ?s)"
    unfolding guild_unique_names_def s'(1)
  proof (intro allI impI)
    fix k l p q
    assume kl: "((guild_db s)(?n := Some ?g)) k = Some p" "((guild_db s)(?n := Some ?g)) l = Some q"
      and short: "length (guild_name p) < 24" "length (guild_name q) < 24" and eq: "strcasecmp_eq (guild_name p) (guild_name q)"
    have none: "\<not> strcasecmp_eq (guild_name r) name" "\<not> strcasecmp_eq name (guild_name r)" if "guild_db s i = Some r" for i r
      using search_guildname_None [OF keys _ that] False unfolding strcasecmp_eq_def by metis+
    show "k = l"
      using kl short eq none id(2) guild_server_okD(5) [OF ok] unfolding guild_unique_names_def by (auto split: if_splits)
  qed
  have "guild_server_ok D E ?s"
    using guild_server_okD(1-3) [OF ok] castles guilds unique s'(2,3) unfolding guild_server_ok_def by auto
  moreover have "guild_db s ?n = None" using guild_server_okD(7) [OF ok, of ?n] by (cases "guild_db s ?n") auto
  ultimately have "good_step D E s ?s" using s'(1,2) by (auto simp: good_step_def)
  then show ?thesis using False by (simp add: mapif_parse_CreateGuild_def Let_def)
qed

lemma in_take_update:
  assumes "\<exists>m \<in> set (take n xs). P m" "i < length xs" "P (xs ! i) \<Longrightarrow> P y"
  shows "\<exists>m \<in> set (take n (xs[i := y])). P m"
proof -
  obtain j where j: "j < n" "j < length xs" "P (xs ! j)" using assms(1) by (auto simp: in_set_conv_nth)
  then have "(take n (xs[i := y])) ! j = (if j = i then y else xs ! j)" by (simp add: nth_list_update)
  moreover have "j < length (take n (xs[i := y]))" using j by simp
  ultimately show ?thesis using j(3) assms(3) by (metis nth_mem)
qed

lemma core_member:
  assumes "guild_core p b k g" "i < length (member g)" "account_id (member g ! i) > 0 \<Longrightarrow> account_id m > 0"
  shows "guild_core p b k (g\<lparr>member := (member g)[i := m]\<rparr>)"
  using assms in_take_update [of "nat (capacity b g)" "member g" "\<lambda>m. account_id m > 0" i m]
  by (auto simp: guild_core_def capacity_def skill_sum_def)

lemma guild_AddMember_ok:
  assumes ok: "guild_server_ok D E s" and arg: "0 < account_id m"
  shows "good_step D E s (mapif_parse_GuildAddMember fd gid m s)"
proof (cases "guild_db s gid")
  case None
  then show ?thesis using good_step_refl [OF ok] by (simp add: mapif_parse_GuildAddMember_def)
next
  case (Some g)
  have g: "guild_ok (gid \<notin> D) (guild_extension_bonus s) gid g" using guild_server_okD(6) [OF ok Some] .
  let ?i = "first_idx (\<lambda>n. account_id n = 0) (members g)"
  show ?thesis
  proof (cases "guild_id g > 0 \<and> ?i < length (members g)")
    case False
    then show ?thesis using Some good_step_refl [OF ok] by (auto simp: mapif_parse_GuildAddMember_def Let_def)
  next
    case True
    have i: "?i < length (member g)" using True by (simp add: members_def)
    let ?g = "g\<lparr>member := (member g)[?i := m]\<rparr>"
    have core: "guild_core (gid \<notin> D) (guild_extension_bonus s) gid ?g" using core_member [OF guild_okD(3) [OF g] i] arg by simp
    let ?s = "say (Guild_memberadded fd gid (account_id m) (char_id m) 0) (set_guild ?g s)"
    have gok: "guild_ok (gid \<notin> D) (guild_extension_bonus s) gid ?g" using core guild_okD(4) [OF g] by (simp add: guild_ok_def capacity_def)
    have s1: "good_step D E s ?s" using good_step_set [OF ok Some gok] by simp
    obtain c g' s' where calc: "guild_calcinfo ?g ?s = (c, g', s')" by (metis prod_cases3)
    have "guild_db ?s gid = Some ?g" using guild_okD(1) [OF g] by simp
    then have "good_step D E ?s s'" using good_step_calcinfo [OF _ _ _ _ _ calc, of D E gid ?g] s1 core by (simp add: good_step_def)
    then have "good_step D E s s'" using s1 good_step_trans by blast
    then show ?thesis using Some True calc by (simp add: mapif_parse_GuildAddMember_def Let_def)
  qed
qed

lemma GuildInfo_ok:
  assumes ok: "guild_server_ok D E s"
  shows "good_step D E s (mapif_parse_GuildInfo fd gid s)"
proof (cases "guild_db s gid")
  case None
  then show ?thesis using good_step_refl [OF ok] by (simp add: mapif_parse_GuildInfo_def)
next
  case (Some g)
  have g: "guild_ok (gid \<notin> D) (guild_extension_bonus s) gid g" using guild_server_okD(6) [OF ok Some] .
  obtain c g' s' where calc: "guild_calcinfo g s = (c, g', s')" by (metis prod_cases3)
  have "good_step D E s s'" using good_step_calcinfo [OF ok Some guild_okD(3) [OF g] _ _ calc] by simp
  then show ?thesis using Some calc good_step_refl [OF ok] by (simp add: mapif_parse_GuildInfo_def)
qed

lemma length_note_expelled: "length es = MAX_GUILDEXPLUSION \<Longrightarrow> length (note_expelled acc name mes es) = MAX_GUILDEXPLUSION"
  by (simp add: note_expelled_def Let_def MAX_GUILDEXPLUSION_def)

lemma GuildLeave_ok:
  assumes ok: "guild_server_ok D E s"
  shows "good_step D E s (mapif_parse_GuildLeave gid acc cid flag mes s)"
proof (cases "guild_db s gid")
  case None
  then show ?thesis using good_step_refl [OF ok] by (simp add: mapif_parse_GuildLeave_def)
next
  case (Some g)
  have g: "guild_ok (gid \<notin> D) (guild_extension_bonus s) gid g" using guild_server_okD(6) [OF ok Some] .
  let ?i = "first_idx (\<lambda>m. char_id m = cid) (member g)"
  show ?thesis
  proof (cases "guild_id g > 0 \<and> ?i < length (member g)")
    case False
    then show ?thesis using Some good_step_refl [OF ok] by (auto simp: mapif_parse_GuildLeave_def Let_def)
  next
    case True
    define g1 where "g1 = (if flag \<noteq> 0 then g\<lparr>explusion := note_expelled acc (member_name (member g ! ?i)) mes (explusion g)\<rparr> else g)"
    define g2 where "g2 = g1\<lparr>member := (member g1)[?i := no_member]\<rparr>"
    define s1 where "s1 = set_guild g2 (say (Guild_leaved gid acc cid flag (member_name (member g ! ?i)) mes) s)"
    have run: "mapif_parse_GuildLeave gid acc cid flag mes s =
        (let (empt, s) = guild_check_empty g2 s1 in if empt = 0 then say (Guild_info (- 1) g2) s else s)"
      using Some True unfolding mapif_parse_GuildLeave_def s1_def g2_def g1_def by (cases "flag = 0") (simp_all add: Let_def)
    have g1: "guild_id g1 = gid" "guild_name g1 = guild_name g" "alliance g1 = alliance g" "member g1 = member g"
      "max_member g1 = max_member g" "skill g1 = skill g" using guild_okD(1) [OF g] by (simp_all add: g1_def)
    have "guild_ok (gid \<notin> D) (guild_extension_bonus s) gid g1"
      using g length_note_expelled by (auto simp: g1_def guild_ok_def guild_core_def capacity_def skill_sum_def)
    then have core: "guild_core (gid \<notin> D) (guild_extension_bonus s) gid g2" if "\<exists>m \<in> set (members g2). account_id m > 0"
      using that by (auto simp: g2_def guild_ok_def guild_core_def capacity_def skill_sum_def members_def)
    show ?thesis
    proof (cases "\<exists>m \<in> set (members g2). account_id m > 0")
      case True
      have g2: "guild_ok (gid \<notin> D) (guild_extension_bonus s) gid g2"
        using core [OF True] g1 guild_okD(4) [OF g] by (simp add: guild_ok_def g2_def capacity_def)
      have "good_step D E s s1"
        unfolding s1_def by (rule good_step_set_say [OF ok Some g2]) (use g1 in \<open>simp_all add: g2_def\<close>)
      then show ?thesis using True unfolding run by (simp add: guild_check_empty_def)
    next
      case False
      have "guild_id g2 = gid" using g1(1) by (simp add: g2_def)
      then have r: "mapif_parse_GuildLeave gid acc cid flag mes s = remove_guild gid s1"
        using False unfolding run by (auto simp: guild_check_empty_def)
      show ?thesis unfolding r
        by (rule remove_guild_from [OF ok, where x = "Some g2", THEN conjunct1]) (simp_all add: s1_def g1(1) g2_def)
    qed
  qed
qed

text \<open>Requests that change a guild in its place: the fields that the invariant reads stay, or keep the invariant.\<close>

lemma guild_ok_same:
  assumes "guild_ok p b k g" "guild_id g' = guild_id g" "max_member g' = max_member g" "member g' = member g" "skill g' = skill g"
    "guild_lv g' = guild_lv g" "skill_point g' = skill_point g" "exp g' = exp g" "length (position g') = length (position g)"
    "length (alliance g') = length (alliance g)" "explusion g' = explusion g" "0 \<le> emblem_len g'" "emblem_len g' \<le> MAX_EMBLEM"
  shows "guild_ok p b k g'"
  using assms by (simp add: guild_ok_def guild_core_def capacity_def skill_sum_def)

lemma ChangeMemberInfoShort_ok:
  assumes ok: "guild_server_ok D E s"
  shows "good_step D E s (mapif_parse_GuildChangeMemberInfoShort gid acc cid onl level cls s)"
proof (cases "guild_db s gid")
  case None
  then show ?thesis using good_step_refl [OF ok] by (simp add: mapif_parse_GuildChangeMemberInfoShort_def)
next
  case (Some g)
  let ?f = "change_short cid onl level cls"
  have g: "guild_ok (gid \<notin> D) (guild_extension_bonus s) gid g" using guild_server_okD(6) [OF ok Some] .
  define s1 where "s1 = fold (\<lambda>m. say (Guild_memberinfoshort gid (account_id m) (char_id m) (online m) (lv m) (member_class m)))
                        (filter (\<lambda>m. char_id m = cid) (map ?f (member g))) s"
  define g1 where "g1 = g\<lparr>member := map ?f (member g), connect_member := int (length (filter (\<lambda>m. online m \<noteq> 0) (map ?f (member g)))),
    average_lv := (if filter (\<lambda>m. account_id m > 0) (map ?f (member g)) = [] then 0
      else s16 (cdiv (sum_list (map lv (filter (\<lambda>m. account_id m > 0) (map ?f (member g))))) (int (length (filter (\<lambda>m. account_id m > 0) (map ?f (member g)))))))\<rparr>"
  have run: "mapif_parse_GuildChangeMemberInfoShort gid acc cid onl level cls s = set_guild g1 s1"
    using Some guild_okD(1,2) [OF g] unfolding mapif_parse_GuildChangeMemberInfoShort_def g1_def s1_def by (simp add: Let_def)
  have "\<exists>m \<in> set (take n (map ?f ms)). account_id m > 0" if "\<exists>m \<in> set (take n ms). account_id m > 0" for n ms
  proof -
    note ex = that
    obtain m where m: "m \<in> set (take n ms)" "account_id m > 0" using ex by blast
    then have "?f m \<in> set (take n (map ?f ms))" by (simp add: take_map)
    moreover have "account_id (?f m) = account_id m" by (simp add: change_short_def)
    ultimately show ?thesis using m(2) by metis
  qed
  then have g1: "guild_ok (gid \<notin> D) (guild_extension_bonus s) gid g1"
    using g unfolding guild_ok_def guild_core_def g1_def by (simp add: capacity_def skill_sum_def del: bex_simps set_take_subset)
  have same: "guild_db s1 = guild_db s \<and> guild_newid s1 = guild_newid s \<and> guild_extension_bonus s1 = guild_extension_bonus s \<and>
      castle_db s1 = castle_db s"
    unfolding s1_def by (rule fold_invariant [where Q = "\<lambda>_. True"]) (simp_all)
  have "guild_server_ok D E (set_guild g1 s1)"
    by (rule guild_server_ok_update [OF ok Some g1]) (use same guild_okD(1) [OF g1] guild_server_okD(8) [OF ok Some] in \<open>simp_all add: g1_def allies_ok_def\<close>)
  then show ?thesis
    using same guild_okD(1) [OF g1] Some unfolding run by (auto simp: good_step_def)
qed

text \<open>A level that a game master lowers leaves the points as they are: what is said of the points of that guild is lost.\<close>

definition lowered :: "int \<Rightarrow> int \<Rightarrow> int \<Rightarrow> int set" where
  "lowered gid type dw = (if type = GBI_GUILDLV \<and> dw < 0 then {gid} else {})"

lemma BasicInfoChange_ok:
  assumes ok0: "guild_server_ok D E s"
  shows "good_step (lowered gid type dw \<union> D) E s (mapif_parse_GuildBasicInfoChange gid type dw s)"
proof -
  define D' where "D' = lowered gid type dw \<union> D"
  have ok: "guild_server_ok D' E s" using guild_server_ok_mono [OF ok0] by (auto simp: D'_def)
  have "good_step D' E s (mapif_parse_GuildBasicInfoChange gid type dw s)"
  proof (cases "guild_db s gid")
    case None
    then show ?thesis using good_step_refl [OF ok] by (simp add: mapif_parse_GuildBasicInfoChange_def)
  next
    case (Some g)
    have g: "guild_ok (gid \<notin> D') (guild_extension_bonus s) gid g" using guild_server_okD(6) [OF ok Some] .
    have b: "0 \<le> guild_lv g" "guild_lv g \<le> 100" "gid \<notin> D' \<Longrightarrow> 0 \<le> skill_point g \<and> skill_point g + skill_sum g \<le> guild_lv g" "guild_skills_ok (skill g)"
      using g by (simp_all add: guild_ok_def guild_core_def)
    define g1 where "g1 = (if dw > 0 \<and> guild_lv g + dw \<le> 50
      then g\<lparr>guild_lv := s16 (guild_lv g + dw), skill_point := s16 (skill_point g + dw)\<rparr>
      else if dw < 0 \<and> guild_lv g + dw \<ge> 1 then g\<lparr>guild_lv := s16 (guild_lv g + dw)\<rparr> else g)"
    have run: "mapif_parse_GuildBasicInfoChange gid type dw s =
        (if type = GBI_GUILDLV then say (Guild_info (- 1) g1) (set_guild g1 s) else say (Guild_basicinfochanged gid type dw) s)"
      using Some guild_okD(1,2) [OF g] unfolding mapif_parse_GuildBasicInfoChange_def g1_def by (simp add: Let_def)
    have g1: "guild_ok (gid \<notin> D') (guild_extension_bonus s) gid g1" if "type = GBI_GUILDLV"
    proof -
      consider (up) "dw > 0 \<and> guild_lv g + dw \<le> 50" | (down) "dw < 0 \<and> guild_lv g + dw \<ge> 1" | (same) "g1 = g"
        unfolding g1_def by (cases "dw > 0 \<and> guild_lv g + dw \<le> 50"; cases "dw < 0 \<and> guild_lv g + dw \<ge> 1") simp_all
      then show ?thesis
      proof cases
        case up
        have "s16 (guild_lv g + dw) = guild_lv g + dw" using up b by (intro s16_id) linarith+
        moreover have "gid \<notin> D' \<longrightarrow> s16 (skill_point g + dw) = skill_point g + dw"
          using up b(1,3) skill_sum_nonneg [OF b(4)] by (intro impI s16_id) linarith+
        ultimately show ?thesis using up g unfolding g1_def if_P [OF up] by (auto simp: guild_ok_def guild_core_def capacity_def skill_sum_def)
      next
        case down
        then have "s16 (guild_lv g + dw) = guild_lv g + dw" "gid \<in> D'" "\<not> (dw > 0 \<and> guild_lv g + dw \<le> 50)"
          using b that by (auto simp: D'_def lowered_def intro!: s16_id)
        then show ?thesis using down g b unfolding g1_def by (simp add: guild_ok_def guild_core_def capacity_def skill_sum_def)
      qed (use g in simp)
    qed
    have "good_step D' E s (set_guild g1 s)" if "type = GBI_GUILDLV"
      by (rule good_step_set [OF ok Some g1 [OF that]]) (simp_all add: g1_def)
    then show ?thesis using good_step_refl [OF ok] unfolding run by simp
  qed
  then show ?thesis by (simp add: D'_def)
qed

lemma saturate_nonneg: "0 \<le> saturate e d"
  by (simp add: saturate_def)

lemma MemberInfoChange_ok:
  assumes ok: "guild_server_ok D E s"
  shows "good_step D E s (mapif_parse_GuildMemberInfoChange gid acc cid type v s)"
proof (cases "guild_db s gid")
  case None
  then show ?thesis using good_step_refl [OF ok] by (simp add: mapif_parse_GuildMemberInfoChange_def)
next
  case (Some g)
  have g: "guild_ok (gid \<notin> D) (guild_extension_bonus s) gid g" using guild_server_okD(6) [OF ok Some] .
  let ?i = "first_idx (\<lambda>m. account_id m = acc \<and> char_id m = cid) (members g)"
  show ?thesis
  proof (cases "?i < length (members g)")
    case False
    then show ?thesis using Some good_step_refl [OF ok] by (simp add: mapif_parse_GuildMemberInfoChange_def Let_def)
  next
    case True
    have i: "?i < length (member g)" using True by (simp add: members_def)
    consider "type = GMI_POSITION" | "type = GMI_EXP" | "type \<noteq> GMI_POSITION" "type \<noteq> GMI_EXP" by blast
    then show ?thesis
    proof cases
      case 1
      let ?g = "g\<lparr>member := (member g)[?i := (member g ! ?i)\<lparr>pos := s16 v\<rparr>]\<rparr>"
      have "guild_ok (gid \<notin> D) (guild_extension_bonus s) gid ?g"
        using core_member [OF guild_okD(3) [OF g] i] guild_okD(4) [OF g] by (simp add: guild_ok_def capacity_def)
      then have "good_step D E s (set_guild ?g s)" using good_step_set [OF ok Some] by simp
      then show ?thesis using Some True 1 by (simp add: mapif_parse_GuildMemberInfoChange_def Let_def)
    next
      case 2
      define m where "m = (member g ! ?i)\<lparr>member_exp := saturate (member_exp (member g ! ?i)) v\<rparr>"
      define g1 where "g1 = g\<lparr>exp := saturate (exp g) v, member := (member g)[?i := m]\<rparr>"
      have "guild_core (gid \<notin> D) (guild_extension_bonus s) gid (g\<lparr>member := (member g)[?i := m]\<rparr>)"
        using core_member [OF guild_okD(3) [OF g] i] by (simp add: m_def)
      then have core: "guild_core (gid \<notin> D) (guild_extension_bonus s) gid g1"
        using saturate_nonneg by (simp add: g1_def guild_core_def capacity_def skill_sum_def)
      obtain c g2 s2 where calc: "guild_calcinfo g1 s = (c, g2, s2)" by (metis prod_cases3)
      have "good_step D E s s2" by (rule good_step_calcinfo [OF ok Some core _ _ calc]) (simp_all add: g1_def)
      moreover have "mapif_parse_GuildMemberInfoChange gid acc cid type v s =
          say (Guild_memberinfochanged gid acc cid type (member_exp m)) (say (Guild_basicinfochanged gid GBI_EXP (exp g2)) s2)"
        using Some True 2 calc unfolding mapif_parse_GuildMemberInfoChange_def g1_def m_def
        by (simp add: Let_def GMI_EXP_def GMI_POSITION_def)
      ultimately show ?thesis by simp
    next
      case 3
      then show ?thesis using Some good_step_refl [OF ok] by (simp add: mapif_parse_GuildMemberInfoChange_def Let_def)
    qed
  qed
qed

lemma Position_ok:
  assumes ok: "guild_server_ok D E s"
  shows "good_step D E s (mapif_parse_GuildPosition gid idx p s)"
proof (cases "guild_db s gid")
  case None
  then show ?thesis using good_step_refl [OF ok] by (simp add: mapif_parse_GuildPosition_def)
next
  case (Some g)
  have g: "guild_ok (gid \<notin> D) (guild_extension_bonus s) gid g" using guild_server_okD(6) [OF ok Some] .
  let ?g = "g\<lparr>position := (position g)[nat idx := p]\<rparr>"
  have "guild_ok (gid \<notin> D) (guild_extension_bonus s) gid ?g"
    using g by (simp add: guild_ok_def guild_core_def capacity_def skill_sum_def)
  then have "good_step D E s (set_guild ?g s)" using good_step_set [OF ok Some] by simp
  then show ?thesis using Some good_step_refl [OF ok] by (simp add: mapif_parse_GuildPosition_def)
qed

lemma Notice_ok:
  assumes ok: "guild_server_ok D E s"
  shows "good_step D E s (mapif_parse_GuildNotice gid m1 m2 s)"
proof (cases "guild_db s gid")
  case None
  then show ?thesis using good_step_refl [OF ok] by (simp add: mapif_parse_GuildNotice_def)
next
  case (Some g)
  have g: "guild_ok (gid \<notin> D) (guild_extension_bonus s) gid g" using guild_server_okD(6) [OF ok Some] .
  let ?g = "g\<lparr>mes1 := take 60 m1, mes2 := take 120 m2\<rparr>"
  have "guild_ok (gid \<notin> D) (guild_extension_bonus s) gid ?g"
    using g by (simp add: guild_ok_def guild_core_def capacity_def skill_sum_def)
  then have "good_step D E s (set_guild ?g s)" using good_step_set [OF ok Some] by simp
  then show ?thesis using Some good_step_refl [OF ok] by (simp add: mapif_parse_GuildNotice_def)
qed

lemma Emblem_ok:
  assumes ok: "guild_server_ok D E s" and arg: "0 \<le> len" "len \<le> MAX_EMBLEM"
  shows "\<exists>t. mapif_parse_GuildEmblem len gid dat s = Some t \<and> good_step D E s t"
proof (cases "guild_db s gid")
  case None
  then show ?thesis using good_step_refl [OF ok] by (simp add: mapif_parse_GuildEmblem_def)
next
  case (Some g)
  have g: "guild_ok (gid \<notin> D) (guild_extension_bonus s) gid g" using guild_server_okD(6) [OF ok Some] .
  let ?g = "g\<lparr>emblem_data := take (nat len) dat @ drop (nat len) (emblem_data g), emblem_len := len, emblem_id := s32 (emblem_id g + 1)\<rparr>"
  have "guild_ok (gid \<notin> D) (guild_extension_bonus s) gid ?g"
    using g arg by (simp add: guild_ok_def guild_core_def capacity_def skill_sum_def)
  then have "good_step D E s (set_guild ?g s)" using good_step_set [OF ok Some] by simp
  then show ?thesis using Some good_step_refl [OF ok] arg by (simp add: mapif_parse_GuildEmblem_def Let_def)
qed

lemma SkillUp_core:
  assumes core: "guild_core p b k g" and b: "0 \<le> b" and i: "i < MAX_GUILDSKILL" and up: "skill_point g > 0" "skill_lv (skill g ! i) < 10"
  shows "guild_core p b k (g\<lparr>skill := (skill g)[i := (skill g ! i)\<lparr>skill_lv := skill_lv (skill g ! i) + 1\<rparr>], skill_point := skill_point g - 1\<rparr>)"
proof -
  let ?x = "(skill g ! i)\<lparr>skill_lv := skill_lv (skill g ! i) + 1\<rparr>"
  let ?g = "g\<lparr>skill := (skill g)[i := ?x], skill_point := skill_point g - 1\<rparr>"
  have c: "guild_skills_ok (skill g)" "\<exists>m \<in> set (take (nat (capacity b g)) (member g)). account_id m > 0"
    using core by (simp_all add: guild_core_def)
  have len: "i < length (skill g)" using i c(1) by (simp add: guild_skills_ok_def)
  have "guild_skills_ok (skill ?g)" using c(1) i up(2) by (simp add: guild_skills_ok_def nth_list_update)
  moreover have "skill_sum ?g = skill_sum g + 1"
    using len sum_list_update_int [of i "map skill_lv (skill g)" "skill_lv ?x"] by (simp add: skill_sum_def map_update)
  moreover have cap: "capacity b g \<le> capacity b ?g"
    using b len by (cases "i = 4") (simp_all add: capacity_def algebra_simps)
  moreover have "\<exists>m \<in> set (take (nat (capacity b ?g)) (member g)). account_id m > 0"
    using c(2) set_take_subset_set_take [OF nat_mono [OF cap], of "member g"] by blast
  ultimately show ?thesis using core up(1) by (simp add: guild_core_def)
qed

lemma SkillUp_ok:
  assumes ok: "guild_server_ok D E s"
  shows "good_step D E s (mapif_parse_GuildSkillUp gid n acc s)"
proof (cases "guild_db s gid")
  case None
  then show ?thesis using good_step_refl [OF ok] by (simp add: mapif_parse_GuildSkillUp_def Let_def)
next
  case (Some g)
  have g: "guild_ok (gid \<notin> D) (guild_extension_bonus s) gid g" using guild_server_okD(6) [OF ok Some] .
  let ?i = "nat (n - GD_SKILLBASE)"
  show ?thesis
  proof (cases "0 \<le> n - GD_SKILLBASE \<and> n - GD_SKILLBASE < int MAX_GUILDSKILL \<and> skill_point g > 0 \<and> skill_id (skill g ! ?i) > 0 \<and>
      skill_lv (skill g ! ?i) < 10")
    case False
    then show ?thesis using Some good_step_refl [OF ok] by (auto simp: mapif_parse_GuildSkillUp_def Let_def)
  next
    case True
    define g1 where "g1 = g\<lparr>skill := (skill g)[?i := (skill g ! ?i)\<lparr>skill_lv := skill_lv (skill g ! ?i) + 1\<rparr>], skill_point := skill_point g - 1\<rparr>"
    have i: "?i < MAX_GUILDSKILL" using True by (simp add: nat_less_iff)
    have core: "guild_core (gid \<notin> D) (guild_extension_bonus s) gid g1"
      unfolding g1_def using True by (intro SkillUp_core [OF guild_okD(3) [OF g] guild_server_okD(1) [OF ok] i]) simp_all
    obtain c g2 s2 where calc: "guild_calcinfo g1 s = (c, g2, s2)" by (metis prod_cases3)
    have step: "good_step D E s s2" by (rule good_step_calcinfo [OF ok Some core _ _ calc]) (simp_all add: g1_def)
    have "mapif_parse_GuildSkillUp gid n acc s =
        say (Guild_skillupack gid n acc) (if c = 0 then say (Guild_info (- 1) g2) s2 else s2)"
      using Some True calc unfolding mapif_parse_GuildSkillUp_def g1_def by (simp add: Let_def)
    then show ?thesis using step by simp
  qed
qed

lemma ally_turn_ok:
  assumes ok: "guild_server_ok D E s" and pos: "0 < gid2"
  shows "good_step D E s (ally_turn flag gid1 gid2 s)" "dom (guild_db (ally_turn flag gid1 gid2 s)) = dom (guild_db s)"
proof -
  have "good_step D E s (ally_turn flag gid1 gid2 s) \<and> dom (guild_db (ally_turn flag gid1 gid2 s)) = dom (guild_db s)"
  proof (cases "guild_db s gid1 = None \<or> guild_db s gid2 = None")
    case True
    then show ?thesis using good_step_refl [OF ok] by (auto simp: ally_turn_def split: option.splits)
  next
    case False
    then obtain g h where gh: "guild_db s gid1 = Some g" "guild_db s gid2 = Some h" by auto
    have g: "guild_ok (gid1 \<notin> D) (guild_extension_bonus s) gid1 g" and h: "guild_id h = gid2"
      using guild_server_okD(6) [OF ok] gh guild_okD(1) by blast+
    define g1 where "g1 = (if bit flag 3 then remove_ally else add_ally) flag h g"
    have t: "ally_turn flag gid1 gid2 s = set_guild g1 s" using gh by (simp add: ally_turn_def g1_def)
    have set: "\<forall>a \<in> set (alliance g1). ally a = 0 \<or> ally a = gid2 \<or> a \<in> set (alliance g)"
      by (auto simp: g1_def remove_ally_def add_ally_def Let_def h dest!: subsetD [OF set_update_subset_insert])
    have g1: "guild_ok (gid1 \<notin> D) (guild_extension_bonus s) gid1 g1" "guild_name g1 = guild_name g" "guild_id g1 = gid1"
      using g guild_okD(1) [OF g]
      by (simp_all add: g1_def guild_ok_def guild_core_def capacity_def skill_sum_def remove_ally_def add_ally_def Let_def)
    have "allies_ok (guild_db s) g1"
      using set guild_server_okD(8) [OF ok gh(1)] gh(2) unfolding allies_ok_def by blast
    then have "guild_server_ok D E (set_guild g1 s)"
      using guild_server_ok_update [OF ok gh(1) g1(1,2)] g1(3) by simp
    then show ?thesis using gh(1) g1(3) unfolding t by (auto simp: good_step_def)
  qed
  then show "good_step D E s (ally_turn flag gid1 gid2 s)" "dom (guild_db (ally_turn flag gid1 gid2 s)) = dom (guild_db s)" by blast+
qed

lemma good_step_ok: "good_step D E s t \<Longrightarrow> guild_server_ok D E t"
  by (simp add: good_step_def)

lemma Alliance_ok:
  assumes ok: "guild_server_ok D E s"
  shows "good_step D E s (mapif_parse_GuildAlliance gid1 gid2 acc1 acc2 flag s)"
proof (cases "gid1 \<le> 0 \<or> gid2 \<le> 0")
  case True
  then show ?thesis using good_step_refl [OF ok] by (auto simp: mapif_parse_GuildAlliance_def)
next
  case False
  let ?s1 = "ally_turn flag gid1 gid2 s"
  have s1: "good_step D E s ?s1" using ally_turn_ok(1) [OF ok] False by simp
  then have "good_step D E ?s1 (ally_turn flag gid2 gid1 ?s1)" using ally_turn_ok(1) good_step_ok False by simp
  then have "good_step D E s (ally_turn flag gid2 gid1 ?s1)" using good_step_trans s1 by blast
  then show ?thesis
    using s1 good_step_refl [OF ok] False by (auto simp: mapif_parse_GuildAlliance_def Let_def split: option.splits)
qed

lemma CastleDataLoad_ok:
  assumes "guild_server_ok D E s" "0 \<le> cid" "cid < int MAX_GUILDCASTLE"
  shows "\<exists>t. mapif_parse_GuildCastleDataLoad cid idx s = Some t \<and> good_step D E s t"
  using assms good_step_refl by (simp add: mapif_parse_GuildCastleDataLoad_def Let_def)

lemma CastleDataSave_ok:
  assumes ok: "guild_server_ok D E s" and arg: "0 \<le> cid" "cid < int MAX_GUILDCASTLE"
  shows "\<exists>t. mapif_parse_GuildCastleDataSave cid idx v s = Some t \<and> good_step D (given_away (guild_db s) (nat cid) idx v E) s t"
proof -
  let ?t = "save_castle (nat cid) idx v s" and ?E = "given_away (guild_db s) (nat cid) idx v E"
  have "castles_ok ?E (guild_db s) (castle_db ?t)"
    by (rule save_castle_ok [OF guild_server_okD(4) [OF ok]]) (use arg in \<open>auto simp: nat_less_iff\<close>)
  then have "guild_server_ok D ?E ?t" using ok unfolding guild_server_ok_def by simp
  then have "good_step D ?E s ?t" by (simp add: good_step_def)
  then show ?thesis using arg by (simp add: mapif_parse_GuildCastleDataSave_def)
qed

lemma guild_conflict_loop_ok: "guild_server_ok D E s \<Longrightarrow> guild_conflict_loop gid acc cid is s = Some t \<Longrightarrow> good_step D E s t"
proof (induction "is" arbitrary: s)
  case Nil
  then show ?case using good_step_refl by simp
next
  case (Cons i "is")
  then obtain g where g: "guild_db s gid = Some g" by (auto split: option.splits)
  define s1 where "s1 = (if char_id (member g ! i) = cid then mapif_parse_GuildLeave gid acc cid 0 ''**Guild Data Bug**'' s else s)"
  have s1: "good_step D E s s1" using GuildLeave_ok [OF Cons.prems(1)] good_step_refl [OF Cons.prems(1)] by (simp add: s1_def)
  have "guild_conflict_loop gid acc cid is s1 = Some t" using Cons.prems(2) g by (simp add: s1_def)
  then show ?case using Cons.IH [OF good_step_ok [OF s1]] s1 good_step_trans by blast
qed

lemma check_conflict_ok: "guild_server_ok D E s \<Longrightarrow> guild_check_conflict keys gid acc cid s = Some t \<Longrightarrow> good_step D E s t"
proof (induction keys arbitrary: s)
  case Nil
  then show ?case using good_step_refl by simp
next
  case (Cons k keys)
  obtain u where u: "guild_check_conflict_sub gid acc cid k s = Some u" "guild_check_conflict keys gid acc cid u = Some t"
    using Cons.prems(2) by (auto simp: bind_eq_Some_conv)
  have "good_step D E s u"
    using u(1) guild_conflict_loop_ok [OF Cons.prems(1)] good_step_refl [OF Cons.prems(1)] by (auto simp: guild_check_conflict_sub_def split: if_splits)
  then show ?case using Cons.IH [OF good_step_ok] u(2) good_step_trans by blast
qed

text \<open>
  A check gets no result only when the character is the one member of another guild, or all members are that character: what
  goes on keeps the members of all guilds but that character.
\<close>

definition only_member :: "int \<Rightarrow> guild \<Rightarrow> bool" where
  "only_member cid g \<longleftrightarrow> (\<forall>m \<in> set (members g). account_id m > 0 \<longrightarrow> char_id m = cid)"

definition loses_only :: "int \<Rightarrow> guild_server \<Rightarrow> guild_server \<Rightarrow> bool" where
  "loses_only cid s t \<longleftrightarrow> (\<forall>k g'. guild_db t k = Some g' \<longrightarrow> (\<exists>g. guild_db s k = Some g \<and>
     (\<forall>m \<in> set (members g). account_id m > 0 \<longrightarrow> char_id m = cid \<or> m \<in> set (members g'))))"

lemma loses_only_refl: "loses_only cid s s"
  by (simp add: loses_only_def)

lemma loses_only_trans: "loses_only cid s t \<Longrightarrow> loses_only cid t u \<Longrightarrow> loses_only cid s u"
  unfolding loses_only_def by metis

lemma loses_only_member: "loses_only cid s t \<Longrightarrow> guild_db t k = Some g' \<Longrightarrow> only_member cid g' \<Longrightarrow> \<exists>g. guild_db s k = Some g \<and> only_member cid g"
  unfolding loses_only_def only_member_def by metis

text \<open>The member at a place leaves.\<close>

lemma leave_members:
  assumes "m \<in> set (take n ms)" "m \<noteq> ms ! i"
  shows "m \<in> set (take n (ms[i := x]))"
proof -
  obtain j where "j < n" "j < length ms" "ms ! j = m" using assms(1) by (auto simp: in_set_conv_nth)
  moreover from this have "take n (ms[i := x]) ! j = m" using assms(2) by (cases "j = i") auto
  ultimately show ?thesis by (metis length_list_update length_take min_less_iff_conj nth_mem)
qed

lemma leave_cases:
  assumes g: "guild_db s gid = Some g" "guild_id g = gid" and t: "t = mapif_parse_GuildLeave gid acc cid flag mes s"
  shows "guild_db t = guild_db s \<or> (\<exists>g2 i. i < length (member g) \<and> char_id (member g ! i) = cid \<and>
      members g2 = take (nat (max_member g)) ((member g)[i := no_member]) \<and>
      (guild_db t = (guild_db s)(gid := Some g2) \<or> (\<forall>m \<in> set (members g2). \<not> account_id m > 0) \<and>
        guild_db t = (\<lambda>k. map_option (guild_break_sub gid) (guild_db s k))(gid := None)))"
proof (cases "guild_id g > 0 \<and> first_idx (\<lambda>m. char_id m = cid) (member g) < length (member g)")
  case False
  then show ?thesis using g(1) unfolding t by (auto simp: mapif_parse_GuildLeave_def Let_def)
next
  case True
  define i where "i = first_idx (\<lambda>m. char_id m = cid) (member g)"
  define g1 where "g1 = (if flag \<noteq> 0 then g\<lparr>explusion := note_expelled acc (member_name (member g ! i)) mes (explusion g)\<rparr> else g)"
  define g2 where "g2 = g1\<lparr>member := (member g1)[i := no_member]\<rparr>"
  define s1 where "s1 = set_guild g2 (say (Guild_leaved gid acc cid flag (member_name (member g ! i)) mes) s)"
  have run: "t = (let (empt, s) = guild_check_empty g2 s1 in if empt = 0 then say (Guild_info (- 1) g2) s else s)"
    unfolding t mapif_parse_GuildLeave_def g(1) option.case Let_def if_P [OF True] s1_def g2_def g1_def i_def ..
  have g2: "guild_id g2 = gid" "members g2 = take (nat (max_member g)) ((member g)[i := no_member])"
    using g(2) by (simp_all add: g2_def g1_def members_def)
  have s1: "guild_db s1 = (guild_db s)(gid := Some g2)" by (simp add: s1_def g2(1))
  have i: "i < length (member g)" "char_id (member g ! i) = cid"
    using True first_idx_sat [of "\<lambda>m. char_id m = cid" "member g"] by (simp_all add: i_def)
  have "guild_db t = (guild_db s)(gid := Some g2) \<or> (\<forall>m \<in> set (members g2). \<not> account_id m > 0) \<and>
      guild_db t = (\<lambda>k. map_option (guild_break_sub gid) (guild_db s k))(gid := None)"
    using s1 by (auto simp: run guild_check_empty_def g2(1) remove_guild_db)
  then show ?thesis using i g2(2) by blast
qed

lemma GuildLeave_loses:
  assumes g: "guild_db s gid = Some g" "guild_id g = gid" and t: "t = mapif_parse_GuildLeave gid acc cid flag mes s"
  shows "loses_only cid s t" "guild_db t gid = None \<Longrightarrow> only_member cid g"
proof -
  have same: "members (guild_break_sub gid h) = members h" for h by (simp add: guild_break_sub_def members_def)
  have kept: "account_id m > 0 \<Longrightarrow> char_id m = cid \<or> m \<in> set (members g2)"
    if "char_id (member g ! i) = cid" "members g2 = take (nat (max_member g)) ((member g)[i := no_member])" "m \<in> set (members g)" for m i g2
    using that leave_members [of m "nat (max_member g)" "member g" i no_member] by (auto simp: members_def)
  note cases = leave_cases [OF g t]
  show "loses_only cid s t"
    using cases
  proof (elim disjE exE conjE)
    fix g2 i assume "char_id (member g ! i) = cid" "members g2 = take (nat (max_member g)) ((member g)[i := no_member])"
      "guild_db t = (guild_db s)(gid := Some g2)"
    then show ?thesis using kept g(1) unfolding loses_only_def by (metis fun_upd_apply option.inject)
  next
    assume t: "guild_db t = (\<lambda>k. map_option (guild_break_sub gid) (guild_db s k))(gid := None)"
    show ?thesis unfolding loses_only_def t by (auto simp: same)
  qed (simp add: loses_only_def)
  show "only_member cid g" if "guild_db t gid = None"
    using cases
  proof (elim disjE exE conjE)
    fix g2 i assume "char_id (member g ! i) = cid" "members g2 = take (nat (max_member g)) ((member g)[i := no_member])"
      "\<forall>m \<in> set (members g2). \<not> account_id m > 0"
    then show ?thesis using kept unfolding only_member_def by blast
  qed (use that g in simp_all)
qed

lemma conflict_loop_loses:
  assumes "guild_server_ok D E s" "guild_db s k = Some g"
  shows "case guild_conflict_loop k acc cid is s of None \<Rightarrow> only_member cid g | Some t \<Rightarrow> loses_only cid s t"
  using assms
proof (induction "is" arbitrary: s g)
  case Nil
  then show ?case using loses_only_refl by simp
next
  case (Cons i "is")
  define s1 where "s1 = (if char_id (member g ! i) = cid then mapif_parse_GuildLeave k acc cid 0 ''**Guild Data Bug**'' s else s)"
  have id: "guild_id g = k" using guild_okD(1) [OF guild_server_okD(6) [OF Cons.prems]] .
  have run: "guild_conflict_loop k acc cid (i # is) s = guild_conflict_loop k acc cid is s1" using Cons.prems(2) by (simp add: s1_def)
  have s1: "guild_server_ok D E s1" "loses_only cid s s1" "guild_db s1 k = None \<Longrightarrow> only_member cid g"
    using good_step_ok [OF GuildLeave_ok [OF Cons.prems(1)]] Cons.prems GuildLeave_loses [OF Cons.prems(2) id refl] loses_only_refl
    by (auto simp: s1_def split: if_splits)
  show ?case
  proof (cases "guild_db s1 k")
    case None
    show ?thesis
    proof (cases "is")
      case Nil
      then show ?thesis unfolding run using s1(2) by simp
    next
      case (Cons j js)
      then show ?thesis unfolding run using s1(3) None by simp
    qed
  next
    case (Some g1)
    have only: "only_member cid g1 \<Longrightarrow> only_member cid g" using loses_only_member [OF s1(2) Some] Cons.prems(2) by auto
    have trans: "loses_only cid s1 t \<Longrightarrow> loses_only cid s t" for t using loses_only_trans [OF s1(2)] .
    show ?thesis using Cons.IH [OF s1(1) Some] only trans unfolding run by (auto split: option.splits)
  qed
qed

lemma check_conflict_None:
  assumes "guild_server_ok D E s" "guild_check_conflict keys gid acc cid s = None"
  shows "\<exists>k g. k \<noteq> gid \<and> guild_db s k = Some g \<and> only_member cid g"
  using assms
proof (induction keys arbitrary: s)
  case (Cons k keys)
  show ?case
  proof (cases "guild_check_conflict_sub gid acc cid k s")
    case None
    then obtain g where "k \<noteq> gid" "guild_db s k = Some g" "guild_conflict_loop k acc cid [0..<MAX_GUILD] s = None"
      by (auto simp: guild_check_conflict_sub_def split: if_splits)
    then show ?thesis using conflict_loop_loses [OF Cons.prems(1), of k g cid acc "[0..<MAX_GUILD]"] by auto
  next
    case (Some u)
    have u: "guild_server_ok D E u" "loses_only cid s u"
      using Some Cons.prems(1) conflict_loop_loses [OF Cons.prems(1), of k _ cid acc "[0..<MAX_GUILD]"] loses_only_refl
        good_step_ok [OF guild_conflict_loop_ok [OF Cons.prems(1)]]
      by (auto simp: guild_check_conflict_sub_def split: if_splits)
    have "guild_check_conflict keys gid acc cid u = None" using Cons.prems(2) Some by simp
    then obtain l h where "l \<noteq> gid" "guild_db u l = Some h" "only_member cid h" using Cons.IH [OF u(1)] by blast
    then show ?thesis using loses_only_member [OF u(2)] by metis
  qed
qed simp

section \<open>All requests\<close>

text \<open>What a map server has to keep to: accounts have numbers above 0, and not all numbers for guilds are used up.\<close>

fun guild_request_ok :: "guild_server \<Rightarrow> guild_request \<Rightarrow> bool" where
  "guild_request_ok s (Create acc name m) \<longleftrightarrow> 0 < account_id m \<and> guild_newid s < 2147483647"
| "guild_request_ok s (Add_member gid m) \<longleftrightarrow> 0 < account_id m"
| "guild_request_ok s _ \<longleftrightarrow> True"

text \<open>The guilds whose points need not match their level any more, and the castles whose guild need not be there, after a request.\<close>

fun points_open :: "guild_request \<Rightarrow> int set \<Rightarrow> int set" where
  "points_open (Basic_info gid type dw) D = lowered gid type dw \<union> D"
| "points_open _ D = D"

fun castles_open :: "guild_server \<Rightarrow> guild_request \<Rightarrow> nat set \<Rightarrow> nat set" where
  "castles_open s (Castle_save cid idx v) E = given_away (guild_db s) (nat cid) idx v E"
| "castles_open s _ E = E"

text \<open>The requests that read or write where the code must not.\<close>

fun unanswered :: "guild_server \<Rightarrow> guild_request \<Rightarrow> bool" where
  "unanswered s (Emblem len gid dat) \<longleftrightarrow> len < 0 \<or> len > MAX_EMBLEM"
| "unanswered s (Castle_load cid idx) \<longleftrightarrow> cid < 0 \<or> cid \<ge> int MAX_GUILDCASTLE"
| "unanswered s (Castle_save cid idx v) \<longleftrightarrow> cid < 0 \<or> cid \<ge> int MAX_GUILDCASTLE"
| "unanswered s (Check gid acc cid) \<longleftrightarrow> (\<exists>k g. k \<noteq> gid \<and> guild_db s k = Some g \<and> only_member cid g)"
| "unanswered s _ \<longleftrightarrow> False"

lemma BreakGuild_ok: "guild_server_ok D E s \<Longrightarrow> good_step D E s (mapif_parse_BreakGuild gid s)"
  using remove_guild_ok(1) good_step_refl by (simp add: mapif_parse_BreakGuild_def split: option.splits)

lemma GuildMessage_ok: "guild_server_ok D E s \<Longrightarrow> good_step D E s (mapif_parse_GuildMessage fd gid acc mes s)"
  using good_step_refl by (simp add: mapif_parse_GuildMessage_def)

lemmas request_steps = CreateGuild_ok guild_AddMember_ok GuildInfo_ok GuildLeave_ok ChangeMemberInfoShort_ok BreakGuild_ok GuildMessage_ok
  BasicInfoChange_ok MemberInfoChange_ok Position_ok Notice_ok SkillUp_ok Alliance_ok

lemma request_good:
  assumes ok: "guild_server_ok D E s" "dom (guild_db s) \<subseteq> set keys" "guild_request_ok s r"
  shows "case inter_guild_parse_frommap keys fd r s of None \<Rightarrow> unanswered s r
    | Some t \<Rightarrow> good_step (points_open r D) (castles_open s r E) s t"
proof (cases r)
  case (Check gid acc cid)
  then show ?thesis using check_conflict_ok [OF ok(1)] check_conflict_None [OF ok(1)] by (auto split: option.split)
next
  case (Emblem len gid dat)
  then show ?thesis using Emblem_ok [OF ok(1), of len gid dat] by (cases "0 \<le> len \<and> len \<le> MAX_EMBLEM") (auto split: option.split simp: mapif_parse_GuildEmblem_def good_step_refl [OF ok(1)])
next
  case (Castle_load cid idx)
  then show ?thesis using CastleDataLoad_ok [OF ok(1), of cid idx]
    by (cases "0 \<le> cid \<and> cid < int MAX_GUILDCASTLE") (auto simp: mapif_parse_GuildCastleDataLoad_def)
next
  case (Castle_save cid idx v)
  then show ?thesis using CastleDataSave_ok [OF ok(1), of cid idx v]
    by (cases "0 \<le> cid \<and> cid < int MAX_GUILDCASTLE") (auto simp: mapif_parse_GuildCastleDataSave_def)
qed (use ok request_steps in simp_all)

text \<open>What is left of a guild that breaks up.\<close>

lemma abandon_fold:
  assumes "n \<le> length (castle_db s)"
  shows "castle_db (fold (abandon_castle gid) [0..<n] s) =
      map (\<lambda>gc. if castle_owner gc = gid \<and> gid \<noteq> 0 then set_castle_value 1 0 gc else gc) (take n (castle_db s)) @ drop n (castle_db s) \<and>
    sent (fold (abandon_castle gid) [0..<n] s) = sent s @ (if gid = 0 then []
      else map (\<lambda>gc. Guild_castle_datasave (castle_id gc) 1 0) (filter (\<lambda>gc. castle_owner gc = gid) (take n (castle_db s))))"
  using assms
proof (induction n)
  case (Suc n)
  let ?f = "\<lambda>gc. if castle_owner gc = gid \<and> gid \<noteq> 0 then set_castle_value 1 0 gc else gc"
  let ?t = "fold (abandon_castle gid) [0..<n] s"
  have IH: "castle_db ?t = map ?f (take n (castle_db s)) @ drop n (castle_db s)"
    "sent ?t = sent s @ (if gid = 0 then []
      else map (\<lambda>gc. Guild_castle_datasave (castle_id gc) 1 0) (filter (\<lambda>gc. castle_owner gc = gid) (take n (castle_db s))))"
    using Suc by auto
  have n: "n < length (castle_db s)" using Suc.prems by simp
  have at: "castle_db ?t ! n = castle_db s ! n" using n by (simp add: IH(1) nth_append)
  have d: "drop n (castle_db s) = castle_db s ! n # drop (Suc n) (castle_db s)" using n by (simp add: Cons_nth_drop_Suc)
  have tk: "take (Suc n) (castle_db s) = take n (castle_db s) @ [castle_db s ! n]" using n by (simp add: take_Suc_conv_app_nth)
  have upd: "(castle_db ?t)[n := x] = map ?f (take n (castle_db s)) @ x # drop (Suc n) (castle_db s)" for x
    using n by (simp add: IH(1) d list_update_append)
  have same: "castle_db ?t = map ?f (take n (castle_db s)) @ castle_db s ! n # drop (Suc n) (castle_db s)"
    using IH(1) d by simp
  have "castle_db (abandon_castle gid n ?t) = (if castle_owner (castle_db s ! n) = gid \<and> gid \<noteq> 0
      then (castle_db ?t)[n := set_castle_value 1 0 (castle_db s ! n)] else castle_db ?t)"
    unfolding abandon_castle_def save_castle_def Let_def at castle_owner_def by auto
  then have "castle_db (abandon_castle gid n ?t) = map ?f (take n (castle_db s)) @ ?f (castle_db s ! n) # drop (Suc n) (castle_db s)"
    unfolding upd unfolding same by (simp only: if_distrib [of "\<lambda>x. _ @ x # _"])
  moreover have "sent (abandon_castle gid n ?t) = sent ?t @ (if castle_owner (castle_db s ! n) = gid \<and> gid \<noteq> 0
      then [Guild_castle_datasave (castle_id (castle_db s ! n)) 1 0] else [])"
    unfolding abandon_castle_def save_castle_def Let_def at castle_owner_def say_def by auto
  ultimately show ?case using IH(2) by (auto simp: tk)
qed simp

lemma note_expelled_correct:
  assumes "length es = MAX_GUILDEXPLUSION" "e = \<lparr>expelled = acc, expelled_name = take 24 name, expelled_mes = take 40 mes\<rparr>"
  shows "note_expelled acc name mes es =
    (if \<exists>e \<in> set es. expelled e = 0 then es[first_idx (\<lambda>e. expelled e = 0) es := e] else tl es @ [e])"
proof (cases "\<exists>e \<in> set es. expelled e = 0")
  case True
  have l: "first_idx (\<lambda>e. expelled e = 0) es \<noteq> MAX_GUILDEXPLUSION" using first_idx_less [of "\<lambda>e. expelled e = 0" es] True assms(1) by simp
  show ?thesis unfolding if_P [OF True] note_expelled_def Let_def assms(2) if_not_P [OF l] ..
next
  case False
  then have full: "first_idx (\<lambda>e. expelled e = 0) es = MAX_GUILDEXPLUSION" using assms(1) first_idx_length [of "\<lambda>e. expelled e = 0" es] by simp
  have "note_expelled acc name mes es = (tl es @ [last es])[MAX_GUILDEXPLUSION - 1 := e]"
    unfolding note_expelled_def Let_def full assms(2) if_P [OF refl] ..
  also have "\<dots> = (tl es @ last es # [])[length (tl es) := e]" by (simp only: length_tl assms(1))
  also have "\<dots> = tl es @ [e]" by (rule list_update_length)
  finally show ?thesis unfolding if_not_P [OF False] .
qed

lemma remove_guild_castles:
  assumes "length (castle_db s) = MAX_GUILDCASTLE" "gid \<noteq> 0"
  shows "castle_db (remove_guild gid s) = map (\<lambda>gc. if castle_owner gc = gid then set_castle_value 1 0 gc else gc) (castle_db s)"
    "sent (remove_guild gid s) = sent s @ [Guild_storage_deleted gid, Guild_broken gid 0] @
      map (\<lambda>gc. Guild_castle_datasave (castle_id gc) 1 0) (filter (\<lambda>gc. castle_owner gc = gid) (castle_db s))"
  using assms abandon_fold [of MAX_GUILDCASTLE "say (Guild_broken gid 0) (say (Guild_storage_deleted gid)
      (s\<lparr>guild_db := (\<lambda>k. map_option (guild_break_sub gid) (guild_db s k))(gid := None)\<rparr>))" gid]
  by (simp_all add: remove_guild_def Let_def say_def)

text \<open>The averages after a recalculation.\<close>

lemma recalc_members:
  assumes "levels_small (members (recalc s g))" "length (members (recalc s g)) \<le> 76"
  shows "average_lv (recalc s g) = sum_list (map lv (present (recalc s g))) div int (length (present (recalc s g)))"
    "connect_member (recalc s g) = int (length (filter (\<lambda>m. account_id m > 0 \<and> online m > 0) (members (recalc s g))))"
    "next_exp (recalc s g) = guild_nextexp (guild_exp s) (guild_lv (recalc s g))"
proof -
  obtain g3 where r: "recalc s g = calc_members g3" "next_exp g3 = guild_nextexp (guild_exp s) (guild_lv g3)"
    unfolding recalc_def Let_def by auto
  have same: "members (calc_members g3) = members g3" "present (calc_members g3) = present g3" by (simp_all add: members_def present_def)
  have "next_exp (calc_members g3) = next_exp g3" by (simp add: calc_members_def split: prod.split)
  then show "average_lv (recalc s g) = sum_list (map lv (present (recalc s g))) div int (length (present (recalc s g)))"
    "connect_member (recalc s g) = int (length (filter (\<lambda>m. account_id m > 0 \<and> online m > 0) (members (recalc s g))))"
    "next_exp (recalc s g) = guild_nextexp (guild_exp s) (guild_lv (recalc s g))"
    using calc_members_correct [of g3] assms r(2) unfolding r(1) same by simp_all
qed

section \<open>Properties\<close>

text \<open>
  C35: The requests of the map servers keep the state of the guilds well-formed: each guild is there under its number, with at
  least one member and as much room as its skill gives; its points for skills match its level, unless a game master lowered the
  level (the guilds in \<open>D\<close>); no two names of fewer than 24 characters differ only in the case of letters; alliances name guilds
  that are there, and so do the castles, unless a request gave one to a number without a guild (the castles in \<open>E\<close>). No number
  of a guild is given out twice. The requests without a result are those in \<open>unanswered\<close>: the number of a castle that is not
  there, an emblem longer than its place, and a check of conflicts that goes on in a guild whose only member it has just taken.
  Accounts have numbers above 0, and the numbers for guilds are not used up.
\<close>

theorem guild_requests_ok:
  assumes "guild_server_ok D E s" "dom (guild_db s) \<subseteq> set keys" "guild_request_ok s r"
  shows "case inter_guild_parse_frommap keys fd r s of None \<Rightarrow> unanswered s r
    | Some t \<Rightarrow> guild_server_ok (points_open r D) (castles_open s r E) t \<and> guild_newid s \<le> guild_newid t \<and>
        (\<forall>k < guild_newid s. guild_db s k = None \<longrightarrow> guild_db t k = None)"
  using request_good [OF assms, of fd] unfolding good_step_def .

definition example_member :: guild_member where
  "example_member = no_member\<lparr>account_id := 2000000, char_id := 150000, lv := 50, online := 1, member_name := ''Ragna''\<rparr>"

definition example_server :: guild_server where
  "example_server = \<lparr>guild_db = Map.empty, castle_db = map (\<lambda>i. \<lparr>castle_id = int i, castle_values = replicate 25 0\<rparr>) [0..<24],
     guild_newid = 10000, guild_exp = replicate 100 1000, guild_extension_bonus = GUILD_EXTENTION_BONUS, sent = []\<rparr>"

lemma example_server_ok: "guild_server_ok {} {} example_server"
  by (simp add: guild_server_ok_def example_server_def GUILD_EXTENTION_BONUS_def castles_ok_def MAX_GUILDCASTLE_def guild_unique_names_def
      castle_ok_def castle_owner_def castle_value_def)

lemma guild_requests_ok_witness:
  "\<exists>t. inter_guild_parse_frommap [] 5 (Create 2000000 ''Wolves'' example_member) example_server = Some t \<and> guild_server_ok {} {} t"
  using guild_requests_ok [OF example_server_ok, of "[]" "Create 2000000 ''Wolves'' example_member" 5]
  by (simp add: example_server_def example_member_def)

text \<open>
  C36: A guild is recalculated: its level rises, at 100 at most, until the experience does not suffice for the next one, and
  what is spent is the sum of what the table asks; the room for members follows the skill; the average of the levels and the
  number of those online are those of the members that have room.
\<close>

theorem guild_calcinfo_correct:
  assumes g: "guild_core p (guild_extension_bonus s) k g" and bonus: "0 \<le> guild_extension_bonus s" "guild_extension_bonus s \<le> 6"
    and small: "levels_small (member g)" and calc: "guild_calcinfo g s = (changed, g', s')"
  shows "guild_db s' k = Some g' \<and> member g' = member g \<and> skill g' = skill g \<and> alliance g' = alliance g \<and>
    max_member g' = 16 + skill_lv (skill g ! 4) * guild_extension_bonus s \<and>
    guild_lv g \<le> guild_lv g' \<and> guild_lv g' \<le> 100 \<and> next_exp g' = guild_nextexp (guild_exp s) (guild_lv g') \<and>
    (exp g' < next_exp g' \<or> next_exp g' \<le> 0) \<and>
    exp g = exp g' + (\<Sum>l \<in> {max 1 (guild_lv g)..<guild_lv g'}. guild_nextexp (guild_exp s) l) \<and>
    average_lv g' = sum_list (map lv (present g')) div int (length (present g')) \<and>
    connect_member g' = int (length (filter (\<lambda>m. account_id m > 0 \<and> online m > 0) (members g'))) \<and>
    (changed = 0 \<longleftrightarrow> max_member g' = max_member g \<and> guild_lv g' = guild_lv g \<and> skill_point g' = skill_point g)"
proof -
  note r = recalc_facts [OF g bonus]
  have g': "g' = recalc s g" and db: "guild_db s' = guild_db (set_guild g' s)"
    and ch: "changed = 0 \<longleftrightarrow> max_member g' = max_member g \<and> guild_lv g' = guild_lv g \<and> skill_point g' = skill_point g"
    using calc by (auto simp: guild_calcinfo_def Let_def split: if_splits)
  note r = r [folded g']
  have cap: "max_member g' = capacity (guild_extension_bonus s) g" using guild_okD(4) [OF r(1)] r(5) by (simp add: capacity_def)
  have "guild_skills_ok (skill g)" using g by (simp add: guild_core_def)
  then have "length (members g') \<le> 76" using capacity_bounds(2) [OF _ bonus, of g] cap by (simp add: members_def min_def) linarith
  moreover have "levels_small (members g')"
    using small r(4) by (auto simp: levels_small_def members_def dest: in_set_takeD)
  ultimately have m: "average_lv g' = sum_list (map lv (present g')) div int (length (present g'))"
    "connect_member g' = int (length (filter (\<lambda>m. account_id m > 0 \<and> online m > 0) (members g')))"
    "next_exp g' = guild_nextexp (guild_exp s) (guild_lv g')"
    using recalc_members [of s g] unfolding g' by blast+
  have lv: "guild_lv g \<le> guild_lv g'" "guild_lv g' \<le> 100" using r(1,6) by (simp_all add: guild_ok_def guild_core_def)
  have "exp g' < next_exp g' \<or> next_exp g' \<le> 0" using r(7) lv m(3) by (auto simp: guild_nextexp_def)
  moreover have "guild_db s' k = Some g'" using db guild_okD(1) [OF r(1)] by simp
  moreover have "max_member g' = 16 + skill_lv (skill g ! 4) * guild_extension_bonus s" using cap by (simp add: capacity_def)
  ultimately show ?thesis using r(2,4,5,8) lv m ch by blast
qed

definition example_guild :: guild where
  "example_guild = new_guild 10000 ''Wolves'' example_member"

lemma example_members: "member example_guild = example_member # replicate 75 no_member"
proof -
  have "(replicate 76 no_member)[0 := x] = x # replicate 75 no_member" for x by (simp add: numeral_eq_Suc)
  then show ?thesis by (simp add: example_guild_def new_guild_def no_guild_def MAX_GUILD_def)
qed

lemma example_guild_ok: "guild_ok True 6 10000 example_guild"
  unfolding example_guild_def by (rule new_guild_ok(1)) (simp_all add: example_member_def)

lemma guild_calcinfo_correct_witness:
  "\<exists>changed g' s'. guild_calcinfo (example_guild\<lparr>exp := 2500\<rparr>) example_server = (changed, g', s') \<and>
    2500 = exp g' + (\<Sum>l \<in> {1..<guild_lv g'}. guild_nextexp (guild_exp example_server) l) \<and>
    (exp g' < next_exp g' \<or> next_exp g' \<le> 0) \<and> max_member g' = 16 \<and> connect_member g' = int (length (filter (\<lambda>m. account_id m > 0 \<and> online m > 0) (members g')))"
proof -
  let ?g = "example_guild\<lparr>exp := 2500\<rparr>"
  obtain changed g' s' where calc: "guild_calcinfo ?g example_server = (changed, g', s')" by (metis prod_cases3)
  have bonus: "guild_extension_bonus example_server = 6" by (simp add: example_server_def GUILD_EXTENTION_BONUS_def)
  have core: "guild_core True (guild_extension_bonus example_server) 10000 ?g"
    using example_guild_ok by (simp add: bonus guild_ok_def guild_core_def capacity_def skill_sum_def)
  have small: "levels_small (member ?g)" by (simp add: example_members levels_small_def example_member_def no_member_def)
  have b: "0 \<le> guild_extension_bonus example_server" "guild_extension_bonus example_server \<le> 6" by (simp_all add: bonus)
  note c = guild_calcinfo_correct [OF core b small calc, unfolded bonus]
  have g: "guild_lv ?g = 0" "skill_lv (skill ?g ! 4) = 0" "exp ?g = 2500"
    by (simp_all add: example_guild_def new_guild_def no_guild_def MAX_GUILDSKILL_def)
  have "max 1 (guild_lv ?g) = 1" using g(1) by simp
  then have "2500 = exp g' + (\<Sum>l \<in> {1..<guild_lv g'}. guild_nextexp (guild_exp example_server) l)" "max_member g' = 16"
    using c g(2,3) by simp_all
  moreover have "exp g' < next_exp g' \<or> next_exp g' \<le> 0"
    "connect_member g' = int (length (filter (\<lambda>m. account_id m > 0 \<and> online m > 0) (members g')))"
    using c by blast+
  ultimately show ?thesis using calc by blast
qed

text \<open>
  C37: A member leaves. When others remain they are kept, an expelled one is noted, and when there is no room for the note the
  oldest one goes. When none remains the guild is gone: its storage, its place in alliances and its castles, of which every map
  server is told; other castles and guilds stay.
\<close>

theorem guild_leave_correct:
  assumes ok: "guild_server_ok D E s" and g: "guild_db s gid = Some g" and i: "i < MAX_GUILD" "char_id (member g ! i) = cid"
      "\<And>j. j < i \<Longrightarrow> char_id (member g ! j) \<noteq> cid"
    and rest: "rest = take (nat (max_member g)) ((member g)[i := no_member])"
    and e: "e = \<lparr>expelled = acc, expelled_name = take 24 (member_name (member g ! i)), expelled_mes = take 40 mes\<rparr>"
    and t: "t = mapif_parse_GuildLeave gid acc cid flag mes s"
  shows "if \<exists>m \<in> set rest. account_id m > 0
    then castle_db t = castle_db s \<and> (\<forall>k. k \<noteq> gid \<longrightarrow> guild_db t k = guild_db s k) \<and>
      (\<exists>g'. guild_db t gid = Some g' \<and> member g' = (member g)[i := no_member] \<and>
        explusion g' = (if flag = 0 then explusion g
          else if \<exists>e \<in> set (explusion g). expelled e = 0 then (explusion g)[first_idx (\<lambda>e. expelled e = 0) (explusion g) := e]
          else tl (explusion g) @ [e]))
    else guild_db t gid = None \<and> (\<forall>k. k \<noteq> gid \<longrightarrow> guild_db t k = map_option (guild_break_sub gid) (guild_db s k)) \<and>
      (\<forall>k h. guild_db t k = Some h \<longrightarrow> (\<forall>a \<in> set (alliance h). ally a \<noteq> gid)) \<and>
      castle_db t = map (\<lambda>gc. if castle_owner gc = gid then set_castle_value 1 0 gc else gc) (castle_db s) \<and>
      (\<forall>gc \<in> set (castle_db t). castle_owner gc \<noteq> gid) \<and>
      sent t = sent s @ [Guild_leaved gid acc cid flag (member_name (member g ! i)) mes, Guild_storage_deleted gid, Guild_broken gid 0] @
        map (\<lambda>gc. Guild_castle_datasave (castle_id gc) 1 0) (filter (\<lambda>gc. castle_owner gc = gid) (castle_db s))"
proof -
  have gok: "guild_ok (gid \<notin> D) (guild_extension_bonus s) gid g" using guild_server_okD(6) [OF ok g] .
  have len: "length (member g) = MAX_GUILD" "length (explusion g) = MAX_GUILDEXPLUSION"
    using gok by (simp_all add: guild_ok_def guild_core_def)
  let ?j = "first_idx (\<lambda>m. char_id m = cid) (member g)"
  have "member g ! i \<in> set (member g)" using i(1) len(1) by simp
  then have j: "?j < length (member g)" using i(2) first_idx_less [of "\<lambda>m. char_id m = cid" "member g"] by blast
  note j = j first_idx_sat [OF j]
  have "\<not> ?j < i" "\<not> i < ?j" using i(3) [of ?j] j(2) first_idx_min [of i "\<lambda>m. char_id m = cid" "member g"] i(2) by blast+
  then have fi: "?j = i" by simp
  define g1 where "g1 = (if flag \<noteq> 0 then g\<lparr>explusion := note_expelled acc (member_name (member g ! i)) mes (explusion g)\<rparr> else g)"
  define g2 where "g2 = g1\<lparr>member := (member g1)[i := no_member]\<rparr>"
  define s1 where "s1 = set_guild g2 (say (Guild_leaved gid acc cid flag (member_name (member g ! i)) mes) s)"
  have there: "guild_id g > 0 \<and> i < length (member g)" using i(1) len(1) guild_okD(1,2) [OF gok] by simp
  have run: "t = (let (empt, s) = guild_check_empty g2 s1 in if empt = 0 then say (Guild_info (- 1) g2) s else s)"
    unfolding t mapif_parse_GuildLeave_def g option.case Let_def fi if_P [OF there] s1_def g2_def g1_def ..
  have g1: "guild_id g1 = gid" "member g1 = member g" "max_member g1 = max_member g" "explusion g1 = (if flag = 0 then explusion g
        else if \<exists>e \<in> set (explusion g). expelled e = 0 then (explusion g)[first_idx (\<lambda>e. expelled e = 0) (explusion g) := e]
        else tl (explusion g) @ [e])"
    using guild_okD(1) [OF gok] note_expelled_correct [OF len(2) e] by (simp_all add: g1_def)
  have g2: "guild_id g2 = gid" "member g2 = (member g)[i := no_member]" "members g2 = rest" "explusion g2 = explusion g1"
    using g1(1-3) by (simp_all add: g2_def members_def rest)
  have s1: "guild_db s1 = (guild_db s)(gid := Some g2)" "castle_db s1 = castle_db s"
    "sent s1 = sent s @ [Guild_leaved gid acc cid flag (member_name (member g ! i)) mes]"
    unfolding s1_def by (simp_all add: g2(1)) (simp add: set_guild_def say_def)
  show ?thesis
  proof (cases "\<exists>m \<in> set rest. account_id m > 0")
    case True
    have t': "t = say (Guild_info (- 1) g2) s1" using run g2(3) True by (simp add: guild_check_empty_def)
    have "castle_db t = castle_db s" "guild_db t = (guild_db s)(gid := Some g2)" using s1 by (simp_all add: t')
    then show ?thesis unfolding if_P [OF True] using g2(2,4) g1(4) by auto
  next
    case False
    have t': "t = remove_guild gid s1" using run g2(1,3) False by (simp add: guild_check_empty_def)
    have gid0: "gid \<noteq> 0" using guild_okD(2) [OF gok] by simp
    have cs: "length (castle_db s) = MAX_GUILDCASTLE" "\<forall>gc \<in> set (castle_db s). length (castle_values gc) = 25"
      using guild_server_okD(4) [OF ok] by (auto simp: castles_ok_def castle_ok_def in_set_conv_nth)
    note rc = remove_guild_castles [OF _ gid0, of s1, unfolded s1(2,3), OF cs(1)]
    have db: "guild_db t gid = None" "\<forall>k. k \<noteq> gid \<longrightarrow> guild_db t k = map_option (guild_break_sub gid) (guild_db s k)"
      unfolding t' remove_guild_db s1(1) by simp_all
    moreover have "\<forall>k h. guild_db t k = Some h \<longrightarrow> (\<forall>a \<in> set (alliance h). ally a \<noteq> gid)"
    proof (intro allI impI)
      fix k h assume h: "guild_db t k = Some h"
      then obtain h0 where "h = guild_break_sub gid h0" using db by (cases "k = gid") auto
      then show "\<forall>a \<in> set (alliance h). ally a \<noteq> gid" using gid0 by (auto simp: guild_break_sub_def)
    qed
    moreover have "\<forall>gc \<in> set (castle_db t). castle_owner gc \<noteq> gid"
      unfolding t' rc(1) using cs(2) gid0 by (auto simp: castle_owner_set)
    moreover have "sent t = sent s @ [Guild_leaved gid acc cid flag (member_name (member g ! i)) mes, Guild_storage_deleted gid,
        Guild_broken gid 0] @ map (\<lambda>gc. Guild_castle_datasave (castle_id gc) 1 0) (filter (\<lambda>gc. castle_owner gc = gid) (castle_db s))"
      unfolding t' rc(2) by simp
    moreover note rc(1) [folded t']
    ultimately show ?thesis unfolding if_not_P [OF False] by blast
  qed
qed

lemma guild_leave_correct_witness:
  "let s = mapif_parse_CreateGuild [] 5 2000000 ''Wolves'' example_member example_server;
       t = mapif_parse_GuildLeave 10000 2000000 150000 0 ''bye'' s
   in guild_db s 10000 \<noteq> None \<and> guild_db t 10000 = None \<and> (\<forall>gc \<in> set (castle_db t). castle_owner gc \<noteq> 10000)"
proof -
  define s where "s = mapif_parse_CreateGuild [] 5 2000000 ''Wolves'' example_member example_server"
  have "good_step {} {} example_server s"
    unfolding s_def by (rule CreateGuild_ok [OF example_server_ok]) (simp_all add: example_server_def example_member_def)
  then have ok: "guild_server_ok {} {} s" by (rule good_step_ok)
  have g: "guild_db s 10000 = Some example_guild"
    by (simp add: s_def mapif_parse_CreateGuild_def example_guild_def illegal_name_def byte_def search_guildname_def Let_def example_server_def)
       (simp add: new_guild_def)
  have i: "(0::nat) < MAX_GUILD" "char_id (member example_guild ! 0) = 150000"
    by (simp_all add: MAX_GUILD_def example_members example_member_def)
  have empt: "\<not> (\<exists>m \<in> set (take (nat (max_member example_guild)) ((member example_guild)[0 := no_member])). account_id m > 0)"
    by (auto simp: example_members no_member_def dest!: in_set_takeD)
  have "\<And>j. j < (0::nat) \<Longrightarrow> char_id (member example_guild ! j) \<noteq> 150000" by simp
  note c = guild_leave_correct [where acc = 2000000 and mes = "''bye''" and flag = 0, OF ok g i this refl refl refl, unfolded if_not_P [OF empt]]
  have "guild_db s 10000 \<noteq> None" using g by simp
  then show ?thesis using c unfolding s_def [symmetric] Let_def by blast
qed

end
