(* ===== verification/Equip.thy ===== *)
theory Equip
  imports Inventory
begin

text \<open>
  Equipment (\<open>src/src/map/pc.c\<close>, with the two packets of \<open>clif.c\<close>): where an item may be worn and by whom, putting items on,
  taking off what can no longer be worn, and the calculation of the places from the inventory when a character comes in. Taking
  an item off (\<open>pc_unequipitem\<close>) is with the inventory.
\<close>

unbundle bit_operations_syntax

definition AS_LEFT :: int where
  "AS_LEFT = 133"

definition MAPID_UPPERMASK :: int where
  "MAPID_UPPERMASK = 0x0fff"

definition MAPID_BASEMASK :: int where
  "MAPID_BASEMASK = 0x00ff"

definition MAPID_ASSASSIN :: int where
  "MAPID_ASSASSIN = 0x106"

definition JOBL_2_1 :: int where
  "JOBL_2_1 = 0x100"

definition JOBL_2_2 :: int where
  "JOBL_2_2 = 0x200"

definition JOBL_UPPER :: int where
  "JOBL_UPPER = 0x1000"

definition JOBL_BABY :: int where
  "JOBL_BABY = 0x2000"

definition SC_STRIPWEAPON :: nat where
  "SC_STRIPWEAPON = 68"

definition SC_STRIPSHIELD :: nat where
  "SC_STRIPSHIELD = 69"

definition SC_STRIPARMOR :: nat where
  "SC_STRIPARMOR = 70"

definition SC_STRIPHELM :: nat where
  "SC_STRIPHELM = 71"

section \<open>Where and by whom\<close>

text \<open>Daggers, swords and axes of those who may fight with both hands go to either hand.\<close>

definition pc_equippoint :: "session \<Rightarrow> nat \<Rightarrow> int" where
  "pc_equippoint sd n = (case inventory_data sd ! n of
     None \<Rightarrow> 0
   | Some d \<Rightarrow>
       (if (look d = 1 \<or> look d = 2 \<or> look d = 6) \<and> equip_place d = 2 \<and>
           (pc_checkskill sd AS_LEFT > 0 \<or> job sd AND MAPID_UPPERMASK = MAPID_ASSASSIN)
        then 34 else equip_place d))"

definition pc_isequip :: "env \<Rightarrow> session \<Rightarrow> nat \<Rightarrow> bool" where
  "pc_isequip env sd n =
     (if gm_allequip env > 0 \<and> GM_level sd \<ge> gm_allequip env then True
      else case inventory_data sd ! n of
        None \<Rightarrow> False
      | Some d \<Rightarrow>
          \<not> (item_sex_check env \<and> item_sex d \<noteq> 2 \<and> sex sd \<noteq> item_sex d) \<and>
          \<not> (elv d > 0 \<and> base_level sd < elv d) \<and>
          bit (class_base d ! (if job sd AND JOBL_2_1 \<noteq> 0 then 1 else if job sd AND JOBL_2_2 \<noteq> 0 then 2 else 0))
            (nat (job sd AND MAPID_BASEMASK)) \<and>
          bit (class_upper d) (if job sd AND JOBL_UPPER \<noteq> 0 then 1 else if job sd AND JOBL_BABY \<noteq> 0 then 2 else 0) \<and>
          \<not> (pvp_map env (bl_m sd) \<and> no_equip d AND 1 \<noteq> 0) \<and>
          \<not> (gvg_map env (bl_m sd) \<and> no_equip d AND 2 \<noteq> 0) \<and>
          \<not> (equip_place d AND 0x0002 \<noteq> 0 \<and> sc_timer sd SC_STRIPWEAPON \<noteq> - 1) \<and>
          \<not> (equip_place d AND 0x0020 \<noteq> 0 \<and> sc_timer sd SC_STRIPSHIELD \<noteq> - 1) \<and>
          \<not> (equip_place d AND 0x0010 \<noteq> 0 \<and> sc_timer sd SC_STRIPARMOR \<noteq> - 1) \<and>
          \<not> (equip_place d AND 0x0100 \<noteq> 0 \<and> sc_timer sd SC_STRIPHELM \<noteq> - 1))"

text \<open>What is worn at the first of the places in the mask.\<close>

definition pc_checkequip :: "session \<Rightarrow> int \<Rightarrow> int" where
  "pc_checkequip sd pos = (let i = first_idx (\<lambda>p. pos AND p \<noteq> 0) equip_pos in if i < 11 then equip_index sd ! i else - 1)"

definition pc_calc_base_job2 :: "int \<Rightarrow> int" where
  "pc_calc_base_job2 b = (if b < 4001 then b else if b \<ge> 4001 \<and> b < 4023 then b - 4001 else if b = 4045 then 23 else b - 4023)"

section \<open>The places from the inventory\<close>

definition look_of :: "session \<Rightarrow> nat \<Rightarrow> int" where
  "look_of sd n = (case inventory_data sd ! n of Some d \<Rightarrow> look d | None \<Rightarrow> 0)"

text \<open>The weapon in the left hand: a shield, or the left part of a weapon for both hands, is none.\<close>

definition left_weapon :: "session \<Rightarrow> nat \<Rightarrow> int" where
  "left_weapon sd n = (case inventory_data sd ! n of
     Some d \<Rightarrow> if item_type d = 4 \<and> equip (inventory sd ! n) = 0x0020 then look d else 0
   | None \<Rightarrow> 0)"

definition index_item :: "nat \<Rightarrow> session \<Rightarrow> session" where
  "index_item i sd =
     (let e = equip (inventory sd ! i) in
      if nameid (inventory sd ! i) \<le> 0 \<or> e = 0 then sd
      else (let sd = sd\<lparr>equip_index := map2 (\<lambda>x p. if e AND p \<noteq> 0 then int i else x) (equip_index sd) equip_pos\<rparr>;
                sd = (if e AND 0x0002 \<noteq> 0 then sd\<lparr>weapontype1 := look_of sd i\<rparr> else sd)
            in if e AND 0x0020 \<noteq> 0 then sd\<lparr>weapontype2 := left_weapon sd i\<rparr> else sd))"

definition pc_setequipindex :: "session \<Rightarrow> session" where
  "pc_setequipindex sd =
     pc_calcweapontype (fold index_item [0..<MAX_INVENTORY] (sd\<lparr>equip_index := replicate 11 (- 1)\<rparr>))"

section \<open>Putting an item on\<close>

definition worn_places :: "session \<Rightarrow> nat \<Rightarrow> int" where
  "worn_places sd i = (if equip_index sd ! i \<ge> 0 then equip (inventory sd ! nat (equip_index sd ! i)) else 0)"

text \<open>An accessory goes to the place that is free, a weapon for either hand to the hand that is.\<close>

definition choose_accessory :: "session \<Rightarrow> int \<Rightarrow> int" where
  "choose_accessory sd pos =
     (if pos = 0x88
      then (if (worn_places sd 0 OR worn_places sd 1) AND 0x88 = 0x08 then 0x80 else 0x08)
      else pos)"

definition choose_hand :: "session \<Rightarrow> item_data \<Rightarrow> int \<Rightarrow> int" where
  "choose_hand sd d pos =
     (if pos = 0x22 \<and> equip_place d = 2 \<and> (pc_checkskill sd AS_LEFT > 0 \<or> pc_calc_base_job2 (status_class sd) = 12)
      then (if (worn_places sd 8 OR worn_places sd 9) AND 0x02 = 0x02 then 0x20 else 0x02)
      else pos)"

definition clear_place :: "env \<Rightarrow> int \<Rightarrow> nat \<Rightarrow> session \<Rightarrow> session" where
  "clear_place env pos i sd =
     (if equip_index sd ! i \<ge> 0 \<and> equip (inventory sd ! nat (equip_index sd ! i)) AND pos \<noteq> 0
      then pc_unequipitem env sd (nat (equip_index sd ! i)) 2 else sd)"

definition put_on :: "nat \<Rightarrow> int \<Rightarrow> session \<Rightarrow> session" where
  "put_on n pos sd =
     sd\<lparr>equip_index := map2 (\<lambda>x p. if pos AND p \<noteq> 0 then int n else x) (equip_index sd) equip_pos,
        inventory := (inventory sd)[n := (inventory sd ! n)\<lparr>equip := u16 pos\<rparr>]\<rparr>"

definition show_weapon :: "nat \<Rightarrow> session \<Rightarrow> session" where
  "show_weapon n sd =
     (if equip (inventory sd ! n) AND 0x0002 \<noteq> 0
      then (let sd = pc_calcweapontype (sd\<lparr>weapontype1 := look_of sd n\<rparr>) in send (clif_changelook ''LOOK_WEAPON'' (weapon sd)) sd)
      else sd)"

definition show_shield :: "nat \<Rightarrow> session \<Rightarrow> session" where
  "show_shield n sd =
     (if equip (inventory sd ! n) AND 0x0020 \<noteq> 0
      then (let sd = (case inventory_data sd ! n of
              Some d \<Rightarrow>
                (if item_type d = 4 then sd\<lparr>shield := 0, weapontype2 := if equip (inventory sd ! n) = 0x0020 then look d else 0\<rparr>
                 else if item_type d = 5 then sd\<lparr>shield := look d, weapontype2 := 0\<rparr> else sd)
            | None \<Rightarrow> sd\<lparr>shield := 0, weapontype2 := 0\<rparr>);
              sd = pc_calcweapontype sd
            in send (clif_changelook ''LOOK_SHIELD'' (shield sd)) sd)
      else sd)"

definition show_head :: "nat \<Rightarrow> session \<Rightarrow> session" where
  "show_head n sd =
     (let e = equip (inventory sd ! n);
          sd = (if e AND 0x0001 \<noteq> 0
                then send (clif_changelook ''LOOK_HEAD_BOTTOM'' (look_of sd n)) (sd\<lparr>head_bottom := look_of sd n\<rparr>) else sd);
          sd = (if e AND 0x0100 \<noteq> 0
                then send (clif_changelook ''LOOK_HEAD_TOP'' (look_of sd n)) (sd\<lparr>head_top := look_of sd n\<rparr>) else sd);
          sd = (if e AND 0x0200 \<noteq> 0
                then send (clif_changelook ''LOOK_HEAD_MID'' (look_of sd n)) (sd\<lparr>head_mid := look_of sd n\<rparr>) else sd)
      in if e AND 0x0040 \<noteq> 0 then send (clif_changelook ''LOOK_SHOES'' 0) sd else sd)"

text \<open>
  With a bow, arrows are to stay equipped. Place 9 is not that of the arrows, but, as a mask, that of an accessory, and what is
  found there is a number of the inventory, not of an item.
\<close>

definition keep_arrow :: "env \<Rightarrow> nat \<Rightarrow> int \<Rightarrow> session \<Rightarrow> session" where
  "keep_arrow env n arrow sd =
     (if look (itemdb env (nameid (inventory sd ! n))) = 11 \<and> arrow \<ge> 0
      then (let sd = send (clif_arrowequip arrow) sd
            in sd\<lparr>inventory := (inventory sd)[nat arrow := (inventory sd ! nat arrow)\<lparr>equip := 32768\<rparr>]\<rparr>)
      else sd)"

definition pc_equipitem :: "env \<Rightarrow> session \<Rightarrow> nat \<Rightarrow> session" where
  "pc_equipitem env sd n =
     (if sc_count sd \<noteq> 0 \<and> sc_timer sd SC_BERSERK \<noteq> - 1 then send (clif_equipitemack n 0 0) sd
      else (case inventory_data sd ! n of
        None \<Rightarrow> send (clif_equipitemack n 0 0) sd
      | Some d \<Rightarrow>
          (let pos = pc_equippoint sd n in
           if \<not> pc_isequip env sd n \<or> pos = 0 \<or> attribute (inventory sd ! n) = 1 then send (clif_equipitemack n 0 0) sd
           else (let pos = choose_hand sd d (choose_accessory sd pos);
                     arrow = pc_search_inventory sd (pc_checkequip sd 9);
                     sd = fold (clear_place env pos) [0..<11] sd;
                     sd = (if pos = 0x8000 then send (clif_arrow_fail 3) (send (clif_arrowequip (int n)) sd)
                           else send (clif_equipitemack n pos 1) sd);
                     sd = put_on n pos sd;
                     sd = show_head n (show_shield n (show_weapon n sd));
                     sd = keep_arrow env n arrow (check_allow env sd)
                 in after_equip env n sd))))"

section \<open>Taking off what may no longer be worn\<close>

text \<open>After a change of class or level, and for the packets.\<close>

definition unequip_forbidden :: "env \<Rightarrow> nat \<Rightarrow> session \<Rightarrow> session" where
  "unequip_forbidden env i sd =
     (if equip_index sd ! i \<ge> 0 \<and> \<not> pc_isequip env sd (nat (equip_index sd ! i))
      then pc_unequipitem env sd (nat (equip_index sd ! i)) 2 else sd)"

definition unequip_all_forbidden :: "env \<Rightarrow> session \<Rightarrow> session" where
  "unequip_all_forbidden env sd = fold (unequip_forbidden env) [0..<11] sd"

text \<open>The argument is the number in the packet less 2.\<close>

definition clif_parse_EquipItem :: "env \<Rightarrow> session \<Rightarrow> int \<Rightarrow> session" where
  "clif_parse_EquipItem env sd idx =
     (if dead_sit sd = 1 then send (clif_clearchar_area 1) sd
      else if npc_id sd \<noteq> 0 \<or> vender_id sd \<noteq> 0 then sd
      else if sc_timer sd SC_BLADESTOP \<noteq> - 1 \<or> sc_timer sd SC_BERSERK \<noteq> - 1 then sd
      else if idx < 0 \<or> idx \<ge> int MAX_INVENTORY then sd
      else if identify (inventory sd ! nat idx) \<noteq> 1 then send (clif_equipitemack (nat idx) 0 0) sd
      else (case inventory_data sd ! nat idx of
        None \<Rightarrow> sd
      | Some d \<Rightarrow> if item_type d \<noteq> 8 then pc_equipitem env sd (nat idx) else pet_equipitem env (nat idx) sd))"

definition clif_parse_UnequipItem :: "env \<Rightarrow> session \<Rightarrow> int \<Rightarrow> session" where
  "clif_parse_UnequipItem env sd idx =
     (if dead_sit sd = 1 then send (clif_clearchar_area 1) sd
      else if npc_id sd \<noteq> 0 \<or> vender_id sd \<noteq> 0 \<or> opt1 sd > 0 then sd
      else if idx < 0 \<or> idx \<ge> int MAX_INVENTORY then sd
      else pc_unequipitem env sd (nat idx) 1)"

end
