(* ===== verification/EquipProofs.thy ===== *)
theory EquipProofs
  imports Equip
begin

text \<open>
  Lemmas on equipment: at every place at most one item is worn, \<open>equip_index\<close> and the looks are those of the items that say
  they are worn, and the requests of clients keep it so; the calculation from the inventory gives the same.
\<close>

section \<open>Places\<close>

definition place_bits :: "nat list" where
  "place_bits = [7, 3, 6, 2, 0, 9, 8, 4, 5, 1, 15]"

abbreviation at_place :: "int \<Rightarrow> nat \<Rightarrow> bool" where
  "at_place e j \<equiv> bit e (place_bits ! j)"

lemma length_place_bits [simp]: "length place_bits = 11"
  by (simp add: place_bits_def)

lemma equip_pos_bits: "j < 11 \<Longrightarrow> equip_pos ! j = 2 ^ (place_bits ! j)"
proof -
  assume j: "j < 11"
  have "equip_pos = map (\<lambda>b. 2 ^ b) place_bits" by (simp add: equip_pos_def place_bits_def)
  also have "\<dots> ! j = 2 ^ (place_bits ! j)" using j by (simp del: map_eq_conv)
  finally show "equip_pos ! j = 2 ^ (place_bits ! j)" .
qed

lemma and_equip_pos: "j < 11 \<Longrightarrow> e AND equip_pos ! j \<noteq> 0 \<longleftrightarrow> at_place e j"
  by (simp add: equip_pos_bits and_exp_eq_0_iff_not_bit)

lemma and_places:
  "e AND 2 \<noteq> 0 \<longleftrightarrow> at_place e 9" "e AND 32 \<noteq> 0 \<longleftrightarrow> at_place e 8" "e AND 1 \<noteq> 0 \<longleftrightarrow> at_place e 4"
  "e AND 256 \<noteq> 0 \<longleftrightarrow> at_place e 6" "e AND 512 \<noteq> 0 \<longleftrightarrow> at_place e 5"
  using and_equip_pos [of 9 e] and_equip_pos [of 8 e] and_equip_pos [of 4 e] and_equip_pos [of 6 e] and_equip_pos [of 5 e]
  by (simp_all add: equip_pos_def)

lemma place_bits_small: "j < 11 \<Longrightarrow> place_bits ! j < 16"
proof -
  have "\<forall>b \<in> set place_bits. b < 16" by (simp add: place_bits_def)
  then show "j < 11 \<Longrightarrow> place_bits ! j < 16" by (simp add: nth_mem)
qed

lemma bit_u16: "j < 11 \<Longrightarrow> at_place (u16 e) j \<longleftrightarrow> at_place e j"
proof -
  have "u16 e = take_bit 16 e" by (simp add: u16_def)
  then show "j < 11 \<Longrightarrow> at_place (u16 e) j \<longleftrightarrow> at_place e j" using place_bits_small [of j] by (simp add: bit_take_bit_iff)
qed

lemma length_equip_pos [simp]: "length equip_pos = 11"
  by (simp add: equip_pos_def)

lemma nth_marked:
  assumes "length xs = 11" "j < 11"
  shows "map2 (\<lambda>x p. if e AND p \<noteq> 0 then v else x) xs equip_pos ! j = (if at_place e j then v else xs ! j)"
  using assms and_equip_pos [of j e] by simp

lemma length_marked: "length xs = 11 \<Longrightarrow> length (map2 f xs equip_pos) = 11"
  by simp

section \<open>The look of weapons\<close>

definition weapon_look :: "int \<Rightarrow> int \<Rightarrow> int" where
  "weapon_look w1 w2 =
     (if w1 = 0 \<and> w2 \<noteq> 0 then w2
      else if w1 = 1 \<and> w2 = 1 then 0x11 else if w1 = 2 \<and> w2 = 2 then 0x12 else if w1 = 6 \<and> w2 = 6 then 0x13
      else if (w1 = 1 \<and> w2 = 2) \<or> (w1 = 2 \<and> w2 = 1) then 0x14
      else if (w1 = 1 \<and> w2 = 6) \<or> (w1 = 6 \<and> w2 = 1) then 0x15
      else if (w1 = 2 \<and> w2 = 6) \<or> (w1 = 6 \<and> w2 = 2) then 0x16 else w1)"

lemma weapon_twice: "(if b then sd\<lparr>weapon := x\<rparr> else sd)\<lparr>weapon := y\<rparr> = sd\<lparr>weapon := y\<rparr>"
  by simp

lemma pc_calcweapontype_eq: "pc_calcweapontype sd = sd\<lparr>weapon := weapon_look (weapontype1 sd) (weapontype2 sd)\<rparr>"
  unfolding pc_calcweapontype_def weapon_look_def Let_def if_distrib [of "\<lambda>w. sd\<lparr>weapon := w\<rparr>"] weapon_twice ..

section \<open>The invariant\<close>

text \<open>The fields that are about equipment.\<close>

definition gear :: "session \<Rightarrow> (item list \<times> item_data option list \<times> int list) \<times> (int \<times> int \<times> int \<times> int \<times> int \<times> int \<times> int)" where
  "gear sd = ((inventory sd, inventory_data sd, equip_index sd),
     (weapontype1 sd, weapontype2 sd, weapon sd, shield sd, head_bottom sd, head_top sd, head_mid sd))"

definition keeps_gear :: "env \<Rightarrow> bool" where
  "keeps_gear env \<longleftrightarrow> (\<forall>n sd. gear (end_broken env n sd) = gear sd) \<and> (\<forall>n f sd. gear (after_unequip env n f sd) = gear sd) \<and>
     (\<forall>sd. gear (check_allow env sd) = gear sd) \<and> (\<forall>n sd. gear (after_equip env n sd) = gear sd)"

text \<open>\<open>equip_index\<close> holds the item that is worn at a place, and there is no more than one.\<close>

definition places_ok :: "session \<Rightarrow> bool" where
  "places_ok sd \<longleftrightarrow> length (equip_index sd) = 11 \<and> length (inventory sd) = MAX_INVENTORY \<and>
     (\<forall>j < 11. \<forall>n < MAX_INVENTORY. equip_index sd ! j = int n \<longleftrightarrow> at_place (equip (inventory sd ! n)) j) \<and>
     (\<forall>j < 11. equip_index sd ! j = - 1 \<or> 0 \<le> equip_index sd ! j \<and> equip_index sd ! j < int MAX_INVENTORY)"

definition worn :: "session \<Rightarrow> nat \<Rightarrow> (nat \<Rightarrow> int) \<Rightarrow> int" where
  "worn sd j f = (if equip_index sd ! j \<ge> 0 then f (nat (equip_index sd ! j)) else 0)"

definition shield_of :: "session \<Rightarrow> nat \<Rightarrow> int" where
  "shield_of sd n = (case inventory_data sd ! n of Some d \<Rightarrow> if item_type d = 5 then look d else 0 | None \<Rightarrow> 0)"

definition weapons_ok :: "session \<Rightarrow> bool" where
  "weapons_ok sd \<longleftrightarrow> weapontype1 sd = worn sd 9 (look_of sd) \<and> weapontype2 sd = worn sd 8 (left_weapon sd) \<and>
     weapon sd = weapon_look (weapontype1 sd) (weapontype2 sd)"

definition looks_ok :: "session \<Rightarrow> bool" where
  "looks_ok sd \<longleftrightarrow> weapons_ok sd \<and> shield sd = worn sd 8 (shield_of sd) \<and> head_bottom sd = worn sd 4 (look_of sd) \<and>
     head_top sd = worn sd 6 (look_of sd) \<and> head_mid sd = worn sd 5 (look_of sd)"

lemma gear_eq:
  assumes "gear sd' = gear sd"
  shows "inventory sd' = inventory sd" "inventory_data sd' = inventory_data sd" "equip_index sd' = equip_index sd"
    "weapontype1 sd' = weapontype1 sd" "weapontype2 sd' = weapontype2 sd" "weapon sd' = weapon sd" "shield sd' = shield sd"
    "head_bottom sd' = head_bottom sd" "head_top sd' = head_top sd" "head_mid sd' = head_mid sd"
  using assms by (simp_all add: gear_def)

lemma gear_send [simp]: "gear (send p sd) = gear sd"
  by (simp add: gear_def send_def)

lemma gear_ok_cong:
  assumes "gear sd' = gear sd"
  shows "places_ok sd' = places_ok sd" "looks_ok sd' = looks_ok sd"
proof -
  note g = gear_eq [OF assms]
  show "places_ok sd' = places_ok sd" unfolding places_ok_def g ..
  have "look_of sd' = look_of sd" "left_weapon sd' = left_weapon sd" "shield_of sd' = shield_of sd"
    unfolding look_of_def [abs_def] left_weapon_def [abs_def] shield_of_def [abs_def] g by (rule refl)+
  then show "looks_ok sd' = looks_ok sd" unfolding looks_ok_def weapons_ok_def worn_def g by simp
qed

lemma keeps_gearD:
  assumes "keeps_gear env"
  shows "gear (end_broken env n sd) = gear sd" "gear (after_unequip env n f sd) = gear sd"
    "gear (check_allow env sd) = gear sd" "gear (after_equip env n sd) = gear sd"
  using assms by (simp_all add: keeps_gear_def)

lemma places_okD:
  assumes "places_ok sd"
  shows "length (equip_index sd) = 11" "length (inventory sd) = MAX_INVENTORY"
    and "j < 11 \<Longrightarrow> n < MAX_INVENTORY \<Longrightarrow> equip_index sd ! j = int n \<longleftrightarrow> at_place (equip (inventory sd ! n)) j"
    and "j < 11 \<Longrightarrow> equip_index sd ! j = - 1 \<or> 0 \<le> equip_index sd ! j \<and> equip_index sd ! j < int MAX_INVENTORY"
  using assms by (simp_all add: places_ok_def)

section \<open>Taking off\<close>

text \<open>What \<open>pc_unequipitem\<close> does to the fields of equipment when it does anything.\<close>

lemma clear_equip_gear:
  "gear (clear_equip sd e) = ((inventory sd, inventory_data sd, map2 (\<lambda>x p. if e AND p \<noteq> 0 then - 1 else x) (equip_index sd) equip_pos),
    (if at_place e 9 then 0 else weapontype1 sd, if at_place e 8 then 0 else weapontype2 sd,
     if at_place e 9 \<or> at_place e 8
     then weapon_look (if at_place e 9 then 0 else weapontype1 sd) (if at_place e 8 then 0 else weapontype2 sd) else weapon sd,
     if at_place e 8 then 0 else shield sd, if at_place e 4 then 0 else head_bottom sd, if at_place e 6 then 0 else head_top sd,
     if at_place e 5 then 0 else head_mid sd))"
proof -
  define s1 where "s1 = sd\<lparr>equip_index := map2 (\<lambda>x p. if e AND p \<noteq> 0 then - 1 else x) (equip_index sd) equip_pos\<rparr>"
  define s2 where "s2 = (if e AND 0x0002 \<noteq> 0
    then (let sd = pc_calcweapontype (s1\<lparr>weapontype1 := 0, weapon := weapontype2 s1\<rparr>) in send (clif_changelook ''LOOK_WEAPON'' (weapon sd)) sd)
    else s1)"
  define s3 where "s3 = (if e AND 0x0020 \<noteq> 0
    then (let sd = pc_calcweapontype (s2\<lparr>shield := 0, weapontype2 := 0\<rparr>) in send (clif_changelook ''LOOK_SHIELD'' (shield sd)) sd)
    else s2)"
  define s4 where "s4 = (if e AND 0x0001 \<noteq> 0 then send (clif_changelook ''LOOK_HEAD_BOTTOM'' 0) (s3\<lparr>head_bottom := 0\<rparr>) else s3)"
  define s5 where "s5 = (if e AND 0x0100 \<noteq> 0 then send (clif_changelook ''LOOK_HEAD_TOP'' 0) (s4\<lparr>head_top := 0\<rparr>) else s4)"
  define s6 where "s6 = (if e AND 0x0200 \<noteq> 0 then send (clif_changelook ''LOOK_HEAD_MID'' 0) (s5\<lparr>head_mid := 0\<rparr>) else s5)"
  have s: "clear_equip sd e = (if e AND 0x0040 \<noteq> 0 then send (clif_changelook ''LOOK_SHOES'' 0) s6 else s6)"
    unfolding clear_equip_def s1_def s2_def s3_def s4_def s5_def s6_def Let_def ..
  have "gear (clear_equip sd e) = gear s6" by (simp add: s)
  also have "gear s6 = ((inventory s3, inventory_data s3, equip_index s3), (weapontype1 s3, weapontype2 s3, weapon s3, shield s3,
      if at_place e 4 then 0 else head_bottom s3, if at_place e 6 then 0 else head_top s3, if at_place e 5 then 0 else head_mid s3))"
    unfolding s6_def s5_def s4_def and_places by (simp add: gear_def send_def)
  finally have "gear (clear_equip sd e) = ((inventory s3, inventory_data s3, equip_index s3), (weapontype1 s3, weapontype2 s3, weapon s3, shield s3,
      if at_place e 4 then 0 else head_bottom s3, if at_place e 6 then 0 else head_top s3, if at_place e 5 then 0 else head_mid s3))" .
  moreover have "gear s3 = ((inventory s2, inventory_data s2, equip_index s2), (weapontype1 s2, if at_place e 8 then 0 else weapontype2 s2,
      if at_place e 8 then weapon_look (weapontype1 s2) 0 else weapon s2, if at_place e 8 then 0 else shield s2, head_bottom s2, head_top s2, head_mid s2))"
    unfolding s3_def and_places Let_def pc_calcweapontype_eq by (simp add: gear_def send_def)
  moreover have "gear s2 = ((inventory s1, inventory_data s1, equip_index s1), (if at_place e 9 then 0 else weapontype1 s1, weapontype2 s1,
      if at_place e 9 then weapon_look 0 (weapontype2 s1) else weapon s1, shield s1, head_bottom s1, head_top s1, head_mid s1))"
    unfolding s2_def and_places Let_def pc_calcweapontype_eq by (simp add: gear_def send_def)
  moreover have "gear s1 = ((inventory sd, inventory_data sd, map2 (\<lambda>x p. if e AND p \<noteq> 0 then - 1 else x) (equip_index sd) equip_pos),
      (weapontype1 sd, weapontype2 sd, weapon sd, shield sd, head_bottom sd, head_top sd, head_mid sd))"
    unfolding s1_def by (simp add: gear_def)
  ultimately show ?thesis by (cases "at_place e 8"; cases "at_place e 9") (simp_all add: gear_def)
qed

text \<open>What is worn and shown after the item in slot \<open>n\<close> was taken off, or was not worn.\<close>

definition taken_off :: "session \<Rightarrow> nat \<Rightarrow> session \<Rightarrow> bool" where
  "taken_off sd n sd' \<longleftrightarrow> inventory sd' = (inventory sd)[n := (inventory sd ! n)\<lparr>equip := 0\<rparr>] \<and> inventory_data sd' = inventory_data sd \<and>
     length (equip_index sd') = 11 \<and> (\<forall>j < 11. equip_index sd' ! j = (if equip_index sd ! j = int n then - 1 else equip_index sd ! j))"

lemma worn_cong:
  assumes "equip_index sd' ! j = equip_index sd ! j" "0 \<le> equip_index sd ! j \<Longrightarrow> f (nat (equip_index sd ! j)) = g (nat (equip_index sd ! j))"
  shows "worn sd' j f = worn sd j g"
  using assms by (simp add: worn_def)

lemma worn_none: "equip_index sd ! j = - 1 \<Longrightarrow> worn sd j f = 0"
  by (simp add: worn_def)

lemma equip_same: "equip it = e \<Longrightarrow> it\<lparr>equip := e\<rparr> = it"
  by (cases it) simp

lemma taken_off_ok:
  assumes sd: "places_ok sd" "looks_ok sd" and n: "n < MAX_INVENTORY" and t: "taken_off sd n t"
    and w: "weapontype1 t = (if equip_index sd ! 9 = int n then 0 else weapontype1 sd)"
      "weapontype2 t = (if equip_index sd ! 8 = int n then 0 else weapontype2 sd)"
      "weapon t = (if equip_index sd ! 9 = int n \<or> equip_index sd ! 8 = int n then weapon_look (weapontype1 t) (weapontype2 t) else weapon sd)"
    and l: "shield t = (if equip_index sd ! 8 = int n then 0 else shield sd)"
      "head_bottom t = (if equip_index sd ! 4 = int n then 0 else head_bottom sd)"
      "head_top t = (if equip_index sd ! 6 = int n then 0 else head_top sd)"
      "head_mid t = (if equip_index sd ! 5 = int n then 0 else head_mid sd)"
  shows "places_ok t" "looks_ok t"
proof -
  note p = places_okD [OF sd(1)]
  have inv: "inventory t = (inventory sd)[n := (inventory sd ! n)\<lparr>equip := 0\<rparr>]" "inventory_data t = inventory_data sd"
    "length (equip_index t) = 11" and idx: "\<And>j. j < 11 \<Longrightarrow> equip_index t ! j = (if equip_index sd ! j = int n then - 1 else equip_index sd ! j)"
    using t by (simp_all add: taken_off_def)
  have "equip_index t ! j = int m \<longleftrightarrow> at_place (equip (inventory t ! m)) j" if "j < 11" "m < MAX_INVENTORY" for j m
    using p(3) [OF that] p(2) n that by (auto simp: inv(1) idx nth_list_update)
  then show "places_ok t"
    using p inv idx by (auto simp: places_ok_def)
  have worn: "worn t j f = (if equip_index sd ! j = int n then 0 else worn sd j g)"
    if "j < 11" "\<And>m. m \<noteq> n \<Longrightarrow> f m = g m" for j f g
    using idx [OF that(1)] that(2) [of "nat (equip_index sd ! j)"] by (auto simp: worn_def)
  have looks: "look_of t = look_of sd" "shield_of t = shield_of sd" and left: "\<And>m. m \<noteq> n \<Longrightarrow> left_weapon t m = left_weapon sd m"
    by (simp_all add: fun_eq_iff look_of_def shield_of_def left_weapon_def inv split: option.splits)
  have "worn t 9 (look_of t) = (if equip_index sd ! 9 = int n then 0 else worn sd 9 (look_of sd))"
    "worn t 8 (left_weapon t) = (if equip_index sd ! 8 = int n then 0 else worn sd 8 (left_weapon sd))"
    "worn t 8 (shield_of t) = (if equip_index sd ! 8 = int n then 0 else worn sd 8 (shield_of sd))"
    "worn t 4 (look_of t) = (if equip_index sd ! 4 = int n then 0 else worn sd 4 (look_of sd))"
    "worn t 6 (look_of t) = (if equip_index sd ! 6 = int n then 0 else worn sd 6 (look_of sd))"
    "worn t 5 (look_of t) = (if equip_index sd ! 5 = int n then 0 else worn sd 5 (look_of sd))"
    by (rule worn; simp add: looks left)+
  then show "looks_ok t" using sd(2) w l unfolding looks_ok_def weapons_ok_def by auto
qed

lemma pc_unequipitem_ok:
  assumes env: "keeps_gear env" and sd: "places_ok sd" "looks_ok sd" and n: "n < MAX_INVENTORY"
  shows "places_ok (pc_unequipitem env sd n flag) \<and> looks_ok (pc_unequipitem env sd n flag) \<and>
    (gear (pc_unequipitem env sd n flag) = gear sd \<and> flag < 2 \<or> taken_off sd n (pc_unequipitem env sd n flag))"
proof -
  note p = places_okD [OF sd(1)]
  define e where "e = equip (inventory sd ! n)"
  define s1 where "s1 = clear_equip sd e"
  define s2 where "s2 = (if sc_count s1 \<noteq> 0 then end_broken env n s1 else s1)"
  define s3 where "s3 = send (clif_unequipitemack n (equip (inventory s2 ! n)) 1) s2"
  define s4 where "s4 = s3\<lparr>inventory := (inventory s3)[n := (inventory s3 ! n)\<lparr>equip := 0\<rparr>]\<rparr>"
  define stuck where "stuck \<longleftrightarrow> flag < 2 \<and> sc_count sd \<noteq> 0 \<and> (sc_timer sd SC_BLADESTOP \<noteq> - 1 \<or> sc_timer sd SC_BERSERK \<noteq> - 1)"
  have run: "pc_unequipitem env sd n flag = (if stuck then send (clif_unequipitemack n 0 0) sd
       else after_unequip env n flag (if e \<noteq> 0 then s4 else send (clif_unequipitemack n 0 0) sd))"
    unfolding pc_unequipitem_def s4_def s3_def s2_def s1_def e_def stuck_def Let_def by (rule refl)
  have at: "at_place e j \<longleftrightarrow> equip_index sd ! j = int n" if "j < 11" for j using p(3) [OF that n] by (simp add: e_def)
  let ?t = "pc_unequipitem env sd n flag"
  show ?thesis
  proof (cases "stuck \<or> e = 0")
    case True
    then have g: "gear ?t = gear sd" using keeps_gearD [OF env] unfolding run by auto
    have "taken_off sd n ?t" if "e = 0"
    proof -
      have "(inventory sd ! n)\<lparr>equip := 0\<rparr> = inventory sd ! n" by (rule equip_same) (use that in \<open>simp add: e_def\<close>)
      then have "(inventory sd)[n := (inventory sd ! n)\<lparr>equip := 0\<rparr>] = inventory sd" by (simp only: list_update_id)
      moreover have "equip_index sd ! j \<noteq> int n" if "j < 11" for j using at [OF that] \<open>e = 0\<close> by simp
      ultimately show ?thesis using gear_eq [OF g] p(1) by (simp add: taken_off_def)
    qed
    then show ?thesis using g gear_ok_cong [OF g] sd True by (auto simp: stuck_def)
  next
    case False
    have g3: "gear s3 = gear s1" using keeps_gearD [OF env] by (simp add: s3_def s2_def)
    have "gear ?t = gear s4" using False keeps_gearD [OF env] unfolding run by simp
    then have f: "inventory ?t = (inventory s3)[n := (inventory s3 ! n)\<lparr>equip := 0\<rparr>]" "inventory_data ?t = inventory_data s3"
      "equip_index ?t = equip_index s3" "weapontype1 ?t = weapontype1 s3" "weapontype2 ?t = weapontype2 s3" "weapon ?t = weapon s3"
      "shield ?t = shield s3" "head_bottom ?t = head_bottom s3" "head_top ?t = head_top s3" "head_mid ?t = head_mid s3"
      by (simp_all add: gear_def s4_def)
    have c: "inventory s1 = inventory sd" "inventory_data s1 = inventory_data sd"
      "equip_index s1 = map2 (\<lambda>x p. if e AND p \<noteq> 0 then - 1 else x) (equip_index sd) equip_pos"
      "weapontype1 s1 = (if at_place e 9 then 0 else weapontype1 sd)" "weapontype2 s1 = (if at_place e 8 then 0 else weapontype2 sd)"
      "weapon s1 = (if at_place e 9 \<or> at_place e 8 then weapon_look (weapontype1 s1) (weapontype2 s1) else weapon sd)"
      "shield s1 = (if at_place e 8 then 0 else shield sd)" "head_bottom s1 = (if at_place e 4 then 0 else head_bottom sd)"
      "head_top s1 = (if at_place e 6 then 0 else head_top sd)" "head_mid s1 = (if at_place e 5 then 0 else head_mid sd)"
      using clear_equip_gear [of sd e] unfolding s1_def [symmetric] gear_def by simp_all
    note eqs = f [unfolded gear_eq [OF g3], unfolded c]
    have t: "taken_off sd n ?t"
      unfolding taken_off_def eqs using p(1) at nth_marked [OF p(1)] by simp
    show ?thesis
      using taken_off_ok [OF sd n t] eqs t at by simp
  qed
qed

section \<open>Putting on\<close>

lemma clear_place_ok:
  assumes env: "keeps_gear env" and sd: "places_ok sd" "looks_ok sd" and i: "i < 11"
  shows "places_ok (clear_place env pos i sd) \<and> looks_ok (clear_place env pos i sd) \<and>
    (clear_place env pos i sd = sd \<and> (equip_index sd ! i = - 1 \<or> equip (inventory sd ! nat (equip_index sd ! i)) AND pos = 0) \<or>
      equip_index sd ! i \<noteq> - 1 \<and> taken_off sd (nat (equip_index sd ! i)) (clear_place env pos i sd))"
proof -
  note p = places_okD [OF sd(1)]
  show ?thesis
  proof (cases "equip_index sd ! i \<ge> 0 \<and> equip (inventory sd ! nat (equip_index sd ! i)) AND pos \<noteq> 0")
    case True
    then have "nat (equip_index sd ! i) < MAX_INVENTORY" using p(4) [OF i] by auto
    from pc_unequipitem_ok [OF env sd this, of 2] True show ?thesis by (simp add: clear_place_def)
  next
    case False
    then show ?thesis using sd p(4) [OF i] by (auto simp: clear_place_def)
  qed
qed

text \<open>The loop takes off what is worn at the places of \<open>pos\<close>, and nothing is put on by it.\<close>

definition cleared :: "session \<Rightarrow> session \<Rightarrow> bool" where
  "cleared sd sd' \<longleftrightarrow> places_ok sd' \<and> looks_ok sd' \<and> inventory_data sd' = inventory_data sd \<and>
     map (\<lambda>it. it\<lparr>equip := 0\<rparr>) (inventory sd') = map (\<lambda>it. it\<lparr>equip := 0\<rparr>) (inventory sd) \<and>
     (\<forall>n < MAX_INVENTORY. equip (inventory sd' ! n) = 0 \<or> equip (inventory sd' ! n) = equip (inventory sd ! n)) \<and>
     (\<forall>j < 11. equip_index sd' ! j = - 1 \<or> equip_index sd' ! j = equip_index sd ! j)"

lemma clearedD: "cleared sd t \<Longrightarrow> places_ok t" "cleared sd t \<Longrightarrow> looks_ok t"
  by (simp_all add: cleared_def)

lemma cleared_refl: "places_ok sd \<Longrightarrow> looks_ok sd \<Longrightarrow> cleared sd sd"
  by (simp add: cleared_def)

lemma cleared_trans: "cleared a b \<Longrightarrow> cleared b c \<Longrightarrow> cleared a c"
  unfolding cleared_def by metis

lemma cleared_taken_off:
  assumes "places_ok sd" "places_ok t" "looks_ok t" "taken_off sd n t" "n < MAX_INVENTORY"
  shows "cleared sd t"
proof -
  have inv: "inventory t = (inventory sd)[n := (inventory sd ! n)\<lparr>equip := 0\<rparr>]" using assms(4) by (simp add: taken_off_def)
  have "map (\<lambda>it. it\<lparr>equip := 0\<rparr>) (inventory t) = map (\<lambda>it. it\<lparr>equip := 0\<rparr>) (inventory sd)"
    unfolding inv map_update by (simp add: list_update_same_conv places_okD(2) [OF assms(1)] assms(5))
  moreover have "\<forall>m < MAX_INVENTORY. equip (inventory t ! m) = 0 \<or> equip (inventory t ! m) = equip (inventory sd ! m)"
    using places_okD(2) [OF assms(1)] assms(5) by (simp add: inv nth_list_update)
  ultimately show ?thesis using assms(2-4) by (simp add: cleared_def taken_off_def)
qed

lemma clear_place_cleared:
  assumes env: "keeps_gear env" and sd: "places_ok sd" "looks_ok sd" and i: "i < 11"
  shows "cleared sd (clear_place env pos i sd)" "at_place pos i \<Longrightarrow> equip_index (clear_place env pos i sd) ! i = - 1"
proof -
  note p = places_okD [OF sd(1)]
  let ?t = "clear_place env pos i sd"
  note c = clear_place_ok [OF env sd i, of pos]
  have "cleared sd ?t \<and> (at_place pos i \<longrightarrow> equip_index ?t ! i = - 1)"
  proof (cases "equip_index sd ! i = - 1")
    case True
    then have "?t = sd" by (simp add: clear_place_def)
    then show ?thesis using True cleared_refl [OF sd] by simp
  next
    case False
    then have x: "nat (equip_index sd ! i) < MAX_INVENTORY" "equip_index sd ! i = int (nat (equip_index sd ! i))"
      using p(4) [OF i] by auto
    then have at: "at_place (equip (inventory sd ! nat (equip_index sd ! i))) i" using p(3) [OF i x(1)] by simp
    show ?thesis
    proof (cases "taken_off sd (nat (equip_index sd ! i)) ?t")
      case True
      then have "equip_index ?t ! i = - 1" using i x(2) by (simp add: taken_off_def)
      then show ?thesis using cleared_taken_off [OF sd(1) _ _ True x(1)] c by blast
    next
      case False
      then have t: "?t = sd" "equip (inventory sd ! nat (equip_index sd ! i)) AND pos = 0"
        using c \<open>equip_index sd ! i \<noteq> - 1\<close> by blast+
      have "\<not> at_place pos i"
      proof
        assume "at_place pos i"
        with at have "bit (equip (inventory sd ! nat (equip_index sd ! i)) AND pos) (place_bits ! i)" by (simp add: bit_and_iff)
        then show False unfolding t(2) by simp
      qed
      then show ?thesis unfolding t(1) using cleared_refl [OF sd] by blast
    qed
  qed
  then show "cleared sd ?t" "at_place pos i \<Longrightarrow> equip_index ?t ! i = - 1" by blast+
qed

lemma clear_places_ok:
  assumes env: "keeps_gear env" and sd: "places_ok sd" "looks_ok sd" and k: "k \<le> 11"
  shows "cleared sd (fold (clear_place env pos) [0..<k] sd) \<and>
    (\<forall>j < k. at_place pos j \<longrightarrow> equip_index (fold (clear_place env pos) [0..<k] sd) ! j = - 1)"
  using k
proof (induction k)
  case 0
  then show ?case using cleared_refl [OF sd] by simp
next
  case (Suc k)
  let ?s = "fold (clear_place env pos) [0..<k] sd"
  have IH: "cleared sd ?s" "\<And>j. j < k \<Longrightarrow> at_place pos j \<Longrightarrow> equip_index ?s ! j = - 1" using Suc by auto
  have ok: "places_ok ?s" "looks_ok ?s" using IH(1) by (simp_all add: cleared_def)
  have k: "k < 11" using Suc.prems by simp
  note step = clear_place_cleared [OF env ok k, of pos]
  have "equip_index (clear_place env pos k ?s) ! j = - 1" if "j < Suc k" "at_place pos j" for j
  proof (cases "j = k")
    case False
    then have "equip_index ?s ! j = - 1" "j < 11" using IH(2) that k by auto
    then show ?thesis using step(1) unfolding cleared_def by metis
  qed (use step(2) that in simp)
  then show ?case using cleared_trans [OF IH(1) step(1)] by simp
qed

lemma show_weapon_gear:
  assumes "e = equip (inventory sd ! n)"
  shows "gear (show_weapon n sd) = ((inventory sd, inventory_data sd, equip_index sd),
    (if at_place e 9 then look_of sd n else weapontype1 sd, weapontype2 sd,
     if at_place e 9 then weapon_look (look_of sd n) (weapontype2 sd) else weapon sd, shield sd, head_bottom sd, head_top sd, head_mid sd))"
  unfolding show_weapon_def and_places Let_def pc_calcweapontype_eq by (simp add: gear_def send_def assms)

lemma show_shield_gear:
  assumes "e = equip (inventory sd ! n)" "inventory_data sd ! n = Some d"
  shows "gear (show_shield n sd) = ((inventory sd, inventory_data sd, equip_index sd),
    (weapontype1 sd, if at_place e 8 \<and> item_type d = 4 then (if e = 32 then look d else 0)
       else if at_place e 8 \<and> item_type d = 5 then 0 else weapontype2 sd,
     if at_place e 8 then weapon_look (weapontype1 sd) (if item_type d = 4 then (if e = 32 then look d else 0)
       else if item_type d = 5 then 0 else weapontype2 sd) else weapon sd,
     if at_place e 8 \<and> item_type d = 4 then 0 else if at_place e 8 \<and> item_type d = 5 then look d else shield sd,
     head_bottom sd, head_top sd, head_mid sd))"
  unfolding show_shield_def and_places Let_def pc_calcweapontype_eq assms(2) option.case assms(1) [symmetric]
  by (cases "at_place e 8"; cases "item_type d = 4"; cases "item_type d = 5") (simp_all add: gear_def send_def)

lemma show_head_gear:
  assumes "e = equip (inventory sd ! n)"
  shows "gear (show_head n sd) = ((inventory sd, inventory_data sd, equip_index sd),
    (weapontype1 sd, weapontype2 sd, weapon sd, shield sd, if at_place e 4 then look_of sd n else head_bottom sd,
     if at_place e 6 then look_of sd n else head_top sd, if at_place e 5 then look_of sd n else head_mid sd))"
proof -
  define s4 where "s4 = (if e AND 0x0001 \<noteq> 0 then send (clif_changelook ''LOOK_HEAD_BOTTOM'' (look_of sd n)) (sd\<lparr>head_bottom := look_of sd n\<rparr>) else sd)"
  define s5 where "s5 = (if e AND 0x0100 \<noteq> 0 then send (clif_changelook ''LOOK_HEAD_TOP'' (look_of s4 n)) (s4\<lparr>head_top := look_of s4 n\<rparr>) else s4)"
  define s6 where "s6 = (if e AND 0x0200 \<noteq> 0 then send (clif_changelook ''LOOK_HEAD_MID'' (look_of s5 n)) (s5\<lparr>head_mid := look_of s5 n\<rparr>) else s5)"
  have s: "show_head n sd = (if e AND 0x0040 \<noteq> 0 then send (clif_changelook ''LOOK_SHOES'' 0) s6 else s6)"
    unfolding show_head_def Let_def assms s4_def s5_def s6_def ..
  have l4: "look_of s4 n = look_of sd n" by (simp add: s4_def look_of_def send_def)
  have l5: "look_of s5 n = look_of s4 n" unfolding s5_def by (simp add: look_of_def send_def)
  have "gear s4 = ((inventory sd, inventory_data sd, equip_index sd), (weapontype1 sd, weapontype2 sd, weapon sd, shield sd,
      if at_place e 4 then look_of sd n else head_bottom sd, head_top sd, head_mid sd))"
    unfolding s4_def and_places by (simp add: gear_def send_def)
  moreover have "gear s5 = ((inventory s4, inventory_data s4, equip_index s4), (weapontype1 s4, weapontype2 s4, weapon s4, shield s4,
      head_bottom s4, if at_place e 6 then look_of sd n else head_top s4, head_mid s4))"
    unfolding s5_def and_places l4 by (simp add: gear_def send_def)
  moreover have "gear s6 = ((inventory s5, inventory_data s5, equip_index s5), (weapontype1 s5, weapontype2 s5, weapon s5, shield s5,
      head_bottom s5, head_top s5, if at_place e 5 then look_of sd n else head_mid s5))"
    unfolding s6_def and_places l5 l4 by (simp add: gear_def send_def)
  moreover have "gear (show_head n sd) = gear s6" by (simp add: s)
  ultimately show ?thesis by (simp add: gear_def)
qed

text \<open>The fields after an item was put on, and before what it changes beyond equipment.\<close>

definition put_on_looks :: "nat \<Rightarrow> int \<Rightarrow> session \<Rightarrow> session" where
  "put_on_looks n pos s = show_head n (show_shield n (show_weapon n (put_on n pos s)))"

lemma put_on_fields:
  assumes n: "n < length (inventory s)" "inventory_data s ! n = Some d" and len: "length (equip_index s) = 11"
    and u: "u = put_on_looks n pos s"
  shows "inventory u = (inventory s)[n := (inventory s ! n)\<lparr>equip := u16 pos\<rparr>]" "inventory_data u = inventory_data s"
    "length (equip_index u) = 11" "\<And>j. j < 11 \<Longrightarrow> equip_index u ! j = (if at_place pos j then int n else equip_index s ! j)"
    "weapontype1 u = (if at_place pos 9 then look_of s n else weapontype1 s)"
    "weapontype2 u = (if at_place pos 8 \<and> item_type d = 4 then (if u16 pos = 32 then look d else 0)
       else if at_place pos 8 \<and> item_type d = 5 then 0 else weapontype2 s)"
    "weapon u = (if at_place pos 8 then weapon_look (weapontype1 u) (weapontype2 u)
       else if at_place pos 9 then weapon_look (look_of s n) (weapontype2 s) else weapon s)"
    "shield u = (if at_place pos 8 \<and> item_type d = 4 then 0 else if at_place pos 8 \<and> item_type d = 5 then look d else shield s)"
    "head_bottom u = (if at_place pos 4 then look_of s n else head_bottom s)" "head_top u = (if at_place pos 6 then look_of s n else head_top s)"
    "head_mid u = (if at_place pos 5 then look_of s n else head_mid s)"
proof -
  define q where "q = put_on n pos s"
  have q: "inventory q = (inventory s)[n := (inventory s ! n)\<lparr>equip := u16 pos\<rparr>]" "inventory_data q = inventory_data s"
    "equip_index q = map2 (\<lambda>x p. if pos AND p \<noteq> 0 then int n else x) (equip_index s) equip_pos"
    "weapontype1 q = weapontype1 s" "weapontype2 q = weapontype2 s" "weapon q = weapon s" "shield q = shield s"
    "head_bottom q = head_bottom s" "head_top q = head_top s" "head_mid q = head_mid s"
    by (simp_all add: q_def put_on_def)
  have e: "u16 pos = equip (inventory q ! n)" using n(1) by (simp add: q(1))
  have eb: "at_place (u16 pos) j \<longleftrightarrow> at_place pos j" if "j < 11" for j using bit_u16 [OF that] .
  define v where "v = show_weapon n q"
  define w where "w = show_shield n v"
  have v: "inventory v = inventory q" "inventory_data v = inventory_data s" "equip_index v = equip_index q"
    "weapontype1 v = (if at_place pos 9 then look_of q n else weapontype1 s)" "weapontype2 v = weapontype2 s"
    "weapon v = (if at_place pos 9 then weapon_look (look_of q n) (weapontype2 s) else weapon s)" "shield v = shield s"
    "head_bottom v = head_bottom s" "head_top v = head_top s" "head_mid v = head_mid s"
    using show_weapon_gear [OF e] eb q by (simp_all add: v_def [symmetric] gear_def)
  have ev: "u16 pos = equip (inventory v ! n)" and dv: "inventory_data v ! n = Some d" using e n(2) by (simp_all add: v)
  have w: "inventory w = inventory q" "inventory_data w = inventory_data s" "equip_index w = equip_index q"
    "weapontype1 w = weapontype1 v" "weapontype2 w = (if at_place pos 8 \<and> item_type d = 4 then (if u16 pos = 32 then look d else 0)
       else if at_place pos 8 \<and> item_type d = 5 then 0 else weapontype2 s)"
    "weapon w = (if at_place pos 8 then weapon_look (weapontype1 w) (weapontype2 w) else weapon v)"
    "shield w = (if at_place pos 8 \<and> item_type d = 4 then 0 else if at_place pos 8 \<and> item_type d = 5 then look d else shield s)"
    "head_bottom w = head_bottom s" "head_top w = head_top s" "head_mid w = head_mid s"
    using show_shield_gear [OF ev dv] eb v by (simp_all add: w_def [symmetric] gear_def)
  have ew: "u16 pos = equip (inventory w ! n)" using e by (simp add: w)
  have u: "inventory u = inventory q" "inventory_data u = inventory_data s" "equip_index u = equip_index q"
    "weapontype1 u = weapontype1 v" "weapontype2 u = weapontype2 w" "weapon u = weapon w" "shield u = shield w"
    "head_bottom u = (if at_place pos 4 then look_of w n else head_bottom s)" "head_top u = (if at_place pos 6 then look_of w n else head_top s)"
    "head_mid u = (if at_place pos 5 then look_of w n else head_mid s)"
    using show_head_gear [OF ew] eb w unfolding u put_on_looks_def q_def [symmetric] v_def [symmetric] w_def [symmetric] by (simp_all add: gear_def)
  have looks: "look_of q = look_of s" "look_of w = look_of s" by (simp_all add: fun_eq_iff look_of_def w q)
  show "inventory u = (inventory s)[n := (inventory s ! n)\<lparr>equip := u16 pos\<rparr>]" "inventory_data u = inventory_data s"
    "length (equip_index u) = 11" using u q len by simp_all
  show "equip_index u ! j = (if at_place pos j then int n else equip_index s ! j)" if "j < 11" for j
    unfolding u(3) q(3) by (rule nth_marked [OF len that])
  show "weapontype1 u = (if at_place pos 9 then look_of s n else weapontype1 s)"
    "weapontype2 u = (if at_place pos 8 \<and> item_type d = 4 then (if u16 pos = 32 then look d else 0)
       else if at_place pos 8 \<and> item_type d = 5 then 0 else weapontype2 s)"
    "weapon u = (if at_place pos 8 then weapon_look (weapontype1 u) (weapontype2 u)
       else if at_place pos 9 then weapon_look (look_of s n) (weapontype2 s) else weapon s)"
    "shield u = (if at_place pos 8 \<and> item_type d = 4 then 0 else if at_place pos 8 \<and> item_type d = 5 then look d else shield s)"
    "head_bottom u = (if at_place pos 4 then look_of s n else head_bottom s)" "head_top u = (if at_place pos 6 then look_of s n else head_top s)"
    "head_mid u = (if at_place pos 5 then look_of s n else head_mid s)"
    unfolding u(4-10) w(4-7) v(4,6) looks by (rule refl)+
qed

text \<open>An item that is not worn is put on at places that are free.\<close>

lemma put_on_ok:
  assumes s: "places_ok s" "looks_ok s" and n: "n < MAX_INVENTORY" "equip (inventory s ! n) = 0" "inventory_data s ! n = Some d"
    and free: "\<And>j. j < 11 \<Longrightarrow> at_place pos j \<Longrightarrow> equip_index s ! j = - 1" and u: "u = put_on_looks n pos s"
  shows "places_ok u" "looks_ok u"
proof -
  note p = places_okD [OF s(1)]
  have len: "n < length (inventory s)" using n(1) p(2) by simp
  note f = put_on_fields [OF len n(3) p(1) u]
  note idx = f(4)
  have inv: "inventory u ! m = (if m = n then (inventory s ! n)\<lparr>equip := u16 pos\<rparr> else inventory s ! m)" for m
    using len by (auto simp: f(1) nth_list_update)
  have not_n: "equip_index s ! j \<noteq> int n" if "j < 11" for j using p(3) [OF that n(1)] n(2) by simp
  have "equip_index u ! j = int m \<longleftrightarrow> at_place (equip (inventory u ! m)) j" if j: "j < 11" "m < MAX_INVENTORY" for j m
    using p(3) [OF j] free [OF j(1)] not_n [OF j(1)] bit_u16 [OF j(1), of pos] idx [OF j(1)] inv [of m] by (cases "m = n"; cases "at_place pos j") auto
  moreover have "length (equip_index u) = 11" "length (inventory u) = MAX_INVENTORY" using f(3) p(2) by (simp_all add: f(1))
  moreover have "equip_index u ! j = - 1 \<or> 0 \<le> equip_index u ! j \<and> equip_index u ! j < int MAX_INVENTORY" if "j < 11" for j
    using p(4) [OF that] idx [OF that] n(1) by auto
  ultimately show "places_ok u" by (simp add: places_ok_def)
  have looks: "look_of u = look_of s" "shield_of u = shield_of s" by (simp_all add: fun_eq_iff look_of_def shield_of_def f(2))
  have left: "left_weapon u m = left_weapon s m" if "m \<noteq> n" for m using that by (simp add: left_weapon_def f(2) inv split: option.split)
  have left_n: "left_weapon u n = (if item_type d = 4 \<and> u16 pos = 32 then look d else 0)" "shield_of s n = (if item_type d = 5 then look d else 0)"
    using n(3) by (simp_all add: left_weapon_def shield_of_def f(2) inv)
  have worn: "worn u j f = (if at_place pos j then f n else worn s j g)" if "j < 11" "\<And>m. m \<noteq> n \<Longrightarrow> f m = g m" for j f g
    using idx [OF that(1)] that(2) [of "nat (equip_index s ! j)"] not_n [OF that(1)] by (auto simp: worn_def)
  have W: "worn u 9 (look_of s) = (if at_place pos 9 then look_of s n else worn s 9 (look_of s))"
    "worn u 8 (left_weapon u) = (if at_place pos 8 then left_weapon u n else worn s 8 (left_weapon s))"
    "worn u 8 (shield_of s) = (if at_place pos 8 then shield_of s n else worn s 8 (shield_of s))"
    "worn u 4 (look_of s) = (if at_place pos 4 then look_of s n else worn s 4 (look_of s))"
    "worn u 6 (look_of s) = (if at_place pos 6 then look_of s n else worn s 6 (look_of s))"
    "worn u 5 (look_of s) = (if at_place pos 5 then look_of s n else worn s 5 (look_of s))"
    by (rule worn; simp add: left)+
  have s': "weapontype1 s = worn s 9 (look_of s)" "weapontype2 s = worn s 8 (left_weapon s)" "weapon s = weapon_look (weapontype1 s) (weapontype2 s)"
    "shield s = worn s 8 (shield_of s)" "head_bottom s = worn s 4 (look_of s)" "head_top s = worn s 6 (look_of s)" "head_mid s = worn s 5 (look_of s)"
    using s(2) by (simp_all add: looks_ok_def weapons_ok_def)
  have free8: "weapontype2 s = 0" "shield s = 0" if "at_place pos 8" using worn_none free [of 8] that s' by simp_all
  have "weapontype1 u = worn u 9 (look_of u)" using f(5) W(1) s'(1) looks by simp
  moreover have w2: "weapontype2 u = worn u 8 (left_weapon u)" using f(6) W(2) s'(2) left_n free8 by auto
  moreover have "weapon u = weapon_look (weapontype1 u) (weapontype2 u)" using f(5-7) s'(3) by auto
  moreover have "shield u = worn u 8 (shield_of u)" using f(8) W(3) s'(4) left_n free8 looks by auto
  moreover have "head_bottom u = worn u 4 (look_of u)" "head_top u = worn u 6 (look_of u)" "head_mid u = worn u 5 (look_of u)"
    using f(9-11) W(4-6) s'(5-7) looks by simp_all
  ultimately show "looks_ok u" by (simp add: looks_ok_def weapons_ok_def)
qed

text \<open>Items but for where they are worn.\<close>

definition bare :: "session \<Rightarrow> item list \<times> item_data option list" where
  "bare sd = (map (\<lambda>it. it\<lparr>equip := 0\<rparr>) (inventory sd), inventory_data sd)"

lemma bare_gear: "gear a = gear b \<Longrightarrow> bare a = bare b"
  unfolding bare_def using gear_eq(1,2) [of a b] by simp

lemma bare_nameid:
  assumes "bare a = bare b" "n < length (inventory b)"
  shows "nameid (inventory a ! n) = nameid (inventory b ! n)"
proof -
  let ?f = "\<lambda>it. it\<lparr>equip := 0\<rparr>"
  have eq: "map ?f (inventory a) = map ?f (inventory b)" by (rule conjunct1 [OF iffD1 [OF prod.inject assms(1) [unfolded bare_def]]])
  have l: "n < length (inventory a)" using map_eq_imp_length_eq [OF eq] assms(2) by simp
  have "?f (inventory a ! n) = ?f (inventory b ! n)" using arg_cong [OF eq, of "\<lambda>xs. xs ! n"] by (simp only: nth_map [OF l] nth_map [OF assms(2)])
  from arg_cong [OF this, of nameid] show ?thesis by simp
qed

text \<open>Who may put an item on, and where it goes.\<close>

definition may_wear :: "env \<Rightarrow> session \<Rightarrow> nat \<Rightarrow> bool" where
  "may_wear env sd n \<longleftrightarrow> \<not> (sc_count sd \<noteq> 0 \<and> sc_timer sd SC_BERSERK \<noteq> - 1) \<and> inventory_data sd ! n \<noteq> None \<and>
     pc_isequip env sd n \<and> pc_equippoint sd n \<noteq> 0 \<and> attribute (inventory sd ! n) \<noteq> 1"

definition chosen_place :: "session \<Rightarrow> nat \<Rightarrow> int" where
  "chosen_place sd n = (case inventory_data sd ! n of
     Some d \<Rightarrow> choose_hand sd d (choose_accessory sd (pc_equippoint sd n)) | None \<Rightarrow> 0)"

lemma keep_arrow_none: "look (itemdb env (nameid (inventory sd ! n))) = 11 \<Longrightarrow> arrow < 0 \<Longrightarrow> keep_arrow env n arrow sd = sd"
  by (simp add: keep_arrow_def)

lemma pc_equipitem_not: "\<not> may_wear env sd n \<Longrightarrow> gear (pc_equipitem env sd n) = gear sd"
  by (auto simp: pc_equipitem_def may_wear_def Let_def split: option.split)

lemma pc_equipitem_gear:
  assumes env: "keeps_gear env" and sd: "places_ok sd" "looks_ok sd" and n: "n < MAX_INVENTORY"
    and arrow: "look (itemdb env (nameid (inventory sd ! n))) = 11 \<Longrightarrow> pc_search_inventory sd (pc_checkequip sd 9) < 0"
    and may: "may_wear env sd n"
  obtains s where "gear s = gear (fold (clear_place env (chosen_place sd n)) [0..<11] sd)"
    "gear (pc_equipitem env sd n) = gear (put_on_looks n (chosen_place sd n) s)"
    "bare (put_on_looks n (chosen_place sd n) s) = bare sd"
proof -
  obtain d where d: "inventory_data sd ! n = Some d" using may by (auto simp: may_wear_def)
  define pos where "pos = choose_hand sd d (choose_accessory sd (pc_equippoint sd n))"
  define s1 where "s1 = fold (clear_place env pos) [0..<11] sd"
  define s2 where "s2 = (if pos = 0x8000 then send (clif_arrow_fail 3) (send (clif_arrowequip (int n)) s1)
                           else send (clif_equipitemack n pos 1) s1)"
  define s3 where "s3 = put_on_looks n pos s2"
  have chosen: "chosen_place sd n = pos" by (simp add: chosen_place_def d pos_def)
  have cl: "cleared sd s1" using clear_places_ok [OF env sd order_refl, of pos] by (simp add: s1_def)
  have g2: "gear s2 = gear s1" by (simp add: s2_def)
  note len = places_okD(1,2) [OF clearedD(1) [OF cl], folded gear_eq [OF g2]]
  have n_len: "n < length (inventory s2)" using len n by simp
  have d2: "inventory_data s2 ! n = Some d" using cl d unfolding gear_eq [OF g2] cleared_def by simp
  note f = put_on_fields [OF n_len d2 len(1) s3_def]
  have "bare s3 = bare s2" using n_len unfolding bare_def f(1,2) by (simp add: map_update list_update_same_conv)
  then have b: "bare s3 = bare sd" using bare_gear [OF g2] cl by (simp add: bare_def cleared_def)
  define s4 where "s4 = check_allow env s3"
  have g4: "gear s4 = gear s3" using keeps_gearD [OF env] by (simp add: s4_def)
  have "nameid (inventory s4 ! n) = nameid (inventory sd ! n)"
    using bare_nameid [OF trans [OF bare_gear [OF g4] b]] places_okD(2) [OF sd(1)] n by simp
  then have ka: "keep_arrow env n (pc_search_inventory sd (pc_checkequip sd 9)) s4 = s4" using arrow by (auto simp: keep_arrow_def)
  have c: "\<not> (sc_count sd \<noteq> 0 \<and> sc_timer sd SC_BERSERK \<noteq> - 1)"
    "\<not> (\<not> pc_isequip env sd n \<or> pc_equippoint sd n = 0 \<or> attribute (inventory sd ! n) = 1)" using may by (auto simp: may_wear_def)
  have "pc_equipitem env sd n = after_equip env n (keep_arrow env n (pc_search_inventory sd (pc_checkequip sd 9)) s4)"
    unfolding pc_equipitem_def if_not_P [OF c(1)] d option.case Let_def if_not_P [OF c(2)] s4_def s3_def put_on_looks_def s2_def s1_def pos_def ..
  then have "gear (pc_equipitem env sd n) = gear s3" using keeps_gearD [OF env] g4 by (simp add: ka)
  then show thesis using that [of s2] g2 b unfolding chosen s3_def s1_def by blast
qed

lemma cleared_off:
  assumes "places_ok sd" "cleared sd t" "j < 11" "equip_index t ! j = - 1" "m < MAX_INVENTORY" "at_place (equip (inventory sd ! m)) j"
  shows "equip (inventory t ! m) = 0"
proof (rule ccontr)
  assume "equip (inventory t ! m) \<noteq> 0"
  then have "equip (inventory t ! m) = equip (inventory sd ! m)" using assms(2,5) unfolding cleared_def by metis
  then have "equip_index t ! j = int m" using places_okD(3) [OF clearedD(1) [OF assms(2)] assms(3,5)] assms(6) by simp
  then show False using assms(4) by simp
qed

text \<open>An item that is worn, but at none of the places it is put on at, is not taken off before it is put on.\<close>

definition taken_off_first :: "session \<Rightarrow> nat \<Rightarrow> bool" where
  "taken_off_first sd n \<longleftrightarrow> equip (inventory sd ! n) = 0 \<or>
     list_ex (\<lambda>j. at_place (equip (inventory sd ! n)) j \<and> at_place (chosen_place sd n) j) [0..<11]"

lemma pc_equipitem_ok:
  assumes env: "keeps_gear env" and sd: "places_ok sd" "looks_ok sd" and n: "n < MAX_INVENTORY" "taken_off_first sd n"
    and arrow: "look (itemdb env (nameid (inventory sd ! n))) = 11 \<Longrightarrow> pc_search_inventory sd (pc_checkequip sd 9) < 0"
    and may: "may_wear env sd n" and t: "t = pc_equipitem env sd n"
  shows "places_ok t \<and> looks_ok t \<and> bare t = bare sd \<and>
    (let pos = chosen_place sd n; s = fold (clear_place env pos) [0..<11] sd
     in inventory t = (inventory s)[n := (inventory s ! n)\<lparr>equip := u16 pos\<rparr>] \<and>
       (\<forall>j < 11. equip_index t ! j = (if at_place pos j then int n else equip_index s ! j)))"
proof -
  let ?pos = "chosen_place sd n"
  define s1 where "s1 = fold (clear_place env ?pos) [0..<11] sd"
  obtain s2 where g2: "gear s2 = gear s1" and gt: "gear t = gear (put_on_looks n ?pos s2)" and b: "bare (put_on_looks n ?pos s2) = bare sd"
    using pc_equipitem_gear [OF env sd n(1) arrow may] unfolding t s1_def by metis
  define s3 where "s3 = put_on_looks n ?pos s2"
  have cl: "cleared sd s1" "\<And>j. j < 11 \<Longrightarrow> at_place ?pos j \<Longrightarrow> equip_index s1 ! j = - 1"
    using clear_places_ok [OF env sd order_refl, of ?pos] by (simp_all add: s1_def)
  obtain d where d: "inventory_data sd ! n = Some d" using may by (auto simp: may_wear_def)
  have ok2: "places_ok s2" "looks_ok s2" using gear_ok_cong [OF g2] clearedD [OF cl(1)] by simp_all
  have off: "equip (inventory s1 ! n) = 0" if "j < 11" "at_place (equip (inventory sd ! n)) j" "at_place ?pos j" for j
    using cleared_off [OF sd(1) cl(1) that(1) cl(2) [OF that(1,3)] n(1) that(2)] .
  have "equip (inventory s1 ! n) = 0"
  proof (cases "equip (inventory sd ! n) = 0")
    case True
    then show ?thesis using cl(1) n(1) unfolding cleared_def by metis
  next
    case False
    then show ?thesis using n(2) off by (auto simp: taken_off_first_def list_ex_iff)
  qed
  then have n2: "equip (inventory s2 ! n) = 0" "inventory_data s2 ! n = Some d" "\<And>j. j < 11 \<Longrightarrow> at_place ?pos j \<Longrightarrow> equip_index s2 ! j = - 1"
    using cl n d unfolding gear_eq [OF g2] cleared_def by auto
  note len = places_okD(1,2) [OF ok2(1)]
  have n_len: "n < length (inventory s2)" using len n(1) by simp
  note f = put_on_fields [OF n_len n2(2) len(1) s3_def]
  have ok3: "places_ok s3" "looks_ok s3" using put_on_ok [OF ok2 n(1) n2 s3_def] by simp_all
  have g: "gear t = gear s3" using gt by (simp add: s3_def)
  have "inventory t = (inventory s1)[n := (inventory s1 ! n)\<lparr>equip := u16 ?pos\<rparr>]"
    "\<forall>j < 11. equip_index t ! j = (if at_place ?pos j then int n else equip_index s1 ! j)"
    unfolding gear_eq [OF g] using f(1,4) unfolding gear_eq [OF g2] by simp_all
  then show ?thesis
    unfolding Let_def s1_def [symmetric] using gear_ok_cong [OF g] ok3 bare_gear [OF g] b by (simp add: s3_def)
qed

section \<open>The packets\<close>

text \<open>
  An arrow is looked for with a number of the inventory in place of the number of an item: nothing is found, unless an
  accessory is worn from the first slot.
\<close>

lemma pc_checkequip_9: "pc_checkequip sd 9 = equip_index sd ! 1"
  by (simp add: pc_checkequip_def equip_pos_def)

lemma no_arrow_found:
  assumes "places_ok sd" "equip_index sd ! 1 \<noteq> 0" "\<forall>it \<in> set (inventory sd). nameid it = 0 \<or> int MAX_INVENTORY \<le> nameid it"
  shows "pc_search_inventory sd (pc_checkequip sd 9) < 0"
proof -
  let ?x = "equip_index sd ! 1"
  have "?x = - 1 \<or> 0 < ?x \<and> ?x < int MAX_INVENTORY" using places_okD(4) [OF assms(1), of 1] assms(2) by auto
  then have "\<forall>it \<in> set (inventory sd). \<not> (nameid it = ?x \<and> (amount it > 0 \<or> ?x = 0))"
    using assms(3) by (fastforce simp: MAX_INVENTORY_def)
  then have "\<not> first_idx (\<lambda>it. nameid it = ?x \<and> (amount it > 0 \<or> ?x = 0)) (inventory sd) < length (inventory sd)"
    unfolding first_idx_less by blast
  then show ?thesis by (simp add: pc_search_inventory_def pc_checkequip_9 Let_def)
qed

text \<open>Taking off what may no longer be worn.\<close>

lemma bare_cleared: "cleared sd t \<Longrightarrow> bare t = bare sd"
  by (simp add: cleared_def bare_def)

lemma unequip_cleared:
  assumes "keeps_gear env" "places_ok sd" "looks_ok sd" "n < MAX_INVENTORY"
  shows "cleared sd (pc_unequipitem env sd n flag)"
proof -
  let ?t = "pc_unequipitem env sd n flag"
  have t: "places_ok ?t" "looks_ok ?t" "gear ?t = gear sd \<or> taken_off sd n ?t" using pc_unequipitem_ok [OF assms, of flag] by auto
  show ?thesis
  proof (cases "gear ?t = gear sd")
    case True
    then show ?thesis using t(1,2) gear_eq [OF True] by (simp add: cleared_def)
  next
    case False
    then show ?thesis using cleared_taken_off [OF assms(2) t(1,2) _ assms(4)] t(3) by blast
  qed
qed

lemma unequip_all_forbidden_cleared:
  assumes env: "keeps_gear env" and sd: "places_ok sd" "looks_ok sd"
  shows "cleared sd (unequip_all_forbidden env sd)"
proof -
  have "cleared sd (fold (unequip_forbidden env) [0..<k] sd)" if "k \<le> 11" for k
    using that
  proof (induction k)
    case 0
    then show ?case using cleared_refl [OF sd] by simp
  next
    case (Suc k)
    let ?s = "fold (unequip_forbidden env) [0..<k] sd"
    have IH: "cleared sd ?s" "k < 11" using Suc by auto
    have "cleared ?s (unequip_forbidden env k ?s)"
    proof (cases "equip_index ?s ! k \<ge> 0 \<and> \<not> pc_isequip env ?s (nat (equip_index ?s ! k))")
      case True
      then have "nat (equip_index ?s ! k) < MAX_INVENTORY" using places_okD(4) [OF clearedD(1) [OF IH(1)] IH(2)] by auto
      then show ?thesis using unequip_cleared [OF env clearedD [OF IH(1)]] True by (simp add: unequip_forbidden_def)
    next
      case False
      then show ?thesis using cleared_refl [OF clearedD [OF IH(1)]] by (auto simp: unequip_forbidden_def)
    qed
    then show ?case using cleared_trans [OF IH(1)] by simp
  qed
  then show ?thesis by (simp add: unequip_all_forbidden_def)
qed

section \<open>The places from the inventory\<close>

text \<open>No two items are worn at one place, and no empty slot is.\<close>

definition places_unique :: "session \<Rightarrow> bool" where
  "places_unique sd \<longleftrightarrow> length (inventory sd) = MAX_INVENTORY \<and>
     (\<forall>n < MAX_INVENTORY. equip (inventory sd ! n) \<noteq> 0 \<longrightarrow> 0 < nameid (inventory sd ! n)) \<and>
     (\<forall>j < 11. \<forall>m < MAX_INVENTORY. \<forall>n < MAX_INVENTORY.
        at_place (equip (inventory sd ! m)) j \<longrightarrow> at_place (equip (inventory sd ! n)) j \<longrightarrow> m = n)"

lemma index_item_fields:
  assumes "length (equip_index sd) = 11" "equip (inventory sd ! i) \<noteq> 0 \<longrightarrow> 0 < nameid (inventory sd ! i)"
  defines "e \<equiv> equip (inventory sd ! i)"
  shows "inventory (index_item i sd) = inventory sd" "inventory_data (index_item i sd) = inventory_data sd"
    "length (equip_index (index_item i sd)) = 11"
    "j < 11 \<Longrightarrow> equip_index (index_item i sd) ! j = (if at_place e j then int i else equip_index sd ! j)"
    "weapontype1 (index_item i sd) = (if at_place e 9 then look_of sd i else weapontype1 sd)"
    "weapontype2 (index_item i sd) = (if at_place e 8 then left_weapon sd i else weapontype2 sd)"
proof -
  have "left_weapon (sd\<lparr>equip_index := x, weapontype1 := y\<rparr>) i = left_weapon sd i" "left_weapon (sd\<lparr>equip_index := x\<rparr>) i = left_weapon sd i"
    "look_of (sd\<lparr>equip_index := x\<rparr>) i = look_of sd i" for x y
    by (simp_all add: left_weapon_def look_of_def cong: option.case_cong)
  then show "inventory (index_item i sd) = inventory sd" "inventory_data (index_item i sd) = inventory_data sd"
    "length (equip_index (index_item i sd)) = 11"
    "j < 11 \<Longrightarrow> equip_index (index_item i sd) ! j = (if at_place e j then int i else equip_index sd ! j)"
    "weapontype1 (index_item i sd) = (if at_place e 9 then look_of sd i else weapontype1 sd)"
    "weapontype2 (index_item i sd) = (if at_place e 8 then left_weapon sd i else weapontype2 sd)"
    using assms(1,2) nth_marked [OF assms(1), of j e "int i"] unfolding index_item_def Let_def and_places e_def [symmetric]
    by (cases "e = 0"; simp)+
qed

definition indexed :: "session \<Rightarrow> nat \<Rightarrow> session \<Rightarrow> bool" where
  "indexed sd k s \<longleftrightarrow> inventory s = inventory sd \<and> inventory_data s = inventory_data sd \<and> length (equip_index s) = 11 \<and>
     (\<forall>j < 11. \<forall>m < k. at_place (equip (inventory sd ! m)) j \<longrightarrow> equip_index s ! j = int m) \<and>
     (\<forall>j < 11. (\<forall>m < k. \<not> at_place (equip (inventory sd ! m)) j) \<longrightarrow> equip_index s ! j = - 1) \<and>
     (\<forall>m < k. at_place (equip (inventory sd ! m)) 9 \<longrightarrow> weapontype1 s = look_of sd m) \<and>
     ((\<forall>m < k. \<not> at_place (equip (inventory sd ! m)) 9) \<longrightarrow> weapontype1 s = weapontype1 sd) \<and>
     (\<forall>m < k. at_place (equip (inventory sd ! m)) 8 \<longrightarrow> weapontype2 s = left_weapon sd m) \<and>
     ((\<forall>m < k. \<not> at_place (equip (inventory sd ! m)) 8) \<longrightarrow> weapontype2 s = weapontype2 sd)"

lemma places_uniqueD:
  assumes "places_unique sd"
  shows "length (inventory sd) = MAX_INVENTORY" "n < MAX_INVENTORY \<Longrightarrow> equip (inventory sd ! n) \<noteq> 0 \<longrightarrow> 0 < nameid (inventory sd ! n)"
    "j < 11 \<Longrightarrow> m < MAX_INVENTORY \<Longrightarrow> n < MAX_INVENTORY \<Longrightarrow> at_place (equip (inventory sd ! m)) j \<Longrightarrow> at_place (equip (inventory sd ! n)) j \<Longrightarrow> m = n"
  using assms unfolding places_unique_def by blast+

lemma index_items:
  assumes u: "places_unique sd" and k: "k \<le> MAX_INVENTORY"
  shows "indexed sd k (fold index_item [0..<k] (sd\<lparr>equip_index := replicate 11 (- 1)\<rparr>))"
  using k
proof (induction k)
  case 0
  show ?case by (simp add: indexed_def)
next
  case (Suc k)
  let ?s = "fold index_item [0..<k] (sd\<lparr>equip_index := replicate 11 (- 1)\<rparr>)"
  have IH: "indexed sd k ?s" and k: "k < MAX_INVENTORY" using Suc by auto
  have i: "inventory ?s = inventory sd" "inventory_data ?s = inventory_data sd" "length (equip_index ?s) = 11"
    using IH by (simp_all add: indexed_def)
  have same: "look_of ?s k = look_of sd k" "left_weapon ?s k = left_weapon sd k" by (simp_all add: look_of_def left_weapon_def i cong: option.case_cong)
  have "equip (inventory ?s ! k) \<noteq> 0 \<longrightarrow> 0 < nameid (inventory ?s ! k)" using places_uniqueD(2) [OF u k] by (simp add: i)
  note f = index_item_fields [OF i(3) this, unfolded i(1,2) same]
  have not_k: "\<not> at_place (equip (inventory sd ! k)) j" if "j < 11" "m < k" "at_place (equip (inventory sd ! m)) j" for j m
    using places_uniqueD(3) [OF u that(1), of m k] that(2,3) k by auto
  show ?case
    using IH f not_k unfolding indexed_def by (simp add: less_Suc_eq all_conj_distrib)
qed

lemma pc_setequipindex_fields:
  assumes u: "places_unique sd" and t: "t = pc_setequipindex sd"
  shows "inventory t = inventory sd" "inventory_data t = inventory_data sd" "places_ok t"
    "weapontype1 t = (if equip_index t ! 9 \<ge> 0 then look_of sd (nat (equip_index t ! 9)) else weapontype1 sd)"
    "weapontype2 t = (if equip_index t ! 8 \<ge> 0 then left_weapon sd (nat (equip_index t ! 8)) else weapontype2 sd)"
    "weapon t = weapon_look (weapontype1 t) (weapontype2 t)"
proof -
  define s where "s = fold index_item [0..<MAX_INVENTORY] (sd\<lparr>equip_index := replicate 11 (- 1)\<rparr>)"
  have I: "indexed sd MAX_INVENTORY s" unfolding s_def by (rule index_items [OF u order_refl])
  have t': "t = s\<lparr>weapon := weapon_look (weapontype1 s) (weapontype2 s)\<rparr>"
    unfolding t pc_setequipindex_def pc_calcweapontype_eq s_def ..
  have f: "inventory t = inventory sd" "inventory_data t = inventory_data sd" "length (equip_index t) = 11" "equip_index t = equip_index s"
    "weapontype1 t = weapontype1 s" "weapontype2 t = weapontype2 s" "weapon t = weapon_look (weapontype1 s) (weapontype2 s)"
    using I unfolding t' by (simp_all add: indexed_def)
  have one: "\<exists>m < MAX_INVENTORY. at_place (equip (inventory sd ! m)) j \<and> equip_index s ! j = int m \<or>
      (\<forall>m < MAX_INVENTORY. \<not> at_place (equip (inventory sd ! m)) j) \<and> equip_index s ! j = - 1" if "j < 11" for j
    using I that unfolding indexed_def by (metis MAX_INVENTORY_def zero_less_numeral)
  show "inventory t = inventory sd" "inventory_data t = inventory_data sd" "weapon t = weapon_look (weapontype1 t) (weapontype2 t)"
    using f by simp_all
  have "equip_index s ! j = int n \<longleftrightarrow> at_place (equip (inventory sd ! n)) j" if "j < 11" "n < MAX_INVENTORY" for j n
    using one [OF that(1)] I that unfolding indexed_def by fastforce
  moreover have "equip_index s ! j = - 1 \<or> 0 \<le> equip_index s ! j \<and> equip_index s ! j < int MAX_INVENTORY" if "j < 11" for j
    using one [OF that] by auto
  ultimately show "places_ok t" using f(3) places_uniqueD(1) [OF u] unfolding places_ok_def f(1,4) by blast
  show "weapontype1 t = (if equip_index t ! 9 \<ge> 0 then look_of sd (nat (equip_index t ! 9)) else weapontype1 sd)"
    using one [of 9] I unfolding f(4,5) indexed_def by fastforce
  show "weapontype2 t = (if equip_index t ! 8 \<ge> 0 then left_weapon sd (nat (equip_index t ! 8)) else weapontype2 sd)"
    using one [of 8] I unfolding f(4,6) indexed_def by fastforce
qed

lemma places_ok_unique:
  assumes "places_ok sd" "\<forall>it \<in> set (inventory sd). equip it \<noteq> 0 \<longrightarrow> 0 < nameid it"
  shows "places_unique sd"
proof -
  note p = places_okD [OF assms(1)]
  have "m = n" if "j < 11" "m < MAX_INVENTORY" "n < MAX_INVENTORY" "at_place (equip (inventory sd ! m)) j" "at_place (equip (inventory sd ! n)) j" for j m n
    using p(3) [OF that(1,2)] p(3) [OF that(1,3)] that(4,5) by simp
  moreover have "equip (inventory sd ! n) \<noteq> 0 \<longrightarrow> 0 < nameid (inventory sd ! n)" if "n < MAX_INVENTORY" for n
    using assms(2) that p(2) by (metis nth_mem)
  ultimately show ?thesis using p(2) unfolding places_unique_def by blast
qed

text \<open>The places are those the inventory names: there is no other way to be well-formed.\<close>

lemma places_determined:
  assumes "places_ok a" "places_ok b" "inventory a = inventory b"
  shows "equip_index a = equip_index b"
proof (rule nth_equalityI)
  show "length (equip_index a) = length (equip_index b)" using assms(1,2) by (simp add: places_ok_def)
next
  fix j assume "j < length (equip_index a)"
  then have j: "j < 11" using places_okD(1) [OF assms(1)] by simp
  note pa = places_okD(3,4) [OF assms(1)] and pb = places_okD(3,4) [OF assms(2)]
  have same: "equip_index a ! j = int n \<longleftrightarrow> equip_index b ! j = int n" if "n < MAX_INVENTORY" for n
    using pa(1) [OF j that] pb(1) [OF j that] assms(3) by simp
  show "equip_index a ! j = equip_index b ! j"
  proof (cases "equip_index a ! j = - 1")
    case True
    then show ?thesis using pb(2) [OF j] same [of "nat (equip_index b ! j)"] by (auto simp: nat_less_iff)
  next
    case False
    then show ?thesis using pa(2) [OF j] same [of "nat (equip_index a ! j)"] by (auto simp: nat_less_iff)
  qed
qed

text \<open>What the loop before putting on leaves alone, and what not.\<close>

lemma clear_place_keeps:
  assumes env: "keeps_gear env" and sd: "places_ok sd" "looks_ok sd" and i: "i < 11"
    and m: "m < MAX_INVENTORY" "equip (inventory sd ! m) AND pos = 0"
  shows "equip (inventory (clear_place env pos i sd) ! m) = equip (inventory sd ! m)"
proof (cases "clear_place env pos i sd = sd")
  case False
  then have x: "equip (inventory sd ! nat (equip_index sd ! i)) AND pos \<noteq> 0" by (auto simp: clear_place_def split: if_splits)
  have "taken_off sd (nat (equip_index sd ! i)) (clear_place env pos i sd)" using clear_place_ok [OF env sd i, of pos] False by blast
  moreover have "m \<noteq> nat (equip_index sd ! i)" using x m(2) by auto
  ultimately show ?thesis by (simp add: taken_off_def)
qed simp

lemma clear_places_keep:
  assumes env: "keeps_gear env" and sd: "places_ok sd" "looks_ok sd" and k: "k \<le> 11"
    and m: "m < MAX_INVENTORY" "equip (inventory sd ! m) AND pos = 0"
  shows "equip (inventory (fold (clear_place env pos) [0..<k] sd) ! m) = equip (inventory sd ! m)"
  using k
proof (induction k)
  case (Suc k)
  let ?s = "fold (clear_place env pos) [0..<k] sd"
  have IH: "equip (inventory ?s ! m) = equip (inventory sd ! m)" and k: "k < 11" using Suc by auto
  have "cleared sd ?s" using clear_places_ok [OF env sd, of k pos] k by simp
  note step = clear_place_keeps [OF env clearedD [OF this] k m(1), of pos]
  then show ?case using IH m(2) by simp
qed simp

section \<open>Requests\<close>

datatype gear_request = Put_on int | Take_off int | Recheck

fun serve_gear :: "env \<Rightarrow> gear_request \<Rightarrow> session \<Rightarrow> session" where
  "serve_gear env (Put_on idx) sd = clif_parse_EquipItem env sd idx"
| "serve_gear env (Take_off idx) sd = clif_parse_UnequipItem env sd idx"
| "serve_gear env Recheck sd = unequip_all_forbidden env sd"

text \<open>Numbers of items begin above those of slots, and empty slots are not worn.\<close>

definition ids_ok :: "session \<Rightarrow> bool" where
  "ids_ok sd \<longleftrightarrow> (\<forall>n < MAX_INVENTORY. (nameid (inventory sd ! n) = 0 \<or> int MAX_INVENTORY \<le> nameid (inventory sd ! n)) \<and>
     (inventory_data sd ! n \<noteq> None \<or> equip (inventory sd ! n) \<noteq> 0 \<longrightarrow> nameid (inventory sd ! n) \<noteq> 0))"

definition gear_ok :: "env \<Rightarrow> session \<Rightarrow> bool" where
  "gear_ok env sd \<longleftrightarrow> keeps_gear env \<and> places_ok sd \<and> looks_ok sd \<and> ids_ok sd"

text \<open>
  An item that may be put on is not worn already, unless it is taken off first; it is no bow while the item in the first slot is
  worn as an accessory. Items for pets are not looked at.
\<close>

fun gear_request_ok :: "env \<Rightarrow> session \<Rightarrow> gear_request \<Rightarrow> bool" where
  "gear_request_ok env sd (Put_on idx) \<longleftrightarrow> (0 \<le> idx \<and> idx < int MAX_INVENTORY \<longrightarrow>
     (case inventory_data sd ! nat idx of Some d \<Rightarrow> item_type d \<noteq> 8 | None \<Rightarrow> True) \<and>
     (may_wear env sd (nat idx) \<longrightarrow> taken_off_first sd (nat idx) \<and>
       (look (itemdb env (nameid (inventory sd ! nat idx))) = 11 \<longrightarrow> equip_index sd ! 1 \<noteq> 0)))"
| "gear_request_ok env sd _ \<longleftrightarrow> True"

lemma ids_ok_keep:
  assumes "ids_ok sd" "places_ok sd" "bare t = bare sd"
    "\<And>m. m < MAX_INVENTORY \<Longrightarrow> equip (inventory t ! m) \<noteq> 0 \<Longrightarrow> equip (inventory sd ! m) \<noteq> 0 \<or> inventory_data sd ! m \<noteq> None"
  shows "ids_ok t"
proof -
  have "nameid (inventory t ! m) = nameid (inventory sd ! m)" if "m < MAX_INVENTORY" for m
    using bare_nameid [OF assms(3)] places_okD(2) [OF assms(2)] that by simp
  moreover have "inventory_data t = inventory_data sd" using assms(3) by (simp add: bare_def)
  ultimately show ?thesis using assms(1,4) unfolding ids_ok_def by (metis (no_types, lifting))
qed

lemma arrow_not_found:
  assumes sd: "places_ok sd" "ids_ok sd" and n: "n < MAX_INVENTORY" "may_wear env sd n" "gear_request_ok env sd (Put_on (int n))"
    and look: "look (itemdb env (nameid (inventory sd ! n))) = 11"
  shows "pc_search_inventory sd (pc_checkequip sd 9) < 0"
proof (rule no_arrow_found [OF sd(1)])
  show "equip_index sd ! 1 \<noteq> 0" using n look by simp
  show "\<forall>it \<in> set (inventory sd). nameid it = 0 \<or> int MAX_INVENTORY \<le> nameid it"
    using sd(2) places_okD(2) [OF sd(1)] unfolding ids_ok_def by (metis in_set_conv_nth)
qed

lemma setequipindex_same:
  assumes "places_ok sd" "looks_ok sd" "ids_ok sd"
  shows "gear (pc_setequipindex sd) = gear sd"
proof -
  have "\<forall>it \<in> set (inventory sd). equip it \<noteq> 0 \<longrightarrow> 0 < nameid it"
    using assms(3) places_okD(2) [OF assms(1)] by (auto simp: ids_ok_def in_set_conv_nth MAX_INVENTORY_def) (smt (verit))
  note f = pc_setequipindex_fields [OF places_ok_unique [OF assms(1) this] refl]
  have idx: "equip_index (pc_setequipindex sd) = equip_index sd" by (rule places_determined [OF f(3) assms(1) f(1)])
  have w: "weapontype1 sd = worn sd 9 (look_of sd)" "weapontype2 sd = worn sd 8 (left_weapon sd)" "weapon sd = weapon_look (weapontype1 sd) (weapontype2 sd)"
    using assms(2) by (simp_all add: looks_ok_def weapons_ok_def)
  have "weapontype1 (pc_setequipindex sd) = weapontype1 sd" "weapontype2 (pc_setequipindex sd) = weapontype2 sd"
    using f(4,5) w(1,2) unfolding idx worn_def by simp_all
  moreover have "shield (pc_setequipindex sd) = shield sd \<and> head_bottom (pc_setequipindex sd) = head_bottom sd \<and>
      head_top (pc_setequipindex sd) = head_top sd \<and> head_mid (pc_setequipindex sd) = head_mid sd"
  proof -
    let ?P = "\<lambda>s. shield s = shield sd \<and> head_bottom s = head_bottom sd \<and> head_top s = head_top sd \<and> head_mid s = head_mid sd"
    have "?P (index_item i s)" if "?P s" for i s using that by (simp add: index_item_def Let_def)
    then have "?P (fold index_item is s)" if "?P s" for "is" s using that by (induction "is" arbitrary: s) simp_all
    then show ?thesis unfolding pc_setequipindex_def pc_calcweapontype_eq by simp
  qed
  ultimately show ?thesis using f(1,2,6) w(3) idx by (simp add: gear_def)
qed

lemma and_8_iff: "(x::int) AND 0x88 = 0x08 \<longleftrightarrow> bit x 3 \<and> \<not> bit x 7"
proof -
  have b: "bit (0x88::int) n \<longleftrightarrow> n = 3 \<or> n = 7" "bit (0x08::int) n \<longleftrightarrow> n = 3" for n
  proof -
    have "bit (2 ^ 3 OR 2 ^ 7 :: int) n \<longleftrightarrow> n = 3 \<or> n = 7" "bit (2 ^ 3 :: int) n \<longleftrightarrow> n = 3"
      unfolding bit_or_iff bit_exp_iff by auto
    then show "bit (0x88::int) n \<longleftrightarrow> n = 3 \<or> n = 7" "bit (0x08::int) n \<longleftrightarrow> n = 3" by simp_all
  qed
  have "x AND 0x88 = 0x08 \<longleftrightarrow> (\<forall>n. bit x n \<and> (n = 3 \<or> n = 7) \<longleftrightarrow> n = 3)" by (subst bit_eq_iff) (simp add: bit_and_iff b)
  also have "\<dots> \<longleftrightarrow> bit x 3 \<and> \<not> bit x 7" 
  proof
    assume all: "\<forall>n. bit x n \<and> (n = 3 \<or> n = 7) \<longleftrightarrow> n = 3"
    then show "bit x 3 \<and> \<not> bit x 7" using spec [OF all, of 3] spec [OF all, of 7] by simp
  qed auto
  finally show ?thesis .
qed

text \<open>An accessory goes to a place that is free when there is one.\<close>

lemma chosen_accessory:
  assumes sd: "places_ok sd" and e: "pc_equippoint sd n = 0x88" and d: "inventory_data sd ! n \<noteq> None"
    and free: "equip_index sd ! 0 = - 1 \<or> equip_index sd ! 1 = - 1"
  shows "chosen_place sd n = 0x80 \<or> chosen_place sd n = 0x08"
    "m < MAX_INVENTORY \<Longrightarrow> equip (inventory sd ! m) AND chosen_place sd n = 0"
proof -
  note p = places_okD [OF sd]
  define w where "w = worn_places sd 0 OR worn_places sd 1"
  have chosen: "chosen_place sd n = (if w AND 0x88 = 0x08 then 0x80 else 0x08)"
    using d e by (auto simp: chosen_place_def choose_accessory_def choose_hand_def w_def split: option.split)
  then show "chosen_place sd n = 0x80 \<or> chosen_place sd n = 0x08" by simp
  have at: "at_place x 0 = bit x 7" "at_place x 1 = bit x 3" for x by (simp_all add: place_bits_def)
  have item: "bit (equip (inventory sd ! m)) 7 \<longleftrightarrow> equip_index sd ! 0 = int m" "bit (equip (inventory sd ! m)) 3 \<longleftrightarrow> equip_index sd ! 1 = int m"
    if "m < MAX_INVENTORY" for m using p(3) [of 0 m] p(3) [of 1 m] that at by simp_all
  have w: "bit w k \<longleftrightarrow> (\<exists>i \<in> {0, 1}. equip_index sd ! i \<noteq> - 1 \<and> bit (equip (inventory sd ! nat (equip_index sd ! i))) k)" for k
    using p(4) [of 0] p(4) [of 1] by (auto simp: w_def worn_places_def bit_or_iff)
  have "equip (inventory sd ! m) AND chosen_place sd n = 0" if m: "m < MAX_INVENTORY" for m
  proof (cases "equip_index sd ! 1 = - 1")
    case True
    then have "\<not> bit (equip (inventory sd ! k)) 3" if "k < MAX_INVENTORY" for k using item(2) [OF that] by simp
    then have "\<not> bit w 3" "\<not> bit (equip (inventory sd ! m)) 3" using w [of 3] p(4) [of 0] True m by auto
    then show ?thesis using chosen and_8_iff [of w] and_exp_eq_0_iff_not_bit [of "equip (inventory sd ! m)" 3] by simp
  next
    case False
    then have i: "equip_index sd ! 0 = - 1" "nat (equip_index sd ! 1) < MAX_INVENTORY" "equip_index sd ! 1 = int (nat (equip_index sd ! 1))"
      using free p(4) [of 1] by auto
    then have "\<not> bit (equip (inventory sd ! k)) 7" if "k < MAX_INVENTORY" for k using item(1) [OF that] by simp
    moreover have "bit (equip (inventory sd ! nat (equip_index sd ! 1))) 3" using item(2) [OF i(2)] i(3) by simp
    ultimately have "bit w 3" "\<not> bit w 7" "\<not> bit (equip (inventory sd ! m)) 7" using w [of 3] w [of 7] False i m by auto
    then show ?thesis using chosen and_8_iff [of w] and_exp_eq_0_iff_not_bit [of "equip (inventory sd ! m)" 7] by simp
  qed
  then show "m < MAX_INVENTORY \<Longrightarrow> equip (inventory sd ! m) AND chosen_place sd n = 0" by blast
qed

text \<open>
  C38: The requests to put items on and to take them off, and the loop after a change of class, keep equipment well-formed: at
  each place at most one item is worn, \<open>equip_index\<close> is its number, and the weapons, the shield and the head gear that others
  see are those worn. No item changes in anything but where it is worn, and the places and weapons are just those that
  \<open>pc_setequipindex\<close> calculates from the inventory. Two requests that the code accepts are excepted, and they can break this: to put
  on an item that is worn already, at other places than it is put on at (an accessory or a weapon for either hand; the ring
  of the last section is such a case), and a bow while the item in slot 0 is worn as an accessory at place 0x08, when an empty slot is taken
  for the arrows. Items for pets are not looked at, and the recalculation of the player, the check of skills and the scripts of
  items keep the equipment (\<open>keeps_gear\<close>).
\<close>

theorem gear_requests_ok:
  assumes ok: "gear_ok env sd" and r: "gear_request_ok env sd r" and t: "t = serve_gear env r sd"
  shows "gear_ok env t \<and> bare t = bare sd \<and> gear (pc_setequipindex t) = gear t"
proof -
  have env: "keeps_gear env" and sd: "places_ok sd" "looks_ok sd" "ids_ok sd" using ok by (simp_all add: gear_ok_def)
  have inv: "length (inventory sd) = MAX_INVENTORY" using places_okD(2) [OF sd(1)] .
  consider (same) "gear t = gear sd" | (off) "cleared sd t"
    | (on) n where "n < MAX_INVENTORY" "may_wear env sd n" "t = pc_equipitem env sd n" "gear_request_ok env sd (Put_on (int n))"
  proof (cases r)
    case (Put_on idx)
    have idx: "gear t = gear sd \<or> 0 \<le> idx \<and> idx < int MAX_INVENTORY \<and> t = pc_equipitem env sd (nat idx)"
      using r unfolding t Put_on by (auto simp: clif_parse_EquipItem_def split: option.split)
    show thesis
    proof (cases "gear t = gear sd")
      case True
      then show thesis by (rule same)
    next
      case False
      then have "may_wear env sd (nat idx)" using idx pc_equipitem_not by auto
      then show thesis using on [of "nat idx"] idx False r Put_on by (auto simp: nat_less_iff)
    qed
  next
    case (Take_off idx)
    have "gear t = gear sd \<or> 0 \<le> idx \<and> idx < int MAX_INVENTORY \<and> t = pc_unequipitem env sd (nat idx) 1"
      unfolding t Take_off by (simp add: clif_parse_UnequipItem_def)
    then show thesis using same off unequip_cleared [OF env sd(1,2), of "nat idx" 1] by (auto simp: nat_less_iff)
  next
    case Recheck
    then show thesis using off unequip_all_forbidden_cleared [OF env sd(1,2)] t by simp
  qed
  then have "places_ok t \<and> looks_ok t \<and> bare t = bare sd \<and> ids_ok t"
  proof cases
    case same
    then show ?thesis using gear_ok_cong [OF same] sd bare_gear [OF same] gear_eq [OF same] by (simp add: ids_ok_def)
  next
    case off
    then have "ids_ok t" by (intro ids_ok_keep [OF sd(3,1) bare_cleared]) (auto simp: cleared_def)
    then show ?thesis using off bare_cleared clearedD by blast
  next
    case (on n)
    let ?pos = "chosen_place sd n" and ?s = "fold (clear_place env (chosen_place sd n)) [0..<11] sd"
    have "taken_off_first sd n" using on(1,2,4) by simp
    note q = pc_equipitem_ok [OF env sd(1,2) on(1) this arrow_not_found [OF sd(1,3) on(1,2,4)] on(2,3), unfolded Let_def]
    have cl: "cleared sd ?s" using clear_places_ok [OF env sd(1,2) order_refl] by blast
    have "ids_ok t"
    proof (rule ids_ok_keep [OF sd(3,1)])
      show "bare t = bare sd" using q by blast
      fix m assume m: "m < MAX_INVENTORY" "equip (inventory t ! m) \<noteq> 0"
      show "equip (inventory sd ! m) \<noteq> 0 \<or> inventory_data sd ! m \<noteq> None"
      proof (cases "m = n")
        case True
        then show ?thesis using on(2) by (simp add: may_wear_def)
      next
        case False
        then have "equip (inventory t ! m) = equip (inventory ?s ! m)" using q by simp
        then show ?thesis using cl m unfolding cleared_def by metis
      qed
    qed
    then show ?thesis using q by blast
  qed
  then show ?thesis using env setequipindex_same by (simp add: gear_ok_def)
qed

text \<open>
  C39: An item that may be worn is put on where it belongs: it is worn at the chosen place, what was worn there is taken off, and
  what shares no place with it stays on. An accessory takes nothing off when one of the two places for accessories is free.
  The requests excepted are those of the property before.
\<close>

theorem pc_equipitem_correct:
  assumes ok: "gear_ok env sd" and n: "n < MAX_INVENTORY" "may_wear env sd n" "gear_request_ok env sd (Put_on (int n))"
    and t: "t = pc_equipitem env sd n"
  shows "equip (inventory t ! n) = u16 (chosen_place sd n) \<and>
    (\<forall>m < MAX_INVENTORY. m \<noteq> n \<longrightarrow>
      (equip (inventory sd ! m) AND chosen_place sd n = 0 \<longrightarrow> equip (inventory t ! m) = equip (inventory sd ! m)) \<and>
      ((\<exists>j < 11. at_place (equip (inventory sd ! m)) j \<and> at_place (chosen_place sd n) j) \<longrightarrow> equip (inventory t ! m) = 0)) \<and>
    (pc_equippoint sd n = 0x88 \<and> (equip_index sd ! 0 = - 1 \<or> equip_index sd ! 1 = - 1) \<longrightarrow>
      (\<forall>m < MAX_INVENTORY. m \<noteq> n \<longrightarrow> equip (inventory t ! m) = equip (inventory sd ! m)))"
proof -
  let ?pos = "chosen_place sd n" and ?s = "fold (clear_place env (chosen_place sd n)) [0..<11] sd"
  have env: "keeps_gear env" and sd: "places_ok sd" "looks_ok sd" "ids_ok sd" using ok by (simp_all add: gear_ok_def)
  have n0: "taken_off_first sd n" using n by simp
  have dat: "inventory_data sd ! n \<noteq> None" using n(2) by (simp add: may_wear_def)
  note q = pc_equipitem_ok [OF env sd(1,2) n(1) n0 arrow_not_found [OF sd(1,3) n] n(2) t, unfolded Let_def]
  note cl = clear_places_ok [OF env sd(1,2) order_refl, of ?pos]
  have "n < length (inventory ?s)" using cl places_okD(2) [of ?s] n(1) by (simp add: cleared_def)
  then have "equip (inventory t ! n) = u16 ?pos" using q by simp
  moreover have other: "equip (inventory t ! m) = equip (inventory ?s ! m)" if "m \<noteq> n" for m using q that by simp
  have keep: "equip (inventory t ! m) = equip (inventory sd ! m)" if "m < MAX_INVENTORY" "m \<noteq> n" "equip (inventory sd ! m) AND ?pos = 0" for m
    using clear_places_keep [OF env sd(1,2) order_refl that(1,3)] other [OF that(2)] by simp
  moreover have "equip (inventory t ! m) = 0"
    if "m < MAX_INVENTORY" "m \<noteq> n" "\<exists>j < 11. at_place (equip (inventory sd ! m)) j \<and> at_place ?pos j" for m
    using cleared_off [OF sd(1) conjunct1 [OF cl] _ _ that(1)] cl that(3) other [OF that(2)] by auto
  moreover have "equip (inventory t ! m) = equip (inventory sd ! m)"
    if "pc_equippoint sd n = 0x88" "equip_index sd ! 0 = - 1 \<or> equip_index sd ! 1 = - 1" "m < MAX_INVENTORY" "m \<noteq> n" for m
    using keep [OF that(3,4)] chosen_accessory(2) [OF sd(1) that(1) dat that(2,3)] by simp
  ultimately show ?thesis by blast
qed

text \<open>
  C40: An accessory that is worn at the place 0x08 and is put on again, while the other is free, is worn at both: \<open>equip_index\<close> has it twice, though
  the item says that it is worn at the second place alone. The bonus of the item then counts twice.
\<close>

theorem accessory_worn_twice:
  assumes env: "keeps_gear env" and sd: "places_ok sd" "looks_ok sd" and n: "n < MAX_INVENTORY" "equip (inventory sd ! n) = 0x08"
    and may: "may_wear env sd n" "pc_equippoint sd n = 0x88" and free: "equip_index sd ! 0 = - 1"
    and no_bow: "look (itemdb env (nameid (inventory sd ! n))) \<noteq> 11"
  shows "equip_index (pc_equipitem env sd n) ! 0 = int n \<and> equip_index (pc_equipitem env sd n) ! 1 = int n \<and>
    equip (inventory (pc_equipitem env sd n) ! n) = 0x80"
proof -
  let ?t = "pc_equipitem env sd n" and ?pos = "chosen_place sd n"
  note p = places_okD [OF sd(1)]
  have dat: "inventory_data sd ! n \<noteq> None" using may(1) by (simp add: may_wear_def)
  have i1: "equip_index sd ! 1 = int n" using p(3) [of 1 n] n by (simp add: place_bits_def numeral_eq_Suc)
  have "worn_places sd 0 = 0" "worn_places sd 1 = 0x08" using free i1 n(2) by (simp_all add: worn_places_def)
  then have pos: "?pos = 0x80"
    using dat may(2) by (auto simp: chosen_place_def choose_accessory_def choose_hand_def split: option.split)
  have "\<not> bit (equip (inventory sd ! m)) 7" if "m < MAX_INVENTORY" for m
    using p(3) [of 0 m] that free by (simp add: place_bits_def)
  then have spare: "equip (inventory sd ! m) AND ?pos = 0" if "m < MAX_INVENTORY" for m
    using that pos and_exp_eq_0_iff_not_bit [of "equip (inventory sd ! m)" 7] by simp
  have "clear_place env ?pos i sd = sd" if "i < 11" for i
  proof -
    have "equip (inventory sd ! nat (equip_index sd ! i)) AND ?pos = 0" if "0 \<le> equip_index sd ! i"
    proof -
      have "nat (equip_index sd ! i) < MAX_INVENTORY" using that p(4) [OF \<open>i < 11\<close>] by auto
      then show ?thesis using spare [of "nat (equip_index sd ! i)"] by simp
    qed
    then have "\<not> (equip_index sd ! i \<ge> 0 \<and> equip (inventory sd ! nat (equip_index sd ! i)) AND ?pos \<noteq> 0)" by blast
    then show ?thesis unfolding clear_place_def by (rule if_not_P)
  qed
  then have folded: "fold (clear_place env ?pos) is sd = sd" if "set is \<subseteq> {..<11}" for "is" using that by (induction "is") simp_all
  have all: "fold (clear_place env ?pos) [0..<11] sd = sd" by (rule folded) auto
  obtain s where g: "gear s = gear sd" "gear ?t = gear (put_on_looks n ?pos s)"
    using pc_equipitem_gear [OF env sd n(1) _ may(1)] no_bow unfolding all by metis
  obtain d where d: "inventory_data s ! n = Some d" using dat unfolding gear_eq [OF g(1)] by auto
  have len: "n < length (inventory s)" "length (equip_index s) = 11" using p(1,2) n(1) unfolding gear_eq [OF g(1)] by simp_all
  note f = put_on_fields [OF len(1) d len(2) refl [of "put_on_looks n ?pos s"]]
  have at: "at_place ?pos 0" "\<not> at_place ?pos 1" by (simp_all add: pos place_bits_def)
  have "equip (inventory ?t ! n) = 0x80" unfolding gear_eq [OF g(2)] f(1) using len(1) by (simp add: pos u16_id)
  moreover have "equip_index ?t ! 0 = int n" "equip_index ?t ! 1 = int n"
    unfolding gear_eq [OF g(2)] using f(4) [of 0] f(4) [of 1] at i1 gear_eq [OF g(1)] by simp_all
  ultimately show ?thesis by blast
qed

section \<open>Witnesses\<close>

definition ring :: item_data where
  "ring = (itemdb plain_env 2601)\<lparr>item_type := 5, equip_place := 0x88\<rparr>"

text \<open>A player with a ring in the first slot, worn at \<open>e\<close>.\<close>

definition ring_bearer :: "int \<Rightarrow> session" where
  "ring_bearer e = (plain_session 1 0 [] [])\<lparr>inventory := (stack 2601 1)\<lparr>equip := e\<rparr> # replicate 99 blank,
     inventory_data := Some ring # replicate 99 None,
     equip_index := (replicate 11 (- 1))[1 := (if e = 0x08 then 0 else - 1)]\<rparr>"

lemma ring_bearer_places:
  assumes "e = 0 \<or> e = 0x08"
  shows "places_ok (ring_bearer e) \<and> looks_ok (ring_bearer e) \<and> ids_ok (ring_bearer e)"
proof -
  have nth: "inventory (ring_bearer e) ! m = (if m = 0 then (stack 2601 1)\<lparr>equip := e\<rparr> else blank)"
    "inventory_data (ring_bearer e) ! m = (if m = 0 then Some ring else None)" if "m < MAX_INVENTORY" for m
    using that by (cases m; simp add: ring_bearer_def MAX_INVENTORY_def)+
  have eight: "bit (8::int) k \<longleftrightarrow> k = 3" for k using bit_exp_iff [of 3 k, where 'a = int] by auto
  have idx: "equip_index (ring_bearer e) ! j = (if j = 1 \<and> e = 0x08 then 0 else - 1)" if "j < 11" for j
    using that by (simp add: ring_bearer_def nth_list_update)
  have "list_all (\<lambda>j. place_bits ! j = 3 \<longleftrightarrow> j = 1) [0..<11]" by code_simp
  then have three: "place_bits ! j = 3 \<longleftrightarrow> j = 1" if "j < 11" for j using that by (simp add: list_all_iff)
  have "equip_index (ring_bearer e) ! j = int n \<longleftrightarrow> at_place (equip (inventory (ring_bearer e) ! n)) j" if "j < 11" "n < MAX_INVENTORY" for j n
    using assms three [OF that(1)] by (auto simp: nth(1) [OF that(2)] idx [OF that(1)] eight)
  then have "places_ok (ring_bearer e)"
    using idx by (auto simp: places_ok_def) (simp_all add: ring_bearer_def MAX_INVENTORY_def)
  moreover have "look_of (ring_bearer e) n = 0" "left_weapon (ring_bearer e) n = 0" "shield_of (ring_bearer e) n = 0" if "n < MAX_INVENTORY" for n
    using nth(2) [OF that] by (simp_all add: look_of_def left_weapon_def shield_of_def ring_def plain_env_def)
  then have "worn (ring_bearer e) j (look_of (ring_bearer e)) = 0" "worn (ring_bearer e) j (left_weapon (ring_bearer e)) = 0"
    "worn (ring_bearer e) j (shield_of (ring_bearer e)) = 0" if "j < 11" for j
    using idx [OF that] by (simp_all add: worn_def MAX_INVENTORY_def)
  then have "looks_ok (ring_bearer e)"
    unfolding looks_ok_def weapons_ok_def by (simp add: ring_bearer_def plain_session_def weapon_look_def)
  moreover have "ids_ok (ring_bearer e)"
    using nth by (simp add: ids_ok_def stack_def MAX_INVENTORY_def)
  ultimately show ?thesis by blast
qed

lemma ring_bearer_wears: "e = 0 \<or> e = 0x08 \<Longrightarrow> may_wear plain_env (ring_bearer e) 0 \<and> pc_equippoint (ring_bearer e) 0 = 0x88"
  by (auto simp: may_wear_def pc_equippoint_def pc_isequip_def ring_bearer_def plain_session_def ring_def plain_env_def stack_def blank_def)

lemma keeps_gear_plain: "keeps_gear plain_env"
  by (simp add: keeps_gear_def plain_env_def)

lemma gear_ok_ring: "gear_ok plain_env (ring_bearer 0)"
  using ring_bearer_places [of 0] keeps_gear_plain by (simp add: gear_ok_def)

lemma gear_requests_ok_witness:
  "gear_ok plain_env (clif_parse_EquipItem plain_env (ring_bearer 0) 0)"
  using gear_requests_ok [OF gear_ok_ring _ refl, of "Put_on 0"]
  by (simp add: taken_off_first_def ring_bearer_def stack_def blank_def ring_def plain_env_def)

lemma pc_equipitem_correct_witness:
  "equip (inventory (pc_equipitem plain_env (ring_bearer 0) 0) ! 0) = u16 (chosen_place (ring_bearer 0) 0)"
proof -
  have r: "gear_request_ok plain_env (ring_bearer 0) (Put_on (int 0))" by (simp add: taken_off_first_def ring_bearer_def stack_def blank_def ring_def plain_env_def)
  have n: "0 < MAX_INVENTORY" by (simp add: MAX_INVENTORY_def)
  from pc_equipitem_correct [OF gear_ok_ring n _ r refl] ring_bearer_wears [of 0] show ?thesis by blast
qed

lemma accessory_worn_twice_witness:
  "equip_index (pc_equipitem plain_env (ring_bearer 8) 0) ! 0 = 0 \<and> equip_index (pc_equipitem plain_env (ring_bearer 8) 0) ! 1 = 0"
proof -
  have n: "0 < MAX_INVENTORY" "equip (inventory (ring_bearer 8) ! 0) = 0x08" "equip_index (ring_bearer 8) ! 0 = - 1"
    "look (itemdb plain_env (nameid (inventory (ring_bearer 8) ! 0))) \<noteq> 11"
    by (simp_all add: MAX_INVENTORY_def ring_bearer_def plain_env_def)
  have "places_ok (ring_bearer 8)" "looks_ok (ring_bearer 8)" using ring_bearer_places [of 8] by simp_all
  from accessory_worn_twice [OF keeps_gear_plain this n(1,2) _ _ n(3,4)] ring_bearer_wears [of 8] show ?thesis by simp
qed

end
