(* ===== verification/Spec2Isabelle.thy ===== *)
theory Spec2Isabelle
  imports Prelude RedBlack DbTable DbOrder DbOps DbWalk DbKeys Item Session Inventory
    Storage StorageProofs Trade TradeProofs Vending VendingProofs Shop ShopProofs Path PathProofs
    Registers ScriptCode ScriptParse ScriptVM ScriptProofs ScriptRun Timer TimerProofs CLib IntParty IntPartyProofs IntPartyFile Manner Chat ChatProofs ChatRooms
    SkillTree SkillTreeData SkillTreeProofs Leveling Growth GrowthProofs IntGuild IntGuildProofs Equip EquipProofs
begin

text \<open>
  A model of the core of Nezumi, an emulator of the Ragnarok Online server written in C (directory \<open>src/src\<close>).

  The program is three servers. A login server keeps accounts (\<open>login\<close>), a character server keeps characters, storages,
  parties, guilds and pets (\<open>char\<close>, or \<open>char_sql\<close> with a database), and map servers run the world (\<open>map\<close>): they hold the
  sessions of the players, answer their packets (\<open>clif.c\<close>), move monsters and run the scripts of the NPCs. All three
  share \<open>common\<close>: tables (\<open>db.c\<close>), timers (\<open>timer.c\<close>) and sockets. A server is one thread: between two packets or
  timers its state is consistent, and concurrency is the order in which packets of different players come. The model
  follows this: a handler is a function from states to states, clients may send what they like, and what holds of the
  state is shown for every order of requests.

  Errors are values. \<open>None\<close>, or a constructor like \<open>Exit\<close> and \<open>Overrun\<close> of the parser, is where the C program would
  follow a null pointer, write outside an array, call \<open>exit\<close> or not return; a theorem that a handler has a result shows that this
  does not happen. Integers are \<open>int\<close>, cut to the width of the field wherever the code stores them (\<open>u8\<close>, \<open>s16\<close>,
  \<open>s32\<close> and so on of \<open>Prelude\<close>); division is C's (\<open>cdiv\<close>). Strings are lists of characters without the final 0.
  Pointers to sessions and rooms are the numbers that stand for them. What is sent to clients and to other servers is
  recorded as values, not encoded.

  \<^item> \<open>Prelude\<close>: widths, C's division, strings in fixed buffers, lemmas on lists; \<open>CLib\<close>: what the code uses of the C
    library (\<open>isspace\<close>, \<open>strtol\<close>, \<open>sscanf\<close>, \<open>strstr\<close>, \<open>fgets\<close>).

  \<^item> \<open>RedBlack\<close>, \<open>DbTable\<close> (\<open>common/db.c\<close>): the red-black tree of a bucket with the rebalancing after insertion and
    erasure, and the hash table of trees with its pool of nodes and deferred erasure. \<open>DbOps\<close>, \<open>DbOrder\<close> and \<open>DbWalk\<close>
    show, in the locale \<open>key_order\<close> (what a table expects of its comparison and hash functions), that every operation
    keeps the tables well-formed and acts on the bindings as it should; \<open>DbKeys\<close> interprets the locale for the tables
    of the servers, with integer keys and with strings, and has the results: a table is a finite map.

  \<^item> \<open>Item\<close>, \<open>Session\<close>, \<open>Inventory\<close> (\<open>include/mmo.h\<close>, \<open>map/itemdb.c\<close>, \<open>map/pc.c\<close>): items, the session of a player,
    adding and removing items, cart and purse. The locales \<open>item_source\<close>, \<open>item_sink\<close> and \<open>item_move\<close> are the
    contract of a container: what is taken from one and put into another is conserved. Inventory, cart and both
    storages are interpretations, and the handlers that move items use the lemmas of the locales.

  \<^item> \<open>Equip\<close>, \<open>EquipProofs\<close> (\<open>map/pc.c\<close>): putting items on and taking them off. \<open>equip_index\<close>, the field \<open>equip\<close> of the
    items and what others see of them say the same, in any order of requests but two that the
    code should refuse; an item is worn where it belongs. One theorem is such a fault: an accessory that is worn and put on
    again is at both places.

  \<^item> \<open>Storage\<close>, \<open>Trade\<close>, \<open>Vending\<close>, \<open>Shop\<close> (\<open>map/storage.c\<close>, \<open>trade.c\<close>, \<open>vending.c\<close>, \<open>npc.c\<close>, and their packets in
    \<open>clif.c\<close>), each with its theory of proofs: whatever packets come and in whatever order, no item and no zeny is
    made or lost, and sessions stay well-formed, but for the cases of the findings.

  \<^item> \<open>Path\<close>, \<open>PathProofs\<close> (\<open>map/path.c\<close>, cells of \<open>map/map.c\<close>): the search for a way with its heap, lines, pushes.

  \<^item> \<open>Registers\<close> (\<open>map/pc.c\<close>, \<open>map/script.c\<close>): the variables of players and of the server. \<open>ScriptCode\<close>,
    \<open>ScriptParse\<close>, \<open>ScriptVM\<close> (\<open>map/script.c\<close>): the code of scripts and the table of names, the parser, the machine.
    \<open>ScriptProofs\<close> and \<open>ScriptRun\<close> take an expression through all three: printed, parsed to the code of a reference
    compiler, and run to its value.

  \<^item> \<open>Timer\<close>, \<open>TimerProofs\<close> (\<open>common/timer.c\<close>): timers, the waiting list in both its searches, and the loop that calls
    them; the locale \<open>timer_client\<close> is what the called functions may do with the module.

  \<^item> \<open>IntParty\<close>, \<open>IntPartyProofs\<close>, \<open>IntPartyFile\<close> (\<open>char/int_party.c\<close>): the parties of the character server and
    their file. \<open>IntGuild\<close>, \<open>IntGuildProofs\<close> (\<open>char/int_guild.c\<close>): its guilds and castles, with the requests of the map
    servers: what every request keeps, how experience becomes levels (a third interpretation of \<open>leveling\<close>), and what
    is left of a guild when its last member leaves. The invariant carries the guilds and castles of which a request took a
    part of it away (a level that was lowered, a castle given to nobody), and the requests without a result are named. The files of guilds and castles are not modelled.

  \<^item> \<open>Manner\<close> (\<open>map/clif.c\<close>): bad words. \<open>Chat\<close>, \<open>ChatProofs\<close>, \<open>ChatRooms\<close> (\<open>map/chat.c\<close>): chat rooms.

  \<^item> \<open>SkillTree\<close>, \<open>SkillTreeProofs\<close> (\<open>map/pc.c\<close>): which skills a character may learn, and with how many points.
    \<open>SkillTreeData\<close> has the rows of \<open>src/db/skill_tree.txt\<close> and the settings that come with the program; what the theorems
    ask of tables and settings is shown of them, and the witnesses run on them.
    \<open>Growth\<close>, \<open>GrowthProofs\<close> (\<open>map/pc.c\<close>, \<open>map/guild.c\<close>): experience, levels, attributes. Raising the base level and
    the level of the job are interpretations of one locale, \<open>leveling\<close> of the theory \<open>Leveling\<close>; each change ends with the calculation of the
    skill tree, and its theorem is what the invariant of growth rests on.

  Bounds. Recursion follows the data, or a measure, where the loop is bounded by it. Loops that may not end are partial
  functions, whose result \<open>None\<close> is not returning: the path search, the long line, emptying a room, the calculation of
  the skill tree, raising levels, \<open>do_timer\<close>; that they return is a theorem. The parser of expressions has a bound on the depth of calls,
  \<open>131 * length + 2\<close>, as the loop over the arguments of a call may go round 128 times without reading a character;
  \<open>parse_subexpr_ends\<close> shows that it is enough and that a greater one changes nothing. The bound on the loop over lines is the length of the text: \<open>parse_lines_ends_or_loops\<close> shows that a result
  with it is a result with any, and that without one the loop does not end. The machine runs as long as the counter of
  commands (\<open>check_cmdcount\<close>) allows. Buffers of \<open>fgets\<close> are 8191 characters for the file of parties and 79 for bad words, as
  in the code; a line that is longer is cut in pieces, and the theorem on the file shows that no line is.

  Not modelled. Battle, skills in use, status changes, monsters, pets and mercenaries (\<open>battle.c\<close>, \<open>skill.c\<close>, \<open>status.c\<close>,
  \<open>mob.c\<close>, \<open>pet.c\<close>) are tables of numbers from data files put through random numbers and floating point, with no
  contract but the formulas themselves. The commands of game masters (\<open>atcommand.c\<close>) and the commands of scripts that act on the
  game call the operations modelled here and hundreds of others; they are a parameter of the machine. Sockets, files
  and locks, the encoding of packets, the loading of data files, start-up and shutdown are input and output. The
  rest of the character and login servers, mail and the versions for SQL keep records in files or a database, much as
  the parties do; the map server keeps copies of parties and guilds. \<open>db_sqlite\<close> is the library SQLite, vendored, and not part of this program.
\<close>

end
